(* ===== verification/Prelude.thy ===== *)
theory Prelude
  imports Complex_Main "HOL-Library.List_Lexorder" "HOL-Library.Char_ord"
    "HOL-Library.Product_Lexorder" "HOL-Library.Multiset"
begin

text \<open>
  Vocabulary shared by every component: the exceptions of the code as values of a sum type,
  the string and time checks of \<^verbatim>\<open>tgcurator/shared\<close> and of the dataclass validators, and Python
  dictionaries as association lists in insertion order, with the lemmas the component
  theories rewrite with.

  Strings are \<open>string\<close>, characters being the code points below 256; the order on strings
  is the lexicographic one by code point (\<^verbatim>\<open>List_Lexorder\<close> over \<^verbatim>\<open>Char_ord\<close>), as in Python.
\<close>

section \<open>Exceptions as values\<close>

text \<open>
  \<open>DomainValidationError\<close> carries the message of the raise statement (its constant part when
  the message is formatted); the other constructors are the built-in exceptions that the
  modelled code can let through, and the database errors of a violated constraint and of a value
  that does not fit its column.
\<close>

datatype error =
    DomainValidationError string
  | TypeError
  | OverflowError
  | KeyError
  | IndexError
  | AssertionError
  | ValueError
  | RuntimeError
  | IntegrityError
  | DataError
  | OSError

type_synonym 'a result = "error + 'a"

named_theorems result_simps \<open>equations and inversions for checked computations\<close>
named_theorems dict_simps \<open>lookup laws of insertion-ordered dictionaries\<close>

definition fail :: "string \<Rightarrow> 'a result" where
  "fail m = Inl (DomainValidationError m)"

lemma fail_neq_Inr [simp]: "fail m \<noteq> Inr x" "Inr x \<noteq> fail m"
  by (simp_all add: fail_def)

lemma isl_fail [simp]: "isl (fail m)"
  by (simp add: fail_def)

text \<open>The message of a failure is never rewritten by the simplifier.\<close>

lemma fail_cong [cong]: "fail m = fail m"
  by (rule refl)

definition try_bind :: "'e + 'a \<Rightarrow> ('a \<Rightarrow> 'e + 'b) \<Rightarrow> 'e + 'b" where
  "try_bind r f = (case r of Inl e \<Rightarrow> Inl e | Inr x \<Rightarrow> f x)"

lemma try_bind_sum [simp]:
  "try_bind (Inl e) f = Inl e"
  "try_bind (Inr x) f = f x"
  by (simp_all add: try_bind_def)

lemma try_bind_fail [simp]: "try_bind (fail m) f = fail m"
  by (simp add: try_bind_def fail_def)

lemmas try_bind_simps = try_bind_sum try_bind_fail

lemma try_bind_Inr [result_simps]:
  "(try_bind r f = Inr y) \<longleftrightarrow> (\<exists>x. r = Inr x \<and> f x = Inr y)"
  by (cases r) auto

lemma try_bind_Inl [result_simps]:
  "(try_bind r f = Inl e) \<longleftrightarrow> r = Inl e \<or> (\<exists>x. r = Inr x \<and> f x = Inl e)"
  by (cases r) auto

lemma try_bindE:
  assumes "try_bind r f = Inr y"
  obtains x where "r = Inr x" "f x = Inr y"
  using assms by (cases r) auto

lemma try_bind_cong [fundef_cong]:
  "r = r' \<Longrightarrow> (\<And>x. r' = Inr x \<Longrightarrow> f x = f' x) \<Longrightarrow> try_bind r f = try_bind r' f'"
  by (cases r') auto

lemma guard_Inr [result_simps]:
  "((if c then fail m else r) = Inr y) \<longleftrightarrow> \<not> c \<and> r = Inr y"
  by simp

text \<open>A tuple comprehension whose element constructor may raise: the first error wins.\<close>

fun traverse :: "('a \<Rightarrow> 'b result) \<Rightarrow> 'a list \<Rightarrow> 'b list result" where
  "traverse f [] = Inr []"
| "traverse f (x # xs) = try_bind (f x) (\<lambda>y. try_bind (traverse f xs) (\<lambda>ys. Inr (y # ys)))"

lemma traverse_cong [fundef_cong]:
  "xs = ys \<Longrightarrow> (\<And>x. x \<in> set ys \<Longrightarrow> f x = g x) \<Longrightarrow> traverse f xs = traverse g ys"
  by (induction ys arbitrary: xs) (auto intro!: try_bind_cong)

lemma traverse_Inr [result_simps]:
  "(traverse f xs = Inr ys) \<longleftrightarrow> list_all2 (\<lambda>x y. f x = Inr y) xs ys"
  by (induction xs arbitrary: ys) (auto simp: result_simps list_all2_Cons1)

lemma list_all2_member2: "list_all2 P xs ys \<Longrightarrow> y \<in> set ys \<Longrightarrow> \<exists>x \<in> set xs. P x y"
  by (induction rule: list_all2_induct) auto

lemma list_all2_member1: "list_all2 P xs ys \<Longrightarrow> x \<in> set xs \<Longrightarrow> \<exists>y \<in> set ys. P x y"
  by (induction rule: list_all2_induct) auto

lemma traverse_total:
  "(\<And>x. x \<in> set xs \<Longrightarrow> f x = Inr (g x)) \<Longrightarrow> traverse f xs = Inr (map g xs)"
  by (induction xs) auto

lemma traverse_length: "traverse f xs = Inr ys \<Longrightarrow> length ys = length xs"
  by (auto simp: result_simps dest: list_all2_lengthD)

section \<open>Strings\<close>

text \<open>The characters that \<^verbatim>\<open>str.strip\<close> removes, among the code points below 256.\<close>

definition py_space :: "char \<Rightarrow> bool" where
  "py_space c = (let n = (of_char c :: nat) in
     (9 \<le> n \<and> n \<le> 13) \<or> (28 \<le> n \<and> n \<le> 32) \<or> n = 133 \<or> n = 160)"

definition py_strip :: "string \<Rightarrow> string" where
  "py_strip s = rev (dropWhile py_space (rev (dropWhile py_space s)))"

text \<open>\<open>blank s\<close> is \<^verbatim>\<open>not s.strip()\<close>.\<close>

definition blank :: "string \<Rightarrow> bool" where
  "blank s = (py_strip s = [])"

lemma blank_iff: "blank s \<longleftrightarrow> (\<forall>c \<in> set s. py_space c)"
proof -
  have "blank s \<longleftrightarrow> dropWhile py_space (rev (dropWhile py_space s)) = []"
    by (simp add: blank_def py_strip_def)
  also have "\<dots> \<longleftrightarrow> (\<forall>c \<in> set (dropWhile py_space s). py_space c)"
    by (simp add: dropWhile_eq_Nil_conv)
  also have "\<dots> \<longleftrightarrow> (\<forall>c \<in> set s. py_space c)"
    by (metis dropWhile_eq_Nil_conv hd_dropWhile list.set_sel(1) set_dropWhileD)
  finally show ?thesis .
qed

lemma blank_Nil [simp]: "blank []"
  by (simp add: blank_iff)

lemma py_strip_idem: "py_strip (py_strip s) = py_strip s"
proof (cases "py_strip s = []")
  case True
  moreover have "py_strip [] = []" by (simp add: py_strip_def)
  ultimately show ?thesis by simp
next
  case False
  let ?d = "dropWhile py_space s"
  let ?r = "dropWhile py_space (rev ?d)"
  from False have ne: "?r \<noteq> []" by (simp add: py_strip_def)
  have "rev ?d = takeWhile py_space (rev ?d) @ ?r" by simp
  then have p: "?d = rev ?r @ rev (takeWhile py_space (rev ?d))"
    by (metis rev_append rev_rev_ident)
  have "\<not> py_space (hd (rev ?r))"
  proof -
    have "rev ?r \<noteq> []" using ne by simp
    moreover from this have "?d \<noteq> []" using ne by force
    ultimately show ?thesis using hd_dropWhile [of py_space s] p hd_append2 by metis
  qed
  then have a: "dropWhile py_space (rev ?r) = rev ?r"
    by (simp only: dropWhile_eq_self_iff) simp
  have b: "dropWhile py_space ?r = ?r"
    by (rule dropWhile_idem)
  show ?thesis by (simp only: py_strip_def a b rev_rev_ident)
qed

section \<open>Aware datetimes and durations\<close>

text \<open>
  A \<^verbatim>\<open>datetime\<close> is an instant in microseconds, with or without a time zone; a
  \<^verbatim>\<open>timedelta\<close> is a number of microseconds. \<open>ensure_aware\<close> returns the instant, which
  is all that a comparison of two aware values depends on.
\<close>

datatype datetime = Aware int | Naive int

fun instant :: "datetime \<Rightarrow> int" where
  "instant (Aware t) = t"
| "instant (Naive t) = t"

fun ensure_aware :: "datetime \<Rightarrow> int result" where
  "ensure_aware (Aware t) = Inr t"
| "ensure_aware (Naive t) = fail ''value must be a timezone-aware datetime''"

definition is_aware :: "datetime \<Rightarrow> bool" where
  "is_aware d = (case d of Aware _ \<Rightarrow> True | Naive _ \<Rightarrow> False)"

lemma is_aware_simps [simp]: "is_aware (Aware t)" "\<not> is_aware (Naive t)"
  by (simp_all add: is_aware_def)

lemma ensure_aware_Inr [result_simps]: "ensure_aware d = Inr t \<longleftrightarrow> d = Aware t"
  by (cases d) auto

lemma is_aware_iff: "is_aware d \<longleftrightarrow> d = Aware (instant d)"
  by (cases d) auto

definition ensure_positive_duration :: "int \<Rightarrow> int result" where
  "ensure_positive_duration d =
     (if d \<le> 0 then fail ''value must be a positive duration'' else Inr d)"

lemma ensure_positive_duration_Inr [result_simps]:
  "ensure_positive_duration d = Inr x \<longleftrightarrow> 0 < d \<and> x = d"
  by (auto simp: ensure_positive_duration_def)

section \<open>Dictionaries in insertion order\<close>

type_synonym ('k, 'v) dict = "('k \<times> 'v) list"

text \<open>\<^verbatim>\<open>d[k] = v\<close>: an existing key keeps its position, a new key goes last.\<close>

fun dict_set :: "'k \<Rightarrow> 'v \<Rightarrow> ('k, 'v) dict \<Rightarrow> ('k, 'v) dict" where
  "dict_set k v [] = [(k, v)]"
| "dict_set k v ((k', v') # d) = (if k' = k then (k, v) # d else (k', v') # dict_set k v d)"

text \<open>\<^verbatim>\<open>d.pop(k, None)\<close>.\<close>

definition dict_pop :: "'k \<Rightarrow> ('k, 'v) dict \<Rightarrow> ('k, 'v) dict" where
  "dict_pop k d = filter (\<lambda>e. fst e \<noteq> k) d"

definition dict_has :: "'k \<Rightarrow> ('k, 'v) dict \<Rightarrow> bool" where
  "dict_has k d = (k \<in> fst ` set d)"

lemma map_of_dict_set [dict_simps]: "map_of (dict_set k v d) = (map_of d)(k \<mapsto> v)"
  by (induction d) auto

lemma keys_dict_set [dict_simps]: "fst ` set (dict_set k v d) = insert k (fst ` set d)"
proof (induction d)
  case (Cons e d)
  then show ?case by (cases e) (simp add: insert_commute)
qed simp

lemma distinct_dict_set [dict_simps]:
  "distinct (map fst d) \<Longrightarrow> distinct (map fst (dict_set k v d))"
  by (induction d) (auto simp: keys_dict_set image_iff)

lemma set_dict_set: "set (dict_set k v d) \<subseteq> insert (k, v) (set d)"
  by (induction d) (auto split: if_splits)

lemma map_of_dict_pop [dict_simps]: "map_of (dict_pop k d) = (map_of d)(k := None)"
  by (induction d) (auto simp: dict_pop_def fun_eq_iff)

lemma keys_dict_pop [dict_simps]: "fst ` set (dict_pop k d) = fst ` set d - {k}"
  by (auto simp: dict_pop_def)

lemma distinct_dict_pop [dict_simps]:
  "distinct (map fst d) \<Longrightarrow> distinct (map fst (dict_pop k d))"
  by (auto simp: dict_pop_def distinct_map_filter)

lemma dict_has_iff: "dict_has k d \<longleftrightarrow> map_of d k \<noteq> None"
  by (simp add: dict_has_def map_of_eq_None_iff)

text \<open>A dictionary as a finite map: an interface its clients state their lemmas over.\<close>

locale finite_map =
  fixes get :: "'m \<Rightarrow> 'k \<Rightarrow> 'v option"
    and put :: "'k \<Rightarrow> 'v \<Rightarrow> 'm \<Rightarrow> 'm"
  assumes get_put: "get (put k v m) = (get m)(k \<mapsto> v)"
begin

text \<open>A loop \<^verbatim>\<open>for x in xs: d[key(x)] = val(x)\<close> keeps, for each key, its last value.\<close>

lemma get_fold_put:
  "get (fold (\<lambda>x. put (f x) (g x)) xs m) k =
     (case filter (\<lambda>x. f x = k) xs of [] \<Rightarrow> get m k
      | ys \<Rightarrow> Some (g (last ys)))"
proof (induction xs rule: rev_induct)
  case Nil
  then show ?case by simp
next
  case (snoc x xs)
  then show ?case by (auto simp: get_put split: list.splits)
qed

lemma get_fold_put_None:
  "get (fold (\<lambda>x. put (f x) (g x)) xs m) k = None \<longleftrightarrow> get m k = None \<and> k \<notin> f ` set xs"
proof (cases "filter (\<lambda>x. f x = k) xs")
  case Nil
  then show ?thesis by (auto simp: get_fold_put filter_empty_conv)
next
  case (Cons y ys)
  then have "y \<in> set (filter (\<lambda>x. f x = k) xs)" by simp
  then have "k \<in> f ` set xs" by auto
  with Cons show ?thesis by (simp add: get_fold_put)
qed

end

interpretation dict: finite_map map_of dict_set
  by unfold_locales (simp add: dict_simps)

section \<open>Sorted lists\<close>

lemma filter_singleton:
  "distinct (map f xs) \<Longrightarrow> x \<in> set xs \<Longrightarrow> filter (\<lambda>y. f y = f x) xs = [x]"
  by (induction xs) (auto simp: filter_empty_conv image_iff)

lemma find_distinct:
  "distinct (map f xs) \<Longrightarrow> x \<in> set xs \<Longrightarrow> find (\<lambda>y. f y = f x) xs = Some x"
  by (induction xs) (auto simp: image_iff)

lemma distinct_map_sort_key [simp]: "distinct (map f (sort_key g xs)) \<longleftrightarrow> distinct (map f xs)"
  by (metis mset_eq_imp_distinct_iff mset_map mset_sort)

lemma sorted_distinct_strict:
  "sorted (map f xs) \<Longrightarrow> distinct xs \<Longrightarrow> sorted_wrt (\<lambda>a b. f a \<le> f b \<and> a \<noteq> b) xs"
  by (induction xs) auto

text \<open>Sorting by an injective key yields one list only, whatever the order of the input.\<close>

lemma sort_key_unique:
  assumes "mset xs = mset ys" and "distinct (map f xs)"
  shows "sort_key f xs = sort_key f ys"
proof (rule properties_for_sort_key)
  show "mset (sort_key f ys) = mset xs" using assms(1) by simp
  show "sorted (map f (sort_key f ys))" by simp
  fix k assume k: "k \<in> set (sort_key f ys)"
  have inj: "inj_on f (set xs)" using assms(2) by (simp add: distinct_map)
  have "distinct ys" using assms by (metis distinct_map mset_eq_imp_distinct_iff)
  have "set xs = set ys" using assms(1) by (rule mset_eq_setD)
  have "filter (\<lambda>x. f k = f x) (sort_key f ys) = [k]"
    using k \<open>distinct ys\<close> inj \<open>set xs = set ys\<close>
      filter_singleton [of f "sort_key f ys" k]
    by (simp add: distinct_map eq_commute)
  moreover have "filter (\<lambda>x. f k = f x) xs = [k]"
    using k assms(2) \<open>set xs = set ys\<close> filter_singleton [of f xs k] by (simp add: eq_commute)
  ultimately show "filter (\<lambda>x. f k = f x) (sort_key f ys) = filter (\<lambda>x. f k = f x) xs" by simp
qed

section \<open>Tables\<close>

text \<open>
  A database table is the list of its rows.  \<open>update_where\<close> is \<^verbatim>\<open>UPDATE ... WHERE\<close> and the
  change of a loaded row at commit; the row count of the statement is \<open>count_where\<close>.
\<close>

named_theorems table_simps \<open>laws of table updates\<close>

definition update_where :: "('a \<Rightarrow> bool) \<Rightarrow> ('a \<Rightarrow> 'a) \<Rightarrow> 'a list \<Rightarrow> 'a list" where
  "update_where P f rows = map (\<lambda>r. if P r then f r else r) rows"

definition count_where :: "('a \<Rightarrow> bool) \<Rightarrow> 'a list \<Rightarrow> nat" where
  "count_where P rows = length (filter P rows)"

lemma set_update_where [table_simps]:
  "set (update_where P f rows) = (\<lambda>r. if P r then f r else r) ` set rows"
  by (simp add: update_where_def)

lemma in_update_where:
  "x \<in> set (update_where P f rows) \<longleftrightarrow>
     (\<exists>r \<in> set rows. (P r \<and> x = f r) \<or> (\<not> P r \<and> x = r))"
  by (auto simp: update_where_def)

lemma map_update_where [table_simps]:
  "(\<And>r. P r \<Longrightarrow> g (f r) = g r) \<Longrightarrow> map g (update_where P f rows) = map g rows"
  by (simp add: update_where_def)

lemma update_where_none [table_simps]: "(\<And>r. r \<in> set rows \<Longrightarrow> \<not> P r) \<Longrightarrow> update_where P f rows = rows"
  by (simp add: update_where_def map_idI)

lemma count_where_0: "count_where P rows = 0 \<longleftrightarrow> (\<forall>r \<in> set rows. \<not> P r)"
  by (auto simp: count_where_def filter_empty_conv)

text \<open>Under a unique key, an update by key changes one row.\<close>

lemma distinct_key_eq:
  "distinct (map g rows) \<Longrightarrow> x \<in> set rows \<Longrightarrow> y \<in> set rows \<Longrightarrow> g x = g y \<Longrightarrow> x = y"
  by (metis distinct_map inj_onD)

lemma set_update_key:
  assumes "distinct (map g rows)" and "x \<in> set rows" and "g y = g x"
  shows "set (update_where (\<lambda>r. g r = g y) (\<lambda>_. y) rows) = insert y (set rows - {x})"
proof -
  have "g r = g y \<longleftrightarrow> r = x" if "r \<in> set rows" for r
  proof
    assume "g r = g y"
    then have "g x = g r" using assms(3) by simp
    from distinct_key_eq [OF assms(1,2) that this] show "r = x" by (rule sym)
  qed (simp only: assms(3))
  then have "(\<lambda>r. if g r = g y then y else r) ` set rows = (\<lambda>r. if r = x then y else r) ` set rows"
    by (intro image_cong [OF refl] if_cong [OF _ refl refl])
  also have "\<dots> = (\<lambda>r. if r = x then y else r) ` insert x (set rows - {x})"
    by (simp only: insert_Diff [OF assms(2)])
  also have "\<dots> = insert y ((\<lambda>r. if r = x then y else r) ` (set rows - {x}))"
    by (simp only: image_insert simp_thms if_True)
  also have "(\<lambda>r. if r = x then y else r) ` (set rows - {x}) = (\<lambda>r. r) ` (set rows - {x})"
    by (intro image_cong [OF refl] if_not_P) blast
  also have "\<dots> = set rows - {x}" by (rule image_ident)
  finally show ?thesis by (simp only: set_update_where)
qed

lemma map_update_key:
  assumes "distinct (map g rows)" and "x \<in> set rows" and "g y = g x" and "h y = h x"
  shows "map h (update_where (\<lambda>r. g r = g y) (\<lambda>_. y) rows) = map h rows"
  unfolding update_where_def map_map comp_def
proof (rule map_cong [OF refl])
  fix r assume r: "r \<in> set rows"
  show "h (if g r = g y then y else r) = h r"
  proof (cases "g r = g y")
    case True
    then have "g x = g r" using assms(3) by simp
    from distinct_key_eq [OF assms(1,2) r this] True assms(4) show ?thesis by simp
  qed simp
qed

lemma find_key_Some:
  "find (\<lambda>r. g r = k) rows = Some r \<Longrightarrow> r \<in> set rows \<and> g r = k"
  by (auto simp: find_Some_iff)

lemma find_key_iff:
  "distinct (map g rows) \<Longrightarrow> find (\<lambda>r. g r = k) rows = Some r \<longleftrightarrow> r \<in> set rows \<and> g r = k"
  using find_distinct [of g rows r] find_key_Some [of g k rows r] by auto

end
