(* ===== verification/Py_Values.thy ===== *)
theory Py_Values
  imports Prelude
begin

text \<open>
  The dynamically typed values the code inspects: JSON data as Python objects, with the
  comparisons Python makes between them, and the field checks of
  \<^verbatim>\<open>tgcurator/domain/analysis/common.py\<close> and \<^verbatim>\<open>tgcurator/domain/routing/dsl.py\<close>
  that only look at one value.

  A float is a rational or one of the three special values: the code compares floats and
  takes maxima but never computes with them, so no rounding is involved.  A dictionary lists
  its items in insertion order, under string keys.
\<close>

section \<open>Values\<close>

datatype py_float = Fin rat | PosInf | NegInf | NaN

datatype pyval =
    PNone
  | PBool bool
  | PInt int
  | PFloat py_float
  | PStr string
  | PList "pyval list"
  | PTuple "pyval list"
  | PDict "(string \<times> pyval) list"

fun fl_less :: "py_float \<Rightarrow> py_float \<Rightarrow> bool" where
  "fl_less (Fin a) (Fin b) = (a < b)"
| "fl_less NegInf (Fin b) = True"
| "fl_less NegInf PosInf = True"
| "fl_less (Fin a) PosInf = True"
| "fl_less _ _ = False"

fun fl_eq :: "py_float \<Rightarrow> py_float \<Rightarrow> bool" where
  "fl_eq (Fin a) (Fin b) = (a = b)"
| "fl_eq PosInf PosInf = True"
| "fl_eq NegInf NegInf = True"
| "fl_eq _ _ = False"

definition fl_le :: "py_float \<Rightarrow> py_float \<Rightarrow> bool" where
  "fl_le a b = (fl_less a b \<or> fl_eq a b)"

lemma fl_le_Fin [simp]: "fl_le (Fin a) (Fin b) \<longleftrightarrow> a \<le> b"
  by (auto simp: fl_le_def)

lemma fl_le_bounded: "fl_le (Fin a) x \<and> fl_le x (Fin b) \<longleftrightarrow> (\<exists>q. x = Fin q \<and> a \<le> q \<and> q \<le> b)"
  by (cases x) (auto simp: fl_le_def)

text \<open>\<^verbatim>\<open>isinstance(v, Real) and not isinstance(v, bool)\<close>, with the number it stands for.\<close>

fun num_val :: "pyval \<Rightarrow> py_float option" where
  "num_val (PInt i) = Some (Fin (of_int i))"
| "num_val (PFloat f) = Some f"
| "num_val _ = None"

definition is_number :: "pyval \<Rightarrow> bool" where
  "is_number v = (num_val v \<noteq> None)"

text \<open>
  \<^verbatim>\<open>float(v)\<close> of a number: an integer that rounds to \<open>2 ^ 1024\<close> or more raises.  The
  value is exact up to \<open>2 ^ 53\<close>; beyond, it is only ever compared with 0, 1 and the
  infinities, which rounding does not cross.
\<close>

definition float_limit :: int where
  "float_limit = 2 ^ 1024 - 2 ^ 970"

fun py_float_of :: "pyval \<Rightarrow> py_float result" where
  "py_float_of (PInt i) =
     (if float_limit \<le> \<bar>i\<bar> then Inl OverflowError else Inr (Fin (of_int i)))"
| "py_float_of (PFloat f) = Inr f"
| "py_float_of _ = Inl TypeError"

section \<open>Equality, hashing, containment\<close>

text \<open>\<^verbatim>\<open>==\<close>: numbers and booleans by value, dictionaries whatever their order.\<close>

fun eq_num :: "pyval \<Rightarrow> py_float option" where
  "eq_num (PBool b) = Some (Fin (if b then 1 else 0))"
| "eq_num v = num_val v"

fun py_eq :: "pyval \<Rightarrow> pyval \<Rightarrow> bool"
  and py_eq_list :: "pyval list \<Rightarrow> pyval list \<Rightarrow> bool"
  and py_eq_items :: "(string \<times> pyval) list \<Rightarrow> (string \<times> pyval) list \<Rightarrow> bool" where
  "py_eq PNone w = (w = PNone)"
| "py_eq (PStr s) w = (w = PStr s)"
| "py_eq (PList xs) w = (case w of PList ys \<Rightarrow> py_eq_list xs ys | _ \<Rightarrow> False)"
| "py_eq (PTuple xs) w = (case w of PTuple ys \<Rightarrow> py_eq_list xs ys | _ \<Rightarrow> False)"
| "py_eq (PDict d) w =
     (case w of PDict e \<Rightarrow> length d = length e \<and> py_eq_items d e | _ \<Rightarrow> False)"
| "py_eq v w =
     (case (eq_num v, eq_num w) of (Some a, Some b) \<Rightarrow> fl_eq a b | _ \<Rightarrow> False)"
| "py_eq_list [] ys = (ys = [])"
| "py_eq_list (x # xs) ys = (case ys of [] \<Rightarrow> False | y # zs \<Rightarrow> py_eq x y \<and> py_eq_list xs zs)"
| "py_eq_items [] e = True"
| "py_eq_items ((k, v) # d) e =
     (case map_of e k of None \<Rightarrow> False | Some w \<Rightarrow> py_eq v w \<and> py_eq_items d e)"

text \<open>A value that may be a member of a set: looking an unhashable one up raises \<^verbatim>\<open>TypeError\<close>.\<close>

fun py_hashable :: "pyval \<Rightarrow> bool" where
  "py_hashable (PList _) = False"
| "py_hashable (PDict _) = False"
| "py_hashable (PTuple xs) = list_all py_hashable xs"
| "py_hashable _ = True"

definition str_in_set :: "pyval \<Rightarrow> string list \<Rightarrow> bool result" where
  "str_in_set v names =
     (if \<not> py_hashable v then Inl TypeError
      else Inr (case v of PStr s \<Rightarrow> s \<in> set names | _ \<Rightarrow> False))"

fun has_prefix :: "string \<Rightarrow> string \<Rightarrow> bool" where
  "has_prefix [] s = True"
| "has_prefix (c # p) s = (case s of [] \<Rightarrow> False | d # t \<Rightarrow> c = d \<and> has_prefix p t)"

text \<open>\<^verbatim>\<open>s.find(p) >= 0\<close>.\<close>

fun has_substring :: "string \<Rightarrow> string \<Rightarrow> bool" where
  "has_substring p [] = (p = [])"
| "has_substring p (c # s) = (has_prefix p (c # s) \<or> has_substring p s)"

lemma has_prefix_iff: "has_prefix p s \<longleftrightarrow> (\<exists>t. s = p @ t)"
  by (induction p s rule: has_prefix.induct) (auto split: list.splits)

lemma has_substring_iff: "has_substring p s \<longleftrightarrow> (\<exists>a b. s = a @ p @ b)"
proof (induction s)
  case Nil
  then show ?case by simp
next
  case (Cons c s)
  have "(\<exists>a b. c # s = a @ p @ b) \<longleftrightarrow> (\<exists>b. c # s = p @ b) \<or> (\<exists>a b. s = a @ p @ b)"
    by (metis append_Cons append_Nil neq_Nil_conv list.inject)
  with Cons show ?case by (simp add: has_prefix_iff)
qed

section \<open>JSON values\<close>

text \<open>\<^verbatim>\<open>_is_json_value\<close>; \<^verbatim>\<open>float(value)\<close> raises on an integer no float can hold.\<close>

fun is_json_value :: "pyval \<Rightarrow> bool result"
  and is_json_list :: "pyval list \<Rightarrow> bool result"
  and is_json_items :: "(string \<times> pyval) list \<Rightarrow> bool result" where
  "is_json_value PNone = Inr True"
| "is_json_value (PStr s) = Inr True"
| "is_json_value (PBool b) = Inr True"
| "is_json_value (PInt i) =
     try_bind (py_float_of (PInt i)) (\<lambda>f. Inr (fl_less NegInf f \<and> fl_less f PosInf))"
| "is_json_value (PFloat f) = Inr (fl_less NegInf f \<and> fl_less f PosInf)"
| "is_json_value (PList xs) = is_json_list xs"
| "is_json_value (PDict d) = is_json_items d"
| "is_json_value (PTuple xs) = Inr False"
| "is_json_list [] = Inr True"
| "is_json_list (x # xs) =
     try_bind (is_json_value x) (\<lambda>b. if b then is_json_list xs else Inr False)"
| "is_json_items [] = Inr True"
| "is_json_items ((k, v) # d) =
     try_bind (is_json_value v) (\<lambda>b. if b then is_json_items d else Inr False)"

section \<open>Identifiers\<close>

definition letter_or_underscore :: "char \<Rightarrow> bool" where
  "letter_or_underscore c = (let n = (of_char c :: nat) in
     (65 \<le> n \<and> n \<le> 90) \<or> (97 \<le> n \<and> n \<le> 122) \<or> n = 95)"

definition ascii_digit :: "char \<Rightarrow> bool" where
  "ascii_digit c = (let n = (of_char c :: nat) in 48 \<le> n \<and> n \<le> 57)"

definition word_char :: "char \<Rightarrow> bool" where
  "word_char c = (letter_or_underscore c \<or> ascii_digit c)"

text \<open>\<^verbatim>\<open>s.split(".")\<close>.\<close>

fun split_dot :: "string \<Rightarrow> string list" where
  "split_dot [] = [[]]"
| "split_dot (c # s) =
     (if c = CHR ''.'' then [] # split_dot s
      else (case split_dot s of [] \<Rightarrow> [[c]] | p # ps \<Rightarrow> (c # p) # ps))"

definition word_ident :: "string \<Rightarrow> bool" where
  "word_ident s =
     (case s of [] \<Rightarrow> False | c # t \<Rightarrow> letter_or_underscore c \<and> list_all word_char t)"

text \<open>\<^verbatim>\<open>_FACT_KEY_PATTERN.fullmatch\<close>: words separated by single dots.\<close>

definition fact_key :: "string \<Rightarrow> bool" where
  "fact_key s = list_all word_ident (split_dot s)"

text \<open>\<^verbatim>\<open>_IDENTIFIER_PATTERN.fullmatch\<close>: after the first character, dots and hyphens too.\<close>

definition is_identifier :: "string \<Rightarrow> bool" where
  "is_identifier s =
     (case s of [] \<Rightarrow> False
      | c # t \<Rightarrow> letter_or_underscore c \<and>
          list_all (\<lambda>x. word_char x \<or> x = CHR ''.'' \<or> x = CHR ''-'') t)"

lemma split_dot_ne [simp]: "split_dot s \<noteq> []"
  by (cases s) (auto split: list.splits)

lemma split_dot_no_dot: "CHR ''.'' \<notin> set s \<Longrightarrow> split_dot s = [s]"
  by (induction s) auto

lemma split_dot_append: "CHR ''.'' \<notin> set p \<Longrightarrow> split_dot (p @ CHR ''.'' # s) = p # split_dot s"
  by (induction p) auto

section \<open>Field checks of the analysis domain\<close>

definition validate_identifier :: "string \<Rightarrow> string result" where
  "validate_identifier s =
     (if blank s then fail ''must not be blank''
      else if \<not> is_identifier (py_strip s)
        then fail ''must start with a letter or underscore and contain only letters, digits, dots, underscores, or hyphens''
      else Inr (py_strip s))"

definition validate_non_blank :: "string \<Rightarrow> string result" where
  "validate_non_blank s = (if blank s then fail ''must not be blank'' else Inr (py_strip s))"

definition validate_score :: "pyval \<Rightarrow> rat result" where
  "validate_score v =
     (if \<not> is_number v then fail ''must be a finite number in [0, 1]''
      else try_bind (py_float_of v) (\<lambda>f.
        case f of
          Fin q \<Rightarrow> if 0 \<le> q \<and> q \<le> 1 then Inr q else fail ''must be a finite number in [0, 1]''
        | _ \<Rightarrow> fail ''must be a finite number in [0, 1]''))"

definition validate_positive_int :: "int \<Rightarrow> int result" where
  "validate_positive_int n = (if n \<le> 0 then fail ''must be a positive integer'' else Inr n)"

definition validate_hash :: "string \<Rightarrow> string result" where
  "validate_hash s =
     (if length s = 64 \<and>
         list_all (\<lambda>c. ascii_digit c \<or> (97 \<le> (of_char c :: nat) \<and> of_char c \<le> (102 :: nat))) s
      then Inr s else fail ''must be a lowercase SHA-256 hex digest'')"

lemma validate_non_blank_Inr [result_simps]:
  "validate_non_blank s = Inr t \<longleftrightarrow> \<not> blank s \<and> t = py_strip s"
  by (auto simp: validate_non_blank_def)

lemma validate_identifier_Inr [result_simps]:
  "validate_identifier s = Inr t \<longleftrightarrow> \<not> blank s \<and> is_identifier (py_strip s) \<and> t = py_strip s"
  by (auto simp: validate_identifier_def)

lemma validate_positive_int_Inr [result_simps]:
  "validate_positive_int n = Inr m \<longleftrightarrow> 0 < n \<and> m = n"
  by (auto simp: validate_positive_int_def)

lemma validate_score_Inr [result_simps]:
  "validate_score v = Inr q \<longleftrightarrow> num_val v = Some (Fin q) \<and> 0 \<le> q \<and> q \<le> 1"
proof (cases v)
  case (PInt i)
  have "float_limit > 1" by (simp add: float_limit_def)
  then have "0 \<le> i \<Longrightarrow> i \<le> 1 \<Longrightarrow> \<not> float_limit \<le> \<bar>i\<bar>" by linarith
  with PInt show ?thesis by (auto simp: validate_score_def is_number_def)
qed (auto simp: validate_score_def is_number_def split: py_float.splits)

lemma validate_score_bounds: "validate_score v = Inr q \<Longrightarrow> 0 \<le> q \<and> q \<le> 1"
  by (simp add: result_simps)

text \<open>
  The one failure of \<open>validate_score\<close> that is not a \<open>DomainValidationError\<close>: an
  integer too large for \<^verbatim>\<open>float\<close>.
\<close>

lemma validate_score_overflow:
  "validate_score (PInt i) = Inl OverflowError \<longleftrightarrow> float_limit \<le> \<bar>i\<bar>"
  by (auto simp: validate_score_def is_number_def fail_def)

end
