(* ===== verification/Publishing.thy ===== *)
theory Publishing
  imports Py_Values
begin

text \<open>
  Publication identities of \<^verbatim>\<open>tgcurator/domain/publishing/idempotency.py\<close>: the publication
  modes, the canonical JSON text of the identity (as \<^verbatim>\<open>json.dumps\<close> writes a flat object with
  sorted keys, compact separators and ASCII escapes), and the versioned key.  SHA-256 is the
  parameter \<open>sha\<close>, from text to hexadecimal digest.
\<close>

section \<open>Publication modes\<close>

datatype publication_mode =
  NATIVE_FORWARD_WITH_SUPPLEMENT | COPY_WITH_CAPTION | FORWARD_ONLY | METADATA_ONLY

fun mode_value :: "publication_mode \<Rightarrow> string" where
  "mode_value NATIVE_FORWARD_WITH_SUPPLEMENT = ''native_forward_with_supplement''"
| "mode_value COPY_WITH_CAPTION = ''copy_with_caption''"
| "mode_value FORWARD_ONLY = ''forward_only''"
| "mode_value METADATA_ONLY = ''metadata_only''"

definition publication_modes :: "publication_mode list" where
  "publication_modes = [NATIVE_FORWARD_WITH_SUPPLEMENT, COPY_WITH_CAPTION, FORWARD_ONLY, METADATA_ONLY]"

text \<open>\<^verbatim>\<open>PublicationMode(value)\<close>; \<open>None\<close> is its \<^verbatim>\<open>ValueError\<close>.\<close>

definition publication_mode_of :: "string \<Rightarrow> publication_mode option" where
  "publication_mode_of s = find (\<lambda>m. mode_value m = s) publication_modes"

lemma publication_mode_of_value [simp]: "publication_mode_of (mode_value m) = Some m"
  by (cases m) (simp_all add: publication_mode_of_def publication_modes_def)

lemma publication_mode_of_Some: "publication_mode_of s = Some m \<longleftrightarrow> s = mode_value m"
  by (metis (mono_tags, lifting) find_Some_iff publication_mode_of_def publication_mode_of_value)

lemma mode_value_inj: "mode_value m = mode_value m' \<longleftrightarrow> m = m'"
  by (metis option.inject publication_mode_of_value)

section \<open>JSON text of a flat object\<close>

definition backslash :: char where "backslash = CHR 0x5C"
definition dquote :: char where "dquote = CHR 0x22"

definition hex_digit :: "nat \<Rightarrow> char" where
  "hex_digit n = (if n < 10 then char_of (48 + n) else char_of (87 + n))"

text \<open>One character under \<^verbatim>\<open>ensure_ascii=True\<close>.\<close>

definition json_escape :: "char \<Rightarrow> string" where
  "json_escape c = (let n = (of_char c :: nat) in
     if c = backslash \<or> c = dquote then [backslash, c]
     else if n = 10 then [backslash, CHR ''n'']
     else if n = 13 then [backslash, CHR ''r'']
     else if n = 9 then [backslash, CHR ''t'']
     else if n = 12 then [backslash, CHR ''f'']
     else if n = 8 then [backslash, CHR ''b'']
     else if 32 \<le> n \<and> n \<le> 126 then [c]
     else [backslash, CHR ''u'', CHR ''0'', CHR ''0'', hex_digit (n div 16), hex_digit (n mod 16)])"

definition json_string :: "string \<Rightarrow> string" where
  "json_string s = dquote # concat (map json_escape s) @ [dquote]"

fun json_scalar :: "string option \<Rightarrow> string" where
  "json_scalar None = ''null''"
| "json_scalar (Some s) = json_string s"

fun json_members :: "(string \<times> string option) list \<Rightarrow> string" where
  "json_members [] = ''}''"
| "json_members [(k, v)] = json_string k @ '':'' @ json_scalar v @ ''}''"
| "json_members ((k, v) # ms) = json_string k @ '':'' @ json_scalar v @ '','' @ json_members ms"

text \<open>\<^verbatim>\<open>json.dumps(d, sort_keys=True, separators=(",", ":"), ensure_ascii=True)\<close> for text values.\<close>

definition json_object :: "(string \<times> string option) list \<Rightarrow> string" where
  "json_object d = ''{'' @ json_members (sort_key fst d)"

section \<open>Reading the text back\<close>

definition hex_value :: "char \<Rightarrow> nat" where
  "hex_value c = (let n = of_char c in if n < 58 then n - 48 else n - 87)"

fun json_unescape :: "string \<Rightarrow> (char \<times> string) option" where
  "json_unescape [] = None"
| "json_unescape (c # s) =
     (if c = dquote then None
      else if c \<noteq> backslash then Some (c, s)
      else (case s of
        [] \<Rightarrow> None
      | k # t \<Rightarrow>
          if k = CHR ''u'' then
            (case t of _ # _ # h # l # rest \<Rightarrow> Some (char_of (16 * hex_value h + hex_value l), rest)
             | _ \<Rightarrow> None)
          else if k = CHR ''n'' then Some (char_of (10 :: nat), t)
          else if k = CHR ''r'' then Some (char_of (13 :: nat), t)
          else if k = CHR ''t'' then Some (char_of (9 :: nat), t)
          else if k = CHR ''f'' then Some (char_of (12 :: nat), t)
          else if k = CHR ''b'' then Some (char_of (8 :: nat), t)
          else Some (k, t)))"

lemma hex_round_trip: "n < 16 \<Longrightarrow> hex_value (hex_digit n) = n"
  by (auto simp: hex_value_def hex_digit_def Let_def)

lemma char_of_code: "of_char c = n \<Longrightarrow> char_of (n :: nat) = c"
  by auto

lemma code_bound: "(of_char c :: nat) < 256"
  by (metis char_of_nat nat_of_char_less_256) 

lemma json_unescape_escape: "json_unescape (json_escape c @ s) = Some (c, s)"
proof -
  let ?n = "of_char c :: nat"
  have bs: "of_char backslash = (92 :: nat)" and dq: "of_char dquote = (34 :: nat)"
    by (simp_all add: backslash_def dquote_def)
  have ne: "backslash \<noteq> dquote" "backslash \<noteq> CHR ''u''" "dquote \<noteq> CHR ''u''"
    "backslash \<noteq> CHR ''n''" "dquote \<noteq> CHR ''n''" "backslash \<noteq> CHR ''r''" "dquote \<noteq> CHR ''r''"
    "backslash \<noteq> CHR ''t''" "dquote \<noteq> CHR ''t''" "backslash \<noteq> CHR ''f''" "dquote \<noteq> CHR ''f''"
    "backslash \<noteq> CHR ''b''" "dquote \<noteq> CHR ''b''"
    by (simp_all add: backslash_def dquote_def)
  have hex: "16 * hex_value (hex_digit (?n div 16)) + hex_value (hex_digit (?n mod 16)) = ?n"
  proof -
    have "?n div 16 < 16" using code_bound [of c] by (simp add: less_mult_imp_div_less)
    then show ?thesis by (simp add: hex_round_trip)
  qed
  show ?thesis
  proof (cases "c = backslash \<or> c = dquote")
    case True
    then show ?thesis using ne by (auto simp: json_escape_def Let_def)
  next
    case False
    then have plain: "32 \<le> ?n \<and> ?n \<le> 126 \<Longrightarrow> json_unescape (c # s) = Some (c, s)" by simp
    show ?thesis using False ne hex plain
      by (auto simp: json_escape_def Let_def intro: char_of_code)
  qed
qed

lemma json_escape_hd: "json_escape c = x # xs \<Longrightarrow> x \<noteq> dquote"
  using json_unescape_escape [of c "[]"] by auto

lemma json_escape_ne: "json_escape c \<noteq> []"
  by (auto simp: json_escape_def Let_def)

lemma json_chars_unique:
  "concat (map json_escape s) @ dquote # r = concat (map json_escape t) @ dquote # r' \<Longrightarrow>
     s = t \<and> r = r'"
proof (induction s arbitrary: t)
  case Nil
  then show ?case
  proof (cases t)
    case (Cons c t')
    obtain x xs where x: "json_escape c = x # xs" using json_escape_ne by (cases "json_escape c") auto
    with Nil Cons json_escape_hd [OF x] show ?thesis by simp
  qed simp
next
  case (Cons c s)
  show ?case
  proof (cases t)
    case Nil
    obtain x xs where x: "json_escape c = x # xs" using json_escape_ne by (cases "json_escape c") auto
    with Nil Cons.prems json_escape_hd [OF x] show ?thesis by simp
  next
    case (Cons d t')
    let ?s = "concat (map json_escape s) @ dquote # r"
    let ?t = "concat (map json_escape t') @ dquote # r'"
    have "json_escape c @ ?s = json_escape d @ ?t" using Cons.prems Cons by simp
    then have "Some (c, ?s) = Some (d, ?t)" by (metis json_unescape_escape)
    then have "c = d" and "?s = ?t" by simp_all
    with Cons.IH [of t'] Cons show ?thesis by simp
  qed
qed

lemma json_string_unique: "json_string s @ r = json_string t @ r' \<Longrightarrow> s = t \<and> r = r'"
  using json_chars_unique [of s r t r'] by (simp add: json_string_def)

lemma json_scalar_unique: "json_scalar v @ r = json_scalar w @ r' \<Longrightarrow> v = w \<and> r = r'"
proof (induction v)
  case None
  then show ?case by (cases w) (simp_all add: json_string_def dquote_def)
next
  case (Some s)
  show ?case
  proof (cases w)
    case None
    with Some show ?thesis by (simp add: json_string_def dquote_def)
  next
    case (Some t)
    with \<open>json_scalar (Some s) @ r = json_scalar w @ r'\<close> have "json_string s @ r = json_string t @ r'"
      by simp
    from json_string_unique [OF this] Some show ?thesis by simp
  qed
qed

text \<open>The text of an object determines its members, in sorted order.\<close>

lemma json_members_Cons:
  "json_members ((k, v) # ms) = json_string k @ '':'' @ json_scalar v @
     (if ms = [] then ''}'' else '','' @ json_members ms)"
  by (cases ms) auto

lemma json_members_unique: "json_members ms = json_members ns \<Longrightarrow> ms = ns"
proof (induction ms arbitrary: ns)
  case Nil
  then show ?case by (cases ns) (auto simp: json_members_Cons json_string_def dquote_def)
next
  case (Cons m ms)
  obtain k v where m: "m = (k, v)" by (cases m)
  show ?case
  proof (cases ns)
    case Nil
    with Cons.prems m show ?thesis by (simp add: json_members_Cons json_string_def dquote_def)
  next
    case (Cons n ns')
    obtain k' v' where n: "n = (k', v')" by (cases n)
    let ?r = "if ms = [] then ''}'' else '','' @ json_members ms"
    let ?r' = "if ns' = [] then ''}'' else '','' @ json_members ns'"
    have eq: "json_string k @ '':'' @ json_scalar v @ ?r = json_string k' @ '':'' @ json_scalar v' @ ?r'"
      using Cons.prems unfolding Cons m n json_members_Cons .
    from json_string_unique [OF eq] have k: "k = k'" and rest: "json_scalar v @ ?r = json_scalar v' @ ?r'"
      by simp_all
    from json_scalar_unique [OF rest] have v: "v = v'" and "?r = ?r'" by simp_all
    then have "ms = ns'" using Cons.IH by (auto split: if_splits)
    with k v m n Cons show ?thesis by simp
  qed
qed

section \<open>The idempotency key\<close>

record publication_identity =
  source_message_id :: string
  destination_channel_id :: string
  routing_policy_version_id :: string
  routing_rule_id :: string
  action_id :: string
  publication_mode :: publication_mode
  routing_request_id :: "string option"
  routing_evaluation_id :: "string option"

definition blank_option :: "string option \<Rightarrow> bool" where
  "blank_option v = (case v of None \<Rightarrow> False | Some s \<Rightarrow> blank s)"

definition identity_parts :: "publication_identity \<Rightarrow> (string \<times> string option) list" where
  "identity_parts p =
     [(''source_message_id'', Some (source_message_id p)),
      (''destination_channel_id'', Some (destination_channel_id p)),
      (''routing_policy_version_id'', Some (routing_policy_version_id p)),
      (''routing_rule_id'', Some (routing_rule_id p)),
      (''action_id'', Some (action_id p)),
      (''publication_mode'', Some (mode_value (publication_mode p)))]
     @ (if routing_request_id p \<noteq> None \<or> routing_evaluation_id p \<noteq> None
        then [(''routing_request_id'', routing_request_id p),
              (''routing_evaluation_id'', routing_evaluation_id p)]
        else [])"

definition identity_version :: "publication_identity \<Rightarrow> string" where
  "identity_version p =
     (if routing_request_id p \<noteq> None \<or> routing_evaluation_id p \<noteq> None then ''v2'' else ''v1'')"

definition publication_idempotency_key ::
  "(string \<Rightarrow> string) \<Rightarrow> publication_identity \<Rightarrow> string result" where
  "publication_idempotency_key sha p =
     (if blank (source_message_id p) \<or> blank (destination_channel_id p)
         \<or> blank (routing_policy_version_id p) \<or> blank (routing_rule_id p) \<or> blank (action_id p)
      then fail ''publication idempotency key inputs must not be blank''
      else if blank_option (routing_request_id p) then fail ''routing_request_id must not be blank''
      else if blank_option (routing_evaluation_id p) then fail ''routing_evaluation_id must not be blank''
      else Inr (''publication:'' @ identity_version p @ '':'' @ sha (json_object (identity_parts p))))"

lemma sorted_identity_parts:
  "sort_key fst (identity_parts p) =
     [(''action_id'', Some (action_id p)),
      (''destination_channel_id'', Some (destination_channel_id p)),
      (''publication_mode'', Some (mode_value (publication_mode p)))]
     @ (if routing_request_id p \<noteq> None \<or> routing_evaluation_id p \<noteq> None
        then [(''routing_evaluation_id'', routing_evaluation_id p)] else [])
     @ [(''routing_policy_version_id'', Some (routing_policy_version_id p))]
     @ (if routing_request_id p \<noteq> None \<or> routing_evaluation_id p \<noteq> None
        then [(''routing_request_id'', routing_request_id p)] else [])
     @ [(''routing_rule_id'', Some (routing_rule_id p)),
        (''source_message_id'', Some (source_message_id p))]"
  by (simp add: identity_parts_def)

text \<open>The canonical text is injective: it determines the whole identity.\<close>

lemma identity_text_injective:
  "json_object (identity_parts p) = json_object (identity_parts q) \<longleftrightarrow> p = q"
proof
  assume "json_object (identity_parts p) = json_object (identity_parts q)"
  then have "sort_key fst (identity_parts p) = sort_key fst (identity_parts q)"
    by (simp add: json_object_def json_members_unique)
  then show "p = q"
    unfolding sorted_identity_parts
    by (cases p; cases q) (auto simp: mode_value_inj split: if_splits)
qed simp


section \<open>Properties\<close>

lemma key_Inr:
  "publication_idempotency_key sha p = Inr k \<Longrightarrow>
     k = ''publication:'' @ identity_version p @ '':'' @ sha (json_object (identity_parts p))"
  by (simp add: publication_idempotency_key_def split: if_splits)

lemma identity_version_length: "length (identity_version p) = 2"
  by (simp add: identity_version_def)

text \<open>C18: Two different intended publications never share an idempotency key, as long as SHA-256
  tells their two canonical texts apart: the text the key hashes is injective in the six
  identifiers, the optional request and the optional evaluation, whatever characters they hold.\<close>

theorem publication_key_distinguishes:
  assumes "publication_idempotency_key sha p = Inr k"
    and "publication_idempotency_key sha q = Inr l"
    and "json_object (identity_parts p) \<noteq> json_object (identity_parts q) \<longrightarrow>
      sha (json_object (identity_parts p)) \<noteq> sha (json_object (identity_parts q))"
    and "p \<noteq> q"
  shows "k \<noteq> l"
proof -
  have "sha (json_object (identity_parts p)) \<noteq> sha (json_object (identity_parts q))"
    using assms(3,4) identity_text_injective [of p q] by blast
  then show ?thesis
    using key_Inr [OF assms(1)] key_Inr [OF assms(2)] identity_version_length by (simp add: append_eq_append_conv)
qed

definition sample_identity :: "string \<Rightarrow> publication_identity" where
  "sample_identity request = \<lparr>source_message_id = ''m1'', destination_channel_id = ''d1'',
     routing_policy_version_id = ''p1'', routing_rule_id = ''r1'', action_id = ''a1'',
     publication_mode = COPY_WITH_CAPTION, routing_request_id = Some request,
     routing_evaluation_id = Some ''e1''\<rparr>"

theorem publication_key_distinguishes_witness:
  "''publication:v2:'' @ json_object (identity_parts (sample_identity ''q1''))
     \<noteq> ''publication:v2:'' @ json_object (identity_parts (sample_identity ''q2''))"
proof (rule publication_key_distinguishes [where sha = "\<lambda>s. s" and p = "sample_identity ''q1''"
      and q = "sample_identity ''q2''"])
  show "publication_idempotency_key (\<lambda>s. s) (sample_identity ''q1'')
      = Inr (''publication:v2:'' @ json_object (identity_parts (sample_identity ''q1'')))"
    by code_simp
  show "publication_idempotency_key (\<lambda>s. s) (sample_identity ''q2'')
      = Inr (''publication:v2:'' @ json_object (identity_parts (sample_identity ''q2'')))"
    by code_simp
qed (simp_all add: sample_identity_def)

text \<open>The legacy identity and the durable one never collide, whatever SHA-256 returns: an
  intent with a routing request or evaluation has a \<^verbatim>\<open>v2\<close> key, one with neither a \<^verbatim>\<open>v1\<close> key.\<close>

theorem publication_key_versions:
  assumes "publication_idempotency_key sha p = Inr k"
    and "publication_idempotency_key sha' q = Inr l"
    and "routing_request_id p = None" and "routing_evaluation_id p = None"
    and "routing_request_id q \<noteq> None \<or> routing_evaluation_id q \<noteq> None"
  shows "take 15 k = ''publication:v1:'' \<and> take 15 l = ''publication:v2:'' \<and> k \<noteq> l"
  using key_Inr [OF assms(1)] key_Inr [OF assms(2)] assms(3-5) by (simp add: identity_version_def)

theorem publication_key_versions_witness:
  "take 15 (''publication:v1:'' @ json_object (identity_parts
      ((sample_identity ''q1'')\<lparr>routing_request_id := None, routing_evaluation_id := None\<rparr>)))
    = ''publication:v1:''"
proof (rule conjunct1 [OF publication_key_versions [where q = "sample_identity ''q1''"]])
  show "publication_idempotency_key (\<lambda>s. s)
       ((sample_identity ''q1'')\<lparr>routing_request_id := None, routing_evaluation_id := None\<rparr>)
     = Inr (''publication:v1:'' @ json_object (identity_parts
      ((sample_identity ''q1'')\<lparr>routing_request_id := None, routing_evaluation_id := None\<rparr>)))"
    by code_simp
  show "publication_idempotency_key (\<lambda>s. s) (sample_identity ''q1'')
      = Inr (''publication:v2:'' @ json_object (identity_parts (sample_identity ''q1'')))"
    by code_simp
qed (simp_all add: sample_identity_def)

end
