(* ===== verification/Routing_DSL.thy ===== *)
theory Routing_DSL
  imports Py_Values
begin

text \<open>
  The routing condition language of \<^verbatim>\<open>tgcurator/domain/routing/dsl.py\<close>: the validator of
  the JSON condition tree, its three-valued evaluator, and the canonical facts snapshot.  The
  second half states what the language promises: a validated condition never raises while it
  is evaluated, the evaluator computes Kleene's strong three-valued logic over the leaves, and
  nothing unknown is ever turned into a match.
\<close>

section \<open>Validation\<close>

definition comparison_operators :: "string list" where
  "comparison_operators =
     [''eq'', ''neq'', ''gt'', ''gte'', ''lt'', ''lte'', ''in'', ''contains'', ''starts_with'']"

definition numeric_comparison_operators :: "string list" where
  "numeric_comparison_operators = [''eq'', ''neq'', ''gt'', ''gte'', ''lt'', ''lte'', ''in'']"

definition max_depth :: nat where
  "max_depth = 20"

type_synonym facts = "(string \<times> pyval) list"

text \<open>\<^verbatim>\<open>set(d) == {...}\<close> for a dictionary with distinct keys.\<close>

definition keys_are :: "string list \<Rightarrow> (string, 'v) dict \<Rightarrow> bool" where
  "keys_are names d = (set (map fst d) = set names)"

definition validate_fact :: "string list option \<Rightarrow> pyval option \<Rightarrow> unit result" where
  "validate_fact allowed fk =
     (case fk of
        Some (PStr s) \<Rightarrow>
          if \<not> fact_key s then fail ''fact must be a dotted identifier''
          else (case allowed of
             None \<Rightarrow> Inr ()
           | Some names \<Rightarrow> if s \<in> set names then Inr ()
               else fail ''fact is not allowed by the routing schema'')
      | _ \<Rightarrow> fail ''fact must be a dotted identifier'')"

definition validate_comparison_payload ::
  "string list option \<Rightarrow> bool \<Rightarrow> pyval \<Rightarrow> unit result" where
  "validate_comparison_payload allowed numeric_only payload =
     (case payload of
        PDict d \<Rightarrow>
          if \<not> keys_are [''fact'', ''op'', ''value''] d
          then fail ''comparison requires exactly fact, op, and value''
          else try_bind (validate_fact allowed (map_of d ''fact'')) (\<lambda>_.
            let op = the (map_of d ''op''); v = the (map_of d ''value'') in
            try_bind (str_in_set op
              (if numeric_only then numeric_comparison_operators else comparison_operators)) (\<lambda>known.
            if \<not> known then fail ''unsupported comparison operator''
            else if numeric_only \<and> \<not> is_number v
            then fail ''label_score comparison value must be numeric''
            else try_bind (is_json_value v) (\<lambda>json.
              if \<not> json then fail ''comparison value must be JSON-compatible''
              else if op = PStr ''in'' \<and> (case v of PList _ \<Rightarrow> False | _ \<Rightarrow> True)
              then fail ''in comparison value must be a JSON array''
              else Inr ())))
      | _ \<Rightarrow> fail ''comparison requires exactly fact, op, and value'')"

definition validate_leaf :: "string list option \<Rightarrow> (string, pyval) dict \<Rightarrow> unit result" where
  "validate_leaf allowed d =
     (if map_of d ''op'' = Some (PStr ''exists'')
      then if \<not> keys_are [''fact'', ''op''] d then fail ''exists requires exactly fact and op''
           else validate_fact allowed (map_of d ''fact'')
      else validate_comparison_payload allowed False (PDict d))"

definition score_comparisons :: "string list" where
  "score_comparisons = [''score_gt'', ''score_gte'', ''score_lt'', ''score_lte'', ''score_eq'']"

text \<open>\<^verbatim>\<open>payload.get(k)\<close>: a missing key reads as \<^verbatim>\<open>None\<close>.\<close>

definition dict_get :: "(string, pyval) dict \<Rightarrow> string \<Rightarrow> pyval" where
  "dict_get d k = (case map_of d k of None \<Rightarrow> PNone | Some v \<Rightarrow> v)"

definition validate_label_payload :: "bool \<Rightarrow> pyval \<Rightarrow> unit result" where
  "validate_label_payload media_context payload =
     (case payload of
        PDict d \<Rightarrow>
          let selected = filter (\<lambda>n. dict_has n d) score_comparisons;
              scope = dict_get d ''scope'';
              expected_scope = (if media_context then ''media'' else ''global'')
          in
          if \<not> set (map fst d) \<subseteq> set ([''namespace'', ''scope'', ''key''] @ score_comparisons)
          then fail ''label condition contains unsupported fields''
          else try_bind (str_in_set (dict_get d ''namespace'') [''model'', ''manual'', ''effective'']) (\<lambda>known.
          if \<not> known then fail ''label namespace must be model, manual, or effective''
          else if (case dict_get d ''key'' of PStr s \<Rightarrow> blank s | _ \<Rightarrow> True)
          then fail ''label key must not be blank''
          else if scope \<noteq> PNone \<and> scope \<noteq> PStr expected_scope
          then fail ''label scope is incompatible with its routing context''
          else if \<not> media_context \<and> scope \<noteq> PStr ''global''
          then fail ''global label conditions must specify scope=global''
          else (case selected of
              [] \<Rightarrow> Inr ()
            | [name] \<Rightarrow>
                if \<not> is_number (dict_get d name) then fail ''label score comparison must be in [0, 1]''
                else try_bind (py_float_of (dict_get d name)) (\<lambda>f.
                  if fl_le (Fin 0) f \<and> fl_le f (Fin 1) then Inr ()
                  else fail ''label score comparison must be in [0, 1]'')
            | _ \<Rightarrow> fail ''label condition accepts at most one score comparison''))
      | _ \<Rightarrow> fail ''label condition must be an object'')"

definition validate_label_present :: "string list option \<Rightarrow> pyval \<Rightarrow> unit result" where
  "validate_label_present allowed payload =
     (case payload of
        PDict d \<Rightarrow>
          if \<not> set (map fst d) \<subseteq> {''fact'', ''minimum_score''}
          then fail ''label_present only accepts fact and optional minimum_score''
          else try_bind (validate_fact allowed (map_of d ''fact'')) (\<lambda>_.
            let threshold = (case map_of d ''minimum_score'' of None \<Rightarrow> PFloat (Fin 0) | Some v \<Rightarrow> v) in
            case num_val threshold of
              None \<Rightarrow> fail ''label_present minimum_score must be in [0, 1]''
            | Some f \<Rightarrow> if fl_le (Fin 0) f \<and> fl_le f (Fin 1) then Inr ()
                else fail ''label_present minimum_score must be in [0, 1]'')
      | _ \<Rightarrow> fail ''label_present only accepts fact and optional minimum_score'')"

definition validate_media_label :: "pyval \<Rightarrow> unit result" where
  "validate_media_label payload =
     (case payload of
        PDict d \<Rightarrow>
          if \<not> keys_are [''label''] d then fail ''any_media or none_media requires exactly one label condition''
          else validate_label_payload True (the (map_of d ''label''))
      | _ \<Rightarrow> fail ''any_media or none_media requires exactly one label condition'')"

fun validate :: "string list option \<Rightarrow> nat \<Rightarrow> pyval \<Rightarrow> unit result"
  and validate_children :: "string list option \<Rightarrow> nat \<Rightarrow> pyval list \<Rightarrow> unit result" where
  "validate allowed depth (PDict d) =
     (if max_depth < depth then fail ''routing condition exceeds maximum nesting depth''
      else if dict_has ''fact'' d \<or> dict_has ''op'' d then validate_leaf allowed d
      else (case d of
        [(operator, payload)] \<Rightarrow>
          if operator \<in> {''all'', ''any''} then
            (case payload of
               PList cs \<Rightarrow> if cs = [] then fail ''operator requires a non-empty list''
                 else validate_children allowed (Suc depth) cs
             | _ \<Rightarrow> fail ''operator requires a non-empty list'')
          else if operator = ''not'' then validate allowed (Suc depth) payload
          else if operator = ''label'' then validate_label_payload False payload
          else if operator \<in> {''any_media'', ''none_media''} then validate_media_label payload
          else if operator = ''label_score'' then validate_comparison_payload allowed True payload
          else if operator = ''label_present'' then validate_label_present allowed payload
          else fail ''unsupported routing operator''
      | _ \<Rightarrow> fail ''boolean routing condition must contain exactly one operator''))"
| "validate allowed depth v =
     (if max_depth < depth then fail ''routing condition exceeds maximum nesting depth''
      else fail ''routing condition must be an object'')"
| "validate_children allowed depth [] = Inr ()"
| "validate_children allowed depth (c # cs) =
     try_bind (validate allowed depth c) (\<lambda>_. validate_children allowed depth cs)"

definition validate_condition :: "string list option \<Rightarrow> pyval \<Rightarrow> unit result" where
  "validate_condition allowed condition = validate allowed 0 condition"

section \<open>Evaluation\<close>

text \<open>The \<^verbatim>\<open>_Unknown\<close> sentinel beside the two Booleans; facts are looked up to an option.\<close>

datatype truth = Known bool | Unknown

fun walk :: "pyval \<Rightarrow> string list \<Rightarrow> pyval option" where
  "walk v [] = Some v"
| "walk (PDict d) (c # cs) = (case map_of d c of None \<Rightarrow> None | Some v \<Rightarrow> walk v cs)"
| "walk _ (c # cs) = None"

definition resolve_fact :: "facts \<Rightarrow> string \<Rightarrow> pyval option" where
  "resolve_fact facts fk =
     (case map_of facts fk of Some v \<Rightarrow> Some v | None \<Rightarrow> walk (PDict facts) (split_dot fk))"

definition order_test :: "string \<Rightarrow> bool \<Rightarrow> bool \<Rightarrow> bool" where
  "order_test operator lt same =
     (if operator = ''gt'' then \<not> lt \<and> \<not> same
      else if operator = ''gte'' then \<not> lt
      else if operator = ''lt'' then lt
      else lt \<or> same)"

definition num_test :: "string \<Rightarrow> py_float \<Rightarrow> py_float \<Rightarrow> bool" where
  "num_test operator a b =
     (if operator = ''gt'' then fl_less b a
      else if operator = ''gte'' then fl_le b a
      else if operator = ''lt'' then fl_less a b
      else fl_le a b)"

fun same_type :: "pyval \<Rightarrow> pyval \<Rightarrow> bool" where
  "same_type PNone w = (w = PNone)"
| "same_type (PBool _) w = (case w of PBool _ \<Rightarrow> True | _ \<Rightarrow> False)"
| "same_type (PInt _) w = (case w of PInt _ \<Rightarrow> True | _ \<Rightarrow> False)"
| "same_type (PFloat _) w = (case w of PFloat _ \<Rightarrow> True | _ \<Rightarrow> False)"
| "same_type (PStr _) w = (case w of PStr _ \<Rightarrow> True | _ \<Rightarrow> False)"
| "same_type (PList _) w = (case w of PList _ \<Rightarrow> True | _ \<Rightarrow> False)"
| "same_type (PTuple _) w = (case w of PTuple _ \<Rightarrow> True | _ \<Rightarrow> False)"
| "same_type (PDict _) w = (case w of PDict _ \<Rightarrow> True | _ \<Rightarrow> False)"

definition elements :: "pyval \<Rightarrow> pyval list option" where
  "elements v = (case v of PList xs \<Rightarrow> Some xs | PTuple xs \<Rightarrow> Some xs | _ \<Rightarrow> None)"

definition compare_values :: "pyval option \<Rightarrow> string \<Rightarrow> pyval \<Rightarrow> bool \<Rightarrow> truth" where
  "compare_values actual operator expected numeric_only =
     (case actual of
        None \<Rightarrow> Unknown
      | Some a \<Rightarrow>
          if a = PNone then Unknown
          else if numeric_only \<and> (\<not> is_number a \<or> \<not> is_number expected) then Unknown
          else if operator \<in> {''gt'', ''gte'', ''lt'', ''lte''} then
            (case (num_val a, num_val expected) of
               (Some x, Some y) \<Rightarrow> Known (num_test operator x y)
             | _ \<Rightarrow>
               (case (a, expected) of
                  (PStr s, PStr t) \<Rightarrow> Known (order_test operator (s < t) (s = t))
                | _ \<Rightarrow> Unknown))
          else if operator \<in> {''eq'', ''neq''} then
            if \<not> same_type a expected then Unknown
            else Known (if operator = ''eq'' then py_eq a expected else \<not> py_eq a expected)
          else if operator = ''in'' then
            (case elements expected of None \<Rightarrow> Unknown | Some xs \<Rightarrow> Known (list_ex (py_eq a) xs))
          else if operator = ''contains'' then
            (case a of
               PStr s \<Rightarrow> (case expected of PStr p \<Rightarrow> Known (has_substring p s) | _ \<Rightarrow> Unknown)
             | _ \<Rightarrow> (case elements a of None \<Rightarrow> Unknown
                   | Some xs \<Rightarrow> Known (list_ex (\<lambda>x. py_eq x expected) xs)))
          else if operator = ''starts_with'' then
            (case (a, expected) of (PStr s, PStr p) \<Rightarrow> Known (has_prefix p s) | _ \<Rightarrow> Unknown)
          else Unknown)"

text \<open>\<^verbatim>\<open>payload[k]\<close>: a missing key raises.\<close>

definition dict_index :: "(string, pyval) dict \<Rightarrow> string \<Rightarrow> pyval result" where
  "dict_index d k = (case map_of d k of None \<Rightarrow> Inl KeyError | Some v \<Rightarrow> Inr v)"

fun as_text :: "pyval \<Rightarrow> string result" where
  "as_text (PStr s) = Inr s"
| "as_text _ = Inl TypeError"

definition as_dict :: "pyval \<Rightarrow> (string, pyval) dict result" where
  "as_dict v = (case v of PDict d \<Rightarrow> Inr d | _ \<Rightarrow> Inl TypeError)"

definition comparison_name :: "string \<Rightarrow> string" where
  "comparison_name n =
     (if n = ''score_gt'' then ''gt'' else if n = ''score_gte'' then ''gte''
      else if n = ''score_lt'' then ''lt'' else if n = ''score_lte'' then ''lte'' else ''eq'')"

text \<open>
  \<^verbatim>\<open>_evaluate_label\<close>.  The default of \<^verbatim>\<open>media_entry\<close> is \<^verbatim>\<open>None\<close>, so that a media entry that
  is itself null is evaluated against the global labels: \<open>entry = PNone\<close> covers both calls.
\<close>

definition label_test :: "(string, pyval) dict \<Rightarrow> pyval option \<Rightarrow> truth result" where
  "label_test d value =
     (case value of
        Some (PDict v) \<Rightarrow>
          (case find (\<lambda>n. dict_has n d) score_comparisons of
             None \<Rightarrow> Inr (case map_of v ''activated'' of Some (PBool b) \<Rightarrow> Known b | _ \<Rightarrow> Unknown)
           | Some name \<Rightarrow>
               Inr (compare_values (map_of v ''score'') (comparison_name name) (dict_get d name) True))
      | _ \<Rightarrow> Inr Unknown)"

definition evaluate_label :: "pyval \<Rightarrow> facts \<Rightarrow> pyval \<Rightarrow> truth result" where
  "evaluate_label payload facts entry =
     try_bind (as_dict payload) (\<lambda>d.
       case entry of
         PNone \<Rightarrow>
           try_bind (try_bind (dict_index d ''namespace'') as_text) (\<lambda>ns.
           try_bind (try_bind (dict_index d ''key'') as_text) (\<lambda>key.
             label_test d (resolve_fact facts (''labels.'' @ ns @ ''.global.'' @ key))))
       | PDict e \<Rightarrow>
           (case map_of e ''labels'' of
              Some (PDict labels) \<Rightarrow>
                try_bind (try_bind (dict_index d ''key'') as_text) (\<lambda>key. label_test d (map_of labels key))
            | _ \<Rightarrow> Inr Unknown)
       | _ \<Rightarrow> Inr Unknown)"

fun scan_media :: "bool \<Rightarrow> pyval \<Rightarrow> facts \<Rightarrow> bool \<Rightarrow> pyval list \<Rightarrow> truth result" where
  "scan_media none_mode payload facts saw [] =
     Inr (if saw then Unknown else Known none_mode)"
| "scan_media none_mode payload facts saw (entry # entries) =
     try_bind (evaluate_label payload facts entry) (\<lambda>r.
       if r = Known True then Inr (Known (\<not> none_mode))
       else scan_media none_mode payload facts (saw \<or> r = Unknown) entries)"

definition evaluate_media :: "bool \<Rightarrow> pyval \<Rightarrow> facts \<Rightarrow> truth result" where
  "evaluate_media none_mode payload facts =
     try_bind (as_dict payload) (\<lambda>d.
     try_bind (dict_index d ''label'') (\<lambda>label.
     try_bind (as_dict label) (\<lambda>l.
     try_bind (try_bind (dict_index l ''namespace'') as_text) (\<lambda>ns.
       case resolve_fact facts (''labels.'' @ ns @ ''.media'') of
         Some (PDict media) \<Rightarrow> scan_media none_mode label facts False (map snd media)
       | _ \<Rightarrow> Inr Unknown))))"

definition evaluate_comparison :: "bool \<Rightarrow> pyval \<Rightarrow> facts \<Rightarrow> truth result" where
  "evaluate_comparison numeric_only payload facts =
     try_bind (as_dict payload) (\<lambda>d.
     try_bind (try_bind (dict_index d ''fact'') as_text) (\<lambda>fk.
     try_bind (try_bind (dict_index d ''op'') as_text) (\<lambda>operator.
     try_bind (dict_index d ''value'') (\<lambda>v.
       Inr (compare_values (resolve_fact facts fk) operator v numeric_only)))))"

definition evaluate_leaf :: "(string, pyval) dict \<Rightarrow> facts \<Rightarrow> truth result" where
  "evaluate_leaf d facts =
     (if map_of d ''op'' = Some (PStr ''exists'')
      then try_bind (try_bind (dict_index d ''fact'') as_text) (\<lambda>fk.
        Inr (case resolve_fact facts fk of None \<Rightarrow> Unknown | Some v \<Rightarrow> Known (v \<noteq> PNone)))
      else evaluate_comparison False (PDict d) facts)"

definition evaluate_label_present :: "pyval \<Rightarrow> facts \<Rightarrow> truth result" where
  "evaluate_label_present payload facts =
     try_bind (as_dict payload) (\<lambda>d.
     try_bind (try_bind (dict_index d ''fact'') as_text) (\<lambda>fk.
       case resolve_fact facts fk of
         None \<Rightarrow> Inr Unknown
       | Some v \<Rightarrow>
           (case num_val v of
              None \<Rightarrow> Inr Unknown
            | Some f \<Rightarrow>
                (case num_val (case map_of d ''minimum_score'' of None \<Rightarrow> PFloat (Fin 0) | Some t \<Rightarrow> t) of
                   None \<Rightarrow> Inl TypeError
                 | Some t \<Rightarrow> Inr (Known (fl_le t f))))))"

fun truth_not :: "truth \<Rightarrow> truth" where
  "truth_not Unknown = Unknown"
| "truth_not (Known b) = Known (\<not> b)"

fun evaluate :: "facts \<Rightarrow> pyval \<Rightarrow> truth result"
  and evaluate_all :: "facts \<Rightarrow> bool \<Rightarrow> pyval list \<Rightarrow> truth result"
  and evaluate_any :: "facts \<Rightarrow> bool \<Rightarrow> pyval list \<Rightarrow> truth result" where
  "evaluate facts (PDict d) =
     (if dict_has ''fact'' d \<or> dict_has ''op'' d then evaluate_leaf d facts
      else (case d of
        [] \<Rightarrow> Inl RuntimeError
      | (operator, payload) # rest \<Rightarrow>
          if operator = ''all'' then
            (case payload of PList cs \<Rightarrow> evaluate_all facts False cs | _ \<Rightarrow> Inl TypeError)
          else if operator = ''any'' then
            (case payload of PList cs \<Rightarrow> evaluate_any facts False cs | _ \<Rightarrow> Inl TypeError)
          else if operator = ''not'' then
            try_bind (evaluate facts payload) (\<lambda>r. Inr (truth_not r))
          else if operator = ''label'' then evaluate_label payload facts PNone
          else if operator \<in> {''any_media'', ''none_media''} then
            evaluate_media (operator = ''none_media'') payload facts
          else if operator = ''label_score'' then evaluate_comparison True payload facts
          else if operator = ''label_present'' then evaluate_label_present payload facts
          else Inr Unknown))"
| "evaluate facts v = Inl TypeError"
| "evaluate_all facts saw [] = Inr (if saw then Unknown else Known True)"
| "evaluate_all facts saw (c # cs) =
     try_bind (evaluate facts c) (\<lambda>r.
       if r = Known False then Inr (Known False) else evaluate_all facts (saw \<or> r = Unknown) cs)"
| "evaluate_any facts saw [] = Inr (if saw then Unknown else Known False)"
| "evaluate_any facts saw (c # cs) =
     try_bind (evaluate facts c) (\<lambda>r.
       if r = Known True then Inr (Known True) else evaluate_any facts (saw \<or> r = Unknown) cs)"

text \<open>The public entry point: any exception, of the validator or the evaluator, is no match.\<close>

definition evaluate_condition :: "pyval \<Rightarrow> facts \<Rightarrow> bool" where
  "evaluate_condition condition facts =
     (case try_bind (validate None 0 condition) (\<lambda>_. evaluate facts condition) of
        Inl _ \<Rightarrow> False
      | Inr r \<Rightarrow> r = Known True)"


section \<open>Inversion of the validator\<close>

named_theorems valid_dest \<open>what a validated condition looks like\<close>

lemma keys_are_lookup: "keys_are names d \<Longrightarrow> k \<in> set names \<Longrightarrow> \<exists>v. map_of d k = Some v"
  by (metis keys_are_def list.set_map map_of_eq_None_iff not_Some_eq)

lemma str_in_set_True [simp]: "str_in_set v names = Inr True \<longleftrightarrow> (\<exists>s. v = PStr s \<and> s \<in> set names)"
  by (cases v) (auto simp: str_in_set_def)

lemma str_in_set_mono:
  "set a \<subseteq> set b \<Longrightarrow> str_in_set v a = Inr True \<Longrightarrow> str_in_set v b = Inr True"
  by auto

lemma bind_known [simp]:
  "(\<exists>k. r = Inr k \<and> (if \<not> k then fail m else x) = Inr y) \<longleftrightarrow> r = Inr True \<and> x = Inr y"
  by auto

lemma validate_fact_ok [valid_dest]:
  "validate_fact allowed fk = Inr u \<Longrightarrow> \<exists>s. fk = Some (PStr s) \<and> fact_key s"
  by (auto simp: validate_fact_def split: option.splits pyval.splits if_splits)

lemma validate_fact_allowed:
  "validate_fact (Some names) fk = Inr u \<Longrightarrow> \<exists>s. fk = Some (PStr s) \<and> s \<in> set names"
  by (auto simp: validate_fact_def split: option.splits pyval.splits if_splits)

lemma validate_comparison_ok [valid_dest]:
  assumes "validate_comparison_payload allowed numeric p = Inr u"
  shows "\<exists>d s op v. p = PDict d \<and> map_of d ''fact'' = Some (PStr s) \<and> fact_key s
    \<and> map_of d ''op'' = Some (PStr op) \<and> map_of d ''value'' = Some v
    \<and> op \<in> set comparison_operators \<and> (numeric \<longrightarrow> is_number v)"
proof -
  from assms obtain d where p: "p = PDict d" and keys: "keys_are [''fact'', ''op'', ''value''] d"
    and vf: "\<exists>u. validate_fact allowed (map_of d ''fact'') = Inr u"
    and op: "str_in_set (the (map_of d ''op''))
      (if numeric then numeric_comparison_operators else comparison_operators) = Inr True"
    and num: "numeric \<longrightarrow> is_number (the (map_of d ''value''))"
    by (auto simp: validate_comparison_payload_def Let_def result_simps
        split: pyval.splits if_splits)
  have "set numeric_comparison_operators \<subseteq> set comparison_operators"
    by (simp add: numeric_comparison_operators_def comparison_operators_def)
  then have "str_in_set (the (map_of d ''op'')) comparison_operators = Inr True"
    using op str_in_set_mono by (metis (full_types))
  with p keys num vf validate_fact_ok
    keys_are_lookup [OF keys, of "''op''"] keys_are_lookup [OF keys, of "''value''"]
  show ?thesis by fastforce
qed

lemma validate_leaf_ok:
  "validate_leaf allowed d = Inr u \<Longrightarrow>
     (map_of d ''op'' = Some (PStr ''exists'') \<and> (\<exists>s. map_of d ''fact'' = Some (PStr s)))
     \<or> (map_of d ''op'' \<noteq> Some (PStr ''exists'')
        \<and> validate_comparison_payload allowed False (PDict d) = Inr u)"
  by (auto simp: validate_leaf_def dest!: validate_fact_ok split: if_splits)

lemma validate_label_ok [valid_dest]:
  assumes "validate_label_payload media p = Inr u"
  shows "\<exists>d ns key. p = PDict d \<and> map_of d ''namespace'' = Some (PStr ns)
    \<and> ns \<in> {''model'', ''manual'', ''effective''} \<and> map_of d ''key'' = Some (PStr key) \<and> \<not> blank key"
proof -
  from assms obtain d where p: "p = PDict d"
    and ns: "str_in_set (dict_get d ''namespace'') [''model'', ''manual'', ''effective''] = Inr True"
    and key: "\<not> (case dict_get d ''key'' of PStr s \<Rightarrow> blank s | _ \<Rightarrow> True)"
    by (auto simp: validate_label_payload_def Let_def result_simps split: pyval.splits if_splits)
  from ns obtain n where "map_of d ''namespace'' = Some (PStr n)"
    "n \<in> {''model'', ''manual'', ''effective''}"
    by (auto simp: dict_get_def split: option.splits)
  moreover from key obtain k where "map_of d ''key'' = Some (PStr k)" "\<not> blank k"
    by (auto simp: dict_get_def split: option.splits pyval.splits)
  ultimately show ?thesis using p by blast
qed

lemma validate_media_ok [valid_dest]:
  "validate_media_label p = Inr u \<Longrightarrow>
     \<exists>d l. p = PDict d \<and> map_of d ''label'' = Some l \<and> validate_label_payload True l = Inr u"
  using keys_are_lookup [of "[''label'']"]
  by (fastforce simp: validate_media_label_def split: pyval.splits if_splits)

lemma validate_present_ok [valid_dest]:
  assumes "validate_label_present allowed p = Inr u"
  shows "\<exists>d s t. p = PDict d \<and> map_of d ''fact'' = Some (PStr s)
    \<and> num_val (case map_of d ''minimum_score'' of None \<Rightarrow> PFloat (Fin 0) | Some t \<Rightarrow> t) = Some t"
  using assms
  by (auto simp: validate_label_present_def Let_def result_simps dest!: validate_fact_ok
      split: pyval.splits if_splits option.splits)

section \<open>Evaluation of a validated condition never raises\<close>

lemma evaluate_comparison_total:
  "validate_comparison_payload allowed numeric p = Inr u \<Longrightarrow> \<exists>t. evaluate_comparison b p facts = Inr t"
  by (auto dest!: validate_comparison_ok simp: evaluate_comparison_def as_dict_def dict_index_def)

lemma evaluate_leaf_total: "validate_leaf allowed d = Inr u \<Longrightarrow> \<exists>t. evaluate_leaf d facts = Inr t"
  by (auto dest!: validate_leaf_ok
      simp: evaluate_leaf_def dict_index_def evaluate_comparison_total)

lemma label_test_total: "\<exists>t. label_test d value = Inr t"
  by (auto simp: label_test_def split: option.splits pyval.splits)

lemma evaluate_label_total:
  "validate_label_payload media p = Inr u \<Longrightarrow> \<exists>t. evaluate_label p facts entry = Inr t"
  using label_test_total
  by (auto dest!: validate_label_ok simp: evaluate_label_def as_dict_def dict_index_def
      split: pyval.splits option.splits)

lemma scan_media_total:
  "validate_label_payload media p = Inr u \<Longrightarrow> \<exists>t. scan_media none_mode p facts saw entries = Inr t"
proof (induction entries arbitrary: saw)
  case (Cons e es)
  obtain r where "evaluate_label p facts e = Inr r" using evaluate_label_total Cons.prems by blast
  with Cons show ?case by auto
qed simp

lemma evaluate_media_total:
  assumes "validate_media_label p = Inr u"
  shows "\<exists>t. evaluate_media none_mode p facts = Inr t"
proof -
  from validate_media_ok [OF assms] obtain d l where p: "p = PDict d" "map_of d ''label'' = Some l"
    and v: "validate_label_payload True l = Inr u" by blast
  from validate_label_ok [OF v] obtain ld ns where l: "l = PDict ld"
    "map_of ld ''namespace'' = Some (PStr ns)" by blast
  show ?thesis using p l scan_media_total [OF v]
    by (auto simp: evaluate_media_def as_dict_def dict_index_def split: option.splits pyval.splits)
qed

lemma evaluate_present_total:
  "validate_label_present allowed p = Inr u \<Longrightarrow> \<exists>t. evaluate_label_present p facts = Inr t"
  by (auto dest!: validate_present_ok simp: evaluate_label_present_def as_dict_def dict_index_def
      split: option.splits)

lemmas evaluation_total = evaluate_comparison_total evaluate_leaf_total evaluate_label_total
  evaluate_media_total evaluate_present_total


text \<open>
  A leaf is a condition without a Boolean operator at its root; \<open>well_formed\<close> restates the
  validator as the grammar of the accepted trees, one rule per Boolean operator.
\<close>

definition boolean_node :: "(string, pyval) dict \<Rightarrow> bool" where
  "boolean_node d =
     (\<not> (dict_has ''fact'' d \<or> dict_has ''op'' d) \<and>
      (case d of [(operator, _)] \<Rightarrow> operator \<in> {''all'', ''any'', ''not''} | _ \<Rightarrow> False))"

definition leaf_valid :: "string list option \<Rightarrow> pyval \<Rightarrow> bool" where
  "leaf_valid allowed c =
     (case c of PDict d \<Rightarrow> \<not> boolean_node d \<and> validate allowed 0 c = Inr () | _ \<Rightarrow> False)"

inductive well_formed :: "string list option \<Rightarrow> nat \<Rightarrow> pyval \<Rightarrow> bool" for allowed where
  leaf: "depth \<le> max_depth \<Longrightarrow> leaf_valid allowed c \<Longrightarrow> well_formed allowed depth c"
| connective: "depth \<le> max_depth \<Longrightarrow> operator = ''all'' \<or> operator = ''any'' \<Longrightarrow> cs \<noteq> [] \<Longrightarrow>
    (\<And>c. c \<in> set cs \<Longrightarrow> well_formed allowed (Suc depth) c) \<Longrightarrow>
    well_formed allowed depth (PDict [(operator, PList cs)])"
| negation: "depth \<le> max_depth \<Longrightarrow> well_formed allowed (Suc depth) c \<Longrightarrow>
    well_formed allowed depth (PDict [(''not'', c)])"

lemma validate_depth: "validate allowed depth c = Inr u \<Longrightarrow> depth \<le> max_depth"
  by (cases "(allowed, depth, c)" rule: validate.cases) (auto split: if_splits)

text \<open>The shape of a dictionary without a Boolean root does not involve the depth.\<close>

lemma validate_leaf_depth:
  assumes "\<not> boolean_node d" and "depth \<le> max_depth" and "depth' \<le> max_depth"
  shows "validate allowed depth (PDict d) = validate allowed depth' (PDict d)"
proof (cases "dict_has ''fact'' d \<or> dict_has ''op'' d")
  case True
  with assms show ?thesis by simp
next
  case False
  show ?thesis
  proof (cases "\<exists>operator payload. d = [(operator, payload)]")
    case True
    then obtain operator payload where "d = [(operator, payload)]" by blast
    with assms False show ?thesis by (simp add: boolean_node_def)
  next
    case False
    with assms \<open>\<not> (dict_has ''fact'' d \<or> dict_has ''op'' d)\<close> show ?thesis
      by (auto split: list.splits)
  qed
qed

lemma validate_leaf_valid:
  assumes "validate allowed depth (PDict d) = Inr u" and "\<not> boolean_node d"
  shows "leaf_valid allowed (PDict d)"
  using assms validate_leaf_depth [OF assms(2), of depth 0] validate_depth [OF assms(1)]
  by (simp add: leaf_valid_def)

lemma boolean_nodeE:
  assumes "boolean_node d"
  obtains (connective) operator payload where "d = [(operator, payload)]"
      "operator = ''all'' \<or> operator = ''any''"
  | (negation) payload where "d = [(''not'', payload)]"
  using assms by (auto simp: boolean_node_def split: list.splits)

lemma validate_connective:
  assumes "operator = ''all'' \<or> operator = ''any''"
  shows "validate allowed depth (PDict [(operator, payload)]) = Inr u \<longleftrightarrow> depth \<le> max_depth \<and>
    (\<exists>cs. payload = PList cs \<and> cs \<noteq> [] \<and> validate_children allowed (Suc depth) cs = Inr u)"
  using assms by (auto simp: dict_has_def split: pyval.splits if_splits)

lemma validate_negation:
  "validate allowed depth (PDict [(''not'', payload)]) = Inr u \<longleftrightarrow>
     depth \<le> max_depth \<and> validate allowed (Suc depth) payload = Inr u"
  by (simp add: dict_has_def)

lemma validate_children_iff:
  "validate_children allowed depth cs = Inr u \<longleftrightarrow> (\<forall>c \<in> set cs. validate allowed depth c = Inr u)"
  by (induction cs) (auto simp: result_simps)

lemma validate_well_formed: "validate allowed depth c = Inr u \<Longrightarrow> well_formed allowed depth c"
proof (induction c arbitrary: depth rule: measure_induct_rule [of size])
  case (less c)
  obtain d where c: "c = PDict d" using less.prems by (cases c) (auto split: if_splits)
  have depth: "depth \<le> max_depth" using less.prems by (rule validate_depth)
  show ?case
  proof (cases "boolean_node d")
    case False
    with less.prems depth show ?thesis unfolding c by (blast intro: well_formed.leaf validate_leaf_valid)
  next
    case True
    then show ?thesis
    proof (cases rule: boolean_nodeE)
      case (connective operator payload)
      have "validate allowed depth (PDict [(operator, payload)]) = Inr u"
        using less.prems unfolding c connective(1) .
      then obtain cs where cs: "payload = PList cs" "cs \<noteq> []"
        "validate_children allowed (Suc depth) cs = Inr u"
        unfolding validate_connective [OF connective(2)] by blast
      have "well_formed allowed (Suc depth) x" if "x \<in> set cs" for x
      proof (rule less.IH)
        have "size x \<le> size_list size cs" using that by (rule size_list_estimation') simp
        then show "size x < size c" by (simp add: c connective(1) cs(1))
        show "validate allowed (Suc depth) x = Inr u" using cs(3) that by (simp add: validate_children_iff)
      qed
      then show ?thesis unfolding c connective(1) cs(1)
        by (rule well_formed.connective [OF depth connective(2) cs(2)])
    next
      case (negation payload)
      have "well_formed allowed (Suc depth) payload"
      proof (rule less.IH)
        show "size payload < size c" by (simp add: c negation)
        show "validate allowed (Suc depth) payload = Inr u"
          using less.prems unfolding c negation validate_negation by (rule conjunct2)
      qed
      then show ?thesis unfolding c negation by (rule well_formed.negation [OF depth])
    qed
  qed
qed

lemma evaluate_leaf_valid_total:
  assumes "leaf_valid allowed c"
  shows "\<exists>t. evaluate facts c = Inr t"
proof -
  from assms obtain d where c: "c = PDict d" and nb: "\<not> boolean_node d"
    and v: "validate allowed 0 (PDict d) = Inr ()"
    by (auto simp: leaf_valid_def split: pyval.splits)
  show ?thesis
  proof (cases "dict_has ''fact'' d \<or> dict_has ''op'' d")
    case True
    with v show ?thesis by (simp add: c evaluate_leaf_total split: if_splits)
  next
    case False
    with v obtain operator payload where d: "d = [(operator, payload)]"
      by (auto split: list.splits if_splits)
    from nb False d have ops: "operator \<notin> {''all'', ''any'', ''not''}" by (simp add: boolean_node_def)
    note v = v [unfolded d] and False = False [unfolded d]
    consider "operator = ''label''" | "operator = ''any_media'' \<or> operator = ''none_media''"
      | "operator = ''label_score''" | "operator = ''label_present''"
      using v ops False by (simp split: if_splits)
    then show ?thesis
    proof cases
      case 1
      with v False show ?thesis unfolding c d by (simp add: evaluate_label_total)
    next
      case 2
      with v False have "validate_media_label payload = Inr ()" by auto
      from evaluate_media_total [OF this] 2 False show ?thesis unfolding c d by auto
    next
      case 3
      with v False have "validate_comparison_payload allowed True payload = Inr ()" by simp
      from evaluate_comparison_total [OF this] 3 False show ?thesis unfolding c d by simp
    next
      case 4
      with v False show ?thesis unfolding c d by (simp add: evaluate_present_total)
    qed
  qed
qed


lemma well_formed_validate: "well_formed allowed depth c \<Longrightarrow> validate allowed depth c = Inr ()"
proof (induction rule: well_formed.induct)
  case (leaf depth c)
  then obtain d where "c = PDict d" "\<not> boolean_node d" "validate allowed 0 (PDict d) = Inr ()"
    by (auto simp: leaf_valid_def split: pyval.splits)
  with leaf(1) validate_leaf_depth [of d depth 0] show ?case by simp
next
  case (connective depth operator cs)
  then show ?case unfolding validate_connective [OF connective(2)]
    by (simp add: validate_children_iff)
next
  case (negation depth c)
  then show ?case unfolding validate_negation by simp
qed

lemma well_formed_iff: "well_formed allowed depth c \<longleftrightarrow> validate allowed depth c = Inr ()"
  using well_formed_validate validate_well_formed by blast

text \<open>Dropping the restriction on fact names accepts every condition accepted with it.\<close>

lemma validate_fact_any: "validate_fact allowed fk = Inr () \<Longrightarrow> validate_fact None fk = Inr ()"
  by (auto simp: validate_fact_def split: option.splits pyval.splits if_splits)

lemma bind_fact_any:
  "try_bind (validate_fact allowed fk) k = Inr () \<Longrightarrow> try_bind (validate_fact None fk) k = Inr ()"
  using validate_fact_any [of allowed fk] by (cases "validate_fact allowed fk") auto

lemma validate_comparison_any:
  "validate_comparison_payload allowed b p = Inr () \<Longrightarrow> validate_comparison_payload None b p = Inr ()"
  unfolding validate_comparison_payload_def
  by (cases p) (simp_all split del: if_split, auto intro: bind_fact_any [of allowed] split: if_splits)

lemma validate_present_any:
  "validate_label_present allowed p = Inr () \<Longrightarrow> validate_label_present None p = Inr ()"
  unfolding validate_label_present_def
  by (cases p) (simp_all split: if_splits, rule bind_fact_any [of allowed])

lemma validate_leaf_any: "validate_leaf allowed d = Inr () \<Longrightarrow> validate_leaf None d = Inr ()"
  using validate_fact_any [of allowed] validate_comparison_any [of allowed]
  by (auto simp: validate_leaf_def split: if_splits)

lemma leaf_valid_any:
  assumes "leaf_valid allowed c"
  shows "leaf_valid None c"
proof -
  from assms obtain d where c: "c = PDict d" and nb: "\<not> boolean_node d"
    and v: "validate allowed 0 (PDict d) = Inr ()"
    by (auto simp: leaf_valid_def split: pyval.splits)
  have "validate None 0 (PDict d) = Inr ()"
  proof (cases "dict_has ''fact'' d \<or> dict_has ''op'' d")
    case True
    with v show ?thesis by (simp add: validate_leaf_any split: if_splits)
  next
    case False
    with v obtain operator payload where d: "d = [(operator, payload)]"
      by (auto split: list.splits if_splits)
    from nb False d have "operator \<notin> {''all'', ''any'', ''not''}" by (simp add: boolean_node_def)
    with v False validate_comparison_any [of allowed True payload]
      validate_present_any [of allowed payload]
    show ?thesis unfolding d by (auto split: if_splits)
  qed
  with c nb show ?thesis by (simp add: leaf_valid_def)
qed

lemma well_formed_any: "well_formed allowed depth c \<Longrightarrow> well_formed None depth c"
  by (induction rule: well_formed.induct) (auto intro: well_formed.intros leaf_valid_any)

section \<open>Abstract semantics: Kleene's three-valued logic\<close>

datatype 'a formula = FAtom 'a | FAll "'a formula list" | FAny "'a formula list" | FNot "'a formula"

definition all_truth :: "truth list \<Rightarrow> truth" where
  "all_truth ts = (if Known False \<in> set ts then Known False
     else if Unknown \<in> set ts then Unknown else Known True)"

definition any_truth :: "truth list \<Rightarrow> truth" where
  "any_truth ts = (if Known True \<in> set ts then Known True
     else if Unknown \<in> set ts then Unknown else Known False)"

fun kleene :: "('a \<Rightarrow> truth) \<Rightarrow> 'a formula \<Rightarrow> truth" where
  "kleene v (FAtom a) = v a"
| "kleene v (FAll fs) = all_truth (map (kleene v) fs)"
| "kleene v (FAny fs) = any_truth (map (kleene v) fs)"
| "kleene v (FNot f) = truth_not (kleene v f)"

fun formula_of :: "pyval \<Rightarrow> pyval formula" where
  "formula_of (PDict d) =
     (if boolean_node d then
        (case d of
           [(operator, payload)] \<Rightarrow>
             if operator = ''not'' then FNot (formula_of payload)
             else (case payload of
                 PList cs \<Rightarrow> if operator = ''all'' then FAll (map formula_of cs) else FAny (map formula_of cs)
               | _ \<Rightarrow> FAtom (PDict d))
         | _ \<Rightarrow> FAtom (PDict d))
      else FAtom (PDict d))"
| "formula_of v = FAtom v"

definition leaf_truth :: "facts \<Rightarrow> pyval \<Rightarrow> truth" where
  "leaf_truth facts c = (case evaluate facts c of Inl _ \<Rightarrow> Unknown | Inr t \<Rightarrow> t)"

fun formula_depth :: "'a formula \<Rightarrow> nat" where
  "formula_depth (FAtom a) = 0"
| "formula_depth (FAll fs) = Suc (Max (insert 0 (set (map formula_depth fs))))"
| "formula_depth (FAny fs) = Suc (Max (insert 0 (set (map formula_depth fs))))"
| "formula_depth (FNot f) = Suc (formula_depth f)"

lemma boolean_node_simps [simp]:
  "boolean_node [(''all'', p)]" "boolean_node [(''any'', p)]" "boolean_node [(''not'', p)]"
  by (simp_all add: boolean_node_def dict_has_def)

lemma evaluate_connectives:
  "evaluate facts (PDict [(''all'', PList cs)]) = evaluate_all facts False cs"
  "evaluate facts (PDict [(''any'', PList cs)]) = evaluate_any facts False cs"
  "evaluate facts (PDict [(''not'', c)]) = try_bind (evaluate facts c) (\<lambda>r. Inr (truth_not r))"
  by (simp_all add: dict_has_def)

declare evaluate.simps [simp del] validate.simps [simp del]

lemma evaluate_all_truth:
  "list_all2 (\<lambda>c t. evaluate facts c = Inr t) cs ts \<Longrightarrow>
     evaluate_all facts saw cs = Inr (if Known False \<in> set ts then Known False
       else if saw \<or> Unknown \<in> set ts then Unknown else Known True)"
  by (induction cs ts arbitrary: saw rule: list_all2_induct) auto

lemma evaluate_any_truth:
  "list_all2 (\<lambda>c t. evaluate facts c = Inr t) cs ts \<Longrightarrow>
     evaluate_any facts saw cs = Inr (if Known True \<in> set ts then Known True
       else if saw \<or> Unknown \<in> set ts then Unknown else Known False)"
  by (induction cs ts arbitrary: saw rule: list_all2_induct) auto

lemma formula_of_leaf: "leaf_valid allowed c \<Longrightarrow> formula_of c = FAtom c"
  by (auto simp: leaf_valid_def split: pyval.splits)

text \<open>The loops with their early exits and their flag compute the declarative semantics.\<close>

lemma evaluate_kleene:
  "well_formed allowed depth c \<Longrightarrow>
     evaluate facts c = Inr (kleene (leaf_truth facts) (formula_of c))"
proof (induction rule: well_formed.induct)
  case (leaf depth c)
  from evaluate_leaf_valid_total [OF leaf(2)] obtain t where "evaluate facts c = Inr t" by blast
  with formula_of_leaf [OF leaf(2)] show ?case by (simp add: leaf_truth_def)
next
  case (connective depth operator cs)
  let ?k = "\<lambda>c. kleene (leaf_truth facts) (formula_of c)"
  have "list_all2 (\<lambda>c t. evaluate facts c = Inr t) cs (map ?k cs)"
    using connective by (simp add: list_all2_conv_all_nth)
  from evaluate_all_truth [OF this, of False] evaluate_any_truth [OF this, of False] connective(2)
  show ?case by (auto simp: evaluate_connectives all_truth_def any_truth_def comp_def)
next
  case (negation depth c)
  then show ?case by (simp add: evaluate_connectives)
qed

lemma well_formed_depth:
  "well_formed allowed depth c \<Longrightarrow> depth + formula_depth (formula_of c) \<le> max_depth"
proof (induction rule: well_formed.induct)
  case (leaf depth c)
  then show ?case by (simp add: formula_of_leaf)
next
  case (connective depth operator cs)
  from connective(3) obtain x where "x \<in> set cs" by (cases cs) auto
  with connective.IH have "Suc depth \<le> max_depth" by (metis add_leE)
  have "formula_depth (formula_of c) \<le> max_depth - Suc depth" if "c \<in> set cs" for c
    using connective.IH [OF that] by linarith
  then have "Max (insert 0 (set (map formula_depth (map formula_of cs)))) \<le> max_depth - Suc depth"
    by (subst Max_le_iff) auto
  with \<open>Suc depth \<le> max_depth\<close>
  have "depth + Suc (Max (insert 0 (set (map formula_depth (map formula_of cs))))) \<le> max_depth"
    by linarith
  with connective(2) show ?case by auto
next
  case (negation depth c)
  then show ?case by simp
qed

text \<open>The information order: an unknown value may become known, a known one stays.\<close>

definition refines :: "truth \<Rightarrow> truth \<Rightarrow> bool" where
  "refines s t \<longleftrightarrow> s = Unknown \<or> s = t"

lemma truth_not_eq [simp]:
  "truth_not t = Known b \<longleftrightarrow> t = Known (\<not> b)" "truth_not t = Unknown \<longleftrightarrow> t = Unknown"
  by (cases t; auto)+

lemma refines_Known: "refines s t \<longleftrightarrow> (\<forall>b. s = Known b \<longrightarrow> t = Known b)"
  by (cases s) (auto simp: refines_def)

lemma all_truth_Known:
  "all_truth ts = Known b \<longleftrightarrow> (if b then (\<forall>t \<in> set ts. t = Known True) else Known False \<in> set ts)"
  by (auto simp: all_truth_def) (metis (full_types) truth.exhaust)+

lemma any_truth_Known:
  "any_truth ts = Known b \<longleftrightarrow> (if b then Known True \<in> set ts else (\<forall>t \<in> set ts. t = Known False))"
  by (auto simp: any_truth_def) (metis (full_types) truth.exhaust)+

lemma all_truth_mono:
  "(\<And>x. x \<in> set xs \<Longrightarrow> refines (g x) (h x)) \<Longrightarrow> refines (all_truth (map g xs)) (all_truth (map h xs))"
  unfolding refines_Known all_truth_Known by (auto simp: image_iff) (metis (full_types))

lemma any_truth_mono:
  "(\<And>x. x \<in> set xs \<Longrightarrow> refines (g x) (h x)) \<Longrightarrow> refines (any_truth (map g xs)) (any_truth (map h xs))"
  unfolding refines_Known any_truth_Known by (auto simp: image_iff) (metis (full_types))

lemma truth_not_mono: "refines s t \<Longrightarrow> refines (truth_not s) (truth_not t)"
  by (auto simp: refines_def)

lemma kleene_monotone:
  "(\<And>a. a \<in> set_formula f \<Longrightarrow> refines (v a) (v' a)) \<Longrightarrow> refines (kleene v f) (kleene v' f)"
  by (induction f) (auto intro!: all_truth_mono any_truth_mono truth_not_mono)

text \<open>Accepted connectives have operands, and then unknown leaves leave the result unknown.\<close>

fun proper :: "'a formula \<Rightarrow> bool" where
  "proper (FAtom a) = True"
| "proper (FAll fs) = (fs \<noteq> [] \<and> list_all proper fs)"
| "proper (FAny fs) = (fs \<noteq> [] \<and> list_all proper fs)"
| "proper (FNot f) = proper f"

lemma well_formed_proper: "well_formed allowed depth c \<Longrightarrow> proper (formula_of c)"
  by (induction rule: well_formed.induct) (auto simp: formula_of_leaf list_all_iff)

lemma kleene_unknown:
  "proper f \<Longrightarrow> (\<And>a. a \<in> set_formula f \<Longrightarrow> v a = Unknown) \<Longrightarrow> kleene v f = Unknown"
proof (induction f)
  case (FAll fs)
  then have "\<forall>f \<in> set fs. kleene v f = Unknown" by (auto simp: list_all_iff)
  with FAll.prems(1) show ?case by (cases fs) (auto simp: all_truth_def)
next
  case (FAny fs)
  then have "\<forall>f \<in> set fs. kleene v f = Unknown" by (auto simp: list_all_iff)
  with FAny.prems(1) show ?case by (cases fs) (auto simp: any_truth_def)
qed auto

lemma evaluate_condition_kleene:
  assumes "validate_condition allowed c = Inr ()"
  shows "evaluate_condition c facts \<longleftrightarrow> kleene (leaf_truth facts) (formula_of c) = Known True"
proof -
  have wf: "well_formed allowed 0 c"
    using assms by (simp add: validate_condition_def validate_well_formed)
  have "validate None 0 c = Inr ()" using well_formed_validate [OF well_formed_any [OF wf]] .
  with evaluate_kleene [OF wf, of facts] show ?thesis by (simp add: evaluate_condition_def)
qed


text \<open>The scan of the media entries, with its early exit and its flag.\<close>

definition entry_truth :: "pyval \<Rightarrow> facts \<Rightarrow> pyval \<Rightarrow> truth" where
  "entry_truth l facts entry = (case evaluate_label l facts entry of Inl _ \<Rightarrow> Unknown | Inr t \<Rightarrow> t)"

lemma scan_media_truth:
  assumes "validate_label_payload True l = Inr u"
  shows "scan_media none_mode l facts saw entries =
    (let ts = map (entry_truth l facts) entries in
     Inr (if Known True \<in> set ts then Known (\<not> none_mode)
       else if saw \<or> Unknown \<in> set ts then Unknown else Known none_mode))"
proof (induction entries arbitrary: saw)
  case (Cons e es)
  obtain t where "evaluate_label l facts e = Inr t" using evaluate_label_total [OF assms] by blast
  with Cons show ?case by (auto simp: entry_truth_def Let_def)
qed simp

section \<open>Properties\<close>

text \<open>A condition with a connective, a negation, a comparison and a label helper.\<close>

definition sample_condition :: pyval where
  "sample_condition = PDict [(''all'', PList [
     PDict [(''fact'', PStr ''message.views''), (''op'', PStr ''gte''), (''value'', PInt 10)],
     PDict [(''not'', PDict [(''label'', PDict [(''namespace'', PStr ''effective''),
       (''scope'', PStr ''global''), (''key'', PStr ''spam''), (''score_gt'', PFloat (Fin (1/2)))])])]])]"

definition sample_facts :: facts where
  "sample_facts = [(''message'', PDict [(''views'', PInt 12)]),
     (''labels'', PDict [(''effective'', PDict [(''global'', PDict [(''spam'', PDict
       [(''score'', PFloat (Fin (1/4))), (''activated'', PBool False)])])])])]"

lemma sample_condition_valid: "validate_condition None sample_condition = Inr ()"
  by code_simp

text \<open>A condition the validator accepts is evaluated without raising on any facts: every
  lookup the evaluator makes in the condition finds a value of the type it needs, so the
  catch-all handler of \<^verbatim>\<open>evaluate_condition\<close> only ever hides a rejected condition.\<close>

theorem evaluation_never_raises:
  "validate_condition allowed c = Inr () \<Longrightarrow> \<exists>t. evaluate facts c = Inr t"
  using evaluate_kleene [OF validate_well_formed] by (auto simp: validate_condition_def)

theorem evaluation_never_raises_witness:
  "\<exists>t. evaluate sample_facts sample_condition = Inr t"
  by (rule evaluation_never_raises [OF sample_condition_valid])

text \<open>C2: On an accepted condition the evaluator, with its early exits and its saw-unknown
  flag, decides Kleene's strong three-valued logic over the truth values of the leaves: it
  matches exactly when that logic says true.\<close>

theorem evaluation_is_kleene:
  "validate_condition allowed c = Inr () \<Longrightarrow>
     evaluate_condition c facts \<longleftrightarrow> kleene (leaf_truth facts) (formula_of c) = Known True"
  by (rule evaluate_condition_kleene)

theorem evaluation_is_kleene_witness:
  "evaluate_condition sample_condition sample_facts \<longleftrightarrow>
     kleene (leaf_truth sample_facts) (formula_of sample_condition) = Known True"
  by (rule evaluation_is_kleene [OF sample_condition_valid])

text \<open>Nothing unknown becomes a match: when every leaf of an accepted condition is unknown
  (its fact is missing or of an incompatible type), neither the condition nor its negation
  matches.\<close>

theorem unknown_never_matches:
  assumes "validate_condition allowed c = Inr ()"
    and "\<forall>a \<in> set_formula (formula_of c). leaf_truth facts a = Unknown"
  shows "\<not> evaluate_condition c facts \<and> \<not> evaluate_condition (PDict [(''not'', c)]) facts"
proof -
  have wf: "well_formed allowed 0 c"
    using assms(1) by (simp add: validate_condition_def validate_well_formed)
  have unknown: "evaluate facts c = Inr Unknown"
    using evaluate_kleene [OF wf] kleene_unknown [OF well_formed_proper [OF wf]] assms(2) by auto
  then show ?thesis
    by (auto simp: evaluate_condition_def evaluate_connectives result_simps split: sum.splits)
qed

theorem unknown_never_matches_witness:
  "\<not> evaluate_condition sample_condition [] \<and>
   \<not> evaluate_condition (PDict [(''not'', sample_condition)]) []"
proof (rule unknown_never_matches [OF sample_condition_valid])
  show "\<forall>a \<in> set_formula (formula_of sample_condition). leaf_truth [] a = Unknown"
    by code_simp
qed

text \<open>A match is stable under new information: if every leaf that is known under some facts
  keeps its value under others, whatever the unknown ones become, then a condition that
  matches the former matches the latter.\<close>

theorem match_survives_new_facts:
  assumes "validate_condition allowed c = Inr ()"
    and "\<forall>a \<in> set_formula (formula_of c). refines (leaf_truth facts a) (leaf_truth facts' a)"
    and "evaluate_condition c facts"
  shows "evaluate_condition c facts'"
  using assms(3) kleene_monotone [of "formula_of c" "leaf_truth facts" "leaf_truth facts'"] assms(2)
  unfolding evaluate_condition_kleene [OF assms(1)] by (auto simp: refines_def)

definition wider_condition :: pyval where
  "wider_condition = PDict [(''any'', PList [
     PDict [(''fact'', PStr ''duplicate.status''), (''op'', PStr ''eq''), (''value'', PStr ''unique'')],
     sample_condition])]"

theorem match_survives_new_facts_witness:
  "evaluate_condition wider_condition ((''duplicate'', PDict [(''status'', PStr ''duplicate'')]) # sample_facts)"
proof (rule match_survives_new_facts)
  show "validate_condition None wider_condition = Inr ()" by code_simp
  show "\<forall>a \<in> set_formula (formula_of wider_condition). refines (leaf_truth sample_facts a)
     (leaf_truth ((''duplicate'', PDict [(''status'', PStr ''duplicate'')]) # sample_facts) a)"
    by code_simp
  show "evaluate_condition wider_condition sample_facts" by code_simp
qed

text \<open>The validator bounds the nesting of what it accepts: at most 20 Boolean operators lie
  above any leaf.\<close>

theorem accepted_nesting_bounded:
  "validate_condition allowed c = Inr () \<Longrightarrow> formula_depth (formula_of c) \<le> 20"
  using well_formed_depth [OF validate_well_formed]
  by (fastforce simp: validate_condition_def max_depth_def)

theorem accepted_nesting_bounded_witness: "formula_depth (formula_of sample_condition) \<le> 20"
  by (rule accepted_nesting_bounded [OF sample_condition_valid])

text \<open>A global label condition splits the dotted path it builds, label key included: for a
  key of the form \<open>a.b\<close> it looks \<open>b\<close> up below \<open>a\<close>, so that a label stored under the key
  \<open>a.b\<close> (which the label identifiers allow) is never found, activated or not, unless a label
  \<open>a\<close> is present too.\<close>

theorem dotted_global_label_never_matches:
  assumes "map_of facts (''labels.'' @ ns @ ''.global.'' @ a @ CHR ''.'' # b) = None"
    and "CHR ''.'' \<notin> set ns" and "CHR ''.'' \<notin> set a"
    and "walk (PDict facts) [''labels'', ns, ''global''] = Some (PDict labels)"
    and "map_of labels a = None"
  shows "\<not> evaluate_condition (PDict [(''label'', PDict [(''namespace'', PStr ns),
    (''scope'', PStr ''global''), (''key'', PStr (a @ CHR ''.'' # b))])]) facts"
proof -
  have walk_append: "walk v (p @ q) = (case walk v p of None \<Rightarrow> None | Some w \<Rightarrow> walk w q)" for v p q
    by (induction v p rule: walk.induct) (auto split: option.splits)
  have "split_dot (''labels.'' @ ns @ ''.global.'' @ a @ CHR ''.'' # b)
      = [''labels'', ns, ''global''] @ a # split_dot b"
    using split_dot_append [of "''labels''" "ns @ ''.global.'' @ a @ CHR ''.'' # b"]
      split_dot_append [OF assms(2), of "''global.'' @ a @ CHR ''.'' # b"]
      split_dot_append [of "''global''" "a @ CHR ''.'' # b"] split_dot_append [OF assms(3), of b]
    by simp
  then have "resolve_fact facts (''labels.'' @ ns @ ''.global.'' @ a @ CHR ''.'' # b) = None"
    using assms(1,4,5) walk_append [of "PDict facts" "[''labels'', ns, ''global'']" "a # split_dot b"]
    by (simp add: resolve_fact_def)
  then show ?thesis
    by (auto simp: evaluate_condition_def evaluate.simps evaluate_label_def label_test_def as_dict_def
        dict_index_def dict_has_def result_simps split: sum.splits if_splits)
qed

theorem dotted_global_label_never_matches_witness:
  "\<not> evaluate_condition (PDict [(''label'', PDict [(''namespace'', PStr ''model''),
     (''scope'', PStr ''global''), (''key'', PStr ''real.ugc'')])])
   [(''labels'', PDict [(''model'', PDict [(''global'', PDict
      [(''real.ugc'', PDict [(''activated'', PBool True)])])])])]"
  using dotted_global_label_never_matches [where ns = "''model''" and a = "''real''" and b = "''ugc''"
      and facts = "[(''labels'', PDict [(''model'', PDict [(''global'', PDict
         [(''real.ugc'', PDict [(''activated'', PBool True)])])])])]"
      and labels = "[(''real.ugc'', PDict [(''activated'', PBool True)])]"]
  by simp

text \<open>\<^verbatim>\<open>any_media\<close> is the Kleene disjunction of the label condition over the media
  entries, and \<^verbatim>\<open>none_media\<close> is its negation, unknown results included.\<close>

theorem media_quantifiers:
  assumes "validate_condition None (PDict [(''any_media'', PDict [(''label'', l)])]) = Inr ()"
    and "l = PDict d" and "map_of d ''namespace'' = Some (PStr ns)"
    and "resolve_fact facts (''labels.'' @ ns @ ''.media'') = Some (PDict media)"
  shows "evaluate facts (PDict [(''any_media'', PDict [(''label'', l)])])
      = Inr (any_truth (map (entry_truth l facts) (map snd media)))
    \<and> evaluate facts (PDict [(''none_media'', PDict [(''label'', l)])])
      = Inr (truth_not (any_truth (map (entry_truth l facts) (map snd media))))"
proof -
  have "\<exists>u. validate_label_payload True l = Inr u"
    using assms(1) by (auto simp: validate_condition_def validate.simps dict_has_def
        validate_media_label_def keys_are_def split: if_splits)
  then obtain u where "validate_label_payload True l = Inr u" by blast
  note scan = scan_media_truth [OF this, of _ facts False "map snd media"]
  show ?thesis using assms(2-4) scan [of False] scan [of True]
    by (simp add: evaluate.simps dict_has_def evaluate_media_def as_dict_def dict_index_def any_truth_def)
qed

definition sample_label :: "string \<times> pyval list \<Rightarrow> facts" where
  "sample_label = (\<lambda>(key, media). [(''labels'', PDict [(''model'', PDict [
     (''global'', PDict [(key, PDict [(''activated'', PBool True)])]),
     (''media'', PDict (map (\<lambda>m. (''asset'', m)) media))])])])"

theorem media_quantifiers_witness:
  "evaluate (sample_label (''spam'', [PDict [(''labels'', PDict [(''spam'', PDict [(''activated'', PBool False)])])]]))
     (PDict [(''none_media'', PDict [(''label'', PDict [(''namespace'', PStr ''model''), (''key'', PStr ''spam'')])])])
   = Inr (Known True)"
proof -
  let ?facts = "sample_label (''spam'', [PDict [(''labels'', PDict [(''spam'', PDict [(''activated'', PBool False)])])]])"
  let ?d = "[(''namespace'', PStr ''model''), (''key'', PStr ''spam'')]"
  let ?media = "[(''asset'', PDict [(''labels'', PDict [(''spam'', PDict [(''activated'', PBool False)])])])]"
  have "evaluate ?facts (PDict [(''none_media'', PDict [(''label'', PDict ?d)])])
      = Inr (truth_not (any_truth (map (entry_truth (PDict ?d) ?facts) (map snd ?media))))"
  proof (rule conjunct2 [OF media_quantifiers [where d = ?d and ns = "''model''"]])
    show "validate_condition None (PDict [(''any_media'', PDict [(''label'', PDict ?d)])]) = Inr ()"
      by code_simp
    show "resolve_fact ?facts (''labels.'' @ ''model'' @ ''.media'') = Some (PDict ?media)" by code_simp
  qed simp_all
  also have "\<dots> = Inr (Known True)" by code_simp
  finally show ?thesis .
qed

text \<open>A null entry of the media mapping is not an unknown entry: because the entry parameter
  of \<^verbatim>\<open>_evaluate_label\<close> defaults to \<^verbatim>\<open>None\<close>, the label is then read among the global labels, so
  that \<^verbatim>\<open>any_media\<close> matches a message none of whose media carries the label.\<close>

theorem null_media_entry_reads_global:
  assumes "validate_condition None (PDict [(''any_media'', PDict [(''label'', PDict d)])]) = Inr ()"
    and "map_of d ''namespace'' = Some (PStr ns)"
    and "resolve_fact facts (''labels.'' @ ns @ ''.media'') = Some (PDict media)"
    and "PNone \<in> snd ` set media"
    and "evaluate facts (PDict [(''label'', PDict d)]) = Inr (Known True)"
  shows "evaluate_condition (PDict [(''any_media'', PDict [(''label'', PDict d)])]) facts"
proof -
  have v: "\<exists>u. validate_label_payload True (PDict d) = Inr u"
    using assms(1) by (auto simp: validate_condition_def validate.simps dict_has_def
        validate_media_label_def keys_are_def split: if_splits)
  have "entry_truth (PDict d) facts PNone = Known True"
    using assms(5) by (simp add: entry_truth_def evaluate.simps dict_has_def)
  then have hit: "Known True \<in> set (map (entry_truth (PDict d) facts) (map snd media))"
    using assms(4) by (simp add: image_image) (metis (no_types, lifting) imageE image_eqI)
  with v have "evaluate facts (PDict [(''any_media'', PDict [(''label'', PDict d)])]) = Inr (Known True)"
    using scan_media_truth [of "PDict d" _ False facts False "map snd media"] assms(2,3)
    by (auto simp: evaluate.simps dict_has_def evaluate_media_def as_dict_def dict_index_def)
  with assms(1) show ?thesis by (simp add: evaluate_condition_def validate_condition_def)
qed

theorem null_media_entry_reads_global_witness:
  "evaluate_condition (PDict [(''any_media'', PDict [(''label'', PDict
     [(''namespace'', PStr ''model''), (''key'', PStr ''spam'')])])]) (sample_label (''spam'', [PNone]))"
proof (rule null_media_entry_reads_global)
  show "validate_condition None (PDict [(''any_media'', PDict [(''label'', PDict
     [(''namespace'', PStr ''model''), (''key'', PStr ''spam'')])])]) = Inr ()" by code_simp
  show "resolve_fact (sample_label (''spam'', [PNone])) (''labels.'' @ ''model'' @ ''.media'')
     = Some (PDict [(''asset'', PNone)])" by code_simp
  show "evaluate (sample_label (''spam'', [PNone])) (PDict [(''label'', PDict
     [(''namespace'', PStr ''model''), (''key'', PStr ''spam'')])]) = Inr (Known True)" by code_simp
qed simp_all

end
