(* ===== verification/Routing_Policy.thy ===== *)
theory Routing_Policy
  imports Routing_DSL Publishing
begin

text \<open>
  Routing policies of \<^verbatim>\<open>tgcurator/domain/routing/models.py\<close>: actions, rules and policies with
  the checks of their constructors, and the evaluation of a policy on a facts snapshot.  A
  record stands for the constructor's arguments and \<open>check_\<close> for its \<^verbatim>\<open>__post_init__\<close>.
\<close>

section \<open>Actions, rules, policies\<close>

record publication_action =
  pa_action_id :: string
  pa_destination_channel_id :: string
  pa_publication_mode :: string
  pa_rendering_template_version_id :: "string option"
  pa_publish_identity_id :: "string option"
  pa_routing_rule_id :: "string option"

definition check_publication_action :: "publication_action \<Rightarrow> publication_action result" where
  "check_publication_action a =
     (if blank (pa_action_id a) then fail ''action_id must not be blank''
      else if blank (pa_destination_channel_id a) then fail ''destination_channel_id must not be blank''
      else (case publication_mode_of (pa_publication_mode a) of
          None \<Rightarrow> fail ''publication_mode is not supported''
        | Some mode \<Rightarrow>
            if blank_option (pa_rendering_template_version_id a)
            then fail ''rendering_template_version_id must not be blank''
            else if blank_option (pa_publish_identity_id a)
            then fail ''publish_identity_id must not be blank''
            else if blank_option (pa_routing_rule_id a)
            then fail ''routing_rule_id must not be blank''
            else if mode = FORWARD_ONLY then
              (if pa_rendering_template_version_id a \<noteq> None
               then fail ''rendering_template_version_id must be omitted for forward_only''
               else Inr a)
            else if pa_rendering_template_version_id a = None
            then fail ''rendering_template_version_id is required for generated-text publication modes''
            else Inr a))"

record routing_rule =
  rr_rule_id :: string
  rr_priority :: int
  rr_condition :: pyval
  rr_actions :: "publication_action list"
  rr_stop_on_match :: bool
  rr_enabled :: bool

text \<open>The actions of a rule are themselves constructed, hence already checked.\<close>

definition check_routing_rule :: "routing_rule \<Rightarrow> routing_rule result" where
  "check_routing_rule r =
     (if blank (rr_rule_id r) then fail ''rule_id must not be blank''
      else try_bind (validate_condition None (rr_condition r)) (\<lambda>_.
        if \<not> distinct (map pa_action_id (rr_actions r))
        then fail ''a rule cannot contain duplicate action_id values''
        else if list_ex (\<lambda>a. pa_routing_rule_id a \<noteq> None \<and> pa_routing_rule_id a \<noteq> Some (rr_rule_id r)) (rr_actions r)
        then fail ''action routing_rule_id must match its owning rule''
        else Inr r))"

record routing_policy =
  rp_policy_version_id :: string
  rp_rules :: "routing_rule list"

definition check_routing_policy :: "routing_policy \<Rightarrow> routing_policy result" where
  "check_routing_policy p =
     (if blank (rp_policy_version_id p) then fail ''policy_version_id must not be blank''
      else if \<not> distinct (map rr_rule_id (rp_rules p))
      then fail ''a routing policy cannot contain duplicate rule_id values''
      else Inr p)"

definition constructed_rule :: "routing_rule \<Rightarrow> bool" where
  "constructed_rule r \<longleftrightarrow> check_routing_rule r = Inr r
     \<and> (\<forall>a \<in> set (rr_actions r). check_publication_action a = Inr a)"

definition constructed_policy :: "routing_policy \<Rightarrow> bool" where
  "constructed_policy p \<longleftrightarrow> check_routing_policy p = Inr p
     \<and> (\<forall>r \<in> set (rp_rules p). constructed_rule r)"

section \<open>Evaluation\<close>

record rule_outcome =
  ro_rule_id :: string
  ro_enabled :: bool
  ro_checked :: bool
  ro_evaluated :: bool
  ro_matched :: bool
  ro_stopped_after_match :: bool

record routing_decision =
  rd_policy_version_id :: string
  rd_outcomes :: "rule_outcome list"
  rd_actions :: "publication_action list"
  rd_stopped_at_rule_id :: "string option"

definition disabled_outcome :: "routing_rule \<Rightarrow> rule_outcome" where
  "disabled_outcome r = \<lparr>ro_rule_id = rr_rule_id r, ro_enabled = False, ro_checked = True,
     ro_evaluated = False, ro_matched = False, ro_stopped_after_match = False\<rparr>"

definition evaluated_outcome :: "routing_rule \<Rightarrow> bool \<Rightarrow> bool \<Rightarrow> rule_outcome" where
  "evaluated_outcome r matched stop = \<lparr>ro_rule_id = rr_rule_id r, ro_enabled = True, ro_checked = True,
     ro_evaluated = True, ro_matched = matched, ro_stopped_after_match = stop\<rparr>"

text \<open>\<^verbatim>\<open>replace(action, routing_rule_id=...)\<close> constructs, and so checks, a new action.\<close>

definition own_action :: "string \<Rightarrow> publication_action \<Rightarrow> publication_action result" where
  "own_action rule_id a = check_publication_action (a\<lparr>pa_routing_rule_id := Some rule_id\<rparr>)"

text \<open>The loop over the sorted rules, with its two accumulated lists and its early exit.\<close>

fun route_loop :: "facts \<Rightarrow> rule_outcome list \<Rightarrow> publication_action list \<Rightarrow> routing_rule list \<Rightarrow>
    (rule_outcome list \<times> publication_action list \<times> string option) result" where
  "route_loop facts outcomes actions [] = Inr (outcomes, actions, None)"
| "route_loop facts outcomes actions (r # rs) =
     (if \<not> rr_enabled r then route_loop facts (outcomes @ [disabled_outcome r]) actions rs
      else
        let matched = evaluate_condition (rr_condition r) facts;
            should_stop = matched \<and> rr_stop_on_match r;
            outcomes' = outcomes @ [evaluated_outcome r matched should_stop]
        in try_bind (if matched then traverse (own_action (rr_rule_id r)) (rr_actions r) else Inr []) (\<lambda>new.
          if should_stop then Inr (outcomes', actions @ new, Some (rr_rule_id r))
          else route_loop facts outcomes' (actions @ new) rs))"

definition rule_order :: "routing_rule \<Rightarrow> int \<times> string" where
  "rule_order r = (- rr_priority r, rr_rule_id r)"

definition evaluate_routing :: "routing_policy \<Rightarrow> facts \<Rightarrow> routing_decision result" where
  "evaluate_routing policy facts =
     try_bind (route_loop facts [] [] (sort_key rule_order (rp_rules policy))) (\<lambda>(outcomes, actions, stopped).
       Inr \<lparr>rd_policy_version_id = rp_policy_version_id policy, rd_outcomes = outcomes,
         rd_actions = actions, rd_stopped_at_rule_id = stopped\<rparr>)"

section \<open>Abstract specification\<close>

text \<open>
  What a policy decides, without a loop: the rules in order up to and including the first that
  stops, one outcome each, and the actions of those that matched.
\<close>

definition rule_matches :: "facts \<Rightarrow> routing_rule \<Rightarrow> bool" where
  "rule_matches facts r \<longleftrightarrow> rr_enabled r \<and> evaluate_condition (rr_condition r) facts"

definition rule_stops :: "facts \<Rightarrow> routing_rule \<Rightarrow> bool" where
  "rule_stops facts r \<longleftrightarrow> rule_matches facts r \<and> rr_stop_on_match r"

definition rule_outcome_of :: "facts \<Rightarrow> routing_rule \<Rightarrow> rule_outcome" where
  "rule_outcome_of facts r = \<lparr>ro_rule_id = rr_rule_id r, ro_enabled = rr_enabled r, ro_checked = True,
     ro_evaluated = rr_enabled r, ro_matched = rule_matches facts r,
     ro_stopped_after_match = rule_stops facts r\<rparr>"

definition owned_actions :: "routing_rule \<Rightarrow> publication_action list" where
  "owned_actions r = map (\<lambda>a. a\<lparr>pa_routing_rule_id := Some (rr_rule_id r)\<rparr>) (rr_actions r)"

definition examined_rules :: "facts \<Rightarrow> routing_rule list \<Rightarrow> routing_rule list" where
  "examined_rules facts rs = takeWhile (\<lambda>r. \<not> rule_stops facts r) rs
     @ take 1 (dropWhile (\<lambda>r. \<not> rule_stops facts r) rs)"

definition routing_spec :: "routing_policy \<Rightarrow> facts \<Rightarrow> routing_decision" where
  "routing_spec policy facts =
     (let examined = examined_rules facts (sort_key rule_order (rp_rules policy)) in
      \<lparr>rd_policy_version_id = rp_policy_version_id policy,
       rd_outcomes = map (rule_outcome_of facts) examined,
       rd_actions = concat (map owned_actions (filter (rule_matches facts) examined)),
       rd_stopped_at_rule_id = map_option rr_rule_id (find (rule_stops facts) examined)\<rparr>)"

lemma examined_rules_simps [simp]:
  "examined_rules facts [] = []"
  "examined_rules facts (r # rs) = r # (if rule_stops facts r then [] else examined_rules facts rs)"
  by (simp_all add: examined_rules_def)

lemma set_examined_rules: "set (examined_rules facts rs) \<subseteq> set rs"
  by (induction rs) auto

lemma disabled_outcome_eq:
  "\<not> rr_enabled r \<Longrightarrow> disabled_outcome r = rule_outcome_of facts r"
  by (simp add: disabled_outcome_def rule_outcome_of_def rule_stops_def rule_matches_def)

text \<open>Re-owning a constructed action never fails.\<close>

lemma own_action_constructed:
  assumes "constructed_rule r" and "a \<in> set (rr_actions r)"
  shows "own_action (rr_rule_id r) a = Inr (a\<lparr>pa_routing_rule_id := Some (rr_rule_id r)\<rparr>)"
proof -
  have "check_publication_action a = Inr a" and "\<not> blank (rr_rule_id r)"
    using assms by (auto simp: constructed_rule_def check_routing_rule_def split: if_splits)
  then show ?thesis
    by (auto simp: own_action_def check_publication_action_def blank_option_def
        split: option.splits if_splits)
qed

lemma own_actions_constructed:
  "constructed_rule r \<Longrightarrow> traverse (own_action (rr_rule_id r)) (rr_actions r) = Inr (owned_actions r)"
  unfolding owned_actions_def by (rule traverse_total) (rule own_action_constructed)

lemma route_loop_spec:
  "(\<And>r. r \<in> set rs \<Longrightarrow> constructed_rule r) \<Longrightarrow>
   route_loop facts outcomes actions rs =
     Inr (outcomes @ map (rule_outcome_of facts) (examined_rules facts rs),
       actions @ concat (map owned_actions (filter (rule_matches facts) (examined_rules facts rs))),
       map_option rr_rule_id (find (rule_stops facts) (examined_rules facts rs)))"
proof (induction rs arbitrary: outcomes actions)
  case Nil
  then show ?case by simp
next
  case (Cons r rs)
  have r: "constructed_rule r" using Cons.prems by simp
  note IH = Cons.IH [OF Cons.prems [OF list.set_intros(2)]]
  show ?case
  proof (cases "rr_enabled r")
    case False
    then have "\<not> rule_matches facts r" "\<not> rule_stops facts r"
      by (simp_all add: rule_matches_def rule_stops_def)
    with False IH disabled_outcome_eq [OF False, of facts] show ?thesis by simp
  next
    case True
    then have m: "rule_matches facts r = evaluate_condition (rr_condition r) facts"
      and st: "rule_stops facts r = (evaluate_condition (rr_condition r) facts \<and> rr_stop_on_match r)"
      by (simp_all add: rule_matches_def rule_stops_def)
    show ?thesis
      using True IH own_actions_constructed [OF r]
      by (simp add: Let_def m st evaluated_outcome_def rule_outcome_of_def)
  qed
qed

lemma evaluate_routing_spec:
  assumes "constructed_policy p"
  shows "evaluate_routing p facts = Inr (routing_spec p facts)"
proof -
  let ?rs = "sort_key rule_order (rp_rules p)"
  have "\<And>r. r \<in> set ?rs \<Longrightarrow> constructed_rule r"
    using assms by (simp add: constructed_policy_def)
  note route_loop_spec [of ?rs facts "[]" "[]", OF this]
  then show ?thesis by (simp add: evaluate_routing_def routing_spec_def Let_def)
qed

lemma constructed_distinct: "constructed_policy p \<Longrightarrow> distinct (map rr_rule_id (rp_rules p))"
  by (simp add: constructed_policy_def check_routing_policy_def split: if_splits)


section \<open>Properties\<close>

definition sample_action :: "string \<Rightarrow> publication_action" where
  "sample_action i = \<lparr>pa_action_id = i, pa_destination_channel_id = ''d1'',
     pa_publication_mode = ''forward_only'', pa_rendering_template_version_id = None,
     pa_publish_identity_id = None, pa_routing_rule_id = None\<rparr>"

definition sample_rule :: "string \<Rightarrow> int \<Rightarrow> bool \<Rightarrow> routing_rule" where
  "sample_rule i priority stop = \<lparr>rr_rule_id = i, rr_priority = priority,
     rr_condition = sample_condition, rr_actions = [sample_action ''a1''],
     rr_stop_on_match = stop, rr_enabled = True\<rparr>"

definition sample_policy :: routing_policy where
  "sample_policy = \<lparr>rp_policy_version_id = ''p1'',
     rp_rules = [sample_rule ''low'' 1 False, sample_rule ''high'' 5 True, sample_rule ''mid'' 5 False]\<rparr>"

lemma sample_policy_constructed: "constructed_policy sample_policy"
  by code_simp

text \<open>C17: Evaluating a constructed policy never fails and computes its declarative reading: the
  rules by descending priority and ascending identifier, up to and including the first match
  that stops, one outcome per examined rule, and the actions of exactly the rules that matched,
  each under the identifier of its owner.\<close>

theorem evaluate_routing_refines_spec:
  "constructed_policy p \<Longrightarrow> evaluate_routing p facts = Inr (routing_spec p facts)"
  by (rule evaluate_routing_spec)

theorem evaluate_routing_refines_spec_witness:
  "evaluate_routing sample_policy sample_facts = Inr (routing_spec sample_policy sample_facts)
   \<and> map ro_rule_id (rd_outcomes (routing_spec sample_policy sample_facts)) = [''high'']"
  using evaluate_routing_refines_spec [OF sample_policy_constructed, of sample_facts]
  by (rule conjI) code_simp

text \<open>The decision does not depend on the order in which a policy lists its rules.\<close>

theorem routing_is_order_independent:
  assumes "constructed_policy p" and "mset (rp_rules q) = mset (rp_rules p)"
    and "rp_policy_version_id q = rp_policy_version_id p"
  shows "evaluate_routing q facts = evaluate_routing p facts"
proof -
  have "distinct (map rule_order (rp_rules p))"
    using constructed_distinct [OF assms(1)]
    by (auto simp: distinct_map rule_order_def inj_on_def)
  then have "sort_key rule_order (rp_rules q) = sort_key rule_order (rp_rules p)"
    using sort_key_unique [of "rp_rules p" "rp_rules q" rule_order] assms(2) by simp
  with assms(3) show ?thesis by (simp add: evaluate_routing_def)
qed

theorem routing_is_order_independent_witness:
  "evaluate_routing (sample_policy\<lparr>rp_rules := rev (rp_rules sample_policy)\<rparr>) sample_facts
   = evaluate_routing sample_policy sample_facts"
  by (rule routing_is_order_independent [OF sample_policy_constructed]) simp_all

text \<open>Every action of a decision comes from an enabled rule of the policy whose condition
  matched, carries that rule's identifier, and would still pass its constructor.\<close>

theorem routed_actions_are_owned:
  assumes "constructed_policy p" and "evaluate_routing p facts = Inr d" and "a \<in> set (rd_actions d)"
  shows "\<exists>r \<in> set (rp_rules p). rr_enabled r \<and> evaluate_condition (rr_condition r) facts
    \<and> pa_routing_rule_id a = Some (rr_rule_id r) \<and> check_publication_action a = Inr a"
proof -
  have d: "d = routing_spec p facts" using assms(1,2) evaluate_routing_spec by simp
  then obtain r b where r: "r \<in> set (examined_rules facts (sort_key rule_order (rp_rules p)))"
    and m: "rule_matches facts r" and b: "b \<in> set (rr_actions r)"
    and a: "a = b\<lparr>pa_routing_rule_id := Some (rr_rule_id r)\<rparr>"
    using assms(3) by (auto simp: routing_spec_def Let_def owned_actions_def)
  have "r \<in> set (rp_rules p)" using r set_examined_rules by fastforce
  moreover from this assms(1) have "constructed_rule r" by (simp add: constructed_policy_def)
  from own_action_constructed [OF this b] have "check_publication_action a = Inr a"
    by (simp add: own_action_def a)
  ultimately show ?thesis using m a by (auto simp: rule_matches_def)
qed

theorem routed_actions_are_owned_witness:
  "\<exists>r \<in> set (rp_rules sample_policy). rr_enabled r \<and> evaluate_condition (rr_condition r) sample_facts
    \<and> pa_routing_rule_id ((sample_action ''a1'')\<lparr>pa_routing_rule_id := Some ''high''\<rparr>) = Some (rr_rule_id r)
    \<and> check_publication_action ((sample_action ''a1'')\<lparr>pa_routing_rule_id := Some ''high''\<rparr>)
      = Inr ((sample_action ''a1'')\<lparr>pa_routing_rule_id := Some ''high''\<rparr>)"
proof (rule routed_actions_are_owned [OF sample_policy_constructed])
  show "evaluate_routing sample_policy sample_facts = Inr (routing_spec sample_policy sample_facts)"
    by (rule evaluate_routing_spec [OF sample_policy_constructed])
  show "(sample_action ''a1'')\<lparr>pa_routing_rule_id := Some ''high''\<rparr>
      \<in> set (rd_actions (routing_spec sample_policy sample_facts))"
    by code_simp
qed

end
