(* ===== verification/Review_Labels.thy ===== *)
theory Review_Labels
  imports Py_Values Routing_DSL
begin

text \<open>
  Manual labels and their resolution: \<^verbatim>\<open>domain/review/models.py\<close> and
  \<^verbatim>\<open>domain/review/resolution.py\<close>.  Model assignments and the append-only manual events of a
  message are resolved to three namespaces; the effective one follows the latest manual event of
  each label of each target and falls back to the model.  The namespaces become the \<^verbatim>\<open>labels\<close>
  facts of the routing conditions.
\<close>

section \<open>Label values and events\<close>

datatype manual_label_operation = SET | CLEAR

datatype review_status = UNREVIEWED | IN_REVIEW | REVIEWED | NEEDS_ATTENTION

fun review_status_value :: "review_status \<Rightarrow> string" where
  "review_status_value UNREVIEWED = ''unreviewed''"
| "review_status_value IN_REVIEW = ''in_review''"
| "review_status_value REVIEWED = ''reviewed''"
| "review_status_value NEEDS_ATTENTION = ''needs_attention''"

text \<open>
  Scores and flags keep whatever Python value they were given; the constructors check them.
  \<open>PNone\<close> is the absent score or flag of an event.
\<close>

record label_value =
  lv_message_id :: string
  lv_target_scope :: string
  lv_target_kind :: string
  lv_target_id :: string
  lv_version_id :: string
  lv_label_key :: string
  lv_score :: pyval
  lv_activated :: pyval
  lv_image_asset_id :: "string option"
  lv_video_asset_id :: "string option"

type_synonym label_identity = "string \<times> string \<times> string"

definition lv_identity :: "label_value \<Rightarrow> label_identity" where
  "lv_identity v = (lv_target_scope v, lv_target_id v, lv_version_id v)"

definition require_nonblank :: "string \<Rightarrow> string result" where
  "require_nonblank s = (if blank s then fail ''must not be blank'' else Inr s)"

definition validate_target_identity ::
  "string \<Rightarrow> string \<Rightarrow> string \<Rightarrow> string \<Rightarrow> string option \<Rightarrow> string option \<Rightarrow> unit result" where
  "validate_target_identity message_id scope kind target image_id video_id =
     try_bind (require_nonblank message_id) (\<lambda>_.
     try_bind (require_nonblank target) (\<lambda>_.
       let valid =
         (if kind = ''message'' then
            scope = ''global'' \<and> target = message_id \<and> image_id = None \<and> video_id = None
          else if kind = ''image_asset'' then scope = ''media'' \<and> image_id = Some target \<and> video_id = None
          else if kind = ''video_asset'' then scope = ''media'' \<and> video_id = Some target \<and> image_id = None
          else False)
       in if \<not> valid then fail ''target identity is inconsistent'' else Inr ()))"

definition check_label_value :: "label_value \<Rightarrow> label_value result" where
  "check_label_value v =
     try_bind (validate_target_identity (lv_message_id v) (lv_target_scope v) (lv_target_kind v)
       (lv_target_id v) (lv_image_asset_id v) (lv_video_asset_id v)) (\<lambda>_.
     try_bind (require_nonblank (lv_version_id v)) (\<lambda>_.
     try_bind (require_nonblank (lv_label_key v)) (\<lambda>_.
       if \<not> is_number (lv_score v) then fail ''score must be numeric''
       else try_bind (py_float_of (lv_score v)) (\<lambda>f.
         if \<not> (fl_le (Fin 0) f \<and> fl_le f (Fin 1)) then fail ''score must be in [0, 1]''
         else (case lv_activated v of
             PBool _ \<Rightarrow> Inr v
           | _ \<Rightarrow> fail ''activated must be a boolean'')))))"

record manual_label_event =
  me_event_id :: string
  me_message_id :: string
  me_target_scope :: string
  me_target_kind :: string
  me_target_id :: string
  me_version_id :: string
  me_label_key :: string
  me_operation :: manual_label_operation
  me_actor :: string
  me_created_at :: datetime
  me_score :: pyval
  me_activated :: pyval
  me_image_asset_id :: "string option"
  me_video_asset_id :: "string option"
  me_reason :: "string option"

definition me_identity :: "manual_label_event \<Rightarrow> label_identity" where
  "me_identity e = (me_target_scope e, me_target_id e, me_version_id e)"

text \<open>The label value that a set event carries.\<close>

definition event_label :: "manual_label_event \<Rightarrow> label_value" where
  "event_label e =
     \<lparr>lv_message_id = me_message_id e, lv_target_scope = me_target_scope e,
      lv_target_kind = me_target_kind e, lv_target_id = me_target_id e,
      lv_version_id = me_version_id e, lv_label_key = me_label_key e, lv_score = me_score e,
      lv_activated = me_activated e, lv_image_asset_id = me_image_asset_id e,
      lv_video_asset_id = me_video_asset_id e\<rparr>"

definition check_manual_event :: "manual_label_event \<Rightarrow> manual_label_event result" where
  "check_manual_event e =
     try_bind (require_nonblank (me_event_id e)) (\<lambda>_.
     try_bind (validate_target_identity (me_message_id e) (me_target_scope e) (me_target_kind e)
       (me_target_id e) (me_image_asset_id e) (me_video_asset_id e)) (\<lambda>_.
     try_bind (require_nonblank (me_version_id e)) (\<lambda>_.
     try_bind (require_nonblank (me_label_key e)) (\<lambda>_.
     try_bind (require_nonblank (me_actor e)) (\<lambda>_.
       if \<not> is_aware (me_created_at e) then fail ''created_at must be timezone-aware''
       else if me_operation e = CLEAR then
         if me_score e \<noteq> PNone \<or> me_activated e \<noteq> PNone
         then fail ''clear events cannot contain score or activated'' else Inr e
       else try_bind (check_label_value (event_label e)) (\<lambda>_. Inr e))))))"

definition as_label_value :: "manual_label_event \<Rightarrow> label_value result" where
  "as_label_value e =
     (if me_operation e \<noteq> SET then fail ''only set events have a label value''
      else if me_score e = PNone \<or> me_activated e = PNone then Inl AssertionError
      else check_label_value (event_label e))"

section \<open>Review transitions\<close>

record review_transition =
  rt_message_id :: string
  rt_old_status :: review_status
  rt_new_status :: review_status
  rt_actor :: string
  rt_reason :: "string option"

definition check_review_transition :: "review_transition \<Rightarrow> review_transition result" where
  "check_review_transition t =
     try_bind (require_nonblank (rt_message_id t)) (\<lambda>_.
     try_bind (require_nonblank (rt_actor t)) (\<lambda>_.
       if rt_old_status t = rt_new_status t then fail ''review status transition must change status''
       else Inr t))"

record message_review_event =
  mr_event_id :: string
  mr_message_id :: string
  mr_old_status :: review_status
  mr_new_status :: review_status
  mr_actor :: string
  mr_created_at :: datetime
  mr_reason :: "string option"

definition as_transition :: "message_review_event \<Rightarrow> review_transition result" where
  "as_transition e = check_review_transition
     \<lparr>rt_message_id = mr_message_id e, rt_old_status = mr_old_status e,
      rt_new_status = mr_new_status e, rt_actor = mr_actor e, rt_reason = mr_reason e\<rparr>"

definition check_review_event :: "message_review_event \<Rightarrow> message_review_event result" where
  "check_review_event e =
     try_bind (require_nonblank (mr_event_id e)) (\<lambda>_.
     try_bind (as_transition e) (\<lambda>_.
       if \<not> is_aware (mr_created_at e) then fail ''created_at must be timezone-aware'' else Inr e))"

section \<open>Resolution\<close>

record resolved_namespaces =
  rn_model :: "label_value list"
  rn_manual :: "label_value list"
  rn_effective :: "label_value list"

definition event_order :: "manual_label_event \<Rightarrow> int \<times> string" where
  "event_order e = (instant (me_created_at e), me_event_id e)"

definition by_identity :: "('a \<Rightarrow> label_identity) \<Rightarrow> 'a list \<Rightarrow> (label_identity, 'a) dict" where
  "by_identity f xs = fold (\<lambda>x. dict_set (f x) x) xs []"

definition ordered :: "label_value list \<Rightarrow> label_value list" where
  "ordered = sort_key (\<lambda>v. (lv_target_scope v, lv_target_id v, lv_label_key v, lv_version_id v))"

fun manual_items :: "(label_identity \<times> manual_label_event) list \<Rightarrow> (label_identity, label_value) dict result" where
  "manual_items [] = Inr []"
| "manual_items ((i, e) # items) =
     (if me_operation e = SET then
        try_bind (as_label_value e) (\<lambda>v. try_bind (manual_items items) (\<lambda>d. Inr ((i, v) # d)))
      else manual_items items)"

text \<open>The loop that lays the latest manual events over a copy of the model dictionary.\<close>

fun effective_loop :: "(label_identity, label_value) dict \<Rightarrow>
    (label_identity \<times> manual_label_event) list \<Rightarrow> (label_identity, label_value) dict \<Rightarrow>
    (label_identity, label_value) dict result" where
  "effective_loop model [] d = Inr d"
| "effective_loop model ((i, e) # items) d =
     (if me_operation e = SET then
        try_bind (as_label_value e) (\<lambda>v. effective_loop model items (dict_set i v d))
      else effective_loop model items
        (case map_of model i of None \<Rightarrow> dict_pop i d | Some v \<Rightarrow> dict_set i v (dict_pop i d)))"

definition resolve_label_namespaces ::
  "label_value list \<Rightarrow> manual_label_event list \<Rightarrow> resolved_namespaces result" where
  "resolve_label_namespaces model events =
     (let model_by = by_identity lv_identity model;
          latest = by_identity me_identity (sort_key event_order events)
      in try_bind (manual_items latest) (\<lambda>manual_by.
         try_bind (effective_loop model_by latest model_by) (\<lambda>effective_by.
           Inr \<lparr>rn_model = ordered (map snd model_by), rn_manual = ordered (map snd manual_by),
                rn_effective = ordered (map snd effective_by)\<rparr>)))"

section \<open>The routing snapshot\<close>

text \<open>
  The dictionaries that \<^verbatim>\<open>_namespace_snapshot\<close> fills: the global labels, and for each media
  target its kind and its labels.
\<close>

type_synonym namespace_state =
  "(string, pyval) dict \<times> (string, string \<times> (string, pyval) dict) dict"

definition store_unambiguous ::
  "(string, pyval) dict \<Rightarrow> string \<Rightarrow> pyval \<Rightarrow> (string, pyval) dict result" where
  "store_unambiguous labels key label =
     (if dict_has key labels
      then fail ''routing snapshot cannot represent multiple label definition versions''
      else Inr (dict_set key label labels))"

definition label_entry :: "label_value \<Rightarrow> pyval result" where
  "label_entry v = try_bind (py_float_of (lv_score v)) (\<lambda>f.
     Inr (PDict [(''label_definition_version_id'', PStr (lv_version_id v)), (''score'', PFloat f),
       (''activated'', lv_activated v)]))"

definition snapshot_step :: "label_value \<Rightarrow> namespace_state \<Rightarrow> namespace_state result" where
  "snapshot_step v st =
     try_bind (label_entry v) (\<lambda>label.
       if lv_target_scope v = ''global'' then
         try_bind (store_unambiguous (fst st) (lv_label_key v) label) (\<lambda>g. Inr (g, snd st))
       else
         let entry = (case map_of (snd st) (lv_target_id v) of
             Some e \<Rightarrow> e | None \<Rightarrow> (lv_target_kind v, []))
         in try_bind (store_unambiguous (snd entry) (lv_label_key v) label) (\<lambda>ls.
              Inr (fst st, dict_set (lv_target_id v) (fst entry, ls) (snd st))))"

fun snapshot_loop :: "label_value list \<Rightarrow> namespace_state \<Rightarrow> namespace_state result" where
  "snapshot_loop [] st = Inr st"
| "snapshot_loop (v # vs) st = try_bind (snapshot_step v st) (snapshot_loop vs)"

definition media_entry :: "string \<times> string \<times> (string, pyval) dict \<Rightarrow> string \<times> pyval" where
  "media_entry e = (fst e, PDict [(''target_kind'', PStr (fst (snd e))), (''labels'', PDict (snd (snd e)))])"

definition namespace_document :: "namespace_state \<Rightarrow> pyval" where
  "namespace_document st =
     PDict [(''global'', PDict (fst st)), (''media'', PDict (map media_entry (snd st)))]"

definition namespace_snapshot :: "label_value list \<Rightarrow> pyval result" where
  "namespace_snapshot vs = try_bind (snapshot_loop vs ([], [])) (\<lambda>st. Inr (namespace_document st))"

definition labels_to_routing_snapshot :: "resolved_namespaces \<Rightarrow> pyval result" where
  "labels_to_routing_snapshot r =
     try_bind (namespace_snapshot (rn_model r)) (\<lambda>m.
     try_bind (namespace_snapshot (rn_manual r)) (\<lambda>h.
     try_bind (namespace_snapshot (rn_effective r)) (\<lambda>e.
       Inr (PDict [(''model'', m), (''manual'', h), (''effective'', e)]))))"

section \<open>Constructed values and events\<close>

definition valid_label :: "label_value \<Rightarrow> bool" where
  "valid_label v = (check_label_value v = Inr v)"

definition valid_event :: "manual_label_event \<Rightarrow> bool" where
  "valid_event e = (check_manual_event e = Inr e)"

lemma check_label_value_same: "check_label_value v = Inr w \<Longrightarrow> w = v"
  by (auto simp: check_label_value_def result_simps split: if_splits pyval.splits)

lemma check_manual_event_same: "check_manual_event e = Inr f \<Longrightarrow> f = e"
  by (auto simp: check_manual_event_def result_simps split: if_splits)

lemma valid_set_event: "valid_event e \<Longrightarrow> me_operation e = SET \<Longrightarrow> valid_label (event_label e)"
  by (auto simp: valid_event_def valid_label_def check_manual_event_def result_simps
      dest: check_label_value_same split: if_splits)

lemma valid_label_score:
  assumes "valid_label v"
  obtains q b where "py_float_of (lv_score v) = Inr (Fin q)" "0 \<le> q" "q \<le> 1"
    "lv_activated v = PBool b" "lv_score v \<noteq> PNone"
proof -
  from assms obtain f b where "is_number (lv_score v)" "py_float_of (lv_score v) = Inr f"
      "fl_le (Fin 0) f \<and> fl_le f (Fin 1)" "lv_activated v = PBool b"
    by (auto simp: valid_label_def check_label_value_def result_simps split: if_splits pyval.splits)
  moreover from this obtain q where "f = Fin q" "0 \<le> q" "q \<le> 1" using fl_le_bounded by blast
  moreover have "lv_score v \<noteq> PNone" using \<open>is_number (lv_score v)\<close> by (auto simp: is_number_def)
  ultimately show thesis using that by blast
qed

lemma as_label_value_valid:
  assumes "valid_event e" and "me_operation e = SET"
  shows "as_label_value e = Inr (event_label e)"
proof -
  have v: "valid_label (event_label e)" by (rule valid_set_event [OF assms])
  obtain b where "me_score e \<noteq> PNone" "me_activated e = PBool b"
    using v by (elim valid_label_score) (auto simp: event_label_def)
  with v assms(2) show ?thesis by (simp add: as_label_value_def valid_label_def)
qed

lemma identity_event_label [simp]: "lv_identity (event_label e) = me_identity e"
  by (simp add: lv_identity_def event_label_def me_identity_def)

section \<open>What resolution means\<close>

definition last_with :: "('a \<Rightarrow> 'k) \<Rightarrow> 'k \<Rightarrow> 'a list \<Rightarrow> 'a option" where
  "last_with f k xs = (case filter (\<lambda>x. f x = k) xs of [] \<Rightarrow> None | ys \<Rightarrow> Some (last ys))"

text \<open>The decisive manual event of a label, and the labels of the three namespaces.\<close>

definition latest_event :: "manual_label_event list \<Rightarrow> label_identity \<Rightarrow> manual_label_event option" where
  "latest_event events i = last_with me_identity i (sort_key event_order events)"

definition model_label :: "label_value list \<Rightarrow> label_identity \<Rightarrow> label_value option" where
  "model_label model i = last_with lv_identity i model"

definition manual_label :: "manual_label_event list \<Rightarrow> label_identity \<Rightarrow> label_value option" where
  "manual_label events i =
     (case latest_event events i of
        Some e \<Rightarrow> if me_operation e = SET then Some (event_label e) else None
      | None \<Rightarrow> None)"

definition effective_label ::
  "label_value list \<Rightarrow> manual_label_event list \<Rightarrow> label_identity \<Rightarrow> label_value option" where
  "effective_label model events i =
     (case manual_label events i of Some v \<Rightarrow> Some v | None \<Rightarrow> model_label model i)"

lemma last_with_Some: "last_with f k xs = Some x \<Longrightarrow> x \<in> set xs \<and> f x = k"
proof -
  assume a: "last_with f k xs = Some x"
  then obtain y ys where ys: "filter (\<lambda>x. f x = k) xs = y # ys" "x = last (y # ys)"
    unfolding last_with_def by (cases "filter (\<lambda>x. f x = k) xs") auto
  have "x \<in> set (filter (\<lambda>x. f x = k) xs)" unfolding ys by (metis last_in_set list.distinct(1))
  then show ?thesis by simp
qed

lemma last_with_snoc: "last_with f k (xs @ [x]) = (if f x = k then Some x else last_with f k xs)"
  by (cases "filter (\<lambda>x. f x = k) xs") (simp_all add: last_with_def)

lemma map_of_by_identity: "map_of (by_identity f xs) k = last_with f k xs"
  by (simp add: by_identity_def dict.get_fold_put last_with_def id_def split: list.splits)

lemma distinct_by_identity: "distinct (map fst (by_identity f xs))"
proof -
  have "distinct (map fst d) \<Longrightarrow> distinct (map fst (fold (\<lambda>x. dict_set (f x) x) xs d))" for d
    by (induction xs arbitrary: d) (simp_all add: distinct_dict_set)
  then show ?thesis by (simp add: by_identity_def)
qed

text \<open>A dictionary whose keys are the identities of its values.\<close>

definition keyed :: "(label_identity, label_value) dict \<Rightarrow> bool" where
  "keyed d \<longleftrightarrow> distinct (map fst d) \<and> (\<forall>(i, v) \<in> set d. lv_identity v = i)"

lemma keyed_by_identity: "keyed (by_identity lv_identity vs)"
proof -
  have "lv_identity (snd p) = fst p" if p: "p \<in> set (by_identity lv_identity vs)" for p
  proof -
    from p have "map_of (by_identity lv_identity vs) (fst p) = Some (snd p)"
      by (intro map_of_is_SomeI distinct_by_identity) simp
    then have "last_with lv_identity (fst p) vs = Some (snd p)" by (simp only: map_of_by_identity)
    from conjunct2 [OF last_with_Some [OF this]] show ?thesis .
  qed
  then show ?thesis by (simp add: keyed_def distinct_by_identity case_prod_beta)
qed

lemma keyed_entry:
  assumes "keyed d"
  shows "(i, v) \<in> set d \<longleftrightarrow> lv_identity v = i \<and> map_of d i = Some v"
proof
  assume m: "(i, v) \<in> set d"
  from assms have d: "distinct (map fst d)" "\<forall>p \<in> set d. lv_identity (snd p) = fst p"
    by (simp_all add: keyed_def case_prod_beta)
  from bspec [OF d(2) m] map_of_is_SomeI [OF d(1) m] show "lv_identity v = i \<and> map_of d i = Some v"
    by (simp only: fst_conv snd_conv simp_thms)
qed (simp only: map_of_SomeD)

lemma keyed_values:
  assumes "keyed d"
  shows "v \<in> snd ` set d \<longleftrightarrow> map_of d (lv_identity v) = Some v" and "distinct (map lv_identity (map snd d))"
proof -
  have "v \<in> snd ` set d \<longleftrightarrow> (\<exists>i. (i, v) \<in> set d)" by (simp add: image_iff Bex_def)
  also have "\<dots> \<longleftrightarrow> map_of d (lv_identity v) = Some v" by (simp only: keyed_entry [OF assms]) simp
  finally show "v \<in> snd ` set d \<longleftrightarrow> map_of d (lv_identity v) = Some v" .
  have "map (\<lambda>x. lv_identity (snd x)) d = map fst d"
    using assms by (intro map_cong refl) (auto simp: keyed_def)
  then have "map lv_identity (map snd d) = map fst d" by (simp add: comp_def)
  then show "distinct (map lv_identity (map snd d))" using assms by (simp only: keyed_def)
qed

lemma keyed_dict_set: "keyed d \<Longrightarrow> lv_identity v = i \<Longrightarrow> keyed (dict_set i v d)"
proof -
  assume d: "keyed d" and v: "lv_identity v = i"
  then have dist: "distinct (map fst (dict_set i v d))" by (simp add: keyed_def distinct_dict_set)
  have "lv_identity w = j" if "(j, w) \<in> set (dict_set i v d)" for j w
  proof -
    from map_of_is_SomeI [OF dist that] have "((map_of d)(i \<mapsto> v)) j = Some w" by (simp add: map_of_dict_set)
    then show ?thesis using d v by (auto simp: keyed_def split: if_splits dest: map_of_SomeD)
  qed
  with dist show ?thesis by (auto simp: keyed_def)
qed

lemma keyed_dict_pop: "keyed d \<Longrightarrow> keyed (dict_pop i d)"
  by (auto simp: keyed_def distinct_dict_pop) (auto simp: dict_pop_def)

lemma manual_items_spec:
  assumes "\<forall>(i, e) \<in> set items. valid_event e \<and> me_identity e = i" and "distinct (map fst items)"
  shows "\<exists>d. manual_items items = Inr d \<and> keyed d \<and> fst ` set d \<subseteq> fst ` set items \<and>
    (\<forall>i. map_of d i = (case map_of items i of
        Some e \<Rightarrow> if me_operation e = SET then Some (event_label e) else None | None \<Rightarrow> None))"
  using assms
proof (induction items)
  case (Cons item items)
  obtain i e where ie: "item = (i, e)" by (cases item)
  from Cons obtain d where d: "manual_items items = Inr d" "keyed d" "fst ` set d \<subseteq> fst ` set items"
      "\<And>j. map_of d j = (case map_of items j of
        Some e \<Rightarrow> if me_operation e = SET then Some (event_label e) else None | None \<Rightarrow> None)"
    by auto
  from Cons.prems ie have e: "valid_event e" "me_identity e = i" and i: "i \<notin> fst ` set items" by auto
  show ?case
  proof (cases "me_operation e = SET")
    case True
    have "keyed ((i, event_label e) # d)"
      using d(2,3) i e(2) by (auto simp: keyed_def image_iff)
    with True d e ie show ?thesis
      by (intro exI [of _ "(i, event_label e) # d"]) (auto simp: as_label_value_valid)
  next
    case False
    have "map_of items i = None" using i by (simp add: map_of_eq_None_iff)
    with False d ie show ?thesis by (intro exI [of _ d]) auto
  qed
qed (simp add: keyed_def)

definition overlay ::
  "(label_identity \<Rightarrow> manual_label_event option) \<Rightarrow> (label_identity \<Rightarrow> label_value option) \<Rightarrow>
    (label_identity \<Rightarrow> label_value option) \<Rightarrow> label_identity \<Rightarrow> label_value option" where
  "overlay events model base i =
     (case events i of
        Some e \<Rightarrow> if me_operation e = SET then Some (event_label e) else model i
      | None \<Rightarrow> base i)"

lemma effective_loop_spec:
  assumes "\<forall>(i, e) \<in> set items. valid_event e \<and> me_identity e = i" and "distinct (map fst items)"
    and "keyed d" and "keyed model"
  shows "\<exists>r. effective_loop model items d = Inr r \<and> keyed r
    \<and> map_of r = overlay (map_of items) (map_of model) (map_of d)"
  using assms
proof (induction items arbitrary: d)
  case Nil
  have "map_of d = overlay Map.empty (map_of model) (map_of d)" by (rule ext) (simp add: overlay_def)
  with Nil show ?case by simp
next
  case (Cons item items)
  obtain i e where ie: "item = (i, e)" by (cases item)
  from Cons.prems ie have e: "valid_event e" "me_identity e = i" and i: "map_of items i = None"
    by (auto simp: map_of_eq_None_iff)
  define d' where "d' = (if me_operation e = SET then dict_set i (event_label e) d
    else (case map_of model i of None \<Rightarrow> dict_pop i d | Some v \<Rightarrow> dict_set i v (dict_pop i d)))"
  have k: "keyed d'"
    unfolding d'_def using Cons.prems(3,4) e(2)
    by (auto simp: keyed_dict_pop keyed_def [of model] intro!: keyed_dict_set dest!: map_of_SomeD
        split: option.splits)
  have m: "map_of d' = (map_of d)(i := (if me_operation e = SET then Some (event_label e) else map_of model i))"
    by (auto simp: d'_def map_of_dict_set map_of_dict_pop fun_eq_iff split: option.splits)
  have loop: "effective_loop model (item # items) d = effective_loop model items d'"
    using e by (simp add: ie d'_def as_label_value_valid)
  have "overlay (map_of items) (map_of model) (map_of d') j
      = overlay (map_of (item # items)) (map_of model) (map_of d) j" for j
    by (cases "j = i") (simp_all add: overlay_def ie m i split: option.split)
  then have eq: "overlay (map_of items) (map_of model) (map_of d')
      = overlay (map_of (item # items)) (map_of model) (map_of d)" by (rule ext)
  have "\<forall>(i, e) \<in> set items. valid_event e \<and> me_identity e = i" "distinct (map fst items)"
    using Cons.prems(1,2) by simp_all
  from Cons.IH [OF this k Cons.prems(4)] show ?case unfolding loop eq .
qed

text \<open>
  What the constructors guarantee makes resolution total, with each namespace the list of its
  labels in output order.
\<close>

definition lists_labels :: "label_value list \<Rightarrow> (label_identity \<Rightarrow> label_value option) \<Rightarrow> bool" where
  "lists_labels vs label_of \<longleftrightarrow> (\<forall>v. v \<in> set vs \<longleftrightarrow> label_of (lv_identity v) = Some v)
     \<and> distinct (map lv_identity vs)
     \<and> sorted (map (\<lambda>v. (lv_target_scope v, lv_target_id v, lv_label_key v, lv_version_id v)) vs)"

lemma lists_labels_ordered:
  assumes "keyed d" and "\<And>i. map_of d i = f i"
  shows "lists_labels (ordered (map snd d)) f"
  using keyed_values [OF assms(1)] assms(2) by (simp add: lists_labels_def ordered_def)

lemma resolve_total:
  assumes "\<forall>e \<in> set events. valid_event e"
  shows "\<exists>r. resolve_label_namespaces model events = Inr r
    \<and> lists_labels (rn_model r) (model_label model)
    \<and> lists_labels (rn_manual r) (manual_label events)
    \<and> lists_labels (rn_effective r) (effective_label model events)"
proof -
  let ?latest = "by_identity me_identity (sort_key event_order events)"
  have latest: "map_of ?latest i = latest_event events i" for i
    by (simp add: map_of_by_identity latest_event_def)
  have "valid_event e \<and> me_identity e = i" if "(i, e) \<in> set ?latest" for i e
    using map_of_is_SomeI [OF distinct_by_identity that] assms last_with_Some
    by (fastforce simp: latest latest_event_def)
  then have items: "\<forall>(i, e) \<in> set ?latest. valid_event e \<and> me_identity e = i" by auto
  from manual_items_spec [OF items distinct_by_identity]
  obtain d where d: "manual_items ?latest = Inr d" "keyed d" "\<And>i. map_of d i = manual_label events i"
    by (auto simp: latest manual_label_def)
  from effective_loop_spec [OF items distinct_by_identity keyed_by_identity [of model] keyed_by_identity [of model]]
  obtain r where r: "effective_loop (by_identity lv_identity model) ?latest (by_identity lv_identity model) = Inr r"
      "keyed r" "map_of r = overlay (map_of ?latest) (map_of (by_identity lv_identity model))
         (map_of (by_identity lv_identity model))"
    by blast
  have eff: "map_of r i = effective_label model events i" for i
    by (simp add: r(3) overlay_def map_of_by_identity effective_label_def manual_label_def
        latest_event_def model_label_def split: option.split)
  have "lists_labels (ordered (map snd (by_identity lv_identity model))) (model_label model)"
    by (rule lists_labels_ordered [OF keyed_by_identity]) (simp add: map_of_by_identity model_label_def)
  with d(1) r(1) lists_labels_ordered [OF d(2,3)] lists_labels_ordered [OF r(2) eff] show ?thesis
    by (simp add: resolve_label_namespaces_def)
qed

section \<open>What the snapshot shows\<close>

text \<open>The place of a label in a namespace document: the path of its entry.\<close>

definition slot :: "label_value \<Rightarrow> string option \<times> string" where
  "slot v = (if lv_target_scope v = ''global'' then None else Some (lv_target_id v), lv_label_key v)"

fun slot_path :: "string option \<times> string \<Rightarrow> string list" where
  "slot_path (None, k) = [''global'', k]"
| "slot_path (Some t, k) = [''media'', t, ''labels'', k]"

fun state_label :: "namespace_state \<Rightarrow> string option \<times> string \<Rightarrow> pyval option" where
  "state_label st (None, k) = map_of (fst st) k"
| "state_label st (Some t, k) = (case map_of (snd st) t of None \<Rightarrow> None | Some e \<Rightarrow> map_of (snd e) k)"

lemma map_of_media: "map_of (map media_entry m) t =
    (case map_of m t of None \<Rightarrow> None
     | Some e \<Rightarrow> Some (PDict [(''target_kind'', PStr (fst e)), (''labels'', PDict (snd e))]))"
  by (induction m) (auto simp: media_entry_def)

lemma walk_document: "walk (namespace_document st) (slot_path s) = state_label st s"
  by (cases "(st, s)" rule: state_label.cases)
    (auto simp: namespace_document_def map_of_media split: option.splits)

lemma label_entry_total: "valid_label v \<Longrightarrow> \<exists>d. label_entry v = Inr d"
  by (elim valid_label_score) (simp add: label_entry_def)

definition the_entry :: "label_value \<Rightarrow> pyval" where
  "the_entry v = projr (label_entry v)"

lemma label_entry_valid: "valid_label v \<Longrightarrow> label_entry v = Inr (the_entry v)"
  using label_entry_total [of v] by (auto simp: the_entry_def)

lemma snapshot_step_spec:
  assumes "valid_label v"
  shows "if state_label st (slot v) = None
    then \<exists>st'. snapshot_step v st = Inr st' \<and> state_label st' = (state_label st)(slot v \<mapsto> the_entry v)
    else isl (snapshot_step v st)"
proof (cases "lv_target_scope v = ''global''")
  case True
  have "state_label (dict_set k d (fst st), snd st) = (state_label st)((None, k) \<mapsto> d)" for k d
  proof
    show "state_label (dict_set k d (fst st), snd st) s = ((state_label st)((None, k) \<mapsto> d)) s" for s
      by (cases s; cases "fst s") (auto simp: map_of_dict_set)
  qed
  then show ?thesis using True
    by (auto simp: snapshot_step_def label_entry_valid [OF assms] store_unambiguous_def dict_has_iff slot_def)
next
  case False
  let ?t = "lv_target_id v" and ?k = "lv_label_key v"
  define e where "e = (case map_of (snd st) ?t of Some e \<Rightarrow> e | None \<Rightarrow> (lv_target_kind v, []))"
  have e: "map_of (snd e) k = state_label st (Some ?t, k)" for k
    by (simp add: e_def split: option.split)
  have upd: "state_label (fst st, dict_set ?t (fst e, dict_set ?k d (snd e)) (snd st))
      = (state_label st)((Some ?t, ?k) \<mapsto> d)" for d
  proof
    fix s :: "string option \<times> string"
    show "state_label (fst st, dict_set ?t (fst e, dict_set ?k d (snd e)) (snd st)) s
      = ((state_label st)((Some ?t, ?k) \<mapsto> d)) s"
      using e [of "snd s"] by (cases s; cases "fst s") (auto simp: map_of_dict_set)
  qed
  have "snapshot_step v st = (if map_of (snd e) ?k \<noteq> None
      then fail ''routing snapshot cannot represent multiple label definition versions''
      else Inr (fst st, dict_set ?t (fst e, dict_set ?k (the_entry v) (snd e)) (snd st)))"
    using False by (simp add: snapshot_step_def label_entry_valid [OF assms] store_unambiguous_def
        dict_has_iff Let_def e_def)
  moreover have "slot v = (Some ?t, ?k)" using False by (simp add: slot_def)
  ultimately show ?thesis using upd e [of ?k] by auto
qed

lemma snapshot_loop_spec:
  assumes "\<forall>v \<in> set vs. valid_label v"
  shows "if distinct (map slot vs) \<and> (\<forall>v \<in> set vs. state_label st (slot v) = None)
    then \<exists>st'. snapshot_loop vs st = Inr st'
      \<and> state_label st' = (\<lambda>s. case find (\<lambda>v. slot v = s) vs of Some v \<Rightarrow> Some (the_entry v)
          | None \<Rightarrow> state_label st s)
    else isl (snapshot_loop vs st)"
  using assms
proof (induction vs arbitrary: st)
  case Nil
  then show ?case by simp
next
  case (Cons v vs)
  from Cons.prems have v: "valid_label v" and vs: "\<forall>v \<in> set vs. valid_label v" by simp_all
  show ?case
  proof (cases "state_label st (slot v) = None")
    case False
    with snapshot_step_spec [OF v, of st] have "isl (snapshot_step v st)" by simp
    then obtain x where "snapshot_step v st = Inl x" by (cases "snapshot_step v st") simp_all
    with False show ?thesis by auto
  next
    case True
    with snapshot_step_spec [OF v, of st] obtain st1 where st1: "snapshot_step v st = Inr st1"
        "state_label st1 = (state_label st)(slot v \<mapsto> the_entry v)" by auto
    have fresh: "(distinct (map slot vs) \<and> (\<forall>w \<in> set vs. state_label st1 (slot w) = None))
        \<longleftrightarrow> (distinct (map slot (v # vs)) \<and> (\<forall>w \<in> set (v # vs). state_label st (slot w) = None))"
      using True by (auto simp: st1(2) image_iff)
    have found: "(case find (\<lambda>w. slot w = s) vs of Some w \<Rightarrow> Some (the_entry w) | None \<Rightarrow> state_label st1 s)
        = (case find (\<lambda>w. slot w = s) (v # vs) of Some w \<Rightarrow> Some (the_entry w) | None \<Rightarrow> state_label st s)"
      if "distinct (map slot (v # vs))" for s
    proof (cases "slot v = s")
      case True
      then have "find (\<lambda>w. slot w = s) vs = None" using that
        by (auto simp: find_None_iff) (metis image_eqI)
      with True show ?thesis by (simp add: st1(2))
    next
      case False
      then have "state_label st1 s = state_label st s" by (simp add: st1(2))
      with False show ?thesis by (simp split: option.split)
    qed
    from Cons.IH [OF vs, of st1] show ?thesis
      unfolding fresh snapshot_loop.simps st1(1) try_bind_simps by (auto simp: found split: if_splits)
  qed
qed

lemma namespace_snapshot_ok:
  assumes "\<forall>v \<in> set vs. valid_label v"
  shows "(\<exists>doc. namespace_snapshot vs = Inr doc) \<longleftrightarrow> distinct (map slot vs)"
proof -
  have "state_label ([], []) s = None" for s by (cases s; cases "fst s") simp_all
  with snapshot_loop_spec [OF assms, of "([], [])"] show ?thesis
    by (cases "snapshot_loop vs ([], [])") (auto simp: namespace_snapshot_def split: if_splits)
qed

lemma namespace_snapshot_lookup:
  assumes "\<forall>v \<in> set vs. valid_label v" and "namespace_snapshot vs = Inr doc"
  shows "walk doc (slot_path s) = map_option the_entry (find (\<lambda>v. slot v = s) vs)"
proof -
  have none: "state_label ([], []) s = None" for s by (cases s; cases "fst s") simp_all
  have "distinct (map slot vs)" using namespace_snapshot_ok [OF assms(1)] assms(2) by blast
  with snapshot_loop_spec [OF assms(1), of "([], [])"] none
  have "\<exists>st. snapshot_loop vs ([], []) = Inr st
      \<and> state_label st = (\<lambda>s. case find (\<lambda>v. slot v = s) vs of Some v \<Rightarrow> Some (the_entry v) | None \<Rightarrow> None)"
    by (simp add: none [abs_def] cong: option.case_cong)
  then obtain st where st: "snapshot_loop vs ([], []) = Inr st"
      "state_label st = (\<lambda>s. case find (\<lambda>v. slot v = s) vs of Some v \<Rightarrow> Some (the_entry v) | None \<Rightarrow> None)"
    by blast
  from assms(2) st(1) have "doc = namespace_document st" by (simp add: namespace_snapshot_def)
  then show ?thesis by (simp only: walk_document st(2)) (simp split: option.split)
qed

section \<open>What resolution guarantees\<close>

text \<open>
  Resolving constructed assignments and events never fails.  The effective namespace has,
  for each label of each target, the value of the latest manual event if that sets it, and the
  model's value if the latest manual event clears it or there is none; every namespace lists its
  labels once, in output order.
\<close>

theorem resolution_follows_latest_event:
  assumes "\<forall>e \<in> set events. check_manual_event e = Inr e"
  shows "\<exists>r. resolve_label_namespaces model events = Inr r
    \<and> (\<forall>v. v \<in> set (rn_effective r) \<longleftrightarrow>
        (case latest_event events (lv_identity v) of
           Some e \<Rightarrow> if me_operation e = SET then v = event_label e
             else model_label model (lv_identity v) = Some v
         | None \<Rightarrow> model_label model (lv_identity v) = Some v))
    \<and> (\<forall>v. v \<in> set (rn_manual r) \<longleftrightarrow>
        (\<exists>e. latest_event events (lv_identity v) = Some e \<and> me_operation e = SET \<and> v = event_label e))
    \<and> distinct (map lv_identity (rn_effective r)) \<and> distinct (map lv_identity (rn_manual r))"
proof -
  from resolve_total [of events model] assms
  obtain r where r: "resolve_label_namespaces model events = Inr r"
      "lists_labels (rn_manual r) (manual_label events)"
      "lists_labels (rn_effective r) (effective_label model events)"
    by (auto simp: valid_event_def)
  show ?thesis
    using r by (intro exI [of _ r])
      (auto simp: lists_labels_def effective_label_def manual_label_def split: option.splits if_splits)
qed

definition sample_event :: "string \<Rightarrow> int \<Rightarrow> manual_label_operation \<Rightarrow> manual_label_event" where
  "sample_event eid t op =
     \<lparr>me_event_id = eid, me_message_id = ''m1'', me_target_scope = ''global'', me_target_kind = ''message'',
      me_target_id = ''m1'', me_version_id = ''v1'', me_label_key = ''ugc'', me_operation = op,
      me_actor = ''admin'', me_created_at = Aware t,
      me_score = (if op = SET then PFloat (Fin 1) else PNone),
      me_activated = (if op = SET then PBool True else PNone),
      me_image_asset_id = None, me_video_asset_id = None, me_reason = None\<rparr>"

definition sample_model :: label_value where
  "sample_model =
     \<lparr>lv_message_id = ''m1'', lv_target_scope = ''global'', lv_target_kind = ''message'',
      lv_target_id = ''m1'', lv_version_id = ''v1'', lv_label_key = ''ugc'',
      lv_score = PFloat (Fin (1/4)), lv_activated = PBool False,
      lv_image_asset_id = None, lv_video_asset_id = None\<rparr>"

lemma sample_events_valid:
  "\<forall>e \<in> set [sample_event ''e2'' 7 CLEAR, sample_event ''e1'' 5 SET]. check_manual_event e = Inr e"
  "\<forall>e \<in> set [sample_event ''e1'' 5 SET]. check_manual_event e = Inr e"
  by code_simp+

theorem resolution_follows_latest_event_witness:
  "\<exists>r. resolve_label_namespaces [sample_model] [sample_event ''e2'' 7 CLEAR, sample_event ''e1'' 5 SET] = Inr r
    \<and> sample_model \<in> set (rn_effective r) \<and> rn_manual r = []"
proof -
  from resolution_follows_latest_event [OF sample_events_valid(1), of "[sample_model]"]
  obtain r where r: "resolve_label_namespaces [sample_model]
      [sample_event ''e2'' 7 CLEAR, sample_event ''e1'' 5 SET] = Inr r" by blast
  have "resolve_label_namespaces [sample_model] [sample_event ''e2'' 7 CLEAR, sample_event ''e1'' 5 SET]
      = Inr \<lparr>rn_model = [sample_model], rn_manual = [], rn_effective = [sample_model]\<rparr>" by code_simp
  with r show ?thesis by (auto dest: sym)
qed

text \<open>
  The outcome does not depend on the order in which the history is read: events with
  distinct ids resolve alike in every order.
\<close>

theorem resolution_ignores_history_order:
  assumes "mset events = mset events'" and "distinct (map me_event_id events)"
  shows "resolve_label_namespaces model events = resolve_label_namespaces model events'"
proof -
  have "distinct (map event_order events)"
    using assms(2) by (auto simp: distinct_map event_order_def inj_on_def)
  then have "sort_key event_order events = sort_key event_order events'"
    by (rule sort_key_unique [OF assms(1)])
  then show ?thesis by (simp only: resolve_label_namespaces_def)
qed

theorem resolution_ignores_history_order_witness:
  "resolve_label_namespaces [sample_model] [sample_event ''e2'' 7 CLEAR, sample_event ''e1'' 5 SET]
    = resolve_label_namespaces [sample_model] [sample_event ''e1'' 5 SET, sample_event ''e2'' 7 CLEAR]"
  by (rule resolution_ignores_history_order) (simp_all add: sample_event_def)

text \<open>
  A routing snapshot exists exactly when no namespace has two labels with the same key for
  the message or for the same media target; it then shows, at the place of each label, its
  version, score and flag, and no other label.
\<close>

theorem snapshot_shows_labels:
  assumes "\<forall>v \<in> set vs. check_label_value v = Inr v"
  shows "((\<exists>doc. namespace_snapshot vs = Inr doc) \<longleftrightarrow> distinct (map slot vs))
    \<and> (\<forall>doc s entry. namespace_snapshot vs = Inr doc \<longrightarrow>
        (walk doc (slot_path s) = Some entry \<longleftrightarrow>
          (\<exists>v \<in> set vs. \<exists>q b. slot v = s \<and> py_float_of (lv_score v) = Inr (Fin q) \<and> lv_activated v = PBool b
            \<and> entry = PDict [(''label_definition_version_id'', PStr (lv_version_id v)),
                (''score'', PFloat (Fin q)), (''activated'', PBool b)])))"
proof (intro conjI allI impI)
  have valid: "\<forall>v \<in> set vs. valid_label v" using assms by (simp add: valid_label_def)
  show iff: "(\<exists>doc. namespace_snapshot vs = Inr doc) \<longleftrightarrow> distinct (map slot vs)"
    by (rule namespace_snapshot_ok [OF valid])
  fix doc s entry
  assume doc: "namespace_snapshot vs = Inr doc"
  with iff have dist: "distinct (map slot vs)" by blast
  have entry: "(\<exists>q b. py_float_of (lv_score v) = Inr (Fin q) \<and> lv_activated v = PBool b
      \<and> e = PDict [(''label_definition_version_id'', PStr (lv_version_id v)),
                (''score'', PFloat (Fin q)), (''activated'', PBool b)]) \<longleftrightarrow> e = the_entry v"
    if "v \<in> set vs" for v e
    using bspec [OF valid that] by (elim valid_label_score) (auto simp: the_entry_def label_entry_def)
  have "walk doc (slot_path s) = Some entry \<longleftrightarrow> (\<exists>v. find (\<lambda>v. slot v = s) vs = Some v \<and> entry = the_entry v)"
    by (simp add: namespace_snapshot_lookup [OF valid doc]) (blast intro: sym)
  also have "\<dots> \<longleftrightarrow> (\<exists>v \<in> set vs. slot v = s \<and> entry = the_entry v)"
    by (simp add: find_key_iff [OF dist] Bex_def conj_assoc)
  also have "\<dots> \<longleftrightarrow> (\<exists>v \<in> set vs. \<exists>q b. slot v = s \<and> py_float_of (lv_score v) = Inr (Fin q) \<and> lv_activated v = PBool b
      \<and> entry = PDict [(''label_definition_version_id'', PStr (lv_version_id v)),
          (''score'', PFloat (Fin q)), (''activated'', PBool b)])"
    using entry by (intro bex_cong refl) blast
  finally show "walk doc (slot_path s) = Some entry \<longleftrightarrow> \<dots>" .
qed

theorem snapshot_shows_labels_witness:
  "distinct (map slot [sample_model])
    \<and> walk (projr (namespace_snapshot [sample_model])) (slot_path (None, ''ugc''))
      = Some (PDict [(''label_definition_version_id'', PStr ''v1''), (''score'', PFloat (Fin (1/4))),
          (''activated'', PBool False)])"
proof -
  have v: "\<forall>v \<in> set [sample_model]. check_label_value v = Inr v" by code_simp
  have d: "distinct (map slot [sample_model])" by code_simp
  with snapshot_shows_labels [OF v] obtain doc where doc: "namespace_snapshot [sample_model] = Inr doc" by blast
  have "\<exists>v \<in> set [sample_model]. \<exists>q b. slot v = (None, ''ugc'') \<and> py_float_of (lv_score v) = Inr (Fin q)
      \<and> lv_activated v = PBool b \<and> PDict [(''label_definition_version_id'', PStr ''v1''),
          (''score'', PFloat (Fin (1/4))), (''activated'', PBool False)]
        = PDict [(''label_definition_version_id'', PStr (lv_version_id v)),
            (''score'', PFloat (Fin q)), (''activated'', PBool b)]"
    by (simp add: sample_model_def slot_def) (rule exI [of _ "1/4"], auto)
  from conjunct2 [OF snapshot_shows_labels [OF v], THEN spec, THEN spec, THEN spec, THEN mp, OF doc,
      THEN iffD2, OF this] doc d
  show ?thesis by (simp only: sum.sel simp_thms)
qed

end
