(* ===== verification/Json_Data.thy ===== *)
theory Json_Data
  imports Py_Values
begin

text \<open>
  JSON normalisation of dynamically typed values: \<^verbatim>\<open>load_json(canonical_json(v))\<close> and
  \<^verbatim>\<open>require_json_object\<close> of \<^verbatim>\<open>tgcurator/domain/analysis/common.py\<close>, and
  \<^verbatim>\<open>canonical_facts_snapshot\<close> of \<^verbatim>\<open>tgcurator/domain/routing/dsl.py\<close>, which encode a value with
  sorted keys and decode it again.

  The text in between is not modelled: decoding what was encoded gives back the same text,
  numbers and constants, lists for tuples, and objects with their keys in order.  What can fail
  is the encoding, on a float that is not finite and on an integer of more than 4300 digits,
  which the interpreter refuses to print.
\<close>

section \<open>Encoding and decoding\<close>

definition max_int_digits :: nat where
  "max_int_digits = 4300"

definition printable_int :: "int \<Rightarrow> bool" where
  "printable_int i = (\<bar>i\<bar> < 10 ^ max_int_digits)"

text \<open>For evaluation: small integers are decided without the power.\<close>

lemma printable_int_code [code]:
  "printable_int i = (if \<bar>i\<bar> < 1000000000000000000 then True else \<bar>i\<bar> < 10 ^ max_int_digits)"
proof -
  have "18 \<le> max_int_digits" by (simp add: max_int_digits_def)
  then have "(10::int) ^ 18 \<le> 10 ^ max_int_digits" by (intro power_increasing) simp_all
  then have "\<bar>i\<bar> < 1000000000000000000 \<Longrightarrow> \<bar>i\<bar> < 10 ^ max_int_digits"
    by (rule order_less_le_trans [rotated]) simp
  then show ?thesis by (auto simp: printable_int_def)
qed

fun json_normal :: "pyval \<Rightarrow> pyval option"
  and json_normal_list :: "pyval list \<Rightarrow> pyval list option"
  and json_normal_items :: "(string \<times> pyval) list \<Rightarrow> (string \<times> pyval) list option" where
  "json_normal PNone = Some PNone"
| "json_normal (PBool b) = Some (PBool b)"
| "json_normal (PInt i) = (if printable_int i then Some (PInt i) else None)"
| "json_normal (PFloat f) = (case f of Fin q \<Rightarrow> Some (PFloat (Fin q)) | _ \<Rightarrow> None)"
| "json_normal (PStr s) = Some (PStr s)"
| "json_normal (PList xs) = map_option PList (json_normal_list xs)"
| "json_normal (PTuple xs) = map_option PList (json_normal_list xs)"
| "json_normal (PDict d) = map_option (\<lambda>e. PDict (sort_key fst e)) (json_normal_items d)"
| "json_normal_list [] = Some []"
| "json_normal_list (x # xs) =
     (case json_normal x of None \<Rightarrow> None
      | Some y \<Rightarrow> map_option (\<lambda>ys. y # ys) (json_normal_list xs))"
| "json_normal_items [] = Some []"
| "json_normal_items ((k, v) # d) =
     (case json_normal v of None \<Rightarrow> None
      | Some w \<Rightarrow> map_option (\<lambda>e. (k, w) # e) (json_normal_items d))"

definition require_json_object :: "pyval \<Rightarrow> (string, pyval) dict result" where
  "require_json_object v =
     (case v of
        PDict _ \<Rightarrow>
          (case json_normal v of
             Some (PDict e) \<Rightarrow> Inr e
           | _ \<Rightarrow> fail ''value must be finite JSON-compatible data'')
      | _ \<Rightarrow> fail ''must be an object'')"

definition canonical_facts_snapshot :: "pyval \<Rightarrow> (string, pyval) dict result" where
  "canonical_facts_snapshot facts =
     (case facts of
        PDict _ \<Rightarrow>
          (case json_normal facts of
             None \<Rightarrow> fail ''facts must be finite JSON-compatible data''
           | Some (PDict e) \<Rightarrow> Inr e
           | Some _ \<Rightarrow> fail ''facts must encode a JSON object'')
      | _ \<Rightarrow> fail ''facts must be a mapping'')"

section \<open>Normal forms\<close>

lemma json_normal_list_Some:
  "json_normal_list xs = Some ys \<longleftrightarrow> list_all2 (\<lambda>x y. json_normal x = Some y) xs ys"
  by (induction xs arbitrary: ys) (auto simp: list_all2_Cons1 split: option.splits)

lemma json_normal_items_Some:
  "json_normal_items d = Some e \<longleftrightarrow>
     list_all2 (\<lambda>a b. fst a = fst b \<and> json_normal (snd a) = Some (snd b)) d e"
proof (induction d arbitrary: e)
  case (Cons a d)
  then show ?case by (cases a) (auto simp: list_all2_Cons1 split: option.splits)
qed auto

lemma json_normal_idem: "json_normal v = Some w \<Longrightarrow> json_normal w = Some w"
  and json_normal_list_idem: "json_normal_list xs = Some ys \<Longrightarrow> json_normal_list ys = Some ys"
  and json_normal_items_idem: "json_normal_items d = Some e \<Longrightarrow>
     list_all (\<lambda>a. json_normal (snd a) = Some (snd a)) e"
proof (induction v and xs and d arbitrary: w and ys and e
    rule: json_normal_json_normal_list_json_normal_items.induct)
  case (8 d)
  then obtain e where w: "w = PDict (sort_key fst e)"
    and all: "list_all (\<lambda>a. json_normal (snd a) = Some (snd a)) e" by auto
  have "json_normal_items (sort_key fst e) = Some (sort_key fst e)"
    using all by (auto simp: json_normal_items_Some list_all2_same list_all_iff)
  moreover have "sort_key fst (sort_key fst e) = sort_key fst e" by (rule sort_key_id_if_sorted) simp
  ultimately show ?case by (simp add: w)
qed (auto split: if_splits py_float.splits option.splits)

lemma json_normal_items_perm:
  assumes "mset d = mset d'" and "distinct (map fst d)"
  shows "map_option (sort_key fst) (json_normal_items d) = map_option (sort_key fst) (json_normal_items d')"
proof -
  let ?ok = "\<lambda>d. \<forall>a \<in> set d. json_normal (snd a) \<noteq> None"
  let ?f = "\<lambda>a. (fst a, the (json_normal (snd a)))"
  have items: "json_normal_items d = (if ?ok d then Some (map ?f d) else None)" for d
  proof (induction d)
    case (Cons a d)
    then show ?case by (cases a; cases "json_normal (snd a)") simp_all
  qed simp
  have "set d = set d'" using assms(1) by (rule mset_eq_setD)
  moreover have "sort_key fst (map ?f d) = sort_key fst (map ?f d')"
  proof (rule sort_key_unique)
    show "mset (map ?f d) = mset (map ?f d')" using assms(1) by simp
    show "distinct (map fst (map ?f d))" using assms(2) by (simp add: comp_def)
  qed
  ultimately show ?thesis by (simp add: items)
qed

text \<open>
  A facts snapshot is canonical: the order of the facts does not matter, its keys are
  sorted, and taking the snapshot of a snapshot changes nothing.
\<close>

theorem facts_snapshot_canonical:
  assumes "canonical_facts_snapshot (PDict d) = Inr e" and "distinct (map fst d)" and "mset d = mset d'"
  shows "canonical_facts_snapshot (PDict d') = Inr e \<and> sorted (map fst e)
    \<and> canonical_facts_snapshot (PDict e) = Inr e"
proof -
  from assms(1) obtain n where n: "json_normal (PDict d) = Some n" "n = PDict e"
    by (auto simp: canonical_facts_snapshot_def split: option.splits pyval.splits)
  have "json_normal (PDict d') = json_normal (PDict d)"
    using arg_cong [OF json_normal_items_perm [OF assms(3,2)], of "map_option PDict"]
    by (simp add: option.map_comp comp_def)
  with n have "canonical_facts_snapshot (PDict d') = Inr e"
    by (simp add: canonical_facts_snapshot_def del: json_normal.simps)
  moreover have "sorted (map fst e)" using n by auto
  moreover have "json_normal (PDict e) = Some (PDict e)" using json_normal_idem n by blast
  then have "canonical_facts_snapshot (PDict e) = Inr e"
    by (simp add: canonical_facts_snapshot_def del: json_normal.simps)
  ultimately show ?thesis by blast
qed

theorem facts_snapshot_canonical_witness:
  "canonical_facts_snapshot (PDict [(''b'', PBool True), (''a'', PTuple [PNone])])
     = Inr [(''a'', PList [PNone]), (''b'', PBool True)]
   \<and> canonical_facts_snapshot (PDict [(''a'', PTuple [PNone]), (''b'', PBool True)])
     = Inr [(''a'', PList [PNone]), (''b'', PBool True)]"
proof -
  have s: "canonical_facts_snapshot (PDict [(''b'', PBool True), (''a'', PTuple [PNone])])
     = Inr [(''a'', PList [PNone]), (''b'', PBool True)]"
    by code_simp
  from facts_snapshot_canonical [OF s, of "[(''a'', PTuple [PNone]), (''b'', PBool True)]"] s
  show ?thesis by simp
qed

end
