(* ===== verification/Routing_Service.thy ===== *)
theory Routing_Service
  imports Routing_Policy Publishing Review_Labels Json_Data
begin

text \<open>
  The routing service: \<^verbatim>\<open>application/routing/service.py\<close> over the port
  \<^verbatim>\<open>application/ports/routing.py\<close>.  A request is answered from the stored evaluation of its
  request id or, the first time, by loading a snapshot, turning it into facts, evaluating the
  policy and building one publication intent per routed action.  The repository is the locale
  \<open>routing_repository\<close>; \<open>sha\<close> stands for SHA-256 and \<open>facts_hash\<close> for the hash of the facts'
  JSON text, and \<open>fresh\<close> numbers the ids of the id factory.
\<close>

section \<open>Requests, snapshots, results\<close>

record routing_request =
  rq_request_id :: string
  rq_message_id :: string
  rq_policy_version_id :: string
  rq_dry_run :: bool

definition check_routing_request :: "routing_request \<Rightarrow> routing_request result" where
  "check_routing_request r =
     try_bind (require_nonblank (rq_request_id r)) (\<lambda>_.
     try_bind (require_nonblank (rq_message_id r)) (\<lambda>_.
     try_bind (require_nonblank (rq_policy_version_id r)) (\<lambda>_. Inr r)))"

record routing_snapshot =
  sn_message_id :: string
  sn_message :: "(string, pyval) dict"
  sn_source_channel :: "(string, pyval) dict"
  sn_duplicate_state :: "(string, pyval) dict"
  sn_media :: "(string, pyval) dict list"
  sn_review_status :: review_status
  sn_model_assignments :: "label_value list"
  sn_manual_events :: "manual_label_event list"
  sn_policy :: routing_policy
  sn_destination_identities :: "(string, string) dict"

definition check_routing_snapshot :: "routing_snapshot \<Rightarrow> routing_snapshot result" where
  "check_routing_snapshot s = try_bind (require_nonblank (sn_message_id s)) (\<lambda>_. Inr s)"

record evaluation_draft =
  ed_evaluation_id :: string
  ed_request_id :: string
  ed_message_id :: string
  ed_policy_version_id :: string
  ed_facts :: facts
  ed_facts_hash :: string
  ed_rule_outcomes :: "pyval list"
  ed_stopped_at_rule_id :: "string option"

record intent_draft =
  pi_intent_id :: string
  pi_evaluation_id :: string
  pi_request_id :: string
  pi_message_id :: string
  pi_policy_version_id :: string
  pi_rule_id :: string
  pi_action_id :: string
  pi_destination_channel_id :: string
  pi_publish_identity_id :: string
  pi_publication_mode :: string
  pi_rendering_template_version_id :: "string option"
  pi_idempotency_key :: string
  pi_status :: string

record routing_execution =
  ex_evaluation_id :: string
  ex_request_id :: string
  ex_message_id :: string
  ex_policy_version_id :: string
  ex_facts :: facts
  ex_facts_hash :: string
  ex_decision :: routing_decision
  ex_intents :: "intent_draft list"
  ex_persisted :: bool
  ex_reused :: bool
  ex_dry_run :: bool

definition validate_routing_request_reuse ::
  "routing_execution \<Rightarrow> string \<Rightarrow> string \<Rightarrow> string \<Rightarrow> unit result" where
  "validate_routing_request_reuse r request_id message_id policy_version_id =
     try_bind (require_nonblank request_id) (\<lambda>_.
     try_bind (require_nonblank message_id) (\<lambda>_.
     try_bind (require_nonblank policy_version_id) (\<lambda>_.
       if (ex_request_id r, ex_message_id r, ex_policy_version_id r)
            \<noteq> (request_id, message_id, policy_version_id)
       then fail ''routing_request_id is already bound to a different message or routing policy version''
       else Inr ())))"

definition as_reused :: "routing_execution \<Rightarrow> routing_execution" where
  "as_reused r = r\<lparr>ex_reused := True, ex_dry_run := False\<rparr>"

section \<open>Facts\<close>

definition message_facts :: "routing_snapshot \<Rightarrow> (string, pyval) dict" where
  "message_facts s =
     (let m = sn_message s;
          m' = (if dict_has ''id'' m then m else dict_set ''id'' (PStr (sn_message_id s)) m)
      in dict_set ''review_status'' (PStr (review_status_value (sn_review_status s))) m')"

definition build_routing_facts :: "routing_snapshot \<Rightarrow> facts result" where
  "build_routing_facts s =
     try_bind (resolve_label_namespaces (sn_model_assignments s) (sn_manual_events s)) (\<lambda>resolved.
     let message = message_facts s;
         blocked = (case map_of message ''blocked_from_analysis'' of None \<Rightarrow> PBool False | Some v \<Rightarrow> v)
     in try_bind (labels_to_routing_snapshot resolved) (\<lambda>labels.
       canonical_facts_snapshot (PDict
         [(''message'', PDict message),
          (''source_channel'', PDict (sn_source_channel s)),
          (''duplicate'', PDict (sn_duplicate_state s)),
          (''media'', PList (map PDict (sn_media s))),
          (''blocked_from_analysis'', blocked),
          (''review_status'', PStr (review_status_value (sn_review_status s))),
          (''labels'', labels)])))"

section \<open>Evaluations and intents\<close>

text \<open>\<^verbatim>\<open>asdict(outcome)\<close>.\<close>

definition outcome_document :: "rule_outcome \<Rightarrow> pyval" where
  "outcome_document outcome = PDict
     [(''rule_id'', PStr (ro_rule_id outcome)), (''enabled'', PBool (ro_enabled outcome)),
      (''checked'', PBool (ro_checked outcome)), (''evaluated'', PBool (ro_evaluated outcome)),
      (''matched'', PBool (ro_matched outcome)),
      (''stopped_after_match'', PBool (ro_stopped_after_match outcome))]"

definition make_draft ::
  "(facts \<Rightarrow> string) \<Rightarrow> string \<Rightarrow> routing_request \<Rightarrow> facts \<Rightarrow> routing_decision \<Rightarrow> evaluation_draft" where
  "make_draft facts_hash evaluation_id request facts decision =
     \<lparr>ed_evaluation_id = evaluation_id, ed_request_id = rq_request_id request,
      ed_message_id = rq_message_id request, ed_policy_version_id = rq_policy_version_id request,
      ed_facts = facts, ed_facts_hash = facts_hash facts,
      ed_rule_outcomes = map outcome_document (rd_outcomes decision),
      ed_stopped_at_rule_id = rd_stopped_at_rule_id decision\<rparr>"

definition publish_identity :: "(string, string) dict \<Rightarrow> publication_action \<Rightarrow> string option" where
  "publish_identity defaults a =
     (case pa_publish_identity_id a of
        Some i \<Rightarrow> Some i
      | None \<Rightarrow> map_of defaults (pa_destination_channel_id a))"

definition build_intent ::
  "(string \<Rightarrow> string) \<Rightarrow> string \<Rightarrow> evaluation_draft \<Rightarrow> (string, string) dict \<Rightarrow> publication_action \<Rightarrow>
     intent_draft result" where
  "build_intent sha intent_id d defaults a =
     (case pa_routing_rule_id a of
        None \<Rightarrow> fail ''matched routing action has no owning rule''
      | Some rule_id \<Rightarrow>
          (case publish_identity defaults a of
             None \<Rightarrow> fail ''destination channel has no usable publish identity''
           | Some identity_id \<Rightarrow>
               if blank identity_id then fail ''destination channel has no usable publish identity''
               else (case publication_mode_of (pa_publication_mode a) of
                   None \<Rightarrow> Inl ValueError
                 | Some mode \<Rightarrow>
                     try_bind (publication_idempotency_key sha
                       \<lparr>source_message_id = ed_message_id d,
                        destination_channel_id = pa_destination_channel_id a,
                        routing_policy_version_id = ed_policy_version_id d,
                        routing_rule_id = rule_id, action_id = pa_action_id a, publication_mode = mode,
                        routing_request_id = Some (ed_request_id d),
                        routing_evaluation_id = Some (ed_evaluation_id d)\<rparr>) (\<lambda>key.
                     Inr \<lparr>pi_intent_id = intent_id, pi_evaluation_id = ed_evaluation_id d,
                       pi_request_id = ed_request_id d, pi_message_id = ed_message_id d,
                       pi_policy_version_id = ed_policy_version_id d, pi_rule_id = rule_id,
                       pi_action_id = pa_action_id a,
                       pi_destination_channel_id = pa_destination_channel_id a,
                       pi_publish_identity_id = identity_id, pi_publication_mode = mode_value mode,
                       pi_rendering_template_version_id = pa_rendering_template_version_id a,
                       pi_idempotency_key = key, pi_status = ''pending''\<rparr>))))"

fun build_intents ::
  "(string \<Rightarrow> string) \<Rightarrow> (nat \<Rightarrow> string) \<Rightarrow> nat \<Rightarrow> evaluation_draft \<Rightarrow> (string, string) dict \<Rightarrow>
     publication_action list \<Rightarrow> intent_draft list result" where
  "build_intents sha fresh n d defaults [] = Inr []"
| "build_intents sha fresh n d defaults (a # as) =
     try_bind (build_intent sha (fresh n) d defaults a) (\<lambda>i.
     try_bind (build_intents sha fresh (Suc n) d defaults as) (\<lambda>is. Inr (i # is)))"

section \<open>The service\<close>

definition new_execution_result ::
  "evaluation_draft \<Rightarrow> routing_decision \<Rightarrow> intent_draft list \<Rightarrow> bool \<Rightarrow> routing_execution" where
  "new_execution_result d decision intents dry =
     \<lparr>ex_evaluation_id = ed_evaluation_id d, ex_request_id = ed_request_id d,
      ex_message_id = ed_message_id d, ex_policy_version_id = ed_policy_version_id d,
      ex_facts = ed_facts d, ex_facts_hash = ed_facts_hash d, ex_decision = decision,
      ex_intents = intents, ex_persisted = (\<not> dry), ex_reused = False, ex_dry_run = dry\<rparr>"

text \<open>What is computed from a snapshot, before anything is stored.\<close>

definition plan_execution ::
  "(string \<Rightarrow> string) \<Rightarrow> (facts \<Rightarrow> string) \<Rightarrow> (nat \<Rightarrow> string) \<Rightarrow> routing_request \<Rightarrow> routing_snapshot \<Rightarrow>
     (evaluation_draft \<times> routing_decision \<times> intent_draft list) result" where
  "plan_execution sha facts_hash fresh request snapshot =
     (if sn_message_id snapshot \<noteq> rq_message_id request
      then fail ''routing snapshot message does not match request''
      else if rp_policy_version_id (sn_policy snapshot) \<noteq> rq_policy_version_id request
      then fail ''routing snapshot policy does not match request''
      else
        try_bind (build_routing_facts snapshot) (\<lambda>facts.
        try_bind (evaluate_routing (sn_policy snapshot) facts) (\<lambda>decision.
        let d = make_draft facts_hash (fresh 0) request facts decision in
        try_bind (build_intents sha fresh 1 d (sn_destination_identities snapshot) (rd_actions decision)) (\<lambda>intents.
          Inr (d, decision, intents)))))"

definition evaluate_request ::
  "(string \<Rightarrow> 'db \<Rightarrow> routing_execution option result) \<Rightarrow>
   (string \<Rightarrow> string \<Rightarrow> 'db \<Rightarrow> routing_snapshot result) \<Rightarrow>
   (evaluation_draft \<Rightarrow> routing_decision \<Rightarrow> intent_draft list \<Rightarrow> 'db \<Rightarrow> (routing_execution \<times> 'db) result) \<Rightarrow>
   (string \<Rightarrow> string) \<Rightarrow> (facts \<Rightarrow> string) \<Rightarrow> (nat \<Rightarrow> string) \<Rightarrow> routing_request \<Rightarrow> 'db \<Rightarrow>
     (routing_execution \<times> 'db) result" where
  "evaluate_request find_request load persist sha facts_hash fresh request db =
     (let evaluate_new =
        try_bind (load (rq_message_id request) (rq_policy_version_id request) db) (\<lambda>snapshot.
        try_bind (plan_execution sha facts_hash fresh request snapshot) (\<lambda>(d, decision, intents).
          if rq_dry_run request then Inr (new_execution_result d decision intents True, db)
          else persist d decision intents db))
      in if rq_dry_run request then evaluate_new
      else try_bind (find_request (rq_request_id request) db) (\<lambda>existing.
        case existing of
          Some r \<Rightarrow>
            try_bind (validate_routing_request_reuse r (rq_request_id request) (rq_message_id request)
              (rq_policy_version_id request)) (\<lambda>_. Inr (as_reused r, db))
        | None \<Rightarrow> evaluate_new))"

section \<open>The repository as an interface\<close>

text \<open>The stored content of an execution, without the flags of a particular answer.\<close>

definition same_execution :: "routing_execution \<Rightarrow> routing_execution \<Rightarrow> bool" where
  "same_execution r s \<longleftrightarrow>
     ex_evaluation_id r = ex_evaluation_id s \<and> ex_request_id r = ex_request_id s
     \<and> ex_message_id r = ex_message_id s \<and> ex_policy_version_id r = ex_policy_version_id s
     \<and> ex_facts r = ex_facts s \<and> ex_facts_hash r = ex_facts_hash s \<and> ex_intents r = ex_intents s
     \<and> rd_outcomes (ex_decision r) = rd_outcomes (ex_decision s)
     \<and> rd_stopped_at_rule_id (ex_decision r) = rd_stopped_at_rule_id (ex_decision s)
     \<and> rd_policy_version_id (ex_decision r) = rd_policy_version_id (ex_decision s)"

text \<open>
  What the service relies on: whatever was planned from a loaded snapshot and persisted is found
  under its request id, and persisting touches no other request.
\<close>

locale routing_repository =
  fixes find_request :: "string \<Rightarrow> 'db \<Rightarrow> routing_execution option result"
    and load :: "string \<Rightarrow> string \<Rightarrow> 'db \<Rightarrow> routing_snapshot result"
    and persist :: "evaluation_draft \<Rightarrow> routing_decision \<Rightarrow> intent_draft list \<Rightarrow> 'db \<Rightarrow>
          (routing_execution \<times> 'db) result"
    and good_ids :: "(nat \<Rightarrow> string) \<Rightarrow> bool"
    and sound :: "'db \<Rightarrow> bool"
  assumes persist_found:
    "sound db \<Longrightarrow> good_ids fresh \<Longrightarrow> find_request (rq_request_id req) db = Inr None \<Longrightarrow>
     load (rq_message_id req) (rq_policy_version_id req) db = Inr snap \<Longrightarrow>
     plan_execution sha fh fresh req snap = Inr (d, decision, intents) \<Longrightarrow>
     persist d decision intents db = Inr (r, db') \<Longrightarrow>
     r = new_execution_result d decision intents False
       \<and> (\<exists>s. find_request (rq_request_id req) db' = Inr (Some s) \<and> same_execution s r)"
    and persist_sound:
    "sound db \<Longrightarrow> good_ids fresh \<Longrightarrow> load (rq_message_id req) (rq_policy_version_id req) db = Inr snap \<Longrightarrow>
     plan_execution sha fh fresh req snap = Inr (d, decision, intents) \<Longrightarrow>
     persist d decision intents db = Inr (r, db') \<Longrightarrow> sound db'"
begin

abbreviation "evaluate_in \<equiv> evaluate_request find_request load persist"

lemma same_execution_refl [simp]: "same_execution r r" "same_execution (as_reused r) r"
  by (simp_all add: same_execution_def as_reused_def)

text \<open>A dry run stores nothing.\<close>

lemma dry_run_pure: "rq_dry_run req \<Longrightarrow> evaluate_in sha fh fresh req db = Inr (r, db') \<Longrightarrow> db' = db"
  by (auto simp: evaluate_request_def Let_def result_simps split: if_splits)

text \<open>A repeated request is answered from the store, with the same content, whatever ids it draws.\<close>

lemma repeat_is_reused:
  assumes "sound db" and "good_ids fresh" and "\<not> rq_dry_run req"
    and "check_routing_request req = Inr req"
    and "evaluate_in sha fh fresh req db = Inr (r, db')"
  shows "\<exists>s. evaluate_in sha2 fh2 fresh2 req db' = Inr (s, db') \<and> ex_reused s \<and> same_execution s r"
proof -
  have nb: "\<not> blank (rq_request_id req)" "\<not> blank (rq_message_id req)" "\<not> blank (rq_policy_version_id req)"
    using assms(4) by (auto simp: check_routing_request_def result_simps require_nonblank_def split: if_splits)
  have again: "evaluate_in sha2 fh2 fresh2 req db' = Inr (as_reused s, db')"
    if "find_request (rq_request_id req) db' = Inr (Some s)" "ex_request_id s = rq_request_id req"
      "ex_message_id s = rq_message_id req" "ex_policy_version_id s = rq_policy_version_id req" for s
    using that nb assms(3)
    by (simp add: evaluate_request_def validate_routing_request_reuse_def require_nonblank_def)
  from assms(3,5) obtain existing where e: "find_request (rq_request_id req) db = Inr existing"
    by (auto simp: evaluate_request_def Let_def result_simps)
  show ?thesis
  proof (cases existing)
    case (Some s)
    with assms(3,5) e have "r = as_reused s" "db' = db" "ex_request_id s = rq_request_id req"
        "ex_message_id s = rq_message_id req" "ex_policy_version_id s = rq_policy_version_id req"
      by (auto simp: evaluate_request_def Let_def result_simps validate_routing_request_reuse_def split: if_splits)
    with again [of s] e Some show ?thesis
      by (intro exI [of _ "as_reused s"]) (simp add: as_reused_def same_execution_def)
  next
    case None
    with assms(3,5) e obtain snap d decision intents where p:
        "load (rq_message_id req) (rq_policy_version_id req) db = Inr snap"
        "plan_execution sha fh fresh req snap = Inr (d, decision, intents)"
        "persist d decision intents db = Inr (r, db')"
      by (auto simp: evaluate_request_def Let_def result_simps)
    from persist_found [OF assms(1,2) e [unfolded None] p]
    obtain s where s: "r = new_execution_result d decision intents False"
        "find_request (rq_request_id req) db' = Inr (Some s)" "same_execution s r" by blast
    have "ed_request_id d = rq_request_id req \<and> ed_message_id d = rq_message_id req
        \<and> ed_policy_version_id d = rq_policy_version_id req"
      using p(2) by (auto simp: plan_execution_def Let_def result_simps make_draft_def split: if_splits)
    with s have "ex_request_id s = rq_request_id req" "ex_message_id s = rq_message_id req"
        "ex_policy_version_id s = rq_policy_version_id req"
      by (simp_all add: same_execution_def new_execution_result_def)
    with again [OF s(2)] s(3) show ?thesis
      by (intro exI [of _ "as_reused s"]) (simp add: as_reused_def same_execution_def)
  qed
qed

end

end
