(* ===== verification/Routing_Facts.thy ===== *)
theory Routing_Facts
  imports Routing_Service
begin

text \<open>
  What a routing condition sees of the labels of a message: the snapshot of the resolved
  namespaces, normalised as JSON, under the \<^verbatim>\<open>labels\<close> fact.
\<close>

section \<open>Paths through normalised values\<close>

lemma map_of_filter_key:
  "map_of d k = (case filter (\<lambda>p. fst p = k) d of [] \<Rightarrow> None | p # _ \<Rightarrow> Some (snd p))"
  by (induction d) auto

lemma map_of_sort_key_fst [simp]: "map_of (sort_key fst d) = map_of (d :: (string \<times> 'v) list)"
  by (rule ext) (simp add: map_of_filter_key sort_key_stable)

lemma map_of_json_items:
  "json_normal_items d = Some e \<Longrightarrow> map_of e k = Option.bind (map_of d k) json_normal"
proof (induction d arbitrary: e)
  case (Cons a d)
  then show ?case by (cases a) (auto split: option.splits)
qed simp

lemma json_items_total: "json_normal_items d = Some e \<Longrightarrow> map_of d k = Some v \<Longrightarrow> json_normal v \<noteq> None"
  by (induction d arbitrary: e) (auto split: option.splits if_splits)

lemma walk_json_normal:
  "json_normal v = Some w \<Longrightarrow> walk w p = Option.bind (walk v p) json_normal"
proof (induction v p arbitrary: w rule: walk.induct)
  case (1 v)
  then show ?case by simp
next
  case (2 d c cs)
  then obtain e where e: "json_normal_items d = Some e" "w = PDict (sort_key fst e)" by auto
  show ?case
  proof (cases "map_of d c")
    case None
    with e show ?thesis by (simp add: map_of_json_items)
  next
    case (Some x)
    obtain y where y: "json_normal x = Some y" using json_items_total [OF e(1) Some] by blast
    from 2(1) [OF Some y] e Some y show ?thesis by (simp add: map_of_json_items)
  qed
qed (auto split: if_splits py_float.splits option.splits)

section \<open>Effective labels as facts\<close>

lemma effective_labelE:
  assumes "effective_label model events i = Some v"
  obtains e where "e \<in> set events" "me_identity e = i" "me_operation e = SET" "v = event_label e"
  | "v \<in> set model" "lv_identity v = i"
proof (cases "manual_label events i")
  case None
  then have "last_with lv_identity i model = Some v"
    using assms by (simp add: effective_label_def model_label_def)
  from last_with_Some [OF this] show thesis using that(2) by blast
next
  case (Some w)
  then have "manual_label events i = Some v" using assms by (simp add: effective_label_def)
  then obtain e where e: "latest_event events i = Some e" "me_operation e = SET" "v = event_label e"
    unfolding manual_label_def by (cases "latest_event events i") (simp_all split: if_splits)
  from last_with_Some [OF e(1) [unfolded latest_event_def]] have "e \<in> set events \<and> me_identity e = i" by simp
  with e show thesis using that(1) by blast
qed

lemma effective_label_identity:
  assumes "effective_label model events i = Some v"
  shows "lv_identity v = i"
  using assms by (rule effective_labelE) simp_all

lemma effective_label_valid:
  assumes "\<forall>v \<in> set model. valid_label v" and "\<forall>e \<in> set events. valid_event e"
    and "effective_label model events i = Some v"
  shows "valid_label v"
  using assms(3) by (rule effective_labelE) (use assms(1,2) in \<open>simp_all add: valid_set_event\<close>)

lemma walk_effective:
  assumes "build_routing_facts s = Inr facts"
  shows "\<exists>r eff. resolve_label_namespaces (sn_model_assignments s) (sn_manual_events s) = Inr r
    \<and> namespace_snapshot (rn_effective r) = Inr eff
    \<and> (\<forall>p. walk (PDict facts) (''labels'' # ''effective'' # p) = Option.bind (walk eff p) json_normal)
    \<and> (\<forall>x. CHR ''.'' \<in> set x \<longrightarrow> map_of facts x = None)"
proof -
  obtain r m h eff d where r: "resolve_label_namespaces (sn_model_assignments s) (sn_manual_events s) = Inr r"
      "namespace_snapshot (rn_effective r) = Inr eff"
      and d: "d = [(''message'', PDict (message_facts s)), (''source_channel'', PDict (sn_source_channel s)),
          (''duplicate'', PDict (sn_duplicate_state s)), (''media'', PList (map PDict (sn_media s))),
          (''blocked_from_analysis'', (case map_of (message_facts s) ''blocked_from_analysis'' of
             None \<Rightarrow> PBool False | Some v \<Rightarrow> v)),
          (''review_status'', PStr (review_status_value (sn_review_status s))),
          (''labels'', PDict [(''model'', m), (''manual'', h), (''effective'', eff)])]"
      and c: "canonical_facts_snapshot (PDict d) = Inr facts"
  proof -
    obtain r where r: "resolve_label_namespaces (sn_model_assignments s) (sn_manual_events s) = Inr r"
      using assms unfolding build_routing_facts_def
      by (cases "resolve_label_namespaces (sn_model_assignments s) (sn_manual_events s)") simp_all
    obtain labels where l: "labels_to_routing_snapshot r = Inr labels"
      using assms unfolding build_routing_facts_def r
      by (cases "labels_to_routing_snapshot r") (simp_all add: Let_def)
    from assms have c: "canonical_facts_snapshot (PDict
         [(''message'', PDict (message_facts s)), (''source_channel'', PDict (sn_source_channel s)),
          (''duplicate'', PDict (sn_duplicate_state s)), (''media'', PList (map PDict (sn_media s))),
          (''blocked_from_analysis'', (case map_of (message_facts s) ''blocked_from_analysis'' of
             None \<Rightarrow> PBool False | Some v \<Rightarrow> v)),
          (''review_status'', PStr (review_status_value (sn_review_status s))), (''labels'', labels)]) = Inr facts"
      unfolding build_routing_facts_def r l Let_def try_bind_simps .
    from l obtain m h eff where e: "namespace_snapshot (rn_effective r) = Inr eff"
        "labels = PDict [(''model'', m), (''manual'', h), (''effective'', eff)]"
      by (auto simp: labels_to_routing_snapshot_def result_simps)
    show thesis by (rule that [OF r e(1) refl c [unfolded e(2)]])
  qed
  from c have n: "json_normal (PDict d) = Some (PDict facts)"
    by (auto simp: canonical_facts_snapshot_def simp del: json_normal.simps split: option.splits pyval.splits)
  then obtain e where e: "json_normal_items d = Some e" "facts = sort_key fst e" by auto
  have "walk (PDict facts) (''labels'' # ''effective'' # p) = Option.bind (walk eff p) json_normal" for p
    by (simp only: walk_json_normal [OF n]) (simp add: d)
  moreover have "map_of facts x = None" if "CHR ''.'' \<in> set x" for x
  proof -
    have "\<forall>y \<in> fst ` set d. CHR ''.'' \<notin> set y" by (simp add: d)
    then have "map_of d x = None" using that by (metis map_of_eq_None_iff)
    then show ?thesis by (simp add: e(2) map_of_json_items [OF e(1)])
  qed
  ultimately show ?thesis using r
    by (intro exI [of _ r] exI [of _ eff] conjI allI impI) (simp_all del: walk.simps)
qed

text \<open>The condition that asks for an effective label of the message with at least a score.\<close>

definition score_condition :: "string \<Rightarrow> rat \<Rightarrow> pyval" where
  "score_condition k t = PDict [(''label'', PDict [(''namespace'', PStr ''effective''),
     (''scope'', PStr ''global''), (''key'', PStr k), (''score_gte'', PFloat (Fin t))])]"

lemma score_condition_valid:
  assumes "\<not> blank k" and "0 \<le> t" and "t \<le> 1"
  shows "validate_condition None (score_condition k t) = Inr ()"
  using assms by (simp add: score_condition_def validate_condition_def validate.simps max_depth_def
      validate_label_payload_def str_in_set_def score_comparisons_def dict_get_def dict_has_def
      is_number_def)

lemma compare_gte: "compare_values a ''gte'' (PFloat (Fin t)) True = Known True \<longleftrightarrow>
    (\<exists>x q. a = Some x \<and> num_val x = Some q \<and> fl_le (Fin t) q)"
  by (cases a; cases "the a") (auto simp: compare_values_def is_number_def num_test_def)

lemma evaluate_score_condition:
  assumes "\<not> blank k" and "0 \<le> t" and "t \<le> 1" and "CHR ''.'' \<notin> set k"
    and "\<forall>x. CHR ''.'' \<in> set x \<longrightarrow> map_of facts x = None"
  shows "evaluate_condition (score_condition k t) facts \<longleftrightarrow>
    (\<exists>d. walk (PDict facts) [''labels'', ''effective'', ''global'', k] = Some (PDict d)
      \<and> (\<exists>x q. map_of d ''score'' = Some x \<and> num_val x = Some q \<and> fl_le (Fin t) q))"
proof -
  let ?w = "walk (PDict facts) [''labels'', ''effective'', ''global'', k]"
  have "split_dot (''labels.effective.global.'' @ k) = [''labels'', ''effective'', ''global'', k]"
    using split_dot_append [of "''labels''" "''effective.global.'' @ k"]
      split_dot_append [of "''effective''" "''global.'' @ k"] split_dot_append [of "''global''" k]
      split_dot_no_dot [OF assms(4)] by simp
  then have r: "resolve_fact facts (''labels.effective.global.'' @ k) = ?w"
    using assms(5) by (simp add: resolve_fact_def del: walk.simps)
  have "evaluate facts (score_condition k t) = label_test [(''namespace'', PStr ''effective''),
     (''scope'', PStr ''global''), (''key'', PStr k), (''score_gte'', PFloat (Fin t))] ?w"
    using r by (simp add: score_condition_def evaluate.simps evaluate_label_def as_dict_def
        dict_index_def dict_has_def del: walk.simps)
  also have "\<dots> = Inr (case ?w of
      Some (PDict v) \<Rightarrow> compare_values (map_of v ''score'') ''gte'' (PFloat (Fin t)) True | _ \<Rightarrow> Unknown)"
    by (simp add: label_test_def score_comparisons_def dict_has_def comparison_name_def dict_get_def
        del: walk.simps split: option.split pyval.split)
  finally show ?thesis
    using score_condition_valid [OF assms(1-3), unfolded validate_condition_def]
    by (simp add: evaluate_condition_def compare_gte del: walk.simps split: option.split pyval.split)
qed

text \<open>
  Routing follows the review: a rule that asks for an effective label of the message with
  at least some score matches exactly when the latest manual event of such a label, or the model
  where no manual event sets one, gives it that score.
\<close>

theorem routing_sees_effective_labels:
  assumes "build_routing_facts s = Inr facts"
    and "\<forall>v \<in> set (sn_model_assignments s). check_label_value v = Inr v"
    and "\<forall>e \<in> set (sn_manual_events s). check_manual_event e = Inr e"
    and "\<not> blank k" and "CHR ''.'' \<notin> set k" and "0 \<le> t" and "t \<le> 1"
  shows "evaluate_condition (score_condition k t) facts \<longleftrightarrow>
    (\<exists>i v q. effective_label (sn_model_assignments s) (sn_manual_events s) i = Some v
      \<and> lv_target_scope v = ''global'' \<and> lv_label_key v = k \<and> num_val (lv_score v) = Some (Fin q) \<and> t \<le> q)"
proof -
  let ?model = "sn_model_assignments s" and ?events = "sn_manual_events s"
  have valid: "\<forall>v \<in> set ?model. valid_label v" "\<forall>e \<in> set ?events. valid_event e"
    using assms(2,3) by (simp_all add: valid_label_def valid_event_def)
  from walk_effective [OF assms(1)] obtain r eff where r:
      "resolve_label_namespaces ?model ?events = Inr r" "namespace_snapshot (rn_effective r) = Inr eff"
      "\<forall>p. walk (PDict facts) (''labels'' # ''effective'' # p) = Option.bind (walk eff p) json_normal"
      "\<forall>x. CHR ''.'' \<in> set x \<longrightarrow> map_of facts x = None" by blast
  from resolve_total [OF valid(2), of ?model] r(1) have eff: "lists_labels (rn_effective r) (effective_label ?model ?events)"
    by auto
  have member: "v \<in> set (rn_effective r) \<longleftrightarrow> effective_label ?model ?events (lv_identity v) = Some v" for v
    using eff by (simp add: lists_labels_def)
  have vals: "\<forall>v \<in> set (rn_effective r). valid_label v"
    using effective_label_valid [OF valid] member by blast
  have dist: "distinct (map slot (rn_effective r))" using namespace_snapshot_ok [OF vals] r(2) by blast
  have walk: "walk (PDict facts) [''labels'', ''effective'', ''global'', k]
      = Option.bind (map_option the_entry (find (\<lambda>v. slot v = (None, k)) (rn_effective r))) json_normal"
    using r(3) [THEN spec, of "[''global'', k]"] namespace_snapshot_lookup [OF vals r(2), of "(None, k)"]
    by simp
  have entry: "(\<exists>d. json_normal (the_entry v) = Some (PDict d)
        \<and> (\<exists>x q. map_of d ''score'' = Some x \<and> num_val x = Some q \<and> fl_le (Fin t) q))
      \<longleftrightarrow> (\<exists>q. num_val (lv_score v) = Some (Fin q) \<and> t \<le> q)" if "valid_label v" for v
  proof -
    from that obtain q b where q: "py_float_of (lv_score v) = Inr (Fin q)" "lv_activated v = PBool b"
      by (rule valid_label_score)
    then have n: "num_val (lv_score v) = Some (Fin q)" by (cases "lv_score v") (auto split: if_splits)
    have "the_entry v = PDict [(''label_definition_version_id'', PStr (lv_version_id v)),
        (''score'', PFloat (Fin q)), (''activated'', PBool b)]"
      by (simp add: the_entry_def label_entry_def q)
    then show ?thesis by (simp add: n)
  qed
  have "evaluate_condition (score_condition k t) facts \<longleftrightarrow>
      (\<exists>v. find (\<lambda>v. slot v = (None, k)) (rn_effective r) = Some v \<and>
        (\<exists>d. json_normal (the_entry v) = Some (PDict d)
        \<and> (\<exists>x q. map_of d ''score'' = Some x \<and> num_val x = Some q \<and> fl_le (Fin t) q)))"
    unfolding evaluate_score_condition [OF assms(4,6,7,5) r(4)] walk
    by (cases "find (\<lambda>v. slot v = (None, k)) (rn_effective r)") simp_all
  also have "\<dots> \<longleftrightarrow> (\<exists>v \<in> set (rn_effective r). slot v = (None, k) \<and>
      (\<exists>q. num_val (lv_score v) = Some (Fin q) \<and> t \<le> q))"
    unfolding find_key_iff [OF dist] Bex_def conj_assoc
    by (intro ex_cong1 conj_cong refl entry) (simp add: vals)
  also have "\<dots> \<longleftrightarrow> (\<exists>v \<in> set (rn_effective r). lv_target_scope v = ''global'' \<and> lv_label_key v = k \<and>
      (\<exists>q. num_val (lv_score v) = Some (Fin q) \<and> t \<le> q))"
    by (intro bex_cong refl) (simp add: slot_def)
  also have "\<dots> \<longleftrightarrow> (\<exists>i v q. effective_label ?model ?events i = Some v \<and> lv_target_scope v = ''global''
      \<and> lv_label_key v = k \<and> num_val (lv_score v) = Some (Fin q) \<and> t \<le> q)"
    using member effective_label_identity [of ?model ?events] by blast
  finally show ?thesis .
qed

definition sample_snapshot :: routing_snapshot where
  "sample_snapshot = \<lparr>sn_message_id = ''m1'', sn_message = [(''id'', PStr ''m1'')], sn_source_channel = [],
     sn_duplicate_state = [], sn_media = [], sn_review_status = REVIEWED,
     sn_model_assignments = [sample_model], sn_manual_events = [sample_event ''e1'' 5 SET],
     sn_policy = sample_policy, sn_destination_identities = []\<rparr>"

theorem routing_sees_effective_labels_witness:
  "\<exists>facts. build_routing_facts sample_snapshot = Inr facts
    \<and> evaluate_condition (score_condition ''ugc'' (1/2)) facts"
proof -
  have "isl (build_routing_facts sample_snapshot) = False" by code_simp
  then obtain facts where f: "build_routing_facts sample_snapshot = Inr facts"
    by (cases "build_routing_facts sample_snapshot") auto
  have checks: "\<forall>v \<in> set (sn_model_assignments sample_snapshot). check_label_value v = Inr v"
      "\<forall>e \<in> set (sn_manual_events sample_snapshot). check_manual_event e = Inr e"
      "\<not> blank ''ugc''" "CHR ''.'' \<notin> set ''ugc''" "(0 :: rat) \<le> 1/2" "(1/2 :: rat) \<le> 1"
    by code_simp+
  have "effective_label (sn_model_assignments sample_snapshot) (sn_manual_events sample_snapshot)
      (''global'', ''m1'', ''v1'') = Some (event_label (sample_event ''e1'' 5 SET))" by code_simp
  moreover have "lv_target_scope (event_label (sample_event ''e1'' 5 SET)) = ''global''"
      "lv_label_key (event_label (sample_event ''e1'' 5 SET)) = ''ugc''"
      "num_val (lv_score (event_label (sample_event ''e1'' 5 SET))) = Some (Fin 1)" by code_simp+
  moreover have "(1/2 :: rat) \<le> 1" by simp
  ultimately have "\<exists>i v q. effective_label (sn_model_assignments sample_snapshot) (sn_manual_events sample_snapshot) i = Some v
      \<and> lv_target_scope v = ''global'' \<and> lv_label_key v = ''ugc'' \<and> num_val (lv_score v) = Some (Fin q) \<and> 1/2 \<le> q"
    by blast
  with routing_sees_effective_labels [OF f checks] f show ?thesis by blast
qed

end
