(* ===== verification/Uuids.thy ===== *)
theory Uuids
  imports Prelude
begin

text \<open>
  Identifiers.  A UUID of the database is represented by its text \<^verbatim>\<open>str(UUID)\<close>: 32 lower-case
  hexadecimal digits in groups of 8, 4, 4, 4 and 12.  \<open>as_uuid\<close> models \<^verbatim>\<open>_as_uuid\<close> of the
  repositories, \<^verbatim>\<open>UUID(value)\<close> included: the constructor drops \<^verbatim>\<open>urn:\<close>, \<^verbatim>\<open>uuid:\<close>, braces and
  hyphens, requires 32 characters and reads them with \<^verbatim>\<open>int(hex, 16)\<close>, which also takes
  surrounding white space, a plus sign, a \<^verbatim>\<open>0x\<close> prefix and single underscores.
\<close>

type_synonym uuid = string

section \<open>Reading\<close>

definition hex_digit_value :: "char \<Rightarrow> nat option" where
  "hex_digit_value c = (let n = (of_char c :: nat) in
     if 48 \<le> n \<and> n \<le> 57 then Some (n - 48)
     else if 97 \<le> n \<and> n \<le> 102 then Some (n - 87)
     else if 65 \<le> n \<and> n \<le> 70 then Some (n - 55)
     else None)"

text \<open>Digits with single underscores between them.\<close>

fun hex_digits :: "nat \<Rightarrow> string \<Rightarrow> nat option" where
  "hex_digits n [] = Some n"
| "hex_digits n (c # cs) =
     (case hex_digit_value c of
        Some d \<Rightarrow> hex_digits (16 * n + d) cs
      | None \<Rightarrow> if c = CHR ''_'' \<and> cs \<noteq> [] \<and> hd cs \<noteq> CHR ''_'' then hex_digits n cs else None)"

fun hex_prefix :: "string \<Rightarrow> string" where
  "hex_prefix (z # x # CHR ''_'' # s) =
     (if z = CHR ''0'' \<and> x \<in> {CHR ''x'', CHR ''X''} then s else z # x # CHR ''_'' # s)"
| "hex_prefix (z # x # s) = (if z = CHR ''0'' \<and> x \<in> {CHR ''x'', CHR ''X''} then s else z # x # s)"
| "hex_prefix s = s"

text \<open>\<^verbatim>\<open>int(s, 16)\<close> for a text without a minus sign; \<open>None\<close> is its \<^verbatim>\<open>ValueError\<close>.\<close>

definition int_base16 :: "string \<Rightarrow> nat option" where
  "int_base16 s =
     (let t = py_strip s;
          u = (case t of c # cs \<Rightarrow> if c = CHR ''+'' then cs else t | [] \<Rightarrow> t);
          v = hex_prefix u
      in if v = [] \<or> hd v = CHR ''_'' then None else hex_digits 0 v)"

text \<open>\<^verbatim>\<open>s.replace(p, "")\<close> for a non-empty \<^verbatim>\<open>p\<close>.\<close>

function remove_text :: "string \<Rightarrow> string \<Rightarrow> string" where
  "remove_text p s =
     (if s = [] \<or> p = [] then s
      else if take (length p) s = p then remove_text p (drop (length p) s)
      else hd s # remove_text p (tl s))"
  by pat_completeness auto
termination by (relation "measure (\<lambda>(p, s). length s)") auto

declare remove_text.simps [simp del]

definition strip_braces :: "string \<Rightarrow> string" where
  "strip_braces s =
     rev (dropWhile (\<lambda>c. c \<in> {CHR ''{'', CHR ''}''}) (rev (dropWhile (\<lambda>c. c \<in> {CHR ''{'', CHR ''}''}) s)))"

definition uuid_hex :: "string \<Rightarrow> string" where
  "uuid_hex s =
     filter (\<lambda>c. c \<noteq> CHR ''-'') (strip_braces (remove_text ''uuid:'' (remove_text ''urn:'' s)))"

definition parse_uuid :: "string \<Rightarrow> nat option" where
  "parse_uuid s = (if length (uuid_hex s) \<noteq> 32 then None else int_base16 (uuid_hex s))"

section \<open>Writing\<close>

definition hex_char :: "nat \<Rightarrow> char" where
  "hex_char n = (if n < 10 then char_of (48 + n) else char_of (87 + n))"

text \<open>The last \<open>k\<close> hexadecimal digits of a number, as \<^verbatim>\<open>'%032x' % n\<close> prints them.\<close>

fun hex_text :: "nat \<Rightarrow> nat \<Rightarrow> string" where
  "hex_text 0 n = []"
| "hex_text (Suc k) n = hex_text k (n div 16) @ [hex_char (n mod 16)]"

definition group_hex :: "string \<Rightarrow> string" where
  "group_hex h = take 8 h @ ''-'' @ take 4 (drop 8 h) @ ''-'' @ take 4 (drop 12 h) @ ''-''
     @ take 4 (drop 16 h) @ ''-'' @ drop 20 h"

definition uuid_text :: "nat \<Rightarrow> uuid" where
  "uuid_text n = group_hex (hex_text 32 n)"

definition as_uuid :: "string \<Rightarrow> uuid result" where
  "as_uuid s = (case parse_uuid s of Some n \<Rightarrow> Inr (uuid_text n) | None \<Rightarrow> fail ''value must be a UUID'')"

definition optional_uuid :: "string option \<Rightarrow> uuid option result" where
  "optional_uuid v = (case v of None \<Rightarrow> Inr None | Some s \<Rightarrow> try_bind (as_uuid s) (\<lambda>u. Inr (Some u)))"

section \<open>What is written is read back\<close>

definition hex_chars :: "char set" where
  "hex_chars = hex_char ` {..<16}"

lemma hex_char_in: "n < 16 \<Longrightarrow> hex_char n \<in> hex_chars"
  by (simp add: hex_chars_def)

lemma hex_chars_code: "hex_chars = set ''0123456789abcdef''"
  by code_simp

lemma hex_digit_value_char: "n < 16 \<Longrightarrow> hex_digit_value (hex_char n) = Some n"
  by (auto simp: hex_digit_value_def hex_char_def Let_def)

lemma length_hex_text [simp]: "length (hex_text k n) = k"
  by (induction k arbitrary: n) simp_all

lemma set_hex_text: "set (hex_text k n) \<subseteq> hex_chars"
  by (induction k arbitrary: n) (auto simp: hex_char_in)

lemma hex_digits_append:
  "set s \<subseteq> hex_chars \<Longrightarrow> hex_digits n (s @ t) =
     (case hex_digits n s of None \<Rightarrow> None | Some m \<Rightarrow> hex_digits m t)"
proof (induction s arbitrary: n)
  case (Cons c s)
  then obtain d where "hex_digit_value c = Some d"
    by (auto simp: hex_chars_def hex_digit_value_char)
  with Cons show ?case by simp
qed simp

lemma hex_digits_text: "n < 16 ^ k \<Longrightarrow> hex_digits m (hex_text k n) = Some (16 ^ k * m + n)"
proof (induction k arbitrary: n)
  case (Suc k)
  have "n div 16 < 16 ^ k" using Suc.prems by (simp add: less_mult_imp_div_less mult.commute)
  then have ih: "hex_digits m (hex_text k (n div 16)) = Some (16 ^ k * m + n div 16)" by (rule Suc.IH)
  have "hex_digits m (hex_text (Suc k) n) = hex_digits (16 ^ k * m + n div 16) [hex_char (n mod 16)]"
    by (simp add: hex_digits_append [OF set_hex_text] ih)
  also have "\<dots> = Some (16 ^ Suc k * m + n)" by (simp add: hex_digit_value_char)
  finally show ?case .
qed simp

lemma remove_text_absent:
  assumes "p \<noteq> []" and "hd p \<notin> set s"
  shows "remove_text p s = s"
  using assms(2)
proof (induction s)
  case Nil
  then show ?case by (simp add: remove_text.simps)
next
  case (Cons c s)
  have "take (length p) (c # s) \<noteq> p"
    using Cons.prems assms(1) by (cases p) auto
  with Cons assms(1) show ?case by (simp add: remove_text.simps [of p "c # s"])
qed

lemma strip_braces_id:
  assumes "CHR ''{'' \<notin> set s" and "CHR ''}'' \<notin> set s"
  shows "strip_braces s = s"
proof -
  have d: "dropWhile (\<lambda>c. c \<in> {CHR ''{'', CHR ''}''}) t = t" if "set t = set s" for t
    using that assms by (cases t) auto
  show ?thesis by (simp only: strip_braces_def d [OF refl] d [OF set_rev] rev_rev_ident)
qed

lemma set_group_hex: "length h = 32 \<Longrightarrow> set (group_hex h) \<subseteq> insert (CHR ''-'') (set h)"
  by (auto simp: group_hex_def dest: in_set_takeD in_set_dropD)

lemma ungroup_hex:
  assumes "length h = 32" and "set h \<subseteq> hex_chars"
  shows "filter (\<lambda>c. c \<noteq> CHR ''-'') (group_hex h) = h"
proof -
  have "CHR ''-'' \<notin> hex_chars" unfolding hex_chars_code by simp
  then have id: "filter (\<lambda>c. c \<noteq> CHR ''-'') t = t" if "set t \<subseteq> set h" for t
    using that assms(2) by (intro filter_True) blast
  have "filter (\<lambda>c. c \<noteq> CHR ''-'') (group_hex h)
      = take 8 h @ take 4 (drop 8 h) @ take 4 (drop 12 h) @ take 4 (drop 16 h) @ drop 20 h"
    by (simp add: group_hex_def id set_take_subset set_drop_subset
        order_trans [OF set_take_subset set_drop_subset])
  also have "\<dots> = h"
    by (simp flip: append_assoc add: take_add [symmetric])
  finally show ?thesis .
qed

lemma parse_uuid_text:
  assumes "n < 16 ^ 32"
  shows "parse_uuid (uuid_text n) = Some n"
proof -
  let ?h = "hex_text 32 n"
  have h: "length ?h = 32" "set ?h \<subseteq> hex_chars" by (rule length_hex_text, rule set_hex_text)
  have chars: "set (uuid_text n) \<subseteq> insert (CHR ''-'') hex_chars"
    unfolding uuid_text_def using set_group_hex [OF h(1)] h(2) by blast
  have absent: "CHR ''u'' \<notin> set (uuid_text n)" "CHR ''{'' \<notin> set (uuid_text n)" "CHR ''}'' \<notin> set (uuid_text n)"
    using chars unfolding hex_chars_code by auto
  have hex: "uuid_hex (uuid_text n) = ?h"
    by (simp add: uuid_hex_def remove_text_absent strip_braces_id absent)
      (simp add: uuid_text_def ungroup_hex h)
  from h(1) obtain c d cs where cd: "?h = c # d # cs" by (cases ?h; cases "tl ?h") auto
  have inhex: "c \<in> hex_chars" "d \<in> hex_chars" using h(2) cd by auto
  have space: "\<not> py_space x" if "x \<in> hex_chars" for x
    using that unfolding hex_chars_code by (auto simp: py_space_def)
  have "dropWhile py_space ?h = ?h" using cd space inhex by simp
  moreover have "dropWhile py_space (rev ?h) = rev ?h"
  proof (cases "rev ?h")
    case (Cons x xs)
    then have "x \<in> set ?h" by (metis list.set_intros(1) set_rev)
    with Cons h(2) space show ?thesis by auto
  qed simp
  ultimately have "py_strip ?h = ?h" by (simp add: py_strip_def)
  moreover have "hex_prefix ?h = ?h"
  proof -
    have "d \<notin> {CHR ''x'', CHR ''X''}" using inhex(2) unfolding hex_chars_code by auto
    then show ?thesis unfolding cd by (cases "(c # d # cs)" rule: hex_prefix.cases) auto
  qed
  moreover have "c \<noteq> CHR ''+''" "c \<noteq> CHR ''_''" using inhex(1) unfolding hex_chars_code by auto
  ultimately have "int_base16 ?h = hex_digits 0 ?h" by (simp add: int_base16_def cd)
  also have "\<dots> = Some n" using hex_digits_text [OF assms, of 0] by simp
  finally show ?thesis by (simp add: parse_uuid_def hex)
qed

lemma hex_digit_value_bound: "hex_digit_value c = Some d \<Longrightarrow> d < 16"
  by (auto simp: hex_digit_value_def Let_def split: if_splits)

lemma hex_digits_bound: "hex_digits n s = Some m \<Longrightarrow> m < 16 ^ length s * (n + 1)"
proof (induction n s rule: hex_digits.induct)
  case (2 n c cs)
  show ?case
  proof (cases "hex_digit_value c")
    case None
    with 2 have "m < 16 ^ length cs * (n + 1)" by (simp split: if_splits)
    also have "\<dots> \<le> 16 ^ length (c # cs) * (n + 1)" by simp
    finally show ?thesis .
  next
    case (Some d)
    with 2 have "m < 16 ^ length cs * (16 * n + d + 1)" by simp
    also have "\<dots> \<le> 16 ^ length cs * (16 * (n + 1))"
      using hex_digit_value_bound [OF Some] by (intro mult_le_mono2) simp
    also have "\<dots> = 16 ^ length (c # cs) * (n + 1)" by (simp add: algebra_simps)
    finally show ?thesis .
  qed
qed simp

lemma length_hex_prefix: "length (hex_prefix s) \<le> length s"
  by (cases s rule: hex_prefix.cases) auto

lemma length_py_strip: "length (py_strip s) \<le> length s"
  by (metis (no_types, lifting) length_dropWhile_le length_rev order_trans py_strip_def)

lemma parse_uuid_bound:
  assumes "parse_uuid s = Some n"
  shows "n < 16 ^ 32"
proof -
  let ?t = "py_strip (uuid_hex s)"
  let ?u = "(case ?t of c # cs \<Rightarrow> if c = CHR ''+'' then cs else ?t | [] \<Rightarrow> ?t)"
  from assms have len: "length (uuid_hex s) = 32" and v: "hex_digits 0 (hex_prefix ?u) = Some n"
    by (auto simp: parse_uuid_def int_base16_def Let_def split: if_splits)
  have "length ?u \<le> length ?t" by (auto split: list.splits)
  then have "length (hex_prefix ?u) \<le> 32"
    using length_hex_prefix [of ?u] length_py_strip [of "uuid_hex s"] len by linarith
  then have "(16 :: nat) ^ length (hex_prefix ?u) \<le> 16 ^ 32" by (intro power_increasing) simp_all
  with hex_digits_bound [OF v] show ?thesis by simp
qed

lemma as_uuid_canonical:
  assumes "as_uuid s = Inr u"
  shows "as_uuid u = Inr u"
proof -
  from assms obtain n where n: "parse_uuid s = Some n" "u = uuid_text n"
    by (auto simp: as_uuid_def split: option.splits)
  show ?thesis by (simp only: as_uuid_def n(2) parse_uuid_text [OF parse_uuid_bound [OF n(1)]] option.case)
qed

lemma as_uuid_not_blank: "as_uuid s = Inr u \<Longrightarrow> \<not> blank u"
proof -
  assume "as_uuid s = Inr u"
  then obtain n where "u = uuid_text n" by (auto simp: as_uuid_def split: option.splits)
  then have "CHR ''-'' \<in> set u" by (simp add: uuid_text_def group_hex_def)
  moreover have "\<not> py_space (CHR ''-'')" by code_simp
  ultimately show ?thesis by (auto simp: blank_iff)
qed

end
