(* ===== verification/Message_Tables.thy ===== *)
theory Message_Tables
  imports Uuids Py_Values Review_Labels
begin

text \<open>
  The tables of source channels, messages, message parts, image and video assets and of analysis
  results, \<^verbatim>\<open>infrastructure/database/models.py\<close>, with the text of their timestamps.  Ingestion,
  reconciliation, the media archive, analysis and routing work on these rows.

  A timestamp column is an instant in microseconds since 1970-01-01 UTC; the driver returns it in
  UTC.  A JSONB column is the value it decodes to.
\<close>

section \<open>Timestamps as text\<close>

fun digit_char :: "nat \<Rightarrow> char" where
  "digit_char n = char_of (48 + n mod 10)"

text \<open>The last \<open>k\<close> decimal digits of a number.\<close>

fun digits_text :: "nat \<Rightarrow> nat \<Rightarrow> string" where
  "digits_text 0 n = []"
| "digits_text (Suc k) n = digits_text k (n div 10) @ [digit_char n]"

text \<open>Year, month and day of the day with a given number since 1970-01-01 (Gregorian).\<close>

definition civil_date :: "int \<Rightarrow> int \<times> int \<times> int" where
  "civil_date days =
     (let z = days + 719468;
          era = z div 146097;
          doe = z mod 146097;
          yoe = (doe - doe div 1460 + doe div 36524 - doe div 146096) div 365;
          doy = doe - (365 * yoe + yoe div 4 - yoe div 100);
          mp = (5 * doy + 2) div 153;
          d = doy - (153 * mp + 2) div 5 + 1;
          m = (if mp < 10 then mp + 3 else mp - 9)
      in (yoe + era * 400 + (if m \<le> 2 then 1 else 0), m, d))"

text \<open>\<^verbatim>\<open>isoformat()\<close> of an instant in UTC: the fraction is printed only when it is not zero.\<close>

definition utc_isoformat :: "int \<Rightarrow> string" where
  "utc_isoformat t =
     (let day = t div 86400000000; rest = t mod 86400000000;
          (y, m, d) = civil_date day;
          secs = rest div 1000000; micros = rest mod 1000000
      in digits_text 4 (nat y) @ ''-'' @ digits_text 2 (nat m) @ ''-'' @ digits_text 2 (nat d) @ ''T''
         @ digits_text 2 (nat (secs div 3600)) @ '':'' @ digits_text 2 (nat (secs div 60 mod 60)) @ '':''
         @ digits_text 2 (nat (secs mod 60))
         @ (if micros = 0 then [] else ''.'' @ digits_text 6 (nat micros)) @ ''+00:00'')"

definition datetime_text :: "int option \<Rightarrow> pyval" where
  "datetime_text t = (case t of None \<Rightarrow> PNone | Some i \<Rightarrow> PStr (utc_isoformat i))"

lemma utc_isoformat_examples:
  "utc_isoformat 0 = ''1970-01-01T00:00:00+00:00''"
  "utc_isoformat 1709251199000001 = ''2024-02-29T23:59:59.000001+00:00''"
  by code_simp+

text \<open>Optional columns as JSON values.\<close>

definition opt_str :: "string option \<Rightarrow> pyval" where
  "opt_str v = (case v of None \<Rightarrow> PNone | Some s \<Rightarrow> PStr s)"

definition opt_int :: "int option \<Rightarrow> pyval" where
  "opt_int v = (case v of None \<Rightarrow> PNone | Some i \<Rightarrow> PInt i)"

section \<open>Channels, messages and parts\<close>

record channel_row =
  ch_id :: uuid
  ch_telegram_peer_id :: int
  ch_username :: "string option"
  ch_display_name :: string
  ch_default_read_identity_id :: uuid
  ch_active_profile_version_id :: "uuid option"
  ch_enabled :: bool
  ch_last_activity_at :: "int option"
  ch_latest_seen_message_id :: "int option"
  ch_last_seen_message_id :: "int option"
  ch_updated_at :: int

record message_row =
  ms_id :: uuid
  ms_source_channel_id :: uuid
  ms_telegram_message_ids :: "int list"
  ms_telegram_grouped_id :: "int option"
  ms_primary_telegram_message_id :: int
  ms_published_at :: int
  ms_edited_at :: "int option"
  ms_original_text :: "string option"
  ms_telegram_metadata :: "(string, pyval) dict"
  ms_processing_status :: string
  ms_review_status :: review_status
  ms_media_count :: nat
  ms_visual_fingerprint :: "string option"
  ms_source_changed_after_processing :: bool
  ms_source_deleted :: bool
  ms_source_deleted_at :: "int option"
  ms_blocked_from_analysis :: bool
  ms_blocked_at :: "int option"
  ms_blocked_by_stage_run_id :: "uuid option"
  ms_blocked_by_label_assignment_id :: "uuid option"
  ms_updated_at :: int

record message_part_row =
  mp_id :: uuid
  mp_message_id :: uuid
  mp_source_channel_id :: uuid
  mp_telegram_message_id :: int
  mp_published_at :: int
  mp_edited_at :: "int option"
  mp_original_text :: "string option"
  mp_telegram_metadata :: "(string, pyval) dict"
  mp_media :: "pyval list"
  mp_media_count :: nat
  mp_updated_at :: int

section \<open>Media assets\<close>

datatype archive_state = A_PENDING | A_PROCESSING | A_RETRY_WAIT | A_READY | A_DELETED | A_FAILED

fun archive_state_value :: "archive_state \<Rightarrow> string" where
  "archive_state_value A_PENDING = ''pending''"
| "archive_state_value A_PROCESSING = ''processing''"
| "archive_state_value A_RETRY_WAIT = ''retry_wait''"
| "archive_state_value A_READY = ''ready''"
| "archive_state_value A_DELETED = ''deleted''"
| "archive_state_value A_FAILED = ''failed''"

text \<open>The columns that images and videos share: identity, source and archive lifecycle.\<close>

record asset_columns =
  as_id :: uuid
  as_message_id :: uuid
  as_source_asset_id :: string
  as_source_telegram_message_id :: "int option"
  as_state :: archive_state
  as_attempt_count :: int
  as_max_attempts :: int
  as_next_retry_at :: "int option"
  as_lease_token :: "uuid option"
  as_lease_expires_at :: "int option"
  as_last_error_code :: "string option"
  as_last_error_type :: "string option"
  as_last_failure_at :: "int option"
  as_ready_at :: "int option"
  as_deleted_at :: "int option"
  as_source_sha256 :: "string option"
  as_updated_at :: int

record image_asset_row = asset_columns +
  im_source_phash :: "string option"
  im_perceptual_hash :: "string option"
  im_storage_backend :: "string option"
  im_storage_key :: "string option"
  im_content_type :: "string option"
  im_width :: "int option"
  im_height :: "int option"
  im_archive_sha256 :: "string option"
  im_archive_size_bytes :: "int option"

record video_asset_row = asset_columns +
  vi_source_cover_phash :: "string option"
  vi_source_content_type :: "string option"
  vi_source_size_bytes :: "int option"
  vi_duration_seconds :: "py_float option"
  vi_source_width :: "int option"
  vi_source_height :: "int option"

section \<open>Analysis results\<close>

record analysis_run_row =
  an_id :: uuid
  an_message_id :: uuid
  an_pipeline_version_id :: uuid
  an_run_mode :: string
  an_status :: string
  an_facts_snapshot :: "(string, pyval) dict"
  an_last_error_code :: "string option"
  an_last_error_type :: "string option"
  an_started_at :: "int option"
  an_completed_at :: "int option"
  an_created_at :: int
  an_updated_at :: int

record model_label_row =
  ml_id :: uuid
  ml_stage_run_id :: uuid
  ml_analysis_run_id :: uuid
  ml_message_id :: uuid
  ml_target_scope :: string
  ml_target_kind :: string
  ml_target_id :: uuid
  ml_image_asset_id :: "uuid option"
  ml_video_asset_id :: "uuid option"
  ml_label_definition_version_id :: uuid
  ml_label_key :: string
  ml_score :: py_float
  ml_activated :: bool
  ml_negative :: bool
  ml_reason :: "string option"
  ml_evidence :: "string list"
  ml_created_at :: int

end
