(* ===== verification/Review_Store.thy ===== *)
theory Review_Store
  imports Review_Labels Uuids
begin

text \<open>
  The review tables and their transactions: \<^verbatim>\<open>infrastructure/database/review_repository.py\<close> and
  the service over them, \<^verbatim>\<open>application/review/service.py\<close>.  Manual labels and review events are
  only ever appended; the review status of a message is the one mutable column.
\<close>

section \<open>Tables\<close>

text \<open>The columns that the review transactions read or write.\<close>

record review_message_row =
  vm_id :: uuid
  vm_review_status :: review_status
  vm_updated_at :: datetime

record label_version_row =
  vl_id :: uuid
  vl_key :: string
  vl_scope :: string
  vl_state :: string
  vl_enabled :: bool

record asset_row =
  va_id :: uuid
  va_message_id :: uuid

text \<open>
  The rows of \<^verbatim>\<open>manual_label_assignments\<close> and \<^verbatim>\<open>message_review_events\<close> have the columns of the
  events, with UUIDs for the identifiers.
\<close>

type_synonym manual_row = manual_label_event
type_synonym review_row = message_review_event

record review_database =
  rv_messages :: "review_message_row list"
  rv_label_versions :: "label_version_row list"
  rv_images :: "asset_row list"
  rv_videos :: "asset_row list"
  rv_admins :: "uuid list"
  rv_labels :: "manual_row list"
  rv_events :: "review_row list"

section \<open>Manual labels\<close>

definition lock_message :: "uuid \<Rightarrow> review_database \<Rightarrow> review_message_row result" where
  "lock_message u db =
     (case find (\<lambda>m. vm_id m = u) (rv_messages db) of
        None \<Rightarrow> fail ''message does not exist'' | Some m \<Rightarrow> Inr m)"

definition validate_label_version :: "manual_label_event \<Rightarrow> label_version_row option \<Rightarrow> unit result" where
  "validate_label_version e version =
     (case version of
        None \<Rightarrow> fail ''label definition version does not exist''
      | Some l \<Rightarrow>
          if vl_state l \<noteq> ''published'' \<or> \<not> vl_enabled l
          then fail ''manual labels require an enabled published label version''
          else if vl_key l \<noteq> me_label_key e
          then fail ''label key does not match label definition version''
          else if vl_scope l \<noteq> me_target_scope e
          then fail ''label scope does not match manual label target''
          else Inr ())"

definition validate_media_target ::
  "manual_label_event \<Rightarrow> uuid \<Rightarrow> review_database \<Rightarrow> unit result" where
  "validate_media_target e message_id db =
     (if me_target_kind e = ''message'' then Inr ()
      else try_bind (as_uuid (me_target_id e)) (\<lambda>target.
        let table = (if me_target_kind e = ''image_asset'' then rv_images db else rv_videos db) in
        if \<exists>a \<in> set table. va_id a = target \<and> va_message_id a = message_id then Inr ()
        else fail ''manual label media target does not belong to message''))"

text \<open>\<^verbatim>\<open>float(event.score) if event.score is not None else None\<close>.\<close>

definition stored_score :: "pyval \<Rightarrow> pyval result" where
  "stored_score v = (if v = PNone then Inr PNone else try_bind (py_float_of v) (\<lambda>f. Inr (PFloat f)))"

definition manual_record :: "manual_label_event \<Rightarrow> uuid \<Rightarrow> uuid \<Rightarrow> manual_row result" where
  "manual_record e message_id version_id =
     try_bind (as_uuid (me_event_id e)) (\<lambda>event_id.
     try_bind (as_uuid (me_target_id e)) (\<lambda>target_id.
     try_bind (optional_uuid (me_image_asset_id e)) (\<lambda>image_id.
     try_bind (optional_uuid (me_video_asset_id e)) (\<lambda>video_id.
     try_bind (stored_score (me_score e)) (\<lambda>score.
     try_bind (as_uuid (me_actor e)) (\<lambda>actor.
       Inr (e\<lparr>me_event_id := event_id, me_message_id := message_id, me_target_id := target_id,
              me_image_asset_id := image_id, me_video_asset_id := video_id,
              me_version_id := version_id, me_score := score, me_actor := actor\<rparr>)))))))"

text \<open>
  The transaction.  The insert is flushed at commit; a second row with the id of an earlier one
  or an unknown actor violates a constraint.  An error rolls the transaction back.
\<close>

definition append_manual_label ::
  "manual_label_event \<Rightarrow> review_database \<Rightarrow> (manual_label_event \<times> review_database) result" where
  "append_manual_label e db =
     try_bind (as_uuid (me_message_id e)) (\<lambda>message_id.
     try_bind (as_uuid (me_version_id e)) (\<lambda>version_id.
     try_bind (lock_message message_id db) (\<lambda>message.
     try_bind (validate_label_version e (find (\<lambda>l. vl_id l = version_id) (rv_label_versions db))) (\<lambda>_.
     try_bind (validate_media_target e (vm_id message) db) (\<lambda>_.
     try_bind (manual_record e (vm_id message) version_id) (\<lambda>row.
       if me_event_id row \<in> me_event_id ` set (rv_labels db) \<or> me_actor row \<notin> set (rv_admins db)
       then Inl IntegrityError
       else Inr (e, db\<lparr>rv_labels := rv_labels db @ [row]\<rparr>)))))))"

section \<open>Review status\<close>

definition review_record :: "message_review_event \<Rightarrow> uuid \<Rightarrow> review_row result" where
  "review_record e message_id =
     try_bind (as_uuid (mr_event_id e)) (\<lambda>event_id.
     try_bind (as_uuid (mr_actor e)) (\<lambda>actor.
       Inr (e\<lparr>mr_event_id := event_id, mr_message_id := message_id, mr_actor := actor\<rparr>)))"

definition set_review_status :: "uuid \<Rightarrow> review_status \<Rightarrow> datetime \<Rightarrow> review_database \<Rightarrow> review_database" where
  "set_review_status u st t db =
     db\<lparr>rv_messages := update_where (\<lambda>m. vm_id m = u)
         (\<lambda>m. m\<lparr>vm_review_status := st, vm_updated_at := t\<rparr>) (rv_messages db)\<rparr>"

definition transition_review_status ::
  "string \<Rightarrow> string \<Rightarrow> review_status \<Rightarrow> string \<Rightarrow> datetime \<Rightarrow> string option \<Rightarrow> review_database \<Rightarrow>
     (message_review_event \<times> review_database) result" where
  "transition_review_status event_id message_id new_status actor created_at reason db =
     try_bind (as_uuid message_id) (\<lambda>u.
     try_bind (lock_message u db) (\<lambda>message.
     try_bind (check_review_event
        \<lparr>mr_event_id = event_id, mr_message_id = message_id, mr_old_status = vm_review_status message,
         mr_new_status = new_status, mr_actor = actor, mr_created_at = created_at, mr_reason = reason\<rparr>) (\<lambda>event.
     try_bind (review_record event (vm_id message)) (\<lambda>row.
       if mr_event_id row \<in> mr_event_id ` set (rv_events db) \<or> mr_actor row \<notin> set (rv_admins db)
       then Inl IntegrityError
       else Inr (event, (set_review_status (vm_id message) new_status created_at db)
              \<lparr>rv_events := rv_events db @ [row]\<rparr>)))))"

section \<open>Histories\<close>

definition list_manual_label_history ::
  "string \<Rightarrow> review_database \<Rightarrow> manual_label_event list result" where
  "list_manual_label_history message_id db =
     try_bind (as_uuid message_id) (\<lambda>u.
       traverse check_manual_event
         (sort_key event_order (filter (\<lambda>r. me_message_id r = u) (rv_labels db))))"

definition list_review_history ::
  "string \<Rightarrow> review_database \<Rightarrow> message_review_event list result" where
  "list_review_history message_id db =
     try_bind (as_uuid message_id) (\<lambda>u.
       traverse check_review_event
         (sort_key (\<lambda>r. (instant (mr_created_at r), mr_event_id r))
           (filter (\<lambda>r. mr_message_id r = u) (rv_events db))))"

section \<open>The service\<close>

text \<open>
  \<open>fresh\<close> and \<open>now\<close> are what the id factory and the clock of the service return; an absent or
  empty event id is replaced, as is an absent time.  \<open>e\<close> holds the other arguments.
\<close>

definition chosen_id :: "string option \<Rightarrow> string \<Rightarrow> string" where
  "chosen_id given fresh = (case given of None \<Rightarrow> fresh | Some s \<Rightarrow> if s = [] then fresh else s)"

definition chosen_time :: "datetime option \<Rightarrow> datetime \<Rightarrow> datetime" where
  "chosen_time given now = (case given of None \<Rightarrow> now | Some t \<Rightarrow> t)"

record label_target =
  lt_message_id :: string
  lt_scope :: string
  lt_kind :: string
  lt_target_id :: string
  lt_version_id :: string
  lt_label_key :: string
  lt_image_asset_id :: "string option"
  lt_video_asset_id :: "string option"

definition append_label ::
  "string \<Rightarrow> datetime \<Rightarrow> string option \<Rightarrow> datetime option \<Rightarrow> label_target \<Rightarrow> manual_label_operation \<Rightarrow>
     pyval \<Rightarrow> pyval \<Rightarrow> string \<Rightarrow> string option \<Rightarrow> review_database \<Rightarrow>
     (manual_label_event \<times> review_database) result" where
  "append_label fresh now event_id created_at t operation score activated actor reason db =
     try_bind (check_manual_event
       \<lparr>me_event_id = chosen_id event_id fresh, me_message_id = lt_message_id t, me_target_scope = lt_scope t,
        me_target_kind = lt_kind t, me_target_id = lt_target_id t, me_version_id = lt_version_id t,
        me_label_key = lt_label_key t, me_operation = operation, me_actor = actor,
        me_created_at = chosen_time created_at now, me_score = score, me_activated = activated,
        me_image_asset_id = lt_image_asset_id t, me_video_asset_id = lt_video_asset_id t,
        me_reason = reason\<rparr>) (\<lambda>event.
     append_manual_label event db)"

definition set_label ::
  "string \<Rightarrow> datetime \<Rightarrow> string option \<Rightarrow> datetime option \<Rightarrow> label_target \<Rightarrow> pyval \<Rightarrow> pyval \<Rightarrow>
     string \<Rightarrow> string option \<Rightarrow> review_database \<Rightarrow> (manual_label_event \<times> review_database) result" where
  "set_label fresh now event_id created_at t score activated actor reason db =
     append_label fresh now event_id created_at t SET score activated actor reason db"

definition clear_label ::
  "string \<Rightarrow> datetime \<Rightarrow> string option \<Rightarrow> datetime option \<Rightarrow> label_target \<Rightarrow>
     string \<Rightarrow> string option \<Rightarrow> review_database \<Rightarrow> (manual_label_event \<times> review_database) result" where
  "clear_label fresh now event_id created_at t actor reason db =
     append_label fresh now event_id created_at t CLEAR PNone PNone actor reason db"

definition transition_status ::
  "string \<Rightarrow> datetime \<Rightarrow> string option \<Rightarrow> datetime option \<Rightarrow> string \<Rightarrow> review_status \<Rightarrow>
     string \<Rightarrow> string option \<Rightarrow> review_database \<Rightarrow> (message_review_event \<times> review_database) result" where
  "transition_status fresh now event_id created_at message_id new_status actor reason db =
     transition_review_status (chosen_id event_id fresh) message_id new_status actor
       (chosen_time created_at now) reason db"

section \<open>Steps of the review tables\<close>

text \<open>
  Besides the two transactions, ingestion adds messages as unreviewed, and administrators and
  label versions appear; none of these touches the histories.
\<close>

inductive review_step :: "review_database \<Rightarrow> review_database \<Rightarrow> bool" where
  label: "check_manual_event e = Inr e \<Longrightarrow> append_manual_label e db = Inr (e', db') \<Longrightarrow> review_step db db'"
| transition: "transition_review_status eid mid st actor t reason db = Inr (e, db') \<Longrightarrow> review_step db db'"
| message: "vm_id m \<notin> vm_id ` set (rv_messages db) \<Longrightarrow> vm_review_status m = UNREVIEWED \<Longrightarrow>
    as_uuid (vm_id m) = Inr (vm_id m) \<Longrightarrow>
    review_step db (db\<lparr>rv_messages := rv_messages db @ [m]\<rparr>)"
| configure: "review_step db (db\<lparr>rv_label_versions := lvs, rv_images := is, rv_videos := vs, rv_admins := as\<rparr>)"

inductive review_reachable :: "review_database \<Rightarrow> bool" where
  start: "rv_messages db = [] \<Longrightarrow> rv_labels db = [] \<Longrightarrow> rv_events db = [] \<Longrightarrow> review_reachable db"
| step: "review_reachable db \<Longrightarrow> review_step db db' \<Longrightarrow> review_reachable db'"

text \<open>Transitions that lead from one status to another, each by a change.\<close>

fun status_chain :: "review_status \<Rightarrow> review_row list \<Rightarrow> review_status \<Rightarrow> bool" where
  "status_chain s [] t = (s = t)"
| "status_chain s (e # es) t = (mr_old_status e = s \<and> mr_new_status e \<noteq> s \<and> status_chain (mr_new_status e) es t)"

definition message_ok :: "review_row list \<Rightarrow> review_message_row \<Rightarrow> bool" where
  "message_ok events m \<longleftrightarrow> as_uuid (vm_id m) = Inr (vm_id m) \<and>
     status_chain UNREVIEWED (filter (\<lambda>r. mr_message_id r = vm_id m) events) (vm_review_status m)"

definition review_ok :: "review_database \<Rightarrow> bool" where
  "review_ok db \<longleftrightarrow>
     distinct (map vm_id (rv_messages db))
     \<and> (\<forall>r \<in> set (rv_labels db). check_manual_event r = Inr r)
     \<and> (\<forall>r \<in> set (rv_events db). check_review_event r = Inr r)
     \<and> distinct (map me_event_id (rv_labels db)) \<and> distinct (map mr_event_id (rv_events db))
     \<and> (\<forall>r \<in> set (rv_labels db). me_message_id r \<in> vm_id ` set (rv_messages db))
     \<and> (\<forall>r \<in> set (rv_events db). mr_message_id r \<in> vm_id ` set (rv_messages db))
     \<and> (\<forall>m \<in> set (rv_messages db). message_ok (rv_events db) m)"

lemma status_chain_snoc:
  "status_chain s (es @ [e]) t \<longleftrightarrow> status_chain s es (mr_old_status e) \<and> mr_new_status e \<noteq> mr_old_status e
     \<and> mr_new_status e = t"
  by (induction es arbitrary: s) auto

lemma lock_message_Inr [result_simps]:
  "lock_message u db = Inr m \<longleftrightarrow> find (\<lambda>m. vm_id m = u) (rv_messages db) = Some m"
  by (auto simp: lock_message_def split: option.splits)

lemma append_manual_labelE:
  assumes "append_manual_label e db = Inr (e', db')"
  obtains u l row m where "e' = e" "as_uuid (me_message_id e) = Inr u" "as_uuid (me_version_id e) = Inr l"
    "m \<in> set (rv_messages db)" "vm_id m = u"
    "validate_label_version e (find (\<lambda>v. vl_id v = l) (rv_label_versions db)) = Inr ()"
    "manual_record e u l = Inr row" "me_event_id row \<notin> me_event_id ` set (rv_labels db)"
    "db' = db\<lparr>rv_labels := rv_labels db @ [row]\<rparr>"
proof -
  from assms obtain u l m row where "as_uuid (me_message_id e) = Inr u" "as_uuid (me_version_id e) = Inr l"
      "find (\<lambda>m. vm_id m = u) (rv_messages db) = Some m"
      "validate_label_version e (find (\<lambda>v. vl_id v = l) (rv_label_versions db)) = Inr ()"
      "manual_record e (vm_id m) l = Inr row" "me_event_id row \<notin> me_event_id ` set (rv_labels db)"
      "e' = e" "db' = db\<lparr>rv_labels := rv_labels db @ [row]\<rparr>"
    unfolding append_manual_label_def by (auto simp: result_simps split: if_splits)
  moreover from this(3) have "m \<in> set (rv_messages db)" "vm_id m = u" by (auto dest: find_key_Some)
  ultimately show thesis using that by blast
qed

lemma check_review_event_same: "check_review_event x = Inr y \<Longrightarrow> y = x"
  by (auto simp: check_review_event_def result_simps split: if_splits)

lemma transitionE:
  assumes "transition_review_status eid mid st actor t reason db = Inr (e, db')"
  obtains u m row where "as_uuid mid = Inr u" "m \<in> set (rv_messages db)" "vm_id m = u"
    "check_review_event e = Inr e"
    "mr_old_status e = vm_review_status m" "mr_new_status e = st" "mr_message_id e = mid" "mr_created_at e = t"
    "review_record e u = Inr row" "mr_event_id row \<notin> mr_event_id ` set (rv_events db)"
    "db' = (set_review_status u st t db)\<lparr>rv_events := rv_events db @ [row]\<rparr>"
proof -
  from assms obtain u m row where r: "as_uuid mid = Inr u"
      "find (\<lambda>m. vm_id m = u) (rv_messages db) = Some m"
      "check_review_event \<lparr>mr_event_id = eid, mr_message_id = mid, mr_old_status = vm_review_status m,
         mr_new_status = st, mr_actor = actor, mr_created_at = t, mr_reason = reason\<rparr> = Inr e"
      "review_record e (vm_id m) = Inr row" "mr_event_id row \<notin> mr_event_id ` set (rv_events db)"
      "db' = (set_review_status (vm_id m) st t db)\<lparr>rv_events := rv_events db @ [row]\<rparr>"
    unfolding transition_review_status_def by (auto simp: result_simps split: if_splits)
  from check_review_event_same [OF r(3)] have e: "e = \<lparr>mr_event_id = eid, mr_message_id = mid,
      mr_old_status = vm_review_status m, mr_new_status = st, mr_actor = actor, mr_created_at = t,
      mr_reason = reason\<rparr>" .
  have m: "m \<in> set (rv_messages db)" "vm_id m = u" using r(2) by (auto dest: find_key_Some)
  have c: "check_review_event e = Inr e" using r(3) by (simp only: e)
  show thesis
    by (rule that [OF r(1) m c _ _ _ _ r(4) [unfolded m(2)] r(5) r(6) [unfolded m(2)]]) (simp_all add: e)
qed

lemma stored_score_valid:
  assumes "valid_label v" and "stored_score (lv_score v) = Inr s"
  shows "valid_label (v\<lparr>lv_score := s\<rparr>)"
proof -
  from assms(1) obtain q b where q: "py_float_of (lv_score v) = Inr (Fin q)" "0 \<le> q" "q \<le> 1"
      "lv_activated v = PBool b" "lv_score v \<noteq> PNone" by (rule valid_label_score)
  with assms(2) have "s = PFloat (Fin q)" by (simp add: stored_score_def)
  with assms(1) q show ?thesis
    by (auto simp: valid_label_def check_label_value_def result_simps is_number_def split: if_splits)
qed

lemma check_label_value_cong:
  assumes "valid_label v" and "validate_target_identity (lv_message_id w) (lv_target_scope w)
      (lv_target_kind w) (lv_target_id w) (lv_image_asset_id w) (lv_video_asset_id w) = Inr ()"
    and "\<not> blank (lv_version_id w)" and "lv_label_key w = lv_label_key v" and "lv_score w = lv_score v"
    and "lv_activated w = lv_activated v"
  shows "valid_label w"
  using assms by (auto simp: valid_label_def check_label_value_def result_simps require_nonblank_def
      split: if_splits pyval.splits)

text \<open>Canonical identifiers keep a target identity consistent.\<close>

lemma canonical_target:
  assumes "validate_target_identity mid scope kind target im vi = Inr ()"
    and "as_uuid mid = Inr mid'" and "as_uuid target = Inr target'"
    and "optional_uuid im = Inr im'" and "optional_uuid vi = Inr vi'"
  shows "validate_target_identity mid' scope kind target' im' vi' = Inr ()"
  using assms as_uuid_not_blank [OF assms(2)] as_uuid_not_blank [OF assms(3)]
  by (auto simp: validate_target_identity_def result_simps require_nonblank_def Let_def
      optional_uuid_def split: if_splits option.splits)

lemma manual_row_valid:
  assumes "check_manual_event e = Inr e" and "as_uuid (me_message_id e) = Inr u"
    and "as_uuid (me_version_id e) = Inr l" and "manual_record e u l = Inr row"
  shows "check_manual_event row = Inr row"
proof -
  from assms(4) obtain eid target im vi s actor where f: "as_uuid (me_event_id e) = Inr eid"
      "as_uuid (me_target_id e) = Inr target" "optional_uuid (me_image_asset_id e) = Inr im"
      "optional_uuid (me_video_asset_id e) = Inr vi" "stored_score (me_score e) = Inr s"
      "as_uuid (me_actor e) = Inr actor"
      and row: "row = e\<lparr>me_event_id := eid, me_message_id := u, me_target_id := target,
        me_image_asset_id := im, me_video_asset_id := vi, me_version_id := l, me_score := s, me_actor := actor\<rparr>"
    by (auto simp: manual_record_def result_simps)
  have target: "validate_target_identity u (me_target_scope e) (me_target_kind e) target im vi = Inr ()"
    using assms(1) by (intro canonical_target [OF _ assms(2) f(2,3,4)])
      (auto simp: check_manual_event_def result_simps)
  note nb = as_uuid_not_blank [OF f(1)] as_uuid_not_blank [OF assms(3)] as_uuid_not_blank [OF f(6)]
  show ?thesis
  proof (cases "me_operation e = CLEAR")
    case True
    with assms(1) f(5) have "s = PNone" "me_activated e = PNone"
      by (auto simp: check_manual_event_def result_simps stored_score_def split: if_splits)
    with True assms(1) target nb show ?thesis
      by (auto simp: row check_manual_event_def result_simps require_nonblank_def split: if_splits)
  next
    case False
    with assms(1) have v: "valid_label (event_label e)"
      by (intro valid_set_event) (auto simp: valid_event_def intro: manual_label_operation.exhaust)
    have "valid_label ((event_label e)\<lparr>lv_score := s\<rparr>)"
      by (rule stored_score_valid [OF v]) (simp add: event_label_def f(5))
    then have "valid_label (event_label row)"
      by (rule check_label_value_cong) (simp_all add: row event_label_def target nb)
    with False assms(1) target nb show ?thesis
      by (auto simp: row check_manual_event_def result_simps require_nonblank_def valid_label_def split: if_splits)
  qed
qed

lemma review_row_valid:
  assumes "check_review_event e = Inr e" and "as_uuid (mr_message_id e) = Inr u" and "review_record e u = Inr row"
  shows "check_review_event row = Inr row" and "mr_message_id row = u"
    and "mr_old_status row = mr_old_status e" and "mr_new_status row = mr_new_status e"
proof -
  from assms(3) obtain eid actor where f: "as_uuid (mr_event_id e) = Inr eid" "as_uuid (mr_actor e) = Inr actor"
      and row: "row = e\<lparr>mr_event_id := eid, mr_message_id := u, mr_actor := actor\<rparr>"
    by (auto simp: review_record_def result_simps)
  show "mr_message_id row = u" "mr_old_status row = mr_old_status e" "mr_new_status row = mr_new_status e"
    by (simp_all add: row)
  show "check_review_event row = Inr row"
    using assms(1) as_uuid_not_blank [OF f(1)] as_uuid_not_blank [OF f(2)] as_uuid_not_blank [OF assms(2)]
    by (auto simp: row check_review_event_def as_transition_def check_review_transition_def result_simps
        require_nonblank_def split: if_splits)
qed

lemma manual_row_message: "manual_record e u l = Inr row \<Longrightarrow> me_message_id row = u"
  by (auto simp: manual_record_def result_simps)

lemma review_ok_append:
  assumes "review_ok db" and "check_manual_event e = Inr e" and "append_manual_label e db = Inr (e', db')"
  shows "review_ok db'"
proof -
  from assms(3) obtain u l row m where r: "as_uuid (me_message_id e) = Inr u" "as_uuid (me_version_id e) = Inr l"
      "m \<in> set (rv_messages db)" "vm_id m = u" "manual_record e u l = Inr row"
      "me_event_id row \<notin> me_event_id ` set (rv_labels db)"
      and db': "db' = db\<lparr>rv_labels := rv_labels db @ [row]\<rparr>"
    by (rule append_manual_labelE)
  have "check_manual_event row = Inr row" by (rule manual_row_valid [OF assms(2) r(1,2,5)])
  moreover have "me_message_id row \<in> vm_id ` set (rv_messages db)"
    using r(3,4) manual_row_message [OF r(5)] by auto
  ultimately show ?thesis using assms(1) r(6) by (simp add: review_ok_def db')
qed

lemma review_ok_transition:
  assumes "review_ok db" and "transition_review_status eid mid st actor t reason db = Inr (e, db')"
  shows "review_ok db'"
proof -
  from assms(2) obtain u m row where r: "as_uuid mid = Inr u" "m \<in> set (rv_messages db)" "vm_id m = u"
      "check_review_event e = Inr e" "mr_old_status e = vm_review_status m" "mr_new_status e = st"
      "mr_message_id e = mid" "review_record e u = Inr row" "mr_event_id row \<notin> mr_event_id ` set (rv_events db)"
      and db': "db' = (set_review_status u st t db)\<lparr>rv_events := rv_events db @ [row]\<rparr>"
    by (rule transitionE)
  note row = review_row_valid [OF r(4) r(1) [folded r(7)] r(8)]
  have changed: "mr_new_status row \<noteq> mr_old_status row"
    using row(1) by (auto simp: check_review_event_def as_transition_def check_review_transition_def
        result_simps split: if_splits)
  have ids: "map vm_id (rv_messages db') = map vm_id (rv_messages db)"
    by (simp add: db' set_review_status_def map_update_where)
  have img: "vm_id ` set (rv_messages db') = vm_id ` set (rv_messages db)"
    using ids by (metis set_map)
  have "message_ok (rv_events db') x" if "x \<in> set (rv_messages db')" for x
  proof -
    from that obtain y where y: "y \<in> set (rv_messages db)"
        "x = (if vm_id y = u then y\<lparr>vm_review_status := st, vm_updated_at := t\<rparr> else y)"
      by (auto simp: db' set_review_status_def set_update_where)
    have old: "as_uuid (vm_id y) = Inr (vm_id y)"
        "status_chain UNREVIEWED (filter (\<lambda>r. mr_message_id r = vm_id y) (rv_events db)) (vm_review_status y)"
      using assms(1) y(1) by (auto simp: review_ok_def message_ok_def)
    show ?thesis
    proof (cases "vm_id y = u")
      case True
      have "y = m" by (rule distinct_key_eq [of vm_id "rv_messages db"])
          (use assms(1) y(1) r(2,3) True in \<open>simp_all add: review_ok_def\<close>)
      with True y(2) old row changed r(5,6) show ?thesis
        by (simp add: db' status_chain_snoc message_ok_def)
    next
      case False
      with y(2) old row(2) show ?thesis by (simp add: db' message_ok_def)
    qed
  qed
  moreover have "mr_message_id row \<in> vm_id ` set (rv_messages db)" unfolding row(2) using r(2,3) by (intro image_eqI) simp_all
  ultimately show ?thesis
    using assms(1) row(1) r(9) unfolding review_ok_def ids img by (simp add: db' set_review_status_def)
qed

lemma review_ok_message:
  assumes "review_ok db" and "vm_id m \<notin> vm_id ` set (rv_messages db)" and "vm_review_status m = UNREVIEWED"
    and "as_uuid (vm_id m) = Inr (vm_id m)"
  shows "review_ok (db\<lparr>rv_messages := rv_messages db @ [m]\<rparr>)"
proof -
  have "mr_message_id r \<noteq> vm_id m" if "r \<in> set (rv_events db)" for r
    using assms(1,2) that unfolding review_ok_def by metis
  then have none: "filter (\<lambda>r. mr_message_id r = vm_id m) (rv_events db) = []" by (simp add: filter_empty_conv)
  have "message_ok (rv_events db) m"
    by (simp only: message_ok_def none assms(3,4) status_chain.simps simp_thms)
  then show ?thesis using assms(1,2) by (simp add: review_ok_def)
qed

lemma review_ok_step: "review_step db db' \<Longrightarrow> review_ok db \<Longrightarrow> review_ok db'"
proof (induction rule: review_step.induct)
  case (label e db e' db')
  from review_ok_append [OF label(3,1,2)] show ?case .
next
  case (transition eid mid st actor t reason db e db')
  from review_ok_transition [OF transition(2,1)] show ?case .
next
  case (message m db)
  from review_ok_message [OF message(4,1,2,3)] show ?case .
next
  case (configure db lvs "is" vs as)
  then show ?case by (simp add: review_ok_def)
qed

lemma review_reachable_ok: "review_reachable db \<Longrightarrow> review_ok db"
proof (induction rule: review_reachable.induct)
  case (start db)
  then show ?case by (simp add: review_ok_def)
qed (rule review_ok_step)

section \<open>What the review history guarantees\<close>

text \<open>
  C21: The review events of a message, in the order they were written, are a chain of changes
  from \<^verbatim>\<open>unreviewed\<close> to the current status of the message: none is lost, and the status never
  changes without one.
\<close>

theorem review_events_chain:
  assumes "review_reachable db" and "m \<in> set (rv_messages db)"
  shows "status_chain UNREVIEWED (filter (\<lambda>r. mr_message_id r = vm_id m) (rv_events db)) (vm_review_status m)"
  using review_reachable_ok [OF assms(1)] assms(2) by (simp add: review_ok_def message_ok_def)

definition sample_uuid :: "nat \<Rightarrow> uuid" where
  "sample_uuid n = ''00000000-0000-0000-0000-00000000000'' @ [hex_char n]"

definition review_db0 :: review_database where
  "review_db0 = \<lparr>rv_messages = [], rv_label_versions = [\<lparr>vl_id = sample_uuid 5, vl_key = ''ugc'',
     vl_scope = ''global'', vl_state = ''published'', vl_enabled = True\<rparr>], rv_images = [], rv_videos = [],
     rv_admins = [sample_uuid 7], rv_labels = [], rv_events = []\<rparr>"

definition sample_message :: review_message_row where
  "sample_message = \<lparr>vm_id = sample_uuid 1, vm_review_status = UNREVIEWED, vm_updated_at = Aware 0\<rparr>"

definition review_db1 :: review_database where
  "review_db1 = review_db0\<lparr>rv_messages := [sample_message]\<rparr>"

definition sample_target :: label_target where
  "sample_target = \<lparr>lt_message_id = sample_uuid 1, lt_scope = ''global'', lt_kind = ''message'',
     lt_target_id = sample_uuid 1, lt_version_id = sample_uuid 5, lt_label_key = ''ugc'',
     lt_image_asset_id = None, lt_video_asset_id = None\<rparr>"

definition review_db2 :: review_database where
  "review_db2 = snd (projr (transition_status (sample_uuid 2) (Aware 9) None None (sample_uuid 1) IN_REVIEW
     (sample_uuid 7) None review_db1))"

lemma review_db1_reachable: "review_reachable review_db1"
proof -
  have "review_reachable review_db0" by (rule review_reachable.start) (simp_all add: review_db0_def)
  moreover have "review_step review_db0 (review_db0\<lparr>rv_messages := rv_messages review_db0 @ [sample_message]\<rparr>)"
    by (rule review_step.message) code_simp+
  ultimately have "review_reachable (review_db0\<lparr>rv_messages := rv_messages review_db0 @ [sample_message]\<rparr>)"
    by (rule review_reachable.step)
  then show ?thesis by (simp add: review_db1_def review_db0_def)
qed

lemma review_db2_reachable: "review_reachable review_db2"
proof -
  have "isl (transition_status (sample_uuid 2) (Aware 9) None None (sample_uuid 1) IN_REVIEW
      (sample_uuid 7) None review_db1) = False" by code_simp
  then obtain e db where r: "transition_status (sample_uuid 2) (Aware 9) None None (sample_uuid 1) IN_REVIEW
      (sample_uuid 7) None review_db1 = Inr (e, db)"
    by (cases "transition_status (sample_uuid 2) (Aware 9) None None (sample_uuid 1) IN_REVIEW
      (sample_uuid 7) None review_db1") auto
  then have "review_db2 = db" by (simp only: review_db2_def sum.sel snd_conv)
  with r review_db1_reachable show ?thesis
    by (auto simp: transition_status_def intro: review_reachable.step review_step.transition)
qed

theorem review_events_chain_witness:
  "\<exists>m \<in> set (rv_messages review_db2). vm_review_status m = IN_REVIEW
    \<and> status_chain UNREVIEWED (filter (\<lambda>r. mr_message_id r = vm_id m) (rv_events review_db2)) IN_REVIEW"
proof -
  have "map vm_review_status (rv_messages review_db2) = [IN_REVIEW]" by code_simp
  then obtain m where m: "rv_messages review_db2 = [m]" "vm_review_status m = IN_REVIEW" by auto
  with review_events_chain [OF review_db2_reachable, of m] show ?thesis by simp
qed

section \<open>What a manual label does\<close>

text \<open>The history of a message reads back exactly its stored rows, in order.\<close>

lemma history_rows:
  assumes "review_ok db" and "as_uuid mid = Inr u"
  shows "list_manual_label_history mid db
    = Inr (sort_key event_order (filter (\<lambda>r. me_message_id r = u) (rv_labels db)))"
  unfolding list_manual_label_history_def assms(2) try_bind_simps
  using assms(1) by (subst traverse_total [where g = id]) (auto simp: review_ok_def)

lemma last_with_sorted:
  assumes "sorted (map g xs)" and "x \<in> set xs" and "f x = k"
    and "\<forall>y \<in> set xs. f y = k \<and> y \<noteq> x \<longrightarrow> g y < (g x :: 'b :: linorder)"
  shows "last_with f k xs = Some x"
proof -
  from split_list_last [OF assms(2)] obtain ys zs where xs: "xs = ys @ x # zs" "x \<notin> set zs" by blast
  have "filter (\<lambda>y. f y = k) zs = []"
  proof (rule ccontr)
    assume "filter (\<lambda>y. f y = k) zs \<noteq> []"
    then obtain z where z: "z \<in> set zs" "f z = k" by (auto simp: filter_empty_conv)
    then have "g z < g x" using assms(4) xs by auto
    moreover have "g x \<le> g z" using assms(1) z(1) by (auto simp: xs sorted_append)
    ultimately show False by simp
  qed
  then show ?thesis using assms(3)
    by (cases "filter (\<lambda>y. f y = k) ys") (simp_all add: last_with_def xs)
qed

lemma latest_event_of_history:
  assumes "distinct (map me_event_id events)" and "e \<in> set events"
    and "\<forall>x \<in> set events. me_identity x = me_identity e \<and> x \<noteq> e \<longrightarrow> event_order x < event_order e"
  shows "latest_event (sort_key event_order events) (me_identity e) = Some e"
proof -
  have "sort_key event_order (sort_key event_order events) = sort_key event_order events"
    by (rule sort_key_id_if_sorted) simp
  then show ?thesis
    unfolding latest_event_def
    by (simp only:) (rule last_with_sorted [of event_order], use assms in auto)
qed

text \<open>
  A manual label that is stored later than every earlier event of its label takes effect:
  resolving the message's history then gives the label the new value, and after a clear the
  value of the model again, whatever was set before.
\<close>

theorem manual_label_takes_effect:
  assumes "review_reachable db"
    and "append_label fresh now eid time t op score activated actor reason db = Inr (e, db')"
    and "as_uuid (lt_message_id t) = Inr u" and "as_uuid (lt_target_id t) = Inr target"
    and "as_uuid (lt_version_id t) = Inr version"
    and "\<forall>r \<in> set (rv_labels db). me_message_id r = u \<and> me_identity r = (lt_scope t, target, version)
      \<longrightarrow> instant (me_created_at r) < instant (chosen_time time now)"
  shows "\<exists>history r. list_manual_label_history (lt_message_id t) db' = Inr history
    \<and> resolve_label_namespaces model history = Inr r
    \<and> (op = SET \<longrightarrow> (\<exists>v \<in> set (rn_effective r). lv_identity v = (lt_scope t, target, version)
        \<and> lv_label_key v = lt_label_key t \<and> stored_score score = Inr (lv_score v) \<and> lv_activated v = activated))
    \<and> (op = CLEAR \<longrightarrow> (\<forall>v. lv_identity v = (lt_scope t, target, version) \<longrightarrow>
        (v \<in> set (rn_effective r) \<longleftrightarrow> model_label model (lv_identity v) = Some v)))"
proof -
  let ?i = "(lt_scope t, target, version)"
  obtain ev where ev: "check_manual_event ev = Inr ev" "append_manual_label ev db = Inr (e, db')"
      "me_message_id ev = lt_message_id t" "me_target_id ev = lt_target_id t" "me_version_id ev = lt_version_id t"
      "me_target_scope ev = lt_scope t" "me_operation ev = op" "me_created_at ev = chosen_time time now"
      "me_score ev = score" "me_activated ev = activated" "me_label_key ev = lt_label_key t"
  proof -
    from assms(2) obtain ev where ev: "check_manual_event
       \<lparr>me_event_id = chosen_id eid fresh, me_message_id = lt_message_id t, me_target_scope = lt_scope t,
        me_target_kind = lt_kind t, me_target_id = lt_target_id t, me_version_id = lt_version_id t,
        me_label_key = lt_label_key t, me_operation = op, me_actor = actor,
        me_created_at = chosen_time time now, me_score = score, me_activated = activated,
        me_image_asset_id = lt_image_asset_id t, me_video_asset_id = lt_video_asset_id t,
        me_reason = reason\<rparr> = Inr ev" and a: "append_manual_label ev db = Inr (e, db')"
      unfolding append_label_def try_bind_Inr by blast
    note same = check_manual_event_same [OF ev]
    have c: "check_manual_event ev = Inr ev" using ev by (simp only: same)
    show thesis by (rule that [OF c a]) (simp_all add: same)
  qed
  from ev(2) obtain u' l row m where r: "as_uuid (me_message_id ev) = Inr u'" "as_uuid (me_version_id ev) = Inr l"
      "manual_record ev u' l = Inr row" "me_event_id row \<notin> me_event_id ` set (rv_labels db)"
      and db': "db' = db\<lparr>rv_labels := rv_labels db @ [row]\<rparr>"
    by (rule append_manual_labelE)
  have eq: "u' = u" "l = version" using r(1,2) assms(3,5) ev(3,5) by simp_all
  have row: "me_message_id row = u" "me_identity row = ?i" "me_operation row = op"
      "me_created_at row = chosen_time time now" "stored_score score = Inr (me_score row)"
      "me_activated row = activated" "me_label_key row = lt_label_key t"
    using r(3) ev assms(4) by (auto simp: manual_record_def result_simps me_identity_def eq)
  have ok: "review_ok db" by (rule review_reachable_ok [OF assms(1)])
  have ok': "review_ok db'" by (rule review_ok_append [OF ok ev(1,2)])
  let ?rows = "filter (\<lambda>r. me_message_id r = u) (rv_labels db')"
  let ?h = "sort_key event_order ?rows"
  have rows: "?rows = filter (\<lambda>r. me_message_id r = u) (rv_labels db) @ [row]" by (simp add: db' row(1))
  have h: "list_manual_label_history (lt_message_id t) db' = Inr ?h" by (rule history_rows [OF ok' assms(3)])
  have valid: "\<forall>x \<in> set ?h. valid_event x" using ok' by (auto simp: review_ok_def valid_event_def)
  have "event_order x < event_order row" if "x \<in> set ?rows" "me_identity x = me_identity row" "x \<noteq> row" for x
    using that assms(6) row(2,4) by (auto simp: rows event_order_def)
  moreover have "distinct (map me_event_id ?rows)" using ok' by (simp add: review_ok_def distinct_map_filter)
  moreover have "row \<in> set ?rows" by (simp add: rows)
  ultimately have latest: "latest_event ?h ?i = Some row"
    unfolding row(2) [symmetric] by (intro latest_event_of_history) blast+
  from resolve_total [OF valid, of model] obtain res where res: "resolve_label_namespaces model ?h = Inr res"
      "lists_labels (rn_effective res) (effective_label model ?h)" by blast
  have eff: "v \<in> set (rn_effective res) \<longleftrightarrow> effective_label model ?h ?i = Some v" if "lv_identity v = ?i" for v
    using res(2) that by (simp add: lists_labels_def)
  show ?thesis
  proof (intro exI conjI impI allI)
    show "list_manual_label_history (lt_message_id t) db' = Inr ?h" by (rule h)
    show "resolve_label_namespaces model ?h = Inr res" by (rule res(1))
  next
    assume "op = SET"
    then have "event_label row \<in> set (rn_effective res)"
      using eff [of "event_label row"] latest row(2,3) by (simp add: effective_label_def manual_label_def)
    then show "\<exists>v \<in> set (rn_effective res). lv_identity v = ?i \<and> lv_label_key v = lt_label_key t
        \<and> stored_score score = Inr (lv_score v) \<and> lv_activated v = activated"
      using row by (intro bexI [of _ "event_label row"]) (simp_all, simp_all add: event_label_def)
  next
    fix v assume "op = CLEAR" and v: "lv_identity v = ?i"
    then show "(v \<in> set (rn_effective res)) = (model_label model (lv_identity v) = Some v)"
      using eff [OF v] latest row(3) by (simp add: effective_label_def manual_label_def v)
  qed
qed

theorem manual_label_takes_effect_witness:
  "\<exists>e db' history r. set_label (sample_uuid 3) (Aware 20) None None sample_target (PInt 1) (PBool True)
      (sample_uuid 7) None review_db2 = Inr (e, db')
    \<and> list_manual_label_history (sample_uuid 1) db' = Inr history
    \<and> resolve_label_namespaces [] history = Inr r
    \<and> map lv_score (rn_effective r) = [PFloat (Fin 1)]"
proof -
  let ?a = "append_label (sample_uuid 3) (Aware 20) None None sample_target SET (PInt 1) (PBool True)
      (sample_uuid 7) None review_db2"
  have "isl ?a = False" by code_simp
  then obtain e db' where a: "?a = Inr (e, db')" by (cases ?a) auto
  have u: "as_uuid (lt_message_id sample_target) = Inr (sample_uuid 1)"
      "as_uuid (lt_target_id sample_target) = Inr (sample_uuid 1)"
      "as_uuid (lt_version_id sample_target) = Inr (sample_uuid 5)" by code_simp+
  have old: "\<forall>r \<in> set (rv_labels review_db2). me_message_id r = sample_uuid 1
      \<and> me_identity r = (lt_scope sample_target, sample_uuid 1, sample_uuid 5)
      \<longrightarrow> instant (me_created_at r) < instant (chosen_time None (Aware 20))" by code_simp
  from manual_label_takes_effect [OF review_db2_reachable a u old, of "[]"]
  obtain history r where h: "list_manual_label_history (lt_message_id sample_target) db' = Inr history"
      "resolve_label_namespaces [] history = Inr r" by blast
  have same: "lt_message_id sample_target = sample_uuid 1" by (simp add: sample_target_def)
  have "map_sum id (\<lambda>(e, db). map_sum id (\<lambda>h. map_sum id (\<lambda>r. map lv_score (rn_effective r))
      (resolve_label_namespaces [] h)) (list_manual_label_history (lt_message_id sample_target) db)) ?a
    = Inr (Inr (Inr [PFloat (Fin 1)]))" by code_simp
  then have "map lv_score (rn_effective r) = [PFloat (Fin 1)]" by (simp only: a h map_sum.simps id_apply prod.case sum.inject)
  with a h [unfolded same] show ?thesis unfolding set_label_def by (intro exI conjI)
qed

end
