(* ===== verification/Routing_Store.thy ===== *)
theory Routing_Store
  imports Routing_Service Message_Tables Review_Store
begin

text \<open>
  The routing tables and their transactions, \<^verbatim>\<open>infrastructure/database/routing_repository.py\<close>:
  loading a snapshot of a message under a published policy version, storing an evaluation with
  its publication intents once per request id, and reading it back.  The repository discharges
  the laws that the routing service relies on.

  Queries without \<^verbatim>\<open>ORDER BY\<close> read the rows in table order; every use of them sorts or looks up
  by a unique key.  JSONB columns (the facts of an evaluation) read back as the value that was stored; that
  PostgreSQL may reorder the keys of an object is not modelled.  \<open>shown\<close> is \<^verbatim>\<open>str\<close> of a stored value that is not a string.
\<close>

section \<open>Tables\<close>

record policy_version_row =
  tv_id :: uuid
  tv_state :: string

record rule_row =
  tr_id :: uuid
  tr_policy_version_id :: uuid
  tr_priority :: int
  tr_enabled :: bool
  tr_condition :: pyval
  tr_stop_on_match :: bool

record action_row =
  ta_id :: uuid
  ta_rule_id :: uuid
  ta_destination_channel_id :: uuid
  ta_publication_mode :: string
  ta_rendering_template_version_id :: "uuid option"
  ta_publish_identity_id :: "uuid option"
  ta_output_order :: int

record destination_row =
  td_id :: uuid
  td_default_publish_identity_id :: uuid
  td_enabled :: bool

record identity_row =
  ti_id :: uuid
  ti_enabled :: bool

record template_version_row =
  tt_id :: uuid
  tt_state :: string

record evaluation_row =
  te_id :: uuid
  te_routing_request_id :: string
  te_message_id :: uuid
  te_policy_version_id :: uuid
  te_facts_snapshot :: facts
  te_facts_hash :: string
  te_rule_outcomes :: "pyval list"
  te_stopped_at_rule_id :: "uuid option"

record intent_row =
  tn_id :: uuid
  tn_evaluation_id :: uuid
  tn_routing_request_id :: string
  tn_message_id :: uuid
  tn_policy_version_id :: uuid
  tn_rule_id :: uuid
  tn_action_id :: uuid
  tn_destination_channel_id :: uuid
  tn_publish_identity_id :: uuid
  tn_publication_mode :: string
  tn_rendering_template_version_id :: "uuid option"
  tn_idempotency_key :: string
  tn_status :: string

record routing_database =
  gd_channels :: "channel_row list"
  gd_messages :: "message_row list"
  gd_images :: "image_asset_row list"
  gd_videos :: "video_asset_row list"
  gd_analysis_runs :: "analysis_run_row list"
  gd_model_labels :: "model_label_row list"
  gd_manual_labels :: "manual_row list"
  gd_versions :: "policy_version_row list"
  gd_rules :: "rule_row list"
  gd_actions :: "action_row list"
  gd_destinations :: "destination_row list"
  gd_identities :: "identity_row list"
  gd_templates :: "template_version_row list"
  gd_evaluations :: "evaluation_row list"
  gd_intents :: "intent_row list"

section \<open>The policy of a snapshot\<close>

definition load_rules :: "uuid \<Rightarrow> routing_database \<Rightarrow> rule_row list" where
  "load_rules version db =
     sort_key (\<lambda>r. (- tr_priority r, tr_id r)) (filter (\<lambda>r. tr_policy_version_id r = version) (gd_rules db))"

definition load_actions :: "rule_row list \<Rightarrow> routing_database \<Rightarrow> action_row list" where
  "load_actions rules db =
     sort_key (\<lambda>a. (ta_rule_id a, ta_output_order a, ta_id a))
       (filter (\<lambda>a. ta_rule_id a \<in> tr_id ` set rules) (gd_actions db))"

definition load_destinations :: "action_row list \<Rightarrow> routing_database \<Rightarrow> destination_row list result" where
  "load_destinations actions db =
     (let ids = set (map ta_destination_channel_id actions);
          rows = filter (\<lambda>d. td_id d \<in> ids) (gd_destinations db)
      in if set (map td_id rows) \<noteq> ids \<or> list_ex (\<lambda>d. \<not> td_enabled d) rows
         then fail ''routing policy references a missing or disabled destination'' else Inr rows)"

definition check_identities ::
  "action_row list \<Rightarrow> destination_row list \<Rightarrow> routing_database \<Rightarrow> unit result" where
  "check_identities actions destinations db =
     (let ids = set (map td_default_publish_identity_id destinations)
            \<union> set (List.map_filter ta_publish_identity_id actions);
          rows = filter (\<lambda>i. ti_id i \<in> ids) (gd_identities db)
      in if set (map ti_id rows) \<noteq> ids \<or> list_ex (\<lambda>i. \<not> ti_enabled i) rows
         then fail ''routing policy references a missing or disabled identity'' else Inr ())"

definition check_templates :: "action_row list \<Rightarrow> routing_database \<Rightarrow> unit result" where
  "check_templates actions db =
     (let ids = set (List.map_filter ta_rendering_template_version_id actions);
          rows = filter (\<lambda>t. tt_id t \<in> ids) (gd_templates db)
      in if set (map tt_id rows) \<noteq> ids \<or> list_ex (\<lambda>t. tt_state t \<noteq> ''published'') rows
         then fail ''routing policy references a missing or unpublished rendering template'' else Inr ())"

definition action_of_row :: "rule_row \<Rightarrow> action_row \<Rightarrow> publication_action result" where
  "action_of_row r a = check_publication_action
     \<lparr>pa_action_id = ta_id a, pa_destination_channel_id = ta_destination_channel_id a,
      pa_publication_mode = ta_publication_mode a,
      pa_rendering_template_version_id = ta_rendering_template_version_id a,
      pa_publish_identity_id = ta_publish_identity_id a, pa_routing_rule_id = Some (tr_id r)\<rparr>"

definition rule_of_row :: "action_row list \<Rightarrow> rule_row \<Rightarrow> routing_rule result" where
  "rule_of_row actions r =
     try_bind (traverse (action_of_row r)
       (sort_key (\<lambda>a. (ta_output_order a, ta_id a)) (filter (\<lambda>a. ta_rule_id a = tr_id r) actions))) (\<lambda>as.
     check_routing_rule
       \<lparr>rr_rule_id = tr_id r, rr_priority = tr_priority r, rr_condition = tr_condition r,
        rr_actions = as, rr_stop_on_match = tr_stop_on_match r, rr_enabled = tr_enabled r\<rparr>)"

definition destination_defaults :: "destination_row list \<Rightarrow> (string, string) dict" where
  "destination_defaults destinations =
     fold (\<lambda>d. dict_set (td_id d) (td_default_publish_identity_id d)) destinations []"

definition policy_of_rows ::
  "policy_version_row \<Rightarrow> rule_row list \<Rightarrow> action_row list \<Rightarrow> routing_policy result" where
  "policy_of_rows version rules actions =
     (if list_ex (\<lambda>a. ta_rule_id a \<notin> tr_id ` set rules) actions
      then fail ''routing action belongs to a different policy version''
      else try_bind (traverse (rule_of_row actions) rules) (\<lambda>domain_rules.
        check_routing_policy \<lparr>rp_policy_version_id = tv_id version, rp_rules = domain_rules\<rparr>))"

definition build_policy ::
  "policy_version_row \<Rightarrow> rule_row list \<Rightarrow> action_row list \<Rightarrow> routing_database \<Rightarrow>
     (routing_policy \<times> (string, string) dict) result" where
  "build_policy version rules actions db =
     try_bind (load_destinations actions db) (\<lambda>destinations.
     try_bind (check_identities actions destinations db) (\<lambda>_.
     try_bind (check_templates actions db) (\<lambda>_.
     try_bind (policy_of_rows version rules actions) (\<lambda>policy.
       Inr (policy, destination_defaults destinations)))))"

section \<open>Labels and duplicates\<close>

definition model_label_from_record :: "model_label_row \<Rightarrow> label_value result" where
  "model_label_from_record r = check_label_value
     \<lparr>lv_message_id = ml_message_id r, lv_target_scope = ml_target_scope r,
      lv_target_kind = ml_target_kind r, lv_target_id = ml_target_id r,
      lv_version_id = ml_label_definition_version_id r, lv_label_key = ml_label_key r,
      lv_score = PFloat (ml_score r), lv_activated = PBool (ml_activated r),
      lv_image_asset_id = ml_image_asset_id r, lv_video_asset_id = ml_video_asset_id r\<rparr>"

text \<open>The latest finished run that is not a test: \<^verbatim>\<open>ORDER BY created_at DESC, id DESC LIMIT 1\<close>.\<close>

definition current_analysis_run :: "uuid \<Rightarrow> routing_database \<Rightarrow> analysis_run_row option" where
  "current_analysis_run message_id db =
     (case rev (sort_key (\<lambda>a. (an_created_at a, an_id a))
        (filter (\<lambda>a. an_message_id a = message_id \<and> an_run_mode a \<in> {''formal'', ''reanalysis''}
           \<and> an_status a \<in> {''completed'', ''blocked_negative_gate''}) (gd_analysis_runs db)))
      of [] \<Rightarrow> None | a # _ \<Rightarrow> Some a)"

definition load_current_model_assignments ::
  "uuid \<Rightarrow> routing_database \<Rightarrow> label_value list result" where
  "load_current_model_assignments message_id db =
     (case current_analysis_run message_id db of
        None \<Rightarrow> Inr []
      | Some run \<Rightarrow> traverse model_label_from_record
          (sort_key (\<lambda>m. (ml_created_at m, ml_id m))
            (filter (\<lambda>m. ml_analysis_run_id m = an_id run) (gd_model_labels db))))"

definition load_manual_events :: "uuid \<Rightarrow> routing_database \<Rightarrow> manual_label_event list result" where
  "load_manual_events message_id db =
     traverse check_manual_event
       (sort_key event_order (filter (\<lambda>e. me_message_id e = message_id) (gd_manual_labels db)))"

definition load_duplicate_state :: "message_row \<Rightarrow> routing_database \<Rightarrow> (string, pyval) dict" where
  "load_duplicate_state m db =
     (case ms_visual_fingerprint m of
        None \<Rightarrow> [(''status'', PStr ''unknown''), (''canonical_message_id'', PNone),
                 (''matching_message_ids'', PList []), (''match_count'', PInt 0)]
      | Some fp \<Rightarrow>
          (let matches = sort_key (\<lambda>x. (ms_published_at x, ms_id x))
                 (filter (\<lambda>x. ms_visual_fingerprint x = Some fp) (gd_messages db));
               canonical = (case matches of [] \<Rightarrow> m | x # _ \<Rightarrow> x);
               others = filter (\<lambda>i. i \<noteq> ms_id m) (map ms_id matches);
               status = (if others = [] then ''unique''
                         else if ms_id canonical = ms_id m then ''canonical'' else ''duplicate'')
           in [(''status'', PStr status), (''canonical_message_id'', PStr (ms_id canonical)),
               (''matching_message_ids'', PList (map PStr others)),
               (''match_count'', PInt (int (length others))), (''visual_fingerprint'', PStr fp)]))"

section \<open>Facts of rows\<close>

definition message_fact :: "message_row \<Rightarrow> (string, pyval) dict" where
  "message_fact m =
     [(''id'', PStr (ms_id m)), (''source_channel_id'', PStr (ms_source_channel_id m)),
      (''telegram_message_ids'', PList (map PInt (ms_telegram_message_ids m))),
      (''telegram_grouped_id'', opt_int (ms_telegram_grouped_id m)),
      (''primary_telegram_message_id'', PInt (ms_primary_telegram_message_id m)),
      (''published_at'', datetime_text (Some (ms_published_at m))),
      (''edited_at'', datetime_text (ms_edited_at m)),
      (''original_text'', opt_str (ms_original_text m)),
      (''telegram_metadata'', PDict (ms_telegram_metadata m)),
      (''processing_status'', PStr (ms_processing_status m)),
      (''review_status'', PStr (review_status_value (ms_review_status m))),
      (''media_count'', PInt (int (ms_media_count m))),
      (''visual_fingerprint'', opt_str (ms_visual_fingerprint m)),
      (''source_changed_after_processing'', PBool (ms_source_changed_after_processing m)),
      (''source_deleted'', PBool (ms_source_deleted m)),
      (''source_deleted_at'', datetime_text (ms_source_deleted_at m)),
      (''blocked_from_analysis'', PBool (ms_blocked_from_analysis m))]"

definition source_channel_fact :: "channel_row \<Rightarrow> (string, pyval) dict" where
  "source_channel_fact c =
     [(''id'', PStr (ch_id c)), (''telegram_peer_id'', PInt (ch_telegram_peer_id c)),
      (''username'', opt_str (ch_username c)), (''display_name'', PStr (ch_display_name c)),
      (''enabled'', PBool (ch_enabled c)),
      (''active_profile_version_id'', opt_str (ch_active_profile_version_id c))]"

definition image_fact :: "image_asset_row \<Rightarrow> (string, pyval) dict" where
  "image_fact r =
     [(''kind'', PStr ''image''), (''asset_id'', PStr (as_id r)),
      (''source_asset_id'', PStr (as_source_asset_id r)),
      (''source_telegram_message_id'', opt_int (as_source_telegram_message_id r)),
      (''archive_state'', PStr (archive_state_value (as_state r))),
      (''content_type'', opt_str (im_content_type r)), (''width'', opt_int (im_width r)),
      (''height'', opt_int (im_height r)), (''source_sha256'', opt_str (as_source_sha256 r)),
      (''archive_sha256'', opt_str (im_archive_sha256 r)),
      (''perceptual_hash'', opt_str (im_perceptual_hash r))]"

definition video_fact :: "video_asset_row \<Rightarrow> (string, pyval) dict" where
  "video_fact r =
     [(''kind'', PStr ''video''), (''asset_id'', PStr (as_id r)),
      (''source_asset_id'', PStr (as_source_asset_id r)),
      (''source_telegram_message_id'', opt_int (as_source_telegram_message_id r)),
      (''archive_state'', PStr (archive_state_value (as_state r))),
      (''source_content_type'', opt_str (vi_source_content_type r)),
      (''source_size_bytes'', opt_int (vi_source_size_bytes r)),
      (''source_sha256'', opt_str (as_source_sha256 r)),
      (''source_cover_phash'', opt_str (vi_source_cover_phash r)),
      (''duration_seconds'', (case vi_duration_seconds r of None \<Rightarrow> PNone | Some f \<Rightarrow> PFloat f)),
      (''width'', opt_int (vi_source_width r)), (''height'', opt_int (vi_source_height r))]"

section \<open>Loading a snapshot\<close>

definition load_snapshot :: "string \<Rightarrow> string \<Rightarrow> routing_database \<Rightarrow> routing_snapshot result" where
  "load_snapshot message_id policy_version_id db =
     try_bind (as_uuid message_id) (\<lambda>mid.
     try_bind (as_uuid policy_version_id) (\<lambda>pid.
       case find (\<lambda>m. ms_id m = mid) (gd_messages db) of
         None \<Rightarrow> fail ''message does not exist''
       | Some m \<Rightarrow> (case find (\<lambda>c. ch_id c = ms_source_channel_id m) (gd_channels db) of
           None \<Rightarrow> fail ''message does not exist''
         | Some channel \<Rightarrow> (case find (\<lambda>v. tv_id v = pid) (gd_versions db) of
             None \<Rightarrow> fail ''routing requires the selected published policy version''
           | Some version \<Rightarrow>
               if tv_state version \<noteq> ''published''
               then fail ''routing requires the selected published policy version''
               else
                 let rules = load_rules pid db; actions = load_actions rules db in
                 try_bind (build_policy version rules actions db) (\<lambda>(policy, defaults).
                 try_bind (load_current_model_assignments mid db) (\<lambda>model.
                 try_bind (load_manual_events mid db) (\<lambda>events.
                   let images = sort_key as_id (filter (\<lambda>r. as_message_id r = mid) (gd_images db));
                       videos = sort_key as_id (filter (\<lambda>r. as_message_id r = mid) (gd_videos db))
                   in check_routing_snapshot
                     \<lparr>sn_message_id = ms_id m, sn_message = message_fact m,
                      sn_source_channel = source_channel_fact channel,
                      sn_duplicate_state = load_duplicate_state m db,
                      sn_media = map image_fact images @ map video_fact videos,
                      sn_review_status = ms_review_status m, sn_model_assignments = model,
                      sn_manual_events = events, sn_policy = policy,
                      sn_destination_identities = defaults\<rparr>)))))))"

section \<open>Reading an execution back\<close>

definition stored_bool :: "pyval \<Rightarrow> bool result" where
  "stored_bool v = (case v of PBool b \<Rightarrow> Inr b | _ \<Rightarrow> Inl ValueError)"

definition stored_item :: "pyval \<Rightarrow> string \<Rightarrow> pyval result" where
  "stored_item v key =
     (case v of
        PDict d \<Rightarrow> (case map_of d key of None \<Rightarrow> Inl KeyError | Some x \<Rightarrow> Inr x)
      | _ \<Rightarrow> Inl TypeError)"

definition stored_flag :: "pyval \<Rightarrow> string \<Rightarrow> bool result" where
  "stored_flag v key = try_bind (stored_item v key) stored_bool"

definition text_of :: "(pyval \<Rightarrow> string) \<Rightarrow> pyval \<Rightarrow> string" where
  "text_of shown v = (case v of PStr s \<Rightarrow> s | _ \<Rightarrow> shown v)"

definition rule_outcome_from_snapshot :: "(pyval \<Rightarrow> string) \<Rightarrow> pyval \<Rightarrow> rule_outcome result" where
  "rule_outcome_from_snapshot shown v =
     (case try_bind (stored_item v ''rule_id'') (\<lambda>rule.
           try_bind (stored_flag v ''enabled'') (\<lambda>enabled.
           try_bind (stored_flag v ''checked'') (\<lambda>checked.
           try_bind (stored_flag v ''evaluated'') (\<lambda>evaluated.
           try_bind (stored_flag v ''matched'') (\<lambda>matched.
           try_bind (stored_flag v ''stopped_after_match'') (\<lambda>stopped.
             Inr \<lparr>ro_rule_id = text_of shown rule, ro_enabled = enabled, ro_checked = checked,
                  ro_evaluated = evaluated, ro_matched = matched, ro_stopped_after_match = stopped\<rparr>))))))
      of Inr r \<Rightarrow> Inr r | Inl _ \<Rightarrow> fail ''stored routing outcome is invalid'')"

definition intent_draft_from_record :: "intent_row \<Rightarrow> intent_draft" where
  "intent_draft_from_record r =
     \<lparr>pi_intent_id = tn_id r, pi_evaluation_id = tn_evaluation_id r,
      pi_request_id = tn_routing_request_id r, pi_message_id = tn_message_id r,
      pi_policy_version_id = tn_policy_version_id r, pi_rule_id = tn_rule_id r,
      pi_action_id = tn_action_id r, pi_destination_channel_id = tn_destination_channel_id r,
      pi_publish_identity_id = tn_publish_identity_id r, pi_publication_mode = tn_publication_mode r,
      pi_rendering_template_version_id = tn_rendering_template_version_id r,
      pi_idempotency_key = tn_idempotency_key r, pi_status = tn_status r\<rparr>"

definition action_from_intent :: "intent_row \<Rightarrow> publication_action result" where
  "action_from_intent r = check_publication_action
     \<lparr>pa_action_id = tn_action_id r, pa_destination_channel_id = tn_destination_channel_id r,
      pa_publication_mode = tn_publication_mode r,
      pa_rendering_template_version_id = tn_rendering_template_version_id r,
      pa_publish_identity_id = Some (tn_publish_identity_id r),
      pa_routing_rule_id = Some (tn_rule_id r)\<rparr>"

text \<open>\<^verbatim>\<open>{outcome.rule_id: index}\<close> and its use with the default \<^verbatim>\<open>len(rank)\<close>.\<close>

definition rank_table :: "rule_outcome list \<Rightarrow> (string, nat) dict" where
  "rank_table outcomes =
     fold (\<lambda>(i, x). dict_set (ro_rule_id x) i) (List.enumerate 0 outcomes) []"

definition rank_of :: "rule_outcome list \<Rightarrow> string \<Rightarrow> nat" where
  "rank_of outcomes rule =
     (case map_of (rank_table outcomes) rule of Some i \<Rightarrow> i | None \<Rightarrow> length (rank_table outcomes))"

definition output_order_of :: "action_row list \<Rightarrow> uuid \<Rightarrow> int" where
  "output_order_of actions i =
     (case find (\<lambda>a. ta_id a = i) actions of Some a \<Rightarrow> ta_output_order a | None \<Rightarrow> 0)"

definition load_execution_by_request ::
  "(pyval \<Rightarrow> string) \<Rightarrow> string \<Rightarrow> routing_database \<Rightarrow> routing_execution option result" where
  "load_execution_by_request shown request_id db =
     (case find (\<lambda>e. te_routing_request_id e = request_id) (gd_evaluations db) of
        None \<Rightarrow> Inr None
      | Some e \<Rightarrow>
          let intents = filter (\<lambda>i. tn_evaluation_id i = te_id e) (gd_intents db);
              actions = filter (\<lambda>a. ta_id a \<in> tn_action_id ` set intents) (gd_actions db)
          in if set (map ta_id actions) \<noteq> tn_action_id ` set intents
             then fail ''stored publication intent references a missing routing action''
             else try_bind (traverse (rule_outcome_from_snapshot shown) (te_rule_outcomes e)) (\<lambda>outcomes.
               let ordered = sort_key (\<lambda>i. (rank_of outcomes (tn_rule_id i),
                     output_order_of actions (tn_action_id i), tn_id i)) intents
               in try_bind (traverse action_from_intent ordered) (\<lambda>as.
                 Inr (Some \<lparr>ex_evaluation_id = te_id e, ex_request_id = te_routing_request_id e,
                   ex_message_id = te_message_id e, ex_policy_version_id = te_policy_version_id e,
                   ex_facts = te_facts_snapshot e, ex_facts_hash = te_facts_hash e,
                   ex_decision = \<lparr>rd_policy_version_id = te_policy_version_id e, rd_outcomes = outcomes,
                     rd_actions = as, rd_stopped_at_rule_id = te_stopped_at_rule_id e\<rparr>,
                   ex_intents = map intent_draft_from_record ordered,
                   ex_persisted = True, ex_reused = False, ex_dry_run = False\<rparr>))))"

definition find_by_request_id ::
  "(pyval \<Rightarrow> string) \<Rightarrow> string \<Rightarrow> routing_database \<Rightarrow> routing_execution option result" where
  "find_by_request_id shown request_id db =
     (if blank request_id then fail ''routing_request_id must not be blank''
      else load_execution_by_request shown request_id db)"

section \<open>Storing an evaluation\<close>

definition evaluation_record :: "evaluation_draft \<Rightarrow> evaluation_row result" where
  "evaluation_record d =
     try_bind (as_uuid (ed_evaluation_id d)) (\<lambda>eid.
     try_bind (as_uuid (ed_message_id d)) (\<lambda>mid.
     try_bind (as_uuid (ed_policy_version_id d)) (\<lambda>pid.
     try_bind (optional_uuid (ed_stopped_at_rule_id d)) (\<lambda>stop.
       Inr \<lparr>te_id = eid, te_routing_request_id = ed_request_id d, te_message_id = mid,
            te_policy_version_id = pid, te_facts_snapshot = ed_facts d,
            te_facts_hash = ed_facts_hash d, te_rule_outcomes = ed_rule_outcomes d,
            te_stopped_at_rule_id = stop\<rparr>))))"

text \<open>
  The insert: \<open>None\<close> when the request id is taken.  \<^verbatim>\<open>btrim\<close> removes blanks only, and a text that
  is too long for its column is a data error.
\<close>

definition insert_evaluation ::
  "evaluation_row \<Rightarrow> routing_database \<Rightarrow> routing_database option result" where
  "insert_evaluation e db =
     (if 128 < length (te_routing_request_id e) then Inl DataError
      else if 64 < length (te_facts_hash e) then Inl DataError
      else if (\<forall>c \<in> set (te_routing_request_id e). c = CHR '' '') \<or> isl (validate_hash (te_facts_hash e))
      then Inl IntegrityError
      else if te_routing_request_id e \<in> te_routing_request_id ` set (gd_evaluations db) then Inr None
      else if te_id e \<in> te_id ` set (gd_evaluations db)
           \<or> te_message_id e \<notin> ms_id ` set (gd_messages db)
           \<or> te_policy_version_id e \<notin> tv_id ` set (gd_versions db)
           \<or> (case te_stopped_at_rule_id e of None \<Rightarrow> False | Some r \<Rightarrow> r \<notin> tr_id ` set (gd_rules db))
      then Inl IntegrityError
      else Inr (Some (db\<lparr>gd_evaluations := gd_evaluations db @ [e]\<rparr>)))"

definition check_payload_pair :: "evaluation_draft \<Rightarrow> publication_action \<Rightarrow> intent_draft \<Rightarrow> unit result" where
  "check_payload_pair d a i =
     (if pi_evaluation_id i \<noteq> ed_evaluation_id d \<or> pi_request_id i \<noteq> ed_request_id d
         \<or> pi_message_id i \<noteq> ed_message_id d \<or> pi_policy_version_id i \<noteq> ed_policy_version_id d
         \<or> pi_status i \<noteq> ''pending''
      then fail ''publication intent identity does not match evaluation''
      else (case pa_routing_rule_id a of
          None \<Rightarrow> fail ''matched routing action has no owning rule''
        | Some rule \<Rightarrow>
            if pi_rule_id i \<noteq> rule \<or> pi_action_id i \<noteq> pa_action_id a
              \<or> pi_destination_channel_id i \<noteq> pa_destination_channel_id a
              \<or> pi_publication_mode i \<noteq> pa_publication_mode a
              \<or> pi_rendering_template_version_id i \<noteq> pa_rendering_template_version_id a
              \<or> (pa_publish_identity_id a \<noteq> None \<and> Some (pi_publish_identity_id i) \<noteq> pa_publish_identity_id a)
            then fail ''publication intent does not match routing action'' else Inr ()))"

definition validate_persistence_payload ::
  "evaluation_draft \<Rightarrow> routing_decision \<Rightarrow> intent_draft list \<Rightarrow> unit result" where
  "validate_persistence_payload d decision intents =
     (if rd_policy_version_id decision \<noteq> ed_policy_version_id d
      then fail ''routing decision policy does not match evaluation''
      else if \<not> py_eq_list (ed_rule_outcomes d) (map outcome_document (rd_outcomes decision))
      then fail ''routing decision outcomes do not match evaluation snapshot''
      else if ed_stopped_at_rule_id d \<noteq> rd_stopped_at_rule_id decision
      then fail ''routing stop position does not match evaluation''
      else if length intents \<noteq> length (rd_actions decision)
      then fail ''publication intents do not match routing actions''
      else try_bind (traverse (\<lambda>(a, i). check_payload_pair d a i) (zip (rd_actions decision) intents))
        (\<lambda>_. Inr ()))"

definition intent_record :: "intent_draft \<Rightarrow> intent_row result" where
  "intent_record i =
     try_bind (as_uuid (pi_intent_id i)) (\<lambda>id.
     try_bind (as_uuid (pi_evaluation_id i)) (\<lambda>eid.
     try_bind (as_uuid (pi_message_id i)) (\<lambda>mid.
     try_bind (as_uuid (pi_policy_version_id i)) (\<lambda>pid.
     try_bind (as_uuid (pi_rule_id i)) (\<lambda>rid.
     try_bind (as_uuid (pi_action_id i)) (\<lambda>aid.
     try_bind (as_uuid (pi_destination_channel_id i)) (\<lambda>did.
     try_bind (as_uuid (pi_publish_identity_id i)) (\<lambda>iid.
     try_bind (optional_uuid (pi_rendering_template_version_id i)) (\<lambda>tid.
       Inr \<lparr>tn_id = id, tn_evaluation_id = eid, tn_routing_request_id = pi_request_id i,
            tn_message_id = mid, tn_policy_version_id = pid, tn_rule_id = rid, tn_action_id = aid,
            tn_destination_channel_id = did, tn_publish_identity_id = iid,
            tn_publication_mode = pi_publication_mode i, tn_rendering_template_version_id = tid,
            tn_idempotency_key = pi_idempotency_key i, tn_status = ''pending''\<rparr>)))))))))"

text \<open>The constraints of \<^verbatim>\<open>publication_intents\<close> that a new row can violate.\<close>

definition intent_allowed :: "routing_database \<Rightarrow> intent_row list \<Rightarrow> intent_row \<Rightarrow> bool" where
  "intent_allowed db earlier i \<longleftrightarrow>
     tn_id i \<notin> tn_id ` set earlier \<and> tn_idempotency_key i \<notin> tn_idempotency_key ` set earlier
     \<and> (tn_evaluation_id i, tn_action_id i) \<notin> (\<lambda>x. (tn_evaluation_id x, tn_action_id x)) ` set earlier
     \<and> tn_idempotency_key i \<noteq> []
     \<and> (publication_mode_of (tn_publication_mode i) = Some FORWARD_ONLY) = (tn_rendering_template_version_id i = None)
     \<and> publication_mode_of (tn_publication_mode i) \<noteq> None
     \<and> tn_evaluation_id i \<in> te_id ` set (gd_evaluations db) \<and> tn_message_id i \<in> ms_id ` set (gd_messages db)
     \<and> tn_policy_version_id i \<in> tv_id ` set (gd_versions db) \<and> tn_rule_id i \<in> tr_id ` set (gd_rules db)
     \<and> tn_action_id i \<in> ta_id ` set (gd_actions db)
     \<and> tn_destination_channel_id i \<in> td_id ` set (gd_destinations db)
     \<and> tn_publish_identity_id i \<in> ti_id ` set (gd_identities db)
     \<and> (case tn_rendering_template_version_id i of None \<Rightarrow> True | Some t \<Rightarrow> t \<in> tt_id ` set (gd_templates db))"

fun insert_intents :: "intent_row list \<Rightarrow> routing_database \<Rightarrow> routing_database result" where
  "insert_intents [] db = Inr db"
| "insert_intents (i # is) db =
     (if 96 < length (tn_idempotency_key i) then Inl DataError
      else if \<not> intent_allowed db (gd_intents db) i then Inl IntegrityError
      else insert_intents is (db\<lparr>gd_intents := gd_intents db @ [i]\<rparr>))"

definition with_reused :: "routing_execution \<Rightarrow> routing_execution" where
  "with_reused r = r\<lparr>ex_persisted := True, ex_reused := True, ex_dry_run := False\<rparr>"

definition persist_evaluation ::
  "(pyval \<Rightarrow> string) \<Rightarrow> evaluation_draft \<Rightarrow> routing_decision \<Rightarrow> intent_draft list \<Rightarrow> routing_database \<Rightarrow>
     (routing_execution \<times> routing_database) result" where
  "persist_evaluation shown d decision intents db =
     try_bind (validate_persistence_payload d decision intents) (\<lambda>_.
     try_bind (evaluation_record d) (\<lambda>e.
     try_bind (insert_evaluation e db) (\<lambda>inserted.
       case inserted of
         None \<Rightarrow>
           try_bind (load_execution_by_request shown (ed_request_id d) db) (\<lambda>existing.
           case existing of
             None \<Rightarrow> Inl RuntimeError
           | Some r \<Rightarrow>
               try_bind (validate_routing_request_reuse r (ed_request_id d) (ed_message_id d)
                 (ed_policy_version_id d)) (\<lambda>_. Inr (with_reused r, db)))
       | Some db1 \<Rightarrow>
           try_bind (traverse intent_record intents) (\<lambda>rows.
           try_bind (insert_intents rows db1) (\<lambda>db2.
             Inr (new_execution_result d decision intents False, db2))))))"

end
