(* ===== verification/Routing_Records.thy ===== *)
theory Routing_Records
  imports Routing_Store
begin

text \<open>
  Stored evaluations are read back as they were written.  The order in which a decision lists its
  actions is recovered from the rank of their rules and their output order; this makes the
  repository a provider of the interface of the routing service.
\<close>

section \<open>Canonical databases\<close>

abbreviation canonical :: "uuid \<Rightarrow> bool" where
  "canonical u \<equiv> as_uuid u = Inr u"

definition canonical_option :: "uuid option \<Rightarrow> bool" where
  "canonical_option v \<longleftrightarrow> (case v of None \<Rightarrow> True | Some u \<Rightarrow> canonical u)"

definition canonical_ids :: "(nat \<Rightarrow> string) \<Rightarrow> bool" where
  "canonical_ids fresh \<longleftrightarrow> (\<forall>n. canonical (fresh n))"

text \<open>UUID columns hold UUIDs; the unique and foreign keys that reading back relies on.\<close>

definition routing_sound :: "routing_database \<Rightarrow> bool" where
  "routing_sound db \<longleftrightarrow>
     (\<forall>r \<in> set (gd_rules db). canonical (tr_id r))
     \<and> (\<forall>a \<in> set (gd_actions db). canonical (ta_id a) \<and> canonical (ta_destination_channel_id a)
          \<and> canonical_option (ta_rendering_template_version_id a)
          \<and> canonical_option (ta_publish_identity_id a))
     \<and> (\<forall>d \<in> set (gd_destinations db). canonical (td_default_publish_identity_id d))
     \<and> distinct (map ta_id (gd_actions db))
     \<and> distinct (map (\<lambda>a. (ta_rule_id a, ta_output_order a)) (gd_actions db))
     \<and> distinct (map te_id (gd_evaluations db)) \<and> distinct (map te_routing_request_id (gd_evaluations db))
     \<and> (\<forall>i \<in> set (gd_intents db). tn_evaluation_id i \<in> te_id ` set (gd_evaluations db))"

lemma canonical_as_uuid: "as_uuid s = Inr u \<Longrightarrow> canonical u"
  by (rule as_uuid_canonical)

lemma canonical_eq: "canonical s \<Longrightarrow> as_uuid s = Inr u \<Longrightarrow> u = s"
  by simp

lemma optional_canonical: "canonical_option v \<Longrightarrow> optional_uuid v = Inr v"
  by (auto simp: canonical_option_def optional_uuid_def split: option.splits)

section \<open>Rows and drafts\<close>

definition canonical_draft :: "intent_draft \<Rightarrow> bool" where
  "canonical_draft i \<longleftrightarrow> canonical (pi_intent_id i) \<and> canonical (pi_evaluation_id i)
     \<and> canonical (pi_message_id i) \<and> canonical (pi_policy_version_id i) \<and> canonical (pi_rule_id i)
     \<and> canonical (pi_action_id i) \<and> canonical (pi_destination_channel_id i)
     \<and> canonical (pi_publish_identity_id i) \<and> canonical_option (pi_rendering_template_version_id i)
     \<and> pi_status i = ''pending''"

lemma intent_record_draft:
  assumes "canonical_draft i"
  obtains r where "intent_record i = Inr r" "intent_draft_from_record r = i"
  using assms
  by (simp add: canonical_draft_def intent_record_def intent_draft_from_record_def optional_canonical)

lemma intent_records_drafts:
  assumes "\<forall>i \<in> set intents. canonical_draft i" and "traverse intent_record intents = Inr rows"
  shows "map intent_draft_from_record rows = intents"
proof -
  from assms(2) have "list_all2 (\<lambda>i r. intent_record i = Inr r) intents rows" by (simp add: result_simps)
  then show ?thesis using assms(1)
  proof (induction rule: list_all2_induct)
    case (Cons i ds r rs)
    then have "canonical_draft i" by simp
    from intent_record_draft [OF this] obtain r' where "intent_record i = Inr r'"
        "intent_draft_from_record r' = i" .
    with Cons show ?case by simp
  qed simp
qed

lemma outcome_round_trip: "rule_outcome_from_snapshot shown (outcome_document x) = Inr x"
  by (simp add: rule_outcome_from_snapshot_def outcome_document_def stored_flag_def stored_item_def
      stored_bool_def text_of_def)

lemma outcomes_round_trip: "traverse (rule_outcome_from_snapshot shown) (map outcome_document xs) = Inr xs"
  by (induction xs) (simp_all add: outcome_round_trip)

section \<open>The rank of a rule\<close>

lemma filter_enumerate:
  "distinct (map f xs) \<Longrightarrow> k < length xs \<Longrightarrow>
   filter (\<lambda>p. f (snd p) = f (xs ! k)) (List.enumerate n xs) = [(n + k, xs ! k)]"
proof (induction xs arbitrary: n k)
  case (Cons x xs)
  show ?case
  proof (cases k)
    case 0
    have "f (snd p) \<noteq> f x" if "p \<in> set (List.enumerate (Suc n) xs)" for p
    proof -
      from that have "snd p \<in> set (map snd (List.enumerate (Suc n) xs))" by (simp only: set_map image_eqI)
      then have "f (snd p) \<in> f ` set xs" by (simp only: map_snd_enumerate imageI)
      with Cons.prems show ?thesis by auto
    qed
    with 0 show ?thesis by (simp add: filter_empty_conv)
  next
    case (Suc j)
    with Cons.prems have "f x \<noteq> f (xs ! j)" "j < length xs" "distinct (map f xs)" by auto
    with Cons.IH [of j "Suc n"] Suc show ?thesis by simp
  qed
qed simp

lemma rank_of_nth:
  assumes "distinct (map ro_rule_id outcomes)" and "k < length outcomes"
  shows "rank_of outcomes (ro_rule_id (outcomes ! k)) = k"
proof -
  have eq: "(\<lambda>(i, x). dict_set (ro_rule_id x) i) = (\<lambda>p. dict_set (ro_rule_id (snd p)) (fst p))"
    by (simp add: fun_eq_iff split_def)
  have "map_of (rank_table outcomes) (ro_rule_id (outcomes ! k)) = Some k"
    using filter_enumerate [OF assms, of 0]
    by (simp add: rank_table_def eq dict.get_fold_put)
  then show ?thesis by (simp add: rank_of_def)
qed

section \<open>The order of a decision's actions\<close>

lemma sorted_wrt_concat_map:
  "(\<And>x. x \<in> set xs \<Longrightarrow> sorted_wrt R (f x)) \<Longrightarrow>
   sorted_wrt (\<lambda>x y. \<forall>a \<in> set (f x). \<forall>b \<in> set (f y). R a b) xs \<Longrightarrow> sorted_wrt R (concat (map f xs))"
  by (induction xs) (auto simp: sorted_wrt_append)

lemma distinct_examined: "distinct (map f rs) \<Longrightarrow> distinct (map f (examined_rules facts rs))"
proof (induction rs)
  case (Cons r rs)
  then show ?case using set_examined_rules [of facts rs] by auto
qed simp

lemma rank_of_examined:
  assumes "distinct (map rr_rule_id ex)"
  shows "sorted_wrt (\<lambda>x y. rank_of (map (rule_outcome_of facts) ex) (rr_rule_id x)
     < rank_of (map (rule_outcome_of facts) ex) (rr_rule_id y)) ex"
proof -
  have ids: "map ro_rule_id (map (rule_outcome_of facts) ex) = map rr_rule_id ex"
    by (simp add: rule_outcome_of_def)
  have "rank_of (map (rule_outcome_of facts) ex) (rr_rule_id (ex ! k)) = k" if "k < length ex" for k
  proof -
    have "distinct (map ro_rule_id (map (rule_outcome_of facts) ex))" using assms by (simp only: ids)
    from rank_of_nth [OF this, of k] that show ?thesis by (simp add: rule_outcome_of_def)
  qed
  then show ?thesis by (simp add: sorted_wrt_iff_nth_less)
qed

definition action_key :: "rule_outcome list \<Rightarrow> action_row list \<Rightarrow> publication_action \<Rightarrow> nat \<times> int" where
  "action_key outcomes rows a =
     (rank_of outcomes (the (pa_routing_rule_id a)), output_order_of rows (pa_action_id a))"

text \<open>Within a rule the actions follow their output order.\<close>

definition ordered_rule :: "(uuid \<Rightarrow> int) \<Rightarrow> routing_rule \<Rightarrow> bool" where
  "ordered_rule order r \<longleftrightarrow> sorted_wrt (\<lambda>a b. order (pa_action_id a) < order (pa_action_id b)) (rr_actions r)"

lemma decision_sorted:
  assumes "constructed_policy p"
    and "\<forall>r \<in> set (rp_rules p). ordered_rule (output_order_of rows) r"
  shows "sorted_wrt (\<lambda>a b. action_key (rd_outcomes (routing_spec p facts)) rows a
     < action_key (rd_outcomes (routing_spec p facts)) rows b) (rd_actions (routing_spec p facts))"
proof -
  let ?ex = "examined_rules facts (sort_key rule_order (rp_rules p))"
  let ?os = "map (rule_outcome_of facts) ?ex"
  let ?R = "\<lambda>a b. action_key ?os rows a < action_key ?os rows b"
  have dist: "distinct (map rr_rule_id ?ex)"
    by (rule distinct_examined) (simp add: constructed_distinct [OF assms(1)])
  have inner: "sorted_wrt ?R (owned_actions r)" if "r \<in> set (filter (rule_matches facts) ?ex)" for r
  proof -
    have "r \<in> set (rp_rules p)" using that set_examined_rules by fastforce
    with assms(2) have "ordered_rule (output_order_of rows) r" by blast
    then show ?thesis
      by (simp add: ordered_rule_def owned_actions_def sorted_wrt_map action_key_def)
  qed
  have outer: "sorted_wrt (\<lambda>x y. \<forall>a \<in> set (owned_actions x). \<forall>b \<in> set (owned_actions y). ?R a b)
      (filter (rule_matches facts) ?ex)"
    by (rule sorted_wrt_filter, rule sorted_wrt_mono_rel [OF _ rank_of_examined [OF dist, of facts]])
      (auto simp: owned_actions_def action_key_def)
  have "sorted_wrt ?R (concat (map owned_actions (filter (rule_matches facts) ?ex)))"
    by (rule sorted_wrt_concat_map [OF inner outer])
  then show ?thesis by (simp add: routing_spec_def Let_def)
qed

section \<open>Loaded policies\<close>

definition canonical_action :: "publication_action \<Rightarrow> bool" where
  "canonical_action a \<longleftrightarrow> canonical (pa_action_id a) \<and> canonical (pa_destination_channel_id a)
     \<and> canonical_option (pa_rendering_template_version_id a)
     \<and> canonical_option (pa_publish_identity_id a)"

lemma check_routing_rule_same: "check_routing_rule q = Inr q' \<Longrightarrow> q' = q"
  by (auto simp: check_routing_rule_def result_simps split: if_splits)

lemma check_routing_policy_same: "check_routing_policy q = Inr q' \<Longrightarrow> q' = q"
  by (auto simp: check_routing_policy_def split: if_splits)

lemma check_publication_action_same: "check_publication_action q = Inr q' \<Longrightarrow> q' = q"
  by (auto simp: check_publication_action_def split: if_splits option.splits)

lemma action_of_row_Inr:
  assumes "action_of_row r a = Inr b"
  shows "b = \<lparr>pa_action_id = ta_id a, pa_destination_channel_id = ta_destination_channel_id a,
      pa_publication_mode = ta_publication_mode a,
      pa_rendering_template_version_id = ta_rendering_template_version_id a,
      pa_publish_identity_id = ta_publish_identity_id a, pa_routing_rule_id = Some (tr_id r)\<rparr>"
    and "check_publication_action b = Inr b"
proof -
  show b: "b = \<lparr>pa_action_id = ta_id a, pa_destination_channel_id = ta_destination_channel_id a,
      pa_publication_mode = ta_publication_mode a,
      pa_rendering_template_version_id = ta_rendering_template_version_id a,
      pa_publish_identity_id = ta_publish_identity_id a, pa_routing_rule_id = Some (tr_id r)\<rparr>"
    using assms unfolding action_of_row_def by (rule check_publication_action_same)
  show "check_publication_action b = Inr b" using assms by (simp add: action_of_row_def b)
qed

lemma rule_of_row_Inr:
  assumes "rule_of_row actions r = Inr q"
  shows "constructed_rule q" and "rr_rule_id q = tr_id r"
    and "list_all2 (\<lambda>a b. action_of_row r a = Inr b)
      (sort_key (\<lambda>a. (ta_output_order a, ta_id a)) (filter (\<lambda>a. ta_rule_id a = tr_id r) actions)) (rr_actions q)"
proof -
  from assms obtain bs where bs: "list_all2 (\<lambda>a b. action_of_row r a = Inr b)
      (sort_key (\<lambda>a. (ta_output_order a, ta_id a)) (filter (\<lambda>a. ta_rule_id a = tr_id r) actions)) bs"
      and c: "check_routing_rule \<lparr>rr_rule_id = tr_id r, rr_priority = tr_priority r,
        rr_condition = tr_condition r, rr_actions = bs, rr_stop_on_match = tr_stop_on_match r,
        rr_enabled = tr_enabled r\<rparr> = Inr q"
    by (auto simp: rule_of_row_def result_simps)
  from check_routing_rule_same [OF c] have q: "q = \<lparr>rr_rule_id = tr_id r, rr_priority = tr_priority r,
        rr_condition = tr_condition r, rr_actions = bs, rr_stop_on_match = tr_stop_on_match r,
        rr_enabled = tr_enabled r\<rparr>" .
  show "rr_rule_id q = tr_id r" by (simp add: q)
  show "list_all2 (\<lambda>a b. action_of_row r a = Inr b)
      (sort_key (\<lambda>a. (ta_output_order a, ta_id a)) (filter (\<lambda>a. ta_rule_id a = tr_id r) actions)) (rr_actions q)"
    using bs by (simp add: q)
  have "check_publication_action b = Inr b" if "b \<in> set bs" for b
    using bs that action_of_row_Inr(2) by (fastforce simp: list_all2_conv_all_nth in_set_conv_nth)
  with c show "constructed_rule q" by (simp add: constructed_rule_def q)
qed

lemma find_action: "distinct (map ta_id rows) \<Longrightarrow> a \<in> set rows \<Longrightarrow> output_order_of rows (ta_id a) = ta_output_order a"
  by (simp add: output_order_of_def find_distinct)

lemma set_load_actions: "set (load_actions rules db) \<subseteq> set (gd_actions db)"
  by (auto simp: load_actions_def)

lemma loaded_rule:
  assumes "routing_sound db" and "rule_of_row (load_actions rules db) r = Inr q"
  shows "ordered_rule (output_order_of (gd_actions db)) q"
    and "a \<in> set (rr_actions q) \<Longrightarrow> canonical_action a"
proof -
  let ?as = "sort_key (\<lambda>a. (ta_output_order a, ta_id a))
    (filter (\<lambda>a. ta_rule_id a = tr_id r) (load_actions rules db))"
  have l: "list_all2 (\<lambda>a b. action_of_row r a = Inr b) ?as (rr_actions q)" by (rule rule_of_row_Inr [OF assms(2)])
  then have ids: "map pa_action_id (rr_actions q) = map ta_id ?as"
    by (induction rule: list_all2_induct) (auto dest: action_of_row_Inr(1))
  have sub: "set ?as \<subseteq> set (gd_actions db)" using set_load_actions by fastforce
  have d: "distinct (map ta_id (gd_actions db))"
      "distinct (map (\<lambda>a. (ta_rule_id a, ta_output_order a)) (gd_actions db))"
    using assms(1) by (simp_all add: routing_sound_def)
  have dist: "distinct ?as"
    using d(1) by (simp add: load_actions_def distinct_map)
  have "sorted_wrt (\<lambda>a b. ta_output_order a < ta_output_order b) ?as"
  proof -
    have "sorted_wrt (\<lambda>a b. (ta_output_order a, ta_id a) \<le> (ta_output_order b, ta_id b) \<and> a \<noteq> b) ?as"
      by (rule sorted_distinct_strict [OF sorted_sort_key dist])
    then show ?thesis
    proof (rule sorted_wrt_mono_rel [rotated])
      fix a b assume ab: "a \<in> set ?as" "b \<in> set ?as"
        and le: "(ta_output_order a, ta_id a) \<le> (ta_output_order b, ta_id b) \<and> a \<noteq> b"
      have "ta_rule_id a = ta_rule_id b" using ab by simp
      with distinct_key_eq [OF d(2), of a b] ab sub le have "ta_output_order a \<noteq> ta_output_order b" by auto
      with le show "ta_output_order a < ta_output_order b" by (auto simp: less_eq_prod_def)
    qed
  qed
  then have "sorted_wrt (\<lambda>a b. output_order_of (gd_actions db) (ta_id a) < output_order_of (gd_actions db) (ta_id b)) ?as"
    by (rule sorted_wrt_mono_rel [rotated]) (use sub in \<open>simp add: find_action [OF d(1)] subset_iff\<close>)
  then have "sorted_wrt (\<lambda>i j. output_order_of (gd_actions db) i < output_order_of (gd_actions db) j) (map ta_id ?as)"
    by (simp only: sorted_wrt_map)
  then show "ordered_rule (output_order_of (gd_actions db)) q"
    by (simp only: ordered_rule_def ids [symmetric] sorted_wrt_map)
  assume "a \<in> set (rr_actions q)"
  from list_all2_member2 [OF l this] obtain x where x: "x \<in> set ?as" "action_of_row r x = Inr a" by blast
  with sub assms(1) show "canonical_action a"
    by (auto simp: canonical_action_def routing_sound_def action_of_row_Inr(1) [OF x(2)])
qed

lemma build_policyE:
  assumes "build_policy version rules actions db = Inr (p, defaults)"
  shows "constructed_policy p" and "rp_policy_version_id p = tv_id version"
    and "list_all2 (\<lambda>r q. rule_of_row actions r = Inr q) rules (rp_rules p)"
    and "map_of defaults k = Some i \<Longrightarrow> \<exists>d \<in> set (gd_destinations db). td_default_publish_identity_id d = i"
proof -
  from assms obtain ds where ds: "load_destinations actions db = Inr ds"
      and pr: "policy_of_rows version rules actions = Inr p" and de: "defaults = destination_defaults ds"
    unfolding build_policy_def by (elim try_bindE) blast
  from pr obtain qs where tr: "traverse (rule_of_row actions) rules = Inr qs"
      and c: "check_routing_policy \<lparr>rp_policy_version_id = tv_id version, rp_rules = qs\<rparr> = Inr p"
    unfolding policy_of_rows_def guard_Inr by (elim conjE try_bindE)
  from tr have qs: "list_all2 (\<lambda>r q. rule_of_row actions r = Inr q) rules qs" by (simp only: traverse_Inr)
  from check_routing_policy_same [OF c] have p: "p = \<lparr>rp_policy_version_id = tv_id version, rp_rules = qs\<rparr>" .
  show "rp_policy_version_id p = tv_id version" by (simp add: p)
  show "list_all2 (\<lambda>r q. rule_of_row actions r = Inr q) rules (rp_rules p)" using qs by (simp add: p)
  have "constructed_rule q" if "q \<in> set qs" for q
    using list_all2_member2 [OF qs that] rule_of_row_Inr(1) by blast
  with c show "constructed_policy p" by (simp add: constructed_policy_def p)
  assume k: "map_of defaults k = Some i"
  have "set ds \<subseteq> set (gd_destinations db)" using ds by (auto simp: load_destinations_def Let_def split: if_splits)
  moreover have "\<exists>d \<in> set ds. td_default_publish_identity_id d = i"
  proof (cases "filter (\<lambda>d. td_id d = k) ds")
    case Nil
    with k show ?thesis by (simp add: de destination_defaults_def dict.get_fold_put)
  next
    case (Cons d' ds')
    then have "last (filter (\<lambda>d. td_id d = k) ds) \<in> set (filter (\<lambda>d. td_id d = k) ds)" by (intro last_in_set) simp
    moreover have "td_default_publish_identity_id (last (filter (\<lambda>d. td_id d = k) ds)) = i"
      using k Cons by (simp add: de destination_defaults_def dict.get_fold_put)
    ultimately show ?thesis by auto
  qed
  ultimately show "\<exists>d \<in> set (gd_destinations db). td_default_publish_identity_id d = i" by blast
qed

text \<open>What a loaded snapshot guarantees about its policy and identifiers.\<close>

definition loaded :: "routing_database \<Rightarrow> routing_snapshot \<Rightarrow> bool" where
  "loaded db s \<longleftrightarrow> canonical (sn_message_id s) \<and> canonical (rp_policy_version_id (sn_policy s))
     \<and> constructed_policy (sn_policy s)
     \<and> (\<forall>q \<in> set (rp_rules (sn_policy s)). canonical (rr_rule_id q)
          \<and> ordered_rule (output_order_of (gd_actions db)) q \<and> (\<forall>a \<in> set (rr_actions q). canonical_action a))
     \<and> (\<forall>k i. map_of (sn_destination_identities s) k = Some i \<longrightarrow> canonical i)"

lemma load_snapshot_loaded:
  assumes "routing_sound db" and "load_snapshot mid pid db = Inr s"
  shows "loaded db s"
proof -
  from assms(2) obtain u v where m1: "as_uuid mid = Inr u" and v1: "as_uuid pid = Inr v"
    unfolding load_snapshot_def by (elim try_bindE) blast
  obtain m where m2: "find (\<lambda>m. ms_id m = u) (gd_messages db) = Some m"
    using assms(2) by (cases "find (\<lambda>m. ms_id m = u) (gd_messages db)") (simp_all add: load_snapshot_def m1 v1)
  obtain channel where ch: "find (\<lambda>c. ch_id c = ms_source_channel_id m) (gd_channels db) = Some channel"
    using assms(2) by (cases "find (\<lambda>c. ch_id c = ms_source_channel_id m) (gd_channels db)")
      (simp_all add: load_snapshot_def m1 v1 m2)
  obtain version where v2: "find (\<lambda>x. tv_id x = v) (gd_versions db) = Some version"
    using assms(2) by (cases "find (\<lambda>x. tv_id x = v) (gd_versions db)")
      (simp_all add: load_snapshot_def m1 v1 m2 ch)
  note m = m1 m2 and v = v1 v2
  have b: "build_policy version (load_rules v db) (load_actions (load_rules v db) db) db
        = Inr (sn_policy s, sn_destination_identities s) \<and> sn_message_id s = ms_id m"
    using assms(2) by (auto simp: load_snapshot_def m v ch check_routing_snapshot_def result_simps Let_def
        split: if_splits)
  then have sm: "sn_message_id s = ms_id m" and b: "build_policy version (load_rules v db)
      (load_actions (load_rules v db) db) db = Inr (sn_policy s, sn_destination_identities s)" by blast+
  have "ms_id m = u" "tv_id version = v" using m(2) v(2) by (auto dest: find_key_Some)
  then have ids: "canonical (sn_message_id s)" "canonical (rp_policy_version_id (sn_policy s))"
    using canonical_as_uuid [OF m(1)] canonical_as_uuid [OF v(1)] build_policyE(2) [OF b] sm by simp_all
  have rules: "canonical (rr_rule_id q) \<and> ordered_rule (output_order_of (gd_actions db)) q
      \<and> (\<forall>a \<in> set (rr_actions q). canonical_action a)" if "q \<in> set (rp_rules (sn_policy s))" for q
  proof -
    from list_all2_member2 [OF build_policyE(3) [OF b] that] obtain r where r: "r \<in> set (load_rules v db)"
        "rule_of_row (load_actions (load_rules v db) db) r = Inr q" by blast
    from r(1) assms(1) have "canonical (tr_id r)" by (simp add: load_rules_def routing_sound_def)
    with loaded_rule [OF assms(1) r(2)] rule_of_row_Inr(2) [OF r(2)] show ?thesis by simp
  qed
  have "canonical i" if "map_of (sn_destination_identities s) k = Some i" for k i
    using build_policyE(4) [OF b that] assms(1) by (auto simp: routing_sound_def)
  with ids rules build_policyE(1) [OF b] show ?thesis by (simp add: loaded_def)
qed

section \<open>Intents of a decision\<close>

lemma build_intents_all:
  "build_intents sha fresh n d defaults as = Inr is \<Longrightarrow>
   list_all2 (\<lambda>a i. \<exists>k. build_intent sha (fresh k) d defaults a = Inr i) as is"
  by (induction as arbitrary: n "is") (auto simp: result_simps)

text \<open>The fields that an intent takes over from the action and the evaluation.\<close>

definition intent_of :: "evaluation_draft \<Rightarrow> publication_action \<Rightarrow> intent_draft \<Rightarrow> bool" where
  "intent_of d a i \<longleftrightarrow> pi_evaluation_id i = ed_evaluation_id d \<and> pi_request_id i = ed_request_id d
     \<and> pi_message_id i = ed_message_id d \<and> pi_policy_version_id i = ed_policy_version_id d
     \<and> pa_routing_rule_id a = Some (pi_rule_id i) \<and> pi_action_id i = pa_action_id a
     \<and> pi_destination_channel_id i = pa_destination_channel_id a
     \<and> pi_publication_mode i = pa_publication_mode a
     \<and> pi_rendering_template_version_id i = pa_rendering_template_version_id a
     \<and> pi_status i = ''pending''"

lemma build_intent_Inr:
  assumes "build_intent sha iid d defaults a = Inr i"
  shows "intent_of d a i" and "pi_intent_id i = iid" and "publish_identity defaults a = Some (pi_publish_identity_id i)"
  using assms by (auto simp: build_intent_def intent_of_def result_simps publication_mode_of_Some
      split: option.splits if_splits)

lemma built_intent_canonical:
  assumes "build_intent sha iid d defaults a = Inr i" and "canonical iid" and "canonical_action a"
    and "pa_routing_rule_id a = Some rule" and "canonical rule"
    and "canonical (ed_evaluation_id d)" "canonical (ed_message_id d)" "canonical (ed_policy_version_id d)"
    and "\<And>k i. map_of defaults k = Some i \<Longrightarrow> canonical i"
  shows "canonical_draft i"
proof -
  note b = build_intent_Inr [OF assms(1)]
  have "canonical (pi_publish_identity_id i)"
    using b(3) assms(3,9) by (auto simp: publish_identity_def canonical_action_def canonical_option_def split: option.splits)
  with b assms show ?thesis by (auto simp: canonical_draft_def intent_of_def canonical_action_def)
qed

lemma intent_action_valid:
  assumes "intent_of d a i" and "intent_draft_from_record r = i" and "check_publication_action a = Inr a"
    and "canonical (pi_publish_identity_id i)"
  shows "\<exists>b. action_from_intent r = Inr b"
proof -
  have "\<not> blank (tn_publish_identity_id r)"
    using as_uuid_not_blank [OF assms(4)] assms(2) by (auto simp: intent_draft_from_record_def)
  moreover have "pa_action_id a = tn_action_id r" "pa_destination_channel_id a = tn_destination_channel_id r"
      "pa_publication_mode a = tn_publication_mode r"
      "pa_rendering_template_version_id a = tn_rendering_template_version_id r"
      "pa_routing_rule_id a = Some (tn_rule_id r)"
    using assms(1,2) by (auto simp: intent_of_def intent_draft_from_record_def)
  ultimately show ?thesis using assms(3)
    by (auto simp: action_from_intent_def check_publication_action_def blank_option_def
        split: if_splits option.splits)
qed

section \<open>Inserts\<close>

lemma insert_evaluation_Some:
  assumes "insert_evaluation e db = Inr (Some db')"
  shows "db' = db\<lparr>gd_evaluations := gd_evaluations db @ [e]\<rparr>"
    and "te_routing_request_id e \<notin> te_routing_request_id ` set (gd_evaluations db)"
    and "te_id e \<notin> te_id ` set (gd_evaluations db)"
  using assms by (simp_all add: insert_evaluation_def split: if_splits)

lemma insert_evaluation_None:
  "insert_evaluation e db = Inr None \<Longrightarrow> te_routing_request_id e \<in> te_routing_request_id ` set (gd_evaluations db)"
  by (simp add: insert_evaluation_def split: if_splits)

lemma insert_intents_Inr:
  "insert_intents is db = Inr db' \<Longrightarrow>
     db' = db\<lparr>gd_intents := gd_intents db @ is\<rparr>
     \<and> (\<forall>i \<in> set is. tn_action_id i \<in> ta_id ` set (gd_actions db) \<and> tn_evaluation_id i \<in> te_id ` set (gd_evaluations db))"
proof (induction "is" arbitrary: db)
  case (Cons i "is")
  then have a: "intent_allowed db (gd_intents db) i"
    and r: "insert_intents is (db\<lparr>gd_intents := gd_intents db @ [i]\<rparr>) = Inr db'"
    by (simp_all split: if_splits)
  from Cons.IH [OF r] a show ?case by (simp add: intent_allowed_def)
qed simp

section \<open>Reading back\<close>

lemma find_appended: "(\<And>y. y \<in> set xs \<Longrightarrow> \<not> P y) \<Longrightarrow> P x \<Longrightarrow> find P (xs @ [x]) = Some x"
  by (induction xs) auto

lemma output_order_of_filter:
  "i \<in> S \<Longrightarrow> output_order_of (filter (\<lambda>a. ta_id a \<in> S) rows) i = output_order_of rows i"
proof -
  assume "i \<in> S"
  then have "find (\<lambda>a. ta_id a = i) (filter (\<lambda>a. ta_id a \<in> S) rows) = find (\<lambda>a. ta_id a = i) rows"
    by (induction rows) auto
  then show ?thesis by (simp add: output_order_of_def)
qed

definition read_back :: "evaluation_row \<Rightarrow> rule_outcome list \<Rightarrow> publication_action list \<Rightarrow> intent_row list \<Rightarrow> routing_execution" where
  "read_back e outcomes as rows =
     \<lparr>ex_evaluation_id = te_id e, ex_request_id = te_routing_request_id e,
      ex_message_id = te_message_id e, ex_policy_version_id = te_policy_version_id e,
      ex_facts = te_facts_snapshot e, ex_facts_hash = te_facts_hash e,
      ex_decision = \<lparr>rd_policy_version_id = te_policy_version_id e, rd_outcomes = outcomes,
        rd_actions = as, rd_stopped_at_rule_id = te_stopped_at_rule_id e\<rparr>,
      ex_intents = map intent_draft_from_record rows,
      ex_persisted = True, ex_reused = False, ex_dry_run = False\<rparr>"

lemma load_stored:
  assumes "find (\<lambda>x. te_routing_request_id x = req) (gd_evaluations db) = Some e"
    and "filter (\<lambda>i. tn_evaluation_id i = te_id e) (gd_intents db) = rows"
    and "\<forall>i \<in> set rows. tn_action_id i \<in> ta_id ` set (gd_actions db)"
    and "te_rule_outcomes e = map outcome_document outcomes"
    and "sorted_wrt (\<lambda>i j. (rank_of outcomes (tn_rule_id i), output_order_of (gd_actions db) (tn_action_id i))
           < (rank_of outcomes (tn_rule_id j), output_order_of (gd_actions db) (tn_action_id j))) rows"
    and "traverse action_from_intent rows = Inr as"
  shows "load_execution_by_request shown req db = Inr (Some (read_back e outcomes as rows))"
proof -
  let ?acts = "filter (\<lambda>a. ta_id a \<in> tn_action_id ` set rows) (gd_actions db)"
  let ?key = "\<lambda>i. (rank_of outcomes (tn_rule_id i), output_order_of ?acts (tn_action_id i), tn_id i)"
  have "set (map ta_id (filter (\<lambda>a. ta_id a \<in> S) xs)) = ta_id ` set xs \<inter> S" for S xs by auto
  from this [of "tn_action_id ` set rows" "gd_actions db"]
  have "set (map ta_id ?acts) = ta_id ` set (gd_actions db) \<inter> tn_action_id ` set rows" .
  moreover have "tn_action_id ` set rows \<subseteq> ta_id ` set (gd_actions db)" using assms(3) by (intro image_subsetI) simp
  ultimately have ids: "set (map ta_id ?acts) = tn_action_id ` set rows" by (simp only: Int_absorb1)
  have "sorted_wrt (\<lambda>i j. ?key i \<le> ?key j) rows"
  proof (rule sorted_wrt_mono_rel [OF _ assms(5)])
    fix i j assume ij: "i \<in> set rows" "j \<in> set rows"
      and "(rank_of outcomes (tn_rule_id i), output_order_of (gd_actions db) (tn_action_id i))
           < (rank_of outcomes (tn_rule_id j), output_order_of (gd_actions db) (tn_action_id j))"
    moreover have "output_order_of ?acts (tn_action_id x) = output_order_of (gd_actions db) (tn_action_id x)"
      if "x \<in> set rows" for x using that by (intro output_order_of_filter imageI)
    ultimately have "(rank_of outcomes (tn_rule_id i), output_order_of ?acts (tn_action_id i))
           < (rank_of outcomes (tn_rule_id j), output_order_of ?acts (tn_action_id j))" by simp
    then show "?key i \<le> ?key j" unfolding less_prod_simp less_eq_prod_simp by (elim disjE conjE) simp_all
  qed
  then have "sorted (map ?key rows)" by (simp only: sorted_map)
  then have s: "sort_key ?key rows = rows" by (rule sort_key_id_if_sorted)
  show ?thesis
    unfolding load_execution_by_request_def assms(1) option.case Let_def assms(2) assms(4)
      outcomes_round_trip try_bind_simps s assms(6) read_back_def
    by (simp only: ids simp_thms if_False)
qed

section \<open>The repository provides the interface of the service\<close>

lemma spec_actions:
  assumes "a \<in> set (rd_actions (routing_spec p facts))"
  obtains r b where "r \<in> set (rp_rules p)" "b \<in> set (rr_actions r)"
    "a = b\<lparr>pa_routing_rule_id := Some (rr_rule_id r)\<rparr>"
proof -
  from assms obtain r b where "r \<in> set (examined_rules facts (sort_key rule_order (rp_rules p)))"
      "b \<in> set (rr_actions r)" "a = b\<lparr>pa_routing_rule_id := Some (rr_rule_id r)\<rparr>"
    by (auto simp: routing_spec_def Let_def owned_actions_def)
  with that set_examined_rules show thesis by fastforce
qed

lemma spec_stop:
  "rd_stopped_at_rule_id (routing_spec p facts) = Some i \<Longrightarrow> \<exists>r \<in> set (rp_rules p). i = rr_rule_id r"
proof -
  assume "rd_stopped_at_rule_id (routing_spec p facts) = Some i"
  then obtain r where "find (rule_stops facts) (examined_rules facts (sort_key rule_order (rp_rules p))) = Some r"
      "i = rr_rule_id r"
    by (auto simp: routing_spec_def Let_def)
  moreover from this(1) have "r \<in> set (examined_rules facts (sort_key rule_order (rp_rules p)))"
    by (auto simp: find_Some_iff)
  ultimately show ?thesis using set_examined_rules [of facts "sort_key rule_order (rp_rules p)"] by auto
qed

lemma loaded_actions:
  assumes "loaded db snap" and "a \<in> set (rd_actions (routing_spec (sn_policy snap) facts))"
  shows "canonical_action a" and "check_publication_action a = Inr a"
    and "\<exists>rule. pa_routing_rule_id a = Some rule \<and> canonical rule"
proof -
  from spec_actions [OF assms(2)] obtain r b where rb: "r \<in> set (rp_rules (sn_policy snap))"
      "b \<in> set (rr_actions r)" "a = b\<lparr>pa_routing_rule_id := Some (rr_rule_id r)\<rparr>" .
  have "canonical_action b" "canonical (rr_rule_id r)" "constructed_rule r"
    using assms(1) rb by (auto simp: loaded_def constructed_policy_def)
  with own_action_constructed [OF this(3) rb(2)] rb(3)
  show "canonical_action a" "check_publication_action a = Inr a"
      "\<exists>rule. pa_routing_rule_id a = Some rule \<and> canonical rule"
    by (simp_all add: canonical_action_def own_action_def)
qed

lemma plan_executionE:
  assumes "plan_execution sha fh fresh req snap = Inr (d, decision, intents)"
  obtains facts where "sn_message_id snap = rq_message_id req"
    "rp_policy_version_id (sn_policy snap) = rq_policy_version_id req"
    "evaluate_routing (sn_policy snap) facts = Inr decision" "d = make_draft fh (fresh 0) req facts decision"
    "build_intents sha fresh 1 d (sn_destination_identities snap) (rd_actions decision) = Inr intents"
  using assms unfolding plan_execution_def guard_Inr Let_def by (elim conjE try_bindE) (auto intro: that)

text \<open>Everything a plan hands to the repository has canonical identifiers and fits together.\<close>

lemma planned:
  assumes "loaded db snap" and "canonical_ids fresh"
    and "plan_execution sha fh fresh req snap = Inr (d, decision, intents)"
  obtains facts where "decision = routing_spec (sn_policy snap) facts" "ed_request_id d = rq_request_id req"
    "ed_rule_outcomes d = map outcome_document (rd_outcomes decision)"
    "canonical (ed_evaluation_id d)" "canonical (ed_message_id d)" "canonical (ed_policy_version_id d)"
    "canonical_option (ed_stopped_at_rule_id d)" "ed_stopped_at_rule_id d = rd_stopped_at_rule_id decision"
    "rd_policy_version_id decision = ed_policy_version_id d"
    "\<forall>i \<in> set intents. canonical_draft i" "list_all2 (intent_of d) (rd_actions decision) intents"
proof -
  from assms(3) obtain facts where p: "sn_message_id snap = rq_message_id req"
    "rp_policy_version_id (sn_policy snap) = rq_policy_version_id req"
    "evaluate_routing (sn_policy snap) facts = Inr decision" "d = make_draft fh (fresh 0) req facts decision"
    "build_intents sha fresh 1 d (sn_destination_identities snap) (rd_actions decision) = Inr intents"
    by (rule plan_executionE)
  have dec: "decision = routing_spec (sn_policy snap) facts"
    using p(3) assms(1) evaluate_routing_spec by (simp add: loaded_def)
  have stop: "canonical_option (rd_stopped_at_rule_id decision)"
    using spec_stop [of "sn_policy snap" facts] assms(1)
    by (auto simp: dec canonical_option_def loaded_def split: option.split)
  have c: "canonical (ed_evaluation_id d)" "canonical (ed_message_id d)" "canonical (ed_policy_version_id d)"
    using p(1,2) assms(1,2) by (simp_all add: p(4) make_draft_def canonical_ids_def loaded_def)
  have l: "list_all2 (\<lambda>a i. \<exists>k. build_intent sha (fresh k) d (sn_destination_identities snap) a = Inr i)
      (rd_actions decision) intents"
    by (rule build_intents_all [OF p(5)])
  have ci: "\<forall>i \<in> set intents. canonical_draft i"
  proof
    fix i assume "i \<in> set intents"
    from list_all2_member2 [OF l this] obtain a k where a: "a \<in> set (rd_actions decision)"
        "build_intent sha (fresh k) d (sn_destination_identities snap) a = Inr i" by blast
    note la = loaded_actions [OF assms(1) a(1) [unfolded dec]]
    from la(3) obtain rule where "pa_routing_rule_id a = Some rule" "canonical rule" by blast
    with built_intent_canonical [OF a(2) _ la(1) _ _ c] assms(1,2) show "canonical_draft i"
      by (simp add: canonical_ids_def loaded_def)
  qed
  have io: "list_all2 (intent_of d) (rd_actions decision) intents"
    by (rule list_all2_mono [OF l]) (auto dest: build_intent_Inr(1))
  show thesis
    by (rule that [OF dec _ _ c _ _ _ ci io])
      (simp_all add: p(4) make_draft_def stop, simp add: dec routing_spec_def Let_def p(2))
qed

lemma find_by_request_None:
  assumes "find_by_request_id shown req db = Inr None"
  shows "\<not> blank req" and "req \<notin> te_routing_request_id ` set (gd_evaluations db)"
proof -
  from assms show "\<not> blank req" by (simp add: find_by_request_id_def split: if_splits)
  from assms have l: "load_execution_by_request shown req db = Inr None"
    by (simp add: find_by_request_id_def split: if_splits)
  have "find (\<lambda>e. te_routing_request_id e = req) (gd_evaluations db) = None"
  proof (rule ccontr)
    assume "find (\<lambda>e. te_routing_request_id e = req) (gd_evaluations db) \<noteq> None"
    with l show False by (auto simp: load_execution_by_request_def result_simps Let_def split: if_splits)
  qed
  then show "req \<notin> te_routing_request_id ` set (gd_evaluations db)" by (auto simp: find_None_iff)
qed

lemma evaluation_record_Inr:
  assumes "canonical (ed_evaluation_id d)" "canonical (ed_message_id d)" "canonical (ed_policy_version_id d)"
    and "canonical_option (ed_stopped_at_rule_id d)" and "evaluation_record d = Inr e"
  shows "e = \<lparr>te_id = ed_evaluation_id d, te_routing_request_id = ed_request_id d, te_message_id = ed_message_id d,
      te_policy_version_id = ed_policy_version_id d, te_facts_snapshot = ed_facts d,
      te_facts_hash = ed_facts_hash d, te_rule_outcomes = ed_rule_outcomes d,
      te_stopped_at_rule_id = ed_stopped_at_rule_id d\<rparr>"
  using assms by (simp add: evaluation_record_def optional_canonical)

lemma persistE:
  assumes "persist_evaluation shown d decision intents db = Inr (r, db')"
  obtains e where "evaluation_record d = Inr e" "insert_evaluation e db = Inr None" "db' = db"
  | e rows where "evaluation_record d = Inr e"
    "insert_evaluation e db = Inr (Some (db\<lparr>gd_evaluations := gd_evaluations db @ [e]\<rparr>))"
    "traverse intent_record intents = Inr rows"
    "insert_intents rows (db\<lparr>gd_evaluations := gd_evaluations db @ [e]\<rparr>) = Inr db'"
    "r = new_execution_result d decision intents False"
proof -
  from assms obtain e i where e: "evaluation_record d = Inr e" and i: "insert_evaluation e db = Inr i"
    unfolding persist_evaluation_def by (elim try_bindE) blast
  show thesis
  proof (cases i)
    case None
    with assms e i have "db' = db"
      unfolding persist_evaluation_def by (auto simp: result_simps split: option.splits)
    with that(1) e i None show thesis by simp
  next
    case (Some db1)
    from insert_evaluation_Some(1) [OF i [unfolded Some]]
    have db1: "db1 = db\<lparr>gd_evaluations := gd_evaluations db @ [e]\<rparr>" .
    from assms e i Some obtain rows where "traverse intent_record intents = Inr rows"
        "insert_intents rows db1 = Inr db'" "r = new_execution_result d decision intents False"
      unfolding persist_evaluation_def by (auto elim!: try_bindE)
    with that(2) e i Some db1 show thesis by simp
  qed
qed

lemma stored_rows_sorted:
  assumes "list_all2 (intent_of d) as (map intent_draft_from_record rows)"
    and "sorted_wrt (\<lambda>a b. action_key outcomes actions a < action_key outcomes actions b) as"
  shows "sorted_wrt (\<lambda>i j. (rank_of outcomes (tn_rule_id i), output_order_of actions (tn_action_id i))
           < (rank_of outcomes (tn_rule_id j), output_order_of actions (tn_action_id j))) rows"
proof -
  let ?k = "\<lambda>i. (rank_of outcomes (tn_rule_id i), output_order_of actions (tn_action_id i))"
  have "map (action_key outcomes actions) as = map ?k rows"
    using assms(1)
  proof (induction as arbitrary: rows)
    case (Cons a as)
    then obtain r rs where rows: "rows = r # rs" by (cases rows) auto
    with Cons.prems have "intent_of d a (intent_draft_from_record r)" by simp
    then have "action_key outcomes actions a = ?k r"
      by (auto simp: intent_of_def intent_draft_from_record_def action_key_def)
    with Cons rows show ?case by simp
  qed simp
  moreover have "sorted_wrt (<) (map (action_key outcomes actions) as)"
    using assms(2) by (simp only: sorted_wrt_map)
  ultimately show ?thesis by (simp only: sorted_wrt_map)
qed

lemma stored_actions_valid:
  assumes "list_all2 (intent_of d) as (map intent_draft_from_record rows)"
    and "\<And>a. a \<in> set as \<Longrightarrow> check_publication_action a = Inr a"
    and "\<forall>i \<in> set (map intent_draft_from_record rows). canonical_draft i"
  shows "\<exists>bs. traverse action_from_intent rows = Inr bs"
  using assms
proof (induction as arbitrary: rows)
  case (Cons a as)
  then obtain r rs where rows: "rows = r # rs" by (cases rows) auto
  with Cons.prems have i: "intent_of d a (intent_draft_from_record r)"
      "check_publication_action a = Inr a" "canonical (pi_publish_identity_id (intent_draft_from_record r))"
    by (simp_all add: canonical_draft_def)
  from intent_action_valid [OF i(1) refl i(2,3)] obtain b where "action_from_intent r = Inr b" ..
  moreover from Cons.IH [of rs] Cons.prems rows obtain bs where "traverse action_from_intent rs = Inr bs" by auto
  ultimately show ?case using rows by simp
qed simp

lemma stored_evaluation_ids:
  assumes "map intent_draft_from_record rows = intents" and "list_all2 (intent_of d) as intents"
    and "e = \<lparr>te_id = ed_evaluation_id d, te_routing_request_id = q, te_message_id = m, te_policy_version_id = v,
      te_facts_snapshot = fs, te_facts_hash = h, te_rule_outcomes = os, te_stopped_at_rule_id = st\<rparr>"
    and "i \<in> set rows"
  shows "tn_evaluation_id i = te_id e"
proof -
  from assms(4) have "intent_draft_from_record i \<in> set intents" unfolding assms(1) [symmetric] by simp
  from list_all2_member2 [OF assms(2) this] show ?thesis
    by (auto simp: intent_of_def intent_draft_from_record_def assms(3))
qed

lemma persist_reads_back:
  assumes "routing_sound db" and "canonical_ids fresh"
    and "find_by_request_id shown (rq_request_id req) db = Inr None"
    and "load_snapshot (rq_message_id req) (rq_policy_version_id req) db = Inr snap"
    and "plan_execution sha fh fresh req snap = Inr (d, decision, intents)"
    and "persist_evaluation shown d decision intents db = Inr (r, db')"
  shows "r = new_execution_result d decision intents False
     \<and> (\<exists>s. find_by_request_id shown (rq_request_id req) db' = Inr (Some s) \<and> same_execution s r)"
proof -
  have l: "loaded db snap" by (rule load_snapshot_loaded [OF assms(1,4)])
  from planned [OF l assms(2,5)] obtain facts where p: "decision = routing_spec (sn_policy snap) facts"
    "ed_request_id d = rq_request_id req" "ed_rule_outcomes d = map outcome_document (rd_outcomes decision)"
    "canonical (ed_evaluation_id d)" "canonical (ed_message_id d)" "canonical (ed_policy_version_id d)"
    "canonical_option (ed_stopped_at_rule_id d)" "ed_stopped_at_rule_id d = rd_stopped_at_rule_id decision"
    "rd_policy_version_id decision = ed_policy_version_id d"
    "\<forall>i \<in> set intents. canonical_draft i" "list_all2 (intent_of d) (rd_actions decision) intents" .
  note n = find_by_request_None [OF assms(3)]
  from assms(6) show ?thesis
  proof (cases rule: persistE)
    case (1 e)
    from insert_evaluation_None [OF 1(2)] evaluation_record_Inr [OF p(4-7) 1(1)] p(2) n(2)
    show ?thesis by simp
  next
    case (2 e rows)
    note e = evaluation_record_Inr [OF p(4-7) 2(1)]
    have drafts: "map intent_draft_from_record rows = intents"
      by (rule intent_records_drafts [OF p(10) 2(3)])
    from insert_intents_Inr [OF 2(4)]
    have db': "db' = db\<lparr>gd_evaluations := gd_evaluations db @ [e], gd_intents := gd_intents db @ rows\<rparr>"
      and ra: "\<forall>i \<in> set rows. tn_action_id i \<in> ta_id ` set (gd_actions db')"
      by simp_all
    have fe: "find (\<lambda>x. te_routing_request_id x = rq_request_id req) (gd_evaluations db') = Some e"
      unfolding db' using n(2) p(2) by (simp, intro find_appended) (use e in \<open>auto simp: image_iff\<close>)
    have "tn_evaluation_id i \<noteq> te_id e" if "i \<in> set (gd_intents db)" for i
    proof -
      have "tn_evaluation_id i \<in> te_id ` set (gd_evaluations db)"
        using assms(1) that by (simp add: routing_sound_def)
      with insert_evaluation_Some(3) [OF 2(2)] show ?thesis by metis
    qed
    moreover have "tn_evaluation_id i = te_id e" if "i \<in> set rows" for i
      using that by (rule stored_evaluation_ids [OF drafts p(11) e])
    ultimately have fi: "filter (\<lambda>i. tn_evaluation_id i = te_id e) (gd_intents db') = rows"
      unfolding db' by (simp add: filter_empty_conv)
    have "sorted_wrt (\<lambda>a b. action_key (rd_outcomes decision) (gd_actions db') a
        < action_key (rd_outcomes decision) (gd_actions db') b) (rd_actions decision)"
      using l unfolding p(1) db' by (intro decision_sorted) (simp_all add: loaded_def)
    note so = stored_rows_sorted [OF p(11) [folded drafts] this]
    from stored_actions_valid [OF p(11) [folded drafts] _ p(10) [folded drafts]]
      loaded_actions(2) [OF l] p(1) obtain bs where bs: "traverse action_from_intent rows = Inr bs" by blast
    have "te_rule_outcomes e = map outcome_document (rd_outcomes decision)" by (simp add: e p(3))
    from load_stored [OF fe fi ra this so bs]
    have "find_by_request_id shown (rq_request_id req) db' = Inr (Some (read_back e (rd_outcomes decision) bs rows))"
      using n(1) by (simp add: find_by_request_id_def)
    moreover have "same_execution (read_back e (rd_outcomes decision) bs rows) r"
      by (simp add: same_execution_def read_back_def 2(5) new_execution_result_def e drafts p(8,9))
    ultimately show ?thesis using 2(5) by blast
  qed
qed

lemma persist_stores:
  assumes "loaded db snap" and "canonical_ids fresh"
    and "plan_execution sha fh fresh req snap = Inr (d, decision, intents)"
    and "persist_evaluation shown d decision intents db = Inr (r, db')"
  shows "db' = db \<or> (\<exists>e rows. db' = db\<lparr>gd_evaluations := gd_evaluations db @ [e], gd_intents := gd_intents db @ rows\<rparr>
         \<and> te_routing_request_id e = rq_request_id req \<and> (\<forall>i \<in> set rows. tn_evaluation_id i = te_id e))"
proof -
  from planned [OF assms(1-3)] obtain facts where p: "decision = routing_spec (sn_policy snap) facts"
    "ed_request_id d = rq_request_id req" "ed_rule_outcomes d = map outcome_document (rd_outcomes decision)"
    "canonical (ed_evaluation_id d)" "canonical (ed_message_id d)" "canonical (ed_policy_version_id d)"
    "canonical_option (ed_stopped_at_rule_id d)" "ed_stopped_at_rule_id d = rd_stopped_at_rule_id decision"
    "rd_policy_version_id decision = ed_policy_version_id d"
    "\<forall>i \<in> set intents. canonical_draft i" "list_all2 (intent_of d) (rd_actions decision) intents" .
  from assms(4) show ?thesis
  proof (cases rule: persistE)
    case (1 e)
    then show ?thesis by simp
  next
    case (2 e rows)
    note e = evaluation_record_Inr [OF p(4-7) 2(1)]
    from insert_intents_Inr [OF 2(4)]
    have db': "db' = db\<lparr>gd_evaluations := gd_evaluations db @ [e], gd_intents := gd_intents db @ rows\<rparr>"
      by simp
    have "tn_evaluation_id i = te_id e" if "i \<in> set rows" for i
      using that by (rule stored_evaluation_ids [OF intent_records_drafts [OF p(10) 2(3)] p(11) e])
    moreover have "te_routing_request_id e = rq_request_id req" using e p(2) by simp
    ultimately show ?thesis using db' by blast
  qed
qed

lemma persist_sound:
  assumes "routing_sound db" and "persist_evaluation shown d decision intents db = Inr (r, db')"
  shows "routing_sound db'"
  using assms(2)
proof (cases rule: persistE)
  case (1 e)
  with assms(1) show ?thesis by simp
next
  case (2 e rows)
  from insert_intents_Inr [OF 2(4)]
  have db': "db' = db\<lparr>gd_evaluations := gd_evaluations db @ [e], gd_intents := gd_intents db @ rows\<rparr>"
    and ev: "\<forall>i \<in> set rows. tn_evaluation_id i \<in> insert (te_id e) (te_id ` set (gd_evaluations db))"
    by simp_all
  show ?thesis
    using assms(1) insert_evaluation_Some(2,3) [OF 2(2)] ev unfolding db'
    by (simp add: routing_sound_def ball_Un)
qed

interpretation routing_store: routing_repository "find_by_request_id shown" load_snapshot
    "persist_evaluation shown" canonical_ids routing_sound for shown
proof
  fix db fresh req snap sha fh d decision intents r db'
  assume "routing_sound db" "canonical_ids fresh" "find_by_request_id shown (rq_request_id req) db = Inr None"
    "load_snapshot (rq_message_id req) (rq_policy_version_id req) db = Inr snap"
    "plan_execution sha fh fresh req snap = Inr (d, decision, intents)"
    "persist_evaluation shown d decision intents db = Inr (r, db')"
  then show "r = new_execution_result d decision intents False
     \<and> (\<exists>s. find_by_request_id shown (rq_request_id req) db' = Inr (Some s) \<and> same_execution s r)"
    by (rule persist_reads_back)
next
  fix db fresh req snap sha fh d decision intents r db'
  assume "routing_sound db" "persist_evaluation shown d decision intents db = Inr (r, db')"
  then show "routing_sound db'" by (rule persist_sound)
qed

section \<open>Properties\<close>

definition evaluate_stored ::
  "(pyval \<Rightarrow> string) \<Rightarrow> (string \<Rightarrow> string) \<Rightarrow> (facts \<Rightarrow> string) \<Rightarrow> (nat \<Rightarrow> string) \<Rightarrow> routing_request \<Rightarrow>
     routing_database \<Rightarrow> (routing_execution \<times> routing_database) result" where
  "evaluate_stored shown =
     evaluate_request (find_by_request_id shown) load_snapshot (persist_evaluation shown)"

text \<open>C20: A request that was evaluated and stored is answered, however often it is repeated, from
  the store: nothing is written, and the answer has the identifiers, facts, outcomes, stop
  position and intents of the first one, in the same order.\<close>

theorem repeated_request_reads_back:
  assumes "routing_sound db" and "canonical_ids fresh" and "\<not> rq_dry_run req"
    and "check_routing_request req = Inr req"
    and "evaluate_stored shown sha fh fresh req db = Inr (r, db')"
  shows "\<exists>s. evaluate_stored shown sha2 fh2 fresh2 req db' = Inr (s, db') \<and> ex_reused s \<and> same_execution s r"
  using routing_store.repeat_is_reused [OF assms(1-4)] assms(5) unfolding evaluate_stored_def .

definition sample_uuid :: "nat \<Rightarrow> uuid" where
  "sample_uuid n = uuid_text (n mod 1000)"

lemma sample_uuids_canonical: "canonical_ids sample_uuid"
proof -
  have "parse_uuid (uuid_text (n mod 1000)) = Some (n mod 1000)" for n :: nat
    by (rule parse_uuid_text) (simp add: order_less_trans [of "n mod 1000" 1000])
  then show ?thesis by (simp add: canonical_ids_def sample_uuid_def as_uuid_def)
qed

definition sample_message_row :: message_row where
  "sample_message_row = \<lparr>ms_id = sample_uuid 10, ms_source_channel_id = sample_uuid 11,
     ms_telegram_message_ids = [5], ms_telegram_grouped_id = None, ms_primary_telegram_message_id = 5,
     ms_published_at = 0, ms_edited_at = None, ms_original_text = Some ''text'',
     ms_telegram_metadata = [], ms_processing_status = ''processed'', ms_review_status = REVIEWED,
     ms_media_count = 0, ms_visual_fingerprint = None, ms_source_changed_after_processing = False,
     ms_source_deleted = False, ms_source_deleted_at = None, ms_blocked_from_analysis = False,
     ms_blocked_at = None, ms_blocked_by_stage_run_id = None, ms_blocked_by_label_assignment_id = None,
     ms_updated_at = 0\<rparr>"

definition sample_channel_row :: channel_row where
  "sample_channel_row = \<lparr>ch_id = sample_uuid 11, ch_telegram_peer_id = 7, ch_username = None,
     ch_display_name = ''channel'', ch_default_read_identity_id = sample_uuid 16,
     ch_active_profile_version_id = None, ch_enabled = True, ch_last_activity_at = None,
     ch_latest_seen_message_id = None, ch_last_seen_message_id = None, ch_updated_at = 0\<rparr>"

definition sample_stored :: routing_database where
  "sample_stored =
     \<lparr>gd_channels = [sample_channel_row], gd_messages = [sample_message_row], gd_images = [], gd_videos = [],
      gd_analysis_runs = [], gd_model_labels = [], gd_manual_labels = [],
      gd_versions = [\<lparr>tv_id = sample_uuid 12, tv_state = ''published''\<rparr>],
      gd_rules = [\<lparr>tr_id = sample_uuid 13, tr_policy_version_id = sample_uuid 12, tr_priority = 1,
        tr_enabled = True,
        tr_condition = PDict [(''fact'', PStr ''review_status''), (''op'', PStr ''eq''), (''value'', PStr ''reviewed'')],
        tr_stop_on_match = True\<rparr>],
      gd_actions = [\<lparr>ta_id = sample_uuid 14, ta_rule_id = sample_uuid 13,
        ta_destination_channel_id = sample_uuid 15, ta_publication_mode = ''forward_only'',
        ta_rendering_template_version_id = None, ta_publish_identity_id = None, ta_output_order = 0\<rparr>],
      gd_destinations = [\<lparr>td_id = sample_uuid 15, td_default_publish_identity_id = sample_uuid 16, td_enabled = True\<rparr>],
      gd_identities = [\<lparr>ti_id = sample_uuid 16, ti_enabled = True\<rparr>], gd_templates = [],
      gd_evaluations = [], gd_intents = []\<rparr>"

definition sample_request :: routing_request where
  "sample_request = \<lparr>rq_request_id = ''request'', rq_message_id = sample_uuid 10,
     rq_policy_version_id = sample_uuid 12, rq_dry_run = False\<rparr>"

definition sample_digest :: string where
  "sample_digest = replicate 64 (CHR ''0'')"

lemma sample_stored_sound: "routing_sound sample_stored"
  by (simp add: routing_sound_def sample_stored_def canonical_option_def
      sample_uuids_canonical [unfolded canonical_ids_def])

lemma sample_evaluation:
  "isl (evaluate_stored (\<lambda>_. []) (\<lambda>_. sample_digest) (\<lambda>_. sample_digest) sample_uuid sample_request sample_stored)
   = False"
  by code_simp

theorem repeated_request_reads_back_witness:
  "\<exists>r s db'. evaluate_stored (\<lambda>_. []) (\<lambda>_. sample_digest) (\<lambda>_. sample_digest) sample_uuid sample_request
       sample_stored = Inr (r, db')
   \<and> evaluate_stored (\<lambda>_. []) (\<lambda>_. []) (\<lambda>_. []) (\<lambda>_. []) sample_request db' = Inr (s, db')
   \<and> ex_reused s \<and> same_execution s r"
proof -
  from sample_evaluation obtain r db' where r: "evaluate_stored (\<lambda>_. []) (\<lambda>_. sample_digest) (\<lambda>_. sample_digest)
      sample_uuid sample_request sample_stored = Inr (r, db')"
    by (cases "evaluate_stored (\<lambda>_. []) (\<lambda>_. sample_digest) (\<lambda>_. sample_digest) sample_uuid
      sample_request sample_stored") auto
  have "\<not> rq_dry_run sample_request" "check_routing_request sample_request = Inr sample_request"
    by (simp add: sample_request_def) code_simp
  from repeated_request_reads_back [OF sample_stored_sound sample_uuids_canonical this r] r show ?thesis by blast
qed

text \<open>Evaluating a request keeps the store sound, stores nothing in a dry run, and otherwise adds
  at most one evaluation, under a request id that had none; so no request is ever decided twice.\<close>

theorem evaluation_stored_once:
  assumes "routing_sound db" and "canonical_ids fresh"
    and "evaluate_stored shown sha fh fresh req db = Inr (r, db')"
  shows "routing_sound db' \<and> (rq_dry_run req \<longrightarrow> db' = db)
    \<and> (db' = db \<or> (\<exists>e rows. db' = db\<lparr>gd_evaluations := gd_evaluations db @ [e], gd_intents := gd_intents db @ rows\<rparr>
         \<and> te_routing_request_id e = rq_request_id req
         \<and> rq_request_id req \<notin> te_routing_request_id ` set (gd_evaluations db)
         \<and> (\<forall>i \<in> set rows. tn_evaluation_id i = te_id e)))"
proof -
  have dry: "db' = db" if "rq_dry_run req"
    by (rule routing_store.dry_run_pure [OF that assms(3) [unfolded evaluate_stored_def]])
  show ?thesis
  proof (cases "db' = db")
    case True
    with assms(1) show ?thesis by simp
  next
    case False
    from dry False have nd: "\<not> rq_dry_run req" by (cases "rq_dry_run req") simp_all
    obtain existing where f: "find_by_request_id shown (rq_request_id req) db = Inr existing"
      using assms(3) unfolding evaluate_stored_def evaluate_request_def Let_def
      by (simp only: nd if_False) (erule try_bindE, erule that)
    have "existing = None"
    proof (cases existing)
      case (Some x)
      from assms(3) have "try_bind (validate_routing_request_reuse x (rq_request_id req) (rq_message_id req)
          (rq_policy_version_id req)) (\<lambda>_. Inr (as_reused x, db)) = Inr (r, db')"
        unfolding evaluate_stored_def evaluate_request_def Let_def by (simp only: nd f Some if_False try_bind_simps option.case)
      then have "db' = db" by (rule try_bindE) simp
      with False show ?thesis by simp
    qed
    with f have n: "find_by_request_id shown (rq_request_id req) db = Inr None" by simp
    obtain snap d decision intents where
        s: "load_snapshot (rq_message_id req) (rq_policy_version_id req) db = Inr snap"
        "plan_execution sha fh fresh req snap = Inr (d, decision, intents)"
        "persist_evaluation shown d decision intents db = Inr (r, db')"
    proof -
      from assms(3) have "try_bind (load_snapshot (rq_message_id req) (rq_policy_version_id req) db) (\<lambda>snapshot.
          try_bind (plan_execution sha fh fresh req snapshot) (\<lambda>(d, decision, intents).
            persist_evaluation shown d decision intents db)) = Inr (r, db')"
        unfolding evaluate_stored_def evaluate_request_def Let_def
        by (simp only: nd n if_False try_bind_simps option.case split_def)
      then show thesis by (elim try_bindE) (auto intro: that)
    qed
    have l: "loaded db snap" by (rule load_snapshot_loaded [OF assms(1) s(1)])
    from persist_stores [OF l assms(2) s(2,3)] False obtain e rows where
        "db' = db\<lparr>gd_evaluations := gd_evaluations db @ [e], gd_intents := gd_intents db @ rows\<rparr>"
        "te_routing_request_id e = rq_request_id req" "\<forall>i \<in> set rows. tn_evaluation_id i = te_id e"
      by (elim disjE exE conjE) simp_all
    note new = this
    show ?thesis
    proof (intro conjI impI disjI2 exI)
      show "routing_sound db'" by (rule persist_sound [OF assms(1) s(3)])
      show "rq_request_id req \<notin> te_routing_request_id ` set (gd_evaluations db)"
        by (rule find_by_request_None(2) [OF n])
      show "rq_dry_run req \<Longrightarrow> db' = db" using nd by simp
    qed (rule new)+
  qed
qed

theorem evaluation_stored_once_witness:
  "\<exists>r db'. evaluate_stored (\<lambda>_. []) (\<lambda>_. sample_digest) (\<lambda>_. sample_digest) sample_uuid sample_request
       sample_stored = Inr (r, db') \<and> routing_sound db'"
proof -
  from sample_evaluation obtain r db' where r: "evaluate_stored (\<lambda>_. []) (\<lambda>_. sample_digest) (\<lambda>_. sample_digest)
      sample_uuid sample_request sample_stored = Inr (r, db')"
    by (cases "evaluate_stored (\<lambda>_. []) (\<lambda>_. sample_digest) (\<lambda>_. sample_digest) sample_uuid
      sample_request sample_stored") auto
  from evaluation_stored_once [OF sample_stored_sound sample_uuids_canonical r] r show ?thesis by blast
qed

end
