(* ===== verification/Labels.thy ===== *)
theory Labels
  imports Py_Values
begin

text \<open>
  Labels of the analysis engine: versioned label definitions and label sets with the
  normalising checks of their constructors (\<^verbatim>\<open>tgcurator/domain/analysis/labels.py\<close>), the
  resolution of model scores against a label set, the facts later stages see
  (\<^verbatim>\<open>facts.py\<close>) and the two negative gates (\<^verbatim>\<open>negative_gate.py\<close>, \<^verbatim>\<open>facts.py\<close>).
\<close>

section \<open>Label definitions, bindings and sets\<close>

datatype version_status = DRAFT | PUBLISHED | ARCHIVED

datatype label_scope = GLOBAL | MEDIA

fun scope_value :: "label_scope \<Rightarrow> string" where
  "scope_value GLOBAL = ''global''"
| "scope_value MEDIA = ''media''"

record label_definition_version =
  ld_version_id :: string
  ld_definition_id :: string
  ld_version_number :: int
  ld_key :: string
  ld_display_name :: string
  ld_description :: string
  ld_scope :: label_scope
  ld_negative :: bool
  ld_enabled :: bool
  ld_status :: version_status

text \<open>\<^verbatim>\<open>__post_init__\<close>: the checked and stripped values replace the arguments.\<close>

definition check_label_definition :: "label_definition_version \<Rightarrow> label_definition_version result" where
  "check_label_definition l =
     try_bind (validate_non_blank (ld_version_id l)) (\<lambda>version_id.
     try_bind (validate_non_blank (ld_definition_id l)) (\<lambda>definition_id.
     try_bind (validate_positive_int (ld_version_number l)) (\<lambda>_.
     try_bind (validate_identifier (ld_key l)) (\<lambda>key.
     try_bind (validate_non_blank (ld_display_name l)) (\<lambda>display_name.
       Inr (l\<lparr>ld_version_id := version_id, ld_definition_id := definition_id, ld_key := key,
         ld_display_name := display_name\<rparr>))))))"

record label_binding =
  lb_label :: label_definition_version
  lb_activation_threshold :: rat
  lb_output_order :: int
  lb_prompt_hint :: string

definition make_label_binding ::
  "label_definition_version \<Rightarrow> pyval \<Rightarrow> int \<Rightarrow> string \<Rightarrow> label_binding result" where
  "make_label_binding label activation_threshold output_order prompt_hint =
     try_bind (validate_score activation_threshold) (\<lambda>threshold.
       if output_order < 0 then fail ''label output_order must be non-negative''
       else Inr \<lparr>lb_label = label, lb_activation_threshold = threshold,
         lb_output_order = output_order, lb_prompt_hint = prompt_hint\<rparr>)"

record resolved_label =
  rl_label_definition_version_id :: string
  rl_key :: string
  rl_scope :: label_scope
  rl_score :: rat
  rl_activated :: bool
  rl_negative :: bool

record label_set_version =
  ls_version_id :: string
  ls_label_set_id :: string
  ls_version_number :: int
  ls_bindings :: "label_binding list"
  ls_status :: version_status

definition binding_key :: "label_binding \<Rightarrow> string" where
  "binding_key b = ld_key (lb_label b)"

definition check_label_set :: "label_set_version \<Rightarrow> label_set_version result" where
  "check_label_set s =
     try_bind (validate_non_blank (ls_version_id s)) (\<lambda>version_id.
     try_bind (validate_non_blank (ls_label_set_id s)) (\<lambda>label_set_id.
     try_bind (validate_positive_int (ls_version_number s)) (\<lambda>_.
       if ls_bindings s = [] then fail ''label set must contain at least one binding''
       else if \<not> distinct (map (ld_version_id \<circ> lb_label) (ls_bindings s))
       then fail ''label set cannot repeat a label definition version''
       else if \<not> distinct (map binding_key (ls_bindings s))
       then fail ''label set cannot repeat a label key''
       else if \<not> distinct (map lb_output_order (ls_bindings s))
       then fail ''label set cannot repeat output_order''
       else Inr (s\<lparr>ls_version_id := version_id, ls_label_set_id := label_set_id\<rparr>))))"

definition ordered_bindings :: "label_set_version \<Rightarrow> label_binding list" where
  "ordered_bindings s = sort_key (\<lambda>b. (lb_output_order b, binding_key b)) (ls_bindings s)"

definition label_keys :: "label_set_version \<Rightarrow> string list" where
  "label_keys s = map binding_key (ordered_bindings s)"

definition label_set_scopes :: "label_set_version \<Rightarrow> label_scope set" where
  "label_set_scopes s = set (map (ld_scope \<circ> lb_label) (ls_bindings s))"

definition validate_label_set_for_publication ::
  "label_scope option \<Rightarrow> label_set_version \<Rightarrow> unit result" where
  "validate_label_set_for_publication target_scope s =
     (if list_ex (\<lambda>b. \<not> ld_enabled (lb_label b)) (ls_bindings s)
      then fail ''a published label set cannot bind disabled labels''
      else if list_ex (\<lambda>b. ld_status (lb_label b) \<noteq> PUBLISHED) (ls_bindings s)
      then fail ''a published label set must reference published labels''
      else (case target_scope of
          None \<Rightarrow> Inr ()
        | Some scope \<Rightarrow> if label_set_scopes s \<noteq> {scope}
            then fail ''label set scope is incompatible with the stage target scope''
            else Inr ()))"

definition prompt_definitions :: "label_set_version \<Rightarrow> pyval" where
  "prompt_definitions s = PTuple (map (\<lambda>b. PDict
     [(''key'', PStr (binding_key b)),
      (''display_name'', PStr (ld_display_name (lb_label b))),
      (''description'', PStr (ld_description (lb_label b))),
      (''scope'', PStr (scope_value (ld_scope (lb_label b)))),
      (''negative'', PBool (ld_negative (lb_label b))),
      (''prompt_hint'', PStr (lb_prompt_hint b))]) (ordered_bindings s))"

section \<open>Resolving scores\<close>

definition resolve_label :: "label_binding \<Rightarrow> rat \<Rightarrow> resolved_label" where
  "resolve_label b score = \<lparr>rl_label_definition_version_id = ld_version_id (lb_label b),
     rl_key = binding_key b, rl_scope = ld_scope (lb_label b), rl_score = score,
     rl_activated = (lb_activation_threshold b \<le> score), rl_negative = ld_negative (lb_label b)\<rparr>"

text \<open>\<^verbatim>\<open>{binding.label.key: binding for binding in self.bindings}\<close>: a later binding wins.\<close>

definition binding_by_key :: "label_set_version \<Rightarrow> (string, label_binding) dict" where
  "binding_by_key s = fold (\<lambda>b. dict_set (binding_key b) b) (ls_bindings s) []"

definition resolve_scores ::
  "label_set_version \<Rightarrow> (string, pyval) dict \<Rightarrow> resolved_label list result" where
  "resolve_scores s scores =
     (if \<not> set (map fst scores) \<subseteq> set (label_keys s) then fail ''label scores contain unknown keys''
      else traverse (\<lambda>key.
          case map_of (binding_by_key s) key of
            None \<Rightarrow> Inl KeyError
          | Some b \<Rightarrow> try_bind (validate_score (the (map_of scores key))) (\<lambda>score.
              Inr \<lparr>rl_label_definition_version_id = ld_version_id (lb_label b), rl_key = key,
                rl_scope = ld_scope (lb_label b), rl_score = score,
                rl_activated = (lb_activation_threshold b \<le> score),
                rl_negative = ld_negative (lb_label b)\<rparr>))
        (filter (\<lambda>key. dict_has key scores) (label_keys s)))"

lemma set_label_keys: "set (label_keys s) = binding_key ` set (ls_bindings s)"
  by (simp add: label_keys_def ordered_bindings_def)

lemma binding_by_key_lookup:
  assumes "distinct (map binding_key (ls_bindings s))" and "b \<in> set (ls_bindings s)"
  shows "map_of (binding_by_key s) (binding_key b) = Some b"
  using dict.get_fold_put [of binding_key "\<lambda>b. b" "ls_bindings s" "[]" "binding_key b"]
    filter_singleton [OF assms]
  by (simp add: binding_by_key_def)

text \<open>
  What resolution computes on a label set with distinct keys: in label order, each binding that
  was given a score, with that score compared to its threshold.
\<close>

definition scored_bindings ::
  "label_set_version \<Rightarrow> (string, pyval) dict \<Rightarrow> label_binding list" where
  "scored_bindings s scores = filter (\<lambda>b. dict_has (binding_key b) scores) (ordered_bindings s)"

lemma resolve_scores_Inr:
  assumes "distinct (map binding_key (ls_bindings s))"
  shows "resolve_scores s scores = Inr labels \<longleftrightarrow>
    set (map fst scores) \<subseteq> set (label_keys s) \<and>
    list_all2 (\<lambda>b l. \<exists>q. validate_score (the (map_of scores (binding_key b))) = Inr q
      \<and> resolve_label b q = l) (scored_bindings s scores) labels"
proof -
  have keys: "filter (\<lambda>key. dict_has key scores) (label_keys s)
      = map binding_key (scored_bindings s scores)"
    by (simp add: label_keys_def scored_bindings_def filter_map comp_def)
  have lookup: "map_of (binding_by_key s) (binding_key b) = Some b"
    if "b \<in> set (scored_bindings s scores)" for b
    using binding_by_key_lookup [OF assms] that by (simp add: scored_bindings_def ordered_bindings_def)
  show ?thesis
    unfolding resolve_scores_def keys
    by (auto simp: result_simps list_all2_map1 resolve_label_def lookup cong: list.rel_cong)
qed

section \<open>Facts and negative gates\<close>

record validated_target_result =
  vt_target_id :: string
  vt_labels :: "resolved_label list"
  vt_reason :: "string option"
  vt_evidence :: "string list"

definition activated_labels :: "validated_target_result \<Rightarrow> resolved_label list" where
  "activated_labels r = filter rl_activated (vt_labels r)"

definition activated_negative_labels :: "validated_target_result \<Rightarrow> resolved_label list" where
  "activated_negative_labels r = filter (\<lambda>l. rl_activated l \<and> rl_negative l) (vt_labels r)"

text \<open>\<^verbatim>\<open>highest[k] = max(highest.get(k, 0.0), score)\<close> over a list of scored keys.\<close>

definition raise_highest :: "string \<times> rat \<Rightarrow> (string, rat) dict \<Rightarrow> (string, rat) dict" where
  "raise_highest = (\<lambda>(key, score) highest.
     dict_set key (max (case map_of highest key of None \<Rightarrow> 0 | Some q \<Rightarrow> q) score) highest)"

definition highest_scores :: "(string \<times> rat) list \<Rightarrow> (string, rat) dict" where
  "highest_scores xs = fold raise_highest xs []"

definition facts_from_results ::
  "label_scope \<Rightarrow> validated_target_result list \<Rightarrow> bool \<Rightarrow> (string, pyval) dict" where
  "facts_from_results scope results blocked_from_analysis =
     dict_set ''message.blocked_from_analysis'' (PBool blocked_from_analysis)
       (map (\<lambda>(key, score). (scope_value scope @ ''.'' @ key, PFloat (Fin score)))
         (sort_key fst (highest_scores
           (map (\<lambda>l. (rl_key l, rl_score l)) (concat (map vt_labels results))))))"

record negative_gate_match =
  ng_target_id :: string
  ng_label_definition_version_id :: string
  ng_label_key :: string
  ng_scope :: label_scope
  ng_score :: rat

definition evaluate_stage_negative_gate ::
  "validated_target_result list \<Rightarrow> bool \<times> negative_gate_match list" where
  "evaluate_stage_negative_gate results =
     (let matches = concat (map (\<lambda>r. map (\<lambda>l. \<lparr>ng_target_id = vt_target_id r,
          ng_label_definition_version_id = rl_label_definition_version_id l,
          ng_label_key = rl_key l, ng_scope = rl_scope l, ng_score = rl_score l\<rparr>)
        (activated_negative_labels r)) results)
      in (matches \<noteq> [], matches))"

text \<open>\<^verbatim>\<open>NegativeGatePolicy\<close>: rules are pairs of a label key and a minimum score.\<close>

definition check_label_fact :: "string \<Rightarrow> pyval \<Rightarrow> (string \<times> rat) result" where
  "check_label_fact key score =
     (if blank key then fail ''label key must not be blank''
      else (case num_val score of
          Some (Fin q) \<Rightarrow> if 0 \<le> q \<and> q \<le> 1 then Inr (key, q)
            else fail ''label score must be a finite number in [0, 1]''
        | _ \<Rightarrow> fail ''label score must be a finite number in [0, 1]''))"

record negative_gate_policy =
  gp_policy_version_id :: string
  gp_rules :: "(string \<times> rat) list"

definition check_negative_gate_policy :: "negative_gate_policy \<Rightarrow> negative_gate_policy result" where
  "check_negative_gate_policy p =
     (if blank (gp_policy_version_id p) then fail ''policy_version_id must not be blank''
      else if \<not> distinct (map fst (gp_rules p))
      then fail ''a negative gate policy cannot repeat a label key''
      else Inr p)"

definition evaluate_negative_gate ::
  "negative_gate_policy \<Rightarrow> (string \<times> rat) list \<Rightarrow> bool \<times> (string \<times> rat) list" where
  "evaluate_negative_gate p facts =
     (let highest = highest_scores facts;
          matched = filter (\<lambda>(key, minimum_score).
            minimum_score \<le> (case map_of highest key of None \<Rightarrow> 0 | Some q \<Rightarrow> q)) (gp_rules p)
      in (matched \<noteq> [], matched))"

lemma highest_scores_snoc: "highest_scores (xs @ [x]) = raise_highest x (highest_scores xs)"
  by (simp add: highest_scores_def)

lemma highest_scores_lookup:
  assumes "\<forall>(k, q) \<in> set xs. 0 \<le> q"
  shows "map_of (highest_scores xs) k =
    (if k \<in> fst ` set xs then Some (Max {q. (k, q) \<in> set xs}) else None)"
  using assms
proof (induction xs rule: rev_induct)
  case Nil
  then show ?case by (simp add: highest_scores_def)
next
  case (snoc x xs)
  obtain j p where x: "x = (j, p)" by (cases x)
  have fin: "finite {q. (k, q) \<in> set xs}" for k
    by (rule finite_subset [of _ "snd ` set xs"]) force+
  show ?case
  proof (cases "k = j")
    case False
    with snoc x show ?thesis by (auto simp: highest_scores_snoc raise_highest_def dict_simps)
  next
    case True
    have new: "{q. (k, q) \<in> set (xs @ [x])} = insert p {q. (k, q) \<in> set xs}" using x True by auto
    show ?thesis
    proof (cases "k \<in> fst ` set xs")
      case True
      then have "{q. (k, q) \<in> set xs} \<noteq> {}" by auto
      then have "Max {q. (k, q) \<in> set (xs @ [x])} = max p (Max {q. (k, q) \<in> set xs})"
        unfolding new using fin by simp
      with snoc x \<open>k = j\<close> True show ?thesis
        by (simp add: highest_scores_snoc raise_highest_def dict_simps max.commute)
    next
      case False
      then have "{q. (k, q) \<in> set xs} = {}" by force
      then have "Max {q. (k, q) \<in> set (xs @ [x])} = p" unfolding new by simp
      moreover have "map_of (highest_scores xs) k = None" using snoc False by simp
      moreover have "0 \<le> p" "k \<in> fst ` set (xs @ [x])" using snoc.prems x \<open>k = j\<close> by auto
      ultimately show ?thesis using x \<open>k = j\<close>
        by (simp add: highest_scores_snoc raise_highest_def dict_simps del: set_append)
    qed
  qed
qed

text \<open>The default score 0 of an absent key makes a rule with minimum 0 match without any fact.\<close>

lemma negative_gate_rule_matches:
  assumes "\<forall>(k, q) \<in> set facts. 0 \<le> q"
  shows "m \<le> (case map_of (highest_scores facts) key of None \<Rightarrow> 0 | Some q \<Rightarrow> q) \<longleftrightarrow>
    m \<le> 0 \<or> (\<exists>q. (key, q) \<in> set facts \<and> m \<le> q)"
proof (cases "key \<in> fst ` set facts")
  case True
  have fin: "finite {q. (key, q) \<in> set facts}"
    by (rule finite_subset [of _ "snd ` set facts"]) force+
  from True obtain q where q: "(key, q) \<in> set facts" by force
  then have "0 \<le> q" using assms by auto
  have "m \<le> Max {q. (key, q) \<in> set facts} \<longleftrightarrow> (\<exists>q. (key, q) \<in> set facts \<and> m \<le> q)"
    using fin q Max_ge_iff [OF fin] by auto
  moreover have "m \<le> 0 \<Longrightarrow> \<exists>q. (key, q) \<in> set facts \<and> m \<le> q" using q \<open>0 \<le> q\<close> by force
  ultimately show ?thesis using True highest_scores_lookup [OF assms] by auto
next
  case False
  then show ?thesis using highest_scores_lookup [OF assms] by force
qed


section \<open>Properties\<close>

definition sample_label_definition :: "string \<Rightarrow> label_definition_version" where
  "sample_label_definition key = \<lparr>ld_version_id = ''v-'' @ key, ld_definition_id = ''d-'' @ key,
     ld_version_number = 1, ld_key = key, ld_display_name = key, ld_description = ''text'',
     ld_scope = GLOBAL, ld_negative = False, ld_enabled = True, ld_status = PUBLISHED\<rparr>"

definition sample_label_set :: label_set_version where
  "sample_label_set = \<lparr>ls_version_id = ''set-1'', ls_label_set_id = ''set'', ls_version_number = 1,
     ls_bindings =
      [\<lparr>lb_label = sample_label_definition ''spam'', lb_activation_threshold = 7/10,
         lb_output_order = 2, lb_prompt_hint = []\<rparr>,
       \<lparr>lb_label = sample_label_definition ''ugc'', lb_activation_threshold = 1/2,
         lb_output_order = 1, lb_prompt_hint = []\<rparr>],
     ls_status = PUBLISHED\<rparr>"

lemma check_label_set_distinct:
  "check_label_set s = Inr t \<Longrightarrow>
     distinct (map binding_key (ls_bindings t)) \<and> ls_bindings t = ls_bindings s \<and> ls_bindings t \<noteq> []"
  by (auto simp: check_label_set_def result_simps)

lemma resolved_labels:
  assumes d: "distinct (map binding_key (ls_bindings s))" and "resolve_scores s scores = Inr labels"
  shows "map rl_key labels = filter (\<lambda>key. dict_has key scores) (label_keys s)
    \<and> (\<forall>l \<in> set labels. \<exists>b \<in> set (ls_bindings s). rl_key l = binding_key b
        \<and> num_val (the (map_of scores (rl_key l))) = Some (Fin (rl_score l))
        \<and> 0 \<le> rl_score l \<and> rl_score l \<le> 1
        \<and> (rl_activated l \<longleftrightarrow> lb_activation_threshold b \<le> rl_score l))"
proof -
  have all: "list_all2 (\<lambda>b l. \<exists>q. validate_score (the (map_of scores (binding_key b))) = Inr q
      \<and> resolve_label b q = l) (scored_bindings s scores) labels"
    using assms(2) unfolding resolve_scores_Inr [OF d] by simp
  have "list_all2 (\<lambda>k l. k = rl_key l) (map binding_key (scored_bindings s scores)) labels"
    unfolding list_all2_map1 by (rule list_all2_mono [OF all]) (auto simp: resolve_label_def)
  then have "map binding_key (scored_bindings s scores) = map rl_key labels"
    by (simp add: list_all2_conv_all_nth list_eq_iff_nth_eq)
  moreover have "map binding_key (scored_bindings s scores)
      = filter (\<lambda>key. dict_has key scores) (label_keys s)"
    by (simp add: label_keys_def scored_bindings_def filter_map comp_def)
  moreover have "\<exists>b \<in> set (ls_bindings s). rl_key l = binding_key b
        \<and> num_val (the (map_of scores (rl_key l))) = Some (Fin (rl_score l))
        \<and> 0 \<le> rl_score l \<and> rl_score l \<le> 1
        \<and> (rl_activated l \<longleftrightarrow> lb_activation_threshold b \<le> rl_score l)" if "l \<in> set labels" for l
  proof -
    from all that obtain b q where b: "b \<in> set (scored_bindings s scores)"
      and q: "validate_score (the (map_of scores (binding_key b))) = Inr q" and l: "l = resolve_label b q"
      by (fastforce simp: list_all2_conv_all_nth in_set_conv_nth)
    from b have "b \<in> set (ls_bindings s)" by (simp add: scored_bindings_def ordered_bindings_def)
    with q l show ?thesis by (auto simp: resolve_label_def validate_score_Inr)
  qed
  ultimately show ?thesis by simp
qed

text \<open>Resolving scores against a constructed label set yields, in output order, one label per
  scored key, with the score given for it, in \<open>[0, 1]\<close>, activated exactly when it reaches
  the threshold of that key's binding.\<close>

theorem resolve_scores_functional:
  assumes "check_label_set s0 = Inr s" and "resolve_scores s scores = Inr labels"
  shows "map rl_key labels = filter (\<lambda>key. dict_has key scores) (label_keys s)
    \<and> (\<forall>l \<in> set labels. \<exists>b \<in> set (ls_bindings s). rl_key l = binding_key b
        \<and> num_val (the (map_of scores (rl_key l))) = Some (Fin (rl_score l))
        \<and> 0 \<le> rl_score l \<and> rl_score l \<le> 1
        \<and> (rl_activated l \<longleftrightarrow> lb_activation_threshold b \<le> rl_score l))"
  using resolved_labels check_label_set_distinct [OF assms(1)] assms(2) by blast

definition sample_scores :: "(string, pyval) dict" where
  "sample_scores = [(''spam'', PFloat (Fin (3/5))), (''ugc'', PInt 1)]"

theorem resolve_scores_functional_witness:
  "\<exists>labels. resolve_scores sample_label_set sample_scores = Inr labels
     \<and> map rl_key labels = [''ugc'', ''spam''] \<and> map rl_activated labels = [True, False]
     \<and> (\<forall>l \<in> set labels. 0 \<le> rl_score l)"
proof -
  have c: "check_label_set sample_label_set = Inr sample_label_set" by code_simp
  let ?labels = "[resolve_label (ls_bindings sample_label_set ! 1) 1,
    resolve_label (ls_bindings sample_label_set ! 0) (3/5)]"
  have l: "resolve_scores sample_label_set sample_scores = Inr ?labels" by code_simp
  have a: "map rl_activated ?labels = [True, False]" by code_simp
  have "filter (\<lambda>key. dict_has key sample_scores) (label_keys sample_label_set) = [''ugc'', ''spam'']"
    by code_simp
  with resolve_scores_functional [OF c l] a l show ?thesis by (intro exI [of _ ?labels]) (simp only: simp_thms, blast)
qed

text \<open>A negative gate policy blocks a message exactly when one of its rules is reached by some
  fact of its label, or has minimum score 0: an absent label counts as score 0, so a rule with
  threshold 0 blocks every message, even one without labels.\<close>

theorem negative_gate_blocks:
  assumes "\<forall>(key, q) \<in> set facts. 0 \<le> q" and "\<forall>(key, m) \<in> set (gp_rules p). 0 \<le> m"
  shows "fst (evaluate_negative_gate p facts) \<longleftrightarrow>
    (\<exists>(key, m) \<in> set (gp_rules p). m = 0 \<or> (\<exists>q. (key, q) \<in> set facts \<and> m \<le> q))"
proof -
  have "fst (evaluate_negative_gate p facts) \<longleftrightarrow>
      (\<exists>(key, m) \<in> set (gp_rules p). m \<le> 0 \<or> (\<exists>q. (key, q) \<in> set facts \<and> m \<le> q))"
    by (auto simp: evaluate_negative_gate_def Let_def filter_empty_conv
        negative_gate_rule_matches [OF assms(1)])
  also have "\<dots> \<longleftrightarrow> (\<exists>(key, m) \<in> set (gp_rules p). m = 0 \<or> (\<exists>q. (key, q) \<in> set facts \<and> m \<le> q))"
  proof (rule bex_cong [OF refl])
    fix rule assume "rule \<in> set (gp_rules p)"
    then have "0 \<le> snd rule" using assms(2) by auto
    then show "(case rule of (key, m) \<Rightarrow> m \<le> 0 \<or> (\<exists>q. (key, q) \<in> set facts \<and> m \<le> q)) \<longleftrightarrow>
        (case rule of (key, m) \<Rightarrow> m = 0 \<or> (\<exists>q. (key, q) \<in> set facts \<and> m \<le> q))"
      by (cases rule) auto
  qed
  finally show ?thesis .
qed

theorem negative_gate_blocks_witness:
  "fst (evaluate_negative_gate \<lparr>gp_policy_version_id = ''p'', gp_rules = [(''ad'', 4/5)]\<rparr>
      [(''ad'', 7/10), (''ad'', 9/10)])
   \<and> fst (evaluate_negative_gate \<lparr>gp_policy_version_id = ''p'', gp_rules = [(''ad'', 0)]\<rparr> [])"
  using negative_gate_blocks [of "[(''ad'', 7/10), (''ad'', 9/10)]"
      "\<lparr>gp_policy_version_id = ''p'', gp_rules = [(''ad'', 4/5)]\<rparr>"]
    negative_gate_blocks [of "[]" "\<lparr>gp_policy_version_id = ''p'', gp_rules = [(''ad'', 0)]\<rparr>"]
  by (auto intro!: exI [of _ "9/10"])

text \<open>The facts of a stage give each label of its results its highest score over all targets,
  under the scope's prefix, together with the blocking flag.\<close>

theorem facts_report_highest_score:
  assumes "\<forall>r \<in> set results. \<forall>l \<in> set (vt_labels r). 0 \<le> rl_score l"
    and "r \<in> set results" and "l \<in> set (vt_labels r)"
  shows "map_of (facts_from_results scope results blocked) (scope_value scope @ ''.'' @ rl_key l)
      = Some (PFloat (Fin (Max {rl_score l' | l' r'. r' \<in> set results \<and> l' \<in> set (vt_labels r')
          \<and> rl_key l' = rl_key l})))
    \<and> map_of (facts_from_results scope results blocked) ''message.blocked_from_analysis''
      = Some (PBool blocked)"
proof -
  let ?xs = "map (\<lambda>l. (rl_key l, rl_score l)) (concat (map vt_labels results))"
  let ?d = "sort_key fst (highest_scores ?xs)"
  let ?f = "\<lambda>(key, score). (scope_value scope @ CHR ''.'' # key, PFloat (Fin score))"
  have inj: "map_of (map ?f d) (scope_value scope @ CHR ''.'' # k) = map_option (\<lambda>q. PFloat (Fin q)) (map_of d k)" for d k
    by (induction d) auto
  have dist: "distinct (map fst (highest_scores ys))" for ys
    by (induction ys rule: rev_induct)
       (auto simp: highest_scores_snoc raise_highest_def distinct_dict_set, simp add: highest_scores_def)
  have sorted: "map_of ?d = map_of (highest_scores ?xs)"
    by (rule map_of_inject_set [THEN iffD2]) (simp_all add: dist)
  have mem: "(rl_key l, rl_score l) \<in> set ?xs" using assms(2,3) by force
  have nonneg: "\<forall>(k, q) \<in> set ?xs. 0 \<le> q" using assms(1) by auto
  have key: "rl_key l \<in> fst ` set ?xs" using mem by (metis fst_conv image_eqI)
  have "(k, q) \<in> set ?xs \<longleftrightarrow> (\<exists>l' r'. q = rl_score l' \<and> r' \<in> set results
      \<and> l' \<in> set (vt_labels r') \<and> rl_key l' = k)" for k q
    by (auto simp: image_iff; blast)
  then have "map_of (highest_scores ?xs) (rl_key l) = Some (Max {rl_score l' | l' r'. r' \<in> set results
      \<and> l' \<in> set (vt_labels r') \<and> rl_key l' = rl_key l})"
    using highest_scores_lookup [OF nonneg] key by simp
  moreover have "scope_value scope @ ''.'' @ rl_key l \<noteq> ''message.blocked_from_analysis''"
    by (cases scope) simp_all
  ultimately show ?thesis
    by (simp add: facts_from_results_def map_of_dict_set inj sorted)
qed

theorem facts_report_highest_score_witness:
  "map_of (facts_from_results GLOBAL
      [\<lparr>vt_target_id = ''m1'', vt_labels = [resolve_label (ls_bindings sample_label_set ! 0) (1/4)],
         vt_reason = None, vt_evidence = []\<rparr>,
       \<lparr>vt_target_id = ''m2'', vt_labels = [resolve_label (ls_bindings sample_label_set ! 0) (3/4)],
         vt_reason = None, vt_evidence = []\<rparr>] True) ''message.blocked_from_analysis'' = Some (PBool True)"
  by (rule conjunct2 [OF facts_report_highest_score [where
        l = "resolve_label (ls_bindings sample_label_set ! 0) (1/4)" and
        r = "\<lparr>vt_target_id = ''m1'', vt_labels = [resolve_label (ls_bindings sample_label_set ! 0) (1/4)],
         vt_reason = None, vt_evidence = []\<rparr>"]])
     (simp_all add: resolve_label_def)

end
