(* ===== verification/Result_Validator.thy ===== *)
theory Result_Validator
  imports Labels
begin

text \<open>
  The structured output validator of \<^verbatim>\<open>tgcurator/domain/analysis/result_validator.py\<close>, with the
  execution modes and output policies of \<^verbatim>\<open>schema.py\<close> it depends on.  A model response is an
  untrusted JSON value; the validator maps it to results for the expected targets, issues, and
  the targets to retry.
\<close>

section \<open>Modes, policies, results\<close>

datatype execution_mode = BATCH_MESSAGES | SINGLE_MESSAGE | PER_ASSET | BATCH_ASSETS

datatype structured_output_mode = DENSE_SCORES | SPARSE_MATCHES

datatype analysis_error_code =
    PROVIDER_ERROR | TIMEOUT | INVALID_STRUCTURED_OUTPUT | MISSING_TARGET_RESULT
  | INPUT_BUILD_ERROR | MEDIA_UNAVAILABLE | INTERNAL_ERROR

record structured_output_policy =
  op_mode :: structured_output_mode
  op_include_reason :: bool
  op_include_evidence :: bool

definition is_batch_mode :: "execution_mode \<Rightarrow> bool" where
  "is_batch_mode m = (m = BATCH_MESSAGES \<or> m = BATCH_ASSETS)"

fun target_field_for_mode :: "execution_mode \<Rightarrow> string option" where
  "target_field_for_mode BATCH_MESSAGES = Some ''message_id''"
| "target_field_for_mode BATCH_ASSETS = Some ''asset_id''"
| "target_field_for_mode _ = None"

record validation_issue =
  vi_code :: analysis_error_code
  vi_error_type :: string
  vi_target_id :: "string option"

record structured_output_validation =
  sv_valid_results :: "validated_target_result list"
  sv_issues :: "validation_issue list"
  sv_retry_target_ids :: "string list"

definition validation_complete :: "structured_output_validation \<Rightarrow> bool" where
  "validation_complete v = (sv_issues v = [] \<and> sv_retry_target_ids v = [])"

definition negative_gate_hit :: "structured_output_validation \<Rightarrow> bool" where
  "negative_gate_hit v = list_ex (\<lambda>r. activated_negative_labels r \<noteq> []) (sv_valid_results v)"

definition invalid_issue :: "string option \<Rightarrow> string \<Rightarrow> validation_issue" where
  "invalid_issue target error_type =
     \<lparr>vi_code = INVALID_STRUCTURED_OUTPUT, vi_error_type = error_type, vi_target_id = target\<rparr>"

definition whole_payload_failure :: "string list \<Rightarrow> string \<Rightarrow> structured_output_validation" where
  "whole_payload_failure expected error_type =
     \<lparr>sv_valid_results = [], sv_issues = [invalid_issue None error_type], sv_retry_target_ids = expected\<rparr>"

section \<open>One result item\<close>

definition expected_fields :: "string option \<Rightarrow> structured_output_policy \<Rightarrow> string list" where
  "expected_fields target_field policy =
     [if op_mode policy = DENSE_SCORES then ''scores'' else ''matches'']
     @ (case target_field of None \<Rightarrow> [] | Some f \<Rightarrow> [f])
     @ (if op_include_reason policy then [''reason''] else [])
     @ (if op_include_evidence policy then [''evidence''] else [])"

text \<open>
  The \<^verbatim>\<open>try\<close> block: the scores of an item, or the error type of the issue they cause.  Only a
  \<open>DomainValidationError\<close> of \<open>validate_score\<close> is caught.
\<close>

definition checked_score :: "pyval \<Rightarrow> (string + rat) result" where
  "checked_score v =
     (case validate_score v of
        Inr q \<Rightarrow> Inr (Inr q)
      | Inl (DomainValidationError _) \<Rightarrow> Inr (Inl ''label_score_invalid'')
      | Inl e \<Rightarrow> Inl e)"

fun dense_scores :: "(string, pyval) dict \<Rightarrow> string list \<Rightarrow> (string + (string, rat) dict) result" where
  "dense_scores scores [] = Inr (Inr [])"
| "dense_scores scores (key # keys) =
     try_bind (checked_score (the (map_of scores key))) (\<lambda>r.
       case r of
         Inl issue \<Rightarrow> Inr (Inl issue)
       | Inr q \<Rightarrow> try_bind (dense_scores scores keys) (\<lambda>rest.
           case rest of Inl issue \<Rightarrow> Inr (Inl issue) | Inr d \<Rightarrow> Inr (Inr ((key, q) # d))))"

fun sparse_scores ::
  "string list \<Rightarrow> (string, rat) dict \<Rightarrow> pyval list \<Rightarrow> (string + (string, rat) dict) result" where
  "sparse_scores keys normalized [] = Inr (Inr normalized)"
| "sparse_scores keys normalized (m # ms) =
     (case m of
        PDict d \<Rightarrow>
          if set (map fst d) \<noteq> {''label_key'', ''score''} then Inr (Inl ''sparse_match_invalid'')
          else (case map_of d ''label_key'' of
              Some (PStr key) \<Rightarrow>
                if key \<notin> set keys then Inr (Inl ''sparse_match_unknown_label'')
                else if dict_has key normalized then Inr (Inl ''sparse_match_duplicate_label'')
                else try_bind (checked_score (the (map_of d ''score''))) (\<lambda>r.
                  case r of
                    Inl issue \<Rightarrow> Inr (Inl issue)
                  | Inr q \<Rightarrow> sparse_scores keys (dict_set key q normalized) ms)
            | _ \<Rightarrow> Inr (Inl ''sparse_match_unknown_label''))
      | _ \<Rightarrow> Inr (Inl ''sparse_match_invalid''))"

definition item_scores ::
  "structured_output_policy \<Rightarrow> label_set_version \<Rightarrow> (string, pyval) dict \<Rightarrow>
     (string + (string, rat) dict) result" where
  "item_scores policy labels item =
     (if op_mode policy = DENSE_SCORES then
        (case map_of item ''scores'' of
           Some (PDict scores) \<Rightarrow>
             if set (map fst scores) \<noteq> set (label_keys labels)
             then Inr (Inl ''dense_scores_incomplete_or_unknown'')
             else dense_scores scores (label_keys labels)
         | _ \<Rightarrow> Inr (Inl ''dense_scores_incomplete_or_unknown''))
      else
        (case map_of item ''matches'' of
           Some (PList matches) \<Rightarrow> sparse_scores (label_keys labels) [] matches
         | _ \<Rightarrow> Inr (Inl ''sparse_matches_not_array'')))"

definition text_list :: "pyval \<Rightarrow> string list option" where
  "text_list v =
     (case v of
        PList xs \<Rightarrow> if list_all (\<lambda>x. case x of PStr _ \<Rightarrow> True | _ \<Rightarrow> False) xs
          then Some (map (\<lambda>x. case x of PStr s \<Rightarrow> s | _ \<Rightarrow> []) xs) else None
      | _ \<Rightarrow> None)"

definition validate_result_item ::
  "(string, pyval) dict \<Rightarrow> string \<Rightarrow> string option \<Rightarrow> structured_output_policy \<Rightarrow> label_set_version \<Rightarrow>
     (validation_issue + validated_target_result) result" where
  "validate_result_item item target_id target_field policy labels =
     (if set (map fst item) \<noteq> set (expected_fields target_field policy)
      then Inr (Inl (invalid_issue (Some target_id) ''result_fields_invalid''))
      else try_bind (item_scores policy labels item) (\<lambda>r.
        case r of
          Inl error_type \<Rightarrow> Inr (Inl (invalid_issue (Some target_id) error_type))
        | Inr normalized \<Rightarrow>
            if op_include_reason policy \<and> (case map_of item ''reason'' of Some (PStr _) \<Rightarrow> False | _ \<Rightarrow> True)
            then Inr (Inl (invalid_issue (Some target_id) ''reason_invalid''))
            else if op_include_evidence policy
              \<and> text_list (case map_of item ''evidence'' of None \<Rightarrow> PList [] | Some v \<Rightarrow> v) = None
            then Inr (Inl (invalid_issue (Some target_id) ''evidence_invalid''))
            else try_bind (resolve_scores labels (map (\<lambda>(k, q). (k, PFloat (Fin q))) normalized)) (\<lambda>resolved.
              Inr (Inr \<lparr>vt_target_id = target_id, vt_labels = resolved,
                vt_reason = (case map_of item ''reason'' of Some (PStr s) \<Rightarrow> Some s | _ \<Rightarrow> None),
                vt_evidence = (case text_list (case map_of item ''evidence'' of None \<Rightarrow> PList [] | Some v \<Rightarrow> v)
                  of None \<Rightarrow> [] | Some xs \<Rightarrow> xs)\<rparr>))))"

section \<open>A whole response\<close>

definition validate_expected_targets :: "string list \<Rightarrow> string list result" where
  "validate_expected_targets targets =
     (if targets = [] then fail ''expected target IDs must be a non-empty tuple''
      else if list_ex blank targets then fail ''expected target IDs must be non-blank strings''
      else if \<not> distinct targets then fail ''expected target IDs must be unique''
      else Inr targets)"

definition text_target :: "string \<Rightarrow> pyval \<Rightarrow> string option" where
  "text_target field item =
     (case item of
        PDict d \<Rightarrow> (case map_of d field of Some (PStr s) \<Rightarrow> Some s | _ \<Rightarrow> None)
      | _ \<Rightarrow> None)"

definition target_values :: "string \<Rightarrow> pyval list \<Rightarrow> string list" where
  "target_values field items = List.map_filter (text_target field) items"

type_synonym batch_state = "(string, validated_target_result) dict \<times> validation_issue list"

text \<open>The body of the loop over the items of a batch response.\<close>

definition batch_step ::
  "string \<Rightarrow> structured_output_policy \<Rightarrow> label_set_version \<Rightarrow> string list \<Rightarrow> string list \<Rightarrow>
     pyval \<Rightarrow> batch_state \<Rightarrow> batch_state result" where
  "batch_step field policy labels expected values item st =
     (let valid = fst st; issues = snd st in
      case item of
        PDict d \<Rightarrow>
          (case text_target field item of
             None \<Rightarrow> Inr (valid, issues @ [invalid_issue None ''target_id_invalid''])
           | Some target \<Rightarrow>
               if blank target then Inr (valid, issues @ [invalid_issue None ''target_id_invalid''])
               else if target \<notin> set expected
               then Inr (valid, issues @ [invalid_issue (Some target) ''unknown_target_result''])
               else if 1 < count_list values target then
                 (if list_ex (\<lambda>i. vi_error_type i = ''duplicate_target_result'' \<and> vi_target_id i = Some target) issues
                  then Inr (valid, issues)
                  else Inr (valid, issues @ [invalid_issue (Some target) ''duplicate_target_result'']))
               else try_bind (validate_result_item d target (Some field) policy labels) (\<lambda>r.
                 case r of
                   Inl issue \<Rightarrow> Inr (valid, issues @ [issue])
                 | Inr res \<Rightarrow> Inr (dict_set target res valid, issues)))
      | _ \<Rightarrow> Inr (valid, issues @ [invalid_issue None ''batch_result_not_object'']))"

fun batch_loop ::
  "string \<Rightarrow> structured_output_policy \<Rightarrow> label_set_version \<Rightarrow> string list \<Rightarrow> string list \<Rightarrow>
     pyval list \<Rightarrow> batch_state \<Rightarrow> batch_state result" where
  "batch_loop field policy labels expected values [] st = Inr st"
| "batch_loop field policy labels expected values (item # items) st =
     try_bind (batch_step field policy labels expected values item st) (\<lambda>st'.
       batch_loop field policy labels expected values items st')"

definition missing_issue :: "string \<Rightarrow> validation_issue" where
  "missing_issue target =
     \<lparr>vi_code = MISSING_TARGET_RESULT, vi_error_type = ''missing_target_result'', vi_target_id = Some target\<rparr>"

definition validate_batch ::
  "pyval \<Rightarrow> execution_mode \<Rightarrow> structured_output_policy \<Rightarrow> label_set_version \<Rightarrow> string list \<Rightarrow>
     structured_output_validation result" where
  "validate_batch payload mode policy labels expected =
     (case payload of
        PDict d \<Rightarrow>
          (case map_of d ''results'' of
             Some (PList items) \<Rightarrow>
               if set (map fst d) \<noteq> {''results''}
               then Inr (whole_payload_failure expected ''batch_envelope_invalid'')
               else (case target_field_for_mode mode of
                   None \<Rightarrow> Inl AssertionError
                 | Some field \<Rightarrow>
                     let values = target_values field items in
                     try_bind (batch_loop field policy labels expected values items ([], [])) (\<lambda>(valid, issues).
                       Inr \<lparr>sv_valid_results = List.map_filter (map_of valid) expected,
                         sv_issues = issues @ map missing_issue (filter (\<lambda>t. t \<notin> set values) expected),
                         sv_retry_target_ids = filter (\<lambda>t. \<not> dict_has t valid) expected\<rparr>))
           | _ \<Rightarrow> Inr (whole_payload_failure expected ''batch_envelope_invalid''))
      | _ \<Rightarrow> Inl TypeError)"

definition validate_single ::
  "pyval \<Rightarrow> structured_output_policy \<Rightarrow> label_set_version \<Rightarrow> string list \<Rightarrow>
     structured_output_validation result" where
  "validate_single payload policy labels expected =
     (case expected of
        [target] \<Rightarrow>
          (case payload of
             PDict d \<Rightarrow>
               (case map_of d ''result'' of
                  Some (PDict item) \<Rightarrow>
                    if set (map fst d) \<noteq> {''result''}
                    then Inr (whole_payload_failure expected ''single_envelope_invalid'')
                    else try_bind (validate_result_item item target None policy labels) (\<lambda>r.
                      case r of
                        Inl issue \<Rightarrow> Inr \<lparr>sv_valid_results = [], sv_issues = [issue], sv_retry_target_ids = expected\<rparr>
                      | Inr res \<Rightarrow> Inr \<lparr>sv_valid_results = [res], sv_issues = [], sv_retry_target_ids = []\<rparr>)
                | _ \<Rightarrow> Inr (whole_payload_failure expected ''single_envelope_invalid''))
           | _ \<Rightarrow> Inl TypeError)
      | _ \<Rightarrow> fail ''non-batch validation requires exactly one target'')"

definition validate_output ::
  "pyval \<Rightarrow> execution_mode \<Rightarrow> structured_output_policy \<Rightarrow> label_set_version \<Rightarrow> string list \<Rightarrow>
     structured_output_validation result" where
  "validate_output payload mode policy labels expected_target_ids =
     try_bind (validate_expected_targets expected_target_ids) (\<lambda>expected.
       case payload of
         PDict _ \<Rightarrow>
           if is_batch_mode mode then validate_batch payload mode policy labels expected
           else validate_single payload policy labels expected
       | _ \<Rightarrow> Inr (whole_payload_failure expected ''response_not_object''))"

section \<open>The batch loop\<close>

lemma validate_result_item_target:
  "validate_result_item item target field policy labels = Inr (Inr res) \<Longrightarrow> vt_target_id res = target"
  "validate_result_item item target field policy labels = Inr (Inl issue) \<Longrightarrow> vi_target_id issue = Some target"
proof -
  consider (bad) "set (map fst item) \<noteq> set (expected_fields field policy)"
    | (error) e where "set (map fst item) = set (expected_fields field policy)"
        "item_scores policy labels item = Inl e"
    | (issue) t where "set (map fst item) = set (expected_fields field policy)"
        "item_scores policy labels item = Inr (Inl t)"
    | (scored) d where "set (map fst item) = set (expected_fields field policy)"
        "item_scores policy labels item = Inr (Inr d)"
    by (metis old.sum.exhaust)
  then have "(validate_result_item item target field policy labels = Inr (Inr res) \<longrightarrow> vt_target_id res = target) \<and>
    (validate_result_item item target field policy labels = Inr (Inl issue) \<longrightarrow> vi_target_id issue = Some target)"
  proof cases
    case scored
    then show ?thesis
      by (simp add: validate_result_item_def try_bind_Inr invalid_issue_def split del: if_split split: if_split)
        auto
  qed (auto simp: validate_result_item_def invalid_issue_def)
  then show "validate_result_item item target field policy labels = Inr (Inr res) \<Longrightarrow> vt_target_id res = target"
    "validate_result_item item target field policy labels = Inr (Inl issue) \<Longrightarrow> vi_target_id issue = Some target"
    by simp_all
qed

lemma target_values_set: "t \<in> set (target_values field items) \<longleftrightarrow> (\<exists>i \<in> set items. text_target field i = Some t)"
  by (auto simp: target_values_def List.map_filter_def image_iff)

text \<open>
  What one step keeps: valid entries stay, issues accumulate, a new entry is a checked result
  of the item under the item's own, expected and unrepeated target, and an item that names an
  expected target leaves either an entry or an issue for it.
\<close>

definition step_effect ::
  "string \<Rightarrow> structured_output_policy \<Rightarrow> label_set_version \<Rightarrow> string list \<Rightarrow> string list \<Rightarrow>
     pyval list \<Rightarrow> batch_state \<Rightarrow> batch_state \<Rightarrow> bool" where
  "step_effect field policy labels expected values items st st' \<longleftrightarrow>
     set (snd st) \<subseteq> set (snd st') \<and>
     (\<forall>t. map_of (fst st) t \<noteq> None \<longrightarrow> map_of (fst st') t \<noteq> None) \<and>
     (\<forall>t res. map_of (fst st') t = Some res \<longrightarrow> map_of (fst st) t = Some res \<or>
        (t \<in> set expected \<and> count_list values t \<le> 1 \<and> vt_target_id res = t \<and>
         (\<exists>d. PDict d \<in> set items \<and> text_target field (PDict d) = Some t \<and>
            validate_result_item d t (Some field) policy labels = Inr (Inr res)))) \<and>
     (\<forall>item \<in> set items. \<forall>t \<in> set expected. \<not> blank t \<and> text_target field item = Some t \<longrightarrow>
        map_of (fst st') t \<noteq> None \<or> (\<exists>i \<in> set (snd st'). vi_target_id i = Some t))"

lemma batch_step_effect:
  assumes "batch_step field policy labels expected values item st = Inr st'"
  shows "step_effect field policy labels expected values [item] st st'"
proof (cases "text_target field item")
  case None
  with assms show ?thesis
    by (cases item) (auto simp: batch_step_def step_effect_def)
next
  case (Some target)
  then obtain d where item: "item = PDict d" by (auto simp: text_target_def split: pyval.splits)
  show ?thesis
  proof (cases "blank target \<or> target \<notin> set expected \<or> 1 < count_list values target")
    case True
    with assms Some show ?thesis unfolding item
      by (auto simp: batch_step_def Let_def step_effect_def invalid_issue_def list_ex_iff split: if_splits)
  next
    case False
    then obtain r where r: "validate_result_item d target (Some field) policy labels = Inr r"
      and st': "st' = (case r of Inl issue \<Rightarrow> (fst st, snd st @ [issue]) | Inr res \<Rightarrow> (dict_set target res (fst st), snd st))"
      using assms Some unfolding item
      by (cases "validate_result_item d target (Some field) policy labels")
        (auto simp: batch_step_def Let_def split: sum.splits)
    show ?thesis
    proof (cases r)
      case (Inl issue)
      with r have "vi_target_id issue = Some target" using validate_result_item_target(2) by blast
      with Inl st' Some show ?thesis by (auto simp: step_effect_def)
    next
      case (Inr res)
      with r have "vt_target_id res = target" using validate_result_item_target(1) by blast
      with Inr st' Some False r show ?thesis unfolding item
        by (auto simp: step_effect_def dict_simps split: if_splits)
    qed
  qed
qed

lemma step_effect_trans:
  assumes "step_effect field policy labels expected values xs s t"
    and "step_effect field policy labels expected values ys t u"
  shows "step_effect field policy labels expected values (xs @ ys) s u"
proof -
  note st = assms(1) [unfolded step_effect_def] and tu = assms(2) [unfolded step_effect_def]
  have "set (snd s) \<subseteq> set (snd u)" using st tu by (elim conjE) (rule subset_trans)
  moreover have "\<forall>t. map_of (fst s) t \<noteq> None \<longrightarrow> map_of (fst u) t \<noteq> None" using st tu by meson
  moreover have "map_of (fst s) k = Some res \<or>
      (k \<in> set expected \<and> count_list values k \<le> 1 \<and> vt_target_id res = k \<and>
       (\<exists>d. PDict d \<in> set (xs @ ys) \<and> text_target field (PDict d) = Some k \<and>
          validate_result_item d k (Some field) policy labels = Inr (Inr res)))"
    if k: "map_of (fst u) k = Some res" for k res
  proof (cases "map_of (fst t) k = Some res")
    case True
    with st have "map_of (fst s) k = Some res \<or>
      (k \<in> set expected \<and> count_list values k \<le> 1 \<and> vt_target_id res = k \<and>
       (\<exists>d. PDict d \<in> set xs \<and> text_target field (PDict d) = Some k \<and>
          validate_result_item d k (Some field) policy labels = Inr (Inr res)))" by blast
    then show ?thesis unfolding set_append Un_iff by blast
  next
    case False
    with k tu have "k \<in> set expected \<and> count_list values k \<le> 1 \<and> vt_target_id res = k \<and>
       (\<exists>d. PDict d \<in> set ys \<and> text_target field (PDict d) = Some k \<and>
          validate_result_item d k (Some field) policy labels = Inr (Inr res))" by blast
    then show ?thesis unfolding set_append Un_iff by blast
  qed
  moreover have "map_of (fst u) k \<noteq> None \<or> (\<exists>i \<in> set (snd u). vi_target_id i = Some k)"
    if k: "item \<in> set (xs @ ys)" "k \<in> set expected" "\<not> blank k" "text_target field item = Some k" for item k
  proof (cases "item \<in> set xs")
    case True
    then have "map_of (fst t) k \<noteq> None \<or> (\<exists>i \<in> set (snd t). vi_target_id i = Some k)" using st k by blast
    then show ?thesis using tu by (meson subsetD)
  next
    case False
    then have "item \<in> set ys" using k(1) by simp
    then show ?thesis using tu k by blast
  qed
  ultimately show ?thesis unfolding step_effect_def by blast
qed

lemma batch_loop_effect:
  "batch_loop field policy labels expected values items st = Inr st' \<Longrightarrow>
     step_effect field policy labels expected values items st st'"
proof (induction items arbitrary: st)
  case Nil
  then show ?case by (simp add: step_effect_def)
next
  case (Cons item items)
  then obtain s where s: "batch_step field policy labels expected values item st = Inr s"
    and rest: "batch_loop field policy labels expected values items s = Inr st'"
    by (auto simp: result_simps)
  from step_effect_trans [OF batch_step_effect [OF s] Cons.IH [OF rest]] show ?case by simp
qed

section \<open>What the validated output promises\<close>

lemma count_list_map_filter:
  "count_list (List.map_filter f xs) t = length (filter (\<lambda>x. f x = Some t) xs)"
  by (induction xs) (auto simp: List.map_filter_simps split: option.splits)

lemma whole_payload_failure_simps [simp]:
  "sv_valid_results (whole_payload_failure expected t) = []"
  "sv_issues (whole_payload_failure expected t) = [invalid_issue None t]"
  "sv_retry_target_ids (whole_payload_failure expected t) = expected"
  by (simp_all add: whole_payload_failure_def)

lemma expected_targets_Inr:
  "validate_expected_targets targets = Inr expected \<longleftrightarrow>
     expected = targets \<and> targets \<noteq> [] \<and> (\<forall>t \<in> set targets. \<not> blank t) \<and> distinct targets"
  by (auto simp: validate_expected_targets_def list_ex_iff)

text \<open>The four ways in which \<open>validate_output\<close> returns.\<close>

lemma validate_output_cases [consumes 1, case_names whole single_issue single batch]:
  assumes "validate_output payload mode policy labels expected = Inr v"
  obtains (whole) t where "v = whole_payload_failure expected t"
  | (single_issue) target issue where "\<not> is_batch_mode mode" "expected = [target]"
      "v = \<lparr>sv_valid_results = [], sv_issues = [issue], sv_retry_target_ids = expected\<rparr>"
      "vi_target_id issue = Some target"
  | (single) target item res where "\<not> is_batch_mode mode" "expected = [target]"
      "v = \<lparr>sv_valid_results = [res], sv_issues = [], sv_retry_target_ids = []\<rparr>"
      "validate_result_item item target None policy labels = Inr (Inr res)"
  | (batch) d items field valid issues where "is_batch_mode mode" "payload = PDict d"
      "map_of d ''results'' = Some (PList items)" "target_field_for_mode mode = Some field"
      "batch_loop field policy labels expected (target_values field items) items ([], []) = Inr (valid, issues)"
      "v = \<lparr>sv_valid_results = List.map_filter (map_of valid) expected,
         sv_issues = issues @ map missing_issue (filter (\<lambda>t. t \<notin> set (target_values field items)) expected),
         sv_retry_target_ids = filter (\<lambda>t. \<not> dict_has t valid) expected\<rparr>"
proof -
  from assms have out: "(case payload of
         PDict _ \<Rightarrow>
           if is_batch_mode mode then validate_batch payload mode policy labels expected
           else validate_single payload policy labels expected
       | _ \<Rightarrow> Inr (whole_payload_failure expected ''response_not_object'')) = Inr v"
    by (auto simp: validate_output_def try_bind_Inr expected_targets_Inr)
  show thesis
  proof (cases "\<exists>d. payload = PDict d")
    case False
    with out have "v = whole_payload_failure expected ''response_not_object''" by (cases payload) auto
    then show thesis by (rule whole)
  next
    case True
    then obtain d where d: "payload = PDict d" by blast
    show thesis
    proof (cases "is_batch_mode mode")
      case True
      with out d have b: "validate_batch (PDict d) mode policy labels expected = Inr v" by simp
      show thesis
      proof (cases "\<exists>items. map_of d ''results'' = Some (PList items) \<and> set (map fst d) = {''results''}")
        case False
        with b have "v = whole_payload_failure expected ''batch_envelope_invalid''"
          by (auto simp: validate_batch_def split: option.splits pyval.splits if_splits)
        then show thesis by (rule whole)
      next
        case ok: True
        then obtain items where items: "map_of d ''results'' = Some (PList items)" by blast
        from True obtain field where field: "target_field_for_mode mode = Some field"
          by (cases mode) (auto simp: is_batch_mode_def)
        from b ok items field obtain valid issues where
          "batch_loop field policy labels expected (target_values field items) items ([], []) = Inr (valid, issues)"
          "v = \<lparr>sv_valid_results = List.map_filter (map_of valid) expected,
             sv_issues = issues @ map missing_issue (filter (\<lambda>t. t \<notin> set (target_values field items)) expected),
             sv_retry_target_ids = filter (\<lambda>t. \<not> dict_has t valid) expected\<rparr>"
          by (auto simp: validate_batch_def Let_def try_bind_Inr)
        then show thesis using batch [OF True d items field] by blast
      qed
    next
      case False
      with out d have b: "validate_single (PDict d) policy labels expected = Inr v" by simp
      then obtain target where target: "expected = [target]"
        by (cases expected rule: remdups_adj.cases) (auto simp: validate_single_def)
      show thesis
      proof (cases "\<exists>item. map_of d ''result'' = Some (PDict item) \<and> set (map fst d) = {''result''}")
        case no: False
        with b target have "v = whole_payload_failure expected ''single_envelope_invalid''"
          by (auto simp: validate_single_def split: option.splits pyval.splits if_splits)
        then show thesis by (rule whole)
      next
        case True
        then obtain item where "map_of d ''result'' = Some (PDict item)" by blast
        with True b target obtain r where r: "validate_result_item item target None policy labels = Inr r"
          and v: "v = (case r of Inl issue \<Rightarrow> \<lparr>sv_valid_results = [], sv_issues = [issue], sv_retry_target_ids = expected\<rparr>
              | Inr res \<Rightarrow> \<lparr>sv_valid_results = [res], sv_issues = [], sv_retry_target_ids = []\<rparr>)"
          by (cases "validate_result_item item target None policy labels")
            (auto simp: validate_single_def split: sum.splits)
        show thesis
        proof (cases r)
          case (Inl issue)
          with r v show thesis
            using single_issue [OF False target] validate_result_item_target(2) by auto
        next
          case (Inr res)
          with r v show thesis using single [OF False target] by auto
        qed
      qed
    qed
  qed
qed

lemma batch_valid_targets:
  assumes "batch_loop field policy labels expected values items ([], []) = Inr (valid, issues)"
  shows "map vt_target_id (List.map_filter (map_of valid) ts) = filter (\<lambda>t. dict_has t valid) ts"
proof (induction ts)
  case Nil
  then show ?case by (simp add: List.map_filter_simps)
next
  case (Cons t ts)
  have "map_of valid t = Some res \<Longrightarrow> vt_target_id res = t" for res
    using batch_loop_effect [OF assms] by (fastforce simp: step_effect_def)
  with Cons show ?case by (auto simp: List.map_filter_simps dict_has_iff split: option.splits)
qed

lemma validated_partition:
  assumes "validate_output payload mode policy labels expected = Inr v"
  shows "map vt_target_id (sv_valid_results v) = filter (\<lambda>t. t \<notin> set (sv_retry_target_ids v)) expected
    \<and> sv_retry_target_ids v = filter (\<lambda>t. t \<notin> vt_target_id ` set (sv_valid_results v)) expected"
  using assms
proof (cases rule: validate_output_cases)
  case (whole t)
  then show ?thesis by simp
next
  case (single_issue target issue)
  then show ?thesis by simp
next
  case (single target item res)
  then show ?thesis using validate_result_item_target(1) by simp
next
  case (batch d items field valid issues)
  have ids: "vt_target_id ` set (List.map_filter (map_of valid) expected) = {t \<in> set expected. dict_has t valid}"
    using arg_cong [OF batch_valid_targets [OF batch(5), of expected], of set] by simp
  have "filter (\<lambda>t. dict_has t valid) expected = filter (\<lambda>t. t \<notin> set (filter (\<lambda>t. \<not> dict_has t valid) expected)) expected"
    by (rule filter_cong) auto
  moreover have "filter (\<lambda>t. \<not> dict_has t valid) expected
      = filter (\<lambda>t. t \<notin> {t \<in> set expected. dict_has t valid}) expected"
    by (rule filter_cong) auto
  ultimately show ?thesis
    using batch_valid_targets [OF batch(5), of expected] ids batch(6) by simp
qed

text \<open>
  C4: The accepted results and the targets to retry partition the expected targets, and both
  keep the expected order: every expected target is either answered exactly once or retried.
\<close>

theorem validated_targets_partition:
  assumes "validate_output payload mode policy labels expected = Inr v"
  shows "map vt_target_id (sv_valid_results v) = filter (\<lambda>t. t \<notin> set (sv_retry_target_ids v)) expected
    \<and> sv_retry_target_ids v = filter (\<lambda>t. t \<notin> vt_target_id ` set (sv_valid_results v)) expected"
  using assms by (rule validated_partition)

text \<open>
  No target is lost silently: every target to retry has an issue that names it, or an
  issue about the whole response that retries them all.  So a validation without issues is
  complete.
\<close>

theorem retried_targets_have_issues:
  assumes "validate_output payload mode policy labels expected = Inr v"
  shows "(\<forall>t \<in> set (sv_retry_target_ids v). \<exists>i \<in> set (sv_issues v). vi_target_id i = Some t \<or>
      (vi_target_id i = None \<and> sv_retry_target_ids v = expected \<and> sv_valid_results v = []))
    \<and> (validation_complete v \<longleftrightarrow> sv_issues v = [])"
proof -
  have main: "\<forall>t \<in> set (sv_retry_target_ids v). \<exists>i \<in> set (sv_issues v). vi_target_id i = Some t \<or>
      (vi_target_id i = None \<and> sv_retry_target_ids v = expected \<and> sv_valid_results v = [])"
    using assms
  proof (cases rule: validate_output_cases)
    case (batch d items field valid issues)
    have "\<exists>i \<in> set (sv_issues v). vi_target_id i = Some t" if t: "t \<in> set (sv_retry_target_ids v)" for t
    proof (cases "t \<in> set (target_values field items)")
      case True
      then obtain item where item: "item \<in> set items" "text_target field item = Some t"
        by (auto simp: target_values_set)
      have "\<not> blank t" using t batch(6) assms
        by (auto simp: validate_output_def try_bind_Inr expected_targets_Inr)
      moreover have "t \<in> set expected" "map_of valid t = None" using t batch(6) by (auto simp: dict_has_iff)
      ultimately have "\<exists>i \<in> set issues. vi_target_id i = Some t"
        using batch_loop_effect [OF batch(5)] item by (auto simp: step_effect_def)
      then show ?thesis using batch(6) by auto
    next
      case False
      then have "missing_issue t \<in> set (sv_issues v)" using t batch(6) by auto
      then show ?thesis by (rule rev_bexI) (simp add: missing_issue_def)
    qed
    then show ?thesis by blast
  qed (simp_all add: invalid_issue_def)
  moreover have "validation_complete v \<longleftrightarrow> sv_issues v = []"
    using main by (cases "sv_retry_target_ids v") (auto simp: validation_complete_def)
  ultimately show ?thesis by blast
qed

text \<open>
  An accepted result of a batch response comes from exactly one item of the response, which
  names an expected target and passes the item checks: a repeated, unknown or malformed item is
  never accepted.
\<close>

theorem accepted_results_come_from_one_item:
  assumes "validate_output (PDict d) mode policy labels expected = Inr v"
    and "is_batch_mode mode" and "r \<in> set (sv_valid_results v)"
  shows "\<exists>items field item. map_of d ''results'' = Some (PList items) \<and> target_field_for_mode mode = Some field
    \<and> vt_target_id r \<in> set expected
    \<and> filter (\<lambda>i. text_target field i = Some (vt_target_id r)) items = [PDict item]
    \<and> validate_result_item item (vt_target_id r) (Some field) policy labels = Inr (Inr r)"
  using assms(1)
proof (cases rule: validate_output_cases)
  case (batch e items field valid issues)
  from assms(3) batch(6) obtain t where t: "t \<in> set expected" "map_of valid t = Some r"
    by (auto simp: List.map_filter_def)
  have "t \<in> set expected \<and> count_list (target_values field items) t \<le> 1 \<and> vt_target_id r = t \<and>
         (\<exists>d. PDict d \<in> set items \<and> text_target field (PDict d) = Some t \<and>
            validate_result_item d t (Some field) policy labels = Inr (Inr r))"
    using batch_loop_effect [OF batch(5)] t(2) by (auto simp: step_effect_def)
  then obtain item where item: "vt_target_id r = t" "count_list (target_values field items) t \<le> 1"
      "PDict item \<in> set items" "text_target field (PDict item) = Some t"
      "validate_result_item item t (Some field) policy labels = Inr (Inr r)"
    by blast
  have "PDict item \<in> set (filter (\<lambda>i. text_target field i = Some t) items)" using item by simp
  moreover have "length (filter (\<lambda>i. text_target field i = Some t) items) \<le> 1"
    using item(2) by (simp add: target_values_def count_list_map_filter)
  ultimately have "filter (\<lambda>i. text_target field i = Some t) items = [PDict item]"
    by (cases "filter (\<lambda>i. text_target field i = Some t) items") auto
  with batch item t show ?thesis by blast
qed (use assms in simp_all)

section \<open>Scores of an accepted item\<close>

text \<open>The score value an item reports for a label, in either output mode.\<close>

fun sparse_reported :: "string \<Rightarrow> pyval list \<Rightarrow> pyval option" where
  "sparse_reported key [] = None"
| "sparse_reported key (m # ms) =
     (case m of
        PDict d \<Rightarrow> if map_of d ''label_key'' = Some (PStr key) then map_of d ''score''
          else sparse_reported key ms
      | _ \<Rightarrow> sparse_reported key ms)"

definition reported_score ::
  "structured_output_policy \<Rightarrow> (string, pyval) dict \<Rightarrow> string \<Rightarrow> pyval option" where
  "reported_score policy item key =
     (if op_mode policy = DENSE_SCORES
      then (case map_of item ''scores'' of Some (PDict scores) \<Rightarrow> map_of scores key | _ \<Rightarrow> None)
      else (case map_of item ''matches'' of Some (PList ms) \<Rightarrow> sparse_reported key ms | _ \<Rightarrow> None))"

lemma case_accepted:
  "((case r of Inl i \<Rightarrow> Inr (Inl (g i)) | Inr x \<Rightarrow> f x) = Inr (Inr y)) \<longleftrightarrow> (\<exists>x. r = Inr x \<and> f x = Inr (Inr y))"
  by (cases r) simp_all

lemma checked_score_Inr: "checked_score v = Inr (Inr q) \<longleftrightarrow> validate_score v = Inr q"
  by (auto simp: checked_score_def split: sum.splits error.splits)

lemma dense_scores_Inr:
  "dense_scores scores keys = Inr (Inr d) \<longleftrightarrow>
     map fst d = keys \<and> (\<forall>(k, q) \<in> set d. validate_score (the (map_of scores k)) = Inr q)"
proof (induction keys arbitrary: d)
  case (Cons key keys)
  have "dense_scores scores (key # keys) = Inr (Inr d) \<longleftrightarrow>
      (\<exists>q rest. checked_score (the (map_of scores key)) = Inr (Inr q)
        \<and> dense_scores scores keys = Inr (Inr rest) \<and> d = (key, q) # rest)"
    by (auto simp: try_bind_Inr case_accepted)
  then show ?case by (cases d) (auto simp: Cons.IH checked_score_Inr)
qed auto

lemma sparse_scores_step:
  assumes "sparse_scores keys n (PDict e # ms) = Inr (Inr d)"
  obtains key v q where "map_of e ''label_key'' = Some (PStr key)" "map_of e ''score'' = Some v"
    "map_of n key = None" "validate_score v = Inr q"
    "sparse_scores keys (dict_set key q n) ms = Inr (Inr d)"
    "key \<in> set keys" "set (map fst e) = {''label_key'', ''score''}"
proof -
  have fields: "set (map fst e) = {''label_key'', ''score''}"
  proof (rule ccontr)
    assume "set (map fst e) \<noteq> {''label_key'', ''score''}"
    then show False using assms
      by (simp only: sparse_scores.simps pyval.case not_False_eq_True if_True sum.inject sum.distinct)
  qed
  then have "''label_key'' \<in> fst ` set e" and "''score'' \<in> fst ` set e" by simp_all
  then obtain kv v where kv: "map_of e ''label_key'' = Some kv" and v: "map_of e ''score'' = Some v"
    by (metis (no_types) map_of_eq_None_iff not_None_eq)
  note eq = assms [unfolded sparse_scores.simps pyval.case kv option.case v option.sel]
  have "\<exists>key. kv = PStr key"
    using eq fields by (cases kv) simp_all
  then obtain key where key: "kv = PStr key" by blast
  have eq2: "(if key \<notin> set keys then Inr (Inl ''sparse_match_unknown_label'')
      else if dict_has key n then Inr (Inl ''sparse_match_duplicate_label'')
      else try_bind (checked_score v) (\<lambda>r.
        case r of Inl issue \<Rightarrow> Inr (Inl issue)
        | Inr q \<Rightarrow> sparse_scores keys (dict_set key q n) ms)) = Inr (Inr d)"
    using eq fields unfolding key by simp
  from eq2 have n: "\<not> dict_has key n" "key \<in> set keys" by (cases "key \<in> set keys"; cases "dict_has key n"; simp)+
  from eq2 n have "\<exists>q. checked_score v = Inr (Inr q) \<and> sparse_scores keys (dict_set key q n) ms = Inr (Inr d)"
    by (simp add: try_bind_Inr case_accepted) blast
  with n have "map_of n key = None \<and> (\<exists>q. validate_score v = Inr q \<and>
      sparse_scores keys (dict_set key q n) ms = Inr (Inr d))"
    by (simp add: checked_score_Inr dict_has_iff)
  then show thesis using that kv key v n(2) fields by blast
qed

lemma sparse_scores_Inr:
  "sparse_scores keys n ms = Inr (Inr d) \<Longrightarrow>
     (case map_of n k of
        Some q \<Rightarrow> map_of d k = Some q
      | None \<Rightarrow> (case sparse_reported k ms of
            None \<Rightarrow> map_of d k = None
          | Some v \<Rightarrow> \<exists>q. validate_score v = Inr q \<and> map_of d k = Some q))"
proof (induction ms arbitrary: n)
  case Nil
  then show ?case by (simp split: option.splits)
next
  case (Cons m ms)
  from Cons.prems obtain e where m: "m = PDict e" by (cases m) auto
  from Cons.prems [unfolded m] obtain key v q where key: "map_of e ''label_key'' = Some (PStr key)"
    and v: "map_of e ''score'' = Some v" and new: "map_of n key = None" and q: "validate_score v = Inr q"
    and rest: "sparse_scores keys (dict_set key q n) ms = Inr (Inr d)"
    by (rule sparse_scores_step) (rule that)
  from Cons.IH [OF rest] m key v new q show ?case
    by (cases "k = key"; cases "map_of n k") (auto simp: map_of_dict_set)
qed

lemma item_scores_Inr:
  assumes "item_scores policy labels item = Inr (Inr d)"
  shows "key \<in> set (label_keys labels) \<Longrightarrow> (case reported_score policy item key of
            None \<Rightarrow> map_of d key = None
          | Some v \<Rightarrow> \<exists>q. validate_score v = Inr q \<and> map_of d key = Some q)"
    and "op_mode policy = DENSE_SCORES \<Longrightarrow> map fst d = label_keys labels"
proof -
  have dense: "(key \<in> set (label_keys labels) \<longrightarrow> (case reported_score policy item key of
            None \<Rightarrow> map_of d key = None
          | Some v \<Rightarrow> \<exists>q. validate_score v = Inr q \<and> map_of d key = Some q)) \<and> map fst d = label_keys labels"
    if m: "op_mode policy = DENSE_SCORES"
  proof -
    from assms m obtain scores where s: "map_of item ''scores'' = Some (PDict scores)"
      and keys: "set (map fst scores) = set (label_keys labels)"
      and d: "dense_scores scores (label_keys labels) = Inr (Inr d)"
      by (auto simp: item_scores_def split: option.splits pyval.splits if_splits)
    have "\<exists>v q. map_of scores key = Some v \<and> validate_score v = Inr q \<and> map_of d key = Some q"
      if k: "key \<in> set (label_keys labels)"
    proof -
      from k keys obtain v where v: "map_of scores key = Some v"
        by (metis list.set_map map_of_eq_None_iff not_None_eq)
      from k d obtain q where "map_of d key = Some q"
        by (metis dense_scores_Inr list.set_map map_of_eq_None_iff not_None_eq)
      moreover from this have "(key, q) \<in> set d" by (rule map_of_SomeD)
      ultimately show ?thesis using v d by (auto simp: dense_scores_Inr)
    qed
    with m s d show ?thesis by (auto simp: reported_score_def dense_scores_Inr)
  qed
  show "key \<in> set (label_keys labels) \<Longrightarrow> (case reported_score policy item key of
            None \<Rightarrow> map_of d key = None
          | Some v \<Rightarrow> \<exists>q. validate_score v = Inr q \<and> map_of d key = Some q)"
  proof (cases "op_mode policy = DENSE_SCORES")
    case False
    with assms obtain ms where ms: "map_of item ''matches'' = Some (PList ms)"
      and d: "sparse_scores (label_keys labels) [] ms = Inr (Inr d)"
      by (auto simp: item_scores_def split: option.splits pyval.splits)
    from sparse_scores_Inr [OF d, of key] False ms show ?thesis by (simp add: reported_score_def)
  qed (use dense in blast)
  show "op_mode policy = DENSE_SCORES \<Longrightarrow> map fst d = label_keys labels" using dense by blast
qed

text \<open>
  The labels of an accepted item are, in label order, those its response scores, each
  with exactly the reported number (between 0 and 1) and activated by its own threshold; in
  dense mode no label of the set is missing.
\<close>

theorem accepted_item_labels:
  assumes "check_label_set s0 = Inr labels"
    and "validate_result_item item target field policy labels = Inr (Inr r)"
  shows "map rl_key (vt_labels r) = filter (\<lambda>k. reported_score policy item k \<noteq> None) (label_keys labels)
    \<and> (op_mode policy = DENSE_SCORES \<longrightarrow> map rl_key (vt_labels r) = label_keys labels)
    \<and> (\<forall>l \<in> set (vt_labels r). \<exists>b \<in> set (ls_bindings labels). \<exists>v. rl_key l = binding_key b
        \<and> reported_score policy item (rl_key l) = Some v \<and> num_val v = Some (Fin (rl_score l))
        \<and> 0 \<le> rl_score l \<and> rl_score l \<le> 1
        \<and> (rl_activated l \<longleftrightarrow> lb_activation_threshold b \<le> rl_score l))"
proof -
  have distinct: "distinct (map binding_key (ls_bindings labels))"
    using check_label_set_distinct [OF assms(1)] by blast
  from assms(2) obtain d where d: "item_scores policy labels item = Inr (Inr d)"
    and res: "resolve_scores labels (map (\<lambda>(k, q). (k, PFloat (Fin q))) d) = Inr (vt_labels r)"
    by (simp add: validate_result_item_def try_bind_Inr case_accepted split: if_splits) auto
  have lookup: "map_of (map (\<lambda>(k, q). (k, PFloat (Fin q))) d) k = map_option (\<lambda>q. PFloat (Fin q)) (map_of d k)" for k
    by (simp add: map_of_map)
  have has: "filter (\<lambda>k. dict_has k (map (\<lambda>(k, q). (k, PFloat (Fin q))) d)) (label_keys labels)
      = filter (\<lambda>k. reported_score policy item k \<noteq> None) (label_keys labels)"
    by (rule filter_cong [OF refl])
      (use item_scores_Inr(1) [OF d] in \<open>fastforce simp: dict_has_iff lookup split: option.splits\<close>)
  have keys: "map rl_key (vt_labels r) = filter (\<lambda>k. reported_score policy item k \<noteq> None) (label_keys labels)"
    using resolved_labels [OF distinct res] has by simp
  moreover have "map rl_key (vt_labels r) = label_keys labels" if "op_mode policy = DENSE_SCORES"
  proof -
    have "\<forall>k \<in> set (label_keys labels). dict_has k (map (\<lambda>(k, q). (k, PFloat (Fin q))) d)"
      unfolding dict_has_iff lookup item_scores_Inr(2) [OF d that, symmetric]
      by (auto simp: map_of_eq_None_iff simp del: not_None_eq)
    then show ?thesis using keys has by (simp add: filter_id_conv)
  qed
  moreover have "\<exists>b \<in> set (ls_bindings labels). \<exists>v. rl_key l = binding_key b
        \<and> reported_score policy item (rl_key l) = Some v \<and> num_val v = Some (Fin (rl_score l))
        \<and> 0 \<le> rl_score l \<and> rl_score l \<le> 1
        \<and> (rl_activated l \<longleftrightarrow> lb_activation_threshold b \<le> rl_score l)" if l: "l \<in> set (vt_labels r)" for l
  proof -
    from resolved_labels [OF distinct res] l obtain b where b: "b \<in> set (ls_bindings labels)"
        "rl_key l = binding_key b" "0 \<le> rl_score l" "rl_score l \<le> 1"
        "rl_activated l \<longleftrightarrow> lb_activation_threshold b \<le> rl_score l"
      and score: "num_val (the (map_of (map (\<lambda>(k, q). (k, PFloat (Fin q))) d) (rl_key l))) = Some (Fin (rl_score l))"
      by blast
    have "rl_key l \<in> set (filter (\<lambda>k. reported_score policy item k \<noteq> None) (label_keys labels))"
      using keys l by (metis image_eqI list.set_map)
    then obtain v where "reported_score policy item (rl_key l) = Some v" "rl_key l \<in> set (label_keys labels)" by auto
    moreover from this item_scores_Inr(1) [OF d, of "rl_key l"] score
    have "num_val v = Some (Fin (rl_score l))" by (auto simp: lookup validate_score_Inr)
    ultimately show ?thesis using b by blast
  qed
  ultimately show ?thesis by blast
qed

text \<open>
  An integer score that no float can hold escapes the validator: instead of an issue and a
  retry for its target, the whole validation raises the built-in \<open>OverflowError\<close>, which only
  \<open>DomainValidationError\<close> is caught for.
\<close>

theorem huge_score_escapes:
  assumes "label_keys labels = key # keys" and "set (map fst scores) = set (label_keys labels)"
    and "map_of scores key = Some (PInt i)" and "float_limit \<le> \<bar>i\<bar>" and "\<not> blank target"
  shows "validate_output (PDict [(''result'', PDict [(''scores'', PDict scores)])]) SINGLE_MESSAGE
      \<lparr>op_mode = DENSE_SCORES, op_include_reason = False, op_include_evidence = False\<rparr> labels [target]
    = Inl OverflowError"
proof -
  have "checked_score (PInt i) = Inl OverflowError"
    using validate_score_overflow [of i] assms(4) by (simp add: checked_score_def)
  then have "dense_scores scores (label_keys labels) = Inl OverflowError"
    using assms(1,3) by simp
  with assms(2,5) show ?thesis
    by (simp add: validate_output_def validate_expected_targets_def is_batch_mode_def validate_single_def
        validate_result_item_def expected_fields_def item_scores_def)
qed

section \<open>A sample response\<close>

definition sample_item :: "string \<Rightarrow> rat \<Rightarrow> pyval" where
  "sample_item target score = PDict [(''message_id'', PStr target),
     (''scores'', PDict [(''ugc'', PFloat (Fin score)), (''spam'', PInt 0)])]"

definition sample_response :: pyval where
  "sample_response = PDict [(''results'', PList [sample_item ''m1'' (3/4), sample_item ''m2'' 1,
     sample_item ''m2'' 0, sample_item ''m4'' 1])]"

definition sample_validation :: structured_output_validation where
  "sample_validation = projr (validate_output sample_response BATCH_MESSAGES
     \<lparr>op_mode = DENSE_SCORES, op_include_reason = False, op_include_evidence = False\<rparr>
     sample_label_set [''m1'', ''m2'', ''m3''])"

lemma sample_validation:
  "validate_output sample_response BATCH_MESSAGES
     \<lparr>op_mode = DENSE_SCORES, op_include_reason = False, op_include_evidence = False\<rparr>
     sample_label_set [''m1'', ''m2'', ''m3''] = Inr sample_validation"
  unfolding sample_validation_def by code_simp

theorem validated_targets_partition_witness:
  "map vt_target_id (sv_valid_results sample_validation) = [''m1'']
    \<and> sv_retry_target_ids sample_validation = [''m2'', ''m3'']"
proof -
  have "sv_retry_target_ids sample_validation = [''m2'', ''m3'']" by code_simp
  with validated_targets_partition [OF sample_validation] show ?thesis by simp
qed

theorem retried_targets_have_issues_witness:
  "\<exists>i \<in> set (sv_issues sample_validation). vi_target_id i = Some ''m3''"
proof -
  have "''m3'' \<in> set (sv_retry_target_ids sample_validation)" "sv_valid_results sample_validation \<noteq> []"
    by code_simp+
  with retried_targets_have_issues [OF sample_validation] show ?thesis by blast
qed

theorem accepted_results_come_from_one_item_witness:
  "\<exists>r item. sv_valid_results sample_validation = [r]
     \<and> validate_result_item item ''m1'' (Some ''message_id'')
         \<lparr>op_mode = DENSE_SCORES, op_include_reason = False, op_include_evidence = False\<rparr> sample_label_set
       = Inr (Inr r)"
proof -
  have "map vt_target_id (sv_valid_results sample_validation) = [''m1'']" by code_simp
  then obtain r where r: "sv_valid_results sample_validation = [r]" "vt_target_id r = ''m1''" by auto
  have "validate_output (PDict [(''results'', PList [sample_item ''m1'' (3/4), sample_item ''m2'' 1,
     sample_item ''m2'' 0, sample_item ''m4'' 1])]) BATCH_MESSAGES
     \<lparr>op_mode = DENSE_SCORES, op_include_reason = False, op_include_evidence = False\<rparr>
     sample_label_set [''m1'', ''m2'', ''m3''] = Inr sample_validation"
    using sample_validation unfolding sample_response_def .
  from accepted_results_come_from_one_item [OF this] r show ?thesis
    by (auto simp: is_batch_mode_def)
qed

theorem accepted_item_labels_witness:
  "\<exists>r. validate_result_item [(''matches'', PList [PDict [(''label_key'', PStr ''spam''), (''score'', PInt 1)]])]
      ''m1'' None \<lparr>op_mode = SPARSE_MATCHES, op_include_reason = False, op_include_evidence = False\<rparr>
      sample_label_set = Inr (Inr r) \<and> map rl_key (vt_labels r) = [''spam''] \<and> (\<forall>l \<in> set (vt_labels r). rl_score l \<le> 1)"
proof -
  let ?item = "[(''matches'', PList [PDict [(''label_key'', PStr ''spam''), (''score'', PInt 1)]])]"
  let ?p = "\<lparr>op_mode = SPARSE_MATCHES, op_include_reason = False, op_include_evidence = False\<rparr>"
  let ?r = "\<lparr>vt_target_id = ''m1'', vt_labels = [resolve_label (ls_bindings sample_label_set ! 0) 1],
    vt_reason = None, vt_evidence = []\<rparr>"
  have c: "check_label_set sample_label_set = Inr sample_label_set" by code_simp
  have r: "validate_result_item ?item ''m1'' None ?p sample_label_set = Inr (Inr ?r)" by code_simp
  have f: "filter (\<lambda>k. reported_score ?p ?item k \<noteq> None) (label_keys sample_label_set) = [''spam'']"
    by code_simp
  note acc = accepted_item_labels [OF c r]
  show ?thesis
    by (intro exI [of _ ?r] conjI, rule r, rule trans [OF conjunct1 [OF acc] f], use acc in blast)
qed

theorem huge_score_escapes_witness:
  "validate_output (PDict [(''result'', PDict [(''scores'', PDict [(''ugc'', PInt float_limit), (''spam'', PInt 0)])])])
      SINGLE_MESSAGE \<lparr>op_mode = DENSE_SCORES, op_include_reason = False, op_include_evidence = False\<rparr>
      sample_label_set [''m1''] = Inl OverflowError"
proof (rule huge_score_escapes)
  show keys: "label_keys sample_label_set = ''ugc'' # [''spam'']" by code_simp
  show "set (map fst [(''ugc'', PInt float_limit), (''spam'', PInt 0)]) = set (label_keys sample_label_set)"
    by (simp add: keys)
  show "map_of [(''ugc'', PInt float_limit), (''spam'', PInt 0)] ''ugc'' = Some (PInt float_limit)" by simp
  show "float_limit \<le> \<bar>float_limit\<bar>" by simp
  show "\<not> blank ''m1''" by code_simp
qed

end
