(* ===== verification/Pipeline_Graph.thy ===== *)
theory Pipeline_Graph
  imports Prelude
begin

text \<open>
  The stage graph of an analysis pipeline, \<^verbatim>\<open>tgcurator/domain/analysis/pipeline.py\<close>: the
  \<^verbatim>\<open>PipelineStage\<close>/\<^verbatim>\<open>PipelineDefinition\<close> checks, the topological sort \<^verbatim>\<open>_topological_ids\<close>
  shared by both kinds of pipelines, and the ancestor search of \<^verbatim>\<open>_validate_conditions\<close>.

  A stage reaches the graph functions as its id and its \<^verbatim>\<open>depends_on\<close>; the mutable
  \<^verbatim>\<open>dependencies\<close> dictionary of the sort is threaded through the loop, a set of ids being the
  list of its elements.
\<close>

type_synonym graph = "(string \<times> string list) list"

section \<open>The topological sort\<close>

type_synonym topo_state = "(string, string list) dict \<times> string list \<times> string list"

text \<open>The state is \<^verbatim>\<open>dependencies\<close>, \<^verbatim>\<open>ordered\<close>, \<^verbatim>\<open>ready\<close>.\<close>

definition initial_dependencies :: "graph \<Rightarrow> (string, string list) dict" where
  "initial_dependencies stages =
     fold (\<lambda>(stage_id, depends_on). dict_set stage_id (remdups depends_on)) stages []"

text \<open>
  The body of the inner loop, for one id of \<^verbatim>\<open>sorted(dependencies)\<close>; the ids are the keys of
  the dictionary, so the lookup finds a set.
\<close>

definition release :: "string \<Rightarrow> string list \<Rightarrow> string \<Rightarrow>
    (string, string list) dict \<times> string list \<Rightarrow> (string, string list) dict \<times> string list" where
  "release current ordered stage_id = (\<lambda>(dependencies, ready).
     case map_of dependencies stage_id of
       None \<Rightarrow> (dependencies, ready)
     | Some deps \<Rightarrow>
         if current \<in> set deps then
           (dict_set stage_id (removeAll current deps) dependencies,
            if removeAll current deps = [] \<and> stage_id \<notin> set ordered \<and> stage_id \<notin> set ready
            then ready @ [stage_id] else ready)
         else (dependencies, ready))"

definition release_all :: "string \<Rightarrow> string list \<Rightarrow>
    (string, string list) dict \<times> string list \<Rightarrow> (string, string list) dict \<times> string list" where
  "release_all current ordered st = fold (release current ordered) (sort (map fst (fst st))) st"

definition pending_count :: "(string, string list) dict \<Rightarrow> nat" where
  "pending_count dependencies = sum_list (map (length \<circ> snd) dependencies)"

lemma pending_count_dict_set:
  "map_of d k = Some v \<Longrightarrow> pending_count (dict_set k w d) + length v = pending_count d + length w"
  by (induction d) (auto simp: pending_count_def split: if_splits)

text \<open>An id only becomes ready when its last dependency is dropped.\<close>

lemma release_count:
  assumes "release current ordered k (d, r) = (d', r')"
  shows "(pending_count d' < pending_count d \<or> (pending_count d' = pending_count d \<and> r' = r))"
proof (cases "map_of d k")
  case (Some deps)
  have "current \<in> set deps \<Longrightarrow> length (removeAll current deps) < length deps"
    by (rule length_removeAll_less)
  with Some assms pending_count_dict_set [OF Some, of "removeAll current deps"] show ?thesis
    by (auto simp: release_def split: if_splits)
qed (use assms in \<open>simp add: release_def\<close>)

lemma fold_release_count:
  "fold (release current ordered) ks (d, r) = (d', r') \<Longrightarrow>
     pending_count d' < pending_count d \<or> (pending_count d' = pending_count d \<and> r' = r)"
proof (induction ks arbitrary: d r)
  case (Cons k ks)
  obtain d1 r1 where s: "release current ordered k (d, r) = (d1, r1)" by fastforce
  from release_count [OF s] Cons.IH [of d1 r1] Cons.prems s show ?case by auto
qed simp

function topo_loop :: "topo_state \<Rightarrow> topo_state" where
  "topo_loop (dependencies, ordered, ready) =
     (case ready of
        [] \<Rightarrow> (dependencies, ordered, [])
      | current # rest \<Rightarrow>
          let st = release_all current (ordered @ [current]) (dependencies, rest)
          in topo_loop (fst st, ordered @ [current], sort (snd st)))"
  by pat_completeness auto

termination
proof (relation "measures [\<lambda>(d, ordered, r). pending_count d, \<lambda>(d, ordered, r). length r]")
  fix d ordered r current rest st
  assume "r = current # rest" and "st = release_all current (ordered @ [current]) (d, rest)"
  moreover obtain d' r' where "release_all current (ordered @ [current]) (d, rest) = (d', r')" by fastforce
  moreover from this have "pending_count d' < pending_count d \<or> (pending_count d' = pending_count d \<and> r' = rest)"
    unfolding release_all_def by (rule fold_release_count)
  ultimately show "((fst st, ordered @ [current], sort (snd st)), d, ordered, r)
      \<in> measures [\<lambda>(d, ordered, r). pending_count d, \<lambda>(d, ordered, r). length r]"
    by auto
qed simp

declare topo_loop.simps [simp del]

definition initial_ready :: "(string, string list) dict \<Rightarrow> string list" where
  "initial_ready dependencies = sort (map fst (filter (\<lambda>(_, deps). deps = []) dependencies))"

definition topological_ids :: "graph \<Rightarrow> string list result" where
  "topological_ids stages =
     (let dependencies = initial_dependencies stages;
          (_, ordered, _) = topo_loop (dependencies, [], initial_ready dependencies)
      in if length ordered \<noteq> length stages then fail ''pipeline contains a cycle'' else Inr ordered)"

definition validate_graph :: "graph \<Rightarrow> unit result" where
  "validate_graph stages =
     (if card (set (map fst stages)) \<noteq> length stages
      then fail ''a pipeline cannot contain duplicate node IDs''
      else if list_ex (\<lambda>(_, depends_on). \<not> set depends_on \<subseteq> set (map fst stages)) stages
      then fail ''stage depends on undefined stages''
      else try_bind (topological_ids stages) (\<lambda>_. Inr ()))"

section \<open>Stages and definitions\<close>

record pipeline_stage =
  ps_stage_id :: string
  ps_depends_on :: "string list"

definition check_pipeline_stage :: "pipeline_stage \<Rightarrow> pipeline_stage result" where
  "check_pipeline_stage s =
     (if blank (ps_stage_id s) then fail ''stage_id must not be blank''
      else if list_ex blank (ps_depends_on s)
      then fail ''depends_on must be a tuple of non-blank stage IDs''
      else if ps_stage_id s \<in> set (ps_depends_on s) then fail ''stage cannot depend on itself''
      else if \<not> distinct (ps_depends_on s) then fail ''stage has duplicate dependencies''
      else Inr s)"

record pipeline_definition =
  pd_pipeline_version_id :: string
  pd_stages :: "pipeline_stage list"

definition stage_graph :: "pipeline_stage list \<Rightarrow> graph" where
  "stage_graph stages = map (\<lambda>s. (ps_stage_id s, ps_depends_on s)) stages"

definition check_pipeline_definition :: "pipeline_definition \<Rightarrow> pipeline_definition result" where
  "check_pipeline_definition p =
     (if blank (pd_pipeline_version_id p) then fail ''pipeline_version_id must not be blank''
      else try_bind (validate_graph (stage_graph (pd_stages p))) (\<lambda>_. Inr p))"

definition topological_stage_ids :: "pipeline_definition \<Rightarrow> string list result" where
  "topological_stage_ids p = topological_ids (stage_graph (pd_stages p))"

section \<open>The ancestor search\<close>

text \<open>
  \<^verbatim>\<open>ancestor_ids\<close> with \<^verbatim>\<open>nodes_by_id\<close> as the list of stages: \<^verbatim>\<open>pending.pop()\<close> takes the last
  element; an id without a node raises.
\<close>

function ancestor_loop :: "graph \<Rightarrow> string list \<Rightarrow> string list \<Rightarrow> string list result" where
  "ancestor_loop g ancestors pending =
     (if pending = [] then Inr ancestors
      else if last pending \<in> set ancestors then ancestor_loop g ancestors (butlast pending)
      else (case map_of g (last pending) of
          None \<Rightarrow> Inl KeyError
        | Some depends_on \<Rightarrow> ancestor_loop g (last pending # ancestors) (butlast pending @ depends_on)))"
  by pat_completeness auto

termination
proof (relation "measures [\<lambda>(g, ancestors, pending). card (set (map fst g) - set ancestors),
    \<lambda>(g, ancestors, pending). length pending]")
  fix g :: graph and ancestors pending depends_on
  assume "last pending \<notin> set ancestors" and "map_of g (last pending) = Some depends_on"
  then have "last pending \<in> set (map fst g) - set ancestors"
    by (metis Diff_iff list.set_map map_of_eq_None_iff option.distinct(1))
  then have "card (set (map fst g) - set (last pending # ancestors)) < card (set (map fst g) - set ancestors)"
    by (intro psubset_card_mono) auto
  then show "((g, last pending # ancestors, butlast pending @ depends_on), g, ancestors, pending)
      \<in> measures [\<lambda>(g, ancestors, pending). card (set (map fst g) - set ancestors),
        \<lambda>(g, ancestors, pending). length pending]"
    by simp
qed simp_all

declare ancestor_loop.simps [simp del]

definition ancestor_ids :: "graph \<Rightarrow> string list \<Rightarrow> string list result" where
  "ancestor_ids g depends_on = ancestor_loop g [] depends_on"

section \<open>The loop invariant of the sort\<close>

definition node_ids :: "graph \<Rightarrow> string set" where
  "node_ids g = set (map fst g)"

definition needs :: "graph \<Rightarrow> string \<Rightarrow> string set" where
  "needs g k = (case map_of g k of None \<Rightarrow> {} | Some ds \<Rightarrow> set ds)"

text \<open>The nodes that may run after the nodes of \<open>p\<close> have run, and the least of them.\<close>

definition available :: "graph \<Rightarrow> string list \<Rightarrow> string set" where
  "available g p = {k \<in> node_ids g. needs g k \<subseteq> set p \<and> k \<notin> set p}"

definition next_node :: "graph \<Rightarrow> string list \<Rightarrow> string \<Rightarrow> bool" where
  "next_node g p x \<longleftrightarrow> x \<in> available g p \<and> (\<forall>y \<in> available g p. x \<le> y)"

definition greedy :: "graph \<Rightarrow> string list \<Rightarrow> bool" where
  "greedy g xs \<longleftrightarrow> (\<forall>i < length xs. next_node g (take i xs) (xs ! i))"

lemma greedy_Nil [simp]: "greedy g []"
  by (simp add: greedy_def)

lemma greedy_snoc: "greedy g (xs @ [x]) \<longleftrightarrow> greedy g xs \<and> next_node g xs x"
  by (auto simp: greedy_def nth_append less_Suc_eq)

lemma greedy_node_ids: "greedy g xs \<Longrightarrow> set xs \<subseteq> node_ids g \<and> distinct xs"
  by (induction xs rule: rev_induct) (auto simp: greedy_snoc next_node_def available_def)

lemma greedy_split: "greedy g xs \<Longrightarrow> xs = p @ x # q \<Longrightarrow> next_node g p x"
  by (metis append_eq_conv_conj greedy_def length_append_singleton less_add_Suc1 nth_append_length
      length_append list.size(4) add_Suc_right)

lemma greedy_append: "greedy g (xs @ ys) \<Longrightarrow> greedy g xs"
  by (induction ys rule: rev_induct) (simp_all flip: append_assoc add: greedy_snoc)

text \<open>Two greedy orders that cannot be continued are the same.\<close>

lemma greedy_unique:
  assumes "greedy g xs" and "greedy g ys" and "available g xs = {}" and "available g ys = {}"
  shows "xs = ys"
proof -
  have "take i xs = take i ys" if "i \<le> length xs" "i \<le> length ys" for i
    using that
  proof (induction i)
    case (Suc i)
    then have eq: "take i xs = take i ys" by simp
    have "next_node g (take i xs) (xs ! i)" using assms(1) Suc.prems by (simp add: greedy_def)
    moreover have "next_node g (take i xs) (ys ! i)" unfolding eq using assms(2) Suc.prems by (simp add: greedy_def)
    ultimately have "xs ! i = ys ! i" by (metis next_node_def order.antisym)
    with Suc show ?case by (simp add: take_Suc_conv_app_nth)
  qed simp
  moreover have "length xs = length ys"
  proof (rule ccontr)
    assume "length xs \<noteq> length ys"
    then consider "length xs < length ys" | "length ys < length xs" by linarith
    then show False
    proof cases
      case 1
      with calculation [of "length xs"] have "take (length xs) ys = xs" by simp
      with 1 assms(2,3) show False by (auto simp: greedy_def next_node_def)
    next
      case 2
      with calculation [of "length ys"] have "take (length ys) xs = ys" by simp
      with 2 assms(1,4) show False by (auto simp: greedy_def next_node_def)
    qed
  qed
  ultimately show ?thesis by (metis order.refl take_all)
qed

definition topo_invariant :: "graph \<Rightarrow> topo_state \<Rightarrow> bool" where
  "topo_invariant g = (\<lambda>(dependencies, ordered, ready).
     distinct (map fst dependencies) \<and> fst ` set dependencies = node_ids g \<and>
     (\<forall>k deps. map_of dependencies k = Some deps \<longrightarrow> set deps = needs g k - set ordered) \<and>
     greedy g ordered \<and> distinct ready \<and> sorted ready \<and> set ready = available g ordered)"

lemma fold_release:
  "distinct ks \<Longrightarrow> fold (release current ordered) ks (d, r) = (d', r') \<Longrightarrow>
     map_of d' = (\<lambda>k. if k \<in> set ks then map_option (removeAll current) (map_of d k) else map_of d k)
     \<and> (distinct (map fst d) \<longrightarrow> distinct (map fst d')) \<and> fst ` set d' = fst ` set d
     \<and> r' = r @ filter (\<lambda>k. \<exists>deps. map_of d k = Some deps \<and> current \<in> set deps
          \<and> removeAll current deps = [] \<and> k \<notin> set ordered \<and> k \<notin> set r) ks"
proof (induction ks arbitrary: d r)
  case Nil
  then show ?case by simp
next
  case (Cons k ks)
  obtain d1 r1 where s: "release current ordered k (d, r) = (d1, r1)" by fastforce
  have one: "map_of d1 = (map_of d)(k := map_option (removeAll current) (map_of d k))
      \<and> (distinct (map fst d) \<longrightarrow> distinct (map fst d1)) \<and> fst ` set d1 = fst ` set d
      \<and> r1 = (if \<exists>deps. map_of d k = Some deps \<and> current \<in> set deps
          \<and> removeAll current deps = [] \<and> k \<notin> set ordered \<and> k \<notin> set r then r @ [k] else r)"
  proof (cases "map_of d k")
    case None
    with s show ?thesis by (auto simp: release_def fun_eq_iff)
  next
    case (Some deps)
    then have "k \<in> fst ` set d" by (metis map_of_eq_None_iff option.distinct(1))
    then have keys: "insert k (fst ` set d) = fst ` set d" by blast
    show ?thesis
    proof (cases "current \<in> set deps")
      case True
      with s Some have "d1 = dict_set k (removeAll current deps) d"
        and "r1 = (if removeAll current deps = [] \<and> k \<notin> set ordered \<and> k \<notin> set r then r @ [k] else r)"
        by (simp_all add: release_def)
      with True Some keys show ?thesis by (simp add: dict_simps)
    next
      case False
      with s Some show ?thesis by (auto simp: release_def fun_eq_iff)
    qed
  qed
  from Cons.prems s have rest: "fold (release current ordered) ks (d1, r1) = (d', r')" by simp
  have "distinct ks" "k \<notin> set ks" using Cons.prems(1) by auto
  note ih = Cons.IH [OF this(1) rest]
  have other: "map_of d1 j = map_of d j" "j \<in> set r1 \<longleftrightarrow> j \<in> set r" if "j \<in> set ks" for j
    using one that \<open>k \<notin> set ks\<close> by auto
  have "filter (\<lambda>k. \<exists>deps. map_of d1 k = Some deps \<and> current \<in> set deps
          \<and> removeAll current deps = [] \<and> k \<notin> set ordered \<and> k \<notin> set r1) ks
     = filter (\<lambda>k. \<exists>deps. map_of d k = Some deps \<and> current \<in> set deps
          \<and> removeAll current deps = [] \<and> k \<notin> set ordered \<and> k \<notin> set r) ks"
    by (rule filter_cong [OF refl]) (simp add: other)
  with ih have r': "r' = r1 @ filter (\<lambda>k. \<exists>deps. map_of d k = Some deps \<and> current \<in> set deps
          \<and> removeAll current deps = [] \<and> k \<notin> set ordered \<and> k \<notin> set r) ks" by simp
  show ?case
  proof (intro conjI)
    show "map_of d' = (\<lambda>j. if j \<in> set (k # ks) then map_option (removeAll current) (map_of d j) else map_of d j)"
      using ih one \<open>k \<notin> set ks\<close> by (simp add: fun_eq_iff)
    show "distinct (map fst d) \<longrightarrow> distinct (map fst d')" and "fst ` set d' = fst ` set d"
      using ih one by simp_all
    show "r' = r @ filter (\<lambda>k. \<exists>deps. map_of d k = Some deps \<and> current \<in> set deps
          \<and> removeAll current deps = [] \<and> k \<notin> set ordered \<and> k \<notin> set r) (k # ks)"
      unfolding r' conjunct2 [OF conjunct2 [OF conjunct2 [OF one]]] filter.simps by auto
  qed
qed

lemma needs_permuted:
  assumes "distinct (map fst g)" and "mset g = mset h"
  shows "needs g = needs h" and "node_ids g = node_ids h"
proof -
  have "distinct (map fst h)" using assms by (metis mset_eq_imp_distinct_iff mset_map)
  with assms have "map_of g = map_of h" by (simp add: map_of_inject_set set_mset_mset [symmetric] del: set_mset_mset)
  then show "needs g = needs h" by (simp add: needs_def fun_eq_iff)
  show "node_ids g = node_ids h" using assms(2) unfolding node_ids_def by (metis mset_eq_setD mset_map)
qed

lemma initial_dependencies_lookup:
  assumes "distinct (map fst g)"
  shows "map_of (initial_dependencies g) = map_option remdups \<circ> map_of g"
    and "distinct (map fst (initial_dependencies g))"
    and "fst ` set (initial_dependencies g) = node_ids g"
proof -
  have gen: "distinct (map fst d) \<Longrightarrow> distinct (map fst g) \<Longrightarrow>
      map_of (fold (\<lambda>(k, ds). dict_set k (remdups ds)) g d) =
        (\<lambda>k. case map_of g k of None \<Rightarrow> map_of d k | Some ds \<Rightarrow> Some (remdups ds))
      \<and> distinct (map fst (fold (\<lambda>(k, ds). dict_set k (remdups ds)) g d))
      \<and> fst ` set (fold (\<lambda>(k, ds). dict_set k (remdups ds)) g d) = fst ` set d \<union> fst ` set g" for d
  proof (induction g arbitrary: d)
    case (Cons e g)
    obtain k ds where e: "e = (k, ds)" by fastforce
    have "distinct (map fst (dict_set k (remdups ds) d))" using Cons.prems(1) by (rule distinct_dict_set)
    note ih = Cons.IH [OF this]
    have "map_of g k = None" using Cons.prems(2) e by (simp add: map_of_eq_None_iff)
    then show ?case using ih Cons.prems e by (auto simp: dict_simps fun_eq_iff split: option.splits)
  qed simp
  from gen [of "[]"] assms show "map_of (initial_dependencies g) = map_option remdups \<circ> map_of g"
    and "distinct (map fst (initial_dependencies g))" and "fst ` set (initial_dependencies g) = node_ids g"
    by (simp_all add: initial_dependencies_def node_ids_def fun_eq_iff split: option.splits)
qed

lemma initial_invariant:
  assumes "distinct (map fst g)"
  shows "topo_invariant g (initial_dependencies g, [], initial_ready (initial_dependencies g))"
proof -
  let ?d = "initial_dependencies g"
  note init = initial_dependencies_lookup [OF assms]
  have deps: "set deps = needs g k" if "map_of ?d k = Some deps" for k deps
    using that by (auto simp: init needs_def)
  have "k \<in> fst ` set (filter (\<lambda>(_, deps). deps = []) ?d) \<longleftrightarrow> map_of ?d k = Some []" for k
    using init(2) by (force simp: image_iff)
  moreover have "map_of ?d k = Some [] \<longleftrightarrow> k \<in> available g []" for k
  proof (cases "map_of ?d k")
    case None
    then have "k \<notin> node_ids g" using init(3) by (metis map_of_eq_None_iff)
    with None show ?thesis by (simp add: available_def)
  next
    case (Some deps)
    then have "k \<in> node_ids g" using init(3) by (metis fst_conv image_eqI map_of_SomeD)
    with Some deps [OF Some] show ?thesis by (auto simp: available_def)
  qed
  ultimately have "set (initial_ready ?d) = available g []" by (auto simp: initial_ready_def)
  moreover have "distinct (initial_ready ?d)" "sorted (initial_ready ?d)"
    using init(2) by (simp_all add: initial_ready_def distinct_map_filter)
  ultimately show ?thesis using init(2,3) deps by (auto simp: topo_invariant_def)
qed

lemma step_invariant:
  assumes inv: "topo_invariant g (d, ordered, current # rest)"
    and step: "release_all current (ordered @ [current]) (d, rest) = (d', r')"
  shows "topo_invariant g (d', ordered @ [current], sort r')"
proof -
  have deps: "set deps = needs g k - set ordered" if "map_of d k = Some deps" for k deps
    using inv that by (simp add: topo_invariant_def)
  have d: "distinct (map fst d)" "fst ` set d = node_ids g"
    and gr: "greedy g ordered" and ready: "distinct (current # rest)" "sorted (current # rest)"
      "set (current # rest) = available g ordered"
    using inv by (auto simp: topo_invariant_def)
  have "distinct (sort (map fst d))" using d(1) by simp
  note fr = fold_release [OF this step [unfolded release_all_def fst_conv]]
  have look: "map_of d' k = map_option (removeAll current) (map_of d k)" for k
    using conjunct1 [OF fr] map_of_eq_None_iff [of d k] by (cases "k \<in> fst ` set d") simp_all
  have d': "distinct (map fst d')" "fst ` set d' = node_ids g" using fr d by auto
  have deps': "set deps = needs g k - set (ordered @ [current])" if "map_of d' k = Some deps" for k deps
    using that deps by (auto simp: look)
  have nxt: "next_node g ordered current" using ready by (auto simp: next_node_def)
  have r': "r' = rest @ filter (\<lambda>k. \<exists>deps. map_of d k = Some deps \<and> current \<in> set deps
          \<and> removeAll current deps = [] \<and> k \<notin> set (ordered @ [current]) \<and> k \<notin> set rest) (sort (map fst d))"
    using fr by blast
  have set: "set r' = available g (ordered @ [current])"
  proof (intro set_eqI iffI)
    fix k assume "k \<in> set r'"
    then consider "k \<in> set rest" | deps where "map_of d k = Some deps" "removeAll current deps = []"
        "k \<notin> set (ordered @ [current])" by (auto simp: r')
    then show "k \<in> available g (ordered @ [current])"
    proof cases
      case 1
      then show ?thesis using ready by (auto simp: available_def)
    next
      case 2
      then have "k \<in> node_ids g" using d(2) by (metis fst_conv image_eqI map_of_SomeD)
      moreover have "map_of d' k = Some []" using 2 by (simp add: look)
      ultimately show ?thesis using deps' [of k "[]"] 2(3) by (auto simp: available_def)
    qed
  next
    fix k assume k: "k \<in> available g (ordered @ [current])"
    then have "k \<in> node_ids g" by (simp add: available_def)
    then obtain deps where dk: "map_of d k = Some deps"
      using d(2) by (metis map_of_eq_None_iff not_None_eq)
    have "set (removeAll current deps) = {}" using deps [OF dk] k by (auto simp: available_def)
    then have empty: "removeAll current deps = []" by (simp only: set_empty)
    have "k \<in> set (sort (map fst d))" using map_of_SomeD [OF dk] by force
    show "k \<in> set r'"
    proof (cases "current \<in> set deps")
      case True
      with dk empty k \<open>k \<in> set (sort (map fst d))\<close> show ?thesis by (auto simp: r' available_def)
    next
      case False
      with empty have "deps = []" by simp
      then have "k \<in> available g ordered" using k deps [OF dk] by (auto simp: available_def)
      with ready(3) k show ?thesis by (auto simp: r' available_def)
    qed
  qed
  have "distinct r'" using ready(1) d(1) by (auto simp: r')
  with set d' deps' gr nxt show ?thesis by (auto simp: topo_invariant_def greedy_snoc)
qed

lemma topo_loop_invariant:
  "topo_invariant g (d, ordered, ready) \<Longrightarrow> topo_loop (d, ordered, ready) = (d', ordered', ready') \<Longrightarrow>
     greedy g ordered' \<and> available g ordered' = {}"
proof (induction "(d, ordered, ready)" arbitrary: d ordered ready rule: topo_loop.induct)
  case (1 d ordered ready)
  show ?case
  proof (cases ready)
    case Nil
    with 1(2,3) show ?thesis by (auto simp: topo_loop.simps topo_invariant_def)
  next
    case (Cons current rest)
    obtain e r where step: "release_all current (ordered @ [current]) (d, rest) = (e, r)" by fastforce
    have "topo_loop (e, ordered @ [current], sort r) = (d', ordered', ready')"
      using 1(3) Cons step by (simp add: topo_loop.simps [of d])
    with 1(1) [OF Cons refl] step step_invariant [OF 1(2) [unfolded Cons] step] show ?thesis by simp
  qed
qed

lemma topo_loop_result:
  assumes "distinct (map fst g)"
  obtains d ordered where
    "topo_loop (initial_dependencies g, [], initial_ready (initial_dependencies g)) = (d, ordered, [])"
    "greedy g ordered" "available g ordered = {}"
    "topological_ids g = (if length ordered \<noteq> length g then fail ''pipeline contains a cycle'' else Inr ordered)"
proof -
  have final: "snd (snd (topo_loop st)) = []" for st
  proof (induction st rule: topo_loop.induct)
    case (1 d ordered ready)
    then show ?case by (cases ready) (simp_all add: topo_loop.simps [of d] Let_def)
  qed
  obtain d ordered ready where
    run: "topo_loop (initial_dependencies g, [], initial_ready (initial_dependencies g)) = (d, ordered, ready)"
    using prod_cases3 by blast
  moreover from this have "ready = []" using final by (metis snd_conv)
  moreover note topo_loop_invariant [OF initial_invariant [OF assms] run]
  ultimately show thesis using that by (simp add: topological_ids_def Let_def)
qed

lemma complete_order:
  assumes "distinct (map fst g)" and "greedy g ordered" and "length ordered = length g"
  shows "set ordered = node_ids g"
proof (rule card_subset_eq)
  show "finite (node_ids g)" by (simp add: node_ids_def)
  show "set ordered \<subseteq> node_ids g" using assms(2) greedy_node_ids by blast
  have "card (set ordered) = length g"
    using assms(2,3) greedy_node_ids by (metis distinct_card)
  moreover have "card (node_ids g) = length g"
    unfolding node_ids_def using distinct_card [OF assms(1)] by simp
  ultimately show "card (set ordered) = card (node_ids g)" by simp
qed

lemma topological_ids_greedy:
  assumes "distinct (map fst g)" and "topological_ids g = Inr ids"
  shows "greedy g ids" and "set ids = node_ids g" and "distinct ids"
proof -
  obtain ordered where "greedy g ordered" "ids = ordered" "length ordered = length g"
    using topo_loop_result [OF assms(1)] assms(2) by (metis fail_neq_Inr(1) sum.inject(2))
  with complete_order [OF assms(1)] show "greedy g ids" and "set ids = node_ids g" by simp_all
  then show "distinct ids" using greedy_node_ids by blast
qed

section \<open>Cycles\<close>

definition edges :: "graph \<Rightarrow> (string \<times> string) set" where
  "edges g = {(d, k). k \<in> node_ids g \<and> d \<in> needs g k}"

lemma edge_positions:
  assumes "distinct (map fst g)" and "topological_ids g = Inr ids" and "(d, k) \<in> edges g"
  shows "\<exists>p q. ids = p @ k # q \<and> d \<in> set p"
proof -
  from assms(3) have k: "k \<in> node_ids g" "d \<in> needs g k" by (simp_all add: edges_def)
  with topological_ids_greedy [OF assms(1,2)] obtain p q where ids: "ids = p @ k # q"
    by (metis split_list)
  with greedy_split [OF topological_ids_greedy(1) [OF assms(1,2)] ids] k(2) show ?thesis
    by (auto simp: next_node_def available_def)
qed

lemma ordered_acyclic:
  assumes "distinct (map fst g)" and "topological_ids g = Inr ids"
  shows "acyclic (edges g)"
proof -
  define pos where "pos k = length (takeWhile (\<lambda>x. x \<noteq> k) ids)" for k
  have "pos d < pos k" if "(d, k) \<in> edges g" for d k
  proof -
    from edge_positions [OF assms that] obtain p q where ids: "ids = p @ k # q" "d \<in> set p" by blast
    have "distinct ids" using topological_ids_greedy [OF assms] by simp
    then have "takeWhile (\<lambda>x. x \<noteq> k) p = p" using ids by (auto simp: takeWhile_eq_all_conv)
    then have "pos k = length p" using ids by (simp add: pos_def takeWhile_append)
    moreover obtain p1 p2 where p: "p = p1 @ d # p2" "d \<notin> set p1" using ids(2) by (metis split_list_first)
    have "takeWhile (\<lambda>x. x \<noteq> d) p1 = p1" using p(2) by (auto simp: takeWhile_eq_all_conv)
    then have "pos d = length p1" "length p1 < length p" using ids p by (simp_all add: pos_def takeWhile_append)
    ultimately show ?thesis by simp
  qed
  note one = this
  have "pos x < pos y" if "(x, y) \<in> (edges g)\<^sup>+" for x y
    using that
  proof (induction rule: trancl_induct)
    case (step y z)
    then show ?case using one [of y z] by simp
  qed (rule one)
  then show ?thesis by (auto simp: acyclic_def)
qed

text \<open>When nothing is available but nodes are left, each of them waits for another one left.\<close>

lemma stuck_cyclic:
  assumes "\<forall>k \<in> node_ids g. needs g k \<subseteq> node_ids g" and "available g p = {}"
    and "acyclic (edges g)"
  shows "node_ids g \<subseteq> set p"
proof (rule ccontr)
  assume "\<not> node_ids g \<subseteq> set p"
  then have ne: "node_ids g - set p \<noteq> {}" by blast
  have fin: "finite (edges g)"
    by (rule finite_subset [of _ "node_ids g \<times> node_ids g"])
       (use assms(1) in \<open>auto simp: edges_def node_ids_def\<close>)
  from finite_acyclic_wf [OF fin assms(3)] ne obtain k where k: "k \<in> node_ids g - set p"
    and least: "\<And>d. (d, k) \<in> edges g \<Longrightarrow> d \<notin> node_ids g - set p"
    by (metis wf_eq_minimal ex_in_conv)
  then have "needs g k \<subseteq> set p" using assms(1) by (auto simp: edges_def)
  with k assms(2) show False by (auto simp: available_def)
qed

lemma acyclic_ordered:
  assumes "distinct (map fst g)" and "\<forall>k \<in> node_ids g. needs g k \<subseteq> node_ids g" and "acyclic (edges g)"
  shows "\<exists>ids. topological_ids g = Inr ids"
proof -
  obtain ordered where gr: "greedy g ordered" "available g ordered = {}"
    and run: "topological_ids g = (if length ordered \<noteq> length g then fail ''pipeline contains a cycle'' else Inr ordered)"
    using topo_loop_result [OF assms(1)] by blast
  have "set ordered = node_ids g"
    using stuck_cyclic [OF assms(2) gr(2) assms(3)] greedy_node_ids [OF gr(1)] by blast
  then have "length ordered = length g"
    using greedy_node_ids [OF gr(1)] distinct_card [OF assms(1)] distinct_card [of ordered]
    by (simp add: node_ids_def)
  with run show ?thesis by simp
qed

section \<open>Ancestors\<close>

lemma ancestor_loop_snoc:
  "ancestor_loop g ancestors (rest @ [a]) =
     (if a \<in> set ancestors then ancestor_loop g ancestors rest
      else (case map_of g a of
          None \<Rightarrow> Inl KeyError
        | Some depends_on \<Rightarrow> ancestor_loop g (a # ancestors) (rest @ depends_on)))"
  by (simp add: ancestor_loop.simps [of g ancestors "rest @ [a]"] split: option.split)

text \<open>
  Every id the search has visited is an ancestor, and what the visited ids depend on is
  visited or pending.
\<close>

lemma ancestor_loop_closed:
  "ancestor_loop g ancestors pending = Inr result \<Longrightarrow>
     \<forall>a \<in> set ancestors. needs g a \<subseteq> set ancestors \<union> set pending \<Longrightarrow>
     set ancestors \<union> set pending \<subseteq> set result \<and> (\<forall>a \<in> set result. needs g a \<subseteq> set result)"
proof (induction g ancestors pending rule: ancestor_loop.induct)
  case (1 g ancestors pending)
  show ?case
  proof (cases pending rule: rev_cases)
    case Nil
    with 1(3,4) show ?thesis by (simp add: ancestor_loop.simps)
  next
    case (snoc rest a)
    show ?thesis
    proof (cases "a \<in> set ancestors")
      case True
      with 1(1) 1(3,4) snoc show ?thesis by (auto simp: ancestor_loop_snoc)
    next
      case False
      with 1(3) snoc obtain ds where ds: "map_of g a = Some ds"
        and run: "ancestor_loop g (a # ancestors) (rest @ ds) = Inr result"
        by (auto simp: ancestor_loop_snoc split: option.splits)
      have "\<forall>b \<in> set (a # ancestors). needs g b \<subseteq> set (a # ancestors) \<union> set (rest @ ds)"
        using 1(4) snoc ds by (auto simp: needs_def)
      with 1(2) [of ds] False snoc ds run show ?thesis by auto
    qed
  qed
qed

lemma ancestor_loop_sound:
  "ancestor_loop g ancestors pending = Inr result \<Longrightarrow>
     set ancestors \<union> set pending \<subseteq> S \<Longrightarrow> \<forall>a \<in> S. needs g a \<subseteq> S \<Longrightarrow> set result \<subseteq> S"
proof (induction g ancestors pending rule: ancestor_loop.induct)
  case (1 g ancestors pending)
  show ?case
  proof (cases pending rule: rev_cases)
    case Nil
    with 1(3,4) show ?thesis by (simp add: ancestor_loop.simps)
  next
    case (snoc rest a)
    show ?thesis
    proof (cases "a \<in> set ancestors")
      case True
      with 1(1) 1(3-5) snoc show ?thesis by (auto simp: ancestor_loop_snoc)
    next
      case False
      with 1(3) snoc obtain ds where ds: "map_of g a = Some ds"
        and run: "ancestor_loop g (a # ancestors) (rest @ ds) = Inr result"
        by (auto simp: ancestor_loop_snoc split: option.splits)
      have "needs g a = set ds" using ds by (simp add: needs_def)
      moreover have "a \<in> S" using 1(4) snoc by simp
      ultimately have "set ds \<subseteq> S" using 1(5) by blast
      with 1(2) [of ds] 1(4,5) False snoc ds run show ?thesis by auto
    qed
  qed
qed

lemma ancestor_loop_total:
  "\<forall>k \<in> node_ids g. needs g k \<subseteq> node_ids g \<Longrightarrow> set pending \<subseteq> node_ids g \<Longrightarrow>
     \<exists>result. ancestor_loop g ancestors pending = Inr result"
proof (induction g ancestors pending rule: ancestor_loop.induct)
  case (1 g ancestors pending)
  show ?case
  proof (cases pending rule: rev_cases)
    case Nil
    then show ?thesis by (simp add: ancestor_loop.simps)
  next
    case (snoc rest a)
    show ?thesis
    proof (cases "a \<in> set ancestors")
      case True
      with 1(1) 1(3,4) snoc show ?thesis by (auto simp: ancestor_loop_snoc)
    next
      case False
      from 1(4) snoc have "a \<in> node_ids g" by simp
      then obtain ds where ds: "map_of g a = Some ds"
        unfolding node_ids_def by (metis list.set_map map_of_eq_None_iff not_None_eq)
      moreover have "needs g a = set ds" using ds by (simp add: needs_def)
      then have "set ds \<subseteq> node_ids g" using 1(3) \<open>a \<in> node_ids g\<close> by blast
      ultimately show ?thesis
        using 1(2) [of ds] 1(3,4) False snoc by (simp add: ancestor_loop_snoc)
    qed
  qed
qed

lemma ancestor_ids_trancl:
  assumes "\<forall>k \<in> node_ids g. needs g k \<subseteq> node_ids g" and "map_of g k = Some ds"
  shows "\<exists>result. ancestor_ids g ds = Inr result \<and> set result = {a. (a, k) \<in> (edges g)\<^sup>+}"
proof -
  have k: "k \<in> node_ids g" unfolding node_ids_def using assms(2) by (metis list.set_map map_of_eq_None_iff option.distinct(1))
  have ds: "set ds = needs g k" using assms(2) by (simp add: needs_def)
  obtain result where run: "ancestor_loop g [] ds = Inr result"
    using ancestor_loop_total assms(1) k ds by blast
  have "set result \<subseteq> {a. (a, k) \<in> (edges g)\<^sup>+}"
  proof (rule ancestor_loop_sound [OF run])
    show "set [] \<union> set ds \<subseteq> {a. (a, k) \<in> (edges g)\<^sup>+}" using ds k by (auto simp: edges_def)
    show "\<forall>a \<in> {a. (a, k) \<in> (edges g)\<^sup>+}. needs g a \<subseteq> {a. (a, k) \<in> (edges g)\<^sup>+}"
    proof clarify
      fix a b assume "(a, k) \<in> (edges g)\<^sup>+" "b \<in> needs g a"
      moreover from this(2) have "a \<in> node_ids g"
        unfolding needs_def node_ids_def
        by (metis (no_types) list.set_map map_of_eq_None_iff option.case(1) empty_iff)
      ultimately have "(b, a) \<in> edges g" by (simp add: edges_def)
      then show "(b, k) \<in> (edges g)\<^sup>+" using \<open>(a, k) \<in> (edges g)\<^sup>+\<close> by (rule trancl_into_trancl2)
    qed
  qed
  moreover have "a \<in> set result" if "(a, k) \<in> (edges g)\<^sup>+" for a
    using that
  proof (induction rule: converse_trancl_induct)
    case (base a)
    then show ?case using ancestor_loop_closed [OF run] ds by (auto simp: edges_def)
  next
    case (step a b)
    then show ?case using ancestor_loop_closed [OF run] by (auto simp: edges_def)
  qed
  ultimately show ?thesis using run by (auto simp: ancestor_ids_def)
qed

lemma validate_graph_Inr:
  "validate_graph g = Inr () \<longleftrightarrow> distinct (map fst g) \<and> (\<forall>k \<in> node_ids g. needs g k \<subseteq> node_ids g)
     \<and> (\<exists>ids. topological_ids g = Inr ids)"
proof -
  have "card (set (map fst g)) = length g \<longleftrightarrow> distinct (map fst g)"
    using card_distinct distinct_card by (metis length_map)
  moreover have "distinct (map fst g) \<Longrightarrow> (\<forall>k \<in> node_ids g. needs g k \<subseteq> node_ids g) \<longleftrightarrow>
      \<not> list_ex (\<lambda>(_, depends_on). \<not> set depends_on \<subseteq> set (map fst g)) g"
    by (force simp: list_ex_iff needs_def node_ids_def)
  ultimately show ?thesis
    by (auto simp: validate_graph_def try_bind_Inr)
qed

section \<open>What a pipeline graph guarantees\<close>

text \<open>
  The sort of a pipeline with distinct ids orders every stage exactly once, each after all
  of its dependencies, and always runs the least id among those that could run next.
\<close>

theorem topological_order_correct:
  assumes "distinct (map fst g)" and "topological_ids g = Inr ids"
  shows "distinct ids \<and> set ids = fst ` set g
    \<and> (\<forall>p x q. ids = p @ x # q \<longrightarrow> needs g x \<subseteq> set p
        \<and> (\<forall>y \<in> fst ` set g. y \<notin> set p \<and> needs g y \<subseteq> set p \<longrightarrow> x \<le> y))"
proof (intro conjI allI impI)
  note r = topological_ids_greedy [OF assms]
  show "distinct ids" and "set ids = fst ` set g" using r by (simp_all add: node_ids_def)
  fix p x q assume "ids = p @ x # q"
  note nxt = greedy_split [OF r(1) this]
  show "needs g x \<subseteq> set p" using nxt by (simp add: next_node_def available_def)
  show "\<forall>y \<in> fst ` set g. y \<notin> set p \<and> needs g y \<subseteq> set p \<longrightarrow> x \<le> y"
    using nxt by (simp add: next_node_def available_def node_ids_def)
qed

definition diamond :: graph where
  "diamond = [(''merge'', [''b'', ''a'']), (''b'', [''root'']), (''a'', [''root'']), (''root'', [])]"

theorem topological_order_correct_witness:
  "topological_ids diamond = Inr [''root'', ''a'', ''b'', ''merge'']
    \<and> needs diamond ''merge'' \<subseteq> {''root'', ''a'', ''b''}"
proof -
  have d: "distinct (map fst diamond)" by code_simp
  have t: "topological_ids diamond = Inr [''root'', ''a'', ''b'', ''merge'']" by code_simp
  have "[''root'', ''a'', ''b'', ''merge''] = [''root'', ''a'', ''b''] @ ''merge'' # []" by simp
  with topological_order_correct [OF d t] have "needs diamond ''merge'' \<subseteq> set [''root'', ''a'', ''b'']" by blast
  with t show ?thesis by simp
qed

text \<open>
  A graph with distinct ids whose dependencies all exist is accepted exactly when it has no
  cycle; otherwise the sort stops with the cycle error.
\<close>

theorem graph_accepted_iff_acyclic:
  assumes "distinct (map fst g)" and "\<forall>(k, ds) \<in> set g. set ds \<subseteq> fst ` set g"
  shows "(validate_graph g = Inr () \<longleftrightarrow> acyclic {(d, k). \<exists>ds. (k, ds) \<in> set g \<and> d \<in> set ds})
    \<and> (validate_graph g = Inr () \<or> validate_graph g = fail ''pipeline contains a cycle'')"
proof -
  have look: "(k, ds) \<in> set g \<longleftrightarrow> map_of g k = Some ds" for k ds
    using assms(1) by simp
  have e: "edges g = {(d, k). \<exists>ds. (k, ds) \<in> set g \<and> d \<in> set ds}"
  proof -
    have "k \<in> node_ids g \<and> d \<in> needs g k \<longleftrightarrow> (\<exists>ds. map_of g k = Some ds \<and> d \<in> set ds)" for d k
    proof (cases "map_of g k")
      case (Some ds)
      then have "k \<in> node_ids g" unfolding node_ids_def using map_of_SomeD [OF Some] by force
      with Some show ?thesis by (simp add: needs_def)
    qed (simp add: needs_def)
    then show ?thesis by (simp add: edges_def look)
  qed
  have sub: "\<forall>k \<in> node_ids g. needs g k \<subseteq> node_ids g"
    using assms(2) by (fastforce simp: node_ids_def needs_def split: option.splits dest: map_of_SomeD)
  have iff: "validate_graph g = Inr () \<longleftrightarrow> (\<exists>ids. topological_ids g = Inr ids)"
    using assms(1) sub by (simp add: validate_graph_Inr)
  have "topological_ids g = fail ''pipeline contains a cycle''" if "\<nexists>ids. topological_ids g = Inr ids"
    using topo_loop_result [OF assms(1)] that by (metis (no_types))
  moreover have "card (set (map fst g)) = length g" using distinct_card [OF assms(1)] by simp
  moreover have "\<not> list_ex (\<lambda>(_, depends_on). \<not> set depends_on \<subseteq> set (map fst g)) g"
    using assms(2) by (auto simp: list_ex_iff)
  ultimately have "validate_graph g = Inr () \<or> validate_graph g = fail ''pipeline contains a cycle''"
    by (cases "\<exists>ids. topological_ids g = Inr ids") (auto simp: validate_graph_def)
  moreover have "validate_graph g = Inr () \<longleftrightarrow> acyclic (edges g)"
    unfolding iff using ordered_acyclic [OF assms(1)] acyclic_ordered [OF assms(1) sub] by blast
  ultimately show ?thesis unfolding e by blast
qed

theorem graph_accepted_iff_acyclic_witness:
  "acyclic {(d, k). \<exists>ds. (k, ds) \<in> set diamond \<and> d \<in> set ds}
   \<and> \<not> acyclic {(d, k). \<exists>ds. (k, ds) \<in> set [(''a'', [''b'']), (''b'', [''a''])] \<and> d \<in> set ds}"
proof -
  have "distinct (map fst diamond)" "\<forall>(k, ds) \<in> set diamond. set ds \<subseteq> fst ` set diamond"
    and ok: "validate_graph diamond = Inr ()" by code_simp+
  note a = conjunct1 [OF graph_accepted_iff_acyclic [OF this(1,2)]]
  have "distinct (map fst [(''a'', [''b'']), (''b'', [''a''])])"
    "\<forall>(k, ds) \<in> set [(''a'', [''b'']), (''b'', [''a''])]. set ds \<subseteq> fst ` set [(''a'', [''b'']), (''b'', [''a''])]"
    and no: "validate_graph [(''a'', [''b'']), (''b'', [''a''])] \<noteq> Inr ()" by code_simp+
  note b = conjunct1 [OF graph_accepted_iff_acyclic [OF this(1,2)]]
  show ?thesis using a [THEN iffD1, OF ok] b [THEN iffD2] no by blast
qed

text \<open>
  The order of a pipeline does not depend on the order in which its stages are listed.
\<close>

theorem topological_order_independent:
  assumes "distinct (map fst g)" and "mset g = mset h"
  shows "topological_ids g = topological_ids h"
proof -
  have dh: "distinct (map fst h)" using assms by (metis mset_eq_imp_distinct_iff mset_map)
  have same: "available g = available h" "next_node g = next_node h" "greedy g = greedy h"
    using needs_permuted [OF assms] by (simp_all add: available_def next_node_def greedy_def fun_eq_iff)
  obtain xs where xs: "greedy g xs" "available g xs = {}"
    "topological_ids g = (if length xs \<noteq> length g then fail ''pipeline contains a cycle'' else Inr xs)"
    using topo_loop_result [OF assms(1)] by blast
  obtain ys where ys: "greedy h ys" "available h ys = {}"
    "topological_ids h = (if length ys \<noteq> length h then fail ''pipeline contains a cycle'' else Inr ys)"
    using topo_loop_result [OF dh] by blast
  have "xs = ys" using greedy_unique [of g xs ys] xs ys same by simp
  moreover have "length g = length h" using assms(2) by (metis size_mset)
  ultimately show ?thesis using xs(3) ys(3) by simp
qed

theorem topological_order_independent_witness:
  "topological_ids diamond = topological_ids (rev diamond)"
proof (rule topological_order_independent)
  show "distinct (map fst diamond)" by code_simp
  show "mset diamond = mset (rev diamond)" by simp
qed

end
