(* ===== verification/Canonical_Json.thy ===== *)
theory Canonical_Json
  imports Publishing Json_Data
begin

text \<open>
  The canonical JSON text of a value, \<^verbatim>\<open>canonical_json\<close> and \<^verbatim>\<open>canonical_hash\<close> of
  \<^verbatim>\<open>domain/analysis/common.py\<close>: sorted keys, no spaces, ASCII.  The decimal text of a float
  (\<^verbatim>\<open>float.__repr__\<close>) and SHA-256 are parameters.

  What is shown: a value has a text exactly when it has a normal form in \<open>Json_Data\<close>, and the text
  is the one of its normal form.
\<close>

section \<open>Numbers\<close>

fun nat_text :: "nat \<Rightarrow> string" where
  "nat_text n = (if n < 10 then [char_of (48 + n)] else nat_text (n div 10) @ [char_of (48 + n mod 10)])"

declare nat_text.simps [simp del]

definition int_text :: "int \<Rightarrow> string" where
  "int_text i = (if i < 0 then ''-'' @ nat_text (nat (- i)) else nat_text (nat i))"

section \<open>Values\<close>

fun join_comma :: "string list \<Rightarrow> string" where
  "join_comma [] = []"
| "join_comma [s] = s"
| "join_comma (s # t # ss) = s @ '','' @ join_comma (t # ss)"

definition object_text :: "(string \<times> string) list \<Rightarrow> string" where
  "object_text members = ''{'' @ join_comma (map (\<lambda>(k, t). json_string k @ '':'' @ t) (sort_key fst members)) @ ''}''"

fun json_text :: "(rat \<Rightarrow> string) \<Rightarrow> pyval \<Rightarrow> string option"
  and json_texts :: "(rat \<Rightarrow> string) \<Rightarrow> pyval list \<Rightarrow> string list option"
  and member_texts :: "(rat \<Rightarrow> string) \<Rightarrow> (string \<times> pyval) list \<Rightarrow> (string \<times> string) list option" where
  "json_text float_text PNone = Some ''null''"
| "json_text float_text (PBool b) = Some (if b then ''true'' else ''false'')"
| "json_text float_text (PInt i) = (if printable_int i then Some (int_text i) else None)"
| "json_text float_text (PFloat f) = (case f of Fin q \<Rightarrow> Some (float_text q) | _ \<Rightarrow> None)"
| "json_text float_text (PStr s) = Some (json_string s)"
| "json_text float_text (PList xs) = map_option (\<lambda>ts. ''['' @ join_comma ts @ '']'') (json_texts float_text xs)"
| "json_text float_text (PTuple xs) = map_option (\<lambda>ts. ''['' @ join_comma ts @ '']'') (json_texts float_text xs)"
| "json_text float_text (PDict d) = map_option object_text (member_texts float_text d)"
| "json_texts float_text [] = Some []"
| "json_texts float_text (x # xs) =
     (case json_text float_text x of None \<Rightarrow> None
      | Some t \<Rightarrow> map_option (\<lambda>ts. t # ts) (json_texts float_text xs))"
| "member_texts float_text [] = Some []"
| "member_texts float_text ((k, v) # d) =
     (case json_text float_text v of None \<Rightarrow> None
      | Some t \<Rightarrow> map_option (\<lambda>ts. (k, t) # ts) (member_texts float_text d))"

definition canonical_json :: "(rat \<Rightarrow> string) \<Rightarrow> pyval \<Rightarrow> string result" where
  "canonical_json float_text v =
     (case json_text float_text v of
        None \<Rightarrow> fail ''value must be finite JSON-compatible data'' | Some t \<Rightarrow> Inr t)"

definition canonical_hash :: "(string \<Rightarrow> string) \<Rightarrow> (rat \<Rightarrow> string) \<Rightarrow> pyval \<Rightarrow> string result" where
  "canonical_hash sha float_text v = try_bind (canonical_json float_text v) (\<lambda>t. Inr (sha t))"

section \<open>The text of a normal form\<close>

lemma json_texts_map:
  "json_texts ft xs = (if list_all (\<lambda>x. json_text ft x \<noteq> None) xs then Some (map (\<lambda>x. the (json_text ft x)) xs) else None)"
  by (induction xs) (auto split: option.splits)

lemma member_texts_map:
  "member_texts ft d = (if list_all (\<lambda>a. json_text ft (snd a) \<noteq> None) d
     then Some (map (\<lambda>a. (fst a, the (json_text ft (snd a)))) d) else None)"
proof (induction d)
  case (Cons a d)
  then show ?case by (cases a) (auto split: option.splits)
qed simp

lemma sort_key_map_fst:
  assumes "\<And>a. fst (g a) = fst a"
  shows "sort_key fst (map g d) = map g (sort_key fst d)"
proof (induction d)
  case (Cons a d)
  have "insort_key fst (g a) (map g xs) = map g (insort_key fst a xs)" for xs by (induction xs) (simp_all add: assms)
  with Cons show ?case by simp
qed simp

lemma object_text_sorted:
  "map_option object_text (member_texts ft (sort_key fst d)) = map_option object_text (member_texts ft d)"
  by (auto simp: member_texts_map object_text_def list_all_iff sort_key_map_fst sort_key_id_if_sorted)

lemma json_text_normal:
  "(json_normal v = None \<longrightarrow> json_text ft v = None)
     \<and> (\<forall>w. json_normal v = Some w \<longrightarrow> json_text ft v \<noteq> None \<and> json_text ft w = json_text ft v)"
  and json_texts_normal:
  "(json_normal_list xs = None \<longrightarrow> json_texts ft xs = None)
     \<and> (\<forall>ys. json_normal_list xs = Some ys \<longrightarrow> json_texts ft xs \<noteq> None \<and> json_texts ft ys = json_texts ft xs)"
  and member_texts_normal:
  "(json_normal_items d = None \<longrightarrow> member_texts ft d = None)
     \<and> (\<forall>e. json_normal_items d = Some e \<longrightarrow> member_texts ft d \<noteq> None \<and> member_texts ft e = member_texts ft d)"
proof (induction v and xs and d rule: json_normal_json_normal_list_json_normal_items.induct)
  case (8 d)
  then show ?case using object_text_sorted by auto
qed (auto split: option.splits py_float.splits if_splits)

text \<open>
  Canonical text: a value has a canonical text exactly when it has a JSON normal form, values
  with one normal form have one text, whatever the order of their keys, and so one hash.
\<close>

theorem canonical_json_of_normal_form:
  assumes "json_normal v = Some n"
  shows "canonical_json ft v = canonical_json ft n \<and> \<not> isl (canonical_json ft v)
    \<and> (json_normal v' = Some n \<longrightarrow> canonical_hash sha ft v' = canonical_hash sha ft v)"
proof -
  have e: "canonical_json ft v = canonical_json ft n \<and> \<not> isl (canonical_json ft v)" if "json_normal v = Some n" for v
    using json_text_normal [of v ft] that by (auto simp: canonical_json_def split: option.splits)
  from e [OF assms] e [of v'] show ?thesis unfolding canonical_hash_def by metis
qed

theorem canonical_json_of_normal_form_witness:
  "canonical_json (\<lambda>q. ''0.5'') (PDict [(''b'', PTuple [PInt (- 12)]), (''a'', PFloat (Fin (1/2)))])
     = canonical_json (\<lambda>q. ''0.5'') (PDict [(''a'', PFloat (Fin (1/2))), (''b'', PList [PInt (- 12)])])
   \<and> canonical_json (\<lambda>q. ''0.5'') (PDict [(''b'', PTuple [PInt (- 12)]), (''a'', PFloat (Fin (1/2)))])
     = Inr (''{'' @ json_string ''a'' @ '':0.5,'' @ json_string ''b'' @ '':[-12]}'')"
proof -
  have n: "json_normal (PDict [(''b'', PTuple [PInt (- 12)]), (''a'', PFloat (Fin (1/2)))])
      = Some (PDict [(''a'', PFloat (Fin (1/2))), (''b'', PList [PInt (- 12)])])" by code_simp
  have "canonical_json (\<lambda>q. ''0.5'') (PDict [(''a'', PFloat (Fin (1/2))), (''b'', PList [PInt (- 12)])])
      = Inr (''{'' @ json_string ''a'' @ '':0.5,'' @ json_string ''b'' @ '':[-12]}'')" by code_simp
  with canonical_json_of_normal_form [OF n] show ?thesis by simp
qed

end
