(* ===== verification/Py_Floats.thy ===== *)
theory Py_Floats
  imports Py_Values "HOL-Library.Log_Nat"
begin

text \<open>
  Float arithmetic: the results of \<^verbatim>\<open>*\<close>, \<^verbatim>\<open>/\<close>, \<^verbatim>\<open>-\<close> and \<^verbatim>\<open>abs\<close> on IEEE 754 doubles, which are the
  exact results rounded to 53 bits, to the nearest and on ties to the even neighbour, with
  subnormal numbers below \<open>2 ^ -1022\<close> and infinities from \<open>2 ^ 1024\<close> on.  Zeros carry no sign here.
  Divisors are positive where the code divides.

  What is shown: rounding is monotone and keeps zero and the sign.
\<close>

section \<open>Rounding\<close>

definition round_half_even :: "rat \<Rightarrow> int" where
  "round_half_even x =
     (let n = \<lfloor>x\<rfloor>; d = x - of_int n
      in if d < 1 / 2 then n else if 1 / 2 < d then n + 1 else if even n then n else n + 1)"

definition pow2 :: "int \<Rightarrow> rat" where
  "pow2 k = (if 0 \<le> k then 2 ^ nat k else 1 / 2 ^ nat (- k))"

definition fl_exponent :: "rat \<Rightarrow> int" where
  "fl_exponent x =
     (let (a, b) = quotient_of \<bar>x\<bar>; e = bitlen a - bitlen b
      in if pow2 e \<le> \<bar>x\<bar> then e else e - 1)"

definition round_to :: "int \<Rightarrow> rat \<Rightarrow> rat" where
  "round_to k x = of_int (round_half_even (x / pow2 k)) * pow2 k"

definition fl_value :: "rat \<Rightarrow> rat" where
  "fl_value x = (if x = 0 then 0 else round_to (max (fl_exponent x) (- 1022) - 52) x)"

definition fl_round :: "rat \<Rightarrow> py_float" where
  "fl_round x =
     (let r = fl_value x
      in if pow2 1024 \<le> r then PosInf else if r \<le> - pow2 1024 then NegInf else Fin r)"

section \<open>Operations\<close>

fun fl_neg :: "py_float \<Rightarrow> py_float" where
  "fl_neg (Fin a) = Fin (- a)"
| "fl_neg PosInf = NegInf"
| "fl_neg NegInf = PosInf"
| "fl_neg NaN = NaN"

fun fl_add :: "py_float \<Rightarrow> py_float \<Rightarrow> py_float" where
  "fl_add (Fin a) (Fin b) = fl_round (a + b)"
| "fl_add (Fin a) y = y"
| "fl_add x (Fin b) = x"
| "fl_add PosInf PosInf = PosInf"
| "fl_add NegInf NegInf = NegInf"
| "fl_add _ _ = NaN"

definition fl_sub :: "py_float \<Rightarrow> py_float \<Rightarrow> py_float" where
  "fl_sub x y = fl_add x (fl_neg y)"

fun fl_abs :: "py_float \<Rightarrow> py_float" where
  "fl_abs (Fin a) = Fin \<bar>a\<bar>"
| "fl_abs NegInf = PosInf"
| "fl_abs x = x"

definition signed_inf :: "rat \<Rightarrow> py_float" where
  "signed_inf a = (if 0 < a then PosInf else if a < 0 then NegInf else NaN)"

fun fl_mul :: "py_float \<Rightarrow> py_float \<Rightarrow> py_float" where
  "fl_mul (Fin a) (Fin b) = fl_round (a * b)"
| "fl_mul (Fin a) PosInf = signed_inf a"
| "fl_mul (Fin a) NegInf = signed_inf (- a)"
| "fl_mul PosInf (Fin b) = signed_inf b"
| "fl_mul NegInf (Fin b) = signed_inf (- b)"
| "fl_mul PosInf PosInf = PosInf"
| "fl_mul NegInf NegInf = PosInf"
| "fl_mul PosInf NegInf = NegInf"
| "fl_mul NegInf PosInf = NegInf"
| "fl_mul _ _ = NaN"

text \<open>Division by a number other than zero.\<close>

fun fl_div :: "py_float \<Rightarrow> py_float \<Rightarrow> py_float" where
  "fl_div (Fin a) (Fin b) = fl_round (a / b)"
| "fl_div (Fin a) PosInf = Fin 0"
| "fl_div (Fin a) NegInf = Fin 0"
| "fl_div PosInf (Fin b) = signed_inf b"
| "fl_div NegInf (Fin b) = signed_inf (- b)"
| "fl_div _ _ = NaN"

text \<open>\<^verbatim>\<open>math.ceil\<close>, which raises on what is not finite.\<close>

fun fl_ceil :: "py_float \<Rightarrow> int result" where
  "fl_ceil (Fin a) = Inr \<lceil>a\<rceil>"
| "fl_ceil NaN = Inl ValueError"
| "fl_ceil _ = Inl OverflowError"

text \<open>An integer in float arithmetic; counts of frames are far below the integers that overflow.\<close>

definition int_float :: "int \<Rightarrow> py_float" where
  "int_float i = fl_round (of_int i)"

text \<open>\<^verbatim>\<open>math.isfinite\<close> and a finite positive number.\<close>

fun fl_finite :: "py_float \<Rightarrow> bool" where
  "fl_finite (Fin a) = True"
| "fl_finite _ = False"

fun finite_positive :: "py_float \<Rightarrow> bool" where
  "finite_positive (Fin a) = (0 < a)"
| "finite_positive _ = False"

lemma finite_positiveE: "finite_positive x \<Longrightarrow> (\<And>a. x = Fin a \<Longrightarrow> 0 < a \<Longrightarrow> thesis) \<Longrightarrow> thesis"
  by (cases x) auto

section \<open>Rounding is monotone\<close>

lemma pow2_pos [simp]: "0 < pow2 k"
  by (simp add: pow2_def)

lemma pow2_int: "pow2 k = power_int 2 k"
  by (simp add: pow2_def power_int_def divide_simps)

lemma pow2_add: "pow2 (a + b) = pow2 a * pow2 b"
  by (simp add: pow2_int power_int_add)

lemma pow2_mono: "a \<le> b \<Longrightarrow> pow2 a \<le> pow2 b"
  by (simp add: pow2_int power_int_increasing)

lemma pow2_nat: "pow2 (int n) = 2 ^ n"
  by (simp add: pow2_def)

lemma pow2_of_int: "0 \<le> k \<Longrightarrow> pow2 k = of_int (2 ^ nat k)"
  by (simp add: pow2_def)

lemma round_bounds: "\<lfloor>x\<rfloor> \<le> round_half_even x" "round_half_even x \<le> \<lfloor>x\<rfloor> + 1"
  by (simp_all add: round_half_even_def Let_def)

lemma round_half_even_mono: "x \<le> y \<Longrightarrow> round_half_even x \<le> round_half_even y"
proof (cases "\<lfloor>x\<rfloor> = \<lfloor>y\<rfloor>")
  case True
  assume "x \<le> y"
  with True show ?thesis by (auto simp: round_half_even_def Let_def)
next
  case False
  assume "x \<le> y"
  then have "\<lfloor>x\<rfloor> \<le> \<lfloor>y\<rfloor>" by (rule floor_mono)
  with False round_bounds [of x] round_bounds [of y] show ?thesis by simp
qed

lemma round_half_even_int [simp]: "round_half_even (of_int n) = n"
  by (simp add: round_half_even_def)

lemma round_to_mono: "x \<le> y \<Longrightarrow> round_to k x \<le> round_to k y"
  unfolding round_to_def
  by (intro mult_right_mono) (simp_all add: round_half_even_mono divide_right_mono less_imp_le)

lemma round_to_pow2: "k \<le> e \<Longrightarrow> round_to k (pow2 e) = pow2 e"
proof -
  assume k: "k \<le> e"
  have "pow2 e / pow2 k = pow2 (e - k)" by (simp add: pow2_int power_int_diff)
  also have "\<dots> = of_int (2 ^ nat (e - k))" using k by (simp add: pow2_def)
  finally have q: "pow2 e / pow2 k = of_int (2 ^ nat (e - k))" .
  then have "round_to k (pow2 e) = of_int (2 ^ nat (e - k)) * pow2 k" by (simp only: round_to_def q round_half_even_int)
  also have "\<dots> = pow2 e" using q by (metis nonzero_divide_eq_eq order_less_irrefl pow2_pos)
  finally show ?thesis .
qed

lemma fl_exponent_bounds:
  assumes "x \<noteq> 0"
  shows "pow2 (fl_exponent x) \<le> \<bar>x\<bar>" "\<bar>x\<bar> < pow2 (fl_exponent x + 1)"
proof -
  obtain a b where q: "quotient_of \<bar>x\<bar> = (a, b)" by (cases "quotient_of \<bar>x\<bar>")
  from quotient_of_denom_pos [OF q] have b: "0 < b" .
  from quotient_of_div [OF q] have x: "\<bar>x\<bar> = of_int a / of_int b" .
  have "0 < \<bar>x\<bar>" using assms by simp
  with x b have a: "0 < a" by (simp add: zero_less_divide_iff)
  note ba = bitlen_bounds [OF a] and bb = bitlen_bounds [OF b]
  have pos: "0 < bitlen a" "0 < bitlen b" using a b bitlen_eq_zero_iff [of a] bitlen_eq_zero_iff [of b] bitlen_nonneg [of a] bitlen_nonneg [of b] by linarith+
  have A: "pow2 (bitlen a - 1) \<le> of_int a" "of_int a < pow2 (bitlen a)"
    using ba pos by (simp_all add: pow2_of_int del: of_int_power)
  have B: "pow2 (bitlen b - 1) \<le> of_int b" "of_int b < pow2 (bitlen b)"
    using bb pos by (simp_all add: pow2_of_int del: of_int_power)
  let ?e = "bitlen a - bitlen b"
  have "\<bar>x\<bar> < pow2 (bitlen a) / pow2 (bitlen b - 1)"
    unfolding x using A B a b by (intro frac_less) simp_all
  also have "\<dots> = pow2 (?e + 1)" by (simp add: pow2_int algebra_simps flip: power_int_diff)
  finally have up: "\<bar>x\<bar> < pow2 (?e + 1)" .
  have "pow2 (?e - 1) = pow2 (bitlen a - 1) / pow2 (bitlen b)" by (simp add: pow2_int algebra_simps flip: power_int_diff)
  also have "\<dots> \<le> \<bar>x\<bar>" unfolding x using A B a b by (intro frac_le) simp_all
  finally have lo: "pow2 (?e - 1) \<le> \<bar>x\<bar>" .
  show "pow2 (fl_exponent x) \<le> \<bar>x\<bar>" "\<bar>x\<bar> < pow2 (fl_exponent x + 1)"
    using up lo by (simp_all add: fl_exponent_def q Let_def)
qed

lemma fl_value_nonneg: "0 \<le> x \<Longrightarrow> 0 \<le> fl_value x"
proof -
  assume "0 \<le> x"
  then have "round_to k 0 \<le> round_to k x" for k by (rule round_to_mono)
  then show ?thesis by (simp add: fl_value_def round_to_def round_half_even_def)
qed

lemma fl_value_mono: assumes "0 \<le> x" "x \<le> y" shows "fl_value x \<le> fl_value y"
proof (cases "x = 0")
  case True
  with fl_value_nonneg [of y] assms show ?thesis by (simp add: fl_value_def)
next
  case False
  with assms have pos: "0 < x" "0 < y" by simp_all
  let ?ex = "max (fl_exponent x) (- 1022)" and ?ey = "max (fl_exponent y) (- 1022)"
  have bx: "x < pow2 (fl_exponent x + 1)" "pow2 (fl_exponent x) \<le> x"
    and "by": "y < pow2 (fl_exponent y + 1)" "pow2 (fl_exponent y) \<le> y"
    using fl_exponent_bounds [of x] fl_exponent_bounds [of y] pos by simp_all
  show ?thesis
  proof (cases "?ex = ?ey")
    case True
    with round_to_mono [OF assms(2)] pos show ?thesis by (simp add: fl_value_def)
  next
    case False
    have "fl_exponent x \<le> fl_exponent y"
    proof (rule ccontr)
      assume "\<not> ?thesis"
      then have "pow2 (fl_exponent y + 1) \<le> pow2 (fl_exponent x)" by (intro pow2_mono) simp
      with bx "by" assms(2) show False by linarith
    qed
    with False have less: "?ex + 1 \<le> fl_exponent y" "?ey = fl_exponent y" by (auto simp: max_def split: if_splits)
    have "x \<le> pow2 (?ex + 1)" using bx(1) pow2_mono [of "fl_exponent x + 1" "?ex + 1"] by simp
    then have "fl_value x \<le> pow2 (?ex + 1)"
      using round_to_mono [of x "pow2 (?ex + 1)" "?ex - 52"] round_to_pow2 [of "?ex - 52" "?ex + 1"] pos(1)
      by (simp add: fl_value_def)
    also have "\<dots> \<le> pow2 (fl_exponent y)" using less(1) by (rule pow2_mono)
    also have "\<dots> \<le> fl_value y"
      using round_to_mono [OF "by"(2), of "fl_exponent y - 52"] round_to_pow2 [of "fl_exponent y - 52" "fl_exponent y"] less(2) pos
      by (simp add: fl_value_def)
    finally show ?thesis .
  qed
qed

lemma fl_round_cases:
  assumes "0 \<le> x"
  obtains "fl_round x = PosInf" "pow2 1024 \<le> fl_value x" | "fl_round x = Fin (fl_value x)" "fl_value x < pow2 1024"
proof -
  have "0 < pow2 1024" by (rule pow2_pos)
  with fl_value_nonneg [OF assms] have "\<not> fl_value x \<le> - pow2 1024" by linarith
  then show thesis using that by (cases "pow2 1024 \<le> fl_value x") (simp_all add: fl_round_def Let_def)
qed

lemma fl_le_Inf: "fl_le PosInf PosInf" "fl_le (Fin a) PosInf"
  by (simp_all add: fl_le_def)

text \<open>On non-negative numbers rounding keeps the order, infinities included.\<close>

lemma fl_round_mono: "0 \<le> x \<Longrightarrow> x \<le> y \<Longrightarrow> fl_le (fl_round x) (fl_round y)"
proof -
  assume x: "0 \<le> x" "x \<le> y"
  then have y: "0 \<le> y" by simp
  show ?thesis
  proof (cases rule: fl_round_cases [OF x(1)])
    case 1
    with fl_value_mono [OF x] show ?thesis by (cases rule: fl_round_cases [OF y]) (simp_all add: fl_le_Inf)
  next
    case 2
    with fl_value_mono [OF x] show ?thesis by (cases rule: fl_round_cases [OF y]) (simp_all add: fl_le_Inf)
  qed
qed

text \<open>The rounded value of a number, recognised by its 53-bit mantissa.\<close>

lemma fl_exponent_unique:
  assumes "0 < x" "pow2 e \<le> x" "x < pow2 (e + 1)"
  shows "fl_exponent x = e"
proof (rule antisym)
  from assms(1) fl_exponent_bounds [of x] have b: "pow2 (fl_exponent x) \<le> x" "x < pow2 (fl_exponent x + 1)" by simp_all
  show "fl_exponent x \<le> e"
    using b(1) assms(3) pow2_mono [of "e + 1" "fl_exponent x"] by (cases "fl_exponent x \<le> e") simp_all
  show "e \<le> fl_exponent x"
    using b(2) assms(2) pow2_mono [of "fl_exponent x + 1" e] by (cases "e \<le> fl_exponent x") simp_all
qed

lemma round_half_even_near:
  assumes "of_int n - 1 / 2 < x \<and> x < of_int n + 1 / 2 \<or> even n \<and> (x = of_int n - 1 / 2 \<or> x = of_int n + 1 / 2)"
  shows "round_half_even x = n"
proof (cases "of_int n \<le> x")
  case True
  with assms have "\<lfloor>x\<rfloor> = n" by (auto simp: floor_eq_iff)
  with assms True show ?thesis by (auto simp: round_half_even_def)
next
  case False
  with assms have "\<lfloor>x\<rfloor> = n - 1" by (auto simp: floor_eq_iff)
  with assms False show ?thesis by (auto simp: round_half_even_def)
qed

lemma fl_round_near:
  assumes "pow2 52 \<le> x / pow2 k" "x / pow2 k < pow2 53" and "- 1074 \<le> k" "k < 971"
    and "of_int n - 1 / 2 < x / pow2 k \<and> x / pow2 k < of_int n + 1 / 2
      \<or> even n \<and> (x / pow2 k = of_int n - 1 / 2 \<or> x / pow2 k = of_int n + 1 / 2)" "n < 2 ^ 53"
  shows "fl_round x = Fin (of_int n * pow2 k)"
proof -
  have x: "pow2 (k + 52) \<le> x" "x < pow2 (k + 52 + 1)"
    using assms(1,2) pow2_add [of k 52] pow2_add [of k 53] by (simp_all add: field_simps)
  then have pos: "0 < x" using pow2_pos less_le_trans by blast
  from fl_exponent_unique [OF pos x] assms(3) have e: "max (fl_exponent x) (- 1022) - 52 = k" by simp
  have v: "fl_value x = of_int n * pow2 k"
    using pos round_half_even_near [OF assms(5)] by (simp add: fl_value_def e round_to_def)
  have "of_int n < (2 :: rat) ^ 53" using assms(6) by (metis of_int_less_iff of_int_numeral of_int_power)
  then have "of_int n * pow2 k < pow2 (53 + k)" by (simp add: pow2_add) (simp add: pow2_def)
  also have "\<dots> \<le> pow2 1024" using assms(4) by (intro pow2_mono) simp
  finally have "fl_value x < pow2 1024" by (simp add: v)
  moreover have "0 \<le> x" using pos by simp
  ultimately show ?thesis by (elim fl_round_cases) (simp_all add: v)
qed

lemma fl_round_0 [simp]: "fl_round 0 = Fin 0"
  by (simp add: fl_round_def fl_value_def) (simp add: pow2_def)

lemma fl_round_examples:
  "fl_round (1 / 10) = Fin (3602879701896397 / 36028797018963968)"
  "fl_round (54 / 5) = Fin (3039929748475085 / 281474976710656)"
  "fl_div (fl_mul (Fin (3039929748475085 / 281474976710656)) (Fin 6)) (Fin 6) = Fin (6079859496950171 / 562949953421312)"
proof -
  show "fl_round (1 / 10) = Fin (3602879701896397 / 36028797018963968)"
    using fl_round_near [of "1/10" "-56" 7205759403792794] by (simp add: pow2_def)
  show "fl_round (54 / 5) = Fin (3039929748475085 / 281474976710656)"
    using fl_round_near [of "54/5" "-49" 6079859496950170] by (simp add: pow2_def)
  have "fl_mul (Fin (3039929748475085 / 281474976710656)) (Fin 6) = Fin (1139973655678157 / 17592186044416)"
    using fl_round_near [of "18239578490850510 / 281474976710656" "-46" 4559894622712628] by (simp add: pow2_def)
  then show "fl_div (fl_mul (Fin (3039929748475085 / 281474976710656)) (Fin 6)) (Fin 6) = Fin (6079859496950171 / 562949953421312)"
    using fl_round_near [of "1139973655678157 / 105553116266496" "-49" 6079859496950171] by (simp add: pow2_def)
qed

end
