(* ===== verification/Audit_Json.thy ===== *)
theory Audit_Json
  imports Py_Floats "HOL-Library.Sublist"
begin

text \<open>
  Redaction of audit values, \<^verbatim>\<open>sanitize_json\<close> and its helpers of
  \<^verbatim>\<open>infrastructure/database/analysis_repository.py\<close>: before a request summary, a provider response
  or a result is stored, values under credential-bearing keys, URLs that carry credentials and
  floats that are not finite are replaced.  What counts as a credential is specified on its own, as
  the spelling of keys and the grammar of web addresses, and the code is shown to recognise exactly
  that.

  The URL functions of the standard library that it calls are modelled on ASCII text:
  \<^verbatim>\<open>urlsplit\<close>, the \<^verbatim>\<open>username\<close> of its result and \<^verbatim>\<open>parse_qsl\<close>.  Whether \<^verbatim>\<open>urlsplit\<close> accepts a
  network location (bracketed hosts) differs between the supported Python versions and is the
  parameter \<open>host_ok\<close>.
\<close>

section \<open>Text\<close>

definition lower_char :: "char \<Rightarrow> char" where
  "lower_char c = (let n = (of_char c :: nat) in if 65 \<le> n \<and> n \<le> 90 then char_of (n + 32) else c)"

definition ascii_letter :: "char \<Rightarrow> bool" where
  "ascii_letter c = (let n = (of_char c :: nat) in 65 \<le> n \<and> n \<le> 90 \<or> 97 \<le> n \<and> n \<le> 122)"

text \<open>\<^verbatim>\<open>p in s\<close>.\<close>

fun contains_text :: "string \<Rightarrow> string \<Rightarrow> bool" where
  "contains_text p [] = (p = [])"
| "contains_text p (c # s) = (take (length p) (c # s) = p \<or> contains_text p s)"

lemma contains_text_append: "contains_text p (a @ p @ b)"
proof (induction a)
  case Nil
  have "take (length p) (p @ b) = p" by simp
  then show ?case by (cases "p @ b") auto
next
  case (Cons c a)
  then show ?case by simp
qed

text \<open>\<^verbatim>\<open>re.sub(r"[^a-z0-9]", "", s.lower())\<close>.\<close>

definition squeezed :: "string \<Rightarrow> string" where
  "squeezed s = filter (\<lambda>c. let n = (of_char c :: nat) in 97 \<le> n \<and> n \<le> 122 \<or> 48 \<le> n \<and> n \<le> 57) (map lower_char s)"

section \<open>URLs\<close>

record url_parts =
  ur_scheme :: string
  ur_netloc :: string
  ur_path :: string
  ur_query :: string
  ur_fragment :: string

definition url_text :: "string \<Rightarrow> string" where
  "url_text s = filter (\<lambda>c. (of_char c :: nat) \<notin> {9, 10, 13}) (dropWhile (\<lambda>c. (of_char c :: nat) \<le> 32) s)"

definition scheme_char :: "char \<Rightarrow> bool" where
  "scheme_char c = (ascii_letter c \<or> ascii_digit c \<or> c \<in> {CHR ''+'', CHR ''-'', CHR ''.''})"

definition split_scheme :: "string \<Rightarrow> string \<times> string" where
  "split_scheme s =
     (let name = takeWhile (\<lambda>c. c \<noteq> CHR '':'') s; rest = dropWhile (\<lambda>c. c \<noteq> CHR '':'') s
      in if rest \<noteq> [] \<and> name \<noteq> [] \<and> ascii_letter (hd name) \<and> list_all scheme_char name
         then (map lower_char name, tl rest) else ([], s))"

definition ends_netloc :: "char \<Rightarrow> bool" where
  "ends_netloc c = (c \<in> {CHR ''/'', CHR ''?'', CHR ''#''})"

definition split_netloc :: "string \<Rightarrow> string \<times> string" where
  "split_netloc s =
     (if take 2 s = ''//'' then (takeWhile (\<lambda>c. \<not> ends_netloc c) (drop 2 s), dropWhile (\<lambda>c. \<not> ends_netloc c) (drop 2 s))
      else ([], s))"

text \<open>\<^verbatim>\<open>s.split(c, 1)\<close>, the second part empty when \<open>c\<close> does not occur.\<close>

definition cut_at :: "char \<Rightarrow> string \<Rightarrow> string \<times> string" where
  "cut_at c s = (takeWhile (\<lambda>x. x \<noteq> c) s, drop 1 (dropWhile (\<lambda>x. x \<noteq> c) s))"

text \<open>\<open>None\<close> is the \<^verbatim>\<open>ValueError\<close> of a malformed network location.\<close>

definition urlsplit :: "(string \<Rightarrow> bool) \<Rightarrow> string \<Rightarrow> url_parts option" where
  "urlsplit host_ok s =
     (let (scheme, rest) = split_scheme (url_text s);
          (netloc, rest) = split_netloc rest;
          (rest, fragment) = cut_at (CHR ''#'') rest;
          (path, query) = cut_at (CHR ''?'') rest
      in if host_ok netloc
         then Some \<lparr>ur_scheme = scheme, ur_netloc = netloc, ur_path = path, ur_query = query, ur_fragment = fragment\<rparr>
         else None)"

text \<open>\<^verbatim>\<open>username is not None or password is not None\<close>.\<close>

definition has_userinfo :: "url_parts \<Rightarrow> bool" where
  "has_userinfo u = (CHR ''@'' \<in> set (ur_netloc u))"

definition hex_digit_of :: "char \<Rightarrow> nat option" where
  "hex_digit_of c =
     (let n = (of_char c :: nat)
      in if 48 \<le> n \<and> n \<le> 57 then Some (n - 48)
         else if 97 \<le> n \<and> n \<le> 102 then Some (n - 87)
         else if 65 \<le> n \<and> n \<le> 70 then Some (n - 55) else None)"

text \<open>\<^verbatim>\<open>unquote_plus\<close>.\<close>

fun unquote_plus :: "string \<Rightarrow> string" where
  "unquote_plus (c # a # b # s) =
     (if c = CHR ''%'' then
        (case (hex_digit_of a, hex_digit_of b) of
           (Some i, Some j) \<Rightarrow> char_of (16 * i + j) # unquote_plus s
         | _ \<Rightarrow> c # unquote_plus (a # b # s))
      else (if c = CHR ''+'' then CHR '' '' else c) # unquote_plus (a # b # s))"
| "unquote_plus (c # s) = (if c = CHR ''+'' then CHR '' '' else c) # unquote_plus s"
| "unquote_plus [] = []"

fun split_ampersand :: "string \<Rightarrow> string list" where
  "split_ampersand [] = [[]]"
| "split_ampersand (c # cs) =
     (if c = CHR ''&'' then [] # split_ampersand cs
      else case split_ampersand cs of p # ps \<Rightarrow> (c # p) # ps | [] \<Rightarrow> [[c]])"

text \<open>The keys of \<^verbatim>\<open>parse_qsl(query, keep_blank_values=True)\<close>.\<close>

definition query_keys :: "string \<Rightarrow> string list" where
  "query_keys q = map (\<lambda>p. unquote_plus (takeWhile (\<lambda>c. c \<noteq> CHR ''='') p)) (filter (\<lambda>p. p \<noteq> []) (split_ampersand q))"

section \<open>Redaction\<close>

definition key_fragments :: "string list" where
  "key_fragments = [''secret'', ''password'', ''apikey'', ''authorization'', ''credential'', ''signature'']"

definition is_sensitive_key :: "string \<Rightarrow> bool" where
  "is_sensitive_key key =
     (let normalized = squeezed key
      in list_ex (\<lambda>p. contains_text p normalized) key_fragments \<or> normalized = ''token''
         \<or> suffix ''token'' normalized \<and> \<not> suffix ''tokens'' normalized)"

definition query_fragments :: "string list" where
  "query_fragments = [''secret'', ''password'', ''apikey'', ''authorization'', ''token'', ''credential'', ''signature'']"

definition redacted :: string where "redacted = ''[REDACTED]''"
definition redacted_url :: string where "redacted_url = ''[REDACTED_URL]''"

text \<open>Whether \<^verbatim>\<open>_sanitize_string\<close> replaces a text.\<close>

definition credential_url :: "(string \<Rightarrow> bool) \<Rightarrow> string \<Rightarrow> bool" where
  "credential_url host_ok s =
     (case urlsplit host_ok s of
        None \<Rightarrow> False
      | Some u \<Rightarrow>
          (ur_scheme u = ''http'' \<or> ur_scheme u = ''https'') \<and> ur_netloc u \<noteq> [] \<and>
          (has_userinfo u \<or>
           list_ex (\<lambda>k. list_ex (\<lambda>p. contains_text p (squeezed k)) query_fragments) (query_keys (ur_query u))))"

definition sanitize_string :: "(string \<Rightarrow> bool) \<Rightarrow> string \<Rightarrow> string" where
  "sanitize_string host_ok s = (if credential_url host_ok s then redacted_url else s)"

fun sanitize_json :: "(string \<Rightarrow> bool) \<Rightarrow> pyval \<Rightarrow> pyval" where
  "sanitize_json host_ok PNone = PNone"
| "sanitize_json host_ok (PBool b) = PBool b"
| "sanitize_json host_ok (PInt i) = PInt i"
| "sanitize_json host_ok (PFloat f) = (if fl_finite f then PFloat f else PNone)"
| "sanitize_json host_ok (PStr s) = PStr (sanitize_string host_ok s)"
| "sanitize_json host_ok (PList xs) = PList (map (sanitize_json host_ok) xs)"
| "sanitize_json host_ok (PTuple xs) = PList (map (sanitize_json host_ok) xs)"
| "sanitize_json host_ok (PDict d) =
     PDict (map (\<lambda>(k, v). (k, if is_sensitive_key k then PStr redacted else sanitize_json host_ok v)) d)"

section \<open>Labels of failures\<close>

definition sanitize_identifier :: "string option \<Rightarrow> nat \<Rightarrow> string result" where
  "sanitize_identifier v limit =
     (case v of
        None \<Rightarrow> fail ''value must not be blank''
      | Some s \<Rightarrow>
          if blank s then fail ''value must not be blank''
          else if limit < length (py_strip s) then fail ''value is too long'' else Inr (py_strip s))"

definition bounded_label :: "string \<Rightarrow> nat \<Rightarrow> string option \<Rightarrow> string" where
  "bounded_label default_label limit v =
     (case v of None \<Rightarrow> default_label | Some s \<Rightarrow> take limit (if blank s then default_label else py_strip s))"

definition sanitize_error_code :: "string option \<Rightarrow> string" where
  "sanitize_error_code = bounded_label ''INTERNAL_ERROR'' 64"

definition sanitize_error_type :: "string option \<Rightarrow> string" where
  "sanitize_error_type = bounded_label ''UnknownAnalysisError'' 128"

definition nonnegative_float :: "py_float option \<Rightarrow> py_float option" where
  "nonnegative_float v =
     (case v of Some (Fin q) \<Rightarrow> if 0 \<le> q then Some (Fin q) else None | _ \<Rightarrow> None)"

definition http_status :: "int option \<Rightarrow> int option" where
  "http_status v = (case v of Some i \<Rightarrow> if 100 \<le> i \<and> i \<le> 599 then Some i else None | None \<Rightarrow> None)"

text \<open>A response or usage record that is not an object is wrapped into one.\<close>

definition as_object :: "pyval \<Rightarrow> pyval" where
  "as_object v = (case v of PDict d \<Rightarrow> PDict d | _ \<Rightarrow> PDict [(''value'', v)])"

section \<open>What a credential is\<close>

text \<open>
  The promise of the redaction, stated without its code.  A key names a credential when its letters
  and digits, read without regard to case and to the other characters between them, contain one of
  the words below, or end in \<^verbatim>\<open>token\<close>: \<^verbatim>\<open>api_key\<close>, \<^verbatim>\<open>X-Api-Key\<close> and \<^verbatim>\<open>accessToken\<close> do,
  \<^verbatim>\<open>input_tokens\<close> does not.
\<close>

definition separator :: "char \<Rightarrow> bool" where
  "separator c = (\<not> ascii_letter c \<and> \<not> ascii_digit c)"

inductive spells :: "string \<Rightarrow> string \<Rightarrow> bool" where
  spells_end: "spells [] []"
| spells_separator: "separator c \<Longrightarrow> spells s w \<Longrightarrow> spells (c # s) w"
| spells_char: "\<not> separator c \<Longrightarrow> spells s w \<Longrightarrow> spells (c # s) (lower_char c # w)"

definition credential_words :: "string set" where
  "credential_words = {''secret'', ''password'', ''apikey'', ''authorization'', ''credential'', ''signature''}"

definition names_credential :: "string set \<Rightarrow> string \<Rightarrow> bool" where
  "names_credential words key = (\<exists>before written after word. key = before @ written @ after \<and> spells written word \<and> word \<in> words)"

definition credential_key :: "string \<Rightarrow> bool" where
  "credential_key key = (names_credential credential_words key \<or> (\<exists>before written. key = before @ written \<and> spells written ''token''))"

text \<open>
  The parts of a web address, \<^verbatim>\<open>scheme://netloc/path?query#fragment\<close>; the query of a text without one
  is empty, otherwise it starts with its question mark.  A field of it is what stands between that
  mark, the ampersands and the end.
\<close>

definition web_address :: "string \<Rightarrow> string \<Rightarrow> string \<Rightarrow> bool" where
  "web_address netloc query t = (\<exists>scheme path fragment.
     t = scheme @ ''://'' @ netloc @ path @ query @ fragment
     \<and> (map lower_char scheme = ''http'' \<or> map lower_char scheme = ''https'')
     \<and> netloc \<noteq> [] \<and> set netloc \<inter> {CHR ''/'', CHR ''?'', CHR ''#''} = {}
     \<and> (path = [] \<or> hd path = CHR ''/'') \<and> set path \<inter> {CHR ''?'', CHR ''#''} = {}
     \<and> (query = [] \<or> hd query = CHR ''?'') \<and> CHR ''#'' \<notin> set query
     \<and> (fragment = [] \<or> hd fragment = CHR ''#''))"

definition query_field :: "string \<Rightarrow> string \<Rightarrow> bool" where
  "query_field field query = (\<exists>before c after.
     query = before @ c # field @ after \<and> (before = [] \<or> c = CHR ''&'')
     \<and> (after = [] \<or> hd after = CHR ''&'') \<and> CHR ''&'' \<notin> set field)"

text \<open>
  A text carries a credential when it is a web address, with a network location that the library
  accepts, that has user information or a query field whose name, percent-decoded, names one.
\<close>

definition credential_text :: "(string \<Rightarrow> bool) \<Rightarrow> string \<Rightarrow> bool" where
  "credential_text host_ok s = (\<exists>netloc query.
     web_address netloc query (url_text s) \<and> host_ok netloc
     \<and> (CHR ''@'' \<in> set netloc
        \<or> (\<exists>field. query_field field query
             \<and> names_credential (insert ''token'' credential_words) (unquote_plus (takeWhile (\<lambda>c. c \<noteq> CHR ''='') field)))))"

text \<open>A JSON value without credentials: a credential entry is the mark of the redaction.\<close>

fun credential_free :: "(string \<Rightarrow> bool) \<Rightarrow> pyval \<Rightarrow> bool" where
  "credential_free host_ok (PFloat f) = fl_finite f"
| "credential_free host_ok (PStr s) = (\<not> credential_text host_ok s)"
| "credential_free host_ok (PList xs) = list_all (credential_free host_ok) xs"
| "credential_free host_ok (PTuple xs) = False"
| "credential_free host_ok (PDict d) =
     list_all (\<lambda>(k, v). if credential_key k then v = PStr redacted else credential_free host_ok v) d"
| "credential_free host_ok v = True"

text \<open>Two values that differ in their credentials only.\<close>

inductive same_but_credentials :: "(string \<Rightarrow> bool) \<Rightarrow> pyval \<Rightarrow> pyval \<Rightarrow> bool" for host_ok where
  same_value: "same_but_credentials host_ok v v"
| same_text: "credential_text host_ok s \<Longrightarrow> credential_text host_ok t \<Longrightarrow> same_but_credentials host_ok (PStr s) (PStr t)"
| same_list: "list_all2 (same_but_credentials host_ok) xs ys \<Longrightarrow> same_but_credentials host_ok (PList xs) (PList ys)"
| same_tuple: "list_all2 (same_but_credentials host_ok) xs ys \<Longrightarrow> same_but_credentials host_ok (PTuple xs) (PTuple ys)"
| same_dict: "list_all2 (\<lambda>x y. fst x = fst y \<and> (credential_key (fst x) \<or> same_but_credentials host_ok (snd x) (snd y))) d e \<Longrightarrow>
    same_but_credentials host_ok (PDict d) (PDict e)"

section \<open>The code recognises exactly the credentials\<close>

lemma contains_text_iff: "contains_text p s \<longleftrightarrow> (\<exists>a b. s = a @ p @ b)"
proof
  show "contains_text p s \<Longrightarrow> \<exists>a b. s = a @ p @ b"
  proof (induction s)
    case (Cons c s)
    show ?case
    proof (cases "take (length p) (c # s) = p")
      case True
      then have "c # s = [] @ p @ drop (length p) (c # s)" by (metis append_Nil append_take_drop_id)
      then show ?thesis by blast
    next
      case False
      with Cons obtain a b where "s = a @ p @ b" by auto
      then have "c # s = (c # a) @ p @ b" by simp
      then show ?thesis by blast
    qed
  qed simp
qed (auto simp: contains_text_append)

lemma squeezed_Nil [simp]: "squeezed [] = []"
  by (simp add: squeezed_def)

lemma squeezed_append [simp]: "squeezed (a @ b) = squeezed a @ squeezed b"
  by (simp add: squeezed_def)

lemma squeezed_Cons: "squeezed (c # s) = (if separator c then squeezed s else lower_char c # squeezed s)"
  by (auto simp: squeezed_def Let_def separator_def lower_char_def ascii_letter_def ascii_digit_def)

lemma spells_iff_squeezed: "spells s w \<longleftrightarrow> squeezed s = w"
proof
  show "spells s w \<Longrightarrow> squeezed s = w" by (induction rule: spells.induct) (simp_all add: squeezed_Cons)
  show "squeezed s = w \<Longrightarrow> spells s w"
    by (induction s arbitrary: w) (auto simp: squeezed_Cons intro: spells.intros split: if_splits)
qed

lemma squeezed_split: "squeezed s = x @ y \<Longrightarrow> \<exists>a b. s = a @ b \<and> squeezed a = x \<and> squeezed b = y"
proof (induction s arbitrary: x)
  case (Cons c s)
  show ?case
  proof (cases "separator c")
    case True
    with Cons obtain a b where "s = a @ b" "squeezed a = x" "squeezed b = y" by (metis squeezed_Cons)
    with True have "c # s = (c # a) @ b \<and> squeezed (c # a) = x \<and> squeezed b = y" by (simp add: squeezed_Cons)
    then show ?thesis by blast
  next
    case kept: False
    show ?thesis
    proof (cases x)
      case Nil
      with Cons.prems have "c # s = [] @ (c # s) \<and> squeezed [] = x \<and> squeezed (c # s) = y" by simp
      then show ?thesis by blast
    next
      case (Cons d x')
      with Cons.prems kept have d: "d = lower_char c" "squeezed s = x' @ y" by (simp_all add: squeezed_Cons)
      from Cons.IH [OF d(2)] obtain a b where "s = a @ b" "squeezed a = x'" "squeezed b = y" by blast
      with d kept Cons have "c # s = (c # a) @ b \<and> squeezed (c # a) = x \<and> squeezed b = y" by (simp add: squeezed_Cons)
      then show ?thesis by blast
    qed
  qed
qed simp

lemma written_in_squeezed: "contains_text w (squeezed key) \<longleftrightarrow> (\<exists>before written after. key = before @ written @ after \<and> spells written w)"
proof
  assume "contains_text w (squeezed key)"
  then obtain x y where "squeezed key = x @ w @ y" unfolding contains_text_iff by blast
  from squeezed_split [OF this] obtain a b where a: "key = a @ b" "squeezed b = w @ y" by blast
  from squeezed_split [OF a(2)] obtain c d where "b = c @ d" "squeezed c = w" by blast
  with a show "\<exists>before written after. key = before @ written @ after \<and> spells written w"
    by (auto simp: spells_iff_squeezed)
qed (auto simp: spells_iff_squeezed contains_text_append)

lemma names_credential_iff: "names_credential words key \<longleftrightarrow> (\<exists>w \<in> words. contains_text w (squeezed key))"
  unfolding names_credential_def written_in_squeezed by blast

lemma ends_in_token: "suffix ''token'' (squeezed key) \<longleftrightarrow> (\<exists>before written. key = before @ written \<and> spells written ''token'')"
proof
  assume "suffix ''token'' (squeezed key)"
  then obtain x where "squeezed key = x @ ''token''" by (auto simp: suffix_def)
  from squeezed_split [OF this] show "\<exists>before written. key = before @ written \<and> spells written ''token''"
    by (auto simp: spells_iff_squeezed)
qed (auto simp: spells_iff_squeezed suffix_def)

lemma not_plural: "suffix ''token'' s \<Longrightarrow> \<not> suffix ''tokens'' s"
proof
  assume "suffix ''token'' s" and "suffix ''tokens'' s"
  then have "last s = CHR ''n''" and "last s = CHR ''s''" by (auto simp: suffix_def)
  then show False by simp
qed

lemma sensitive_iff_credential: "is_sensitive_key key \<longleftrightarrow> credential_key key"
proof -
  have "is_sensitive_key key \<longleftrightarrow> (\<exists>w \<in> credential_words. contains_text w (squeezed key)) \<or> suffix ''token'' (squeezed key)"
    using not_plural [of "squeezed key"]
    by (auto simp: is_sensitive_key_def Let_def key_fragments_def credential_words_def)
  then show ?thesis unfolding credential_key_def names_credential_iff ends_in_token .
qed

lemma takeWhile_stop: "\<forall>c \<in> set a. P c \<Longrightarrow> b = [] \<or> \<not> P (hd b) \<Longrightarrow> takeWhile P (a @ b) = a"
  by (cases b) auto

lemma dropWhile_stop: "\<forall>c \<in> set a. P c \<Longrightarrow> b = [] \<or> \<not> P (hd b) \<Longrightarrow> dropWhile P (a @ b) = b"
  by (cases b) auto

lemma cut_at_eq: "c \<notin> set a \<Longrightarrow> b = [] \<or> hd b = c \<Longrightarrow> cut_at c (a @ b) = (a, drop 1 b)"
proof -
  assume a: "c \<notin> set a" "b = [] \<or> hd b = c"
  then have "\<forall>x \<in> set a. x \<noteq> c" and "b = [] \<or> \<not> hd b \<noteq> c" by auto
  from takeWhile_stop [OF this] dropWhile_stop [OF this] show ?thesis by (simp add: cut_at_def)
qed

lemma cut_at_parts: "cut_at c s = (a, b) \<Longrightarrow> \<exists>b'. s = a @ b' \<and> b = drop 1 b' \<and> c \<notin> set a \<and> (b' = [] \<or> hd b' = c)"
proof -
  assume "cut_at c s = (a, b)"
  then have e: "a = takeWhile (\<lambda>x. x \<noteq> c) s" "b = drop 1 (dropWhile (\<lambda>x. x \<noteq> c) s)" by (simp_all add: cut_at_def)
  have "c \<notin> set a" unfolding e(1) by (auto dest: set_takeWhileD)
  moreover have "dropWhile (\<lambda>x. x \<noteq> c) s = [] \<or> hd (dropWhile (\<lambda>x. x \<noteq> c) s) = c"
    using hd_dropWhile [of "\<lambda>x. x \<noteq> c" s] by blast
  ultimately show ?thesis using e by (metis takeWhile_dropWhile_id)
qed

lemma web_scheme:
  assumes "map lower_char scheme = ''http'' \<or> map lower_char scheme = ''https''"
  shows "scheme \<noteq> []" and "ascii_letter (hd scheme)" and "list_all scheme_char scheme" and "CHR '':'' \<notin> set scheme"
proof -
  have l: "ascii_letter c" if "c \<in> set scheme" for c
  proof -
    from that have "lower_char c \<in> set (map lower_char scheme)" by simp
    with assms have "lower_char c \<in> {CHR ''h'', CHR ''t'', CHR ''p'', CHR ''s''}" by auto
    then show ?thesis by (auto simp: lower_char_def ascii_letter_def Let_def split: if_splits)
  qed
  show "scheme \<noteq> []" using assms by auto
  then show "ascii_letter (hd scheme)" using l by simp
  show "list_all scheme_char scheme" using l by (simp add: list_all_iff scheme_char_def)
  show "CHR '':'' \<notin> set scheme" using l by (force simp: ascii_letter_def)
qed

lemma split_scheme_eq:
  assumes "map lower_char scheme = ''http'' \<or> map lower_char scheme = ''https''"
  shows "split_scheme (scheme @ CHR '':'' # rest) = (map lower_char scheme, rest)"
proof -
  have "takeWhile (\<lambda>c. c \<noteq> CHR '':'') (scheme @ CHR '':'' # rest) = scheme"
    and "dropWhile (\<lambda>c. c \<noteq> CHR '':'') (scheme @ CHR '':'' # rest) = CHR '':'' # rest"
    using web_scheme(4) [OF assms] by (auto intro!: takeWhile_stop dropWhile_stop)
  with web_scheme(1-3) [OF assms] show ?thesis by (simp add: split_scheme_def Let_def)
qed

lemma split_scheme_parts:
  assumes "split_scheme t = (s, rest)" and "s \<noteq> []"
  shows "\<exists>scheme. t = scheme @ CHR '':'' # rest \<and> s = map lower_char scheme"
proof -
  let ?n = "takeWhile (\<lambda>c. c \<noteq> CHR '':'') t" and ?r = "dropWhile (\<lambda>c. c \<noteq> CHR '':'') t"
  from assms have r: "?r \<noteq> []" "s = map lower_char ?n" "rest = tl ?r" by (auto simp: split_scheme_def Let_def split: if_splits)
  with hd_dropWhile [of "\<lambda>c. c \<noteq> CHR '':''" t] have "?r = CHR '':'' # rest" by (cases ?r) auto
  then have "t = ?n @ CHR '':'' # rest" by (metis takeWhile_dropWhile_id)
  with r(2) show ?thesis by blast
qed

lemma urlsplit_web_address:
  assumes "web_address netloc query (url_text s)"
  shows "\<exists>u. urlsplit host_ok s = (if host_ok netloc then Some u else None)
    \<and> (ur_scheme u = ''http'' \<or> ur_scheme u = ''https'') \<and> ur_netloc u = netloc \<and> netloc \<noteq> [] \<and> ur_query u = drop 1 query"
proof -
  from assms obtain scheme path fragment where t: "url_text s = scheme @ ''://'' @ netloc @ path @ query @ fragment"
    and sc: "map lower_char scheme = ''http'' \<or> map lower_char scheme = ''https''"
    and n: "netloc \<noteq> []" "set netloc \<inter> {CHR ''/'', CHR ''?'', CHR ''#''} = {}"
    and p: "path = [] \<or> hd path = CHR ''/''" "set path \<inter> {CHR ''?'', CHR ''#''} = {}"
    and q: "query = [] \<or> hd query = CHR ''?''" "CHR ''#'' \<notin> set query"
    and f: "fragment = [] \<or> hd fragment = CHR ''#''"
    unfolding web_address_def by (elim exE conjE) (rule that)
  have 1: "split_scheme (url_text s) = (map lower_char scheme, ''//'' @ netloc @ path @ query @ fragment)"
    using split_scheme_eq [OF sc, of "''//'' @ netloc @ path @ query @ fragment"] t by simp
  have hd: "path @ query @ fragment = [] \<or> ends_netloc (hd (path @ query @ fragment))"
    using p(1) q(1) f by (cases path; cases query) (auto simp: ends_netloc_def)
  have no: "\<forall>c \<in> set netloc. \<not> ends_netloc c" using n(2) by (auto simp: ends_netloc_def)
  have 2: "split_netloc (''//'' @ netloc @ path @ query @ fragment) = (netloc, path @ query @ fragment)"
    using takeWhile_stop [OF no] dropWhile_stop [OF no] hd by (simp add: split_netloc_def)
  have 3: "cut_at (CHR ''#'') (path @ query @ fragment) = (path @ query, drop 1 fragment)"
    using cut_at_eq [of "CHR ''#''" "path @ query" fragment] p(2) q(2) f by simp
  have 4: "cut_at (CHR ''?'') (path @ query) = (path, drop 1 query)"
    by (rule cut_at_eq) (use p(2) q(1) in auto)
  let ?u = "\<lparr>ur_scheme = map lower_char scheme, ur_netloc = netloc, ur_path = path, ur_query = drop 1 query,
    ur_fragment = drop 1 fragment\<rparr>"
  have "urlsplit host_ok s = (if host_ok netloc then Some ?u else None)"
    by (simp only: urlsplit_def 1 2 3 4 Let_def prod.case)
  with sc n(1) show ?thesis by (intro exI [of _ ?u] conjI) simp_all
qed

lemma urlsplit_parts:
  assumes "urlsplit host_ok s = Some u" and "ur_scheme u = ''http'' \<or> ur_scheme u = ''https''" and "ur_netloc u \<noteq> []"
  shows "\<exists>query. web_address (ur_netloc u) query (url_text s) \<and> ur_query u = drop 1 query \<and> host_ok (ur_netloc u)"
proof -
  obtain sc r1 where 1: "split_scheme (url_text s) = (sc, r1)" by (cases "split_scheme (url_text s)")
  obtain netloc r2 where 2: "split_netloc r1 = (netloc, r2)" by (cases "split_netloc r1")
  obtain r3 fr where 3: "cut_at (CHR ''#'') r2 = (r3, fr)" by (cases "cut_at (CHR ''#'') r2")
  obtain path q where 4: "cut_at (CHR ''?'') r3 = (path, q)" by (cases "cut_at (CHR ''?'') r3")
  from assms(1) have u: "ur_scheme u = sc" "ur_netloc u = netloc" "ur_query u = q" "host_ok netloc"
    by (simp_all add: urlsplit_def 1 2 3 4 split: if_splits) auto
  from assms(2) u(1) have sc: "sc = ''http'' \<or> sc = ''https''" by simp
  from split_scheme_parts [OF 1] sc obtain scheme where t: "url_text s = scheme @ CHR '':'' # r1" "sc = map lower_char scheme" by auto
  from 2 assms(3) u(2) have "take 2 r1 = ''//''" and n: "netloc = takeWhile (\<lambda>c. \<not> ends_netloc c) (drop 2 r1)"
    "r2 = dropWhile (\<lambda>c. \<not> ends_netloc c) (drop 2 r1)" by (auto simp: split_netloc_def split: if_splits)
  then have r1: "r1 = ''//'' @ netloc @ r2" by (metis append_take_drop_id takeWhile_dropWhile_id)
  have no: "set netloc \<inter> {CHR ''/'', CHR ''?'', CHR ''#''} = {}"
    unfolding n(1) by (auto simp: ends_netloc_def dest: set_takeWhileD)
  have hd: "r2 = [] \<or> ends_netloc (hd r2)" using hd_dropWhile [of "\<lambda>c. \<not> ends_netloc c" "drop 2 r1"] n(2) by blast
  from cut_at_parts [OF 3] obtain fragment where f: "r2 = r3 @ fragment" "CHR ''#'' \<notin> set r3" "fragment = [] \<or> hd fragment = CHR ''#''" by blast
  from cut_at_parts [OF 4] obtain query where q: "r3 = path @ query" "q = drop 1 query" "CHR ''?'' \<notin> set path"
    "query = [] \<or> hd query = CHR ''?''" by blast
  have "path = [] \<or> hd path = CHR ''/''"
    using hd f q by (cases path) (auto simp: ends_netloc_def)
  moreover have "url_text s = scheme @ ''://'' @ netloc @ path @ query @ fragment" using t(1) r1 f(1) q(1) by simp
  moreover have "set path \<inter> {CHR ''?'', CHR ''#''} = {}" and "CHR ''#'' \<notin> set query" using f(2) q(1,3) by auto
  moreover have "netloc \<noteq> []" using assms(3) u(2) by simp
  ultimately have "web_address netloc query (url_text s)"
    unfolding web_address_def using sc [unfolded t(2)] no q(4) f(3)
    by (intro exI [of _ scheme] exI [of _ path] exI [of _ fragment] conjI) assumption+
  with u q(2) show ?thesis by auto
qed

text \<open>The pieces of a query are its fields.\<close>

lemma split_ampersand_plain: "CHR ''&'' \<notin> set f \<Longrightarrow> split_ampersand f = [f]"
  by (induction f) auto

lemma split_ampersand_append: "CHR ''&'' \<notin> set f \<Longrightarrow> split_ampersand (f @ CHR ''&'' # r) = f # split_ampersand r"
  by (induction f) auto

lemma split_ampersand_join: "split_ampersand (a @ CHR ''&'' # r) = split_ampersand a @ split_ampersand r"
proof (induction a)
  case (Cons c a)
  have "split_ampersand a \<noteq> []" by (cases a) (auto split: list.splits)
  with Cons show ?case by (auto split: list.splits)
qed simp

lemma split_ampersand_fields: "f \<in> set (split_ampersand q) \<Longrightarrow> query_field f (CHR ''?'' # q)"
proof (induction "length q" arbitrary: q rule: less_induct)
  case less
  show ?case
  proof (cases "CHR ''&'' \<in> set q")
    case False
    with less.prems have "f = q" by (simp add: split_ampersand_plain)
    with False show ?thesis unfolding query_field_def
      by (intro exI [of _ "[]"] exI [of _ "CHR ''?''"]) simp
  next
    case True
    then obtain b r where q: "q = b @ CHR ''&'' # r" "CHR ''&'' \<notin> set b" by (meson split_list_first)
    with less.prems consider "f = b" | "f \<in> set (split_ampersand r)" by (auto simp: split_ampersand_append)
    then show ?thesis
    proof cases
      case 1
      with q show ?thesis unfolding query_field_def
        by (intro exI [of _ "[]"] exI [of _ "CHR ''?''"] exI [of _ "CHR ''&'' # r"]) simp
    next
      case 2
      have "length r < length q" using q(1) by simp
      from less.hyps [OF this 2] obtain before c after where
        f: "CHR ''?'' # r = before @ c # f @ after" "before = [] \<or> c = CHR ''&''" "after = [] \<or> hd after = CHR ''&''" "CHR ''&'' \<notin> set f"
        unfolding query_field_def by blast
      show ?thesis
      proof (cases before)
        case Nil
        with f have "CHR ''?'' # q = (CHR ''?'' # b) @ CHR ''&'' # f @ after" using q(1) by simp
        with f(3,4) show ?thesis unfolding query_field_def by blast
      next
        case (Cons x before')
        with f have "CHR ''?'' # q = (CHR ''?'' # b @ CHR ''&'' # before') @ c # f @ after" and "c = CHR ''&''" using q(1) by simp_all
        with f(3,4) show ?thesis unfolding query_field_def by blast
      qed
    qed
  qed
qed

lemma query_field_iff:
  assumes "query = [] \<or> hd query = CHR ''?''"
  shows "query_field f query \<longleftrightarrow> query \<noteq> [] \<and> f \<in> set (split_ampersand (drop 1 query))"
proof
  assume "query_field f query"
  then obtain before c after where f: "query = before @ c # f @ after" "before = [] \<or> c = CHR ''&''"
    "after = [] \<or> hd after = CHR ''&''" "CHR ''&'' \<notin> set f" unfolding query_field_def by blast
  have "f \<in> set (split_ampersand (f @ after))"
    using f(3,4) by (cases after) (auto simp: split_ampersand_plain split_ampersand_append)
  then have "f \<in> set (split_ampersand (drop 1 query))"
    using f(1,2) by (cases before) (auto simp: split_ampersand_join)
  with f(1) show "query \<noteq> [] \<and> f \<in> set (split_ampersand (drop 1 query))" by simp
next
  assume "query \<noteq> [] \<and> f \<in> set (split_ampersand (drop 1 query))"
  then show "query_field f query" using split_ampersand_fields assms by (cases query) auto
qed

lemma query_keys_words:
  assumes "query = [] \<or> hd query = CHR ''?''" and "[] \<notin> words"
  shows "(\<exists>k \<in> set (query_keys (drop 1 query)). names_credential words k)
    \<longleftrightarrow> (\<exists>field. query_field field query \<and> names_credential words (unquote_plus (takeWhile (\<lambda>c. c \<noteq> CHR ''='') field)))"
proof -
  have e: "\<not> names_credential words []" using assms(2) by (auto simp: names_credential_def elim: spells.cases)
  then show ?thesis
    unfolding query_keys_def query_field_iff [OF assms(1)] by (cases query) force+
qed

lemma url_iff_credential: "credential_url host_ok s \<longleftrightarrow> credential_text host_ok s"
proof -
  have w: "list_ex (\<lambda>k. list_ex (\<lambda>p. contains_text p (squeezed k)) query_fragments) ks
      \<longleftrightarrow> (\<exists>k \<in> set ks. names_credential (insert ''token'' credential_words) k)" for ks
    by (auto simp: list_ex_iff names_credential_iff query_fragments_def credential_words_def)
  have nil: "[] \<notin> insert ''token'' credential_words" by (simp add: credential_words_def)
  note words = query_keys_words [OF _ nil]
  show ?thesis
  proof
    assume "credential_url host_ok s"
    then obtain u where u: "urlsplit host_ok s = Some u" "ur_scheme u = ''http'' \<or> ur_scheme u = ''https''" "ur_netloc u \<noteq> []"
      and c: "has_userinfo u \<or> (\<exists>k \<in> set (query_keys (ur_query u)). names_credential (insert ''token'' credential_words) k)"
      by (auto simp: credential_url_def w split: option.splits)
    from urlsplit_parts [OF u] obtain query where q: "web_address (ur_netloc u) query (url_text s)" "ur_query u = drop 1 query"
      "host_ok (ur_netloc u)" by blast
    from q(1) have "query = [] \<or> hd query = CHR ''?''" unfolding web_address_def by blast
    from c [unfolded q(2) words [OF this] has_userinfo_def] q(1,3)
    show "credential_text host_ok s" unfolding credential_text_def by blast
  next
    assume "credential_text host_ok s"
    then obtain netloc query where q: "web_address netloc query (url_text s)" "host_ok netloc"
      and c: "CHR ''@'' \<in> set netloc \<or> (\<exists>field. query_field field query
             \<and> names_credential (insert ''token'' credential_words) (unquote_plus (takeWhile (\<lambda>c. c \<noteq> CHR ''='') field)))"
      unfolding credential_text_def by blast
    from q(1) have "query = [] \<or> hd query = CHR ''?''" unfolding web_address_def by blast
    note c = c [folded words [OF this]]
    from urlsplit_web_address [OF q(1), of host_ok] q(2) c show "credential_url host_ok s"
      by (auto simp: credential_url_def w has_userinfo_def)
  qed
qed

section \<open>What is left is clean\<close>

lemma redacted_url_clean [simp]: "\<not> credential_text host_ok redacted_url"
proof -
  have "fst (split_scheme (url_text redacted_url)) = []" by code_simp
  then have "\<not> credential_url host_ok redacted_url" by (auto simp: credential_url_def urlsplit_def Let_def split: prod.splits)
  then show ?thesis by (simp add: url_iff_credential)
qed

lemma sanitize_json_clean: "credential_free host_ok (sanitize_json host_ok v)"
proof (induction v)
  case (PDict d)
  show ?case
    by (auto simp: list_all_iff sensitive_iff_credential intro: PDict.IH)
      (metis PDict.IH prod_set_simps(2) singletonI snd_conv snds.intros)
qed (auto simp: sanitize_string_def url_iff_credential list_all_iff)

lemma credential_free_fixed: "credential_free host_ok v \<Longrightarrow> sanitize_json host_ok v = v"
proof (induction v)
  case (PList xs)
  then show ?case by (auto simp: list_all_iff intro: map_idI)
next
  case (PDict d)
  have "(case e of (k, v) \<Rightarrow> (k, if is_sensitive_key k then PStr redacted else sanitize_json host_ok v)) = e" if "e \<in> set d" for e
  proof (cases e)
    case (Pair k v)
    with PDict that show ?thesis by (auto simp: list_all_iff sensitive_iff_credential)
  qed
  then show ?case by (simp add: map_idI)
qed (auto simp: sanitize_string_def url_iff_credential)

lemma map_eq_list_all2: "list_all2 (\<lambda>x y. f x = f y) xs ys \<Longrightarrow> map f xs = map f ys"
  by (induction rule: list_all2_induct) simp_all

lemma sanitize_hides: "same_but_credentials host_ok v w \<Longrightarrow> sanitize_json host_ok v = sanitize_json host_ok w"
proof (induction rule: same_but_credentials.induct)
  case (same_dict d e)
  let ?f = "\<lambda>(k, v). (k, if is_sensitive_key k then PStr redacted else sanitize_json host_ok v)"
  from same_dict have "list_all2 (\<lambda>x y. ?f x = ?f y) d e"
    by (rule list_all2_mono) (auto simp: sensitive_iff_credential)
  from map_eq_list_all2 [OF this] show ?case by simp
qed (auto simp: sanitize_string_def url_iff_credential intro!: map_eq_list_all2 elim!: list_all2_mono)

section \<open>Properties\<close>

text \<open>
  C29: Redaction hides credentials, as the section on what a credential is defines them, and nothing
  else.  In its result no entry under a key that names a credential keeps its value, no text is a web
  address with user information or with a query field that names one, and no float is infinite or
  undefined.  Two values that differ in their credentials only become the same value, so nothing of
  a credential reaches what is stored.  A value without credentials is not changed.
\<close>

theorem sanitized_json_is_clean:
  "credential_free host_ok (sanitize_json host_ok v)
     \<and> (same_but_credentials host_ok v w \<longrightarrow> sanitize_json host_ok v = sanitize_json host_ok w)
     \<and> (credential_free host_ok v \<longrightarrow> sanitize_json host_ok v = v)"
  using sanitize_json_clean sanitize_hides credential_free_fixed by blast

definition sample_audit :: "string \<Rightarrow> string \<Rightarrow> pyval" where
  "sample_audit key url = PDict [(''X-Api-Key'', PStr key), (''input_tokens'', PInt 5), (''attempts'', PList [PStr url, PStr ''ok''])]"

theorem sanitized_json_is_clean_witness:
  "sanitize_json (\<lambda>h. True) (sample_audit ''k1'' ''https://u:p@h/v1'') = sanitize_json (\<lambda>h. True) (sample_audit ''k2'' ''HTTP://h/?a=1&access%5Ftoken=t'')
   \<and> sanitize_json (\<lambda>h. True) (sample_audit redacted ''https://h/v1?page=2'') = sample_audit redacted ''https://h/v1?page=2''
   \<and> \<not> same_but_credentials (\<lambda>h. True) (sample_audit ''k1'' ''a'') (sample_audit ''k1'' ''b'')"
proof (intro conjI)
  have k: "credential_key ''X-Api-Key''" "\<not> credential_key ''input_tokens''" "\<not> credential_key ''attempts''"
    unfolding sensitive_iff_credential [symmetric] by code_simp+
  have t: "credential_text (\<lambda>h. True) ''https://u:p@h/v1''" "credential_text (\<lambda>h. True) ''HTTP://h/?a=1&access%5Ftoken=t''"
    "\<not> credential_text (\<lambda>h. True) ''https://h/v1?page=2''" "\<not> credential_text (\<lambda>h. True) ''ok''"
    "\<not> credential_text (\<lambda>h. True) ''a''"
    unfolding url_iff_credential [symmetric] by code_simp+
  have "same_but_credentials (\<lambda>h. True) (sample_audit ''k1'' ''https://u:p@h/v1'') (sample_audit ''k2'' ''HTTP://h/?a=1&access%5Ftoken=t'')"
    unfolding sample_audit_def using k(1) t(1,2) by (auto intro!: same_dict same_list same_value same_text)
  then show "sanitize_json (\<lambda>h. True) (sample_audit ''k1'' ''https://u:p@h/v1'') = sanitize_json (\<lambda>h. True) (sample_audit ''k2'' ''HTTP://h/?a=1&access%5Ftoken=t'')"
    by (rule sanitized_json_is_clean [THEN conjunct2, THEN conjunct1, rule_format])
  have "credential_free (\<lambda>h. True) (sample_audit redacted ''https://h/v1?page=2'')"
    using k t(3,4) by (simp add: sample_audit_def)
  then show "sanitize_json (\<lambda>h. True) (sample_audit redacted ''https://h/v1?page=2'') = sample_audit redacted ''https://h/v1?page=2''"
    by (rule sanitized_json_is_clean [THEN conjunct2, THEN conjunct2, rule_format])
  show "\<not> same_but_credentials (\<lambda>h. True) (sample_audit ''k1'' ''a'') (sample_audit ''k1'' ''b'')"
    using k(3) t(5) by (auto simp: sample_audit_def elim!: same_but_credentials.cases)
qed

end
