(* ===== verification/Prompt_Profiles.thy ===== *)
theory Prompt_Profiles
  imports Canonical_Json Audit_Json Labels
begin

text \<open>
  Prompt templates and inference profiles, \<^verbatim>\<open>domain/analysis/prompt.py\<close> and \<^verbatim>\<open>profiles.py\<close>, with the
  checks of their constructors, the placeholders of a template and its rendering.

  The two regular expressions of \<^verbatim>\<open>prompt.py\<close> match at a position exactly when the text goes on
  with \<open>{{\<close>, a non-empty run of other characters than braces and \<open>}}\<close>; the variable pattern
  also wants the run to be a name between white space.
\<close>

section \<open>Placeholders\<close>

definition open_braces :: string where "open_braces = [CHR ''{'', CHR ''{'']"
definition close_braces :: string where "close_braces = [CHR ''}'', CHR ''}'']"

definition brace :: "char \<Rightarrow> bool" where
  "brace c = (c = CHR ''{'' \<or> c = CHR ''}'')"

text \<open>The body of the placeholder at the start of a text, and the text after it.\<close>

definition placeholder_at :: "string \<Rightarrow> (string \<times> string) option" where
  "placeholder_at s =
     (let body = takeWhile (\<lambda>c. \<not> brace c) (drop 2 s); rest = dropWhile (\<lambda>c. \<not> brace c) (drop 2 s)
      in if take 2 s = open_braces \<and> body \<noteq> [] \<and> take 2 rest = close_braces then Some (body, drop 2 rest) else None)"

lemma placeholder_at_Some:
  assumes "placeholder_at s = Some (body, rest)"
  shows "s = open_braces @ body @ close_braces @ rest" "length rest < length s"
proof -
  let ?r = "dropWhile (\<lambda>c. \<not> brace c) (drop 2 s)"
  from assms have a: "take 2 s = open_braces" "body = takeWhile (\<lambda>c. \<not> brace c) (drop 2 s)"
      "take 2 ?r = close_braces" "rest = drop 2 ?r"
    by (simp_all add: placeholder_at_def Let_def split: if_splits)
  have "s = take 2 s @ (takeWhile (\<lambda>c. \<not> brace c) (drop 2 s) @ ?r)" by simp
  also have "?r = close_braces @ rest" using a(3,4) by (metis append_take_drop_id)
  finally show "s = open_braces @ body @ close_braces @ rest" using a(1,2) by simp
  then show "length rest < length s" by (simp add: open_braces_def)
qed

function placeholders :: "string \<Rightarrow> string list" where
  "placeholders s =
     (case placeholder_at s of
        Some (body, rest) \<Rightarrow> body # placeholders rest
      | None \<Rightarrow> (case s of [] \<Rightarrow> [] | c # cs \<Rightarrow> placeholders cs))"
  by pat_completeness auto
termination by (relation "measure length") (auto dest: placeholder_at_Some(2))

declare placeholders.simps [simp del]

definition variables :: "string \<Rightarrow> string list" where
  "variables s = map py_strip (filter (\<lambda>b. word_ident (py_strip b)) (placeholders s))"

definition allowed_prompt_variables :: "string list" where
  "allowed_prompt_variables =
     [''label_definitions'', ''message_text'', ''asset_manifest'', ''previous_results'', ''source_channel_context'']"

definition template_variables :: "string \<Rightarrow> string list result" where
  "template_variables t =
     (if contains_text ''{%'' t \<or> contains_text ''{#'' t
      then fail ''prompt control blocks and comments are not supported''
      else if length (placeholders t) \<noteq> length (variables t)
      then fail ''prompt placeholders must contain only a variable name'' else Inr (variables t))"

definition referenced_variables :: "string list \<Rightarrow> string list result" where
  "referenced_variables templates =
     try_bind (traverse template_variables templates) (\<lambda>vs.
       if \<not> set (concat vs) \<subseteq> set allowed_prompt_variables
       then fail ''prompt references unsupported variables'' else Inr (concat vs))"

section \<open>Prompt templates\<close>

record prompt_template =
  pt_version_id :: string
  pt_prompt_template_id :: string
  pt_version_number :: int
  pt_system_prompt :: string
  pt_user_prompt_template :: string
  pt_declared_variables :: "string list"
  pt_status :: version_status

definition check_prompt_template :: "prompt_template \<Rightarrow> prompt_template result" where
  "check_prompt_template p =
     try_bind (validate_non_blank (pt_version_id p)) (\<lambda>version_id.
     try_bind (validate_non_blank (pt_prompt_template_id p)) (\<lambda>template_id.
     try_bind (validate_positive_int (pt_version_number p)) (\<lambda>_.
       if blank (pt_system_prompt p) \<and> blank (pt_user_prompt_template p)
       then fail ''at least one prompt template must not be blank''
       else if \<not> distinct (pt_declared_variables p) then fail ''declared_variables cannot contain duplicates''
       else if \<not> set (pt_declared_variables p) \<subseteq> set allowed_prompt_variables
       then fail ''prompt declares unsupported variables''
       else try_bind (referenced_variables [pt_system_prompt p, pt_user_prompt_template p]) (\<lambda>referenced.
         if set referenced \<noteq> set (pt_declared_variables p)
         then fail ''prompt declared variables must exactly match template references''
         else Inr (p\<lparr>pt_version_id := version_id, pt_prompt_template_id := template_id\<rparr>)))))"

section \<open>Rendering\<close>

function substitute :: "(string \<Rightarrow> string) \<Rightarrow> string \<Rightarrow> string" where
  "substitute f s =
     (case placeholder_at s of
        Some (body, rest) \<Rightarrow>
          if word_ident (py_strip body) then f (py_strip body) @ substitute f rest
          else (case s of [] \<Rightarrow> [] | c # cs \<Rightarrow> c # substitute f cs)
      | None \<Rightarrow> (case s of [] \<Rightarrow> [] | c # cs \<Rightarrow> c # substitute f cs))"
  by pat_completeness auto
termination by (relation "measure (\<lambda>(f, s). length s)") (auto dest: placeholder_at_Some(2))

declare substitute.simps [simp del]

definition render_template :: "(string, string) dict \<Rightarrow> string \<Rightarrow> string result" where
  "render_template replacements t =
     (let rendered = substitute (\<lambda>v. case map_of replacements v of Some r \<Rightarrow> r | None \<Rightarrow> []) t
      in if \<exists>v \<in> set (variables t). map_of replacements v = None then Inl KeyError
         else if placeholders rendered \<noteq> [] then fail ''prompt contains an unresolved placeholder'' else Inr rendered)"

definition render_value :: "(rat \<Rightarrow> string) \<Rightarrow> pyval \<Rightarrow> string result" where
  "render_value float_text v = (case v of PStr s \<Rightarrow> Inr s | _ \<Rightarrow> canonical_json float_text v)"

record rendered_prompt =
  rp_system_prompt :: string
  rp_user_prompt :: string

definition render_prompt :: "(rat \<Rightarrow> string) \<Rightarrow> prompt_template \<Rightarrow> (string, pyval) dict \<Rightarrow> rendered_prompt result" where
  "render_prompt float_text p values =
     (if set (map fst values) \<noteq> set (pt_declared_variables p)
      then fail ''prompt values must exactly match declared variables''
      else try_bind (traverse (\<lambda>k. try_bind (render_value float_text (the (map_of values k))) (\<lambda>r. Inr (k, r)))
             (pt_declared_variables p)) (\<lambda>replacements.
        try_bind (render_template replacements (pt_system_prompt p)) (\<lambda>system.
        try_bind (render_template replacements (pt_user_prompt_template p)) (\<lambda>user.
          Inr \<lparr>rp_system_prompt = system, rp_user_prompt = user\<rparr>))))"

section \<open>Inference profiles\<close>

record inference_profile =
  ip_version_id :: string
  ip_inference_profile_id :: string
  ip_version_number :: int
  ip_provider_adapter :: string
  ip_base_url :: string
  ip_model_name :: string
  ip_api_secret_reference :: string
  ip_capabilities :: "string list"
  ip_timeout_seconds :: pyval
  ip_max_concurrency :: int
  ip_max_images :: int
  ip_max_input_tokens :: int
  ip_structured_output_support :: bool
  ip_sampling_parameters :: "(string, pyval) dict"
  ip_status :: version_status

definition parameter_fragments :: "string list" where
  "parameter_fragments = [''secret'', ''password'', ''api_key'', ''apikey'', ''authorization'']"

definition secret_parameter :: "string \<Rightarrow> bool" where
  "secret_parameter key = list_ex (\<lambda>p. contains_text p (map lower_char key)) parameter_fragments"

definition base_url_of :: "(string \<Rightarrow> bool) \<Rightarrow> string \<Rightarrow> string result" where
  "base_url_of host_ok s =
     try_bind (validate_non_blank s) (\<lambda>t.
       let base = rev (dropWhile (\<lambda>c. c = CHR ''/'') (rev t))
       in case urlsplit host_ok base of
            None \<Rightarrow> Inl ValueError
          | Some u \<Rightarrow>
              if ur_scheme u \<notin> {''http'', ''https''} \<or> ur_netloc u = []
              then fail ''inference base_url must be an absolute HTTP(S) URL'' else Inr base)"

definition check_inference_profile :: "(string \<Rightarrow> bool) \<Rightarrow> inference_profile \<Rightarrow> inference_profile result" where
  "check_inference_profile host_ok p =
     try_bind (validate_non_blank (ip_version_id p)) (\<lambda>version_id.
     try_bind (validate_non_blank (ip_inference_profile_id p)) (\<lambda>profile_id.
     try_bind (validate_positive_int (ip_version_number p)) (\<lambda>_.
     try_bind (validate_identifier (ip_provider_adapter p)) (\<lambda>adapter.
     try_bind (base_url_of host_ok (ip_base_url p)) (\<lambda>base_url.
     try_bind (validate_non_blank (ip_model_name p)) (\<lambda>model_name.
     try_bind (validate_non_blank (ip_api_secret_reference p)) (\<lambda>reference.
     try_bind (traverse validate_identifier (ip_capabilities p)) (\<lambda>capabilities.
       if \<not> distinct capabilities then fail ''inference capabilities cannot contain duplicates''
       else if (case num_val (ip_timeout_seconds p) of None \<Rightarrow> True | Some t \<Rightarrow> fl_le t (Fin 0))
       then fail ''inference timeout_seconds must be positive''
       else
     try_bind (validate_positive_int (ip_max_concurrency p)) (\<lambda>_.
     try_bind (validate_positive_int (ip_max_images p)) (\<lambda>_.
     try_bind (validate_positive_int (ip_max_input_tokens p)) (\<lambda>_.
     try_bind (require_json_object (PDict (ip_sampling_parameters p))) (\<lambda>parameters.
       if list_ex (\<lambda>(k, v). secret_parameter k) parameters
       then fail ''sampling parameters cannot contain secrets''
       else Inr (p\<lparr>ip_version_id := version_id, ip_inference_profile_id := profile_id,
         ip_provider_adapter := adapter, ip_base_url := base_url, ip_model_name := model_name,
         ip_api_secret_reference := reference, ip_capabilities := capabilities,
         ip_sampling_parameters := parameters\<rparr>)))))))))))))"

section \<open>Properties\<close>

lemma placeholders_occur:
  assumes "body \<noteq> []" and "\<forall>c \<in> set body. \<not> brace c"
  shows "placeholders (a @ open_braces @ body @ close_braces @ b) \<noteq> []"
proof (induction a)
  case Nil
  have "placeholder_at (open_braces @ body @ close_braces @ b) = Some (body, b)"
    using assms by (simp add: placeholder_at_def Let_def open_braces_def close_braces_def brace_def takeWhile_append2 dropWhile_append2)
  then show ?case by (subst placeholders.simps) simp
next
  case (Cons c a)
  then show ?case by (subst placeholders.simps) (auto split: option.split)
qed

lemma no_placeholders [simp]: "placeholders [] = []"
  by (subst placeholders.simps) (simp add: placeholder_at_def open_braces_def)

text \<open>In an accepted template every placeholder is a variable.\<close>

lemma substitute_contains:
  "v \<in> set (variables t) \<Longrightarrow> \<forall>b \<in> set (placeholders t). word_ident (py_strip b) \<Longrightarrow> \<exists>a b. substitute f t = a @ f v @ b"
proof (induction t rule: placeholders.induct)
  case (1 s)
  show ?case
  proof (cases "placeholder_at s")
    case None
    then obtain c cs where s: "s = c # cs" using 1(3) by (cases s) (simp_all add: variables_def)
    have ps: "placeholders s = placeholders cs" by (subst placeholders.simps) (simp add: None [unfolded s] s)
    have "v \<in> set (variables cs)" "\<forall>b \<in> set (placeholders cs). word_ident (py_strip b)"
      using 1(3,4) by (simp_all add: variables_def ps)
    with 1(1) [OF None s] obtain a b where "substitute f cs = a @ f v @ b" by blast
    then have "substitute f s = (c # a) @ f v @ b" by (subst substitute.simps) (simp add: None [unfolded s] s)
    then show ?thesis by blast
  next
    case (Some e)
    obtain body rest where e: "e = (body, rest)" by (cases e)
    have ps: "placeholders s = body # placeholders rest" by (subst placeholders.simps) (simp add: Some e)
    with 1(4) have body: "word_ident (py_strip body)" and rest: "\<forall>b \<in> set (placeholders rest). word_ident (py_strip b)" by simp_all
    have step: "substitute f s = f (py_strip body) @ substitute f rest" by (subst substitute.simps) (simp add: Some e body)
    show ?thesis
    proof (cases "v = py_strip body")
      case True
      with step have "substitute f s = [] @ f v @ substitute f rest" by simp
      then show ?thesis by blast
    next
      case False
      with ps 1(3) have "v \<in> set (variables rest)" by (simp add: variables_def body)
      with 1(2) [OF Some e [symmetric]] rest obtain a b where "substitute f rest = a @ f v @ b" by blast
      with step have "substitute f s = (f (py_strip body) @ a) @ f v @ b" by simp
      then show ?thesis by blast
    qed
  qed
qed

lemma accepted_template:
  assumes "template_variables t = Inr vs"
  shows "vs = variables t" "\<forall>b \<in> set (placeholders t). word_ident (py_strip b)"
proof -
  from assms have "length (filter (\<lambda>b. word_ident (py_strip b)) (placeholders t)) = length (placeholders t)"
    by (simp add: template_variables_def variables_def split: if_splits)
  with length_filter_less [of _ "placeholders t" "\<lambda>b. word_ident (py_strip b)"]
  show "\<forall>b \<in> set (placeholders t). word_ident (py_strip b)" by force
  from assms show "vs = variables t" by (simp add: template_variables_def split: if_splits)
qed

lemma render_template_blocked:
  assumes "template_variables t = Inr vs" "v \<in> set vs" "\<forall>u \<in> set vs. map_of replacements u \<noteq> None"
    and "map_of replacements v = Some (a @ open_braces @ body @ close_braces @ b)" "body \<noteq> []" "\<forall>c \<in> set body. \<not> brace c"
  shows "render_template replacements t = fail ''prompt contains an unresolved placeholder''"
proof -
  let ?f = "\<lambda>v. case map_of replacements v of Some r \<Rightarrow> r | None \<Rightarrow> []"
  note t = accepted_template [OF assms(1)]
  from substitute_contains [OF assms(2) [unfolded t(1)] t(2), of ?f] obtain x y
    where s: "substitute ?f t = x @ (a @ open_braces @ body @ close_braces @ b) @ y" using assms(4) by auto
  from placeholders_occur [OF assms(5,6), of "x @ a" "b @ y"] have "placeholders (substitute ?f t) \<noteq> []" by (simp add: s)
  moreover have "\<not> (\<exists>u \<in> set (variables t). map_of replacements u = None)" using assms(3) by (simp add: t(1))
  ultimately show ?thesis unfolding render_template_def Let_def by (simp only: if_False if_True not_False_eq_True)
qed

lemma render_template_total:
  assumes "template_variables t = Inr vs" "\<forall>u \<in> set vs. map_of replacements u \<noteq> None"
  shows "(\<exists>r. render_template replacements t = Inr r) \<or> render_template replacements t = fail ''prompt contains an unresolved placeholder''"
  using assms(2) accepted_template(1) [OF assms(1)] by (auto simp: render_template_def Let_def)

lemma render_value_total: "(\<exists>r. render_value ft v = Inr r) \<or> (\<exists>m. render_value ft v = fail m)"
  by (auto simp: render_value_def canonical_json_def fail_def split: pyval.splits option.splits)

lemma replacements_total:
  assumes "\<And>k. (\<exists>r. g k = Inr r) \<or> (\<exists>m. g k = fail m)"
  shows "(\<exists>m. traverse (\<lambda>k. try_bind (g k) (\<lambda>r. Inr (k, r))) ks = fail m)
    \<or> (\<exists>rs. traverse (\<lambda>k. try_bind (g k) (\<lambda>r. Inr (k, r))) ks = Inr rs \<and> (\<forall>k \<in> set ks. \<exists>t. map_of rs k = Some t \<and> g k = Inr t))"
proof (induction ks)
  case (Cons k ks)
  from assms [of k] show ?case
  proof (elim disjE exE)
    fix r assume "g k = Inr r"
    with Cons.IH show ?thesis by (elim disjE exE conjE) (simp_all, blast+)
  qed (simp, blast)
qed simp

text \<open>
  C31: A text that contains a placeholder cannot be analysed: if the value of a variable of an
  accepted prompt template has anything between double braces, the rendering raises, whatever the
  template, since the check for unresolved placeholders reads the substituted values too.
\<close>

theorem braces_in_values_block_rendering:
  assumes "check_prompt_template p = Inr p'" and "v \<in> set (pt_declared_variables p)"
    and "map_of values v = Some (PStr (a @ open_braces @ body @ close_braces @ b))"
    and "body \<noteq> []" "\<forall>c \<in> set body. \<not> brace c"
  shows "\<exists>m. render_prompt ft p values = fail m"
proof (cases "set (map fst values) = set (pt_declared_variables p)")
  case False
  then show ?thesis by (auto simp: render_prompt_def)
next
  case keys: True
  let ?r = "traverse (\<lambda>k. try_bind (render_value ft (the (map_of values k))) (\<lambda>r. Inr (k, r))) (pt_declared_variables p)"
  from assms(1) obtain vs us where vs: "template_variables (pt_system_prompt p) = Inr vs"
      "template_variables (pt_user_prompt_template p) = Inr us" "set vs \<union> set us = set (pt_declared_variables p)"
    by (auto simp: check_prompt_template_def referenced_variables_def result_simps split: if_splits elim!: try_bindE)
  from replacements_total [of "\<lambda>k. render_value ft (the (map_of values k))" "pt_declared_variables p"] render_value_total
  consider m where "?r = fail m"
    | rs where "?r = Inr rs" "\<forall>k \<in> set (pt_declared_variables p). \<exists>t. map_of rs k = Some t \<and> render_value ft (the (map_of values k)) = Inr t"
    by blast
  then show ?thesis
  proof cases
    case 1
    with keys show ?thesis by (auto simp: render_prompt_def)
  next
    case (2 rs)
    from 2(2) assms(2) have v: "map_of rs v = Some (a @ open_braces @ body @ close_braces @ b)"
      by (auto simp: assms(3) render_value_def)
    have all: "\<forall>u \<in> set vs. map_of rs u \<noteq> None" "\<forall>u \<in> set us. map_of rs u \<noteq> None" using 2(2) vs(3) by fastforce+
    note blocked = render_template_blocked [OF _ _ _ v assms(4,5)]
    have "(\<exists>m. render_template rs (pt_system_prompt p) = fail m) \<or> (\<exists>m. render_template rs (pt_user_prompt_template p) = fail m)"
      using assms(2) vs(3) blocked [OF vs(1) _ all(1)] blocked [OF vs(2) _ all(2)] by blast
    with render_template_total [OF vs(1) all(1)] 2(1) keys show ?thesis by (auto simp: render_prompt_def)
  qed
qed

definition sample_prompt :: prompt_template where
  "sample_prompt = \<lparr>pt_version_id = ''v1'', pt_prompt_template_id = ''t1'', pt_version_number = 1, pt_system_prompt = ''Classify.'',
     pt_user_prompt_template = ''Text: {{ message_text }}'', pt_declared_variables = [''message_text''], pt_status = PUBLISHED\<rparr>"

theorem braces_in_values_block_rendering_witness:
  "check_prompt_template sample_prompt = Inr sample_prompt
   \<and> render_prompt (\<lambda>q. []) sample_prompt [(''message_text'', PStr ''win big'')] = Inr \<lparr>rp_system_prompt = ''Classify.'', rp_user_prompt = ''Text: win big''\<rparr>
   \<and> (\<exists>m. render_prompt (\<lambda>q. []) sample_prompt [(''message_text'', PStr ''win {{ big }}'')] = fail m)"
proof -
  have c: "check_prompt_template sample_prompt = Inr sample_prompt" by code_simp
  moreover have "render_prompt (\<lambda>q. []) sample_prompt [(''message_text'', PStr ''win big'')] = Inr \<lparr>rp_system_prompt = ''Classify.'', rp_user_prompt = ''Text: win big''\<rparr>"
    by code_simp
  moreover have "\<exists>m. render_prompt (\<lambda>q. []) sample_prompt [(''message_text'', PStr ''win {{ big }}'')] = fail m"
    by (rule braces_in_values_block_rendering [OF c, of "''message_text''" _ "''win ''" "'' big ''" "[]"])
      (simp_all add: sample_prompt_def open_braces_def close_braces_def brace_def)
  ultimately show ?thesis by blast
qed

end
