(* ===== verification/Pipeline.thy ===== *)
theory Pipeline
  imports Pipeline_Graph Prompt_Profiles Routing_DSL Result_Validator
begin

text \<open>
  Versioned analysis pipelines: stage templates with their publication checks
  (\<^verbatim>\<open>tgcurator/domain/analysis/stages.py\<close>), run conditions (\<^verbatim>\<open>conditions.py\<close>), nodes and
  pipeline versions (\<^verbatim>\<open>pipeline.py\<close>).
\<close>

section \<open>Stage templates\<close>

datatype cache_policy = CACHE_NONE | CACHE_MESSAGE | CACHE_MESSAGE_VISUAL | CACHE_ASSET

datatype visual_composition_policy = RAW | CONTACT_SHEET | ADAPTIVE

record stage_input_policy =
  si_text :: bool
  si_telegram_metadata :: bool
  si_media :: bool
  si_previous_results :: bool
  si_source_channel_context :: bool

definition check_stage_input_policy :: "stage_input_policy \<Rightarrow> stage_input_policy result" where
  "check_stage_input_policy p =
     (if \<not> (si_text p \<or> si_telegram_metadata p \<or> si_media p \<or> si_previous_results p
          \<or> si_source_channel_context p)
      then fail ''stage input policy must enable at least one input'' else Inr p)"

definition available_prompt_variables :: "stage_input_policy \<Rightarrow> string list" where
  "available_prompt_variables p =
     ''label_definitions''
     # (if si_text p then [''message_text''] else [])
     @ (if si_media p then [''asset_manifest''] else [])
     @ (if si_previous_results p then [''previous_results''] else [])
     @ (if si_source_channel_context p \<or> si_telegram_metadata p then [''source_channel_context''] else [])"

record stage_retry_policy =
  sr_max_attempts :: int
  sr_base_delay_seconds :: int
  sr_max_delay_seconds :: int

definition check_stage_retry_policy :: "stage_retry_policy \<Rightarrow> stage_retry_policy result" where
  "check_stage_retry_policy p =
     try_bind (validate_positive_int (sr_max_attempts p)) (\<lambda>_.
     try_bind (validate_positive_int (sr_base_delay_seconds p)) (\<lambda>_.
     try_bind (validate_positive_int (sr_max_delay_seconds p)) (\<lambda>_.
       if sr_max_delay_seconds p < sr_base_delay_seconds p
       then fail ''stage max delay cannot be less than base delay'' else Inr p)))"

record analysis_stage_template_version =
  st_version_id :: string
  st_stage_template_id :: string
  st_version_number :: int
  st_name :: string
  st_target_scope :: label_scope
  st_execution_mode :: execution_mode
  st_prompt :: prompt_template
  st_label_set :: label_set_version
  st_structured_output_policy :: structured_output_policy
  st_input_policy :: stage_input_policy
  st_visual_composition_policy :: visual_composition_policy
  st_inference_profile :: inference_profile
  st_cache_policy :: cache_policy
  st_timeout_seconds :: pyval
  st_retry_policy :: stage_retry_policy
  st_max_batch_size :: int
  st_max_concurrency :: int
  st_status :: version_status

text \<open>The checks on the combination of fields, in the order of \<^verbatim>\<open>__post_init__\<close>.\<close>

definition check_stage_consistency :: "analysis_stage_template_version \<Rightarrow> unit result" where
  "check_stage_consistency s =
     (if st_target_scope s = GLOBAL \<and> st_execution_mode s \<notin> {BATCH_MESSAGES, SINGLE_MESSAGE}
      then fail ''GLOBAL stages require a message execution mode''
      else if st_target_scope s = MEDIA \<and> st_execution_mode s \<notin> {PER_ASSET, BATCH_ASSETS}
      then fail ''MEDIA stages require an asset execution mode''
      else if st_execution_mode s \<in> {SINGLE_MESSAGE, PER_ASSET} \<and> st_max_batch_size s \<noteq> 1
      then fail ''non-batch stage max_batch_size must be one''
      else if st_cache_policy s = CACHE_ASSET \<and> st_target_scope s \<noteq> MEDIA
      then fail ''asset cache policy requires MEDIA target scope''
      else if st_cache_policy s \<in> {CACHE_MESSAGE, CACHE_MESSAGE_VISUAL} \<and> st_target_scope s \<noteq> GLOBAL
      then fail ''message cache policies require GLOBAL target scope''
      else if \<not> set (pt_declared_variables (st_prompt s)) \<subseteq> set (available_prompt_variables (st_input_policy s))
      then fail ''prompt variables are unavailable under the input policy''
      else if si_media (st_input_policy s) \<and> ''vision'' \<notin> set (ip_capabilities (st_inference_profile s))
      then fail ''media input requires a vision-capable inference profile''
      else Inr ())"

definition check_stage_template ::
  "analysis_stage_template_version \<Rightarrow> analysis_stage_template_version result" where
  "check_stage_template s =
     try_bind (validate_non_blank (st_version_id s)) (\<lambda>version_id.
     try_bind (validate_non_blank (st_stage_template_id s)) (\<lambda>stage_template_id.
     try_bind (validate_positive_int (st_version_number s)) (\<lambda>_.
     try_bind (validate_identifier (st_name s)) (\<lambda>name.
       if (case num_val (st_timeout_seconds s) of None \<Rightarrow> True | Some t \<Rightarrow> fl_le t (Fin 0))
       then fail ''stage timeout_seconds must be positive''
       else
     try_bind (validate_positive_int (st_max_batch_size s)) (\<lambda>_.
     try_bind (validate_positive_int (st_max_concurrency s)) (\<lambda>_.
     try_bind (check_stage_consistency s) (\<lambda>_.
       Inr (s\<lparr>st_version_id := version_id, st_stage_template_id := stage_template_id,
         st_name := name\<rparr>))))))))"

definition is_text_only_prescreen :: "analysis_stage_template_version \<Rightarrow> bool" where
  "is_text_only_prescreen s =
     (st_target_scope s = GLOBAL \<and> st_execution_mode s = BATCH_MESSAGES
      \<and> si_text (st_input_policy s) \<and> \<not> si_media (st_input_policy s))"

definition validate_stage_for_publication :: "analysis_stage_template_version \<Rightarrow> unit result" where
  "validate_stage_for_publication s =
     (if pt_status (st_prompt s) \<noteq> PUBLISHED then fail ''published stage must reference a published prompt''
      else if ls_status (st_label_set s) \<noteq> PUBLISHED
      then fail ''published stage must reference a published label set''
      else if ip_status (st_inference_profile s) \<noteq> PUBLISHED
      then fail ''published stage must reference a published inference profile''
      else if \<not> ip_structured_output_support (st_inference_profile s)
      then fail ''stage inference profile must support structured output''
      else validate_label_set_for_publication (Some (st_target_scope s)) (st_label_set s))"

section \<open>Run conditions\<close>

definition validate_run_if :: "pyval option \<Rightarrow> string list option \<Rightarrow> unit result" where
  "validate_run_if condition allowed =
     (case condition of
        None \<Rightarrow> Inr ()
      | Some (PDict d) \<Rightarrow> validate_condition allowed (PDict d)
      | Some _ \<Rightarrow> fail ''run_if must be an object or null'')"

definition evaluate_run_if :: "pyval option \<Rightarrow> pyval \<Rightarrow> bool" where
  "evaluate_run_if condition facts =
     (case condition of
        None \<Rightarrow> True
      | Some c \<Rightarrow> (case facts of PDict d \<Rightarrow> evaluate_condition c d | _ \<Rightarrow> False))"

section \<open>Nodes and pipeline versions\<close>

record pipeline_stage_node =
  pn_node_id :: string
  pn_stage :: analysis_stage_template_version
  pn_depends_on :: "string list"
  pn_run_if :: "pyval option"
  pn_parameter_overrides :: "(string, pyval) dict"

definition allowed_stage_overrides :: "string list" where
  "allowed_stage_overrides =
     [''timeout_seconds'', ''max_batch_size'', ''max_concurrency'', ''retry_policy'',
      ''visual_composition_policy'']"

definition check_pipeline_node :: "pipeline_stage_node \<Rightarrow> pipeline_stage_node result" where
  "check_pipeline_node n =
     try_bind (validate_non_blank (pn_node_id n)) (\<lambda>node_id.
       if list_ex blank (pn_depends_on n) then fail ''pipeline node dependencies must be non-blank strings''
       else if node_id \<in> set (pn_depends_on n) then fail ''pipeline node cannot depend on itself''
       else if \<not> distinct (pn_depends_on n) then fail ''pipeline node dependencies cannot contain duplicates''
       else
     try_bind (validate_run_if (pn_run_if n) None) (\<lambda>_.
     try_bind (case pn_run_if n of
         None \<Rightarrow> Inr None
       | Some c \<Rightarrow> try_bind (require_json_object c) (\<lambda>d. Inr (Some (PDict d)))) (\<lambda>run_if.
     try_bind (require_json_object (PDict (pn_parameter_overrides n))) (\<lambda>overrides.
       if \<not> set (map fst overrides) \<subseteq> set allowed_stage_overrides
       then fail ''pipeline node contains unsupported overrides''
       else Inr (n\<lparr>pn_node_id := node_id, pn_run_if := run_if, pn_parameter_overrides := overrides\<rparr>)))))"

record analysis_pipeline_version =
  ap_version_id :: string
  ap_analysis_pipeline_id :: string
  ap_version_number :: int
  ap_nodes :: "pipeline_stage_node list"
  ap_status :: version_status

definition node_graph :: "pipeline_stage_node list \<Rightarrow> graph" where
  "node_graph nodes = map (\<lambda>n. (pn_node_id n, pn_depends_on n)) nodes"

text \<open>\<^verbatim>\<open>nodes_by_id\<close>: for a repeated id the last node counts.\<close>

definition nodes_by_id :: "pipeline_stage_node list \<Rightarrow> (string, pipeline_stage_node) dict" where
  "nodes_by_id nodes = fold (\<lambda>n. dict_set (pn_node_id n) n) nodes []"

definition stage_fact_keys :: "analysis_stage_template_version \<Rightarrow> string list" where
  "stage_fact_keys s =
     map (\<lambda>key. (if st_target_scope s = GLOBAL then ''global'' else ''media'') @ ''.'' @ key)
       (label_keys (st_label_set s))"

definition allowed_facts ::
  "pipeline_stage_node list \<Rightarrow> pipeline_stage_node \<Rightarrow> string list result" where
  "allowed_facts nodes node =
     (let by_id = nodes_by_id nodes;
          graph = map (\<lambda>(k, n). (k, pn_depends_on n)) by_id in
      try_bind (ancestor_ids graph (pn_depends_on node)) (\<lambda>ancestors.
      try_bind (traverse (\<lambda>a. case map_of by_id a of
          None \<Rightarrow> Inl KeyError | Some n \<Rightarrow> Inr (stage_fact_keys (pn_stage n))) ancestors) (\<lambda>keys.
        Inr (''message.blocked_from_analysis'' # concat keys))))"

fun for_all :: "('a \<Rightarrow> unit result) \<Rightarrow> 'a list \<Rightarrow> unit result" where
  "for_all f [] = Inr ()"
| "for_all f (x # xs) = try_bind (f x) (\<lambda>_. for_all f xs)"

definition validate_conditions :: "pipeline_stage_node list \<Rightarrow> unit result" where
  "validate_conditions nodes =
     for_all (\<lambda>node. try_bind (allowed_facts nodes node) (\<lambda>allowed.
       validate_run_if (pn_run_if node) (Some allowed))) nodes"

definition validate_pipeline_for_publication :: "pipeline_stage_node list \<Rightarrow> unit result" where
  "validate_pipeline_for_publication nodes =
     try_bind (for_all (\<lambda>node.
       if st_status (pn_stage node) \<noteq> PUBLISHED
       then fail ''published pipeline must reference published stages''
       else validate_stage_for_publication (pn_stage node)) nodes) (\<lambda>_.
     validate_conditions nodes)"

definition check_pipeline_version :: "analysis_pipeline_version \<Rightarrow> analysis_pipeline_version result" where
  "check_pipeline_version p =
     try_bind (validate_non_blank (ap_version_id p)) (\<lambda>version_id.
     try_bind (validate_non_blank (ap_analysis_pipeline_id p)) (\<lambda>analysis_pipeline_id.
     try_bind (validate_positive_int (ap_version_number p)) (\<lambda>_.
       if ap_nodes p = [] then fail ''analysis pipeline must contain at least one node''
       else
     try_bind (validate_graph (node_graph (ap_nodes p))) (\<lambda>_.
     try_bind (validate_conditions (ap_nodes p)) (\<lambda>_.
     try_bind (if ap_status p = PUBLISHED then validate_pipeline_for_publication (ap_nodes p) else Inr ()) (\<lambda>_.
       Inr (p\<lparr>ap_version_id := version_id, ap_analysis_pipeline_id := analysis_pipeline_id\<rparr>)))))))"

definition topological_node_ids :: "analysis_pipeline_version \<Rightarrow> string list result" where
  "topological_node_ids p = topological_ids (node_graph (ap_nodes p))"

section \<open>The facts a condition reads\<close>

fun atoms :: "'a formula \<Rightarrow> 'a list" where
  "atoms (FAtom a) = [a]"
| "atoms (FAll fs) = concat (map atoms fs)"
| "atoms (FAny fs) = concat (map atoms fs)"
| "atoms (FNot f) = atoms f"

definition named_fact :: "(string, pyval) dict \<Rightarrow> string option" where
  "named_fact d = (case map_of d ''fact'' of Some (PStr s) \<Rightarrow> Some s | _ \<Rightarrow> None)"

text \<open>The fact a leaf of the condition names: a predicate, \<^verbatim>\<open>label_score\<close> or \<^verbatim>\<open>label_present\<close>.\<close>

definition leaf_fact :: "pyval \<Rightarrow> string option" where
  "leaf_fact c =
     (case c of
        PDict d \<Rightarrow>
          if dict_has ''fact'' d \<or> dict_has ''op'' d then named_fact d
          else (case d of
              [(operator, PDict e)] \<Rightarrow>
                if operator = ''label_score'' \<or> operator = ''label_present'' then named_fact e else None
            | _ \<Rightarrow> None)
      | _ \<Rightarrow> None)"

text \<open>A leaf that names a label by namespace and key: \<^verbatim>\<open>label\<close>, \<^verbatim>\<open>any_media\<close> or \<^verbatim>\<open>none_media\<close>.\<close>

definition label_leaf :: "pyval \<Rightarrow> bool" where
  "label_leaf c \<longleftrightarrow> (\<exists>operator payload. c = PDict [(operator, payload)] \<and> operator \<in> {''label'', ''any_media'', ''none_media''})"

lemma well_formed_atoms:
  "well_formed allowed depth c \<Longrightarrow> leaf \<in> set (atoms (formula_of c)) \<Longrightarrow> leaf_valid allowed leaf"
proof (induction rule: well_formed.induct)
  case (leaf depth c)
  then show ?case by (simp add: formula_of_leaf)
next
  case (connective depth operator cs)
  then show ?case by (auto simp: boolean_node_def dict_has_def)
next
  case (negation depth c)
  then show ?case by (simp add: boolean_node_def dict_has_def)
qed

lemma comparison_fact_allowed:
  "validate_comparison_payload (Some names) numeric (PDict d) = Inr u \<Longrightarrow> \<exists>f \<in> set names. named_fact d = Some f"
  by (auto simp: validate_comparison_payload_def named_fact_def try_bind_Inr Let_def
      dest!: validate_fact_allowed split: if_splits)

text \<open>Every leaf names an allowed fact or is a label leaf.\<close>

lemma leaf_fact_allowed:
  assumes "leaf_valid (Some names) c"
  shows "label_leaf c \<or> (\<exists>f \<in> set names. leaf_fact c = Some f)"
proof -
  from assms(1) obtain d where c: "c = PDict d" and nb: "\<not> boolean_node d"
    and v: "validate (Some names) 0 (PDict d) = Inr ()"
    by (auto simp: leaf_valid_def split: pyval.splits)
  show ?thesis
  proof (cases "dict_has ''fact'' d \<or> dict_has ''op'' d")
    case True
    with v have "validate_leaf (Some names) d = Inr ()" by (auto simp: validate.simps split: if_splits)
    then have "\<exists>f \<in> set names. named_fact d = Some f"
      by (auto simp: validate_leaf_def named_fact_def [of d] dest!: validate_fact_allowed
          dest: comparison_fact_allowed [of names False d] split: if_splits)
    with True show ?thesis by (simp add: leaf_fact_def c)
  next
    case False
    with v obtain operator payload where d: "d = [(operator, payload)]"
      by (auto simp: validate.simps split: if_splits list.splits)
    note v = v [unfolded d] and False = False [unfolded d] and nb = nb [unfolded d]
    have ne: "operator \<notin> {''all'', ''any'', ''not''}" using nb False by (auto simp: boolean_node_def)
    consider "operator \<in> {''label'', ''any_media'', ''none_media''}" | "operator = ''label_score''" | "operator = ''label_present''"
      using v False ne by (auto simp: validate.simps split: if_splits)
    then show ?thesis
    proof cases
      case 1
      then show ?thesis by (auto simp: label_leaf_def c d)
    next
      case 2
      with v False have "validate_comparison_payload (Some names) True payload = Inr ()" by (simp add: validate.simps)
      moreover from this obtain e where "payload = PDict e" by (auto simp: validate_comparison_payload_def split: pyval.splits)
      ultimately show ?thesis
        using False comparison_fact_allowed [of names True e] by (simp add: leaf_fact_def c d 2)
    next
      case 3
      with v False have p: "validate_label_present (Some names) payload = Inr ()" by (simp add: validate.simps)
      then obtain e where e: "payload = PDict e" by (auto simp: validate_label_present_def split: pyval.splits)
      from p [unfolded e] have "\<exists>f \<in> set names. named_fact e = Some f"
        by (auto simp: validate_label_present_def try_bind_Inr named_fact_def dest!: validate_fact_allowed split: if_splits)
      with False show ?thesis by (simp add: leaf_fact_def c d e 3)
    qed
  qed
qed

lemma validate_run_if_allowed:
  assumes "validate_run_if (Some c) (Some names) = Inr ()" and "leaf \<in> set (atoms (formula_of c))"
  shows "label_leaf leaf \<or> (\<exists>f \<in> set names. leaf_fact leaf = Some f)"
proof -
  have "validate (Some names) 0 c = Inr ()"
    using assms(1) by (auto simp: validate_run_if_def validate_condition_def split: pyval.splits)
  note wf = validate_well_formed [OF this]
  from leaf_fact_allowed [OF well_formed_atoms [OF wf assms(2)]] show ?thesis .
qed

section \<open>What an accepted pipeline guarantees\<close>

lemma for_all_Inr [result_simps]: "for_all f xs = Inr u \<longleftrightarrow> (\<forall>x \<in> set xs. f x = Inr ())"
  by (induction xs) (auto simp: try_bind_Inr)

lemma nodes_by_id_lookup:
  assumes "distinct (map pn_node_id nodes)"
  shows "map_of (nodes_by_id nodes) k = find (\<lambda>n. pn_node_id n = k) nodes"
proof (cases "find (\<lambda>n. pn_node_id n = k) nodes")
  case None
  then have "filter (\<lambda>n. pn_node_id n = k) nodes = []" by (simp add: find_None_iff filter_empty_conv)
  then show ?thesis using None dict.get_fold_put [of pn_node_id "\<lambda>n. n" nodes "[]" k]
    by (simp add: nodes_by_id_def)
next
  case (Some n)
  then have n: "n \<in> set nodes" "pn_node_id n = k" by (auto simp: find_Some_iff)
  with filter_singleton [OF assms n(1)] show ?thesis
    using Some dict.get_fold_put [of pn_node_id "\<lambda>n. n" nodes "[]" k]
    by (simp add: nodes_by_id_def)
qed

lemma nodes_graph:
  assumes "distinct (map pn_node_id nodes)"
  shows "map_of (map (\<lambda>(k, n). (k, pn_depends_on n)) (nodes_by_id nodes)) = map_of (node_graph nodes)"
proof
  fix k
  have "map_of (node_graph nodes) k = map_option pn_depends_on (find (\<lambda>n. pn_node_id n = k) nodes)"
    by (induction nodes) (auto simp: node_graph_def)
  then show "map_of (map (\<lambda>(k, n). (k, pn_depends_on n)) (nodes_by_id nodes)) k = map_of (node_graph nodes) k"
    by (simp add: map_of_map nodes_by_id_lookup [OF assms])
qed

text \<open>The ancestor search only looks ids up, so that the same lookups give the same graph.\<close>

lemma same_lookup:
  assumes "map_of g = map_of h"
  shows "needs g = needs h" and "node_ids g = node_ids h" and "edges g = edges h"
proof -
  have "fst ` set g = dom (map_of g)" for g :: graph by (simp add: dom_map_of_conv_image_fst)
  with assms show n: "node_ids g = node_ids h" by (simp add: node_ids_def)
  show "needs g = needs h" using assms by (simp add: needs_def fun_eq_iff)
  with n show "edges g = edges h" by (simp add: edges_def)
qed

lemma list_all2_right: "list_all2 P xs ys \<Longrightarrow> y \<in> set ys \<Longrightarrow> \<exists>x \<in> set xs. P x y"
  by (induction xs ys rule: list_all2_induct) auto

lemma allowed_facts_upstream:
  assumes "validate_graph (node_graph nodes) = Inr ()" and "node \<in> set nodes"
    and "allowed_facts nodes node = Inr names" and "f \<in> set names"
  shows "f = ''message.blocked_from_analysis'' \<or>
    (\<exists>a \<in> set nodes. (pn_node_id a, pn_node_id node) \<in> (edges (node_graph nodes))\<^sup>+
       \<and> f \<in> set (stage_fact_keys (pn_stage a)))"
proof -
  let ?g = "node_graph nodes" and ?h = "map (\<lambda>(k, n). (k, pn_depends_on n)) (nodes_by_id nodes)"
  from assms(1) have g: "distinct (map fst ?g)" "\<forall>k \<in> node_ids ?g. needs ?g k \<subseteq> node_ids ?g"
    by (auto simp: validate_graph_Inr)
  then have d: "distinct (map pn_node_id nodes)" by (simp add: node_graph_def comp_def)
  note same = same_lookup [OF nodes_graph [OF d]]
  have "map_of ?g (pn_node_id node) = Some (pn_depends_on node)"
    using d assms(2) by (intro map_of_is_SomeI) (auto simp: node_graph_def comp_def)
  then have "map_of ?h (pn_node_id node) = Some (pn_depends_on node)" using nodes_graph [OF d] by simp
  from ancestor_ids_trancl [OF _ this] g(2) obtain result where
    anc: "ancestor_ids ?h (pn_depends_on node) = Inr result"
      "set result = {a. (a, pn_node_id node) \<in> (edges ?g)\<^sup>+}"
    unfolding same by blast
  from assms(3) anc(1) obtain keys where names: "names = ''message.blocked_from_analysis'' # concat keys"
    and keys: "list_all2 (\<lambda>a ks. \<exists>n. map_of (nodes_by_id nodes) a = Some n \<and> ks = stage_fact_keys (pn_stage n)) result keys"
  proof -
    let ?look = "\<lambda>a. case map_of (nodes_by_id nodes) a of
          None \<Rightarrow> Inl KeyError | Some n \<Rightarrow> Inr (stage_fact_keys (pn_stage n))"
    have "try_bind (traverse ?look result) (\<lambda>keys. Inr (''message.blocked_from_analysis'' # concat keys)) = Inr names"
      using assms(3) anc(1) unfolding allowed_facts_def Let_def by (simp only: try_bind_simps)
    then obtain keys where k: "names = ''message.blocked_from_analysis'' # concat keys"
      "list_all2 (\<lambda>a ks. (case map_of (nodes_by_id nodes) a of
          None \<Rightarrow> Inl KeyError | Some n \<Rightarrow> Inr (stage_fact_keys (pn_stage n))) = Inr ks) result keys"
      unfolding try_bind_Inr traverse_Inr by blast
    have "list_all2 (\<lambda>a ks. \<exists>n. map_of (nodes_by_id nodes) a = Some n \<and> ks = stage_fact_keys (pn_stage n)) result keys"
      by (rule list_all2_mono [OF k(2)]) (auto split: option.splits)
    with k(1) show thesis by (rule that)
  qed
  show ?thesis
  proof (cases "f = ''message.blocked_from_analysis''")
    case False
    then obtain ks where "ks \<in> set keys" "f \<in> set ks" using assms(4) names by auto
    with list_all2_right [OF keys] obtain a n where a: "a \<in> set result" "map_of (nodes_by_id nodes) a = Some n"
      "f \<in> set (stage_fact_keys (pn_stage n))" by blast
    then have "n \<in> set nodes" "pn_node_id n = a" by (auto simp: nodes_by_id_lookup [OF d] find_Some_iff)
    with a anc(2) show ?thesis by blast
  qed simp
qed

lemma ancestors_run_before:
  assumes "distinct (map fst g)" and "topological_ids g = Inr ids" and "(a, k) \<in> (edges g)\<^sup>+"
  shows "\<exists>p q. ids = p @ k # q \<and> a \<in> set p"
  using assms(3)
proof (induction rule: trancl_induct)
  case (base k)
  then show ?case by (rule edge_positions [OF assms(1,2)])
next
  case (step b k)
  from edge_positions [OF assms(1,2) step(2)] obtain p q where ids: "ids = p @ k # q" "b \<in> set p" by blast
  from step(3) obtain p' q' where ids': "ids = p' @ b # q'" "a \<in> set p'" by blast
  from ids(2) obtain p1 p2 where p: "p = p1 @ b # p2" by (metis split_list)
  have "distinct ids" using topological_ids_greedy(3) [OF assms(1,2)] .
  with ids(1) ids'(1) p have "p' = p1"
    using append_Cons_eq_iff [of b p1 "p2 @ k # q" p' q'] by auto
  with ids ids'(2) p have "ids = (p1 @ b # p2) @ k # q" "a \<in> set (p1 @ b # p2)" by auto
  then show ?case by blast
qed

text \<open>
  C19: A pipeline version that is accepted has an execution order, and every leaf of a node's condition
  is a label leaf (\<^verbatim>\<open>label\<close>, \<^verbatim>\<open>any_media\<close>, \<^verbatim>\<open>none_media\<close>), whose key is not checked against the
  graph, or names one fact, the blocking flag or a label of a stage that comes before the node in the
  order: no comparison waits for a fact that is not there yet.
\<close>

theorem comparisons_read_earlier_stages:
  assumes "check_pipeline_version p0 = Inr p"
  shows "\<exists>ids. topological_node_ids p = Inr ids \<and>
    (\<forall>node \<in> set (ap_nodes p). \<forall>c. pn_run_if node = Some c \<longrightarrow>
      (\<forall>leaf \<in> set (atoms (formula_of c)). label_leaf leaf \<or>
        (\<exists>f. leaf_fact leaf = Some f \<and> (f = ''message.blocked_from_analysis'' \<or>
          (\<exists>a \<in> set (ap_nodes p). f \<in> set (stage_fact_keys (pn_stage a)) \<and>
            (\<exists>before after. ids = before @ pn_node_id node # after \<and> pn_node_id a \<in> set before))))))"
proof -
  from assms have g: "validate_graph (node_graph (ap_nodes p)) = Inr ()"
    and c: "validate_conditions (ap_nodes p) = Inr ()"
    by (auto simp: check_pipeline_version_def try_bind_Inr split: if_splits)
  from g obtain ids where d: "distinct (map fst (node_graph (ap_nodes p)))"
    and ids: "topological_ids (node_graph (ap_nodes p)) = Inr ids"
    by (auto simp: validate_graph_Inr)
  have "label_leaf leaf \<or> (\<exists>f. leaf_fact leaf = Some f \<and> (f = ''message.blocked_from_analysis'' \<or>
        (\<exists>a \<in> set (ap_nodes p). f \<in> set (stage_fact_keys (pn_stage a)) \<and>
          (\<exists>before after. ids = before @ pn_node_id node # after \<and> pn_node_id a \<in> set before))))"
    if n: "node \<in> set (ap_nodes p)" "pn_run_if node = Some c" "leaf \<in> set (atoms (formula_of c))" for node c leaf
  proof -
    from c n obtain names where names: "allowed_facts (ap_nodes p) node = Inr names"
      and "validate_run_if (Some c) (Some names) = Inr ()"
      by (fastforce simp: validate_conditions_def for_all_Inr try_bind_Inr)
    from validate_run_if_allowed [OF this(2) n(3)] show ?thesis
    proof
      assume "\<exists>f \<in> set names. leaf_fact leaf = Some f"
      then obtain f where f: "f \<in> set names" "leaf_fact leaf = Some f" by blast
      from allowed_facts_upstream [OF g n(1) names f(1)] ancestors_run_before [OF d ids] f(2) show ?thesis by blast
    qed simp
  qed
  then show ?thesis using ids unfolding topological_node_ids_def by blast
qed

definition sample_profile :: inference_profile where
  "sample_profile = \<lparr>ip_version_id = ''v1'', ip_inference_profile_id = ''f1'', ip_version_number = 1,
     ip_provider_adapter = ''openai'', ip_base_url = ''http://localhost'', ip_model_name = ''model'',
     ip_api_secret_reference = ''key'', ip_capabilities = [], ip_timeout_seconds = PInt 30, ip_max_concurrency = 1,
     ip_max_images = 1, ip_max_input_tokens = 1000, ip_structured_output_support = True,
     ip_sampling_parameters = [], ip_status = PUBLISHED\<rparr>"

definition sample_stage :: analysis_stage_template_version where
  "sample_stage = \<lparr>st_version_id = ''v1'', st_stage_template_id = ''t1'', st_version_number = 1,
     st_name = ''screen'', st_target_scope = GLOBAL, st_execution_mode = BATCH_MESSAGES,
     st_prompt = sample_prompt,
     st_label_set = sample_label_set,
     st_structured_output_policy =
       \<lparr>op_mode = DENSE_SCORES, op_include_reason = False, op_include_evidence = False\<rparr>,
     st_input_policy = \<lparr>si_text = True, si_telegram_metadata = False, si_media = False,
       si_previous_results = False, si_source_channel_context = False\<rparr>,
     st_visual_composition_policy = RAW,
     st_inference_profile = sample_profile,
     st_cache_policy = CACHE_MESSAGE, st_timeout_seconds = PInt 30,
     st_retry_policy = \<lparr>sr_max_attempts = 3, sr_base_delay_seconds = 5, sr_max_delay_seconds = 300\<rparr>,
     st_max_batch_size = 8, st_max_concurrency = 1, st_status = PUBLISHED\<rparr>"

definition sample_run_if :: pyval where
  "sample_run_if = PDict [(''fact'', PStr ''global.spam''), (''op'', PStr ''lt''), (''value'', PFloat (Fin (1/2)))]"

definition sample_pipeline :: analysis_pipeline_version where
  "sample_pipeline = \<lparr>ap_version_id = ''p1'', ap_analysis_pipeline_id = ''p'', ap_version_number = 1,
     ap_nodes =
       [\<lparr>pn_node_id = ''deep'', pn_stage = sample_stage, pn_depends_on = [''screen''],
          pn_run_if = Some sample_run_if, pn_parameter_overrides = []\<rparr>,
        \<lparr>pn_node_id = ''screen'', pn_stage = sample_stage, pn_depends_on = [],
          pn_run_if = None, pn_parameter_overrides = []\<rparr>],
     ap_status = PUBLISHED\<rparr>"

theorem comparisons_read_earlier_stages_witness:
  "\<exists>ids. topological_node_ids sample_pipeline = Inr ids \<and>
     (\<exists>a \<in> set (ap_nodes sample_pipeline). ''global.spam'' \<in> set (stage_fact_keys (pn_stage a)) \<and>
        (\<exists>before after. ids = before @ ''deep'' # after \<and> pn_node_id a \<in> set before))"
proof -
  have p: "check_pipeline_version sample_pipeline = Inr sample_pipeline" by code_simp
  let ?node = "hd (ap_nodes sample_pipeline)"
  have n: "?node \<in> set (ap_nodes sample_pipeline)" "pn_run_if ?node = Some sample_run_if" "pn_node_id ?node = ''deep''"
    by (simp_all add: sample_pipeline_def)
  have leaf: "sample_run_if \<in> set (atoms (formula_of sample_run_if))" "leaf_fact sample_run_if = Some ''global.spam''"
    "\<not> label_leaf sample_run_if"
    by (simp_all add: sample_run_if_def boolean_node_def dict_has_def leaf_fact_def named_fact_def label_leaf_def)
  have ne: "''global.spam'' \<noteq> ''message.blocked_from_analysis''" by simp
  obtain ids where ids: "topological_node_ids sample_pipeline = Inr ids"
    and all: "\<forall>node \<in> set (ap_nodes sample_pipeline). \<forall>c. pn_run_if node = Some c \<longrightarrow>
      (\<forall>leaf \<in> set (atoms (formula_of c)). label_leaf leaf \<or>
        (\<exists>f. leaf_fact leaf = Some f \<and> (f = ''message.blocked_from_analysis'' \<or>
          (\<exists>a \<in> set (ap_nodes sample_pipeline). f \<in> set (stage_fact_keys (pn_stage a)) \<and>
            (\<exists>before after. ids = before @ pn_node_id node # after \<and> pn_node_id a \<in> set before)))))"
    by (rule exE [OF comparisons_read_earlier_stages [OF p]], erule conjE)
  have "\<exists>a \<in> set (ap_nodes sample_pipeline). ''global.spam'' \<in> set (stage_fact_keys (pn_stage a)) \<and>
      (\<exists>before after. ids = before @ ''deep'' # after \<and> pn_node_id a \<in> set before)"
    using all [rule_format, OF n(1,2) leaf(1)] unfolding n(3) by (simp add: leaf ne)
  with ids show ?thesis by (intro exI conjI)
qed

text \<open>
  Label leaves are accepted whatever stages there are: the published pipeline below has one node without
  dependencies, and runs it under the condition that the message carries a label no stage assigns.
\<close>

lemma label_leaf_unchecked:
  assumes "label_leaf c"
  shows "validate (Some names) depth c = validate None depth c"
  using assms by (auto simp: label_leaf_def validate.simps dict_has_def)

definition unknown_label_pipeline :: analysis_pipeline_version where
  "unknown_label_pipeline = sample_pipeline\<lparr>ap_nodes :=
     [\<lparr>pn_node_id = ''screen'', pn_stage = sample_stage, pn_depends_on = [],
        pn_run_if = Some (PDict [(''label'', PDict [(''namespace'', PStr ''model''), (''scope'', PStr ''global''), (''key'', PStr ''unknown'')])]),
        pn_parameter_overrides = []\<rparr>]\<rparr>"

theorem label_leaf_needs_no_stage:
  "check_pipeline_version unknown_label_pipeline = Inr unknown_label_pipeline
   \<and> ''unknown'' \<notin> set (label_keys (st_label_set sample_stage))"
  by code_simp

end
