(* ===== verification/Leases.thy ===== *)
theory Leases
  imports Prelude
begin

text \<open>
  Compare-by-lease-token rows.  Wake-ups and range executions are claimed by writing a fresh
  token and an expiry into a row, and changed later only by statements that name the token.
  The locale states this contract once: a claim needs a free or expired row and takes it, an
  action of a token needs the row to be held by it and keeps or gives up the lease.
\<close>

datatype lease_event = Claim string int | Act string int

fun last_claim :: "lease_event list \<Rightarrow> string option" where
  "last_claim [] = None"
| "last_claim (Claim t now # es) = (case last_claim es of None \<Rightarrow> Some t | Some u \<Rightarrow> Some u)"
| "last_claim (Act t now # es) = last_claim es"

lemma last_claim_append:
  "last_claim (es @ fs) = (case last_claim fs of None \<Rightarrow> last_claim es | Some t \<Rightarrow> Some t)"
  by (induction es rule: last_claim.induct) (auto split: option.splits)

locale leased_row =
  fixes holder :: "'row \<Rightarrow> (string \<times> int) option"
    and claims :: "string \<Rightarrow> int \<Rightarrow> 'row \<Rightarrow> 'row \<Rightarrow> bool"
    and acts :: "string \<Rightarrow> int \<Rightarrow> 'row \<Rightarrow> 'row \<Rightarrow> bool"
  assumes claim_free: "claims token now r r' \<Longrightarrow> holder r = Some (t, e) \<Longrightarrow> e \<le> now"
    and claim_holder: "claims token now r r' \<Longrightarrow> \<exists>e. holder r' = Some (token, e)"
    and act_fenced: "acts token now r r' \<Longrightarrow> \<exists>e. holder r = Some (token, e)"
    and act_holder: "acts token now r r' \<Longrightarrow> holder r' = holder r \<or> holder r' = None"
begin

inductive run :: "'row \<Rightarrow> lease_event list \<Rightarrow> 'row \<Rightarrow> bool" for r where
  start: "run r [] r"
| claim: "run r es s \<Longrightarrow> claims token now s s' \<Longrightarrow> run r (es @ [Claim token now]) s'"
| act: "run r es s \<Longrightarrow> acts token now s s' \<Longrightarrow> run r (es @ [Act token now]) s'"

lemma run_holder:
  "run r es s \<Longrightarrow> holder r = None \<Longrightarrow> holder s = Some (t, e) \<Longrightarrow> last_claim es = Some t"
proof (induction arbitrary: t e rule: run.induct)
  case (claim es s token now s')
  with claim_holder [OF claim(2)] show ?case by (auto simp: last_claim_append)
next
  case (act es s token now s')
  from act_holder [OF act(2)] act.prems(2) have "holder s = Some (t, e)" by auto
  with act.IH act.prems(1) show ?case by (simp add: last_claim_append)
qed simp

text \<open>Every effective action belongs to the latest claim of the row.\<close>

lemma run_acts_of_last_claim:
  "run r es s \<Longrightarrow> holder r = None \<Longrightarrow> es = es1 @ Act t now # es2 \<Longrightarrow> last_claim es1 = Some t"
proof (induction arbitrary: es2 rule: run.induct)
  case start
  then show ?case by simp
next
  case (claim es s token n s')
  then show ?case by (cases es2 rule: rev_cases) auto
next
  case (act es s token n s')
  show ?case
  proof (cases es2 rule: rev_cases)
    case Nil
    with act act_fenced [OF act(2)] run_holder [OF act(1) act(4)] show ?thesis by auto
  next
    case (snoc es3 e)
    with act show ?thesis by auto
  qed
qed

text \<open>A token is powerless as soon as another token has claimed the row.\<close>

lemma stale_token:
  assumes "claims token now r r'" and "stale \<noteq> token"
  shows "\<not> acts stale later r' s"
  using claim_holder [OF assms(1)] act_fenced [of stale later r' s] assms(2) by auto

end

end
