(* ===== verification/Range_Database.thy ===== *)
theory Range_Database
  imports Leases Uuids
begin

text \<open>
  The database of processing ranges and its repositories,
  \<^verbatim>\<open>tgcurator/infrastructure/database/processing_repository.py\<close>: tables as lists of rows, each
  repository method as one transaction from the database to its answer and the database at
  commit.

  Ids and lease tokens are the text of UUIDs; the fresh \<^verbatim>\<open>uuid4\<close> values a method draws are
  arguments.  \<open>locked\<close> lists the rows other transactions hold, which \<^verbatim>\<open>SKIP LOCKED\<close> passes over;
  a plain \<^verbatim>\<open>FOR UPDATE\<close> waits for them, so transactions are atomic.  Times are instants.
\<close>



section \<open>Tables\<close>

datatype range_status = R_PENDING | R_ACTIVE | R_PAUSED | R_COMPLETED | R_FAILED

datatype row_status = E_PENDING | E_RUNNING | E_RETRY_WAIT | E_COMPLETED | E_FAILED

datatype wakeup_status = W_PENDING | W_LEASED | W_COMPLETED | W_CANCELLED

record source_channel_row =
  sc_id :: uuid
  sc_active_profile_version_id :: "uuid option"
  sc_enabled :: bool

record range_row =
  pr_id :: uuid
  pr_source_channel_id :: uuid
  pr_end_mode :: string
  pr_resolved_start :: "int option"
  pr_resolved_fixed_end :: "int option"
  pr_watermark :: "int option"
  pr_active_high :: "int option"
  pr_steady_after_seconds :: "int option"
  pr_status :: range_status
  pr_enabled :: bool
  pr_created_at :: int
  pr_updated_at :: int

record execution_row =
  re_id :: uuid
  re_range_id :: uuid
  re_profile_version_id :: uuid
  re_from :: int
  re_to :: int
  re_watermark :: int
  re_status :: row_status
  re_attempt_count :: int
  re_max_attempts :: int
  re_next_retry_at :: "int option"
  re_lease_token :: "uuid option"
  re_lease_expires_at :: "int option"
  re_last_error_code :: "string option"
  re_last_error_type :: "string option"
  re_last_failure_at :: "int option"
  re_started_at :: "int option"
  re_completed_at :: "int option"
  re_updated_at :: int

record wakeup_row =
  wk_id :: uuid
  wk_queue :: string
  wk_entity_id :: uuid
  wk_status :: wakeup_status
  wk_next_attempt_at :: int
  wk_lease_token :: "uuid option"
  wk_lease_expires_at :: "int option"
  wk_dispatch_attempts :: int
  wk_last_dispatched_at :: "int option"
  wk_completed_at :: "int option"
  wk_updated_at :: int

record database =
  channels :: "source_channel_row list"
  ranges :: "range_row list"
  executions :: "execution_row list"
  wakeups :: "wakeup_row list"

definition range_execution_queue :: string where
  "range_execution_queue = ''range_execution''"

definition find_range :: "uuid \<Rightarrow> database \<Rightarrow> range_row option" where
  "find_range k db = find (\<lambda>r. pr_id r = k) (ranges db)"

definition find_execution :: "uuid \<Rightarrow> database \<Rightarrow> execution_row option" where
  "find_execution k db = find (\<lambda>r. re_id r = k) (executions db)"

definition find_channel :: "uuid \<Rightarrow> database \<Rightarrow> source_channel_row option" where
  "find_channel k db = find (\<lambda>r. sc_id r = k) (channels db)"

definition save_range :: "range_row \<Rightarrow> database \<Rightarrow> database" where
  "save_range r db = db\<lparr>ranges := update_where (\<lambda>x. pr_id x = pr_id r) (\<lambda>_. r) (ranges db)\<rparr>"

definition save_execution :: "execution_row \<Rightarrow> database \<Rightarrow> database" where
  "save_execution e db =
     db\<lparr>executions := update_where (\<lambda>x. re_id x = re_id e) (\<lambda>_. e) (executions db)\<rparr>"

text \<open>The constraints of \<^verbatim>\<open>range_executions\<close> that a new row can violate.\<close>

definition active_status :: "row_status \<Rightarrow> bool" where
  "active_status s = (s = E_PENDING \<or> s = E_RUNNING \<or> s = E_RETRY_WAIT)"

definition conflicting :: "execution_row \<Rightarrow> execution_row \<Rightarrow> bool" where
  "conflicting e x =
     (re_id x = re_id e
      \<or> (re_range_id x = re_range_id e \<and> re_from x = re_from e \<and> re_to x = re_to e)
      \<or> (re_range_id x = re_range_id e \<and> active_status (re_status x) \<and> active_status (re_status e)))"

definition new_row_allowed :: "execution_row \<Rightarrow> bool" where
  "new_row_allowed e = (0 \<le> re_from e \<and> re_from e < re_to e \<and> 0 < re_max_attempts e)"

section \<open>The schedule repository\<close>

record scheduled_range =
  sr_range_id :: uuid
  sr_source_channel_id :: uuid
  sr_profile_version_id :: uuid
  sr_end_mode :: string
  sr_resolved_start :: int
  sr_resolved_fixed_end :: "int option"
  sr_watermark :: "int option"
  sr_steady_after_seconds :: "int option"

text \<open>The columns of the query, for a row that its conditions select.\<close>

definition scheduled_row :: "database \<Rightarrow> range_row \<Rightarrow> scheduled_range option" where
  "scheduled_row db r =
     (case (find_channel (pr_source_channel_id r) db, pr_resolved_start r) of
        (Some c, Some start) \<Rightarrow>
          if pr_enabled r \<and> (pr_status r = R_PENDING \<or> pr_status r = R_ACTIVE)
            \<and> pr_active_high r = None \<and> sc_enabled c
            \<and> \<not> (pr_end_mode r = ''fixed'' \<and> pr_resolved_fixed_end r = None)
          then map_option (\<lambda>profile. \<lparr>sr_range_id = pr_id r,
              sr_source_channel_id = pr_source_channel_id r, sr_profile_version_id = profile,
              sr_end_mode = pr_end_mode r, sr_resolved_start = start,
              sr_resolved_fixed_end = pr_resolved_fixed_end r, sr_watermark = pr_watermark r,
              sr_steady_after_seconds = pr_steady_after_seconds r\<rparr>)
            (sc_active_profile_version_id c)
          else None
      | _ \<Rightarrow> None)"

definition list_enabled_ranges :: "database \<Rightarrow> scheduled_range list" where
  "list_enabled_ranges db =
     List.map_filter (scheduled_row db) (sort_key (\<lambda>r. (pr_created_at r, pr_id r)) (ranges db))"

record pending_execution =
  pe_execution_id :: uuid
  pe_range_id :: uuid
  pe_profile_version_id :: uuid
  pe_from :: int
  pe_to :: int
  pe_max_attempts :: int

text \<open>\<^verbatim>\<open>processing_watermark_message_id\<close>, or the id before the start; \<open>None\<close> is a \<open>TypeError\<close>.\<close>

definition expected_from :: "range_row \<Rightarrow> int option" where
  "expected_from r =
     (case pr_watermark r of Some w \<Rightarrow> Some w
      | None \<Rightarrow> map_option (\<lambda>s. s - 1) (pr_resolved_start r))"

definition can_freeze ::
  "range_row \<Rightarrow> uuid option \<Rightarrow> bool \<Rightarrow> pending_execution \<Rightarrow> bool" where
  "can_freeze r active_profile_version_id source_channel_enabled x =
     (if \<not> source_channel_enabled \<or> \<not> pr_enabled r \<or> \<not> (pr_status r = R_PENDING \<or> pr_status r = R_ACTIVE)
        \<or> pr_active_high r \<noteq> None \<or> pr_resolved_start r = None
        \<or> active_profile_version_id \<noteq> Some (pe_profile_version_id x)
      then False
      else (case expected_from r of
          None \<Rightarrow> False
        | Some expected \<Rightarrow>
            if pe_from x \<noteq> expected then False
            else if pe_to x \<le> expected then False
            else \<not> (pr_end_mode r = ''fixed'' \<and> Some (pe_to x) \<noteq> pr_resolved_fixed_end r)))"

definition new_execution_row :: "pending_execution \<Rightarrow> int \<Rightarrow> execution_row" where
  "new_execution_row x now =
     \<lparr>re_id = pe_execution_id x, re_range_id = pe_range_id x,
      re_profile_version_id = pe_profile_version_id x, re_from = pe_from x, re_to = pe_to x,
      re_watermark = pe_from x, re_status = E_PENDING, re_attempt_count = 0,
      re_max_attempts = pe_max_attempts x, re_next_retry_at = None, re_lease_token = None,
      re_lease_expires_at = None, re_last_error_code = None, re_last_error_type = None,
      re_last_failure_at = None, re_started_at = None, re_completed_at = None, re_updated_at = now\<rparr>"

definition new_wakeup_row :: "uuid \<Rightarrow> string \<Rightarrow> uuid \<Rightarrow> int \<Rightarrow> wakeup_row" where
  "new_wakeup_row wakeup_id queue entity_id available_at =
     \<lparr>wk_id = wakeup_id, wk_queue = queue, wk_entity_id = entity_id, wk_status = W_PENDING,
      wk_next_attempt_at = available_at, wk_lease_token = None, wk_lease_expires_at = None,
      wk_dispatch_attempts = 0, wk_last_dispatched_at = None, wk_completed_at = None,
      wk_updated_at = available_at\<rparr>"

text \<open>\<^verbatim>\<open>ON CONFLICT DO NOTHING\<close> covers the unique constraints; a violated check rolls back.\<close>

definition create_execution_and_wakeup ::
  "uuid \<Rightarrow> pending_execution \<Rightarrow> string \<Rightarrow> int \<Rightarrow> database \<Rightarrow> (bool \<times> database) result" where
  "create_execution_and_wakeup wakeup_id x queue available_at db =
     (case find_range (pe_range_id x) db of
        None \<Rightarrow> Inr (False, db)
      | Some r \<Rightarrow>
          (case find_channel (pr_source_channel_id r) db of
             None \<Rightarrow> Inr (False, db)
           | Some c \<Rightarrow>
               if \<not> can_freeze r (sc_active_profile_version_id c) (sc_enabled c) x then Inr (False, db)
               else
                 let e = new_execution_row x available_at in
                 if \<not> new_row_allowed e then Inl IntegrityError
                 else if list_ex (conflicting e) (executions db) then Inr (False, db)
                 else if list_ex (\<lambda>w. wk_id w = wakeup_id \<or> (wk_queue w = queue \<and> wk_entity_id w = re_id e))
                   (wakeups db) then Inl IntegrityError
                 else Inr (True, (save_range
                   (r\<lparr>pr_active_high := Some (pe_to x), pr_status := R_ACTIVE, pr_updated_at := available_at\<rparr>) db)
                   \<lparr>executions := executions db @ [e],
                    wakeups := wakeups db @ [new_wakeup_row wakeup_id queue (re_id e) available_at]\<rparr>)))"

section \<open>The wake-up repository\<close>

record claimed_wakeup =
  cw_wakeup_id :: uuid
  cw_queue :: string
  cw_entity_id :: uuid
  cw_lease_token :: uuid

definition wakeup_due :: "int \<Rightarrow> wakeup_row \<Rightarrow> bool" where
  "wakeup_due now w =
     ((wk_status w = W_PENDING \<and> wk_next_attempt_at w \<le> now)
      \<or> (wk_status w = W_LEASED \<and> (case wk_lease_expires_at w of None \<Rightarrow> False | Some t \<Rightarrow> t \<le> now)))"

definition due_wakeups :: "uuid list \<Rightarrow> int \<Rightarrow> nat \<Rightarrow> wakeup_row list \<Rightarrow> wakeup_row list" where
  "due_wakeups locked now limit rows =
     take limit (sort_key (\<lambda>w. (wk_next_attempt_at w, wk_id w))
       (filter (\<lambda>w. wakeup_due now w \<and> wk_id w \<notin> set locked) rows))"

definition lease_wakeup :: "uuid \<Rightarrow> int \<Rightarrow> int \<Rightarrow> wakeup_row \<Rightarrow> wakeup_row" where
  "lease_wakeup token now duration w =
     w\<lparr>wk_status := W_LEASED, wk_lease_token := Some token, wk_lease_expires_at := Some (now + duration),
       wk_dispatch_attempts := wk_dispatch_attempts w + 1, wk_updated_at := now\<rparr>"

text \<open>The loop over the locked rows; \<open>tokens\<close> are the values \<^verbatim>\<open>uuid4\<close> draws, one per row.\<close>

fun claim_rows :: "int \<Rightarrow> int \<Rightarrow> uuid list \<Rightarrow> wakeup_row list \<Rightarrow> database \<Rightarrow> claimed_wakeup list \<times> database" where
  "claim_rows now duration (token # tokens) (w # ws) db =
     (let (claims, db') = claim_rows now duration tokens ws
        (db\<lparr>wakeups := update_where (\<lambda>x. wk_id x = wk_id w) (lease_wakeup token now duration) (wakeups db)\<rparr>)
      in (\<lparr>cw_wakeup_id = wk_id w, cw_queue = wk_queue w, cw_entity_id = wk_entity_id w,
           cw_lease_token = token\<rparr> # claims, db'))"
| "claim_rows now duration tokens ws db = ([], db)"

definition claim_due ::
  "uuid list \<Rightarrow> uuid list \<Rightarrow> int \<Rightarrow> int \<Rightarrow> nat \<Rightarrow> database \<Rightarrow> claimed_wakeup list \<times> database" where
  "claim_due locked tokens now duration limit db =
     claim_rows now duration tokens (due_wakeups locked now limit (wakeups db)) db"

definition release_wakeup :: "int \<Rightarrow> int \<Rightarrow> int option \<Rightarrow> wakeup_row \<Rightarrow> wakeup_row" where
  "release_wakeup next_attempt_at now last_dispatched_at w =
     w\<lparr>wk_status := W_PENDING, wk_next_attempt_at := next_attempt_at, wk_lease_token := None,
       wk_lease_expires_at := None, wk_updated_at := now,
       wk_last_dispatched_at := (case last_dispatched_at of None \<Rightarrow> wk_last_dispatched_at w | Some t \<Rightarrow> Some t)\<rparr>"

definition release_claim ::
  "uuid \<Rightarrow> uuid \<Rightarrow> int \<Rightarrow> int \<Rightarrow> int option \<Rightarrow> database \<Rightarrow> bool \<times> database" where
  "release_claim wakeup_id lease_token next_attempt_at now last_dispatched_at db =
     (let held = (\<lambda>w. wk_id w = wakeup_id \<and> wk_status w = W_LEASED \<and> wk_lease_token w = Some lease_token)
      in (count_where held (wakeups db) = 1,
          db\<lparr>wakeups := update_where held (release_wakeup next_attempt_at now last_dispatched_at) (wakeups db)\<rparr>))"

definition acknowledge_dispatch :: "uuid \<Rightarrow> uuid \<Rightarrow> int \<Rightarrow> int \<Rightarrow> database \<Rightarrow> bool \<times> database" where
  "acknowledge_dispatch wakeup_id lease_token now repair_after db =
     release_claim wakeup_id lease_token repair_after now (Some now) db"

definition reschedule_after_failure :: "uuid \<Rightarrow> uuid \<Rightarrow> int \<Rightarrow> int \<Rightarrow> database \<Rightarrow> bool \<times> database" where
  "reschedule_after_failure wakeup_id lease_token now retry_after db =
     release_claim wakeup_id lease_token retry_after now None db"

definition complete_wakeup :: "int \<Rightarrow> wakeup_row \<Rightarrow> wakeup_row" where
  "complete_wakeup now w =
     w\<lparr>wk_status := W_COMPLETED, wk_lease_token := None, wk_lease_expires_at := None,
       wk_completed_at := Some now, wk_updated_at := now\<rparr>"

definition complete_for_entity :: "string \<Rightarrow> uuid \<Rightarrow> int \<Rightarrow> database \<Rightarrow> bool \<times> database" where
  "complete_for_entity queue entity_id now db =
     (let due = (\<lambda>w. wk_queue w = queue \<and> wk_entity_id w = entity_id
        \<and> (wk_status w = W_PENDING \<or> wk_status w = W_LEASED))
      in (count_where due (wakeups db) = 1,
          db\<lparr>wakeups := update_where due (complete_wakeup now) (wakeups db)\<rparr>))"

section \<open>The execution worker repository\<close>

record claimed_execution =
  ce_execution_id :: uuid
  ce_range_id :: uuid
  ce_source_channel_id :: uuid
  ce_profile_version_id :: uuid
  ce_from :: int
  ce_to :: int
  ce_watermark :: int
  ce_attempt_count :: int
  ce_max_attempts :: int
  ce_lease_token :: uuid

definition own_wakeup :: "uuid \<Rightarrow> wakeup_row \<Rightarrow> bool" where
  "own_wakeup entity_id w =
     (wk_queue w = range_execution_queue \<and> wk_entity_id w = entity_id \<and> wk_status w \<noteq> W_CANCELLED)"

definition set_wakeup_terminal :: "uuid \<Rightarrow> int \<Rightarrow> database \<Rightarrow> database" where
  "set_wakeup_terminal entity_id now db =
     db\<lparr>wakeups := update_where (own_wakeup entity_id) (complete_wakeup now) (wakeups db)\<rparr>"

definition reschedule_wakeup :: "uuid \<Rightarrow> int \<Rightarrow> int \<Rightarrow> database \<Rightarrow> database" where
  "reschedule_wakeup entity_id retry_at now db =
     db\<lparr>wakeups := update_where (own_wakeup entity_id) (\<lambda>w. w\<lparr>wk_status := W_PENDING,
       wk_next_attempt_at := retry_at, wk_lease_token := None, wk_lease_expires_at := None,
       wk_completed_at := None, wk_updated_at := now\<rparr>) (wakeups db)\<rparr>"

definition fail_range :: "uuid \<Rightarrow> int \<Rightarrow> database \<Rightarrow> database" where
  "fail_range k now db =
     (case find_range k db of
        None \<Rightarrow> db
      | Some r \<Rightarrow> save_range (r\<lparr>pr_status := R_FAILED, pr_updated_at := now\<rparr>) db)"

definition terminalize_exhausted_lease :: "execution_row \<Rightarrow> int \<Rightarrow> database \<Rightarrow> database" where
  "terminalize_exhausted_lease e now db =
     set_wakeup_terminal (re_id e) now
       (fail_range (re_range_id e) now
         (save_execution (e\<lparr>re_status := E_FAILED, re_next_retry_at := None, re_lease_token := None,
            re_lease_expires_at := None, re_last_error_code := Some ''LEASE_EXPIRED'',
            re_last_error_type := Some ''WorkerLeaseExpired'', re_last_failure_at := Some now,
            re_updated_at := now\<rparr>) db))"

text \<open>\<^verbatim>\<open>t is not None and t <= now\<close>.\<close>

definition passed :: "int option \<Rightarrow> int \<Rightarrow> bool" where
  "passed t now = (case t of None \<Rightarrow> False | Some i \<Rightarrow> i \<le> now)"

definition eligible :: "int \<Rightarrow> execution_row \<Rightarrow> bool" where
  "eligible now e =
     (re_status e = E_PENDING
      \<or> (re_status e = E_RETRY_WAIT \<and> passed (re_next_retry_at e) now)
      \<or> (re_status e = E_RUNNING \<and> passed (re_lease_expires_at e) now))"

definition lease_execution :: "uuid \<Rightarrow> int \<Rightarrow> int \<Rightarrow> execution_row \<Rightarrow> execution_row" where
  "lease_execution token now duration e =
     e\<lparr>re_status := E_RUNNING, re_attempt_count := re_attempt_count e + 1, re_next_retry_at := None,
       re_lease_token := Some token, re_lease_expires_at := Some (now + duration),
       re_started_at := (case re_started_at e of None \<Rightarrow> Some now | Some t \<Rightarrow> Some t),
       re_updated_at := now\<rparr>"

definition claimed :: "execution_row \<Rightarrow> uuid \<Rightarrow> uuid \<Rightarrow> claimed_execution" where
  "claimed e source_channel_id token =
     \<lparr>ce_execution_id = re_id e, ce_range_id = re_range_id e, ce_source_channel_id = source_channel_id,
      ce_profile_version_id = re_profile_version_id e, ce_from = re_from e, ce_to = re_to e,
      ce_watermark = re_watermark e, ce_attempt_count = re_attempt_count e,
      ce_max_attempts = re_max_attempts e, ce_lease_token = token\<rparr>"

definition claim_execution ::
  "uuid list \<Rightarrow> uuid \<Rightarrow> uuid \<Rightarrow> int \<Rightarrow> int \<Rightarrow> database \<Rightarrow> claimed_execution option \<times> database" where
  "claim_execution locked token execution_id now duration db =
     (case find_execution execution_id db of
        None \<Rightarrow> (None, db)
      | Some e \<Rightarrow>
          (case find_range (re_range_id e) db of
             None \<Rightarrow> (None, db)
           | Some r \<Rightarrow>
               if re_id e \<in> set locked \<or> pr_id r \<in> set locked then (None, db)
               else if re_status e = E_COMPLETED \<or> re_status e = E_FAILED then (None, db)
               else if \<not> eligible now e then (None, db)
               else if re_max_attempts e \<le> re_attempt_count e
               then (None, terminalize_exhausted_lease e now db)
               else
                 let e' = lease_execution token now duration e
                 in (Some (claimed e' (pr_source_channel_id r) token), save_execution e' db)))"

definition locked_active_row :: "uuid \<Rightarrow> uuid \<Rightarrow> int \<Rightarrow> database \<Rightarrow> execution_row option" where
  "locked_active_row execution_id lease_token now db =
     find (\<lambda>e. re_id e = execution_id \<and> re_status e = E_RUNNING \<and> re_lease_token e = Some lease_token
       \<and> (case re_lease_expires_at e of None \<Rightarrow> False | Some t \<Rightarrow> now < t)) (executions db)"

definition advance_row :: "uuid \<Rightarrow> uuid \<Rightarrow> int \<Rightarrow> int \<Rightarrow> database \<Rightarrow> bool \<times> database" where
  "advance_row execution_id lease_token watermark now db =
     (case locked_active_row execution_id lease_token now db of
        None \<Rightarrow> (False, db)
      | Some e \<Rightarrow>
          if \<not> (re_watermark e \<le> watermark \<and> watermark \<le> re_to e) then (False, db)
          else (True, save_execution (e\<lparr>re_watermark := watermark, re_updated_at := now\<rparr>) db))"

definition completed_row :: "int \<Rightarrow> execution_row \<Rightarrow> execution_row" where
  "completed_row now e =
     e\<lparr>re_status := E_COMPLETED, re_lease_token := None, re_lease_expires_at := None,
       re_completed_at := Some now, re_updated_at := now\<rparr>"

definition advanced_range :: "int \<Rightarrow> execution_row \<Rightarrow> range_row \<Rightarrow> range_row" where
  "advanced_range now e r =
     r\<lparr>pr_watermark := Some (re_to e), pr_active_high := None,
       pr_status := (if pr_end_mode r = ''fixed'' \<and> Some (re_to e) = pr_resolved_fixed_end r
         then R_COMPLETED else R_ACTIVE),
       pr_updated_at := now\<rparr>"

definition complete_execution :: "uuid \<Rightarrow> uuid \<Rightarrow> int \<Rightarrow> database \<Rightarrow> (bool \<times> database) result" where
  "complete_execution execution_id lease_token now db =
     (case locked_active_row execution_id lease_token now db of
        None \<Rightarrow> Inr (False, db)
      | Some e \<Rightarrow>
          if re_watermark e \<noteq> re_to e then Inr (False, db)
          else (case find_range (re_range_id e) db of
              None \<Rightarrow> Inr (False, db)
            | Some r \<Rightarrow>
                (case expected_from r of
                   None \<Rightarrow> Inl TypeError
                 | Some expected \<Rightarrow>
                     if expected \<noteq> re_from e \<or> pr_active_high r \<noteq> Some (re_to e) then Inr (False, db)
                     else
                       Inr (True, set_wakeup_terminal (re_id e) now
                         (save_range (advanced_range now e r) (save_execution (completed_row now e) db))))))"

definition failure_row :: "string \<Rightarrow> string \<Rightarrow> int \<Rightarrow> execution_row \<Rightarrow> execution_row" where
  "failure_row error_code error_type now e =
     e\<lparr>re_last_error_code := Some error_code, re_last_error_type := Some error_type,
       re_last_failure_at := Some now, re_lease_token := None, re_lease_expires_at := None,
       re_updated_at := now\<rparr>"

definition fail_execution ::
  "uuid \<Rightarrow> uuid \<Rightarrow> string \<Rightarrow> string \<Rightarrow> bool \<Rightarrow> int \<Rightarrow> int \<Rightarrow> database \<Rightarrow> bool \<times> database" where
  "fail_execution execution_id lease_token error_code error_type retryable retry_at now db =
     (case locked_active_row execution_id lease_token now db of
        None \<Rightarrow> (False, db)
      | Some e \<Rightarrow>
          let failed = failure_row error_code error_type now e
          in if retryable \<and> re_attempt_count e < re_max_attempts e
             then (True, reschedule_wakeup (re_id e) retry_at now
               (save_execution (failed\<lparr>re_status := E_RETRY_WAIT, re_next_retry_at := Some retry_at\<rparr>) db))
             else (True, set_wakeup_terminal (re_id e) now (fail_range (re_range_id e) now
               (save_execution (failed\<lparr>re_status := E_FAILED, re_next_retry_at := None\<rparr>) db))))"

end
