(* ===== verification/Range_Execution.thy ===== *)
theory Range_Execution
  imports Range_Database
begin

text \<open>
  The behaviour of the processing database over time: every sequence of repository
  transactions and operator changes keeps the windows of a range contiguous, the leases
  exclusive and the wake-ups of unfinished executions alive.
\<close>

section \<open>Steps of the database\<close>

text \<open>
  What an operator may change outside the repositories: channels in any way, the settings of a
  range but not its progress, and new ranges without progress.
\<close>

definition configured :: "range_row \<Rightarrow> range_row \<Rightarrow> bool" where
  "configured r r' \<longleftrightarrow>
     pr_id r' = pr_id r \<and> pr_watermark r' = pr_watermark r \<and> pr_active_high r' = pr_active_high r \<and>
     (pr_resolved_start r \<noteq> None \<longrightarrow> pr_resolved_start r' = pr_resolved_start r) \<and>
     (\<forall>s. pr_resolved_start r' = Some s \<longrightarrow> 0 < s)"

definition fresh_range :: "range_row \<Rightarrow> bool" where
  "fresh_range r \<longleftrightarrow> pr_watermark r = None \<and> pr_active_high r = None \<and>
     (\<forall>s. pr_resolved_start r = Some s \<longrightarrow> 0 < s)"

text \<open>
  The transaction complete_for_entity ends the wake-up of any entity of any queue. No code calls
  it; a call for the wake-up of an execution that is still unfinished would lose that wake-up, so
  a step with it is one for another queue or for an entity that is no unfinished execution.
\<close>

definition unfinished_execution :: "uuid \<Rightarrow> database \<Rightarrow> bool" where
  "unfinished_execution k db \<longleftrightarrow> (\<exists>e \<in> set (executions db). re_id e = k \<and> active_status (re_status e))"

inductive db_step :: "database \<Rightarrow> database \<Rightarrow> bool" where
  freeze: "create_execution_and_wakeup wakeup_id x range_execution_queue now db = Inr (b, db') \<Longrightarrow>
    db_step db db'"
| claim: "claim_execution locked token eid now duration db = (c, db') \<Longrightarrow> db_step db db'"
| advance: "advance_row eid token w now db = (b, db') \<Longrightarrow> db_step db db'"
| complete: "complete_execution eid token now db = Inr (b, db') \<Longrightarrow> db_step db db'"
| fail: "fail_execution eid token error_code error_type retryable retry_at now db = (b, db') \<Longrightarrow>
    db_step db db'"
| dispatch_claim: "claim_due locked tokens now duration limit db = (cs, db') \<Longrightarrow> db_step db db'"
| dispatch_release: "release_claim wid token next_at now dispatched db = (b, db') \<Longrightarrow> db_step db db'"
| finish_wakeup: "complete_for_entity queue entity_id now db = (b, db') \<Longrightarrow>
    \<not> (queue = range_execution_queue \<and> unfinished_execution entity_id db) \<Longrightarrow> db_step db db'"
| configure: "list_all2 configured (ranges db) rs \<Longrightarrow>
    db_step db (db\<lparr>channels := cs, ranges := rs\<rparr>)"
| new_range: "fresh_range r \<Longrightarrow> pr_id r \<notin> pr_id ` set (ranges db) \<Longrightarrow>
    db_step db (db\<lparr>ranges := ranges db @ [r]\<rparr>)"

definition empty_database :: "database \<Rightarrow> bool" where
  "empty_database db \<longleftrightarrow> ranges db = [] \<and> executions db = [] \<and> wakeups db = []"

inductive reachable :: "database \<Rightarrow> bool" where
  initial: "empty_database db \<Longrightarrow> reachable db"
| step: "reachable db \<Longrightarrow> db_step db db' \<Longrightarrow> reachable db'"

section \<open>The invariant of executions and ranges\<close>

definition row_ok :: "execution_row \<Rightarrow> bool" where
  "row_ok e \<longleftrightarrow>
     0 \<le> re_from e \<and> re_from e < re_to e \<and> re_from e \<le> re_watermark e \<and> re_watermark e \<le> re_to e \<and>
     0 < re_max_attempts e \<and> 0 \<le> re_attempt_count e \<and> re_attempt_count e \<le> re_max_attempts e \<and>
     (re_status e = E_COMPLETED \<longrightarrow> re_watermark e = re_to e \<and> re_completed_at e \<noteq> None) \<and>
     (re_status e = E_RUNNING \<longleftrightarrow> re_lease_token e \<noteq> None) \<and>
     (re_status e = E_RUNNING \<longleftrightarrow> re_lease_expires_at e \<noteq> None) \<and>
     (re_status e = E_RETRY_WAIT \<longleftrightarrow> re_next_retry_at e \<noteq> None) \<and>
     (re_status e = E_RETRY_WAIT \<or> re_status e = E_FAILED \<longrightarrow>
        re_last_error_code e \<noteq> None \<and> re_last_error_type e \<noteq> None \<and> re_last_failure_at e \<noteq> None)"

abbreviation active :: "execution_row \<Rightarrow> bool" where
  "active e \<equiv> active_status (re_status e)"

definition completed_of :: "uuid \<Rightarrow> database \<Rightarrow> execution_row set" where
  "completed_of k db = {e \<in> set (executions db). re_range_id e = k \<and> re_status e = E_COMPLETED}"

text \<open>
  The completed windows of a range are disjoint and cover exactly the message ids from its
  start to its watermark.
\<close>

definition tiled :: "range_row \<Rightarrow> execution_row set \<Rightarrow> bool" where
  "tiled r C \<longleftrightarrow>
     (case pr_resolved_start r of
        None \<Rightarrow> C = {} \<and> pr_watermark r = None
      | Some s \<Rightarrow> 0 < s \<and> (\<exists>w. expected_from r = Some w \<and> s - 1 \<le> w \<and>
          (\<forall>m. s - 1 < m \<and> m \<le> w \<longleftrightarrow> (\<exists>e \<in> C. re_from e < m \<and> m \<le> re_to e)) \<and>
          (\<forall>e \<in> C. \<forall>e' \<in> C. e \<noteq> e' \<longrightarrow> re_to e \<le> re_from e' \<or> re_to e' \<le> re_from e)))"

text \<open>The window of an unfinished execution is the one its range has frozen.\<close>

definition frozen :: "execution_row \<Rightarrow> database \<Rightarrow> bool" where
  "frozen e db \<longleftrightarrow> (\<exists>r \<in> set (ranges db). pr_id r = re_range_id e \<and>
     pr_active_high r = Some (re_to e) \<and> expected_from r = Some (re_from e))"

definition bounds_of :: "execution_row \<Rightarrow> uuid \<times> int \<times> int" where
  "bounds_of e = (re_range_id e, re_from e, re_to e)"

definition ranges_ok :: "database \<Rightarrow> bool" where
  "ranges_ok db \<longleftrightarrow>
     distinct (map pr_id (ranges db)) \<and> distinct (map re_id (executions db)) \<and>
     distinct (map bounds_of (executions db)) \<and>
     (\<forall>e \<in> set (executions db). row_ok e \<and> re_range_id e \<in> pr_id ` set (ranges db) \<and>
        (active e \<longrightarrow> frozen e db)) \<and>
     (\<forall>r \<in> set (ranges db). tiled r (completed_of (pr_id r) db))"

lemma ranges_okD:
  assumes "ranges_ok db"
  shows "distinct (map pr_id (ranges db))" and "distinct (map re_id (executions db))"
    and "distinct (map bounds_of (executions db))"
    and "e \<in> set (executions db) \<Longrightarrow> row_ok e"
    and "e \<in> set (executions db) \<Longrightarrow> re_range_id e \<in> pr_id ` set (ranges db)"
    and "e \<in> set (executions db) \<Longrightarrow> active e \<Longrightarrow> frozen e db"
    and "r \<in> set (ranges db) \<Longrightarrow> tiled r (completed_of (pr_id r) db)"
  using assms by (simp_all add: ranges_ok_def)

lemma active_status_simps [simp]:
  "active_status E_PENDING" "active_status E_RUNNING" "active_status E_RETRY_WAIT"
  "\<not> active_status E_COMPLETED" "\<not> active_status E_FAILED"
  by (simp_all add: active_status_def)

lemma expected_from_update [simp]:
  "expected_from (r\<lparr>pr_active_high := a\<rparr>) = expected_from r"
  "expected_from (r\<lparr>pr_status := s\<rparr>) = expected_from r"
  "expected_from (r\<lparr>pr_updated_at := t\<rparr>) = expected_from r"
  by (simp_all add: expected_from_def split: option.split)

lemma save_execution_simps [simp]:
  "ranges (save_execution e db) = ranges db" "wakeups (save_execution e db) = wakeups db"
  "executions (save_execution e db) = update_where (\<lambda>x. re_id x = re_id e) (\<lambda>_. e) (executions db)"
  by (simp_all add: save_execution_def)

lemma save_range_simps [simp]:
  "executions (save_range r db) = executions db" "wakeups (save_range r db) = wakeups db"
  "ranges (save_range r db) = update_where (\<lambda>x. pr_id x = pr_id r) (\<lambda>_. r) (ranges db)"
  by (simp_all add: save_range_def)

lemma ranges_ok_cong:
  "ranges db' = ranges db \<Longrightarrow> executions db' = executions db \<Longrightarrow> ranges_ok db' = ranges_ok db"
  by (simp add: ranges_ok_def completed_of_def frozen_def)

lemma wakeup_updates_ranges_ok [simp]:
  "ranges_ok (set_wakeup_terminal k now db) = ranges_ok db"
  "ranges_ok (reschedule_wakeup k retry_at now db) = ranges_ok db"
  by (rule ranges_ok_cong; simp add: set_wakeup_terminal_def reschedule_wakeup_def)+

text \<open>Replacing an unfinished row by one with the same window that is not completed.\<close>

lemma save_execution_ranges_ok:
  assumes ok: "ranges_ok db" and e: "e \<in> set (executions db)" "active e"
    and same: "re_id e' = re_id e" "bounds_of e' = bounds_of e"
    and e': "row_ok e'" "re_status e' \<noteq> E_COMPLETED"
  shows "ranges_ok (save_execution e' db)"
proof -
  let ?db = "save_execution e' db"
  note D = ranges_okD [OF ok]
  have rows: "set (executions ?db) = insert e' (set (executions db) - {e})"
    using set_update_key [OF D(2) e(1) same(1)] by simp
  have id: "map re_id (executions ?db) = map re_id (executions db)"
    using same(1) by (simp add: map_update_where)
  have bounds: "map bounds_of (executions ?db) = map bounds_of (executions db)"
    using map_update_key [OF D(2) e(1) same] by simp
  have not_completed: "re_status e \<noteq> E_COMPLETED" using e(2) by (auto simp: active_status_def)
  have completed: "completed_of k ?db = completed_of k db" for k
  proof -
    have "x \<in> completed_of k ?db \<longleftrightarrow> x \<in> completed_of k db" for x
      unfolding completed_of_def rows mem_Collect_eq insert_iff Diff_iff
      using not_completed e'(2) by (cases "x = e'"; cases "x = e") simp_all
    then show ?thesis by (rule set_eqI)
  qed
  have fr: "frozen x ?db = frozen x db" for x by (simp add: frozen_def)
  have "frozen e' db" using D(6) [OF e] same(2) by (simp add: frozen_def bounds_of_def)
  moreover have "re_range_id e' \<in> pr_id ` set (ranges db)"
    using D(5) [OF e(1)] same(2) by (simp add: bounds_of_def)
  ultimately have "\<forall>x \<in> set (executions ?db). row_ok x \<and> re_range_id x \<in> pr_id ` set (ranges ?db)
      \<and> (active x \<longrightarrow> frozen x ?db)"
    unfolding rows fr save_execution_simps(1) using D(4-6) e'(1) by blast
  then show ?thesis
    unfolding ranges_ok_def id bounds completed save_execution_simps(1) using D(1-3,7) by blast
qed

lemma tiled_same:
  assumes "pr_resolved_start r' = pr_resolved_start r" and "pr_watermark r' = pr_watermark r"
  shows "tiled r' C = tiled r C"
  unfolding tiled_def expected_from_def assms ..

lemma fail_range_ranges_ok:
  assumes "ranges_ok db"
  shows "ranges_ok (fail_range k now db)"
proof (cases "find_range k db")
  case None
  with assms show ?thesis by (simp add: fail_range_def)
next
  case (Some r)
  let ?r = "r\<lparr>pr_status := R_FAILED, pr_updated_at := now\<rparr>"
  let ?db = "save_range ?r db"
  note D = ranges_okD [OF assms]
  from Some have r: "r \<in> set (ranges db)" by (auto simp: find_range_def find_Some_iff)
  have rows: "set (ranges ?db) = insert ?r (set (ranges db) - {r})"
    using set_update_key [OF D(1) r, of ?r] by simp
  have id: "map pr_id (ranges ?db) = map pr_id (ranges db)" by (simp add: map_update_where)
  then have ids: "pr_id ` set (ranges ?db) = pr_id ` set (ranges db)" by (metis list.set_map)
  have fr: "frozen e ?db" if "frozen e db" for e
    using that r unfolding frozen_def rows by (cases "pr_id r = re_range_id e") (auto dest: distinct_key_eq [OF D(1)])
  have "tiled ?r C = tiled r C" for C by (rule tiled_same) simp_all
  then have "tiled x (completed_of (pr_id x) ?db)" if "x \<in> set (ranges ?db)" for x
    using that D(7) r unfolding rows by (auto simp: completed_of_def)
  then have "ranges_ok ?db"
    unfolding ranges_ok_def id ids using D fr by simp
  with Some show ?thesis by (simp add: fail_range_def)
qed

section \<open>Each operation keeps the invariant\<close>

lemma find_execution_Some: "find_execution k db = Some e \<Longrightarrow> e \<in> set (executions db) \<and> re_id e = k"
  by (auto simp: find_execution_def find_Some_iff)

lemma find_range_Some: "find_range k db = Some r \<Longrightarrow> r \<in> set (ranges db) \<and> pr_id r = k"
  by (auto simp: find_range_def find_Some_iff)

lemma locked_active_row_Some:
  "locked_active_row k token now db = Some e \<Longrightarrow>
     e \<in> set (executions db) \<and> re_id e = k \<and> re_status e = E_RUNNING \<and> re_lease_token e = Some token
     \<and> (\<exists>t. re_lease_expires_at e = Some t \<and> now < t)"
  by (auto simp: locked_active_row_def find_Some_iff split: option.splits)

lemma bounds_of_update [simp]:
  "bounds_of (e\<lparr>re_status := st\<rparr>) = bounds_of e" "bounds_of (e\<lparr>re_watermark := w\<rparr>) = bounds_of e"
  "bounds_of (e\<lparr>re_attempt_count := n\<rparr>) = bounds_of e" "bounds_of (e\<lparr>re_next_retry_at := nx\<rparr>) = bounds_of e"
  "bounds_of (e\<lparr>re_lease_token := tk\<rparr>) = bounds_of e" "bounds_of (e\<lparr>re_lease_expires_at := nx\<rparr>) = bounds_of e"
  "bounds_of (e\<lparr>re_last_error_code := tk\<rparr>) = bounds_of e" "bounds_of (e\<lparr>re_last_error_type := tk\<rparr>) = bounds_of e"
  "bounds_of (e\<lparr>re_last_failure_at := nx\<rparr>) = bounds_of e" "bounds_of (e\<lparr>re_started_at := nx\<rparr>) = bounds_of e"
  "bounds_of (e\<lparr>re_completed_at := nx\<rparr>) = bounds_of e" "bounds_of (e\<lparr>re_updated_at := u\<rparr>) = bounds_of e"
  by (simp_all add: bounds_of_def)

lemma eligible_active: "eligible now e \<Longrightarrow> active e"
  by (auto simp: eligible_def)

lemma claim_ranges_ok:
  assumes ok: "ranges_ok db" and run: "claim_execution locked token eid now duration db = (c, db')"
  shows "ranges_ok db'"
proof (cases "db' = db")
  case False
  with run obtain e where e: "find_execution eid db = Some e" and el: "eligible now e"
    and db': "db' = (if re_max_attempts e \<le> re_attempt_count e then terminalize_exhausted_lease e now db
      else save_execution (lease_execution token now duration e) db)"
    by (auto simp: claim_execution_def Let_def split: option.splits if_splits)
  note mem = find_execution_Some [OF e] and act = eligible_active [OF el]
  have row: "row_ok e" using ranges_okD(4) [OF ok] mem by blast
  show ?thesis
  proof (cases "re_max_attempts e \<le> re_attempt_count e")
    case True
    have "row_ok (e\<lparr>re_status := E_FAILED, re_next_retry_at := None, re_lease_token := None,
            re_lease_expires_at := None, re_last_error_code := Some ''LEASE_EXPIRED'',
            re_last_error_type := Some ''WorkerLeaseExpired'', re_last_failure_at := Some now,
            re_updated_at := now\<rparr>)"
      using row by (simp add: row_ok_def)
    with save_execution_ranges_ok [OF ok _ act] mem True db' show ?thesis
      by (simp add: terminalize_exhausted_lease_def fail_range_ranges_ok)
  next
    case False
    have "row_ok (lease_execution token now duration e)"
      using row False by (simp add: row_ok_def lease_execution_def)
    with save_execution_ranges_ok [OF ok _ act] mem False db' show ?thesis
      by (simp add: lease_execution_def)
  qed
qed (use ok in simp)

lemma advance_ranges_ok:
  assumes ok: "ranges_ok db" and run: "advance_row eid token w now db = (b, db')"
  shows "ranges_ok db'"
proof (cases "db' = db")
  case False
  with run obtain e where e: "locked_active_row eid token now db = Some e"
    and w: "re_watermark e \<le> w" "w \<le> re_to e"
    and db': "db' = save_execution (e\<lparr>re_watermark := w, re_updated_at := now\<rparr>) db"
    by (auto simp: advance_row_def split: option.splits if_splits)
  note mem = locked_active_row_Some [OF e]
  have "row_ok e" using ranges_okD(4) [OF ok] mem by blast
  then have "row_ok (e\<lparr>re_watermark := w, re_updated_at := now\<rparr>)"
    using w mem by (auto simp: row_ok_def)
  with save_execution_ranges_ok [OF ok, of e] mem show ?thesis by (simp add: db')
qed (use ok in simp)

lemma fail_ranges_ok:
  assumes ok: "ranges_ok db"
    and run: "fail_execution eid token code kind retryable retry_at now db = (b, db')"
  shows "ranges_ok db'"
proof (cases "locked_active_row eid token now db")
  case None
  with ok run show ?thesis by (simp add: fail_execution_def)
next
  case (Some e)
  note mem = locked_active_row_Some [OF Some]
  have row: "row_ok e" using ranges_okD(4) [OF ok] mem by blast
  let ?f = "failure_row code kind now e"
  have "row_ok (?f\<lparr>re_status := E_RETRY_WAIT, re_next_retry_at := Some retry_at\<rparr>)"
    "row_ok (?f\<lparr>re_status := E_FAILED, re_next_retry_at := None\<rparr>)"
    "bounds_of ?f = bounds_of e" "re_id ?f = re_id e"
    using row by (simp_all add: row_ok_def failure_row_def)
  with save_execution_ranges_ok [OF ok, of e] mem Some run show ?thesis
    by (auto simp: fail_execution_def Let_def fail_range_ranges_ok split: if_splits)
qed

lemma tiled_extend:
  assumes t: "tiled r C" and r: "expected_from r = Some (re_from e)" and e: "re_from e < re_to e"
    and C: "\<forall>x \<in> C. re_from x < re_to x" and r': "pr_resolved_start r' = pr_resolved_start r" "expected_from r' = Some (re_to e)"
  shows "tiled r' (insert e C)"
proof -
  obtain s where s: "pr_resolved_start r = Some s"
    using t r by (cases "pr_resolved_start r") (auto simp: tiled_def expected_from_def)
  with t r have pos: "0 < s" "s - 1 \<le> re_from e"
    and cover: "\<And>m. s - 1 < m \<and> m \<le> re_from e \<longleftrightarrow> (\<exists>e \<in> C. re_from e < m \<and> m \<le> re_to e)"
    and disj: "\<And>x y. x \<in> C \<Longrightarrow> y \<in> C \<Longrightarrow> x \<noteq> y \<Longrightarrow> re_to x \<le> re_from y \<or> re_to y \<le> re_from x"
    by (auto simp: tiled_def)
  have "s - 1 < m \<and> m \<le> re_to e \<longleftrightarrow> (\<exists>x \<in> insert e C. re_from x < m \<and> m \<le> re_to x)" for m
    using cover [of m] pos(2) e by auto
  moreover have "re_to x \<le> re_from e" if "x \<in> C" for x
    using cover [of "re_to x"] C that by auto
  ultimately show ?thesis using s pos e disj r' by (auto simp: tiled_def)
qed

lemma complete_ranges_ok:
  assumes ok: "ranges_ok db" and run: "complete_execution eid token now db = Inr (b, db')"
  shows "ranges_ok db'"
proof (cases "db' = db")
  case False
  with run obtain e r where e: "locked_active_row eid token now db = Some e" and wm: "re_watermark e = re_to e"
    and r: "find_range (re_range_id e) db = Some r" and ex: "expected_from r = Some (re_from e)"
    and high: "pr_active_high r = Some (re_to e)"
    and db': "db' = set_wakeup_terminal (re_id e) now
      (save_range (advanced_range now e r) (save_execution (completed_row now e) db))"
    by (auto simp: complete_execution_def Let_def split: option.splits if_splits)
  define r' where "r' = advanced_range now e r"
  define e' where "e' = completed_row now e"
  let ?db = "save_range r' (save_execution e' db)"
  note D = ranges_okD [OF ok] and mem = locked_active_row_Some [OF e] and rm = find_range_Some [OF r]
  have e'_simps: "re_id e' = re_id e" "re_range_id e' = re_range_id e" "re_from e' = re_from e"
    "re_to e' = re_to e" "re_status e' = E_COMPLETED" "bounds_of e' = bounds_of e"
    by (simp_all add: e'_def completed_row_def)
  have r'_simps: "pr_id r' = pr_id r" "pr_resolved_start r' = pr_resolved_start r"
    "expected_from r' = Some (re_to e)"
    by (simp_all add: r'_def advanced_range_def expected_from_def)
  have erows: "set (executions ?db) = insert e' (set (executions db) - {e})"
    using set_update_key [OF D(2), of e e'] mem e'_simps(1) by simp
  have rrows: "set (ranges ?db) = insert r' (set (ranges db) - {r})"
    using set_update_key [OF D(1), of r r'] rm r'_simps(1) by simp
  have ids: "map re_id (executions ?db) = map re_id (executions db)"
    "map pr_id (ranges ?db) = map pr_id (ranges db)"
    using e'_simps(1) r'_simps(1) by (simp_all add: map_update_where)
  then have rids: "pr_id ` set (ranges ?db) = pr_id ` set (ranges db)" by (metis list.set_map)
  have bounds: "map bounds_of (executions ?db) = map bounds_of (executions db)"
    using map_update_key [OF D(2), of e e' bounds_of] mem e'_simps by simp
  have row: "row_ok e" using D(4) mem by blast
  then have row': "row_ok e'" using wm mem by (simp add: row_ok_def e'_def completed_row_def)
  have others: "frozen x ?db" if x: "x \<in> set (executions db) - {e}" "active x" for x
  proof -
    from D(6) x obtain rx where rx: "rx \<in> set (ranges db)" "pr_id rx = re_range_id x"
      "pr_active_high rx = Some (re_to x)" "expected_from rx = Some (re_from x)"
      by (auto simp: frozen_def)
    have "rx \<noteq> r"
    proof
      assume "rx = r"
      with rx ex high rm have "bounds_of x = bounds_of e" by (simp add: bounds_of_def)
      with distinct_key_eq [OF D(3)] x(1) mem show False by blast
    qed
    with rx show ?thesis unfolding frozen_def rrows by blast
  qed
  have completed: "completed_of k ?db = (if k = pr_id r then insert e' (completed_of k db) else completed_of k db)" for k
    using mem rm e'_simps unfolding completed_of_def erows by auto
  have "\<forall>x \<in> completed_of (pr_id r) db. re_from x < re_to x"
    using D(4) by (simp add: completed_of_def row_ok_def)
  then have "tiled r' (insert e' (completed_of (pr_id r) db))"
    using tiled_extend [OF D(7), of r e'] rm ex row r'_simps e'_simps by (simp add: row_ok_def)
  moreover have "tiled x (completed_of (pr_id x) ?db)" if x: "x \<in> set (ranges db) - {r}" for x
  proof -
    have "pr_id x \<noteq> pr_id r" using distinct_key_eq [OF D(1)] x rm by blast
    then show ?thesis using D(7) x by (simp add: completed)
  qed
  ultimately have "\<forall>x \<in> set (ranges ?db). tiled x (completed_of (pr_id x) ?db)"
    unfolding rrows by (auto simp: completed r'_simps(1))
  moreover have "\<forall>x \<in> set (executions ?db). row_ok x \<and> re_range_id x \<in> pr_id ` set (ranges ?db)
      \<and> (active x \<longrightarrow> frozen x ?db)"
    unfolding erows rids using D(4,5) row' others e'_simps mem by auto
  ultimately have "ranges_ok ?db"
    unfolding ranges_ok_def using D(1-3) by (simp only: ids bounds)
  then show ?thesis by (simp add: db' r'_def e'_def)
next
  case True
  with ok show ?thesis by simp
qed

lemma tiled_window_le:
  assumes "tiled r C" and "e \<in> C" and "re_from e < re_to e" and "expected_from r = Some w"
  shows "re_to e \<le> w"
proof -
  obtain s where "pr_resolved_start r = Some s"
    using assms(1,2) by (cases "pr_resolved_start r") (simp_all add: tiled_def)
  with assms have "s - 1 < re_to e \<and> re_to e \<le> w" by (auto simp: tiled_def)
  then show ?thesis by simp
qed

lemma freeze_ranges_ok:
  assumes ok: "ranges_ok db" and run: "create_execution_and_wakeup wid x queue now db = Inr (b, db')"
  shows "ranges_ok db'"
proof (cases "db' = db")
  case True
  with ok show ?thesis by simp
next
  case False
  define e where "e = new_execution_row x now"
  from run False obtain r c where r: "find_range (pe_range_id x) db = Some r"
    and c: "find_channel (pr_source_channel_id r) db = Some c"
    and fz: "can_freeze r (sc_active_profile_version_id c) (sc_enabled c) x"
    and new: "new_row_allowed e" "\<not> list_ex (conflicting e) (executions db)"
    and db': "db' = (save_range
        (r\<lparr>pr_active_high := Some (pe_to x), pr_status := R_ACTIVE, pr_updated_at := now\<rparr>) db)
        \<lparr>executions := executions db @ [e],
         wakeups := wakeups db @ [new_wakeup_row wid queue (re_id e) now]\<rparr>"
    by (auto simp: create_execution_and_wakeup_def Let_def e_def split: option.splits if_splits)
  define r' where "r' = r\<lparr>pr_active_high := Some (pe_to x), pr_status := R_ACTIVE, pr_updated_at := now\<rparr>"
  note D = ranges_okD [OF ok] and rm = find_range_Some [OF r]
  have fz_simps: "pr_active_high r = None" "expected_from r = Some (pe_from x)" "pe_from x < pe_to x"
    using fz by (auto simp: can_freeze_def split: if_splits option.splits)
  have e_simps: "re_range_id e = pr_id r" "re_from e = pe_from x" "re_to e = pe_to x" "active e"
    "re_status e = E_PENDING" "row_ok e"
    using rm new(1) by (simp_all add: e_def new_execution_row_def row_ok_def new_row_allowed_def)
  have r'_simps: "pr_id r' = pr_id r" "pr_active_high r' = Some (pe_to x)"
    "expected_from r' = Some (pe_from x)"
    using fz_simps by (simp_all add: r'_def)
  have execs: "executions db' = executions db @ [e]" and rngs: "ranges db' = ranges (save_range r' db)"
    by (simp_all add: db' r'_def)
  have rrows: "set (ranges db') = insert r' (set (ranges db) - {r})"
    unfolding rngs using set_update_key [OF D(1), of r r'] rm r'_simps(1) by simp
  have ids: "map pr_id (ranges db') = map pr_id (ranges db)"
    unfolding rngs using r'_simps(1) by (simp add: map_update_where)
  then have rids: "pr_id ` set (ranges db') = pr_id ` set (ranges db)" by (metis list.set_map)
  have "frozen y db'" if y: "y \<in> set (executions db)" "active y" for y
  proof -
    from D(6) [OF y] obtain ry where ry: "ry \<in> set (ranges db)" "pr_id ry = re_range_id y"
      "pr_active_high ry = Some (re_to y)" "expected_from ry = Some (re_from y)"
      by (auto simp: frozen_def)
    with fz_simps(1) have "ry \<noteq> r" by auto
    with ry show ?thesis unfolding frozen_def rrows by blast
  qed
  moreover have "frozen e db'"
    unfolding frozen_def rrows using r'_simps e_simps by auto
  ultimately have rows: "\<forall>y \<in> set (executions db'). row_ok y \<and> re_range_id y \<in> pr_id ` set (ranges db')
      \<and> (active y \<longrightarrow> frozen y db')"
    unfolding execs rids using D(4,5) e_simps imageI [OF conjunct1 [OF rm], of pr_id] by auto
  have "re_id e \<noteq> re_id y \<and> bounds_of e \<noteq> bounds_of y" if "y \<in> set (executions db)" for y
  proof -
    have "\<not> conflicting e y" using new(2) that by (auto simp: list_ex_iff)
    then show ?thesis by (auto simp: conflicting_def bounds_of_def)
  qed
  then have "re_id e \<notin> re_id ` set (executions db)" "bounds_of e \<notin> bounds_of ` set (executions db)"
    by blast+
  then have "distinct (map re_id (executions db'))" "distinct (map bounds_of (executions db'))"
    using D(2,3) by (simp_all add: execs)
  moreover have "completed_of k db' = completed_of k db" for k
    using e_simps(5) by (auto simp: completed_of_def execs)
  moreover have "tiled r' (completed_of (pr_id r') db) = tiled r (completed_of (pr_id r) db)"
    unfolding r'_simps(1) by (rule tiled_same) (simp_all add: r'_def)
  then have "\<forall>y \<in> set (ranges db'). tiled y (completed_of (pr_id y) db)"
    unfolding rrows using D(7) rm by blast
  ultimately show ?thesis unfolding ranges_ok_def ids using D(1) rows by simp
qed

lemma claim_rows_executions:
  "claim_rows now duration tokens ws db = (cs, db') \<Longrightarrow> executions db' = executions db \<and> ranges db' = ranges db"
proof (induction now duration tokens ws db arbitrary: cs db' rule: claim_rows.induct)
  case (1 now duration token tokens w ws db)
  obtain cs1 db1 where "claim_rows now duration tokens ws
      (db\<lparr>wakeups := update_where (\<lambda>x. wk_id x = wk_id w) (lease_wakeup token now duration) (wakeups db)\<rparr>) = (cs1, db1)"
    by fastforce
  with 1 show ?case by (fastforce simp: Let_def)
qed auto

lemma configure_ranges_ok:
  assumes ok: "ranges_ok db" and rs: "list_all2 configured (ranges db) rs"
  shows "ranges_ok (db\<lparr>channels := cs, ranges := rs\<rparr>)"
proof -
  note D = ranges_okD [OF ok]
  let ?db = "db\<lparr>channels := cs, ranges := rs\<rparr>"
  have ids: "map pr_id rs = map pr_id (ranges db)"
    using rs by (induction rule: list_all2_induct) (simp_all add: configured_def)
  then have rids: "pr_id ` set rs = pr_id ` set (ranges db)" by (metis list.set_map)
  have fwd: "\<exists>r' \<in> set rs. configured r r'" if "r \<in> set (ranges db)" for r
    using rs that by (induction rule: list_all2_induct) auto
  have bwd: "\<exists>r \<in> set (ranges db). configured r r'" if "r' \<in> set rs" for r'
    using rs that by (induction rule: list_all2_induct) auto
  have "frozen e ?db" if "frozen e db" for e
  proof -
    from that obtain r where r: "r \<in> set (ranges db)" "pr_id r = re_range_id e"
      "pr_active_high r = Some (re_to e)" "expected_from r = Some (re_from e)"
      by (auto simp: frozen_def)
    from fwd [OF r(1)] obtain r' where r': "r' \<in> set rs" "configured r r'" by blast
    then have "expected_from r' = Some (re_from e)"
      using r(4) by (auto simp: configured_def expected_from_def split: option.splits)
    with r r' show ?thesis by (auto simp: frozen_def configured_def)
  qed
  moreover have "tiled r' (completed_of (pr_id r') ?db)" if r': "r' \<in> set rs" for r'
  proof -
    from bwd [OF r'] obtain r where r: "r \<in> set (ranges db)" "configured r r'" by blast
    have comp: "completed_of (pr_id r') ?db = completed_of (pr_id r) db"
      using r(2) by (simp add: completed_of_def configured_def)
    show ?thesis
    proof (cases "pr_resolved_start r' = pr_resolved_start r")
      case True
      with tiled_same [of r' r] r D(7) [OF r(1)] comp show ?thesis by (simp add: configured_def)
    next
      case False
      then have "pr_resolved_start r = None" using r(2) by (auto simp: configured_def)
      with D(7) [OF r(1)] False r(2) comp show ?thesis
        by (cases "pr_resolved_start r'") (auto simp: tiled_def configured_def expected_from_def)
    qed
  qed
  ultimately show ?thesis
    unfolding ranges_ok_def using D by (simp add: ids rids)
qed

lemma new_range_ranges_ok:
  assumes ok: "ranges_ok db" and r: "fresh_range r" "pr_id r \<notin> pr_id ` set (ranges db)"
  shows "ranges_ok (db\<lparr>ranges := ranges db @ [r]\<rparr>)"
proof -
  note D = ranges_okD [OF ok]
  let ?db = "db\<lparr>ranges := ranges db @ [r]\<rparr>"
  have "re_range_id e \<noteq> pr_id r" if "e \<in> set (executions db)" for e
    using D(5) [OF that] r(2) by auto
  then have "completed_of (pr_id r) ?db = {}" by (auto simp: completed_of_def)
  moreover have "tiled r {}"
    using r(1) by (auto simp: fresh_range_def tiled_def expected_from_def split: option.splits)
  moreover have "completed_of k ?db = completed_of k db" for k by (simp add: completed_of_def)
  moreover have "frozen e ?db" if "frozen e db" for e using that by (auto simp: frozen_def)
  ultimately show ?thesis
    unfolding ranges_ok_def using D r(2) by auto
qed

lemma complete_for_entity_rows:
  assumes "complete_for_entity queue entity_id now db = (b, db')"
  shows "ranges db' = ranges db" and "executions db' = executions db"
  using assms by (auto simp: complete_for_entity_def Let_def)

lemma release_claim_rows:
  "release_claim wid token next_at now dispatched db = (b, db') \<Longrightarrow>
     executions db' = executions db \<and> ranges db' = ranges db"
  by (auto simp: release_claim_def Let_def)

lemma claim_due_rows:
  "claim_due locked tokens now duration limit db = (cs, db') \<Longrightarrow>
     executions db' = executions db \<and> ranges db' = ranges db"
  unfolding claim_due_def by (rule claim_rows_executions)

lemma step_ranges_ok:
  assumes "db_step db db'" and ok: "ranges_ok db"
  shows "ranges_ok db'"
  using assms(1)
proof (cases rule: db_step.cases)
  case freeze
  with ok show ?thesis by (blast intro: freeze_ranges_ok)
next
  case claim
  with ok show ?thesis by (blast intro: claim_ranges_ok)
next
  case advance
  with ok show ?thesis by (blast intro: advance_ranges_ok)
next
  case complete
  with ok show ?thesis by (blast intro: complete_ranges_ok)
next
  case fail
  with ok show ?thesis by (blast intro: fail_ranges_ok)
next
  case dispatch_claim
  from claim_due_rows [OF dispatch_claim] ok ranges_ok_cong show ?thesis by blast
next
  case dispatch_release
  from release_claim_rows [OF dispatch_release] ok ranges_ok_cong show ?thesis by blast
next
  case finish_wakeup
  from complete_for_entity_rows [OF finish_wakeup(1)] ok ranges_ok_cong show ?thesis by blast
next
  case (configure rs cs)
  from configure_ranges_ok [OF ok configure(2)] show ?thesis by (simp add: configure(1))
next
  case (new_range r)
  from new_range_ranges_ok [OF ok new_range(2,3)] show ?thesis by (simp add: new_range(1))
qed

lemma reachable_ranges_ok: "reachable db \<Longrightarrow> ranges_ok db"
proof (induction rule: reachable.induct)
  case (initial db)
  then show ?case by (simp add: empty_database_def ranges_ok_def)
next
  case (step db db')
  from step_ranges_ok [OF step.hyps(2) step.IH] show ?case .
qed

end
