(* ===== verification/Range_Liveness.thy ===== *)
theory Range_Liveness
  imports Range_Execution
begin

text \<open>
  Leases and wake-ups of the processing database: the lease contract holds for range executions
  and for wake-ups, every unfinished execution keeps a wake-up, and the guarantees that follow
  for reachable databases.
\<close>

section \<open>The lease contract\<close>

definition lease_of :: "uuid option \<Rightarrow> int option \<Rightarrow> (uuid \<times> int) option" where
  "lease_of token expires =
     (case (token, expires) of (Some t, Some e) \<Rightarrow> Some (t, e) | _ \<Rightarrow> None)"

lemma lease_of_simps [simp]:
  "lease_of None ex = None" "lease_of tk None = None" "lease_of (Some t) (Some e) = Some (t, e)"
  by (simp_all add: lease_of_def split: option.split)

definition execution_holder :: "execution_row \<Rightarrow> (uuid \<times> int) option" where
  "execution_holder e = lease_of (re_lease_token e) (re_lease_expires_at e)"

definition execution_claims :: "uuid \<Rightarrow> int \<Rightarrow> execution_row \<Rightarrow> execution_row \<Rightarrow> bool" where
  "execution_claims token now e e' \<longleftrightarrow>
     row_ok e \<and> eligible now e \<and> (\<exists>duration. e' = lease_execution token now duration e)"

text \<open>An effective operation of the worker that holds the token: progress, completion or failure.\<close>

definition execution_acts :: "uuid \<Rightarrow> int \<Rightarrow> execution_row \<Rightarrow> execution_row \<Rightarrow> bool" where
  "execution_acts token now e e' \<longleftrightarrow>
     re_status e = E_RUNNING \<and> re_lease_token e = Some token \<and>
     (\<exists>t. re_lease_expires_at e = Some t \<and> now < t) \<and>
     ((\<exists>w. e' = e\<lparr>re_watermark := w, re_updated_at := now\<rparr>) \<or> e' = completed_row now e \<or>
      (\<exists>code kind retry_at. e' = (failure_row code kind now e)\<lparr>re_status := E_RETRY_WAIT, re_next_retry_at := Some retry_at\<rparr>) \<or>
      (\<exists>code kind. e' = (failure_row code kind now e)\<lparr>re_status := E_FAILED, re_next_retry_at := None\<rparr>))"

interpretation execution_lease: leased_row execution_holder execution_claims execution_acts
proof
  fix token now r r' t e
  assume "execution_claims token now r r'" and "execution_holder r = Some (t, e)"
  then show "e \<le> now"
    by (cases "re_status r"; cases "re_lease_token r"; cases "re_lease_expires_at r")
      (auto simp: execution_claims_def execution_holder_def eligible_def row_ok_def passed_def)
next
  fix token now r r'
  assume "execution_claims token now r r'"
  then show "\<exists>e. execution_holder r' = Some (token, e)"
    by (auto simp: execution_claims_def execution_holder_def lease_execution_def)
next
  fix token now r r'
  assume "execution_acts token now r r'"
  then show "\<exists>e. execution_holder r = Some (token, e)"
    by (auto simp: execution_acts_def execution_holder_def)
next
  fix token now r r'
  assume "execution_acts token now r r'"
  then show "execution_holder r' = execution_holder r \<or> execution_holder r' = None"
    by (auto simp: execution_acts_def execution_holder_def completed_row_def failure_row_def)
qed

definition wakeup_ok :: "wakeup_row \<Rightarrow> bool" where
  "wakeup_ok w \<longleftrightarrow> (wk_status w = W_LEASED \<longleftrightarrow> wk_lease_token w \<noteq> None)
     \<and> (wk_status w = W_LEASED \<longleftrightarrow> wk_lease_expires_at w \<noteq> None)"

definition wakeup_holder :: "wakeup_row \<Rightarrow> (uuid \<times> int) option" where
  "wakeup_holder w = lease_of (wk_lease_token w) (wk_lease_expires_at w)"

definition wakeup_claims :: "uuid \<Rightarrow> int \<Rightarrow> wakeup_row \<Rightarrow> wakeup_row \<Rightarrow> bool" where
  "wakeup_claims token now w w' \<longleftrightarrow>
     wakeup_ok w \<and> wakeup_due now w \<and> (\<exists>duration. w' = lease_wakeup token now duration w)"

definition wakeup_acts :: "uuid \<Rightarrow> int \<Rightarrow> wakeup_row \<Rightarrow> wakeup_row \<Rightarrow> bool" where
  "wakeup_acts token now w w' \<longleftrightarrow>
     wakeup_ok w \<and> wk_status w = W_LEASED \<and> wk_lease_token w = Some token \<and>
     (\<exists>next_at dispatched. w' = release_wakeup next_at now dispatched w)"

interpretation wakeup_lease: leased_row wakeup_holder wakeup_claims wakeup_acts
proof
  fix token now r r' t e
  assume "wakeup_claims token now r r'" and "wakeup_holder r = Some (t, e)"
  then show "e \<le> now"
    by (cases "wk_lease_token r"; cases "wk_lease_expires_at r")
      (auto simp: wakeup_claims_def wakeup_holder_def wakeup_due_def wakeup_ok_def)
next
  fix token now r r'
  assume "wakeup_claims token now r r'"
  then show "\<exists>e. wakeup_holder r' = Some (token, e)"
    by (auto simp: wakeup_claims_def wakeup_holder_def lease_wakeup_def)
next
  fix token now r r'
  assume "wakeup_acts token now r r'"
  then show "\<exists>e. wakeup_holder r = Some (token, e)"
    by (cases "wk_lease_expires_at r") (auto simp: wakeup_acts_def wakeup_holder_def wakeup_ok_def)
next
  fix token now r r'
  assume "wakeup_acts token now r r'"
  then show "wakeup_holder r' = wakeup_holder r \<or> wakeup_holder r' = None"
    by (auto simp: wakeup_acts_def wakeup_holder_def release_wakeup_def)
qed

section \<open>Wake-ups of unfinished executions\<close>

definition alive :: "uuid \<Rightarrow> wakeup_row \<Rightarrow> bool" where
  "alive k w \<longleftrightarrow> wk_queue w = range_execution_queue \<and> wk_entity_id w = k \<and>
     (wk_status w = W_PENDING \<or> wk_status w = W_LEASED)"

definition active_ids :: "database \<Rightarrow> uuid set" where
  "active_ids db = re_id ` {e \<in> set (executions db). active e}"

definition wakeups_ok :: "database \<Rightarrow> bool" where
  "wakeups_ok db \<longleftrightarrow> (\<forall>w \<in> set (wakeups db). wakeup_ok w) \<and>
     (\<forall>k \<in> active_ids db. \<exists>w \<in> set (wakeups db). alive k w)"

lemma update_wakeups_ok:
  assumes "\<forall>w \<in> set ws. wakeup_ok w" and "\<And>w. wakeup_ok (f w)"
  shows "\<forall>w \<in> set (update_where P f ws). wakeup_ok w"
  using assms by (auto simp: in_update_where)

lemma update_alive:
  assumes "\<exists>w \<in> set ws. alive k w" and "\<And>w. P w \<Longrightarrow> alive k w \<Longrightarrow> alive k (f w)"
  shows "\<exists>w \<in> set (update_where P f ws). alive k w"
proof -
  from assms(1) obtain w where w: "w \<in> set ws" "alive k w" by blast
  then have "(if P w then f w else w) \<in> set (update_where P f ws)" by (simp add: set_update_where)
  moreover have "alive k (if P w then f w else w)" using assms(2) w(2) by simp
  ultimately show ?thesis by blast
qed

lemma wakeup_ok_updates [simp]:
  "wakeup_ok (lease_wakeup token now duration w)" "wakeup_ok (release_wakeup next_at now dispatched w)"
  "wakeup_ok (complete_wakeup now w)"
  "wakeup_ok (w\<lparr>wk_status := W_PENDING, wk_next_attempt_at := at_time, wk_lease_token := None,
     wk_lease_expires_at := None, wk_completed_at := None, wk_updated_at := now\<rparr>)"
  by (simp_all add: wakeup_ok_def lease_wakeup_def release_wakeup_def complete_wakeup_def)

lemma alive_updates [simp]:
  "alive k w \<Longrightarrow> alive k (lease_wakeup token now duration w)"
  "alive k w \<Longrightarrow> alive k (release_wakeup next_at now dispatched w)"
  "alive k w \<Longrightarrow> alive k (w\<lparr>wk_status := W_PENDING, wk_next_attempt_at := at_time, wk_lease_token := None,
     wk_lease_expires_at := None, wk_completed_at := None, wk_updated_at := now\<rparr>)"
  by (simp_all add: alive_def lease_wakeup_def release_wakeup_def)

lemma update_alive_wakeups_ok:
  assumes "wakeups_ok db" and "\<And>w. wakeup_ok (f w)" and "\<And>k w. P w \<Longrightarrow> alive k w \<Longrightarrow> alive k (f w)"
  shows "wakeups_ok (db\<lparr>wakeups := update_where P f (wakeups db)\<rparr>)"
proof -
  have "\<exists>w \<in> set (update_where P f (wakeups db)). alive k w" if "k \<in> active_ids db" for k
    by (rule update_alive) (use assms(1,3) that in \<open>simp_all add: wakeups_ok_def\<close>)
  moreover have "\<forall>w \<in> set (update_where P f (wakeups db)). wakeup_ok w"
    by (rule update_wakeups_ok) (use assms(1,2) in \<open>simp_all add: wakeups_ok_def\<close>)
  ultimately show ?thesis by (simp add: wakeups_ok_def active_ids_def)
qed

text \<open>Finishing the wake-up of one execution leaves those of the others alone.\<close>

lemma set_wakeup_terminal_ok:
  assumes "wakeups_ok db" and "active_ids db' \<subseteq> active_ids db - {k}" and "wakeups db' = wakeups db"
  shows "wakeups_ok (set_wakeup_terminal k now db')"
proof -
  have "\<exists>w \<in> set (update_where (own_wakeup k) (complete_wakeup now) (wakeups db)). alive j w"
    if j: "j \<in> active_ids db'" for j
  proof (rule update_alive)
    show "\<exists>w \<in> set (wakeups db). alive j w" using j assms(1,2) by (auto simp: wakeups_ok_def)
    show "own_wakeup k w \<Longrightarrow> alive j w \<Longrightarrow> alive j (complete_wakeup now w)" for w
      using j assms(2) by (auto simp: own_wakeup_def alive_def)
  qed
  then show ?thesis
    using assms(1,3) update_wakeups_ok [of "wakeups db" "complete_wakeup now"]
    by (simp add: wakeups_ok_def set_wakeup_terminal_def active_ids_def)
qed

lemma active_ids_save:
  assumes "distinct (map re_id (executions db))" and "e \<in> set (executions db)" and "re_id e' = re_id e"
  shows "active_ids (save_execution e' db) =
     active_ids db - {re_id e} \<union> (if active e' then {re_id e} else {})"
proof -
  let ?S = "set (executions db)"
  have rows: "set (executions (save_execution e' db)) = insert e' (?S - {e})"
    using set_update_key [OF assms] by simp
  have others: "re_id ` {x \<in> ?S - {e}. active x} = active_ids db - {re_id e}"
  proof (intro set_eqI iffI)
    fix k assume "k \<in> re_id ` {x \<in> ?S - {e}. active x}"
    then obtain x where xk: "k = re_id x" and "x \<in> {x \<in> ?S - {e}. active x}" by (rule imageE)
    then have x: "x \<in> ?S" "x \<noteq> e" "active x" by simp_all
    then have "re_id x \<noteq> re_id e" using distinct_key_eq [OF assms(1) x(1) assms(2)] by metis
    with x xk show "k \<in> active_ids db - {re_id e}" by (simp add: active_ids_def)
  next
    fix k assume k: "k \<in> active_ids db - {re_id e}"
    then have "k \<in> re_id ` {e \<in> ?S. active e}" by (simp add: active_ids_def)
    then obtain x where xk: "k = re_id x" and "x \<in> {e \<in> ?S. active e}" by (rule imageE)
    moreover have "x \<noteq> e" using k xk by auto
    ultimately show "k \<in> re_id ` {x \<in> ?S - {e}. active x}" by simp
  qed
  have "{x \<in> insert e' (?S - {e}). active x} = {x \<in> ?S - {e}. active x} \<union> (if active e' then {e'} else {})"
    by (cases "active e'") auto
  then have "active_ids (save_execution e' db) = re_id ` ({x \<in> ?S - {e}. active x} \<union> (if active e' then {e'} else {}))"
    unfolding active_ids_def rows by (rule arg_cong)
  also have "\<dots> = re_id ` {x \<in> ?S - {e}. active x} \<union> (if active e' then {re_id e'} else {})"
    by (simp add: image_Un)
  finally show ?thesis unfolding others assms(3) .
qed

lemma fail_range_simps [simp]:
  "executions (fail_range k now db) = executions db" "wakeups (fail_range k now db) = wakeups db"
  by (simp_all add: fail_range_def split: option.split)

lemma active_ids_fail_range [simp]: "active_ids (fail_range k now db) = active_ids db"
  by (simp add: active_ids_def)

lemma active_ids_save_range [simp]: "active_ids (save_range r db) = active_ids db"
  by (simp add: active_ids_def)

lemma claim_rows_wakeups_ok:
  "claim_rows now duration tokens ws db = (cs, db') \<Longrightarrow> wakeups_ok db \<Longrightarrow> wakeups_ok db'"
proof (induction now duration tokens ws db arbitrary: cs db' rule: claim_rows.induct)
  case (1 now duration token tokens w ws db)
  let ?db = "db\<lparr>wakeups := update_where (\<lambda>x. wk_id x = wk_id w) (lease_wakeup token now duration) (wakeups db)\<rparr>"
  obtain cs1 where "claim_rows now duration tokens ws ?db = (cs1, db')"
    using "1.prems"(1) by (auto simp: Let_def split: prod.splits)
  moreover have "wakeups_ok ?db"
    by (rule update_alive_wakeups_ok [OF "1.prems"(2)]) simp_all
  ultimately show ?case using "1.IH" by blast
qed auto

lemma wakeups_ok_mono:
  assumes "wakeups_ok db" and "wakeups db' = wakeups db" and "active_ids db' \<subseteq> active_ids db"
  shows "wakeups_ok db'"
  using assms unfolding wakeups_ok_def by (metis subsetD)

lemma step_wakeups_ok:
  assumes "db_step db db'" and ok: "ranges_ok db" and wk: "wakeups_ok db"
  shows "wakeups_ok db'"
  using assms(1)
proof (cases rule: db_step.cases)
  case (freeze wid x now b)
  show ?thesis
  proof (cases "db' = db")
    case True
    with wk show ?thesis by simp
  next
    case False
    let ?e = "new_execution_row x now"
    from freeze False have ws: "wakeups db' = wakeups db @ [new_wakeup_row wid range_execution_queue (re_id ?e) now]"
      and es: "executions db' = executions db @ [?e]"
      by (auto simp: create_execution_and_wakeup_def Let_def split: option.splits if_splits)
    have "active ?e" by (simp add: new_execution_row_def)
    then have "{e \<in> set (executions db @ [?e]). active e} = insert ?e {e \<in> set (executions db). active e}"
      by auto
    then have "active_ids db' = insert (re_id ?e) (active_ids db)"
      unfolding active_ids_def es by (simp only: image_insert)
    moreover have "wakeup_ok (new_wakeup_row wid range_execution_queue (re_id ?e) now)"
      "alive (re_id ?e) (new_wakeup_row wid range_execution_queue (re_id ?e) now)"
      by (simp_all add: wakeup_ok_def alive_def new_wakeup_row_def)
    ultimately show ?thesis using wk by (auto simp: wakeups_ok_def ws)
  qed
next
  case (claim locked token eid now duration c)
  show ?thesis
  proof (cases "db' = db")
    case True
    with wk show ?thesis by simp
  next
    case False
    with claim obtain e where e: "find_execution eid db = Some e" and el: "eligible now e"
      and db': "db' = (if re_max_attempts e \<le> re_attempt_count e then terminalize_exhausted_lease e now db
        else save_execution (lease_execution token now duration e) db)"
      by (auto simp: claim_execution_def Let_def split: option.splits if_splits)
    have mem: "e \<in> set (executions db)" using find_execution_Some [OF e] by simp
    note save = active_ids_save [OF ranges_okD(2) [OF ok] mem]
    have "re_id e \<in> active_ids db" using mem eligible_active [OF el] by (simp add: active_ids_def)
    show ?thesis
    proof (cases "re_max_attempts e \<le> re_attempt_count e")
      case True
      then show ?thesis unfolding db' terminalize_exhausted_lease_def
        by (simp only: if_True) (rule set_wakeup_terminal_ok [OF wk]; simp add: save)
    next
      case False
      have "active_ids (save_execution (lease_execution token now duration e) db) \<subseteq> active_ids db"
        using \<open>re_id e \<in> active_ids db\<close> by (subst save) (auto simp: lease_execution_def)
      with False show ?thesis unfolding db' by (simp add: wakeups_ok_mono [OF wk])
    qed
  qed
next
  case (advance eid token w now b)
  show ?thesis
  proof (cases "db' = db")
    case True
    with wk show ?thesis by simp
  next
    case False
    with advance obtain e where e: "locked_active_row eid token now db = Some e"
      and db': "db' = save_execution (e\<lparr>re_watermark := w, re_updated_at := now\<rparr>) db"
      by (auto simp: advance_row_def split: option.splits if_splits)
    have mem: "e \<in> set (executions db)" "active e" using locked_active_row_Some [OF e] by simp_all
    then have "active_ids db' \<subseteq> active_ids db"
      unfolding db' by (subst active_ids_save [OF ranges_okD(2) [OF ok] mem(1)]) (auto simp: active_ids_def)
    then show ?thesis by (rule wakeups_ok_mono [OF wk, rotated]) (simp add: db')
  qed
next
  case (complete eid token now b)
  show ?thesis
  proof (cases "db' = db")
    case True
    with wk show ?thesis by simp
  next
    case False
    with complete obtain e r where e: "locked_active_row eid token now db = Some e"
      and db': "db' = set_wakeup_terminal (re_id e) now
        (save_range (advanced_range now e r) (save_execution (completed_row now e) db))"
      by (auto simp: complete_execution_def Let_def split: option.splits if_splits)
    have mem: "e \<in> set (executions db)" using locked_active_row_Some [OF e] by simp
    show ?thesis unfolding db'
      by (rule set_wakeup_terminal_ok [OF wk])
        (simp_all add: active_ids_save [OF ranges_okD(2) [OF ok] mem] completed_row_def)
  qed
next
  case (fail eid token code kind retryable retry_at now b)
  show ?thesis
  proof (cases "locked_active_row eid token now db")
    case None
    with fail wk show ?thesis by (simp add: fail_execution_def)
  next
    case (Some e)
    have mem: "e \<in> set (executions db)" "active e" using locked_active_row_Some [OF Some] by simp_all
    note save = active_ids_save [OF ranges_okD(2) [OF ok] mem(1)]
    let ?retry = "(failure_row code kind now e)\<lparr>re_status := E_RETRY_WAIT, re_next_retry_at := Some retry_at\<rparr>"
    let ?stop = "(failure_row code kind now e)\<lparr>re_status := E_FAILED, re_next_retry_at := None\<rparr>"
    have ids: "re_id ?retry = re_id e" "re_id ?stop = re_id e" by (simp_all add: failure_row_def)
    have "active_ids (save_execution ?retry db) \<subseteq> active_ids db"
      using mem by (subst save [OF ids(1)]) (auto simp: active_ids_def)
    then have "wakeups_ok (save_execution ?retry db)" by (rule wakeups_ok_mono [OF wk, rotated]) simp
    then have retry: "wakeups_ok (reschedule_wakeup (re_id e) retry_at now (save_execution ?retry db))"
      unfolding reschedule_wakeup_def by (rule update_alive_wakeups_ok) simp_all
    have stop: "wakeups_ok (set_wakeup_terminal (re_id e) now (fail_range (re_range_id e) now
        (save_execution ?stop db)))"
      by (rule set_wakeup_terminal_ok [OF wk]) (simp_all add: save [OF ids(2)])
    show ?thesis
      using fail Some retry stop by (cases "retryable \<and> re_attempt_count e < re_max_attempts e")
        (simp_all add: fail_execution_def Let_def)
  qed
next
  case (dispatch_claim locked tokens now duration limit cs)
  with wk show ?thesis unfolding claim_due_def by (blast intro: claim_rows_wakeups_ok)
next
  case (dispatch_release wid token next_at now dispatched b)
  then have "db' = db\<lparr>wakeups := update_where (\<lambda>w. wk_id w = wid \<and> wk_status w = W_LEASED
      \<and> wk_lease_token w = Some token) (release_wakeup next_at now dispatched) (wakeups db)\<rparr>"
    by (simp add: release_claim_def Let_def)
  then show ?thesis using update_alive_wakeups_ok [OF wk] by simp
next
  case (finish_wakeup queue eid now b)
  let ?due = "\<lambda>w. wk_queue w = queue \<and> wk_entity_id w = eid \<and> (wk_status w = W_PENDING \<or> wk_status w = W_LEASED)"
  from finish_wakeup(1) have db': "db' = db\<lparr>wakeups := update_where ?due (complete_wakeup now) (wakeups db)\<rparr>"
    by (simp add: complete_for_entity_def Let_def)
  have "\<exists>w \<in> set (update_where ?due (complete_wakeup now) (wakeups db)). alive k w" if "k \<in> active_ids db" for k
  proof (rule update_alive)
    show "\<exists>w \<in> set (wakeups db). alive k w" using wk that by (simp add: wakeups_ok_def)
    have other: "\<not> (queue = range_execution_queue \<and> eid = k)"
      using finish_wakeup(2) that by (auto simp: unfinished_execution_def active_ids_def)
    show "?due w \<Longrightarrow> alive k w \<Longrightarrow> alive k (complete_wakeup now w)" for w
      using other by (auto simp: alive_def)
  qed
  moreover have "\<forall>w \<in> set (update_where ?due (complete_wakeup now) (wakeups db)). wakeup_ok w"
    by (rule update_wakeups_ok) (use wk in \<open>simp_all add: wakeups_ok_def\<close>)
  ultimately show ?thesis unfolding db' by (simp add: wakeups_ok_def active_ids_def)
next
  case (configure rs cs)
  with wk show ?thesis by (simp add: wakeups_ok_def active_ids_def)
next
  case (new_range r)
  with wk show ?thesis by (simp add: wakeups_ok_def active_ids_def)
qed

lemma reachable_wakeups_ok: "reachable db \<Longrightarrow> wakeups_ok db"
proof (induction rule: reachable.induct)
  case (initial db)
  then show ?case by (simp add: empty_database_def wakeups_ok_def active_ids_def)
next
  case (step db db')
  from step_wakeups_ok [OF step.hyps(2) reachable_ranges_ok [OF step.hyps(1)] step.IH] show ?case .
qed

section \<open>A sample history\<close>

text \<open>
  A fixed range from message 1 to message 5 is frozen, claimed, processed and completed; a
  second database stops after the claim.
\<close>

definition sample_range_row :: range_row where
  "sample_range_row = \<lparr>pr_id = ''r'', pr_source_channel_id = ''c'', pr_end_mode = ''fixed'',
     pr_resolved_start = Some 1, pr_resolved_fixed_end = Some 5, pr_watermark = None,
     pr_active_high = None, pr_steady_after_seconds = None, pr_status = R_PENDING,
     pr_enabled = True, pr_created_at = 0, pr_updated_at = 0\<rparr>"

definition database0 :: database where
  "database0 = \<lparr>channels = [\<lparr>sc_id = ''c'', sc_active_profile_version_id = Some ''p'', sc_enabled = True\<rparr>],
     ranges = [], executions = [], wakeups = []\<rparr>"

definition database1 :: database where
  "database1 = database0\<lparr>ranges := ranges database0 @ [sample_range_row]\<rparr>"

definition sample_pending :: pending_execution where
  "sample_pending = \<lparr>pe_execution_id = ''x'', pe_range_id = ''r'', pe_profile_version_id = ''p'',
     pe_from = 0, pe_to = 5, pe_max_attempts = 3\<rparr>"

definition database2 :: database where
  "database2 = snd (projr (create_execution_and_wakeup ''w'' sample_pending range_execution_queue 10 database1))"

definition database3 :: database where
  "database3 = snd (claim_execution [] ''t1'' ''x'' 20 30 database2)"

definition database4 :: database where
  "database4 = snd (advance_row ''x'' ''t1'' 5 25 database3)"

definition database5 :: database where
  "database5 = snd (projr (complete_execution ''x'' ''t1'' 26 database4))"

lemma sample_reachable:
  "reachable database2" "reachable database3" "reachable database5"
proof -
  have "empty_database database0" by (simp add: empty_database_def database0_def)
  then have r0: "reachable database0" by (rule reachable.initial)
  have "fresh_range sample_range_row" "pr_id sample_range_row \<notin> pr_id ` set (ranges database0)"
    by (simp_all add: fresh_range_def sample_range_row_def database0_def)
  then have "db_step database0 database1" unfolding database1_def by (rule db_step.new_range)
  with r0 have r1: "reachable database1" by (rule reachable.step)
  have "create_execution_and_wakeup ''w'' sample_pending range_execution_queue 10 database1 = Inr (True, database2)"
    unfolding database2_def by code_simp
  then have "db_step database1 database2" by (rule db_step.freeze)
  with r1 show r2: "reachable database2" by (rule reachable.step)
  have "db_step database2 database3"
    unfolding database3_def by (rule db_step.claim [OF surjective_pairing])
  with r2 show r3: "reachable database3" by (rule reachable.step)
  have "db_step database3 database4"
    unfolding database4_def by (rule db_step.advance [OF surjective_pairing])
  with r3 have r4: "reachable database4" by (rule reachable.step)
  have "complete_execution ''x'' ''t1'' 26 database4 = Inr (True, database5)"
    unfolding database5_def by code_simp
  then have "db_step database4 database5" by (rule db_step.complete)
  with r4 show "reachable database5" by (rule reachable.step)
qed

section \<open>What the processing database guarantees\<close>

text \<open>
  C1: In every reachable database, every message id from the start of a range up to its
  watermark lies in exactly one completed window of the range, and no completed window reaches
  beyond: history is processed without gap and without overlap.
\<close>

theorem every_message_in_one_window:
  assumes "reachable db" and "r \<in> set (ranges db)" and "pr_resolved_start r = Some s"
    and "expected_from r = Some w"
  shows "(s \<le> m \<and> m \<le> w \<longrightarrow> (\<exists>!e. e \<in> set (executions db) \<and> re_range_id e = pr_id r
        \<and> re_status e = E_COMPLETED \<and> re_from e < m \<and> m \<le> re_to e))
    \<and> (\<not> (s \<le> m \<and> m \<le> w) \<longrightarrow> \<not> (\<exists>e \<in> set (executions db). re_range_id e = pr_id r
        \<and> re_status e = E_COMPLETED \<and> re_from e < m \<and> m \<le> re_to e))"
proof -
  let ?C = "completed_of (pr_id r) db"
  have "tiled r ?C" using reachable_ranges_ok [OF assms(1)] assms(2) by (rule ranges_okD(7))
  with assms(3,4) have cover: "s - 1 < m \<and> m \<le> w \<longleftrightarrow> (\<exists>e \<in> ?C. re_from e < m \<and> m \<le> re_to e)"
    and disj: "\<And>x y. x \<in> ?C \<Longrightarrow> y \<in> ?C \<Longrightarrow> x \<noteq> y \<Longrightarrow> re_to x \<le> re_from y \<or> re_to y \<le> re_from x"
    by (auto simp: tiled_def)
  have "x = y" if "x \<in> ?C" "y \<in> ?C" "re_from x < m" "m \<le> re_to x" "re_from y < m" "m \<le> re_to y" for x y
    using disj [OF that(1,2)] that(3-) by force
  moreover have "s - 1 < m \<longleftrightarrow> s \<le> m" by linarith
  ultimately show ?thesis using cover unfolding completed_of_def by blast
qed

theorem every_message_in_one_window_witness:
  "\<exists>!e. e \<in> set (executions database5) \<and> re_range_id e = ''r'' \<and> re_status e = E_COMPLETED
     \<and> re_from e < 3 \<and> 3 \<le> re_to e"
proof -
  let ?r = "hd (ranges database5)"
  have r: "?r \<in> set (ranges database5)" "pr_resolved_start ?r = Some 1" "expected_from ?r = Some 5"
    "pr_id ?r = ''r''" by code_simp+
  have "(1::int) \<le> 3 \<and> (3::int) \<le> 5" by simp
  from mp [OF conjunct1 [OF every_message_in_one_window [OF sample_reachable(3) r(1-3), of 3]] this]
  show ?thesis unfolding r(4) .
qed

text \<open>
  A range has at most one unfinished execution, and its window is the one the range has
  frozen: it starts where the processed messages end and ends at the frozen mark.
\<close>

theorem one_unfinished_window:
  assumes "reachable db" and "e \<in> set (executions db)" and "active e"
  shows "(\<exists>r \<in> set (ranges db). pr_id r = re_range_id e \<and> expected_from r = Some (re_from e)
      \<and> pr_active_high r = Some (re_to e))
    \<and> (\<forall>e' \<in> set (executions db). active e' \<and> re_range_id e' = re_range_id e \<longrightarrow> e' = e)"
proof -
  note D = ranges_okD [OF reachable_ranges_ok [OF assms(1)]]
  obtain r where r: "r \<in> set (ranges db)" "pr_id r = re_range_id e" "pr_active_high r = Some (re_to e)"
    "expected_from r = Some (re_from e)" using D(6) [OF assms(2,3)] by (auto simp: frozen_def)
  have "e' = e" if e': "e' \<in> set (executions db)" "active e'" "re_range_id e' = re_range_id e" for e'
  proof -
    obtain r' where r': "r' \<in> set (ranges db)" "pr_id r' = re_range_id e'" "pr_active_high r' = Some (re_to e')"
      "expected_from r' = Some (re_from e')" using D(6) [OF e'(1,2)] by (auto simp: frozen_def)
    have "r' = r" by (rule distinct_key_eq [OF D(1) r'(1) r(1)]) (simp add: r(2) r'(2) e'(3))
    then have "bounds_of e' = bounds_of e" using r r' e'(3) by (simp add: bounds_of_def)
    then show ?thesis by (rule distinct_key_eq [OF D(3) e'(1) assms(2)])
  qed
  with r show ?thesis by blast
qed

theorem one_unfinished_window_witness:
  "\<exists>e r. executions database3 = [e] \<and> r \<in> set (ranges database3) \<and> pr_active_high r = Some (re_to e)"
proof -
  let ?e = "hd (executions database3)"
  have e: "executions database3 = [?e]" "active ?e" by code_simp+
  then have "?e \<in> set (executions database3)" by (metis list.set_intros(1))
  from one_unfinished_window [OF sample_reachable(2) this e(2)] e(1) show ?thesis by blast
qed

text \<open>
  C5: A worker whose lease was taken over is powerless: after another claim of the execution
  its progress, completion and failure reports are refused and change nothing.
\<close>

theorem stale_worker_powerless:
  assumes "reachable db" and "claim_execution locked token eid now duration db = (Some c, db')"
    and "stale \<noteq> token"
  shows "advance_row eid stale w later db' = (False, db')
    \<and> complete_execution eid stale later db' = Inr (False, db')
    \<and> fail_execution eid stale error_code error_type retryable retry_at later db' = (False, db')"
proof -
  from assms(2) obtain e where e: "find_execution eid db = Some e" and el: "eligible now e"
    and db': "db' = save_execution (lease_execution token now duration e) db"
    by (auto simp: claim_execution_def Let_def split: option.splits if_splits)
  note ok = reachable_ranges_ok [OF assms(1)] and mem = find_execution_Some [OF e]
  let ?e = "lease_execution token now duration e"
  have rows: "set (executions db') = insert ?e (set (executions db) - {e})"
    using set_update_key [OF ranges_okD(2) [OF ok], of e ?e] mem by (simp add: db' lease_execution_def)
  have claims: "execution_claims token now e ?e"
    using ranges_okD(4) [OF ok] mem el by (auto simp: execution_claims_def)
  have "locked_active_row eid stale later db' = None"
  proof (rule ccontr)
    assume "locked_active_row eid stale later db' \<noteq> None"
    then obtain x where x: "locked_active_row eid stale later db' = Some x" by blast
    note act = locked_active_row_Some [OF x]
    have "x = ?e"
    proof (rule ccontr)
      assume "x \<noteq> ?e"
      then have "x \<in> set (executions db)" "x \<noteq> e" using act unfolding rows by blast+
      then show False using distinct_key_eq [OF ranges_okD(2) [OF ok], of x e] mem act by blast
    qed
    with act have "execution_acts stale later ?e (completed_row later ?e)" by (simp add: execution_acts_def)
    with execution_lease.stale_token [OF claims assms(3)] show False by blast
  qed
  then show ?thesis by (simp add: advance_row_def complete_execution_def fail_execution_def)
qed

theorem stale_worker_powerless_witness:
  "\<exists>c db'. claim_execution [] ''t2'' ''x'' 60 30 database3 = (Some c, db')
     \<and> advance_row ''x'' ''t1'' 5 61 db' = (False, db')"
proof -
  let ?c = "the (fst (claim_execution [] ''t2'' ''x'' 60 30 database3))"
  let ?db = "snd (claim_execution [] ''t2'' ''x'' 60 30 database3)"
  have "fst (claim_execution [] ''t2'' ''x'' 60 30 database3) = Some ?c" by code_simp
  then have c: "claim_execution [] ''t2'' ''x'' 60 30 database3 = (Some ?c, ?db)" by (metis prod.collapse)
  have "''t1'' \<noteq> ''t2''" by simp
  from stale_worker_powerless [OF sample_reachable(2) c this] c show ?thesis by blast
qed

text \<open>
  A successful claim takes an unfinished execution whose lease, if any, has expired, counts
  one more attempt, which never exceeds the maximum, and hands the row out as it is now stored,
  leased to the claimer's token.
\<close>

theorem claim_takes_expired_execution:
  assumes "reachable db" and "claim_execution locked token eid now duration db = (Some c, db')"
  shows "\<exists>e e'. find_execution eid db = Some e \<and> find_execution eid db' = Some e' \<and> active e
    \<and> (\<forall>t. re_lease_expires_at e = Some t \<longrightarrow> t \<le> now) \<and> re_status e' = E_RUNNING
    \<and> re_attempt_count e' = re_attempt_count e + 1 \<and> re_attempt_count e' \<le> re_max_attempts e'
    \<and> re_lease_token e' = Some token \<and> re_lease_expires_at e' = Some (now + duration)
    \<and> c = claimed e' (ce_source_channel_id c) token"
proof -
  from assms(2) obtain e where e: "find_execution eid db = Some e" and el: "eligible now e"
    and att: "re_attempt_count e < re_max_attempts e"
    and db': "db' = save_execution (lease_execution token now duration e) db"
    and c: "c = claimed (lease_execution token now duration e) (ce_source_channel_id c) token"
    by (auto simp: claim_execution_def Let_def claimed_def split: option.splits if_splits)
  note ok = reachable_ranges_ok [OF assms(1)] and mem = find_execution_Some [OF e]
  let ?e = "lease_execution token now duration e"
  have "distinct (map re_id (executions db'))"
    using map_update_key [OF ranges_okD(2) [OF ok], of e ?e re_id] ranges_okD(2) [OF ok] mem
    by (simp add: db' lease_execution_def)
  moreover have "?e \<in> set (executions db')"
    using set_update_key [OF ranges_okD(2) [OF ok], of e ?e] mem by (simp add: db' lease_execution_def)
  moreover have "re_id ?e = eid" using mem by (simp add: lease_execution_def)
  ultimately have "find_execution eid db' = Some ?e"
    unfolding find_execution_def by (subst find_key_iff) simp_all
  moreover have "\<forall>t. re_lease_expires_at e = Some t \<longrightarrow> t \<le> now"
    using el ranges_okD(4) [OF ok conjunct1 [OF mem]] by (auto simp: eligible_def row_ok_def passed_def)
  ultimately show ?thesis using e eligible_active [OF el] att c
    by (intro exI [of _ e] exI [of _ ?e]) (simp add: lease_execution_def)
qed

theorem claim_takes_expired_execution_witness:
  "\<exists>e e'. find_execution ''x'' database2 = Some e \<and> find_execution ''x'' database3 = Some e'
     \<and> re_attempt_count e' = re_attempt_count e + 1"
proof -
  let ?c = "the (fst (claim_execution [] ''t1'' ''x'' 20 30 database2))"
  have "fst (claim_execution [] ''t1'' ''x'' 20 30 database2) = Some ?c" by code_simp
  then have "claim_execution [] ''t1'' ''x'' 20 30 database2 = (Some ?c, database3)"
    unfolding database3_def by (metis prod.collapse)
  from claim_takes_expired_execution [OF sample_reachable(1) this] show ?thesis by blast
qed

text \<open>Progress of one execution row over a step.\<close>

definition progresses :: "execution_row \<Rightarrow> execution_row \<Rightarrow> bool" where
  "progresses e e' \<longleftrightarrow> re_id e' = re_id e \<and> bounds_of e' = bounds_of e
     \<and> re_watermark e \<le> re_watermark e' \<and> re_attempt_count e \<le> re_attempt_count e'
     \<and> re_max_attempts e' = re_max_attempts e \<and> (\<not> active e \<longrightarrow> e' = e)"

lemma progresses_refl [simp]: "progresses e e"
  by (simp add: progresses_def)

lemma save_progresses:
  assumes "distinct (map re_id (executions db))" and "e \<in> set (executions db)" and "progresses e e'"
    and "x \<in> set (executions db)"
  shows "\<exists>x' \<in> set (executions (save_execution e' db)). progresses x x'"
proof -
  have "re_id e' = re_id e" using assms(3) by (simp add: progresses_def)
  then have "set (executions (save_execution e' db)) = insert e' (set (executions db) - {e})"
    using set_update_key [OF assms(1,2)] by simp
  note rows = this
  show ?thesis
  proof (cases "x = e")
    case True
    with assms(3) show ?thesis unfolding rows by blast
  next
    case False
    then have "x \<in> insert e' (set (executions db) - {e})" using assms(4) by blast
    then show ?thesis unfolding rows by (rule rev_bexI) (rule progresses_refl)
  qed
qed

lemma set_wakeup_terminal_executions [simp]:
  "executions (set_wakeup_terminal k now db) = executions db"
  "executions (reschedule_wakeup k retry_at now db) = executions db"
  by (simp_all add: set_wakeup_terminal_def reschedule_wakeup_def)

lemma step_progresses:
  assumes "db_step db db'" and ok: "ranges_ok db" and x: "x \<in> set (executions db)"
  shows "\<exists>x' \<in> set (executions db'). progresses x x'"
  using assms(1)
proof (cases rule: db_step.cases)
  case (freeze wid p now b)
  then have "set (executions db) \<subseteq> set (executions db')"
    by (auto simp: create_execution_and_wakeup_def Let_def split: option.splits if_splits)
  with x progresses_refl show ?thesis by blast
next
  case (claim locked token eid now duration c)
  show ?thesis
  proof (cases "db' = db")
    case True
    with x progresses_refl show ?thesis by blast
  next
    case False
    with claim obtain e where e: "find_execution eid db = Some e" and el: "eligible now e"
      and db': "db' = (if re_max_attempts e \<le> re_attempt_count e then terminalize_exhausted_lease e now db
        else save_execution (lease_execution token now duration e) db)"
      by (auto simp: claim_execution_def Let_def split: option.splits if_splits)
    note save = save_progresses [OF ranges_okD(2) [OF ok] conjunct1 [OF find_execution_Some [OF e]] _ x]
    show ?thesis
    proof (cases "re_max_attempts e \<le> re_attempt_count e")
      case True
      then have "executions db' = executions (save_execution (e\<lparr>re_status := E_FAILED,
          re_next_retry_at := None, re_lease_token := None, re_lease_expires_at := None,
          re_last_error_code := Some ''LEASE_EXPIRED'', re_last_error_type := Some ''WorkerLeaseExpired'',
          re_last_failure_at := Some now, re_updated_at := now\<rparr>) db)"
        by (simp only: db' terminalize_exhausted_lease_def if_True set_wakeup_terminal_executions fail_range_simps)
      then show ?thesis
        by (simp only:) (rule save, use eligible_active [OF el] in \<open>simp add: progresses_def\<close>)
    next
      case False
      then have "db' = save_execution (lease_execution token now duration e) db" by (simp only: db' if_False)
      then show ?thesis
        by (simp only:) (rule save, use eligible_active [OF el] in \<open>simp add: progresses_def lease_execution_def\<close>)
    qed
  qed
next
  case (advance eid token w now b)
  show ?thesis
  proof (cases "db' = db")
    case True
    with x progresses_refl show ?thesis by blast
  next
    case False
    with advance obtain e where e: "locked_active_row eid token now db = Some e" and w: "re_watermark e \<le> w"
      and db': "db' = save_execution (e\<lparr>re_watermark := w, re_updated_at := now\<rparr>) db"
      by (auto simp: advance_row_def split: option.splits if_splits)
    have mem: "e \<in> set (executions db)" "active e" using locked_active_row_Some [OF e] by simp_all
    show ?thesis unfolding db'
      by (rule save_progresses [OF ranges_okD(2) [OF ok] mem(1) _ x]) (use mem(2) w in \<open>simp add: progresses_def\<close>)
  qed
next
  case (complete eid token now b)
  show ?thesis
  proof (cases "db' = db")
    case True
    with x progresses_refl show ?thesis by blast
  next
    case False
    with complete obtain e r where e: "locked_active_row eid token now db = Some e"
      and db': "db' = set_wakeup_terminal (re_id e) now
        (save_range (advanced_range now e r) (save_execution (completed_row now e) db))"
      by (auto simp: complete_execution_def Let_def split: option.splits if_splits)
    have mem: "e \<in> set (executions db)" "active e" using locked_active_row_Some [OF e] by simp_all
    have "progresses e (completed_row now e)"
      using mem(2) by (simp add: progresses_def completed_row_def)
    from save_progresses [OF ranges_okD(2) [OF ok] mem(1) this x] show ?thesis by (simp add: db')
  qed
next
  case (fail eid token code kind retryable retry_at now b)
  show ?thesis
  proof (cases "locked_active_row eid token now db")
    case None
    then have "db' = db" using fail by (simp add: fail_execution_def)
    with x progresses_refl show ?thesis by blast
  next
    case (Some e)
    have mem: "e \<in> set (executions db)" "active e" using locked_active_row_Some [OF Some] by simp_all
    have "progresses e ((failure_row code kind now e)\<lparr>re_status := E_RETRY_WAIT, re_next_retry_at := Some retry_at\<rparr>)"
      "progresses e ((failure_row code kind now e)\<lparr>re_status := E_FAILED, re_next_retry_at := None\<rparr>)"
      using mem(2) by (simp_all add: progresses_def failure_row_def bounds_of_def)
    note saves = save_progresses [OF ranges_okD(2) [OF ok] mem(1) this(1) x]
      save_progresses [OF ranges_okD(2) [OF ok] mem(1) this(2) x]
    let ?retry = "save_execution ((failure_row code kind now e)\<lparr>re_status := E_RETRY_WAIT, re_next_retry_at := Some retry_at\<rparr>) db"
      and ?stop = "save_execution ((failure_row code kind now e)\<lparr>re_status := E_FAILED, re_next_retry_at := None\<rparr>) db"
    have "executions db' = (if retryable \<and> re_attempt_count e < re_max_attempts e
        then executions ?retry else executions ?stop)"
      using fail Some by (auto simp: fail_execution_def Let_def split: if_splits)
    then show ?thesis using saves by presburger
  qed
next
  case (dispatch_claim locked tokens now duration limit cs)
  from claim_due_rows [OF this] x have "x \<in> set (executions db')" by simp
  then show ?thesis by (rule rev_bexI) (rule progresses_refl)
next
  case (dispatch_release wid token next_at now dispatched b)
  from release_claim_rows [OF this] x have "x \<in> set (executions db')" by simp
  then show ?thesis by (rule rev_bexI) (rule progresses_refl)
next
  case finish_wakeup
  from complete_for_entity_rows [OF finish_wakeup(1)] x have "x \<in> set (executions db')" by simp
  then show ?thesis by (rule rev_bexI) (rule progresses_refl)
next
  case (configure rs cs)
  then have "x \<in> set (executions db')" using x by simp
  then show ?thesis by (rule rev_bexI) (rule progresses_refl)
next
  case (new_range r)
  then have "x \<in> set (executions db')" using x by simp
  then show ?thesis by (rule rev_bexI) (rule progresses_refl)
qed

lemma progresses_trans: "progresses e f \<Longrightarrow> progresses f g \<Longrightarrow> progresses e g"
  unfolding progresses_def by (elim conjE) (intro conjI impI; simp)

text \<open>
  Over any sequence of steps an execution keeps its window, its watermark and its attempt
  count never go down, and a completed or failed execution never changes again.
\<close>

theorem progress_never_goes_back:
  assumes "reachable db" and "db_step\<^sup>*\<^sup>* db db'" and "e \<in> set (executions db)"
  shows "\<exists>e' \<in> set (executions db'). progresses e e'"
proof -
  from assms(2) have "reachable db' \<and> (\<exists>e' \<in> set (executions db'). progresses e e')"
  proof (induction rule: rtranclp_induct)
    case base
    then show ?case using assms(1,3) progresses_refl by blast
  next
    case (step f g)
    then obtain x where x: "x \<in> set (executions f)" "progresses e x" and f: "reachable f" by blast
    from step_progresses [OF step.hyps(2) reachable_ranges_ok [OF f] x(1)] obtain y where
      "y \<in> set (executions g)" "progresses x y" by blast
    with progresses_trans [OF x(2)] reachable.step [OF f step.hyps(2)] show ?case by blast
  qed
  then show ?thesis by blast
qed

theorem progress_never_goes_back_witness:
  "\<exists>e \<in> set (executions database3). \<exists>e' \<in> set (executions database4). progresses e e' \<and> re_watermark e' = 5"
proof -
  have step: "db_step\<^sup>*\<^sup>* database3 database4"
    unfolding database4_def by (intro r_into_rtranclp db_step.advance [OF surjective_pairing])
  let ?e = "hd (executions database3)"
  have e: "?e \<in> set (executions database3)" and all: "\<forall>e' \<in> set (executions database4). re_watermark e' = 5"
    by code_simp+
  from progress_never_goes_back [OF sample_reachable(2) step e] all e show ?thesis by blast
qed

text \<open>What a claim does to an execution that may be claimed: it leases it, or gives it up.\<close>

lemma claim_eligible_execution:
  assumes ok: "ranges_ok db" and e: "e \<in> set (executions db)" and el: "eligible now e"
  shows "if re_attempt_count e < re_max_attempts e
    then \<exists>c db' e'. claim_execution [] token (re_id e) now duration db = (Some c, db')
      \<and> c = claimed e' (ce_source_channel_id c) token \<and> e' \<in> set (executions db') \<and> re_id e' = re_id e
      \<and> re_status e' = E_RUNNING \<and> re_lease_token e' = Some token \<and> re_lease_expires_at e' = Some (now + duration)
      \<and> re_attempt_count e' = re_attempt_count e + 1
    else \<exists>db'. claim_execution [] token (re_id e) now duration db = (None, db')
      \<and> (\<exists>e' \<in> set (executions db'). re_id e' = re_id e \<and> re_status e' = E_FAILED)
      \<and> (\<exists>r \<in> set (ranges db'). pr_id r = re_range_id e \<and> pr_status r = R_FAILED)"
proof -
  note D = ranges_okD [OF ok]
  have f: "find_execution (re_id e) db = Some e"
    unfolding find_execution_def using D(2) e by (subst find_key_iff) simp_all
  obtain r where r: "r \<in> set (ranges db)" "pr_id r = re_range_id e" using D(5) [OF e] by auto
  have fr: "find_range (re_range_id e) db = Some r"
    unfolding find_range_def using D(1) r by (subst find_key_iff) simp_all
  have fr': "find_range (re_range_id e) (save_execution x db) = Some r" for x
    using fr by (simp add: find_range_def)
  have open_row: "re_status e \<noteq> E_COMPLETED" "re_status e \<noteq> E_FAILED"
    using eligible_active [OF el] by (auto simp: active_status_def)
  note claim = claim_execution_def f fr open_row el
  show ?thesis
  proof (cases "re_attempt_count e < re_max_attempts e")
    case True
    let ?e = "lease_execution token now duration e"
    have "?e \<in> set (executions (save_execution ?e db))"
      using set_update_key [OF D(2) e, of ?e] by (simp add: lease_execution_def)
    moreover have "claim_execution [] token (re_id e) now duration db
        = (Some (claimed ?e (pr_source_channel_id r) token), save_execution ?e db)"
      using True by (simp add: claim Let_def)
    moreover have "claimed ?e (pr_source_channel_id r) token
        = claimed ?e (ce_source_channel_id (claimed ?e (pr_source_channel_id r) token)) token" by (simp add: claimed_def)
    moreover have "re_id ?e = re_id e" "re_status ?e = E_RUNNING" "re_lease_token ?e = Some token"
      "re_lease_expires_at ?e = Some (now + duration)" "re_attempt_count ?e = re_attempt_count e + 1"
      by (simp_all add: lease_execution_def)
    ultimately have "\<exists>c db' e'. claim_execution [] token (re_id e) now duration db = (Some c, db')
      \<and> c = claimed e' (ce_source_channel_id c) token \<and> e' \<in> set (executions db') \<and> re_id e' = re_id e
      \<and> re_status e' = E_RUNNING \<and> re_lease_token e' = Some token \<and> re_lease_expires_at e' = Some (now + duration)
      \<and> re_attempt_count e' = re_attempt_count e + 1"
      by (intro exI [of _ "claimed ?e (pr_source_channel_id r) token"] exI [of _ "save_execution ?e db"] exI [of _ ?e] conjI) assumption+
    with True show ?thesis by simp
  next
    case False
    define x where "x = e\<lparr>re_status := E_FAILED, re_next_retry_at := None, re_lease_token := None,
      re_lease_expires_at := None, re_last_error_code := Some ''LEASE_EXPIRED'',
      re_last_error_type := Some ''WorkerLeaseExpired'', re_last_failure_at := Some now, re_updated_at := now\<rparr>"
    define q where "q = r\<lparr>pr_status := R_FAILED, pr_updated_at := now\<rparr>"
    have t: "terminalize_exhausted_lease e now db = set_wakeup_terminal (re_id e) now
        (save_range q (save_execution x db))"
      by (simp add: terminalize_exhausted_lease_def fail_range_def fr' x_def [symmetric] q_def)
    have x: "re_id x = re_id e" "re_status x = E_FAILED" and q: "pr_id q = pr_id r" "pr_status q = R_FAILED"
      by (simp_all add: x_def q_def)
    have "x \<in> set (executions (save_execution x db))"
      using set_update_key [OF D(2) e x(1)] by simp
    then have xe: "x \<in> set (executions (terminalize_exhausted_lease e now db))" by (simp add: t)
    have "q \<in> set (ranges (save_range q (save_execution x db)))"
      using set_update_key [OF D(1) r(1) q(1)] by simp
    then have qr: "q \<in> set (ranges (terminalize_exhausted_lease e now db))"
      by (simp add: t set_wakeup_terminal_def)
    have "claim_execution [] token (re_id e) now duration db = (None, terminalize_exhausted_lease e now db)"
      using False by (simp add: claim)
    with False xe qr x q r(2) show ?thesis
      by (simp only: if_False) (intro exI conjI bexI [of _ x] bexI [of _ q]; simp)
  qed
qed

text \<open>
  C3: An unfinished execution is never stranded: from some time on a wake-up of its own is due for
  dispatch, whichever worker or dispatcher died holding a lease, and every delivery of its
  identifier makes progress: the claim leases it to the worker while attempts are left; when they
  are used up the claim itself marks the execution and its range as failed.
\<close>

theorem unfinished_execution_never_stranded:
  assumes "reachable db" and "e \<in> set (executions db)" and "active e"
  shows "\<exists>t. \<exists>w \<in> set (wakeups db). wk_queue w = range_execution_queue \<and> wk_entity_id w = re_id e
    \<and> (\<forall>now \<ge> t. eligible now e \<and> wakeup_due now w
      \<and> (if re_attempt_count e < re_max_attempts e
         then \<exists>c db' e'. claim_execution [] token (re_id e) now duration db = (Some c, db')
           \<and> c = claimed e' (ce_source_channel_id c) token \<and> e' \<in> set (executions db') \<and> re_id e' = re_id e
           \<and> re_status e' = E_RUNNING \<and> re_lease_token e' = Some token \<and> re_lease_expires_at e' = Some (now + duration)
           \<and> re_attempt_count e' = re_attempt_count e + 1
         else \<exists>db'. claim_execution [] token (re_id e) now duration db = (None, db')
           \<and> (\<exists>e' \<in> set (executions db'). re_id e' = re_id e \<and> re_status e' = E_FAILED)
           \<and> (\<exists>r \<in> set (ranges db'). pr_id r = re_range_id e \<and> pr_status r = R_FAILED)))"
proof -
  note ok = reachable_ranges_ok [OF assms(1)]
  have row: "row_ok e" using ranges_okD(4) [OF reachable_ranges_ok [OF assms(1)] assms(2)] .
  have "\<exists>t. \<forall>now \<ge> t. eligible now e"
  proof -
    consider "re_status e = E_PENDING" | t where "re_status e = E_RUNNING" "re_lease_expires_at e = Some t"
      | t where "re_status e = E_RETRY_WAIT" "re_next_retry_at e = Some t"
      using assms(3) row by (auto simp: active_status_def row_ok_def)
    then show ?thesis by cases (auto simp: eligible_def passed_def)
  qed
  then obtain t where t: "\<forall>now \<ge> t. eligible now e" by blast
  have "re_id e \<in> active_ids db" using assms(2,3) by (simp add: active_ids_def)
  with reachable_wakeups_ok [OF assms(1)] obtain w where w: "w \<in> set (wakeups db)" "alive (re_id e) w" "wakeup_ok w"
    by (auto simp: wakeups_ok_def)
  have "\<exists>u. \<forall>now \<ge> u. wakeup_due now w"
  proof -
    consider "wk_status w = W_PENDING" | u where "wk_status w = W_LEASED" "wk_lease_expires_at w = Some u"
      using w(2,3) by (auto simp: alive_def wakeup_ok_def)
    then show ?thesis by cases (auto simp: wakeup_due_def)
  qed
  then obtain u where u: "\<forall>now \<ge> u. wakeup_due now w" by blast
  have "\<forall>now \<ge> max t u. eligible now e \<and> wakeup_due now w" using t u by simp
  moreover note claim_eligible_execution [OF ok assms(2)]
  moreover have "wk_queue w = range_execution_queue" "wk_entity_id w = re_id e" using w(2) by (simp_all add: alive_def)
  ultimately show ?thesis using w(1) by blast
qed

text \<open>A worker that died with the last attempt: the database after three claims of one execution.\<close>

definition database6 :: database where
  "database6 = snd (claim_execution [] ''t3'' ''x'' 100 30
     (snd (claim_execution [] ''t2'' ''x'' 60 30 database3)))"

lemma exhausted_reachable: "reachable database6"
proof -
  let ?db = "snd (claim_execution [] ''t2'' ''x'' 60 30 database3)"
  have "reachable ?db" by (rule reachable.step [OF sample_reachable(2) db_step.claim [OF surjective_pairing]])
  then show ?thesis unfolding database6_def by (rule reachable.step [OF _ db_step.claim [OF surjective_pairing]])
qed

theorem unfinished_execution_never_stranded_witness:
  "\<exists>t. \<exists>e \<in> set (executions database6). eligible t e \<and>
     (\<exists>db'. claim_execution [] ''t4'' (re_id e) t 30 database6 = (None, db')
       \<and> (\<exists>e' \<in> set (executions db'). re_id e' = re_id e \<and> re_status e' = E_FAILED))"
proof -
  let ?e = "hd (executions database6)"
  have e: "?e \<in> set (executions database6)" "active ?e" and used: "\<not> re_attempt_count ?e < re_max_attempts ?e"
    by code_simp+
  from unfinished_execution_never_stranded [OF exhausted_reachable e, of "''t4''" 30] e(1) used show ?thesis
    by (simp only: if_False) blast
qed

end
