(* ===== verification/Range_Domain.thy ===== *)
theory Range_Domain
  imports Prelude
begin

text \<open>
  Processing ranges and their executions as domain values,
  \<^verbatim>\<open>tgcurator/domain/processing/models.py\<close>: the checks of the two dataclasses, the creation of
  an execution window, the watermark and completion.
\<close>

section \<open>Ranges and executions\<close>

datatype boundary_kind = FIXED | LATEST

datatype range_execution_status = PENDING | RUNNING | COMPLETED | FAILED

record processing_range =
  range_id :: string
  start_at :: datetime
  boundary_kind :: boundary_kind
  fixed_end_at :: "datetime option"
  latest_quiet_period :: "int option"

record range_execution =
  execution_id :: string
  execution_range_id :: string
  from_at :: datetime
  to_at :: datetime
  watermark_at :: "datetime option"
  execution_status :: range_execution_status

definition check_processing_range :: "processing_range \<Rightarrow> processing_range result" where
  "check_processing_range r =
     (if blank (range_id r) then fail ''range_id must not be blank''
      else try_bind (ensure_aware (start_at r)) (\<lambda>start.
        case boundary_kind r of
          FIXED \<Rightarrow>
            (case fixed_end_at r of
               None \<Rightarrow> fail ''a fixed range requires fixed_end_at''
             | Some e \<Rightarrow> try_bind (ensure_aware e) (\<lambda>end_instant.
                 if end_instant \<le> start then fail ''fixed_end_at must be later than start_at''
                 else if latest_quiet_period r \<noteq> None
                 then fail ''a fixed range cannot define latest_quiet_period''
                 else Inr r))
        | LATEST \<Rightarrow>
            if fixed_end_at r \<noteq> None then fail ''a latest range cannot define fixed_end_at''
            else (case latest_quiet_period r of
                None \<Rightarrow> fail ''a latest range requires latest_quiet_period''
              | Some q \<Rightarrow> try_bind (ensure_positive_duration q) (\<lambda>_. Inr r))))"

text \<open>\<^verbatim>\<open>RangeExecution.__post_init__\<close>, which \<^verbatim>\<open>replace\<close> runs again.\<close>

definition check_range_execution :: "range_execution \<Rightarrow> range_execution result" where
  "check_range_execution e =
     (if blank (execution_id e) then fail ''execution_id must not be blank''
      else if blank (execution_range_id e) then fail ''range_id must not be blank''
      else try_bind (ensure_aware (from_at e)) (\<lambda>from_instant.
        try_bind (ensure_aware (to_at e)) (\<lambda>to_instant.
          if to_instant \<le> from_instant then fail ''execution from_at must be earlier than to_at''
          else try_bind (case watermark_at e of
              None \<Rightarrow> Inr ()
            | Some w \<Rightarrow> try_bind (ensure_aware w) (\<lambda>instant.
                if \<not> (from_instant \<le> instant \<and> instant \<le> to_instant)
                then fail ''watermark_at must stay inside execution bounds'' else Inr ())) (\<lambda>_.
            if execution_status e = COMPLETED \<and> watermark_at e \<noteq> Some (to_at e)
            then fail ''a completed execution watermark must equal to_at''
            else Inr e))))"

definition latest_boundary_is_stable :: "datetime \<Rightarrow> datetime \<Rightarrow> int \<Rightarrow> bool result" where
  "latest_boundary_is_stable latest_message_at observed_at quiet_period =
     try_bind (ensure_aware latest_message_at) (\<lambda>latest.
     try_bind (ensure_aware observed_at) (\<lambda>observed.
     try_bind (ensure_positive_duration quiet_period) (\<lambda>quiet.
       Inr (latest + quiet \<le> observed))))"

definition new_execution :: "string \<Rightarrow> string \<Rightarrow> datetime \<Rightarrow> datetime \<Rightarrow> range_execution" where
  "new_execution eid rid from_time to_time =
     \<lparr>execution_id = eid, execution_range_id = rid, from_at = from_time, to_at = to_time,
      watermark_at = None, execution_status = PENDING\<rparr>"

definition create_execution ::
  "processing_range \<Rightarrow> string \<Rightarrow> datetime \<Rightarrow> datetime option \<Rightarrow> datetime option \<Rightarrow>
     range_execution option result" where
  "create_execution r eid from_time observed_at latest_message_at =
     try_bind (ensure_aware from_time) (\<lambda>from_instant.
       if from_instant < instant (start_at r) then fail ''execution from_at cannot precede range start_at''
       else (case boundary_kind r of
           FIXED \<Rightarrow>
             (case fixed_end_at r of
                None \<Rightarrow> Inl AssertionError
              | Some e \<Rightarrow>
                  if instant e \<le> from_instant then Inr None
                  else try_bind (check_range_execution (new_execution eid (range_id r) from_time e)) (\<lambda>x.
                    Inr (Some x)))
         | LATEST \<Rightarrow>
             (case observed_at of
                None \<Rightarrow> fail ''a latest range requires observed_at''
              | Some observed \<Rightarrow>
                  try_bind (ensure_aware observed) (\<lambda>_.
                    case latest_message_at of
                      None \<Rightarrow> Inr None
                    | Some latest \<Rightarrow>
                        try_bind (ensure_aware latest) (\<lambda>latest_instant.
                          case latest_quiet_period r of
                            None \<Rightarrow> Inl AssertionError
                          | Some quiet \<Rightarrow>
                              try_bind (latest_boundary_is_stable latest observed quiet) (\<lambda>stable.
                                if \<not> stable then Inr None
                                else if latest_instant \<le> from_instant then Inr None
                                else try_bind (check_range_execution
                                    (new_execution eid (range_id r) from_time latest)) (\<lambda>x.
                                  Inr (Some x))))))))"

definition advance_watermark :: "range_execution \<Rightarrow> datetime \<Rightarrow> range_execution result" where
  "advance_watermark e w =
     try_bind (ensure_aware w) (\<lambda>w_instant.
       if execution_status e = COMPLETED \<or> execution_status e = FAILED
       then fail ''a terminal execution cannot advance its watermark''
       else if \<not> (instant (from_at e) \<le> w_instant \<and> w_instant \<le> instant (to_at e))
       then fail ''watermark_at must stay inside execution bounds''
       else if (case watermark_at e of None \<Rightarrow> False | Some old \<Rightarrow> w_instant < instant old)
       then fail ''watermark_at must be monotonic''
       else check_range_execution (e\<lparr>watermark_at := Some w, execution_status := RUNNING\<rparr>))"

definition complete :: "range_execution \<Rightarrow> range_execution result" where
  "complete e =
     (if execution_status e = FAILED then fail ''a failed execution cannot be completed''
      else if watermark_at e \<noteq> Some (to_at e)
      then fail ''execution cannot complete before its right boundary''
      else check_range_execution (e\<lparr>execution_status := COMPLETED\<rparr>))"

section \<open>The invariant of an execution\<close>

definition watermark_instant :: "range_execution \<Rightarrow> int" where
  "watermark_instant e = (case watermark_at e of None \<Rightarrow> instant (from_at e) | Some w \<Rightarrow> instant w)"

definition execution_ok :: "range_execution \<Rightarrow> bool" where
  "execution_ok e \<longleftrightarrow>
     \<not> blank (execution_id e) \<and> \<not> blank (execution_range_id e) \<and>
     is_aware (from_at e) \<and> is_aware (to_at e) \<and> instant (from_at e) < instant (to_at e) \<and>
     (\<forall>w. watermark_at e = Some w \<longrightarrow> is_aware w) \<and>
     instant (from_at e) \<le> watermark_instant e \<and> watermark_instant e \<le> instant (to_at e) \<and>
     (execution_status e = COMPLETED \<longrightarrow> watermark_at e = Some (to_at e))"

lemma check_range_execution_Inr [result_simps]:
  "check_range_execution e = Inr e' \<longleftrightarrow> e' = e \<and> execution_ok e"
  by (cases "from_at e"; cases "to_at e"; cases "watermark_at e")
    (auto simp: check_range_execution_def execution_ok_def watermark_instant_def try_bind_Inr
      ensure_aware_Inr is_aware_iff split: if_splits)

lemma advance_watermark_Inr:
  assumes "execution_ok e"
  shows "advance_watermark e w = Inr e' \<longleftrightarrow>
     e' = e\<lparr>watermark_at := Some w, execution_status := RUNNING\<rparr> \<and> is_aware w
     \<and> execution_status e \<in> {PENDING, RUNNING}
     \<and> watermark_instant e \<le> instant w \<and> instant w \<le> instant (to_at e)"
  using assms
  by (cases w; cases "execution_status e"; cases "watermark_at e")
    (auto simp: advance_watermark_def check_range_execution_Inr execution_ok_def watermark_instant_def
      split: if_splits)

lemma advance_watermark_ok:
  "execution_ok e \<Longrightarrow> advance_watermark e w = Inr e' \<Longrightarrow> execution_ok e'"
  by (auto simp: advance_watermark_Inr) (auto simp: execution_ok_def watermark_instant_def split: option.splits)

lemma complete_Inr:
  assumes "execution_ok e"
  shows "complete e = Inr e' \<longleftrightarrow> e' = e\<lparr>execution_status := COMPLETED\<rparr>
     \<and> execution_status e \<noteq> FAILED \<and> watermark_at e = Some (to_at e)"
  using assms
  by (auto simp: complete_def check_range_execution_Inr execution_ok_def watermark_instant_def)

lemma complete_ok: "execution_ok e \<Longrightarrow> complete e = Inr e' \<Longrightarrow> execution_ok e'"
  by (auto simp: complete_Inr execution_ok_def watermark_instant_def)

text \<open>The histories of an execution: created by a range, then advanced and completed.\<close>

inductive execution_step :: "range_execution \<Rightarrow> range_execution \<Rightarrow> bool" where
  advance: "advance_watermark e w = Inr e' \<Longrightarrow> execution_step e e'"
| complete: "complete e = Inr e' \<Longrightarrow> execution_step e e'"

inductive execution_reaches :: "range_execution \<Rightarrow> range_execution \<Rightarrow> bool" where
  refl: "execution_reaches e e"
| step: "execution_reaches e f \<Longrightarrow> execution_step f g \<Longrightarrow> execution_reaches e g"

lemma execution_step_ok:
  assumes "execution_step e e'" and "execution_ok e"
  shows "execution_ok e' \<and> watermark_instant e \<le> watermark_instant e'
    \<and> from_at e' = from_at e \<and> to_at e' = to_at e
    \<and> (execution_status e = COMPLETED \<longrightarrow> e' = e) \<and> execution_status e \<noteq> FAILED"
  using assms(1)
proof (cases rule: execution_step.cases)
  case (advance w)
  with assms(2) advance_watermark_ok show ?thesis
    by (auto simp: advance_watermark_Inr watermark_instant_def)
next
  case complete
  with assms(2) complete_ok show ?thesis
    by (auto simp: complete_Inr watermark_instant_def)
qed

lemma execution_reaches_ok:
  assumes "execution_reaches e g" and "execution_ok e"
  shows "execution_ok g \<and> watermark_instant e \<le> watermark_instant g
    \<and> from_at g = from_at e \<and> to_at g = to_at e
    \<and> (execution_status e = COMPLETED \<longrightarrow> g = e)"
  using assms
proof (induction rule: execution_reaches.induct)
  case (step e f g)
  with execution_step_ok [OF step(2)] show ?case by auto
qed simp

section \<open>What windows and executions guarantee\<close>

text \<open>
  A window of a range starts where it was asked to start, not before the range, ends after
  its start, and ends at the fixed end of a fixed range or at a latest message that has been
  quiet for the whole quiet period; it starts pending without a watermark.
\<close>

theorem created_window_correct:
  assumes "check_processing_range r0 = Inr r"
    and "create_execution r eid from_time observed latest = Inr (Some e)"
  shows "from_at e = from_time \<and> instant (start_at r) \<le> instant (from_at e)
    \<and> instant (from_at e) < instant (to_at e) \<and> execution_status e = PENDING \<and> watermark_at e = None
    \<and> (case boundary_kind r of
        FIXED \<Rightarrow> fixed_end_at r = Some (to_at e)
      | LATEST \<Rightarrow> latest = Some (to_at e) \<and> (\<exists>o' q. observed = Some o' \<and> latest_quiet_period r = Some q
          \<and> 0 < q \<and> instant (to_at e) + q \<le> instant o'))"
proof (cases "boundary_kind r")
  case FIXED
  with assms(2) show ?thesis
    by (auto simp: create_execution_def try_bind_Inr ensure_aware_Inr check_range_execution_Inr
        new_execution_def execution_ok_def split: if_splits option.splits)
next
  case LATEST
  with assms(2) obtain o' l q where
    "observed = Some o'" "latest = Some l" "latest_quiet_period r = Some q"
    "latest_boundary_is_stable l o' q = Inr True" "\<not> instant from_time < instant (start_at r)"
    "e = new_execution eid (range_id r) from_time l" "execution_ok e"
    by (auto simp: create_execution_def try_bind_Inr ensure_aware_Inr check_range_execution_Inr
        split: if_splits option.splits)
  with LATEST show ?thesis
    by (auto simp: latest_boundary_is_stable_def try_bind_Inr ensure_aware_Inr
        ensure_positive_duration_Inr new_execution_def execution_ok_def)
qed

definition sample_range :: processing_range where
  "sample_range = \<lparr>range_id = ''r'', start_at = Aware 10, boundary_kind = LATEST,
     fixed_end_at = None, latest_quiet_period = Some 5\<rparr>"

theorem created_window_correct_witness:
  "\<exists>e. create_execution sample_range ''e'' (Aware 10) (Some (Aware 30)) (Some (Aware 20)) = Inr (Some e)
    \<and> from_at e = Aware 10 \<and> instant (from_at e) < instant (to_at e)"
proof -
  have r: "check_processing_range sample_range = Inr sample_range" by code_simp
  have e: "create_execution sample_range ''e'' (Aware 10) (Some (Aware 30)) (Some (Aware 20))
      = Inr (Some (new_execution ''e'' ''r'' (Aware 10) (Aware 20)))" by code_simp
  from created_window_correct [OF r e] e show ?thesis by blast
qed

text \<open>
  Whatever is done with an execution, its window is fixed, its watermark stays inside the
  window and never moves back, and a completed execution has reached its right end and changes
  no more.
\<close>

theorem execution_watermark_monotone:
  assumes "check_range_execution e = Inr e" and "execution_reaches e f" and "execution_reaches f g"
  shows "from_at g = from_at f \<and> to_at g = to_at f
    \<and> instant (from_at f) \<le> watermark_instant f \<and> watermark_instant f \<le> watermark_instant g
    \<and> watermark_instant g \<le> instant (to_at g)
    \<and> (execution_status f = COMPLETED \<longrightarrow> g = f \<and> watermark_at f = Some (to_at f))"
proof -
  have "execution_ok e" using assms(1) by (simp add: check_range_execution_Inr)
  then have f: "execution_ok f" using execution_reaches_ok [OF assms(2)] by blast
  note g = execution_reaches_ok [OF assms(3) f]
  have "instant (from_at f) \<le> watermark_instant f"
    and "execution_status f = COMPLETED \<Longrightarrow> watermark_at f = Some (to_at f)"
    using f by (simp_all add: execution_ok_def)
  moreover have "watermark_instant g \<le> instant (to_at g)" using g unfolding execution_ok_def by blast
  ultimately show ?thesis using g by blast
qed

theorem execution_watermark_monotone_witness:
  "\<exists>f g. execution_reaches (new_execution ''e'' ''r'' (Aware 0) (Aware 9)) f \<and> execution_reaches f g
    \<and> execution_status g = COMPLETED \<and> watermark_instant f = 4 \<and> watermark_instant f \<le> watermark_instant g"
proof -
  let ?e = "new_execution ''e'' ''r'' (Aware 0) (Aware 9)"
  let ?f = "?e\<lparr>watermark_at := Some (Aware 4), execution_status := RUNNING\<rparr>"
  let ?g = "?f\<lparr>watermark_at := Some (Aware 9), execution_status := RUNNING\<rparr>"
  let ?h = "?g\<lparr>execution_status := COMPLETED\<rparr>"
  have "\<not> blank ''e''" "\<not> blank ''r''" by code_simp+
  then have ok: "execution_ok ?e" "execution_ok ?f" "execution_ok ?g"
    by (simp_all add: execution_ok_def new_execution_def watermark_instant_def)
  have c: "check_range_execution ?e = Inr ?e" using ok(1) by (simp add: check_range_execution_Inr)
  have s: "advance_watermark ?e (Aware 4) = Inr ?f" "advance_watermark ?f (Aware 9) = Inr ?g"
    "complete ?g = Inr ?h"
    using ok by (simp_all add: advance_watermark_Inr complete_Inr) (simp_all add: new_execution_def watermark_instant_def)
  have f: "execution_reaches ?e ?f"
    by (rule execution_reaches.step [OF execution_reaches.refl execution_step.advance [OF s(1)]])
  have h: "execution_reaches ?f ?h"
    by (rule execution_reaches.step [OF execution_reaches.step [OF execution_reaches.refl
      execution_step.advance [OF s(2)]] execution_step.complete [OF s(3)]])
  have "execution_status ?h = COMPLETED" "watermark_instant ?f = 4"
    by (simp_all add: watermark_instant_def)
  moreover have "watermark_instant ?f \<le> watermark_instant ?h"
    using execution_watermark_monotone [OF c f h] by (elim conjE)
  ultimately show ?thesis using f h by (intro exI conjI)
qed

end
