(* ===== verification/Range_Scheduling.thy ===== *)
theory Range_Scheduling
  imports Range_Liveness Range_Domain
begin

text \<open>
  The services over the processing repositories, \<^verbatim>\<open>tgcurator/application/processing\<close>: the
  scheduler that freezes windows (\<^verbatim>\<open>scheduler.py\<close>), the dispatcher of wake-ups, and the worker
  service with its argument checks (\<^verbatim>\<open>execution_worker.py\<close>).

  What lies outside is an argument: the newest message of a channel, whether the task queue
  accepts a delivery, and the values \<^verbatim>\<open>uuid4\<close> draws.  Each call of a repository is one step of
  the database; steps of other processes may come between them.
\<close>

section \<open>The scheduler\<close>

record range_schedule_report =
  scanned_ranges :: nat
  created_executions :: nat
  skipped_ranges :: nat

record latest_boundary =
  lb_message_id :: int
  lb_published_at :: datetime

text \<open>
  \<^verbatim>\<open>to_message_id\<close> for a listed range: \<open>None\<close> when the range is passed over.  A second is a
  million ticks of an instant.
\<close>

definition window_end ::
  "(uuid \<Rightarrow> latest_boundary option) \<Rightarrow> datetime \<Rightarrow> scheduled_range \<Rightarrow> int option result" where
  "window_end newest_message now s =
     (if sr_end_mode s = ''fixed'' then Inr (sr_resolved_fixed_end s)
      else if sr_end_mode s = ''latest'' then
        (case (newest_message (sr_source_channel_id s), sr_steady_after_seconds s) of
           (Some b, Some quiet) \<Rightarrow>
             try_bind (latest_boundary_is_stable (lb_published_at b) now (quiet * 1000000)) (\<lambda>stable.
               Inr (if stable then Some (lb_message_id b) else None))
         | _ \<Rightarrow> Inr None)
      else fail ''unsupported persisted processing range end mode'')"

definition window_start :: "scheduled_range \<Rightarrow> int" where
  "window_start s = (case sr_watermark s of Some w \<Rightarrow> w | None \<Rightarrow> sr_resolved_start s - 1)"

definition planned_execution :: "uuid \<Rightarrow> int \<Rightarrow> int \<Rightarrow> scheduled_range \<Rightarrow> pending_execution" where
  "planned_execution eid to_message_id max_attempts s =
     \<lparr>pe_execution_id = eid, pe_range_id = sr_range_id s,
      pe_profile_version_id = sr_profile_version_id s, pe_from = window_start s,
      pe_to = to_message_id, pe_max_attempts = max_attempts\<rparr>"

text \<open>The loop, with the two ids each creation draws.\<close>

fun schedule_loop ::
  "(uuid \<Rightarrow> latest_boundary option) \<Rightarrow> int \<Rightarrow> datetime \<Rightarrow> (uuid \<Rightarrow> uuid \<times> uuid) \<Rightarrow>
     scheduled_range list \<Rightarrow> nat \<times> database \<Rightarrow> (nat \<times> database) result" where
  "schedule_loop newest_message max_attempts now fresh [] st = Inr st"
| "schedule_loop newest_message max_attempts now fresh (s # ss) (created, db) =
     try_bind (window_end newest_message now s) (\<lambda>to_message_id.
       case to_message_id of
         None \<Rightarrow> schedule_loop newest_message max_attempts now fresh ss (created, db)
       | Some m \<Rightarrow>
           if m \<le> window_start s then schedule_loop newest_message max_attempts now fresh ss (created, db)
           else try_bind (create_execution_and_wakeup (snd (fresh (sr_range_id s)))
               (planned_execution (fst (fresh (sr_range_id s))) m max_attempts s)
               range_execution_queue (instant now) db) (\<lambda>(b, db').
             schedule_loop newest_message max_attempts now fresh ss (if b then created + 1 else created, db')))"

definition schedule ::
  "(uuid \<Rightarrow> latest_boundary option) \<Rightarrow> int \<Rightarrow> datetime \<Rightarrow> (uuid \<Rightarrow> uuid \<times> uuid) \<Rightarrow> database \<Rightarrow>
     (range_schedule_report \<times> database) result" where
  "schedule newest_message max_attempts now fresh db =
     (if max_attempts \<le> 0 then fail ''max_attempts must be greater than zero''
      else try_bind (ensure_aware now) (\<lambda>_.
        let listed = list_enabled_ranges db in
        try_bind (schedule_loop newest_message max_attempts now fresh listed (0, db)) (\<lambda>(created, db').
          Inr (\<lparr>scanned_ranges = length listed, created_executions = created,
                skipped_ranges = length listed - created\<rparr>, db'))))"

section \<open>The dispatcher\<close>

record wakeup_dispatch_report =
  claimed_wakeups :: nat
  dispatched_wakeups :: nat
  failed_dispatches :: nat

record dispatcher =
  dp_lease_duration :: int
  dp_repair_interval :: int
  dp_failure_retry_delay :: int

definition check_dispatcher :: "dispatcher \<Rightarrow> dispatcher result" where
  "check_dispatcher d =
     try_bind (ensure_positive_duration (dp_lease_duration d)) (\<lambda>_.
     try_bind (ensure_positive_duration (dp_repair_interval d)) (\<lambda>_.
     try_bind (ensure_positive_duration (dp_failure_retry_delay d)) (\<lambda>_. Inr d)))"

text \<open>One claimed wake-up: delivered and acknowledged, or put back for a retry.\<close>

definition settle_claim ::
  "dispatcher \<Rightarrow> (string \<Rightarrow> uuid \<Rightarrow> bool) \<Rightarrow> int \<Rightarrow> claimed_wakeup \<Rightarrow> database \<Rightarrow> database" where
  "settle_claim d deliver now c db =
     snd (if deliver (cw_queue c) (cw_entity_id c)
       then acknowledge_dispatch (cw_wakeup_id c) (cw_lease_token c) now (now + dp_repair_interval d) db
       else reschedule_after_failure (cw_wakeup_id c) (cw_lease_token c) now
         (now + dp_failure_retry_delay d) db)"

definition dispatch_due ::
  "dispatcher \<Rightarrow> (string \<Rightarrow> uuid \<Rightarrow> bool) \<Rightarrow> uuid list \<Rightarrow> uuid list \<Rightarrow> datetime \<Rightarrow> int \<Rightarrow> database \<Rightarrow>
     (wakeup_dispatch_report \<times> database) result" where
  "dispatch_due d deliver locked tokens now limit db =
     try_bind (ensure_aware now) (\<lambda>t.
       if limit \<le> 0 then fail ''limit must be greater than zero''
       else
         let (claims, db') = claim_due locked tokens t (dp_lease_duration d) (nat limit) db;
             delivered = filter (\<lambda>c. deliver (cw_queue c) (cw_entity_id c)) claims
         in Inr (\<lparr>claimed_wakeups = length claims, dispatched_wakeups = length delivered,
                 failed_dispatches = length (filter (\<lambda>c. \<not> deliver (cw_queue c) (cw_entity_id c)) claims)\<rparr>,
               fold (settle_claim d deliver t) claims db'))"

section \<open>The worker service\<close>

definition check_identity :: "string \<Rightarrow> string \<Rightarrow> unit result" where
  "check_identity eid lease_token =
     (if blank eid then fail ''execution_id must not be blank''
      else if blank lease_token then fail ''lease_token must not be blank'' else Inr ())"

definition check_error_label :: "string \<Rightarrow> string result" where
  "check_error_label s =
     (if blank s then fail ''must not be blank''
      else if 128 < length (py_strip s) then fail ''must be at most 128 characters''
      else Inr (py_strip s))"

definition worker_claim ::
  "int \<Rightarrow> uuid list \<Rightarrow> uuid \<Rightarrow> uuid \<Rightarrow> datetime \<Rightarrow> database \<Rightarrow> (claimed_execution option \<times> database) result" where
  "worker_claim lease_duration locked token eid now db =
     try_bind (ensure_positive_duration lease_duration) (\<lambda>duration.
     try_bind (ensure_aware now) (\<lambda>t.
       if blank eid then fail ''execution_id must not be blank''
       else Inr (claim_execution locked token eid t duration db)))"

definition worker_advance ::
  "uuid \<Rightarrow> uuid \<Rightarrow> int \<Rightarrow> datetime \<Rightarrow> database \<Rightarrow> (bool \<times> database) result" where
  "worker_advance eid lease_token watermark now db =
     try_bind (ensure_aware now) (\<lambda>t.
     try_bind (check_identity eid lease_token) (\<lambda>_.
       if watermark < 0 then fail ''watermark_message_id must not be negative''
       else Inr (advance_row eid lease_token watermark t db)))"

definition worker_complete :: "uuid \<Rightarrow> uuid \<Rightarrow> datetime \<Rightarrow> database \<Rightarrow> (bool \<times> database) result" where
  "worker_complete eid lease_token now db =
     try_bind (ensure_aware now) (\<lambda>t.
     try_bind (check_identity eid lease_token) (\<lambda>_. complete_execution eid lease_token t db))"

definition worker_fail ::
  "uuid \<Rightarrow> uuid \<Rightarrow> string \<Rightarrow> string \<Rightarrow> bool \<Rightarrow> int \<Rightarrow> datetime \<Rightarrow> database \<Rightarrow> (bool \<times> database) result" where
  "worker_fail eid lease_token error_code error_type retryable retry_delay now db =
     try_bind (ensure_aware now) (\<lambda>t.
     try_bind (ensure_positive_duration retry_delay) (\<lambda>delay.
     try_bind (check_identity eid lease_token) (\<lambda>_.
     try_bind (check_error_label error_code) (\<lambda>code.
     try_bind (check_error_label error_type) (\<lambda>kind.
       Inr (fail_execution eid lease_token code kind retryable (t + delay) t db))))))"

section \<open>What the services guarantee\<close>

lemma create_counts:
  "create_execution_and_wakeup wid x queue now db = Inr (b, db') \<Longrightarrow>
     executions db' = executions db @ (if b then [new_execution_row x now] else []) \<and> (\<not> b \<longrightarrow> db' = db)"
  by (auto simp: create_execution_and_wakeup_def Let_def split: option.splits if_splits)

lemma schedule_loop_effect:
  "schedule_loop newest max_attempts now fresh ss (created, db) = Inr (created', db') \<Longrightarrow> reachable db \<Longrightarrow>
     reachable db' \<and> (\<exists>new. executions db' = executions db @ new \<and> created' = created + length new
       \<and> length new \<le> length ss \<and> (\<forall>e \<in> set new. \<exists>s \<in> set ss. re_range_id e = sr_range_id s
         \<and> re_from e = window_start s \<and> re_from e < re_to e
         \<and> window_end newest now s = Inr (Some (re_to e)) \<and> re_status e = E_PENDING))"
proof (induction ss arbitrary: created db)
  case Nil
  then show ?case by simp
next
  case (Cons s ss)
  from Cons.prems(1) obtain m where m: "window_end newest now s = Inr m"
    by (auto simp: try_bind_Inr)
  show ?case
  proof (cases "\<exists>k. m = Some k \<and> window_start s < k")
    case False
    with Cons.prems(1) m have "schedule_loop newest max_attempts now fresh ss (created, db) = Inr (created', db')"
      by (auto split: option.splits if_splits)
    from Cons.IH [OF this Cons.prems(2)] show ?thesis by (auto; fastforce)
  next
    case True
    then obtain k where k: "m = Some k" "window_start s < k" by blast
    let ?x = "planned_execution (fst (fresh (sr_range_id s))) k max_attempts s"
    from Cons.prems(1) m k obtain b db1 where
      c: "create_execution_and_wakeup (snd (fresh (sr_range_id s))) ?x range_execution_queue (instant now) db = Inr (b, db1)"
      and rest: "schedule_loop newest max_attempts now fresh ss (if b then created + 1 else created, db1) = Inr (created', db')"
      by (auto simp: try_bind_Inr)
    have "reachable db1" using Cons.prems(2) db_step.freeze [OF c] by (rule reachable.step)
    from Cons.IH [OF rest this] obtain new where new: "reachable db'" "executions db' = executions db1 @ new"
      "created' = (if b then created + 1 else created) + length new" "length new \<le> length ss"
      "\<forall>e \<in> set new. \<exists>s \<in> set ss. re_range_id e = sr_range_id s
         \<and> re_from e = window_start s \<and> re_from e < re_to e
         \<and> window_end newest now s = Inr (Some (re_to e)) \<and> re_status e = E_PENDING"
      by blast
    let ?new = "(if b then [new_execution_row ?x (instant now)] else []) @ new"
    have "executions db' = executions db @ ?new" using create_counts [OF c] new(2) by simp
    moreover have "created' = created + length ?new" using new(3) by simp
    moreover have "length ?new \<le> length (s # ss)" using new(4) by simp
    moreover have "\<forall>e \<in> set ?new. \<exists>t \<in> set (s # ss). re_range_id e = sr_range_id t
         \<and> re_from e = window_start t \<and> re_from e < re_to e
         \<and> window_end newest now t = Inr (Some (re_to e)) \<and> re_status e = E_PENDING"
      using new(5) m k by (auto simp: new_execution_row_def planned_execution_def)
    ultimately show ?thesis using new(1) by blast
  qed
qed

text \<open>
  A scheduler run only adds pending executions, counts exactly those it added, and each of
  them is a non-empty window of a listed range, from the end of what is processed to the fixed
  end or to a latest message that has been quiet long enough.
\<close>

theorem schedule_freezes_windows:
  assumes "schedule newest max_attempts now fresh db = Inr (report, db')" and "reachable db"
  shows "\<exists>new. executions db' = executions db @ new \<and> created_executions report = length new
    \<and> created_executions report + skipped_ranges report = scanned_ranges report
    \<and> (\<forall>e \<in> set new. re_status e = E_PENDING \<and> re_from e < re_to e \<and>
        (\<exists>s \<in> set (list_enabled_ranges db). re_range_id e = sr_range_id s \<and> re_from e = window_start s
          \<and> window_end newest now s = Inr (Some (re_to e))))"
proof -
  from assms(1) obtain created where
    loop: "schedule_loop newest max_attempts now fresh (list_enabled_ranges db) (0, db) = Inr (created, db')"
    and report: "report = \<lparr>scanned_ranges = length (list_enabled_ranges db), created_executions = created,
                skipped_ranges = length (list_enabled_ranges db) - created\<rparr>"
    by (auto simp: schedule_def try_bind_Inr Let_def split: if_splits)
  from schedule_loop_effect [OF loop assms(2)] obtain new where new: "executions db' = executions db @ new"
    "created = length new" "length new \<le> length (list_enabled_ranges db)"
    "\<forall>e \<in> set new. \<exists>s \<in> set (list_enabled_ranges db). re_range_id e = sr_range_id s
         \<and> re_from e = window_start s \<and> re_from e < re_to e
         \<and> window_end newest now s = Inr (Some (re_to e)) \<and> re_status e = E_PENDING"
    by auto
  have "created_executions report = length new"
    "created_executions report + skipped_ranges report = scanned_ranges report"
    using new(2,3) by (simp_all add: report)
  moreover have "\<forall>e \<in> set new. re_status e = E_PENDING \<and> re_from e < re_to e \<and>
        (\<exists>s \<in> set (list_enabled_ranges db). re_range_id e = sr_range_id s \<and> re_from e = window_start s
          \<and> window_end newest now s = Inr (Some (re_to e)))"
    using new(4) by blast
  ultimately show ?thesis using new(1) by blast
qed

lemma reachable_database1: "reachable database1"
proof -
  have "empty_database database0" by (simp add: empty_database_def database0_def)
  moreover have "fresh_range sample_range_row" "pr_id sample_range_row \<notin> pr_id ` set (ranges database0)"
    by (simp_all add: fresh_range_def sample_range_row_def database0_def)
  then have "db_step database0 database1" unfolding database1_def by (rule db_step.new_range)
  ultimately show ?thesis by (blast intro: reachable.intros)
qed

theorem schedule_freezes_windows_witness:
  "\<exists>report db' e. schedule (\<lambda>_. None) 3 (Aware 10) (\<lambda>_. (''x'', ''w'')) database1 = Inr (report, db')
     \<and> executions db' = [e] \<and> re_from e = 0 \<and> re_to e = 5"
proof -
  let ?run = "schedule (\<lambda>_. None) 3 (Aware 10) (\<lambda>_. (''x'', ''w'')) database1"
  have r: "?run = Inr (fst (projr ?run), snd (projr ?run))" by code_simp
  have listed: "list_enabled_ranges database1 = [\<lparr>sr_range_id = ''r'', sr_source_channel_id = ''c'',
      sr_profile_version_id = ''p'', sr_end_mode = ''fixed'', sr_resolved_start = 1,
      sr_resolved_fixed_end = Some 5, sr_watermark = None, sr_steady_after_seconds = None\<rparr>]" by code_simp
  have one: "created_executions (fst (projr ?run)) = 1" and none: "executions database1 = []" by code_simp+
  from schedule_freezes_windows [OF r reachable_database1] obtain new where
    new: "executions (snd (projr ?run)) = executions database1 @ new"
    "created_executions (fst (projr ?run)) = length new"
    "\<forall>e \<in> set new. \<exists>s \<in> set (list_enabled_ranges database1). re_from e = window_start s
          \<and> window_end (\<lambda>_. None) (Aware 10) s = Inr (Some (re_to e))" by blast
  from new(2) one have "length new = Suc 0" by simp
  then obtain e where "new = [e]" by (cases new) auto
  with new(1,3) listed none have "executions (snd (projr ?run)) = [e]" "re_from e = 0" "re_to e = 5"
    by (simp_all add: window_start_def window_end_def)
  with r show ?thesis by blast
qed

section \<open>The dispatcher gives every claim back\<close>

definition claim_row :: "int \<Rightarrow> int \<Rightarrow> uuid \<Rightarrow> wakeup_row \<Rightarrow> wakeup_row \<Rightarrow> wakeup_row" where
  "claim_row now duration token w x = (if wk_id x = wk_id w then lease_wakeup token now duration x else x)"

definition claim_of :: "uuid \<Rightarrow> wakeup_row \<Rightarrow> claimed_wakeup" where
  "claim_of token w = \<lparr>cw_wakeup_id = wk_id w, cw_queue = wk_queue w, cw_entity_id = wk_entity_id w,
     cw_lease_token = token\<rparr>"

lemma claim_rows_map:
  "length ws \<le> length tokens \<Longrightarrow>
     claim_rows now duration tokens ws db =
       (map2 claim_of tokens ws,
        db\<lparr>wakeups := map (fold (\<lambda>(t, w). claim_row now duration t w) (zip tokens ws)) (wakeups db)\<rparr>)"
proof (induction ws arbitrary: tokens db)
  case Nil
  then show ?case by (cases tokens) simp_all
next
  case (Cons w ws)
  then obtain t ts where tokens: "tokens = t # ts" by (cases tokens) simp_all
  with Cons show ?case
    by (simp add: Let_def update_where_def claim_row_def [abs_def] claim_of_def comp_def)
qed

definition release_row :: "dispatcher \<Rightarrow> (string \<Rightarrow> uuid \<Rightarrow> bool) \<Rightarrow> int \<Rightarrow> claimed_wakeup \<Rightarrow> wakeup_row \<Rightarrow> wakeup_row" where
  "release_row d deliver now c w =
     (if wk_id w = cw_wakeup_id c \<and> wk_status w = W_LEASED \<and> wk_lease_token w = Some (cw_lease_token c)
      then (if deliver (cw_queue c) (cw_entity_id c)
        then release_wakeup (now + dp_repair_interval d) now (Some now) w
        else release_wakeup (now + dp_failure_retry_delay d) now None w)
      else w)"

lemma settle_claims_map:
  "wakeups (fold (settle_claim d deliver now) cs db) =
     map (fold (release_row d deliver now) cs) (wakeups db)"
proof (induction cs arbitrary: db)
  case (Cons c cs)
  have "wakeups (settle_claim d deliver now c db) = map (release_row d deliver now c) (wakeups db)"
    by (cases "deliver (cw_queue c) (cw_entity_id c)")
      (simp_all add: settle_claim_def acknowledge_dispatch_def reschedule_after_failure_def
        release_claim_def Let_def update_where_def release_row_def [abs_def])
  with Cons show ?case by (simp add: comp_def)
qed simp

text \<open>A fold of row functions that keep the id: only the one for the row's own id matters.\<close>

lemma fold_own_id:
  assumes "\<And>c x. k (f c x) = k x" and "\<And>c x. k x \<noteq> g c \<Longrightarrow> f c x = x" and "distinct (map g cs)"
    and "c \<in> set cs" and "k x = g c"
  shows "fold f cs x = f c x"
  using assms(3-5)
proof (induction cs arbitrary: x)
  case (Cons b cs)
  have other: "k y \<notin> g ` set ds \<Longrightarrow> fold f ds y = y" for ds y
    using assms(2) by (induction ds) (simp_all add: image_iff)
  show ?case
  proof (cases "c = b")
    case True
    with Cons.prems assms(1) show ?thesis by (auto intro!: other)
  next
    case False
    then have c: "c \<in> set cs" using Cons.prems(2) by simp
    then have "g c \<in> g ` set cs" by (rule imageI)
    then have "g c \<noteq> g b" using Cons.prems(1) by (metis distinct.simps(2) list.set_map list.map(2))
    then have "f b x = x" using assms(2) [of x b] Cons.prems(3) by simp
    with Cons.IH [of x] c Cons.prems show ?thesis by simp
  qed
qed simp

lemma row_ids [simp]:
  "wk_id (claim_row now duration t w x) = wk_id x" "wk_id (release_row d deliver now c x) = wk_id x"
  by (simp_all add: claim_row_def release_row_def lease_wakeup_def release_wakeup_def)

text \<open>
  The dispatcher counts every claimed wake-up as delivered or failed, and gives each of
  them back: pending again, due after the repair interval when the queue took it and after the
  retry delay when it did not.
\<close>

theorem dispatcher_returns_every_claim:
  assumes "dispatch_due d deliver locked tokens now limit db = Inr (report, db')"
    and "distinct (map wk_id (wakeups db))" and "nat limit \<le> length tokens"
    and "w \<in> set (due_wakeups locked (instant now) (nat limit) (wakeups db))"
  shows "claimed_wakeups report = length (due_wakeups locked (instant now) (nat limit) (wakeups db))
    \<and> dispatched_wakeups report + failed_dispatches report = claimed_wakeups report
    \<and> (\<exists>w' \<in> set (wakeups db'). wk_id w' = wk_id w \<and> wk_status w' = W_PENDING \<and> wk_lease_token w' = None
        \<and> wk_dispatch_attempts w' = wk_dispatch_attempts w + 1
        \<and> wk_next_attempt_at w' = instant now +
            (if deliver (wk_queue w) (wk_entity_id w) then dp_repair_interval d else dp_failure_retry_delay d))"
proof -
  let ?t = "instant now" and ?ws = "due_wakeups locked (instant now) (nat limit) (wakeups db)"
  let ?claims = "map2 claim_of tokens ?ws"
  let ?claim = "fold (\<lambda>(t, w). claim_row ?t (dp_lease_duration d) t w) (zip tokens ?ws)"
  let ?release = "fold (release_row d deliver ?t) ?claims"
  have len: "length ?ws \<le> length tokens" using assms(3) by (simp add: due_wakeups_def)
  note rows = claim_rows_map [OF len, of ?t "dp_lease_duration d" db]
  have limit: "\<not> limit \<le> 0" and now: "ensure_aware now = Inr ?t"
    using assms(1) by (auto simp: dispatch_due_def try_bind_Inr ensure_aware_Inr split: if_splits)
  define out where "out = \<lparr>claimed_wakeups = length ?claims,
        dispatched_wakeups = length (filter (\<lambda>c. deliver (cw_queue c) (cw_entity_id c)) ?claims),
        failed_dispatches = length (filter (\<lambda>c. \<not> deliver (cw_queue c) (cw_entity_id c)) ?claims)\<rparr>"
  have "dispatch_due d deliver locked tokens now limit db = Inr (out, fold (settle_claim d deliver ?t) ?claims
      (db\<lparr>wakeups := map ?claim (wakeups db)\<rparr>))"
    unfolding dispatch_due_def now try_bind_simps claim_due_def rows out_def Let_def using limit
    by (simp only: if_False prod.case)
  with assms(1) have report: "report = out" and "db' = fold (settle_claim d deliver ?t) ?claims
      (db\<lparr>wakeups := map ?claim (wakeups db)\<rparr>)" by simp_all
  then have db': "wakeups db' = map ?release (map ?claim (wakeups db))" by (simp only: settle_claims_map) simp
  have wdb: "w \<in> set (wakeups db)"
    using assms(4) by (auto simp: due_wakeups_def dest: in_set_takeD)
  have dist: "distinct (map wk_id ?ws)"
    using assms(2) by (simp add: due_wakeups_def take_map [symmetric] distinct_take distinct_map_filter)
  obtain i where i: "i < length ?ws" "?ws ! i = w" using assms(4) by (metis in_set_conv_nth)
  let ?tok = "tokens ! i"
  have tw: "(?tok, w) \<in> set (zip tokens ?ws)"
    using i len by (auto simp: set_zip intro!: exI [of _ i])
  have zip_ids: "map (\<lambda>(t, w). wk_id w) (zip tokens ?ws) = map wk_id ?ws"
  proof -
    have "map snd (zip tokens ?ws) = ?ws" using len by (simp add: map_snd_zip_take)
    moreover have "map (\<lambda>(t, w). wk_id w) (zip tokens ?ws) = map wk_id (map snd (zip tokens ?ws))"
      by (simp add: case_prod_unfold comp_def)
    ultimately show ?thesis by simp
  qed
  have claimed: "?claim w = lease_wakeup ?tok ?t (dp_lease_duration d) w"
  proof -
    have "?claim w = (\<lambda>(t, w). claim_row ?t (dp_lease_duration d) t w) (?tok, w) w"
      by (rule fold_own_id [where k = wk_id and g = "\<lambda>(t, w). wk_id w"])
        (use dist tw zip_ids in \<open>auto simp: claim_row_def lease_wakeup_def\<close>)
    then show ?thesis by (simp add: claim_row_def)
  qed
  let ?x = "lease_wakeup ?tok ?t (dp_lease_duration d) w"
  have c: "claim_of ?tok w \<in> set ?claims" using imageI [OF tw, of "\<lambda>(t, w). claim_of t w"] by simp
  have cids: "map cw_wakeup_id ?claims = map wk_id ?ws"
    using zip_ids by (simp add: comp_def case_prod_unfold claim_of_def)
  have "?release ?x = release_row d deliver ?t (claim_of ?tok w) ?x"
    by (rule fold_own_id [where k = wk_id and g = cw_wakeup_id])
      (use dist cids c in \<open>auto simp: release_row_def release_wakeup_def claim_of_def lease_wakeup_def\<close>)
  then have released: "?release (?claim w) = release_row d deliver ?t (claim_of ?tok w) ?x"
    by (simp only: claimed)
  have "?release (?claim w) \<in> set (wakeups db')" using wdb by (simp add: db')
  moreover have "wk_id (?release (?claim w)) = wk_id w \<and> wk_status (?release (?claim w)) = W_PENDING
      \<and> wk_lease_token (?release (?claim w)) = None
      \<and> wk_dispatch_attempts (?release (?claim w)) = wk_dispatch_attempts w + 1
      \<and> wk_next_attempt_at (?release (?claim w)) = ?t +
          (if deliver (wk_queue w) (wk_entity_id w) then dp_repair_interval d else dp_failure_retry_delay d)"
    unfolding released by (simp add: release_row_def claim_of_def lease_wakeup_def release_wakeup_def)
  moreover have "claimed_wakeups report = length ?ws" using len by (simp add: report out_def)
  moreover have "dispatched_wakeups report + failed_dispatches report = claimed_wakeups report"
    by (simp only: report out_def wakeup_dispatch_report.simps sum_length_filter_compl)
  ultimately show ?thesis by blast
qed

definition sample_dispatcher :: dispatcher where
  "sample_dispatcher = \<lparr>dp_lease_duration = 60, dp_repair_interval = 300, dp_failure_retry_delay = 30\<rparr>"

theorem dispatcher_returns_every_claim_witness:
  "\<exists>report db'. dispatch_due sample_dispatcher (\<lambda>_ _. False) [] [''k''] (Aware 10) 1 database2 = Inr (report, db')
     \<and> (\<exists>w \<in> set (wakeups db'). wk_status w = W_PENDING \<and> wk_next_attempt_at w = 40)"
proof -
  let ?run = "dispatch_due sample_dispatcher (\<lambda>_ _. False) [] [''k''] (Aware 10) 1 database2"
  have r: "?run = Inr (fst (projr ?run), snd (projr ?run))" by code_simp
  have d: "distinct (map wk_id (wakeups database2))" and l: "nat 1 \<le> length [''k'']"
    and w: "hd (wakeups database2) \<in> set (due_wakeups [] (instant (Aware 10)) (nat 1) (wakeups database2))"
    by code_simp+
  obtain w' where "w' \<in> set (wakeups (snd (projr ?run)))" "wk_status w' = W_PENDING"
    "wk_next_attempt_at w' = instant (Aware 10) + (if False then dp_repair_interval sample_dispatcher
       else dp_failure_retry_delay sample_dispatcher)"
    using dispatcher_returns_every_claim [OF r d l w] by blast
  moreover from this have "wk_next_attempt_at w' = 40" by (simp add: sample_dispatcher_def)
  ultimately show ?thesis using r by blast
qed

end
