(* ===== verification/Messages.thy ===== *)
theory Messages
  imports Json_Data Uuids
begin

text \<open>
  Telegram messages before they are stored: \<^verbatim>\<open>domain/messages/models.py\<close> (media assets, their JSON
  snapshots, the visual fingerprint) and \<^verbatim>\<open>domain/messages/telegram.py\<close> (component messages, their
  parts, and the logical message that a native media group is normalised to).  \<open>sha\<close> stands for
  SHA-256 of a text, in hexadecimal.

  A record stands for the arguments of a constructor that have the declared types; \<open>make_media_asset\<close>
  alone takes dynamically typed values, since \<^verbatim>\<open>from_json\<close> passes them on unchecked.  Every
  \<open>pyval\<close> is JSON-safe, so \<^verbatim>\<open>_validate_json_value\<close> never rejects the metadata of the model.
\<close>

section \<open>Media assets\<close>

datatype media_kind = IMAGE | VIDEO | DOCUMENT | AUDIO

fun media_kind_value :: "media_kind \<Rightarrow> string" where
  "media_kind_value IMAGE = ''image''"
| "media_kind_value VIDEO = ''video''"
| "media_kind_value DOCUMENT = ''document''"
| "media_kind_value AUDIO = ''audio''"

definition media_kind_of :: "pyval \<Rightarrow> media_kind option" where
  "media_kind_of v =
     (case v of PStr s \<Rightarrow> find (\<lambda>k. media_kind_value k = s) [IMAGE, VIDEO, DOCUMENT, AUDIO] | _ \<Rightarrow> None)"

record media_asset =
  md_asset_id :: string
  md_kind :: media_kind
  md_original_visual_phash :: "string option"
  md_video_cover_phash :: "string option"
  md_representative_frame_phashes :: "string list"
  md_source_telegram_message_id :: "int option"

text \<open>\<^verbatim>\<open>_PHASH_PATTERN.fullmatch\<close>.\<close>

definition is_phash :: "string \<Rightarrow> bool" where
  "is_phash s \<longleftrightarrow> 16 \<le> length s \<and> (\<forall>c \<in> set s. hex_digit_value c \<noteq> None)"

definition validate_phash :: "pyval \<Rightarrow> string result" where
  "validate_phash v =
     (case v of
        PStr s \<Rightarrow> if is_phash s then Inr s else fail ''must contain hexadecimal perceptual hashes''
      | _ \<Rightarrow> fail ''must contain hexadecimal perceptual hashes'')"

definition validate_optional_phash :: "pyval \<Rightarrow> string option result" where
  "validate_optional_phash v =
     (if v = PNone then Inr None else try_bind (validate_phash v) (\<lambda>s. Inr (Some s)))"

definition source_message_id :: "pyval \<Rightarrow> int option result" where
  "source_message_id v =
     (case v of
        PNone \<Rightarrow> Inr None
      | PInt i \<Rightarrow> if i \<le> 0 then fail ''source_telegram_message_id must be a positive integer'' else Inr (Some i)
      | _ \<Rightarrow> fail ''source_telegram_message_id must be a positive integer'')"

definition make_media_asset ::
  "pyval \<Rightarrow> media_kind \<Rightarrow> pyval \<Rightarrow> pyval \<Rightarrow> pyval \<Rightarrow> pyval \<Rightarrow> media_asset result" where
  "make_media_asset asset_id kind original cover frames source =
     (case asset_id of
        PStr a \<Rightarrow>
          if blank a then fail ''asset_id must not be blank''
          else (case frames of
              PTuple fs \<Rightarrow>
                try_bind (validate_optional_phash original) (\<lambda>o1.
                try_bind (validate_optional_phash cover) (\<lambda>c1.
                try_bind (traverse validate_phash fs) (\<lambda>fs1.
                  if kind \<noteq> IMAGE \<and> o1 \<noteq> None
                  then fail ''only image assets may define original_visual_phash''
                  else if kind \<noteq> VIDEO \<and> c1 \<noteq> None
                  then fail ''only video assets may define video_cover_phash''
                  else if kind \<noteq> VIDEO \<and> fs1 \<noteq> []
                  then fail ''only video assets may define representative_frame_phashes''
                  else try_bind (source_message_id source) (\<lambda>s1.
                    Inr \<lparr>md_asset_id = a, md_kind = kind, md_original_visual_phash = o1,
                         md_video_cover_phash = c1, md_representative_frame_phashes = fs1,
                         md_source_telegram_message_id = s1\<rparr>))))
            | _ \<Rightarrow> fail ''representative_frame_phashes must be a tuple'')
      | _ \<Rightarrow> fail ''asset_id must not be blank'')"

text \<open>\<^verbatim>\<open>str.lower\<close> on ASCII letters.\<close>

definition lower_char :: "char \<Rightarrow> char" where
  "lower_char c = (let n = (of_char c :: nat) in if 65 \<le> n \<and> n \<le> 90 then char_of (n + 32) else c)"

definition lower :: "string \<Rightarrow> string" where
  "lower = map lower_char"

definition duplicate_identity_phash :: "media_asset \<Rightarrow> string option" where
  "duplicate_identity_phash m =
     (case md_kind m of
        IMAGE \<Rightarrow> map_option lower (md_original_visual_phash m)
      | VIDEO \<Rightarrow> map_option lower (md_video_cover_phash m)
      | _ \<Rightarrow> None)"

section \<open>JSON snapshots\<close>

definition optional_text :: "string option \<Rightarrow> pyval" where
  "optional_text v = (case v of None \<Rightarrow> PNone | Some s \<Rightarrow> PStr s)"

definition optional_int :: "int option \<Rightarrow> pyval" where
  "optional_int v = (case v of None \<Rightarrow> PNone | Some i \<Rightarrow> PInt i)"

definition to_json :: "media_asset \<Rightarrow> pyval" where
  "to_json m = PDict
     [(''asset_id'', PStr (md_asset_id m)), (''kind'', PStr (media_kind_value (md_kind m))),
      (''original_visual_phash'', optional_text (md_original_visual_phash m)),
      (''video_cover_phash'', optional_text (md_video_cover_phash m)),
      (''representative_frame_phashes'', PList (map PStr (md_representative_frame_phashes m))),
      (''source_telegram_message_id'', optional_int (md_source_telegram_message_id m))]"

definition snapshot_fields :: "string list" where
  "snapshot_fields = [''asset_id'', ''kind'', ''original_visual_phash'', ''video_cover_phash'',
     ''representative_frame_phashes'', ''source_telegram_message_id'']"

definition field :: "(string, pyval) dict \<Rightarrow> string \<Rightarrow> pyval" where
  "field d k = (case map_of d k of Some v \<Rightarrow> v | None \<Rightarrow> PNone)"

definition is_text :: "pyval \<Rightarrow> bool" where
  "is_text v = (case v of PStr _ \<Rightarrow> True | _ \<Rightarrow> False)"

definition from_json :: "pyval \<Rightarrow> media_asset result" where
  "from_json value =
     (case value of
        PDict d \<Rightarrow>
          if set (map fst d) \<noteq> set snapshot_fields
          then fail ''media asset snapshot has missing or unknown fields''
          else (case field d ''representative_frame_phashes'' of
              PList fs \<Rightarrow>
                if list_ex (\<lambda>f. \<not> is_text f) fs
                then fail ''representative_frame_phashes must be a JSON array of strings''
                else (case media_kind_of (field d ''kind'') of
                    None \<Rightarrow> fail ''media asset snapshot has an invalid kind''
                  | Some kind \<Rightarrow> make_media_asset (field d ''asset_id'') kind
                      (field d ''original_visual_phash'') (field d ''video_cover_phash'') (PTuple fs)
                      (field d ''source_telegram_message_id''))
            | _ \<Rightarrow> fail ''representative_frame_phashes must be a JSON array of strings'')
      | _ \<Rightarrow> fail ''media asset snapshot must be a JSON object'')"

definition media_assets_to_json :: "media_asset list \<Rightarrow> pyval list" where
  "media_assets_to_json = map to_json"

definition media_assets_from_json :: "pyval list \<Rightarrow> media_asset list result" where
  "media_assets_from_json = traverse from_json"

section \<open>Content and fingerprint\<close>

definition check_message_content :: "media_asset list \<Rightarrow> unit result" where
  "check_message_content media =
     (if \<not> distinct (map md_asset_id media)
      then fail ''a message cannot contain duplicate asset_id values'' else Inr ())"

definition unit_separator :: char where
  "unit_separator = char_of (31 :: nat)"

fun joined :: "string list \<Rightarrow> string" where
  "joined [] = []"
| "joined [h] = h"
| "joined (h # hs) = h @ unit_separator # joined hs"

definition identity_hashes :: "media_asset list \<Rightarrow> string list" where
  "identity_hashes media = sort (List.map_filter duplicate_identity_phash media)"

definition fingerprint_text :: "string list \<Rightarrow> string" where
  "fingerprint_text hashes = ''message-visual-fingerprint:v1'' @ unit_separator # joined hashes"

definition message_visual_fingerprint :: "(string \<Rightarrow> string) \<Rightarrow> media_asset list \<Rightarrow> string option" where
  "message_visual_fingerprint sha media =
     (let hashes = identity_hashes media in
      if hashes = [] then None else Some (sha (fingerprint_text hashes)))"

section \<open>Component messages\<close>

record telegram_message =
  tm_source_channel_id :: string
  tm_telegram_message_id :: int
  tm_published_at :: datetime
  tm_edited_at :: "datetime option"
  tm_original_text :: "string option"
  tm_telegram_grouped_id :: "int option"
  tm_telegram_metadata :: "(string, pyval) dict"
  tm_media :: "media_asset list"

record telegram_message_part =
  tp_telegram_message_id :: int
  tp_published_at :: datetime
  tp_edited_at :: "datetime option"
  tp_original_text :: "string option"
  tp_telegram_metadata :: "(string, pyval) dict"
  tp_media :: "media_asset list"

definition validate_message_id :: "int \<Rightarrow> int result" where
  "validate_message_id i = (if i \<le> 0 then fail ''must be a positive integer'' else Inr i)"

definition validate_optional_message_id :: "int option \<Rightarrow> unit result" where
  "validate_optional_message_id v =
     (case v of None \<Rightarrow> Inr () | Some i \<Rightarrow> try_bind (validate_message_id i) (\<lambda>_. Inr ()))"

definition validate_times :: "datetime \<Rightarrow> datetime option \<Rightarrow> unit result" where
  "validate_times published edited =
     try_bind (ensure_aware published) (\<lambda>p.
       case edited of
         None \<Rightarrow> Inr ()
       | Some d \<Rightarrow> try_bind (ensure_aware d) (\<lambda>e.
           if e < p then fail ''edited_at must not be before published_at'' else Inr ()))"

definition check_telegram_message :: "telegram_message \<Rightarrow> telegram_message result" where
  "check_telegram_message m =
     try_bind (as_uuid (tm_source_channel_id m)) (\<lambda>_.
     try_bind (validate_message_id (tm_telegram_message_id m)) (\<lambda>_.
     try_bind (validate_optional_message_id (tm_telegram_grouped_id m)) (\<lambda>_.
     try_bind (validate_times (tm_published_at m) (tm_edited_at m)) (\<lambda>_.
     try_bind (check_message_content (tm_media m)) (\<lambda>_. Inr m)))))"

definition check_message_part :: "telegram_message_part \<Rightarrow> telegram_message_part result" where
  "check_message_part p =
     try_bind (validate_message_id (tp_telegram_message_id p)) (\<lambda>_.
     try_bind (validate_times (tp_published_at p) (tp_edited_at p)) (\<lambda>_.
     try_bind (check_message_content (tp_media p)) (\<lambda>_. Inr p)))"

definition part_of :: "telegram_message \<Rightarrow> telegram_message_part" where
  "part_of m =
     \<lparr>tp_telegram_message_id = tm_telegram_message_id m, tp_published_at = tm_published_at m,
      tp_edited_at = tm_edited_at m, tp_original_text = tm_original_text m,
      tp_telegram_metadata = tm_telegram_metadata m, tp_media = tm_media m\<rparr>"

definition as_part :: "telegram_message \<Rightarrow> telegram_message_part result" where
  "as_part m = check_message_part (part_of m)"

section \<open>Logical messages\<close>

record normalized_message =
  nm_source_channel_id :: string
  nm_primary_telegram_message_id :: int
  nm_telegram_message_ids :: "int list"
  nm_published_at :: datetime
  nm_edited_at :: "datetime option"
  nm_original_text :: "string option"
  nm_telegram_grouped_id :: "int option"
  nm_telegram_metadata :: "(string, pyval) dict"
  nm_parts :: "telegram_message_part list"
  nm_media :: "media_asset list"

definition check_normalized_message :: "normalized_message \<Rightarrow> normalized_message result" where
  "check_normalized_message n =
     try_bind (as_uuid (nm_source_channel_id n)) (\<lambda>_.
     try_bind (validate_message_id (nm_primary_telegram_message_id n)) (\<lambda>_.
       if nm_telegram_message_ids n = [] then fail ''telegram_message_ids must not be empty''
       else if sort (nm_telegram_message_ids n) \<noteq> nm_telegram_message_ids n
       then fail ''telegram_message_ids must be strictly sorted''
       else if \<not> distinct (nm_telegram_message_ids n) then fail ''telegram_message_ids must be unique''
       else if nm_primary_telegram_message_id n \<noteq> hd (nm_telegram_message_ids n)
       then fail ''primary Telegram message ID must be the smallest part ID''
       else try_bind (traverse validate_message_id (nm_telegram_message_ids n)) (\<lambda>_.
       try_bind (validate_optional_message_id (nm_telegram_grouped_id n)) (\<lambda>_.
         if nm_telegram_grouped_id n = None \<and> length (nm_telegram_message_ids n) \<noteq> 1
         then fail ''a non-grouped message must have exactly one component ID''
         else try_bind (validate_times (nm_published_at n) (nm_edited_at n)) (\<lambda>_.
           if map tp_telegram_message_id (nm_parts n) \<noteq> nm_telegram_message_ids n
           then fail ''parts must match telegram_message_ids in sorted order''
           else try_bind (check_message_content (nm_media n)) (\<lambda>_. Inr n))))))"

definition media_count :: "normalized_message \<Rightarrow> nat" where
  "media_count n = length (nm_media n)"

definition normalized_fingerprint :: "(string \<Rightarrow> string) \<Rightarrow> normalized_message \<Rightarrow> string option" where
  "normalized_fingerprint sha n = message_visual_fingerprint sha (nm_media n)"

text \<open>The metadata of the logical message lists the metadata of its components.\<close>

definition component_metadata :: "telegram_message \<Rightarrow> pyval" where
  "component_metadata m = PDict
     [(''telegram_message_id'', PInt (tm_telegram_message_id m)),
      (''metadata'', PDict (tm_telegram_metadata m))]"

text \<open>\<^verbatim>\<open>next((text for ... if text is not None), None)\<close>.\<close>

fun first_text :: "telegram_message list \<Rightarrow> string option" where
  "first_text [] = None"
| "first_text (m # ms) = (case tm_original_text m of None \<Rightarrow> first_text ms | Some t \<Rightarrow> Some t)"

text \<open>\<^verbatim>\<open>min\<close> and \<^verbatim>\<open>max\<close> return the first value that no other undercuts or exceeds.\<close>

definition earlier_of :: "datetime \<Rightarrow> datetime \<Rightarrow> datetime" where
  "earlier_of a b = (if instant b < instant a then b else a)"

definition later_of :: "datetime \<Rightarrow> datetime \<Rightarrow> datetime" where
  "later_of a b = (if instant a < instant b then b else a)"

definition latest :: "datetime list \<Rightarrow> datetime option" where
  "latest ts = (case ts of [] \<Rightarrow> None | t # rest \<Rightarrow> Some (fold (\<lambda>x a. later_of a x) rest t))"

definition normalize_parts ::
  "string \<Rightarrow> int option \<Rightarrow> telegram_message list \<Rightarrow> normalized_message result" where
  "normalize_parts channel grouped messages =
     (case sort_key tm_telegram_message_id messages of
        [] \<Rightarrow> fail ''a logical Telegram message must contain at least one part''
      | m # rest \<Rightarrow>
          let ordered = m # rest; media = concat (map tm_media ordered) in
          try_bind (traverse as_part ordered) (\<lambda>parts.
          try_bind (check_message_content media) (\<lambda>_.
          check_normalized_message
            \<lparr>nm_source_channel_id = channel,
             nm_primary_telegram_message_id = tm_telegram_message_id m,
             nm_telegram_message_ids = map tm_telegram_message_id ordered,
             nm_published_at = fold (\<lambda>x a. earlier_of a (tm_published_at x)) rest (tm_published_at m),
             nm_edited_at = latest (List.map_filter tm_edited_at ordered),
             nm_original_text = first_text ordered, nm_telegram_grouped_id = grouped,
             nm_telegram_metadata = [(''parts'', PList (map component_metadata ordered))],
             nm_parts = parts, nm_media = media\<rparr>)))"

definition message_of_part :: "string \<Rightarrow> int option \<Rightarrow> telegram_message_part \<Rightarrow> telegram_message" where
  "message_of_part channel grouped p =
     \<lparr>tm_source_channel_id = channel, tm_telegram_message_id = tp_telegram_message_id p,
      tm_published_at = tp_published_at p, tm_edited_at = tp_edited_at p,
      tm_original_text = tp_original_text p, tm_telegram_grouped_id = grouped,
      tm_telegram_metadata = tp_telegram_metadata p, tm_media = tp_media p\<rparr>"

definition normalized_from_parts ::
  "string \<Rightarrow> int option \<Rightarrow> telegram_message_part list \<Rightarrow> normalized_message result" where
  "normalized_from_parts channel grouped parts =
     try_bind (traverse (\<lambda>p. check_telegram_message (message_of_part channel grouped p)) parts) (\<lambda>messages.
       normalize_parts channel grouped messages)"

section \<open>Batches\<close>

type_synonym component_key = "string \<times> int"

definition component_key :: "telegram_message \<Rightarrow> component_key" where
  "component_key m = (tm_source_channel_id m, tm_telegram_message_id m)"

text \<open>The loop: components seen, groups in order of appearance, regular messages.\<close>

fun collect :: "component_key list \<Rightarrow> (component_key, telegram_message list) dict \<Rightarrow> telegram_message list \<Rightarrow>
    telegram_message list \<Rightarrow>
    ((component_key, telegram_message list) dict \<times> telegram_message list) result" where
  "collect seen groups regular [] = Inr (groups, regular)"
| "collect seen groups regular (m # ms) =
     (if component_key m \<in> set seen
      then fail ''a Telegram component message may occur only once in one ingestion batch''
      else (case tm_telegram_grouped_id m of
          None \<Rightarrow> collect (component_key m # seen) groups (regular @ [m]) ms
        | Some g \<Rightarrow>
            let key = (tm_source_channel_id m, g);
                old = (case map_of groups key of None \<Rightarrow> [] | Some l \<Rightarrow> l)
            in collect (component_key m # seen) (dict_set key (old @ [m]) groups) regular ms))"

definition batch_order :: "normalized_message \<Rightarrow> string \<times> int \<times> bool" where
  "batch_order n = (nm_source_channel_id n, nm_primary_telegram_message_id n, nm_telegram_grouped_id n \<noteq> None)"

definition normalize_telegram_messages :: "telegram_message list \<Rightarrow> normalized_message list result" where
  "normalize_telegram_messages messages =
     try_bind (collect [] [] [] messages) (\<lambda>(groups, regular).
     try_bind (traverse (\<lambda>m. normalize_parts (tm_source_channel_id m) None [m]) regular) (\<lambda>singles.
     try_bind (traverse (\<lambda>((channel, g), ms). normalize_parts channel (Some g) ms) groups) (\<lambda>grouped.
       Inr (sort_key batch_order (singles @ grouped)))))"

end
