(* ===== verification/Message_Normalization.thy ===== *)
theory Message_Normalization
  imports Messages
begin

text \<open>
  Properties of message normalisation: media snapshots are read back as written, the visual
  fingerprint identifies the multiset of identity hashes, a batch is partitioned into logical
  messages whatever its order, and recomputing a logical message from its parts is stable.
\<close>

section \<open>Snapshots\<close>

text \<open>The assets that the constructor returns.\<close>

definition constructed_asset :: "media_asset \<Rightarrow> bool" where
  "constructed_asset m \<longleftrightarrow>
     make_media_asset (PStr (md_asset_id m)) (md_kind m) (optional_text (md_original_visual_phash m))
       (optional_text (md_video_cover_phash m)) (PTuple (map PStr (md_representative_frame_phashes m)))
       (optional_int (md_source_telegram_message_id m)) = Inr m"

lemma media_kind_of_value [simp]: "media_kind_of (PStr (media_kind_value k)) = Some k"
  by (cases k) (simp_all add: media_kind_of_def)

lemma media_kind_of_Some: "media_kind_of v = Some k \<Longrightarrow> v = PStr (media_kind_value k)"
  by (auto simp: media_kind_of_def split: pyval.splits if_splits)

lemma from_to_json: "constructed_asset m \<Longrightarrow> from_json (to_json m) = Inr m"
  by (simp add: from_json_def to_json_def snapshot_fields_def field_def list_ex_iff is_text_def constructed_asset_def)

lemma all_text: "\<forall>f \<in> set fs. is_text f \<Longrightarrow> \<exists>ss. fs = map PStr ss"
proof (induction fs)
  case (Cons f fs)
  then obtain s ss where "f = PStr s" "fs = map PStr ss" by (auto simp: is_text_def split: pyval.splits)
  then have "f # fs = map PStr (s # ss)" by simp
  then show ?case by (rule exI)
qed simp

lemma validate_phash_Inr: "validate_phash v = Inr s \<Longrightarrow> v = PStr s"
  by (auto simp: validate_phash_def split: pyval.splits if_splits)

lemma validate_optional_phash_Inr: "validate_optional_phash v = Inr s \<Longrightarrow> v = optional_text s"
  by (auto simp: validate_optional_phash_def optional_text_def result_simps dest: validate_phash_Inr split: if_splits)

lemma validate_phashes_Inr: "traverse validate_phash fs = Inr ss \<Longrightarrow> fs = map PStr ss"
  by (induction fs arbitrary: ss) (auto simp: result_simps dest: validate_phash_Inr)

lemma source_message_id_Inr: "source_message_id v = Inr s \<Longrightarrow> v = optional_int s"
  by (auto simp: source_message_id_def optional_int_def split: pyval.splits if_splits)

lemma make_media_asset_Inr:
  assumes "make_media_asset a k p c (PTuple fs) s = Inr m"
  shows "a = PStr (md_asset_id m)" and "k = md_kind m" and "p = optional_text (md_original_visual_phash m)"
    and "c = optional_text (md_video_cover_phash m)" and "fs = map PStr (md_representative_frame_phashes m)"
    and "s = optional_int (md_source_telegram_message_id m)" and "constructed_asset m"
proof -
  from assms obtain i where a: "a = PStr i" by (cases a) (simp_all add: make_media_asset_def)
  from assms a obtain p1 c1 fs1 s1 where r: "validate_optional_phash p = Inr p1"
      "validate_optional_phash c = Inr c1" "traverse validate_phash fs = Inr fs1" "source_message_id s = Inr s1"
      "m = \<lparr>md_asset_id = i, md_kind = k, md_original_visual_phash = p1, md_video_cover_phash = c1,
        md_representative_frame_phashes = fs1, md_source_telegram_message_id = s1\<rparr>"
    by (auto simp: make_media_asset_def result_simps split: if_splits)
  note e = validate_optional_phash_Inr [OF r(1)] validate_optional_phash_Inr [OF r(2)]
    validate_phashes_Inr [OF r(3)] source_message_id_Inr [OF r(4)]
  show "a = PStr (md_asset_id m)" "k = md_kind m" "p = optional_text (md_original_visual_phash m)"
    "c = optional_text (md_video_cover_phash m)" "fs = map PStr (md_representative_frame_phashes m)"
    "s = optional_int (md_source_telegram_message_id m)"
    using a e by (simp_all add: r(5))
  with assms show "constructed_asset m" by (simp add: constructed_asset_def)
qed

lemma from_jsonE:
  assumes "from_json (PDict d) = Inr m"
  shows "constructed_asset m" and "set (map fst d) = set snapshot_fields"
    and "field d ''asset_id'' = PStr (md_asset_id m)" "field d ''kind'' = PStr (media_kind_value (md_kind m))"
      "field d ''original_visual_phash'' = optional_text (md_original_visual_phash m)"
      "field d ''video_cover_phash'' = optional_text (md_video_cover_phash m)"
      "field d ''representative_frame_phashes'' = PList (map PStr (md_representative_frame_phashes m))"
      "field d ''source_telegram_message_id'' = optional_int (md_source_telegram_message_id m)"
proof -
  show keys: "set (map fst d) = set snapshot_fields" using assms by (simp add: from_json_def split: if_splits)
  obtain fs where fs: "field d ''representative_frame_phashes'' = PList fs"
    using assms keys by (cases "field d ''representative_frame_phashes''") (simp_all add: from_json_def)
  have "\<not> list_ex (\<lambda>f. \<not> is_text f) fs" using assms keys fs by (simp add: from_json_def split: if_splits)
  with assms keys fs obtain k where k: "media_kind_of (field d ''kind'') = Some k"
      and m: "make_media_asset (field d ''asset_id'') k (field d ''original_visual_phash'')
        (field d ''video_cover_phash'') (PTuple fs) (field d ''source_telegram_message_id'') = Inr m"
    by (auto simp: from_json_def split: option.splits)
  note i = make_media_asset_Inr [OF m]
  show "constructed_asset m" "field d ''asset_id'' = PStr (md_asset_id m)"
    "field d ''original_visual_phash'' = optional_text (md_original_visual_phash m)"
    "field d ''video_cover_phash'' = optional_text (md_video_cover_phash m)"
    "field d ''source_telegram_message_id'' = optional_int (md_source_telegram_message_id m)"
    by (rule i)+
  show "field d ''kind'' = PStr (media_kind_value (md_kind m))"
    using media_kind_of_Some [OF k] i(2) by simp
  show "field d ''representative_frame_phashes'' = PList (map PStr (md_representative_frame_phashes m))"
    using fs i(5) by simp
qed

lemma field_Some: "k \<in> set (map fst d) \<Longrightarrow> map_of d k = Some (field d k)"
  by (cases "map_of d k") (auto simp: field_def map_of_eq_None_iff)

definition snapshot_items :: "media_asset \<Rightarrow> (string, pyval) dict" where
  "snapshot_items m = (case to_json m of PDict d \<Rightarrow> d | _ \<Rightarrow> [])"

lemma from_json_items:
  "from_json (PDict d) = Inr m \<longleftrightarrow> constructed_asset m \<and> map_of d = map_of (snapshot_items m)"
proof
  assume a: "from_json (PDict d) = Inr m"
  note e = from_jsonE [OF a]
  have "map_of d k = map_of (snapshot_items m) k" for k
  proof (cases "k \<in> set snapshot_fields")
    case True
    then have "map_of d k = Some (field d k)" using e(2) by (intro field_Some) simp
    with True e(3-) show ?thesis by (auto simp: snapshot_fields_def snapshot_items_def to_json_def)
  next
    case False
    then have "k \<notin> fst ` set d" using e(2) by simp
    then have "map_of d k = None" by (simp add: map_of_eq_None_iff)
    with False show ?thesis by (auto simp: snapshot_fields_def snapshot_items_def to_json_def)
  qed
  with e(1) show "constructed_asset m \<and> map_of d = map_of (snapshot_items m)" by auto
next
  assume a: "constructed_asset m \<and> map_of d = map_of (snapshot_items m)"
  then have f: "field d = field (snapshot_items m)" by (simp add: fun_eq_iff field_def)
  have "fst ` set d = fst ` set (snapshot_items m)"
    using a by (metis dom_map_of_conv_image_fst)
  then have "set (map fst d) = set (map fst (snapshot_items m))" by simp
  then have "from_json (PDict d) = from_json (PDict (snapshot_items m))"
    by (simp only: from_json_def pyval.case f)
  also have "PDict (snapshot_items m) = to_json m" by (simp add: snapshot_items_def to_json_def)
  finally show "from_json (PDict d) = Inr m" using a by (simp add: from_to_json)
qed

text \<open>Reading a media snapshot back: a list of constructed assets is recovered exactly from its
  JSON snapshots, and an object is accepted as a snapshot of an asset exactly when it has the six
  fields that writing that asset produces, with the same values in whatever order.\<close>

theorem media_snapshots_read_back:
  "(\<forall>m \<in> set ms. constructed_asset m) \<Longrightarrow>
     media_assets_from_json (media_assets_to_json ms) = Inr ms
     \<and> (\<forall>d m. from_json (PDict d) = Inr m \<longleftrightarrow> constructed_asset m \<and> map_of d = map_of (snapshot_items m))"
proof (intro conjI allI from_json_items)
  assume "\<forall>m \<in> set ms. constructed_asset m"
  then show "media_assets_from_json (media_assets_to_json ms) = Inr ms"
    unfolding media_assets_from_json_def media_assets_to_json_def
    by (induction ms) (simp_all add: from_to_json)
qed

definition sample_phash :: string where
  "sample_phash = ''00FFeeDDccBBaa99''"

definition sample_asset :: media_asset where
  "sample_asset = \<lparr>md_asset_id = ''photo'', md_kind = IMAGE, md_original_visual_phash = Some sample_phash,
     md_video_cover_phash = None, md_representative_frame_phashes = [],
     md_source_telegram_message_id = Some 5\<rparr>"

lemma sample_asset_constructed: "constructed_asset sample_asset"
  by (auto simp: constructed_asset_def sample_asset_def make_media_asset_def optional_text_def optional_int_def
      validate_optional_phash_def validate_phash_def is_phash_def sample_phash_def hex_digit_value_def Let_def
      source_message_id_def blank_iff py_space_def)

theorem media_snapshots_read_back_witness:
  "media_assets_from_json (media_assets_to_json [sample_asset, sample_asset]) = Inr [sample_asset, sample_asset]"
  using media_snapshots_read_back [of "[sample_asset, sample_asset]"] sample_asset_constructed by simp

section \<open>The fingerprint\<close>

lemma split_at_separator:
  "x \<notin> set a \<Longrightarrow> x \<notin> set c \<Longrightarrow> a @ x # b = c @ x # d \<longleftrightarrow> a = c \<and> b = d"
proof (induction a arbitrary: c)
  case Nil
  then show ?case by (cases c) auto
next
  case (Cons y a)
  then show ?case by (cases c) auto
qed

definition plain :: "string list \<Rightarrow> bool" where
  "plain hs \<longleftrightarrow> (\<forall>h \<in> set hs. h \<noteq> [] \<and> unit_separator \<notin> set h)"

lemma joined_inj: "plain xs \<Longrightarrow> plain ys \<Longrightarrow> joined xs = joined ys \<Longrightarrow> xs = ys"
proof (induction xs arbitrary: ys rule: joined.induct)
  case 1
  then show ?case by (cases ys rule: joined.cases) (auto simp: plain_def)
next
  case (2 h)
  show ?case
  proof (cases ys rule: joined.cases)
    case (3 g g' gs)
    then have "unit_separator \<in> set (joined ys)" by simp
    moreover have "joined ys = h" using 2 by simp
    ultimately show ?thesis using "2.prems"(1) by (simp add: plain_def)
  qed (use 2 in \<open>auto simp: plain_def\<close>)
next
  case (3 h h' hs)
  show ?case
  proof (cases ys rule: joined.cases)
    case 1
    with 3 show ?thesis by simp
  next
    case (2 g)
    have "unit_separator \<in> set (joined ys)" unfolding "3.prems"(3) [symmetric] by simp
    then have "unit_separator \<in> set g" using 2 by simp
    then show ?thesis using "3.prems"(2) 2 by (simp add: plain_def)
  next
    case (3 g g' gs)
    then have "h @ unit_separator # joined (h' # hs) = g @ unit_separator # joined (g' # gs)"
      using "3.prems"(3) by simp
    moreover have "unit_separator \<notin> set h" "unit_separator \<notin> set g"
      using "3.prems" 3 by (simp_all add: plain_def)
    ultimately have e: "h = g" "joined (h' # hs) = joined (g' # gs)" by (simp_all add: split_at_separator)
    have "plain (h' # hs)" "plain (g' # gs)" using "3.prems" 3 by (simp_all add: plain_def)
    from "3.IH" [OF this e(2)] e(1) 3 show ?thesis by simp
  qed
qed

lemma lower_plain: "is_phash s \<Longrightarrow> lower s \<noteq> [] \<and> unit_separator \<notin> set (lower s)"
proof
  assume p: "is_phash s"
  then show "lower s \<noteq> []" by (auto simp: is_phash_def lower_def)
  have "lower_char c \<noteq> unit_separator" if "hex_digit_value c \<noteq> None" for c
  proof
    assume "lower_char c = unit_separator"
    then have "of_char (lower_char c) = (31 :: nat)" by (simp add: unit_separator_def)
    with that show False
      by (auto simp: lower_char_def hex_digit_value_def Let_def of_char_of split: if_splits)
  qed
  then show "unit_separator \<notin> set (lower s)"
    using p unfolding is_phash_def lower_def set_map image_iff by metis
qed

lemma validate_optional_phash_valid: "validate_optional_phash v = Inr (Some s) \<Longrightarrow> is_phash s"
  by (auto simp: validate_optional_phash_def validate_phash_def result_simps split: if_splits pyval.splits)

lemma constructed_phashes:
  assumes "constructed_asset m" and "duplicate_identity_phash m = Some h"
  shows "h \<noteq> [] \<and> unit_separator \<notin> set h"
proof -
  from assms(1) have o: "validate_optional_phash (optional_text (md_original_visual_phash m)) = Inr (md_original_visual_phash m)"
      and c: "validate_optional_phash (optional_text (md_video_cover_phash m)) = Inr (md_video_cover_phash m)"
    by (auto simp: constructed_asset_def make_media_asset_def result_simps split: if_splits)
      (metis media_asset.select_convs(3,4))+
  from assms(2) obtain s where "h = lower s"
      "md_original_visual_phash m = Some s \<or> md_video_cover_phash m = Some s"
    by (auto simp: duplicate_identity_phash_def split: media_kind.splits)
  with validate_optional_phash_valid o c lower_plain show ?thesis by metis
qed

lemma identity_hashes_plain:
  "\<forall>m \<in> set ms. constructed_asset m \<Longrightarrow> plain (identity_hashes ms)"
  using constructed_phashes
  by (fastforce simp: plain_def identity_hashes_def List.map_filter_def split: option.splits)

text \<open>The visual fingerprint of constructed assets depends on nothing but the multiset of their
  lower-cased identity hashes, is absent exactly when there is none, and, where the hash function
  does not collide on the two texts, equal fingerprints mean equal multisets.\<close>

theorem fingerprint_identifies_hashes:
  assumes "\<forall>m \<in> set ms \<union> set ms'. constructed_asset m"
  shows "(mset (List.map_filter duplicate_identity_phash ms) = mset (List.map_filter duplicate_identity_phash ms') \<longrightarrow>
       message_visual_fingerprint sha ms = message_visual_fingerprint sha ms')
     \<and> (message_visual_fingerprint sha ms = None \<longleftrightarrow> List.map_filter duplicate_identity_phash ms = [])
     \<and> (message_visual_fingerprint sha ms = message_visual_fingerprint sha ms' \<longrightarrow>
        (sha (fingerprint_text (identity_hashes ms)) = sha (fingerprint_text (identity_hashes ms')) \<longrightarrow>
          fingerprint_text (identity_hashes ms) = fingerprint_text (identity_hashes ms')) \<longrightarrow>
        mset (List.map_filter duplicate_identity_phash ms) = mset (List.map_filter duplicate_identity_phash ms'))"
    (is "(?m = ?m' \<longrightarrow> _) \<and> _ \<and> (?f = ?f' \<longrightarrow> ?c \<longrightarrow> _)")
proof (intro conjI impI)
  have nil: "identity_hashes xs = [] \<longleftrightarrow> List.map_filter duplicate_identity_phash xs = []" for xs
    by (metis identity_hashes_def mset_sort mset_zero_iff)
  assume "?m = ?m'"
  then have "identity_hashes ms = identity_hashes ms'"
    by (simp add: identity_hashes_def properties_for_sort)
  then show "?f = ?f'" by (simp add: message_visual_fingerprint_def)
next
  have nil: "identity_hashes xs = [] \<longleftrightarrow> List.map_filter duplicate_identity_phash xs = []" for xs
    by (metis identity_hashes_def mset_sort mset_zero_iff)
  show "?f = None \<longleftrightarrow> List.map_filter duplicate_identity_phash ms = []"
    by (simp add: message_visual_fingerprint_def Let_def nil)
next
  assume f: "?f = ?f'" and c: ?c
  have p: "plain (identity_hashes ms)" "plain (identity_hashes ms')"
    using assms by (auto intro: identity_hashes_plain)
  have "identity_hashes ms = identity_hashes ms'"
  proof (cases "identity_hashes ms = [] \<or> identity_hashes ms' = []")
    case True
    with f show ?thesis by (auto simp: message_visual_fingerprint_def Let_def split: if_splits)
  next
    case False
    with f c have "fingerprint_text (identity_hashes ms) = fingerprint_text (identity_hashes ms')"
      by (simp add: message_visual_fingerprint_def Let_def)
    then have "joined (identity_hashes ms) = joined (identity_hashes ms')" by (simp add: fingerprint_text_def)
    with p show ?thesis by (intro joined_inj)
  qed
  then show "?m = ?m'" by (metis identity_hashes_def mset_sort)
qed

theorem fingerprint_identifies_hashes_witness:
  "message_visual_fingerprint (\<lambda>t. t) [sample_asset] = message_visual_fingerprint (\<lambda>t. t)
     [sample_asset, sample_asset\<lparr>md_kind := DOCUMENT, md_original_visual_phash := None\<rparr>]"
proof -
  have "constructed_asset (sample_asset\<lparr>md_kind := DOCUMENT, md_original_visual_phash := None\<rparr>)"
    by (auto simp: constructed_asset_def sample_asset_def make_media_asset_def optional_text_def optional_int_def
        validate_optional_phash_def source_message_id_def blank_iff py_space_def)
  then have c: "\<forall>m \<in> set [sample_asset] \<union> set [sample_asset,
      sample_asset\<lparr>md_kind := DOCUMENT, md_original_visual_phash := None\<rparr>]. constructed_asset m"
    using sample_asset_constructed by simp
  have "mset (List.map_filter duplicate_identity_phash [sample_asset]) = mset (List.map_filter duplicate_identity_phash
      [sample_asset, sample_asset\<lparr>md_kind := DOCUMENT, md_original_visual_phash := None\<rparr>])"
    by (simp add: List.map_filter_simps duplicate_identity_phash_def sample_asset_def)
  with fingerprint_identifies_hashes [OF c] show ?thesis by blast
qed

section \<open>Partition of a batch\<close>

text \<open>What a logical message holds: its parts with the channel and group they belong to.\<close>

type_synonym component = "string \<times> int option \<times> telegram_message_part"

definition component_of :: "telegram_message \<Rightarrow> component" where
  "component_of m = (tm_source_channel_id m, tm_telegram_grouped_id m, part_of m)"

definition components :: "normalized_message \<Rightarrow> component list" where
  "components n = map (\<lambda>p. (nm_source_channel_id n, nm_telegram_grouped_id n, p)) (nm_parts n)"

lemma check_normalized_same: "check_normalized_message n = Inr n' \<Longrightarrow> n' = n"
  by (auto simp: check_normalized_message_def result_simps split: if_splits)

lemma as_part_Inr: "as_part m = Inr p \<Longrightarrow> p = part_of m"
  by (auto simp: as_part_def check_message_part_def result_simps)

lemma as_parts_Inr: "traverse as_part ms = Inr ps \<Longrightarrow> ps = map part_of ms"
  by (induction ms arbitrary: ps) (auto simp: result_simps dest: as_part_Inr)

lemma normalize_partsE:
  assumes "normalize_parts channel grouped ms = Inr n"
  obtains m rest where "sort_key tm_telegram_message_id ms = m # rest"
    "nm_source_channel_id n = channel" "nm_telegram_grouped_id n = grouped"
    "nm_parts n = map part_of (m # rest)" "nm_primary_telegram_message_id n = tm_telegram_message_id m"
    "check_normalized_message n = Inr n"
    "nm_telegram_message_ids n = map tm_telegram_message_id (m # rest)"
    "nm_media n = concat (map tm_media (m # rest))" "nm_original_text n = first_text (m # rest)"
    "nm_published_at n = fold (\<lambda>x a. earlier_of a (tm_published_at x)) rest (tm_published_at m)"
    "nm_edited_at n = latest (List.map_filter tm_edited_at (m # rest))"
    "nm_telegram_metadata n = [(''parts'', PList (map component_metadata (m # rest)))]"
proof (cases "sort_key tm_telegram_message_id ms")
  case Nil
  with assms show thesis by (simp add: normalize_parts_def)
next
  case (Cons m rest)
  let ?n = "\<lambda>parts. \<lparr>nm_source_channel_id = channel,
             nm_primary_telegram_message_id = tm_telegram_message_id m,
             nm_telegram_message_ids = map tm_telegram_message_id (m # rest),
             nm_published_at = fold (\<lambda>x a. earlier_of a (tm_published_at x)) rest (tm_published_at m),
             nm_edited_at = latest (List.map_filter tm_edited_at (m # rest)),
             nm_original_text = first_text (m # rest), nm_telegram_grouped_id = grouped,
             nm_telegram_metadata = [(''parts'', PList (map component_metadata (m # rest)))],
             nm_parts = parts, nm_media = concat (map tm_media (m # rest))\<rparr>"
  from assms obtain parts where p: "traverse as_part (m # rest) = Inr parts"
      and c: "check_normalized_message (?n parts) = Inr n"
    unfolding normalize_parts_def Cons list.case Let_def by (elim try_bindE)
  from check_normalized_same [OF c] have n: "n = ?n parts" .
  from as_parts_Inr [OF p] have parts: "parts = map part_of (m # rest)" .
  show thesis
  proof (rule that [OF Cons])
    show "check_normalized_message n = Inr n" using c n by simp
  qed (simp_all only: n parts normalized_message.select_convs)
qed

lemma normalized_components:
  assumes "normalize_parts channel grouped ms = Inr n"
    and "\<forall>m \<in> set ms. tm_source_channel_id m = channel \<and> tm_telegram_grouped_id m = grouped"
  shows "mset (components n) = mset (map component_of ms)"
proof -
  from assms(1) obtain m rest where s: "sort_key tm_telegram_message_id ms = m # rest"
    and n: "nm_source_channel_id n = channel" "nm_telegram_grouped_id n = grouped" "nm_parts n = map part_of (m # rest)"
    by (rule normalize_partsE)
  have "components n = map component_of (sort_key tm_telegram_message_id ms)"
    using assms(2) unfolding components_def n map_map s [symmetric] by (simp add: component_of_def)
  then show ?thesis by simp
qed

text \<open>The normal form depends on the set of components only.\<close>

lemma normalize_parts_mset:
  assumes "mset ms = mset ms'" and "distinct (map tm_telegram_message_id ms)"
  shows "normalize_parts channel grouped ms' = normalize_parts channel grouped ms"
  unfolding normalize_parts_def using sort_key_unique [OF assms] by simp

text \<open>The collecting loop computes the classes of the batch.\<close>

definition group_key :: "telegram_message \<Rightarrow> component_key option" where
  "group_key m = (case tm_telegram_grouped_id m of None \<Rightarrow> None | Some g \<Rightarrow> Some (tm_source_channel_id m, g))"

definition group_members :: "component_key \<Rightarrow> telegram_message list \<Rightarrow> telegram_message list" where
  "group_members k ms = filter (\<lambda>m. group_key m = Some k) ms"

lemma collect_classes:
  "collect seen groups regular ms = Inr (groups', regular') \<Longrightarrow> distinct (map fst groups) \<Longrightarrow>
     distinct (map fst groups')
     \<and> regular' = regular @ filter (\<lambda>m. group_key m = None) ms
     \<and> (\<forall>k. (case map_of groups' k of None \<Rightarrow> [] | Some l \<Rightarrow> l)
          = (case map_of groups k of None \<Rightarrow> [] | Some l \<Rightarrow> l) @ group_members k ms)
     \<and> fst ` set groups' = fst ` set groups \<union> {k. \<exists>m \<in> set ms. group_key m = Some k}
     \<and> distinct (map component_key ms) \<and> set seen \<inter> component_key ` set ms = {}"
proof (induction ms arbitrary: seen groups regular)
  case Nil
  then show ?case by (simp add: group_members_def)
next
  case (Cons m ms)
  then have new: "component_key m \<notin> set seen" by (simp split: if_splits)
  show ?case
  proof (cases "tm_telegram_grouped_id m")
    case None
    with Cons.prems new have "collect (component_key m # seen) groups (regular @ [m]) ms = Inr (groups', regular')"
      by simp
    from Cons.IH [OF this Cons.prems(2)] None new show ?thesis
      by (auto simp: group_key_def group_members_def)
  next
    case (Some g)
    let ?key = "(tm_source_channel_id m, g)"
    let ?old = "case map_of groups ?key of None \<Rightarrow> [] | Some l \<Rightarrow> l"
    from Cons.prems new Some
    have c: "collect (component_key m # seen) (dict_set ?key (?old @ [m]) groups) regular ms = Inr (groups', regular')"
      by (simp add: Let_def)
    have d: "distinct (map fst (dict_set ?key (?old @ [m]) groups))" by (rule distinct_dict_set [OF Cons.prems(2)])
    from Cons.IH [OF c d] Some new show ?thesis
      by (auto simp: group_key_def group_members_def dict_simps)
  qed
qed

lemma collect_total:
  "distinct (map component_key ms) \<Longrightarrow> set seen \<inter> component_key ` set ms = {} \<Longrightarrow>
     \<exists>r. collect seen groups regular ms = Inr r"
proof (induction ms arbitrary: seen groups regular)
  case (Cons m ms)
  then have "component_key m \<notin> set seen" and d: "distinct (map component_key ms)"
      "set (component_key m # seen) \<inter> component_key ` set ms = {}" by auto
  with Cons.IH [OF d] show ?case by (cases "tm_telegram_grouped_id m") (simp_all add: Let_def)
qed simp

lemma mset_by_class:
  "distinct ks \<Longrightarrow> mset (concat (map (\<lambda>k. filter (\<lambda>m. f m = Some k) ms) ks))
     = mset (filter (\<lambda>m. \<exists>k \<in> set ks. f m = Some k) ms)"
proof (induction ks)
  case (Cons k ks)
  have "mset (filter (\<lambda>m. f m = Some k) xs) + mset (filter (\<lambda>m. \<exists>k \<in> set ks. f m = Some k) xs)
      = mset (filter (\<lambda>m. \<exists>k \<in> set (k # ks). f m = Some k) xs)" for xs
    using Cons.prems by (induction xs) auto
  with Cons show ?case by simp
qed simp

lemma mset_concat_map: "mset (concat (map h xs)) = (\<Sum>x \<in># mset xs. mset (h x))"
  by (induction xs) auto

lemma mset_concat_map_cong:
  "list_all2 (\<lambda>x y. mset (h y) = mset (g x)) xs ys \<Longrightarrow> mset (concat (map h ys)) = mset (concat (map g xs))"
  by (induction rule: list_all2_induct) auto

definition single_form :: "telegram_message \<Rightarrow> normalized_message result" where
  "single_form m = normalize_parts (tm_source_channel_id m) None [m]"

definition group_form :: "telegram_message list \<Rightarrow> component_key \<Rightarrow> normalized_message result" where
  "group_form ms k = normalize_parts (fst k) (Some (snd k)) (group_members k ms)"

lemma traverse_map: "traverse f (map g xs) = traverse (\<lambda>x. f (g x)) xs"
  by (induction xs) auto

lemma collected:
  assumes "collect [] [] [] ms = Inr (groups, regular)"
  shows "distinct (map fst groups)" and "regular = filter (\<lambda>m. group_key m = None) ms"
    and "groups = map (\<lambda>k. (k, group_members k ms)) (map fst groups)"
    and "set (map fst groups) = {k. \<exists>m \<in> set ms. group_key m = Some k}"
    and "distinct (map component_key ms)"
proof -
  note c = collect_classes [OF assms, simplified]
  show "distinct (map fst groups)" "regular = filter (\<lambda>m. group_key m = None) ms"
      "distinct (map component_key ms)" using c by simp_all
  show "set (map fst groups) = {k. \<exists>m \<in> set ms. group_key m = Some k}" using c by simp
  have "snd e = group_members (fst e) ms" if "e \<in> set groups" for e
  proof -
    from that have "(fst e, snd e) \<in> set groups" by simp
    with c have e: "map_of groups (fst e) = Some (snd e)" by (intro map_of_is_SomeI) simp_all
    have "(case map_of groups (fst e) of None \<Rightarrow> [] | Some l \<Rightarrow> l) = group_members (fst e) ms"
      using c by (cases "fst e") simp
    with e show ?thesis by simp
  qed
  then show "groups = map (\<lambda>k. (k, group_members k ms)) (map fst groups)"
    by (induction groups) auto
qed

lemma normalize_batchE:
  assumes "normalize_telegram_messages ms = Inr out"
  obtains ks singles grouped where "distinct ks" "set ks = {k. \<exists>m \<in> set ms. group_key m = Some k}"
    "distinct (map component_key ms)"
    "traverse single_form (filter (\<lambda>m. group_key m = None) ms) = Inr singles"
    "traverse (group_form ms) ks = Inr grouped" "out = sort_key batch_order (singles @ grouped)"
proof -
  from assms obtain groups regular singles grouped where
      c: "collect [] [] [] ms = Inr (groups, regular)"
    and s: "traverse single_form regular = Inr singles"
    and g: "traverse (\<lambda>((channel, g), ms). normalize_parts channel (Some g) ms) groups = Inr grouped"
    and o: "out = sort_key batch_order (singles @ grouped)"
    unfolding normalize_telegram_messages_def single_form_def by (auto elim!: try_bindE)
  note cd = collected [OF c]
  have "traverse (\<lambda>((channel, g), ms). normalize_parts channel (Some g) ms) groups
      = traverse (group_form ms) (map fst groups)"
    by (subst cd(3)) (simp only: traverse_map group_form_def split_def fst_conv snd_conv)
  with g have g': "traverse (group_form ms) (map fst groups) = Inr grouped" by simp
  show thesis by (rule that [OF cd(1,4,5) s [unfolded cd(2)] g' o])
qed

lemma normalize_batch_total:
  assumes "distinct (map component_key ms)"
    and "\<And>m. m \<in> set ms \<Longrightarrow> group_key m = None \<Longrightarrow> single_form m = Inr (F m)"
    and "\<And>k m. m \<in> set ms \<Longrightarrow> group_key m = Some k \<Longrightarrow> group_form ms k = Inr (G k)"
  shows "\<exists>ks. distinct ks \<and> set ks = {k. \<exists>m \<in> set ms. group_key m = Some k}
    \<and> normalize_telegram_messages ms = Inr (sort_key batch_order (map F (filter (\<lambda>m. group_key m = None) ms) @ map G ks))"
proof -
  obtain groups regular where c: "collect [] [] [] ms = Inr (groups, regular)"
    using collect_total [OF assms(1), of "[]" "[]" "[]"] by auto
  note cd = collected [OF c]
  have "traverse (\<lambda>((channel, g), ms). normalize_parts channel (Some g) ms) groups
      = traverse (group_form ms) (map fst groups)"
    by (subst cd(3)) (simp only: traverse_map group_form_def split_def fst_conv snd_conv)
  also have "\<dots> = Inr (map G (map fst groups))"
  proof (rule traverse_total)
    fix k assume "k \<in> set (map fst groups)"
    then obtain m where "m \<in> set ms" "group_key m = Some k" unfolding cd(4) by blast
    then show "group_form ms k = Inr (G k)" by (rule assms(3))
  qed
  finally have g: "traverse (\<lambda>((channel, g), ms). normalize_parts channel (Some g) ms) groups
      = Inr (map G (map fst groups))" .
  have s: "traverse single_form regular = Inr (map F regular)"
    by (rule traverse_total) (simp add: cd(2) assms(2))
  have "normalize_telegram_messages ms = Inr (sort_key batch_order (map F regular @ map G (map fst groups)))"
    using s [unfolded single_form_def] g by (simp add: normalize_telegram_messages_def c)
  with cd(1,2,4) show ?thesis by blast
qed

lemma list_all2_member_mono:
  "list_all2 P xs ys \<Longrightarrow> (\<And>x y. x \<in> set xs \<Longrightarrow> P x y \<Longrightarrow> Q x y) \<Longrightarrow> list_all2 Q xs ys"
  by (induction rule: list_all2_induct) auto

lemma batch_components:
  assumes "distinct ks" "set ks = {k. \<exists>m \<in> set ms. group_key m = Some k}"
    and "traverse single_form (filter (\<lambda>m. group_key m = None) ms) = Inr singles"
    and "traverse (group_form ms) ks = Inr grouped"
  shows "mset (concat (map components (singles @ grouped))) = mset (map component_of ms)"
proof -
  have "list_all2 (\<lambda>m n. mset (components n) = mset (map component_of [m])) (filter (\<lambda>m. group_key m = None) ms) singles"
    using assms(3) unfolding traverse_Inr single_form_def
  proof (rule list_all2_member_mono)
    fix m n assume "m \<in> set (filter (\<lambda>m. group_key m = None) ms)"
      and n: "normalize_parts (tm_source_channel_id m) None [m] = Inr n"
    then have "tm_telegram_grouped_id m = None" by (auto simp: group_key_def split: option.splits)
    with normalized_components [OF n] show "mset (components n) = mset (map component_of [m])" by simp
  qed
  from mset_concat_map_cong [OF this]
  have s: "mset (concat (map components singles)) = mset (map component_of (filter (\<lambda>m. group_key m = None) ms))"
    by (simp add: concat_map_singleton)
  have "list_all2 (\<lambda>k n. mset (components n) = mset (map component_of (group_members k ms))) ks grouped"
    using assms(4) unfolding traverse_Inr group_form_def
  proof (rule list_all2_mono)
    fix k n assume n: "normalize_parts (fst k) (Some (snd k)) (group_members k ms) = Inr n"
    show "mset (components n) = mset (map component_of (group_members k ms))"
      by (rule normalized_components [OF n]) (auto simp: group_members_def group_key_def split: option.splits)
  qed
  from mset_concat_map_cong [OF this]
  have "mset (concat (map components grouped)) = mset (map component_of (concat (map (\<lambda>k. group_members k ms) ks)))"
    by (simp add: map_concat comp_def)
  also have "\<dots> = mset (map component_of (filter (\<lambda>m. \<exists>k \<in> set ks. group_key m = Some k) ms))"
    using mset_by_class [OF assms(1), of group_key ms] by (simp add: group_members_def mset_map)
  also have "filter (\<lambda>m. \<exists>k \<in> set ks. group_key m = Some k) ms = filter (\<lambda>m. group_key m \<noteq> None) ms"
    by (rule filter_cong [OF refl]) (auto simp: assms(2))
  finally have g: "mset (concat (map components grouped)) = mset (map component_of (filter (\<lambda>m. group_key m \<noteq> None) ms))" .
  have "mset ms = mset (filter (\<lambda>m. group_key m = None) ms) + mset (filter (\<lambda>m. group_key m \<noteq> None) ms)"
    by (simp only: mset_filter) (rule multiset_partition)
  then have "mset (map component_of ms) = mset (map component_of (filter (\<lambda>m. group_key m = None) ms))
      + mset (map component_of (filter (\<lambda>m. group_key m \<noteq> None) ms))"
    by (metis image_mset_union mset_map)
  with s g show ?thesis by simp
qed

text \<open>Distinct components make the sort key of the logical messages unique.\<close>

definition listed_key :: "component \<Rightarrow> component_key" where
  "listed_key c = (fst c, tp_telegram_message_id (snd (snd c)))"

lemma listed_key_component [simp]: "listed_key (component_of m) = component_key m"
  by (simp add: listed_key_def component_of_def component_key_def part_of_def)

lemma distinct_heads:
  "distinct (concat (map h xs)) \<Longrightarrow> (\<And>x. x \<in> set xs \<Longrightarrow> h x \<noteq> [] \<and> hd (h x) = key x) \<Longrightarrow> distinct (map key xs)"
proof (induction xs)
  case (Cons x xs)
  have "key x \<notin> key ` set xs"
  proof
    assume "key x \<in> key ` set xs"
    then obtain y where y: "y \<in> set xs" "key x = key y" by blast
    have "h x \<noteq> []" "hd (h x) = key x" "h y \<noteq> []" "hd (h y) = key y" using Cons.prems(2) y(1) by auto
    then have "key x \<in> set (h x)" "key y \<in> set (h y)" by (metis hd_in_set)+
    with y Cons.prems(1) show False by auto
  qed
  with Cons show ?case by simp
qed simp

lemma batch_order_distinct:
  assumes "distinct (map component_key ms)"
    and "mset (concat (map components ns)) = mset (map component_of ms)"
    and "\<And>n. n \<in> set ns \<Longrightarrow> \<exists>channel grouped l. normalize_parts channel grouped l = Inr n"
  shows "distinct (map batch_order ns)"
proof -
  have "mset (map listed_key (concat (map components ns))) = mset (map component_key ms)"
    using arg_cong [OF assms(2), of "image_mset listed_key"] by (simp add: comp_def flip: mset_map)
  with assms(1) have "distinct (map listed_key (concat (map components ns)))"
    by (metis mset_eq_imp_distinct_iff)
  then have "distinct (concat (map (\<lambda>n. map listed_key (components n)) ns))" by (simp add: map_concat comp_def)
  then have "distinct (map (\<lambda>n. (nm_source_channel_id n, nm_primary_telegram_message_id n)) ns)"
  proof (rule distinct_heads)
    fix n assume "n \<in> set ns"
    from assms(3) [OF this] obtain channel grouped l where "normalize_parts channel grouped l = Inr n" by blast
    then obtain m rest where "nm_parts n = map part_of (m # rest)"
        "nm_primary_telegram_message_id n = tm_telegram_message_id m" by (rule normalize_partsE)
    then show "map listed_key (components n) \<noteq> [] \<and> hd (map listed_key (components n))
        = (nm_source_channel_id n, nm_primary_telegram_message_id n)"
      by (simp add: components_def listed_key_def part_of_def)
  qed
  then show ?thesis by (auto simp: distinct_map inj_on_def batch_order_def)
qed

lemma batch_forms:
  assumes "traverse single_form xs = Inr singles" and "traverse (group_form ms) ks = Inr grouped"
    and "n \<in> set (singles @ grouped)"
  shows "\<exists>channel grouped l. normalize_parts channel grouped l = Inr n"
proof -
  from assms(3) consider "n \<in> set singles" | "n \<in> set grouped" by auto
  then show ?thesis
  proof cases
    case 1
    from list_all2_member2 [OF assms(1) [unfolded traverse_Inr] this] show ?thesis
      by (auto simp: single_form_def)
  next
    case 2
    from list_all2_member2 [OF assms(2) [unfolded traverse_Inr] this] show ?thesis
      by (auto simp: group_form_def)
  qed
qed

section \<open>Properties of batches\<close>

lemma group_form_group:
  "group_form ms k = Inr n \<Longrightarrow> (nm_source_channel_id n, nm_telegram_grouped_id n) = (fst k, Some (snd k))"
  unfolding group_form_def by (erule normalize_partsE) simp

lemma single_form_ungrouped: "single_form m = Inr n \<Longrightarrow> nm_telegram_grouped_id n = None"
  unfolding single_form_def by (erule normalize_partsE) simp

lemma grouped_groups:
  "list_all2 (\<lambda>k n. group_form ms k = Inr n) ks grouped \<Longrightarrow>
     map (\<lambda>n. (nm_source_channel_id n, nm_telegram_grouped_id n)) grouped = map (\<lambda>k. (fst k, Some (snd k))) ks"
  by (induction rule: list_all2_induct) (auto dest: group_form_group)

text \<open>Normalising a batch partitions it: each component message is a part of exactly one logical
  message, of its own channel and group; no group is split over two logical messages, and the
  result is strictly ordered by channel and primary id.\<close>

theorem normalization_partitions_batch:
  assumes "normalize_telegram_messages ms = Inr out"
  shows "mset (concat (map components out)) = mset (map component_of ms)
    \<and> distinct (map batch_order out) \<and> sorted (map batch_order out)
    \<and> distinct (map (\<lambda>n. (nm_source_channel_id n, nm_telegram_grouped_id n))
        (filter (\<lambda>n. nm_telegram_grouped_id n \<noteq> None) out))"
proof -
  from assms obtain ks singles grouped where k: "distinct ks" "set ks = {k. \<exists>m \<in> set ms. group_key m = Some k}"
    and d: "distinct (map component_key ms)"
    and s: "traverse single_form (filter (\<lambda>m. group_key m = None) ms) = Inr singles"
    and g: "traverse (group_form ms) ks = Inr grouped" and o: "out = sort_key batch_order (singles @ grouped)"
    by (rule normalize_batchE)
  note c = batch_components [OF k s g]
  have perm: "mset out = mset (singles @ grouped)" by (simp add: o)
  then have "mset (concat (map components out)) = mset (concat (map components (singles @ grouped)))"
    by (simp only: mset_concat_map)
  moreover have "distinct (map (\<lambda>n. (nm_source_channel_id n, nm_telegram_grouped_id n))
      (filter (\<lambda>n. nm_telegram_grouped_id n \<noteq> None) out))"
  proof -
    have "\<forall>n \<in> set singles. nm_telegram_grouped_id n = None"
    proof
      fix n assume "n \<in> set singles"
      from list_all2_member2 [OF s [unfolded traverse_Inr] this] obtain m where "single_form m = Inr n" by blast
      then show "nm_telegram_grouped_id n = None" by (rule single_form_ungrouped)
    qed
    moreover have gg: "map (\<lambda>n. (nm_source_channel_id n, nm_telegram_grouped_id n)) grouped = map (\<lambda>k. (fst k, Some (snd k))) ks"
      by (rule grouped_groups [OF g [unfolded traverse_Inr]])
    have "\<forall>n \<in> set grouped. nm_telegram_grouped_id n \<noteq> None"
    proof
      fix n assume "n \<in> set grouped"
      from list_all2_member2 [OF g [unfolded traverse_Inr] this] obtain k where "group_form ms k = Inr n" by blast
      from group_form_group [OF this] show "nm_telegram_grouped_id n \<noteq> None" by simp
    qed
    ultimately have f: "filter (\<lambda>n. nm_telegram_grouped_id n \<noteq> None) (singles @ grouped) = grouped"
      by (simp add: filter_empty_conv)
    have "mset (filter (\<lambda>n. nm_telegram_grouped_id n \<noteq> None) out)
        = mset (filter (\<lambda>n. nm_telegram_grouped_id n \<noteq> None) (singles @ grouped))"
      by (simp only: mset_filter perm)
    then have "mset (filter (\<lambda>n. nm_telegram_grouped_id n \<noteq> None) out) = mset grouped" by (simp only: f)
    then have "mset (map (\<lambda>n. (nm_source_channel_id n, nm_telegram_grouped_id n)) (filter (\<lambda>n. nm_telegram_grouped_id n \<noteq> None) out))
        = mset (map (\<lambda>k. (fst k, Some (snd k))) ks)"
      unfolding gg [symmetric] by (simp only: mset_map)
    moreover have "distinct (map (\<lambda>k. (fst k, Some (snd k))) ks)"
    proof -
      have "inj_on (\<lambda>k. (fst k, Some (snd k))) (set ks)" by (rule inj_onI) (simp add: prod_eq_iff)
      with k(1) show ?thesis by (simp add: distinct_map)
    qed
    ultimately show ?thesis by (rule mset_eq_imp_distinct_iff [THEN iffD2])
  qed
  moreover have "sorted (map batch_order out)" unfolding o by (rule sorted_sort_key)
  moreover have "distinct (map batch_order out)" unfolding o distinct_map_sort_key
    by (rule batch_order_distinct [OF d c batch_forms [OF s g]])
  ultimately show ?thesis unfolding c by (intro conjI)
qed

text \<open>The result does not depend on the order in which the batch lists its messages.\<close>

theorem normalization_ignores_batch_order:
  assumes "normalize_telegram_messages ms = Inr out" and "mset ms' = mset ms"
  shows "normalize_telegram_messages ms' = Inr out"
proof -
  from assms(1) obtain ks singles grouped where k: "distinct ks" "set ks = {k. \<exists>m \<in> set ms. group_key m = Some k}"
    and d: "distinct (map component_key ms)"
    and s: "traverse single_form (filter (\<lambda>m. group_key m = None) ms) = Inr singles"
    and g: "traverse (group_form ms) ks = Inr grouped" and o: "out = sort_key batch_order (singles @ grouped)"
    by (rule normalize_batchE)
  define F where "F = (\<lambda>m. projr (single_form m))"
  define G where "G = (\<lambda>k. projr (group_form ms k))"
  have set': "set ms' = set ms" using assms(2) by (rule mset_eq_setD)
  have d': "distinct (map component_key ms')"
    using d assms(2) by (metis mset_eq_imp_distinct_iff mset_map)
  have gf: "group_form ms' k = group_form ms k" for k
  proof -
    have m: "mset (group_members k ms) = mset (group_members k ms')"
      using assms(2) by (simp add: group_members_def)
    have "distinct (map component_key (group_members k ms))"
      using d unfolding group_members_def by (rule distinct_map_filter)
    then have "distinct (map tm_telegram_message_id (group_members k ms))"
      by (auto simp: distinct_map inj_on_def component_key_def group_members_def group_key_def split: option.splits)
    from normalize_parts_mset [OF m this] show ?thesis by (simp add: group_form_def)
  qed
  have f: "single_form m = Inr (F m)" if "m \<in> set ms'" "group_key m = None" for m
  proof -
    from that have "m \<in> set (filter (\<lambda>m. group_key m = None) ms)" by (simp add: set')
    from list_all2_member1 [OF s [unfolded traverse_Inr] this] show ?thesis by (auto simp: F_def)
  qed
  have gg: "group_form ms' k = Inr (G k)" if "m \<in> set ms'" "group_key m = Some k" for m k
  proof -
    from that have "k \<in> set ks" unfolding k(2) set' by blast
    from list_all2_member1 [OF g [unfolded traverse_Inr] this] show ?thesis by (auto simp: G_def gf)
  qed
  from normalize_batch_total [OF d', of F G] f gg obtain ks' where k': "distinct ks'"
      "set ks' = {k. \<exists>m \<in> set ms'. group_key m = Some k}"
    and n: "normalize_telegram_messages ms'
      = Inr (sort_key batch_order (map F (filter (\<lambda>m. group_key m = None) ms') @ map G ks'))" by blast
  have "traverse single_form (filter (\<lambda>m. group_key m = None) ms) = Inr (map F (filter (\<lambda>m. group_key m = None) ms))"
    by (rule traverse_total) (simp add: f set')
  then have singles: "singles = map F (filter (\<lambda>m. group_key m = None) ms)" using s by simp
  have "traverse (group_form ms) ks = Inr (map G ks)"
    by (rule traverse_total) (use gg k(2) set' gf in auto)
  then have grouped: "grouped = map G ks" using g by simp
  have "set ks' = set ks" by (simp only: k'(2) k(2) set')
  then have "mset ks' = mset ks" using set_eq_iff_mset_eq_distinct [OF k'(1) k(1)] by blast
  then have "mset (singles @ grouped) = mset (map F (filter (\<lambda>m. group_key m = None) ms') @ map G ks')"
    by (simp add: singles grouped assms(2))
  from sort_key_unique [OF this batch_order_distinct [OF d batch_components [OF k s g] batch_forms [OF s g]]]
  show ?thesis by (simp add: n o)
qed

definition sample_component :: "int \<Rightarrow> int option \<Rightarrow> telegram_message" where
  "sample_component i grouped =
     \<lparr>tm_source_channel_id = ''00000000-0000-0000-0000-00000000000b'', tm_telegram_message_id = i,
      tm_published_at = Aware i, tm_edited_at = None, tm_original_text = None,
      tm_telegram_grouped_id = grouped, tm_telegram_metadata = [], tm_media = []\<rparr>"

definition sample_batch :: "telegram_message list" where
  "sample_batch = [sample_component 3 (Some 9), sample_component 1 None, sample_component 2 (Some 9)]"

lemma sample_batch_normalizes: "isl (normalize_telegram_messages sample_batch) = False"
  by code_simp

theorem normalization_partitions_batch_witness:
  "\<exists>out. normalize_telegram_messages sample_batch = Inr out
     \<and> mset (concat (map components out)) = mset (map component_of sample_batch)"
proof -
  from sample_batch_normalizes obtain out where "normalize_telegram_messages sample_batch = Inr out"
    by (cases "normalize_telegram_messages sample_batch") auto
  with normalization_partitions_batch [OF this] show ?thesis by blast
qed

theorem normalization_ignores_batch_order_witness:
  "\<exists>out. normalize_telegram_messages sample_batch = Inr out \<and> normalize_telegram_messages (rev sample_batch) = Inr out"
proof -
  from sample_batch_normalizes obtain out where "normalize_telegram_messages sample_batch = Inr out"
    by (cases "normalize_telegram_messages sample_batch") auto
  with normalization_ignores_batch_order [OF this, of "rev sample_batch"] show ?thesis by simp
qed

section \<open>Recomputation\<close>

lemma check_message_same: "check_telegram_message m = Inr m' \<Longrightarrow> m' = m"
  by (auto simp: check_telegram_message_def result_simps)

lemma part_of_message [simp]: "part_of (message_of_part channel grouped p) = p"
  by (simp add: part_of_def message_of_part_def)

lemma from_parts_messages:
  "traverse (\<lambda>p. check_telegram_message (message_of_part channel grouped p)) ps = Inr ms \<Longrightarrow>
     ms = map (message_of_part channel grouped) ps"
  by (induction ps arbitrary: ms) (auto simp: result_simps dest: check_message_same)

lemma normalized_distinct:
  "check_normalized_message n = Inr n \<Longrightarrow> distinct (nm_telegram_message_ids n) \<and> sorted (nm_telegram_message_ids n)"
  by (auto simp: check_normalized_message_def result_simps split: if_splits) (metis sorted_sort)+

text \<open>A logical message is its own recomputation, and depends on the set of its parts only.\<close>

lemma normalized_from_parts_perm:
  assumes "normalized_from_parts channel grouped ps = Inr n" and "mset qs = mset ps"
  shows "normalized_from_parts channel grouped qs = Inr n"
proof -
  let ?c = "\<lambda>p. check_telegram_message (message_of_part channel grouped p)"
  let ?m = "message_of_part channel grouped"
  from assms(1) obtain ms where t: "traverse ?c ps = Inr ms" and n: "normalize_parts channel grouped ms = Inr n"
    unfolding normalized_from_parts_def by (rule try_bindE)
  note ms = from_parts_messages [OF t]
  have "?c p = Inr (?m p)" if "p \<in> set qs" for p
  proof -
    from that assms(2) have "p \<in> set ps" by (metis mset_eq_setD)
    from list_all2_member1 [OF t [unfolded traverse_Inr] this] check_message_same show ?thesis by blast
  qed
  then have "traverse ?c qs = Inr (map ?m qs)" by (rule traverse_total)
  moreover have "distinct (map tm_telegram_message_id ms)"
  proof -
    from n obtain m rest where s: "sort_key tm_telegram_message_id ms = m # rest"
      "check_normalized_message n = Inr n" "nm_telegram_message_ids n = map tm_telegram_message_id (m # rest)"
      by (rule normalize_partsE)
    from normalized_distinct [OF s(2)] s(1,3) have "distinct (map tm_telegram_message_id (sort_key tm_telegram_message_id ms))"
      by simp
    then show ?thesis by simp
  qed
  moreover have "mset ms = mset (map ?m qs)" by (simp add: ms assms(2))
  ultimately show ?thesis
    using normalize_parts_mset [of ms "map ?m qs" channel grouped] n by (simp add: normalized_from_parts_def)
qed

lemma normalized_parts_perm:
  assumes "normalized_from_parts channel grouped ps = Inr n"
  shows "mset (nm_parts n) = mset ps" and "nm_source_channel_id n = channel" and "nm_telegram_grouped_id n = grouped"
    and "check_normalized_message n = Inr n"
proof -
  from assms obtain ms where t: "traverse (\<lambda>p. check_telegram_message (message_of_part channel grouped p)) ps = Inr ms"
    and n: "normalize_parts channel grouped ms = Inr n"
    unfolding normalized_from_parts_def by (rule try_bindE)
  note ms = from_parts_messages [OF t]
  from n obtain m rest where s: "sort_key tm_telegram_message_id ms = m # rest"
      "nm_parts n = map part_of (m # rest)"
      "nm_source_channel_id n = channel" "nm_telegram_grouped_id n = grouped" "check_normalized_message n = Inr n"
    by (rule normalize_partsE)
  show "nm_source_channel_id n = channel" "nm_telegram_grouped_id n = grouped" "check_normalized_message n = Inr n"
    by (rule s)+
  have "mset (nm_parts n) = mset (map part_of (sort_key tm_telegram_message_id ms))" by (simp only: s(1,2))
  also have "\<dots> = mset (map part_of ms)" by simp
  also have "map part_of ms = ps" by (simp add: ms comp_def)
  finally show "mset (nm_parts n) = mset ps" .
qed

lemma recompute_stable:
  "normalized_from_parts channel grouped ps = Inr n \<Longrightarrow>
   normalized_from_parts (nm_source_channel_id n) (nm_telegram_grouped_id n) (nm_parts n) = Inr n"
  using normalized_parts_perm(1-3) normalized_from_parts_perm by metis

end
