(* ===== verification/Message_Store.thy ===== *)
theory Message_Store
  imports Message_Tables Message_Normalization Range_Database
begin

text \<open>
  Storing Telegram messages: \<^verbatim>\<open>infrastructure/database/message_ingest_repository.py\<close>, the lifecycle
  of source messages in \<^verbatim>\<open>infrastructure/database/source_lifecycle_repository.py\<close> with
  \<^verbatim>\<open>application/source_lifecycle.py\<close>, and the ingestion service of \<^verbatim>\<open>application/ingestion.py\<close>.

  Each operation is one transaction; an error leaves the store as it was.  \<open>now\<close> is the time of
  the transaction, and the record \<open>fresh_ids\<close> holds the UUIDs a transaction draws: for the parent,
  for a part by its Telegram id, for an asset by its source id and for a wake-up by its entity.
\<close>

section \<open>The store\<close>

record message_store =
  mt_channels :: "uuid list"
  mt_messages :: "message_row list"
  mt_parts :: "message_part_row list"
  mt_images :: "image_asset_row list"
  mt_videos :: "video_asset_row list"
  mt_wakeups :: "wakeup_row list"

record fresh_ids =
  fi_parent :: uuid
  fi_part :: "int \<Rightarrow> uuid"
  fi_asset :: "string \<Rightarrow> uuid"
  fi_wakeup :: "uuid \<Rightarrow> uuid"

definition image_archive_queue :: string where
  "image_archive_queue = ''image_archive''"

definition video_archive_queue :: string where
  "video_archive_queue = ''video_archive''"

text \<open>A value that a \<^verbatim>\<open>BIGINT\<close> column or array takes.\<close>

definition fits_bigint :: "int \<Rightarrow> bool" where
  "fits_bigint i \<longleftrightarrow> - (2 ^ 63) \<le> i \<and> i < 2 ^ 63"

definition bigint_option :: "int option \<Rightarrow> bool" where
  "bigint_option v = (case v of None \<Rightarrow> True | Some i \<Rightarrow> fits_bigint i)"

section \<open>Parents\<close>

text \<open>The partial unique indexes for regular and for grouped messages.\<close>

definition parent_matches :: "uuid \<Rightarrow> normalized_message \<Rightarrow> message_row \<Rightarrow> bool" where
  "parent_matches channel n m \<longleftrightarrow> ms_source_channel_id m = channel \<and>
     (case nm_telegram_grouped_id n of
        None \<Rightarrow> ms_telegram_grouped_id m = None
          \<and> ms_primary_telegram_message_id m = nm_primary_telegram_message_id n
      | Some g \<Rightarrow> ms_telegram_grouped_id m = Some g)"

text \<open>The columns that follow the logical message.\<close>

definition snapshot_columns ::
  "(string \<Rightarrow> string) \<Rightarrow> normalized_message \<Rightarrow> int \<Rightarrow> message_row \<Rightarrow> message_row" where
  "snapshot_columns sha n now m =
     m\<lparr>ms_telegram_message_ids := nm_telegram_message_ids n,
       ms_primary_telegram_message_id := nm_primary_telegram_message_id n,
       ms_published_at := instant (nm_published_at n),
       ms_edited_at := map_option instant (nm_edited_at n),
       ms_original_text := nm_original_text n,
       ms_telegram_metadata := nm_telegram_metadata n,
       ms_media_count := media_count n,
       ms_visual_fingerprint := normalized_fingerprint sha n,
       ms_updated_at := now\<rparr>"

definition new_parent ::
  "(string \<Rightarrow> string) \<Rightarrow> uuid \<Rightarrow> uuid \<Rightarrow> normalized_message \<Rightarrow> int \<Rightarrow> message_row" where
  "new_parent sha i channel n now = snapshot_columns sha n now
     \<lparr>ms_id = i, ms_source_channel_id = channel, ms_telegram_message_ids = [],
      ms_telegram_grouped_id = nm_telegram_grouped_id n, ms_primary_telegram_message_id = 0,
      ms_published_at = 0, ms_edited_at = None, ms_original_text = None, ms_telegram_metadata = [],
      ms_processing_status = ''ingested'', ms_review_status = UNREVIEWED, ms_media_count = 0,
      ms_visual_fingerprint = None, ms_source_changed_after_processing = False,
      ms_source_deleted = False, ms_source_deleted_at = None, ms_blocked_from_analysis = False,
      ms_blocked_at = None, ms_blocked_by_stage_run_id = None,
      ms_blocked_by_label_assignment_id = None, ms_updated_at = now\<rparr>"

definition upsert_parent ::
  "(string \<Rightarrow> string) \<Rightarrow> fresh_ids \<Rightarrow> int \<Rightarrow> uuid \<Rightarrow> normalized_message \<Rightarrow> message_store \<Rightarrow>
     (uuid \<times> message_store) result" where
  "upsert_parent sha fresh now channel n st =
     (if \<not> list_all fits_bigint (nm_telegram_message_ids n) \<or> \<not> bigint_option (nm_telegram_grouped_id n)
      then Inl DataError
      else (case find (parent_matches channel n) (mt_messages st) of
          Some m \<Rightarrow> Inr (ms_id m, st)
        | None \<Rightarrow>
            if channel \<notin> set (mt_channels st) \<or> fi_parent fresh \<in> ms_id ` set (mt_messages st)
            then Inl IntegrityError
            else Inr (fi_parent fresh,
              st\<lparr>mt_messages := mt_messages st @ [new_parent sha (fi_parent fresh) channel n now]\<rparr>)))"

definition update_parent ::
  "(string \<Rightarrow> string) \<Rightarrow> uuid \<Rightarrow> normalized_message \<Rightarrow> int \<Rightarrow> message_store \<Rightarrow> message_store" where
  "update_parent sha mid n now st =
     st\<lparr>mt_messages := update_where (\<lambda>m. ms_id m = mid) (snapshot_columns sha n now) (mt_messages st)\<rparr>"

section \<open>Parts\<close>

definition new_part_row ::
  "fresh_ids \<Rightarrow> int \<Rightarrow> uuid \<Rightarrow> uuid \<Rightarrow> telegram_message_part \<Rightarrow> message_part_row" where
  "new_part_row fresh now mid channel p =
     \<lparr>mp_id = fi_part fresh (tp_telegram_message_id p), mp_message_id = mid, mp_source_channel_id = channel,
      mp_telegram_message_id = tp_telegram_message_id p, mp_published_at = instant (tp_published_at p),
      mp_edited_at = map_option instant (tp_edited_at p), mp_original_text = tp_original_text p,
      mp_telegram_metadata = tp_telegram_metadata p, mp_media = media_assets_to_json (tp_media p),
      mp_media_count = length (tp_media p), mp_updated_at = now\<rparr>"

text \<open>The condition of the update: the same owner, and no newer edit is stored.\<close>

definition not_stale :: "message_part_row \<Rightarrow> telegram_message_part \<Rightarrow> bool" where
  "not_stale r p \<longleftrightarrow>
     (case mp_edited_at r of
        None \<Rightarrow> True
      | Some stored \<Rightarrow> (case tp_edited_at p of None \<Rightarrow> False | Some d \<Rightarrow> stored \<le> instant d))"

definition merge_part :: "int \<Rightarrow> telegram_message_part \<Rightarrow> message_part_row \<Rightarrow> message_part_row" where
  "merge_part now p r =
     r\<lparr>mp_published_at := min (mp_published_at r) (instant (tp_published_at p)),
       mp_edited_at := map_option instant (tp_edited_at p), mp_original_text := tp_original_text p,
       mp_telegram_metadata := tp_telegram_metadata p, mp_media := media_assets_to_json (tp_media p),
       mp_media_count := length (tp_media p), mp_updated_at := now\<rparr>"

definition part_key :: "message_part_row \<Rightarrow> uuid \<times> int" where
  "part_key r = (mp_source_channel_id r, mp_telegram_message_id r)"

definition upsert_part ::
  "fresh_ids \<Rightarrow> int \<Rightarrow> uuid \<Rightarrow> uuid \<Rightarrow> telegram_message_part \<Rightarrow> message_part_row list \<Rightarrow>
     message_part_row list result" where
  "upsert_part fresh now mid channel p rows =
     (case find (\<lambda>r. part_key r = (channel, tp_telegram_message_id p)) rows of
        None \<Rightarrow>
          if fi_part fresh (tp_telegram_message_id p) \<in> mp_id ` set rows then Inl IntegrityError
          else Inr (rows @ [new_part_row fresh now mid channel p])
      | Some r \<Rightarrow>
          if mp_message_id r = mid \<and> not_stale r p
          then Inr (update_where (\<lambda>x. part_key x = part_key r) (merge_part now p) rows)
          else Inr rows)"

fun upsert_parts ::
  "fresh_ids \<Rightarrow> int \<Rightarrow> uuid \<Rightarrow> uuid \<Rightarrow> telegram_message_part list \<Rightarrow> message_part_row list \<Rightarrow>
     message_part_row list result" where
  "upsert_parts fresh now mid channel [] rows = Inr rows"
| "upsert_parts fresh now mid channel (p # ps) rows =
     try_bind (upsert_part fresh now mid channel p rows) (upsert_parts fresh now mid channel ps)"

definition validate_component_ownership ::
  "uuid \<Rightarrow> uuid \<Rightarrow> int list \<Rightarrow> message_part_row list \<Rightarrow> unit result" where
  "validate_component_ownership mid channel ids rows =
     (let owners = filter (\<lambda>r. mp_source_channel_id r = channel \<and> mp_telegram_message_id r \<in> set ids) rows in
      if list_ex (\<lambda>r. mp_message_id r \<noteq> mid) owners
      then fail ''Telegram component IDs already belong to a different logical message''
      else if \<not> set ids \<subseteq> mp_telegram_message_id ` set owners
      then fail ''Telegram component IDs could not be retained atomically''
      else Inr ())"

definition telegram_part_from_record :: "message_part_row \<Rightarrow> telegram_message_part result" where
  "telegram_part_from_record r =
     try_bind (media_assets_from_json (mp_media r)) (\<lambda>media.
     check_message_part
       \<lparr>tp_telegram_message_id = mp_telegram_message_id r, tp_published_at = Aware (mp_published_at r),
        tp_edited_at = map_option Aware (mp_edited_at r), tp_original_text = mp_original_text r,
        tp_telegram_metadata = mp_telegram_metadata r, tp_media = media\<rparr>)"

definition retained_parts :: "uuid \<Rightarrow> message_part_row list \<Rightarrow> message_part_row list" where
  "retained_parts mid rows = sort_key mp_telegram_message_id (filter (\<lambda>r. mp_message_id r = mid) rows)"

definition recompute ::
  "string \<Rightarrow> int option \<Rightarrow> uuid \<Rightarrow> message_part_row list \<Rightarrow> normalized_message result" where
  "recompute channel grouped mid rows =
     try_bind (traverse telegram_part_from_record (retained_parts mid rows)) (\<lambda>parts.
       normalized_from_parts channel grouped parts)"

section \<open>Assets\<close>

definition new_asset_columns :: "fresh_ids \<Rightarrow> int \<Rightarrow> uuid \<Rightarrow> media_asset \<Rightarrow> asset_columns" where
  "new_asset_columns fresh now mid a =
     \<lparr>as_id = fi_asset fresh (md_asset_id a), as_message_id = mid, as_source_asset_id = md_asset_id a,
      as_source_telegram_message_id = md_source_telegram_message_id a, as_state = A_PENDING,
      as_attempt_count = 0, as_max_attempts = 5, as_next_retry_at = None, as_lease_token = None,
      as_lease_expires_at = None, as_last_error_code = None, as_last_error_type = None,
      as_last_failure_at = None, as_ready_at = None, as_deleted_at = None, as_source_sha256 = None,
      as_updated_at = now\<rparr>"

definition new_image :: "fresh_ids \<Rightarrow> int \<Rightarrow> uuid \<Rightarrow> media_asset \<Rightarrow> image_asset_row" where
  "new_image fresh now mid a = asset_columns.extend (new_asset_columns fresh now mid a)
     (image_asset_row.fields (md_original_visual_phash a) None None None None None None None None)"

definition new_video :: "fresh_ids \<Rightarrow> int \<Rightarrow> uuid \<Rightarrow> media_asset \<Rightarrow> video_asset_row" where
  "new_video fresh now mid a = asset_columns.extend (new_asset_columns fresh now mid a)
     (video_asset_row.fields (md_video_cover_phash a) None None None None None)"

text \<open>\<^verbatim>\<open>coalesce(excluded.x, x)\<close>.\<close>

definition coalesce :: "'a option \<Rightarrow> 'a option \<Rightarrow> 'a option" where
  "coalesce a b = (case a of None \<Rightarrow> b | Some x \<Rightarrow> Some x)"

definition merge_image :: "media_asset \<Rightarrow> image_asset_row \<Rightarrow> image_asset_row" where
  "merge_image a r =
     r\<lparr>im_source_phash := coalesce (md_original_visual_phash a) (im_source_phash r),
       as_source_telegram_message_id :=
         coalesce (md_source_telegram_message_id a) (as_source_telegram_message_id r)\<rparr>"

definition merge_video :: "media_asset \<Rightarrow> video_asset_row \<Rightarrow> video_asset_row" where
  "merge_video a r =
     r\<lparr>vi_source_cover_phash := coalesce (md_video_cover_phash a) (vi_source_cover_phash r),
       as_source_telegram_message_id :=
         coalesce (md_source_telegram_message_id a) (as_source_telegram_message_id r)\<rparr>"

definition asset_key :: "'a asset_columns_scheme \<Rightarrow> uuid \<times> string" where
  "asset_key r = (as_message_id r, as_source_asset_id r)"

text \<open>One row of the upsert, for images and videos alike.\<close>

definition upsert_asset ::
  "(media_asset \<Rightarrow> 'a asset_columns_scheme) \<Rightarrow> (media_asset \<Rightarrow> 'a asset_columns_scheme \<Rightarrow> 'a asset_columns_scheme) \<Rightarrow>
     uuid \<Rightarrow> media_asset \<Rightarrow> 'a asset_columns_scheme list \<Rightarrow> 'a asset_columns_scheme list result" where
  "upsert_asset new merge mid a rows =
     (if \<not> bigint_option (md_source_telegram_message_id a) \<or> 512 < length (md_asset_id a) then Inl DataError
      else if list_ex (\<lambda>r. asset_key r = (mid, md_asset_id a)) rows
      then Inr (update_where (\<lambda>r. asset_key r = (mid, md_asset_id a)) (merge a) rows)
      else if as_id (new a) \<in> as_id ` set rows then Inl IntegrityError
      else Inr (rows @ [new a]))"

fun upsert_assets ::
  "(media_asset \<Rightarrow> 'a asset_columns_scheme) \<Rightarrow> (media_asset \<Rightarrow> 'a asset_columns_scheme \<Rightarrow> 'a asset_columns_scheme) \<Rightarrow>
     uuid \<Rightarrow> media_asset list \<Rightarrow> 'a asset_columns_scheme list \<Rightarrow> 'a asset_columns_scheme list result" where
  "upsert_assets new merge mid [] rows = Inr rows"
| "upsert_assets new merge mid (a # as) rows =
     try_bind (upsert_asset new merge mid a rows) (upsert_assets new merge mid as)"

definition archivable_ids :: "uuid \<Rightarrow> media_asset list \<Rightarrow> 'a asset_columns_scheme list \<Rightarrow> uuid list" where
  "archivable_ids mid as rows =
     map as_id (filter (\<lambda>r. as_message_id r = mid \<and> as_source_asset_id r \<in> md_asset_id ` set as
       \<and> as_source_telegram_message_id r \<noteq> None \<and> as_state r = A_PENDING) rows)"

definition new_wakeup :: "fresh_ids \<Rightarrow> int \<Rightarrow> string \<Rightarrow> uuid \<Rightarrow> wakeup_row" where
  "new_wakeup fresh now queue i =
     \<lparr>wk_id = fi_wakeup fresh i, wk_queue = queue, wk_entity_id = i, wk_status = W_PENDING,
      wk_next_attempt_at = now, wk_lease_token = None, wk_lease_expires_at = None,
      wk_dispatch_attempts = 0, wk_last_dispatched_at = None, wk_completed_at = None, wk_updated_at = now\<rparr>"

fun insert_wakeups :: "fresh_ids \<Rightarrow> int \<Rightarrow> string \<Rightarrow> uuid list \<Rightarrow> wakeup_row list \<Rightarrow> wakeup_row list result" where
  "insert_wakeups fresh now queue [] ws = Inr ws"
| "insert_wakeups fresh now queue (i # is) ws =
     (if list_ex (\<lambda>w. wk_queue w = queue \<and> wk_entity_id w = i) ws then insert_wakeups fresh now queue is ws
      else if fi_wakeup fresh i \<in> wk_id ` set ws then Inl IntegrityError
      else insert_wakeups fresh now queue is (ws @ [new_wakeup fresh now queue i]))"

definition upsert_image_assets ::
  "fresh_ids \<Rightarrow> int \<Rightarrow> uuid \<Rightarrow> normalized_message \<Rightarrow> message_store \<Rightarrow> message_store result" where
  "upsert_image_assets fresh now mid n st =
     (let assets = filter (\<lambda>a. md_kind a = IMAGE) (nm_media n) in
      if assets = [] then Inr st
      else try_bind (upsert_assets (new_image fresh now mid) merge_image mid assets (mt_images st)) (\<lambda>images.
        try_bind (insert_wakeups fresh now image_archive_queue (archivable_ids mid assets images) (mt_wakeups st)) (\<lambda>ws.
          Inr (st\<lparr>mt_images := images, mt_wakeups := ws\<rparr>))))"

definition upsert_video_assets ::
  "fresh_ids \<Rightarrow> int \<Rightarrow> uuid \<Rightarrow> normalized_message \<Rightarrow> message_store \<Rightarrow> message_store result" where
  "upsert_video_assets fresh now mid n st =
     (let assets = filter (\<lambda>a. md_kind a = VIDEO) (nm_media n) in
      if assets = [] then Inr st
      else try_bind (upsert_assets (new_video fresh now mid) merge_video mid assets (mt_videos st)) (\<lambda>videos.
        try_bind (insert_wakeups fresh now video_archive_queue (archivable_ids mid assets videos) (mt_wakeups st)) (\<lambda>ws.
          Inr (st\<lparr>mt_videos := videos, mt_wakeups := ws\<rparr>))))"

definition synchronize_archive_assets ::
  "fresh_ids \<Rightarrow> int \<Rightarrow> uuid \<Rightarrow> normalized_message \<Rightarrow> message_store \<Rightarrow> message_store result" where
  "synchronize_archive_assets fresh now mid n st =
     try_bind (upsert_image_assets fresh now mid n st) (upsert_video_assets fresh now mid n)"

section \<open>Ingestion\<close>

definition upsert_message ::
  "(string \<Rightarrow> string) \<Rightarrow> fresh_ids \<Rightarrow> int \<Rightarrow> normalized_message \<Rightarrow> message_store \<Rightarrow> message_store result" where
  "upsert_message sha fresh now n st =
     try_bind (as_uuid (nm_source_channel_id n)) (\<lambda>channel.
     try_bind (upsert_parent sha fresh now channel n st) (\<lambda>(mid, st1).
     try_bind (upsert_parts fresh now mid channel (nm_parts n) (mt_parts st1)) (\<lambda>rows.
     try_bind (validate_component_ownership mid channel (nm_telegram_message_ids n) rows) (\<lambda>_.
     try_bind (recompute (nm_source_channel_id n) (nm_telegram_grouped_id n) mid rows) (\<lambda>r.
       synchronize_archive_assets fresh now mid r
         (update_parent sha mid r now (st1\<lparr>mt_parts := rows\<rparr>)))))))"

record ingest_report =
  ir_logical_messages :: nat
  ir_component_messages :: nat

text \<open>One transaction per logical message: what was stored before an error stays.\<close>

fun upsert_all ::
  "(string \<Rightarrow> string) \<Rightarrow> (nat \<Rightarrow> fresh_ids) \<Rightarrow> int \<Rightarrow> nat \<Rightarrow> normalized_message list \<Rightarrow> message_store \<Rightarrow>
     unit result \<times> message_store" where
  "upsert_all sha fresh now k [] st = (Inr (), st)"
| "upsert_all sha fresh now k (n # ns) st =
     (case upsert_message sha (fresh k) now n st of
        Inl e \<Rightarrow> (Inl e, st)
      | Inr st1 \<Rightarrow> upsert_all sha fresh now (Suc k) ns st1)"

definition ingest_messages ::
  "(string \<Rightarrow> string) \<Rightarrow> (nat \<Rightarrow> fresh_ids) \<Rightarrow> int \<Rightarrow> telegram_message list \<Rightarrow> message_store \<Rightarrow>
     ingest_report result \<times> message_store" where
  "ingest_messages sha fresh now ms st =
     (case normalize_telegram_messages ms of
        Inl e \<Rightarrow> (Inl e, st)
      | Inr ns \<Rightarrow> (case upsert_all sha fresh now 0 ns st of
          (Inl e, st1) \<Rightarrow> (Inl e, st1)
        | (Inr _, st1) \<Rightarrow>
            (Inr \<lparr>ir_logical_messages = length ns,
                  ir_component_messages = sum_list (map (\<lambda>n. length (nm_telegram_message_ids n)) ns)\<rparr>, st1)))"

section \<open>Edits and deletions at the source\<close>

definition validate_source_message :: "string \<Rightarrow> int \<Rightarrow> unit result" where
  "validate_source_message channel i =
     try_bind (as_uuid channel) (\<lambda>_.
       if i \<le> 0 then fail ''telegram_message_id must be a positive integer'' else Inr ())"

text \<open>The part and its parent, as the joined query finds them.\<close>

definition locked_component ::
  "uuid \<Rightarrow> int \<Rightarrow> message_store \<Rightarrow> (message_part_row \<times> message_row) option" where
  "locked_component channel i st =
     (case find (\<lambda>r. part_key r = (channel, i)) (mt_parts st) of
        None \<Rightarrow> None
      | Some part \<Rightarrow> (case find (\<lambda>m. ms_id m = mp_message_id part \<and> ms_source_channel_id m = channel) (mt_messages st) of
          None \<Rightarrow> None | Some m \<Rightarrow> Some (part, m)))"

definition edit_part ::
  "string option \<Rightarrow> (string, pyval) dict \<Rightarrow> media_asset list \<Rightarrow> int \<Rightarrow> int \<Rightarrow> message_part_row \<Rightarrow> message_part_row" where
  "edit_part body metadata media edited now r =
     r\<lparr>mp_original_text := body, mp_telegram_metadata := metadata,
       mp_media := media_assets_to_json media, mp_media_count := length media,
       mp_edited_at := Some edited, mp_updated_at := now\<rparr>"

definition mark_changed :: "uuid \<Rightarrow> message_store \<Rightarrow> message_store" where
  "mark_changed mid st =
     st\<lparr>mt_messages := update_where (\<lambda>m. ms_id m = mid \<and> ms_processing_status m = ''processed'')
         (\<lambda>m. m\<lparr>ms_source_changed_after_processing := True\<rparr>) (mt_messages st)\<rparr>"

text \<open>An edit time before the publication violates a constraint of the part.\<close>

definition store_edit ::
  "(string \<Rightarrow> string) \<Rightarrow> fresh_ids \<Rightarrow> int \<Rightarrow> string \<Rightarrow> int \<Rightarrow> string option \<Rightarrow> (string, pyval) dict \<Rightarrow>
     media_asset list \<Rightarrow> int \<Rightarrow> message_store \<Rightarrow> (bool \<times> message_store) result" where
  "store_edit sha fresh now channel_text i body metadata media edited st =
     try_bind (as_uuid channel_text) (\<lambda>channel.
       if \<not> fits_bigint i then Inl DataError
       else (case locked_component channel i st of
         None \<Rightarrow> Inr (False, st)
       | Some (part, parent) \<Rightarrow>
           if (case mp_edited_at part of None \<Rightarrow> False | Some stored \<Rightarrow> edited \<le> stored) then Inr (False, st)
           else if edited < mp_published_at part then Inl IntegrityError
           else
             let rows = update_where (\<lambda>r. mp_id r = mp_id part) (edit_part body metadata media edited now) (mt_parts st);
                 mid = ms_id parent
             in try_bind (recompute channel_text (ms_telegram_grouped_id parent) mid rows) (\<lambda>r.
                try_bind (synchronize_archive_assets fresh now mid r
                    (mark_changed mid (update_parent sha mid r now (st\<lparr>mt_parts := rows\<rparr>)))) (\<lambda>st1.
                  Inr (True, st1)))))"

definition record_edit ::
  "(string \<Rightarrow> string) \<Rightarrow> fresh_ids \<Rightarrow> int \<Rightarrow> string \<Rightarrow> int \<Rightarrow> string option \<Rightarrow> (string, pyval) dict \<Rightarrow>
     media_asset list \<Rightarrow> datetime \<Rightarrow> message_store \<Rightarrow> (bool \<times> message_store) result" where
  "record_edit sha fresh now channel i body metadata media edited st =
     try_bind (validate_source_message channel i) (\<lambda>_.
     try_bind (check_message_content media) (\<lambda>_.
     try_bind (ensure_aware edited) (\<lambda>e.
       store_edit sha fresh now channel i body metadata media e st)))"

definition delete_message :: "int \<Rightarrow> int \<Rightarrow> message_row \<Rightarrow> message_row" where
  "delete_message now deleted m =
     m\<lparr>ms_source_deleted := True, ms_source_deleted_at := Some deleted,
       ms_source_changed_after_processing :=
         ms_source_changed_after_processing m \<or> ms_processing_status m = ''processed'',
       ms_updated_at := now\<rparr>"

definition store_deletion ::
  "int \<Rightarrow> string \<Rightarrow> int \<Rightarrow> int \<Rightarrow> message_store \<Rightarrow> (bool \<times> message_store) result" where
  "store_deletion now channel_text i deleted st =
     try_bind (as_uuid channel_text) (\<lambda>channel.
       if \<not> fits_bigint i then Inl DataError
       else (case locked_component channel i st of
         None \<Rightarrow> Inr (False, st)
       | Some (part, parent) \<Rightarrow>
           if ms_source_deleted_at parent \<noteq> None then Inr (False, st)
           else if deleted < ms_published_at parent then Inl IntegrityError
           else Inr (True, st\<lparr>mt_messages :=
             update_where (\<lambda>m. ms_id m = ms_id parent) (delete_message now deleted) (mt_messages st)\<rparr>)))"

definition record_deletion ::
  "int \<Rightarrow> string \<Rightarrow> int \<Rightarrow> datetime \<Rightarrow> message_store \<Rightarrow> (bool \<times> message_store) result" where
  "record_deletion now channel i deleted st =
     try_bind (validate_source_message channel i) (\<lambda>_.
     try_bind (ensure_aware deleted) (\<lambda>d. store_deletion now channel i d st))"

end
