(* ===== verification/Message_Invariant.thy ===== *)
theory Message_Invariant
  imports Message_Store
begin

text \<open>
  What ingestion, edits and deletions keep: every message row is the normal form of its retained
  parts, parts and assets are never duplicated, an edit never goes back in time, and every image
  or video that still has to be archived has a wake-up.
\<close>

section \<open>The channel of a recomputation\<close>

lemma insort_key_map: "insort_key f (g x) (map g ys) = map g (insort_key (\<lambda>x. f (g x)) x ys)"
  by (induction ys) auto

lemma sort_key_map: "sort_key f (map g xs) = map g (sort_key (\<lambda>x. f (g x)) xs)"
  by (induction xs) (simp_all add: insort_key_map)

lemma first_text_of_parts:
  "first_text (map (message_of_part c g) ps) = first_text (map (message_of_part d g) ps)"
  by (induction ps) (simp_all add: message_of_part_def split: option.split)

lemma edits_of_parts:
  "List.map_filter tm_edited_at (map (message_of_part c g) ps) = List.map_filter tp_edited_at ps"
  by (induction ps) (simp_all add: List.map_filter_simps message_of_part_def split: option.split)

lemma message_of_part_sel [simp]:
  "tm_telegram_message_id (message_of_part c g p) = tp_telegram_message_id p"
  "tm_published_at (message_of_part c g p) = tp_published_at p"
  "tm_edited_at (message_of_part c g p) = tp_edited_at p"
  "tm_media (message_of_part c g p) = tp_media p"
  by (simp_all add: message_of_part_def)

lemma component_metadata_of_part:
  "component_metadata (message_of_part c g p) = component_metadata (message_of_part d g p)"
  by (simp add: component_metadata_def message_of_part_def)

lemma as_part_of_part: "as_part (message_of_part c g p) = check_message_part p"
  by (simp add: as_part_def)

definition unchannelled :: "normalized_message result \<Rightarrow> normalized_message result" where
  "unchannelled r = (case r of Inl e \<Rightarrow> Inl e | Inr n \<Rightarrow> Inr (n\<lparr>nm_source_channel_id := []\<rparr>))"

lemma check_normalized_channel:
  assumes "as_uuid c = Inr u"
  shows "check_normalized_message n = Inr n \<Longrightarrow> nm_source_channel_id n = c \<Longrightarrow>
    check_normalized_message (n\<lparr>nm_source_channel_id := u\<rparr>) = Inr (n\<lparr>nm_source_channel_id := u\<rparr>)"
  using as_uuid_canonical [OF assms]
  by (auto simp: check_normalized_message_def result_simps split: if_splits)

lemma normalize_parts_channel:
  assumes "as_uuid c = Inr u" and "normalize_parts c g (map (message_of_part c g) ps) = Inr n"
  shows "normalize_parts u g (map (message_of_part u g) ps) = Inr (n\<lparr>nm_source_channel_id := u\<rparr>)"
proof -
  from assms(2) obtain m rest where s: "sort_key tm_telegram_message_id (map (message_of_part c g) ps) = m # rest"
    by (rule normalize_partsE)
  then obtain q qs where q: "sort_key tp_telegram_message_id ps = q # qs"
      "m = message_of_part c g q" "rest = map (message_of_part c g) qs"
    by (auto simp: sort_key_map)
  have t: "traverse as_part (map (message_of_part d g) xs) = traverse check_message_part xs" for d xs
    by (simp only: traverse_map as_part_of_part)
  let ?n = "\<lambda>d parts. \<lparr>nm_source_channel_id = d, nm_primary_telegram_message_id = tp_telegram_message_id q,
       nm_telegram_message_ids = map tp_telegram_message_id (q # qs),
       nm_published_at = fold (\<lambda>x a. earlier_of a (tp_published_at x)) qs (tp_published_at q),
       nm_edited_at = latest (List.map_filter tp_edited_at (q # qs)),
       nm_original_text = first_text (map (message_of_part c g) (q # qs)), nm_telegram_grouped_id = g,
       nm_telegram_metadata = [(''parts'', PList (map (\<lambda>p. component_metadata (message_of_part c g p)) (q # qs)))],
       nm_parts = parts, nm_media = concat (map tp_media (q # qs))\<rparr>"
  have form: "normalize_parts d g (map (message_of_part d g) ps) =
      try_bind (traverse check_message_part (q # qs)) (\<lambda>parts.
      try_bind (check_message_content (concat (map tp_media (q # qs)))) (\<lambda>_. check_normalized_message (?n d parts)))" for d
  proof -
    have e: "sort_key tm_telegram_message_id (map (message_of_part d g) ps) = message_of_part d g q # map (message_of_part d g) qs"
      by (simp add: sort_key_map q(1))
    have l: "message_of_part d g q # map (message_of_part d g) qs = map (message_of_part d g) (q # qs)" by simp
    have m: "map component_metadata (map (message_of_part d g) xs) = map (\<lambda>p. component_metadata (message_of_part c g p)) xs" for xs
      by (simp add: component_metadata_of_part [of d g _ c])
    show ?thesis
      unfolding normalize_parts_def e list.case Let_def
      unfolding l t first_text_of_parts [of d g "q # qs" c] edits_of_parts m
      by (simp only: fold_map comp_def map_map message_of_part_sel)
  qed
  from assms(2) obtain parts where p: "traverse check_message_part (q # qs) = Inr parts"
      "check_message_content (concat (map tp_media (q # qs))) = Inr ()" "check_normalized_message (?n c parts) = Inr n"
    unfolding form by (elim try_bindE) simp
  from check_normalized_same [OF p(3)] have n: "n = ?n c parts" .
  have "check_normalized_message (n\<lparr>nm_source_channel_id := u\<rparr>) = Inr (n\<lparr>nm_source_channel_id := u\<rparr>)"
    by (rule check_normalized_channel [OF assms(1)]) (use p(3) n in simp_all)
  then show ?thesis unfolding form p try_bind_simps n by simp
qed

lemma normalized_from_parts_channel:
  assumes "as_uuid c = Inr u" and "normalized_from_parts c g ps = Inr n"
  shows "normalized_from_parts u g ps = Inr (n\<lparr>nm_source_channel_id := u\<rparr>)"
proof -
  from assms(2) obtain ms where t: "traverse (\<lambda>p. check_telegram_message (message_of_part c g p)) ps = Inr ms"
    and n: "normalize_parts c g ms = Inr n"
    unfolding normalized_from_parts_def by (rule try_bindE)
  have "check_telegram_message (message_of_part u g p) = Inr (message_of_part u g p)" if "p \<in> set ps" for p
  proof -
    from list_all2_member1 [OF t [unfolded traverse_Inr] that]
    have "check_telegram_message (message_of_part c g p) = Inr (message_of_part c g p)"
      using check_message_same by blast
    with as_uuid_canonical [OF assms(1)] show ?thesis
      by (auto simp: check_telegram_message_def message_of_part_def result_simps)
  qed
  then have "traverse (\<lambda>p. check_telegram_message (message_of_part u g p)) ps = Inr (map (message_of_part u g) ps)"
    by (rule traverse_total)
  with normalize_parts_channel [OF assms(1) n [unfolded from_parts_messages [OF t]]]
  show ?thesis by (simp add: normalized_from_parts_def)
qed

lemma recompute_channel:
  assumes "as_uuid c = Inr u" and "recompute c g mid rows = Inr n"
  shows "recompute u g mid rows = Inr (n\<lparr>nm_source_channel_id := u\<rparr>)"
proof -
  from assms(2) obtain ps where ps: "traverse telegram_part_from_record (retained_parts mid rows) = Inr ps"
    and n: "normalized_from_parts c g ps = Inr n"
    unfolding recompute_def by (rule try_bindE)
  from normalized_from_parts_channel [OF assms(1) n] show ?thesis by (simp add: recompute_def ps)
qed

section \<open>Wake-ups of archivable assets\<close>

definition wakeup_keys :: "wakeup_row list \<Rightarrow> (string \<times> uuid) set" where
  "wakeup_keys ws = (\<lambda>w. (wk_queue w, wk_entity_id w)) ` set ws"

definition awake :: "string \<Rightarrow> wakeup_row list \<Rightarrow> 'a asset_columns_scheme \<Rightarrow> bool" where
  "awake queue ws r \<longleftrightarrow> (as_state r = A_PENDING \<and> as_source_telegram_message_id r \<noteq> None \<longrightarrow>
     (queue, as_id r) \<in> wakeup_keys ws)"

definition assets_awake :: "message_store \<Rightarrow> bool" where
  "assets_awake st \<longleftrightarrow> list_all (awake image_archive_queue (mt_wakeups st)) (mt_images st)
     \<and> list_all (awake video_archive_queue (mt_wakeups st)) (mt_videos st)"

lemma insert_wakeups_keys:
  "insert_wakeups fresh now queue is ws = Inr ws' \<Longrightarrow>
     wakeup_keys ws' = wakeup_keys ws \<union> {queue} \<times> set is"
proof (induction "is" arbitrary: ws)
  case (Cons i "is")
  show ?case
  proof (cases "list_ex (\<lambda>w. wk_queue w = queue \<and> wk_entity_id w = i) ws")
    case True
    then have "(queue, i) \<in> wakeup_keys ws" by (auto simp: wakeup_keys_def list_ex_iff)
    with Cons.IH [of ws] Cons.prems True show ?thesis by auto
  next
    case False
    with Cons.prems have "insert_wakeups fresh now queue is (ws @ [new_wakeup fresh now queue i]) = Inr ws'"
      by (simp split: if_splits)
    from Cons.IH [OF this] show ?thesis by (auto simp: wakeup_keys_def new_wakeup_def)
  qed
qed simp

lemma awake_more: "wakeup_keys ws \<subseteq> wakeup_keys ws' \<Longrightarrow> awake queue ws r \<Longrightarrow> awake queue ws' r"
  by (auto simp: awake_def)

text \<open>The contract of the upsert of one kind of asset.\<close>

locale asset_upsert =
  fixes new :: "media_asset \<Rightarrow> 'a asset_columns_scheme"
    and merge :: "media_asset \<Rightarrow> 'a asset_columns_scheme \<Rightarrow> 'a asset_columns_scheme"
    and mid :: uuid
  assumes key_new: "asset_key (new a) = (mid, md_asset_id a)"
    and key_merge: "asset_key (merge a r) = asset_key r"
    and merge_new: "merge a (new a) = new a"
    and merge_merge: "merge a (merge a r) = merge a r"
begin

lemma rows_of_upsert:
  assumes "upsert_asset new merge mid a rows = Inr rows'" and "r \<in> set rows'"
  shows "r \<in> set rows \<or> asset_key r = (mid, md_asset_id a)"
  using assms unfolding upsert_asset_def update_where_def
  by (force simp: key_new key_merge split: if_splits)

lemma rows_of_upserts:
  "upsert_assets new merge mid as rows = Inr rows' \<Longrightarrow> r \<in> set rows' \<Longrightarrow>
    r \<in> set rows \<or> as_message_id r = mid \<and> as_source_asset_id r \<in> md_asset_id ` set as"
proof (induction "as" arbitrary: rows)
  case (Cons a "as")
  from Cons.prems(1) obtain r1 where r1: "upsert_asset new merge mid a rows = Inr r1"
      "upsert_assets new merge mid as r1 = Inr rows'" by (auto elim: try_bindE)
  from Cons.IH [OF r1(2) Cons.prems(2)] show ?case
  proof
    assume "r \<in> set r1"
    from rows_of_upsert [OF r1(1) this] show ?thesis by (auto simp: asset_key_def)
  qed auto
qed simp

lemma archivable_awake:
  assumes "upsert_assets new merge mid as rows = Inr rows'"
    and "insert_wakeups fresh now queue (archivable_ids mid as rows') ws = Inr ws'"
    and "list_all (awake queue ws) rows"
  shows "list_all (awake queue ws') rows'"
  unfolding list_all_iff
proof
  fix r assume r: "r \<in> set rows'"
  note keys = insert_wakeups_keys [OF assms(2)]
  from rows_of_upserts [OF assms(1) r] show "awake queue ws' r"
  proof
    assume "r \<in> set rows"
    with assms(3) have "awake queue ws r" by (simp add: list_all_iff)
    with keys show ?thesis by (auto intro: awake_more)
  next
    assume "as_message_id r = mid \<and> as_source_asset_id r \<in> md_asset_id ` set as"
    with r keys show ?thesis by (auto simp: awake_def archivable_ids_def)
  qed
qed

end

interpretation image_upsert: asset_upsert "new_image fresh now mid" merge_image mid for fresh now mid
  by unfold_locales (simp_all add: asset_key_def new_image_def new_asset_columns_def merge_image_def coalesce_def
      asset_columns.defs image_asset_row.defs split: option.split)

interpretation video_upsert: asset_upsert "new_video fresh now mid" merge_video mid for fresh now mid
  by unfold_locales (simp_all add: asset_key_def new_video_def new_asset_columns_def merge_video_def coalesce_def
      asset_columns.defs video_asset_row.defs split: option.split)

lemma upsert_image_assets_awake:
  assumes "upsert_image_assets fresh now mid n st = Inr st'" and "assets_awake st"
  shows "assets_awake st'"
proof (cases "filter (\<lambda>a. md_kind a = IMAGE) (nm_media n) = []")
  case True
  with assms show ?thesis by (simp add: upsert_image_assets_def)
next
  case False
  with assms(1) obtain images ws where
      a: "upsert_assets (new_image fresh now mid) merge_image mid (filter (\<lambda>a. md_kind a = IMAGE) (nm_media n)) (mt_images st) = Inr images"
    and w: "insert_wakeups fresh now image_archive_queue
        (archivable_ids mid (filter (\<lambda>a. md_kind a = IMAGE) (nm_media n)) images) (mt_wakeups st) = Inr ws"
    and st': "st' = st\<lparr>mt_images := images, mt_wakeups := ws\<rparr>"
    unfolding upsert_image_assets_def Let_def by (auto elim!: try_bindE)
  have "list_all (awake image_archive_queue ws) images"
    using image_upsert.archivable_awake [OF a w] assms(2) by (simp add: assets_awake_def)
  moreover have "list_all (awake video_archive_queue ws) (mt_videos st)"
    using assms(2) insert_wakeups_keys [OF w] by (auto simp: assets_awake_def list_all_iff intro: awake_more)
  ultimately show ?thesis by (simp add: assets_awake_def st')
qed

lemma upsert_video_assets_awake:
  assumes "upsert_video_assets fresh now mid n st = Inr st'" and "assets_awake st"
  shows "assets_awake st'"
proof (cases "filter (\<lambda>a. md_kind a = VIDEO) (nm_media n) = []")
  case True
  with assms show ?thesis by (simp add: upsert_video_assets_def)
next
  case False
  with assms(1) obtain videos ws where
      a: "upsert_assets (new_video fresh now mid) merge_video mid (filter (\<lambda>a. md_kind a = VIDEO) (nm_media n)) (mt_videos st) = Inr videos"
    and w: "insert_wakeups fresh now video_archive_queue
        (archivable_ids mid (filter (\<lambda>a. md_kind a = VIDEO) (nm_media n)) videos) (mt_wakeups st) = Inr ws"
    and st': "st' = st\<lparr>mt_videos := videos, mt_wakeups := ws\<rparr>"
    unfolding upsert_video_assets_def Let_def by (auto elim!: try_bindE)
  have "list_all (awake video_archive_queue ws) videos"
    using video_upsert.archivable_awake [OF a w] assms(2) by (simp add: assets_awake_def)
  moreover have "list_all (awake image_archive_queue ws) (mt_images st)"
    using assms(2) insert_wakeups_keys [OF w] by (auto simp: assets_awake_def list_all_iff intro: awake_more)
  ultimately show ?thesis by (simp add: assets_awake_def st')
qed

lemma synchronize_awake:
  assumes "synchronize_archive_assets fresh now mid n st = Inr st'" and "assets_awake st"
  shows "assets_awake st'"
proof -
  from assms(1) obtain st1 where "upsert_image_assets fresh now mid n st = Inr st1"
      "upsert_video_assets fresh now mid n st1 = Inr st'"
    unfolding synchronize_archive_assets_def by (rule try_bindE)
  from upsert_video_assets_awake [OF this(2) upsert_image_assets_awake [OF this(1) assms(2)]] show ?thesis .
qed

lemma assets_awake_rows [simp]:
  "assets_awake (st\<lparr>mt_messages := ms\<rparr>) = assets_awake st" "assets_awake (st\<lparr>mt_parts := ps\<rparr>) = assets_awake st"
  "assets_awake (update_parent sha mid n now st) = assets_awake st" "assets_awake (mark_changed mid st) = assets_awake st"
  by (simp_all add: assets_awake_def update_parent_def mark_changed_def)

section \<open>The invariant of messages and parts\<close>

definition follows_parts :: "(string \<Rightarrow> string) \<Rightarrow> message_part_row list \<Rightarrow> message_row \<Rightarrow> bool" where
  "follows_parts sha rows m =
     (case recompute (ms_source_channel_id m) (ms_telegram_grouped_id m) (ms_id m) rows of
        Inl _ \<Rightarrow> False | Inr n \<Rightarrow> snapshot_columns sha n (ms_updated_at m) m = m)"

definition owner_of :: "message_part_row \<Rightarrow> uuid \<times> uuid" where
  "owner_of r = (mp_message_id r, mp_source_channel_id r)"

definition message_owner :: "message_row \<Rightarrow> uuid \<times> uuid" where
  "message_owner m = (ms_id m, ms_source_channel_id m)"

definition group_id :: "message_row \<Rightarrow> uuid \<times> int option" where
  "group_id m = (ms_source_channel_id m, ms_telegram_grouped_id m)"

definition parts_ok :: "message_part_row list \<Rightarrow> bool" where
  "parts_ok rows \<longleftrightarrow> distinct (map mp_id rows) \<and> distinct (map part_key rows)"

definition message_store_ok :: "(string \<Rightarrow> string) \<Rightarrow> message_store \<Rightarrow> bool" where
  "message_store_ok sha st \<longleftrightarrow>
     distinct (map ms_id (mt_messages st)) \<and> parts_ok (mt_parts st)
     \<and> owner_of ` set (mt_parts st) \<subseteq> message_owner ` set (mt_messages st)
     \<and> (\<forall>m \<in> set (mt_messages st). as_uuid (ms_source_channel_id m) = Inr (ms_source_channel_id m)
          \<and> follows_parts sha (mt_parts st) m)
     \<and> distinct (map group_id (filter (\<lambda>m. ms_telegram_grouped_id m \<noteq> None) (mt_messages st)))"

text \<open>A row update that keeps the identifying columns and, for other owners, the rows.\<close>

lemma merge_part_keeps [simp]:
  "mp_id (merge_part now p r) = mp_id r" "part_key (merge_part now p r) = part_key r"
  "owner_of (merge_part now p r) = owner_of r" "mp_message_id (merge_part now p r) = mp_message_id r"
  by (simp_all add: merge_part_def part_key_def owner_of_def)

lemma edit_part_keeps [simp]:
  "mp_id (edit_part body metadata media edited now r) = mp_id r"
  "part_key (edit_part body metadata media edited now r) = part_key r"
  "owner_of (edit_part body metadata media edited now r) = owner_of r"
  "mp_message_id (edit_part body metadata media edited now r) = mp_message_id r"
  by (simp_all add: edit_part_def part_key_def owner_of_def)

definition other_parts :: "uuid \<Rightarrow> message_part_row list \<Rightarrow> message_part_row list" where
  "other_parts mid rows = filter (\<lambda>r. mp_message_id r \<noteq> mid) rows"

lemma other_parts_update:
  assumes "\<And>r. r \<in> set rows \<Longrightarrow> P r \<Longrightarrow> mp_message_id r = mid" and "\<And>r. mp_message_id (f r) = mp_message_id r"
  shows "other_parts mid (update_where P f rows) = other_parts mid rows"
  using assms(1) by (induction rows) (auto simp: other_parts_def update_where_def assms(2))

lemma retained_other: "x \<noteq> mid \<Longrightarrow> retained_parts x rows = retained_parts x (other_parts mid rows)"
  by (simp add: retained_parts_def other_parts_def) (metis (mono_tags, lifting))

lemma upsert_part_keeps:
  assumes "upsert_part fresh now mid channel p rows = Inr rows'" and "parts_ok rows"
  shows "parts_ok rows'" and "other_parts mid rows' = other_parts mid rows"
    and "owner_of ` set rows' \<subseteq> insert (mid, channel) (owner_of ` set rows)"
proof -
  have "parts_ok rows' \<and> other_parts mid rows' = other_parts mid rows
      \<and> owner_of ` set rows' \<subseteq> insert (mid, channel) (owner_of ` set rows)"
  proof (cases "find (\<lambda>r. part_key r = (channel, tp_telegram_message_id p)) rows")
    case None
    then have new: "(channel, tp_telegram_message_id p) \<notin> part_key ` set rows" by (auto simp: find_None_iff)
    from None assms(1) have r: "rows' = rows @ [new_part_row fresh now mid channel p]"
        "fi_part fresh (tp_telegram_message_id p) \<notin> mp_id ` set rows"
      by (auto simp: upsert_part_def split: if_splits)
    have k: "part_key (new_part_row fresh now mid channel p) = (channel, tp_telegram_message_id p)"
        "mp_id (new_part_row fresh now mid channel p) = fi_part fresh (tp_telegram_message_id p)"
        "owner_of (new_part_row fresh now mid channel p) = (mid, channel)"
        "mp_message_id (new_part_row fresh now mid channel p) = mid"
      by (simp_all add: new_part_row_def part_key_def owner_of_def)
    show ?thesis using assms(2) new r(2) by (simp add: r(1) parts_ok_def k other_parts_def)
  next
    case (Some r)
    then have r: "r \<in> set rows" by (auto dest: find_key_Some)
    show ?thesis
    proof (cases "mp_message_id r = mid \<and> not_stale r p")
      case False
      with Some assms show ?thesis by (auto simp: upsert_part_def split: if_splits)
    next
      case True
      with Some assms(1) have rows': "rows' = update_where (\<lambda>x. part_key x = part_key r) (merge_part now p) rows"
        by (simp add: upsert_part_def)
      have "mp_message_id x = mid" if "x \<in> set rows" "part_key x = part_key r" for x
        using distinct_key_eq [of part_key rows x r] that r assms(2) True by (auto simp: parts_ok_def)
      then have o: "other_parts mid rows' = other_parts mid rows"
        unfolding rows' by (intro other_parts_update) simp_all
      have "map mp_id rows' = map mp_id rows" "map part_key rows' = map part_key rows" "map owner_of rows' = map owner_of rows"
        unfolding rows' by (simp_all add: map_update_where)
      with o assms(2) show ?thesis by (metis parts_ok_def list.set_map subset_insertI)
    qed
  qed
  then show "parts_ok rows'" "other_parts mid rows' = other_parts mid rows"
    "owner_of ` set rows' \<subseteq> insert (mid, channel) (owner_of ` set rows)" by blast+
qed

lemma upsert_parts_keeps:
  "upsert_parts fresh now mid channel ps rows = Inr rows' \<Longrightarrow> parts_ok rows \<Longrightarrow>
     parts_ok rows' \<and> other_parts mid rows' = other_parts mid rows
     \<and> owner_of ` set rows' \<subseteq> insert (mid, channel) (owner_of ` set rows)"
proof (induction ps arbitrary: rows)
  case (Cons p ps)
  then obtain r1 where r1: "upsert_part fresh now mid channel p rows = Inr r1"
      "upsert_parts fresh now mid channel ps r1 = Inr rows'" by (auto elim: try_bindE)
  note k = upsert_part_keeps [OF r1(1) Cons.prems(2)]
  note ih = Cons.IH [OF r1(2) k(1)]
  show ?case
  proof (intro conjI)
    show "parts_ok rows'" using ih by blast
    show "other_parts mid rows' = other_parts mid rows" using ih k(2) by simp
    show "owner_of ` set rows' \<subseteq> insert (mid, channel) (owner_of ` set rows)" using ih k(3) by blast
  qed
qed auto

text \<open>Recomputing one parent leaves the others alone.\<close>

lemma follows_other:
  assumes "other_parts mid rows' = other_parts mid rows" and "ms_id m \<noteq> mid"
  shows "follows_parts sha rows' m = follows_parts sha rows m"
  by (simp only: follows_parts_def recompute_def retained_other [OF assms(2), of rows']
      retained_other [OF assms(2), of rows] assms(1))

lemma snapshot_columns_sel [simp]:
  "ms_id (snapshot_columns sha n now m) = ms_id m"
  "ms_source_channel_id (snapshot_columns sha n now m) = ms_source_channel_id m"
  "ms_telegram_grouped_id (snapshot_columns sha n now m) = ms_telegram_grouped_id m"
  "ms_updated_at (snapshot_columns sha n now m) = now"
  by (simp_all add: snapshot_columns_def)

lemma new_parent_sel [simp]:
  "ms_id (new_parent sha i channel n now) = i"
  "ms_source_channel_id (new_parent sha i channel n now) = channel"
  "ms_telegram_grouped_id (new_parent sha i channel n now) = nm_telegram_grouped_id n"
  by (simp_all add: new_parent_def)

lemma snapshot_columns_idem [simp]:
  "snapshot_columns sha n now (snapshot_columns sha n now' m) = snapshot_columns sha n now m"
  by (simp add: snapshot_columns_def)

lemma snapshot_columns_channel [simp]:
  "snapshot_columns sha (n\<lparr>nm_source_channel_id := u\<rparr>) now m = snapshot_columns sha n now m"
  by (simp add: snapshot_columns_def media_count_def normalized_fingerprint_def)

lemma follows_updated:
  assumes "as_uuid c = Inr (ms_source_channel_id m)"
    and "recompute c (ms_telegram_grouped_id m) (ms_id m) rows = Inr n"
  shows "follows_parts sha rows (snapshot_columns sha n now m)"
  using recompute_channel [OF assms] by (simp add: follows_parts_def)

text \<open>Archive assets live in their own tables.\<close>

lemma upsert_image_assets_keeps:
  "upsert_image_assets fresh now mid n st = Inr st' \<Longrightarrow>
     mt_messages st' = mt_messages st \<and> mt_parts st' = mt_parts st \<and> mt_channels st' = mt_channels st
     \<and> mt_videos st' = mt_videos st"
  by (auto simp: upsert_image_assets_def Let_def result_simps split: if_splits)

lemma upsert_video_assets_keeps:
  "upsert_video_assets fresh now mid n st = Inr st' \<Longrightarrow>
     mt_messages st' = mt_messages st \<and> mt_parts st' = mt_parts st \<and> mt_channels st' = mt_channels st
     \<and> mt_images st' = mt_images st"
  by (auto simp: upsert_video_assets_def Let_def result_simps split: if_splits)

lemma synchronize_keeps:
  assumes "synchronize_archive_assets fresh now mid n st = Inr st'"
  shows "mt_messages st' = mt_messages st" and "mt_parts st' = mt_parts st" and "mt_channels st' = mt_channels st"
proof -
  from assms obtain st1 where "upsert_image_assets fresh now mid n st = Inr st1"
      "upsert_video_assets fresh now mid n st1 = Inr st'"
    unfolding synchronize_archive_assets_def by (rule try_bindE)
  from upsert_image_assets_keeps [OF this(1)] upsert_video_assets_keeps [OF this(2)]
  show "mt_messages st' = mt_messages st" "mt_parts st' = mt_parts st" "mt_channels st' = mt_channels st" by simp_all
qed

lemma store_ok_assets:
  "mt_messages st' = mt_messages st \<Longrightarrow> mt_parts st' = mt_parts st \<Longrightarrow>
     message_store_ok sha st' = message_store_ok sha st"
  by (simp add: message_store_ok_def)

text \<open>The update of one parent after its parts changed.\<close>

lemma store_ok_recomputed:
  assumes "distinct (map ms_id ms)" and "parts_ok rows" and "owner_of ` set rows \<subseteq> message_owner ` set ms"
    and "distinct (map group_id (filter (\<lambda>m. ms_telegram_grouped_id m \<noteq> None) ms))"
    and "\<And>x. x \<in> set ms \<Longrightarrow> as_uuid (ms_source_channel_id x) = Inr (ms_source_channel_id x)"
    and "\<And>x. x \<in> set ms \<Longrightarrow> ms_id x \<noteq> mid \<Longrightarrow> follows_parts sha rows x"
    and "\<And>x. x \<in> set ms \<Longrightarrow> ms_id x = mid \<Longrightarrow>
      \<exists>c. as_uuid c = Inr (ms_source_channel_id x) \<and> recompute c (ms_telegram_grouped_id x) mid rows = Inr n"
    and "mt_parts st = rows" and "mt_messages st = update_where (\<lambda>m. ms_id m = mid) (snapshot_columns sha n now) ms"
  shows "message_store_ok sha st"
proof -
  have e: "map ms_id (mt_messages st) = map ms_id ms" "map message_owner (mt_messages st) = map message_owner ms"
    unfolding assms(9) by (simp_all add: map_update_where message_owner_def)
  have g: "map group_id (filter (\<lambda>m. ms_telegram_grouped_id m \<noteq> None) (mt_messages st))
      = map group_id (filter (\<lambda>m. ms_telegram_grouped_id m \<noteq> None) ms)"
    unfolding assms(9) by (induction ms) (auto simp: update_where_def group_id_def)
  have f: "as_uuid (ms_source_channel_id m) = Inr (ms_source_channel_id m) \<and> follows_parts sha rows m"
    if "m \<in> set (mt_messages st)" for m
  proof -
    from that obtain x where x: "x \<in> set ms"
        "m = (if ms_id x = mid then snapshot_columns sha n now x else x)"
      unfolding assms(9) update_where_def by auto
    show ?thesis
    proof (cases "ms_id x = mid")
      case True
      from assms(7) [OF x(1) True] obtain c where "as_uuid c = Inr (ms_source_channel_id x)"
          "recompute c (ms_telegram_grouped_id x) (ms_id x) rows = Inr n" using True by blast
      from follows_updated [OF this] x True assms(5) [OF x(1)] show ?thesis by simp
    next
      case False
      with x assms(5,6) show ?thesis by simp
    qed
  qed
  have "message_owner ` set (mt_messages st) = message_owner ` set ms"
    using arg_cong [OF e(2), of set] by simp
  then show ?thesis
    unfolding message_store_ok_def e(1) g assms(8) using assms(1-4) f by (intro conjI ballI) simp_all
qed

lemma upsert_messageE:
  assumes "upsert_message sha fresh now n st = Inr st'"
  obtains channel mid st1 rows r where "as_uuid (nm_source_channel_id n) = Inr channel"
    "upsert_parent sha fresh now channel n st = Inr (mid, st1)"
    "upsert_parts fresh now mid channel (nm_parts n) (mt_parts st1) = Inr rows"
    "recompute (nm_source_channel_id n) (nm_telegram_grouped_id n) mid rows = Inr r"
    "synchronize_archive_assets fresh now mid r (update_parent sha mid r now (st1\<lparr>mt_parts := rows\<rparr>)) = Inr st'"
    "validate_component_ownership mid channel (nm_telegram_message_ids n) rows = Inr ()"
proof -
  from assms obtain channel parent where c: "as_uuid (nm_source_channel_id n) = Inr channel"
    and u: "upsert_parent sha fresh now channel n st = Inr parent"
    and b: "(case parent of (mid, st1) \<Rightarrow>
      try_bind (upsert_parts fresh now mid channel (nm_parts n) (mt_parts st1)) (\<lambda>rows.
      try_bind (validate_component_ownership mid channel (nm_telegram_message_ids n) rows) (\<lambda>_.
      try_bind (recompute (nm_source_channel_id n) (nm_telegram_grouped_id n) mid rows) (\<lambda>r.
        synchronize_archive_assets fresh now mid r
          (update_parent sha mid r now (st1\<lparr>mt_parts := rows\<rparr>)))))) = Inr st'"
    unfolding upsert_message_def by (elim try_bindE) (rule that)
  obtain mid st1 where parent: "parent = (mid, st1)" by (cases parent)
  from b [unfolded parent prod.case] show ?thesis
    by (elim try_bindE) (rule that [OF c u [unfolded parent]], simp_all)
qed

lemma upsert_parentE:
  assumes "upsert_parent sha fresh now channel n st = Inr (mid, st1)"
  obtains m where "find (parent_matches channel n) (mt_messages st) = Some m" "mid = ms_id m" "st1 = st"
    | "find (parent_matches channel n) (mt_messages st) = None" "mid = fi_parent fresh"
      "mid \<notin> ms_id ` set (mt_messages st)"
      "st1 = st\<lparr>mt_messages := mt_messages st @ [new_parent sha mid channel n now]\<rparr>"
  using assms by (auto simp: upsert_parent_def split: if_splits option.splits)

lemma upsert_parent_rest:
  assumes "upsert_parent sha fresh now channel n st = Inr (mid, st1)"
  shows "mt_parts st1 = mt_parts st" and "assets_awake st1 = assets_awake st"
  using assms by (auto elim!: upsert_parentE)

lemma upsert_message_ok:
  assumes "message_store_ok sha st" and "upsert_message sha fresh now n st = Inr st'"
  shows "message_store_ok sha st'"
  using assms(2)
proof (rule upsert_messageE)
  fix channel mid st1 rows r
  assume c: "as_uuid (nm_source_channel_id n) = Inr channel"
    and u: "upsert_parent sha fresh now channel n st = Inr (mid, st1)"
    and p: "upsert_parts fresh now mid channel (nm_parts n) (mt_parts st1) = Inr rows"
    and r: "recompute (nm_source_channel_id n) (nm_telegram_grouped_id n) mid rows = Inr r"
    and s: "synchronize_archive_assets fresh now mid r (update_parent sha mid r now (st1\<lparr>mt_parts := rows\<rparr>)) = Inr st'"
  note cases = upsert_parentE [OF u]
  have parts: "mt_parts st1 = mt_parts st" by (cases rule: cases) simp_all
  have ok: "parts_ok (mt_parts st1)" using assms(1) parts by (simp add: message_store_ok_def)
  note k = upsert_parts_keeps [OF p ok]
  have match: "\<exists>x \<in> set (mt_messages st1). ms_id x = mid \<and> ms_source_channel_id x = channel
      \<and> ms_telegram_grouped_id x = nm_telegram_grouped_id n"
  proof (cases rule: cases)
    case (1 m)
    then have "m \<in> set (mt_messages st)" "parent_matches channel n m" by (auto simp: find_Some_iff)
    with 1 show ?thesis by (auto simp: parent_matches_def split: option.splits)
  next
    case 2
    then show ?thesis by simp
  qed
  have ids: "distinct (map ms_id (mt_messages st1))"
    using assms(1) by (cases rule: cases) (simp_all add: message_store_ok_def)
  have chan: "as_uuid (ms_source_channel_id x) = Inr (ms_source_channel_id x)" if "x \<in> set (mt_messages st1)" for x
    using that assms(1) as_uuid_canonical [OF c] by (cases rule: cases) (auto simp: message_store_ok_def)
  have own: "owner_of ` set rows \<subseteq> message_owner ` set (mt_messages st1)"
  proof -
    have "owner_of ` set (mt_parts st) \<subseteq> message_owner ` set (mt_messages st1)"
      using assms(1) by (cases rule: cases) (auto simp: message_store_ok_def)
    moreover have "(mid, channel) \<in> message_owner ` set (mt_messages st1)"
      using match by (force simp: message_owner_def)
    ultimately show ?thesis
      using conjunct2 [OF conjunct2 [OF k], unfolded parts] by (meson insert_subset order_trans)
  qed
  have grp: "distinct (map group_id (filter (\<lambda>m. ms_telegram_grouped_id m \<noteq> None) (mt_messages st1)))"
  proof (cases rule: cases)
    case (1 m)
    with assms(1) show ?thesis by (simp add: message_store_ok_def)
  next
    case 2
    have "group_id (new_parent sha mid channel n now) \<notin> group_id ` set (filter (\<lambda>m. ms_telegram_grouped_id m \<noteq> None) (mt_messages st))"
      if "nm_telegram_grouped_id n \<noteq> None"
      using 2(1) that by (auto simp: find_None_iff parent_matches_def group_id_def split: option.splits)
    with 2 assms(1) show ?thesis by (auto simp: message_store_ok_def)
  qed
  have other: "follows_parts sha rows x" if "x \<in> set (mt_messages st1)" "ms_id x \<noteq> mid" for x
  proof -
    have "x \<in> set (mt_messages st)" using that by (cases rule: cases) auto
    then have "follows_parts sha (mt_parts st) x" using assms(1) by (simp add: message_store_ok_def)
    then show ?thesis
      by (simp only: follows_other [OF conjunct1 [OF conjunct2 [OF k], unfolded parts] that(2)])
  qed
  have this_: "\<exists>c. as_uuid c = Inr (ms_source_channel_id x) \<and> recompute c (ms_telegram_grouped_id x) mid rows = Inr r"
    if "x \<in> set (mt_messages st1)" "ms_id x = mid" for x
  proof -
    from match obtain y where y: "y \<in> set (mt_messages st1)" "ms_id y = mid" "ms_source_channel_id y = channel"
      "ms_telegram_grouped_id y = nm_telegram_grouped_id n" by blast
    from distinct_key_eq [OF ids that(1) y(1)] that(2) y(2) have "x = y" by simp
    show ?thesis unfolding \<open>x = y\<close> y(3,4) by (intro exI conjI) (rule c r)+
  qed
  have "message_store_ok sha (update_parent sha mid r now (st1\<lparr>mt_parts := rows\<rparr>))"
    by (rule store_ok_recomputed [OF ids conjunct1 [OF k] own grp chan other this_])
      (simp_all add: update_parent_def)
  with store_ok_assets [OF synchronize_keeps(1,2) [OF s]] show ?thesis by simp
qed

text \<open>An update of columns that do not follow the parts.\<close>

lemma store_ok_flagged:
  assumes "message_store_ok sha st" and "mt_parts st' = mt_parts st"
    and "mt_messages st' = update_where P f (mt_messages st)"
    and "\<And>m. message_owner (f m) = message_owner m" and "\<And>m. group_id (f m) = group_id m"
    and "\<And>m n. snapshot_columns sha n (ms_updated_at (f m)) (f m) = f (snapshot_columns sha n (ms_updated_at m) m)"
  shows "message_store_ok sha st'"
proof -
  have i: "ms_id (f m) = ms_id m" "ms_source_channel_id (f m) = ms_source_channel_id m"
      "ms_telegram_grouped_id (f m) = ms_telegram_grouped_id m" for m
    using assms(4,5) [of m] by (simp_all add: message_owner_def group_id_def)
  have e: "map ms_id (mt_messages st') = map ms_id (mt_messages st)"
      "map message_owner (mt_messages st') = map message_owner (mt_messages st)"
    unfolding assms(3) by (simp_all add: map_update_where i message_owner_def)
  have g: "map group_id (filter (\<lambda>m. ms_telegram_grouped_id m \<noteq> None) ms')
      = map group_id (filter (\<lambda>m. ms_telegram_grouped_id m \<noteq> None) ms)"
    if "ms' = update_where P f ms" for ms' ms
    unfolding that by (induction ms) (auto simp: update_where_def i assms(5))
  have f: "follows_parts sha rows (f m)" if "follows_parts sha rows m" for rows m
    using that by (simp add: follows_parts_def i assms(6) split: sum.splits)
  have each: "as_uuid (ms_source_channel_id m) = Inr (ms_source_channel_id m) \<and> follows_parts sha (mt_parts st) m"
    if "m \<in> set (mt_messages st')" for m
  proof -
    from that obtain x where x: "x \<in> set (mt_messages st)" "m = (if P x then f x else x)"
      unfolding assms(3) update_where_def by auto
    from x(1) assms(1) have "as_uuid (ms_source_channel_id x) = Inr (ms_source_channel_id x) \<and> follows_parts sha (mt_parts st) x"
      by (simp add: message_store_ok_def)
    with x(2) f i(2) show ?thesis by simp
  qed
  have "message_owner ` set (mt_messages st') = message_owner ` set (mt_messages st)"
    using arg_cong [OF e(2), of set] by simp
  with assms(1) each show ?thesis
    unfolding message_store_ok_def e(1) g [OF assms(3)] assms(2) by (intro conjI ballI) simp_all
qed

lemma mark_changed_ok: "message_store_ok sha st \<Longrightarrow> message_store_ok sha (mark_changed mid st)"
  by (rule store_ok_flagged [where P = "\<lambda>m. ms_id m = mid \<and> ms_processing_status m = ''processed''"
        and f = "\<lambda>m. m\<lparr>ms_source_changed_after_processing := True\<rparr>"])
    (simp_all add: mark_changed_def message_owner_def group_id_def snapshot_columns_def)

lemma delete_message_ok:
  "message_store_ok sha st \<Longrightarrow> message_store_ok sha (st\<lparr>mt_messages :=
     update_where (\<lambda>m. ms_id m = mid) (delete_message now deleted) (mt_messages st)\<rparr>)"
  by (rule store_ok_flagged [where P = "\<lambda>m. ms_id m = mid" and f = "delete_message now deleted"])
    (simp_all add: delete_message_def message_owner_def group_id_def snapshot_columns_def)

lemma locked_component_Some:
  assumes "locked_component channel i st = Some (part, m)"
  shows "part \<in> set (mt_parts st)" and "part_key part = (channel, i)" and "m \<in> set (mt_messages st)"
    and "ms_id m = mp_message_id part" and "ms_source_channel_id m = channel"
  using assms by (auto simp: locked_component_def find_Some_iff split: option.splits)

lemma store_editE:
  assumes "store_edit sha fresh now c i body metadata media edited st = Inr (changed, st')"
  obtains "st' = st" "\<not> changed"
  | channel part parent r where "changed" "as_uuid c = Inr channel" "locked_component channel i st = Some (part, parent)"
      "case mp_edited_at part of None \<Rightarrow> True | Some stored \<Rightarrow> stored < edited" "mp_published_at part \<le> edited"
      "recompute c (ms_telegram_grouped_id parent) (ms_id parent)
         (update_where (\<lambda>r. mp_id r = mp_id part) (edit_part body metadata media edited now) (mt_parts st)) = Inr r"
      "synchronize_archive_assets fresh now (ms_id parent) r (mark_changed (ms_id parent)
         (update_parent sha (ms_id parent) r now (st\<lparr>mt_parts :=
           update_where (\<lambda>r. mp_id r = mp_id part) (edit_part body metadata media edited now) (mt_parts st)\<rparr>))) = Inr st'"
proof -
  from assms obtain channel where c: "as_uuid c = Inr channel" unfolding store_edit_def by (rule try_bindE)
  note e = assms [unfolded store_edit_def c try_bind_simps Let_def]
  show ?thesis
  proof (cases "locked_component channel i st")
    case None
    with e that(1) show ?thesis by (simp split: if_splits)
  next
    case (Some pair)
    obtain part parent where pair: "pair = (part, parent)" by (cases pair)
    let ?rows = "update_where (\<lambda>r. mp_id r = mp_id part) (edit_part body metadata media edited now) (mt_parts st)"
    show ?thesis
    proof (cases "(case mp_edited_at part of None \<Rightarrow> False | Some stored \<Rightarrow> edited \<le> stored)")
      case True
      with e Some pair that(1) show ?thesis by (simp split: if_splits)
    next
      case False
      with e Some pair have i: "mp_published_at part \<le> edited"
        and b: "try_bind (recompute c (ms_telegram_grouped_id parent) (ms_id parent) ?rows) (\<lambda>r.
          try_bind (synchronize_archive_assets fresh now (ms_id parent) r (mark_changed (ms_id parent)
            (update_parent sha (ms_id parent) r now (st\<lparr>mt_parts := ?rows\<rparr>)))) (\<lambda>st1. Inr (True, st1))) = Inr (changed, st')"
        by (simp_all split: if_splits)
      from False have n: "case mp_edited_at part of None \<Rightarrow> True | Some stored \<Rightarrow> stored < edited"
        by (simp split: option.splits)
      from b obtain r where r: "recompute c (ms_telegram_grouped_id parent) (ms_id parent) ?rows = Inr r"
        and b2: "try_bind (synchronize_archive_assets fresh now (ms_id parent) r (mark_changed (ms_id parent)
            (update_parent sha (ms_id parent) r now (st\<lparr>mt_parts := ?rows\<rparr>)))) (\<lambda>st1. Inr (True, st1)) = Inr (changed, st')"
        by (rule try_bindE)
      from b2 have t: "changed" "synchronize_archive_assets fresh now (ms_id parent) r (mark_changed (ms_id parent)
            (update_parent sha (ms_id parent) r now (st\<lparr>mt_parts := ?rows\<rparr>))) = Inr st'"
        by (auto elim: try_bindE)
      show ?thesis by (rule that(2) [OF t(1) c Some [unfolded pair] n i r t(2)])
    qed
  qed
qed

lemma store_edit_ok:
  assumes "message_store_ok sha st" and "store_edit sha fresh now c i body metadata media edited st = Inr (changed, st')"
  shows "message_store_ok sha st'"
  using assms(2)
proof (cases rule: store_editE)
  case 1
  with assms(1) show ?thesis by simp
next
  case (2 channel part parent r)
  let ?edit = "edit_part body metadata media edited now"
  let ?rows = "update_where (\<lambda>r. mp_id r = mp_id part) ?edit (mt_parts st)"
  note part = locked_component_Some [OF 2(3)]
  have ok: "distinct (map ms_id (mt_messages st))" "parts_ok (mt_parts st)"
      "owner_of ` set (mt_parts st) \<subseteq> message_owner ` set (mt_messages st)"
      "distinct (map group_id (filter (\<lambda>m. ms_telegram_grouped_id m \<noteq> None) (mt_messages st)))"
    using assms(1) by (simp_all add: message_store_ok_def)
  have each: "as_uuid (ms_source_channel_id m) = Inr (ms_source_channel_id m)" "follows_parts sha (mt_parts st) m"
    if "m \<in> set (mt_messages st)" for m
    using that assms(1) by (simp_all add: message_store_ok_def)
  have same: "map mp_id ?rows = map mp_id (mt_parts st)" "map part_key ?rows = map part_key (mt_parts st)"
      "map owner_of ?rows = map owner_of (mt_parts st)"
    by (simp_all add: map_update_where)
  have "mp_message_id x = ms_id parent" if "x \<in> set (mt_parts st)" "mp_id x = mp_id part" for x
    using distinct_key_eq [of mp_id "mt_parts st" x part] that part ok(2) by (simp add: parts_ok_def)
  then have o: "other_parts (ms_id parent) ?rows = other_parts (ms_id parent) (mt_parts st)"
    by (intro other_parts_update) simp_all
  have parts: "parts_ok ?rows" using ok(2) by (simp add: parts_ok_def same)
  have own: "owner_of ` set ?rows \<subseteq> message_owner ` set (mt_messages st)"
    using ok(3) arg_cong [OF same(3), of set] by simp
  have other: "follows_parts sha ?rows x" if "x \<in> set (mt_messages st)" "ms_id x \<noteq> ms_id parent" for x
    by (simp only: follows_other [OF o that(2)] each(2) [OF that(1)])
  have the: "\<exists>c. as_uuid c = Inr (ms_source_channel_id x) \<and> recompute c (ms_telegram_grouped_id x) (ms_id parent) ?rows = Inr r"
    if "x \<in> set (mt_messages st)" "ms_id x = ms_id parent" for x
  proof -
    have "x = parent" by (rule distinct_key_eq [OF ok(1) that(1) part(3) that(2)])
    show ?thesis unfolding \<open>x = parent\<close> part(5) by (intro exI conjI) (rule 2(2) 2(6))+
  qed
  have "message_store_ok sha (update_parent sha (ms_id parent) r now (st\<lparr>mt_parts := ?rows\<rparr>))"
    by (rule store_ok_recomputed [OF ok(1) parts own ok(4) each(1) other the]) (simp_all add: update_parent_def)
  then have "message_store_ok sha (mark_changed (ms_id parent)
      (update_parent sha (ms_id parent) r now (st\<lparr>mt_parts := ?rows\<rparr>)))" by (rule mark_changed_ok)
  with store_ok_assets [OF synchronize_keeps(1,2) [OF 2(7)]] show ?thesis by simp
qed

lemma store_deletionE:
  assumes "store_deletion now c i deleted st = Inr (changed, st')"
  obtains "st' = st" "\<not> changed"
  | channel part parent where "changed" "as_uuid c = Inr channel" "locked_component channel i st = Some (part, parent)"
      "ms_source_deleted_at parent = None"
      "st' = st\<lparr>mt_messages := update_where (\<lambda>m. ms_id m = ms_id parent) (delete_message now deleted) (mt_messages st)\<rparr>"
proof -
  from assms obtain channel where c: "as_uuid c = Inr channel" unfolding store_deletion_def by (rule try_bindE)
  note e = assms [unfolded store_deletion_def c try_bind_simps Let_def]
  show ?thesis
  proof (cases "locked_component channel i st")
    case None
    with e that(1) show ?thesis by (simp split: if_splits)
  next
    case (Some pair)
    obtain part parent where pair: "pair = (part, parent)" by (cases pair)
    show ?thesis
    proof (cases "ms_source_deleted_at parent")
      case None
      from e Some pair None c Some that(2) [of channel part parent] show ?thesis by (simp split: if_splits)
    next
      case (Some d)
      with e \<open>locked_component channel i st = Some pair\<close> pair that(1) show ?thesis by (simp split: if_splits)
    qed
  qed
qed

lemma store_deletion_ok:
  assumes "message_store_ok sha st" and "store_deletion now c i deleted st = Inr (changed, st')"
  shows "message_store_ok sha st'"
  using assms(2)
proof (cases rule: store_deletionE)
  case 1
  with assms(1) show ?thesis by simp
next
  case (2 channel part parent)
  show ?thesis unfolding 2(5) by (rule delete_message_ok [OF assms(1)])
qed

section \<open>Edits only move forward\<close>

definition edit_order :: "int option \<Rightarrow> int option \<Rightarrow> bool" where
  "edit_order a b = (case a of None \<Rightarrow> True | Some x \<Rightarrow> (case b of None \<Rightarrow> False | Some y \<Rightarrow> x \<le> y))"

definition part_follows :: "message_part_row \<Rightarrow> message_part_row \<Rightarrow> bool" where
  "part_follows r r' \<longleftrightarrow> mp_id r' = mp_id r \<and> owner_of r' = owner_of r \<and> part_key r' = part_key r
     \<and> mp_published_at r' \<le> mp_published_at r \<and> edit_order (mp_edited_at r) (mp_edited_at r')"

definition parts_follow :: "message_part_row list \<Rightarrow> message_part_row list \<Rightarrow> bool" where
  "parts_follow rows rows' \<longleftrightarrow> (\<forall>r \<in> set rows. \<exists>r' \<in> set rows'. part_follows r r')"

lemma part_follows_refl [simp]: "part_follows r r"
  by (simp add: part_follows_def edit_order_def split: option.split)

lemma part_follows_trans: "part_follows a b \<Longrightarrow> part_follows b c \<Longrightarrow> part_follows a c"
  by (auto simp: part_follows_def edit_order_def split: option.splits)

lemma parts_follow_more: "set rows \<subseteq> set rows' \<Longrightarrow> parts_follow rows rows'"
  unfolding parts_follow_def by (meson part_follows_refl subsetD)

lemma parts_follow_refl [simp]: "parts_follow rows rows"
  by (simp add: parts_follow_more)

lemma parts_follow_trans: "parts_follow a b \<Longrightarrow> parts_follow b c \<Longrightarrow> parts_follow a c"
  unfolding parts_follow_def by (meson part_follows_trans)

lemma parts_follow_update:
  assumes "\<And>r. r \<in> set rows \<Longrightarrow> P r \<Longrightarrow> part_follows r (f r)"
  shows "parts_follow rows (update_where P f rows)"
  unfolding parts_follow_def
proof
  fix r assume r: "r \<in> set rows"
  then have "(if P r then f r else r) \<in> set (update_where P f rows)" by (simp add: update_where_def)
  moreover have "part_follows r (if P r then f r else r)" using assms [OF r] by simp
  ultimately show "\<exists>r' \<in> set (update_where P f rows). part_follows r r'" by (rule bexI [rotated])
qed

lemma merge_part_follows: "not_stale r p \<Longrightarrow> part_follows r (merge_part now p r)"
  by (auto simp: part_follows_def not_stale_def edit_order_def merge_part_def owner_of_def part_key_def split: option.splits)

lemma edit_part_follows:
  "(case mp_edited_at r of None \<Rightarrow> True | Some stored \<Rightarrow> stored < edited) \<Longrightarrow>
     part_follows r (edit_part body metadata media edited now r)"
  by (auto simp: part_follows_def edit_order_def edit_part_def owner_of_def part_key_def split: option.splits)

lemma upsert_part_follow:
  assumes "upsert_part fresh now mid channel p rows = Inr rows'" and "distinct (map part_key rows)"
  shows "parts_follow rows rows'"
proof (cases "find (\<lambda>r. part_key r = (channel, tp_telegram_message_id p)) rows")
  case None
  with assms(1) have "rows' = rows @ [new_part_row fresh now mid channel p]"
    by (simp add: upsert_part_def split: if_splits)
  then show ?thesis by (auto intro: parts_follow_more)
next
  case (Some r)
  then have r: "r \<in> set rows" by (auto dest: find_key_Some)
  show ?thesis
  proof (cases "mp_message_id r = mid \<and> not_stale r p")
    case False
    with Some assms have "rows' = rows" by (auto simp: upsert_part_def split: if_splits)
    then show ?thesis by simp
  next
    case True
    with Some assms(1) have rows': "rows' = update_where (\<lambda>x. part_key x = part_key r) (merge_part now p) rows"
      by (simp add: upsert_part_def)
    show ?thesis unfolding rows'
    proof (rule parts_follow_update)
      fix x assume "x \<in> set rows" "part_key x = part_key r"
      then have "x = r" using distinct_key_eq [OF assms(2)] r by metis
      with True show "part_follows x (merge_part now p x)" by (simp add: merge_part_follows)
    qed
  qed
qed

lemma upsert_parts_follow:
  "upsert_parts fresh now mid channel ps rows = Inr rows' \<Longrightarrow> parts_ok rows \<Longrightarrow> parts_follow rows rows'"
proof (induction ps arbitrary: rows)
  case (Cons p ps)
  then obtain r1 where r1: "upsert_part fresh now mid channel p rows = Inr r1"
      "upsert_parts fresh now mid channel ps r1 = Inr rows'" by (auto elim: try_bindE)
  have "parts_follow rows r1" using Cons.prems(2) by (intro upsert_part_follow [OF r1(1)]) (simp add: parts_ok_def)
  with Cons.IH [OF r1(2) upsert_part_keeps(1) [OF r1(1) Cons.prems(2)]] show ?case by (rule parts_follow_trans [rotated])
qed simp

section \<open>Steps of the message store\<close>

inductive message_step :: "(string \<Rightarrow> string) \<Rightarrow> message_store \<Rightarrow> message_store \<Rightarrow> bool" for sha where
  ingestion: "ingest_messages sha fresh now ms st = (r, st') \<Longrightarrow> message_step sha st st'"
| edit: "record_edit sha fresh now channel i body metadata media edited st = Inr (changed, st') \<Longrightarrow> message_step sha st st'"
| deletion: "record_deletion now channel i deleted st = Inr (changed, st') \<Longrightarrow> message_step sha st st'"

definition empty_store :: "uuid list \<Rightarrow> message_store" where
  "empty_store cs =
     \<lparr>mt_channels = cs, mt_messages = [], mt_parts = [], mt_images = [], mt_videos = [], mt_wakeups = []\<rparr>"

inductive message_reachable :: "(string \<Rightarrow> string) \<Rightarrow> message_store \<Rightarrow> bool" for sha where
  start: "message_reachable sha (empty_store cs)"
| step: "message_reachable sha st \<Longrightarrow> message_step sha st st' \<Longrightarrow> message_reachable sha st'"

definition step_sound :: "(string \<Rightarrow> string) \<Rightarrow> message_store \<Rightarrow> message_store \<Rightarrow> bool" where
  "step_sound sha st st' \<longleftrightarrow> message_store_ok sha st' \<and> (assets_awake st \<longrightarrow> assets_awake st')
     \<and> parts_follow (mt_parts st) (mt_parts st')"

lemma step_sound_trans: "step_sound sha a b \<Longrightarrow> step_sound sha b c \<Longrightarrow> step_sound sha a c"
  unfolding step_sound_def using parts_follow_trans by blast

lemma upsert_message_sound:
  assumes "message_store_ok sha st" and "upsert_message sha fresh now n st = Inr st'"
  shows "step_sound sha st st'"
  using assms(2)
proof (rule upsert_messageE)
  fix channel mid st1 rows r
  assume u: "upsert_parent sha fresh now channel n st = Inr (mid, st1)"
    and p: "upsert_parts fresh now mid channel (nm_parts n) (mt_parts st1) = Inr rows"
    and s: "synchronize_archive_assets fresh now mid r (update_parent sha mid r now (st1\<lparr>mt_parts := rows\<rparr>)) = Inr st'"
  note rest = upsert_parent_rest [OF u]
  have "parts_ok (mt_parts st)" using assms(1) by (simp add: message_store_ok_def)
  with p have "parts_follow (mt_parts st) rows" by (simp only: rest upsert_parts_follow)
  moreover have "mt_parts st' = rows" using synchronize_keeps(2) [OF s] by (simp add: update_parent_def)
  moreover have "assets_awake st \<Longrightarrow> assets_awake st'" using synchronize_awake [OF s] by (simp add: rest)
  ultimately show ?thesis using upsert_message_ok [OF assms] by (simp add: step_sound_def)
qed

lemma upsert_all_sound:
  "upsert_all sha fresh now k ns st = (r, st') \<Longrightarrow> message_store_ok sha st \<Longrightarrow> step_sound sha st st'"
proof (induction ns arbitrary: k st)
  case Nil
  then show ?case by (simp add: step_sound_def)
next
  case (Cons n ns)
  show ?case
  proof (cases "upsert_message sha (fresh k) now n st")
    case (Inl e)
    with Cons.prems show ?thesis by (simp add: step_sound_def)
  next
    case (Inr st1)
    note s = upsert_message_sound [OF Cons.prems(2) Inr]
    from s have ok: "message_store_ok sha st1" by (simp add: step_sound_def)
    from Inr Cons.prems(1) have "upsert_all sha fresh now (Suc k) ns st1 = (r, st')" by simp
    from step_sound_trans [OF s Cons.IH [OF this ok]] show ?thesis .
  qed
qed

lemma store_edit_sound:
  assumes "message_store_ok sha st" and "store_edit sha fresh now c i body metadata media edited st = Inr (changed, st')"
  shows "step_sound sha st st'"
  using assms(2)
proof (cases rule: store_editE)
  case 1
  with assms(1) show ?thesis by (simp add: step_sound_def)
next
  case (2 channel part parent r)
  have key: "distinct (map mp_id (mt_parts st))" using assms(1) by (simp add: message_store_ok_def parts_ok_def)
  have "mt_parts st' = update_where (\<lambda>r. mp_id r = mp_id part) (edit_part body metadata media edited now) (mt_parts st)"
    using synchronize_keeps(2) [OF 2(7)] by (simp add: update_parent_def mark_changed_def)
  moreover have "parts_follow (mt_parts st) \<dots>"
  proof (rule parts_follow_update)
    fix x assume "x \<in> set (mt_parts st)" "mp_id x = mp_id part"
    from distinct_key_eq [OF key this(1) locked_component_Some(1) [OF 2(3)] this(2)]
    show "part_follows x (edit_part body metadata media edited now x)" using edit_part_follows [OF 2(4)] by simp
  qed
  moreover have "assets_awake st \<Longrightarrow> assets_awake st'" using synchronize_awake [OF 2(7)] by simp
  ultimately show ?thesis using store_edit_ok [OF assms] by (simp add: step_sound_def)
qed

lemma store_deletion_sound:
  assumes "message_store_ok sha st" and "store_deletion now c i deleted st = Inr (changed, st')"
  shows "step_sound sha st st'"
proof -
  from assms(2) have "mt_parts st' = mt_parts st \<and> assets_awake st' = assets_awake st"
    by (cases rule: store_deletionE) simp_all
  with store_deletion_ok [OF assms] show ?thesis by (simp add: step_sound_def)
qed

lemma message_step_sound:
  assumes "message_step sha st st'" and "message_store_ok sha st"
  shows "step_sound sha st st'"
  using assms(1)
proof cases
  case (ingestion fresh now ms r)
  show ?thesis
  proof (cases "normalize_telegram_messages ms")
    case (Inl e)
    with ingestion assms(2) show ?thesis by (simp add: ingest_messages_def step_sound_def)
  next
    case (Inr ns)
    obtain q st1 where q: "upsert_all sha fresh now 0 ns st = (q, st1)" by fastforce
    with ingestion Inr have "st1 = st'" by (auto simp: ingest_messages_def split: sum.splits)
    with upsert_all_sound [OF q assms(2)] show ?thesis by simp
  qed
next
  case (edit fresh now channel i body metadata media edited changed)
  then obtain e where "store_edit sha fresh now channel i body metadata media e st = Inr (changed, st')"
    unfolding record_edit_def by (elim try_bindE) (rule that)
  then show ?thesis by (rule store_edit_sound [OF assms(2)])
next
  case (deletion now channel i deleted changed)
  then obtain d where "store_deletion now channel i d st = Inr (changed, st')"
    unfolding record_deletion_def by (elim try_bindE) (rule that)
  then show ?thesis by (rule store_deletion_sound [OF assms(2)])
qed

lemma reachable_ok: "message_reachable sha st \<Longrightarrow> message_store_ok sha st \<and> assets_awake st"
proof (induction rule: message_reachable.induct)
  case (start cs)
  show ?case by (simp add: empty_store_def message_store_ok_def parts_ok_def assets_awake_def)
next
  case (step st st')
  with message_step_sound [OF step.hyps(2)] show ?case by (simp add: step_sound_def)
qed

section \<open>Properties\<close>

definition sample_ids :: "nat \<Rightarrow> fresh_ids" where
  "sample_ids k = \<lparr>fi_parent = digits_text 3 k, fi_part = (\<lambda>i. digits_text 3 (nat i)), fi_asset = (\<lambda>i. i),
     fi_wakeup = (\<lambda>i. i)\<rparr>"

definition sample_photo :: telegram_message where
  "sample_photo = (sample_component 5 None)\<lparr>tm_media := [sample_asset\<lparr>md_source_telegram_message_id := Some 5\<rparr>]\<rparr>"

definition sample_channel :: uuid where
  "sample_channel = tm_source_channel_id sample_photo"

definition sample_store :: message_store where
  "sample_store = snd (ingest_messages (\<lambda>t. []) sample_ids 9 [sample_photo] (empty_store [sample_channel]))"

lemma sample_store_reachable: "message_reachable (\<lambda>t. []) sample_store"
  unfolding sample_store_def by (rule step [OF start ingestion]) (rule prod.collapse [symmetric])

lemma sample_store_filled:
  "map ms_id (mt_messages sample_store) = [''000'']
   \<and> map (\<lambda>r. (mp_id r, mp_edited_at r)) (mt_parts sample_store) = [(''005'', None)]
   \<and> map (\<lambda>r. (as_id r, as_state r = A_PENDING, as_source_telegram_message_id r)) (mt_images sample_store)
     = [(''photo'', True, Some 5)]"
  by code_simp

lemma sample_edit:
  "isl (record_edit (\<lambda>t. []) (sample_ids 7) 10 sample_channel 5 None [] [] (Aware 8) sample_store) = False"
  by code_simp

lemma map_eq_Cons_member: "map f xs = y # ys \<Longrightarrow> \<exists>x \<in> set xs. f x = y"
  by (cases xs) auto

text \<open>
  C22: Every message row is the normal form of the parts that are retained for it, whatever was
  ingested, edited and deleted before: normalising the parts succeeds, and the Telegram ids, the
  publication and edit times, the text, the media count and the fingerprint are those it yields.
\<close>

theorem message_rows_follow_parts:
  assumes "message_reachable sha st" and "m \<in> set (mt_messages st)"
  shows "\<exists>n. recompute (ms_source_channel_id m) (ms_telegram_grouped_id m) (ms_id m) (mt_parts st) = Inr n
    \<and> ms_telegram_message_ids m = nm_telegram_message_ids n
    \<and> ms_primary_telegram_message_id m = nm_primary_telegram_message_id n
    \<and> ms_published_at m = instant (nm_published_at n) \<and> ms_edited_at m = map_option instant (nm_edited_at n)
    \<and> ms_original_text m = nm_original_text n \<and> ms_telegram_metadata m = nm_telegram_metadata n
    \<and> ms_media_count m = media_count n \<and> ms_visual_fingerprint m = normalized_fingerprint sha n"
proof -
  have "follows_parts sha (mt_parts st) m"
    using reachable_ok [OF assms(1)] assms(2) by (simp add: message_store_ok_def)
  then obtain n where n: "recompute (ms_source_channel_id m) (ms_telegram_grouped_id m) (ms_id m) (mt_parts st) = Inr n"
      "m = snapshot_columns sha n (ms_updated_at m) m"
    by (auto simp: follows_parts_def split: sum.splits)
  have "ms_telegram_message_ids m = nm_telegram_message_ids n"
      "ms_primary_telegram_message_id m = nm_primary_telegram_message_id n"
      "ms_published_at m = instant (nm_published_at n)" "ms_edited_at m = map_option instant (nm_edited_at n)"
      "ms_original_text m = nm_original_text n" "ms_telegram_metadata m = nm_telegram_metadata n"
      "ms_media_count m = media_count n" "ms_visual_fingerprint m = normalized_fingerprint sha n"
    by (subst n(2), simp add: snapshot_columns_def)+
  with n(1) show ?thesis by blast
qed

theorem message_rows_follow_parts_witness:
  "\<exists>m \<in> set (mt_messages sample_store). \<exists>n.
     recompute (ms_source_channel_id m) (ms_telegram_grouped_id m) (ms_id m) (mt_parts sample_store) = Inr n
     \<and> ms_telegram_message_ids m = nm_telegram_message_ids n \<and> ms_media_count m = media_count n"
proof -
  from map_eq_Cons_member [OF conjunct1 [OF sample_store_filled]] obtain m where m: "m \<in> set (mt_messages sample_store)" by blast
  from message_rows_follow_parts [OF sample_store_reachable m] m show ?thesis by blast
qed

text \<open>
  The stored parts only move forward: across any step of the store a part keeps its identity,
  its owner and its Telegram id, its publication time never moves later, and its edit time never
  moves back, so a late or repeated update cannot overwrite a newer edit.
\<close>

theorem part_edits_move_forward:
  assumes "message_reachable sha st" and "message_step sha st st'" and "r \<in> set (mt_parts st)"
  shows "\<exists>r' \<in> set (mt_parts st'). mp_id r' = mp_id r \<and> owner_of r' = owner_of r \<and> part_key r' = part_key r
    \<and> mp_published_at r' \<le> mp_published_at r
    \<and> (case mp_edited_at r of None \<Rightarrow> True | Some x \<Rightarrow> (\<exists>y. mp_edited_at r' = Some y \<and> x \<le> y))"
proof -
  from message_step_sound [OF assms(2)] reachable_ok [OF assms(1)]
  have "parts_follow (mt_parts st) (mt_parts st')" by (simp add: step_sound_def)
  with assms(3) obtain r' where "r' \<in> set (mt_parts st')" "part_follows r r'" by (auto simp: parts_follow_def)
  then show ?thesis
    by (intro bexI [of _ r']) (auto simp: part_follows_def edit_order_def split: option.splits)
qed

theorem part_edits_move_forward_witness:
  "\<exists>st'. message_step (\<lambda>t. []) sample_store st' \<and> (\<exists>r \<in> set (mt_parts sample_store). \<exists>r' \<in> set (mt_parts st').
     mp_id r' = mp_id r \<and> mp_published_at r' \<le> mp_published_at r)"
proof -
  from sample_edit obtain changed st' where
      "record_edit (\<lambda>t. []) (sample_ids 7) 10 sample_channel 5 None [] [] (Aware 8) sample_store = Inr (changed, st')"
    by (cases "record_edit (\<lambda>t. []) (sample_ids 7) 10 sample_channel 5 None [] [] (Aware 8) sample_store") auto
  then have s: "message_step (\<lambda>t. []) sample_store st'" by (rule edit)
  from map_eq_Cons_member [OF conjunct1 [OF conjunct2 [OF sample_store_filled]]]
  obtain r where r: "r \<in> set (mt_parts sample_store)" by blast
  from part_edits_move_forward [OF sample_store_reachable s r] s r show ?thesis by blast
qed

text \<open>
  No asset is left unarchived for want of a wake-up: in every reachable store each image or
  video that is pending and knows its Telegram message has a wake-up in its archive queue.
\<close>

theorem pending_assets_have_wakeups:
  assumes "message_reachable sha st"
  shows "(\<forall>r \<in> set (mt_images st). as_state r = A_PENDING \<and> as_source_telegram_message_id r \<noteq> None \<longrightarrow>
      (\<exists>w \<in> set (mt_wakeups st). wk_queue w = image_archive_queue \<and> wk_entity_id w = as_id r))
    \<and> (\<forall>r \<in> set (mt_videos st). as_state r = A_PENDING \<and> as_source_telegram_message_id r \<noteq> None \<longrightarrow>
      (\<exists>w \<in> set (mt_wakeups st). wk_queue w = video_archive_queue \<and> wk_entity_id w = as_id r))"
  using reachable_ok [OF assms]
  by (simp add: assets_awake_def list_all_iff awake_def wakeup_keys_def image_iff eq_commute)

theorem pending_assets_have_wakeups_witness:
  "\<exists>w \<in> set (mt_wakeups sample_store). wk_queue w = image_archive_queue \<and> wk_entity_id w = ''photo''"
proof -
  from map_eq_Cons_member [OF conjunct2 [OF conjunct2 [OF sample_store_filled]]]
  obtain r where "r \<in> set (mt_images sample_store)" "as_id r = ''photo''" "as_state r = A_PENDING"
    "as_source_telegram_message_id r = Some 5" by auto
  with pending_assets_have_wakeups [OF sample_store_reachable] show ?thesis by fastforce
qed

end
