(* ===== verification/Message_Redelivery.thy ===== *)
theory Message_Redelivery
  imports Message_Invariant
begin

text \<open>
  Delivering a message again: Telegram updates and the history are read more than once, so storing
  a logical message that is already stored must not change anything.  Every table is shown to be
  settled by the first upsert, in the order in which the operation writes them.
\<close>

section \<open>The recomputed message\<close>

lemma record_part_id: "telegram_part_from_record r = Inr p \<Longrightarrow> tp_telegram_message_id p = mp_telegram_message_id r"
  by (auto simp: telegram_part_from_record_def check_message_part_def result_simps split: if_splits)

lemma record_part_ids:
  "traverse telegram_part_from_record rs = Inr ps \<Longrightarrow> map tp_telegram_message_id ps = map mp_telegram_message_id rs"
  by (induction rs arbitrary: ps) (auto simp: result_simps record_part_id)

lemma recompute_facts:
  assumes "recompute c g mid rows = Inr r"
  shows "nm_telegram_grouped_id r = g" and "check_normalized_message r = Inr r"
    and "nm_telegram_message_ids r = map mp_telegram_message_id (retained_parts mid rows)"
proof -
  from assms obtain ps where ps: "traverse telegram_part_from_record (retained_parts mid rows) = Inr ps"
    and n: "normalized_from_parts c g ps = Inr r"
    unfolding recompute_def by (rule try_bindE)
  from n obtain ms where t: "traverse (\<lambda>p. check_telegram_message (message_of_part c g p)) ps = Inr ms"
    and m: "normalize_parts c g ms = Inr r"
    unfolding normalized_from_parts_def by (rule try_bindE)
  from m obtain x rest where x: "sort_key tm_telegram_message_id ms = x # rest" "nm_telegram_grouped_id r = g"
      "check_normalized_message r = Inr r" "nm_telegram_message_ids r = map tm_telegram_message_id (x # rest)"
    by (rule normalize_partsE)
  show "nm_telegram_grouped_id r = g" "check_normalized_message r = Inr r" by (rule x)+
  have "mset (nm_telegram_message_ids r) = mset (map tm_telegram_message_id (sort_key tm_telegram_message_id ms))"
    by (simp only: x(1,4))
  also have "\<dots> = mset (map tm_telegram_message_id ms)" by simp
  also have "\<dots> = mset (map tp_telegram_message_id ps)" by (simp add: from_parts_messages [OF t] comp_def)
  also have "\<dots> = mset (map mp_telegram_message_id (retained_parts mid rows))" by (simp only: record_part_ids [OF ps])
  finally have e: "mset (nm_telegram_message_ids r) = mset (map mp_telegram_message_id (retained_parts mid rows))" .
  have "sorted (map mp_telegram_message_id (retained_parts mid rows))" by (simp add: retained_parts_def)
  moreover have "sorted (nm_telegram_message_ids r)" using normalized_distinct [OF x(3)] by simp
  ultimately show "nm_telegram_message_ids r = map mp_telegram_message_id (retained_parts mid rows)"
    using e by (metis properties_for_sort)
qed

lemma normalized_head:
  assumes "check_normalized_message n = Inr n"
  shows "nm_telegram_message_ids n \<noteq> []" and "nm_primary_telegram_message_id n = hd (nm_telegram_message_ids n)"
    and "nm_telegram_grouped_id n = None \<Longrightarrow> length (nm_telegram_message_ids n) = 1"
    and "map tp_telegram_message_id (nm_parts n) = nm_telegram_message_ids n" and "distinct (map md_asset_id (nm_media n))"
  using assms by (auto simp: check_normalized_message_def check_message_content_def result_simps split: if_splits)

section \<open>Parents are found again\<close>

lemma message_row_facts:
  assumes "message_store_ok sha st" and "m \<in> set (mt_messages st)"
  obtains n where "recompute (ms_source_channel_id m) (ms_telegram_grouped_id m) (ms_id m) (mt_parts st) = Inr n"
    "ms_primary_telegram_message_id m = nm_primary_telegram_message_id n"
proof -
  from assms have "follows_parts sha (mt_parts st) m" by (simp add: message_store_ok_def)
  then obtain n where n: "recompute (ms_source_channel_id m) (ms_telegram_grouped_id m) (ms_id m) (mt_parts st) = Inr n"
      "m = snapshot_columns sha n (ms_updated_at m) m"
    by (auto simp: follows_parts_def split: sum.splits)
  have "ms_primary_telegram_message_id m = nm_primary_telegram_message_id n"
    by (subst n(2)) (simp add: snapshot_columns_def)
  with n(1) show thesis by (rule that)
qed

lemma primary_part:
  assumes "message_store_ok sha st" and "m \<in> set (mt_messages st)"
  shows "\<exists>r \<in> set (mt_parts st). mp_message_id r = ms_id m
    \<and> part_key r = (ms_source_channel_id m, ms_primary_telegram_message_id m)"
proof -
  from assms obtain n where n: "recompute (ms_source_channel_id m) (ms_telegram_grouped_id m) (ms_id m) (mt_parts st) = Inr n"
      "ms_primary_telegram_message_id m = nm_primary_telegram_message_id n" by (rule message_row_facts)
  note f = recompute_facts [OF n(1)]
  from normalized_head(1,2) [OF f(2)] f(3) have "ms_primary_telegram_message_id m \<in>
      mp_telegram_message_id ` set (retained_parts (ms_id m) (mt_parts st))"
    by (metis hd_in_set list.set_map n(2))
  then obtain r where r: "r \<in> set (mt_parts st)" "mp_message_id r = ms_id m"
      "mp_telegram_message_id r = ms_primary_telegram_message_id m"
    by (auto simp: retained_parts_def)
  from r(1) assms(1) obtain x where x: "x \<in> set (mt_messages st)" "owner_of r = message_owner x"
    unfolding message_store_ok_def by blast
  have "x = m"
    using distinct_key_eq [of ms_id "mt_messages st" x m] assms x r(2)
    by (simp add: message_store_ok_def owner_of_def message_owner_def)
  with r x(2) show ?thesis by (auto simp: part_key_def owner_of_def message_owner_def)
qed

lemma parent_unique:
  assumes "message_store_ok sha st" and "m \<in> set (mt_messages st)" "parent_matches channel n m"
    and "x \<in> set (mt_messages st)" "parent_matches channel n x"
  shows "x = m"
proof (cases "nm_telegram_grouped_id n")
  case None
  with assms(3,5) have e: "ms_source_channel_id x = ms_source_channel_id m"
      "ms_primary_telegram_message_id x = ms_primary_telegram_message_id m"
    by (simp_all add: parent_matches_def)
  from primary_part [OF assms(1,2)] obtain r where r: "r \<in> set (mt_parts st)" "mp_message_id r = ms_id m"
      "part_key r = (ms_source_channel_id m, ms_primary_telegram_message_id m)" by blast
  from primary_part [OF assms(1,4)] obtain q where q: "q \<in> set (mt_parts st)" "mp_message_id q = ms_id x"
      "part_key q = (ms_source_channel_id x, ms_primary_telegram_message_id x)" by blast
  have "distinct (map part_key (mt_parts st))" using assms(1) by (simp add: message_store_ok_def parts_ok_def)
  from distinct_key_eq [OF this q(1) r(1)] q(3) r(3) e have "q = r" by simp
  with q(2) r(2) have "ms_id x = ms_id m" by simp
  moreover have "distinct (map ms_id (mt_messages st))" using assms(1) by (simp add: message_store_ok_def)
  ultimately show ?thesis using distinct_key_eq assms(2,4) by metis
next
  case (Some g)
  have "distinct (map group_id (filter (\<lambda>m. ms_telegram_grouped_id m \<noteq> None) (mt_messages st)))"
    using assms(1) by (simp add: message_store_ok_def)
  moreover have "x \<in> set (filter (\<lambda>m. ms_telegram_grouped_id m \<noteq> None) (mt_messages st))"
      "m \<in> set (filter (\<lambda>m. ms_telegram_grouped_id m \<noteq> None) (mt_messages st))" "group_id x = group_id m"
    using assms(2-5) Some by (simp_all add: parent_matches_def group_id_def)
  ultimately show ?thesis by (rule distinct_key_eq)
qed

lemma parent_found:
  assumes "message_store_ok sha st" and "m \<in> set (mt_messages st)" "parent_matches channel n m"
  shows "find (parent_matches channel n) (mt_messages st) = Some m"
proof (cases "find (parent_matches channel n) (mt_messages st)")
  case None
  with assms(2,3) show ?thesis by (auto simp: find_None_iff)
next
  case (Some x)
  then have "x \<in> set (mt_messages st)" "parent_matches channel n x" by (auto simp: find_Some_iff)
  from parent_unique [OF assms this] Some show ?thesis by simp
qed

section \<open>Parts are settled\<close>

definition part_settled ::
  "int \<Rightarrow> uuid \<Rightarrow> uuid \<Rightarrow> message_part_row list \<Rightarrow> telegram_message_part \<Rightarrow> bool" where
  "part_settled now mid channel rows p \<longleftrightarrow>
     (\<exists>r \<in> set rows. part_key r = (channel, tp_telegram_message_id p))
     \<and> (\<forall>r \<in> set rows. part_key r = (channel, tp_telegram_message_id p) \<and> mp_message_id r = mid \<and> not_stale r p
          \<longrightarrow> merge_part now p r = r)"

lemma part_settledI:
  assumes "r \<in> set rows" and "part_key r = (channel, tp_telegram_message_id p)"
    and "\<And>x. x \<in> set rows \<Longrightarrow> part_key x = (channel, tp_telegram_message_id p) \<Longrightarrow> merge_part now p x = x"
  shows "part_settled now mid channel rows p"
  using assms by (simp add: part_settled_def) (metis (no_types))

lemma merge_part_again [simp]:
  "merge_part now p (merge_part now p r) = merge_part now p r"
  "merge_part now p (new_part_row fresh now mid channel p) = new_part_row fresh now mid channel p"
  by (simp_all add: merge_part_def new_part_row_def)

lemma merge_part_edited: "mp_edited_at (merge_part now p r) = map_option instant (tp_edited_at p)"
  by (simp add: merge_part_def)

lemma new_part_row_sel [simp]:
  "part_key (new_part_row fresh now mid channel p) = (channel, tp_telegram_message_id p)"
  by (simp add: new_part_row_def part_key_def)

lemma update_where_same: "(\<And>r. r \<in> set rows \<Longrightarrow> P r \<Longrightarrow> f r = r) \<Longrightarrow> update_where P f rows = rows"
  by (induction rows) (auto simp: update_where_def)

lemma upsert_settled:
  assumes "part_settled now mid channel rows p" and "distinct (map part_key rows)"
  shows "upsert_part fresh now mid channel p rows = Inr rows"
proof (cases "find (\<lambda>r. part_key r = (channel, tp_telegram_message_id p)) rows")
  case None
  with assms(1) show ?thesis by (auto simp: part_settled_def find_None_iff)
next
  case (Some r)
  then have r: "r \<in> set rows" "part_key r = (channel, tp_telegram_message_id p)" by (auto simp: find_Some_iff)
  show ?thesis
  proof (cases "mp_message_id r = mid \<and> not_stale r p")
    case True
    with r assms(1) have "merge_part now p r = r" by (simp add: part_settled_def)
    moreover have "x = r" if "x \<in> set rows" "part_key x = part_key r" for x
      by (rule distinct_key_eq [OF assms(2) that(1) r(1) that(2)])
    ultimately have "update_where (\<lambda>x. part_key x = part_key r) (merge_part now p) rows = rows"
      by (intro update_where_same) metis
    with Some True show ?thesis by (simp add: upsert_part_def)
  qed (use Some in \<open>auto simp: upsert_part_def\<close>)
qed

text \<open>The rows of a successful upsert.\<close>

lemma upsert_part_shape:
  assumes "upsert_part fresh now mid channel p rows = Inr rows'" and "distinct (map part_key rows)"
  obtains "rows' = rows @ [new_part_row fresh now mid channel p]"
      "(channel, tp_telegram_message_id p) \<notin> part_key ` set rows"
  | r where "r \<in> set rows" "part_key r = (channel, tp_telegram_message_id p)" "mp_message_id r = mid \<and> not_stale r p"
      "rows' = update_where (\<lambda>x. x = r) (merge_part now p) rows"
  | r where "r \<in> set rows" "part_key r = (channel, tp_telegram_message_id p)" "\<not> (mp_message_id r = mid \<and> not_stale r p)"
      "rows' = rows"
proof (cases "find (\<lambda>r. part_key r = (channel, tp_telegram_message_id p)) rows")
  case None
  then have "(channel, tp_telegram_message_id p) \<notin> part_key ` set rows" by (auto simp: find_None_iff)
  with None assms(1) that(1) show ?thesis by (simp add: upsert_part_def split: if_splits)
next
  case (Some r)
  then have r: "r \<in> set rows" "part_key r = (channel, tp_telegram_message_id p)" by (auto simp: find_Some_iff)
  show ?thesis
  proof (cases "mp_message_id r = mid \<and> not_stale r p")
    case True
    have "update_where (\<lambda>x. part_key x = part_key r) (merge_part now p) rows = update_where (\<lambda>x. x = r) (merge_part now p) rows"
      unfolding update_where_def using distinct_key_eq [OF assms(2) _ r(1)] by (intro map_cong refl if_cong) auto
    with Some True assms(1) that(2) [OF r True] show ?thesis by (simp add: upsert_part_def)
  next
    case False
    with Some assms(1) that(3) [OF r False] show ?thesis by (auto simp: upsert_part_def split: if_splits)
  qed
qed

lemma upsert_part_settles:
  assumes "upsert_part fresh now mid channel p rows = Inr rows'" and "distinct (map part_key rows)"
  shows "part_settled now mid channel rows' p"
  using assms
proof (cases rule: upsert_part_shape)
  case 1
  then show ?thesis by (force simp: part_settled_def)
next
  case (2 r)
  have m: "merge_part now p r \<in> set rows'" unfolding 2(4) using 2(1) by (force simp: update_where_def)
  have k: "part_key (merge_part now p r) = (channel, tp_telegram_message_id p)" using 2(2) by simp
  have f: "merge_part now p x = x" if "x \<in> set rows'" "part_key x = (channel, tp_telegram_message_id p)" for x
  proof -
    from that(1) obtain y where y: "y \<in> set rows" "x = (if y = r then merge_part now p y else y)"
      unfolding 2(4) update_where_def by auto
    with that(2) have "part_key y = part_key r" by (simp add: 2(2) split: if_splits)
    from distinct_key_eq [OF assms(2) y(1) 2(1) this] y(2) show ?thesis by simp
  qed
  show ?thesis by (rule part_settledI [OF m k f])
next
  case (3 r)
  have n: "\<not> (mp_message_id x = mid \<and> not_stale x p)"
    if x: "x \<in> set rows" "part_key x = (channel, tp_telegram_message_id p)" for x
  proof -
    have "x = r" by (rule distinct_key_eq [OF assms(2) x(1) 3(1)]) (simp only: x(2) 3(2))
    with 3(3) show ?thesis by simp
  qed
  show ?thesis unfolding 3(4) part_settled_def
    by (intro conjI bexI [of _ r] ballI impI 3(1,2)) (use n in blast)
qed

lemma upsert_part_keeps_settled:
  assumes "upsert_part fresh now mid channel q rows = Inr rows'" and "distinct (map part_key rows)"
    and "part_settled now mid channel rows p" and "tp_telegram_message_id q \<noteq> tp_telegram_message_id p"
  shows "part_settled now mid channel rows' p"
  using assms(1,2)
proof (cases rule: upsert_part_shape)
  case 1
  with assms(3,4) show ?thesis by (auto simp: part_settled_def)
next
  case (2 r)
  from assms(3) obtain x where x: "x \<in> set rows" "part_key x = (channel, tp_telegram_message_id p)"
    by (auto simp: part_settled_def)
  with 2(2) assms(4) have "x \<in> set rows'" unfolding 2(4) update_where_def by (force simp: image_iff)
  moreover have "merge_part now p y = y"
    if y: "y \<in> set rows'" "part_key y = (channel, tp_telegram_message_id p)" "mp_message_id y = mid" "not_stale y p" for y
  proof -
    from y(1) obtain z where z: "z \<in> set rows" "y = (if z = r then merge_part now q z else z)"
      unfolding 2(4) update_where_def by auto
    with y(2) 2(2) assms(4) have "y = z" by (auto split: if_splits)
    with z(1) y assms(3) show ?thesis by (simp add: part_settled_def)
  qed
  ultimately show ?thesis using x(2) by (auto simp: part_settled_def)
next
  case (3 r)
  with assms(3) show ?thesis by simp
qed

lemma upsert_parts_keep_settled:
  "upsert_parts fresh now mid channel ps rows = Inr rows' \<Longrightarrow> parts_ok rows \<Longrightarrow> part_settled now mid channel rows p \<Longrightarrow>
     tp_telegram_message_id p \<notin> tp_telegram_message_id ` set ps \<Longrightarrow> part_settled now mid channel rows' p"
proof (induction ps arbitrary: rows)
  case (Cons q ps)
  from Cons.prems(1) obtain r1 where r1: "upsert_part fresh now mid channel q rows = Inr r1"
      "upsert_parts fresh now mid channel ps r1 = Inr rows'" by (auto elim: try_bindE)
  have "part_settled now mid channel r1 p"
    by (rule upsert_part_keeps_settled [OF r1(1) _ Cons.prems(3)]) (use Cons.prems(2,4) in \<open>auto simp: parts_ok_def\<close>)
  from Cons.IH [OF r1(2) upsert_part_keeps(1) [OF r1(1) Cons.prems(2)] this] Cons.prems(4) show ?case by simp
qed simp

lemma upsert_parts_settle:
  "upsert_parts fresh now mid channel ps rows = Inr rows' \<Longrightarrow> parts_ok rows \<Longrightarrow>
     distinct (map tp_telegram_message_id ps) \<Longrightarrow> p \<in> set ps \<Longrightarrow> part_settled now mid channel rows' p"
proof (induction ps arbitrary: rows)
  case (Cons q ps)
  from Cons.prems(1) obtain r1 where r1: "upsert_part fresh now mid channel q rows = Inr r1"
      "upsert_parts fresh now mid channel ps r1 = Inr rows'" by (auto elim: try_bindE)
  note ok = upsert_part_keeps(1) [OF r1(1) Cons.prems(2)]
  show ?case
  proof (cases "p = q")
    case True
    have "part_settled now mid channel r1 p" unfolding True
      by (rule upsert_part_settles [OF r1(1)]) (use Cons.prems(2) in \<open>simp add: parts_ok_def\<close>)
    from upsert_parts_keep_settled [OF r1(2) ok this] Cons.prems(3) True show ?thesis by simp
  next
    case False
    with Cons.IH [OF r1(2) ok] Cons.prems(3,4) show ?thesis by simp
  qed
qed simp

lemma settled_upserts:
  "\<forall>p \<in> set ps. part_settled now mid channel rows p \<Longrightarrow> parts_ok rows \<Longrightarrow>
     upsert_parts fresh now mid channel ps rows = Inr rows"
  by (induction ps) (simp_all add: upsert_settled parts_ok_def)

section \<open>Assets and wake-ups are settled\<close>

context asset_upsert
begin

definition asset_settled :: "'a asset_columns_scheme list \<Rightarrow> media_asset \<Rightarrow> bool" where
  "asset_settled rows a \<longleftrightarrow> bigint_option (md_source_telegram_message_id a) \<and> length (md_asset_id a) \<le> 512
     \<and> (\<exists>r \<in> set rows. asset_key r = (mid, md_asset_id a))
     \<and> (\<forall>r \<in> set rows. asset_key r = (mid, md_asset_id a) \<longrightarrow> merge a r = r)"

lemma settled_upsert: "asset_settled rows a \<Longrightarrow> upsert_asset other merge mid a rows = Inr rows"
  by (auto simp: upsert_asset_def asset_settled_def list_ex_iff update_where_same)

lemma settled_assets:
  "\<forall>a \<in> set as. asset_settled rows a \<Longrightarrow> upsert_assets other merge mid as rows = Inr rows"
  by (induction "as") (simp_all add: settled_upsert)

lemma upsert_settles:
  assumes "upsert_asset new merge mid a rows = Inr rows'"
  shows "asset_settled rows' a"
proof -
  from assms have a: "bigint_option (md_source_telegram_message_id a)" "length (md_asset_id a) \<le> 512"
    by (auto simp: upsert_asset_def split: if_splits)
  show ?thesis
  proof (cases "list_ex (\<lambda>r. asset_key r = (mid, md_asset_id a)) rows")
    case True
    then obtain r where r: "r \<in> set rows" "asset_key r = (mid, md_asset_id a)" by (auto simp: list_ex_iff)
    from True assms have rows': "rows' = update_where (\<lambda>r. asset_key r = (mid, md_asset_id a)) (merge a) rows"
      by (simp add: upsert_asset_def split: if_splits)
    from r have m: "merge a r \<in> set rows'" unfolding rows' update_where_def by force
    have k: "asset_key (merge a r) = (mid, md_asset_id a)" by (simp add: key_merge r(2))
    have f: "merge a x = x" if "x \<in> set rows'" "asset_key x = (mid, md_asset_id a)" for x
      using that unfolding rows' update_where_def by (auto simp: merge_merge)
    show ?thesis unfolding asset_settled_def
      by (intro conjI ballI impI a, rule bexI [OF _ m], rule k) (rule f)
  next
    case False
    with assms have "rows' = rows @ [new a]" by (simp add: upsert_asset_def split: if_splits)
    with False a show ?thesis by (auto simp: asset_settled_def list_ex_iff key_new merge_new)
  qed
qed

lemma upsert_keeps_settled:
  assumes "upsert_asset new merge mid b rows = Inr rows'" and "asset_settled rows a" and "md_asset_id b \<noteq> md_asset_id a"
  shows "asset_settled rows' a"
  using assms unfolding upsert_asset_def
  by (force simp: asset_settled_def update_where_def key_new key_merge split: if_splits)

lemma upserts_keep_settled:
  "upsert_assets new merge mid as rows = Inr rows' \<Longrightarrow> asset_settled rows a \<Longrightarrow>
     md_asset_id a \<notin> md_asset_id ` set as \<Longrightarrow> asset_settled rows' a"
proof (induction "as" arbitrary: rows)
  case (Cons b "as")
  from Cons.prems(1) obtain r1 where r1: "upsert_asset new merge mid b rows = Inr r1"
      "upsert_assets new merge mid as r1 = Inr rows'" by (auto elim: try_bindE)
  from Cons.IH [OF r1(2) upsert_keeps_settled [OF r1(1) Cons.prems(2)]] Cons.prems(3) show ?case by auto
qed simp

lemma upserts_settle:
  "upsert_assets new merge mid as rows = Inr rows' \<Longrightarrow> distinct (map md_asset_id as) \<Longrightarrow> a \<in> set as \<Longrightarrow>
     asset_settled rows' a"
proof (induction "as" arbitrary: rows)
  case (Cons b "as")
  from Cons.prems(1) obtain r1 where r1: "upsert_asset new merge mid b rows = Inr r1"
      "upsert_assets new merge mid as r1 = Inr rows'" by (auto elim: try_bindE)
  show ?case
  proof (cases "a = b")
    case True
    with upserts_keep_settled [OF r1(2) upsert_settles [OF r1(1)]] Cons.prems(2) show ?thesis by simp
  next
    case False
    with Cons.IH [OF r1(2)] Cons.prems(2,3) show ?thesis by simp
  qed
qed simp

lemma upserts_again:
  assumes "upsert_assets new merge mid as rows = Inr rows'" and "distinct (map md_asset_id as)"
  shows "upsert_assets other merge mid as rows' = Inr rows'"
  using upserts_settle [OF assms] by (intro settled_assets) blast

end

lemma insert_wakeups_again:
  "{queue} \<times> set is \<subseteq> wakeup_keys ws \<Longrightarrow> insert_wakeups fresh now queue is ws = Inr ws"
proof (induction "is")
  case (Cons i "is")
  then have "list_ex (\<lambda>w. wk_queue w = queue \<and> wk_entity_id w = i) ws" by (auto simp: wakeup_keys_def list_ex_iff)
  with Cons show ?case by simp
qed simp

lemma upsert_images_again:
  assumes "upsert_image_assets fresh now mid n st = Inr st'" and "distinct (map md_asset_id (nm_media n))"
    and "mt_images x = mt_images st'" and "wakeup_keys (mt_wakeups st') \<subseteq> wakeup_keys (mt_wakeups x)"
  shows "upsert_image_assets other later mid n x = Inr x"
proof (cases "filter (\<lambda>a. md_kind a = IMAGE) (nm_media n) = []")
  case True
  then show ?thesis by (simp add: upsert_image_assets_def)
next
  case False
  let ?as = "filter (\<lambda>a. md_kind a = IMAGE) (nm_media n)"
  from False assms(1) obtain images ws where
      a: "upsert_assets (new_image fresh now mid) merge_image mid ?as (mt_images st) = Inr images"
    and w: "insert_wakeups fresh now image_archive_queue (archivable_ids mid ?as images) (mt_wakeups st) = Inr ws"
    and st': "st' = st\<lparr>mt_images := images, mt_wakeups := ws\<rparr>"
    unfolding upsert_image_assets_def Let_def by (auto elim!: try_bindE)
  have i: "mt_images x = images" using assms(3) st' by simp
  have "distinct (map md_asset_id ?as)" using assms(2) by (rule distinct_map_filter)
  note again = image_upsert.upserts_again [OF a this]
  have "{image_archive_queue} \<times> set (archivable_ids mid ?as images) \<subseteq> wakeup_keys (mt_wakeups x)"
    using insert_wakeups_keys [OF w] assms(4) st' by auto
  from insert_wakeups_again [OF this] again False show ?thesis
    by (simp add: upsert_image_assets_def i [symmetric])
qed

lemma upsert_videos_again:
  assumes "upsert_video_assets fresh now mid n st = Inr st'" and "distinct (map md_asset_id (nm_media n))"
    and "mt_videos x = mt_videos st'" and "wakeup_keys (mt_wakeups st') \<subseteq> wakeup_keys (mt_wakeups x)"
  shows "upsert_video_assets other later mid n x = Inr x"
proof (cases "filter (\<lambda>a. md_kind a = VIDEO) (nm_media n) = []")
  case True
  then show ?thesis by (simp add: upsert_video_assets_def)
next
  case False
  let ?as = "filter (\<lambda>a. md_kind a = VIDEO) (nm_media n)"
  from False assms(1) obtain videos ws where
      a: "upsert_assets (new_video fresh now mid) merge_video mid ?as (mt_videos st) = Inr videos"
    and w: "insert_wakeups fresh now video_archive_queue (archivable_ids mid ?as videos) (mt_wakeups st) = Inr ws"
    and st': "st' = st\<lparr>mt_videos := videos, mt_wakeups := ws\<rparr>"
    unfolding upsert_video_assets_def Let_def by (auto elim!: try_bindE)
  have "distinct (map md_asset_id ?as)" using assms(2) by (rule distinct_map_filter)
  note again = video_upsert.upserts_again [OF a this]
  have v: "mt_videos x = videos" using assms(3) st' by simp
  have "{video_archive_queue} \<times> set (archivable_ids mid ?as videos) \<subseteq> wakeup_keys (mt_wakeups x)"
    using insert_wakeups_keys [OF w] assms(4) st' by auto
  from insert_wakeups_again [OF this] again False show ?thesis
    by (simp add: upsert_video_assets_def v [symmetric])
qed

lemma upsert_videos_wakeups:
  assumes "upsert_video_assets fresh now mid n st = Inr st'"
  shows "wakeup_keys (mt_wakeups st) \<subseteq> wakeup_keys (mt_wakeups st')"
  using assms by (auto simp: upsert_video_assets_def Let_def result_simps insert_wakeups_keys split: if_splits)

lemma synchronize_again:
  assumes "synchronize_archive_assets fresh now mid n st = Inr st'" and "distinct (map md_asset_id (nm_media n))"
    and "mt_images x = mt_images st'" and "mt_videos x = mt_videos st'" and "mt_wakeups x = mt_wakeups st'"
  shows "synchronize_archive_assets other later mid n x = Inr x"
proof -
  from assms(1) obtain st1 where i: "upsert_image_assets fresh now mid n st = Inr st1"
      and v: "upsert_video_assets fresh now mid n st1 = Inr st'"
    unfolding synchronize_archive_assets_def by (rule try_bindE)
  have "mt_images x = mt_images st1" using upsert_video_assets_keeps [OF v] assms(3) by simp
  moreover have "wakeup_keys (mt_wakeups st1) \<subseteq> wakeup_keys (mt_wakeups x)" using upsert_videos_wakeups [OF v] assms(5) by simp
  ultimately have "upsert_image_assets other later mid n x = Inr x" by (rule upsert_images_again [OF i assms(2)])
  moreover have "upsert_video_assets other later mid n x = Inr x"
    by (rule upsert_videos_again [OF v assms(2,4)]) (simp add: assms(5))
  ultimately show ?thesis by (simp add: synchronize_archive_assets_def)
qed

section \<open>Delivered later\<close>

text \<open>
  The rows a redelivery writes: the message, and those of its parts whose stored edit is not newer
  than the delivered one.
\<close>

definition delivered_part :: "uuid \<Rightarrow> uuid \<Rightarrow> telegram_message_part list \<Rightarrow> message_part_row \<Rightarrow> bool" where
  "delivered_part mid channel ps r \<longleftrightarrow> mp_message_id r = mid
     \<and> list_ex (\<lambda>p. part_key r = (channel, tp_telegram_message_id p) \<and> not_stale r p) ps"

definition refreshed :: "int \<Rightarrow> uuid \<Rightarrow> uuid \<Rightarrow> normalized_message \<Rightarrow> message_store \<Rightarrow> message_store" where
  "refreshed later mid channel n st =
     st\<lparr>mt_messages := update_where (\<lambda>m. ms_id m = mid) (ms_updated_at_update (\<lambda>_. later)) (mt_messages st),
        mt_parts := update_where (delivered_part mid channel (nm_parts n)) (mp_updated_at_update (\<lambda>_. later)) (mt_parts st)\<rparr>"

lemma merge_part_later: "merge_part now p r = r \<Longrightarrow> merge_part later p r = mp_updated_at_update (\<lambda>_. later) r"
proof -
  assume e: "merge_part now p r = r"
  have "merge_part later p r = mp_updated_at_update (\<lambda>_. later) (merge_part now p r)" by (simp add: merge_part_def)
  with e show ?thesis by simp
qed

lemma touched_part_sel [simp]:
  "part_key (mp_updated_at_update f r) = part_key r"
  "not_stale (mp_updated_at_update f r) p = not_stale r p"
  "delivered_part mid channel ps (mp_updated_at_update f r) = delivered_part mid channel ps r"
  by (simp_all add: part_key_def not_stale_def delivered_part_def)

lemma touch_part:
  assumes "part_settled now mid channel rows p" and "distinct (map part_key rows)"
  shows "upsert_part other later mid channel p rows
    = Inr (update_where (delivered_part mid channel [p]) (mp_updated_at_update (\<lambda>_. later)) rows)"
proof (cases "find (\<lambda>r. part_key r = (channel, tp_telegram_message_id p)) rows")
  case None
  with assms(1) show ?thesis by (auto simp: part_settled_def find_None_iff)
next
  case (Some r)
  then have r: "r \<in> set rows" "part_key r = (channel, tp_telegram_message_id p)" by (auto simp: find_Some_iff)
  have one: "x = r" if "x \<in> set rows" "part_key x = part_key r" for x
    by (rule distinct_key_eq [OF assms(2) that(1) r(1) that(2)])
  show ?thesis
  proof (cases "mp_message_id r = mid \<and> not_stale r p")
    case True
    with r assms(1) have "merge_part now p r = r" by (simp add: part_settled_def)
    note m = merge_part_later [OF this]
    have "update_where (\<lambda>x. part_key x = part_key r) (merge_part later p) rows
        = update_where (delivered_part mid channel [p]) (mp_updated_at_update (\<lambda>_. later)) rows"
      unfolding update_where_def
    proof (rule map_cong [OF HOL.refl])
      fix x assume x: "x \<in> set rows"
      show "(if part_key x = part_key r then merge_part later p x else x)
          = (if delivered_part mid channel [p] x then mp_updated_at_update (\<lambda>_. later) x else x)"
      proof (cases "part_key x = part_key r")
        case same: True
        from one [OF x same] True r(2) m show ?thesis by (simp add: delivered_part_def)
      qed (simp add: delivered_part_def r(2))
    qed
    with Some True show ?thesis by (simp add: upsert_part_def)
  next
    case False
    have "update_where (delivered_part mid channel [p]) (mp_updated_at_update (\<lambda>_. later)) rows = rows"
    proof (rule update_where_none)
      fix x assume "x \<in> set rows"
      from one [OF this] False r(2) show "\<not> delivered_part mid channel [p] x" by (auto simp: delivered_part_def)
    qed
    with Some False show ?thesis by (auto simp: upsert_part_def)
  qed
qed

lemma touched_settled:
  assumes "part_settled now mid channel rows q" and "tp_telegram_message_id q \<noteq> tp_telegram_message_id p"
  shows "part_settled now mid channel (update_where (delivered_part mid channel [p]) (mp_updated_at_update (\<lambda>_. later)) rows) q"
proof -
  let ?rows = "update_where (delivered_part mid channel [p]) (mp_updated_at_update (\<lambda>_. later)) rows"
  have same: "x \<in> set rows" if x: "x \<in> set ?rows" "part_key x = (channel, tp_telegram_message_id q)" for x
  proof -
    from x(1) obtain y where y: "y \<in> set rows" "x = (if delivered_part mid channel [p] y then mp_updated_at_update (\<lambda>_. later) y else y)"
      unfolding update_where_def by auto
    with x(2) have "part_key y = (channel, tp_telegram_message_id q)" by (simp split: if_splits)
    with assms(2) have "\<not> delivered_part mid channel [p] y" by (simp add: delivered_part_def)
    with y show ?thesis by simp
  qed
  from assms(1) obtain x where x: "x \<in> set rows" "part_key x = (channel, tp_telegram_message_id q)" by (auto simp: part_settled_def)
  with assms(2) have "\<not> delivered_part mid channel [p] x" by (simp add: delivered_part_def)
  with x(1) have "x \<in> set ?rows" unfolding update_where_def by force
  with x(2) assms(1) same show ?thesis unfolding part_settled_def by blast
qed

lemma touch_parts:
  "\<forall>p \<in> set ps. part_settled now mid channel rows p \<Longrightarrow> distinct (map tp_telegram_message_id ps) \<Longrightarrow>
     distinct (map part_key rows) \<Longrightarrow> upsert_parts other later mid channel ps rows
       = Inr (update_where (delivered_part mid channel ps) (mp_updated_at_update (\<lambda>_. later)) rows)"
proof (induction ps arbitrary: rows)
  case Nil
  then show ?case by (simp add: update_where_def delivered_part_def)
next
  case (Cons p ps)
  let ?touch = "mp_updated_at_update (\<lambda>_. later) :: message_part_row \<Rightarrow> message_part_row"
  let ?rows = "update_where (delivered_part mid channel [p]) ?touch rows"
  have "upsert_parts other later mid channel ps ?rows = Inr (update_where (delivered_part mid channel ps) ?touch ?rows)"
  proof (rule Cons.IH)
    show "\<forall>q \<in> set ps. part_settled now mid channel ?rows q"
    proof (intro ballI touched_settled)
      fix q assume q: "q \<in> set ps"
      with Cons.prems(1) show "part_settled now mid channel rows q" by simp
      from q have "tp_telegram_message_id q \<in> tp_telegram_message_id ` set ps" by (rule imageI)
      with Cons.prems(2) show "tp_telegram_message_id q \<noteq> tp_telegram_message_id p" by (simp only: distinct.simps list.map set_map) metis
    qed
    show "distinct (map part_key ?rows)" using Cons.prems(3) by (simp add: map_update_where)
  qed (use Cons.prems(2) in simp)
  moreover have "update_where (delivered_part mid channel ps) ?touch ?rows = update_where (delivered_part mid channel (p # ps)) ?touch rows"
  proof -
    have "(if delivered_part mid channel ps (if delivered_part mid channel [p] r then ?touch r else r)
          then ?touch (if delivered_part mid channel [p] r then ?touch r else r)
          else (if delivered_part mid channel [p] r then ?touch r else r))
        = (if delivered_part mid channel (p # ps) r then ?touch r else r)" for r
    proof -
      have "delivered_part mid channel (p # ps) r \<longleftrightarrow> delivered_part mid channel [p] r \<or> delivered_part mid channel ps r"
        by (auto simp: delivered_part_def)
      then show ?thesis by simp
    qed
    then show ?thesis by (simp add: update_where_def)
  qed
  ultimately show ?case using touch_part [of now mid channel rows p] Cons.prems by simp
qed

text \<open>Recomputing the message does not look at the clock column of its parts.\<close>

lemma recompute_touched:
  "recompute c g mid (update_where P (mp_updated_at_update (\<lambda>_. later)) rows) = recompute c g mid rows"
proof -
  let ?f = "\<lambda>r. if P r then mp_updated_at_update (\<lambda>_. later) r else r"
  have "filter (\<lambda>r. mp_message_id r = mid) (map ?f rows) = map ?f (filter (\<lambda>r. mp_message_id r = mid) rows)"
    by (induction rows) auto
  moreover have "(\<lambda>r. mp_telegram_message_id (?f r)) = mp_telegram_message_id" by (rule ext) simp
  ultimately have "retained_parts mid (update_where P (mp_updated_at_update (\<lambda>_. later)) rows) = map ?f (retained_parts mid rows)"
    by (simp only: retained_parts_def update_where_def sort_key_map)
  moreover have "(\<lambda>r. telegram_part_from_record (?f r)) = telegram_part_from_record"
    by (rule ext) (simp add: telegram_part_from_record_def)
  ultimately show ?thesis by (simp only: recompute_def traverse_map)
qed

lemma ownership_touched:
  "validate_component_ownership mid channel ids (update_where P (mp_updated_at_update (\<lambda>_. later)) rows)
     = validate_component_ownership mid channel ids rows"
proof -
  let ?f = "\<lambda>r. if P r then mp_updated_at_update (\<lambda>_. later) r else r"
  have "filter (\<lambda>r. mp_source_channel_id r = channel \<and> mp_telegram_message_id r \<in> set ids) (map ?f rows)
      = map ?f (filter (\<lambda>r. mp_source_channel_id r = channel \<and> mp_telegram_message_id r \<in> set ids) rows)"
    by (induction rows) auto
  moreover have "list_ex (\<lambda>r. mp_message_id r \<noteq> mid) (map ?f rs) = list_ex (\<lambda>r. mp_message_id r \<noteq> mid) rs" for rs
    by (induction rs) auto
  moreover have "mp_telegram_message_id ` set (map ?f rs) = mp_telegram_message_id ` set rs" for rs
    by (induction rs) auto
  ultimately show ?thesis by (simp only: validate_component_ownership_def update_where_def Let_def)
qed

section \<open>The whole upsert\<close>

lemma ownership_rows:
  assumes "validate_component_ownership mid channel is rows = Inr ()" and "i \<in> set is"
  shows "\<exists>r \<in> set rows. part_key r = (channel, i) \<and> mp_message_id r = mid"
proof -
  have v: "set is \<subseteq> mp_telegram_message_id ` {r \<in> set rows. mp_source_channel_id r = channel \<and> mp_telegram_message_id r \<in> set is}"
      "\<forall>r \<in> set rows. mp_source_channel_id r = channel \<and> mp_telegram_message_id r \<in> set is \<longrightarrow> mp_message_id r = mid"
    using assms(1) by (auto simp: validate_component_ownership_def Let_def list_ex_iff split: if_splits)
  from v(1) assms(2) obtain r where r: "r \<in> set rows" "mp_source_channel_id r = channel" "mp_telegram_message_id r = i" by blast
  with v(2) assms(2) show ?thesis by (intro bexI [OF _ r(1)]) (simp add: part_key_def)
qed

text \<open>An ungrouped message has one part, so its parent keeps the primary id it is looked up by.\<close>

lemma parent_still_matches:
  assumes "check_normalized_message n = Inr n" and "recompute c (nm_telegram_grouped_id n) mid rows = Inr r"
    and "validate_component_ownership mid channel (nm_telegram_message_ids n) rows = Inr ()"
    and "ms_source_channel_id m = channel" "ms_telegram_grouped_id m = nm_telegram_grouped_id n"
  shows "parent_matches channel n (snapshot_columns sha r now m)"
proof (cases "nm_telegram_grouped_id n")
  case None
  note f = recompute_facts [OF assms(2)]
  have "length (nm_telegram_message_ids r) = 1" by (rule normalized_head(3) [OF f(2)]) (simp only: f(1) None)
  moreover have "nm_primary_telegram_message_id n \<in> set (nm_telegram_message_ids n)"
    using normalized_head(1,2) [OF assms(1)] by simp
  from ownership_rows [OF assms(3) this] have "nm_primary_telegram_message_id n \<in> set (nm_telegram_message_ids r)"
    by (force simp: f(3) retained_parts_def part_key_def)
  ultimately have "nm_primary_telegram_message_id r = nm_primary_telegram_message_id n"
    using normalized_head(2) [OF f(2)] by (auto simp: length_Suc_conv)
  with None assms(4,5) show ?thesis by (simp add: parent_matches_def snapshot_columns_def)
qed (use assms(4,5) in \<open>simp add: parent_matches_def snapshot_columns_def\<close>)

lemma upsert_parent_matched:
  assumes "upsert_parent sha fresh now channel n st = Inr (mid, st1)"
  shows "\<exists>m \<in> set (mt_messages st1). ms_id m = mid \<and> ms_source_channel_id m = channel
    \<and> ms_telegram_grouped_id m = nm_telegram_grouped_id n"
    and "list_all fits_bigint (nm_telegram_message_ids n) \<and> bigint_option (nm_telegram_grouped_id n)"
proof -
  show "\<exists>m \<in> set (mt_messages st1). ms_id m = mid \<and> ms_source_channel_id m = channel
    \<and> ms_telegram_grouped_id m = nm_telegram_grouped_id n"
    using assms
  proof (cases rule: upsert_parentE)
    case (1 m)
    then have "m \<in> set (mt_messages st)" "parent_matches channel n m" by (auto simp: find_Some_iff)
    with 1 show ?thesis by (auto simp: parent_matches_def split: option.splits)
  qed simp
  show "list_all fits_bigint (nm_telegram_message_ids n) \<and> bigint_option (nm_telegram_grouped_id n)"
    using assms by (simp add: upsert_parent_def split: if_splits)
qed

lemma update_parent_again:
  "mt_messages st' = mt_messages (update_parent sha mid r now st) \<Longrightarrow> update_parent sha mid r now st' = st'"
  by (simp add: update_parent_def update_where_def comp_def if_distrib)

lemma upsert_message_again:
  assumes "message_store_ok sha st" and "check_normalized_message n = Inr n"
    and "upsert_message sha fresh now n st = Inr st'"
  shows "\<exists>m \<in> set (mt_messages st'). as_uuid (nm_source_channel_id n) = Inr (ms_source_channel_id m)
    \<and> parent_matches (ms_source_channel_id m) n m
    \<and> upsert_message sha other later n st' = Inr (refreshed later (ms_id m) (ms_source_channel_id m) n st')"
  using assms(3)
proof (rule upsert_messageE)
  fix channel mid st1 rows r
  assume c: "as_uuid (nm_source_channel_id n) = Inr channel"
    and u: "upsert_parent sha fresh now channel n st = Inr (mid, st1)"
    and p: "upsert_parts fresh now mid channel (nm_parts n) (mt_parts st1) = Inr rows"
    and r: "recompute (nm_source_channel_id n) (nm_telegram_grouped_id n) mid rows = Inr r"
    and s: "synchronize_archive_assets fresh now mid r (update_parent sha mid r now (st1\<lparr>mt_parts := rows\<rparr>)) = Inr st'"
    and v: "validate_component_ownership mid channel (nm_telegram_message_ids n) rows = Inr ()"
  have parts: "mt_parts st' = rows" using synchronize_keeps(2) [OF s] by (simp add: update_parent_def)
  have messages: "mt_messages st' = mt_messages (update_parent sha mid r now (st1\<lparr>mt_parts := rows\<rparr>))"
    by (rule synchronize_keeps(1) [OF s])
  have ok: "message_store_ok sha st'" by (rule upsert_message_ok [OF assms(1,3)])
  have parts_ok: "parts_ok (mt_parts st1)" using upsert_parent_rest(1) [OF u] assms(1) by (simp add: message_store_ok_def)
  from upsert_parent_matched(1) [OF u] obtain m where m: "m \<in> set (mt_messages st1)" "ms_id m = mid"
      "ms_source_channel_id m = channel" "ms_telegram_grouped_id m = nm_telegram_grouped_id n" by blast
  let ?m = "snapshot_columns sha r now m"
  have stored: "?m \<in> set (mt_messages st')" unfolding messages using m(1,2) by (force simp: update_parent_def update_where_def)
  have matches: "parent_matches channel n ?m" by (rule parent_still_matches [OF assms(2) r v m(3,4)])
  have cols: "ms_id ?m = mid" "ms_source_channel_id ?m = channel" using m(2,3) by (simp_all add: snapshot_columns_def)
  from parent_found [OF ok stored matches]
  have parent: "upsert_parent sha other later channel n st' = Inr (mid, st')"
    using upsert_parent_matched(2) [OF u] m(2) by (simp add: upsert_parent_def)
  let ?rows = "update_where (delivered_part mid channel (nm_parts n)) (mp_updated_at_update (\<lambda>_. later)) rows"
  have "\<forall>p \<in> set (nm_parts n). part_settled now mid channel rows p"
    using upsert_parts_settle [OF p parts_ok] normalized_head(4) [OF assms(2)] normalized_distinct [OF assms(2)] by metis
  moreover have "distinct (map tp_telegram_message_id (nm_parts n))"
    using normalized_head(4) [OF assms(2)] normalized_distinct [OF assms(2)] by simp
  moreover have "distinct (map part_key rows)" using ok by (simp add: message_store_ok_def parts_ok_def parts)
  ultimately have "upsert_parts other later mid channel (nm_parts n) rows = Inr ?rows" by (rule touch_parts)
  then have rows: "upsert_parts other later mid channel (nm_parts n) (mt_parts st') = Inr ?rows" by (simp only: parts)
  have "update_where (\<lambda>m. ms_id m = mid) (snapshot_columns sha r later) (mt_messages st')
      = update_where (\<lambda>m. ms_id m = mid) (ms_updated_at_update (\<lambda>_. later)) (mt_messages st')"
    unfolding messages by (simp add: update_parent_def update_where_def snapshot_columns_def comp_def)
  then have "update_parent sha mid r later (st'\<lparr>mt_parts := ?rows\<rparr>) = refreshed later mid channel n st'"
    by (simp add: update_parent_def refreshed_def parts)
  moreover have "synchronize_archive_assets other later mid r (refreshed later mid channel n st') = Inr (refreshed later mid channel n st')"
    by (rule synchronize_again [OF s normalized_head(5) [OF recompute_facts(2) [OF r]]]) (simp_all add: refreshed_def)
  ultimately have "upsert_message sha other later n st' = Inr (refreshed later mid channel n st')"
    by (simp add: upsert_message_def c parent rows v r recompute_touched ownership_touched)
  with stored matches cols c show ?thesis by (intro bexI [OF _ stored]) simp
qed

text \<open>At the same reading of the clock even the clock columns are as they were.\<close>

lemma upsert_message_same_clock:
  assumes "message_store_ok sha st" and "check_normalized_message n = Inr n"
    and "upsert_message sha fresh now n st = Inr st'"
  shows "upsert_message sha other now n st' = Inr st'"
  using assms(3)
proof (rule upsert_messageE)
  fix channel mid st1 rows r
  assume c: "as_uuid (nm_source_channel_id n) = Inr channel"
    and u: "upsert_parent sha fresh now channel n st = Inr (mid, st1)"
    and p: "upsert_parts fresh now mid channel (nm_parts n) (mt_parts st1) = Inr rows"
    and r: "recompute (nm_source_channel_id n) (nm_telegram_grouped_id n) mid rows = Inr r"
    and s: "synchronize_archive_assets fresh now mid r (update_parent sha mid r now (st1\<lparr>mt_parts := rows\<rparr>)) = Inr st'"
    and v: "validate_component_ownership mid channel (nm_telegram_message_ids n) rows = Inr ()"
  have parts: "mt_parts st' = rows" using synchronize_keeps(2) [OF s] by (simp add: update_parent_def)
  have messages: "mt_messages st' = mt_messages (update_parent sha mid r now (st1\<lparr>mt_parts := rows\<rparr>))"
    by (rule synchronize_keeps(1) [OF s])
  have ok: "message_store_ok sha st'" by (rule upsert_message_ok [OF assms(1,3)])
  have parts_ok: "parts_ok (mt_parts st1)" using upsert_parent_rest(1) [OF u] assms(1) by (simp add: message_store_ok_def)
  from upsert_parent_matched(1) [OF u] obtain m where m: "m \<in> set (mt_messages st1)" "ms_id m = mid"
      "ms_source_channel_id m = channel" "ms_telegram_grouped_id m = nm_telegram_grouped_id n" by blast
  let ?m = "snapshot_columns sha r now m"
  have "?m \<in> set (mt_messages st')" unfolding messages using m(1,2) by (force simp: update_parent_def update_where_def)
  from parent_found [OF ok this parent_still_matches [OF assms(2) r v m(3,4)]]
  have parent: "upsert_parent sha other now channel n st' = Inr (mid, st')"
    using upsert_parent_matched(2) [OF u] m(2) by (simp add: upsert_parent_def)
  have "\<forall>p \<in> set (nm_parts n). part_settled now mid channel rows p"
    using upsert_parts_settle [OF p parts_ok] normalized_head(4) [OF assms(2)] normalized_distinct [OF assms(2)] by metis
  from settled_upserts [OF this] upsert_parts_keeps [OF p parts_ok]
  have rows: "upsert_parts other now mid channel (nm_parts n) (mt_parts st') = Inr rows" by (simp add: parts)
  have "update_parent sha mid r now (st'\<lparr>mt_parts := rows\<rparr>) = st'"
    using update_parent_again [OF messages] by (simp add: parts [symmetric])
  with synchronize_again [OF s normalized_head(5) [OF recompute_facts(2) [OF r]]]
  show ?thesis by (simp add: upsert_message_def c parent rows v r)
qed

definition sample_logical :: normalized_message where
  "sample_logical = (case normalize_parts sample_channel None [sample_photo] of Inr n \<Rightarrow> n | Inl _ \<Rightarrow> undefined)"

lemma sample_logical_checked: "check_normalized_message sample_logical = Inr sample_logical"
proof -
  have "isl (normalize_parts sample_channel None [sample_photo]) = False" by code_simp
  then obtain n where n: "normalize_parts sample_channel None [sample_photo] = Inr n"
    by (cases "normalize_parts sample_channel None [sample_photo]") auto
  then have "check_normalized_message n = Inr n" by (rule normalize_partsE)
  with n show ?thesis by (simp add: sample_logical_def)
qed

lemma sample_logical_stored:
  obtains st where "upsert_message (\<lambda>t. []) (sample_ids 0) 9 sample_logical (empty_store [sample_channel]) = Inr st"
proof -
  have "isl (upsert_message (\<lambda>t. []) (sample_ids 0) 9 sample_logical (empty_store [sample_channel])) = False" by code_simp
  then show thesis
    using that by (cases "upsert_message (\<lambda>t. []) (sample_ids 0) 9 sample_logical (empty_store [sample_channel])") auto
qed

text \<open>
  C32: Redelivery is harmless: in a store that the transactions reach, storing a logical message
  once more right after it was stored, at any later reading of the clock and whatever identifiers
  the second transaction would draw, succeeds, and the only columns it writes are the
  \<^verbatim>\<open>updated_at\<close> of that message and of its parts whose stored edit is not newer.  No row is added,
  no content, asset or wake-up changes; at the same reading of the clock nothing changes at all.
\<close>

theorem redelivery_changes_nothing:
  assumes "message_reachable sha st" and "check_normalized_message n = Inr n"
    and "upsert_message sha fresh now n st = Inr st'"
  shows "(\<exists>m \<in> set (mt_messages st'). as_uuid (nm_source_channel_id n) = Inr (ms_source_channel_id m)
      \<and> parent_matches (ms_source_channel_id m) n m
      \<and> upsert_message sha other later n st' = Inr (refreshed later (ms_id m) (ms_source_channel_id m) n st'))
    \<and> upsert_message sha other now n st' = Inr st'"
proof
  show "\<exists>m \<in> set (mt_messages st'). as_uuid (nm_source_channel_id n) = Inr (ms_source_channel_id m)
      \<and> parent_matches (ms_source_channel_id m) n m
      \<and> upsert_message sha other later n st' = Inr (refreshed later (ms_id m) (ms_source_channel_id m) n st')"
    using upsert_message_again [OF _ assms(2,3)] reachable_ok [OF assms(1)] by blast
  show "upsert_message sha other now n st' = Inr st'"
    using upsert_message_same_clock [OF _ assms(2,3)] reachable_ok [OF assms(1)] by blast
qed

theorem redelivery_changes_nothing_witness:
  "\<exists>st. upsert_message (\<lambda>t. []) (sample_ids 0) 9 sample_logical (empty_store [sample_channel]) = Inr st
    \<and> upsert_message (\<lambda>t. []) (sample_ids 1) 9 sample_logical st = Inr st
    \<and> (\<exists>st'. upsert_message (\<lambda>t. []) (sample_ids 1) 12 sample_logical st = Inr st' \<and> mt_wakeups st' = mt_wakeups st
         \<and> map ms_original_text (mt_messages st') = map ms_original_text (mt_messages st))"
proof -
  obtain st where st: "upsert_message (\<lambda>t. []) (sample_ids 0) 9 sample_logical (empty_store [sample_channel]) = Inr st"
    by (rule sample_logical_stored)
  note again = redelivery_changes_nothing [OF start sample_logical_checked st, of "sample_ids 1" 12]
  have "\<exists>m :: message_row. upsert_message (\<lambda>t. []) (sample_ids 1) 12 sample_logical st
      = Inr (refreshed 12 (ms_id m) (ms_source_channel_id m) sample_logical st)"
    by (rule bexE [OF conjunct1 [OF again]]) (elim conjE, rule exI, assumption)
  moreover have "map ms_original_text (mt_messages (refreshed l i c n x)) = map ms_original_text (mt_messages x)" for l i c n x
    by (simp add: refreshed_def update_where_def)
  moreover have "mt_wakeups (refreshed l i c n x) = mt_wakeups x" for l i c n x by (simp add: refreshed_def)
  ultimately show ?thesis using st again by metis
qed

text \<open>
  What a logical message brings is retained: after it was stored, every component is a part of
  one and the same message row, and its stored edit time is at least the one that was delivered.
\<close>

theorem delivered_parts_are_retained:
  assumes "message_reachable sha st" and "check_normalized_message n = Inr n"
    and "upsert_message sha fresh now n st = Inr st'" and "as_uuid (nm_source_channel_id n) = Inr channel"
  shows "\<exists>m \<in> set (mt_messages st'). ms_source_channel_id m = channel
    \<and> (\<forall>p \<in> set (nm_parts n). \<exists>r \<in> set (mt_parts st'). mp_message_id r = ms_id m
        \<and> part_key r = (channel, tp_telegram_message_id p)
        \<and> (case tp_edited_at p of None \<Rightarrow> True | Some d \<Rightarrow> (\<exists>stored. mp_edited_at r = Some stored \<and> instant d \<le> stored)))"
  using assms(3)
proof (rule upsert_messageE)
  fix channel' mid st1 rows r
  assume c: "as_uuid (nm_source_channel_id n) = Inr channel'"
    and u: "upsert_parent sha fresh now channel' n st = Inr (mid, st1)"
    and p: "upsert_parts fresh now mid channel' (nm_parts n) (mt_parts st1) = Inr rows"
    and s: "synchronize_archive_assets fresh now mid r (update_parent sha mid r now (st1\<lparr>mt_parts := rows\<rparr>)) = Inr st'"
    and v: "validate_component_ownership mid channel' (nm_telegram_message_ids n) rows = Inr ()"
  from c assms(4) have ch: "channel' = channel" by simp
  have parts: "mt_parts st' = rows" using synchronize_keeps(2) [OF s] by (simp add: update_parent_def)
  have parts_ok: "parts_ok (mt_parts st1)"
    using upsert_parent_rest(1) [OF u] reachable_ok [OF assms(1)] by (simp add: message_store_ok_def)
  from upsert_parent_matched(1) [OF u] obtain m where m: "m \<in> set (mt_messages st1)" "ms_id m = mid"
      "ms_source_channel_id m = channel" unfolding ch by blast
  have stored: "snapshot_columns sha r now m \<in> set (mt_messages st')"
    unfolding synchronize_keeps(1) [OF s] using m(1,2) by (force simp: update_parent_def update_where_def)
  have each: "\<exists>r \<in> set rows. mp_message_id r = mid \<and> part_key r = (channel, tp_telegram_message_id p)
      \<and> (case tp_edited_at p of None \<Rightarrow> True | Some d \<Rightarrow> (\<exists>stored. mp_edited_at r = Some stored \<and> instant d \<le> stored))"
    if q: "p \<in> set (nm_parts n)" for p
  proof -
    have "tp_telegram_message_id p \<in> set (nm_telegram_message_ids n)"
      using q normalized_head(4) [OF assms(2)] by (metis image_eqI list.set_map)
    from ownership_rows [OF v this] obtain x where x: "x \<in> set rows" "part_key x = (channel, tp_telegram_message_id p)"
        "mp_message_id x = mid" unfolding ch by blast
    have "part_settled now mid channel rows p"
      using upsert_parts_settle [OF p parts_ok _ q] normalized_head(4) [OF assms(2)] normalized_distinct [OF assms(2)]
      unfolding ch by simp
    with x have "merge_part now p x = x \<or> \<not> not_stale x p" by (auto simp: part_settled_def)
    then have "mp_edited_at x = map_option instant (tp_edited_at p) \<or> \<not> not_stale x p"
      by (metis (no_types) merge_part_edited)
    then have "case tp_edited_at p of None \<Rightarrow> True | Some d \<Rightarrow> (\<exists>stored. mp_edited_at x = Some stored \<and> instant d \<le> stored)"
      by (auto simp: not_stale_def split: option.splits)
    with x show ?thesis by (intro bexI [of _ x] conjI)
  qed
  show ?thesis by (rule bexI [OF _ stored]) (use each m(2,3) in \<open>simp add: parts\<close>)
qed

theorem delivered_parts_are_retained_witness:
  "\<exists>st. upsert_message (\<lambda>t. []) (sample_ids 0) 9 sample_logical (empty_store [sample_channel]) = Inr st
    \<and> (\<exists>m \<in> set (mt_messages st). ms_source_channel_id m = sample_channel)"
proof -
  obtain st where st: "upsert_message (\<lambda>t. []) (sample_ids 0) 9 sample_logical (empty_store [sample_channel]) = Inr st"
    by (rule sample_logical_stored)
  have c: "as_uuid (nm_source_channel_id sample_logical) = Inr sample_channel" by code_simp
  from delivered_parts_are_retained [OF start sample_logical_checked st c] st show ?thesis by blast
qed

section \<open>Ingestion and the history of a message\<close>

definition history_of :: "message_row \<Rightarrow> uuid \<times> string \<times> review_status \<times> bool \<times> bool \<times> int option \<times> bool" where
  "history_of m = (ms_id m, ms_processing_status m, ms_review_status m, ms_source_changed_after_processing m,
     ms_source_deleted m, ms_source_deleted_at m, ms_blocked_from_analysis m)"

lemma upsert_message_history:
  assumes "upsert_message sha fresh now n st = Inr st'"
  shows "history_of ` set (mt_messages st) \<subseteq> history_of ` set (mt_messages st')"
  using assms
proof (rule upsert_messageE)
  fix channel mid st1 rows r
  assume u: "upsert_parent sha fresh now channel n st = Inr (mid, st1)"
    and s: "synchronize_archive_assets fresh now mid r (update_parent sha mid r now (st1\<lparr>mt_parts := rows\<rparr>)) = Inr st'"
  have "set (mt_messages st) \<subseteq> set (mt_messages st1)" using u by (auto elim!: upsert_parentE)
  moreover have "map history_of (mt_messages st') = map history_of (mt_messages st1)"
    unfolding synchronize_keeps(1) [OF s] by (simp add: update_parent_def map_update_where history_of_def snapshot_columns_def)
  from arg_cong [OF this, of set] have "history_of ` set (mt_messages st') = history_of ` set (mt_messages st1)" by simp
  ultimately show ?thesis by blast
qed

lemma upsert_all_history:
  "upsert_all sha fresh now k ns st = (r, st') \<Longrightarrow> history_of ` set (mt_messages st) \<subseteq> history_of ` set (mt_messages st')"
proof (induction ns arbitrary: k st)
  case (Cons n ns)
  show ?case
  proof (cases "upsert_message sha (fresh k) now n st")
    case (Inr st1)
    with Cons.prems have "upsert_all sha fresh now (Suc k) ns st1 = (r, st')" by simp
    from upsert_message_history [OF Inr] Cons.IH [OF this] show ?thesis by (rule order_trans)
  qed (use Cons.prems in simp)
qed simp

text \<open>
  Ingestion never touches what was decided about a message: whether a batch is stored or fails,
  each message keeps its processing, review, deletion and blocking columns; in particular an edit
  that arrives as a message again, and not through the lifecycle service, is not flagged as a change
  after processing.
\<close>

theorem ingestion_keeps_history:
  assumes "ingest_messages sha fresh now ms st = (r, st')" and "m \<in> set (mt_messages st)"
  shows "\<exists>m' \<in> set (mt_messages st'). ms_id m' = ms_id m \<and> ms_processing_status m' = ms_processing_status m
    \<and> ms_review_status m' = ms_review_status m
    \<and> ms_source_changed_after_processing m' = ms_source_changed_after_processing m
    \<and> ms_source_deleted m' = ms_source_deleted m \<and> ms_source_deleted_at m' = ms_source_deleted_at m
    \<and> ms_blocked_from_analysis m' = ms_blocked_from_analysis m"
proof -
  have "history_of ` set (mt_messages st) \<subseteq> history_of ` set (mt_messages st')"
  proof (cases "normalize_telegram_messages ms")
    case (Inl e)
    with assms(1) show ?thesis by (simp add: ingest_messages_def)
  next
    case (Inr ns)
    obtain q st1 where q: "upsert_all sha fresh now 0 ns st = (q, st1)" by (cases "upsert_all sha fresh now 0 ns st")
    with assms(1) Inr have "st1 = st'" by (auto simp: ingest_messages_def split: sum.splits)
    with upsert_all_history [OF q] show ?thesis by simp
  qed
  with assms(2) obtain m' where "m' \<in> set (mt_messages st')" "history_of m' = history_of m" by (metis image_eqI image_iff subsetD)
  then show ?thesis by (intro bexI [of _ m']) (simp_all add: history_of_def)
qed

definition processed_store :: message_store where
  "processed_store = sample_store\<lparr>mt_messages := map (\<lambda>m. m\<lparr>ms_processing_status := ''processed''\<rparr>) (mt_messages sample_store)\<rparr>"

definition edited_photo :: telegram_message where
  "edited_photo = sample_photo\<lparr>tm_edited_at := Some (Aware 8), tm_original_text := Some ''new''\<rparr>"

theorem ingestion_keeps_history_witness:
  "map ms_original_text (mt_messages processed_store) = [None]
   \<and> map ms_original_text (mt_messages (snd (ingest_messages (\<lambda>t. []) sample_ids 10 [edited_photo] processed_store))) = [Some ''new'']
   \<and> (\<exists>m \<in> set (mt_messages (snd (ingest_messages (\<lambda>t. []) sample_ids 10 [edited_photo] processed_store))).
        ms_processing_status m = ''processed'' \<and> \<not> ms_source_changed_after_processing m)"
proof (intro conjI)
  show "map ms_original_text (mt_messages processed_store) = [None]" by code_simp
  show "map ms_original_text (mt_messages (snd (ingest_messages (\<lambda>t. []) sample_ids 10 [edited_photo] processed_store))) = [Some ''new'']"
    by code_simp
  have "map (\<lambda>m. (ms_processing_status m, ms_source_changed_after_processing m)) (mt_messages processed_store) = [(''processed'', False)]"
    by code_simp
  from map_eq_Cons_member [OF this] obtain m where m: "m \<in> set (mt_messages processed_store)"
      "ms_processing_status m = ''processed''" "\<not> ms_source_changed_after_processing m" by auto
  from ingestion_keeps_history [OF prod.collapse [symmetric] m(1)] m(2,3)
  show "\<exists>m \<in> set (mt_messages (snd (ingest_messages (\<lambda>t. []) sample_ids 10 [edited_photo] processed_store))).
        ms_processing_status m = ''processed'' \<and> \<not> ms_source_changed_after_processing m" by metis
qed

end
