(* ===== verification/Media_Group_Buffer.thy ===== *)
theory Media_Group_Buffer
  imports Message_Normalization
begin

text \<open>
  The in-memory buffer that holds the parts of a media group until they are released together:
  \<^verbatim>\<open>application/media_group_buffer.py\<close>.  Its dictionaries are association lists in insertion order.

  What is shown: no component gets lost or doubled on its way through the buffer, a group waits
  exactly until its window has elapsed, and groups leave in a fixed order.
\<close>

section \<open>The buffer\<close>

type_synonym group_key = "string \<times> int"

record pending_group =
  pg_first_received_at :: int
  pg_messages :: "(int, telegram_message) dict"

record group_buffer =
  gb_window :: int
  gb_pending :: "(group_key, pending_group) dict"

definition new_buffer :: "int \<Rightarrow> group_buffer result" where
  "new_buffer window =
     try_bind (ensure_positive_duration window) (\<lambda>w. Inr \<lparr>gb_window = w, gb_pending = []\<rparr>)"

definition release_order :: "group_key \<times> pending_group \<Rightarrow> int \<times> string \<times> int" where
  "release_order e = (pg_first_received_at (snd e), fst (fst e), snd (fst e))"

definition group_messages :: "pending_group \<Rightarrow> telegram_message list" where
  "group_messages g = map snd (sort_key fst (pg_messages g))"

fun release_groups :: "group_key list \<Rightarrow> group_buffer \<Rightarrow> (telegram_message list \<times> group_buffer) result" where
  "release_groups [] b = Inr ([], b)"
| "release_groups (k # ks) b =
     (case map_of (gb_pending b) k of
        None \<Rightarrow> Inl KeyError
      | Some g \<Rightarrow>
          try_bind (release_groups ks (b\<lparr>gb_pending := dict_pop k (gb_pending b)\<rparr>)) (\<lambda>(released, b').
            Inr (group_messages g @ released, b')))"

definition is_due :: "int \<Rightarrow> group_buffer \<Rightarrow> group_key \<times> pending_group \<Rightarrow> bool" where
  "is_due now b e \<longleftrightarrow> pg_first_received_at (snd e) + gb_window b \<le> now"

definition due_keys :: "int \<Rightarrow> group_buffer \<Rightarrow> group_key list" where
  "due_keys now b = map fst (sort_key release_order (filter (is_due now b) (gb_pending b)))"

definition flush_due :: "datetime \<Rightarrow> group_buffer \<Rightarrow> (telegram_message list \<times> group_buffer) result" where
  "flush_due now b = try_bind (ensure_aware now) (\<lambda>t. release_groups (due_keys t b) b)"

definition flush_all :: "group_buffer \<Rightarrow> (telegram_message list \<times> group_buffer) result" where
  "flush_all b = release_groups (map fst (sort_key release_order (gb_pending b))) b"

definition hold_message :: "telegram_message \<Rightarrow> int \<Rightarrow> int \<Rightarrow> group_buffer \<Rightarrow> group_buffer" where
  "hold_message m grouped now b =
     (let key = (tm_source_channel_id m, grouped);
          g = (case map_of (gb_pending b) key of
                 None \<Rightarrow> \<lparr>pg_first_received_at = now, pg_messages = []\<rparr> | Some g \<Rightarrow> g)
      in b\<lparr>gb_pending := dict_set key (g\<lparr>pg_messages := dict_set (tm_telegram_message_id m) m (pg_messages g)\<rparr>)
             (gb_pending b)\<rparr>)"

definition add_message ::
  "telegram_message \<Rightarrow> datetime \<Rightarrow> group_buffer \<Rightarrow> (telegram_message list \<times> group_buffer) result" where
  "add_message m now b =
     try_bind (ensure_aware now) (\<lambda>t.
     try_bind (flush_due now b) (\<lambda>(ready, b1).
       case tm_telegram_grouped_id m of
         None \<Rightarrow> Inr (ready @ [m], b1)
       | Some grouped \<Rightarrow> Inr (ready, hold_message m grouped t b1)))"

definition pending_group_count :: "group_buffer \<Rightarrow> nat" where
  "pending_group_count b = length (gb_pending b)"

section \<open>Releasing groups\<close>

definition buffer_ok :: "group_buffer \<Rightarrow> bool" where
  "buffer_ok b \<longleftrightarrow> distinct (map fst (gb_pending b))"

definition held :: "group_buffer \<Rightarrow> telegram_message multiset" where
  "held b = (\<Sum>e \<in># mset (gb_pending b). mset (map snd (pg_messages (snd e))))"

lemma held_member: "e \<in> set (gb_pending b) \<Longrightarrow> x \<in># mset (map snd (pg_messages (snd e))) \<Longrightarrow> x \<in># held b"
  by (auto simp: held_def)

lemma mset_group_messages: "mset (group_messages g) = mset (map snd (pg_messages g))"
  by (simp add: group_messages_def)

lemma dict_pop_ok [simp]: "buffer_ok b \<Longrightarrow> buffer_ok (b\<lparr>gb_pending := dict_pop k (gb_pending b)\<rparr>)"
  by (simp add: buffer_ok_def dict_simps)

lemma filter_keys_Cons:
  "filter (\<lambda>e. fst e \<notin> set (k # ks)) d = filter (\<lambda>e. fst e \<notin> set ks) (dict_pop k d)"
  by (simp add: dict_pop_def conj_commute)

text \<open>Releasing distinct pending keys removes exactly their groups.\<close>

lemma release_groups_total:
  "distinct ks \<Longrightarrow> set ks \<subseteq> fst ` set (gb_pending b) \<Longrightarrow>
     release_groups ks b =
       Inr (concat (map (\<lambda>k. group_messages (the (map_of (gb_pending b) k))) ks),
            b\<lparr>gb_pending := filter (\<lambda>e. fst e \<notin> set ks) (gb_pending b)\<rparr>)"
proof (induction ks arbitrary: b)
  case (Cons k ks)
  from Cons.prems obtain g where g: "map_of (gb_pending b) k = Some g"
    by (metis insert_subset list.simps(15) map_of_eq_None_iff option.exhaust)
  let ?b = "b\<lparr>gb_pending := dict_pop k (gb_pending b)\<rparr>"
  have "set ks \<subseteq> fst ` set (gb_pending ?b)" using Cons.prems by (auto simp: dict_simps)
  note ih = Cons.IH [OF _ this]
  have e: "map (\<lambda>x. group_messages (the (map_of (gb_pending ?b) x))) ks
      = map (\<lambda>x. group_messages (the (map_of (gb_pending b) x))) ks"
    using Cons.prems(1) by (intro map_cong refl) (auto simp: dict_simps)
  have "release_groups ks ?b = Inr (concat (map (\<lambda>x. group_messages (the (map_of (gb_pending b) x))) ks),
      b\<lparr>gb_pending := filter (\<lambda>x. fst x \<notin> set (k # ks)) (gb_pending b)\<rparr>)"
    using ih Cons.prems(1) unfolding e by (simp add: filter_keys_Cons del: list.set(2))
  with g show ?case by (simp del: list.set(2))
qed simp

lemma filter_complement:
  "distinct (map fst d) \<Longrightarrow> filter (\<lambda>e. fst e \<notin> fst ` set (filter P d)) d = filter (\<lambda>e. \<not> P e) d"
proof (induction d)
  case (Cons e d)
  have "filter (\<lambda>x. fst x \<notin> insert (fst e) (fst ` set (filter P d))) d = filter (\<lambda>x. fst x \<notin> fst ` set (filter P d)) d"
    using Cons.prems by (intro filter_cong refl) (auto simp: image_iff)
  moreover have "fst e \<notin> fst ` set (filter P d)" using Cons.prems by auto
  ultimately show ?case using Cons by simp
qed simp

lemma release_sorted:
  assumes "buffer_ok b"
  shows "release_groups (map fst (sort_key release_order (filter P (gb_pending b)))) b =
    Inr (concat (map (\<lambda>e. group_messages (snd e)) (sort_key release_order (filter P (gb_pending b)))),
         b\<lparr>gb_pending := filter (\<lambda>e. \<not> P e) (gb_pending b)\<rparr>)"
proof -
  let ?s = "sort_key release_order (filter P (gb_pending b))"
  have d: "distinct (map fst (gb_pending b))" using assms by (simp add: buffer_ok_def)
  then have "distinct (map fst ?s)" by (simp add: distinct_map_sort_key distinct_map_filter)
  moreover have "set (map fst ?s) \<subseteq> fst ` set (gb_pending b)" by auto
  moreover have "map (\<lambda>k. group_messages (the (map_of (gb_pending b) k))) (map fst ?s)
      = map (\<lambda>e. group_messages (snd e)) ?s"
    using d by (auto simp: map_of_is_SomeI)
  moreover have "filter (\<lambda>e. fst e \<notin> set (map fst ?s)) (gb_pending b) = filter (\<lambda>e. \<not> P e) (gb_pending b)"
    using filter_complement [OF d, of P] by simp
  ultimately show ?thesis using release_groups_total [of "map fst ?s" b] by (simp only:)
qed

lemma flush_due_eq:
  assumes "buffer_ok b"
  shows "flush_due (Aware t) b =
    Inr (concat (map (\<lambda>e. group_messages (snd e)) (sort_key release_order (filter (is_due t b) (gb_pending b)))),
         b\<lparr>gb_pending := filter (\<lambda>e. \<not> is_due t b e) (gb_pending b)\<rparr>)"
  by (simp only: flush_due_def ensure_aware.simps try_bind_simps due_keys_def release_sorted [OF assms])

lemma flush_all_eq:
  assumes "buffer_ok b"
  shows "flush_all b = Inr (concat (map (\<lambda>e. group_messages (snd e)) (sort_key release_order (gb_pending b))),
    b\<lparr>gb_pending := []\<rparr>)"
  using release_sorted [OF assms, of "\<lambda>_. True"] by (simp add: flush_all_def)

lemma mset_released:
  "mset (concat (map (\<lambda>e. group_messages (snd e)) es)) = (\<Sum>e \<in># mset es. mset (map snd (pg_messages (snd e))))"
  by (induction es) (simp_all add: mset_group_messages)

lemma sum_mset_split:
  "(\<Sum>e \<in># mset d. F e) = (\<Sum>e \<in># mset (filter P d). F e) + (\<Sum>e \<in># mset (filter (\<lambda>e. \<not> P e) d). F e)"
  for F :: "'a \<Rightarrow> 'b multiset"
  by (induction d) (simp_all add: ac_simps)

text \<open>What a flush releases and what it keeps add up to what was held.\<close>

lemma flush_due_held:
  assumes "buffer_ok b" and "flush_due (Aware t) b = Inr (ready, b')"
  shows "mset ready + held b' = held b" and "buffer_ok b'" and "\<forall>e \<in> set (gb_pending b'). \<not> is_due t b e"
    and "gb_window b' = gb_window b"
  using assms sum_mset_split [of "\<lambda>e. mset (map snd (pg_messages (snd e)))" "gb_pending b" "is_due t b"]
  by (auto simp: flush_due_eq mset_released held_def buffer_ok_def distinct_map_filter simp del: mset_map)

section \<open>Holding a part\<close>

lemma sum_dict_set:
  "(\<Sum>e \<in># mset (dict_set k v d). F (snd e)) + (case map_of d k of None \<Rightarrow> {#} | Some w \<Rightarrow> F w)
     = (\<Sum>e \<in># mset d. F (snd e)) + F v"
  for F :: "'b \<Rightarrow> 'c multiset"
  by (induction d) (auto simp: ac_simps split: option.split)

lemma mset_dict_set:
  "mset (map snd (dict_set k v d)) + (case map_of d k of None \<Rightarrow> {#} | Some w \<Rightarrow> {#w#}) = add_mset v (mset (map snd d))"
  by (induction d) (auto split: option.split)

text \<open>The older delivery of the same component, when it is still pending.\<close>

definition superseded :: "telegram_message \<Rightarrow> int \<Rightarrow> group_buffer \<Rightarrow> telegram_message multiset" where
  "superseded m grouped b =
     (case map_of (gb_pending b) (tm_source_channel_id m, grouped) of
        None \<Rightarrow> {#}
      | Some g \<Rightarrow> (case map_of (pg_messages g) (tm_telegram_message_id m) of None \<Rightarrow> {#} | Some x \<Rightarrow> {#x#}))"

lemma exchange: "H + W = B + G \<Longrightarrow> G + S = add_mset m W \<Longrightarrow> H + S = add_mset m B" for H :: "'a multiset"
proof -
  assume a: "H + W = B + G" "G + S = add_mset m W"
  have "(H + S) + W = (H + W) + S" by (simp add: ac_simps)
  also have "\<dots> = B + (G + S)" by (simp only: a(1) add.assoc)
  also have "\<dots> = add_mset m B + W" by (simp add: a(2))
  finally show ?thesis by simp
qed

lemma hold_message_held: "held (hold_message m grouped t b) + superseded m grouped b = add_mset m (held b)"
proof -
  let ?F = "\<lambda>g. mset (map snd (pg_messages g))"
  let ?key = "(tm_source_channel_id m, grouped)"
  define old where "old = map_of (gb_pending b) ?key"
  define g where "g = (case old of None \<Rightarrow> \<lparr>pg_first_received_at = t, pg_messages = []\<rparr> | Some g \<Rightarrow> g)"
  let ?g = "g\<lparr>pg_messages := dict_set (tm_telegram_message_id m) m (pg_messages g)\<rparr>"
  have h: "held (hold_message m grouped t b) = (\<Sum>e \<in># mset (dict_set ?key ?g (gb_pending b)). ?F (snd e))"
    by (simp add: hold_message_def Let_def held_def g_def old_def)
  have o: "(\<Sum>e \<in># mset (dict_set ?key ?g (gb_pending b)). ?F (snd e)) + (case old of None \<Rightarrow> {#} | Some w \<Rightarrow> ?F w)
      = held b + ?F ?g"
    unfolding old_def held_def by (rule sum_dict_set)
  have i: "?F ?g + (case map_of (pg_messages g) (tm_telegram_message_id m) of None \<Rightarrow> {#} | Some w \<Rightarrow> {#w#})
      = add_mset m (?F g)"
    using mset_dict_set [of "tm_telegram_message_id m" m "pg_messages g"] by simp
  show ?thesis
  proof (cases old)
    case None
    then have "?F g = {#}" "superseded m grouped b = {#}" "map_of (pg_messages g) (tm_telegram_message_id m) = None"
      by (simp_all add: g_def superseded_def old_def)
    with h o i None show ?thesis by simp
  next
    case (Some w)
    then have w: "g = w" "superseded m grouped b = (case map_of (pg_messages g) (tm_telegram_message_id m) of None \<Rightarrow> {#} | Some w \<Rightarrow> {#w#})"
      by (simp_all add: g_def superseded_def old_def)
    from o have "held (hold_message m grouped t b) + ?F w = held b + ?F ?g" by (simp only: h Some option.case)
    moreover from i have "?F ?g + superseded m grouped b = add_mset m (?F w)" by (simp only: w)
    ultimately show ?thesis by (rule exchange)
  qed
qed

lemma dict_set_in: "(k, v) \<in> set (dict_set k v d)"
  by (induction d) auto

lemma hold_message_in: "m \<in># held (hold_message m grouped t b)"
proof -
  let ?key = "(tm_source_channel_id m, grouped)"
  let ?g = "case map_of (gb_pending b) ?key of None \<Rightarrow> \<lparr>pg_first_received_at = t, pg_messages = []\<rparr> | Some g \<Rightarrow> g"
  let ?h = "?g\<lparr>pg_messages := dict_set (tm_telegram_message_id m) m (pg_messages ?g)\<rparr>"
  have "(?key, ?h) \<in> set (gb_pending (hold_message m grouped t b))"
    by (simp add: hold_message_def Let_def dict_set_in)
  moreover have "m \<in># mset (map snd (pg_messages (snd (?key, ?h))))"
    using dict_set_in [of "tm_telegram_message_id m" m] by (force simp: image_iff)
  ultimately show ?thesis by (rule held_member)
qed

lemma hold_message_rest:
  "buffer_ok b \<Longrightarrow> buffer_ok (hold_message m grouped t b)" "gb_window (hold_message m grouped t b) = gb_window b"
  by (simp_all add: hold_message_def Let_def buffer_ok_def dict_simps)

text \<open>Each message is filed under its own channel, group and id.\<close>

definition filed_group :: "group_key \<Rightarrow> pending_group \<Rightarrow> bool" where
  "filed_group k g \<longleftrightarrow> (\<forall>e \<in> set (pg_messages g).
     k = (tm_source_channel_id (snd e), the (tm_telegram_grouped_id (snd e))) \<and> fst e = tm_telegram_message_id (snd e))"

definition filed :: "group_buffer \<Rightarrow> bool" where
  "filed b \<longleftrightarrow> (\<forall>e \<in> set (gb_pending b). filed_group (fst e) (snd e))"

lemma filed_lookup: "filed b \<Longrightarrow> map_of (gb_pending b) k = Some g \<Longrightarrow> filed_group k g"
  by (auto simp: filed_def dest!: map_of_SomeD)

lemma hold_message_filed:
  assumes "filed b" and "tm_telegram_grouped_id m = Some grouped"
  shows "filed (hold_message m grouped t b)"
proof -
  let ?key = "(tm_source_channel_id m, grouped)"
  let ?g = "case map_of (gb_pending b) ?key of None \<Rightarrow> \<lparr>pg_first_received_at = t, pg_messages = []\<rparr> | Some g \<Rightarrow> g"
  let ?h = "?g\<lparr>pg_messages := dict_set (tm_telegram_message_id m) m (pg_messages ?g)\<rparr>"
  have "filed_group ?key ?g"
    using filed_lookup [OF assms(1)] by (auto simp: filed_group_def split: option.split)
  then have "filed_group ?key ?h"
    using set_dict_set [of "tm_telegram_message_id m" m "pg_messages ?g"] assms(2)
    unfolding filed_group_def by (intro ballI) (auto split del: option.split)
  moreover have "set (gb_pending (hold_message m grouped t b)) \<subseteq> insert (?key, ?h) (set (gb_pending b))"
    unfolding hold_message_def Let_def by (simp add: set_dict_set)
  ultimately show ?thesis using assms(1) unfolding filed_def by auto
qed

lemma superseded_component:
  assumes "filed b" and "x \<in># superseded m grouped b" and "tm_telegram_grouped_id m = Some grouped"
  shows "component_key x = component_key m"
proof -
  from assms(2) obtain g where g: "map_of (gb_pending b) (tm_source_channel_id m, grouped) = Some g"
      "map_of (pg_messages g) (tm_telegram_message_id m) = Some x"
    by (auto simp: superseded_def split: option.splits)
  from filed_lookup [OF assms(1) g(1)] map_of_SomeD [OF g(2)] show ?thesis
    by (auto simp: filed_group_def component_key_def)
qed

section \<open>Runs of the buffer\<close>

datatype buffer_call = Add telegram_message datetime | Flush_due datetime | Flush_all

fun perform_call :: "buffer_call \<Rightarrow> group_buffer \<Rightarrow> (telegram_message list \<times> group_buffer) result" where
  "perform_call (Add m now) b = add_message m now b"
| "perform_call (Flush_due now) b = flush_due now b"
| "perform_call Flush_all b = flush_all b"

text \<open>A call that raises leaves the buffer as it was.\<close>

fun buffer_run :: "buffer_call list \<Rightarrow> group_buffer \<Rightarrow> telegram_message list \<times> group_buffer" where
  "buffer_run [] b = ([], b)"
| "buffer_run (c # cs) b =
     (case perform_call c b of
        Inl _ \<Rightarrow> buffer_run cs b
      | Inr (released, b1) \<Rightarrow> (case buffer_run cs b1 of (later, b2) \<Rightarrow> (released @ later, b2)))"

text \<open>The messages that the calls brought in: a naive clock is refused.\<close>

fun added :: "buffer_call list \<Rightarrow> telegram_message list" where
  "added [] = []"
| "added (Add m (Aware t) # cs) = m # added cs"
| "added (c # cs) = added cs"

lemma superseded_held: "x \<in># superseded m grouped b \<Longrightarrow> x \<in># held b"
  unfolding superseded_def held_def
  by (auto dest!: map_of_SomeD split: option.splits) (metis image_eqI snd_conv)+

definition buffer_sound :: "group_buffer \<Rightarrow> bool" where
  "buffer_sound b \<longleftrightarrow> buffer_ok b \<and> filed b"

lemma filed_filter: "filed b \<Longrightarrow> filed (b\<lparr>gb_pending := filter P (gb_pending b)\<rparr>)"
  by (simp add: filed_def)

lemma flush_due_sound:
  assumes "buffer_sound b" and "flush_due now b = Inr (ready, b')"
  obtains t where "now = Aware t" "buffer_sound b'" "mset ready + held b' = held b"
    "gb_pending b' = filter (\<lambda>e. \<not> is_due t b e) (gb_pending b)" "gb_window b' = gb_window b"
    "ready = concat (map (\<lambda>e. group_messages (snd e)) (sort_key release_order (filter (is_due t b) (gb_pending b))))"
proof -
  from assms(2) obtain t where t: "now = Aware t" by (cases now) (simp_all add: flush_due_def)
  have ok: "buffer_ok b" "filed b" using assms(1) by (simp_all add: buffer_sound_def)
  note f = assms(2) [unfolded t]
  from f have b': "b' = b\<lparr>gb_pending := filter (\<lambda>e. \<not> is_due t b e) (gb_pending b)\<rparr>"
      and r: "ready = concat (map (\<lambda>e. group_messages (snd e)) (sort_key release_order (filter (is_due t b) (gb_pending b))))"
    by (simp_all add: flush_due_eq [OF ok(1)])
  have "buffer_sound b'" using flush_due_held(2) [OF ok(1) f] filed_filter [OF ok(2)] by (simp add: buffer_sound_def b')
  with t r flush_due_held(1,4) [OF ok(1) f] that show thesis by (simp add: b')
qed

lemma add_message_sound:
  assumes "buffer_sound b" and "add_message m now b = Inr (ready, b')"
  shows "\<exists>t. now = Aware t" and "buffer_sound b'"
    and "\<exists>dropped. mset ready + held b' + dropped = add_mset m (held b)
      \<and> (\<forall>x \<in># dropped. component_key x = component_key m \<and> x \<in># held b)"
    and "m \<in># mset ready + held b'"
proof -
  obtain t where t: "now = Aware t" using assms(2) by (cases now) (simp_all add: add_message_def)
  from assms(2) obtain p where p: "flush_due (Aware t) b = Inr p" "(case p of (r, b1) \<Rightarrow> case tm_telegram_grouped_id m of
      None \<Rightarrow> Inr (r @ [m], b1) | Some grouped \<Rightarrow> Inr (r, hold_message m grouped t b1)) = (Inr (ready, b') :: (telegram_message list \<times> group_buffer) result)"
    unfolding add_message_def t ensure_aware.simps try_bind_simps by (rule try_bindE) (rule that)
  obtain r b1 where "p = (r, b1)" by (cases p)
  with p t have f: "flush_due now b = Inr (r, b1)" and c: "(case tm_telegram_grouped_id m of None \<Rightarrow> Inr (r @ [m], b1)
        | Some grouped \<Rightarrow> Inr (r, hold_message m grouped t b1)) = (Inr (ready, b') :: (telegram_message list \<times> group_buffer) result)" by simp_all
  obtain b1: "buffer_sound b1" "mset r + held b1 = held b"
    by (rule flush_due_sound [OF assms(1) f]) (rule that)
  show "\<exists>t. now = Aware t" using t by blast
  show "m \<in># mset ready + held b'"
    using c hold_message_in by (cases "tm_telegram_grouped_id m") auto
  show "buffer_sound b'"
    using c b1(1) hold_message_rest(1) hold_message_filed
    by (cases "tm_telegram_grouped_id m") (auto simp: buffer_sound_def)
  show "\<exists>dropped. mset ready + held b' + dropped = add_mset m (held b)
      \<and> (\<forall>x \<in># dropped. component_key x = component_key m \<and> x \<in># held b)"
  proof (cases "tm_telegram_grouped_id m")
    case None
    with c b1(2) show ?thesis by (intro exI [of _ "{#}"]) (auto simp: ac_simps)
  next
    case (Some grouped)
    with c have e: "ready = r" "b' = hold_message m grouped t b1" by simp_all
    have h: "held b' + superseded m grouped b1 = add_mset m (held b1)" unfolding e by (rule hold_message_held)
    have "mset ready + held b' + superseded m grouped b1 = add_mset m (held b)"
      using h b1(2) e(1) by (metis add.assoc add_mset_add_single)
    moreover have "component_key x = component_key m \<and> x \<in># held b" if "x \<in># superseded m grouped b1" for x
    proof -
      from superseded_component [OF _ that Some] b1(1) have "component_key x = component_key m"
        by (simp add: buffer_sound_def)
      moreover from superseded_held [OF that] b1(2) have "x \<in># held b" by (metis union_iff)
      ultimately show ?thesis by simp
    qed
    ultimately show ?thesis by blast
  qed
qed

lemma flush_all_sound:
  assumes "buffer_sound b" and "flush_all b = Inr (ready, b')"
  shows "buffer_sound b'" and "mset ready + held b' = held b"
proof -
  have ok: "buffer_ok b" using assms(1) by (simp add: buffer_sound_def)
  from assms(2) have b': "b' = b\<lparr>gb_pending := []\<rparr>"
      and r: "ready = concat (map (\<lambda>e. group_messages (snd e)) (sort_key release_order (gb_pending b)))"
    by (simp_all add: flush_all_eq [OF ok])
  show "buffer_sound b'" by (simp add: b' buffer_sound_def buffer_ok_def filed_def)
  show "mset ready + held b' = held b" by (simp add: b' r mset_released held_def del: mset_map)
qed

text \<open>Nothing is invented or doubled, and no component disappears.\<close>

definition call_effect :: "telegram_message list \<Rightarrow> telegram_message list \<Rightarrow> group_buffer \<Rightarrow> group_buffer \<Rightarrow> bool" where
  "call_effect new released b b' \<longleftrightarrow> buffer_sound b' \<and> mset released + held b' \<subseteq># mset new + held b
     \<and> component_key ` (set new \<union> set_mset (held b)) = component_key ` (set released \<union> set_mset (held b'))"

lemma effect_equal: "buffer_sound b' \<Longrightarrow> mset released + held b' = mset new + held b \<Longrightarrow> call_effect new released b b'"
  by (simp add: call_effect_def) (metis set_mset_mset set_mset_union)

lemma effect_refl [simp]: "buffer_sound b \<Longrightarrow> call_effect [] [] b b"
  by (simp add: call_effect_def)

lemma join_covers: "N1 \<union> A = R1 \<union> B \<Longrightarrow> N2 \<union> B = R2 \<union> C \<Longrightarrow> N1 \<union> N2 \<union> A = R1 \<union> R2 \<union> C"
  by blast

lemma effect_trans:
  assumes "call_effect n1 r1 a b" and "call_effect n2 r2 b c"
  shows "call_effect (n1 @ n2) (r1 @ r2) a c"
proof -
  have "mset r1 + (mset r2 + held c) \<subseteq># mset r1 + (mset n2 + held b)"
    using assms(2) by (simp add: call_effect_def)
  also have "\<dots> = mset n2 + (mset r1 + held b)" by (simp add: ac_simps)
  also have "\<dots> \<subseteq># mset n2 + (mset n1 + held a)" using assms(1) by (simp add: call_effect_def)
  finally have "mset (r1 @ r2) + held c \<subseteq># mset (n1 @ n2) + held a" by (simp add: ac_simps)
  moreover have c: "component_key ` set n1 \<union> component_key ` set_mset (held a) = component_key ` set r1 \<union> component_key ` set_mset (held b)"
      "component_key ` set n2 \<union> component_key ` set_mset (held b) = component_key ` set r2 \<union> component_key ` set_mset (held c)"
    using assms by (simp_all add: call_effect_def image_Un)
  have "component_key ` (set (n1 @ n2) \<union> set_mset (held a)) = component_key ` (set (r1 @ r2) \<union> set_mset (held c))"
    unfolding set_append image_Un by (rule join_covers [OF c])
  ultimately show ?thesis using assms(2) by (simp add: call_effect_def)
qed

lemma perform_call_effect:
  assumes "buffer_sound b" and "perform_call c b = Inr (released, b')"
  shows "call_effect (added [c]) released b b'"
proof (cases c)
  case (Add m now)
  with assms(2) have a: "add_message m now b = Inr (released, b')" by simp
  from add_message_sound [OF assms(1) a] obtain t dropped where t: "now = Aware t" and s: "buffer_sound b'"
    and e: "mset released + held b' + dropped = add_mset m (held b)"
    and d: "\<forall>x \<in># dropped. component_key x = component_key m \<and> x \<in># held b" by blast
  have sub: "mset released + held b' \<subseteq># add_mset m (held b)" by (metis e mset_subset_eq_add_left)
  have set_eq: "set released \<union> set_mset (held b') \<union> set_mset dropped = insert m (set_mset (held b))"
    using arg_cong [OF e, of set_mset] by simp
  have "m \<in># mset released + held b'" by (rule add_message_sound(4) [OF assms(1) a])
  then have c1: "component_key ` insert m (set_mset (held b)) \<subseteq> component_key ` (set released \<union> set_mset (held b'))"
    unfolding set_eq [symmetric] image_Un using d by (auto simp: image_iff)
  have c2: "component_key ` (set released \<union> set_mset (held b')) \<subseteq> component_key ` insert m (set_mset (held b))"
    unfolding set_eq [symmetric] by blast
  from equalityI [OF c1 c2] s sub show ?thesis by (simp add: call_effect_def Add t)
next
  case (Flush_due now)
  with assms have f: "flush_due now b = Inr (released, b')" by simp
  from assms(1) f obtain t where "buffer_sound b'" "mset released + held b' = held b" by (rule flush_due_sound)
  then show ?thesis by (intro effect_equal) (simp_all add: Flush_due)
next
  case Flush_all
  with assms have f: "flush_all b = Inr (released, b')" by simp
  from flush_all_sound [OF assms(1) f] show ?thesis by (intro effect_equal) (simp_all add: Flush_all)
qed

lemma added_append: "added (cs @ ds) = added cs @ added ds"
proof (induction cs)
  case (Cons c cs)
  then show ?case
  proof (cases c)
    case (Add m now)
    with Cons show ?thesis by (cases now) simp_all
  qed simp_all
qed simp

lemma refused_call: "perform_call c b = Inl e \<Longrightarrow> buffer_sound b \<Longrightarrow> added [c] = []"
proof (cases c)
  case (Add m now)
  moreover assume "perform_call c b = Inl e" "buffer_sound b"
  ultimately show ?thesis
    by (cases now; cases "tm_telegram_grouped_id m") (auto simp: add_message_def flush_due_eq buffer_sound_def)
qed simp_all

lemma buffer_run_effect: "buffer_sound b \<Longrightarrow> buffer_run cs b = (released, b') \<Longrightarrow> call_effect (added cs) released b b'"
proof (induction cs arbitrary: b released)
  case (Cons c cs)
  have split: "added (c # cs) = added [c] @ added cs" using added_append [of "[c]" cs] by simp
  show ?case
  proof (cases "perform_call c b")
    case (Inl e)
    with Cons.prems have "buffer_run cs b = (released, b')" by simp
    from Cons.IH [OF Cons.prems(1) this] show ?thesis by (simp add: split refused_call [OF Inl Cons.prems(1)])
  next
    case (Inr p)
    obtain r1 b1 where p: "p = (r1, b1)" by (cases p)
    obtain r2 b2 where r2: "buffer_run cs b1 = (r2, b2)" by (cases "buffer_run cs b1")
    with Inr p Cons.prems have e: "released = r1 @ r2" "b2 = b'" by simp_all
    note one = perform_call_effect [OF Cons.prems(1) Inr [unfolded p]]
    have "buffer_sound b1" using one by (simp add: call_effect_def)
    from effect_trans [OF one Cons.IH [OF this r2 [unfolded e(2)]]] show ?thesis by (simp only: split e(1))
  qed
qed simp

text \<open>
  Only a newer copy of a component takes the place of one: after a run the newest copy that was added
  of each component is there, and so is each held message of a component that was not added again.
\<close>

definition newest_kept :: "telegram_message list \<Rightarrow> telegram_message list \<Rightarrow> group_buffer \<Rightarrow> group_buffer \<Rightarrow> bool" where
  "newest_kept new released b b' \<longleftrightarrow>
     (\<forall>before m after. new = before @ m # after \<and> component_key m \<notin> component_key ` set after \<longrightarrow> m \<in># mset released + held b')
     \<and> (\<forall>m. m \<in># held b \<and> component_key m \<notin> component_key ` set new \<longrightarrow> m \<in># mset released + held b')"

lemma newest_equal: "mset released + held b' = held b \<Longrightarrow> newest_kept [] released b b'"
  by (simp add: newest_kept_def)

lemma append_split_at:
  assumes "xs @ ys = before @ x # after"
  obtains us where "xs = before @ x # us" and "after = us @ ys" | us where "before = xs @ us" and "ys = us @ x # after"
proof -
  from assms obtain us where us: "xs = before @ us \<and> us @ ys = x # after \<or> xs @ us = before \<and> ys = us @ x # after"
    unfolding append_eq_append_conv2 by blast
  then show ?thesis
  proof
    assume u: "xs = before @ us \<and> us @ ys = x # after"
    show ?thesis
    proof (cases us)
      case Nil
      with u show ?thesis using that(2) [of "[]"] by simp
    next
      case (Cons y us')
      with u show ?thesis using that(1) [of us'] by simp
    qed
  qed (use that(2) in blast)
qed

lemma newest_trans:
  assumes "newest_kept n1 r1 a b" and "newest_kept n2 r2 b c"
  shows "newest_kept (n1 @ n2) (r1 @ r2) a c"
proof -
  have carry: "m \<in># mset (r1 @ r2) + held c" if "m \<in># mset r1 + held b" "component_key m \<notin> component_key ` set n2" for m
  proof (cases "m \<in># held b")
    case True
    with assms(2) that(2) have "m \<in># mset r2 + held c" unfolding newest_kept_def by blast
    then show ?thesis by auto
  qed (use that(1) in simp)
  have new: "m \<in># mset (r1 @ r2) + held c"
    if s: "n1 @ n2 = before @ m # after" and k: "component_key m \<notin> component_key ` set after" for before m after
  proof -
    from s consider us where "n1 = before @ m # us" "after = us @ n2" | us where "before = n1 @ us" "n2 = us @ m # after"
      by (rule append_split_at)
    then show ?thesis
    proof cases
      case 1
      then have "component_key m \<notin> component_key ` set us" "component_key m \<notin> component_key ` set n2" using k by auto
      with 1 assms(1) have "m \<in># mset r1 + held b" unfolding newest_kept_def by blast
      then show ?thesis by (rule carry) fact
    next
      case 2
      with k assms(2) have "m \<in># mset r2 + held c" unfolding newest_kept_def by blast
      then show ?thesis by auto
    qed
  qed
  moreover have "m \<in># mset (r1 @ r2) + held c"
    if "m \<in># held a" "component_key m \<notin> component_key ` set (n1 @ n2)" for m
  proof (rule carry)
    show "m \<in># mset r1 + held b" using assms(1) that unfolding newest_kept_def by auto
  qed (use that(2) in auto)
  ultimately show ?thesis unfolding newest_kept_def by blast
qed

lemma perform_call_newest:
  assumes "buffer_sound b" and "perform_call c b = Inr (released, b')"
  shows "newest_kept (added [c]) released b b'"
proof (cases c)
  case (Add m now)
  with assms(2) have a: "add_message m now b = Inr (released, b')" by simp
  from add_message_sound(1,3) [OF assms(1) a] obtain t dropped where t: "now = Aware t"
    and e: "mset released + held b' + dropped = add_mset m (held b)"
    and d: "\<forall>x \<in># dropped. component_key x = component_key m" by blast
  have "x \<in># mset released + held b'" if "x \<in># held b" "component_key x \<noteq> component_key m" for x
  proof -
    have "x \<in># mset released + held b' + dropped" using that(1) by (simp add: e)
    with d that(2) show ?thesis by auto
  qed
  with add_message_sound(4) [OF assms(1) a] show ?thesis by (auto simp: Add t newest_kept_def Cons_eq_append_conv)
next
  case (Flush_due now)
  with assms have f: "flush_due now b = Inr (released, b')" by simp
  from assms(1) f obtain t where "mset released + held b' = held b" by (rule flush_due_sound)
  then show ?thesis using newest_equal by (simp add: Flush_due)
next
  case Flush_all
  with assms have f: "flush_all b = Inr (released, b')" by simp
  from newest_equal [OF flush_all_sound(2) [OF assms(1) f]] show ?thesis by (simp add: Flush_all)
qed

lemma buffer_run_newest: "buffer_sound b \<Longrightarrow> buffer_run cs b = (released, b') \<Longrightarrow> newest_kept (added cs) released b b'"
proof (induction cs arbitrary: b released)
  case Nil
  then show ?case by (simp add: newest_equal)
next
  case (Cons c cs)
  have split: "added (c # cs) = added [c] @ added cs" using added_append [of "[c]" cs] by simp
  show ?case
  proof (cases "perform_call c b")
    case (Inl e)
    with Cons.prems have "buffer_run cs b = (released, b')" by simp
    from Cons.IH [OF Cons.prems(1) this] show ?thesis by (simp add: split refused_call [OF Inl Cons.prems(1)])
  next
    case (Inr p)
    obtain r1 b1 where p: "p = (r1, b1)" by (cases p)
    obtain r2 b2 where r2: "buffer_run cs b1 = (r2, b2)" by (cases "buffer_run cs b1")
    with Inr p Cons.prems have e: "released = r1 @ r2" "b2 = b'" by simp_all
    have "buffer_sound b1" using perform_call_effect [OF Cons.prems(1) Inr [unfolded p]] by (simp add: call_effect_def)
    from newest_trans [OF perform_call_newest [OF Cons.prems(1) Inr [unfolded p]] Cons.IH [OF this r2 [unfolded e(2)]]]
    show ?thesis by (simp only: split e(1))
  qed
qed

lemma new_buffer_sound: "new_buffer w = Inr b \<Longrightarrow> buffer_sound b \<and> held b = {#}"
  by (auto simp: new_buffer_def result_simps buffer_sound_def buffer_ok_def filed_def held_def)

lemma exact_cover:
  assumes "M \<subseteq># mset xs" and "distinct (map f xs)" and "f ` set xs = f ` set_mset M"
  shows "M = mset xs"
proof (rule subset_mset.antisym [OF assms(1)])
  show "mset xs \<subseteq># M"
  proof (rule mset_subset_eqI)
    fix x
    show "count (mset xs) x \<le> count M x"
    proof (cases "x \<in> set xs")
      case True
      with assms(3) obtain y where y: "y \<in># M" "f y = f x" by (metis image_eqI imageE)
      with assms(1) have "y \<in> set xs" by (metis mset_subset_eqD set_mset_mset)
      with assms(2) True y(2) have "y = x" unfolding distinct_map by (meson inj_onD)
      moreover have "count (mset xs) x = 1"
        using True assms(2) distinct_count_atmost_1 [of xs] by (simp add: distinct_map)
      ultimately show ?thesis using y(1) by (simp add: Suc_leI)
    next
      case False
      then show ?thesis by (metis count_mset_0_iff le0)
    qed
  qed
qed

lemma perform_call_window:
  assumes "buffer_sound b" and "perform_call c b = Inr (released, b')"
  shows "gb_window b' = gb_window b"
proof (cases c)
  case (Add m now)
  with assms obtain r b1 where f: "flush_due now b = Inr (r, b1)" and "gb_window b' = gb_window b1"
    by (fastforce simp: add_message_def hold_message_rest result_simps split: option.splits)
  from flush_due_sound [OF assms(1) f] have "gb_window b1 = gb_window b" .
  with \<open>gb_window b' = gb_window b1\<close> show ?thesis by simp
next
  case (Flush_due now)
  with assms(2) have f: "flush_due now b = Inr (released, b')" by simp
  show ?thesis by (rule flush_due_sound [OF assms(1) f])
next
  case Flush_all
  with assms show ?thesis by (auto simp: flush_all_eq buffer_sound_def)
qed

lemma buffer_run_window: "buffer_sound b \<Longrightarrow> gb_window (snd (buffer_run cs b)) = gb_window b"
proof (induction cs arbitrary: b)
  case (Cons c cs)
  show ?case
  proof (cases "perform_call c b")
    case (Inr p)
    obtain r1 b1 where p: "p = (r1, b1)" by (cases p)
    from perform_call_effect [OF Cons.prems Inr [unfolded p]] have "buffer_sound b1" by (simp add: call_effect_def)
    from Cons.IH [OF this] perform_call_window [OF Cons.prems Inr [unfolded p]] Inr p show ?thesis
      by (simp add: split_def)
  qed (use Cons in simp)
qed simp

section \<open>Properties\<close>

text \<open>
  C40: The buffer neither loses nor invents: over any sequence of calls on a new buffer, what it
  released and what it still holds are messages that were added, and every component that was added
  is among them, in its newest copy: a message may only be missing when a later call added the same
  component.  If no component was delivered twice, they are exactly the messages added, each once.
\<close>

theorem buffer_conserves_components:
  assumes "new_buffer window = Inr b0" and "buffer_run calls b0 = (released, b)"
  shows "mset released + held b \<subseteq># mset (added calls)
    \<and> component_key ` set (added calls) = component_key ` (set released \<union> set_mset (held b))
    \<and> (\<forall>before m after. added calls = before @ m # after \<and> m \<notin># mset released + held b \<longrightarrow>
         (\<exists>newer \<in> set after. component_key newer = component_key m))
    \<and> (distinct (map component_key (added calls)) \<longrightarrow> mset released + held b = mset (added calls))"
proof -
  from new_buffer_sound [OF assms(1)] have b0: "buffer_sound b0" "held b0 = {#}" by simp_all
  from buffer_run_effect [OF b0(1) assms(2)] have
    e: "mset released + held b \<subseteq># mset (added calls)"
       "component_key ` set (added calls) = component_key ` (set released \<union> set_mset (held b))"
    by (simp_all add: call_effect_def b0(2))
  have "\<exists>newer \<in> set after. component_key newer = component_key m"
    if "added calls = before @ m # after \<and> m \<notin># mset released + held b" for before m after
  proof (rule ccontr)
    assume "\<not> (\<exists>newer \<in> set after. component_key newer = component_key m)"
    then have "component_key m \<notin> component_key ` set after" by (auto simp: image_iff)
    with buffer_run_newest [OF b0(1) assms(2)] that show False unfolding newest_kept_def by blast
  qed
  moreover have "mset released + held b = mset (added calls)" if "distinct (map component_key (added calls))"
    by (rule exact_cover [OF e(1) that]) (simp only: e(2) set_mset_union set_mset_mset)
  ultimately show ?thesis using e by blast
qed

definition sample_calls :: "buffer_call list" where
  "sample_calls = [Add (sample_component 3 (Some 9)) (Aware 10), Add (sample_component 1 None) (Aware 11),
     Add (sample_component 2 (Some 9)) (Aware 12)]"

definition sample_buffer :: group_buffer where
  "sample_buffer = \<lparr>gb_window = 5, gb_pending = []\<rparr>"

text \<open>A redelivery with an edit, while the group is still held.\<close>

definition edited_component :: telegram_message where
  "edited_component = (sample_component 3 (Some 9))\<lparr>tm_original_text := Some ''edited''\<rparr>"

theorem buffer_conserves_components_witness:
  "(\<exists>released b. buffer_run sample_calls sample_buffer = (released, b) \<and> mset released + held b = mset (added sample_calls))
   \<and> (\<exists>released b. buffer_run (sample_calls @ [Add edited_component (Aware 13)]) sample_buffer = (released, b)
        \<and> edited_component \<in># mset released + held b)"
proof
  have n: "new_buffer 5 = Inr sample_buffer" by code_simp
  obtain released b where r: "buffer_run sample_calls sample_buffer = (released, b)"
    by (cases "buffer_run sample_calls sample_buffer")
  have "distinct (map component_key (added sample_calls))" by code_simp
  with buffer_conserves_components [OF n r] r
  show "\<exists>released b. buffer_run sample_calls sample_buffer = (released, b) \<and> mset released + held b = mset (added sample_calls)"
    by blast
  obtain released' b' where r': "buffer_run (sample_calls @ [Add edited_component (Aware 13)]) sample_buffer = (released', b')"
    by (cases "buffer_run (sample_calls @ [Add edited_component (Aware 13)]) sample_buffer")
  have "added (sample_calls @ [Add edited_component (Aware 13)]) = added sample_calls @ edited_component # []"
    by (simp add: added_append)
  with buffer_conserves_components [OF n r'] have "edited_component \<in># mset released' + held b'" by fastforce
  with r' show "\<exists>released b. buffer_run (sample_calls @ [Add edited_component (Aware 13)]) sample_buffer = (released, b)
        \<and> edited_component \<in># mset released + held b" by blast
qed

text \<open>
  A group waits its window and no longer: a message that a call hands on is the regular
  message just added or a part of a group whose window has elapsed, and after the call every group
  that is still held was first received less than the window ago, however many parts came later.
\<close>

theorem groups_wait_their_window:
  assumes "new_buffer window = Inr b0" and "snd (buffer_run calls b0) = b"
    and "add_message m (Aware t) b = Inr (ready, b')"
  shows "(\<forall>x \<in> set ready. x = m \<and> tm_telegram_grouped_id m = None
      \<or> (\<exists>e \<in> set (gb_pending b). x \<in> set (group_messages (snd e)) \<and> pg_first_received_at (snd e) + window \<le> t))
    \<and> (\<forall>e \<in> set (gb_pending b'). t < pg_first_received_at (snd e) + window)"
proof -
  note b0 = new_buffer_sound [OF assms(1), THEN conjunct1]
  obtain released where run: "buffer_run calls b0 = (released, b)" using assms(2) by (cases "buffer_run calls b0") simp
  from buffer_run_effect [OF b0 run] have b: "buffer_sound b" by (simp add: call_effect_def)
  have w: "gb_window b = window" "0 < window"
    using buffer_run_window [OF b0, of calls] assms(1,2) by (auto simp: new_buffer_def result_simps)
  from assms(3) obtain r b1 where f: "flush_due (Aware t) b = Inr (r, b1)"
    and c: "ready = r @ [m] \<and> b' = b1 \<and> tm_telegram_grouped_id m = None
      \<or> (\<exists>grouped. ready = r \<and> b' = hold_message m grouped t b1)"
    by (fastforce simp: add_message_def result_simps split: option.splits)
  have b1: "gb_pending b1 = filter (\<lambda>e. \<not> is_due t b e) (gb_pending b)"
      "r = concat (map (\<lambda>e. group_messages (snd e)) (sort_key release_order (filter (is_due t b) (gb_pending b))))"
    using flush_due_sound [OF b f] by (metis datetime.inject(1))+
  have old: "t < pg_first_received_at (snd e) + window" if "e \<in> set (gb_pending b1)" for e
    using that by (auto simp: b1 is_due_def w)
  have new: "t < pg_first_received_at (snd e) + window" if e: "e \<in> set (gb_pending (hold_message m grouped t b1))" for e grouped
  proof -
    let ?key = "(tm_source_channel_id m, grouped)"
    let ?g = "case map_of (gb_pending b1) ?key of None \<Rightarrow> \<lparr>pg_first_received_at = t, pg_messages = []\<rparr> | Some g \<Rightarrow> g"
    from e have "pg_first_received_at (snd e) = pg_first_received_at ?g \<or> e \<in> set (gb_pending b1)"
      using set_dict_set by (fastforce simp: hold_message_def Let_def)
    moreover have "t < pg_first_received_at ?g + window"
      using old w(2) by (cases "map_of (gb_pending b1) ?key") (auto dest!: map_of_SomeD)
    ultimately show ?thesis by (elim disjE) (simp_all add: old)
  qed
  have rel: "\<exists>e \<in> set (gb_pending b). x \<in> set (group_messages (snd e)) \<and> pg_first_received_at (snd e) + window \<le> t"
    if "x \<in> set r" for x
  proof -
    from that obtain e where "e \<in> set (gb_pending b)" "is_due t b e" "x \<in> set (group_messages (snd e))"
      unfolding b1(2) by auto
    then show ?thesis by (intro bexI [of _ e]) (simp_all add: is_due_def w)
  qed
  from c show ?thesis
  proof
    assume "ready = r @ [m] \<and> b' = b1 \<and> tm_telegram_grouped_id m = None"
    with rel old show ?thesis by auto
  next
    assume "\<exists>grouped. ready = r \<and> b' = hold_message m grouped t b1"
    with rel new show ?thesis by auto
  qed
qed

theorem groups_wait_their_window_witness:
  "\<exists>ready b'. add_message (sample_component 4 None) (Aware 15) (snd (buffer_run sample_calls sample_buffer)) = Inr (ready, b')
     \<and> (\<forall>e \<in> set (gb_pending b'). 15 < pg_first_received_at (snd e) + 5)"
proof -
  let ?r = "add_message (sample_component 4 None) (Aware 15) (snd (buffer_run sample_calls sample_buffer))"
  have "isl ?r = False" by code_simp
  then obtain ready b' where r: "?r = Inr (ready, b')" by (cases ?r) auto
  have n: "new_buffer 5 = Inr sample_buffer" by code_simp
  from groups_wait_their_window [OF n refl r] r show ?thesis by blast
qed

end
