(* ===== verification/Reconciliation.thy ===== *)
theory Reconciliation
  imports Media_Group_Buffer Message_Invariant Range_Scheduling
begin

text \<open>
  How messages get from Telegram into the store: the cursors of a source channel and the
  reconciliation after a reconnect (\<^verbatim>\<open>application/reconciliation.py\<close>,
  \<^verbatim>\<open>infrastructure/database/reconciliation_repository.py\<close>), realtime updates through the media group
  buffer (\<^verbatim>\<open>application/realtime_ingestion.py\<close>) and the history of a range execution
  (\<^verbatim>\<open>application/processing/history_ingestion.py\<close>).

  Telegram is a parameter, the record \<open>gateway\<close>.  The transactions of an operation commit one
  by one, so an operation returns its result beside the state it left, an error included.
\<close>

section \<open>Cursors\<close>

record gateway =
  gw_newest :: "string \<Rightarrow> latest_boundary option"
  gw_history :: "string \<Rightarrow> int \<Rightarrow> int \<Rightarrow> telegram_message list"

definition cursor_behind :: "int option \<Rightarrow> int \<Rightarrow> bool" where
  "cursor_behind cursor i = (case cursor of None \<Rightarrow> True | Some c \<Rightarrow> c < i)"

definition check_cursor_arguments :: "string \<Rightarrow> int \<Rightarrow> uuid result" where
  "check_cursor_arguments channel i =
     try_bind (as_uuid channel) (\<lambda>u.
       if i \<le> 0 then fail ''telegram_message_id must be a positive integer''
       else if \<not> fits_bigint i then Inl DataError else Inr u)"

definition record_latest_seen :: "int \<Rightarrow> string \<Rightarrow> int \<Rightarrow> channel_row list \<Rightarrow> (bool \<times> channel_row list) result" where
  "record_latest_seen now channel i rows =
     try_bind (check_cursor_arguments channel i) (\<lambda>u.
       let behind = (\<lambda>r. ch_id r = u \<and> cursor_behind (ch_latest_seen_message_id r) i)
       in Inr (list_ex behind rows,
            update_where behind (\<lambda>r. r\<lparr>ch_latest_seen_message_id := Some i, ch_updated_at := now\<rparr>) rows))"

definition record_ingested :: "int \<Rightarrow> string \<Rightarrow> int \<Rightarrow> channel_row list \<Rightarrow> (bool \<times> channel_row list) result" where
  "record_ingested now channel i rows =
     try_bind (check_cursor_arguments channel i) (\<lambda>u.
       let behind = (\<lambda>r. ch_id r = u \<and> cursor_behind (ch_last_seen_message_id r) i)
       in Inr (list_ex behind rows,
            update_where behind (\<lambda>r. r\<lparr>ch_last_seen_message_id := Some i, ch_updated_at := now\<rparr>) rows))"

definition last_seen :: "string \<Rightarrow> channel_row list \<Rightarrow> int option result" where
  "last_seen channel rows =
     try_bind (as_uuid channel) (\<lambda>u.
       Inr (case find (\<lambda>r. ch_id r = u) rows of None \<Rightarrow> None | Some r \<Rightarrow> ch_last_seen_message_id r))"

section \<open>Reconciliation after a reconnect\<close>

record source_state =
  so_channels :: "channel_row list"
  so_store :: message_store
  so_buffer :: group_buffer

record reconciliation_report =
  rc_from :: int
  rc_to :: "int option"
  rc_logical_messages :: nat
  rc_component_messages :: nat
  rc_last_seen_advanced :: bool

definition nothing_to_reconcile :: "int \<Rightarrow> int option \<Rightarrow> reconciliation_report" where
  "nothing_to_reconcile lo hi =
     \<lparr>rc_from = lo, rc_to = hi, rc_logical_messages = 0, rc_component_messages = 0, rc_last_seen_advanced = False\<rparr>"

fun validate_history_window :: "string \<Rightarrow> int \<Rightarrow> int \<Rightarrow> telegram_message list \<Rightarrow> unit result" where
  "validate_history_window channel lo hi [] = Inr ()"
| "validate_history_window channel lo hi (m # ms) =
     (if tm_source_channel_id m \<noteq> channel
      then fail ''Telegram returned a message for another source channel''
      else if \<not> (lo < tm_telegram_message_id m \<and> tm_telegram_message_id m \<le> hi)
      then fail ''Telegram returned a message outside the window''
      else validate_history_window channel lo hi ms)"

definition reconcile_window ::
  "(string \<Rightarrow> string) \<Rightarrow> (nat \<Rightarrow> fresh_ids) \<Rightarrow> int \<Rightarrow> gateway \<Rightarrow> string \<Rightarrow> int \<Rightarrow> int \<Rightarrow> source_state \<Rightarrow>
     reconciliation_report result \<times> source_state" where
  "reconcile_window sha fresh now gw channel lo hi st =
     (let messages = gw_history gw channel lo hi in
      case validate_history_window channel lo hi messages of
        Inl e \<Rightarrow> (Inl e, st)
      | Inr _ \<Rightarrow> (case ingest_messages sha fresh now messages (so_store st) of
          (Inl e, store) \<Rightarrow> (Inl e, st\<lparr>so_store := store\<rparr>)
        | (Inr report, store) \<Rightarrow> (case record_ingested now channel hi (so_channels st) of
            Inl e \<Rightarrow> (Inl e, st\<lparr>so_store := store\<rparr>)
          | Inr (advanced, rows) \<Rightarrow>
              (Inr \<lparr>rc_from = lo, rc_to = Some hi, rc_logical_messages = ir_logical_messages report,
                 rc_component_messages = ir_component_messages report, rc_last_seen_advanced = advanced\<rparr>,
               st\<lparr>so_store := store, so_channels := rows\<rparr>))))"

definition reconcile ::
  "(string \<Rightarrow> string) \<Rightarrow> (nat \<Rightarrow> fresh_ids) \<Rightarrow> int \<Rightarrow> gateway \<Rightarrow> string \<Rightarrow> source_state \<Rightarrow>
     reconciliation_report result \<times> source_state" where
  "reconcile sha fresh now gw channel st =
     (case last_seen channel (so_channels st) of
        Inl e \<Rightarrow> (Inl e, st)
      | Inr cursor \<Rightarrow>
          let lo = (case cursor of None \<Rightarrow> 0 | Some i \<Rightarrow> i) in
          (case gw_newest gw channel of
             None \<Rightarrow> (Inr (nothing_to_reconcile lo None), st)
           | Some newest \<Rightarrow> (case record_latest_seen now channel (lb_message_id newest) (so_channels st) of
               Inl e \<Rightarrow> (Inl e, st)
             | Inr (_, rows) \<Rightarrow>
                 if lb_message_id newest \<le> lo
                 then (Inr (nothing_to_reconcile lo (Some (lb_message_id newest))), st\<lparr>so_channels := rows\<rparr>)
                 else reconcile_window sha fresh now gw channel lo (lb_message_id newest) (st\<lparr>so_channels := rows\<rparr>))))"

section \<open>Realtime updates\<close>

definition greatest_by_source :: "telegram_message list \<Rightarrow> (string, int) dict" where
  "greatest_by_source ms =
     fold (\<lambda>m d. dict_set (tm_source_channel_id m)
       (max (tm_telegram_message_id m) (case map_of d (tm_source_channel_id m) of None \<Rightarrow> 0 | Some i \<Rightarrow> i)) d) ms []"

fun record_cursors :: "int \<Rightarrow> (string \<times> int) list \<Rightarrow> channel_row list \<Rightarrow> unit result \<times> channel_row list" where
  "record_cursors now [] rows = (Inr (), rows)"
| "record_cursors now ((channel, i) # rest) rows =
     (case record_latest_seen now channel i rows of
        Inl e \<Rightarrow> (Inl e, rows)
      | Inr (_, rows1) \<Rightarrow> (case record_ingested now channel i rows1 of
          Inl e \<Rightarrow> (Inl e, rows1)
        | Inr (_, rows2) \<Rightarrow> record_cursors now rest rows2))"

definition ingest_ready ::
  "(string \<Rightarrow> string) \<Rightarrow> (nat \<Rightarrow> fresh_ids) \<Rightarrow> int \<Rightarrow> telegram_message list \<Rightarrow> source_state \<Rightarrow>
     ingest_report result \<times> source_state" where
  "ingest_ready sha fresh clock ms st =
     (if ms = [] then (Inr \<lparr>ir_logical_messages = 0, ir_component_messages = 0\<rparr>, st)
      else (case ingest_messages sha fresh clock ms (so_store st) of
          (Inl e, store) \<Rightarrow> (Inl e, st\<lparr>so_store := store\<rparr>)
        | (Inr report, store) \<Rightarrow>
            (case record_cursors clock (sort_key id (greatest_by_source ms)) (so_channels st) of
               (Inl e, rows) \<Rightarrow> (Inl e, st\<lparr>so_store := store, so_channels := rows\<rparr>)
             | (Inr _, rows) \<Rightarrow> (Inr report, st\<lparr>so_store := store, so_channels := rows\<rparr>))))"

definition realtime_update ::
  "(string \<Rightarrow> string) \<Rightarrow> (nat \<Rightarrow> fresh_ids) \<Rightarrow> int \<Rightarrow> telegram_message \<Rightarrow> datetime \<Rightarrow> source_state \<Rightarrow>
     ingest_report result \<times> source_state" where
  "realtime_update sha fresh clock m now st =
     (case add_message m now (so_buffer st) of
        Inl e \<Rightarrow> (Inl e, st)
      | Inr (ready, b) \<Rightarrow> ingest_ready sha fresh clock ready (st\<lparr>so_buffer := b\<rparr>))"

definition realtime_flush_due ::
  "(string \<Rightarrow> string) \<Rightarrow> (nat \<Rightarrow> fresh_ids) \<Rightarrow> int \<Rightarrow> datetime \<Rightarrow> source_state \<Rightarrow>
     ingest_report result \<times> source_state" where
  "realtime_flush_due sha fresh clock now st =
     (case flush_due now (so_buffer st) of
        Inl e \<Rightarrow> (Inl e, st)
      | Inr (ready, b) \<Rightarrow> ingest_ready sha fresh clock ready (st\<lparr>so_buffer := b\<rparr>))"

definition realtime_flush_all ::
  "(string \<Rightarrow> string) \<Rightarrow> (nat \<Rightarrow> fresh_ids) \<Rightarrow> int \<Rightarrow> source_state \<Rightarrow> ingest_report result \<times> source_state" where
  "realtime_flush_all sha fresh clock st =
     (case flush_all (so_buffer st) of
        Inl e \<Rightarrow> (Inl e, st)
      | Inr (ready, b) \<Rightarrow> ingest_ready sha fresh clock ready (st\<lparr>so_buffer := b\<rparr>))"

section \<open>The history of a range execution\<close>

text \<open>\<open>meanwhile\<close> is what other processes do between the two transactions on the execution.\<close>

definition process_claim ::
  "(string \<Rightarrow> string) \<Rightarrow> (nat \<Rightarrow> fresh_ids) \<Rightarrow> int \<Rightarrow> gateway \<Rightarrow> (database \<Rightarrow> database) \<Rightarrow>
     claimed_execution \<Rightarrow> datetime \<Rightarrow> database \<Rightarrow> message_store \<Rightarrow> bool result \<times> database \<times> message_store" where
  "process_claim sha fresh clock gw meanwhile claim now db store =
     (case ensure_aware now of
        Inl e \<Rightarrow> (Inl e, db, store)
      | Inr _ \<Rightarrow>
          let messages = gw_history gw (ce_source_channel_id claim) (ce_from claim) (ce_to claim) in
          (case validate_history_window (ce_source_channel_id claim) (ce_from claim) (ce_to claim) messages of
             Inl e \<Rightarrow> (Inl e, db, store)
           | Inr _ \<Rightarrow> (case ingest_messages sha fresh clock messages store of
               (Inl e, store1) \<Rightarrow> (Inl e, db, store1)
             | (Inr _, store1) \<Rightarrow>
                 (case worker_advance (ce_execution_id claim) (ce_lease_token claim) (ce_to claim) now db of
                    Inl e \<Rightarrow> (Inl e, db, store1)
                  | Inr (advanced, db1) \<Rightarrow>
                      if \<not> advanced then (Inr False, db1, store1)
                      else (case worker_complete (ce_execution_id claim) (ce_lease_token claim) now (meanwhile db1) of
                          Inl e \<Rightarrow> (Inl e, meanwhile db1, store1)
                        | Inr (completed, db2) \<Rightarrow> (Inr completed, db2, store1))))))"

section \<open>What ingestion retains\<close>

definition key_of :: "string \<Rightarrow> int \<Rightarrow> (uuid \<times> int) set" where
  "key_of channel i = (case as_uuid channel of Inl _ \<Rightarrow> {} | Inr u \<Rightarrow> {(u, i)})"

lemma key_of_iff: "(u, i) \<in> key_of channel j \<longleftrightarrow> as_uuid channel = Inr u \<and> i = j"
  by (cases "as_uuid channel") (auto simp: key_of_def)

definition message_keys :: "telegram_message list \<Rightarrow> (uuid \<times> int) set" where
  "message_keys ms = (\<Union>m \<in> set ms. key_of (tm_source_channel_id m) (tm_telegram_message_id m))"

definition logical_keys :: "normalized_message \<Rightarrow> (uuid \<times> int) set" where
  "logical_keys n = (\<Union>p \<in> set (nm_parts n). key_of (nm_source_channel_id n) (tp_telegram_message_id p))"

definition stored_keys :: "message_store \<Rightarrow> (uuid \<times> int) set" where
  "stored_keys st = part_key ` set (mt_parts st)"

lemma upsert_part_keys:
  assumes "upsert_part fresh now mid channel p rows = Inr rows'"
  shows "part_key ` set rows' = insert (channel, tp_telegram_message_id p) (part_key ` set rows)"
proof (cases "find (\<lambda>r. part_key r = (channel, tp_telegram_message_id p)) rows")
  case None
  with assms show ?thesis
    by (auto simp: upsert_part_def new_part_row_def part_key_def split: if_splits)
next
  case (Some r)
  then have r: "r \<in> set rows" "part_key r = (channel, tp_telegram_message_id p)" by (auto simp: find_Some_iff)
  have "map part_key rows' = map part_key rows"
    using assms Some by (auto simp: upsert_part_def map_update_where split: if_splits)
  from arg_cong [OF this, of set] r show ?thesis by (simp add: insert_absorb rev_image_eqI)
qed

lemma upsert_parts_keys:
  "upsert_parts fresh now mid channel ps rows = Inr rows' \<Longrightarrow>
     part_key ` set rows' = part_key ` set rows \<union> (\<lambda>p. (channel, tp_telegram_message_id p)) ` set ps"
proof (induction ps arbitrary: rows)
  case (Cons p ps)
  then obtain r1 where r1: "upsert_part fresh now mid channel p rows = Inr r1"
      "upsert_parts fresh now mid channel ps r1 = Inr rows'" by (auto elim: try_bindE)
  from Cons.IH [OF r1(2)] upsert_part_keys [OF r1(1)] show ?case by auto
qed simp

lemma upsert_message_keys:
  assumes "upsert_message sha fresh now n st = Inr st'"
  shows "stored_keys st' = stored_keys st \<union> logical_keys n"
  using assms
proof (rule upsert_messageE)
  fix channel mid st1 rows r
  assume c: "as_uuid (nm_source_channel_id n) = Inr channel"
    and u: "upsert_parent sha fresh now channel n st = Inr (mid, st1)"
    and p: "upsert_parts fresh now mid channel (nm_parts n) (mt_parts st1) = Inr rows"
    and s: "synchronize_archive_assets fresh now mid r (update_parent sha mid r now (st1\<lparr>mt_parts := rows\<rparr>)) = Inr st'"
  have "mt_parts st' = rows" using synchronize_keeps(2) [OF s] by (simp add: update_parent_def)
  moreover have "logical_keys n = (\<lambda>p. (channel, tp_telegram_message_id p)) ` set (nm_parts n)"
    by (auto simp: logical_keys_def key_of_def c)
  ultimately show ?thesis using upsert_parts_keys [OF p] by (simp add: stored_keys_def upsert_parent_rest(1) [OF u])
qed

lemma upsert_all_keys:
  "upsert_all sha fresh now k ns st = (r, st') \<Longrightarrow>
     stored_keys st \<subseteq> stored_keys st' \<and> stored_keys st' \<subseteq> stored_keys st \<union> \<Union> (logical_keys ` set ns)
     \<and> (\<not> isl r \<longrightarrow> \<Union> (logical_keys ` set ns) \<subseteq> stored_keys st')"
proof (induction ns arbitrary: k st)
  case (Cons n ns)
  show ?case
  proof (cases "upsert_message sha (fresh k) now n st")
    case (Inl e)
    with Cons.prems show ?thesis by auto
  next
    case (Inr st1)
    with Cons.prems have "upsert_all sha fresh now (Suc k) ns st1 = (r, st')" by simp
    from Cons.IH [OF this] upsert_message_keys [OF Inr] show ?thesis by auto
  qed
qed auto

text \<open>A batch and its logical messages name the same components.\<close>

definition component_keys :: "component set \<Rightarrow> (uuid \<times> int) set" where
  "component_keys C = (\<Union>x \<in> C. key_of (fst x) (tp_telegram_message_id (snd (snd x))))"

lemma logical_keys_components: "logical_keys n = component_keys (set (components n))"
  by (simp add: logical_keys_def component_keys_def components_def)

lemma message_keys_components: "component_keys (component_of ` set ms) = message_keys ms"
  by (simp add: message_keys_def component_keys_def component_of_def part_of_def)

lemma component_keys_UN: "component_keys (\<Union>n \<in> N. A n) = (\<Union>n \<in> N. component_keys (A n))"
  by (simp add: component_keys_def)

lemma batch_keys:
  assumes "normalize_telegram_messages ms = Inr ns"
  shows "\<Union> (logical_keys ` set ns) = message_keys ms"
proof -
  from assms obtain ks singles grouped where k: "distinct ks" "set ks = {k. \<exists>m \<in> set ms. group_key m = Some k}"
    and s: "traverse single_form (filter (\<lambda>m. group_key m = None) ms) = Inr singles"
    and g: "traverse (group_form ms) ks = Inr grouped" and o: "ns = sort_key batch_order (singles @ grouped)"
    by (rule normalize_batchE)
  have "mset (concat (map components (singles @ grouped))) = mset (map component_of ms)"
    by (rule batch_components [OF k s g])
  then have "set (concat (map components (singles @ grouped))) = set (map component_of ms)"
    by (rule mset_eq_setD)
  then have c: "(\<Union>n \<in> set ns. set (components n)) = component_of ` set ms" by (simp add: o)
  have "\<Union> (logical_keys ` set ns) = component_keys (\<Union>n \<in> set ns. set (components n))"
    by (simp add: logical_keys_components component_keys_UN)
  then show ?thesis by (simp only: c message_keys_components)
qed

lemma message_keysD:
  "(u, i) \<in> message_keys ms \<Longrightarrow> \<exists>m \<in> set ms. as_uuid (tm_source_channel_id m) = Inr u \<and> tm_telegram_message_id m = i"
  by (auto simp: message_keys_def key_of_iff)

lemma ingest_keys:
  assumes "ingest_messages sha fresh now ms st = (r, st')"
  shows "stored_keys st \<subseteq> stored_keys st'" and "stored_keys st' \<subseteq> stored_keys st \<union> message_keys ms"
    and "\<not> isl r \<Longrightarrow> message_keys ms \<subseteq> stored_keys st'"
proof -
  have "stored_keys st \<subseteq> stored_keys st' \<and> stored_keys st' \<subseteq> stored_keys st \<union> message_keys ms
      \<and> (\<not> isl r \<longrightarrow> message_keys ms \<subseteq> stored_keys st')"
  proof (cases "normalize_telegram_messages ms")
    case (Inl e)
    with assms show ?thesis by (auto simp: ingest_messages_def)
  next
    case (Inr ns)
    obtain q st1 where q: "upsert_all sha fresh now 0 ns st = (q, st1)" by (cases "upsert_all sha fresh now 0 ns st")
    with assms Inr have "st1 = st'" "isl r = isl q" by (auto simp: ingest_messages_def split: sum.splits)
    with upsert_all_keys [OF q] batch_keys [OF Inr] show ?thesis by simp
  qed
  then show "stored_keys st \<subseteq> stored_keys st'" "stored_keys st' \<subseteq> stored_keys st \<union> message_keys ms"
    "\<not> isl r \<Longrightarrow> message_keys ms \<subseteq> stored_keys st'" by blast+
qed

definition retained :: "message_store \<Rightarrow> telegram_message \<Rightarrow> bool" where
  "retained st m \<longleftrightarrow> (\<exists>u. as_uuid (tm_source_channel_id m) = Inr u \<and> (u, tm_telegram_message_id m) \<in> stored_keys st)"

lemma retained_mono: "stored_keys st \<subseteq> stored_keys st' \<Longrightarrow> retained st m \<Longrightarrow> retained st' m"
  by (auto simp: retained_def)

lemma retained_by_ingest:
  assumes "ingest_messages sha fresh now ms st = (Inr rep, st')" and "m \<in> set ms"
    and "as_uuid (tm_source_channel_id m) = Inr u"
  shows "retained st' m"
  using ingest_keys(3) [OF assms(1)] assms(2,3) by (fastforce simp: retained_def message_keys_def key_of_def)

lemma window_messages:
  "validate_history_window channel lo hi ms = Inr () \<Longrightarrow> m \<in> set ms \<Longrightarrow>
     tm_source_channel_id m = channel \<and> lo < tm_telegram_message_id m \<and> tm_telegram_message_id m \<le> hi"
  by (induction ms) (auto split: if_splits)

section \<open>Cursors and windows\<close>

definition cursor_order :: "int option \<Rightarrow> int option \<Rightarrow> bool" where
  "cursor_order a b = (case a of None \<Rightarrow> True | Some x \<Rightarrow> (case b of None \<Rightarrow> False | Some y \<Rightarrow> x \<le> y))"

definition cursors_follow :: "channel_row list \<Rightarrow> channel_row list \<Rightarrow> bool" where
  "cursors_follow rows rows' \<longleftrightarrow> list_all2 (\<lambda>r r'. ch_id r' = ch_id r
     \<and> cursor_order (ch_latest_seen_message_id r) (ch_latest_seen_message_id r')
     \<and> cursor_order (ch_last_seen_message_id r) (ch_last_seen_message_id r')) rows rows'"

lemma cursor_order_refl [simp]: "cursor_order a a"
  by (simp add: cursor_order_def split: option.split)

lemma cursor_order_trans: "cursor_order a b \<Longrightarrow> cursor_order b c \<Longrightarrow> cursor_order a c"
  by (auto simp: cursor_order_def split: option.splits)

lemma cursors_follow_refl [simp]: "cursors_follow rows rows"
  by (simp add: cursors_follow_def list.rel_refl)

lemma cursors_follow_trans: "cursors_follow a b \<Longrightarrow> cursors_follow b c \<Longrightarrow> cursors_follow a c"
  unfolding cursors_follow_def
  by (erule list_all2_trans [rotated], assumption) (auto intro: cursor_order_trans)

lemma record_latest_seen_follow: "record_latest_seen now channel i rows = Inr (b, rows') \<Longrightarrow> cursors_follow rows rows'"
  by (auto simp: record_latest_seen_def Let_def result_simps cursors_follow_def update_where_def list_all2_map2
      cursor_order_def cursor_behind_def intro!: list.rel_refl_strong split: option.splits)

lemma record_ingested_follow: "record_ingested now channel i rows = Inr (b, rows') \<Longrightarrow> cursors_follow rows rows'"
  by (auto simp: record_ingested_def Let_def result_simps cursors_follow_def update_where_def list_all2_map2
      cursor_order_def cursor_behind_def intro!: list.rel_refl_strong split: option.splits)

lemma record_cursors_follow: "cursors_follow rows (snd (record_cursors now cs rows))"
proof (induction cs arbitrary: rows)
  case (Cons c cs)
  obtain channel i where c: "c = (channel, i)" by (cases c)
  show ?case
  proof (cases "record_latest_seen now channel i rows")
    case (Inr p)
    obtain a rows1 where p: "p = (a, rows1)" by (cases p)
    note f1 = record_latest_seen_follow [OF Inr [unfolded p]]
    show ?thesis
    proof (cases "record_ingested now channel i rows1")
      case (Inl e)
      with f1 show ?thesis by (simp add: c Inr p)
    next
      case r: (Inr q)
      obtain b rows2 where q: "q = (b, rows2)" by (cases q)
      from cursors_follow_trans [OF f1 cursors_follow_trans [OF record_ingested_follow [OF r [unfolded q]] Cons.IH]]
      show ?thesis by (simp add: c Inr p r q)
    qed
  qed (simp add: c)
qed simp

text \<open>What every operation does to the state: cursors only advance, parts are only added.\<close>

definition source_follows :: "source_state \<Rightarrow> source_state \<Rightarrow> bool" where
  "source_follows st st' \<longleftrightarrow> cursors_follow (so_channels st) (so_channels st')
     \<and> stored_keys (so_store st) \<subseteq> stored_keys (so_store st')"

lemma source_follows_refl [simp]: "source_follows st st" "source_follows st (st\<lparr>so_buffer := b\<rparr>)"
  by (simp_all add: source_follows_def)

lemma source_follows_trans: "source_follows a b \<Longrightarrow> source_follows b c \<Longrightarrow> source_follows a c"
  unfolding source_follows_def using cursors_follow_trans by blast

lemma ingest_ready_follows: "source_follows st (snd (ingest_ready sha fresh clock ms st))"
proof (cases "ms = []")
  case True
  then show ?thesis by (simp add: ingest_ready_def)
next
  case False
  obtain r store where i: "ingest_messages sha fresh clock ms (so_store st) = (r, store)"
    by (cases "ingest_messages sha fresh clock ms (so_store st)")
  obtain q rows where c: "record_cursors clock (sort_key id (greatest_by_source ms)) (so_channels st) = (q, rows)"
    by (cases "record_cursors clock (sort_key id (greatest_by_source ms)) (so_channels st)")
  have "cursors_follow (so_channels st) rows"
    using record_cursors_follow [of "so_channels st" clock "sort_key id (greatest_by_source ms)"] c by simp
  with ingest_keys(1) [OF i] False i c show ?thesis
    by (cases r; cases q) (simp_all add: ingest_ready_def source_follows_def)
qed

lemma reconcile_window_follows: "source_follows st (snd (reconcile_window sha fresh now gw channel lo hi st))"
proof -
  let ?ms = "gw_history gw channel lo hi"
  obtain r store where i: "ingest_messages sha fresh now ?ms (so_store st) = (r, store)"
    by (cases "ingest_messages sha fresh now ?ms (so_store st)")
  show ?thesis
  proof (cases "record_ingested now channel hi (so_channels st)")
    case (Inl e)
    with ingest_keys(1) [OF i] i show ?thesis
      by (cases r) (simp_all add: reconcile_window_def Let_def source_follows_def split: sum.split)
  next
    case (Inr p)
    obtain b rows where p: "p = (b, rows)" by (cases p)
    from record_ingested_follow [OF Inr [unfolded p]] ingest_keys(1) [OF i] i Inr p show ?thesis
      by (cases r) (simp_all add: reconcile_window_def Let_def source_follows_def split: sum.split)
  qed
qed

lemma reconcile_follows: "source_follows st (snd (reconcile sha fresh now gw channel st))"
proof (cases "last_seen channel (so_channels st)")
  case (Inl e)
  then show ?thesis by (simp add: reconcile_def)
next
  case c: (Inr cursor)
  show ?thesis
  proof (cases "gw_newest gw channel")
    case None
    with c show ?thesis by (simp add: reconcile_def Let_def)
  next
    case n: (Some newest)
    show ?thesis
    proof (cases "record_latest_seen now channel (lb_message_id newest) (so_channels st)")
      case (Inl e)
      with c n show ?thesis by (simp add: reconcile_def Let_def)
    next
      case (Inr p)
      obtain b rows where p: "p = (b, rows)" by (cases p)
      have f: "source_follows st (st\<lparr>so_channels := rows\<rparr>)"
        using record_latest_seen_follow [OF Inr [unfolded p]] by (simp add: source_follows_def)
      from source_follows_trans [OF f reconcile_window_follows] f c n Inr p show ?thesis
        by (simp add: reconcile_def Let_def)
    qed
  qed
qed

text \<open>What a successful reconciliation did.\<close>

lemma reconcileE:
  assumes "reconcile sha fresh now gw channel st = (Inr report, st')"
  obtains cursor where "last_seen channel (so_channels st) = Inr cursor" "gw_newest gw channel = None" "st' = st"
  | cursor newest rows b where "last_seen channel (so_channels st) = Inr cursor" "gw_newest gw channel = Some newest"
      "lb_message_id newest \<le> (case cursor of None \<Rightarrow> 0 | Some i \<Rightarrow> i)"
      "record_latest_seen now channel (lb_message_id newest) (so_channels st) = Inr (b, rows)"
      "st' = st\<lparr>so_channels := rows\<rparr>"
  | cursor newest rows b lo r store rows' advanced where "last_seen channel (so_channels st) = Inr cursor"
      "gw_newest gw channel = Some newest" "lo = (case cursor of None \<Rightarrow> 0 | Some i \<Rightarrow> i)" "lo < lb_message_id newest"
      "record_latest_seen now channel (lb_message_id newest) (so_channels st) = Inr (b, rows)"
      "validate_history_window channel lo (lb_message_id newest) (gw_history gw channel lo (lb_message_id newest)) = Inr ()"
      "ingest_messages sha fresh now (gw_history gw channel lo (lb_message_id newest)) (so_store st) = (Inr r, store)"
      "record_ingested now channel (lb_message_id newest) rows = Inr (advanced, rows')"
      "st' = st\<lparr>so_store := store, so_channels := rows'\<rparr>"
proof -
  from assms obtain cursor where c: "last_seen channel (so_channels st) = Inr cursor"
    by (cases "last_seen channel (so_channels st)") (simp_all add: reconcile_def)
  let ?lo = "case cursor of None \<Rightarrow> 0 | Some i \<Rightarrow> i"
  show thesis
  proof (cases "gw_newest gw channel")
    case None
    with assms c have "st' = st" by (simp add: reconcile_def Let_def)
    show ?thesis by (rule that(1) [OF c None \<open>st' = st\<close>])
  next
    case n: (Some newest)
    from assms c n obtain b rows where l: "record_latest_seen now channel (lb_message_id newest) (so_channels st) = Inr (b, rows)"
      by (cases "record_latest_seen now channel (lb_message_id newest) (so_channels st)") (auto simp: reconcile_def Let_def)
    show ?thesis
    proof (cases "lb_message_id newest \<le> ?lo")
      case True
      with assms c n l have "st' = st\<lparr>so_channels := rows\<rparr>" by (simp add: reconcile_def Let_def)
      show ?thesis by (rule that(2) [OF c n True l \<open>st' = st\<lparr>so_channels := rows\<rparr>\<close>])
    next
      case False
      let ?hi = "lb_message_id newest"
      from assms c n l False have w: "reconcile_window sha fresh now gw channel ?lo ?hi (st\<lparr>so_channels := rows\<rparr>) = (Inr report, st')"
        by (simp add: reconcile_def Let_def)
      then have v: "validate_history_window channel ?lo ?hi (gw_history gw channel ?lo ?hi) = Inr ()"
        by (simp add: reconcile_window_def Let_def split: sum.splits)
      obtain q store where i: "ingest_messages sha fresh now (gw_history gw channel ?lo ?hi) (so_store st) = (q, store)"
        by (cases "ingest_messages sha fresh now (gw_history gw channel ?lo ?hi) (so_store st)")
      with w v obtain r where r: "q = Inr r" by (cases q) (simp_all add: reconcile_window_def Let_def)
      from w v i r obtain advanced rows' where ri: "record_ingested now channel ?hi rows = Inr (advanced, rows')"
        by (cases "record_ingested now channel ?hi rows") (auto simp: reconcile_window_def Let_def)
      from w v i r ri have st': "st' = st\<lparr>so_store := store, so_channels := rows'\<rparr>"
        by (simp add: reconcile_window_def Let_def)
      from False have lt: "?lo < ?hi" by simp
      show ?thesis by (rule that(3) [OF c n HOL.refl lt l v i [unfolded r] ri st'])
    qed
  qed
qed

lemma last_seen_follow:
  assumes "cursors_follow rows rows'" and "last_seen channel rows = Inr (Some c)"
  shows "\<exists>d \<ge> c. last_seen channel rows' = Inr (Some d)"
proof -
  from assms(2) obtain u where u: "as_uuid channel = Inr u"
      "(case find (\<lambda>r. ch_id r = u) rows of None \<Rightarrow> None | Some r \<Rightarrow> ch_last_seen_message_id r) = Some c"
    by (auto simp: last_seen_def elim!: try_bindE)
  have "\<exists>d \<ge> c. (case find (\<lambda>r. ch_id r = u) rows' of None \<Rightarrow> None | Some r \<Rightarrow> ch_last_seen_message_id r) = Some d"
    using assms(1) u(2) unfolding cursors_follow_def
    by (induction rule: list_all2_induct) (auto simp: cursor_order_def split: option.splits if_splits)
  with u(1) show ?thesis by (auto simp: last_seen_def)
qed

lemma record_latest_seen_keeps:
  assumes "record_latest_seen now channel i rows = Inr (b, rows')"
  shows "last_seen c rows' = last_seen c rows" and "ch_id ` set rows' = ch_id ` set rows"
proof -
  from assms obtain P where r: "rows' = update_where P (\<lambda>r. r\<lparr>ch_latest_seen_message_id := Some i, ch_updated_at := now\<rparr>) rows"
    by (auto simp: record_latest_seen_def Let_def elim!: try_bindE)
  have "(case find (\<lambda>r. ch_id r = u) rows' of None \<Rightarrow> None | Some r \<Rightarrow> ch_last_seen_message_id r)
      = (case find (\<lambda>r. ch_id r = u) rows of None \<Rightarrow> None | Some r \<Rightarrow> ch_last_seen_message_id r)" for u
    unfolding r by (induction rows) (auto simp: update_where_def)
  then show "last_seen c rows' = last_seen c rows" by (simp add: last_seen_def)
  have "map ch_id rows' = map ch_id rows" unfolding r by (simp add: map_update_where)
  from arg_cong [OF this, of set] show "ch_id ` set rows' = ch_id ` set rows" by simp
qed

lemma record_ingested_sets:
  assumes "record_ingested now channel i rows = Inr (b, rows')" and "last_seen channel rows = Inr cursor"
    and "as_uuid channel = Inr u" "u \<in> ch_id ` set rows" and "cursor_behind cursor i"
  shows "last_seen channel rows' = Inr (Some i)"
proof -
  from assms(1,3) have r: "rows' = update_where (\<lambda>r. ch_id r = u \<and> cursor_behind (ch_last_seen_message_id r) i)
      (\<lambda>r. r\<lparr>ch_last_seen_message_id := Some i, ch_updated_at := now\<rparr>) rows"
    by (auto simp: record_ingested_def check_cursor_arguments_def Let_def split: if_splits)
  from assms(2,3) have c: "cursor = (case find (\<lambda>r. ch_id r = u) rows of None \<Rightarrow> None | Some r \<Rightarrow> ch_last_seen_message_id r)"
    by (simp add: last_seen_def)
  have "(case find (\<lambda>r. ch_id r = u) rows' of None \<Rightarrow> None | Some r \<Rightarrow> ch_last_seen_message_id r) = Some i"
    using assms(4,5) unfolding r c by (induction rows) (auto simp: update_where_def split: if_splits)
  with assms(3) show ?thesis by (simp add: last_seen_def)
qed

section \<open>Steps of a source\<close>

inductive source_step :: "(string \<Rightarrow> string) \<Rightarrow> source_state \<Rightarrow> source_state \<Rightarrow> bool" for sha where
  update: "source_step sha st (snd (realtime_update sha fresh clock m now st))"
| due: "source_step sha st (snd (realtime_flush_due sha fresh clock now st))"
| all: "source_step sha st (snd (realtime_flush_all sha fresh clock st))"
| reconnect: "source_step sha st (snd (reconcile sha fresh now gw channel st))"
| restart: "new_buffer window = Inr b \<Longrightarrow> source_step sha st (st\<lparr>so_buffer := b\<rparr>)"

lemma ready_follows:
  assumes "st2 = (case r of Inl e \<Rightarrow> (Inl e, st) | Inr (ready, b) \<Rightarrow> ingest_ready sha fresh clock ready (st\<lparr>so_buffer := b\<rparr>))"
  shows "source_follows st (snd st2)"
proof (cases r)
  case (Inr p)
  obtain ready b where p: "p = (ready, b)" by (cases p)
  from source_follows_trans [OF source_follows_refl(2) ingest_ready_follows] assms Inr p show ?thesis by simp
qed (simp add: assms)

lemma source_step_follows:
  assumes "source_step sha st st'"
  shows "source_follows st st'"
  using assms
proof cases
  case (update fresh clock m now)
  show ?thesis unfolding update by (rule ready_follows) (simp add: realtime_update_def)
next
  case (due fresh clock now)
  show ?thesis unfolding due by (rule ready_follows) (simp add: realtime_flush_due_def)
next
  case (all fresh clock)
  show ?thesis unfolding all by (rule ready_follows) (simp add: realtime_flush_all_def)
next
  case (reconnect fresh now gw channel)
  show ?thesis unfolding reconnect by (rule reconcile_follows)
next
  case (restart window b)
  then show ?thesis by simp
qed

lemma source_steps_follow: "(source_step sha)\<^sup>*\<^sup>* st st' \<Longrightarrow> source_follows st st'"
  by (induction rule: rtranclp_induct) (auto dest: source_step_follows intro: source_follows_trans)

definition reconciles :: "string \<Rightarrow> source_state \<Rightarrow> source_state \<Rightarrow> bool" where
  "reconciles channel st st' \<longleftrightarrow> (\<exists>sha fresh now gw. st' = snd (reconcile sha fresh now gw channel st))"

text \<open>A reconciliation stores messages beyond the cursor only.\<close>

lemma reconcile_beyond:
  assumes "last_seen channel (so_channels st) = Inr (Some c)" and "as_uuid channel = Inr u"
    and "(u, i) \<in> stored_keys (so_store (snd (reconcile sha fresh now gw channel st)))" and "i \<le> c"
  shows "(u, i) \<in> stored_keys (so_store st)"
proof (cases "gw_newest gw channel")
  case None
  with assms show ?thesis by (simp add: reconcile_def Let_def)
next
  case n: (Some newest)
  show ?thesis
  proof (cases "record_latest_seen now channel (lb_message_id newest) (so_channels st)")
    case (Inl e)
    with assms n show ?thesis by (simp add: reconcile_def Let_def)
  next
    case (Inr p)
    obtain b rows where p: "p = (b, rows)" by (cases p)
    let ?hi = "lb_message_id newest"
    let ?ms = "gw_history gw channel c ?hi"
    obtain r store where g: "ingest_messages sha fresh now ?ms (so_store st) = (r, store)"
      by (cases "ingest_messages sha fresh now ?ms (so_store st)")
    have "so_store (snd (reconcile sha fresh now gw channel st)) = so_store st
        \<or> validate_history_window channel c ?hi ?ms = Inr () \<and> so_store (snd (reconcile sha fresh now gw channel st)) = store"
      using assms(1) n Inr p g by (cases r) (auto simp: reconcile_def reconcile_window_def Let_def split: sum.splits)
    then show ?thesis
    proof
      assume "validate_history_window channel c ?hi ?ms = Inr () \<and> so_store (snd (reconcile sha fresh now gw channel st)) = store"
      then have v: "validate_history_window channel c ?hi ?ms = Inr ()" and k: "(u, i) \<in> stored_keys store" using assms(3) by simp_all
      have "(u, i) \<notin> message_keys ?ms"
      proof
        assume "(u, i) \<in> message_keys ?ms"
        then obtain m where "m \<in> set ?ms" "tm_telegram_message_id m = i" by (auto dest: message_keysD)
        from window_messages [OF v this(1)] this(2) assms(4) show False by simp
      qed
      with k ingest_keys(2) [OF g] show ?thesis by blast
    qed (use assms(3) in simp)
  qed
qed

lemma worker_complete_True:
  assumes "worker_complete eid token now db = Inr (True, db')"
  shows "\<exists>e \<in> set (executions db'). re_id e = eid \<and> re_status e = E_COMPLETED"
proof -
  from assms obtain t where "complete_execution eid token t db = Inr (True, db')"
    by (auto simp: worker_complete_def elim!: try_bindE)
  then obtain e r where e: "locked_active_row eid token t db = Some e"
    and db': "db' = set_wakeup_terminal (re_id e) t (save_range (advanced_range t e r) (save_execution (completed_row t e) db))"
    by (auto simp: complete_execution_def split: option.splits if_splits)
  note mem = locked_active_row_Some [OF e]
  have "completed_row t e \<in> set (executions db')"
    using mem by (force simp: db' set_wakeup_terminal_def completed_row_def update_where_def)
  moreover have "re_id (completed_row t e) = eid" "re_status (completed_row t e) = E_COMPLETED"
    using mem by (simp_all add: completed_row_def)
  ultimately show ?thesis by blast
qed

lemma process_claimE:
  assumes "process_claim sha fresh clock gw meanwhile claim now db store = (Inr True, db', store')"
  obtains rep db1 where
      "validate_history_window (ce_source_channel_id claim) (ce_from claim) (ce_to claim)
         (gw_history gw (ce_source_channel_id claim) (ce_from claim) (ce_to claim)) = Inr ()"
      "ingest_messages sha fresh clock (gw_history gw (ce_source_channel_id claim) (ce_from claim) (ce_to claim)) store = (Inr rep, store')"
      "worker_complete (ce_execution_id claim) (ce_lease_token claim) now (meanwhile db1) = Inr (True, db')"
proof -
  let ?ms = "gw_history gw (ce_source_channel_id claim) (ce_from claim) (ce_to claim)"
  from assms obtain t where t: "ensure_aware now = Inr t" by (cases "ensure_aware now") (simp_all add: process_claim_def)
  from assms t have v: "validate_history_window (ce_source_channel_id claim) (ce_from claim) (ce_to claim) ?ms = Inr ()"
    by (simp add: process_claim_def Let_def split: sum.splits)
  obtain q store1 where i: "ingest_messages sha fresh clock ?ms store = (q, store1)"
    by (cases "ingest_messages sha fresh clock ?ms store")
  with assms t v obtain rep where q: "q = Inr rep" by (cases q) (simp_all add: process_claim_def Let_def)
  note s = assms [unfolded process_claim_def t v Let_def sum.case i q prod.case]
  from s obtain a db1 where a: "worker_advance (ce_execution_id claim) (ce_lease_token claim) (ce_to claim) now db = Inr (a, db1)"
    by (cases "worker_advance (ce_execution_id claim) (ce_lease_token claim) (ce_to claim) now db") auto
  with s have "a" by (simp split: if_splits)
  with s a obtain c db2 where c: "worker_complete (ce_execution_id claim) (ce_lease_token claim) now (meanwhile db1) = Inr (c, db2)"
    by (cases "worker_complete (ce_execution_id claim) (ce_lease_token claim) now (meanwhile db1)") auto
  with s a \<open>a\<close> have e: "c = True" "db2 = db'" "store1 = store'" by simp_all
  show thesis by (rule that [OF v i [unfolded q e(3)] c [unfolded e(1,2)]])
qed

text \<open>A channel without cursors, a photo of an album, a later text, and a Telegram that has both.\<close>

definition news_row :: channel_row where
  "news_row = \<lparr>ch_id = sample_channel, ch_telegram_peer_id = 7, ch_username = None, ch_display_name = ''news'',
     ch_default_read_identity_id = ''reader'', ch_active_profile_version_id = None, ch_enabled = True,
     ch_last_activity_at = None, ch_latest_seen_message_id = None, ch_last_seen_message_id = None, ch_updated_at = 0\<rparr>"

definition source0 :: source_state where
  "source0 = \<lparr>so_channels = [news_row], so_store = empty_store [sample_channel], so_buffer = sample_buffer\<rparr>"

definition photo :: telegram_message where
  "photo = sample_component 1 (Some 9)"

definition later_text :: telegram_message where
  "later_text = sample_component 2 None"

definition full_gateway :: gateway where
  "full_gateway = \<lparr>gw_newest = (\<lambda>_. Some \<lparr>lb_message_id = 2, lb_published_at = Aware 2\<rparr>),
     gw_history = (\<lambda>_ lo hi. filter (\<lambda>m. lo < tm_telegram_message_id m \<and> tm_telegram_message_id m \<le> hi) [photo, later_text])\<rparr>"

text \<open>Both updates arrive, the photo waits in the buffer, and the process restarts.\<close>

definition source1 :: source_state where
  "source1 = snd (realtime_update (\<lambda>t. []) sample_ids 10 photo (Aware 10) source0)"

definition source2 :: source_state where
  "source2 = snd (realtime_update (\<lambda>t. []) sample_ids 11 later_text (Aware 11) source1)"

definition restarted :: source_state where
  "restarted = source2\<lparr>so_buffer := sample_buffer\<rparr>"

lemma restarted_state:
  "last_seen (tm_source_channel_id photo) (so_channels restarted) = Inr (Some 2)
   \<and> map part_key (mt_parts (so_store restarted)) = [(sample_channel, 2)] \<and> as_uuid (tm_source_channel_id photo) = Inr sample_channel
   \<and> tm_telegram_message_id photo = 1"
  by code_simp

lemma photo_missing: "\<not> retained (so_store restarted) photo"
proof -
  have k: "stored_keys (so_store restarted) = {(sample_channel, 2)}"
    using restarted_state by (simp add: stored_keys_def flip: set_map)
  then show ?thesis using restarted_state by (simp add: retained_def)
qed

section \<open>Properties\<close>

text \<open>
  The cursors of a source only advance and nothing that was stored is lost: over any sequence
  of realtime updates, flushes, reconciliations and restarts, with any outcome of each, no cursor
  moves back and every part that was retained stays retained.
\<close>

theorem cursors_only_advance:
  assumes "(source_step sha)\<^sup>*\<^sup>* st st'"
  shows "list_all2 (\<lambda>r r'. ch_id r' = ch_id r
      \<and> cursor_order (ch_latest_seen_message_id r) (ch_latest_seen_message_id r')
      \<and> cursor_order (ch_last_seen_message_id r) (ch_last_seen_message_id r')) (so_channels st) (so_channels st')
    \<and> (\<forall>m. retained (so_store st) m \<longrightarrow> retained (so_store st') m)"
  using source_steps_follow [OF assms]
  by (auto simp: source_follows_def cursors_follow_def dest: retained_mono)

theorem cursors_only_advance_witness:
  "list_all2 (\<lambda>r r'. ch_id r' = ch_id r
      \<and> cursor_order (ch_latest_seen_message_id r) (ch_latest_seen_message_id r')
      \<and> cursor_order (ch_last_seen_message_id r) (ch_last_seen_message_id r')) (so_channels source0) (so_channels source1)"
proof -
  have "source_step (\<lambda>t. []) source0 source1" unfolding source1_def by (rule source_step.update)
  then have "(source_step (\<lambda>t. []))\<^sup>*\<^sup>* source0 source1" by (rule r_into_rtranclp)
  from cursors_only_advance [OF this] show ?thesis by blast
qed

text \<open>
  C38: A reconciliation closes the gap: if Telegram returns every message of the channel that lies
  in the window it is asked for, and every message up to the cursor had been retained, then after a
  successful reconciliation every message up to the newest one is retained, and if there was
  something to read the cursor stands at the newest message.
\<close>

theorem reconciliation_closes_the_gap:
  assumes "reconcile sha fresh now gw channel st = (Inr report, st')" and "gw_newest gw channel = Some newest"
    and "\<And>lo hi m. m \<in> history \<Longrightarrow> lo < tm_telegram_message_id m \<Longrightarrow> tm_telegram_message_id m \<le> hi \<Longrightarrow>
      m \<in> set (gw_history gw channel lo hi)"
    and "last_seen channel (so_channels st) = Inr cursor"
    and "\<forall>m \<in> history. tm_telegram_message_id m \<le> (case cursor of None \<Rightarrow> 0 | Some i \<Rightarrow> i) \<longrightarrow> retained (so_store st) m"
    and "as_uuid channel = Inr u" "u \<in> ch_id ` set (so_channels st)"
  shows "(\<forall>m \<in> history. tm_telegram_message_id m \<le> lb_message_id newest \<longrightarrow> retained (so_store st') m)
    \<and> ((case cursor of None \<Rightarrow> 0 | Some i \<Rightarrow> i) < lb_message_id newest \<longrightarrow>
         last_seen channel (so_channels st') = Inr (Some (lb_message_id newest)))"
  using assms(1)
proof (cases rule: reconcileE)
  case 1
  with assms(2) show ?thesis by simp
next
  case (2 cursor' newest' rows b)
  with assms(2,4) have "lb_message_id newest \<le> (case cursor of None \<Rightarrow> 0 | Some i \<Rightarrow> i)" by simp
  with assms(5) 2(5) show ?thesis by fastforce
next
  case (3 cursor' newest' rows b lo r store rows' advanced)
  with assms(2,4) have e: "newest' = newest" "cursor' = cursor" by simp_all
  have "retained store m" if m: "m \<in> history" "tm_telegram_message_id m \<le> lb_message_id newest" for m
  proof (cases "tm_telegram_message_id m \<le> lo")
    case True
    with assms(5) m(1) 3(3) e(2) have "retained (so_store st) m" by simp
    with ingest_keys(1) [OF 3(7)] show ?thesis by (rule retained_mono)
  next
    case False
    have h: "m \<in> set (gw_history gw channel lo (lb_message_id newest))"
      by (rule assms(3) [OF m(1) _ m(2)]) (use False in simp)
    from window_messages [OF 3(6) h [folded e(1)]] have "tm_source_channel_id m = channel" by simp
    with retained_by_ingest [OF 3(7) h [folded e(1)]] assms(6) show ?thesis by simp
  qed
  moreover have "last_seen channel rows' = Inr (Some (lb_message_id newest))"
  proof (rule record_ingested_sets [OF 3(8) [unfolded e(1)] _ assms(6)])
    show "u \<in> ch_id ` set rows" "last_seen channel rows = Inr cursor"
      using assms(4,7) record_latest_seen_keeps [OF 3(5)] by simp_all
    show "cursor_behind cursor (lb_message_id newest)" using 3(3,4) e by (auto simp: cursor_behind_def split: option.splits)
  qed
  ultimately show ?thesis by (simp add: 3(9))
qed

theorem reconciliation_closes_the_gap_witness:
  "\<exists>report st'. reconcile (\<lambda>t. []) sample_ids 12 full_gateway sample_channel source0 = (Inr report, st')
     \<and> (\<forall>m \<in> {photo, later_text}. retained (so_store st') m)"
proof -
  have ok: "isl (fst (reconcile (\<lambda>t. []) sample_ids 12 full_gateway sample_channel source0)) = False" by code_simp
  obtain r st' where e: "reconcile (\<lambda>t. []) sample_ids 12 full_gateway sample_channel source0 = (r, st')"
    by (cases "reconcile (\<lambda>t. []) sample_ids 12 full_gateway sample_channel source0")
  with ok obtain report where "r = Inr report" by (cases r) simp_all
  with e have r: "reconcile (\<lambda>t. []) sample_ids 12 full_gateway sample_channel source0 = (Inr report, st')" by simp
  have c: "last_seen sample_channel (so_channels source0) = Inr None" "as_uuid sample_channel = Inr sample_channel"
      "sample_channel \<in> set (map ch_id (so_channels source0))" by code_simp+
  have ids: "tm_telegram_message_id photo = 1" "tm_telegram_message_id later_text = 2" by code_simp+
  have "(\<forall>m \<in> {photo, later_text}. tm_telegram_message_id m \<le> lb_message_id \<lparr>lb_message_id = 2, lb_published_at = Aware 2\<rparr>
      \<longrightarrow> retained (so_store st') m)"
    by (rule reconciliation_closes_the_gap [OF r _ _ c(1) _ c(2), THEN conjunct1])
      (use ids c(3) in \<open>auto simp: full_gateway_def\<close>)
  with r ids show ?thesis by simp
qed

text \<open>
  C39: No reconciliation ever looks behind the cursor: a message of the channel that was not
  retained when the cursor had passed it is not retained by any sequence of reconciliations,
  whatever Telegram returns.
\<close>

theorem reconciliation_never_looks_back:
  assumes "last_seen (tm_source_channel_id m) (so_channels st) = Inr (Some c)" and "tm_telegram_message_id m \<le> c"
    and "\<not> retained (so_store st) m" and "(reconciles (tm_source_channel_id m))\<^sup>*\<^sup>* st st'"
  shows "\<not> retained (so_store st') m"
proof -
  from assms(1) obtain u where u: "as_uuid (tm_source_channel_id m) = Inr u"
    by (auto simp: last_seen_def elim!: try_bindE)
  from assms(4) have "(\<exists>d \<ge> c. last_seen (tm_source_channel_id m) (so_channels st') = Inr (Some d))
      \<and> (u, tm_telegram_message_id m) \<notin> stored_keys (so_store st')"
  proof (induction rule: rtranclp_induct)
    case base
    from assms(1,3) u show ?case by (auto simp: retained_def)
  next
    case (step a b)
    from step.hyps(2) obtain sha fresh now gw where b: "b = snd (reconcile sha fresh now gw (tm_source_channel_id m) a)"
      by (auto simp: reconciles_def)
    from step.IH obtain d where d: "c \<le> d" "last_seen (tm_source_channel_id m) (so_channels a) = Inr (Some d)" by blast
    have "cursors_follow (so_channels a) (so_channels b)"
      using reconcile_follows unfolding b source_follows_def by blast
    from last_seen_follow [OF this d(2)] d(1) have "\<exists>d \<ge> c. last_seen (tm_source_channel_id m) (so_channels b) = Inr (Some d)"
      by (meson order_trans)
    moreover have "(u, tm_telegram_message_id m) \<notin> stored_keys (so_store b)"
      using reconcile_beyond [OF d(2) u] step.IH assms(2) d(1) unfolding b by force
    ultimately show ?case by blast
  qed
  with u show ?thesis by (simp add: retained_def)
qed

text \<open>
  The witness is the restart after two updates: the photo was accepted and waited in the buffer, the
  text moved the cursor past it, and the reconciliation leaves it out although Telegram has it.
\<close>

theorem reconciliation_never_looks_back_witness:
  "\<not> isl (fst (realtime_update (\<lambda>t. []) sample_ids 10 photo (Aware 10) source0))
   \<and> photo \<in> set (gw_history full_gateway sample_channel 0 2)
   \<and> \<not> retained (so_store (snd (reconcile (\<lambda>t. []) sample_ids 12 full_gateway sample_channel restarted))) photo"
proof (intro conjI)
  show "\<not> isl (fst (realtime_update (\<lambda>t. []) sample_ids 10 photo (Aware 10) source0))" by code_simp
  have "tm_telegram_message_id photo = 1" by code_simp
  then show "photo \<in> set (gw_history full_gateway sample_channel 0 2)" by (simp add: full_gateway_def)
  have c: "tm_source_channel_id photo = sample_channel" by code_simp
  have "reconciles sample_channel restarted (snd (reconcile (\<lambda>t. []) sample_ids 12 full_gateway sample_channel restarted))"
    by (auto simp: reconciles_def)
  then have "(reconciles (tm_source_channel_id photo))\<^sup>*\<^sup>* restarted
      (snd (reconcile (\<lambda>t. []) sample_ids 12 full_gateway sample_channel restarted))" unfolding c by (rule r_into_rtranclp)
  from reconciliation_never_looks_back [OF _ _ photo_missing this, of 2] restarted_state
  show "\<not> retained (so_store (snd (reconcile (\<lambda>t. []) sample_ids 12 full_gateway sample_channel restarted))) photo" by simp
qed

definition sample_claim :: claimed_execution where
  "sample_claim = \<lparr>ce_execution_id = ''x'', ce_range_id = ''r'', ce_source_channel_id = sample_channel,
     ce_profile_version_id = ''p'', ce_from = 0, ce_to = 5, ce_watermark = 0, ce_attempt_count = 1,
     ce_max_attempts = 3, ce_lease_token = ''t1''\<rparr>"

text \<open>
  A window is only completed once its messages are stored: when processing a claimed
  execution reports success, every message that Telegram returned for the window is retained and
  the execution is completed, whatever other processes did in between.
\<close>

theorem completed_window_is_retained:
  assumes "process_claim sha fresh clock gw meanwhile claim now db store = (Inr True, db', store')"
    and "as_uuid (ce_source_channel_id claim) = Inr u"
  shows "(\<forall>m \<in> set (gw_history gw (ce_source_channel_id claim) (ce_from claim) (ce_to claim)). retained store' m)
    \<and> (\<exists>e \<in> set (executions db'). re_id e = ce_execution_id claim \<and> re_status e = E_COMPLETED)"
  using assms(1)
proof (rule process_claimE)
  fix rep db1
  let ?ms = "gw_history gw (ce_source_channel_id claim) (ce_from claim) (ce_to claim)"
  assume v: "validate_history_window (ce_source_channel_id claim) (ce_from claim) (ce_to claim) ?ms = Inr ()"
    and i: "ingest_messages sha fresh clock ?ms store = (Inr rep, store')"
    and c: "worker_complete (ce_execution_id claim) (ce_lease_token claim) now (meanwhile db1) = Inr (True, db')"
  have "retained store' m" if "m \<in> set ?ms" for m
    using retained_by_ingest [OF i that] window_messages [OF v that] assms(2) by simp
  with worker_complete_True [OF c] show ?thesis by blast
qed

theorem completed_window_is_retained_witness:
  "\<exists>db' store'. process_claim (\<lambda>t. []) sample_ids 25 full_gateway (\<lambda>db. db) sample_claim (Aware 25) database3
       (empty_store [sample_channel]) = (Inr True, db', store') \<and> retained store' photo"
proof -
  let ?p = "process_claim (\<lambda>t. []) sample_ids 25 full_gateway (\<lambda>db. db) sample_claim (Aware 25) database3 (empty_store [sample_channel])"
  have "(case fst ?p of Inl _ \<Rightarrow> False | Inr b \<Rightarrow> b)" by code_simp
  then have "fst ?p = Inr True" by (simp split: sum.splits)
  then obtain db' store' where p: "?p = (Inr True, db', store')" by (metis prod.collapse)
  have h: "photo \<in> set (gw_history full_gateway (ce_source_channel_id sample_claim) (ce_from sample_claim) (ce_to sample_claim))"
      "as_uuid (ce_source_channel_id sample_claim) = Inr sample_channel"
    by (simp_all add: full_gateway_def sample_claim_def photo_def sample_component_def) code_simp
  from completed_window_is_retained [OF p h(2)] h(1) p show ?thesis by blast
qed

end
