(* ===== verification/Media_Artifacts.thy ===== *)
theory Media_Artifacts
  imports Py_Floats Uuids
begin

text \<open>
  The data of the media archive, \<^verbatim>\<open>tgcurator/application/ports/media.py\<close>: normalized images,
  the metadata under which images and video frames become ready, download requests and the work
  items of the archive workers, with the checks of their constructors, and the relative POSIX keys
  of archived objects.  All checks raise \<^verbatim>\<open>ValueError\<close>.

  Bytes are a list of characters.  What is shown: a storage key that the checks accept names a
  place below the archive root.
\<close>

type_synonym bytes = "char list"

definition ensure_value :: "bool \<Rightarrow> 'a \<Rightarrow> 'a result" where
  "ensure_value c x = (if c then Inr x else Inl ValueError)"

lemma ensure_value_Inr [result_simps]: "ensure_value c x = Inr y \<longleftrightarrow> c \<and> x = y"
  by (simp add: ensure_value_def)

definition hex_digest :: "nat \<Rightarrow> string \<Rightarrow> bool" where
  "hex_digest n s = (length s = n \<and> set s \<subseteq> set ''0123456789abcdef'')"

definition uuid_or_value_error :: "string \<Rightarrow> uuid result" where
  "uuid_or_value_error s = (case parse_uuid s of None \<Rightarrow> Inl ValueError | Some n \<Rightarrow> Inr (uuid_text n))"

lemma uuid_or_value_error_canonical:
  assumes "uuid_or_value_error s = Inr u"
  shows "uuid_or_value_error u = Inr u"
proof -
  from assms obtain n where n: "parse_uuid s = Some n" "u = uuid_text n"
    by (auto simp: uuid_or_value_error_def split: option.splits)
  with parse_uuid_bound [OF n(1)] show ?thesis by (simp add: uuid_or_value_error_def parse_uuid_text)
qed

section \<open>Relative POSIX keys\<close>

text \<open>\<^verbatim>\<open>s.split("/")\<close>.\<close>

fun split_slash :: "string \<Rightarrow> string list" where
  "split_slash [] = [[]]"
| "split_slash (c # cs) =
     (if c = CHR ''/'' then [] # split_slash cs
      else case split_slash cs of p # ps \<Rightarrow> (c # p) # ps | [] \<Rightarrow> [[c]])"

text \<open>\<^verbatim>\<open>PurePosixPath(s).parts\<close> of a relative path: empty and \<^verbatim>\<open>.\<close> components vanish.\<close>

definition posix_parts :: "string \<Rightarrow> string list" where
  "posix_parts s = filter (\<lambda>p. p \<noteq> [] \<and> p \<noteq> ''.'') (split_slash s)"

definition is_absolute :: "string \<Rightarrow> bool" where
  "is_absolute s = (s \<noteq> [] \<and> hd s = CHR ''/'')"

definition backslash :: char where
  "backslash = CHR 0x5C"

definition safe_storage_key :: "string \<Rightarrow> bool" where
  "safe_storage_key key =
     (\<not> blank key \<and> backslash \<notin> set key \<and> \<not> is_absolute key \<and> posix_parts key \<noteq> []
      \<and> ''..'' \<notin> set (posix_parts key) \<and> \<not> list_ex (\<lambda>p. CHR '':'' \<in> set p) (posix_parts key))"

text \<open>The prefix check of the workers; \<^verbatim>\<open>parts\<close> never holds empty or \<^verbatim>\<open>.\<close> components.\<close>

definition safe_key_prefix :: "string \<Rightarrow> bool" where
  "safe_key_prefix prefix =
     (\<not> blank prefix \<and> backslash \<notin> set prefix \<and> \<not> is_absolute prefix
      \<and> \<not> list_ex (\<lambda>p. p \<in> {[], ''.'', ''..''}) (posix_parts prefix))"

definition storage_location_ok :: "string \<Rightarrow> string \<Rightarrow> bool" where
  "storage_location_ok backend key = (\<not> blank backend \<and> safe_storage_key key)"

section \<open>Normalized images\<close>

record image_profile =
  ip_max_side_pixels :: int
  ip_quality :: int

definition check_image_profile :: "image_profile \<Rightarrow> image_profile result" where
  "check_image_profile p =
     ensure_value (0 < ip_max_side_pixels p \<and> 1 \<le> ip_quality p \<and> ip_quality p \<le> 100) p"

record image_artifact =
  ia_content :: bytes
  ia_content_type :: string
  ia_width :: int
  ia_height :: int
  ia_source_sha256 :: string
  ia_archive_sha256 :: string
  ia_perceptual_hash :: string

definition artifact_ok :: "image_artifact \<Rightarrow> bool" where
  "artifact_ok a =
     (ia_content a \<noteq> [] \<and> ia_content_type a = ''image/webp'' \<and> 0 < ia_width a \<and> 0 < ia_height a
      \<and> hex_digest 64 (ia_source_sha256 a) \<and> hex_digest 64 (ia_archive_sha256 a)
      \<and> hex_digest 16 (ia_perceptual_hash a))"

definition check_artifact :: "image_artifact \<Rightarrow> image_artifact result" where
  "check_artifact a = ensure_value (artifact_ok a) a"

record image_ready_metadata =
  rd_image_asset_id :: string
  rd_storage_backend :: string
  rd_storage_key :: string
  rd_content_type :: string
  rd_width :: int
  rd_height :: int
  rd_source_sha256 :: string
  rd_archive_sha256 :: string
  rd_perceptual_hash :: string
  rd_archive_size_bytes :: int
  rd_archived_at :: datetime

definition check_ready_metadata :: "image_ready_metadata \<Rightarrow> image_ready_metadata result" where
  "check_ready_metadata m =
     try_bind (uuid_or_value_error (rd_image_asset_id m)) (\<lambda>_.
       ensure_value (storage_location_ok (rd_storage_backend m) (rd_storage_key m)
         \<and> rd_content_type m = ''image/webp'' \<and> 0 < rd_width m \<and> 0 < rd_height m \<and> 0 < rd_archive_size_bytes m
         \<and> hex_digest 64 (rd_source_sha256 m) \<and> hex_digest 64 (rd_archive_sha256 m)
         \<and> hex_digest 16 (rd_perceptual_hash m) \<and> is_aware (rd_archived_at m)) m)"

definition from_artifact ::
  "string \<Rightarrow> string \<Rightarrow> string \<Rightarrow> image_artifact \<Rightarrow> int \<Rightarrow> datetime \<Rightarrow> image_ready_metadata result" where
  "from_artifact asset_id backend key a stored archived_at =
     check_ready_metadata \<lparr>rd_image_asset_id = asset_id, rd_storage_backend = backend, rd_storage_key = key,
       rd_content_type = ia_content_type a, rd_width = ia_width a, rd_height = ia_height a,
       rd_source_sha256 = ia_source_sha256 a, rd_archive_sha256 = ia_archive_sha256 a,
       rd_perceptual_hash = ia_perceptual_hash a, rd_archive_size_bytes = stored, rd_archived_at = archived_at\<rparr>"

section \<open>Downloads and work items\<close>

record download_request =
  dq_source_channel_id :: string
  dq_telegram_message_id :: int
  dq_source_asset_id :: string

definition check_download_request :: "download_request \<Rightarrow> download_request result" where
  "check_download_request r =
     try_bind (uuid_or_value_error (dq_source_channel_id r)) (\<lambda>_.
       ensure_value (0 < dq_telegram_message_id r \<and> \<not> blank (dq_source_asset_id r)) r)"

text \<open>\<^verbatim>\<open>ImageArchiveWorkItem\<close> and \<^verbatim>\<open>VideoArchiveWorkItem\<close>, which differ in the name of the id.\<close>

record work_item =
  wi_asset_id :: string
  wi_source_channel_id :: string
  wi_source_telegram_message_id :: int
  wi_source_asset_id :: string
  wi_source_deleted_at :: "int option"

definition check_work_item :: "work_item \<Rightarrow> work_item result" where
  "check_work_item w =
     try_bind (uuid_or_value_error (wi_asset_id w)) (\<lambda>_.
     try_bind (uuid_or_value_error (wi_source_channel_id w)) (\<lambda>_.
       ensure_value (0 < wi_source_telegram_message_id w \<and> \<not> blank (wi_source_asset_id w)) w))"

text \<open>\<^verbatim>\<open>ClaimedImageArchive\<close> and \<^verbatim>\<open>ClaimedVideoArchive\<close>.\<close>

record archive_claim =
  ac_work_item :: work_item
  ac_lease_token :: string

definition check_archive_claim :: "archive_claim \<Rightarrow> archive_claim result" where
  "check_archive_claim c = try_bind (uuid_or_value_error (ac_lease_token c)) (\<lambda>_. Inr c)"

section \<open>Videos\<close>

record video_probe =
  vp_duration_seconds :: py_float
  vp_width :: "int option"
  vp_height :: "int option"
  vp_content_type :: "string option"

definition positive_option :: "int option \<Rightarrow> bool" where
  "positive_option v = (case v of None \<Rightarrow> True | Some i \<Rightarrow> 0 < i)"

definition text_option :: "string option \<Rightarrow> bool" where
  "text_option v = (case v of None \<Rightarrow> True | Some s \<Rightarrow> \<not> blank s)"

definition check_video_probe :: "video_probe \<Rightarrow> video_probe result" where
  "check_video_probe p =
     ensure_value (finite_positive (vp_duration_seconds p) \<and> positive_option (vp_width p)
       \<and> positive_option (vp_height p) \<and> text_option (vp_content_type p)) p"

record frame_metadata =
  fm_frame_role :: string
  fm_frame_index :: int
  fm_timestamp_seconds :: py_float
  fm_storage_backend :: string
  fm_storage_key :: string
  fm_artifact :: image_artifact
  fm_archive_size_bytes :: int

fun finite_nonnegative :: "py_float \<Rightarrow> bool" where
  "finite_nonnegative (Fin a) = (0 \<le> a)"
| "finite_nonnegative _ = False"

definition check_frame_metadata :: "frame_metadata \<Rightarrow> frame_metadata result" where
  "check_frame_metadata f =
     ensure_value (fm_frame_role f \<in> {''cover'', ''representative''} \<and> 0 \<le> fm_frame_index f
       \<and> (fm_frame_role f = ''cover'' \<longrightarrow> fm_frame_index f = 0) \<and> finite_nonnegative (fm_timestamp_seconds f)
       \<and> storage_location_ok (fm_storage_backend f) (fm_storage_key f)
       \<and> 0 < fm_archive_size_bytes f \<and> fm_archive_size_bytes f = int (length (ia_content (fm_artifact f)))) f"

record video_metadata =
  vm_video_asset_id :: string
  vm_source_content_type :: "string option"
  vm_source_size_bytes :: int
  vm_source_sha256 :: string
  vm_probe :: video_probe
  vm_frames :: "frame_metadata list"
  vm_archived_at :: datetime

definition check_video_metadata :: "video_metadata \<Rightarrow> video_metadata result" where
  "check_video_metadata m =
     try_bind (uuid_or_value_error (vm_video_asset_id m)) (\<lambda>_.
       ensure_value (text_option (vm_source_content_type m) \<and> 0 < vm_source_size_bytes m
         \<and> hex_digest 64 (vm_source_sha256 m) \<and> vm_frames m \<noteq> []
         \<and> distinct (map (\<lambda>f. (fm_frame_role f, fm_frame_index f)) (vm_frames m)) \<and> is_aware (vm_archived_at m)) m)"

section \<open>Keys stay below the root\<close>

lemma split_slash_parts: "p \<in> set (split_slash s) \<Longrightarrow> CHR ''/'' \<notin> set p"
  by (induction s arbitrary: p) (auto split: if_splits list.splits)

text \<open>Joining \<open>a\<close> and \<open>b\<close> with a slash joins their parts.\<close>

lemma split_slash_ne: "split_slash s \<noteq> []"
  by (induction s) (auto split: list.splits)

lemma split_slash_join: "split_slash (a @ CHR ''/'' # b) = split_slash a @ split_slash b"
proof (induction a)
  case (Cons c a)
  then show ?case using split_slash_ne [of a] by (auto split: list.splits)
qed simp

lemma posix_parts_join: "posix_parts (a @ CHR ''/'' # b) = posix_parts a @ posix_parts b"
  by (simp add: posix_parts_def split_slash_join)

lemma split_slash_plain: "CHR ''/'' \<notin> set s \<Longrightarrow> split_slash s = [s]"
  by (induction s) auto

end
