(* ===== verification/Media_Archive.thy ===== *)
theory Media_Archive
  imports Media_Artifacts Message_Invariant Range_Liveness
begin

text \<open>
  The leases of the media archive, \<^verbatim>\<open>infrastructure/database/image_archive_repository.py\<close> and
  \<^verbatim>\<open>video_archive_repository.py\<close>: an image or video is claimed under a token, becomes ready with
  its verified metadata, or fails and waits for a retry until its attempts are used up; its wake-up
  is rescheduled or completed in the same transaction.  The two repositories treat their tables
  alike; the common part is stated on the columns both tables share and used at both.

  Each operation is one transaction from the tables to its answer and the tables at commit; an
  exception leaves them as they were.  \<open>locked\<close> lists the rows that \<^verbatim>\<open>SKIP LOCKED\<close> passes over.
\<close>

section \<open>Tables\<close>

record video_frame_row =
  vf_video_asset_id :: uuid
  vf_frame_role :: string
  vf_frame_index :: int
  vf_timestamp_seconds :: py_float
  vf_storage_backend :: string
  vf_storage_key :: string
  vf_content_type :: string
  vf_width :: int
  vf_height :: int
  vf_source_sha256 :: string
  vf_archive_sha256 :: string
  vf_perceptual_hash :: string
  vf_archive_size_bytes :: int

record archive_db =
  ad_store :: message_store
  ad_frames :: "video_frame_row list"

definition fits_integer :: "int \<Rightarrow> bool" where
  "fits_integer i \<longleftrightarrow> - (2 ^ 31) \<le> i \<and> i < 2 ^ 31"

definition terminal_state :: "archive_state \<Rightarrow> bool" where
  "terminal_state s = (s = A_READY \<or> s = A_DELETED \<or> s = A_FAILED)"

section \<open>Wake-ups\<close>

definition active_wakeup :: "wakeup_row \<Rightarrow> bool" where
  "active_wakeup w = (wk_status w = W_PENDING \<or> wk_status w = W_LEASED)"

definition archive_wakeup :: "string \<Rightarrow> uuid \<Rightarrow> wakeup_row \<Rightarrow> bool" where
  "archive_wakeup queue i w = (wk_queue w = queue \<and> wk_entity_id w = i \<and> active_wakeup w)"

definition end_wakeup :: "string \<Rightarrow> uuid \<Rightarrow> int \<Rightarrow> wakeup_row list \<Rightarrow> wakeup_row list" where
  "end_wakeup queue i now ws = update_where (archive_wakeup queue i) (complete_wakeup now) ws"

definition retry_wakeup :: "string \<Rightarrow> uuid \<Rightarrow> int \<Rightarrow> int \<Rightarrow> wakeup_row list \<Rightarrow> wakeup_row list" where
  "retry_wakeup queue i retry_at now ws = update_where (archive_wakeup queue i) (\<lambda>w. w\<lparr>wk_status := W_PENDING,
     wk_next_attempt_at := retry_at, wk_lease_token := None, wk_lease_expires_at := None,
     wk_completed_at := None, wk_updated_at := now\<rparr>) ws"

section \<open>Claims\<close>

definition claimable :: "int \<Rightarrow> 'a asset_columns_scheme \<Rightarrow> bool" where
  "claimable now r =
     (as_source_telegram_message_id r \<noteq> None \<and>
      (as_state r = A_PENDING
       \<or> as_state r = A_RETRY_WAIT \<and> passed (as_next_retry_at r) now
       \<or> as_state r = A_PROCESSING \<and> passed (as_lease_expires_at r) now))"

definition terminalize_exhausted :: "int \<Rightarrow> 'a asset_columns_scheme \<Rightarrow> 'a asset_columns_scheme" where
  "terminalize_exhausted now r =
     r\<lparr>as_state := A_FAILED, as_next_retry_at := None, as_lease_token := None, as_lease_expires_at := None,
       as_last_error_code := Some ''ARCHIVE_ATTEMPTS_EXHAUSTED'',
       as_last_error_type := Some ''ArchiveAttemptsExhausted'', as_last_failure_at := Some now, as_updated_at := now\<rparr>"

definition lease_asset :: "uuid \<Rightarrow> int \<Rightarrow> int \<Rightarrow> 'a asset_columns_scheme \<Rightarrow> 'a asset_columns_scheme" where
  "lease_asset token now duration r =
     r\<lparr>as_state := A_PROCESSING, as_attempt_count := as_attempt_count r + 1, as_next_retry_at := None,
       as_lease_token := Some token, as_lease_expires_at := Some (now + duration), as_updated_at := now\<rparr>"

definition claim_of :: "'a asset_columns_scheme \<Rightarrow> message_row \<Rightarrow> uuid \<Rightarrow> archive_claim result" where
  "claim_of r m token =
     (case as_source_telegram_message_id r of
        None \<Rightarrow> Inl TypeError
      | Some i \<Rightarrow>
          try_bind (check_work_item \<lparr>wi_asset_id = as_id r, wi_source_channel_id = ms_source_channel_id m,
              wi_source_telegram_message_id = i, wi_source_asset_id = as_source_asset_id r,
              wi_source_deleted_at = ms_source_deleted_at m\<rparr>)
            (\<lambda>w. check_archive_claim \<lparr>ac_work_item = w, ac_lease_token = token\<rparr>))"

text \<open>The claim statement joins the asset with its message and locks both rows.\<close>

definition claimable_row ::
  "uuid list \<Rightarrow> uuid \<Rightarrow> int \<Rightarrow> message_row list \<Rightarrow> 'a asset_columns_scheme list \<Rightarrow> ('a asset_columns_scheme \<times> message_row) option"
where
  "claimable_row locked i now ms rows =
     (case find (\<lambda>r. as_id r = i \<and> claimable now r) rows of
        None \<Rightarrow> None
      | Some r \<Rightarrow>
          (case find (\<lambda>m. ms_id m = as_message_id r) ms of
             None \<Rightarrow> None
           | Some m \<Rightarrow> if i \<in> set locked \<or> ms_id m \<in> set locked then None else Some (r, m)))"

definition claim_asset ::
  "string \<Rightarrow> uuid list \<Rightarrow> uuid \<Rightarrow> uuid \<Rightarrow> int \<Rightarrow> int \<Rightarrow> message_row list \<Rightarrow> 'a asset_columns_scheme list \<Rightarrow> wakeup_row list \<Rightarrow>
     (archive_claim option \<times> 'a asset_columns_scheme list \<times> wakeup_row list) result"
where
  "claim_asset queue locked token i now duration ms rows ws =
     (case claimable_row locked i now ms rows of
        None \<Rightarrow> Inr (None, rows, ws)
      | Some (r, m) \<Rightarrow>
          if as_max_attempts r \<le> as_attempt_count r
          then Inr (None, update_where (\<lambda>x. as_id x = i) (terminalize_exhausted now) rows, end_wakeup queue i now ws)
          else try_bind (claim_of r m token) (\<lambda>c.
            Inr (Some c, update_where (\<lambda>x. as_id x = i) (lease_asset token now duration) rows, ws)))"

section \<open>Failures\<close>

definition safe_error_label :: "string \<Rightarrow> nat \<Rightarrow> string result" where
  "safe_error_label s limit =
     (if blank s then Inl ValueError
      else if limit < length (py_strip s) then Inl ValueError else Inr (py_strip s))"

definition held_under :: "uuid \<Rightarrow> uuid \<Rightarrow> 'a asset_columns_scheme \<Rightarrow> bool" where
  "held_under i token r = (as_id r = i \<and> as_state r = A_PROCESSING \<and> as_lease_token r = Some token)"

definition failed_asset :: "string \<Rightarrow> string \<Rightarrow> bool \<Rightarrow> int \<Rightarrow> int \<Rightarrow> 'a asset_columns_scheme \<Rightarrow> 'a asset_columns_scheme" where
  "failed_asset code type retry retry_at now r =
     r\<lparr>as_last_error_code := Some code, as_last_error_type := Some type, as_last_failure_at := Some now,
       as_lease_token := None, as_lease_expires_at := None, as_updated_at := now,
       as_state := (if retry then A_RETRY_WAIT else A_FAILED),
       as_next_retry_at := (if retry then Some retry_at else None)\<rparr>"

definition fail_asset ::
  "string \<Rightarrow> archive_claim \<Rightarrow> string \<Rightarrow> string \<Rightarrow> bool \<Rightarrow> int \<Rightarrow> int \<Rightarrow> 'a asset_columns_scheme list \<Rightarrow> wakeup_row list \<Rightarrow>
     (bool \<times> 'a asset_columns_scheme list \<times> wakeup_row list) result"
where
  "fail_asset queue c error_code error_type retryable retry_at now rows ws =
     try_bind (safe_error_label error_code 64) (\<lambda>code.
     try_bind (safe_error_label error_type 128) (\<lambda>type.
     try_bind (uuid_or_value_error (wi_asset_id (ac_work_item c))) (\<lambda>i.
     try_bind (uuid_or_value_error (ac_lease_token c)) (\<lambda>token.
       case find (held_under i token) rows of
         None \<Rightarrow> Inr (False, rows, ws)
       | Some r \<Rightarrow>
           let retry = (retryable \<and> as_attempt_count r < as_max_attempts r)
           in Inr (True, update_where (held_under i token) (failed_asset code type retry retry_at now) rows,
                if retry then retry_wakeup queue i retry_at now ws else end_wakeup queue i now ws)))))"

section \<open>Terminal assets complete their wake-up\<close>

definition complete_if_terminal ::
  "string \<Rightarrow> uuid \<Rightarrow> int \<Rightarrow> 'a asset_columns_scheme list \<Rightarrow> wakeup_row list \<Rightarrow> bool \<times> wakeup_row list" where
  "complete_if_terminal queue i now rows ws =
     (if list_ex (\<lambda>r. as_id r = i \<and> terminal_state (as_state r)) rows
      then (count_where (archive_wakeup queue i) ws = 1, end_wakeup queue i now ws)
      else (False, ws))"

section \<open>Images\<close>

definition claim_image ::
  "uuid list \<Rightarrow> uuid \<Rightarrow> string \<Rightarrow> int \<Rightarrow> int \<Rightarrow> message_store \<Rightarrow> (archive_claim option \<times> message_store) result" where
  "claim_image locked token asset_id now duration st =
     try_bind (uuid_or_value_error asset_id) (\<lambda>i.
     try_bind (claim_asset image_archive_queue locked token i now duration (mt_messages st) (mt_images st) (mt_wakeups st))
       (\<lambda>(c, rows, ws). Inr (c, st\<lparr>mt_images := rows, mt_wakeups := ws\<rparr>)))"

definition ready_image :: "image_ready_metadata \<Rightarrow> image_asset_row \<Rightarrow> image_asset_row" where
  "ready_image m r =
     r\<lparr>as_state := A_READY, as_next_retry_at := None, as_lease_token := None, as_lease_expires_at := None,
       as_last_error_code := None, as_last_error_type := None, as_last_failure_at := None,
       im_storage_backend := Some (rd_storage_backend m), im_storage_key := Some (rd_storage_key m),
       im_content_type := Some (rd_content_type m), im_width := Some (rd_width m), im_height := Some (rd_height m),
       as_source_sha256 := Some (rd_source_sha256 m), im_archive_sha256 := Some (rd_archive_sha256 m),
       im_perceptual_hash := Some (rd_perceptual_hash m), im_archive_size_bytes := Some (rd_archive_size_bytes m),
       as_ready_at := Some (instant (rd_archived_at m)), as_deleted_at := None,
       as_updated_at := instant (rd_archived_at m)\<rparr>"

text \<open>Numbers are refused when they are bound, long texts when they are written to a row.\<close>

definition image_numbers_fit :: "image_ready_metadata \<Rightarrow> bool" where
  "image_numbers_fit m = (fits_integer (rd_width m) \<and> fits_integer (rd_height m) \<and> fits_bigint (rd_archive_size_bytes m))"

definition image_texts_fit :: "image_ready_metadata \<Rightarrow> bool" where
  "image_texts_fit m = (length (rd_storage_backend m) \<le> 64 \<and> length (rd_storage_key m) \<le> 1024)"

definition write_ready_images ::
  "(image_asset_row \<Rightarrow> bool) \<Rightarrow> (image_asset_row \<Rightarrow> image_asset_row) \<Rightarrow> image_ready_metadata \<Rightarrow> message_store \<Rightarrow> (bool \<times> message_store) result"
where
  "write_ready_images P f m st =
     (if \<not> image_numbers_fit m \<or> list_ex P (mt_images st) \<and> \<not> image_texts_fit m then Inl DataError
      else Inr (count_where P (mt_images st) = 1, st\<lparr>mt_images := update_where P f (mt_images st)\<rparr>))"

definition mark_image_ready :: "archive_claim \<Rightarrow> image_ready_metadata \<Rightarrow> message_store \<Rightarrow> (bool \<times> message_store) result" where
  "mark_image_ready c m st =
     try_bind (uuid_or_value_error (wi_asset_id (ac_work_item c))) (\<lambda>i.
     try_bind (uuid_or_value_error (rd_image_asset_id m)) (\<lambda>j.
     try_bind (uuid_or_value_error (ac_lease_token c)) (\<lambda>token.
       write_ready_images (\<lambda>r. held_under i token r \<and> as_id r = j) (ready_image m) m st)))"

text \<open>
  The unleased transition of \<^verbatim>\<open>SqlAlchemyImageArchiveMetadataRepository\<close>: a pending image becomes
  ready; on a ready image with the same facts it changes nothing but clears what is already clear.
\<close>

definition same_facts :: "image_ready_metadata \<Rightarrow> image_asset_row \<Rightarrow> bool" where
  "same_facts m r =
     (im_storage_backend r = Some (rd_storage_backend m) \<and> im_storage_key r = Some (rd_storage_key m)
      \<and> im_content_type r = Some (rd_content_type m) \<and> im_width r = Some (rd_width m)
      \<and> im_height r = Some (rd_height m) \<and> as_source_sha256 r = Some (rd_source_sha256 m)
      \<and> im_archive_sha256 r = Some (rd_archive_sha256 m) \<and> im_perceptual_hash r = Some (rd_perceptual_hash m)
      \<and> im_archive_size_bytes r = Some (rd_archive_size_bytes m))"

definition unleased_pending :: "image_asset_row \<Rightarrow> bool" where
  "unleased_pending r = (as_state r = A_PENDING \<and> as_lease_token r = None \<and> as_lease_expires_at r = None)"

definition ready_or_replayed :: "image_ready_metadata \<Rightarrow> image_asset_row \<Rightarrow> image_asset_row" where
  "ready_or_replayed m r =
     (if unleased_pending r then ready_image m r
      else (ready_image m r)\<lparr>as_ready_at := as_ready_at r, as_updated_at := as_updated_at r\<rparr>)"

definition image_asset_mark_ready :: "image_ready_metadata \<Rightarrow> message_store \<Rightarrow> (bool \<times> message_store) result" where
  "image_asset_mark_ready m st =
     try_bind (uuid_or_value_error (rd_image_asset_id m)) (\<lambda>i.
       write_ready_images (\<lambda>r. as_id r = i \<and> (unleased_pending r \<or> as_state r = A_READY \<and> same_facts m r))
         (ready_or_replayed m) m st)"

definition fail_image ::
  "archive_claim \<Rightarrow> string \<Rightarrow> string \<Rightarrow> bool \<Rightarrow> int \<Rightarrow> int \<Rightarrow> message_store \<Rightarrow> (bool \<times> message_store) result" where
  "fail_image c error_code error_type retryable retry_at now st =
     try_bind (fail_asset image_archive_queue c error_code error_type retryable retry_at now (mt_images st) (mt_wakeups st))
       (\<lambda>(b, rows, ws). Inr (b, st\<lparr>mt_images := rows, mt_wakeups := ws\<rparr>))"

definition complete_image_wakeup :: "string \<Rightarrow> int \<Rightarrow> message_store \<Rightarrow> (bool \<times> message_store) result" where
  "complete_image_wakeup asset_id now st =
     try_bind (uuid_or_value_error asset_id) (\<lambda>i.
       let (b, ws) = complete_if_terminal image_archive_queue i now (mt_images st) (mt_wakeups st)
       in Inr (b, st\<lparr>mt_wakeups := ws\<rparr>))"

section \<open>Videos\<close>

definition claim_video ::
  "uuid list \<Rightarrow> uuid \<Rightarrow> string \<Rightarrow> int \<Rightarrow> int \<Rightarrow> message_store \<Rightarrow> (archive_claim option \<times> message_store) result" where
  "claim_video locked token asset_id now duration st =
     try_bind (uuid_or_value_error asset_id) (\<lambda>i.
     try_bind (claim_asset video_archive_queue locked token i now duration (mt_messages st) (mt_videos st) (mt_wakeups st))
       (\<lambda>(c, rows, ws). Inr (c, st\<lparr>mt_videos := rows, mt_wakeups := ws\<rparr>)))"

definition ready_video :: "video_metadata \<Rightarrow> video_asset_row \<Rightarrow> video_asset_row" where
  "ready_video m r =
     r\<lparr>as_state := A_READY, as_next_retry_at := None, as_lease_token := None, as_lease_expires_at := None,
       as_last_error_code := None, as_last_error_type := None, as_last_failure_at := None,
       vi_source_content_type := vm_source_content_type m, vi_source_size_bytes := Some (vm_source_size_bytes m),
       as_source_sha256 := Some (vm_source_sha256 m),
       vi_duration_seconds := Some (vp_duration_seconds (vm_probe m)),
       vi_source_width := vp_width (vm_probe m), vi_source_height := vp_height (vm_probe m),
       as_ready_at := Some (instant (vm_archived_at m)), as_deleted_at := None,
       as_updated_at := instant (vm_archived_at m)\<rparr>"

definition frame_row :: "uuid \<Rightarrow> frame_metadata \<Rightarrow> video_frame_row" where
  "frame_row i f =
     \<lparr>vf_video_asset_id = i, vf_frame_role = fm_frame_role f, vf_frame_index = fm_frame_index f,
      vf_timestamp_seconds = fm_timestamp_seconds f, vf_storage_backend = fm_storage_backend f,
      vf_storage_key = fm_storage_key f, vf_content_type = ia_content_type (fm_artifact f),
      vf_width = ia_width (fm_artifact f), vf_height = ia_height (fm_artifact f),
      vf_source_sha256 = ia_source_sha256 (fm_artifact f), vf_archive_sha256 = ia_archive_sha256 (fm_artifact f),
      vf_perceptual_hash = ia_perceptual_hash (fm_artifact f), vf_archive_size_bytes = fm_archive_size_bytes f\<rparr>"

definition frame_fits :: "video_frame_row \<Rightarrow> bool" where
  "frame_fits f = (fits_integer (vf_frame_index f) \<and> length (vf_storage_backend f) \<le> 64 \<and> length (vf_storage_key f) \<le> 1024
     \<and> fits_integer (vf_width f) \<and> fits_integer (vf_height f) \<and> fits_bigint (vf_archive_size_bytes f))"

text \<open>The unique keys of \<^verbatim>\<open>video_frames\<close>.\<close>

definition same_frame :: "video_frame_row \<Rightarrow> video_frame_row \<Rightarrow> bool" where
  "same_frame f x =
     (vf_video_asset_id x = vf_video_asset_id f \<and> vf_frame_role x = vf_frame_role f \<and> vf_frame_index x = vf_frame_index f
      \<or> vf_storage_backend x = vf_storage_backend f \<and> vf_storage_key x = vf_storage_key f)"

fun insert_frames :: "video_frame_row list \<Rightarrow> video_frame_row list \<Rightarrow> video_frame_row list result" where
  "insert_frames [] rows = Inr rows"
| "insert_frames (f # fs) rows =
     (if \<not> frame_fits f then Inl DataError
      else if list_ex (same_frame f) rows then Inl IntegrityError
      else insert_frames fs (rows @ [f]))"

definition video_fits :: "video_metadata \<Rightarrow> bool" where
  "video_fits m =
     ((case vm_source_content_type m of None \<Rightarrow> True | Some s \<Rightarrow> length s \<le> 128) \<and> fits_bigint (vm_source_size_bytes m)
      \<and> (case vp_width (vm_probe m) of None \<Rightarrow> True | Some i \<Rightarrow> fits_integer i)
      \<and> (case vp_height (vm_probe m) of None \<Rightarrow> True | Some i \<Rightarrow> fits_integer i))"

definition mark_video_ready :: "archive_claim \<Rightarrow> video_metadata \<Rightarrow> archive_db \<Rightarrow> (bool \<times> archive_db) result" where
  "mark_video_ready c m db =
     try_bind (uuid_or_value_error (wi_asset_id (ac_work_item c))) (\<lambda>i.
     try_bind (uuid_or_value_error (vm_video_asset_id m)) (\<lambda>j.
     try_bind (uuid_or_value_error (ac_lease_token c)) (\<lambda>token.
       let P = (\<lambda>r. held_under i token r \<and> as_id r = j); st = ad_store db
       in if \<not> list_ex P (mt_videos st) then Inr (False, db)
          else if \<not> video_fits m then Inl DataError
          else try_bind (insert_frames (map (frame_row i) (vm_frames m))
                 (filter (\<lambda>f. vf_video_asset_id f \<noteq> i) (ad_frames db))) (\<lambda>frames.
            Inr (True, \<lparr>ad_store = st\<lparr>mt_videos := update_where P (ready_video m) (mt_videos st)\<rparr>, ad_frames = frames\<rparr>)))))"

definition fail_video ::
  "archive_claim \<Rightarrow> string \<Rightarrow> string \<Rightarrow> bool \<Rightarrow> int \<Rightarrow> int \<Rightarrow> message_store \<Rightarrow> (bool \<times> message_store) result" where
  "fail_video c error_code error_type retryable retry_at now st =
     try_bind (fail_asset video_archive_queue c error_code error_type retryable retry_at now (mt_videos st) (mt_wakeups st))
       (\<lambda>(b, rows, ws). Inr (b, st\<lparr>mt_videos := rows, mt_wakeups := ws\<rparr>))"

definition complete_video_wakeup :: "string \<Rightarrow> int \<Rightarrow> message_store \<Rightarrow> (bool \<times> message_store) result" where
  "complete_video_wakeup asset_id now st =
     try_bind (uuid_or_value_error asset_id) (\<lambda>i.
       let (b, ws) = complete_if_terminal video_archive_queue i now (mt_videos st) (mt_wakeups st)
       in Inr (b, st\<lparr>mt_wakeups := ws\<rparr>))"

end
