(* ===== verification/Archive_Invariant.thy ===== *)
theory Archive_Invariant
  imports Media_Archive
begin

text \<open>
  The invariant of the media archive together with ingestion and the dispatcher of wake-ups: every
  row satisfies the lifecycle constraints of its table, each archivable asset that is not finished
  has an active wake-up, and leases are fenced by their tokens.
\<close>

section \<open>Lifecycle constraints\<close>

definition asset_ok :: "'a asset_columns_scheme \<Rightarrow> bool" where
  "asset_ok r \<longleftrightarrow>
     0 \<le> as_attempt_count r \<and> as_attempt_count r \<le> as_max_attempts r \<and> 0 < as_max_attempts r
     \<and> (as_state r = A_PROCESSING \<longleftrightarrow> as_lease_token r \<noteq> None)
     \<and> (as_state r = A_PROCESSING \<longleftrightarrow> as_lease_expires_at r \<noteq> None)
     \<and> (as_state r = A_PROCESSING \<longrightarrow> 0 < as_attempt_count r)
     \<and> (as_state r = A_RETRY_WAIT \<longleftrightarrow> as_next_retry_at r \<noteq> None)
     \<and> (as_state r = A_RETRY_WAIT \<or> as_state r = A_FAILED \<longrightarrow>
          as_last_error_code r \<noteq> None \<and> as_last_error_type r \<noteq> None \<and> as_last_failure_at r \<noteq> None)
     \<and> (as_state r = A_READY \<longrightarrow> as_source_sha256 r \<noteq> None \<and> as_ready_at r \<noteq> None)
     \<and> (as_state r = A_DELETED \<longrightarrow> as_deleted_at r \<noteq> None)
     \<and> (as_state r \<noteq> A_PENDING \<and> \<not> terminal_state (as_state r) \<longrightarrow> as_source_telegram_message_id r \<noteq> None)"

definition image_ok :: "image_asset_row \<Rightarrow> bool" where
  "image_ok r \<longleftrightarrow> asset_ok r \<and> (as_state r = A_READY \<longrightarrow>
     im_storage_backend r \<noteq> None \<and> im_storage_key r \<noteq> None \<and> im_content_type r \<noteq> None \<and> im_width r \<noteq> None
     \<and> im_height r \<noteq> None \<and> im_archive_sha256 r \<noteq> None \<and> im_perceptual_hash r \<noteq> None \<and> im_archive_size_bytes r \<noteq> None)"

definition video_ok :: "video_asset_row \<Rightarrow> bool" where
  "video_ok r \<longleftrightarrow> asset_ok r \<and> (as_state r = A_READY \<longrightarrow> vi_duration_seconds r \<noteq> None)"

lemma archive_simps [simp]: "terminal_state A_READY" "terminal_state A_DELETED" "terminal_state A_FAILED"
    "\<not> terminal_state A_PENDING" "\<not> terminal_state A_PROCESSING" "\<not> terminal_state A_RETRY_WAIT"
  by (simp_all add: terminal_state_def)

lemma lease_asset_ok: "asset_ok r \<Longrightarrow> claimable now r \<Longrightarrow> as_attempt_count r < as_max_attempts r \<Longrightarrow>
    asset_ok (lease_asset token now duration r)"
  by (auto simp: asset_ok_def lease_asset_def claimable_def)

lemma terminalize_exhausted_ok: "asset_ok r \<Longrightarrow> asset_ok (terminalize_exhausted now r)"
  by (auto simp: asset_ok_def terminalize_exhausted_def)

lemma failed_asset_ok: "asset_ok r \<Longrightarrow> as_state r = A_PROCESSING \<Longrightarrow> asset_ok (failed_asset code type retry retry_at now r)"
  by (cases retry) (auto simp: asset_ok_def failed_asset_def)

lemma ready_image_ok: "asset_ok r \<Longrightarrow> image_ok (ready_image m r)" "asset_ok r \<Longrightarrow> as_state r = A_READY \<Longrightarrow> image_ok (ready_or_replayed m r)"
    "asset_ok r \<Longrightarrow> unleased_pending r \<Longrightarrow> image_ok (ready_or_replayed m r)"
  by (auto simp: asset_ok_def image_ok_def ready_image_def ready_or_replayed_def unleased_pending_def)

lemma ready_video_ok: "asset_ok r \<Longrightarrow> video_ok (ready_video m r)"
  by (auto simp: asset_ok_def video_ok_def ready_video_def)

section \<open>Leases of assets\<close>

definition asset_holder :: "'a asset_columns_scheme \<Rightarrow> (uuid \<times> int) option" where
  "asset_holder r = lease_of (as_lease_token r) (as_lease_expires_at r)"

definition asset_claims :: "uuid \<Rightarrow> int \<Rightarrow> 'a asset_columns_scheme \<Rightarrow> 'a asset_columns_scheme \<Rightarrow> bool" where
  "asset_claims token now r r' \<longleftrightarrow> asset_ok r \<and> claimable now r \<and> (\<exists>duration. r' = lease_asset token now duration r)"

text \<open>What the holder of a token does to its row: it becomes ready or fails, and the lease ends.\<close>

definition asset_acts :: "uuid \<Rightarrow> int \<Rightarrow> 'a asset_columns_scheme \<Rightarrow> 'a asset_columns_scheme \<Rightarrow> bool" where
  "asset_acts token now r r' \<longleftrightarrow> asset_ok r \<and> held_under (as_id r) token r \<and> as_lease_token r' = None"

interpretation asset_lease: leased_row "asset_holder :: 'a asset_columns_scheme \<Rightarrow> _" asset_claims asset_acts
proof
  fix token now and r r' :: "'a asset_columns_scheme" and t e
  assume "asset_claims token now r r'" and "asset_holder r = Some (t, e)"
  then show "e \<le> now"
    by (cases "as_lease_token r"; cases "as_lease_expires_at r")
      (auto simp: asset_claims_def asset_holder_def asset_ok_def claimable_def passed_def)
next
  fix token now and r r' :: "'a asset_columns_scheme"
  assume "asset_claims token now r r'"
  then show "\<exists>e. asset_holder r' = Some (token, e)" by (auto simp: asset_claims_def asset_holder_def lease_asset_def)
next
  fix token now and r r' :: "'a asset_columns_scheme"
  assume "asset_acts token now r r'"
  then show "\<exists>e. asset_holder r = Some (token, e)"
    by (cases "as_lease_expires_at r") (auto simp: asset_acts_def asset_holder_def asset_ok_def held_under_def)
next
  fix token now and r r' :: "'a asset_columns_scheme"
  assume "asset_acts token now r r'"
  then show "asset_holder r' = asset_holder r \<or> asset_holder r' = None" by (simp add: asset_acts_def asset_holder_def)
qed

section \<open>Assets and their wake-ups\<close>

definition wakes :: "string \<Rightarrow> 'a asset_columns_scheme \<Rightarrow> wakeup_row \<Rightarrow> bool" where
  "wakes queue r w \<longleftrightarrow> wk_queue w = queue \<and> wk_entity_id w = as_id r"

definition lively :: "string \<Rightarrow> wakeup_row list \<Rightarrow> 'a asset_columns_scheme \<Rightarrow> bool" where
  "lively queue ws r \<longleftrightarrow> (terminal_state (as_state r) \<or>
     (\<forall>w \<in> set ws. wakes queue r w \<longrightarrow> active_wakeup w)
     \<and> (as_source_telegram_message_id r \<noteq> None \<longrightarrow> (\<exists>w \<in> set ws. wakes queue r w)))"

definition kind_ok :: "string \<Rightarrow> 'a asset_columns_scheme list \<Rightarrow> wakeup_row list \<Rightarrow> bool" where
  "kind_ok queue rows ws \<longleftrightarrow> distinct (map as_id rows) \<and> (\<forall>r \<in> set rows. asset_ok r \<and> lively queue ws r)
     \<and> (\<forall>w \<in> set ws. wk_queue w = queue \<longrightarrow> wk_entity_id w \<in> as_id ` set rows)"

lemma wakes_key: "wakes queue r w \<Longrightarrow> as_id r' = as_id r \<Longrightarrow> wakes queue r' w"
  by (simp add: wakes_def)

text \<open>Rows change one at a time and keep their ids.\<close>

lemma kind_ok_rows:
  assumes "kind_ok queue rows ws" and "\<And>r. P r \<Longrightarrow> as_id (f r) = as_id r"
    and "\<And>r. r \<in> set rows \<Longrightarrow> P r \<Longrightarrow> asset_ok (f r) \<and> lively queue ws (f r)"
  shows "kind_ok queue (update_where P f rows) ws"
proof -
  have ids: "map as_id (update_where P f rows) = map as_id rows" by (rule map_update_where) (rule assms(2))
  then have "as_id ` set (update_where P f rows) = as_id ` set rows" by (metis list.set_map)
  with ids assms(1,3) show ?thesis by (auto simp: kind_ok_def in_update_where)
qed

text \<open>A change of wake-ups that keeps them active, or that only concerns a finished asset.\<close>

definition same_wakeup :: "wakeup_row \<Rightarrow> wakeup_row \<Rightarrow> bool" where
  "same_wakeup w w' \<longleftrightarrow> wk_queue w' = wk_queue w \<and> wk_entity_id w' = wk_entity_id w"

lemma lively_wakeups:
  assumes "lively queue ws r" and "\<And>w. P w \<Longrightarrow> same_wakeup w (f w)"
    and "\<And>w. w \<in> set ws \<Longrightarrow> P w \<Longrightarrow> wakes queue r w \<Longrightarrow> active_wakeup w \<Longrightarrow> terminal_state (as_state r) \<or> active_wakeup (f w)"
  shows "lively queue (update_where P f ws) r"
proof (cases "terminal_state (as_state r)")
  case False
  have keys: "wakes queue r (if P w then f w else w) = wakes queue r w" for w
    using assms(2) [of w] by (auto simp: wakes_def same_wakeup_def)
  have "active_wakeup w'" if w': "w' \<in> set (update_where P f ws)" "wakes queue r w'" for w'
  proof -
    from w' obtain w where w: "w \<in> set ws" "w' = (if P w then f w else w)" by (auto simp: set_update_where)
    with keys w'(2) have "wakes queue r w" by simp
    with assms(1) False w(1) have "active_wakeup w" by (auto simp: lively_def)
    with assms(3) [OF w(1) _ \<open>wakes queue r w\<close>] False w(2) show ?thesis by auto
  qed
  moreover have "\<exists>w' \<in> set (update_where P f ws). wakes queue r w'" if "\<exists>w \<in> set ws. wakes queue r w"
    using that keys unfolding set_update_where by blast
  ultimately show ?thesis using assms(1) False by (auto simp: lively_def)
qed (simp add: lively_def)

lemma kind_ok_wakeups:
  assumes "kind_ok queue rows ws" and "\<And>w. P w \<Longrightarrow> same_wakeup w (f w)"
    and "\<And>r w. r \<in> set rows \<Longrightarrow> w \<in> set ws \<Longrightarrow> P w \<Longrightarrow> wakes queue r w \<Longrightarrow> active_wakeup w \<Longrightarrow>
      terminal_state (as_state r) \<or> active_wakeup (f w)"
  shows "kind_ok queue rows (update_where P f ws)"
proof -
  have "lively queue (update_where P f ws) r" if "r \<in> set rows" for r
    by (rule lively_wakeups) (use assms that in \<open>auto simp: kind_ok_def\<close>)
  moreover have "wk_entity_id w \<in> as_id ` set rows" if "w \<in> set (update_where P f ws)" "wk_queue w = queue" for w
    using that assms(1,2) by (auto simp: kind_ok_def in_update_where same_wakeup_def)
  ultimately show ?thesis using assms(1) by (simp add: kind_ok_def)
qed

lemma same_wakeup_updates [simp]:
  "same_wakeup w (complete_wakeup now w)" "same_wakeup w (lease_wakeup token now duration w)"
  "same_wakeup w (release_wakeup next_at now dispatched w)"
  "same_wakeup w (w\<lparr>wk_status := s, wk_next_attempt_at := a, wk_lease_token := t, wk_lease_expires_at := x,
     wk_completed_at := c, wk_updated_at := u\<rparr>)"
  by (simp_all add: same_wakeup_def complete_wakeup_def lease_wakeup_def release_wakeup_def)

lemma active_updates [simp]:
  "active_wakeup (lease_wakeup token now duration w)" "active_wakeup (release_wakeup next_at now dispatched w)"
  "active_wakeup (w\<lparr>wk_status := W_PENDING, wk_next_attempt_at := a, wk_lease_token := t, wk_lease_expires_at := x,
     wk_completed_at := c, wk_updated_at := u\<rparr>)"
  by (simp_all add: active_wakeup_def lease_wakeup_def release_wakeup_def)

lemma end_wakeup_other: "queue \<noteq> q \<Longrightarrow> kind_ok queue rows ws \<Longrightarrow> kind_ok queue rows (end_wakeup q i now ws)"
  unfolding end_wakeup_def by (rule kind_ok_wakeups) (auto simp: archive_wakeup_def wakes_def)

lemma end_wakeup_terminal:
  assumes "kind_ok queue rows ws" and "\<And>r. r \<in> set rows \<Longrightarrow> as_id r = i \<Longrightarrow> terminal_state (as_state r)"
  shows "kind_ok queue rows (end_wakeup queue i now ws)"
  unfolding end_wakeup_def by (rule kind_ok_wakeups) (use assms in \<open>auto simp: archive_wakeup_def wakes_def\<close>)

lemma retry_wakeup_ok: "kind_ok queue rows ws \<Longrightarrow> kind_ok queue rows (retry_wakeup q i retry_at now ws)"
  unfolding retry_wakeup_def by (rule kind_ok_wakeups) simp_all

section \<open>Claims, failures and completion keep the invariant\<close>

lemma kind_ok_key: "kind_ok queue rows ws \<Longrightarrow> x \<in> set rows \<Longrightarrow> r \<in> set rows \<Longrightarrow> as_id x = as_id r \<Longrightarrow> x = r"
  unfolding kind_ok_def by (blast intro: distinct_key_eq)

lemma claimable_row_Some:
  assumes "claimable_row locked i now ms rows = Some (r, m)"
  shows "r \<in> set rows" "as_id r = i" "claimable now r" "m \<in> set ms" "ms_id m = as_message_id r"
  using assms by (auto simp: claimable_row_def find_Some_iff split: option.splits if_splits)

lemma lively_same:
  "lively queue ws r \<Longrightarrow> as_id r' = as_id r \<Longrightarrow> as_source_telegram_message_id r' = as_source_telegram_message_id r \<Longrightarrow>
     (terminal_state (as_state r) \<longrightarrow> terminal_state (as_state r')) \<Longrightarrow> lively queue ws r'"
  by (auto simp: lively_def wakes_def)

definition other_queues :: "string \<Rightarrow> wakeup_row list \<Rightarrow> wakeup_row list \<Rightarrow> bool" where
  "other_queues q ws ws' \<longleftrightarrow> (\<exists>P f. ws' = update_where P f ws \<and> (\<forall>w. P w \<longrightarrow> wk_queue w = q \<and> same_wakeup w (f w) \<and> wakeup_ok (f w)))"

lemma other_queues_kind: "other_queues q ws ws' \<Longrightarrow> queue \<noteq> q \<Longrightarrow> kind_ok queue rows ws \<Longrightarrow> kind_ok queue rows ws'"
  unfolding other_queues_def by (auto simp: wakes_def intro!: kind_ok_wakeups)

lemma other_queues_refl [simp]: "other_queues q ws ws"
  unfolding other_queues_def by (rule exI [of _ "\<lambda>_. False"]) (simp add: update_where_none)

lemma end_wakeup_queue: "other_queues q ws (end_wakeup q i now ws)"
  unfolding other_queues_def end_wakeup_def
  by (rule exI [of _ "archive_wakeup q i"]) (auto simp: archive_wakeup_def)

lemma retry_wakeup_queue: "other_queues q ws (retry_wakeup q i at_time now ws)"
  unfolding other_queues_def retry_wakeup_def
  by (rule exI [of _ "archive_wakeup q i"]) (auto simp: archive_wakeup_def wakeup_ok_def)

lemma other_queues_ok: "other_queues q ws ws' \<Longrightarrow> \<forall>w \<in> set ws. wakeup_ok w \<Longrightarrow> \<forall>w \<in> set ws'. wakeup_ok w"
  unfolding other_queues_def by (auto simp: in_update_where)

lemma claim_asset_cases:
  assumes "claim_asset queue locked token i now duration ms rows ws = Inr (c, rows', ws')"
  obtains "c = None" "rows' = rows" "ws' = ws"
  | r where "c = None" "r \<in> set rows" "as_id r = i" "as_max_attempts r \<le> as_attempt_count r"
      "rows' = update_where (\<lambda>x. as_id x = i) (terminalize_exhausted now) rows" "ws' = end_wakeup queue i now ws"
  | r m cl where "c = Some cl" "r \<in> set rows" "as_id r = i" "claimable now r" "as_attempt_count r < as_max_attempts r"
      "rows' = update_where (\<lambda>x. as_id x = i) (lease_asset token now duration) rows" "ws' = ws"
      "claim_of r m token = Inr cl" "m \<in> set ms" "ms_id m = as_message_id r"
proof (cases "claimable_row locked i now ms rows")
  case None
  with assms that(1) show thesis by (simp add: claim_asset_def)
next
  case (Some e)
  obtain r m where e: "e = (r, m)" by (cases e)
  note r = claimable_row_Some [OF Some [unfolded e]]
  show thesis
  proof (cases "as_max_attempts r \<le> as_attempt_count r")
    case True
    with assms that(2) [OF _ r(1,2) True] Some e show thesis by (simp add: claim_asset_def)
  next
    case False
    with assms Some e obtain cl where "claim_of r m token = Inr cl" "c = Some cl" "ws' = ws"
        "rows' = update_where (\<lambda>x. as_id x = i) (lease_asset token now duration) rows"
      by (auto simp: claim_asset_def elim!: try_bindE)
    with that(3) [of cl r m] r False show thesis by simp
  qed
qed

lemma claim_asset_kind:
  assumes "kind_ok queue rows ws" and "claim_asset queue locked token i now duration ms rows ws = Inr (c, rows', ws')"
  shows "kind_ok queue rows' ws'" "other_queues queue ws ws'"
proof -
  from assms(2) have "kind_ok queue rows' ws' \<and> other_queues queue ws ws'"
  proof (cases rule: claim_asset_cases)
    case 1
    with assms(1) show ?thesis by simp
  next
    case (2 r)
    have "kind_ok queue rows' ws" unfolding 2(5)
    proof (rule kind_ok_rows [OF assms(1)])
      fix x assume "x \<in> set rows"
      with assms(1) have "asset_ok x" by (simp add: kind_ok_def)
      then show "asset_ok (terminalize_exhausted now x) \<and> lively queue ws (terminalize_exhausted now x)"
        by (simp add: terminalize_exhausted_ok) (simp add: lively_def terminalize_exhausted_def)
    qed (simp add: terminalize_exhausted_def)
    then have "kind_ok queue rows' (end_wakeup queue i now ws)"
    proof (rule end_wakeup_terminal)
      fix x assume "x \<in> set rows'" "as_id x = i"
      from \<open>x \<in> set rows'\<close> obtain y where y: "x = (if as_id y = i then terminalize_exhausted now y else y)"
        unfolding 2(5) set_update_where by (rule imageE)
      with \<open>as_id x = i\<close> have "as_id y = i" by (simp add: terminalize_exhausted_def split: if_splits)
      with y show "terminal_state (as_state x)" by (simp add: terminalize_exhausted_def)
    qed
    with end_wakeup_queue show ?thesis by (simp add: 2(6))
  next
    case (3 r m cl)
    have "kind_ok queue rows' ws" unfolding 3(6)
    proof (rule kind_ok_rows [OF assms(1)])
      fix x assume x: "x \<in> set rows" "as_id x = i"
      with kind_ok_key [OF assms(1) x(1) 3(2)] 3(3) have "x = r" by simp
      with assms(1) x(1) 3(4,5) have p: "asset_ok x" "lively queue ws x" "claimable now x" "as_attempt_count x < as_max_attempts x"
        by (simp_all add: kind_ok_def)
      from p(2) have "lively queue ws (lease_asset token now duration x)"
        by (rule lively_same) (use p(3) in \<open>auto simp: lease_asset_def claimable_def\<close>)
      with lease_asset_ok [OF p(1,3,4)]
      show "asset_ok (lease_asset token now duration x) \<and> lively queue ws (lease_asset token now duration x)" by simp
    qed (simp add: lease_asset_def)
    with 3(7) show ?thesis by simp
  qed
  then show "kind_ok queue rows' ws'" "other_queues queue ws ws'" by simp_all
qed

lemma fail_asset_cases:
  fixes rows :: "'a asset_columns_scheme list"
  assumes "fail_asset queue c error_code error_type retryable retry_at now rows ws = Inr (b, rows', ws')"
  obtains "\<not> b" "rows' = rows" "ws' = ws"
  | i token r code type retry where "b" "r \<in> set rows" "held_under i token r"
      "uuid_or_value_error (wi_asset_id (ac_work_item c)) = Inr i" "uuid_or_value_error (ac_lease_token c) = Inr token"
      "retry \<longleftrightarrow> retryable \<and> as_attempt_count r < as_max_attempts r"
      "rows' = update_where (held_under i token) (failed_asset code type retry retry_at now) rows"
      "ws' = (if retry then retry_wakeup queue i retry_at now ws else end_wakeup queue i now ws)"
proof -
  from assms obtain code type i token where i: "uuid_or_value_error (wi_asset_id (ac_work_item c)) = Inr i"
      "uuid_or_value_error (ac_lease_token c) = Inr token"
    and f: "(case find (held_under i token) rows of
         None \<Rightarrow> Inr (False, rows, ws) :: (bool \<times> 'a asset_columns_scheme list \<times> wakeup_row list) result
       | Some r \<Rightarrow>
           let retry = (retryable \<and> as_attempt_count r < as_max_attempts r)
           in Inr (True, update_where (held_under i token) (failed_asset code type retry retry_at now) rows,
                if retry then retry_wakeup queue i retry_at now ws else end_wakeup queue i now ws)) = Inr (b, rows', ws')"
    unfolding fail_asset_def by (elim try_bindE) (rule that, assumption+)
  show thesis
  proof (cases "find (held_under i token) rows")
    case None
    with f that(1) show thesis by simp
  next
    case (Some r)
    then have "r \<in> set rows" "held_under i token r" by (auto simp: find_Some_iff)
    with f Some that(2) [OF _ this i HOL.refl, of code type] show thesis by (simp add: Let_def)
  qed
qed

lemma fail_asset_kind:
  assumes "kind_ok queue rows ws" and "fail_asset queue c error_code error_type retryable retry_at now rows ws = Inr (b, rows', ws')"
  shows "kind_ok queue rows' ws'" "other_queues queue ws ws'"
proof -
  from assms(2) have "kind_ok queue rows' ws' \<and> other_queues queue ws ws'"
  proof (cases rule: fail_asset_cases)
    case 1
    with assms(1) show ?thesis by simp
  next
    case (2 i token r code type retry)
    have "kind_ok queue rows' ws" unfolding 2(7)
    proof (rule kind_ok_rows [OF assms(1)])
      fix x assume x: "x \<in> set rows" "held_under i token x"
      then have p: "asset_ok x" "lively queue ws x" "as_state x = A_PROCESSING" using assms(1) by (simp_all add: kind_ok_def held_under_def)
      from p(2) have "lively queue ws (failed_asset code type retry retry_at now x)"
        by (rule lively_same) (simp_all add: failed_asset_def p(3))
      with failed_asset_ok [OF p(1,3)] show "asset_ok (failed_asset code type retry retry_at now x) \<and> lively queue ws (failed_asset code type retry retry_at now x)" ..
    qed (simp add: failed_asset_def)
    moreover have "as_state x = A_FAILED" if "x \<in> set rows'" "as_id x = i" "\<not> retry" for x
    proof -
      from that(1) obtain y where y: "y \<in> set rows" "x = (if held_under i token y then failed_asset code type retry retry_at now y else y)"
        unfolding 2(7) set_update_where by (rule imageE)
      from that(2) have "as_id y = i" unfolding y(2) by (simp add: failed_asset_def split: if_splits)
      also have "i = as_id r" using 2(3) by (simp add: held_under_def)
      finally have "y = r" by (rule kind_ok_key [OF assms(1) y(1) 2(2)])
      with 2(3) y(2) that(3) show ?thesis by (simp add: failed_asset_def)
    qed
    ultimately have "kind_ok queue rows' ws'"
      by (auto simp: 2(8) intro!: retry_wakeup_ok end_wakeup_terminal)
    moreover have "other_queues queue ws ws'" by (simp add: 2(8) end_wakeup_queue retry_wakeup_queue)
    ultimately show ?thesis by simp
  qed
  then show "kind_ok queue rows' ws'" "other_queues queue ws ws'" by simp_all
qed

lemma complete_if_terminal_kind:
  assumes "kind_ok queue rows ws" and "complete_if_terminal queue i now rows ws = (b, ws')"
  shows "kind_ok queue rows ws'" "other_queues queue ws ws'"
proof -
  have "kind_ok queue rows ws' \<and> other_queues queue ws ws'"
  proof (cases "list_ex (\<lambda>r. as_id r = i \<and> terminal_state (as_state r)) rows")
    case True
    then obtain r where r: "r \<in> set rows" "as_id r = i" "terminal_state (as_state r)" by (auto simp: list_ex_iff)
    have "kind_ok queue rows (end_wakeup queue i now ws)"
      by (rule end_wakeup_terminal [OF assms(1)]) (use kind_ok_key [OF assms(1) _ r(1)] r in auto)
    with True assms(2) end_wakeup_queue [of queue ws i now] show ?thesis by (simp add: complete_if_terminal_def)
  qed (use assms in \<open>simp add: complete_if_terminal_def\<close>)
  then show "kind_ok queue rows ws'" "other_queues queue ws ws'" by simp_all
qed

section \<open>Ingestion keeps the invariant\<close>

text \<open>The contract of the upsert of one kind of asset, as far as the archive is concerned.\<close>

locale archived_upsert = asset_upsert new merge mid
  for new :: "media_asset \<Rightarrow> 'a asset_columns_scheme" and merge mid +
  fixes ok :: "'a asset_columns_scheme \<Rightarrow> bool"
  assumes ok_asset: "ok r \<Longrightarrow> asset_ok r"
    and ok_new: "ok (new a)" and ok_merge: "ok r \<Longrightarrow> ok (merge a r)"
    and state_new: "as_state (new a) = A_PENDING"
    and id_merge: "as_id (merge a r) = as_id r" and state_merge: "as_state (merge a r) = as_state r"
    and source_merge: "as_source_telegram_message_id r \<noteq> None \<Longrightarrow> as_source_telegram_message_id (merge a r) \<noteq> None"
begin

definition continues :: "'a asset_columns_scheme \<Rightarrow> 'a asset_columns_scheme \<Rightarrow> bool" where
  "continues r r' \<longleftrightarrow> as_id r' = as_id r \<and> as_state r' = as_state r
     \<and> (as_source_telegram_message_id r \<noteq> None \<longrightarrow> as_source_telegram_message_id r' \<noteq> None)"

definition grows :: "'a asset_columns_scheme list \<Rightarrow> 'a asset_columns_scheme list \<Rightarrow> bool" where
  "grows rows rows' \<longleftrightarrow> distinct (map as_id rows') \<and> as_id ` set rows \<subseteq> as_id ` set rows' \<and> (\<forall>r \<in> set rows'. ok r)
     \<and> (\<forall>r' \<in> set rows'. (\<exists>r \<in> set rows. continues r r') \<or> as_state r' = A_PENDING \<and> as_id r' \<notin> as_id ` set rows)"

lemma continues_merge: "continues r (merge a r)"
  by (simp add: continues_def id_merge state_merge source_merge)

lemma continues_refl [simp]: "continues r r"
  by (simp add: continues_def)

lemma continues_self: "r \<in> set rows \<Longrightarrow> \<exists>q \<in> set rows. continues q r"
  by (rule bexI) (rule continues_refl)

lemma upsert_grows:
  assumes "upsert_asset new merge mid a rows = Inr rows'" "distinct (map as_id rows)" "\<forall>r \<in> set rows. ok r"
  shows "grows rows rows'"
proof (cases "list_ex (\<lambda>r. asset_key r = (mid, md_asset_id a)) rows")
  case True
  with assms(1) have rows': "rows' = update_where (\<lambda>r. asset_key r = (mid, md_asset_id a)) (merge a) rows"
    by (simp add: upsert_asset_def split: if_splits)
  have ids: "map as_id rows' = map as_id rows" unfolding rows' by (rule map_update_where) (rule id_merge)
  then have "as_id ` set rows' = as_id ` set rows" by (metis list.set_map)
  moreover have "ok r' \<and> (\<exists>r \<in> set rows. continues r r')" if "r' \<in> set rows'" for r'
  proof -
    from that obtain r where r: "r \<in> set rows" "r' = (if asset_key r = (mid, md_asset_id a) then merge a r else r)"
      unfolding rows' set_update_where by (rule imageE)
    with assms(3) have "ok r'" by (simp add: ok_merge)
    moreover have "continues r r'" by (simp add: r(2) continues_merge)
    ultimately show ?thesis using r(1) by blast
  qed
  ultimately show ?thesis using ids assms(2) by (simp add: grows_def)
next
  case False
  with assms(1) have "as_id (new a) \<notin> as_id ` set rows" "rows' = rows @ [new a]"
    by (simp_all add: upsert_asset_def split: if_splits)
  with assms(2,3) continues_self show ?thesis by (auto simp: grows_def ok_new state_new)
qed

lemma grows_trans:
  assumes "grows a b" "grows b c"
  shows "grows a c"
proof -
  have "(\<exists>r \<in> set a. continues r r') \<or> as_state r' = A_PENDING \<and> as_id r' \<notin> as_id ` set a" if "r' \<in> set c" for r'
  proof -
    from assms(2) that have "(\<exists>r \<in> set b. continues r r') \<or> as_state r' = A_PENDING \<and> as_id r' \<notin> as_id ` set b"
      by (simp add: grows_def)
    then show ?thesis
    proof
      assume "\<exists>r \<in> set b. continues r r'"
      then obtain r where r: "r \<in> set b" "continues r r'" by blast
      with assms(1) have "(\<exists>q \<in> set a. continues q r) \<or> as_state r = A_PENDING \<and> as_id r \<notin> as_id ` set a"
        by (simp add: grows_def)
      with r(2) show ?thesis by (auto simp: continues_def)
    qed (use assms(1) in \<open>auto simp: grows_def\<close>)
  qed
  moreover have "as_id ` set a \<subseteq> as_id ` set c" 
  proof (rule subset_trans)
    show "as_id ` set a \<subseteq> as_id ` set b" "as_id ` set b \<subseteq> as_id ` set c" using assms by (simp_all add: grows_def)
  qed
  ultimately show ?thesis using assms(2) by (simp add: grows_def)
qed

lemma upserts_grow:
  "upsert_assets new merge mid as rows = Inr rows' \<Longrightarrow> distinct (map as_id rows) \<Longrightarrow> \<forall>r \<in> set rows. ok r \<Longrightarrow> grows rows rows'"
proof (induction "as" arbitrary: rows)
  case Nil
  then show ?case using continues_self by (auto simp: grows_def)
next
  case (Cons a "as")
  from Cons.prems(1) obtain r1 where r1: "upsert_asset new merge mid a rows = Inr r1"
      "upsert_assets new merge mid as r1 = Inr rows'" by (auto elim: try_bindE)
  from upsert_grows [OF r1(1) Cons.prems(2,3)] have g: "grows rows r1" .
  moreover from this Cons.IH [OF r1(2)] have "grows r1 rows'" by (simp add: grows_def)
  ultimately show ?case by (rule grows_trans)
qed

lemma upserts_kind:
  assumes "upsert_assets new merge mid as rows = Inr rows'"
    and "insert_wakeups fresh now queue (archivable_ids mid as rows') ws = Inr ws'"
    and "kind_ok queue rows ws" and "\<forall>r \<in> set rows. ok r"
    and new: "set ws \<subseteq> set ws'" "\<And>w. w \<in> set ws' \<Longrightarrow> w \<notin> set ws \<Longrightarrow> active_wakeup w"
  shows "kind_ok queue rows' ws'"
proof -
  have g: "grows rows rows'" using upserts_grow [OF assms(1) _ assms(4)] assms(3) by (simp add: kind_ok_def)
  note keys = insert_wakeups_keys [OF assms(2)]
  have old: "w \<in> set ws \<Longrightarrow> wk_queue w = queue \<Longrightarrow> wk_entity_id w \<in> as_id ` set rows" for w
    using assms(3) by (simp add: kind_ok_def)
  have "lively queue ws' r'" if r': "r' \<in> set rows'" for r'
  proof (cases "terminal_state (as_state r')")
    case False
    have "active_wakeup w" if w: "w \<in> set ws'" "wakes queue r' w" for w
    proof (cases "w \<in> set ws")
      case True
      with old [OF True] w(2) have "as_id r' \<in> as_id ` set rows" by (simp add: wakes_def)
      with g r' obtain r where r: "r \<in> set rows" "continues r r'" by (auto simp: grows_def)
      with assms(3) have "lively queue ws r" by (simp add: kind_ok_def)
      with r(2) True w(2) False show ?thesis by (auto simp: lively_def continues_def wakes_def)
    qed (rule new(2) [OF w(1)])
    moreover have "\<exists>w \<in> set ws'. wakes queue r' w" if source: "as_source_telegram_message_id r' \<noteq> None"
    proof (cases "as_state r' = A_PENDING \<and> r' \<notin> set rows")
      case True
      with rows_of_upserts [OF assms(1) r'] have "as_id r' \<in> set (archivable_ids mid as rows')"
        using r' source by (auto simp: archivable_ids_def)
      with keys have "(queue, as_id r') \<in> wakeup_keys ws'" by simp
      then show ?thesis by (auto simp: wakeup_keys_def wakes_def)
    next
      case known: False
      have "\<exists>r \<in> set rows. as_id r = as_id r' \<and> \<not> terminal_state (as_state r) \<and> as_source_telegram_message_id r \<noteq> None"
      proof (cases "r' \<in> set rows")
        case True
        with False source show ?thesis by blast
      next
        case r'_new: False
        with known have np: "as_state r' \<noteq> A_PENDING" by simp
        with g r' obtain r where r: "r \<in> set rows" "continues r r'" by (auto simp: grows_def)
        with assms(4) have "asset_ok r" using ok_asset by blast
        with r(2) np False have "as_source_telegram_message_id r \<noteq> None" by (auto simp: asset_ok_def continues_def)
        with r False show ?thesis by (auto simp: continues_def)
      qed
      then obtain r where r: "r \<in> set rows" "as_id r = as_id r'" "\<not> terminal_state (as_state r)"
        "as_source_telegram_message_id r \<noteq> None" by blast
      with assms(3) have "lively queue ws r" by (simp add: kind_ok_def)
      with r obtain w where "w \<in> set ws" "wakes queue r w" by (auto simp: lively_def)
      with new(1) r(2) show ?thesis by (auto simp: wakes_def)
    qed
    ultimately show ?thesis by (simp add: lively_def)
  qed (simp add: lively_def)
  moreover have "wk_entity_id w \<in> as_id ` set rows'" if w: "w \<in> set ws'" "wk_queue w = queue" for w
  proof -
    from w have "(queue, wk_entity_id w) \<in> wakeup_keys ws'" by (auto simp: wakeup_keys_def)
    with keys consider "(queue, wk_entity_id w) \<in> wakeup_keys ws" | "wk_entity_id w \<in> set (archivable_ids mid as rows')" by auto
    then show ?thesis
    proof cases
      case 1
      with old have "wk_entity_id w \<in> as_id ` set rows" by (auto simp: wakeup_keys_def)
      with g show ?thesis by (auto simp: grows_def)
    qed (auto simp: archivable_ids_def)
  qed
  ultimately show ?thesis using g ok_asset by (auto simp: kind_ok_def grows_def)
qed

end

end
