(* ===== verification/Archive_Steps.thy ===== *)
theory Archive_Steps
  imports Archive_Invariant
begin

text \<open>
  The media archive in motion: ingestion, the dispatcher of wake-ups and the transactions of the
  image and video workers, in any order and with any arguments, as a step relation on the tables,
  and what holds in every state they reach.
\<close>

section \<open>The tables together\<close>

definition tables_ok :: "message_store \<Rightarrow> bool" where
  "tables_ok st \<longleftrightarrow> kind_ok image_archive_queue (mt_images st) (mt_wakeups st)
     \<and> kind_ok video_archive_queue (mt_videos st) (mt_wakeups st)
     \<and> (\<forall>w \<in> set (mt_wakeups st). wakeup_ok w)
     \<and> (\<forall>r \<in> set (mt_images st). image_ok r) \<and> (\<forall>r \<in> set (mt_videos st). video_ok r)"

lemma queues_differ [simp]: "image_archive_queue \<noteq> video_archive_queue" "video_archive_queue \<noteq> image_archive_queue"
  by (simp_all add: image_archive_queue_def video_archive_queue_def)

definition ready_ids :: "'a asset_columns_scheme list \<Rightarrow> uuid set" where
  "ready_ids rows = as_id ` {r \<in> set rows. as_state r = A_READY}"

definition frames_ok :: "video_asset_row list \<Rightarrow> video_frame_row list \<Rightarrow> bool" where
  "frames_ok videos frames \<longleftrightarrow> ready_ids videos \<subseteq> vf_video_asset_id ` set frames
     \<and> sorted_wrt (\<lambda>x f. \<not> same_frame f x) frames"

definition archive_ok :: "archive_db \<Rightarrow> bool" where
  "archive_ok db \<longleftrightarrow> tables_ok (ad_store db) \<and> frames_ok (mt_videos (ad_store db)) (ad_frames db)"

lemma merge_image_columns [simp]:
  "as_id (merge_image a r) = as_id r" "as_state (merge_image a r) = as_state r"
  "as_attempt_count (merge_image a r) = as_attempt_count r" "as_max_attempts (merge_image a r) = as_max_attempts r"
  "as_next_retry_at (merge_image a r) = as_next_retry_at r" "as_lease_token (merge_image a r) = as_lease_token r"
  "as_lease_expires_at (merge_image a r) = as_lease_expires_at r"
  "as_last_error_code (merge_image a r) = as_last_error_code r"
  "as_last_error_type (merge_image a r) = as_last_error_type r"
  "as_last_failure_at (merge_image a r) = as_last_failure_at r" "as_ready_at (merge_image a r) = as_ready_at r"
  "as_deleted_at (merge_image a r) = as_deleted_at r" "as_source_sha256 (merge_image a r) = as_source_sha256 r"
  "im_perceptual_hash (merge_image a r) = im_perceptual_hash r"
  "im_storage_backend (merge_image a r) = im_storage_backend r"
  "im_storage_key (merge_image a r) = im_storage_key r" "im_content_type (merge_image a r) = im_content_type r"
  "im_width (merge_image a r) = im_width r" "im_height (merge_image a r) = im_height r"
  "im_archive_sha256 (merge_image a r) = im_archive_sha256 r"
  "im_archive_size_bytes (merge_image a r) = im_archive_size_bytes r"
  "as_source_telegram_message_id (merge_image a r) = coalesce (md_source_telegram_message_id a) (as_source_telegram_message_id r)"
  by (simp_all add: merge_image_def)

lemma merge_video_columns [simp]:
  "as_id (merge_video a r) = as_id r" "as_state (merge_video a r) = as_state r"
  "as_attempt_count (merge_video a r) = as_attempt_count r" "as_max_attempts (merge_video a r) = as_max_attempts r"
  "as_next_retry_at (merge_video a r) = as_next_retry_at r" "as_lease_token (merge_video a r) = as_lease_token r"
  "as_lease_expires_at (merge_video a r) = as_lease_expires_at r"
  "as_last_error_code (merge_video a r) = as_last_error_code r"
  "as_last_error_type (merge_video a r) = as_last_error_type r"
  "as_last_failure_at (merge_video a r) = as_last_failure_at r" "as_ready_at (merge_video a r) = as_ready_at r"
  "as_deleted_at (merge_video a r) = as_deleted_at r" "as_source_sha256 (merge_video a r) = as_source_sha256 r"
  "vi_duration_seconds (merge_video a r) = vi_duration_seconds r"
  "as_source_telegram_message_id (merge_video a r) = coalesce (md_source_telegram_message_id a) (as_source_telegram_message_id r)"
  by (simp_all add: merge_video_def)

lemma coalesce_None [simp]: "coalesce a b = None \<longleftrightarrow> a = None \<and> b = None"
  by (simp add: coalesce_def split: option.split)

lemma asset_ok_follows:
  assumes "asset_ok r" "as_id r' = as_id r" "as_state r' = as_state r" "as_attempt_count r' = as_attempt_count r"
    "as_max_attempts r' = as_max_attempts r" "as_next_retry_at r' = as_next_retry_at r" "as_lease_token r' = as_lease_token r"
    "as_lease_expires_at r' = as_lease_expires_at r" "as_last_error_code r' = as_last_error_code r"
    "as_last_error_type r' = as_last_error_type r" "as_last_failure_at r' = as_last_failure_at r" "as_ready_at r' = as_ready_at r"
    "as_deleted_at r' = as_deleted_at r" "as_source_sha256 r' = as_source_sha256 r"
    "as_source_telegram_message_id r \<noteq> None \<longrightarrow> as_source_telegram_message_id r' \<noteq> None"
  shows "asset_ok r'"
  using assms(1,15) unfolding asset_ok_def assms(2-14) by blast

lemma merged_image_ok: "image_ok r \<Longrightarrow> image_ok (merge_image a r)"
  using asset_ok_follows [of r "merge_image a r"] by (simp add: image_ok_def)

lemma merged_video_ok: "video_ok r \<Longrightarrow> video_ok (merge_video a r)"
  using asset_ok_follows [of r "merge_video a r"] by (simp add: video_ok_def)

lemma new_assets_ok: "image_ok (new_image fresh now mid a)" "video_ok (new_video fresh now mid a)"
    "as_state (new_image fresh now mid a) = A_PENDING" "as_state (new_video fresh now mid a) = A_PENDING"
  by (simp_all add: image_ok_def video_ok_def asset_ok_def new_image_def new_video_def new_asset_columns_def
      asset_columns.defs image_asset_row.defs video_asset_row.defs)

lemma archived_row_ok: "image_ok r \<Longrightarrow> asset_ok r" "video_ok v \<Longrightarrow> asset_ok v"
  by (simp_all add: image_ok_def video_ok_def)

interpretation image_archive: archived_upsert "new_image fresh now mid" merge_image mid image_ok for fresh now mid
  by unfold_locales (simp_all add: merged_image_ok new_assets_ok archived_row_ok)

interpretation video_archive: archived_upsert "new_video fresh now mid" merge_video mid video_ok for fresh now mid
  by unfold_locales (simp_all add: merged_video_ok new_assets_ok archived_row_ok)

section \<open>Ingestion\<close>

lemma insert_wakeups_new:
  "insert_wakeups fresh now queue is ws = Inr ws' \<Longrightarrow> set ws \<subseteq> set ws'
     \<and> (\<forall>w \<in> set ws'. w \<notin> set ws \<longrightarrow> active_wakeup w \<and> wakeup_ok w \<and> wk_queue w = queue)"
proof (induction "is" arbitrary: ws)
  case (Cons i "is")
  show ?case
  proof (cases "list_ex (\<lambda>w. wk_queue w = queue \<and> wk_entity_id w = i) ws")
    case True
    with Cons show ?thesis by simp
  next
    case False
    with Cons.prems have "insert_wakeups fresh now queue is (ws @ [new_wakeup fresh now queue i]) = Inr ws'"
      by (simp split: if_splits)
    from Cons.IH [OF this] show ?thesis by (auto simp: new_wakeup_def active_wakeup_def wakeup_ok_def)
  qed
qed simp

lemma kind_ok_more:
  fixes rows :: "'a asset_columns_scheme list"
  assumes "kind_ok queue rows ws" and "set ws \<subseteq> set ws'" and "\<And>w. w \<in> set ws' \<Longrightarrow> w \<notin> set ws \<Longrightarrow> wk_queue w \<noteq> queue"
  shows "kind_ok queue rows ws'"
proof -
  have same: "w \<in> set ws' \<and> wk_queue w = queue \<longleftrightarrow> w \<in> set ws \<and> wk_queue w = queue" for w using assms(2,3) by blast
  then have "lively queue ws' = (lively queue ws :: 'a asset_columns_scheme \<Rightarrow> bool)" by (auto simp: lively_def wakes_def fun_eq_iff)
  moreover have "wk_entity_id w \<in> as_id ` set rows" if "w \<in> set ws'" "wk_queue w = queue" for w
    using that same [of w] assms(1) by (simp add: kind_ok_def)
  ultimately show ?thesis using assms(1) unfolding kind_ok_def by auto
qed

lemma upsert_image_assets_tables:
  assumes "upsert_image_assets fresh now mid n st = Inr st'" and "tables_ok st"
  shows "tables_ok st' \<and> mt_videos st' = mt_videos st"
proof (cases "filter (\<lambda>a. md_kind a = IMAGE) (nm_media n) = []")
  case True
  with assms show ?thesis by (simp add: upsert_image_assets_def)
next
  case False
  with assms(1) obtain images ws where
      a: "upsert_assets (new_image fresh now mid) merge_image mid (filter (\<lambda>a. md_kind a = IMAGE) (nm_media n)) (mt_images st) = Inr images"
    and w: "insert_wakeups fresh now image_archive_queue
        (archivable_ids mid (filter (\<lambda>a. md_kind a = IMAGE) (nm_media n)) images) (mt_wakeups st) = Inr ws"
    and st': "st' = st\<lparr>mt_images := images, mt_wakeups := ws\<rparr>"
    unfolding upsert_image_assets_def Let_def by (auto elim!: try_bindE)
  note ok = assms(2) [unfolded tables_ok_def]
  note new = insert_wakeups_new [OF w]
  have "kind_ok image_archive_queue images ws"
    by (rule image_archive.upserts_kind [OF a w]) (use ok new in auto)
  moreover have "kind_ok video_archive_queue (mt_videos st) ws"
    by (rule kind_ok_more) (use ok new in auto)
  moreover have "\<forall>r \<in> set images. image_ok r"
    using image_archive.upserts_grow [OF a] ok by (simp add: image_archive.grows_def kind_ok_def)
  ultimately show ?thesis using ok new by (auto simp: tables_ok_def st')
qed

lemma upsert_video_assets_tables:
  assumes "upsert_video_assets fresh now mid n st = Inr st'" and "tables_ok st"
  shows "tables_ok st' \<and> ready_ids (mt_videos st') \<subseteq> ready_ids (mt_videos st)"
proof (cases "filter (\<lambda>a. md_kind a = VIDEO) (nm_media n) = []")
  case True
  with assms show ?thesis by (simp add: upsert_video_assets_def)
next
  case False
  with assms(1) obtain videos ws where
      a: "upsert_assets (new_video fresh now mid) merge_video mid (filter (\<lambda>a. md_kind a = VIDEO) (nm_media n)) (mt_videos st) = Inr videos"
    and w: "insert_wakeups fresh now video_archive_queue
        (archivable_ids mid (filter (\<lambda>a. md_kind a = VIDEO) (nm_media n)) videos) (mt_wakeups st) = Inr ws"
    and st': "st' = st\<lparr>mt_videos := videos, mt_wakeups := ws\<rparr>"
    unfolding upsert_video_assets_def Let_def by (auto elim!: try_bindE)
  note ok = assms(2) [unfolded tables_ok_def]
  note new = insert_wakeups_new [OF w]
  have g: "video_archive.grows (mt_videos st) videos" using video_archive.upserts_grow [OF a] ok by (simp add: kind_ok_def)
  have "kind_ok video_archive_queue videos ws"
    by (rule video_archive.upserts_kind [OF a w]) (use ok new in auto)
  moreover have "kind_ok image_archive_queue (mt_images st) ws"
    by (rule kind_ok_more) (use ok new in auto)
  moreover have "\<forall>r \<in> set videos. video_ok r" using g by (simp add: video_archive.grows_def)
  moreover have "ready_ids videos \<subseteq> ready_ids (mt_videos st)"
  proof
    fix i assume "i \<in> ready_ids videos"
    then obtain r' where r': "r' \<in> set videos" "as_state r' = A_READY" "i = as_id r'" by (auto simp: ready_ids_def)
    with g obtain r where "r \<in> set (mt_videos st)" "video_archive.continues r r'" by (auto simp: video_archive.grows_def)
    with r' show "i \<in> ready_ids (mt_videos st)" by (auto simp: ready_ids_def video_archive.continues_def)
  qed
  ultimately show ?thesis using ok new by (auto simp: tables_ok_def st')
qed

definition tables_follow :: "message_store \<Rightarrow> message_store \<Rightarrow> bool" where
  "tables_follow st st' \<longleftrightarrow> (tables_ok st \<longrightarrow> tables_ok st' \<and> ready_ids (mt_videos st') \<subseteq> ready_ids (mt_videos st))"

lemma tables_follow_trans: "tables_follow a b \<Longrightarrow> tables_follow b c \<Longrightarrow> tables_follow a c"
  by (auto simp: tables_follow_def)

lemma synchronize_tables: "synchronize_archive_assets fresh now mid n st = Inr st' \<Longrightarrow> tables_follow st st'"
proof -
  assume "synchronize_archive_assets fresh now mid n st = Inr st'"
  then obtain st1 where "upsert_image_assets fresh now mid n st = Inr st1" "upsert_video_assets fresh now mid n st1 = Inr st'"
    unfolding synchronize_archive_assets_def by (rule try_bindE)
  with upsert_image_assets_tables upsert_video_assets_tables show ?thesis unfolding tables_follow_def by metis
qed

lemma tables_ok_rows [simp]:
  "tables_ok (st\<lparr>mt_messages := ms\<rparr>) = tables_ok st" "tables_ok (st\<lparr>mt_parts := ps\<rparr>) = tables_ok st"
  "tables_ok (update_parent sha mid n now st) = tables_ok st" "tables_ok (mark_changed mid st) = tables_ok st"
  "mt_videos (update_parent sha mid n now st) = mt_videos st" "mt_videos (mark_changed mid st) = mt_videos st"
  by (simp_all add: tables_ok_def update_parent_def mark_changed_def)

lemma tables_follow_refl [simp]: "tables_follow st st"
  by (simp add: tables_follow_def)

lemma tables_follow_eq: "tables_follow a b \<Longrightarrow> tables_ok a = tables_ok a' \<Longrightarrow> mt_videos a = mt_videos a' \<Longrightarrow> tables_follow a' b"
  by (simp add: tables_follow_def)

lemma upsert_message_tables: "upsert_message sha fresh now n st = Inr st' \<Longrightarrow> tables_follow st st'"
proof (rule upsert_messageE)
  fix channel mid st1 rows r
  assume u: "upsert_parent sha fresh now channel n st = Inr (mid, st1)"
    and s: "synchronize_archive_assets fresh now mid r (update_parent sha mid r now (st1\<lparr>mt_parts := rows\<rparr>)) = Inr st'"
  note cases = upsert_parentE [OF u]
  have "tables_ok st1 = tables_ok st" "mt_videos st1 = mt_videos st"
    by (cases rule: cases; simp)+
  with tables_follow_eq [OF synchronize_tables [OF s]] show "tables_follow st st'" by simp
qed

lemma upsert_all_tables: "upsert_all sha fresh now k ns st = (r, st') \<Longrightarrow> tables_follow st st'"
proof (induction ns arbitrary: k st)
  case (Cons n ns)
  show ?case
  proof (cases "upsert_message sha (fresh k) now n st")
    case (Inr st1)
    with Cons.prems have "upsert_all sha fresh now (Suc k) ns st1 = (r, st')" by simp
    from tables_follow_trans [OF upsert_message_tables [OF Inr] Cons.IH [OF this]] show ?thesis .
  qed (use Cons.prems in simp)
qed simp

lemma message_step_tables:
  assumes "message_step sha st st'"
  shows "tables_follow st st'"
  using assms
proof cases
  case (ingestion fresh now ms r)
  show ?thesis
  proof (cases "normalize_telegram_messages ms")
    case (Inl e)
    with ingestion show ?thesis by (simp add: ingest_messages_def)
  next
    case (Inr ns)
    obtain q st1 where q: "upsert_all sha fresh now 0 ns st = (q, st1)" by fastforce
    with ingestion Inr have "st1 = st'" by (auto simp: ingest_messages_def split: sum.splits)
    with upsert_all_tables [OF q] show ?thesis by simp
  qed
next
  case (edit fresh now channel i body metadata media edited changed)
  then obtain e where "store_edit sha fresh now channel i body metadata media e st = Inr (changed, st')"
    unfolding record_edit_def by (elim try_bindE) (rule that)
  then show ?thesis
  proof (cases rule: store_editE)
    case (2 c part parent r)
    from tables_follow_eq [OF synchronize_tables [OF 2(7)]] show ?thesis by simp
  qed simp
next
  case (deletion now channel i deleted changed)
  then obtain d where "store_deletion now channel i d st = Inr (changed, st')"
    unfolding record_deletion_def by (elim try_bindE) (rule that)
  then show ?thesis by (cases rule: store_deletionE) (simp_all add: tables_follow_def)
qed

section \<open>The dispatcher\<close>

text \<open>The wake-up repository works on the same table of wake-ups.\<close>

definition wakeup_db :: "message_store \<Rightarrow> database" where
  "wakeup_db st = \<lparr>channels = [], ranges = [], executions = [], wakeups = mt_wakeups st\<rparr>"

lemma active_update_kind:
  assumes "kind_ok queue rows ws" and "\<And>w. same_wakeup w (f w)" and "\<And>w. active_wakeup (f w)"
  shows "kind_ok queue rows (update_where P f ws)"
  by (rule kind_ok_wakeups [OF assms(1)]) (simp_all add: assms(2,3))

lemma update_ok: "\<forall>w \<in> set ws. wakeup_ok w \<Longrightarrow> (\<And>w. wakeup_ok (f w)) \<Longrightarrow> \<forall>w \<in> set (update_where P f ws). wakeup_ok w"
  by (auto simp: in_update_where)

lemma active_update_tables:
  assumes "tables_ok st" and "\<And>w. same_wakeup w (f w)" and "\<And>w. active_wakeup (f w)" and "\<And>w. wakeup_ok (f w)"
  shows "tables_ok (st\<lparr>mt_wakeups := update_where P f (mt_wakeups st)\<rparr>)"
  using assms(1) update_ok [of "mt_wakeups st" f P, OF _ assms(4)]
  by (simp add: tables_ok_def active_update_kind [OF _ assms(2,3)])

lemma claim_rows_tables:
  "claim_rows now duration tokens due db = (cs, db') \<Longrightarrow> tables_ok (st\<lparr>mt_wakeups := wakeups db\<rparr>) \<Longrightarrow>
     tables_ok (st\<lparr>mt_wakeups := wakeups db'\<rparr>)"
proof (induction now duration tokens due db arbitrary: cs db' rule: claim_rows.induct)
  case (1 now duration token tokens w ws db)
  let ?db = "db\<lparr>wakeups := update_where (\<lambda>x. wk_id x = wk_id w) (lease_wakeup token now duration) (wakeups db)\<rparr>"
  obtain ds db1 where d: "claim_rows now duration tokens ws ?db = (ds, db1)" by fastforce
  with "1.prems"(1) have "db1 = db'" by (simp add: Let_def split_def)
  moreover have "tables_ok (st\<lparr>mt_wakeups := wakeups ?db\<rparr>)"
    using active_update_tables [OF "1.prems"(2), of "lease_wakeup token now duration"] by simp
  ultimately show ?case using "1.IH" [OF d] by simp
qed auto

lemma claim_due_tables:
  assumes "claim_due locked tokens now duration limit (wakeup_db st) = (cs, db')" and "tables_ok st"
  shows "tables_ok (st\<lparr>mt_wakeups := wakeups db'\<rparr>)"
  using claim_rows_tables [OF assms(1) [unfolded claim_due_def], of st] assms(2) by (simp add: wakeup_db_def)

lemma release_claim_tables:
  assumes "release_claim wakeup_id token next_at now dispatched (wakeup_db st) = (b, db')" and "tables_ok st"
  shows "tables_ok (st\<lparr>mt_wakeups := wakeups db'\<rparr>)"
proof -
  from assms(1) have "wakeups db' = update_where (\<lambda>w. wk_id w = wakeup_id \<and> wk_status w = W_LEASED \<and> wk_lease_token w = Some token)
      (release_wakeup next_at now dispatched) (mt_wakeups st)"
    by (auto simp: release_claim_def wakeup_db_def Let_def)
  with active_update_tables [OF assms(2), of "release_wakeup next_at now dispatched"] show ?thesis by simp
qed

section \<open>The workers' transactions\<close>

definition only_old_ready :: "'a asset_columns_scheme list \<Rightarrow> 'a asset_columns_scheme list \<Rightarrow> bool" where
  "only_old_ready rows rows' \<longleftrightarrow> (\<forall>r \<in> set rows'. as_state r = A_READY \<longrightarrow> r \<in> set rows)"

lemma only_old_readyI:
  assumes "\<And>r. as_state (f r) \<noteq> A_READY"
  shows "only_old_ready rows (update_where P f rows)"
  unfolding only_old_ready_def
proof (intro ballI impI)
  fix x assume "x \<in> set (update_where P f rows)" and r: "as_state x = A_READY"
  then obtain y where "y \<in> set rows" "x = (if P y then f y else y)" unfolding set_update_where by (elim imageE)
  with r assms [of y] show "x \<in> set rows" by (simp split: if_splits)
qed

lemma only_old_ready_refl [simp]: "only_old_ready rows rows"
  by (simp add: only_old_ready_def)

lemma claim_asset_ready:
  "claim_asset queue locked token i now duration ms rows ws = Inr (c, rows', ws') \<Longrightarrow> only_old_ready rows rows'"
  by (erule claim_asset_cases)
    (simp_all add: only_old_readyI terminalize_exhausted_def lease_asset_def)

lemma fail_asset_ready:
  "fail_asset queue c code type retryable retry_at now rows ws = Inr (b, rows', ws') \<Longrightarrow> only_old_ready rows rows'"
  by (erule fail_asset_cases) (simp_all add: only_old_readyI failed_asset_def)

lemma only_old_image_ok: "kind_ok queue rows' ws' \<Longrightarrow> only_old_ready rows rows' \<Longrightarrow> \<forall>r \<in> set rows. image_ok r \<Longrightarrow> \<forall>r \<in> set rows'. image_ok r"
  by (auto simp: kind_ok_def only_old_ready_def image_ok_def)

lemma only_old_video_ok: "kind_ok queue rows' ws' \<Longrightarrow> only_old_ready rows rows' \<Longrightarrow> \<forall>r \<in> set rows. video_ok r \<Longrightarrow> \<forall>r \<in> set rows'. video_ok r"
  by (auto simp: kind_ok_def only_old_ready_def video_ok_def)

lemma only_old_ids: "only_old_ready rows rows' \<Longrightarrow> ready_ids rows' \<subseteq> ready_ids rows"
  by (auto simp: only_old_ready_def ready_ids_def)

lemma image_rows_tables:
  assumes "tables_ok st" and "kind_ok image_archive_queue rows ws" and "other_queues image_archive_queue (mt_wakeups st) ws"
    and "only_old_ready (mt_images st) rows"
  shows "tables_ok (st\<lparr>mt_images := rows, mt_wakeups := ws\<rparr>)"
  using assms other_queues_kind [OF assms(3), of video_archive_queue "mt_videos st"] other_queues_ok [OF assms(3)]
    only_old_image_ok [OF assms(2,4)]
  by (simp add: tables_ok_def)

lemma video_rows_tables:
  assumes "tables_ok st" and "kind_ok video_archive_queue rows ws" and "other_queues video_archive_queue (mt_wakeups st) ws"
    and "only_old_ready (mt_videos st) rows"
  shows "tables_ok (st\<lparr>mt_videos := rows, mt_wakeups := ws\<rparr>)"
  using assms other_queues_kind [OF assms(3), of image_archive_queue "mt_images st"] other_queues_ok [OF assms(3)]
    only_old_video_ok [OF assms(2,4)]
  by (simp add: tables_ok_def)

lemma claim_image_tables:
  assumes "claim_image locked token asset_id now duration st = Inr (c, st')" and "tables_ok st"
  shows "tables_ok st' \<and> mt_videos st' = mt_videos st"
proof -
  from assms(1) obtain i rows ws where
      c: "claim_asset image_archive_queue locked token i now duration (mt_messages st) (mt_images st) (mt_wakeups st) = Inr (c, rows, ws)"
    and st': "st' = st\<lparr>mt_images := rows, mt_wakeups := ws\<rparr>" unfolding claim_image_def by (auto elim!: try_bindE)
  note k = claim_asset_kind [OF assms(2) [unfolded tables_ok_def, THEN conjunct1] c]
  from image_rows_tables [OF assms(2) k claim_asset_ready [OF c]] show ?thesis by (simp add: st')
qed

lemma fail_image_tables:
  assumes "fail_image c code type retryable retry_at now st = Inr (b, st')" and "tables_ok st"
  shows "tables_ok st' \<and> mt_videos st' = mt_videos st"
proof -
  from assms(1) obtain rows ws where
      f: "fail_asset image_archive_queue c code type retryable retry_at now (mt_images st) (mt_wakeups st) = Inr (b, rows, ws)"
    and st': "st' = st\<lparr>mt_images := rows, mt_wakeups := ws\<rparr>" unfolding fail_image_def by (auto elim!: try_bindE)
  note k = fail_asset_kind [OF assms(2) [unfolded tables_ok_def, THEN conjunct1] f]
  from image_rows_tables [OF assms(2) k fail_asset_ready [OF f]] show ?thesis by (simp add: st')
qed

lemma complete_image_tables:
  assumes "complete_image_wakeup asset_id now st = Inr (b, st')" and "tables_ok st"
  shows "tables_ok st' \<and> mt_videos st' = mt_videos st"
proof -
  from assms(1) obtain i ws where
      f: "complete_if_terminal image_archive_queue i now (mt_images st) (mt_wakeups st) = (b, ws)"
    and st': "st' = st\<lparr>mt_images := mt_images st, mt_wakeups := ws\<rparr>"
    unfolding complete_image_wakeup_def by (auto simp: Let_def split: prod.splits elim!: try_bindE)
  note k = complete_if_terminal_kind [OF assms(2) [unfolded tables_ok_def, THEN conjunct1] f]
  from image_rows_tables [OF assms(2) k only_old_ready_refl] show ?thesis by (simp add: st')
qed

lemma claim_video_tables:
  assumes "claim_video locked token asset_id now duration st = Inr (c, st')" and "tables_ok st"
  shows "tables_ok st' \<and> ready_ids (mt_videos st') \<subseteq> ready_ids (mt_videos st)"
proof -
  from assms(1) obtain i rows ws where
      c: "claim_asset video_archive_queue locked token i now duration (mt_messages st) (mt_videos st) (mt_wakeups st) = Inr (c, rows, ws)"
    and st': "st' = st\<lparr>mt_videos := rows, mt_wakeups := ws\<rparr>" unfolding claim_video_def by (auto elim!: try_bindE)
  note k = claim_asset_kind [OF assms(2) [unfolded tables_ok_def, THEN conjunct2, THEN conjunct1] c]
  from video_rows_tables [OF assms(2) k claim_asset_ready [OF c]] only_old_ids [OF claim_asset_ready [OF c]]
  show ?thesis by (simp add: st')
qed

lemma fail_video_tables:
  assumes "fail_video c code type retryable retry_at now st = Inr (b, st')" and "tables_ok st"
  shows "tables_ok st' \<and> ready_ids (mt_videos st') \<subseteq> ready_ids (mt_videos st)"
proof -
  from assms(1) obtain rows ws where
      f: "fail_asset video_archive_queue c code type retryable retry_at now (mt_videos st) (mt_wakeups st) = Inr (b, rows, ws)"
    and st': "st' = st\<lparr>mt_videos := rows, mt_wakeups := ws\<rparr>" unfolding fail_video_def by (auto elim!: try_bindE)
  note k = fail_asset_kind [OF assms(2) [unfolded tables_ok_def, THEN conjunct2, THEN conjunct1] f]
  from video_rows_tables [OF assms(2) k fail_asset_ready [OF f]] only_old_ids [OF fail_asset_ready [OF f]]
  show ?thesis by (simp add: st')
qed

lemma complete_video_tables:
  assumes "complete_video_wakeup asset_id now st = Inr (b, st')" and "tables_ok st"
  shows "tables_ok st' \<and> mt_videos st' = mt_videos st"
proof -
  from assms(1) obtain i ws where
      f: "complete_if_terminal video_archive_queue i now (mt_videos st) (mt_wakeups st) = (b, ws)"
    and st': "st' = st\<lparr>mt_videos := mt_videos st, mt_wakeups := ws\<rparr>"
    unfolding complete_video_wakeup_def by (auto simp: Let_def split: prod.splits elim!: try_bindE)
  note k = complete_if_terminal_kind [OF assms(2) [unfolded tables_ok_def, THEN conjunct2, THEN conjunct1] f]
  from video_rows_tables [OF assms(2) k only_old_ready_refl] show ?thesis by (simp add: st')
qed

text \<open>A row becomes ready: the asset is finished, so nothing is asked of its wake-up.\<close>

lemma write_ready_tables:
  assumes "write_ready_images P f m st = Inr (b, st')" and "tables_ok st"
    and "\<And>r. P r \<Longrightarrow> asset_ok r \<Longrightarrow> image_ok (f r)" and "\<And>r. as_id (f r) = as_id r" and "\<And>r. as_state (f r) = A_READY"
  shows "tables_ok st' \<and> mt_videos st' = mt_videos st"
proof -
  from assms(1) have st': "st' = st\<lparr>mt_images := update_where P f (mt_images st)\<rparr>"
    by (simp add: write_ready_images_def split: if_splits)
  note ok = assms(2) [unfolded tables_ok_def]
  have "kind_ok image_archive_queue (update_where P f (mt_images st)) (mt_wakeups st)"
  proof (rule kind_ok_rows)
    fix r assume "r \<in> set (mt_images st)" "P r"
    with ok assms(3) [of r] assms(5) [of r] show "asset_ok (f r) \<and> lively image_archive_queue (mt_wakeups st) (f r)"
      by (simp add: image_ok_def lively_def)
  qed (use ok assms(4) in simp_all)
  moreover have "\<forall>r \<in> set (update_where P f (mt_images st)). image_ok r"
    unfolding set_update_where using ok assms(3) archived_row_ok(1) by auto
  ultimately show ?thesis using ok by (simp add: tables_ok_def st')
qed

lemma mark_image_ready_tables:
  assumes "mark_image_ready c m st = Inr (b, st')" and "tables_ok st"
  shows "tables_ok st' \<and> mt_videos st' = mt_videos st"
proof -
  from assms(1) obtain P where "write_ready_images P (ready_image m) m st = Inr (b, st')"
    unfolding mark_image_ready_def by (elim try_bindE) (rule that)
  then show ?thesis by (rule write_ready_tables) (use assms(2) in \<open>simp_all add: ready_image_ok\<close>, simp_all add: ready_image_def)
qed

lemma image_asset_mark_ready_tables:
  assumes "image_asset_mark_ready m st = Inr (b, st')" and "tables_ok st"
  shows "tables_ok st' \<and> mt_videos st' = mt_videos st"
proof -
  from assms(1) obtain i where "write_ready_images (\<lambda>r. as_id r = i \<and> (unleased_pending r \<or> as_state r = A_READY \<and> same_facts m r))
         (ready_or_replayed m) m st = Inr (b, st')"
    unfolding image_asset_mark_ready_def by (elim try_bindE) (rule that)
  then show ?thesis
  proof (rule write_ready_tables)
    show "image_ok (ready_or_replayed m r)"
      if "as_id r = i \<and> (unleased_pending r \<or> as_state r = A_READY \<and> same_facts m r)" "asset_ok r" for r
      using that ready_image_ok(2,3) by blast
  qed (use assms(2) in \<open>simp_all add: ready_or_replayed_def ready_image_def\<close>)
qed

section \<open>Frames\<close>

lemma insert_frames_Inr:
  "insert_frames fs rows = Inr rows' \<Longrightarrow> rows' = rows @ fs
     \<and> (sorted_wrt (\<lambda>x f. \<not> same_frame f x) rows \<longrightarrow> sorted_wrt (\<lambda>x f. \<not> same_frame f x) rows')"
proof (induction fs arbitrary: rows)
  case (Cons f fs)
  then have f: "\<not> list_ex (same_frame f) rows" "insert_frames fs (rows @ [f]) = Inr rows'" by (simp_all split: if_splits)
  from Cons.IH [OF f(2)] f(1) show ?case by (auto simp: sorted_wrt_append list_ex_iff)
qed simp

lemma sorted_wrt_filter_rows: "sorted_wrt R xs \<Longrightarrow> sorted_wrt R (filter P xs)"
  by (induction xs) auto

lemma mark_video_readyE:
  assumes "mark_video_ready c m db = Inr (b, db')"
  obtains "\<not> b" "db' = db"
  | i token where "b" "uuid_or_value_error (wi_asset_id (ac_work_item c)) = Inr i"
      "uuid_or_value_error (vm_video_asset_id m) = Inr i" "uuid_or_value_error (ac_lease_token c) = Inr token"
      "list_ex (held_under i token) (mt_videos (ad_store db))"
      "ad_store db' = (ad_store db)\<lparr>mt_videos := update_where (held_under i token) (ready_video m) (mt_videos (ad_store db))\<rparr>"
      "insert_frames (map (frame_row i) (vm_frames m)) (filter (\<lambda>f. vf_video_asset_id f \<noteq> i) (ad_frames db)) = Inr (ad_frames db')"
proof -
  from assms obtain i j token where u: "uuid_or_value_error (wi_asset_id (ac_work_item c)) = Inr i"
      "uuid_or_value_error (vm_video_asset_id m) = Inr j" "uuid_or_value_error (ac_lease_token c) = Inr token"
    unfolding mark_video_ready_def by (elim try_bindE) (rule that)
  let ?P = "\<lambda>r. held_under i token r \<and> as_id r = j"
  note e = assms [unfolded mark_video_ready_def u try_bind_simps Let_def]
  show thesis
  proof (cases "list_ex ?P (mt_videos (ad_store db))")
    case False
    with e that(1) show thesis by simp
  next
    case True
    then have ij: "i = j" by (auto simp: list_ex_iff held_under_def)
    then have P: "?P = held_under i token" by (auto simp: held_under_def fun_eq_iff)
    from e True obtain frames where
        f: "insert_frames (map (frame_row i) (vm_frames m)) (filter (\<lambda>f. vf_video_asset_id f \<noteq> i) (ad_frames db)) = Inr frames"
      and d: "b" "db' = \<lparr>ad_store = (ad_store db)\<lparr>mt_videos := update_where ?P (ready_video m) (mt_videos (ad_store db))\<rparr>, ad_frames = frames\<rparr>"
      by (auto split: if_splits elim!: try_bindE)
    with that(2) [OF d(1) u(1) u(2) [folded ij] u(3)] True show thesis unfolding P by simp
  qed
qed

lemma mark_video_ready_tables:
  assumes "mark_video_ready c m db = Inr (b, db')" and "archive_ok db" and "vm_frames m \<noteq> []"
  shows "archive_ok db'"
  using assms(1)
proof (cases rule: mark_video_readyE)
  case 1
  with assms(2) show ?thesis by simp
next
  case (2 i token)
  let ?st = "ad_store db" and ?rows = "update_where (held_under i token) (ready_video m) (mt_videos (ad_store db))"
  from assms(2) have ok: "kind_ok video_archive_queue (mt_videos ?st) (mt_wakeups ?st)" "\<forall>r \<in> set (mt_videos ?st). video_ok r"
      "frames_ok (mt_videos ?st) (ad_frames db)" and t: "tables_ok ?st" by (simp_all add: archive_ok_def tables_ok_def)
  have "kind_ok video_archive_queue ?rows (mt_wakeups ?st)"
  proof (rule kind_ok_rows [OF ok(1)])
    fix r assume r: "r \<in> set (mt_videos ?st)" "held_under i token r"
    with ok(2) have "asset_ok r" by (simp add: video_ok_def)
    then have "video_ok (ready_video m r)" by (rule ready_video_ok)
    then show "asset_ok (ready_video m r) \<and> lively video_archive_queue (mt_wakeups ?st) (ready_video m r)"
      by (simp add: video_ok_def lively_def) (simp add: ready_video_def)
  qed (simp add: ready_video_def)
  moreover have "\<forall>r \<in> set ?rows. video_ok r"
    unfolding set_update_where using ok(2) ready_video_ok archived_row_ok(2) by auto
  ultimately have tables: "tables_ok (ad_store db')" using t by (simp add: tables_ok_def 2(6))
  from insert_frames_Inr [OF 2(7)] have
    fr: "ad_frames db' = filter (\<lambda>f. vf_video_asset_id f \<noteq> i) (ad_frames db) @ map (frame_row i) (vm_frames m)"
    and step: "sorted_wrt (\<lambda>x f. \<not> same_frame f x) (filter (\<lambda>f. vf_video_asset_id f \<noteq> i) (ad_frames db)) \<longrightarrow>
      sorted_wrt (\<lambda>x f. \<not> same_frame f x) (ad_frames db')" by blast+
  have so: "sorted_wrt (\<lambda>x f. \<not> same_frame f x) (ad_frames db')"
    by (rule step [rule_format]) (use ok(3) in \<open>simp add: frames_ok_def sorted_wrt_filter_rows\<close>)
  have "ready_ids ?rows \<subseteq> insert i (ready_ids (mt_videos ?st))"
  proof
    fix k assume "k \<in> ready_ids ?rows"
    then obtain r where r: "r \<in> set ?rows" "as_state r = A_READY" "k = as_id r" by (auto simp: ready_ids_def)
    from r(1) obtain y where y: "y \<in> set (mt_videos ?st)" "r = (if held_under i token y then ready_video m y else y)"
      unfolding set_update_where by (rule imageE)
    show "k \<in> insert i (ready_ids (mt_videos ?st))"
    proof (cases "held_under i token y")
      case True
      then show ?thesis using r(3) y(2) by (simp add: ready_video_def held_under_def)
    next
      case False
      with y r(2,3) show ?thesis by (auto simp: ready_ids_def)
    qed
  qed
  moreover have "k \<in> vf_video_asset_id ` set (ad_frames db')" if "k = i \<or> k \<in> ready_ids (mt_videos ?st)" for k
  proof (cases "k = i")
    case True
    with assms(3) show ?thesis by (cases "vm_frames m") (simp_all add: fr frame_row_def)
  next
    case False
    with that ok(3) obtain f where "f \<in> set (ad_frames db)" "vf_video_asset_id f = k" by (auto simp: frames_ok_def)
    with False show ?thesis by (auto simp: fr)
  qed
  ultimately have "frames_ok (mt_videos (ad_store db')) (ad_frames db')" using so by (auto simp: frames_ok_def 2(6))
  with tables show ?thesis by (simp add: archive_ok_def)
qed

section \<open>Steps and reachable states\<close>

definition with_store :: "message_store \<Rightarrow> archive_db \<Rightarrow> archive_db" where
  "with_store st db = db\<lparr>ad_store := st\<rparr>"

inductive archive_step :: "(string \<Rightarrow> string) \<Rightarrow> archive_db \<Rightarrow> archive_db \<Rightarrow> bool" for sha where
  messages: "message_step sha (ad_store db) st \<Longrightarrow> archive_step sha db (with_store st db)"
| dispatch: "claim_due locked tokens now duration limit (wakeup_db (ad_store db)) = (cs, d) \<Longrightarrow>
    archive_step sha db (with_store ((ad_store db)\<lparr>mt_wakeups := wakeups d\<rparr>) db)"
| settle: "release_claim wakeup_id token next_at now dispatched (wakeup_db (ad_store db)) = (b, d) \<Longrightarrow>
    archive_step sha db (with_store ((ad_store db)\<lparr>mt_wakeups := wakeups d\<rparr>) db)"
| image_claim: "claim_image locked token asset_id now duration (ad_store db) = Inr (c, st) \<Longrightarrow> archive_step sha db (with_store st db)"
| image_ready: "mark_image_ready cl m (ad_store db) = Inr (b, st) \<Longrightarrow> archive_step sha db (with_store st db)"
| image_record: "image_asset_mark_ready m (ad_store db) = Inr (b, st) \<Longrightarrow> archive_step sha db (with_store st db)"
| image_fail: "fail_image cl code type retryable retry_at now (ad_store db) = Inr (b, st) \<Longrightarrow> archive_step sha db (with_store st db)"
| image_end: "complete_image_wakeup asset_id now (ad_store db) = Inr (b, st) \<Longrightarrow> archive_step sha db (with_store st db)"
| video_claim: "claim_video locked token asset_id now duration (ad_store db) = Inr (c, st) \<Longrightarrow> archive_step sha db (with_store st db)"
| video_ready: "check_video_metadata vm = Inr vm \<Longrightarrow> mark_video_ready cl vm db = Inr (b, db') \<Longrightarrow> archive_step sha db db'"
| video_fail: "fail_video cl code type retryable retry_at now (ad_store db) = Inr (b, st) \<Longrightarrow> archive_step sha db (with_store st db)"
| video_end: "complete_video_wakeup asset_id now (ad_store db) = Inr (b, st) \<Longrightarrow> archive_step sha db (with_store st db)"

definition empty_archive :: "uuid list \<Rightarrow> archive_db" where
  "empty_archive cs = \<lparr>ad_store = empty_store cs, ad_frames = []\<rparr>"

inductive archive_reachable :: "(string \<Rightarrow> string) \<Rightarrow> archive_db \<Rightarrow> bool" for sha where
  start: "archive_reachable sha (empty_archive cs)"
| step: "archive_reachable sha db \<Longrightarrow> archive_step sha db db' \<Longrightarrow> archive_reachable sha db'"

lemma with_store_ok:
  assumes "archive_ok db" and "tables_ok st \<and> ready_ids (mt_videos st) \<subseteq> ready_ids (mt_videos (ad_store db))"
  shows "archive_ok (with_store st db)"
  using assms by (auto simp: archive_ok_def with_store_def frames_ok_def)

lemma archive_step_ok: "archive_step sha db db' \<Longrightarrow> archive_ok db \<Longrightarrow> archive_ok db'"
proof (induction rule: archive_step.induct)
  case (messages db st)
  from with_store_ok [OF messages.prems] message_step_tables [OF messages.hyps] messages.prems
  show ?case by (simp add: tables_follow_def archive_ok_def)
next
  case (dispatch locked tokens now duration limit db cs d)
  from with_store_ok [OF dispatch.prems] claim_due_tables [OF dispatch.hyps] dispatch.prems show ?case by (simp add: archive_ok_def)
next
  case (settle wakeup_id token next_at now dispatched db b d)
  from with_store_ok [OF settle.prems] release_claim_tables [OF settle.hyps] settle.prems show ?case by (simp add: archive_ok_def)
next
  case (image_claim locked token asset_id now duration db c st)
  from with_store_ok [OF image_claim.prems] claim_image_tables [OF image_claim.hyps] image_claim.prems show ?case by (simp add: archive_ok_def)
next
  case (image_ready cl m db b st)
  from with_store_ok [OF image_ready.prems] mark_image_ready_tables [OF image_ready.hyps] image_ready.prems show ?case by (simp add: archive_ok_def)
next
  case (image_record m db b st)
  from with_store_ok [OF image_record.prems] image_asset_mark_ready_tables [OF image_record.hyps] image_record.prems show ?case by (simp add: archive_ok_def)
next
  case (image_fail cl code type retryable retry_at now db b st)
  from with_store_ok [OF image_fail.prems] fail_image_tables [OF image_fail.hyps] image_fail.prems show ?case by (simp add: archive_ok_def)
next
  case (image_end asset_id now db b st)
  from with_store_ok [OF image_end.prems] complete_image_tables [OF image_end.hyps] image_end.prems show ?case by (simp add: archive_ok_def)
next
  case (video_claim locked token asset_id now duration db c st)
  from with_store_ok [OF video_claim.prems] claim_video_tables [OF video_claim.hyps] video_claim.prems show ?case by (simp add: archive_ok_def)
next
  case (video_ready vm cl db b db')
  from video_ready.hyps(1) have "vm_frames vm \<noteq> []" by (auto simp: check_video_metadata_def result_simps)
  with mark_video_ready_tables [OF video_ready.hyps(2) video_ready.prems] show ?case by simp
next
  case (video_fail cl code type retryable retry_at now db b st)
  from with_store_ok [OF video_fail.prems] fail_video_tables [OF video_fail.hyps] video_fail.prems show ?case by (simp add: archive_ok_def)
next
  case (video_end asset_id now db b st)
  from with_store_ok [OF video_end.prems] complete_video_tables [OF video_end.hyps] video_end.prems show ?case by (simp add: archive_ok_def)
qed

lemma archive_reachable_ok: "archive_reachable sha db \<Longrightarrow> archive_ok db"
proof (induction rule: archive_reachable.induct)
  case (start cs)
  show ?case
    by (simp add: empty_archive_def empty_store_def archive_ok_def tables_ok_def frames_ok_def kind_ok_def ready_ids_def)
next
  case (step db db')
  from archive_step_ok [OF step.hyps(2) step.IH] show ?case .
qed

section \<open>Eventually due, eventually claimable\<close>

lemma active_due: "wakeup_ok w \<Longrightarrow> active_wakeup w \<Longrightarrow> \<exists>t. \<forall>now \<ge> t. wakeup_due now w"
  by (cases "wk_lease_expires_at w") (force simp: wakeup_ok_def active_wakeup_def wakeup_due_def)+

lemma unfinished_claimable:
  assumes "asset_ok r" "\<not> terminal_state (as_state r)" "as_source_telegram_message_id r \<noteq> None"
  shows "\<exists>t. \<forall>now \<ge> t. claimable now r"
proof (cases "as_state r")
  case A_PROCESSING
  with assms(1) obtain t where "as_lease_expires_at r = Some t" by (auto simp: asset_ok_def)
  with A_PROCESSING assms(3) show ?thesis by (auto simp: claimable_def passed_def)
next
  case A_RETRY_WAIT
  with assms(1) obtain t where "as_next_retry_at r = Some t" by (auto simp: asset_ok_def)
  with A_RETRY_WAIT assms(3) show ?thesis by (auto simp: claimable_def passed_def)
qed (use assms(2,3) in \<open>simp_all add: claimable_def\<close>)

lemma unfinished_awake:
  assumes "kind_ok queue rows ws" "\<forall>w \<in> set ws. wakeup_ok w" "r \<in> set rows"
    and "\<not> terminal_state (as_state r)" "as_source_telegram_message_id r \<noteq> None"
  shows "(\<exists>w \<in> set ws. wk_queue w = queue \<and> wk_entity_id w = as_id r \<and> (\<exists>t. \<forall>now \<ge> t. wakeup_due now w))
    \<and> (\<exists>t. \<forall>now \<ge> t. claimable now r)"
proof -
  from assms have "lively queue ws r" "asset_ok r" by (simp_all add: kind_ok_def)
  with assms(4,5) obtain w where w: "w \<in> set ws" "wakes queue r w" "active_wakeup w" by (auto simp: lively_def)
  with active_due [of w] assms(2) unfinished_claimable [OF \<open>asset_ok r\<close> assms(4,5)] show ?thesis
    by (auto simp: wakes_def)
qed

lemma held_claim:
  assumes "kind_ok queue rows ws" "r \<in> set rows" "as_id r = i" "claimable now r" "as_attempt_count r < as_max_attempts r"
    and "stale \<noteq> token"
  shows "\<not> list_ex (held_under i stale) (update_where (\<lambda>x. as_id x = i) (lease_asset token now duration) rows)"
proof
  assume "list_ex (held_under i stale) (update_where (\<lambda>x. as_id x = i) (lease_asset token now duration) rows)"
  then obtain x where x: "x \<in> set (update_where (\<lambda>x. as_id x = i) (lease_asset token now duration) rows)" "held_under i stale x"
    by (auto simp: list_ex_iff)
  from x(1) obtain y where y: "y \<in> set rows" "x = (if as_id y = i then lease_asset token now duration y else y)"
    unfolding set_update_where by (rule imageE)
  with x(2) have "as_id y = i" by (auto simp: held_under_def lease_asset_def split: if_splits)
  with kind_ok_key [OF assms(1) y(1) assms(2)] assms(3) y(2) have e: "x = lease_asset token now duration r" by simp
  have ok: "asset_ok r" using assms(1,2) by (simp add: kind_ok_def)
  then have "asset_claims token now r x" using assms(4) by (auto simp: asset_claims_def e)
  from asset_lease.stale_token [OF this assms(6)]
  have "\<not> asset_acts stale now x (failed_asset [] [] False 0 now x)" .
  moreover have "asset_ok x" unfolding e by (rule lease_asset_ok [OF ok assms(4,5)])
  ultimately show False using x(2) by (simp add: asset_acts_def held_under_def failed_asset_def)
qed

lemma claim_asset_fences:
  assumes "kind_ok queue rows ws" "claim_asset queue locked token i now duration ms rows ws = Inr (Some c, rows', ws')" "stale \<noteq> token"
  shows "\<not> list_ex (held_under i stale) rows'"
  using assms(2)
proof (cases rule: claim_asset_cases)
  case (3 r m cl)
  show ?thesis unfolding 3(6) by (rule held_claim [OF assms(1) 3(2,3,4,5) assms(3)])
qed simp_all

lemma not_held_fails:
  assumes "\<not> list_ex (held_under i token) rows" "uuid_or_value_error (wi_asset_id (ac_work_item c)) = Inr i"
    "uuid_or_value_error (ac_lease_token c) = Inr token"
    and "fail_asset queue c code type retryable retry_at now rows ws = Inr (b, rows', ws')"
  shows "\<not> b" "rows' = rows" "ws' = ws"
  using assms(4) by (cases rule: fail_asset_cases; use assms(1-3) in \<open>auto simp: list_ex_iff\<close>)+

section \<open>Properties\<close>

text \<open>
  In every reachable state the rows satisfy the lifecycle constraints of their tables: a lease
  exactly while processing, a retry time exactly while waiting, attempts within the maximum, the
  error of a failure, the metadata of a ready image or video; each ready video has a frame, and no
  two frames share a place in their video or in the archive.
\<close>

theorem archive_rows_satisfy_constraints:
  assumes "archive_reachable sha db"
  shows "(\<forall>r \<in> set (mt_images (ad_store db)). image_ok r) \<and> (\<forall>r \<in> set (mt_videos (ad_store db)). video_ok r)
    \<and> (\<forall>r \<in> set (mt_videos (ad_store db)). as_state r = A_READY \<longrightarrow> (\<exists>f \<in> set (ad_frames db). vf_video_asset_id f = as_id r))
    \<and> sorted_wrt (\<lambda>x f. \<not> same_frame f x) (ad_frames db)"
  using archive_reachable_ok [OF assms]
  by (auto simp: archive_ok_def tables_ok_def frames_ok_def ready_ids_def) (metis (mono_tags, lifting) image_iff mem_Collect_eq subsetD)

definition archive_ids :: "nat \<Rightarrow> fresh_ids" where
  "archive_ids k = (sample_ids k)\<lparr>fi_asset := (\<lambda>_. uuid_text 7)\<rparr>"

definition archive0 :: archive_db where
  "archive0 = with_store (snd (ingest_messages (\<lambda>t. []) archive_ids 9 [sample_photo] (empty_store [sample_channel])))
     (empty_archive [sample_channel])"

lemma archive0_reachable: "archive_reachable (\<lambda>t. []) archive0"
proof -
  have "message_step (\<lambda>t. []) (empty_store [sample_channel])
      (snd (ingest_messages (\<lambda>t. []) archive_ids 9 [sample_photo] (empty_store [sample_channel])))"
    by (rule ingestion) (rule prod.collapse [symmetric])
  then have "archive_step (\<lambda>t. []) (empty_archive [sample_channel]) archive0"
    unfolding archive0_def by (intro messages) (simp add: empty_archive_def)
  with archive_reachable.start show ?thesis by (rule archive_reachable.step)
qed

lemma archive0_filled:
  "map (\<lambda>r. (as_id r, as_state r = A_PENDING, as_source_telegram_message_id r)) (mt_images (ad_store archive0)) = [(uuid_text 7, True, Some 5)]"
  by code_simp

theorem archive_rows_satisfy_constraints_witness: "\<exists>r \<in> set (mt_images (ad_store archive0)). image_ok r"
proof -
  from map_eq_Cons_member [OF archive0_filled] obtain r where "r \<in> set (mt_images (ad_store archive0))" by blast
  with archive_rows_satisfy_constraints [OF archive0_reachable] show ?thesis by blast
qed

text \<open>
  C34: A worker whose claim on an image was taken over is powerless: once the image is claimed
  under another token, publishing its metadata and reporting a failure under the old token are
  refused and change nothing.
\<close>

theorem stale_archiver_powerless:
  assumes "archive_reachable sha db" and "claim_image locked token asset_id now duration (ad_store db) = Inr (Some c, st)"
    and "uuid_or_value_error (wi_asset_id (ac_work_item old)) = uuid_or_value_error asset_id"
    and "uuid_or_value_error (ac_lease_token old) = Inr stale" "stale \<noteq> token"
  shows "(mark_image_ready old m st = Inr (b, st') \<longrightarrow> \<not> b \<and> st' = st)
    \<and> (fail_image old code type retryable retry_at later st = Inr (b, st') \<longrightarrow> \<not> b \<and> st' = st)"
proof -
  from assms(2) obtain i rows ws where i: "uuid_or_value_error asset_id = Inr i"
    and c: "claim_asset image_archive_queue locked token i now duration (mt_messages (ad_store db)) (mt_images (ad_store db)) (mt_wakeups (ad_store db))
        = Inr (Some c, rows, ws)" and st: "st = (ad_store db)\<lparr>mt_images := rows, mt_wakeups := ws\<rparr>"
    unfolding claim_image_def by (auto elim!: try_bindE)
  from archive_reachable_ok [OF assms(1)] have k: "kind_ok image_archive_queue (mt_images (ad_store db)) (mt_wakeups (ad_store db))"
    by (simp add: archive_ok_def tables_ok_def)
  from claim_asset_fences [OF k c assms(5)] have nh: "\<not> list_ex (held_under i stale) (mt_images st)" by (simp add: st)
  have u: "uuid_or_value_error (wi_asset_id (ac_work_item old)) = Inr i" using assms(3) i by simp
  show ?thesis
  proof (intro conjI impI)
    assume "mark_image_ready old m st = Inr (b, st')"
    then obtain j where "write_ready_images (\<lambda>r. held_under i stale r \<and> as_id r = j) (ready_image m) m st = Inr (b, st')"
      unfolding mark_image_ready_def u assms(4) by (auto elim!: try_bindE)
    then have w: "b = (count_where (\<lambda>r. held_under i stale r \<and> as_id r = j) (mt_images st) = 1)"
        "st' = st\<lparr>mt_images := update_where (\<lambda>r. held_under i stale r \<and> as_id r = j) (ready_image m) (mt_images st)\<rparr>"
      by (auto simp: write_ready_images_def split: if_splits)
    from nh have none: "\<not> (held_under i stale r \<and> as_id r = j)" if "r \<in> set (mt_images st)" for r
      using that by (auto simp: list_ex_iff)
    have "count_where (\<lambda>r. held_under i stale r \<and> as_id r = j) (mt_images st) = 0" using none by (simp add: count_where_0)
    with w(1) show "\<not> b" by simp
    show "st' = st" unfolding w(2) by (subst update_where_none) (use none in simp_all)
  next
    assume "fail_image old code type retryable retry_at later st = Inr (b, st')"
    then obtain rows' ws' where f: "fail_asset image_archive_queue old code type retryable retry_at later (mt_images st) (mt_wakeups st) = Inr (b, rows', ws')"
      and st': "st' = st\<lparr>mt_images := rows', mt_wakeups := ws'\<rparr>" unfolding fail_image_def by (auto elim!: try_bindE)
    from not_held_fails [OF nh u assms(4) f] show "\<not> b" "st' = st" by (simp_all add: st')
  qed
qed

definition archive1 :: message_store where
  "archive1 = (case claim_image [] (uuid_text 2) (uuid_text 7) 200 100 (ad_store archive0) of Inr (c, st) \<Rightarrow> st | Inl e \<Rightarrow> ad_store archive0)"

definition old_claim :: archive_claim where
  "old_claim = \<lparr>ac_work_item = \<lparr>wi_asset_id = uuid_text 7, wi_source_channel_id = sample_channel, wi_source_telegram_message_id = 5,
     wi_source_asset_id = ''photo'', wi_source_deleted_at = None\<rparr>, ac_lease_token = uuid_text 1\<rparr>"

theorem stale_archiver_powerless_witness:
  "\<exists>st'. fail_image old_claim ''E'' ''T'' True 500 210 archive1 = Inr (False, st') \<and> st' = archive1"
proof -
  have "(case claim_image [] (uuid_text 2) (uuid_text 7) 200 100 (ad_store archive0) of Inr (c, st) \<Rightarrow> c \<noteq> None | Inl e \<Rightarrow> False)" by code_simp
  then obtain c st where c: "claim_image [] (uuid_text 2) (uuid_text 7) 200 100 (ad_store archive0) = Inr (Some c, st)"
    by (auto split: sum.splits)
  then have st: "archive1 = st" by (simp add: archive1_def)
  have "isl (fail_image old_claim ''E'' ''T'' True 500 210 archive1) = False" by code_simp
  then obtain b st' where f: "fail_image old_claim ''E'' ''T'' True 500 210 st = Inr (b, st')"
    unfolding st by (cases "fail_image old_claim ''E'' ''T'' True 500 210 st") auto
  have "uuid_or_value_error (wi_asset_id (ac_work_item old_claim)) = uuid_or_value_error (uuid_text 7)"
    "uuid_or_value_error (ac_lease_token old_claim) = Inr (uuid_text 1)" "uuid_text 1 \<noteq> uuid_text 2" by code_simp+
  from stale_archiver_powerless [OF archive0_reachable c this, THEN conjunct2, rule_format, OF f] f show ?thesis by (simp add: st)
qed

end
