(* ===== verification/Archive_Liveness.thy ===== *)
theory Archive_Liveness
  imports Archive_Steps
begin

text \<open>
  The claim of an asset always answers: every asset belongs to a stored message of a known channel
  and carries data its work item accepts, in every state of the media archive; so a claim of an
  unfinished asset leases it or gives it up, and no asset is stranded.
\<close>

section \<open>Media that ingestion accepts\<close>

definition media_ok :: "media_asset \<Rightarrow> bool" where
  "media_ok a \<longleftrightarrow> \<not> blank (md_asset_id a) \<and> (\<forall>i. md_source_telegram_message_id a = Some i \<longrightarrow> 0 < i)"

lemma source_message_id_positive: "source_message_id v = Inr s \<Longrightarrow> s = Some i \<Longrightarrow> 0 < i"
  by (auto simp: source_message_id_def split: pyval.splits if_splits)

lemma make_media_asset_ok:
  assumes "make_media_asset asset_id kind original cover frames source = Inr a"
  shows "media_ok a"
proof (cases asset_id)
  case (PStr s)
  show ?thesis
  proof (cases frames)
    case (PTuple fs)
    from assms PStr PTuple have "\<not> blank s" by (auto simp: make_media_asset_def)
    with assms PStr PTuple show ?thesis
      by (auto simp: make_media_asset_def media_ok_def result_simps split: if_splits dest: source_message_id_positive)
  qed (use assms PStr in \<open>simp_all add: make_media_asset_def split: if_splits\<close>)
qed (use assms in \<open>simp_all add: make_media_asset_def\<close>)

lemma from_json_ok: "from_json v = Inr a \<Longrightarrow> media_ok a"
  by (auto simp: from_json_def split: pyval.splits if_splits option.splits intro: make_media_asset_ok)

lemma part_media_ok:
  assumes "telegram_part_from_record r = Inr p"
  shows "\<forall>a \<in> set (tp_media p). media_ok a"
proof -
  from assms obtain media where m: "traverse from_json (mp_media r) = Inr media" "tp_media p = media"
    by (auto simp: telegram_part_from_record_def media_assets_from_json_def check_message_part_def result_simps elim!: try_bindE)
  show ?thesis
  proof
    fix a assume "a \<in> set (tp_media p)"
    with m have "a \<in> set media" by simp
    with m(1) [unfolded traverse_Inr] obtain v where "from_json v = Inr a"
      by (auto simp: list_all2_conv_all_nth in_set_conv_nth)
    then show "media_ok a" by (rule from_json_ok)
  qed
qed

lemma recompute_media_ok:
  assumes "recompute c g mid rows = Inr n"
  shows "\<forall>a \<in> set (nm_media n). media_ok a"
proof -
  from assms obtain ps where ps: "traverse telegram_part_from_record (retained_parts mid rows) = Inr ps"
    and "normalized_from_parts c g ps = Inr n" unfolding recompute_def by (rule try_bindE)
  then obtain ms where t: "traverse (\<lambda>p. check_telegram_message (message_of_part c g p)) ps = Inr ms"
    and n: "normalize_parts c g ms = Inr n" unfolding normalized_from_parts_def by (elim try_bindE) (rule that)
  from n obtain m rest where s: "sort_key tm_telegram_message_id ms = m # rest" "nm_media n = concat (map tm_media (m # rest))"
    by (rule normalize_partsE)
  have e: "set (m # rest) = set ms" using arg_cong [OF s(1), of set] by (simp only: set_sort)
  have "set (nm_media n) = (\<Union>x \<in> set (m # rest). set (tm_media x))" unfolding s(2) by simp
  also have "\<dots> = (\<Union>x \<in> set ms. set (tm_media x))" unfolding e ..
  also have "\<dots> = (\<Union>p \<in> set ps. set (tp_media p))" by (simp add: from_parts_messages [OF t])
  finally have "set (nm_media n) = (\<Union>p \<in> set ps. set (tp_media p))" .
  moreover have "\<exists>r. telegram_part_from_record r = Inr p" if "p \<in> set ps" for p
    using ps [unfolded traverse_Inr] that by (auto simp: list_all2_conv_all_nth in_set_conv_nth)
  ultimately show ?thesis using part_media_ok by blast
qed

section \<open>Assets belong to messages\<close>

definition owned_asset :: "uuid set \<Rightarrow> 'a asset_columns_scheme \<Rightarrow> bool" where
  "owned_asset ids r \<longleftrightarrow> as_message_id r \<in> ids \<and> \<not> blank (as_source_asset_id r)
     \<and> (\<forall>i. as_source_telegram_message_id r = Some i \<longrightarrow> 0 < i)"

definition assets_owned :: "message_store \<Rightarrow> bool" where
  "assets_owned st \<longleftrightarrow> (\<forall>r \<in> set (mt_images st). owned_asset (ms_id ` set (mt_messages st)) r)
     \<and> (\<forall>r \<in> set (mt_videos st). owned_asset (ms_id ` set (mt_messages st)) r)"

lemma owned_asset_more: "ids \<subseteq> ids' \<Longrightarrow> owned_asset ids r \<Longrightarrow> owned_asset ids' r"
  by (auto simp: owned_asset_def)

lemma owned_update_where:
  assumes "\<forall>r \<in> set rows. owned_asset ids r" and "\<And>r. owned_asset ids r \<Longrightarrow> owned_asset ids (f r)"
  shows "\<forall>r \<in> set (update_where P f rows). owned_asset ids r"
  using assms by (auto simp: set_update_where)

locale owned_upsert = asset_upsert new merge mid
  for new :: "media_asset \<Rightarrow> 'a asset_columns_scheme" and merge mid +
  assumes source_new: "as_source_telegram_message_id (new a) = md_source_telegram_message_id a"
    and source_merge: "as_source_telegram_message_id (merge a r)
      = coalesce (md_source_telegram_message_id a) (as_source_telegram_message_id r)"
begin

lemma owned_new: "media_ok a \<Longrightarrow> mid \<in> ids \<Longrightarrow> owned_asset ids (new a)"
  using key_new [of a] by (simp add: owned_asset_def media_ok_def asset_key_def source_new)

lemma owned_merge: "media_ok a \<Longrightarrow> owned_asset ids r \<Longrightarrow> owned_asset ids (merge a r)"
  using key_merge [of a r]
  by (auto simp: owned_asset_def media_ok_def asset_key_def source_merge coalesce_def split: option.splits)

lemma upsert_owned:
  assumes "upsert_asset new merge mid a rows = Inr rows'" "\<forall>r \<in> set rows. owned_asset ids r" "media_ok a" "mid \<in> ids"
  shows "\<forall>r \<in> set rows'. owned_asset ids r"
proof (cases "list_ex (\<lambda>r. asset_key r = (mid, md_asset_id a)) rows")
  case True
  with assms(1) have "rows' = update_where (\<lambda>r. asset_key r = (mid, md_asset_id a)) (merge a) rows"
    by (simp add: upsert_asset_def split: if_splits)
  with owned_update_where [OF assms(2) owned_merge [OF assms(3)]] show ?thesis by simp
next
  case False
  with assms(1) have "rows' = rows @ [new a]" by (simp add: upsert_asset_def split: if_splits)
  with assms(2) owned_new [OF assms(3,4)] show ?thesis by simp
qed

lemma upserts_owned:
  "upsert_assets new merge mid as rows = Inr rows' \<Longrightarrow> \<forall>r \<in> set rows. owned_asset ids r \<Longrightarrow>
     \<forall>a \<in> set as. media_ok a \<Longrightarrow> mid \<in> ids \<Longrightarrow> \<forall>r \<in> set rows'. owned_asset ids r"
proof (induction "as" arbitrary: rows)
  case (Cons a "as")
  from Cons.prems(1) obtain r1 where r1: "upsert_asset new merge mid a rows = Inr r1"
      "upsert_assets new merge mid as r1 = Inr rows'" by (auto elim: try_bindE)
  from Cons.IH [OF r1(2) upsert_owned [OF r1(1) Cons.prems(2)]] Cons.prems(3,4) show ?case by simp
qed simp

end

interpretation image_owned: owned_upsert "new_image fresh now mid" merge_image mid for fresh now mid
  by unfold_locales (simp_all add: new_image_def new_asset_columns_def asset_columns.defs image_asset_row.defs)

interpretation video_owned: owned_upsert "new_video fresh now mid" merge_video mid for fresh now mid
  by unfold_locales (simp_all add: new_video_def new_asset_columns_def asset_columns.defs video_asset_row.defs)

lemma synchronize_owned:
  assumes "synchronize_archive_assets fresh now mid n st = Inr st'" and "assets_owned st"
    and "\<forall>a \<in> set (nm_media n). media_ok a" and "mid \<in> ms_id ` set (mt_messages st)"
  shows "assets_owned st'"
proof -
  let ?ids = "ms_id ` set (mt_messages st)"
  from assms(1) obtain st1 where i: "upsert_image_assets fresh now mid n st = Inr st1"
    and v: "upsert_video_assets fresh now mid n st1 = Inr st'"
    unfolding synchronize_archive_assets_def by (rule try_bindE)
  have "(\<forall>r \<in> set (mt_images st1). owned_asset ?ids r) \<and> mt_videos st1 = mt_videos st"
  proof (cases "filter (\<lambda>a. md_kind a = IMAGE) (nm_media n) = []")
    case True
    with i assms(2) show ?thesis by (simp add: upsert_image_assets_def assets_owned_def)
  next
    case False
    with i obtain images ws where
        a: "upsert_assets (new_image fresh now mid) merge_image mid (filter (\<lambda>a. md_kind a = IMAGE) (nm_media n)) (mt_images st) = Inr images"
      and st1: "st1 = st\<lparr>mt_images := images, mt_wakeups := ws\<rparr>"
      unfolding upsert_image_assets_def Let_def by (auto elim!: try_bindE)
    have "\<forall>r \<in> set images. owned_asset ?ids r"
      by (rule image_owned.upserts_owned [OF a]) (use assms(2-4) in \<open>simp_all add: assets_owned_def\<close>)
    then show ?thesis by (simp add: st1)
  qed
  moreover have "(\<forall>r \<in> set (mt_videos st'). owned_asset ?ids r) \<and> mt_images st' = mt_images st1"
    if old: "mt_videos st1 = mt_videos st"
  proof (cases "filter (\<lambda>a. md_kind a = VIDEO) (nm_media n) = []")
    case True
    with v assms(2) old show ?thesis by (simp add: upsert_video_assets_def assets_owned_def)
  next
    case False
    with v obtain videos ws where
        a: "upsert_assets (new_video fresh now mid) merge_video mid (filter (\<lambda>a. md_kind a = VIDEO) (nm_media n)) (mt_videos st1) = Inr videos"
      and st': "st' = st1\<lparr>mt_videos := videos, mt_wakeups := ws\<rparr>"
      unfolding upsert_video_assets_def Let_def by (auto elim!: try_bindE)
    have "\<forall>r \<in> set videos. owned_asset ?ids r"
      by (rule video_owned.upserts_owned [OF a]) (use assms(2-4) old in \<open>simp_all add: assets_owned_def\<close>)
    then show ?thesis by (simp add: st')
  qed
  moreover have "mt_messages st' = mt_messages st" by (rule synchronize_keeps(1) [OF assms(1)])
  ultimately show ?thesis by (simp add: assets_owned_def)
qed

section \<open>Ingestion keeps the owners\<close>

lemma assets_owned_parts [simp]: "assets_owned (st\<lparr>mt_parts := ps\<rparr>) = assets_owned st"
  by (simp add: assets_owned_def)

lemma owned_updated_messages:
  assumes "\<And>m. ms_id (f m) = ms_id m"
  shows "assets_owned (st\<lparr>mt_messages := update_where P f (mt_messages st)\<rparr>) = assets_owned st"
proof -
  have "map ms_id (update_where P f (mt_messages st)) = map ms_id (mt_messages st)"
    by (rule map_update_where) (rule assms)
  then have "ms_id ` set (update_where P f (mt_messages st)) = ms_id ` set (mt_messages st)" by (metis list.set_map)
  then show ?thesis by (simp add: assets_owned_def)
qed

lemma owned_parent [simp]:
  "assets_owned (update_parent sha mid n now st) = assets_owned st" "assets_owned (mark_changed mid st) = assets_owned st"
  unfolding update_parent_def mark_changed_def by (rule owned_updated_messages; simp)+

lemma parent_ids [simp]:
  "ms_id ` set (mt_messages (update_parent sha mid n now st)) = ms_id ` set (mt_messages st)"
  "ms_id ` set (mt_messages (mark_changed mid st)) = ms_id ` set (mt_messages st)"
proof -
  have "map ms_id (mt_messages (update_parent sha mid n now st)) = map ms_id (mt_messages st)"
    "map ms_id (mt_messages (mark_changed mid st)) = map ms_id (mt_messages st)"
    by (simp_all add: update_parent_def mark_changed_def map_update_where)
  then show "ms_id ` set (mt_messages (update_parent sha mid n now st)) = ms_id ` set (mt_messages st)"
    "ms_id ` set (mt_messages (mark_changed mid st)) = ms_id ` set (mt_messages st)" by (metis list.set_map)+
qed

lemma upsert_message_owned:
  assumes "upsert_message sha fresh now n st = Inr st'" and "assets_owned st"
  shows "assets_owned st'"
  using assms(1)
proof (rule upsert_messageE)
  fix channel mid st1 rows r
  assume u: "upsert_parent sha fresh now channel n st = Inr (mid, st1)"
    and r: "recompute (nm_source_channel_id n) (nm_telegram_grouped_id n) mid rows = Inr r"
    and s: "synchronize_archive_assets fresh now mid r (update_parent sha mid r now (st1\<lparr>mt_parts := rows\<rparr>)) = Inr st'"
  note cases = upsert_parentE [OF u]
  have "assets_owned st1 \<and> mid \<in> ms_id ` set (mt_messages st1)"
  proof (cases rule: cases)
    case (1 m)
    with assms(2) show ?thesis by (auto simp: find_Some_iff)
  next
    case 2
    have "owned_asset (insert mid (ms_id ` set (mt_messages st))) x"
      if "owned_asset (ms_id ` set (mt_messages st)) x" for x :: "'a asset_columns_scheme"
      by (rule owned_asset_more [OF subset_insertI that])
    then show ?thesis using assms(2) by (simp add: 2(4) assets_owned_def owned_asset_more [OF subset_insertI])
  qed
  with synchronize_owned [OF s _ recompute_media_ok [OF r]] show "assets_owned st'" by simp
qed

lemma upsert_all_owned: "upsert_all sha fresh now k ns st = (r, st') \<Longrightarrow> assets_owned st \<Longrightarrow> assets_owned st'"
proof (induction ns arbitrary: k st)
  case (Cons n ns)
  show ?case
  proof (cases "upsert_message sha (fresh k) now n st")
    case (Inr st1)
    with Cons.prems have "upsert_all sha fresh now (Suc k) ns st1 = (r, st')" by simp
    from Cons.IH [OF this upsert_message_owned [OF Inr Cons.prems(2)]] show ?thesis .
  qed (use Cons.prems in simp)
qed simp

lemma message_step_owned:
  assumes "message_step sha st st'" and "assets_owned st"
  shows "assets_owned st'"
  using assms(1)
proof cases
  case (ingestion fresh now ms r)
  show ?thesis
  proof (cases "normalize_telegram_messages ms")
    case (Inl e)
    with ingestion assms(2) show ?thesis by (simp add: ingest_messages_def)
  next
    case (Inr ns)
    obtain q st1 where q: "upsert_all sha fresh now 0 ns st = (q, st1)" by fastforce
    with ingestion Inr have "st1 = st'" by (auto simp: ingest_messages_def split: sum.splits)
    with upsert_all_owned [OF q assms(2)] show ?thesis by simp
  qed
next
  case (edit fresh now channel i body metadata media edited changed)
  then obtain e where "store_edit sha fresh now channel i body metadata media e st = Inr (changed, st')"
    unfolding record_edit_def by (elim try_bindE) (rule that)
  then show ?thesis
  proof (cases rule: store_editE)
    case (2 c part parent r)
    have "ms_id parent \<in> ms_id ` set (mt_messages st)" using locked_component_Some(3) [OF 2(3)] by simp
    with synchronize_owned [OF 2(7) _ recompute_media_ok [OF 2(6)]] assms(2) show ?thesis by simp
  qed (use assms(2) in simp)
next
  case (deletion now channel i deleted changed)
  then obtain d where "store_deletion now channel i d st = Inr (changed, st')"
    unfolding record_deletion_def by (elim try_bindE) (rule that)
  then show ?thesis
  proof (cases rule: store_deletionE)
    case (2 c part parent)
    then show ?thesis using assms(2) by (simp add: owned_updated_messages delete_message_def)
  qed (use assms(2) in simp)
qed

section \<open>The workers keep the owners\<close>

definition owners_kept :: "message_store \<Rightarrow> message_store \<Rightarrow> bool" where
  "owners_kept st st' \<longleftrightarrow> mt_messages st' = mt_messages st \<and> mt_parts st' = mt_parts st \<and> (assets_owned st \<longrightarrow> assets_owned st')"

lemma owned_columns:
  assumes "as_message_id r' = as_message_id r" "as_source_asset_id r' = as_source_asset_id r"
    "as_source_telegram_message_id r' = as_source_telegram_message_id r"
  shows "owned_asset ids r' = owned_asset ids r"
  by (simp add: owned_asset_def assms)

lemma owned_worker_updates [simp]:
  "owned_asset ids (lease_asset token now duration r) = owned_asset ids r"
  "owned_asset ids (terminalize_exhausted now r) = owned_asset ids r"
  "owned_asset ids (failed_asset code type retry retry_at now r) = owned_asset ids r"
  by (rule owned_columns; simp add: lease_asset_def terminalize_exhausted_def failed_asset_def)+

lemma owned_ready_updates [simp]:
  "owned_asset ids (ready_image m i) = owned_asset ids i" "owned_asset ids (ready_or_replayed m i) = owned_asset ids i"
  "owned_asset ids (ready_video vm v) = owned_asset ids v"
  by (rule owned_columns; simp add: ready_image_def ready_or_replayed_def ready_video_def)+

lemma claim_asset_owned:
  assumes "claim_asset queue locked token i now duration ms rows ws = Inr (c, rows', ws')" and "\<forall>r \<in> set rows. owned_asset ids r"
  shows "\<forall>r \<in> set rows'. owned_asset ids r"
  using assms(1)
proof (cases rule: claim_asset_cases)
  case (2 r)
  show ?thesis unfolding 2(5) by (rule owned_update_where [OF assms(2)]) simp
next
  case (3 r m cl)
  show ?thesis unfolding 3(6) by (rule owned_update_where [OF assms(2)]) simp
qed (use assms(2) in simp)

lemma fail_asset_owned:
  assumes "fail_asset queue c code type retryable retry_at now rows ws = Inr (b, rows', ws')" and "\<forall>r \<in> set rows. owned_asset ids r"
  shows "\<forall>r \<in> set rows'. owned_asset ids r"
  using assms(1)
proof (cases rule: fail_asset_cases)
  case (2 i token r code type retry)
  show ?thesis unfolding 2(7) by (rule owned_update_where [OF assms(2)]) simp
qed (use assms(2) in simp)

lemma claim_owners:
  "claim_image locked token asset_id now duration st = Inr (c, st') \<Longrightarrow> owners_kept st st'"
  "claim_video locked token asset_id now duration st = Inr (c, st') \<Longrightarrow> owners_kept st st'"
  unfolding claim_image_def claim_video_def owners_kept_def assets_owned_def
  by (auto elim!: try_bindE dest!: claim_asset_owned)

lemma fail_owners:
  "fail_image cl code type retryable retry_at now st = Inr (b, st') \<Longrightarrow> owners_kept st st'"
  "fail_video cl code type retryable retry_at now st = Inr (b, st') \<Longrightarrow> owners_kept st st'"
  unfolding fail_image_def fail_video_def owners_kept_def assets_owned_def
  by (auto elim!: try_bindE dest!: fail_asset_owned)

lemma complete_owners:
  "complete_image_wakeup asset_id now st = Inr (b, st') \<Longrightarrow> owners_kept st st'"
  "complete_video_wakeup asset_id now st = Inr (b, st') \<Longrightarrow> owners_kept st st'"
  unfolding complete_image_wakeup_def complete_video_wakeup_def owners_kept_def assets_owned_def
  by (auto simp: Let_def elim!: try_bindE split: prod.splits)

lemma write_ready_owners:
  assumes "write_ready_images P f m st = Inr (b, st')" and "\<And>ids r. owned_asset ids (f r) = owned_asset ids r"
  shows "owners_kept st st'"
proof -
  from assms(1) have st': "st' = st\<lparr>mt_images := update_where P f (mt_images st)\<rparr>"
    by (simp add: write_ready_images_def split: if_splits)
  have "\<forall>r \<in> set (update_where P f (mt_images st)). owned_asset ids r"
    if "\<forall>r \<in> set (mt_images st). owned_asset ids r" for ids
    by (rule owned_update_where [OF that]) (simp add: assms(2))
  then show ?thesis by (simp add: st' owners_kept_def assets_owned_def)
qed

lemma ready_owners:
  "mark_image_ready c m st = Inr (b, st') \<Longrightarrow> owners_kept st st'"
  "image_asset_mark_ready m st = Inr (b, st') \<Longrightarrow> owners_kept st st'"
  unfolding mark_image_ready_def image_asset_mark_ready_def
  by (auto elim!: try_bindE intro: write_ready_owners)

lemma video_ready_owners:
  assumes "mark_video_ready c m db = Inr (b, db')"
  shows "owners_kept (ad_store db) (ad_store db')"
  using assms
proof (cases rule: mark_video_readyE)
  case (2 i token)
  have "\<forall>r \<in> set (update_where (held_under i token) (ready_video m) (mt_videos (ad_store db))). owned_asset ids r"
    if "\<forall>r \<in> set (mt_videos (ad_store db)). owned_asset ids r" for ids
    by (rule owned_update_where [OF that]) simp
  then show ?thesis by (simp add: 2(6) owners_kept_def assets_owned_def)
qed (simp add: owners_kept_def)

section \<open>The owners in every reachable state\<close>

definition archive_owned :: "(string \<Rightarrow> string) \<Rightarrow> archive_db \<Rightarrow> bool" where
  "archive_owned sha db \<longleftrightarrow> message_store_ok sha (ad_store db) \<and> assets_owned (ad_store db)"

lemma with_store_store [simp]: "ad_store (with_store st db) = st"
  by (simp add: with_store_def)

lemma owners_kept_owned: "owners_kept (ad_store db) (ad_store db') \<Longrightarrow> archive_owned sha db \<Longrightarrow> archive_owned sha db'"
  using store_ok_assets [of "ad_store db'" "ad_store db" sha] by (simp add: archive_owned_def owners_kept_def)

lemma wakeup_owners: "owners_kept st (st\<lparr>mt_wakeups := ws\<rparr>)"
  by (simp add: owners_kept_def assets_owned_def)

lemma archive_step_owned:
  assumes "archive_step sha db db'" and "archive_owned sha db"
  shows "archive_owned sha db'"
  using assms(1)
proof cases
  case (messages st)
  with message_step_sound [OF messages(2)] message_step_owned [OF messages(2)] assms(2)
  show ?thesis by (simp add: archive_owned_def step_sound_def)
qed (rule owners_kept_owned [OF _ assms(2)];
    simp add: wakeup_owners claim_owners fail_owners complete_owners ready_owners video_ready_owners)+

lemma archive_reachable_owned: "archive_reachable sha db \<Longrightarrow> archive_owned sha db"
proof (induction rule: archive_reachable.induct)
  case (start cs)
  show ?case
    by (simp add: empty_archive_def empty_store_def archive_owned_def message_store_ok_def parts_ok_def assets_owned_def)
next
  case (step db db')
  from archive_step_owned [OF step.hyps(2) step.IH] show ?case .
qed

section \<open>A claim of an unfinished asset answers\<close>

text \<open>
  The answer of a claim and the row it leaves: while attempts are left the asset is handed out and
  leased under the token, otherwise nothing is handed out and the asset is given up as failed.
\<close>

definition leased_or_failed ::
  "uuid \<Rightarrow> 'a asset_columns_scheme \<Rightarrow> archive_claim option \<Rightarrow> 'a asset_columns_scheme list \<Rightarrow> bool" where
  "leased_or_failed token r c rows \<longleftrightarrow> (\<exists>r' \<in> set rows. as_id r' = as_id r \<and> as_max_attempts r' = as_max_attempts r \<and>
     (if as_attempt_count r < as_max_attempts r
      then as_state r' = A_PROCESSING \<and> as_lease_token r' = Some token \<and> as_attempt_count r' = as_attempt_count r + 1
        \<and> (\<exists>cl. c = Some cl \<and> ac_lease_token cl = token \<and> wi_asset_id (ac_work_item cl) = as_id r)
      else c = None \<and> as_state r' = A_FAILED))"

lemma uuid_checked: "as_uuid c = Inr u \<Longrightarrow> uuid_or_value_error c = Inr u"
  by (auto simp: as_uuid_def uuid_or_value_error_def split: option.splits)

lemma claim_of_owned:
  assumes "owned_asset ids r" and "claimable now r" and "uuid_or_value_error (as_id r) = Inr (as_id r)"
    and "as_uuid (ms_source_channel_id m) = Inr (ms_source_channel_id m)" and "uuid_or_value_error token = Inr token"
  shows "\<exists>cl. claim_of r m token = Inr cl \<and> ac_lease_token cl = token \<and> wi_asset_id (ac_work_item cl) = as_id r"
proof -
  from assms(2) obtain i where i: "as_source_telegram_message_id r = Some i" by (auto simp: claimable_def)
  with assms(1) have "0 < i" "\<not> blank (as_source_asset_id r)" by (simp_all add: owned_asset_def)
  with i assms(3,5) uuid_checked [OF assms(4)] show ?thesis
    by (simp add: claim_of_def check_work_item_def check_archive_claim_def ensure_value_def)
qed

lemma claim_asset_answers:
  assumes "kind_ok queue rows ws" and r: "r \<in> set rows" and cl: "claimable now r"
    and own: "owned_asset (ms_id ` set ms) r" and chan: "\<forall>m \<in> set ms. as_uuid (ms_source_channel_id m) = Inr (ms_source_channel_id m)"
    and i: "uuid_or_value_error (as_id r) = Inr (as_id r)" and t: "uuid_or_value_error token = Inr token"
  shows "\<exists>c rows' ws'. claim_asset queue [] token (as_id r) now duration ms rows ws = Inr (c, rows', ws') \<and> leased_or_failed token r c rows'"
proof -
  have only: "x = r" if "x \<in> set rows" "as_id x = as_id r" for x using kind_ok_key [OF assms(1) that(1) r that(2)] .
  have f: "find (\<lambda>x. as_id x = as_id r \<and> claimable now x) rows = Some r"
  proof (cases "find (\<lambda>x. as_id x = as_id r \<and> claimable now x) rows")
    case None
    with r cl show ?thesis by (auto simp: find_None_iff)
  next
    case (Some x)
    then have "x \<in> set rows" "as_id x = as_id r" by (auto simp: find_Some_iff)
    with only Some show ?thesis by simp
  qed
  from own obtain m where m: "find (\<lambda>m. ms_id m = as_message_id r) ms = Some m"
    by (cases "find (\<lambda>m. ms_id m = as_message_id r) ms") (auto simp: owned_asset_def find_None_iff)
  then have "m \<in> set ms" by (auto simp: find_Some_iff)
  with chan obtain c where c: "claim_of r m token = Inr c" "ac_lease_token c = token" "wi_asset_id (ac_work_item c) = as_id r"
    using claim_of_owned [OF own cl i _ t] by blast
  have row: "claimable_row [] (as_id r) now ms rows = Some (r, m)" by (simp add: claimable_row_def f m)
  have mem: "g r \<in> set (update_where (\<lambda>x. as_id x = as_id r) g rows)" for g
    using r by (force simp: set_update_where)
  show ?thesis
  proof (cases "as_attempt_count r < as_max_attempts r")
    case True
    have "leased_or_failed token r (Some c) (update_where (\<lambda>x. as_id x = as_id r) (lease_asset token now duration) rows)"
      unfolding leased_or_failed_def by (rule bexI [OF _ mem]) (use True c in \<open>simp add: lease_asset_def\<close>)
    with True show ?thesis by (simp add: claim_asset_def row c(1))
  next
    case False
    have "leased_or_failed token r None (update_where (\<lambda>x. as_id x = as_id r) (terminalize_exhausted now) rows)"
      unfolding leased_or_failed_def by (rule bexI [OF _ mem]) (use False in \<open>simp add: terminalize_exhausted_def\<close>)
    with False show ?thesis by (simp add: claim_asset_def row)
  qed
qed

lemma archive_reachable_tables:
  assumes "archive_reachable sha db" and "st = ad_store db"
  shows "kind_ok image_archive_queue (mt_images st) (mt_wakeups st)" "kind_ok video_archive_queue (mt_videos st) (mt_wakeups st)"
    "\<forall>w \<in> set (mt_wakeups st). wakeup_ok w"
    "\<forall>m \<in> set (mt_messages st). as_uuid (ms_source_channel_id m) = Inr (ms_source_channel_id m)"
    "\<forall>r \<in> set (mt_images st). owned_asset (ms_id ` set (mt_messages st)) r"
    "\<forall>r \<in> set (mt_videos st). owned_asset (ms_id ` set (mt_messages st)) r"
  using archive_reachable_ok [OF assms(1)] archive_reachable_owned [OF assms(1)]
  by (simp_all add: assms(2) archive_ok_def tables_ok_def archive_owned_def message_store_ok_def assets_owned_def)

lemma eventually_answered:
  assumes "kind_ok queue rows ws" and "\<forall>w \<in> set ws. wakeup_ok w" and r: "r \<in> set rows"
    and live: "\<not> terminal_state (as_state r) \<and> as_source_telegram_message_id r \<noteq> None"
    and own: "\<forall>r \<in> set rows. owned_asset (ms_id ` set ms) r"
    and chan: "\<forall>m \<in> set ms. as_uuid (ms_source_channel_id m) = Inr (ms_source_channel_id m)"
    and t: "uuid_or_value_error token = Inr token"
    and answer: "\<And>now asset_id c rows' ws'. uuid_or_value_error asset_id = Inr (as_id r) \<Longrightarrow>
      claim_asset queue [] token (as_id r) now duration ms rows ws = Inr (c, rows', ws') \<Longrightarrow>
      leased_or_failed token r c rows' \<Longrightarrow> Q now asset_id"
  shows "(\<exists>w \<in> set ws. wk_queue w = queue \<and> wk_entity_id w = as_id r \<and> (\<exists>t. \<forall>now \<ge> t. wakeup_due now w))
    \<and> (\<exists>t. \<forall>now \<ge> t. \<forall>asset_id. uuid_or_value_error asset_id = Inr (as_id r) \<longrightarrow> Q now asset_id)"
proof
  note awake = unfinished_awake [OF assms(1,2) r conjunct1 [OF live] conjunct2 [OF live]]
  then show "\<exists>w \<in> set ws. wk_queue w = queue \<and> wk_entity_id w = as_id r \<and> (\<exists>t. \<forall>now \<ge> t. wakeup_due now w)" ..
  from awake obtain u where u: "\<forall>now \<ge> u. claimable now r" by blast
  show "\<exists>t. \<forall>now \<ge> t. \<forall>asset_id. uuid_or_value_error asset_id = Inr (as_id r) \<longrightarrow> Q now asset_id"
  proof (intro exI [of _ u] allI impI)
    fix now asset_id assume now: "u \<le> now" and i: "uuid_or_value_error asset_id = Inr (as_id r)"
    from claim_asset_answers [OF assms(1) r mp [OF spec [OF u] now] bspec [OF own r] chan
        uuid_or_value_error_canonical [OF i] t, of duration]
    obtain c rows' ws' where "claim_asset queue [] token (as_id r) now duration ms rows ws = Inr (c, rows', ws')"
      "leased_or_failed token r c rows'" by blast
    with answer [OF i] show "Q now asset_id" by blast
  qed
qed

section \<open>No asset is stranded\<close>

text \<open>
  C33: No asset is stranded: in every reachable state, each image or video that is not finished and
  knows its Telegram message has a wake-up in its queue that becomes due, whichever worker died
  holding its lease and whatever the dispatcher did; and from some time on every delivery of its
  identifier makes progress: the claim hands it out under the worker's token while attempts are
  left, and marks it as failed when they are used up.
\<close>

theorem unarchived_asset_never_stranded:
  assumes "archive_reachable sha db" and "st = ad_store db" and "uuid_or_value_error token = Inr token"
  shows "(\<forall>r \<in> set (mt_images st). \<not> terminal_state (as_state r) \<and> as_source_telegram_message_id r \<noteq> None \<longrightarrow>
      (\<exists>w \<in> set (mt_wakeups st). wk_queue w = image_archive_queue \<and> wk_entity_id w = as_id r \<and> (\<exists>t. \<forall>now \<ge> t. wakeup_due now w))
      \<and> (\<exists>t. \<forall>now \<ge> t. \<forall>asset_id. uuid_or_value_error asset_id = Inr (as_id r) \<longrightarrow>
           (\<exists>c st'. claim_image [] token asset_id now duration st = Inr (c, st') \<and> leased_or_failed token r c (mt_images st'))))
    \<and> (\<forall>r \<in> set (mt_videos st). \<not> terminal_state (as_state r) \<and> as_source_telegram_message_id r \<noteq> None \<longrightarrow>
      (\<exists>w \<in> set (mt_wakeups st). wk_queue w = video_archive_queue \<and> wk_entity_id w = as_id r \<and> (\<exists>t. \<forall>now \<ge> t. wakeup_due now w))
      \<and> (\<exists>t. \<forall>now \<ge> t. \<forall>asset_id. uuid_or_value_error asset_id = Inr (as_id r) \<longrightarrow>
           (\<exists>c st'. claim_video [] token asset_id now duration st = Inr (c, st') \<and> leased_or_failed token r c (mt_videos st'))))"
proof -
  note tables = archive_reachable_tables [OF assms(1,2)]
  show ?thesis
  proof (rule conjI; intro ballI impI)
    fix r assume r: "r \<in> set (mt_images st)" "\<not> terminal_state (as_state r) \<and> as_source_telegram_message_id r \<noteq> None"
    show "(\<exists>w \<in> set (mt_wakeups st). wk_queue w = image_archive_queue \<and> wk_entity_id w = as_id r \<and> (\<exists>t. \<forall>now \<ge> t. wakeup_due now w))
      \<and> (\<exists>t. \<forall>now \<ge> t. \<forall>asset_id. uuid_or_value_error asset_id = Inr (as_id r) \<longrightarrow>
           (\<exists>c st'. claim_image [] token asset_id now duration st = Inr (c, st') \<and> leased_or_failed token r c (mt_images st')))"
      by (rule eventually_answered [OF tables(1,3) r tables(5,4) assms(3), where duration = duration]) (simp add: claim_image_def)
  next
    fix r assume r: "r \<in> set (mt_videos st)" "\<not> terminal_state (as_state r) \<and> as_source_telegram_message_id r \<noteq> None"
    show "(\<exists>w \<in> set (mt_wakeups st). wk_queue w = video_archive_queue \<and> wk_entity_id w = as_id r \<and> (\<exists>t. \<forall>now \<ge> t. wakeup_due now w))
      \<and> (\<exists>t. \<forall>now \<ge> t. \<forall>asset_id. uuid_or_value_error asset_id = Inr (as_id r) \<longrightarrow>
           (\<exists>c st'. claim_video [] token asset_id now duration st = Inr (c, st') \<and> leased_or_failed token r c (mt_videos st')))"
      by (rule eventually_answered [OF tables(2,3) r tables(6,4) assms(3), where duration = duration]) (simp add: claim_video_def)
  qed
qed

text \<open>An image whose workers die one after the other ends with its last attempt used up and still leased.\<close>

definition attempted :: "int \<Rightarrow> image_asset_row \<Rightarrow> bool" where
  "attempted k r \<longleftrightarrow> as_id r = uuid_text 7 \<and> \<not> terminal_state (as_state r) \<and> as_source_telegram_message_id r \<noteq> None
     \<and> as_attempt_count r = k \<and> as_max_attempts r = 5"

lemma canonical_id: "uuid_or_value_error (uuid_text 7) = Inr (uuid_text 7)" "uuid_or_value_error (uuid_text 3) = Inr (uuid_text 3)"
  by (simp_all add: uuid_or_value_error_def parse_uuid_text)

lemma one_more_attempt:
  assumes "archive_reachable sha db" and r: "r \<in> set (mt_images (ad_store db))" "attempted k r" and "k < 5"
  shows "\<exists>db'. archive_reachable sha db' \<and> (\<exists>r' \<in> set (mt_images (ad_store db')). attempted (k + 1) r')"
proof -
  note tables = archive_reachable_tables [OF assms(1) HOL.refl]
  from r(2) have a: "as_id r = uuid_text 7" "\<not> terminal_state (as_state r)" "as_source_telegram_message_id r \<noteq> None"
    "as_attempt_count r = k" "as_max_attempts r = 5" by (simp_all add: attempted_def)
  have "asset_ok r" using tables(1) r(1) by (simp add: kind_ok_def)
  then obtain now where now: "claimable now r" using unfinished_claimable a(2,3) by blast
  have i: "uuid_or_value_error (as_id r) = Inr (as_id r)" by (simp add: a(1) canonical_id)
  from claim_asset_answers [OF tables(1) r(1) now bspec [OF tables(5) r(1)] tables(4) i canonical_id(2), of 100]
  obtain c rows ws where c: "claim_asset image_archive_queue [] (uuid_text 3) (as_id r) now 100 (mt_messages (ad_store db))
      (mt_images (ad_store db)) (mt_wakeups (ad_store db)) = Inr (c, rows, ws)" "leased_or_failed (uuid_text 3) r c rows" by blast
  let ?st = "(ad_store db)\<lparr>mt_images := rows, mt_wakeups := ws\<rparr>"
  have "claim_image [] (uuid_text 3) (as_id r) now 100 (ad_store db) = Inr (c, ?st)" by (simp add: claim_image_def i c(1))
  from archive_reachable.step [OF assms(1) image_claim [OF this]] have re: "archive_reachable sha (with_store ?st db)" .
  from c(2) a assms(4) obtain r' where r': "r' \<in> set rows" "as_id r' = uuid_text 7" "as_state r' = A_PROCESSING"
    "as_attempt_count r' = k + 1" "as_max_attempts r' = 5" by (auto simp: leased_or_failed_def)
  have "asset_ok r'" using archive_reachable_tables(1) [OF re HOL.refl] r'(1) by (simp add: kind_ok_def)
  with r' have "attempted (k + 1) r'" by (simp add: attempted_def asset_ok_def)
  with re r'(1) show ?thesis by (intro exI [of _ "with_store ?st db"]) auto
qed

lemma last_attempt_reached:
  "\<exists>db. archive_reachable (\<lambda>t. []) db \<and> (\<exists>r \<in> set (mt_images (ad_store db)). attempted 5 r)"
proof -
  have start: "\<exists>db. archive_reachable (\<lambda>t. []) db \<and> (\<exists>r \<in> set (mt_images (ad_store db)). attempted 0 r)"
  proof -
    have "map (\<lambda>r. (as_id r, as_state r = A_PENDING, as_source_telegram_message_id r, as_attempt_count r, as_max_attempts r))
        (mt_images (ad_store archive0)) = [(uuid_text 7, True, Some 5, 0, 5)]" by code_simp
    from map_eq_Cons_member [OF this] obtain r where "r \<in> set (mt_images (ad_store archive0))" "attempted 0 r"
      by (auto simp: attempted_def)
    with archive0_reachable show ?thesis by blast
  qed
  have more: "\<exists>db. archive_reachable (\<lambda>t. []) db \<and> (\<exists>r \<in> set (mt_images (ad_store db)). attempted (k + 1) r)"
    if "\<exists>db. archive_reachable (\<lambda>t. []) db \<and> (\<exists>r \<in> set (mt_images (ad_store db)). attempted k r)" "k < 5" for k
    using that one_more_attempt by blast
  from more [OF more [OF more [OF more [OF more [OF start]]]]] show ?thesis by simp
qed

theorem unarchived_asset_never_stranded_witness:
  "\<exists>db. archive_reachable (\<lambda>t. []) db
     \<and> (\<exists>t. \<forall>now \<ge> t. \<exists>st'. claim_image [] (uuid_text 3) (uuid_text 7) now 100 (ad_store db) = Inr (None, st')
         \<and> (\<exists>r' \<in> set (mt_images st'). as_id r' = uuid_text 7 \<and> as_state r' = A_FAILED))"
proof -
  from last_attempt_reached obtain db r where db: "archive_reachable (\<lambda>t. []) db"
    and r: "r \<in> set (mt_images (ad_store db))" "attempted 5 r" by blast
  then have "\<not> terminal_state (as_state r) \<and> as_source_telegram_message_id r \<noteq> None" by (simp add: attempted_def)
  with unarchived_asset_never_stranded [OF db HOL.refl canonical_id(2), of 100, THEN conjunct1] r(1)
  obtain t where t: "\<forall>now \<ge> t. \<forall>asset_id. uuid_or_value_error asset_id = Inr (as_id r) \<longrightarrow>
      (\<exists>c st'. claim_image [] (uuid_text 3) asset_id now 100 (ad_store db) = Inr (c, st') \<and> leased_or_failed (uuid_text 3) r c (mt_images st'))"
    by blast
  have "\<exists>st'. claim_image [] (uuid_text 3) (uuid_text 7) now 100 (ad_store db) = Inr (None, st')
      \<and> (\<exists>r' \<in> set (mt_images st'). as_id r' = uuid_text 7 \<and> as_state r' = A_FAILED)" if "t \<le> now" for now
  proof -
    from r(2) have "as_id r = uuid_text 7" by (simp add: attempted_def)
    with t that canonical_id(1) obtain c st' where "claim_image [] (uuid_text 3) (uuid_text 7) now 100 (ad_store db) = Inr (c, st')"
      "leased_or_failed (uuid_text 3) r c (mt_images st')" by metis
    with r(2) show ?thesis by (auto simp: leased_or_failed_def attempted_def)
  qed
  with db show ?thesis by blast
qed

end
