(* ===== verification/Archive_Storage.thy ===== *)
theory Archive_Storage
  imports Media_Artifacts
begin

text \<open>
  The archive on a local volume, \<^verbatim>\<open>tgcurator/infrastructure/archive/local_storage.py\<close>: objects under
  relative keys that are published once.  The volume is the files and directories below the root,
  named by their path components; symbolic links do not occur below it.  A failure of the operating
  system while an object is written is an argument.

  What is shown: an object never changes once published, reading gives what was put, and putting
  again succeeds exactly with the same bytes.
\<close>

section \<open>The volume\<close>

type_synonym path = "string list"

record volume =
  vo_files :: "(path, bytes) dict"
  vo_directories :: "path list"

definition target_for :: "string \<Rightarrow> path result" where
  "target_for key =
     ensure_value (\<not> blank key \<and> backslash \<notin> set key \<and> CHR 0x00 \<notin> set key \<and> \<not> is_absolute key
       \<and> posix_parts key \<noteq> [] \<and> \<not> list_ex (\<lambda>p. p \<in> {[], ''.'', ''..''}) (posix_parts key)
       \<and> \<not> list_ex (\<lambda>p. CHR '':'' \<in> set p) (posix_parts key)) (posix_parts key)"

definition parents :: "path \<Rightarrow> path list" where
  "parents p = map (\<lambda>n. take n p) [1..<length p]"

definition below_file :: "path \<Rightarrow> volume \<Rightarrow> bool" where
  "below_file p v = list_ex (\<lambda>q. dict_has q (vo_files v)) (parents p)"

section \<open>Operations\<close>

definition make_parents :: "path \<Rightarrow> volume \<Rightarrow> volume result" where
  "make_parents p v =
     (if below_file p v then Inl OSError
      else Inr (v\<lparr>vo_directories := vo_directories v @ filter (\<lambda>q. q \<notin> set (vo_directories v)) (parents p)\<rparr>))"

text \<open>\<^verbatim>\<open>_existing_size_or_conflict\<close>.\<close>

definition existing_size_or_conflict :: "bytes \<Rightarrow> bytes \<Rightarrow> int result" where
  "existing_size_or_conflict stored content =
     (if stored = content then Inr (int (length stored)) else Inl RuntimeError)"

definition put_object :: "error option \<Rightarrow> string \<Rightarrow> string \<Rightarrow> bytes \<Rightarrow> volume \<Rightarrow> int result \<times> volume" where
  "put_object fault content_type key content v =
     (if blank content_type then (Inl ValueError, v)
      else case target_for key of
        Inl e \<Rightarrow> (Inl e, v)
      | Inr p \<Rightarrow>
          (case make_parents p v of
             Inl e \<Rightarrow> (Inl e, v)
           | Inr v' \<Rightarrow>
               if p \<in> set (vo_directories v') then (Inl ValueError, v')
               else (case map_of (vo_files v') p of
                   Some stored \<Rightarrow> (existing_size_or_conflict stored content, v')
                 | None \<Rightarrow>
                     (case fault of
                        Some e \<Rightarrow> (Inl e, v')
                      | None \<Rightarrow> (Inr (int (length content)), v'\<lparr>vo_files := dict_set p content (vo_files v')\<rparr>)))))"

definition open_object :: "string \<Rightarrow> volume \<Rightarrow> bytes result" where
  "open_object key v =
     try_bind (target_for key) (\<lambda>p.
       case map_of (vo_files v) p of
         Some c \<Rightarrow> Inr c
       | None \<Rightarrow> if p \<in> set (vo_directories v) then Inl ValueError else Inl OSError)"

definition object_exists :: "string \<Rightarrow> volume \<Rightarrow> bool result" where
  "object_exists key v =
     try_bind (target_for key) (\<lambda>p.
       if dict_has p (vo_files v) then Inr True
       else if p \<in> set (vo_directories v) then Inl ValueError
       else if below_file p v then Inl OSError else Inr False)"

definition delete_object :: "string \<Rightarrow> volume \<Rightarrow> volume result" where
  "delete_object key v =
     try_bind (target_for key) (\<lambda>p.
       if dict_has p (vo_files v) then Inr (v\<lparr>vo_files := dict_pop p (vo_files v)\<rparr>)
       else if p \<in> set (vo_directories v) then Inl ValueError
       else if below_file p v then Inl OSError else Inr v)"

definition object_size :: "string \<Rightarrow> volume \<Rightarrow> int result" where
  "object_size key v = try_bind (open_object key v) (\<lambda>c. Inr (int (length c)))"

section \<open>Write-once stores\<close>

text \<open>The contract of an archive: what was put can be read and is never replaced by a put.\<close>

locale write_once =
  fixes put :: "'k \<Rightarrow> 'c \<Rightarrow> 's \<Rightarrow> 'e + 'r" and after :: "'k \<Rightarrow> 'c \<Rightarrow> 's \<Rightarrow> 's"
    and get :: "'k \<Rightarrow> 's \<Rightarrow> 'c option"
  assumes put_get: "put k c s = Inr n \<Longrightarrow> get k (after k c s) = Some c"
    and put_keeps: "get j s = Some d \<Longrightarrow> get j (after k c s) = Some d"
begin

fun after_all :: "('k \<times> 'c) list \<Rightarrow> 's \<Rightarrow> 's" where
  "after_all [] s = s"
| "after_all ((k, c) # ops) s = after_all ops (after k c s)"

lemma puts_keep: "get j s = Some d \<Longrightarrow> get j (after_all ops s) = Some d"
proof (induction ops arbitrary: s)
  case (Cons e ops)
  obtain k c where "e = (k, c)" by (cases e)
  with Cons.IH [OF put_keeps [OF Cons.prems]] show ?case by simp
qed simp

lemma read_back: "put k c s = Inr n \<Longrightarrow> get k (after_all ops (after k c s)) = Some c"
  by (rule puts_keep) (rule put_get)

text \<open>Whatever is put later under the key, only the bytes first published are accepted.\<close>

lemma first_put_wins:
  assumes "put k c s = Inr n" and "put k d (after_all ops (after k c s)) = Inr m"
  shows "d = c"
  using put_get [OF assms(2)] put_keeps [OF read_back [OF assms(1)]] by fastforce

end

definition stored_at :: "string \<Rightarrow> volume \<Rightarrow> bytes option" where
  "stored_at key v = (case open_object key v of Inr c \<Rightarrow> Some c | Inl e \<Rightarrow> None)"

lemma stored_at_Some: "stored_at key v = Some c \<longleftrightarrow> (\<exists>p. target_for key = Inr p \<and> map_of (vo_files v) p = Some c)"
  by (cases "target_for key") (auto simp: stored_at_def open_object_def split: option.splits)

lemma make_parents_files: "make_parents p v = Inr v' \<Longrightarrow> vo_files v' = vo_files v"
  by (auto simp: make_parents_def split: if_splits)

lemma put_object_keeps:
  "map_of (vo_files v) p = Some c \<Longrightarrow> map_of (vo_files (snd (put_object fault ct key content v))) p = Some c"
  by (auto simp: put_object_def map_of_dict_set make_parents_files split: sum.splits option.splits)

lemma put_object_stored:
  "put_object fault ct key content v = (Inr n, v') \<Longrightarrow> stored_at key v' = Some content \<and> n = int (length content)"
  by (auto simp: stored_at_Some put_object_def existing_size_or_conflict_def map_of_dict_set split: sum.splits option.splits if_splits)

interpretation local_archive: write_once
  "\<lambda>key content v. fst (put_object fault ct key content v)"
  "\<lambda>key content v. snd (put_object fault ct key content v)" stored_at for fault ct
proof
  fix key content v n
  assume "fst (put_object fault ct key content v) = Inr n"
  then have "put_object fault ct key content v = (Inr n, snd (put_object fault ct key content v))" by (simp add: prod_eq_iff)
  then show "stored_at key (snd (put_object fault ct key content v)) = Some content" by (rule put_object_stored [THEN conjunct1])
next
  fix j v d key content
  assume "stored_at j v = Some d"
  then show "stored_at j (snd (put_object fault ct key content v)) = Some d"
    using put_object_keeps by (auto simp: stored_at_Some)
qed

section \<open>Properties\<close>

text \<open>What other writers do between two operations.\<close>

datatype archive_write = Write "error option" string string bytes

fun write_all :: "archive_write list \<Rightarrow> volume \<Rightarrow> volume" where
  "write_all [] v = v"
| "write_all (Write fault ct key content # ws) v = write_all ws (snd (put_object fault ct key content v))"

lemma write_all_keeps: "map_of (vo_files v) p = Some c \<Longrightarrow> map_of (vo_files (write_all ws v)) p = Some c"
  by (induction ws v rule: write_all.induct) (simp_all add: put_object_keeps)

text \<open>
  An object is published once: after a put succeeded, and whatever is put afterwards, under
  whatever keys and with whatever failures of the disk, the key reads those bytes and has their
  length, and a further put of the key succeeds only with the same bytes and leaves the files as
  they are.
\<close>

theorem archived_object_is_immutable:
  assumes "put_object fault ct key content v0 = (Inr n, v1)" and "v = write_all ws v1"
  shows "open_object key v = Inr content \<and> object_size key v = Inr (int (length content))
    \<and> (\<forall>fault' ct' other m v'. put_object fault' ct' key other v = (Inr m, v') \<longrightarrow>
         other = content \<and> vo_files v' = vo_files v)"
proof -
  from put_object_stored [OF assms(1)] obtain p where p: "target_for key = Inr p" "map_of (vo_files v1) p = Some content"
    by (auto simp: stored_at_Some)
  from write_all_keeps [OF p(2)] have v: "map_of (vo_files v) p = Some content" by (simp add: assms(2))
  have "other = content \<and> vo_files v' = vo_files v" if "put_object fault' ct' key other v = (Inr m, v')" for fault' ct' other m v'
    using that p(1) v by (auto simp: put_object_def existing_size_or_conflict_def make_parents_files split: if_splits sum.splits)
  with p(1) v show ?thesis by (auto simp: open_object_def object_size_def)
qed

theorem archived_object_is_immutable_witness:
  "open_object ''images//a.webp'' (write_all [Write None ''image/webp'' ''images/a.webp'' ''other'']
     (snd (put_object None ''image/webp'' ''images/./a.webp'' ''bytes'' \<lparr>vo_files = [], vo_directories = []\<rparr>))) = Inr ''bytes''"
proof -
  have "put_object None ''image/webp'' ''images/./a.webp'' ''bytes'' \<lparr>vo_files = [], vo_directories = []\<rparr>
      = (Inr 5, \<lparr>vo_files = [([''images'', ''a.webp''], ''bytes'')], vo_directories = [[''images'']]\<rparr>)" by code_simp
  from archived_object_is_immutable [OF this HOL.refl, of "[Write None ''image/webp'' ''images/a.webp'' ''other'']"] this
  have "open_object ''images/./a.webp'' (write_all [Write None ''image/webp'' ''images/a.webp'' ''other'']
     (snd (put_object None ''image/webp'' ''images/./a.webp'' ''bytes'' \<lparr>vo_files = [], vo_directories = []\<rparr>))) = Inr ''bytes''" by simp
  moreover have "target_for ''images//a.webp'' = target_for ''images/./a.webp''" by code_simp
  ultimately show ?thesis by (simp add: open_object_def)
qed

end
