(* ===== verification/Video_Sampling.thy ===== *)
theory Video_Sampling
  imports Media_Artifacts "HOL-Library.Word" "HOL-Library.Sublist"
begin

text \<open>
  Choosing the frames that stand for a video, \<^verbatim>\<open>tgcurator/application/media/videos.py\<close>: candidate
  times, the distance of perceptual hashes, the greedy selection of representative frames and the
  sampling service, whose frame extractor and image processor are parameters.

  What is shown: the candidate times are bounded in number and ascend from zero; the selection is
  chronological, bounded, far apart in time and in appearance, and leaves out no frame without a
  reason; sampling can only fail, on frames that decode, because the last candidate time can exceed
  the duration by a rounding error.
\<close>

unbundle bit_operations_syntax

section \<open>Profiles and evidence\<close>

record sampling_profile =
  sp_min_candidates :: int
  sp_max_candidates :: int
  sp_max_representatives :: int
  sp_min_gap :: py_float
  sp_phash_threshold :: int
  sp_keep_cover :: bool

definition check_sampling_profile :: "sampling_profile \<Rightarrow> sampling_profile result" where
  "check_sampling_profile p =
     ensure_value (0 < sp_min_candidates p \<and> 0 < sp_max_candidates p \<and> 0 < sp_max_representatives p
       \<and> sp_min_candidates p \<le> sp_max_candidates p \<and> finite_positive (sp_min_gap p)
       \<and> 0 \<le> sp_phash_threshold p \<and> sp_phash_threshold p \<le> 64) p"

definition default_sampling :: sampling_profile where
  "default_sampling = \<lparr>sp_min_candidates = 6, sp_max_candidates = 24, sp_max_representatives = 6,
     sp_min_gap = Fin 2, sp_phash_threshold = 8, sp_keep_cover = True\<rparr>"

record frame_evidence =
  fe_timestamp :: py_float
  fe_artifact :: image_artifact

definition check_frame_evidence :: "frame_evidence \<Rightarrow> frame_evidence result" where
  "check_frame_evidence e = ensure_value (finite_nonnegative (fe_timestamp e)) e"

record sampling_result =
  vs_duration :: py_float
  vs_cover :: "frame_evidence option"
  vs_representatives :: "frame_evidence list"

definition timestamps :: "sampling_result \<Rightarrow> py_float list" where
  "timestamps r = map fe_timestamp (vs_representatives r)"

definition cover_within :: "sampling_result \<Rightarrow> bool" where
  "cover_within r = (case vs_cover r of None \<Rightarrow> True
     | Some c \<Rightarrow> \<not> fl_less (vs_duration r) (fe_timestamp c) \<and> fe_timestamp c \<notin> set (timestamps r))"

definition check_sampling_result :: "sampling_result \<Rightarrow> sampling_result result" where
  "check_sampling_result r =
     ensure_value (finite_positive (vs_duration r) \<and> cover_within r \<and> distinct (timestamps r)
       \<and> sorted_wrt fl_le (timestamps r) \<and> \<not> list_ex (fl_less (vs_duration r)) (timestamps r)) r"

section \<open>Candidate times\<close>

definition validate_duration :: "py_float \<Rightarrow> unit result" where
  "validate_duration d =
     (if finite_positive d then Inr () else fail ''video duration_seconds must be a finite positive number'')"

definition frame_count :: "sampling_profile \<Rightarrow> int \<Rightarrow> int" where
  "frame_count p ideal = min (sp_max_candidates p) (max (sp_min_candidates p) ideal)"

definition candidate_time :: "py_float \<Rightarrow> int \<Rightarrow> nat \<Rightarrow> py_float" where
  "candidate_time d n i = fl_div (fl_mul d (int_float (int i))) (int_float (n - 1))"

definition candidate_timestamps :: "py_float \<Rightarrow> sampling_profile \<Rightarrow> py_float list result" where
  "candidate_timestamps d p =
     try_bind (validate_duration d) (\<lambda>_.
     try_bind (fl_ceil (fl_div d (sp_min_gap p))) (\<lambda>c.
       let n = frame_count p (c + 1)
       in Inr (if n = 1 then [Fin 0] else map (candidate_time d n) [0..<nat n])))"

section \<open>Distance of perceptual hashes\<close>

definition hash_word :: "string \<Rightarrow> 64 word option" where
  "hash_word s = (if hex_digest 16 s then map_option of_nat (hex_digits 0 s) else None)"

definition bit_count :: "64 word \<Rightarrow> nat" where
  "bit_count w = length (filter (bit w) [0..<64])"

definition perceptual_hash_distance :: "string \<Rightarrow> string \<Rightarrow> nat result" where
  "perceptual_hash_distance left right =
     (case (hash_word left, hash_word right) of
        (Some a, Some b) \<Rightarrow> Inr (bit_count (a XOR b))
      | _ \<Rightarrow> fail ''a 16-character lowercase hexadecimal pHash is required'')"

section \<open>Selection\<close>

text \<open>The two \<^verbatim>\<open>any\<close> of the loop; the second one stops at the first similar frame.\<close>

definition too_close :: "sampling_profile \<Rightarrow> frame_evidence \<Rightarrow> frame_evidence \<Rightarrow> bool" where
  "too_close p c e = fl_less (fl_abs (fl_sub (fe_timestamp c) (fe_timestamp e))) (sp_min_gap p)"

definition too_similar :: "sampling_profile \<Rightarrow> frame_evidence \<Rightarrow> frame_evidence \<Rightarrow> bool result" where
  "too_similar p c e =
     try_bind (perceptual_hash_distance (ia_perceptual_hash (fe_artifact c)) (ia_perceptual_hash (fe_artifact e)))
       (\<lambda>d. Inr (int d < sp_phash_threshold p))"

fun any_similar :: "sampling_profile \<Rightarrow> frame_evidence \<Rightarrow> frame_evidence list \<Rightarrow> bool result" where
  "any_similar p c [] = Inr False"
| "any_similar p c (e # es) =
     try_bind (too_similar p c e) (\<lambda>b. if b then Inr True else any_similar p c es)"

definition at_cover :: "frame_evidence option \<Rightarrow> frame_evidence \<Rightarrow> bool" where
  "at_cover cover c = (case cover of None \<Rightarrow> False | Some e \<Rightarrow> fl_eq (fe_timestamp c) (fe_timestamp e))"

definition existing :: "frame_evidence option \<Rightarrow> frame_evidence list \<Rightarrow> frame_evidence list" where
  "existing cover selected = (case cover of None \<Rightarrow> selected | Some e \<Rightarrow> e # selected)"

fun select_loop ::
  "sampling_profile \<Rightarrow> frame_evidence option \<Rightarrow> frame_evidence list \<Rightarrow> frame_evidence list \<Rightarrow> frame_evidence list result" where
  "select_loop p cover selected [] = Inr selected"
| "select_loop p cover selected (c # cs) =
     (if at_cover cover c then select_loop p cover selected cs
      else if list_ex (too_close p c) (existing cover selected) then select_loop p cover selected cs
      else try_bind (any_similar p c (existing cover selected)) (\<lambda>similar.
        if similar then select_loop p cover selected cs
        else if int (length (selected @ [c])) = sp_max_representatives p then Inr (selected @ [c])
        else select_loop p cover (selected @ [c]) cs))"

text \<open>The sort key; the constructor of evidence only admits finite times.\<close>

fun seconds :: "py_float \<Rightarrow> rat" where
  "seconds (Fin a) = a"
| "seconds _ = 0"

definition select_representative_frames ::
  "frame_evidence list \<Rightarrow> sampling_profile \<Rightarrow> frame_evidence option \<Rightarrow> frame_evidence list result" where
  "select_representative_frames candidates p cover =
     select_loop p cover [] (sort_key (\<lambda>e. seconds (fe_timestamp e)) candidates)"

section \<open>The sampling service\<close>

record frame_source =
  fs_probe_duration :: "bytes \<Rightarrow> py_float result"
  fs_extract_frame :: "bytes \<Rightarrow> py_float \<Rightarrow> bytes result"
  fs_normalize :: "bytes \<Rightarrow> image_profile \<Rightarrow> image_artifact result"

definition frame_at :: "frame_source \<Rightarrow> bytes \<Rightarrow> image_profile \<Rightarrow> py_float \<Rightarrow> frame_evidence result" where
  "frame_at src content ip t =
     try_bind (fs_extract_frame src content t) (\<lambda>frame.
       if frame = [] then Inl RuntimeError
       else try_bind (fs_normalize src frame ip) (\<lambda>a. check_frame_evidence \<lparr>fe_timestamp = t, fe_artifact = a\<rparr>))"

definition cover_of :: "sampling_profile \<Rightarrow> frame_evidence list \<Rightarrow> frame_evidence option" where
  "cover_of p evidence = (if sp_keep_cover p then Some (hd evidence) else None)"

definition sample ::
  "frame_source \<Rightarrow> bytes \<Rightarrow> sampling_profile \<Rightarrow> image_profile \<Rightarrow> py_float option \<Rightarrow> sampling_result result" where
  "sample src content p ip duration =
     (if content = [] then fail ''video content must not be empty''
      else try_bind (case duration of None \<Rightarrow> fs_probe_duration src content | Some d \<Rightarrow> Inr d) (\<lambda>d.
      try_bind (validate_duration d) (\<lambda>_.
      try_bind (candidate_timestamps d p) (\<lambda>times.
      try_bind (traverse (frame_at src content ip) times) (\<lambda>evidence.
      try_bind (select_representative_frames evidence p (cover_of p evidence)) (\<lambda>chosen.
        check_sampling_result
          \<lparr>vs_duration = d, vs_cover = cover_of p evidence, vs_representatives = chosen\<rparr>))))))"

section \<open>Candidate times ascend from zero\<close>

lemma fl_value_pow2: "- 1022 \<le> e \<Longrightarrow> fl_value (pow2 e) = pow2 e"
proof -
  assume e: "- 1022 \<le> e"
  have "fl_exponent (pow2 e) = e" by (rule fl_exponent_unique) (simp_all add: pow2_int power_int_add)
  with e show ?thesis using round_to_pow2 [of "e - 52" e] pow2_pos [of e] by (simp add: fl_value_def)
qed

lemma index_float:
  assumes "0 \<le> i" "i \<le> 2 ^ 53"
  shows "int_float i = Fin (fl_value (of_int i))" "1 \<le> i \<Longrightarrow> 1 \<le> fl_value (of_int i)"
proof -
  have "fl_value (of_int i) \<le> fl_value (pow2 53)"
  proof (rule fl_value_mono)
    have "of_int i \<le> (of_int (2 ^ 53) :: rat)" using assms(2) by (simp only: of_int_le_iff)
    then show "of_int i \<le> pow2 53" by (simp add: pow2_def)
  qed (use assms(1) in simp)
  also have "\<dots> = pow2 53" by (rule fl_value_pow2) simp
  also have "\<dots> < pow2 1024" by (simp add: pow2_def)
  finally have "fl_value (of_int i) < pow2 1024" .
  moreover have "0 \<le> (of_int i :: rat)" using assms(1) by simp
  ultimately show "int_float i = Fin (fl_value (of_int i))"
    unfolding int_float_def by (elim fl_round_cases) simp_all
  assume "1 \<le> i"
  then have "fl_value (pow2 0) \<le> fl_value (of_int i)" by (intro fl_value_mono) (simp_all add: pow2_def)
  with fl_value_pow2 [of 0] show "1 \<le> fl_value (of_int i)" by (simp add: pow2_def)
qed

lemma fl_le_trans: "fl_le a b \<Longrightarrow> fl_le b c \<Longrightarrow> fl_le a c"
  by (cases a; cases b; cases c) (auto simp: fl_le_def)

lemma fl_div_mono:
  assumes "fl_le (Fin 0) x" "fl_le x y" "0 < q"
  shows "fl_le (fl_div x (Fin q)) (fl_div y (Fin q))"
proof (cases x)
  case (Fin a)
  then have a: "0 \<le> a" using assms(1) by simp
  show ?thesis
  proof (cases y)
    case (Fin b)
    with \<open>x = Fin a\<close> a assms show ?thesis by (auto intro!: fl_round_mono divide_right_mono)
  next
    case PosInf
    have "0 \<le> a / q" using a assms(3) by simp
    then have "fl_le (fl_round (a / q)) PosInf" by (rule fl_round_cases) (simp_all add: fl_le_def)
    with \<open>x = Fin a\<close> PosInf assms(3) show ?thesis by (simp add: signed_inf_def)
  qed (use \<open>x = Fin a\<close> assms(2) in \<open>simp_all add: fl_le_def\<close>)
next
  case PosInf
  with assms(2) have "y = PosInf" by (cases y) (simp_all add: fl_le_def)
  with PosInf assms(3) show ?thesis by (simp add: fl_le_def signed_inf_def)
qed (use assms(1) in \<open>simp_all add: fl_le_def\<close>)

lemma candidate_time_mono:
  assumes "0 < a" "i \<le> j" "int j \<le> 2 ^ 53" "2 \<le> n" "n \<le> 2 ^ 53"
  shows "fl_le (candidate_time (Fin a) n i) (candidate_time (Fin a) n j)"
    "fl_le (Fin 0) (candidate_time (Fin a) n i)"
proof -
  let ?v = "\<lambda>k. fl_value (of_int (int k))"
  let ?q = "fl_value (of_int (n - 1))"
  have q: "int_float (n - 1) = Fin ?q" "0 < ?q" using index_float [of "n - 1"] assms(4,5) by simp_all
  have i: "int_float (int i) = Fin (?v i)" and j: "int_float (int j) = Fin (?v j)"
    using index_float(1) assms(2,3) by simp_all
  have v: "0 \<le> ?v i" by (rule fl_value_nonneg) simp
  have ij: "?v i \<le> ?v j" by (rule fl_value_mono) (use assms(2) in simp_all)
  have mul: "fl_le (Fin 0) (fl_round (a * ?v i))" "fl_le (fl_round (a * ?v i)) (fl_round (a * ?v j))"
    using fl_round_mono [of 0 "a * ?v i"] fl_round_mono [of "a * ?v i" "a * ?v j"] assms(1) v ij by simp_all
  from fl_div_mono [OF mul q(2)] show "fl_le (candidate_time (Fin a) n i) (candidate_time (Fin a) n j)"
    by (simp add: candidate_time_def q(1) i j)
  have "fl_le (fl_div (Fin 0) (Fin ?q)) (candidate_time (Fin a) n i)"
    using fl_div_mono [OF _ mul(1) q(2)] by (simp add: candidate_time_def q(1) i)
  then show "fl_le (Fin 0) (candidate_time (Fin a) n i)" by simp
qed

lemma candidate_timestampsE:
  assumes "candidate_timestamps d p = Inr ts"
  obtains a n where "d = Fin a" "0 < a" "\<exists>i. n = frame_count p i"
    "ts = (if n = 1 then [Fin 0] else map (candidate_time d n) [0..<nat n])"
proof -
  from assms have "validate_duration d = Inr ()" unfolding candidate_timestamps_def by (elim try_bindE) simp
  then have "finite_positive d" by (simp add: validate_duration_def split: if_splits)
  then obtain a where a: "d = Fin a" "0 < a" by (rule finite_positiveE)
  from assms obtain c where "ts = (if frame_count p (c + 1) = 1 then [Fin 0]
      else map (candidate_time d (frame_count p (c + 1))) [0..<nat (frame_count p (c + 1))])"
    unfolding candidate_timestamps_def Let_def by (elim try_bindE) auto
  with a that show thesis by blast
qed

lemma candidate_timestamps_ascend:
  assumes "check_sampling_profile p = Inr q" "sp_max_candidates p \<le> 2 ^ 53" "candidate_timestamps d p = Inr ts"
  shows "sp_min_candidates p \<le> int (length ts)" "int (length ts) \<le> sp_max_candidates p"
    "ts \<noteq> []" "hd ts = Fin 0" "sorted_wrt fl_le ts" "\<forall>t \<in> set ts. fl_le (Fin 0) t"
proof -
  from assms(1) have p: "0 < sp_min_candidates p" "sp_min_candidates p \<le> sp_max_candidates p"
    by (auto simp: check_sampling_profile_def result_simps)
  from assms(3) obtain a n where d: "d = Fin a" "0 < a" and "\<exists>i. n = frame_count p i"
    and ts: "ts = (if n = 1 then [Fin 0] else map (candidate_time d n) [0..<nat n])" by (rule candidate_timestampsE)
  with p have n: "sp_min_candidates p \<le> n" "n \<le> sp_max_candidates p" by (auto simp: frame_count_def)
  with p ts have "length ts = nat n" by simp
  with n p show "sp_min_candidates p \<le> int (length ts)" "int (length ts) \<le> sp_max_candidates p" "ts \<noteq> []" by auto
  have zero: "int_float 0 = Fin 0" by (simp add: int_float_def)
  have "sorted_wrt fl_le ts \<and> hd ts = Fin 0 \<and> (\<forall>t \<in> set ts. fl_le (Fin 0) t)"
  proof (cases "n = 1")
    case True
    then show ?thesis by (simp add: ts fl_le_def)
  next
    case False
    with n p have n2: "2 \<le> n" "n \<le> 2 ^ 53" using assms(2) by simp_all
    have "sorted_wrt (\<lambda>i j. fl_le (candidate_time d n i) (candidate_time d n j)) [0..<nat n]"
    proof (rule sorted_wrt_mono_rel [of _ "(<)"])
      fix i j assume "i \<in> set [0..<nat n]" "j \<in> set [0..<nat n]" "i < j"
      then show "fl_le (candidate_time d n i) (candidate_time d n j)"
        unfolding d(1) by (intro candidate_time_mono(1)) (use n2 d(2) in simp_all)
    qed simp
    moreover have "fl_le (Fin 0) (candidate_time d n i)" if "i < nat n" for i
      unfolding d(1) by (rule candidate_time_mono(2) [of a i i n]) (use n2 d(2) that in simp_all)
    moreover have "candidate_time d n 0 = Fin 0"
      using index_float [of "n - 1"] n2 by (simp add: candidate_time_def zero d(1))
    moreover have "hd ts = candidate_time d n 0" using False n2 by (simp add: ts hd_map hd_upt)
    ultimately show ?thesis using False by (simp add: ts sorted_wrt_map)
  qed
  then show "sorted_wrt fl_le ts" "hd ts = Fin 0" "\<forall>t \<in> set ts. fl_le (Fin 0) t" by simp_all
qed

section \<open>The selection keeps what is far apart\<close>

definition apart :: "sampling_profile \<Rightarrow> frame_evidence \<Rightarrow> frame_evidence \<Rightarrow> bool" where
  "apart p e c \<longleftrightarrow> \<not> too_close p c e \<and> too_similar p c e = Inr False"

definition redundant :: "sampling_profile \<Rightarrow> frame_evidence list \<Rightarrow> frame_evidence \<Rightarrow> bool" where
  "redundant p es c \<longleftrightarrow> (\<exists>e \<in> set es. too_close p c e \<or> too_similar p c e = Inr True)"

lemma any_similar_False: "any_similar p c es = Inr False \<Longrightarrow> e \<in> set es \<Longrightarrow> too_similar p c e = Inr False"
  by (induction es) (auto simp: result_simps split: if_splits)

lemma any_similar_True: "any_similar p c es = Inr True \<Longrightarrow> \<exists>e \<in> set es. too_similar p c e = Inr True"
  by (induction es) (auto simp: result_simps split: if_splits)

lemma existing_snoc: "existing cover (es @ [c]) = existing cover es @ [c]"
  by (simp add: existing_def split: option.split)

lemma redundant_more: "redundant p es c \<Longrightarrow> set es \<subseteq> set es' \<Longrightarrow> redundant p es' c"
  by (auto simp: redundant_def)

lemma existing_more: "set (existing cover es) \<subseteq> set (existing cover (es @ fs))"
  by (auto simp: existing_def split: option.split)

definition selects ::
  "sampling_profile \<Rightarrow> frame_evidence option \<Rightarrow> frame_evidence list \<Rightarrow> frame_evidence list \<Rightarrow> frame_evidence list \<Rightarrow> frame_evidence list \<Rightarrow> bool"
where
  "selects p cover selected cs new out \<longleftrightarrow>
     out = selected @ new \<and> subseq new cs \<and> int (length out) \<le> sp_max_representatives p
     \<and> sorted_wrt (apart p) (existing cover out) \<and> (\<forall>c \<in> set new. \<not> at_cover cover c)
     \<and> (int (length out) < sp_max_representatives p \<longrightarrow>
          (\<forall>c \<in> set cs. c \<in> set new \<or> at_cover cover c \<or> redundant p (existing cover out) c))"

lemma selects_skip:
  assumes "selects p cover selected cs new out" and "at_cover cover c \<or> redundant p (existing cover selected) c"
  shows "selects p cover selected (c # cs) new out"
  using assms redundant_more [OF _ existing_more, of p cover selected c new]
  by (auto simp: selects_def)

lemma selects_take:
  assumes "selects p cover (selected @ [c]) cs new out" and "\<not> at_cover cover c"
  shows "selects p cover selected (c # cs) (c # new) out"
  using assms by (auto simp: selects_def)

lemma select_loop_selects:
  assumes "select_loop p cover selected cs = Inr out" and "int (length selected) < sp_max_representatives p"
    and "sorted_wrt (apart p) (existing cover selected)"
  shows "\<exists>new. selects p cover selected cs new out"
  using assms
proof (induction p cover selected cs rule: select_loop.induct)
  case (1 p cover selected)
  then have "selects p cover selected [] [] out" by (simp add: selects_def)
  then show ?case ..
next
  case (2 p cover selected c cs)
  show ?case
  proof (cases "at_cover cover c \<or> list_ex (too_close p c) (existing cover selected)")
    case True
    then have "at_cover cover c \<or> redundant p (existing cover selected) c" by (auto simp: redundant_def list_ex_iff)
    moreover have "\<exists>new. selects p cover selected cs new out" using True 2 by (auto split: if_splits)
    ultimately show ?thesis using selects_skip by blast
  next
    case False
    with "2.prems"(1) obtain similar where s: "any_similar p c (existing cover selected) = Inr similar"
        and r: "(if similar then select_loop p cover selected cs
          else if int (length (selected @ [c])) = sp_max_representatives p then Inr (selected @ [c])
          else select_loop p cover (selected @ [c]) cs) = Inr out" by (auto elim!: try_bindE)
    show ?thesis
    proof (cases similar)
      case True
      with s have "redundant p (existing cover selected) c" by (auto simp: redundant_def dest: any_similar_True)
      moreover have "\<exists>new. selects p cover selected cs new out" using "2.IH"(3) [OF _ _ s True] False True r "2.prems" by simp
      ultimately show ?thesis using selects_skip by blast
    next
      case far: False
      have next_sorted: "sorted_wrt (apart p) (existing cover (selected @ [c]))"
        unfolding existing_snoc sorted_wrt_append
      proof (intro conjI ballI)
        fix e d assume "e \<in> set (existing cover selected)" "d \<in> set [c]"
        with False s far any_similar_False [of p c "existing cover selected" e]
        show "apart p e d" by (auto simp: apart_def list_ex_iff)
      qed (use "2.prems"(3) in simp_all)
      show ?thesis
      proof (cases "int (length (selected @ [c])) = sp_max_representatives p")
        case True
        with far r have "selects p cover (selected @ [c]) cs [] out" using next_sorted by (auto simp: selects_def)
        with False selects_take show ?thesis by blast
      next
        case more: False
        with "2.prems"(2) have "int (length (selected @ [c])) < sp_max_representatives p" by simp
        moreover have "select_loop p cover (selected @ [c]) cs = Inr out" using r far more by simp
        ultimately have "\<exists>new. selects p cover (selected @ [c]) cs new out"
          using "2.IH"(4) [OF _ _ s far more] False next_sorted by simp
        with False selects_take show ?thesis by blast
      qed
    qed
  qed
qed

lemma hex_digits_total: "set s \<subseteq> hex_chars \<Longrightarrow> \<exists>n. hex_digits m s = Some n"
proof (induction s arbitrary: m)
  case (Cons c s)
  then obtain d where "hex_digit_value c = Some d" by (auto simp: hex_chars_def hex_digit_value_char)
  with Cons show ?case by simp
qed simp

lemma hash_word_total: "hex_digest 16 s \<Longrightarrow> \<exists>w. hash_word s = Some w"
  using hex_digits_total [of s 0] by (auto simp: hash_word_def hex_digest_def hex_chars_code)

lemma too_similar_total:
  assumes "artifact_ok (fe_artifact c)" "artifact_ok (fe_artifact e)"
  shows "\<exists>b. too_similar p c e = Inr b"
proof -
  obtain v w where "hash_word (ia_perceptual_hash (fe_artifact c)) = Some v"
      "hash_word (ia_perceptual_hash (fe_artifact e)) = Some w"
    using assms hash_word_total unfolding artifact_ok_def by blast
  then show ?thesis by (simp add: too_similar_def perceptual_hash_distance_def)
qed

lemma any_similar_total:
  "artifact_ok (fe_artifact c) \<Longrightarrow> \<forall>e \<in> set es. artifact_ok (fe_artifact e) \<Longrightarrow> \<exists>b. any_similar p c es = Inr b"
proof (induction es)
  case (Cons e es)
  then obtain b where "too_similar p c e = Inr b" using too_similar_total [of c e p] by auto
  moreover from Cons obtain b' where "any_similar p c es = Inr b'" by auto
  ultimately have "any_similar p c (e # es) = Inr (b \<or> b')" by simp
  then show ?case ..
qed (auto intro: exI [of _ False])

lemma select_loop_total:
  "\<forall>e \<in> set (existing cover selected) \<union> set cs. artifact_ok (fe_artifact e) \<Longrightarrow>
     \<exists>out. select_loop p cover selected cs = Inr out"
proof (induction cs arbitrary: selected)
  case (Cons c cs)
  obtain b where b: "any_similar p c (existing cover selected) = Inr b"
    using any_similar_total [of c "existing cover selected" p] Cons.prems by auto
  have skip: "\<exists>out. select_loop p cover selected cs = Inr out" by (rule Cons.IH) (use Cons.prems in auto)
  have "\<exists>out. select_loop p cover (selected @ [c]) cs = Inr out"
    by (rule Cons.IH) (use Cons.prems in \<open>auto simp: existing_snoc\<close>)
  with skip b show ?case by (cases b) simp_all
qed simp

text \<open>Two frames at one time are too close, so the chosen times are strictly ascending.\<close>

definition finite_evidence :: "frame_evidence list \<Rightarrow> bool" where
  "finite_evidence es \<longleftrightarrow> (\<forall>e \<in> set es. finite_nonnegative (fe_timestamp e))"

lemma fl_sub_same: "fl_sub (Fin a) (Fin a) = Fin 0"
  by (simp add: fl_sub_def)

lemma finite_nonnegativeE: "finite_nonnegative x \<Longrightarrow> (\<And>a. x = Fin a \<Longrightarrow> 0 \<le> a \<Longrightarrow> thesis) \<Longrightarrow> thesis"
  by (cases x) auto

lemma apart_times:
  assumes "apart p e c" "finite_positive (sp_min_gap p)" "finite_nonnegative (fe_timestamp c)"
  shows "fe_timestamp e \<noteq> fe_timestamp c"
proof
  assume eq: "fe_timestamp e = fe_timestamp c"
  from assms(3) obtain a where a: "fe_timestamp c = Fin a" by (rule finite_nonnegativeE)
  from assms(2) obtain g where g: "sp_min_gap p = Fin g" "0 < g" by (rule finite_positiveE)
  from assms(1) show False by (simp add: apart_def too_close_def eq a g fl_sub_same)
qed

lemma set_subseq: "subseq xs ys \<Longrightarrow> set xs \<subseteq> set ys"
  by (induction rule: list_emb.induct) auto

lemma sorted_wrt_subseq: "subseq xs ys \<Longrightarrow> sorted_wrt R ys \<Longrightarrow> sorted_wrt R xs"
proof (induction rule: list_emb.induct)
  case (list_emb_Cons2 x y xs ys)
  then show ?case using set_subseq by fastforce
qed simp_all

lemma chosen_chronological:
  assumes "subseq chosen (sort_key (\<lambda>e. seconds (fe_timestamp e)) es)" "finite_evidence es"
    and "sorted_wrt (apart p) chosen" "finite_positive (sp_min_gap p)"
  shows "sorted_wrt (\<lambda>e c. fl_less (fe_timestamp e) (fe_timestamp c)) chosen"
proof -
  let ?key = "\<lambda>e. seconds (fe_timestamp e)"
  have "sorted_wrt (\<lambda>e c. ?key e \<le> ?key c) (sort_key ?key es)" using sorted_sort_key [of ?key es] by (simp add: sorted_map)
  with assms(1) have "sorted_wrt (\<lambda>e c. ?key e \<le> ?key c) chosen" by (rule sorted_wrt_subseq)
  with assms(3) have "sorted_wrt (\<lambda>e c. ?key e \<le> ?key c \<and> apart p e c) chosen"
    by (induction chosen) auto
  then show ?thesis
  proof (rule sorted_wrt_mono_rel [rotated])
    fix e c assume "e \<in> set chosen" "c \<in> set chosen" and r: "?key e \<le> ?key c \<and> apart p e c"
    then have "e \<in> set es" "c \<in> set es" using set_subseq [OF assms(1)] by auto
    with assms(2) have "finite_nonnegative (fe_timestamp e)" "finite_nonnegative (fe_timestamp c)"
      by (simp_all add: finite_evidence_def)
    with r apart_times [OF _ assms(4), of e c] show "fl_less (fe_timestamp e) (fe_timestamp c)"
      by (auto elim!: finite_nonnegativeE)
  qed
qed

lemma at_cover_time: "cover = Some e \<Longrightarrow> finite_nonnegative (fe_timestamp e) \<Longrightarrow> fe_timestamp c = fe_timestamp e \<Longrightarrow> at_cover cover c"
  by (auto simp: at_cover_def elim!: finite_nonnegativeE)

lemma sorted_existing: "sorted_wrt R (existing cover es) \<Longrightarrow> sorted_wrt R es"
  by (simp add: existing_def split: option.splits)

lemma select_selects:
  assumes "select_representative_frames cs p cover = Inr chosen" "0 < sp_max_representatives p"
  shows "selects p cover [] (sort_key (\<lambda>e. seconds (fe_timestamp e)) cs) chosen chosen"
proof -
  have "sorted_wrt (apart p) (existing cover [])" by (simp add: existing_def split: option.split)
  with select_loop_selects [of p cover "[]"] assms obtain new
    where "selects p cover [] (sort_key (\<lambda>e. seconds (fe_timestamp e)) cs) new chosen"
    unfolding select_representative_frames_def by force
  moreover from this have "new = chosen" by (simp add: selects_def)
  ultimately show ?thesis by simp
qed

section \<open>Properties\<close>

text \<open>
  C37: The candidate times of a video are never fewer than the minimum nor more than the maximum of
  the profile; they start at zero and never descend, rounding included.
\<close>

theorem candidate_times_bounded:
  assumes "check_sampling_profile p = Inr p'" "sp_max_candidates p \<le> 2 ^ 53" "candidate_timestamps d p = Inr ts"
  shows "sp_min_candidates p \<le> int (length ts) \<and> int (length ts) \<le> sp_max_candidates p
    \<and> hd ts = Fin 0 \<and> sorted_wrt fl_le ts"
  using candidate_timestamps_ascend [OF assms] by simp

theorem candidate_times_bounded_witness:
  "\<exists>ts. candidate_timestamps (Fin 3) default_sampling = Inr ts \<and> length ts = 6 \<and> hd ts = Fin 0 \<and> sorted_wrt fl_le ts"
proof -
  have p: "check_sampling_profile default_sampling = Inr default_sampling"
    by (simp add: check_sampling_profile_def default_sampling_def ensure_value_def)
  have "fl_round (3 / 2) = Fin (3 / 2)" using fl_round_near [of "3 / 2" "- 52" 6755399441055744] by (simp add: pow2_def)
  then obtain ts where ts: "candidate_timestamps (Fin 3) default_sampling = Inr ts" "length ts = 6"
    by (simp add: candidate_timestamps_def validate_duration_def default_sampling_def frame_count_def)
  from candidate_times_bounded [OF p _ ts(1)] ts show ?thesis by (simp add: default_sampling_def)
qed

text \<open>
  The representative frames are candidates in strictly ascending time, at most as many as the
  profile allows, each at least the minimal gap after and the minimal hash distance from the cover
  and every earlier one; and while there is room, every candidate that is left out is the cover's
  own moment or too close or too similar to a frame that is kept.
\<close>

theorem representatives_far_apart:
  assumes "check_sampling_profile p = Inr p'" "select_representative_frames cs p cover = Inr chosen"
    and "\<forall>e \<in> set cs. finite_nonnegative (fe_timestamp e)"
  shows "set chosen \<subseteq> set cs \<and> sorted_wrt (\<lambda>e c. fl_less (fe_timestamp e) (fe_timestamp c)) chosen
    \<and> int (length chosen) \<le> sp_max_representatives p
    \<and> sorted_wrt (\<lambda>e c. \<not> too_close p c e \<and> too_similar p c e = Inr False) (existing cover chosen)
    \<and> (int (length chosen) < sp_max_representatives p \<longrightarrow> (\<forall>c \<in> set cs. c \<in> set chosen \<or> at_cover cover c
        \<or> (\<exists>e \<in> set (existing cover chosen). too_close p c e \<or> too_similar p c e = Inr True)))"
proof -
  from assms(1) have p: "0 < sp_max_representatives p" "finite_positive (sp_min_gap p)"
    by (auto simp: check_sampling_profile_def result_simps)
  note s = select_selects [OF assms(2) p(1), unfolded selects_def]
  from s have sub: "subseq chosen (sort_key (\<lambda>e. seconds (fe_timestamp e)) cs)" by simp
  from s have r: "sorted_wrt (apart p) (existing cover chosen)" by simp
  from chosen_chronological [OF sub _ sorted_existing [OF r] p(2)] assms(3)
  have "sorted_wrt (\<lambda>e c. fl_less (fe_timestamp e) (fe_timestamp c)) chosen" by (simp add: finite_evidence_def)
  moreover have "sorted_wrt (\<lambda>e c. \<not> too_close p c e \<and> too_similar p c e = Inr False) (existing cover chosen)"
    using r unfolding apart_def .
  ultimately show ?thesis using s set_subseq [OF sub] by (simp add: redundant_def)
qed

text \<open>Frames for the witnesses: the content of a frame is its scene, the hash of the image too.\<close>

definition scene :: "py_float \<Rightarrow> string" where
  "scene t = (if fl_less t (Fin 3) then ''0000'' else if fl_less t (Fin 6) then ''00ff'' else if fl_less t (Fin 9) then ''ff00'' else ''ffff'')"

definition scene_image :: "string \<Rightarrow> image_artifact" where
  "scene_image c = \<lparr>ia_content = c, ia_content_type = ''image/webp'', ia_width = 1, ia_height = 1,
     ia_source_sha256 = replicate 64 CHR ''0'', ia_archive_sha256 = replicate 64 CHR ''0'',
     ia_perceptual_hash = c @ c @ c @ c\<rparr>"

definition scene_source :: frame_source where
  "scene_source = \<lparr>fs_probe_duration = (\<lambda>_. Inl RuntimeError), fs_extract_frame = (\<lambda>_ t. Inr (scene t)),
     fs_normalize = (\<lambda>c _. check_artifact (scene_image c))\<rparr>"

definition scene_frame :: "rat \<Rightarrow> frame_evidence" where
  "scene_frame t = \<lparr>fe_timestamp = Fin t, fe_artifact = scene_image (scene (Fin t))\<rparr>"

theorem representatives_far_apart_witness:
  "\<exists>chosen. select_representative_frames [scene_frame 4, scene_frame 0, scene_frame 1] default_sampling None = Inr chosen
     \<and> sorted_wrt (\<lambda>e c. fl_less (fe_timestamp e) (fe_timestamp c)) chosen"
proof -
  have p: "check_sampling_profile default_sampling = Inr default_sampling"
    by (simp add: check_sampling_profile_def default_sampling_def ensure_value_def)
  have ok: "artifact_ok (fe_artifact (scene_frame 0))" "artifact_ok (fe_artifact (scene_frame 1))" "artifact_ok (fe_artifact (scene_frame 4))"
    by code_simp+
  obtain chosen where c: "select_representative_frames [scene_frame 4, scene_frame 0, scene_frame 1] default_sampling None = Inr chosen"
    unfolding select_representative_frames_def using select_loop_total [of None "[]"] ok by (fastforce simp: existing_def)
  from representatives_far_apart [OF p c] c show ?thesis by (simp add: scene_frame_def)
qed

text \<open>
  C36: Sampling a video whose candidate frames all decode has one way to fail: the constructor of
  the result refuses a chosen frame whose time exceeds the duration.  The last candidate time is
  \<^verbatim>\<open>duration * (n - 1) / (n - 1)\<close> in float arithmetic, which can come out above the duration; the
  witness is a video of 10.8 seconds under the default profile.
\<close>

theorem sampling_fails_only_past_the_end:
  assumes "check_sampling_profile p = Inr p'" "sp_max_candidates p \<le> 2 ^ 53" "content \<noteq> []"
    and moments: "candidate_timestamps d p = Inr moments"
    and evidence: "traverse (frame_at src content ip) moments = Inr es"
    and ok: "\<forall>e \<in> set es. artifact_ok (fe_artifact e)"
  shows "\<exists>chosen. select_representative_frames es p (cover_of p es) = Inr chosen
    \<and> sample src content p ip (Some d) =
       (if list_ex (\<lambda>e. fl_less d (fe_timestamp e)) chosen then Inl ValueError
        else Inr \<lparr>vs_duration = d, vs_cover = cover_of p es, vs_representatives = chosen\<rparr>)"
proof -
  from assms(1) have p: "0 < sp_max_representatives p" "finite_positive (sp_min_gap p)"
    by (auto simp: check_sampling_profile_def result_simps)
  note asc = candidate_timestamps_ascend [OF assms(1,2) moments]
  have frame: "fe_timestamp e = t \<and> finite_nonnegative (fe_timestamp e)" if "frame_at src content ip t = Inr e" for t e
    using that by (auto simp: frame_at_def check_frame_evidence_def result_simps split: if_splits)
  have all: "list_all2 (\<lambda>t e. frame_at src content ip t = Inr e) moments es" using evidence by (simp add: traverse_Inr)
  then have "list_all2 (\<lambda>t e. fe_timestamp e = t) moments es" by (rule list_all2_mono) (simp add: frame)
  then have hd: "es \<noteq> []" "fe_timestamp (hd es) = Fin 0" using asc(3,4) by (cases moments; auto simp: list_all2_Cons1)+
  have fin: "finite_evidence es"
    using list_all2_member2 [OF all] frame unfolding finite_evidence_def by blast
  have "\<exists>out. select_loop p (cover_of p es) [] (sort_key (\<lambda>e. seconds (fe_timestamp e)) es) = Inr out"
    by (rule select_loop_total) (use ok hd(1) in \<open>auto simp: existing_def cover_of_def\<close>)
  then obtain chosen where c: "select_representative_frames es p (cover_of p es) = Inr chosen"
    unfolding select_representative_frames_def by blast
  note s = select_selects [OF c p(1), unfolded selects_def]
  have sub: "subseq chosen (sort_key (\<lambda>e. seconds (fe_timestamp e)) es)" using s by simp
  have chron: "sorted_wrt (\<lambda>e c. fl_less (fe_timestamp e) (fe_timestamp c)) chosen"
    by (rule chosen_chronological [OF sub fin _ p(2)]) (use s sorted_existing in blast)
  let ?r = "\<lparr>vs_duration = d, vs_cover = cover_of p es, vs_representatives = chosen\<rparr>"
  from moments obtain a where a: "d = Fin a" "0 < a" by (rule candidate_timestampsE)
  have less: "fl_less x y \<Longrightarrow> fl_le x y \<and> x \<noteq> y" for x y by (cases x; cases y) (simp_all add: fl_le_def)
  have "sorted_wrt fl_le (timestamps ?r)" "sorted_wrt (\<noteq>) (timestamps ?r)"
    unfolding timestamps_def sorted_wrt_map sampling_result.simps
    by (rule sorted_wrt_mono_rel [OF _ chron]; use less in blast)+
  moreover have "cover_within ?r"
  proof -
    have "fe_timestamp (hd es) \<notin> set (timestamps ?r)" if "sp_keep_cover p"
    proof
      assume "fe_timestamp (hd es) \<in> set (timestamps ?r)"
      then obtain e where "e \<in> set chosen" "fe_timestamp e = fe_timestamp (hd es)" by (auto simp: timestamps_def)
      with that hd(2) s show False by (auto simp: cover_of_def at_cover_def)
    qed
    with hd(2) a show ?thesis by (simp add: cover_within_def cover_of_def)
  qed
  moreover have "sorted_wrt (\<noteq>) xs \<Longrightarrow> distinct xs" for xs :: "py_float list" by (induction xs) auto
  ultimately have "check_sampling_result ?r = ensure_value (\<not> list_ex (\<lambda>e. fl_less d (fe_timestamp e)) chosen) ?r"
    using a by (simp add: check_sampling_result_def timestamps_def list_ex_iff)
  then have "sample src content p ip (Some d) = ensure_value (\<not> list_ex (\<lambda>e. fl_less d (fe_timestamp e)) chosen) ?r"
    using assms(3) moments evidence c a by (simp add: sample_def validate_duration_def)
  with c show ?thesis by (simp add: ensure_value_def)
qed

definition clip_duration :: rat where
  "clip_duration = 3039929748475085 / 281474976710656"

text \<open>The candidate times of the clip, each the correctly rounded quotient of a rounded product.\<close>

definition clip_times :: "rat list" where
  "clip_times = [0, 8106479329266893 / 4503599627370496, 8106479329266893 / 2251799813685248,
     6079859496950171 / 1125899906842624, 8106479329266893 / 1125899906842624, 9,
     6079859496950171 / 562949953421312]"

lemma clip_is_10_8: "fl_round (54 / 5) = Fin clip_duration"
  by (simp add: fl_round_examples clip_duration_def)

lemma small_int_float: "int_float 1 = Fin 1" "int_float 2 = Fin 2" "int_float 3 = Fin 3" "int_float 4 = Fin 4"
    "int_float 5 = Fin 5" "int_float 6 = Fin 6" "int_float 0 = Fin 0"
  using fl_round_near [of 1 "- 52" "2 ^ 52"] fl_round_near [of 2 "- 51" "2 ^ 52"] fl_round_near [of 3 "- 51" "3 * 2 ^ 51"]
    fl_round_near [of 4 "- 50" "2 ^ 52"] fl_round_near [of 5 "- 50" "5 * 2 ^ 50"] fl_round_near [of 6 "- 50" "6 * 2 ^ 50"]
  by (simp_all add: int_float_def pow2_def)

lemma clip_candidates: "candidate_timestamps (Fin clip_duration) default_sampling = Inr (map Fin clip_times)"
proof -
  have q: "fl_round (3039929748475085 / 562949953421312) = Fin (3039929748475085 / 562949953421312)"
    using fl_round_near [of "3039929748475085 / 562949953421312" "- 50" 6079859496950170] by (simp add: pow2_def)
  have up: "[0..<7] = [0, 1, 2, 3, 4, 5, 6 :: nat]" by code_simp
  have c: "\<lceil>3039929748475085 / 562949953421312 :: rat\<rceil> = 6" by (simp add: ceiling_eq_iff)
  have mul: "fl_round (3039929748475085 / 281474976710656) = Fin (3039929748475085 / 281474976710656)"
    "fl_round (3039929748475085 / 140737488355328) = Fin (3039929748475085 / 140737488355328)"
    "fl_round (9119789245425255 / 281474976710656) = Fin (1139973655678157 / 35184372088832)"
    "fl_round (3039929748475085 / 70368744177664) = Fin (3039929748475085 / 70368744177664)"
    "fl_round (15199648742375425 / 281474976710656) = Fin 54"
    "fl_round (9119789245425255 / 140737488355328) = Fin (1139973655678157 / 17592186044416)"
    using fl_round_near [of "3039929748475085 / 281474976710656" "- 49" 6079859496950170]
      fl_round_near [of "3039929748475085 / 140737488355328" "- 48" 6079859496950170]
      fl_round_near [of "9119789245425255 / 281474976710656" "- 47" 4559894622712628]
      fl_round_near [of "3039929748475085 / 70368744177664" "- 47" 6079859496950170]
      fl_round_near [of "15199648742375425 / 281474976710656" "- 47" 7599824371187712]
      fl_round_near [of "9119789245425255 / 140737488355328" "- 46" 4559894622712628]
    by (simp_all add: pow2_def)
  have div: "fl_round (3039929748475085 / 1688849860263936) = Fin (8106479329266893 / 4503599627370496)"
    "fl_round (3039929748475085 / 844424930131968) = Fin (8106479329266893 / 2251799813685248)"
    "fl_round (1139973655678157 / 211106232532992) = Fin (6079859496950171 / 1125899906842624)"
    "fl_round (3039929748475085 / 422212465065984) = Fin (8106479329266893 / 1125899906842624)"
    "fl_round 9 = Fin 9"
    "fl_round (1139973655678157 / 105553116266496) = Fin (6079859496950171 / 562949953421312)"
    using fl_round_near [of "3039929748475085 / 1688849860263936" "- 52" 8106479329266893]
      fl_round_near [of "3039929748475085 / 844424930131968" "- 51" 8106479329266893]
      fl_round_near [of "1139973655678157 / 211106232532992" "- 50" 6079859496950171]
      fl_round_near [of "3039929748475085 / 422212465065984" "- 50" 8106479329266893]
      fl_round_near [of 9 "- 49" "9 * 2 ^ 49"]
      fl_round_near [of "1139973655678157 / 105553116266496" "- 49" 6079859496950171]
    by (simp_all add: pow2_def)
  have "candidate_timestamps (Fin clip_duration) default_sampling = Inr (map (candidate_time (Fin clip_duration) 7) [0..<7])"
    by (simp add: candidate_timestamps_def validate_duration_def clip_duration_def default_sampling_def frame_count_def q c)
  also have "\<dots> = Inr (map Fin clip_times)"
    by (simp add: up candidate_time_def small_int_float clip_duration_def clip_times_def mul div)
  finally show ?thesis .
qed

lemma scene_far: "2 \<le> b - a \<Longrightarrow> \<not> too_close default_sampling (scene_frame b) (scene_frame a)"
  using fl_round_mono [of 2 "b - a"] fl_round_near [of 2 "- 51" "2 ^ 52"]
  by (cases "fl_round (b - a)") (auto simp: too_close_def default_sampling_def scene_frame_def fl_sub_def fl_le_def pow2_def)

lemma scene_close: "0 \<le> b - a \<Longrightarrow> b - a \<le> 15 / 8 \<Longrightarrow> too_close default_sampling (scene_frame b) (scene_frame a)"
  using fl_round_mono [of 0 "b - a"] fl_round_mono [of "b - a" "15 / 8"] fl_round_near [of "15 / 8" "- 52" "15 * 2 ^ 49"]
  by (cases "fl_round (b - a)") (auto simp: too_close_def default_sampling_def scene_frame_def fl_sub_def fl_le_def pow2_def)

lemma scene_words:
  "hash_word ''0000000000000000'' = Some 0" "hash_word ''00ff00ff00ff00ff'' = Some 0x00ff00ff00ff00ff"
  "hash_word ''ff00ff00ff00ff00'' = Some 0xff00ff00ff00ff00" "hash_word ''ffffffffffffffff'' = Some 0xffffffffffffffff"
  by (simp_all add: hash_word_def hex_digest_def hex_digit_value_def)

lemma scene_counts:
  "bit_count 0x00ff00ff00ff00ff = 32" "bit_count 0xff00ff00ff00ff00 = 32" "bit_count 0xffffffffffffffff = 64"
  by (simp_all add: bit_count_def upt_rec)

lemma scene_distances:
  "perceptual_hash_distance ''00ff00ff00ff00ff'' ''0000000000000000'' = Inr 32"
  "perceptual_hash_distance ''ff00ff00ff00ff00'' ''0000000000000000'' = Inr 32"
  "perceptual_hash_distance ''ff00ff00ff00ff00'' ''00ff00ff00ff00ff'' = Inr 64"
  "perceptual_hash_distance ''ffffffffffffffff'' ''0000000000000000'' = Inr 64"
  "perceptual_hash_distance ''ffffffffffffffff'' ''00ff00ff00ff00ff'' = Inr 32"
  "perceptual_hash_distance ''ffffffffffffffff'' ''ff00ff00ff00ff00'' = Inr 32"
  by (simp_all add: perceptual_hash_distance_def scene_words scene_counts)

lemma clip_selection:
  "select_representative_frames (map scene_frame clip_times) default_sampling (Some (scene_frame 0)) =
     Inr [scene_frame (8106479329266893 / 2251799813685248), scene_frame (8106479329266893 / 1125899906842624),
       scene_frame (6079859496950171 / 562949953421312)]"
proof -
  have at: "at_cover (Some (scene_frame 0)) (scene_frame t) = (t = 0)" for t by (simp add: at_cover_def scene_frame_def)
  have far: "too_similar default_sampling (scene_frame b) (scene_frame a) =
      try_bind (perceptual_hash_distance (ia_perceptual_hash (scene_image (scene (Fin b)))) (ia_perceptual_hash (scene_image (scene (Fin a)))))
        (\<lambda>d. Inr (d < 8))" for a b
    by (simp add: too_similar_def scene_frame_def default_sampling_def)
  have "sort_key (\<lambda>e. seconds (fe_timestamp e)) (map scene_frame clip_times) = map scene_frame clip_times"
    by (simp add: clip_times_def scene_frame_def)
  moreover have "sp_max_representatives default_sampling = 6" by (simp add: default_sampling_def)
  ultimately show ?thesis
    by (simp add: select_representative_frames_def clip_times_def at existing_def scene_far scene_close far
        scene_def scene_image_def scene_distances)
qed

theorem sampling_fails_only_past_the_end_witness:
  "sample scene_source ''video'' default_sampling \<lparr>ip_max_side_pixels = 1024, ip_quality = 80\<rparr> (Some (Fin clip_duration)) = Inl ValueError"
proof -
  let ?ip = "\<lparr>ip_max_side_pixels = 1024, ip_quality = 80\<rparr> :: image_profile"
  let ?es = "map scene_frame clip_times"
  have p: "check_sampling_profile default_sampling = Inr default_sampling"
    by (simp add: check_sampling_profile_def default_sampling_def ensure_value_def)
  have images: "artifact_ok (scene_image (scene t))" for t
  proof -
    have "scene t \<in> {''0000'', ''00ff'', ''ff00'', ''ffff''}" by (simp add: scene_def)
    moreover have "\<forall>c \<in> {''0000'', ''00ff'', ''ff00'', ''ffff''}. artifact_ok (scene_image c)" by code_simp
    ultimately show ?thesis by blast
  qed
  have "frame_at scene_source ''video'' ?ip (Fin t) = Inr (scene_frame t)" if "0 \<le> t" for t
    using that images [of "Fin t"]
    by (simp add: frame_at_def scene_source_def check_artifact_def ensure_value_def check_frame_evidence_def scene_frame_def)
       (simp add: scene_def)
  then have es: "traverse (frame_at scene_source ''video'' ?ip) (map Fin clip_times) = Inr ?es"
    by (simp add: clip_times_def)
  have cover: "cover_of default_sampling ?es = Some (scene_frame 0)" by (simp add: cover_of_def default_sampling_def clip_times_def)
  from sampling_fails_only_past_the_end [OF p _ _ clip_candidates es] images
  obtain chosen where c: "select_representative_frames ?es default_sampling (cover_of default_sampling ?es) = Inr chosen"
    and s: "sample scene_source ''video'' default_sampling ?ip (Some (Fin clip_duration)) =
       (if list_ex (\<lambda>e. fl_less (Fin clip_duration) (fe_timestamp e)) chosen then Inl ValueError
        else Inr \<lparr>vs_duration = Fin clip_duration, vs_cover = cover_of default_sampling ?es, vs_representatives = chosen\<rparr>)"
    by (auto simp: scene_frame_def default_sampling_def)
  have "list_ex (\<lambda>e. fl_less (Fin clip_duration) (fe_timestamp e)) chosen"
    using c clip_selection unfolding cover by (auto simp: scene_frame_def clip_duration_def)
  with s show ?thesis by simp
qed

end
