(* ===== verification/Archive_Workers.thy ===== *)
theory Archive_Workers
  imports Archive_Steps Archive_Storage Video_Sampling Canonical_Json
begin

text \<open>
  The workers of the media archive, \<^verbatim>\<open>application/media/archive_worker.py\<close>, \<^verbatim>\<open>images.py\<close> and
  \<^verbatim>\<open>video_archive_worker.py\<close>: claim, download, normalise or sample, publish in the archive, record as
  ready, and on any exception record a failure.  Telegram, the image processor, ffmpeg and SHA-256
  are parameters, as are failures of the disk and what other processes do in between.
\<close>

section \<open>Workers and their environment\<close>

datatype download = Downloaded bytes | Protected_content | Media_unavailable | Download_failed

record archive_worker =
  wr_storage_backend :: string
  wr_storage_key_prefix :: string
  wr_lease_duration :: int
  wr_failure_retry_delay :: int
  wr_image_profile :: image_profile
  wr_sampling_profile :: sampling_profile

definition check_archive_worker :: "archive_worker \<Rightarrow> archive_worker result" where
  "check_archive_worker w =
     try_bind (ensure_positive_duration (wr_lease_duration w)) (\<lambda>_.
     try_bind (ensure_positive_duration (wr_failure_retry_delay w)) (\<lambda>_.
       ensure_value (\<not> blank (wr_storage_backend w) \<and> safe_key_prefix (wr_storage_key_prefix w)) w))"

record archive_env =
  ev_token :: uuid
  ev_locked :: "uuid list"
  ev_download :: "download_request \<Rightarrow> download"
  ev_frames :: frame_source
  ev_probe :: "bytes \<Rightarrow> video_probe result"
  ev_sha256 :: "bytes \<Rightarrow> string"
  ev_disk_fault :: "string \<Rightarrow> error option"
  ev_writes :: "archive_write list"
  ev_meanwhile :: "archive_db \<Rightarrow> archive_db"

definition require_uuid :: "string \<Rightarrow> unit result" where
  "require_uuid s = (case parse_uuid s of None \<Rightarrow> fail ''value must be a UUID'' | Some n \<Rightarrow> Inr ())"

definition request_of :: "work_item \<Rightarrow> download_request" where
  "request_of i = \<lparr>dq_source_channel_id = wi_source_channel_id i,
     dq_telegram_message_id = wi_source_telegram_message_id i, dq_source_asset_id = wi_source_asset_id i\<rparr>"

text \<open>Building the request is part of the guarded download.\<close>

definition download_media :: "archive_env \<Rightarrow> work_item \<Rightarrow> download" where
  "download_media env i =
     (case check_download_request (request_of i) of Inl e \<Rightarrow> Download_failed | Inr r \<Rightarrow> ev_download env r)"

text \<open>The image processor answers with a constructed artifact.\<close>

definition normalized_image :: "frame_source \<Rightarrow> bytes \<Rightarrow> image_profile \<Rightarrow> image_artifact result" where
  "normalized_image src content profile = try_bind (fs_normalize src content profile) check_artifact"

section \<open>Publishing an image\<close>

definition normalize_and_archive ::
  "archive_env \<Rightarrow> bytes \<Rightarrow> string \<Rightarrow> image_profile \<Rightarrow> volume \<Rightarrow> image_artifact result \<times> volume" where
  "normalize_and_archive env content key profile v =
     (case normalized_image (ev_frames env) content profile of
        Inl e \<Rightarrow> (Inl e, v)
      | Inr a \<Rightarrow>
          (case put_object (ev_disk_fault env key) (ia_content_type a) key (ia_content a) v of
             (Inl e, v') \<Rightarrow> (Inl e, v')
           | (Inr n, v') \<Rightarrow> (Inr a, v')))"

text \<open>
  \<^verbatim>\<open>normalize_archive_and_mark_ready\<close>; the worker runs the same steps with its claim.  The
  \<open>record\<close> of the metadata is the transaction that makes the row ready.
\<close>

definition archive_image ::
  "archive_env \<Rightarrow> string \<Rightarrow> string \<Rightarrow> string \<Rightarrow> bytes \<Rightarrow> image_profile \<Rightarrow> datetime \<Rightarrow>
     (image_ready_metadata \<Rightarrow> message_store \<Rightarrow> (bool \<times> message_store) result) \<Rightarrow> volume \<Rightarrow> message_store \<Rightarrow> message_store result \<times> volume"
where
  "archive_image env asset_id backend key content profile archived_at record_ready v st =
     (case normalize_and_archive env content key profile (write_all (ev_writes env) v) of
        (Inl e, v') \<Rightarrow> (Inl e, v')
      | (Inr a, v') \<Rightarrow>
          (try_bind (object_size key v') (\<lambda>n.
             if n \<noteq> int (length (ia_content a)) then Inl RuntimeError
             else try_bind (from_artifact asset_id backend key a n archived_at) (\<lambda>m.
                  try_bind (record_ready m st) (\<lambda>(b, st'). if b then Inr st' else Inl RuntimeError))), v'))"

definition normalize_archive_and_mark_ready ::
  "archive_env \<Rightarrow> string \<Rightarrow> string \<Rightarrow> string \<Rightarrow> bytes \<Rightarrow> image_profile \<Rightarrow> datetime \<Rightarrow> volume \<Rightarrow> message_store \<Rightarrow> message_store result \<times> volume"
where
  "normalize_archive_and_mark_ready env asset_id backend key content profile archived_at =
     archive_image env asset_id backend key content profile archived_at image_asset_mark_ready"

definition image_key :: "archive_worker \<Rightarrow> string \<Rightarrow> string" where
  "image_key w asset_id = wr_storage_key_prefix w @ ''/'' @ asset_id @ ''.webp''"

definition publish_image ::
  "archive_env \<Rightarrow> archive_worker \<Rightarrow> archive_claim \<Rightarrow> int \<Rightarrow> bytes \<Rightarrow> volume \<Rightarrow> message_store \<Rightarrow> message_store result \<times> volume" where
  "publish_image env w c now content =
     archive_image env (wi_asset_id (ac_work_item c)) (wr_storage_backend w) (image_key w (wi_asset_id (ac_work_item c)))
       content (wr_image_profile w) (Aware now) (mark_image_ready c)"

section \<open>The image worker\<close>

definition fail_image_claim ::
  "archive_worker \<Rightarrow> archive_claim \<Rightarrow> string \<Rightarrow> string \<Rightarrow> bool \<Rightarrow> int \<Rightarrow> volume \<Rightarrow> archive_db \<Rightarrow> bool result \<times> volume \<times> archive_db" where
  "fail_image_claim w c code type retryable now v db =
     (case fail_image c code type retryable (now + wr_failure_retry_delay w) now (ad_store db) of
        Inl e \<Rightarrow> (Inl e, v, db)
      | Inr (b, st) \<Rightarrow> (Inr b, v, with_store st db))"

definition end_image_wakeup :: "string \<Rightarrow> int \<Rightarrow> bool \<Rightarrow> volume \<Rightarrow> archive_db \<Rightarrow> bool result \<times> volume \<times> archive_db" where
  "end_image_wakeup asset_id now answer v db =
     (case complete_image_wakeup asset_id now (ad_store db) of
        Inl e \<Rightarrow> (Inl e, v, db)
      | Inr (b, st) \<Rightarrow> (Inr answer, v, with_store st db))"

definition process_image_claim ::
  "archive_env \<Rightarrow> archive_worker \<Rightarrow> archive_claim \<Rightarrow> int \<Rightarrow> volume \<Rightarrow> archive_db \<Rightarrow> bool result \<times> volume \<times> archive_db" where
  "process_image_claim env w c now v db =
     (if wi_source_deleted_at (ac_work_item c) \<noteq> None
      then fail_image_claim w c ''SOURCE_MESSAGE_DELETED'' ''SourceMessageDeleted'' False now v db
      else case download_media env (ac_work_item c) of
        Protected_content \<Rightarrow> fail_image_claim w c ''TELEGRAM_PROTECTED_CONTENT'' ''TelegramProtectedContent'' False now v db
      | Media_unavailable \<Rightarrow> fail_image_claim w c ''TELEGRAM_MEDIA_UNAVAILABLE'' ''TelegramMediaUnavailable'' False now v db
      | Download_failed \<Rightarrow> fail_image_claim w c ''TELEGRAM_DOWNLOAD_FAILED'' ''TelegramDownloadError'' True now v db
      | Downloaded content \<Rightarrow>
          (case publish_image env w c now content v (ad_store db) of
             (Inl e, v') \<Rightarrow> fail_image_claim w c ''IMAGE_ARCHIVE_FAILED'' ''ImageArchiveError'' True now v' db
           | (Inr st, v') \<Rightarrow> end_image_wakeup (wi_asset_id (ac_work_item c)) now True v' (with_store st db)))"

definition process_image ::
  "archive_env \<Rightarrow> archive_worker \<Rightarrow> string \<Rightarrow> datetime \<Rightarrow> volume \<Rightarrow> archive_db \<Rightarrow> bool result \<times> volume \<times> archive_db" where
  "process_image env w asset_id now v db =
     (case try_bind (ensure_aware now) (\<lambda>t. try_bind (require_uuid asset_id) (\<lambda>_.
         try_bind (claim_image (ev_locked env) (ev_token env) asset_id t (wr_lease_duration w) (ad_store db)) (\<lambda>r. Inr (t, r)))) of
        Inl e \<Rightarrow> (Inl e, v, db)
      | Inr (t, None, st) \<Rightarrow> end_image_wakeup asset_id t False v (with_store st db)
      | Inr (t, Some c, st) \<Rightarrow> process_image_claim env w c t v (ev_meanwhile env (with_store st db)))"

section \<open>Publishing a video\<close>

text \<open>\<^verbatim>\<open>f"{index:02d}"\<close>.\<close>

definition two_digits :: "nat \<Rightarrow> string" where
  "two_digits n = (if n < 10 then ''0'' @ nat_text n else nat_text n)"

definition frame_key :: "archive_worker \<Rightarrow> string \<Rightarrow> string \<Rightarrow> nat \<Rightarrow> string" where
  "frame_key w asset_id role index =
     wr_storage_key_prefix w @ ''/'' @ asset_id @
     (if role = ''cover'' then ''/cover.webp'' else ''/representative-'' @ two_digits index @ ''.webp'')"

definition evidence_list :: "sampling_result \<Rightarrow> (string \<times> nat \<times> frame_evidence) list" where
  "evidence_list s =
     (case vs_cover s of None \<Rightarrow> [] | Some c \<Rightarrow> [(''cover'', 0, c)])
     @ map (\<lambda>(i, e). (''representative'', i, e)) (enumerate 0 (vs_representatives s))"

fun archive_frames ::
  "archive_env \<Rightarrow> archive_worker \<Rightarrow> string \<Rightarrow> (string \<times> nat \<times> frame_evidence) list \<Rightarrow> volume \<Rightarrow> frame_metadata list result \<times> volume" where
  "archive_frames env w asset_id [] v = (Inr [], v)"
| "archive_frames env w asset_id ((role, index, e) # es) v =
     (let key = frame_key w asset_id role index; a = fe_artifact e in
      case put_object (ev_disk_fault env key) (ia_content_type a) key (ia_content a) v of
        (Inl x, v') \<Rightarrow> (Inl x, v')
      | (Inr n, v') \<Rightarrow>
          (case try_bind (object_size key v') (\<lambda>stored. check_frame_metadata
              \<lparr>fm_frame_role = role, fm_frame_index = int index, fm_timestamp_seconds = fe_timestamp e,
               fm_storage_backend = wr_storage_backend w, fm_storage_key = key, fm_artifact = a,
               fm_archive_size_bytes = stored\<rparr>) of
             Inl x \<Rightarrow> (Inl x, v')
           | Inr f \<Rightarrow>
               (case archive_frames env w asset_id es v' of
                  (Inl x, v'') \<Rightarrow> (Inl x, v'')
                | (Inr fs, v'') \<Rightarrow> (Inr (f # fs), v''))))"

definition publish_video ::
  "archive_env \<Rightarrow> archive_worker \<Rightarrow> archive_claim \<Rightarrow> int \<Rightarrow> bytes \<Rightarrow> volume \<Rightarrow> archive_db \<Rightarrow> archive_db result \<times> volume" where
  "publish_video env w c now content v db =
     (case try_bind (try_bind (ev_probe env content) check_video_probe) (\<lambda>p.
         try_bind (sample (ev_frames env) content (wr_sampling_profile w) (wr_image_profile w) (Some (vp_duration_seconds p)))
           (\<lambda>s. Inr (p, s))) of
        Inl e \<Rightarrow> (Inl e, v)
      | Inr (p, s) \<Rightarrow>
          if evidence_list s = [] then (Inl RuntimeError, v)
          else (case archive_frames env w (wi_asset_id (ac_work_item c)) (evidence_list s) (write_all (ev_writes env) v) of
             (Inl e, v') \<Rightarrow> (Inl e, v')
           | (Inr fs, v') \<Rightarrow>
               (try_bind (check_video_metadata
                  \<lparr>vm_video_asset_id = wi_asset_id (ac_work_item c), vm_source_content_type = vp_content_type p,
                   vm_source_size_bytes = int (length content), vm_source_sha256 = ev_sha256 env content,
                   vm_probe = p, vm_frames = fs, vm_archived_at = Aware now\<rparr>) (\<lambda>m.
                try_bind (mark_video_ready c m db) (\<lambda>(b, db'). if b then Inr db' else Inl RuntimeError)), v')))"

section \<open>The video worker\<close>

definition fail_video_claim ::
  "archive_worker \<Rightarrow> archive_claim \<Rightarrow> string \<Rightarrow> string \<Rightarrow> bool \<Rightarrow> int \<Rightarrow> volume \<Rightarrow> archive_db \<Rightarrow> bool result \<times> volume \<times> archive_db" where
  "fail_video_claim w c code type retryable now v db =
     (case fail_video c code type retryable (now + wr_failure_retry_delay w) now (ad_store db) of
        Inl e \<Rightarrow> (Inl e, v, db)
      | Inr (b, st) \<Rightarrow> (Inr b, v, with_store st db))"

definition end_video_wakeup :: "string \<Rightarrow> int \<Rightarrow> bool \<Rightarrow> volume \<Rightarrow> archive_db \<Rightarrow> bool result \<times> volume \<times> archive_db" where
  "end_video_wakeup asset_id now answer v db =
     (case complete_video_wakeup asset_id now (ad_store db) of
        Inl e \<Rightarrow> (Inl e, v, db)
      | Inr (b, st) \<Rightarrow> (Inr answer, v, with_store st db))"

definition process_video_claim ::
  "archive_env \<Rightarrow> archive_worker \<Rightarrow> archive_claim \<Rightarrow> int \<Rightarrow> volume \<Rightarrow> archive_db \<Rightarrow> bool result \<times> volume \<times> archive_db" where
  "process_video_claim env w c now v db =
     (if wi_source_deleted_at (ac_work_item c) \<noteq> None
      then fail_video_claim w c ''SOURCE_MESSAGE_DELETED'' ''SourceMessageDeleted'' False now v db
      else case download_media env (ac_work_item c) of
        Protected_content \<Rightarrow> fail_video_claim w c ''TELEGRAM_PROTECTED_CONTENT'' ''TelegramProtectedContent'' False now v db
      | Media_unavailable \<Rightarrow> fail_video_claim w c ''TELEGRAM_MEDIA_UNAVAILABLE'' ''TelegramMediaUnavailable'' False now v db
      | Download_failed \<Rightarrow> fail_video_claim w c ''TELEGRAM_DOWNLOAD_FAILED'' ''TelegramDownloadError'' True now v db
      | Downloaded content \<Rightarrow>
          (case publish_video env w c now content v db of
             (Inl e, v') \<Rightarrow> fail_video_claim w c ''VIDEO_ARCHIVE_FAILED'' ''VideoArchiveError'' True now v' db
           | (Inr db', v') \<Rightarrow> end_video_wakeup (wi_asset_id (ac_work_item c)) now True v' db'))"

definition process_video ::
  "archive_env \<Rightarrow> archive_worker \<Rightarrow> string \<Rightarrow> datetime \<Rightarrow> volume \<Rightarrow> archive_db \<Rightarrow> bool result \<times> volume \<times> archive_db" where
  "process_video env w asset_id now v db =
     (case try_bind (ensure_aware now) (\<lambda>t. try_bind (require_uuid asset_id) (\<lambda>_.
         try_bind (claim_video (ev_locked env) (ev_token env) asset_id t (wr_lease_duration w) (ad_store db)) (\<lambda>r. Inr (t, r)))) of
        Inl e \<Rightarrow> (Inl e, v, db)
      | Inr (t, None, st) \<Rightarrow> end_video_wakeup asset_id t False v (with_store st db)
      | Inr (t, Some c, st) \<Rightarrow> process_video_claim env w c t v (ev_meanwhile env (with_store st db)))"

section \<open>Objects are stored before rows become ready\<close>

lemma stored_open: "stored_at key v = Some c \<longleftrightarrow> open_object key v = Inr c"
  by (cases "open_object key v") (auto simp: stored_at_def)

lemma stored_size: "stored_at key v = Some c \<Longrightarrow> object_size key v = Inr (int (length c))"
  by (simp add: stored_open object_size_def)

lemma stored_later: "stored_at key v = Some c \<Longrightarrow> stored_at key (write_all ws v) = Some c"
  using write_all_keeps by (auto simp: stored_at_Some)

lemma archive_imageE:
  assumes "archive_image env asset_id backend key content profile at_time ready v st = (Inr st', v')"
  obtains a m where "stored_at key v' = Some (ia_content a)"
    "from_artifact asset_id backend key a (int (length (ia_content a))) at_time = Inr m" "ready m st = Inr (True, st')"
proof -
  let ?v = "write_all (ev_writes env) v"
  obtain r v1 where na: "normalize_and_archive env content key profile ?v = (r, v1)" by fastforce
  with assms obtain a where r: "r = Inr a" by (cases r) (auto simp: archive_image_def)
  have stored: "stored_at key v1 = Some (ia_content a)"
  proof (cases "normalized_image (ev_frames env) content profile")
    case (Inr b)
    obtain q v2 where p: "put_object (ev_disk_fault env key) (ia_content_type b) key (ia_content b) ?v = (q, v2)" by fastforce
    with na r Inr have "a = b" "v1 = v2" "\<exists>n. q = Inr n" by (auto simp: normalize_and_archive_def split: sum.splits)
    with put_object_stored p show ?thesis by blast
  qed (use na r in \<open>simp add: normalize_and_archive_def\<close>)
  with assms na r have "v' = v1" and "(try_bind (from_artifact asset_id backend key a (int (length (ia_content a))) at_time) (\<lambda>m.
      try_bind (ready m st) (\<lambda>(b, st'). if b then Inr st' else Inl RuntimeError))) = Inr st'"
    by (auto simp: archive_image_def stored_size)
  with stored that show thesis by (auto elim!: try_bindE split: if_splits)
qed

lemma from_artifact_Inr:
  assumes "from_artifact asset_id backend key a n at_time = Inr m"
  shows "rd_storage_key m = key" "rd_archive_size_bytes m = n" "rd_image_asset_id m = asset_id"
  using assms by (auto simp: from_artifact_def check_ready_metadata_def result_simps)

lemma mark_image_ready_True:
  assumes "mark_image_ready c m st = Inr (b, st')" and "rd_image_asset_id m = wi_asset_id (ac_work_item c)"
  obtains i token where "uuid_or_value_error (wi_asset_id (ac_work_item c)) = Inr i"
    "uuid_or_value_error (ac_lease_token c) = Inr token" "b = (count_where (held_under i token) (mt_images st) = 1)"
    "st' = st\<lparr>mt_images := update_where (held_under i token) (ready_image m) (mt_images st)\<rparr>"
proof -
  from assms(1) obtain i token where i: "uuid_or_value_error (wi_asset_id (ac_work_item c)) = Inr i"
      "uuid_or_value_error (ac_lease_token c) = Inr token"
      "write_ready_images (\<lambda>r. held_under i token r \<and> as_id r = i) (ready_image m) m st = Inr (b, st')"
    unfolding mark_image_ready_def assms(2) by (auto elim!: try_bindE)
  have P: "(\<lambda>r. held_under i token r \<and> as_id r = i) = held_under i token" by (auto simp: held_under_def)
  from i(3) [unfolded P] that [OF i(1,2)] show thesis by (auto simp: write_ready_images_def split: if_splits)
qed

lemma count_where_1: "count_where P rows = 1 \<Longrightarrow> \<exists>r \<in> set rows. P r"
  by (rule ccontr) (simp add: count_where_def filter_empty_conv)

lemma archive_frames_stored:
  "archive_frames env w asset_id es v = (Inr fs, v') \<Longrightarrow>
     (\<forall>f \<in> set fs. stored_at (fm_storage_key f) v' = Some (ia_content (fm_artifact f))
        \<and> fm_archive_size_bytes f = int (length (ia_content (fm_artifact f))))
     \<and> (\<forall>key c. stored_at key v = Some c \<longrightarrow> stored_at key v' = Some c) \<and> length fs = length es"
proof (induction env w asset_id es v arbitrary: fs v' rule: archive_frames.induct)
  case (2 env w asset_id role index e es v)
  let ?key = "frame_key w asset_id role index" and ?a = "fe_artifact e"
  obtain q v1 where p: "put_object (ev_disk_fault env ?key) (ia_content_type ?a) ?key (ia_content ?a) v = (q, v1)" by fastforce
  with "2.prems" obtain n where q: "q = Inr n" by (cases q) (auto simp: Let_def)
  from put_object_stored [OF p [unfolded q]] have st: "stored_at ?key v1 = Some (ia_content ?a)" by simp
  let ?m = "\<lambda>n. \<lparr>fm_frame_role = role, fm_frame_index = int index, fm_timestamp_seconds = fe_timestamp e,
       fm_storage_backend = wr_storage_backend w, fm_storage_key = ?key, fm_artifact = ?a, fm_archive_size_bytes = n\<rparr>"
  from "2.prems" p q stored_size [OF st] obtain f where f: "check_frame_metadata (?m (int (length (ia_content ?a)))) = Inr f"
    by (cases "check_frame_metadata (?m (int (length (ia_content ?a))))") (auto simp: Let_def)
  then have fm: "f = ?m (int (length (ia_content ?a)))" by (simp add: check_frame_metadata_def result_simps)
  obtain r v2 where rest: "archive_frames env w asset_id es v1 = (r, v2)" by fastforce
  with "2.prems" p q stored_size [OF st] f obtain gs where g: "r = Inr gs" "fs = f # gs" "v' = v2"
    by (cases r) (auto simp: Let_def)
  have "(\<forall>f \<in> set gs. stored_at (fm_storage_key f) v2 = Some (ia_content (fm_artifact f))
        \<and> fm_archive_size_bytes f = int (length (ia_content (fm_artifact f))))
     \<and> (\<forall>key c. stored_at key v1 = Some c \<longrightarrow> stored_at key v2 = Some c) \<and> length gs = length es"
    by (rule "2.IH" [OF HOL.refl HOL.refl p [unfolded q, symmetric] HOL.refl _ rest [unfolded g(1)]]) (use stored_size [OF st] f in simp_all)
  moreover have "stored_at key v1 = Some c" if "stored_at key v = Some c" for key c
    using that put_object_keeps [of v _ c "ev_disk_fault env ?key" "ia_content_type ?a" ?key "ia_content ?a"] p
    by (auto simp: stored_at_Some)
  ultimately show ?case using st by (auto simp: g fm)
qed auto

section \<open>The lease of a run ends with it\<close>

definition token_free :: "uuid \<Rightarrow> 'a asset_columns_scheme list \<Rightarrow> bool" where
  "token_free token rows \<longleftrightarrow> (\<forall>r \<in> set rows. as_lease_token r \<noteq> Some token)"

definition token_only_on :: "uuid \<Rightarrow> uuid \<Rightarrow> 'a asset_columns_scheme list \<Rightarrow> bool" where
  "token_only_on i token rows \<longleftrightarrow> (\<forall>r \<in> set rows. as_lease_token r = Some token \<longrightarrow> held_under i token r)"

lemma token_free_update:
  assumes "token_only_on i token rows" and "\<And>r. as_lease_token (f r) = None"
  shows "token_free token (update_where (held_under i token) f rows)"
  unfolding token_free_def
proof
  fix x assume "x \<in> set (update_where (held_under i token) f rows)"
  then obtain y where y: "y \<in> set rows" "x = (if held_under i token y then f y else y)" unfolding set_update_where by (rule imageE)
  with assms show "as_lease_token x \<noteq> Some token" by (auto simp: token_only_on_def)
qed

lemma token_free_none: "token_only_on i token rows \<Longrightarrow> \<not> list_ex (held_under i token) rows \<Longrightarrow> token_free token rows"
  by (auto simp: token_only_on_def token_free_def list_ex_iff)

lemma labels_fit:
  "safe_error_label ''SOURCE_MESSAGE_DELETED'' 64 = Inr ''SOURCE_MESSAGE_DELETED''"
  "safe_error_label ''SourceMessageDeleted'' 128 = Inr ''SourceMessageDeleted''"
  "safe_error_label ''TELEGRAM_PROTECTED_CONTENT'' 64 = Inr ''TELEGRAM_PROTECTED_CONTENT''"
  "safe_error_label ''TelegramProtectedContent'' 128 = Inr ''TelegramProtectedContent''"
  "safe_error_label ''TELEGRAM_MEDIA_UNAVAILABLE'' 64 = Inr ''TELEGRAM_MEDIA_UNAVAILABLE''"
  "safe_error_label ''TelegramMediaUnavailable'' 128 = Inr ''TelegramMediaUnavailable''"
  "safe_error_label ''TELEGRAM_DOWNLOAD_FAILED'' 64 = Inr ''TELEGRAM_DOWNLOAD_FAILED''"
  "safe_error_label ''TelegramDownloadError'' 128 = Inr ''TelegramDownloadError''"
  "safe_error_label ''IMAGE_ARCHIVE_FAILED'' 64 = Inr ''IMAGE_ARCHIVE_FAILED''"
  "safe_error_label ''ImageArchiveError'' 128 = Inr ''ImageArchiveError''"
  by code_simp+

definition claim_names :: "archive_claim \<Rightarrow> uuid \<Rightarrow> uuid \<Rightarrow> bool" where
  "claim_names c i token \<longleftrightarrow> uuid_or_value_error (wi_asset_id (ac_work_item c)) = Inr i
     \<and> uuid_or_value_error (ac_lease_token c) = Inr token"

lemma fail_image_claim_frees:
  assumes "claim_names c i token" and "token_only_on i token (mt_images (ad_store db))"
    and "safe_error_label code 64 = Inr code'" "safe_error_label type 128 = Inr type'"
    and "fail_image_claim w c code type retryable now v db = (r, v', db')"
  shows "token_free token (mt_images (ad_store db')) \<and> \<not> isl r"
proof (cases "find (held_under i token) (mt_images (ad_store db))")
  case None
  with assms have "db' = with_store (ad_store db) db \<and> r = Inr False"
    by (auto simp: fail_image_claim_def fail_image_def fail_asset_def claim_names_def)
  moreover have "token_free token (mt_images (ad_store db))"
    by (rule token_free_none [OF assms(2)]) (use None in \<open>auto simp: find_None_iff list_ex_iff\<close>)
  ultimately show ?thesis by (simp add: with_store_def)
next
  case (Some x)
  with assms have "mt_images (ad_store db') = update_where (held_under i token) (failed_asset code' type'
        (retryable \<and> as_attempt_count x < as_max_attempts x) (now + wr_failure_retry_delay w) now) (mt_images (ad_store db)) \<and> r = Inr True"
    by (auto simp: fail_image_claim_def fail_image_def fail_asset_def claim_names_def Let_def with_store_def)
  with token_free_update [OF assms(2)] show ?thesis by (simp add: failed_asset_def)
qed

lemma end_image_wakeup_images:
  assumes "end_image_wakeup asset_id now answer v db = (r, v', db')"
  shows "mt_images (ad_store db') = mt_images (ad_store db)"
    and "uuid_or_value_error asset_id = Inr i \<Longrightarrow> r = Inr answer"
  using assms by (auto simp: end_image_wakeup_def complete_image_wakeup_def Let_def split_def with_store_def result_simps
      split: sum.splits)

lemma process_image_claim_frees:
  assumes "claim_names c i token" and "token_only_on i token (mt_images (ad_store db))"
    and "process_image_claim env w c now v db = (r, v', db')"
  shows "token_free token (mt_images (ad_store db')) \<and> \<not> isl r"
proof (cases "wi_source_deleted_at (ac_work_item c) = None")
  case False
  with assms(3) have "fail_image_claim w c ''SOURCE_MESSAGE_DELETED'' ''SourceMessageDeleted'' False now v db = (r, v', db')"
    by (simp add: process_image_claim_def)
  from fail_image_claim_frees [OF assms(1,2) _ _ this] show ?thesis by (simp add: labels_fit)
next
  case True
  note run = assms(3) [unfolded process_image_claim_def]
  note frees = fail_image_claim_frees [OF assms(1,2)]
  show ?thesis
  proof (cases "download_media env (ac_work_item c)")
    case (Downloaded content)
    obtain q v1 where p: "publish_image env w c now content v (ad_store db) = (q, v1)" by fastforce
    show ?thesis
    proof (cases q)
      case (Inl e)
      with run True Downloaded p
      have "fail_image_claim w c ''IMAGE_ARCHIVE_FAILED'' ''ImageArchiveError'' True now v1 db = (r, v', db')" by simp
      from frees [OF _ _ this] show ?thesis by (simp add: labels_fit)
    next
      case (Inr st)
      with p obtain a m where m: "mark_image_ready c m (ad_store db) = Inr (True, st)"
          "rd_image_asset_id m = wi_asset_id (ac_work_item c)"
        unfolding publish_image_def by (metis archive_imageE from_artifact_Inr(3))
      have "mt_images st = update_where (held_under i token) (ready_image m) (mt_images (ad_store db))"
        by (rule mark_image_ready_True [OF m]) (use assms(1) in \<open>simp add: claim_names_def\<close>)
      with token_free_update [OF assms(2)] have free: "token_free token (mt_images st)" by (simp add: ready_image_def)
      from run True Downloaded p Inr
      have e: "end_image_wakeup (wi_asset_id (ac_work_item c)) now True v1 (with_store st db) = (r, v', db')" by simp
      from free assms(1) show ?thesis
        using end_image_wakeup_images [OF e] by (auto simp: with_store_def claim_names_def)
    qed
  next
    case Protected_content
    with run True have "fail_image_claim w c ''TELEGRAM_PROTECTED_CONTENT'' ''TelegramProtectedContent'' False now v db = (r, v', db')" by simp
    from frees [OF _ _ this] show ?thesis by (simp add: labels_fit)
  next
    case Media_unavailable
    with run True have "fail_image_claim w c ''TELEGRAM_MEDIA_UNAVAILABLE'' ''TelegramMediaUnavailable'' False now v db = (r, v', db')" by simp
    from frees [OF _ _ this] show ?thesis by (simp add: labels_fit)
  next
    case Download_failed
    with run True have "fail_image_claim w c ''TELEGRAM_DOWNLOAD_FAILED'' ''TelegramDownloadError'' True now v db = (r, v', db')" by simp
    from frees [OF _ _ this] show ?thesis by (simp add: labels_fit)
  qed
qed

lemma claim_of_Inr:
  assumes "claim_of r m token = Inr c"
  shows "wi_asset_id (ac_work_item c) = as_id r" "ac_lease_token c = token"
  using assms by (auto simp: claim_of_def check_work_item_def check_archive_claim_def result_simps split: option.splits)

text \<open>A fresh token is, right after the claim, on the claimed row only.\<close>

lemma claimed_token:
  fixes rows :: "'a asset_columns_scheme list"
  assumes "claim_asset queue locked token i now duration ms rows ws = Inr (Some c, rows', ws')" and "token_free token rows"
  shows "token_only_on i token rows'" "wi_asset_id (ac_work_item c) = i" "ac_lease_token c = token"
proof -
  from assms(1) obtain r :: "'a asset_columns_scheme" and m where r: "as_id r = i" "claim_of r m token = Inr c"
      "rows' = update_where (\<lambda>x. as_id x = i) (lease_asset token now duration) rows"
  proof (cases rule: claim_asset_cases)
    case (3 r m cl)
    have "claim_of r m token = Inr c" using 3(1,8) by simp
    from that [OF 3(3) this 3(6)] show thesis .
  qed simp_all
  show "wi_asset_id (ac_work_item c) = i" "ac_lease_token c = token" using claim_of_Inr [OF r(2)] r(1) by simp_all
  show "token_only_on i token rows'"
    unfolding token_only_on_def r(3)
  proof (intro ballI impI)
    fix x assume x: "x \<in> set (update_where (\<lambda>x. as_id x = i) (lease_asset token now duration) rows)" "as_lease_token x = Some token"
    from x(1) obtain y where y: "y \<in> set rows" "x = (if as_id y = i then lease_asset token now duration y else y)"
      unfolding set_update_where by (rule imageE)
    with x(2) assms(2) show "held_under i token x"
      by (auto simp: token_free_def held_under_def lease_asset_def split: if_splits)
  qed
qed

text \<open>
  What other processes may do while a worker runs: anything that leaves a reachable state, except
  leasing an image under this worker's token, which is a random UUID of its own.
\<close>

definition others_respect_token :: "(string \<Rightarrow> string) \<Rightarrow> uuid \<Rightarrow> (archive_db \<Rightarrow> archive_db) \<Rightarrow> bool" where
  "others_respect_token sha token f \<longleftrightarrow> (\<forall>db. archive_reachable sha db \<longrightarrow> archive_reachable sha (f db)
     \<and> (\<forall>r \<in> set (mt_images (ad_store (f db))). as_lease_token r = Some token \<longrightarrow>
          (\<exists>q \<in> set (mt_images (ad_store db)). as_id q = as_id r \<and> as_lease_token q = Some token)))"

lemma token_stays:
  assumes "others_respect_token sha token f" and "archive_reachable sha db" and "token_only_on i token (mt_images (ad_store db))"
  shows "token_only_on i token (mt_images (ad_store (f db)))"
  unfolding token_only_on_def
proof (intro ballI impI)
  fix r assume r: "r \<in> set (mt_images (ad_store (f db)))" "as_lease_token r = Some token"
  with assms(1,2) obtain q where q: "q \<in> set (mt_images (ad_store db))" "as_id q = as_id r" "as_lease_token q = Some token"
    unfolding others_respect_token_def by blast
  with assms(3) have i: "as_id r = i" by (auto simp: token_only_on_def held_under_def)
  from assms(1,2) have "archive_reachable sha (f db)" unfolding others_respect_token_def by blast
  from archive_reachable_ok [OF this] r(1) have "image_ok r" by (simp add: archive_ok_def tables_ok_def)
  with r(2) i show "held_under i token r" by (simp add: image_ok_def asset_ok_def held_under_def)
qed

section \<open>Properties\<close>

text \<open>
  A row becomes ready only after its object is stored: if publishing an image succeeds, the
  row the worker held is ready with metadata whose storage key names an object of the recorded
  size, and no later write to the archive changes that object.
\<close>

theorem ready_image_was_stored:
  assumes "publish_image env w c now content v st = (Inr st', v')"
  shows "\<exists>r m object. r \<in> set (mt_images st) \<and> as_state r = A_PROCESSING \<and> ready_image m r \<in> set (mt_images st')
    \<and> rd_storage_key m = image_key w (wi_asset_id (ac_work_item c)) \<and> rd_archive_size_bytes m = int (length object)
    \<and> (\<forall>ws. open_object (rd_storage_key m) (write_all ws v') = Inr object)"
proof -
  let ?key = "image_key w (wi_asset_id (ac_work_item c))"
  from assms obtain a m where a: "stored_at ?key v' = Some (ia_content a)"
    and m: "from_artifact (wi_asset_id (ac_work_item c)) (wr_storage_backend w) ?key a (int (length (ia_content a))) (Aware now) = Inr m"
    and ready: "mark_image_ready c m st = Inr (True, st')"
    unfolding publish_image_def by (rule archive_imageE)
  note f = from_artifact_Inr [OF m]
  obtain i token where
      one: "count_where (held_under i token) (mt_images st) = 1"
    and st': "mt_images st' = update_where (held_under i token) (ready_image m) (mt_images st)"
    by (rule mark_image_ready_True [OF ready f(3)]) (rule that, simp_all)
  from count_where_1 [OF one] obtain r where r: "r \<in> set (mt_images st)" "held_under i token r" by blast
  have new: "ready_image m r \<in> set (mt_images st')"
    unfolding st' set_update_where by (rule image_eqI [of _ _ r]) (simp_all add: r)
  have processing: "as_state r = A_PROCESSING" using r(2) by (simp add: held_under_def)
  have "open_object (rd_storage_key m) (write_all ws v') = Inr (ia_content a)" for ws
    using stored_later [OF a] by (simp add: f(1) stored_open)
  then show ?thesis
    by (intro exI [of _ r] exI [of _ m] exI [of _ "ia_content a"] conjI allI r(1) processing new) (simp_all add: f(1,2))
qed

text \<open>A worker, and an environment in which everything succeeds and nothing else happens.\<close>

definition worker0 :: archive_worker where
  "worker0 = \<lparr>wr_storage_backend = ''local'', wr_storage_key_prefix = ''images'', wr_lease_duration = 100,
     wr_failure_retry_delay = 60, wr_image_profile = \<lparr>ip_max_side_pixels = 1024, ip_quality = 80\<rparr>,
     wr_sampling_profile = default_sampling\<rparr>"

definition env0 :: archive_env where
  "env0 = \<lparr>ev_token = uuid_text 2, ev_locked = [], ev_download = (\<lambda>_. Downloaded ''0000''), ev_frames = scene_source,
     ev_probe = (\<lambda>_. Inr \<lparr>vp_duration_seconds = Fin 1, vp_width = None, vp_height = None, vp_content_type = None\<rparr>),
     ev_sha256 = (\<lambda>_. replicate 64 CHR ''0''), ev_disk_fault = (\<lambda>_. None), ev_writes = [], ev_meanwhile = (\<lambda>d. d)\<rparr>"

definition new_claim :: archive_claim where
  "new_claim = old_claim\<lparr>ac_lease_token := uuid_text 2\<rparr>"

definition empty_volume :: volume where
  "empty_volume = \<lparr>vo_files = [], vo_directories = []\<rparr>"

theorem ready_image_was_stored_witness:
  "\<exists>st' v' r. publish_image env0 worker0 new_claim 210 ''0000'' empty_volume archive1 = (Inr st', v')
     \<and> r \<in> set (mt_images archive1) \<and> as_state r = A_PROCESSING"
proof -
  have "\<not> isl (fst (publish_image env0 worker0 new_claim 210 ''0000'' empty_volume archive1))" by code_simp
  then obtain st' v' where p: "publish_image env0 worker0 new_claim 210 ''0000'' empty_volume archive1 = (Inr st', v')"
    by (metis isl_def prod.collapse sum.exhaust)
  from ready_image_was_stored [OF p] p show ?thesis by blast
qed

text \<open>
  C35: A run of the image worker gives its lease back: whatever the download, the image processor
  and the disk answer, and whatever other processes do to the database in between, no image is
  leased under the token of the run when it returns; and it raises only if it has changed nothing.
\<close>

theorem image_worker_gives_back_lease:
  assumes "archive_reachable sha db" and "others_respect_token sha (ev_token env) (ev_meanwhile env)"
    and "uuid_or_value_error (ev_token env) = Inr (ev_token env)" and "token_free (ev_token env) (mt_images (ad_store db))"
    and "process_image env w asset_id now v db = (r, v', db')"
  shows "token_free (ev_token env) (mt_images (ad_store db')) \<and> (isl r \<longrightarrow> db' = db \<and> v' = v)"
proof (cases "try_bind (ensure_aware now) (\<lambda>t. try_bind (require_uuid asset_id) (\<lambda>_.
         try_bind (claim_image (ev_locked env) (ev_token env) asset_id t (wr_lease_duration w) (ad_store db)) (\<lambda>r. Inr (t, r))))")
  case (Inl e)
  with assms(4,5) show ?thesis by (simp add: process_image_def)
next
  case (Inr a)
  obtain t co st where a: "a = (t, co, st)" by (cases a)
  from Inr [unfolded a] have "claim_image (ev_locked env) (ev_token env) asset_id t (wr_lease_duration w) (ad_store db) = Inr (co, st)"
    by (auto elim!: try_bindE)
  note claim = this
  then obtain i rows ws where i: "uuid_or_value_error asset_id = Inr i"
    and c: "claim_asset image_archive_queue (ev_locked env) (ev_token env) i t (wr_lease_duration w) (mt_messages (ad_store db))
        (mt_images (ad_store db)) (mt_wakeups (ad_store db)) = Inr (co, rows, ws)"
    and st: "st = (ad_store db)\<lparr>mt_images := rows, mt_wakeups := ws\<rparr>"
    unfolding claim_image_def by (auto elim!: try_bindE)
  show ?thesis
  proof (cases co)
    case None
    with assms(5) Inr a have e: "end_image_wakeup asset_id t False v (with_store st db) = (r, v', db')"
      by (simp add: process_image_def)
    note end_ = end_image_wakeup_images [OF e]
    from c None have "token_free (ev_token env) rows"
    proof (cases rule: claim_asset_cases)
      case (2 x)
      show ?thesis unfolding token_free_def 2(5)
      proof
        fix y assume "y \<in> set (update_where (\<lambda>x. as_id x = i) (terminalize_exhausted t) (mt_images (ad_store db)))"
        then obtain z where "z \<in> set (mt_images (ad_store db))" "y = (if as_id z = i then terminalize_exhausted t z else z)"
          unfolding set_update_where by (rule imageE)
        with assms(4) show "as_lease_token y \<noteq> Some (ev_token env)" by (auto simp: token_free_def terminalize_exhausted_def)
      qed
    qed (use assms(4) None in simp_all)
    with end_ i show ?thesis by (auto simp: with_store_def st)
  next
    case (Some cl)
    let ?d = "ev_meanwhile env (with_store st db)"
    from assms(5) Inr a Some have p: "process_image_claim env w cl t v ?d = (r, v', db')"
      by (simp add: process_image_def)
    note k = claimed_token [OF c [unfolded Some] assms(4)]
    have "archive_reachable sha (with_store st db)"
      by (rule archive_reachable.step [OF assms(1)]) (rule image_claim [OF claim])
    moreover have "token_only_on i (ev_token env) (mt_images (ad_store (with_store st db)))"
      using k(1) by (simp add: with_store_def st)
    ultimately have "token_only_on i (ev_token env) (mt_images (ad_store ?d))" by (rule token_stays [OF assms(2)])
    moreover have "claim_names cl i (ev_token env)"
      using k(2,3) uuid_or_value_error_canonical [OF i] assms(3) by (simp add: claim_names_def)
    ultimately show ?thesis using process_image_claim_frees [OF _ _ p] by blast
  qed
qed

theorem image_worker_gives_back_lease_witness:
  "\<exists>r v' db'. process_image env0 worker0 (uuid_text 7) (Aware 200) empty_volume archive0 = (r, v', db')
     \<and> token_free (uuid_text 2) (mt_images (ad_store db'))"
proof -
  obtain r v' db' where p: "process_image env0 worker0 (uuid_text 7) (Aware 200) empty_volume archive0 = (r, v', db')"
    by (metis prod_cases3)
  have "others_respect_token (\<lambda>t. []) (ev_token env0) (ev_meanwhile env0)" by (auto simp: others_respect_token_def env0_def)
  moreover have "uuid_or_value_error (ev_token env0) = Inr (ev_token env0)" by code_simp
  moreover have "list_all (\<lambda>r. as_lease_token r \<noteq> Some (ev_token env0)) (mt_images (ad_store archive0))" by code_simp
  ultimately have "token_free (ev_token env0) (mt_images (ad_store db'))"
    using image_worker_gives_back_lease [OF archive0_reachable _ _ _ p] by (simp add: token_free_def list_all_iff)
  with p show ?thesis by (simp add: env0_def)
qed

text \<open>
  A video becomes ready only after all its frames are stored: if publishing a video succeeds,
  each frame row of the video names an object of the archive, of the recorded size, that no later
  write changes.
\<close>

theorem published_frames_are_stored:
  assumes "publish_video env w c now content v db = (Inr db', v')"
    and "uuid_or_value_error (wi_asset_id (ac_work_item c)) = Inr i"
  shows "(\<exists>f \<in> set (ad_frames db'). vf_video_asset_id f = i) \<and> (\<forall>f \<in> set (ad_frames db'). vf_video_asset_id f = i \<longrightarrow>
    (\<exists>object. vf_archive_size_bytes f = int (length object)
       \<and> (\<forall>ws. open_object (vf_storage_key f) (write_all ws v') = Inr object)))"
proof -
  let ?asset = "wi_asset_id (ac_work_item c)"
  from assms(1) obtain p s where s: "try_bind (try_bind (ev_probe env content) check_video_probe) (\<lambda>p.
         try_bind (sample (ev_frames env) content (wr_sampling_profile w) (wr_image_profile w) (Some (vp_duration_seconds p)))
           (\<lambda>s. Inr (p, s))) = Inr (p, s)" and ne: "evidence_list s \<noteq> []"
    by (auto simp: publish_video_def split: sum.splits prod.splits if_splits)
  obtain q v1 where a: "archive_frames env w ?asset (evidence_list s) (write_all (ev_writes env) v) = (q, v1)" by fastforce
  with assms(1) s ne obtain fs where q: "q = Inr fs" by (cases q) (auto simp: publish_video_def)
  let ?m = "\<lparr>vm_video_asset_id = ?asset, vm_source_content_type = vp_content_type p,
     vm_source_size_bytes = int (length content), vm_source_sha256 = ev_sha256 env content,
     vm_probe = p, vm_frames = fs, vm_archived_at = Aware now\<rparr>"
  from assms(1) s ne a q have v1: "v1 = v'" and run: "try_bind (check_video_metadata ?m) (\<lambda>m.
      try_bind (mark_video_ready c m db) (\<lambda>(b, db'). if b then Inr db' else Inl RuntimeError)) = Inr db'"
    by (auto simp: publish_video_def)
  note stored = archive_frames_stored [OF a [unfolded q v1]]
  from run have m: "mark_video_ready c ?m db = Inr (True, db')"
    by (auto simp: check_video_metadata_def result_simps elim!: try_bindE split: if_splits)
  have fr: "ad_frames db' = filter (\<lambda>f. vf_video_asset_id f \<noteq> i) (ad_frames db) @ map (frame_row i) fs"
    using m
  proof (cases rule: mark_video_readyE)
    case (2 j token)
    with assms(2) have "j = i" by simp
    with insert_frames_Inr [OF 2(7)] show ?thesis by simp
  qed simp
  have one: "\<exists>object. vf_archive_size_bytes (frame_row i f) = int (length object)
       \<and> (\<forall>ws. open_object (vf_storage_key (frame_row i f)) (write_all ws v') = Inr object)" if "f \<in> set fs" for f
  proof (intro exI conjI allI)
    from stored that show "vf_archive_size_bytes (frame_row i f) = int (length (ia_content (fm_artifact f)))"
      by (simp add: frame_row_def)
    from stored that have "stored_at (fm_storage_key f) v' = Some (ia_content (fm_artifact f))" by blast
    from stored_later [OF this] show "open_object (vf_storage_key (frame_row i f)) (write_all ws v') = Inr (ia_content (fm_artifact f))" for ws
      by (simp add: frame_row_def stored_open)
  qed
  have "\<exists>f \<in> set (ad_frames db'). vf_video_asset_id f = i"
    using stored ne by (cases fs) (auto simp: fr frame_row_def)
  moreover have "\<exists>g \<in> set fs. f = frame_row i g" if "f \<in> set (ad_frames db')" "vf_video_asset_id f = i" for f
    using that by (auto simp: fr)
  ultimately show ?thesis using one by (metis (no_types, lifting))
qed

definition cover_worker :: archive_worker where
  "cover_worker = worker0\<lparr>wr_sampling_profile :=
     \<lparr>sp_min_candidates = 1, sp_max_candidates = 1, sp_max_representatives = 1, sp_min_gap = Fin 2,
      sp_phash_threshold = 8, sp_keep_cover = True\<rparr>\<rparr>"

definition leased_video :: archive_db where
  "leased_video = with_store ((empty_store [sample_channel])\<lparr>mt_videos :=
     [lease_asset (uuid_text 2) 200 100 (new_video (archive_ids 0) 9 (uuid_text 3) (sample_asset\<lparr>md_kind := VIDEO\<rparr>))]\<rparr>)
     (empty_archive [sample_channel])"

lemma cover_sample:
  "sample scene_source ''0000'' (wr_sampling_profile cover_worker) (wr_image_profile cover_worker) (Some (Fin 1))
     = Inr \<lparr>vs_duration = Fin 1, vs_cover = Some (scene_frame 0), vs_representatives = []\<rparr>"
proof -
  have "fl_round (1 / 2) = Fin (1 / 2)" using fl_round_near [of "1 / 2" "- 53" 4503599627370496] by (simp add: pow2_def)
  then have t: "candidate_timestamps (Fin 1) (wr_sampling_profile cover_worker) = Inr [Fin 0]"
    by (simp add: candidate_timestamps_def validate_duration_def cover_worker_def frame_count_def)
  have f: "frame_at scene_source ''0000'' (wr_image_profile cover_worker) (Fin 0) = Inr (scene_frame 0)" by code_simp
  have s: "select_representative_frames [scene_frame 0] (wr_sampling_profile cover_worker) (Some (scene_frame 0)) = Inr []" by code_simp
  have c: "cover_of (wr_sampling_profile cover_worker) [scene_frame 0] = Some (scene_frame 0)" by (simp add: cover_of_def cover_worker_def)
  show ?thesis
    by (simp add: sample_def t f s c validate_duration_def check_sampling_result_def cover_within_def timestamps_def ensure_value_def)
      (simp add: scene_frame_def)
qed

theorem published_frames_are_stored_witness:
  "\<exists>db' v' f. publish_video env0 cover_worker new_claim 210 ''0000'' empty_volume leased_video = (Inr db', v')
     \<and> f \<in> set (ad_frames db') \<and> vf_video_asset_id f = uuid_text 7"
proof -
  let ?asset = "wi_asset_id (ac_work_item new_claim)"
  let ?frames = "archive_frames env0 cover_worker ?asset [(''cover'', 0, scene_frame 0)] empty_volume"
  have probe: "try_bind (ev_probe env0 ''0000'') check_video_probe =
      Inr \<lparr>vp_duration_seconds = Fin 1, vp_width = None, vp_height = None, vp_content_type = None\<rparr>"
    by (simp add: env0_def check_video_probe_def ensure_value_def positive_option_def text_option_def)
  have src: "ev_frames env0 = scene_source" "ev_writes env0 = []" by (simp_all add: env0_def)
  have "\<not> isl (fst (publish_video env0 cover_worker new_claim 210 ''0000'' empty_volume leased_video))"
    unfolding publish_video_def probe src try_bind_simps video_probe.simps cover_sample
    by code_simp
  then obtain db' v' where p: "publish_video env0 cover_worker new_claim 210 ''0000'' empty_volume leased_video = (Inr db', v')"
    by (metis isl_def prod.collapse sum.exhaust)
  have "uuid_or_value_error ?asset = Inr (uuid_text 7)" by code_simp
  from published_frames_are_stored [OF p this] p show ?thesis by blast
qed

end
