(* ===== verification/Stage_Cache.thy ===== *)
theory Stage_Cache
  imports Pipeline
begin

text \<open>
  Semantic cache keys of analysis stages, \<^verbatim>\<open>domain/analysis/cache.py\<close>: the hash of the canonical text of
  every version that defines a result.  SHA-256 is a parameter.
\<close>

fun cache_policy_value :: "cache_policy \<Rightarrow> string" where
  "cache_policy_value CACHE_NONE = ''none''"
| "cache_policy_value CACHE_MESSAGE = ''message''"
| "cache_policy_value CACHE_MESSAGE_VISUAL = ''message_visual''"
| "cache_policy_value CACHE_ASSET = ''asset''"

record stage_cache_key =
  ck_policy :: cache_policy
  ck_scope_identity :: string
  ck_value :: string

record cache_inputs =
  ci_stage_template_version_id :: string
  ci_prompt_version_id :: string
  ci_label_set_version_id :: string
  ci_structured_output_schema_hash :: string
  ci_inference_profile_version_id :: string
  ci_input_manifest_hash :: string

text \<open>The payload holds the stripped identifiers.\<close>

definition cache_payload :: "cache_policy \<Rightarrow> string \<Rightarrow> cache_inputs \<Rightarrow> (string \<times> string option) list" where
  "cache_payload policy identity c =
     [(''cache_policy'', Some (cache_policy_value policy)),
      (''scope_identity'', Some identity),
      (''stage_template_version_id'', Some (py_strip (ci_stage_template_version_id c))),
      (''prompt_version_id'', Some (py_strip (ci_prompt_version_id c))),
      (''label_set_version_id'', Some (py_strip (ci_label_set_version_id c))),
      (''structured_output_schema_hash'', Some (ci_structured_output_schema_hash c)),
      (''inference_profile_version_id'', Some (py_strip (ci_inference_profile_version_id c))),
      (''input_manifest_hash'', Some (ci_input_manifest_hash c))]"

definition build_cache_key ::
  "(string \<Rightarrow> string) \<Rightarrow> cache_policy \<Rightarrow> string option \<Rightarrow> cache_inputs \<Rightarrow> stage_cache_key option result" where
  "build_cache_key sha policy scope_identity c =
     (if policy = CACHE_NONE then Inr None
      else try_bind (validate_non_blank (case scope_identity of None \<Rightarrow> [] | Some s \<Rightarrow> s)) (\<lambda>identity.
        try_bind (validate_hash (ci_structured_output_schema_hash c)) (\<lambda>_.
        try_bind (validate_hash (ci_input_manifest_hash c)) (\<lambda>_.
        try_bind (validate_non_blank (ci_stage_template_version_id c)) (\<lambda>_.
        try_bind (validate_non_blank (ci_prompt_version_id c)) (\<lambda>_.
        try_bind (validate_non_blank (ci_label_set_version_id c)) (\<lambda>_.
        try_bind (validate_non_blank (ci_inference_profile_version_id c)) (\<lambda>_.
          Inr (Some \<lparr>ck_policy = policy, ck_scope_identity = identity,
            ck_value = sha (json_object (cache_payload policy identity c))\<rparr>)))))))))"

section \<open>A key stands for one meaning\<close>

lemma cache_policy_value_inj: "cache_policy_value p = cache_policy_value q \<longleftrightarrow> p = q"
  by (cases p; cases q) simp_all

lemma sorted_cache_payload:
  "sort_key fst (cache_payload policy identity c) =
     [(''cache_policy'', Some (cache_policy_value policy)),
      (''inference_profile_version_id'', Some (py_strip (ci_inference_profile_version_id c))),
      (''input_manifest_hash'', Some (ci_input_manifest_hash c)),
      (''label_set_version_id'', Some (py_strip (ci_label_set_version_id c))),
      (''prompt_version_id'', Some (py_strip (ci_prompt_version_id c))),
      (''scope_identity'', Some identity),
      (''stage_template_version_id'', Some (py_strip (ci_stage_template_version_id c))),
      (''structured_output_schema_hash'', Some (ci_structured_output_schema_hash c))]"
  by (simp add: cache_payload_def)

lemma cache_text_injective:
  "json_object (cache_payload p i c) = json_object (cache_payload q j d) \<Longrightarrow>
     sort_key fst (cache_payload p i c) = sort_key fst (cache_payload q j d)"
  by (simp add: json_object_def json_members_unique)

lemma build_cache_keyD:
  assumes "build_cache_key sha policy scope c = Inr (Some k)"
  shows "ck_policy k = policy" "ck_value k = sha (json_object (cache_payload policy (ck_scope_identity k) c))" "policy \<noteq> CACHE_NONE"
  using assms unfolding build_cache_key_def by (auto split: if_splits elim!: try_bindE)

text \<open>
  C27: Two stage runs share a cache key only if everything that defines their results agrees: the cache policy,
  the scope they are cached for, the versions of stage, prompt, label set and inference profile, the output
  schema and the input manifest; provided that SHA-256 tells the two canonical texts apart.
\<close>

theorem cache_key_identifies_semantics:
  assumes "build_cache_key sha p scope c = Inr (Some k)" and "build_cache_key sha q scope' d = Inr (Some l)"
    and "json_object (cache_payload p (ck_scope_identity k) c) \<noteq> json_object (cache_payload q (ck_scope_identity l) d) \<longrightarrow>
      sha (json_object (cache_payload p (ck_scope_identity k) c)) \<noteq> sha (json_object (cache_payload q (ck_scope_identity l) d))"
    and "ck_value k = ck_value l"
  shows "k = l \<and> p = q
    \<and> py_strip (ci_stage_template_version_id c) = py_strip (ci_stage_template_version_id d)
    \<and> py_strip (ci_prompt_version_id c) = py_strip (ci_prompt_version_id d)
    \<and> py_strip (ci_label_set_version_id c) = py_strip (ci_label_set_version_id d)
    \<and> py_strip (ci_inference_profile_version_id c) = py_strip (ci_inference_profile_version_id d)
    \<and> ci_structured_output_schema_hash c = ci_structured_output_schema_hash d
    \<and> ci_input_manifest_hash c = ci_input_manifest_hash d"
proof -
  note k = build_cache_keyD [OF assms(1)] and l = build_cache_keyD [OF assms(2)]
  from assms(3,4) have "json_object (cache_payload p (ck_scope_identity k) c) = json_object (cache_payload q (ck_scope_identity l) d)"
    by (auto simp: k(2) l(2))
  from cache_text_injective [OF this] show ?thesis
    using k(1) l(1) assms(4) unfolding sorted_cache_payload
    by (cases k; cases l) (simp add: cache_policy_value_inj)
qed

definition sample_cache_inputs :: "string \<Rightarrow> cache_inputs" where
  "sample_cache_inputs stage = \<lparr>ci_stage_template_version_id = stage, ci_prompt_version_id = ''p1'',
     ci_label_set_version_id = ''l1'', ci_structured_output_schema_hash = replicate 64 CHR ''a'',
     ci_inference_profile_version_id = ''i1'', ci_input_manifest_hash = replicate 64 CHR ''b''\<rparr>"

theorem cache_key_identifies_semantics_witness:
  "py_strip (ci_stage_template_version_id (sample_cache_inputs ''s1 '')) = py_strip (ci_stage_template_version_id (sample_cache_inputs ''s1''))"
proof -
  let ?key = "\<lambda>c. build_cache_key (\<lambda>t. t) CACHE_MESSAGE (Some ''m1'') c"
  let ?k = "\<lparr>ck_policy = CACHE_MESSAGE, ck_scope_identity = ''m1'',
      ck_value = json_object (cache_payload CACHE_MESSAGE ''m1'' (sample_cache_inputs ''s1''))\<rparr>"
  have a: "?key (sample_cache_inputs ''s1 '') = Inr (Some ?k)" by code_simp
  have b: "?key (sample_cache_inputs ''s1'') = Inr (Some ?k)" by code_simp
  from cache_key_identifies_semantics [OF a b] show ?thesis by simp
qed

end
