(* ===== verification/Input_Manifest.thy ===== *)
theory Input_Manifest
  imports Stage_Cache
begin

text \<open>
  Input manifests, \<^verbatim>\<open>domain/analysis/manifest.py\<close>: the immutable record of everything one inference call
  can see, identified by the hash of its canonical text.

  A manifest keeps its content as a value in the normal form that decoding its canonical text
  gives; the text itself is \<open>canonical_json\<close> of that value.
\<close>

record input_manifest =
  mn_version :: int
  mn_content :: "(string, pyval) dict"
  mn_hash :: string

fun execution_mode_value :: "execution_mode \<Rightarrow> string" where
  "execution_mode_value BATCH_MESSAGES = ''batch_messages''"
| "execution_mode_value SINGLE_MESSAGE = ''single_message''"
| "execution_mode_value PER_ASSET = ''per_asset''"
| "execution_mode_value BATCH_ASSETS = ''batch_assets''"

text \<open>The checks of \<^verbatim>\<open>__post_init__\<close>.\<close>

definition check_input_manifest :: "(string \<Rightarrow> string) \<Rightarrow> (rat \<Rightarrow> string) \<Rightarrow> input_manifest \<Rightarrow> input_manifest result" where
  "check_input_manifest sha float_text m =
     try_bind (validate_positive_int (mn_version m)) (\<lambda>_.
     try_bind (validate_hash (mn_hash m)) (\<lambda>_.
       if json_normal (PDict (mn_content m)) \<noteq> Some (PDict (mn_content m))
       then fail ''input manifest content must use canonical JSON''
       else try_bind (canonical_hash sha float_text (PDict (mn_content m))) (\<lambda>h.
         if h \<noteq> mn_hash m then fail ''input manifest hash does not match its content'' else Inr m)))"

definition validate_target_ids :: "string list \<Rightarrow> string list result" where
  "validate_target_ids target_ids =
     (if target_ids = [] then fail ''manifest target_ids must be a non-empty tuple''
      else try_bind (traverse validate_non_blank target_ids) (\<lambda>normalized.
        if \<not> distinct normalized then fail ''manifest target_ids must be unique'' else Inr normalized))"

definition manifest_content ::
  "int \<Rightarrow> label_scope \<Rightarrow> execution_mode \<Rightarrow> string list \<Rightarrow> string \<Rightarrow> string \<Rightarrow> string
     \<Rightarrow> (string, pyval) dict \<Rightarrow> (string, pyval) dict \<Rightarrow> (string, pyval) dict" where
  "manifest_content version scope mode targets prompt_version_id schema_hash profile_version_id inputs parameters =
     [(''manifest_version'', PInt version),
      (''target_scope'', PStr (scope_value scope)),
      (''execution_mode'', PStr (execution_mode_value mode)),
      (''target_ids'', PList (map PStr targets)),
      (''prompt_version_id'', PStr prompt_version_id),
      (''structured_output_schema_hash'', PStr schema_hash),
      (''inference_profile_version_id'', PStr profile_version_id),
      (''inputs'', PDict inputs),
      (''provider_parameters'', PDict parameters)]"

definition create_manifest ::
  "(string \<Rightarrow> string) \<Rightarrow> (rat \<Rightarrow> string) \<Rightarrow> int \<Rightarrow> label_scope \<Rightarrow> execution_mode \<Rightarrow> string list \<Rightarrow> string \<Rightarrow> string
     \<Rightarrow> string \<Rightarrow> (string, pyval) dict \<Rightarrow> (string, pyval) dict \<Rightarrow> input_manifest result" where
  "create_manifest sha float_text version scope mode target_ids prompt_version_id schema_hash profile_version_id
     inputs parameters =
     try_bind (validate_positive_int version) (\<lambda>_.
     try_bind (validate_target_ids target_ids) (\<lambda>targets.
     try_bind (validate_non_blank prompt_version_id) (\<lambda>prompt.
     try_bind (validate_hash schema_hash) (\<lambda>_.
     try_bind (validate_non_blank profile_version_id) (\<lambda>profile.
     try_bind (require_json_object (PDict inputs)) (\<lambda>ins.
     try_bind (require_json_object (PDict parameters)) (\<lambda>ps.
       let content = PDict (manifest_content version scope mode targets prompt schema_hash profile ins ps)
       in try_bind (canonical_hash sha float_text content) (\<lambda>h.
            case json_normal content of
              Some (PDict c) \<Rightarrow> check_input_manifest sha float_text \<lparr>mn_version = version, mn_content = c, mn_hash = h\<rparr>
            | _ \<Rightarrow> fail ''value must be finite JSON-compatible data''))))))))"

section \<open>What a manifest depends on\<close>

lemma require_json_object_perm:
  assumes "mset d = mset d'" and "distinct (map fst d)"
  shows "require_json_object (PDict d) = require_json_object (PDict d')"
proof -
  have "json_normal (PDict d) = json_normal (PDict d')"
    using arg_cong [OF json_normal_items_perm [OF assms], of "map_option PDict"] by (simp add: option.map_comp comp_def)
  then show ?thesis by (simp only: require_json_object_def pyval.case)
qed

text \<open>
  C28: A manifest is canonical: creation passes the checks that reading one makes, its hash is that of its
  own content, which is in normal form, and the order in which the inputs and the provider parameters were
  collected does not change it.
\<close>

theorem created_manifest_is_canonical:
  assumes "create_manifest sha ft version scope mode targets prompt schema_hash profile inputs parameters = Inr m"
    and "mset inputs' = mset inputs" "distinct (map fst inputs)" "mset parameters' = mset parameters" "distinct (map fst parameters)"
  shows "check_input_manifest sha ft m = Inr m
    \<and> canonical_hash sha ft (PDict (mn_content m)) = Inr (mn_hash m)
    \<and> json_normal (PDict (mn_content m)) = Some (PDict (mn_content m))
    \<and> create_manifest sha ft version scope mode targets prompt schema_hash profile inputs' parameters' = Inr m"
proof -
  from assms(1) obtain h c where "check_input_manifest sha ft \<lparr>mn_version = version, mn_content = c, mn_hash = h\<rparr> = Inr m"
    unfolding create_manifest_def Let_def by (auto elim!: try_bindE split: option.splits pyval.splits)
  then have "check_input_manifest sha ft m = Inr m" and
    c: "canonical_hash sha ft (PDict (mn_content m)) = Inr (mn_hash m)"
      "json_normal (PDict (mn_content m)) = Some (PDict (mn_content m))"
    unfolding check_input_manifest_def by (auto elim!: try_bindE split: if_splits simp del: json_normal.simps)
  moreover have "create_manifest sha ft version scope mode targets prompt schema_hash profile inputs' parameters'
      = create_manifest sha ft version scope mode targets prompt schema_hash profile inputs parameters"
    unfolding create_manifest_def
    by (simp only: require_json_object_perm [OF assms(2) [symmetric] assms(3)] require_json_object_perm [OF assms(4) [symmetric] assms(5)])
  ultimately show ?thesis using assms(1) by simp
qed

theorem created_manifest_is_canonical_witness:
  "create_manifest (\<lambda>t. replicate 64 CHR ''a'') (\<lambda>q. []) 1 GLOBAL SINGLE_MESSAGE [''m1''] ''p1'' (replicate 64 CHR ''b'') ''i1''
       [(''text'', PStr ''x''), (''media'', PList [])] []
     = create_manifest (\<lambda>t. replicate 64 CHR ''a'') (\<lambda>q. []) 1 GLOBAL SINGLE_MESSAGE [''m1''] ''p1'' (replicate 64 CHR ''b'') ''i1''
       [(''media'', PList []), (''text'', PStr ''x'')] []"
proof -
  let ?make = "\<lambda>ins. create_manifest (\<lambda>t. replicate 64 CHR ''a'') (\<lambda>q. []) 1 GLOBAL SINGLE_MESSAGE [''m1''] ''p1'' (replicate 64 CHR ''b'') ''i1'' ins []"
  have "\<not> isl (?make [(''media'', PList []), (''text'', PStr ''x'')])" by code_simp
  then obtain m where m: "?make [(''media'', PList []), (''text'', PStr ''x'')] = Inr m" by (metis isl_def sum.exhaust)
  from created_manifest_is_canonical [OF m, of "[(''text'', PStr ''x''), (''media'', PList [])]" "[]"] m show ?thesis by simp
qed

end
