(* ===== verification/Output_Schema.thy ===== *)
theory Output_Schema
  imports Input_Manifest
begin

text \<open>
  The JSON schema that a model is asked to answer with, \<^verbatim>\<open>domain/analysis/schema.py\<close>.

  What is shown: for a stage with one target a response conforms to the schema, read by the rules of JSON
  schema, exactly when the validator of \<open>Result_Validator\<close> accepts it without an issue; only that no label
  is listed twice is checked by the validator and not expressed in the schema.
\<close>

section \<open>The builder\<close>

fun structured_output_mode_value :: "structured_output_mode \<Rightarrow> string" where
  "structured_output_mode_value DENSE_SCORES = ''dense_scores''"
| "structured_output_mode_value SPARSE_MATCHES = ''sparse_matches''"

record structured_output_schema =
  sx_document :: "(string, pyval) dict"
  sx_canonical_json :: string
  sx_schema_hash :: string

text \<open>An object whose fields are all required and which has no others.\<close>

definition object_schema :: "(string, pyval) dict \<Rightarrow> (string, pyval) dict" where
  "object_schema props =
     [(''type'', PStr ''object''), (''additionalProperties'', PBool False), (''properties'', PDict props),
      (''required'', PList (map (\<lambda>(k, s). PStr k) props))]"

definition string_schema :: "(string, pyval) dict" where
  "string_schema = [(''type'', PStr ''string'')]"

definition choice_schema :: "string list \<Rightarrow> (string, pyval) dict" where
  "choice_schema texts = [(''type'', PStr ''string''), (''enum'', PList (map PStr texts))]"

definition score_schema :: "(string, pyval) dict" where
  "score_schema = [(''type'', PStr ''number''), (''minimum'', PFloat (Fin 0)), (''maximum'', PFloat (Fin 1))]"

definition array_schema :: "(string, pyval) dict \<Rightarrow> (string, pyval) dict" where
  "array_schema items = [(''type'', PStr ''array''), (''items'', PDict items)]"

definition score_field :: "structured_output_policy \<Rightarrow> label_set_version \<Rightarrow> string \<times> pyval" where
  "score_field policy labels =
     (if op_mode policy = DENSE_SCORES
      then (''scores'', PDict (object_schema (map (\<lambda>k. (k, PDict score_schema)) (label_keys labels))))
      else (''matches'', PDict (array_schema (object_schema
             [(''label_key'', PDict (choice_schema (label_keys labels))), (''score'', PDict score_schema)]))))"

definition result_item_fields :: "structured_output_policy \<Rightarrow> label_set_version \<Rightarrow> (string, pyval) dict" where
  "result_item_fields policy labels =
     score_field policy labels
     # (if op_include_reason policy then [(''reason'', PDict string_schema)] else [])
     @ (if op_include_evidence policy then [(''evidence'', PDict (array_schema string_schema))] else [])"

definition schema_targets :: "string list \<Rightarrow> string list result" where
  "schema_targets target_ids =
     (if target_ids = [] then fail ''expected target IDs must be a non-empty tuple''
      else try_bind (traverse validate_non_blank target_ids) (\<lambda>normalized.
        if \<not> distinct normalized then fail ''expected target IDs must be unique'' else Inr normalized))"

definition schema_document ::
  "string \<Rightarrow> (string, pyval) dict \<Rightarrow> string \<Rightarrow> label_set_version \<Rightarrow> execution_mode \<Rightarrow> structured_output_policy
     \<Rightarrow> (string, pyval) dict" where
  "schema_document title props version labels mode policy =
     [(''$schema'', PStr ''https://json-schema.org/draft/2020-12/schema''), (''title'', PStr title)]
     @ object_schema props
     @ [(''x-tgcurator'', PDict
          [(''schema_version'', PInt 1), (''stage_template_version_id'', PStr version),
           (''label_set_version_id'', PStr (ls_version_id labels)),
           (''execution_mode'', PStr (execution_mode_value mode)),
           (''structured_output_mode'', PStr (structured_output_mode_value (op_mode policy)))])]"

definition build_document ::
  "string \<Rightarrow> label_set_version \<Rightarrow> execution_mode \<Rightarrow> structured_output_policy \<Rightarrow> string list
     \<Rightarrow> (string, pyval) dict result" where
  "build_document version labels mode policy targets =
     (case target_field_for_mode mode of
        Some field \<Rightarrow>
          Inr (schema_document ''TGCuratorAnalysisBatchV1''
            [(''results'', PDict (array_schema (object_schema
                ((field, PDict (choice_schema targets)) # result_item_fields policy labels))
                @ [(''minItems'', PInt 0), (''maxItems'', PInt (int (length targets)))]))]
            version labels mode policy)
      | None \<Rightarrow>
          if length targets \<noteq> 1 then fail ''non-batch execution requires exactly one target''
          else Inr (schema_document ''TGCuratorAnalysisResultV1''
            [(''result'', PDict (object_schema (result_item_fields policy labels)))] version labels mode policy))"

definition build_schema ::
  "(string \<Rightarrow> string) \<Rightarrow> (rat \<Rightarrow> string) \<Rightarrow> string \<Rightarrow> label_set_version \<Rightarrow> execution_mode \<Rightarrow> structured_output_policy
     \<Rightarrow> string list \<Rightarrow> structured_output_schema result" where
  "build_schema sha float_text version labels mode policy target_ids =
     try_bind (validate_non_blank version) (\<lambda>_.
     try_bind (schema_targets target_ids) (\<lambda>targets.
     try_bind (build_document version labels mode policy targets) (\<lambda>document.
     try_bind (canonical_json float_text (PDict document)) (\<lambda>serialized.
     try_bind (canonical_hash sha float_text (PDict document)) (\<lambda>h.
       Inr \<lparr>sx_document = document, sx_canonical_json = serialized, sx_schema_hash = h\<rparr>)))))"

section \<open>What a schema means\<close>

text \<open>
  The keywords that occur in the schemas above, with the meaning that JSON schema gives them.  Numbers are
  integers and finite floats; a Boolean is not a number.
\<close>

fun has_type :: "string \<Rightarrow> pyval \<Rightarrow> bool" where
  "has_type t (PDict d) = (t = ''object'')"
| "has_type t (PList xs) = (t = ''array'')"
| "has_type t (PStr s) = (t = ''string'')"
| "has_type t (PInt i) = (t = ''number'')"
| "has_type t (PFloat f) = (t = ''number'' \<and> fl_finite f)"
| "has_type t _ = False"

definition bounded_by :: "(py_float \<Rightarrow> py_float \<Rightarrow> bool) \<Rightarrow> pyval option \<Rightarrow> pyval \<Rightarrow> bool" where
  "bounded_by r limit v =
     (case (map_option num_val limit, num_val v) of (Some (Some b), Some x) \<Rightarrow> r b x | _ \<Rightarrow> True)"

lemma size_member: "x \<in> set xs \<Longrightarrow> f x < Suc (size_list f xs)"
  by (induction xs) auto

lemma size_keyword:
  assumes "map_of s k = Some (PDict p)"
  shows "size_list (size_prod (\<lambda>x. 0) size) p < size_list (size_prod (\<lambda>x. 0) size) s"
  using size_member [OF map_of_SomeD [OF assms], of "size_prod (\<lambda>x. 0) size"] by simp

lemma size_property:
  assumes "map_of s k = Some (PDict props)" and "(f, PDict p) \<in> set props"
  shows "size_list (size_prod (\<lambda>x. 0) size) p < size_list (size_prod (\<lambda>x. 0) size) s"
  using size_member [OF assms(2), of "size_prod (\<lambda>x. 0) size"] size_keyword [OF assms(1)] by simp

function conforms :: "(string, pyval) dict \<Rightarrow> pyval \<Rightarrow> bool" where
  "conforms s v \<longleftrightarrow>
     (case map_of s ''type'' of Some (PStr t) \<Rightarrow> has_type t v | _ \<Rightarrow> True)
     \<and> (case map_of s ''enum'' of Some (PList xs) \<Rightarrow> v \<in> set xs | _ \<Rightarrow> True)
     \<and> bounded_by fl_le (map_of s ''minimum'') v
     \<and> bounded_by (\<lambda>b x. fl_le x b) (map_of s ''maximum'') v
     \<and> (case (map_of s ''required'', v) of
          (Some (PList ks), PDict d) \<Rightarrow> set ks \<subseteq> (\<lambda>(k, x). PStr k) ` set d | _ \<Rightarrow> True)
     \<and> (case map_of s ''properties'' of
          Some (PDict props) \<Rightarrow>
            (case v of
               PDict d \<Rightarrow>
                 (map_of s ''additionalProperties'' = Some (PBool False) \<longrightarrow> set (map fst d) \<subseteq> set (map fst props))
                 \<and> (\<forall>f \<in> set props. case f of
                      (k, PDict p) \<Rightarrow> (case map_of d k of None \<Rightarrow> True | Some x \<Rightarrow> conforms p x) | _ \<Rightarrow> True)
             | _ \<Rightarrow> True)
        | _ \<Rightarrow> True)
     \<and> (case map_of s ''items'' of
          Some (PDict i) \<Rightarrow> (case v of PList xs \<Rightarrow> (\<forall>x \<in> set xs. conforms i x) | _ \<Rightarrow> True)
        | _ \<Rightarrow> True)
     \<and> (case v of PList xs \<Rightarrow> bounded_by fl_le (map_of s ''minItems'') (PInt (int (length xs)))
          \<and> bounded_by (\<lambda>b x. fl_le x b) (map_of s ''maxItems'') (PInt (int (length xs))) | _ \<Rightarrow> True)"
  by pat_completeness auto
termination
  by (relation "measure (\<lambda>(s, v). size (PDict s))") (auto dest: size_keyword size_property)

declare conforms.simps [simp del]

lemma conforms_keywords:
  assumes "\<And>k. k \<in> {''type'', ''enum'', ''minimum'', ''maximum'', ''required'', ''properties'', ''additionalProperties'',
      ''items'', ''minItems'', ''maxItems''} \<Longrightarrow> map_of s k = map_of s' k"
  shows "conforms s v = conforms s' v"
proof -
  have e: "map_of s ''type'' = map_of s' ''type''" "map_of s ''enum'' = map_of s' ''enum''"
    "map_of s ''minimum'' = map_of s' ''minimum''" "map_of s ''maximum'' = map_of s' ''maximum''"
    "map_of s ''required'' = map_of s' ''required''" "map_of s ''properties'' = map_of s' ''properties''"
    "map_of s ''additionalProperties'' = map_of s' ''additionalProperties''" "map_of s ''items'' = map_of s' ''items''"
    "map_of s ''minItems'' = map_of s' ''minItems''" "map_of s ''maxItems'' = map_of s' ''maxItems''"
    by (simp_all add: assms)
  show ?thesis unfolding conforms.simps [of s] conforms.simps [of s'] e by (rule HOL.refl)
qed

definition fields_conform :: "(string, pyval) dict \<Rightarrow> (string, pyval) dict \<Rightarrow> bool" where
  "fields_conform props d \<longleftrightarrow> set (map fst d) = set (map fst props)
     \<and> (\<forall>k p. (k, PDict p) \<in> set props \<longrightarrow> conforms p (the (map_of d k)))"

lemma conforms_object:
  "conforms (object_schema props) v \<longleftrightarrow> (\<exists>d. v = PDict d \<and> fields_conform props d)"
proof (cases v)
  case (PDict d)
  have r: "(\<lambda>x. case x of (k, s) \<Rightarrow> PStr k) ` set props \<subseteq> (\<lambda>(k, x). PStr k) ` set d \<longleftrightarrow> fst ` set props \<subseteq> fst ` set d"
    by (auto simp: image_iff subset_iff) force+
  have some: "\<exists>x. map_of d k = Some x" if "fst ` set props = fst ` set d" "(k, y) \<in> set props" for k y
  proof -
    from that have "k \<in> dom (map_of d)" unfolding dom_map_of_conv_image_fst by force
    then show ?thesis by blast
  qed
  have p: "(\<forall>f \<in> set props. case f of
        (k, PDict p) \<Rightarrow> (case map_of d k of None \<Rightarrow> True | Some x \<Rightarrow> conforms p x) | _ \<Rightarrow> True) \<longleftrightarrow>
      (\<forall>k p. (k, PDict p) \<in> set props \<longrightarrow> conforms p (the (map_of d k)))"
    if e: "fst ` set props = fst ` set d"
  proof (intro iffI allI impI ballI)
    fix k p assume f: "\<forall>f \<in> set props. case f of
      (k, PDict p) \<Rightarrow> (case map_of d k of None \<Rightarrow> True | Some x \<Rightarrow> conforms p x) | _ \<Rightarrow> True" and k: "(k, PDict p) \<in> set props"
    from bspec [OF f k] some [OF e k] show "conforms p (the (map_of d k))" by auto
  next
    fix f assume a: "\<forall>k p. (k, PDict p) \<in> set props \<longrightarrow> conforms p (the (map_of d k))" and f: "f \<in> set props"
    obtain k y where "f = (k, y)" by (cases f)
    moreover from this a f have "y = PDict p \<Longrightarrow> conforms p (the (map_of d k))" for p by simp
    ultimately show "case f of (k, PDict p) \<Rightarrow> (case map_of d k of None \<Rightarrow> True | Some x \<Rightarrow> conforms p x) | _ \<Rightarrow> True"
      using some [OF e, of k y] f by (cases y) auto
  qed
  have "conforms (object_schema props) v \<longleftrightarrow> fst ` set props \<subseteq> fst ` set d \<and> fst ` set d \<subseteq> fst ` set props
      \<and> (\<forall>f \<in> set props. case f of
        (k, PDict p) \<Rightarrow> (case map_of d k of None \<Rightarrow> True | Some x \<Rightarrow> conforms p x) | _ \<Rightarrow> True)"
    unfolding conforms.simps [of "object_schema props"] PDict by (simp add: object_schema_def bounded_by_def r)
  then show ?thesis unfolding fields_conform_def using p by (auto simp: PDict)
qed (unfold conforms.simps [of "object_schema props"], simp_all add: object_schema_def)

lemma conforms_string: "conforms string_schema v \<longleftrightarrow> (\<exists>s. v = PStr s)"
  unfolding conforms.simps [of string_schema] by (cases v) (simp_all add: string_schema_def bounded_by_def)

lemma conforms_choice: "conforms (choice_schema ts) v \<longleftrightarrow> (\<exists>s \<in> set ts. v = PStr s)"
  unfolding conforms.simps [of "choice_schema ts"] by (cases v) (auto simp: choice_schema_def bounded_by_def)

lemma conforms_score: "conforms score_schema v \<longleftrightarrow> (\<exists>q. validate_score v = Inr q)"
proof (cases v)
  case (PFloat f)
  then show ?thesis unfolding conforms.simps [of score_schema] validate_score_Inr
    by (cases f) (simp_all add: score_schema_def bounded_by_def)
qed (unfold conforms.simps [of score_schema] validate_score_Inr, simp_all add: score_schema_def bounded_by_def)

lemma conforms_array: "conforms (array_schema i) v \<longleftrightarrow> (\<exists>xs. v = PList xs \<and> (\<forall>x \<in> set xs. conforms i x))"
  unfolding conforms.simps [of "array_schema i"] by (cases v) (simp_all add: array_schema_def bounded_by_def)

section \<open>The validator accepts what conforms\<close>

text \<open>What the schema does not say: a list of matches names no label twice.\<close>

definition match_label :: "pyval \<Rightarrow> string option" where
  "match_label m = text_target ''label_key'' m"

definition labels_unrepeated :: "structured_output_policy \<Rightarrow> (string, pyval) dict \<Rightarrow> bool" where
  "labels_unrepeated policy item \<longleftrightarrow>
     (op_mode policy = SPARSE_MATCHES \<longrightarrow>
       (case map_of item ''matches'' of Some (PList ms) \<Rightarrow> distinct (map match_label ms) | _ \<Rightarrow> True))"

lemma checked_score_cases:
  "(\<exists>q. validate_score v = Inr q \<and> checked_score v = Inr (Inr q))
     \<or> (\<nexists>q. validate_score v = Inr q) \<and> (\<nexists>q. checked_score v = Inr (Inr q))"
  using checked_score_Inr [of v] by blast

lemma dense_scores_accepted:
  "(\<exists>d. dense_scores scores keys = Inr (Inr d)) \<longleftrightarrow> (\<forall>k \<in> set keys. \<exists>q. validate_score (the (map_of scores k)) = Inr q)"
proof
  assume "\<exists>d. dense_scores scores keys = Inr (Inr d)"
  then obtain d where d: "map fst d = keys" "\<forall>(k, q) \<in> set d. validate_score (the (map_of scores k)) = Inr q"
    unfolding dense_scores_Inr by blast
  then show "\<forall>k \<in> set keys. \<exists>q. validate_score (the (map_of scores k)) = Inr q" by fastforce
next
  assume "\<forall>k \<in> set keys. \<exists>q. validate_score (the (map_of scores k)) = Inr q"
  then obtain f where f: "\<And>k. k \<in> set keys \<Longrightarrow> validate_score (the (map_of scores k)) = Inr (f k)" by metis
  show "\<exists>d. dense_scores scores keys = Inr (Inr d)"
    unfolding dense_scores_Inr by (rule exI [of _ "map (\<lambda>k. (k, f k)) keys"]) (auto simp: f comp_def)
qed

definition match_fields :: "string list \<Rightarrow> (string, pyval) dict" where
  "match_fields keys = [(''label_key'', PDict (choice_schema keys)), (''score'', PDict score_schema)]"

lemma fields_conform_match:
  "fields_conform (match_fields keys) d \<longleftrightarrow> set (map fst d) = {''label_key'', ''score''}
     \<and> (\<exists>key \<in> set keys. map_of d ''label_key'' = Some (PStr key)) \<and> (\<exists>q. validate_score (the (map_of d ''score'')) = Inr q)"
proof (cases "set (map fst d) = {''label_key'', ''score''}")
  case True
  then have "''label_key'' \<in> dom (map_of d)" by (simp add: dom_map_of_conv_image_fst)
  then have k: "the (map_of d ''label_key'') = PStr key \<longleftrightarrow> map_of d ''label_key'' = Some (PStr key)" for key by auto
  have "(\<forall>k p. (k, PDict p) \<in> set (match_fields keys) \<longrightarrow> conforms p (the (map_of d k))) \<longleftrightarrow>
      conforms (choice_schema keys) (the (map_of d ''label_key'')) \<and> conforms score_schema (the (map_of d ''score''))"
    by (auto simp: match_fields_def)
  with True show ?thesis by (simp add: fields_conform_def conforms_choice conforms_score k match_fields_def)
qed (simp add: fields_conform_def match_fields_def)

lemma sparse_scores_accepted:
  "(\<exists>d. sparse_scores keys n ms = Inr (Inr d)) \<longleftrightarrow>
     (\<forall>m \<in> set ms. conforms (object_schema (match_fields keys)) m) \<and> distinct (map match_label ms)
     \<and> (\<forall>m \<in> set ms. \<forall>key. match_label m = Some key \<longrightarrow> map_of n key = None)"
proof (induction ms arbitrary: n)
  case (Cons m ms)
  show ?case
  proof (cases "conforms (object_schema (match_fields keys)) m")
    case True
    then obtain d key q where m: "m = PDict d" "set (map fst d) = {''label_key'', ''score''}" "key \<in> set keys"
        "map_of d ''label_key'' = Some (PStr key)" "validate_score (the (map_of d ''score'')) = Inr q"
      unfolding conforms_object fields_conform_match by (elim exE conjE bexE) (rule that)
    then have l: "match_label m = Some key" by (simp add: match_label_def text_target_def)
    have c: "checked_score (the (map_of d ''score'')) = Inr (Inr q)" using m(5) by (simp add: checked_score_Inr)
    have s: "sparse_scores keys n (m # ms) =
        (if dict_has key n then Inr (Inl ''sparse_match_duplicate_label'') else sparse_scores keys (dict_set key q n) ms)"
      by (simp only: sparse_scores.simps m(1,2,4) pyval.case option.case m(3) c try_bind_simps sum.case simp_thms if_False)
    show ?thesis
    proof (cases "dict_has key n")
      case True
      then show ?thesis unfolding s using l by (auto simp: dict_has_iff)
    next
      case False
      then have "map_of n key = None" by (simp add: dict_has_iff)
      moreover have "(\<forall>m \<in> set ms. \<forall>k. match_label m = Some k \<longrightarrow> map_of (dict_set key q n) k = None) \<longleftrightarrow>
          Some key \<notin> match_label ` set ms \<and> (\<forall>m \<in> set ms. \<forall>k. match_label m = Some k \<longrightarrow> map_of n k = None)"
      proof -
        have "map_of (dict_set key q n) k = None \<longleftrightarrow> k \<noteq> key \<and> map_of n k = None" for k by (simp add: map_of_dict_set)
        moreover have "Some key \<notin> match_label ` set ms \<longleftrightarrow> (\<forall>m \<in> set ms. match_label m \<noteq> Some key)" by force
        ultimately show ?thesis by auto
      qed
      ultimately show ?thesis unfolding s using False l \<open>conforms _ m\<close> by (simp add: Cons.IH) blast
    qed
  next
    case False
    have "sparse_scores keys n (m # ms) \<noteq> Inr (Inr d)" for d
    proof
      assume a: "sparse_scores keys n (m # ms) = Inr (Inr d)"
      then obtain e where m: "m = PDict e" by (cases m) simp_all
      from a [unfolded m] show False
      proof (rule sparse_scores_step)
        fix key v q
        assume "map_of e ''label_key'' = Some (PStr key)" "map_of e ''score'' = Some v" "validate_score v = Inr q"
          "key \<in> set keys" "set (map fst e) = {''label_key'', ''score''}"
        then have "fields_conform (match_fields keys) e" unfolding fields_conform_match by (simp del: set_map)
        with False m show False by (simp add: conforms_object)
      qed
    qed
    with False show ?thesis by auto
  qed
qed simp

lemma dense_field:
  assumes "op_mode policy = DENSE_SCORES" and "distinct (label_keys labels)"
  shows "(\<exists>d. item_scores policy labels item = Inr (Inr d)) \<longleftrightarrow>
    (\<exists>x. map_of item ''scores'' = Some x \<and> conforms (object_schema (map (\<lambda>k. (k, PDict score_schema)) (label_keys labels))) x)"
proof -
  have "fields_conform (map (\<lambda>k. (k, PDict score_schema)) (label_keys labels)) d \<longleftrightarrow>
      set (map fst d) = set (label_keys labels) \<and> (\<exists>x. dense_scores d (label_keys labels) = Inr (Inr x))" for d
    proof -
    have "(\<forall>k p. (k, PDict p) \<in> set (map (\<lambda>k. (k, PDict score_schema)) ks) \<longrightarrow> conforms p (the (map_of d k)))
        \<longleftrightarrow> (\<forall>k \<in> set ks. conforms score_schema (the (map_of d k)))" for ks by (auto simp: image_iff)
    then show ?thesis by (simp add: fields_conform_def dense_scores_accepted conforms_score comp_def)
  qed
  with assms(1) show ?thesis
    unfolding item_scores_def conforms_object by (auto split: option.split pyval.split simp del: set_map)
qed

lemma sparse_field:
  assumes "op_mode policy = SPARSE_MATCHES"
  shows "(\<exists>d. item_scores policy labels item = Inr (Inr d)) \<longleftrightarrow> labels_unrepeated policy item
    \<and> (\<exists>x. map_of item ''matches'' = Some x \<and> conforms (array_schema (object_schema (match_fields (label_keys labels)))) x)"
  unfolding item_scores_def conforms_array labels_unrepeated_def
  by (auto simp: assms sparse_scores_accepted split: option.split pyval.split)

text \<open>Scores that were read resolve to labels.\<close>

lemma sparse_scores_range:
  "sparse_scores keys n ms = Inr (Inr d) \<Longrightarrow> \<forall>(k, q) \<in> set n. k \<in> set keys \<and> 0 \<le> q \<and> q \<le> 1 \<Longrightarrow>
     \<forall>(k, q) \<in> set d. k \<in> set keys \<and> 0 \<le> q \<and> q \<le> 1"
proof (induction ms arbitrary: n)
  case (Cons m ms)
  from Cons.prems(1) obtain e where m: "m = PDict e" by (cases m) auto
  from Cons.prems(1) [unfolded m] show ?case
  proof (rule sparse_scores_step)
    fix key v q
    assume "validate_score v = Inr q" "key \<in> set keys" and rest: "sparse_scores keys (dict_set key q n) ms = Inr (Inr d)"
    then have "\<forall>(k, q) \<in> set (dict_set key q n). k \<in> set keys \<and> 0 \<le> q \<and> q \<le> 1"
      using Cons.prems(2) validate_score_bounds set_dict_set [of key q n] by fastforce
    with Cons.IH [OF rest] show ?case by blast
  qed
qed simp

lemma item_scores_range:
  assumes "item_scores policy labels item = Inr (Inr d)"
  shows "\<forall>(k, q) \<in> set d. k \<in> set (label_keys labels) \<and> 0 \<le> q \<and> q \<le> 1"
proof (cases "op_mode policy")
  case DENSE_SCORES
  with assms obtain scores where "dense_scores scores (label_keys labels) = Inr (Inr d)"
    by (auto simp: item_scores_def split: option.splits pyval.splits if_splits)
  then have k: "map fst d = label_keys labels" and q: "\<forall>(k, q) \<in> set d. validate_score (the (map_of scores k)) = Inr q"
    unfolding dense_scores_Inr by blast+
  have "fst e \<in> set (label_keys labels)" if "e \<in> set d" for e using that k [symmetric] by simp
  with q validate_score_bounds show ?thesis by fastforce
next
  case SPARSE_MATCHES
  with assms obtain ms where "sparse_scores (label_keys labels) [] ms = Inr (Inr d)"
    by (auto simp: item_scores_def split: option.splits pyval.splits if_splits)
  then show ?thesis by (rule sparse_scores_range) simp
qed

lemma resolve_scores_total:
  assumes distinct: "distinct (map binding_key (ls_bindings labels))"
    and range: "\<forall>(k, q) \<in> set d. k \<in> set (label_keys labels) \<and> 0 \<le> q \<and> q \<le> 1"
  shows "\<exists>r. resolve_scores labels (map (\<lambda>(k, q). (k, PFloat (Fin q))) d) = Inr r"
proof -
  let ?s = "map (\<lambda>(k, q). (k, PFloat (Fin q))) d"
  have score: "validate_score (the (map_of ?s (binding_key b))) = Inr (the (map_of d (binding_key b)))"
    if "b \<in> set (scored_bindings labels ?s)" for b
  proof -
    from that have "binding_key b \<in> fst ` set ?s" by (simp add: scored_bindings_def dict_has_def)
    then have "binding_key b \<in> dom (map_of d)" unfolding dom_map_of_conv_image_fst by force
    then obtain q where q: "map_of d (binding_key b) = Some q" by blast
    then have "map_of ?s (binding_key b) = Some (PFloat (Fin q))" by (simp add: map_of_map)
    with q range map_of_SomeD [OF q] show ?thesis by (auto simp: validate_score_Inr)
  qed
  have "resolve_scores labels ?s = Inr (map (\<lambda>b. resolve_label b (the (map_of d (binding_key b)))) (scored_bindings labels ?s))"
    unfolding resolve_scores_Inr [OF distinct] list_all2_map2
    using range score by (auto simp: list.rel_refl_strong intro!: list.rel_refl_strong)
  then show ?thesis by blast
qed

lemma is_text: "(case x of PStr s \<Rightarrow> True | _ \<Rightarrow> False) \<longleftrightarrow> (\<exists>s. x = PStr s)"
  by (cases x) simp_all

lemma text_list_conforms: "text_list v \<noteq> None \<longleftrightarrow> conforms (array_schema string_schema) v"
  unfolding conforms_array conforms_string by (cases v) (simp_all add: text_list_def is_text list_all_iff)

lemma item_scores_accepted:
  assumes "distinct (map binding_key (ls_bindings labels))"
    and "score_field policy labels = (k, PDict p)" and "k \<in> fst ` set item"
  shows "(\<exists>d. item_scores policy labels item = Inr (Inr d)) \<longleftrightarrow>
    labels_unrepeated policy item \<and> conforms p (the (map_of item k))"
proof -
  from assms(3) have "k \<in> dom (map_of item)" by (simp add: dom_map_of_conv_image_fst)
  then obtain x where x: "map_of item k = Some x" by blast
  have d: "distinct (label_keys labels)"
    using assms(1) by (simp add: label_keys_def ordered_bindings_def distinct_map_sort_key)
  show ?thesis
  proof (cases "op_mode policy")
    case DENSE_SCORES
    with assms(2) x dense_field [OF DENSE_SCORES d, of item] show ?thesis
      by (auto simp: score_field_def labels_unrepeated_def)
  next
    case SPARSE_MATCHES
    with assms(2) x sparse_field [OF SPARSE_MATCHES, of labels item] show ?thesis
      by (auto simp: score_field_def match_fields_def)
  qed
qed

lemma result_item_accepted:
  assumes distinct: "distinct (map binding_key (ls_bindings labels))"
    and names: "set (map fst item) = set (expected_fields field policy)"
  shows "(\<exists>r. validate_result_item item t field policy labels = Inr (Inr r)) \<longleftrightarrow> labels_unrepeated policy item
    \<and> (\<forall>k p. (k, PDict p) \<in> set (result_item_fields policy labels) \<longrightarrow> conforms p (the (map_of item k)))"
proof -
  obtain k p where f: "score_field policy labels = (k, PDict p)" "k = (if op_mode policy = DENSE_SCORES then ''scores'' else ''matches'')"
    by (cases "op_mode policy = DENSE_SCORES") (simp_all add: score_field_def)
  with names have "k \<in> fst ` set item" by (simp add: expected_fields_def)
  note scores = item_scores_accepted [OF distinct f(1) this]
  have reason: "(case map_of item ''reason'' of Some (PStr _) \<Rightarrow> False | _ \<Rightarrow> True) \<longleftrightarrow>
      \<not> conforms string_schema (the (map_of item ''reason''))" if "op_include_reason policy"
  proof -
    from that names have "''reason'' \<in> dom (map_of item)" by (simp add: expected_fields_def dom_map_of_conv_image_fst)
    then show ?thesis by (auto simp: conforms_string split: pyval.split)
  qed
  have evidence: "text_list (case map_of item ''evidence'' of None \<Rightarrow> PList [] | Some v \<Rightarrow> v) = None \<longleftrightarrow>
      \<not> conforms (array_schema string_schema) (the (map_of item ''evidence''))" if "op_include_evidence policy"
  proof -
    from that names have "''evidence'' \<in> dom (map_of item)" by (simp add: expected_fields_def dom_map_of_conv_image_fst)
    then show ?thesis by (auto simp: text_list_conforms [symmetric])
  qed
  have props: "(\<forall>k p. (k, PDict p) \<in> set (result_item_fields policy labels) \<longrightarrow> conforms p (the (map_of item k))) \<longleftrightarrow>
      conforms p (the (map_of item k))
      \<and> (op_include_reason policy \<longrightarrow> conforms string_schema (the (map_of item ''reason'')))
      \<and> (op_include_evidence policy \<longrightarrow> conforms (array_schema string_schema) (the (map_of item ''evidence'')))"
    by (auto simp: result_item_fields_def f(1))
  have total: "item_scores policy labels item = Inr (Inr d) \<Longrightarrow>
      \<exists>r. resolve_scores labels (map (\<lambda>(k, q). (k, PFloat (Fin q))) d) = Inr r" for d
    by (rule resolve_scores_total [OF distinct item_scores_range])
  have "(\<exists>r. validate_result_item item t field policy labels = Inr (Inr r)) \<longleftrightarrow>
      (\<exists>d. item_scores policy labels item = Inr (Inr d))
      \<and> (op_include_reason policy \<longrightarrow> conforms string_schema (the (map_of item ''reason'')))
      \<and> (op_include_evidence policy \<longrightarrow> conforms (array_schema string_schema) (the (map_of item ''evidence'')))"
    using names reason evidence total
    by (auto simp: validate_result_item_def try_bind_Inr case_accepted simp del: set_map)
  then show ?thesis using scores props by blast
qed

text \<open>
  C13: The schema and the validator agree: for a stage with one target a response conforms to the schema that
  was built for it exactly when the validator accepts it as a complete answer, except that only the
  validator refuses matches that name a label twice.
\<close>

theorem schema_agrees_with_validator:
  assumes "check_label_set s0 = Inr labels"
    and "build_schema sha ft version labels mode policy [target] = Inr x" and "\<not> is_batch_mode mode"
  shows "(\<exists>r. validate_output payload mode policy labels [target] = Inr r \<and> validation_complete r) \<longleftrightarrow>
    conforms (sx_document x) payload
    \<and> (case payload of PDict d \<Rightarrow>
         (case map_of d ''result'' of Some (PDict item) \<Rightarrow> labels_unrepeated policy item | _ \<Rightarrow> True) | _ \<Rightarrow> True)"
proof -
  have distinct: "distinct (map binding_key (ls_bindings labels))"
    using check_label_set_distinct [OF assms(1)] by (rule conjunct1)
  have mode: "target_field_for_mode mode = None" using assms(3) by (cases mode) (simp_all add: is_batch_mode_def)
  have target: "\<not> blank target" and doc: "sx_document x = schema_document ''TGCuratorAnalysisResultV1''
      [(''result'', PDict (object_schema (result_item_fields policy labels)))] version labels mode policy"
    using assms(2) by (auto simp: build_schema_def build_document_def mode schema_targets_def result_simps elim!: try_bindE split: if_splits)
  have conforms: "conforms (sx_document x) payload \<longleftrightarrow>
      conforms (object_schema [(''result'', PDict (object_schema (result_item_fields policy labels)))]) payload"
    unfolding doc by (rule conforms_keywords) (auto simp: schema_document_def object_schema_def)
  have names: "set (map fst (result_item_fields policy labels)) = set (expected_fields None policy)"
    by (auto simp: result_item_fields_def score_field_def expected_fields_def)
  have item: "(\<exists>r. validate_result_item item target None policy labels = Inr (Inr r)) \<longleftrightarrow>
      labels_unrepeated policy item \<and> fields_conform (result_item_fields policy labels) item" for item
  proof (cases "set (map fst item) = set (expected_fields None policy)")
    case True
    from result_item_accepted [OF distinct True] True names show ?thesis unfolding fields_conform_def by (simp del: set_map)
  next
    case False
    with names show ?thesis unfolding fields_conform_def validate_result_item_def by (simp del: set_map)
  qed
  show ?thesis
  proof (cases payload)
    case (PDict d)
    have v: "validate_output payload mode policy labels [target] = validate_single (PDict d) policy labels [target]"
      using target assms(3) by (simp add: PDict validate_output_def validate_expected_targets_def)
    have "(\<exists>r. validate_single (PDict d) policy labels [target] = Inr r \<and> validation_complete r) \<longleftrightarrow>
        (\<exists>item. map_of d ''result'' = Some (PDict item) \<and> set (map fst d) = {''result''}
           \<and> (\<exists>r. validate_result_item item target None policy labels = Inr (Inr r)))"
    proof (cases "\<exists>item. map_of d ''result'' = Some (PDict item) \<and> set (map fst d) = {''result''}")
      case True
      then obtain item where d: "map_of d ''result'' = Some (PDict item)" "set (map fst d) = {''result''}" by blast
      have s: "validate_single (PDict d) policy labels [target] =
          try_bind (validate_result_item item target None policy labels) (\<lambda>r. case r of
              Inl issue \<Rightarrow> Inr \<lparr>sv_valid_results = [], sv_issues = [issue], sv_retry_target_ids = [target]\<rparr>
            | Inr res \<Rightarrow> Inr \<lparr>sv_valid_results = [res], sv_issues = [], sv_retry_target_ids = []\<rparr>)"
        using d by (simp add: validate_single_def del: set_map)
      show ?thesis unfolding s d using d
        by (cases "validate_result_item item target None policy labels") (auto simp: validation_complete_def split: sum.splits)
    next
      case False
      then have "validate_single (PDict d) policy labels [target] = Inr (whole_payload_failure [target] ''single_envelope_invalid'')"
        by (auto simp: validate_single_def simp del: set_map split: option.split pyval.split)
      with False show ?thesis by (auto simp: validation_complete_def whole_payload_failure_def)
    qed
    also have "\<dots> \<longleftrightarrow> (\<exists>item. map_of d ''result'' = Some (PDict item) \<and> set (map fst d) = {''result''}
           \<and> labels_unrepeated policy item \<and> fields_conform (result_item_fields policy labels) item)"
      by (simp only: item)
    finally have accepted: "(\<exists>r. validate_output payload mode policy labels [target] = Inr r \<and> validation_complete r) \<longleftrightarrow>
        (\<exists>item. map_of d ''result'' = Some (PDict item) \<and> set (map fst d) = {''result''}
           \<and> labels_unrepeated policy item \<and> fields_conform (result_item_fields policy labels) item)"
      unfolding v .
    have "fields_conform [(''result'', PDict (object_schema (result_item_fields policy labels)))] d \<longleftrightarrow>
        set (map fst d) = {''result''} \<and> conforms (object_schema (result_item_fields policy labels)) (the (map_of d ''result''))"
      by (simp add: fields_conform_def)
    then have c: "conforms (sx_document x) payload \<longleftrightarrow>
        set (map fst d) = {''result''} \<and> conforms (object_schema (result_item_fields policy labels)) (the (map_of d ''result''))"
      unfolding PDict conforms [unfolded PDict] conforms_object [of "[_]"] by simp
    show ?thesis
    proof (cases "set (map fst d) = {''result''}")
      case True
      then have "''result'' \<in> dom (map_of d)" by (simp add: dom_map_of_conv_image_fst)
      then obtain y where y: "map_of d ''result'' = Some y" by blast
      show ?thesis unfolding accepted c conforms_object [of "result_item_fields policy labels"] using True
        by (cases y) (simp_all add: PDict y del: set_map, blast)
    next
      case False
      then show ?thesis unfolding accepted c by blast
    qed
  qed (use target assms(3) conforms in \<open>simp_all add: validate_output_def validate_expected_targets_def whole_payload_failure_def
      validation_complete_def conforms_object\<close>)
qed

definition sample_labels :: label_set_version where
  "sample_labels = \<lparr>ls_version_id = ''l1'', ls_label_set_id = ''l'', ls_version_number = 1,
     ls_bindings = [\<lparr>lb_label = \<lparr>ld_version_id = ''v1'', ld_definition_id = ''d1'', ld_version_number = 1, ld_key = ''spam'',
       ld_display_name = ''Spam'', ld_description = ''Spam'', ld_scope = GLOBAL, ld_negative = True, ld_enabled = True,
       ld_status = PUBLISHED\<rparr>, lb_activation_threshold = 1/2, lb_output_order = 0, lb_prompt_hint = []\<rparr>],
     ls_status = PUBLISHED\<rparr>"

theorem schema_agrees_with_validator_witness:
  "\<exists>r. validate_output (PDict [(''result'', PDict [(''scores'', PDict [(''spam'', PInt 1)])])]) SINGLE_MESSAGE
     \<lparr>op_mode = DENSE_SCORES, op_include_reason = False, op_include_evidence = False\<rparr> sample_labels [''m1''] = Inr r
     \<and> validation_complete r"
proof -
  let ?p = "\<lparr>op_mode = DENSE_SCORES, op_include_reason = False, op_include_evidence = False\<rparr>"
  let ?build = "build_schema (\<lambda>t. t) (\<lambda>q. ''0.5'') ''s1'' sample_labels SINGLE_MESSAGE ?p [''m1'']"
  have c: "check_label_set sample_labels = Inr sample_labels" by code_simp
  have "\<not> isl ?build" by code_simp
  then obtain x where x: "?build = Inr x" by (cases ?build) simp_all
  have s: "\<not> is_batch_mode SINGLE_MESSAGE" by (simp add: is_batch_mode_def)
  have "map_option sx_document (case ?build of Inl e \<Rightarrow> None | Inr x \<Rightarrow> Some x)
      = Some (projr (build_document ''s1'' sample_labels SINGLE_MESSAGE ?p [''m1'']))" by code_simp
  with x have d: "sx_document x = projr (build_document ''s1'' sample_labels SINGLE_MESSAGE ?p [''m1''])" by simp
  have "conforms (projr (build_document ''s1'' sample_labels SINGLE_MESSAGE ?p [''m1'']))
      (PDict [(''result'', PDict [(''scores'', PDict [(''spam'', PInt 1)])])])" by code_simp
  with schema_agrees_with_validator [OF c x s] d show ?thesis by (simp add: labels_unrepeated_def)
qed

end
