(* ===== verification/Analysis_Store.thy ===== *)
theory Analysis_Store
  imports Input_Manifest Media_Archive
begin

text \<open>
  The tables and transactions of the analysis engine,
  \<^verbatim>\<open>SqlAlchemyAnalysisStageRunRepository\<close> of \<^verbatim>\<open>infrastructure/database/analysis_repository.py\<close>:
  claims of stage runs under leases, inference calls and their input manifests, validated results and
  their labels, reuse of cached results, retries, the negative gate, and the status of analysis runs.

  One function per transaction.  The identifiers \<^verbatim>\<open>uuid4\<close> draws are arguments, \<open>locked\<close> are the rows that
  \<^verbatim>\<open>SKIP LOCKED\<close> passes over, and a violated constraint is \<open>IntegrityError\<close>.
\<close>

section \<open>Rows\<close>

datatype stage_status =
    S_PENDING | S_RUNNING | S_RETRY_WAIT | S_SUCCEEDED | S_FAILED | S_SKIPPED_CONDITION | S_SKIPPED_NEGATIVE_GATE

record stage_row =
  sg_id :: uuid
  sg_analysis_run_id :: uuid
  sg_pipeline_stage_node_id :: "uuid option"
  sg_stage_version_id :: uuid
  sg_message_id :: uuid
  sg_target_scope :: string
  sg_target_kind :: string
  sg_target_id :: uuid
  sg_image_asset_id :: "uuid option"
  sg_video_asset_id :: "uuid option"
  sg_status :: stage_status
  sg_attempt_count :: int
  sg_max_attempts :: int
  sg_next_retry_at :: "int option"
  sg_lease_token :: "uuid option"
  sg_lease_expires_at :: "int option"
  sg_last_error_code :: "string option"
  sg_last_error_type :: "string option"
  sg_retryable :: "bool option"
  sg_last_failure_at :: "int option"
  sg_input_manifest_id :: "uuid option"
  sg_inference_call_id :: "uuid option"
  sg_parsed_result :: "pyval option"
  sg_cache_policy :: string
  sg_cache_scope_identity :: "string option"
  sg_semantic_cache_key :: "string option"
  sg_result_origin :: "string option"
  sg_reused_from :: "uuid option"
  sg_started_at :: "int option"
  sg_completed_at :: "int option"
  sg_updated_at :: int

record manifest_row =
  mf_id :: uuid
  mf_stage_version_id :: uuid
  mf_manifest_version :: int
  mf_content :: "(string, pyval) dict"
  mf_input_manifest_hash :: string
  mf_created_at :: int

datatype call_status = C_PENDING | C_SUCCEEDED | C_FAILED

record inference_call_row =
  ic_id :: uuid
  ic_input_manifest_id :: uuid
  ic_stage_version_id :: uuid
  ic_provider_adapter :: string
  ic_model_name :: string
  ic_request_summary :: pyval
  ic_structured_output_schema :: pyval
  ic_schema_hash :: string
  ic_status :: call_status
  ic_attempt :: int
  ic_raw_response :: "pyval option"
  ic_token_usage :: "pyval option"
  ic_latency_ms :: "py_float option"
  ic_http_status :: "int option"
  ic_error_code :: "string option"
  ic_error_type :: "string option"
  ic_retryable :: "bool option"
  ic_completed_at :: "int option"
  ic_created_at :: int

record analysis_db =
  ab_runs :: "analysis_run_row list"
  ab_stages :: "stage_row list"
  ab_labels :: "model_label_row list"
  ab_manifests :: "manifest_row list"
  ab_calls :: "inference_call_row list"
  ab_messages :: "message_row list"
  ab_wakeups :: "wakeup_row list"

section \<open>Requests and answers\<close>

record claimed_stage_run =
  cs_stage_run_id :: string
  cs_analysis_run_id :: string
  cs_message_id :: string
  cs_target_id :: string
  cs_stage_version_id :: string
  cs_lease_token :: string
  cs_attempt_count :: int
  cs_max_attempts :: int
  cs_run_mode :: string

record target_snapshot =
  ts_stage_run_id :: string
  ts_lease_token :: string
  ts_target_id :: string
  ts_message_id :: string
  ts_target_kind :: string
  ts_asset_id :: "string option"
  ts_text :: "string option"
  ts_telegram_metadata :: "(string, pyval) dict option"
  ts_media :: "(string, pyval) dict list"
  ts_previous_results :: "(string, pyval) dict option"
  ts_visual_identity :: "string option"

record stage_snapshot =
  sn_claim :: claimed_stage_run
  sn_stage :: analysis_stage_template_version
  sn_targets :: "target_snapshot list"
  sn_source_channel_context :: "(string, pyval) dict"

record cache_hit =
  ch_source_stage_run_id :: string
  ch_parsed_result :: "(string, pyval) dict"

record inference_response =
  ir_payload :: pyval
  ir_provider_adapter :: string
  ir_model_name :: string
  ir_raw_response :: pyval
  ir_latency_ms :: "py_float option"
  ir_http_status :: "int option"
  ir_token_usage :: "pyval option"

record started_call =
  sc_inference_call_id :: string
  sc_input_manifest_id :: string

record gate_assignment =
  ga_message_id :: string
  ga_stage_run_id :: string
  ga_assignment_id :: string

record commit_result =
  cr_committed_target_ids :: "string list"
  cr_negative_gate_assignments :: "gate_assignment list"

definition nothing_committed :: commit_result where
  "nothing_committed = \<lparr>cr_committed_target_ids = [], cr_negative_gate_assignments = []\<rparr>"

section \<open>Access to the tables\<close>

definition analysis_queue :: string where
  "analysis_queue = ''analysis''"

definition active_stage_status :: "stage_status \<Rightarrow> bool" where
  "active_stage_status s = (s = S_PENDING \<or> s = S_RUNNING \<or> s = S_RETRY_WAIT)"

definition terminal_run_statuses :: "string list" where
  "terminal_run_statuses = [''completed'', ''blocked_negative_gate'', ''failed'']"

definition update_stage :: "uuid \<Rightarrow> (stage_row \<Rightarrow> stage_row) \<Rightarrow> analysis_db \<Rightarrow> analysis_db" where
  "update_stage i f db = db\<lparr>ab_stages := update_where (\<lambda>r. sg_id r = i) f (ab_stages db)\<rparr>"

definition update_run :: "uuid \<Rightarrow> (analysis_run_row \<Rightarrow> analysis_run_row) \<Rightarrow> analysis_db \<Rightarrow> analysis_db" where
  "update_run i f db = db\<lparr>ab_runs := update_where (\<lambda>r. an_id r = i) f (ab_runs db)\<rparr>"

definition find_stage :: "uuid \<Rightarrow> analysis_db \<Rightarrow> stage_row option" where
  "find_stage i db = find (\<lambda>r. sg_id r = i) (ab_stages db)"

definition find_run :: "uuid \<Rightarrow> analysis_db \<Rightarrow> analysis_run_row option" where
  "find_run i db = find (\<lambda>r. an_id r = i) (ab_runs db)"

definition analysis_wakeup :: "uuid \<Rightarrow> wakeup_row \<Rightarrow> bool" where
  "analysis_wakeup i w = (wk_queue w = analysis_queue \<and> wk_entity_id w = i \<and> wk_status w \<noteq> W_CANCELLED)"

definition reschedule_wakeup :: "uuid \<Rightarrow> int \<Rightarrow> int \<Rightarrow> analysis_db \<Rightarrow> analysis_db" where
  "reschedule_wakeup i retry_at now db =
     db\<lparr>ab_wakeups := update_where (analysis_wakeup i) (\<lambda>w. w\<lparr>wk_status := W_PENDING,
        wk_next_attempt_at := retry_at, wk_lease_token := None, wk_lease_expires_at := None,
        wk_completed_at := None, wk_updated_at := now\<rparr>) (ab_wakeups db)\<rparr>"

definition set_wakeup_terminal :: "uuid \<Rightarrow> int \<Rightarrow> analysis_db \<Rightarrow> analysis_db" where
  "set_wakeup_terminal i now db =
     db\<lparr>ab_wakeups := update_where (analysis_wakeup i) (complete_wakeup now) (ab_wakeups db)\<rparr>"

section \<open>Claims\<close>

definition due_stage :: "int \<Rightarrow> stage_row \<Rightarrow> bool" where
  "due_stage now r =
     (sg_status r = S_PENDING
      \<or> sg_status r = S_RETRY_WAIT \<and> passed (sg_next_retry_at r) now
      \<or> sg_status r = S_RUNNING \<and> passed (sg_lease_expires_at r) now)"

definition lease_stage :: "uuid \<Rightarrow> int \<Rightarrow> int \<Rightarrow> stage_row \<Rightarrow> stage_row" where
  "lease_stage token now duration r =
     r\<lparr>sg_status := S_RUNNING, sg_attempt_count := sg_attempt_count r + 1, sg_next_retry_at := None,
       sg_lease_token := Some token, sg_lease_expires_at := Some (now + duration),
       sg_started_at := (case sg_started_at r of None \<Rightarrow> Some now | Some t \<Rightarrow> Some t), sg_updated_at := now\<rparr>"

definition started :: "int \<Rightarrow> int option \<Rightarrow> int option" where
  "started now t = (case t of None \<Rightarrow> Some now | Some s \<Rightarrow> Some s)"

definition run_underway :: "int \<Rightarrow> analysis_run_row \<Rightarrow> analysis_run_row" where
  "run_underway now run =
     run\<lparr>an_status := ''running'', an_started_at := started now (an_started_at run), an_completed_at := None,
       an_updated_at := now\<rparr>"

definition exhausted_stage :: "int \<Rightarrow> stage_row \<Rightarrow> stage_row" where
  "exhausted_stage now r =
     r\<lparr>sg_status := S_FAILED, sg_next_retry_at := None, sg_lease_token := None, sg_lease_expires_at := None,
       sg_last_error_code := Some ''LEASE_EXPIRED'', sg_last_error_type := Some ''WorkerLeaseExpired'',
       sg_retryable := Some False, sg_last_failure_at := Some now, sg_completed_at := Some now, sg_updated_at := now\<rparr>"

definition stages_of_run :: "uuid \<Rightarrow> analysis_db \<Rightarrow> stage_row list" where
  "stages_of_run i db = filter (\<lambda>r. sg_analysis_run_id r = i) (ab_stages db)"

definition terminalize_exhausted_stage :: "uuid \<Rightarrow> uuid \<Rightarrow> int \<Rightarrow> analysis_db \<Rightarrow> analysis_db" where
  "terminalize_exhausted_stage i run_id now db =
     (let db1 = set_wakeup_terminal i now (update_stage i (exhausted_stage now) db)
      in if list_ex (\<lambda>r. active_stage_status (sg_status r)) (stages_of_run run_id db1)
         then update_run run_id (run_underway now) db1
         else update_run run_id (\<lambda>run. run\<lparr>an_status := ''failed'', an_started_at := started now (an_started_at run),
                an_completed_at := Some now, an_last_error_code := Some ''LEASE_EXPIRED'',
                an_last_error_type := Some ''WorkerLeaseExpired'', an_updated_at := now\<rparr>) db1)"

definition claim_stage ::
  "uuid list \<Rightarrow> uuid \<Rightarrow> string \<Rightarrow> int \<Rightarrow> int \<Rightarrow> analysis_db \<Rightarrow> (claimed_stage_run option \<times> analysis_db) result" where
  "claim_stage locked token stage_run_id now duration db =
     try_bind (uuid_or_value_error stage_run_id) (\<lambda>i.
       case find (\<lambda>r. sg_id r = i \<and> due_stage now r \<and> i \<notin> set locked) (ab_stages db) of
         None \<Rightarrow> Inr (None, db)
       | Some r \<Rightarrow>
           (case find_run (sg_analysis_run_id r) db of
              None \<Rightarrow> Inr (None, db)
            | Some run \<Rightarrow>
                if an_status run \<in> set terminal_run_statuses then Inr (None, db)
                else if sg_max_attempts r \<le> sg_attempt_count r
                then Inr (None, terminalize_exhausted_stage i (an_id run) now db)
                else Inr (Some \<lparr>cs_stage_run_id = i, cs_analysis_run_id = sg_analysis_run_id r,
                       cs_message_id = sg_message_id r, cs_target_id = sg_target_id r,
                       cs_stage_version_id = sg_stage_version_id r, cs_lease_token = token,
                       cs_attempt_count = sg_attempt_count r + 1, cs_max_attempts = sg_max_attempts r,
                       cs_run_mode = an_run_mode run\<rparr>,
                     update_run (an_id run) (run_underway now) (update_stage i (lease_stage token now duration) db))))"

section \<open>Targets under a lease\<close>

definition live_lease :: "int \<Rightarrow> stage_row \<Rightarrow> bool" where
  "live_lease now r = (sg_status r = S_RUNNING \<and> (case sg_lease_expires_at r of None \<Rightarrow> False | Some e \<Rightarrow> now < e))"

definition expected_target :: "target_snapshot \<Rightarrow> (uuid \<times> string \<times> uuid) result" where
  "expected_target t =
     try_bind (uuid_or_value_error (ts_stage_run_id t)) (\<lambda>i.
     try_bind (uuid_or_value_error (ts_lease_token t)) (\<lambda>token. Inr (i, ts_target_id t, token)))"

text \<open>
  The targets whose rows the caller still holds: target id to row id.  The dictionary of expected
  tokens has the last target of each row.
\<close>

definition lock_targets :: "target_snapshot list \<Rightarrow> int \<Rightarrow> analysis_db \<Rightarrow> (string, uuid) dict result" where
  "lock_targets targets now db =
     try_bind (traverse expected_target targets) (\<lambda>expected.
       Inr (fold (\<lambda>r held.
              case map_of (rev expected) (sg_id r) of
                None \<Rightarrow> held
              | Some (target, token) \<Rightarrow>
                  if sg_lease_token r = Some token \<and> sg_target_id r = target then dict_set target (sg_id r) held
                  else held)
            (filter (live_lease now) (ab_stages db)) []))"

definition chosen_targets :: "string list \<Rightarrow> stage_snapshot \<Rightarrow> target_snapshot list" where
  "chosen_targets ids s = filter (\<lambda>t. ts_target_id t \<in> set ids) (sn_targets s)"

section \<open>Inference calls\<close>

definition new_manifest :: "uuid \<Rightarrow> uuid \<Rightarrow> input_manifest \<Rightarrow> int \<Rightarrow> manifest_row" where
  "new_manifest i stage_version_id m now =
     \<lparr>mf_id = i, mf_stage_version_id = stage_version_id, mf_manifest_version = mn_version m,
      mf_content = mn_content m, mf_input_manifest_hash = mn_hash m, mf_created_at = now\<rparr>"

text \<open>The checks of \<^verbatim>\<open>input_manifests\<close>, and of the hash column of \<^verbatim>\<open>stage_runs\<close>.\<close>

definition manifest_allowed :: "manifest_row \<Rightarrow> manifest_row list \<Rightarrow> bool" where
  "manifest_allowed m rows \<longleftrightarrow> mf_id m \<notin> mf_id ` set rows \<and> 0 < mf_manifest_version m
     \<and> \<not> isl (validate_hash (mf_input_manifest_hash m))"

definition cache_key_allowed :: "string option \<Rightarrow> bool" where
  "cache_key_allowed k = (case k of None \<Rightarrow> True | Some h \<Rightarrow> \<not> isl (validate_hash h))"

definition link_call :: "uuid \<Rightarrow> uuid \<Rightarrow> cache_policy \<Rightarrow> stage_cache_key option \<Rightarrow> int \<Rightarrow> stage_row \<Rightarrow> stage_row" where
  "link_call manifest_id call_id policy key now r =
     r\<lparr>sg_input_manifest_id := Some manifest_id, sg_inference_call_id := Some call_id,
       sg_cache_policy := cache_policy_value policy,
       sg_cache_scope_identity := map_option ck_scope_identity key,
       sg_semantic_cache_key := map_option ck_value key, sg_updated_at := now\<rparr>"

definition object_or_fail :: "pyval \<Rightarrow> pyval result" where
  "object_or_fail v =
     (case v of PDict _ \<Rightarrow> Inr v | _ \<Rightarrow> fail ''inference request audit values must be JSON objects'')"

definition start_inference ::
  "(string \<Rightarrow> bool) \<Rightarrow> uuid \<Rightarrow> uuid \<Rightarrow> stage_snapshot \<Rightarrow> input_manifest \<Rightarrow> pyval \<Rightarrow> string \<Rightarrow> stage_cache_key option
     \<Rightarrow> pyval \<Rightarrow> int \<Rightarrow> analysis_db \<Rightarrow> (started_call option \<times> analysis_db) result" where
  "start_inference host_ok manifest_id call_id s manifest response_schema schema_hash key request_summary now db =
     try_bind (sanitize_identifier (Some (ip_provider_adapter (st_inference_profile (sn_stage s)))) 128) (\<lambda>adapter.
     try_bind (sanitize_identifier (Some (ip_model_name (st_inference_profile (sn_stage s)))) 256) (\<lambda>model.
     try_bind (object_or_fail (sanitize_json host_ok request_summary)) (\<lambda>summary.
     try_bind (object_or_fail (sanitize_json host_ok response_schema)) (\<lambda>schema.
     try_bind (lock_targets (sn_targets s) now db) (\<lambda>held.
       if length held \<noteq> length (sn_targets s) then Inr (None, db)
       else
     try_bind (uuid_or_value_error (st_version_id (sn_stage s))) (\<lambda>version.
       let m = new_manifest manifest_id version manifest now;
           c = \<lparr>ic_id = call_id, ic_input_manifest_id = manifest_id, ic_stage_version_id = version,
                ic_provider_adapter = adapter, ic_model_name = model, ic_request_summary = summary,
                ic_structured_output_schema = schema, ic_schema_hash = schema_hash, ic_status = C_PENDING,
                ic_attempt = cs_attempt_count (sn_claim s), ic_raw_response = None, ic_token_usage = None,
                ic_latency_ms = None, ic_http_status = None, ic_error_code = None, ic_error_type = None,
                ic_retryable = None, ic_completed_at = None, ic_created_at = now\<rparr>
       in if \<not> manifest_allowed m (ab_manifests db) \<or> call_id \<in> ic_id ` set (ab_calls db)
             \<or> cs_attempt_count (sn_claim s) \<le> 0 \<or> isl (validate_hash schema_hash)
             \<or> \<not> cache_key_allowed (map_option ck_value key)
          then Inl IntegrityError
          else Inr (Some \<lparr>sc_inference_call_id = call_id, sc_input_manifest_id = manifest_id\<rparr>,
                 fold (\<lambda>i. update_stage i (link_call manifest_id call_id (st_cache_policy (sn_stage s)) key now))
                   (map snd held)
                   (db\<lparr>ab_manifests := ab_manifests db @ [m], ab_calls := ab_calls db @ [c]\<rparr>))))))))"

definition pending_call :: "uuid \<Rightarrow> uuid \<Rightarrow> inference_call_row \<Rightarrow> bool" where
  "pending_call i m c = (ic_id c = i \<and> ic_input_manifest_id c = m \<and> ic_status c = C_PENDING)"

definition finish_call ::
  "started_call \<Rightarrow> (inference_call_row \<Rightarrow> inference_call_row) \<Rightarrow> analysis_db \<Rightarrow> (bool \<times> analysis_db) result" where
  "finish_call call f db =
     try_bind (uuid_or_value_error (sc_inference_call_id call)) (\<lambda>i.
     try_bind (uuid_or_value_error (sc_input_manifest_id call)) (\<lambda>m.
       Inr (list_ex (pending_call i m) (ab_calls db),
            db\<lparr>ab_calls := update_where (pending_call i m) f (ab_calls db)\<rparr>)))"

definition record_inference_success ::
  "(string \<Rightarrow> bool) \<Rightarrow> started_call \<Rightarrow> inference_response \<Rightarrow> int \<Rightarrow> analysis_db \<Rightarrow> (bool \<times> analysis_db) result" where
  "record_inference_success host_ok call response now db =
     finish_call call (\<lambda>c. c\<lparr>ic_status := C_SUCCEEDED,
       ic_raw_response := Some (as_object (sanitize_json host_ok (ir_raw_response response))),
       ic_token_usage := map_option (\<lambda>u. as_object (sanitize_json host_ok u)) (ir_token_usage response),
       ic_latency_ms := nonnegative_float (ir_latency_ms response),
       ic_http_status := http_status (ir_http_status response),
       ic_error_code := None, ic_error_type := None, ic_retryable := None, ic_completed_at := Some now\<rparr>) db"

fun error_code_value :: "analysis_error_code \<Rightarrow> string" where
  "error_code_value PROVIDER_ERROR = ''PROVIDER_ERROR''"
| "error_code_value TIMEOUT = ''TIMEOUT''"
| "error_code_value INVALID_STRUCTURED_OUTPUT = ''INVALID_STRUCTURED_OUTPUT''"
| "error_code_value MISSING_TARGET_RESULT = ''MISSING_TARGET_RESULT''"
| "error_code_value INPUT_BUILD_ERROR = ''INPUT_BUILD_ERROR''"
| "error_code_value MEDIA_UNAVAILABLE = ''MEDIA_UNAVAILABLE''"
| "error_code_value INTERNAL_ERROR = ''INTERNAL_ERROR''"

record execution_failure =
  ef_code :: analysis_error_code
  ef_error_type :: string
  ef_retryable :: bool
  ef_raw_response :: "pyval option"
  ef_latency_ms :: "py_float option"
  ef_http_status :: "int option"
  ef_token_usage :: "pyval option"

definition record_inference_failure ::
  "(string \<Rightarrow> bool) \<Rightarrow> started_call \<Rightarrow> execution_failure \<Rightarrow> int \<Rightarrow> analysis_db \<Rightarrow> (bool \<times> analysis_db) result" where
  "record_inference_failure host_ok call failure now db =
     finish_call call (\<lambda>c. c\<lparr>ic_status := C_FAILED,
       ic_raw_response := map_option (\<lambda>u. as_object (sanitize_json host_ok u)) (ef_raw_response failure),
       ic_token_usage := map_option (\<lambda>u. as_object (sanitize_json host_ok u)) (ef_token_usage failure),
       ic_latency_ms := nonnegative_float (ef_latency_ms failure),
       ic_http_status := http_status (ef_http_status failure),
       ic_error_code := Some (sanitize_error_code (Some (error_code_value (ef_code failure)))),
       ic_error_type := Some (sanitize_error_type (Some (ef_error_type failure))),
       ic_retryable := Some (ef_retryable failure), ic_completed_at := Some now\<rparr>) db"

section \<open>Label assignments\<close>

definition label_allowed :: "model_label_row \<Rightarrow> model_label_row list \<Rightarrow> bool" where
  "label_allowed l rows \<longleftrightarrow> ml_id l \<notin> ml_id ` set rows
     \<and> \<not> list_ex (\<lambda>x. ml_stage_run_id x = ml_stage_run_id l
          \<and> ml_label_definition_version_id x = ml_label_definition_version_id l) rows
     \<and> fl_le (Fin 0) (ml_score l) \<and> fl_le (ml_score l) (Fin 1) \<and> list_ex (\<lambda>c. c \<noteq> CHR '' '') (ml_label_key l)"

definition insert_label :: "model_label_row \<Rightarrow> analysis_db \<Rightarrow> analysis_db result" where
  "insert_label l db =
     (if label_allowed l (ab_labels db) then Inr (db\<lparr>ab_labels := ab_labels db @ [l]\<rparr>) else Inl IntegrityError)"

definition label_of_result ::
  "uuid \<Rightarrow> int \<Rightarrow> stage_row \<Rightarrow> validated_target_result \<Rightarrow> resolved_label \<Rightarrow> model_label_row result" where
  "label_of_result i now r v l =
     try_bind (uuid_or_value_error (rl_label_definition_version_id l)) (\<lambda>version.
       Inr \<lparr>ml_id = i, ml_stage_run_id = sg_id r, ml_analysis_run_id = sg_analysis_run_id r,
         ml_message_id = sg_message_id r, ml_target_scope = sg_target_scope r, ml_target_kind = sg_target_kind r,
         ml_target_id = sg_target_id r, ml_image_asset_id = sg_image_asset_id r,
         ml_video_asset_id = sg_video_asset_id r, ml_label_definition_version_id = version,
         ml_label_key = rl_key l, ml_score = Fin (rl_score l), ml_activated = rl_activated l,
         ml_negative = rl_negative l, ml_reason = vt_reason v, ml_evidence = vt_evidence v, ml_created_at = now\<rparr>)"

definition copy_assignment :: "uuid \<Rightarrow> int \<Rightarrow> stage_row \<Rightarrow> model_label_row \<Rightarrow> model_label_row" where
  "copy_assignment i now r l =
     \<lparr>ml_id = i, ml_stage_run_id = sg_id r, ml_analysis_run_id = sg_analysis_run_id r,
      ml_message_id = sg_message_id r, ml_target_scope = sg_target_scope r, ml_target_kind = sg_target_kind r,
      ml_target_id = sg_target_id r, ml_image_asset_id = sg_image_asset_id r,
      ml_video_asset_id = sg_video_asset_id r, ml_label_definition_version_id = ml_label_definition_version_id l,
      ml_label_key = ml_label_key l, ml_score = ml_score l, ml_activated = ml_activated l,
      ml_negative = ml_negative l, ml_reason = ml_reason l, ml_evidence = ml_evidence l, ml_created_at = now\<rparr>"

definition gate_of :: "model_label_row \<Rightarrow> gate_assignment list" where
  "gate_of l =
     (if ml_activated l \<and> ml_negative l
      then [\<lparr>ga_message_id = ml_message_id l, ga_stage_run_id = ml_stage_run_id l, ga_assignment_id = ml_id l\<rparr>]
      else [])"

text \<open>
  The loop over the labels of one target.  The identifier of a new row is \<open>fresh\<close> of the number of
  rows before it, so that the draws of one transaction are different arguments.
\<close>

fun add_labels ::
  "(uuid \<Rightarrow> 'l \<Rightarrow> model_label_row result) \<Rightarrow> (nat \<Rightarrow> uuid) \<Rightarrow> 'l list \<Rightarrow> analysis_db
     \<Rightarrow> (gate_assignment list \<times> analysis_db) result" where
  "add_labels row_of fresh [] db = Inr ([], db)"
| "add_labels row_of fresh (l # ls) db =
     try_bind (row_of (fresh (length (ab_labels db))) l) (\<lambda>row.
     try_bind (insert_label row db) (\<lambda>db1.
     try_bind (add_labels row_of fresh ls db1) (\<lambda>(gates, db2).
       Inr (gate_of row @ gates, db2))))"

section \<open>Validated results\<close>

definition label_document :: "resolved_label \<Rightarrow> pyval" where
  "label_document l = PDict
     [(''label_definition_version_id'', PStr (rl_label_definition_version_id l)), (''key'', PStr (rl_key l)),
      (''scope'', PStr (scope_value (rl_scope l))), (''score'', PFloat (Fin (rl_score l))),
      (''activated'', PBool (rl_activated l)), (''negative'', PBool (rl_negative l))]"

definition validated_result_document :: "validated_target_result \<Rightarrow> pyval" where
  "validated_result_document v = PDict
     [(''target_id'', PStr (vt_target_id v)), (''labels'', PList (map label_document (vt_labels v))),
      (''reason'', (case vt_reason v of None \<Rightarrow> PNone | Some s \<Rightarrow> PStr s)),
      (''evidence'', PList (map PStr (vt_evidence v)))]"

definition clear_stage_lease :: "int \<Rightarrow> bool \<Rightarrow> stage_row \<Rightarrow> stage_row" where
  "clear_stage_lease now completed r =
     r\<lparr>sg_next_retry_at := None, sg_lease_token := None, sg_lease_expires_at := None,
       sg_last_error_code := None, sg_last_error_type := None, sg_retryable := None, sg_last_failure_at := None,
       sg_completed_at := (if completed then Some now else None), sg_updated_at := now\<rparr>"

definition inferred_stage :: "pyval \<Rightarrow> int \<Rightarrow> stage_row \<Rightarrow> stage_row" where
  "inferred_stage parsed now r =
     clear_stage_lease now True
       (r\<lparr>sg_status := S_SUCCEEDED, sg_parsed_result := Some parsed, sg_result_origin := Some ''inference'',
          sg_reused_from := None\<rparr>)"

fun commit_results ::
  "(nat \<Rightarrow> uuid) \<Rightarrow> stage_snapshot \<Rightarrow> started_call \<Rightarrow> int \<Rightarrow> (string, uuid) dict \<Rightarrow> validated_target_result list
     \<Rightarrow> analysis_db \<Rightarrow> (commit_result \<times> analysis_db) result" where
  "commit_results fresh s call now held [] db = Inr (nothing_committed, db)"
| "commit_results fresh s call now held (v # vs) db =
     (case map_of held (vt_target_id v) of
        None \<Rightarrow> commit_results fresh s call now held vs db
      | Some i \<Rightarrow>
          (case find_stage i db of
             None \<Rightarrow> Inl RuntimeError
           | Some r \<Rightarrow>
               try_bind (uuid_or_value_error (sc_inference_call_id call)) (\<lambda>call_id.
                 if sg_inference_call_id r \<noteq> Some call_id then commit_results fresh s call now held vs db
                 else
                   try_bind (if cs_run_mode (sn_claim s) \<noteq> ''test''
                             then add_labels (\<lambda>k. label_of_result k now r v) fresh (vt_labels v)
                               (update_stage i (inferred_stage (validated_result_document v) now) db)
                             else Inr ([], update_stage i (inferred_stage (validated_result_document v) now) db))
                     (\<lambda>(gates, db1).
                   try_bind (commit_results fresh s call now held vs (set_wakeup_terminal i now db1)) (\<lambda>(rest, db2).
                     Inr (\<lparr>cr_committed_target_ids = vt_target_id v # cr_committed_target_ids rest,
                            cr_negative_gate_assignments = gates @ cr_negative_gate_assignments rest\<rparr>, db2))))))"

definition commit_validated_targets ::
  "(nat \<Rightarrow> uuid) \<Rightarrow> stage_snapshot \<Rightarrow> started_call \<Rightarrow> validated_target_result list \<Rightarrow> int \<Rightarrow> analysis_db
     \<Rightarrow> (commit_result \<times> analysis_db) result" where
  "commit_validated_targets fresh s call results now db =
     (if results = [] then Inr (nothing_committed, db)
      else try_bind (lock_targets (chosen_targets (map vt_target_id results) s) now db) (\<lambda>held.
        commit_results fresh s call now held results db))"

section \<open>Cached results\<close>

definition exact_cache_source :: "stage_cache_key \<Rightarrow> stage_row \<Rightarrow> bool" where
  "exact_cache_source key r =
     (sg_status r = S_SUCCEEDED \<and> sg_parsed_result r \<noteq> None \<and> sg_semantic_cache_key r = Some (ck_value key)
      \<and> sg_cache_policy r = cache_policy_value (ck_policy key)
      \<and> sg_cache_scope_identity r = Some (ck_scope_identity key))"

text \<open>\<^verbatim>\<open>ORDER BY completed_at, id\<close>: nulls last.\<close>

definition completion_order :: "stage_row \<Rightarrow> bool \<times> int \<times> uuid" where
  "completion_order r =
     (sg_completed_at r = None, (case sg_completed_at r of None \<Rightarrow> 0 | Some t \<Rightarrow> t), sg_id r)"

definition find_cache_hit ::
  "(string \<Rightarrow> bool) \<Rightarrow> stage_snapshot \<Rightarrow> stage_cache_key \<Rightarrow> analysis_db \<Rightarrow> cache_hit option result" where
  "find_cache_hit host_ok s key db =
     try_bind (uuid_or_value_error (cs_stage_run_id (sn_claim s))) (\<lambda>i.
       let sources = sort_key completion_order
             (filter (\<lambda>r. sg_id r \<noteq> i \<and> exact_cache_source key r) (ab_stages db))
       in Inr (if sources = [] then None
               else case map_option (sanitize_json host_ok) (sg_parsed_result (last sources)) of
                      Some (PDict d) \<Rightarrow>
                        Some \<lparr>ch_source_stage_run_id = sg_id (last sources), ch_parsed_result = d\<rparr>
                    | _ \<Rightarrow> None))"

definition rewrite_cached_target :: "(string \<Rightarrow> bool) \<Rightarrow> pyval \<Rightarrow> string \<Rightarrow> pyval" where
  "rewrite_cached_target host_ok v target_id =
     (case as_object (sanitize_json host_ok v) of
        PDict d \<Rightarrow> PDict (dict_set ''target_id'' (PStr target_id) d)
      | w \<Rightarrow> w)"

definition cached_stage :: "uuid \<Rightarrow> pyval \<Rightarrow> stage_cache_key \<Rightarrow> uuid \<Rightarrow> int \<Rightarrow> stage_row \<Rightarrow> stage_row" where
  "cached_stage manifest_id parsed key source_id now r =
     clear_stage_lease now True
       (r\<lparr>sg_status := S_SUCCEEDED, sg_input_manifest_id := Some manifest_id, sg_inference_call_id := None,
          sg_parsed_result := Some parsed, sg_cache_policy := cache_policy_value (ck_policy key),
          sg_cache_scope_identity := Some (ck_scope_identity key), sg_semantic_cache_key := Some (ck_value key),
          sg_result_origin := Some ''cache'', sg_reused_from := Some source_id\<rparr>)"

fun commit_cached ::
  "(string \<Rightarrow> bool) \<Rightarrow> (nat \<Rightarrow> uuid) \<Rightarrow> uuid \<Rightarrow> stage_snapshot \<Rightarrow> stage_cache_key \<Rightarrow> stage_row \<Rightarrow> pyval
     \<Rightarrow> model_label_row list \<Rightarrow> int \<Rightarrow> (string, uuid) dict \<Rightarrow> target_snapshot list \<Rightarrow> analysis_db
     \<Rightarrow> (commit_result \<times> analysis_db) result" where
  "commit_cached host_ok fresh manifest_id s key source parsed labels now held [] db = Inr (nothing_committed, db)"
| "commit_cached host_ok fresh manifest_id s key source parsed labels now held (t # ts) db =
     (case map_of held (ts_target_id t) of
        None \<Rightarrow> commit_cached host_ok fresh manifest_id s key source parsed labels now held ts db
      | Some i \<Rightarrow>
          (case find_stage i db of
             None \<Rightarrow> Inl RuntimeError
           | Some r \<Rightarrow>
               let db1 = update_stage i (cached_stage manifest_id (rewrite_cached_target host_ok parsed (ts_target_id t))
                     key (sg_id source) now) db
               in try_bind (if cs_run_mode (sn_claim s) \<noteq> ''test''
                            then add_labels (\<lambda>k l. Inr (copy_assignment k now r l)) fresh labels db1
                            else Inr ([], db1))
                    (\<lambda>(gates, db2).
                  try_bind (commit_cached host_ok fresh manifest_id s key source parsed labels now held ts
                      (set_wakeup_terminal i now db2)) (\<lambda>(rest, db3).
                    Inr (\<lparr>cr_committed_target_ids = ts_target_id t # cr_committed_target_ids rest,
                           cr_negative_gate_assignments = gates @ cr_negative_gate_assignments rest\<rparr>, db3)))))"

definition commit_cache_hit ::
  "(string \<Rightarrow> bool) \<Rightarrow> (nat \<Rightarrow> uuid) \<Rightarrow> uuid \<Rightarrow> stage_snapshot \<Rightarrow> input_manifest \<Rightarrow> stage_cache_key \<Rightarrow> cache_hit \<Rightarrow> int
     \<Rightarrow> analysis_db \<Rightarrow> (commit_result \<times> analysis_db) result" where
  "commit_cache_hit host_ok fresh manifest_id s manifest key hit now db =
     try_bind (uuid_or_value_error (ch_source_stage_run_id hit)) (\<lambda>source_id.
       case find_stage source_id db of
         None \<Rightarrow> Inr (nothing_committed, db)
       | Some source \<Rightarrow>
           if \<not> exact_cache_source key source then Inr (nothing_committed, db)
           else
     try_bind (lock_targets (sn_targets s) now db) (\<lambda>held.
       if held = [] then Inr (nothing_committed, db)
       else
     try_bind (uuid_or_value_error (st_version_id (sn_stage s))) (\<lambda>version.
       let m = new_manifest manifest_id version manifest now;
           parsed = (case sg_parsed_result source of
                       Some (PDict (e # d)) \<Rightarrow> PDict (e # d) | _ \<Rightarrow> PDict (ch_parsed_result hit))
       in if \<not> manifest_allowed m (ab_manifests db) \<or> \<not> cache_key_allowed (Some (ck_value key))
          then Inl IntegrityError
          else commit_cached host_ok fresh manifest_id s key source parsed
                 (filter (\<lambda>l. ml_stage_run_id l = source_id) (ab_labels db)) now held (sn_targets s)
                 (db\<lparr>ab_manifests := ab_manifests db @ [m]\<rparr>))))"

section \<open>Failures and retries\<close>

definition failed_stage :: "analysis_error_code \<Rightarrow> string \<Rightarrow> bool \<Rightarrow> int \<Rightarrow> int \<Rightarrow> stage_row \<Rightarrow> stage_row" where
  "failed_stage code error_type retryable retry_at now r =
     (let r1 = r\<lparr>sg_last_error_code := Some (sanitize_error_code (Some (error_code_value code))),
            sg_last_error_type := Some (sanitize_error_type (Some error_type)), sg_retryable := Some retryable,
            sg_last_failure_at := Some now, sg_lease_token := None, sg_lease_expires_at := None, sg_updated_at := now\<rparr>
      in if retryable \<and> sg_attempt_count r < sg_max_attempts r
         then r1\<lparr>sg_status := S_RETRY_WAIT, sg_next_retry_at := Some retry_at, sg_completed_at := None\<rparr>
         else r1\<lparr>sg_status := S_FAILED, sg_next_retry_at := None, sg_completed_at := Some now\<rparr>)"

definition retry_or_fail_row ::
  "analysis_error_code \<Rightarrow> string \<Rightarrow> bool \<Rightarrow> int \<Rightarrow> int \<Rightarrow> stage_row \<Rightarrow> analysis_db \<Rightarrow> analysis_db" where
  "retry_or_fail_row code error_type retryable retry_at now r db =
     (let db1 = update_stage (sg_id r) (failed_stage code error_type retryable retry_at now) db
      in if retryable \<and> sg_attempt_count r < sg_max_attempts r
         then reschedule_wakeup (sg_id r) retry_at now db1 else set_wakeup_terminal (sg_id r) now db1)"

fun retry_or_fail_each ::
  "analysis_error_code \<Rightarrow> string \<Rightarrow> bool \<Rightarrow> int \<Rightarrow> int \<Rightarrow> (string, uuid) dict \<Rightarrow> string list \<Rightarrow> analysis_db \<Rightarrow> bool \<times> analysis_db"
where
  "retry_or_fail_each code error_type retryable retry_at now held [] db = (False, db)"
| "retry_or_fail_each code error_type retryable retry_at now held (t # ts) db =
     (case map_of held t of
        None \<Rightarrow> retry_or_fail_each code error_type retryable retry_at now held ts db
      | Some i \<Rightarrow>
          (case find_stage i db of
             None \<Rightarrow> retry_or_fail_each code error_type retryable retry_at now held ts db
           | Some r \<Rightarrow> (True, snd (retry_or_fail_each code error_type retryable retry_at now held ts
                              (retry_or_fail_row code error_type retryable retry_at now r db)))))"

definition retry_or_fail_targets ::
  "stage_snapshot \<Rightarrow> string list \<Rightarrow> analysis_error_code \<Rightarrow> string \<Rightarrow> bool \<Rightarrow> int \<Rightarrow> int \<Rightarrow> analysis_db
     \<Rightarrow> (bool \<times> analysis_db) result" where
  "retry_or_fail_targets s target_ids code error_type retryable retry_at now db =
     (if target_ids = [] then Inr (False, db)
      else try_bind (lock_targets (chosen_targets target_ids s) now db) (\<lambda>held.
        Inr (retry_or_fail_each code error_type retryable retry_at now held target_ids db)))"

definition retry_or_fail_claim ::
  "claimed_stage_run \<Rightarrow> analysis_error_code \<Rightarrow> string \<Rightarrow> bool \<Rightarrow> int \<Rightarrow> int \<Rightarrow> analysis_db \<Rightarrow> (bool \<times> analysis_db) result" where
  "retry_or_fail_claim c code error_type retryable retry_at now db =
     try_bind (uuid_or_value_error (cs_stage_run_id c)) (\<lambda>i.
     try_bind (uuid_or_value_error (cs_lease_token c)) (\<lambda>token.
       case find (\<lambda>r. sg_id r = i \<and> live_lease now r \<and> sg_lease_token r = Some token) (ab_stages db) of
         None \<Rightarrow> Inr (False, db)
       | Some r \<Rightarrow> Inr (True, retry_or_fail_row code error_type retryable retry_at now r db)))"

section \<open>The negative gate\<close>

text \<open>
  The causes by message: the first assignment named for each message; \<open>None\<close> when a request and the
  stored assignment disagree.
\<close>

fun gate_causes ::
  "model_label_row list \<Rightarrow> gate_assignment list \<Rightarrow> (uuid, model_label_row) dict \<Rightarrow> (uuid, model_label_row) dict option result"
where
  "gate_causes stored [] causes = Inr (Some causes)"
| "gate_causes stored (a # as) causes =
     try_bind (uuid_or_value_error (ga_assignment_id a)) (\<lambda>i.
       case find (\<lambda>l. ml_id l = i) stored of
         None \<Rightarrow> Inl KeyError
       | Some l \<Rightarrow>
           try_bind (uuid_or_value_error (ga_message_id a)) (\<lambda>m.
             if ml_message_id l \<noteq> m then Inr None
             else try_bind (uuid_or_value_error (ga_stage_run_id a)) (\<lambda>s.
               if ml_stage_run_id l \<noteq> s then Inr None
               else gate_causes stored as
                 (if dict_has (ml_message_id l) causes then causes else dict_set (ml_message_id l) l causes))))"

definition block_message :: "(uuid, model_label_row) dict \<Rightarrow> int \<Rightarrow> message_row \<Rightarrow> message_row" where
  "block_message causes now m =
     (case map_of causes (ms_id m) of
        None \<Rightarrow> m
      | Some l \<Rightarrow>
          if ms_blocked_from_analysis m then m
          else m\<lparr>ms_blocked_from_analysis := True, ms_blocked_at := Some now,
                 ms_blocked_by_stage_run_id := Some (ml_stage_run_id l),
                 ms_blocked_by_label_assignment_id := Some (ml_id l), ms_updated_at := now\<rparr>)"

definition skip_stage :: "int \<Rightarrow> stage_row \<Rightarrow> stage_row" where
  "skip_stage now r =
     r\<lparr>sg_status := S_SKIPPED_NEGATIVE_GATE, sg_next_retry_at := None, sg_lease_token := None,
       sg_lease_expires_at := None, sg_completed_at := Some now, sg_updated_at := now\<rparr>"

definition gated :: "uuid \<Rightarrow> uuid list \<Rightarrow> stage_row \<Rightarrow> bool" where
  "gated run_id messages r \<longleftrightarrow>
     sg_analysis_run_id r = run_id \<and> sg_message_id r \<in> set messages \<and> active_stage_status (sg_status r)"

definition close_gate :: "uuid \<Rightarrow> (uuid, model_label_row) dict \<Rightarrow> int \<Rightarrow> analysis_db \<Rightarrow> analysis_db" where
  "close_gate run_id causes now db =
     (let remaining = map sg_id (filter (gated run_id (map fst causes)) (ab_stages db));
          db1 = db\<lparr>ab_messages := map (block_message causes now) (ab_messages db),
                   ab_stages := update_where (gated run_id (map fst causes)) (skip_stage now) (ab_stages db)\<rparr>
      in update_run run_id (\<lambda>run. run\<lparr>an_status := ''blocked_negative_gate'',
           an_started_at := started now (an_started_at run), an_completed_at := Some now,
           an_last_error_code := None, an_last_error_type := None, an_updated_at := now\<rparr>)
           (fold (\<lambda>i. set_wakeup_terminal i now) remaining db1))"

definition gate_labels :: "uuid \<Rightarrow> uuid list \<Rightarrow> model_label_row list \<Rightarrow> model_label_row list" where
  "gate_labels run_id requested rows =
     filter (\<lambda>l. ml_id l \<in> set requested \<and> ml_analysis_run_id l = run_id \<and> ml_activated l \<and> ml_negative l) rows"

definition apply_negative_gate ::
  "string \<Rightarrow> gate_assignment list \<Rightarrow> int \<Rightarrow> analysis_db \<Rightarrow> (bool \<times> analysis_db) result" where
  "apply_negative_gate analysis_run_id assignments now db =
     (if assignments = [] then Inr (False, db)
      else
     try_bind (uuid_or_value_error analysis_run_id) (\<lambda>run_id.
     try_bind (traverse (\<lambda>a. uuid_or_value_error (ga_assignment_id a)) assignments) (\<lambda>requested.
       case find_run run_id db of
         None \<Rightarrow> Inr (False, db)
       | Some run \<Rightarrow>
           if an_run_mode run = ''test'' then Inr (False, db)
           else if card (ml_id ` set (gate_labels run_id requested (ab_labels db))) \<noteq> card (set requested)
           then Inr (False, db)
           else try_bind (gate_causes (gate_labels run_id requested (ab_labels db)) assignments []) (\<lambda>found.
             case found of
               None \<Rightarrow> Inr (False, db)
             | Some causes \<Rightarrow>
                 if count_where (\<lambda>m. ms_id m \<in> fst ` set causes) (ab_messages db) \<noteq> length causes
                 then Inr (False, db)
                 else Inr (True, close_gate run_id causes now db)))))"

section \<open>The status of a run\<close>

definition summarize_run :: "stage_row list \<Rightarrow> int \<Rightarrow> analysis_run_row \<Rightarrow> analysis_run_row" where
  "summarize_run stages now run =
     (let run1 = run\<lparr>an_started_at := started now (an_started_at run), an_updated_at := now\<rparr>
      in if list_ex (\<lambda>r. active_stage_status (sg_status r)) stages
         then run1\<lparr>an_status := ''running'', an_completed_at := None, an_last_error_code := None,
                   an_last_error_type := None\<rparr>
         else case find (\<lambda>r. sg_status r = S_FAILED) (sort_key completion_order stages) of
           Some failure \<Rightarrow>
             run1\<lparr>an_status := ''failed'', an_completed_at := Some now,
                  an_last_error_code := Some (sanitize_error_code (sg_last_error_code failure)),
                  an_last_error_type := Some (sanitize_error_type (sg_last_error_type failure))\<rparr>
         | None \<Rightarrow>
             if an_status run = ''blocked_negative_gate''
                \<or> list_ex (\<lambda>r. sg_status r = S_SKIPPED_NEGATIVE_GATE) stages
             then run1\<lparr>an_status := ''blocked_negative_gate'', an_completed_at := started now (an_completed_at run),
                       an_last_error_code := None, an_last_error_type := None\<rparr>
             else run1\<lparr>an_status := ''completed'', an_completed_at := Some now, an_last_error_code := None,
                       an_last_error_type := None\<rparr>)"

definition complete_analysis_run :: "string \<Rightarrow> int \<Rightarrow> analysis_db \<Rightarrow> (bool \<times> analysis_db) result" where
  "complete_analysis_run analysis_run_id now db =
     try_bind (uuid_or_value_error analysis_run_id) (\<lambda>i.
       case find_run i db of
         None \<Rightarrow> Inr (False, db)
       | Some run \<Rightarrow> Inr (True, update_run i (summarize_run (stages_of_run i db) now) db))"

end
