(* ===== verification/Analysis_Input.thy ===== *)
theory Analysis_Input
  imports Output_Schema Analysis_Store
begin

text \<open>
  What one inference call sees, \<^verbatim>\<open>application/analysis/input_composer.py\<close>, and the preparation, invocation and
  validation of a call, \<^verbatim>\<open>application/analysis/orchestrator.py\<close>.  The provider is a parameter.

  An exception of these modules is a value of \<open>input_error\<close>: an \<^verbatim>\<open>AnalysisInputError\<close> with its code and
  type, or another exception.
\<close>

section \<open>Exceptions\<close>

datatype input_error = Input_error analysis_error_code string | Raised error

definition raised :: "'a result \<Rightarrow> input_error + 'a" where
  "raised r = (case r of Inl e \<Rightarrow> Inl (Raised e) | Inr x \<Rightarrow> Inr x)"

text \<open>\<^verbatim>\<open>type(error).__name__\<close>.\<close>

fun error_name :: "error \<Rightarrow> string" where
  "error_name (DomainValidationError m) = ''DomainValidationError''"
| "error_name TypeError = ''TypeError''"
| "error_name OverflowError = ''OverflowError''"
| "error_name KeyError = ''KeyError''"
| "error_name IndexError = ''IndexError''"
| "error_name AssertionError = ''AssertionError''"
| "error_name ValueError = ''ValueError''"
| "error_name RuntimeError = ''RuntimeError''"
| "error_name IntegrityError = ''IntegrityError''"
| "error_name DataError = ''DataError''"
| "error_name OSError = ''OSError''"

text \<open>The \<^verbatim>\<open>except DomainValidationError\<close> of \<^verbatim>\<open>compose\<close>.\<close>

definition as_input_error :: "'a result \<Rightarrow> input_error + 'a" where
  "as_input_error r =
     (case r of
        Inl (DomainValidationError m) \<Rightarrow> Inl (Input_error INPUT_BUILD_ERROR ''DomainValidationError'')
      | Inl e \<Rightarrow> Inl (Raised e)
      | Inr x \<Rightarrow> Inr x)"

section \<open>Targets\<close>

record target_input =
  ti_target_id :: string
  ti_message_id :: string
  ti_asset_id :: "string option"
  ti_text :: "string option"
  ti_telegram_metadata :: "(string, pyval) dict option"
  ti_media :: "(string, pyval) dict list"
  ti_previous_results :: "(string, pyval) dict option"
  ti_visual_identity :: "string option"

definition check_target_input :: "target_input \<Rightarrow> target_input result" where
  "check_target_input t =
     (if blank (ti_target_id t) then fail ''analysis target_id must not be blank''
      else if blank (ti_message_id t) then fail ''analysis message_id must not be blank''
      else if (case ti_asset_id t of None \<Rightarrow> False | Some a \<Rightarrow> blank a)
      then fail ''analysis asset_id must be null or non-blank''
      else Inr t)"

definition or_empty :: "'a list option \<Rightarrow> 'a list" where
  "or_empty x = (case x of None \<Rightarrow> [] | Some xs \<Rightarrow> xs)"

definition text_or_null :: "string option \<Rightarrow> pyval" where
  "text_or_null t = (case t of None \<Rightarrow> PNone | Some s \<Rightarrow> PStr s)"

definition validate_analysis_targets ::
  "analysis_stage_template_version \<Rightarrow> target_input list \<Rightarrow> input_error + unit" where
  "validate_analysis_targets stage targets =
     (if targets = [] then raised (fail ''analysis targets must be a non-empty tuple'')
      else if \<not> distinct (map ti_target_id targets) then raised (fail ''analysis target IDs must be unique'')
      else if st_max_batch_size stage < int (length targets)
      then raised (fail ''analysis target count exceeds stage max_batch_size'')
      else if st_execution_mode stage \<in> {SINGLE_MESSAGE, PER_ASSET} \<and> length targets \<noteq> 1
      then raised (fail ''non-batch analysis requires one target'')
      else if st_execution_mode stage \<in> {BATCH_MESSAGES, SINGLE_MESSAGE}
              \<and> list_ex (\<lambda>t. ti_target_id t \<noteq> ti_message_id t) targets
      then raised (fail ''message execution target_id must equal message_id'')
      else if st_execution_mode stage \<notin> {BATCH_MESSAGES, SINGLE_MESSAGE}
              \<and> list_ex (\<lambda>t. ti_asset_id t \<noteq> Some (ti_target_id t)) targets
      then raised (fail ''asset execution target_id must equal asset_id'')
      else if si_media (st_input_policy stage) \<and> list_ex (\<lambda>t. ti_media t = []) targets
      then Inl (Input_error MEDIA_UNAVAILABLE ''RequiredMediaUnavailable'')
      else Inr ())"

section \<open>Prompt values and manifest inputs\<close>

definition message_text :: "execution_mode \<Rightarrow> target_input list \<Rightarrow> pyval" where
  "message_text mode targets =
     (if mode = SINGLE_MESSAGE then PStr (or_empty (ti_text (hd targets)))
      else PList (map (\<lambda>t. PDict [(''message_id'', PStr (ti_message_id t)), (''text'', PStr (or_empty (ti_text t)))]) targets))"

definition asset_manifest :: "target_input list \<Rightarrow> pyval" where
  "asset_manifest targets =
     PList (map (\<lambda>t. PDict
       [(''target_id'', PStr (ti_target_id t)), (''message_id'', PStr (ti_message_id t)),
        (''asset_id'', text_or_null (ti_asset_id t)), (''media'', PList (map PDict (ti_media t)))]) targets)"

definition when_declared :: "prompt_template \<Rightarrow> string \<Rightarrow> pyval \<Rightarrow> (string, pyval) dict" where
  "when_declared p v x = (if v \<in> set (pt_declared_variables p) then [(v, x)] else [])"

definition prompt_values ::
  "analysis_stage_template_version \<Rightarrow> target_input list \<Rightarrow> (string, pyval) dict \<Rightarrow> (string, pyval) dict" where
  "prompt_values stage targets context =
     (let p = st_prompt stage
      in when_declared p ''label_definitions'' (prompt_definitions (st_label_set stage))
         @ when_declared p ''message_text'' (message_text (st_execution_mode stage) targets)
         @ when_declared p ''asset_manifest'' (asset_manifest targets)
         @ when_declared p ''previous_results''
             (PDict (map (\<lambda>t. (ti_target_id t, PDict (or_empty (ti_previous_results t)))) targets))
         @ when_declared p ''source_channel_context'' (PDict context))"

definition manifest_item :: "stage_input_policy \<Rightarrow> target_input \<Rightarrow> (string, pyval) dict" where
  "manifest_item policy t =
     [(''target_id'', PStr (ti_target_id t)), (''message_id'', PStr (ti_message_id t)),
      (''asset_id'', text_or_null (ti_asset_id t))]
     @ (if si_text policy then [(''text'', PStr (or_empty (ti_text t)))] else [])
     @ (if si_telegram_metadata policy then [(''telegram_metadata'', PDict (or_empty (ti_telegram_metadata t)))] else [])
     @ (if si_media policy then [(''media'', PList (map PDict (ti_media t)))] else [])
     @ (if si_previous_results policy then [(''previous_results'', PDict (or_empty (ti_previous_results t)))] else [])"

definition manifest_inputs ::
  "stage_input_policy \<Rightarrow> target_input list \<Rightarrow> (string, pyval) dict \<Rightarrow> rendered_prompt \<Rightarrow> (string, pyval) dict" where
  "manifest_inputs policy targets context r =
     [(''targets'', PList (map (\<lambda>t. PDict (manifest_item policy t)) targets))]
     @ (if si_source_channel_context policy then [(''source_channel_context'', PDict context)] else [])
     @ [(''rendered_prompt'', PDict [(''system'', PStr (rp_system_prompt r)), (''user'', PStr (rp_user_prompt r))])]"

definition scope_hash :: "(string \<Rightarrow> string) \<Rightarrow> (rat \<Rightarrow> string) \<Rightarrow> string list \<Rightarrow> input_error + string option" where
  "scope_hash sha float_text ids =
     (case ids of [i] \<Rightarrow> Inr (Some i)
      | _ \<Rightarrow> raised (try_bind (canonical_hash sha float_text (PList (map PStr ids))) (\<lambda>h. Inr (Some h))))"

definition cache_scope_identity ::
  "(string \<Rightarrow> string) \<Rightarrow> (rat \<Rightarrow> string) \<Rightarrow> cache_policy \<Rightarrow> target_input list \<Rightarrow> input_error + string option" where
  "cache_scope_identity sha float_text policy targets =
     (case policy of
        CACHE_NONE \<Rightarrow> Inr None
      | CACHE_MESSAGE \<Rightarrow> scope_hash sha float_text (map ti_message_id targets)
      | CACHE_MESSAGE_VISUAL \<Rightarrow>
          if list_ex (\<lambda>t. or_empty (ti_visual_identity t) = []) targets
          then Inl (Input_error INPUT_BUILD_ERROR ''MissingVisualCacheIdentity'')
          else scope_hash sha float_text (map (\<lambda>t. or_empty (ti_visual_identity t)) targets)
      | CACHE_ASSET \<Rightarrow>
          if list_ex (\<lambda>t. ti_asset_id t = None) targets
          then Inl (Input_error INPUT_BUILD_ERROR ''MissingAssetCacheIdentity'')
          else scope_hash sha float_text (map (\<lambda>t. or_empty (ti_asset_id t)) targets))"

record composed_input =
  co_rendered_prompt :: rendered_prompt
  co_input_manifest :: input_manifest
  co_cache_scope_identity :: "string option"

text \<open>The \<^verbatim>\<open>MANIFEST_VERSION\<close> is one.\<close>

definition compose_input ::
  "(string \<Rightarrow> string) \<Rightarrow> (rat \<Rightarrow> string) \<Rightarrow> analysis_stage_template_version \<Rightarrow> target_input list
     \<Rightarrow> structured_output_schema \<Rightarrow> (string, pyval) dict \<Rightarrow> input_error + composed_input" where
  "compose_input sha float_text stage targets schema context =
     try_bind (validate_analysis_targets stage targets) (\<lambda>_.
     try_bind (as_input_error
       (try_bind (render_prompt float_text (st_prompt stage) (prompt_values stage targets context)) (\<lambda>rendered.
        try_bind (create_manifest sha float_text 1 (st_target_scope stage) (st_execution_mode stage)
            (map ti_target_id targets) (pt_version_id (st_prompt stage)) (sx_schema_hash schema)
            (ip_version_id (st_inference_profile stage))
            (manifest_inputs (st_input_policy stage) targets context rendered)
            (ip_sampling_parameters (st_inference_profile stage))) (\<lambda>manifest.
          Inr (rendered, manifest))))) (\<lambda>(rendered, manifest).
     try_bind (cache_scope_identity sha float_text (st_cache_policy stage) targets) (\<lambda>scope.
       Inr \<lparr>co_rendered_prompt = rendered, co_input_manifest = manifest, co_cache_scope_identity = scope\<rparr>)))"

section \<open>The orchestrator\<close>

record inference_request =
  iq_profile :: inference_profile
  iq_system_prompt :: string
  iq_user_prompt :: string
  iq_input_manifest :: input_manifest
  iq_response_schema :: "(string, pyval) dict"
  iq_timeout_seconds :: pyval
  iq_attempt :: int

record prepared_call =
  pc_schema :: structured_output_schema
  pc_request :: inference_request
  pc_cache_key :: "stage_cache_key option"

text \<open>\<^verbatim>\<open>min\<close> of two numbers: the first of them unless the second is smaller.\<close>

definition shorter :: "pyval \<Rightarrow> pyval \<Rightarrow> pyval" where
  "shorter a b = (case (num_val a, num_val b) of (Some x, Some y) \<Rightarrow> if fl_le x y then a else b | _ \<Rightarrow> a)"

definition prepare_call ::
  "(string \<Rightarrow> string) \<Rightarrow> (rat \<Rightarrow> string) \<Rightarrow> analysis_stage_template_version \<Rightarrow> target_input list
     \<Rightarrow> (string, pyval) dict \<Rightarrow> int \<Rightarrow> input_error + prepared_call" where
  "prepare_call sha float_text stage targets context attempt =
     try_bind (raised (build_schema sha float_text (st_version_id stage) (st_label_set stage) (st_execution_mode stage)
         (st_structured_output_policy stage) (map ti_target_id targets))) (\<lambda>schema.
     try_bind (compose_input sha float_text stage targets schema context) (\<lambda>composed.
     try_bind (raised (build_cache_key sha (st_cache_policy stage) (co_cache_scope_identity composed)
         \<lparr>ci_stage_template_version_id = st_version_id stage, ci_prompt_version_id = pt_version_id (st_prompt stage),
          ci_label_set_version_id = ls_version_id (st_label_set stage),
          ci_structured_output_schema_hash = sx_schema_hash schema,
          ci_inference_profile_version_id = ip_version_id (st_inference_profile stage),
          ci_input_manifest_hash = mn_hash (co_input_manifest composed)\<rparr>)) (\<lambda>key.
       Inr \<lparr>pc_schema = schema,
         pc_request = \<lparr>iq_profile = st_inference_profile stage,
           iq_system_prompt = rp_system_prompt (co_rendered_prompt composed),
           iq_user_prompt = rp_user_prompt (co_rendered_prompt composed),
           iq_input_manifest = co_input_manifest composed, iq_response_schema = sx_document schema,
           iq_timeout_seconds = shorter (st_timeout_seconds stage) (ip_timeout_seconds (st_inference_profile stage)),
           iq_attempt = attempt\<rparr>,
         pc_cache_key = key\<rparr>)))"

text \<open>What the provider of one call does: answer, fail with an \<^verbatim>\<open>InferenceProviderFailure\<close>, or raise.\<close>

datatype provider_reply = Answered inference_response | Provider_failure execution_failure | Provider_raised string

definition failure_of :: "analysis_error_code \<Rightarrow> string \<Rightarrow> bool \<Rightarrow> execution_failure" where
  "failure_of code error_type retryable =
     \<lparr>ef_code = code, ef_error_type = error_type, ef_retryable = retryable, ef_raw_response = None,
      ef_latency_ms = None, ef_http_status = None, ef_token_usage = None\<rparr>"

definition invoke_provider ::
  "(inference_request \<Rightarrow> provider_reply) option \<Rightarrow> prepared_call \<Rightarrow> execution_failure + inference_response" where
  "invoke_provider provider call =
     (case provider of
        None \<Rightarrow> Inl (failure_of PROVIDER_ERROR ''InferenceProviderNotConfigured'' True)
      | Some infer \<Rightarrow>
          (case infer (pc_request call) of
             Answered response \<Rightarrow> Inr response
           | Provider_failure f \<Rightarrow> Inl f
           | Provider_raised name \<Rightarrow> Inl (failure_of INTERNAL_ERROR name True)))"

definition validate_response ::
  "analysis_stage_template_version \<Rightarrow> target_input list \<Rightarrow> inference_response
     \<Rightarrow> (structured_output_validation \<times> bool) result" where
  "validate_response stage targets response =
     try_bind (validate_output (ir_payload response) (st_execution_mode stage) (st_structured_output_policy stage)
         (st_label_set stage) (map ti_target_id targets)) (\<lambda>v.
       Inr (v, fst (evaluate_stage_negative_gate (sv_valid_results v))))"

text \<open>The failure that \<^verbatim>\<open>execute\<close> and the worker report for an exception of the preparation.\<close>

fun preparation_failure :: "input_error \<Rightarrow> execution_failure" where
  "preparation_failure (Input_error code error_type) = failure_of code error_type False"
| "preparation_failure (Raised (DomainValidationError m)) = failure_of INPUT_BUILD_ERROR ''DomainValidationError'' False"
| "preparation_failure (Raised e) = failure_of INTERNAL_ERROR (error_name e) True"

definition execute_stage ::
  "(string \<Rightarrow> string) \<Rightarrow> (rat \<Rightarrow> string) \<Rightarrow> (inference_request \<Rightarrow> provider_reply) option
     \<Rightarrow> analysis_stage_template_version \<Rightarrow> target_input list \<Rightarrow> (string, pyval) dict \<Rightarrow> int
     \<Rightarrow> (execution_failure + structured_output_validation \<times> bool) result" where
  "execute_stage sha float_text provider stage targets context attempt =
     (case prepare_call sha float_text stage targets context attempt of
        Inl e \<Rightarrow> Inr (Inl (preparation_failure e))
      | Inr call \<Rightarrow>
          (case invoke_provider provider call of
             Inl f \<Rightarrow> Inr (Inl f)
           | Inr response \<Rightarrow> try_bind (validate_response stage targets response) (\<lambda>v. Inr (Inr v))))"

section \<open>What a stage can see\<close>

definition same_view :: "stage_input_policy \<Rightarrow> target_input \<Rightarrow> target_input \<Rightarrow> bool" where
  "same_view p t u \<longleftrightarrow> ti_target_id t = ti_target_id u \<and> ti_message_id t = ti_message_id u
     \<and> ti_asset_id t = ti_asset_id u \<and> ti_visual_identity t = ti_visual_identity u
     \<and> (si_text p \<longrightarrow> ti_text t = ti_text u)
     \<and> (si_telegram_metadata p \<longrightarrow> ti_telegram_metadata t = ti_telegram_metadata u)
     \<and> (si_media p \<longrightarrow> ti_media t = ti_media u)
     \<and> (si_previous_results p \<longrightarrow> ti_previous_results t = ti_previous_results u)"

lemma same_view_map:
  assumes "list_all2 (same_view p) ts us" and "\<And>t u. same_view p t u \<Longrightarrow> f t = f u"
  shows "map f ts = map f us"
  using assms(1) by induction (simp_all add: assms(2))

lemma same_view_ex:
  assumes "list_all2 (same_view p) ts us" and "\<And>t u. same_view p t u \<Longrightarrow> P t = P u"
  shows "list_ex P ts = list_ex P us"
  using assms(1) by induction (simp_all add: assms(2))

lemma same_view_columns:
  assumes "list_all2 (same_view p) ts us"
  shows "map ti_target_id ts = map ti_target_id us" "map ti_message_id ts = map ti_message_id us"
    "map (\<lambda>t. or_empty (ti_asset_id t)) ts = map (\<lambda>t. or_empty (ti_asset_id t)) us"
    "map (\<lambda>t. or_empty (ti_visual_identity t)) ts = map (\<lambda>t. or_empty (ti_visual_identity t)) us"
    "map (\<lambda>t. PDict (manifest_item p t)) ts = map (\<lambda>t. PDict (manifest_item p t)) us"
    "si_previous_results p \<Longrightarrow> map (\<lambda>t. (ti_target_id t, PDict (or_empty (ti_previous_results t)))) ts
       = map (\<lambda>t. (ti_target_id t, PDict (or_empty (ti_previous_results t)))) us"
  by (rule same_view_map [OF assms], simp add: same_view_def manifest_item_def)+

lemma same_view_tests:
  assumes "list_all2 (same_view p) ts us"
  shows "list_ex (\<lambda>t. ti_target_id t \<noteq> ti_message_id t) ts = list_ex (\<lambda>t. ti_target_id t \<noteq> ti_message_id t) us"
    "list_ex (\<lambda>t. ti_asset_id t \<noteq> Some (ti_target_id t)) ts = list_ex (\<lambda>t. ti_asset_id t \<noteq> Some (ti_target_id t)) us"
    "list_ex (\<lambda>t. or_empty (ti_visual_identity t) = []) ts = list_ex (\<lambda>t. or_empty (ti_visual_identity t) = []) us"
    "list_ex (\<lambda>t. ti_asset_id t = None) ts = list_ex (\<lambda>t. ti_asset_id t = None) us"
    "si_media p \<Longrightarrow> list_ex (\<lambda>t. ti_media t = []) ts = list_ex (\<lambda>t. ti_media t = []) us"
  by (rule same_view_ex [OF assms], simp add: same_view_def)+

lemma same_view_manifest:
  assumes "list_all2 (same_view p) ts us" and "si_media p"
  shows "asset_manifest ts = asset_manifest us"
  unfolding asset_manifest_def
  by (rule arg_cong [of _ _ PList], rule same_view_map [OF assms(1)]) (use assms(2) in \<open>simp add: same_view_def\<close>)

lemma same_message_text:
  assumes "list_all2 (same_view p) ts us" and "si_text p" and "ts \<noteq> []"
  shows "message_text mode ts = message_text mode us"
proof -
  from assms(1,3) have "same_view p (hd ts) (hd us)" by cases simp_all
  moreover have "map (\<lambda>t. PDict [(''message_id'', PStr (ti_message_id t)), (''text'', PStr (or_empty (ti_text t)))]) ts
      = map (\<lambda>t. PDict [(''message_id'', PStr (ti_message_id t)), (''text'', PStr (or_empty (ti_text t)))]) us"
    by (rule same_view_map [OF assms(1)]) (use assms(2) in \<open>simp add: same_view_def\<close>)
  ultimately show ?thesis using assms(2) by (simp add: message_text_def same_view_def)
qed

lemma declared_available:
  assumes "check_stage_template s0 = Inr stage"
  shows "set (pt_declared_variables (st_prompt stage)) \<subseteq> set (available_prompt_variables (st_input_policy stage))"
proof -
  from assms have s: "check_stage_consistency s0 = Inr ()" "st_prompt stage = st_prompt s0"
      "st_input_policy stage = st_input_policy s0"
    by (auto simp: check_stage_template_def elim!: try_bindE split: if_splits)
  from s(1) show ?thesis unfolding s(2,3) by (simp only: check_stage_consistency_def split: if_splits) simp_all
qed

text \<open>
  C12: A stage sees only what its input policy admits: two inputs that differ in texts, metadata, media,
  previous results or channel context which the policy of an accepted stage leaves out are prepared as the
  same call, with the same prompts, manifest and cache key.
\<close>

theorem stage_sees_only_its_inputs:
  assumes "check_stage_template s0 = Inr stage" and view: "list_all2 (same_view (st_input_policy stage)) ts us"
    and ctx: "si_source_channel_context (st_input_policy stage) \<or> si_telegram_metadata (st_input_policy stage) \<longrightarrow> c = d"
  shows "prepare_call sha ft stage ts c attempt = prepare_call sha ft stage us d attempt"
proof -
  let ?p = "st_input_policy stage"
  note columns = same_view_columns [OF view] and tests = same_view_tests [OF view]
  have empty: "(ts = []) = (us = [])" "length ts = length us" using list_all2_lengthD [OF view] by auto
  have "set (pt_declared_variables (st_prompt stage)) \<subseteq> set (available_prompt_variables ?p)"
    by (rule declared_available [OF assms(1)])
  then have declared: "v \<in> set (available_prompt_variables ?p)" if "v \<in> set (pt_declared_variables (st_prompt stage))" for v
    using that by blast
  have media: "(si_media ?p \<and> list_ex (\<lambda>t. ti_media t = []) ts) = (si_media ?p \<and> list_ex (\<lambda>t. ti_media t = []) us)"
    using tests(5) by blast
  have valid: "validate_analysis_targets stage ts = validate_analysis_targets stage us"
    unfolding validate_analysis_targets_def columns(1) tests(1,2) empty media by (rule HOL.refl)
  have "prompt_values stage ts c = prompt_values stage us d" if "ts \<noteq> []"
  proof -
    have "when_declared (st_prompt stage) ''message_text'' (message_text (st_execution_mode stage) ts)
        = when_declared (st_prompt stage) ''message_text'' (message_text (st_execution_mode stage) us)"
      using declared [of "''message_text''"] same_message_text [OF view _ that]
      by (auto simp: when_declared_def available_prompt_variables_def)
    moreover have "when_declared (st_prompt stage) ''asset_manifest'' (asset_manifest ts)
        = when_declared (st_prompt stage) ''asset_manifest'' (asset_manifest us)"
      using declared [of "''asset_manifest''"] same_view_manifest [OF view] by (auto simp: when_declared_def available_prompt_variables_def)
    moreover have "when_declared (st_prompt stage) ''previous_results''
          (PDict (map (\<lambda>t. (ti_target_id t, PDict (or_empty (ti_previous_results t)))) ts))
        = when_declared (st_prompt stage) ''previous_results''
          (PDict (map (\<lambda>t. (ti_target_id t, PDict (or_empty (ti_previous_results t)))) us))"
      using declared [of "''previous_results''"] columns(6) by (auto simp: when_declared_def available_prompt_variables_def)
    moreover have "when_declared (st_prompt stage) ''source_channel_context'' (PDict c)
        = when_declared (st_prompt stage) ''source_channel_context'' (PDict d)"
      using declared [of "''source_channel_context''"] ctx by (auto simp: when_declared_def available_prompt_variables_def)
    ultimately show ?thesis unfolding prompt_values_def Let_def by simp
  qed
  moreover have "manifest_inputs ?p ts c r = manifest_inputs ?p us d r" for r
    unfolding manifest_inputs_def columns(5) using ctx by simp
  moreover have "cache_scope_identity sha ft (st_cache_policy stage) ts = cache_scope_identity sha ft (st_cache_policy stage) us"
    unfolding cache_scope_identity_def columns(2,3,4) tests(3,4) by (rule HOL.refl)
  moreover have "ts = [] \<Longrightarrow> \<exists>e. validate_analysis_targets stage us = Inl e"
    using empty(1) by (simp add: validate_analysis_targets_def raised_def fail_def)
  ultimately have "compose_input sha ft stage ts x c = compose_input sha ft stage us x d" for x
    unfolding compose_input_def valid columns(1) by (cases "ts = []") auto
  then show ?thesis unfolding prepare_call_def columns(1) by simp
qed

definition sample_target :: "(string, pyval) dict \<Rightarrow> target_input" where
  "sample_target metadata = \<lparr>ti_target_id = ''m1'', ti_message_id = ''m1'', ti_asset_id = None, ti_text = Some ''sale'',
     ti_telegram_metadata = Some metadata, ti_media = [], ti_previous_results = None, ti_visual_identity = None\<rparr>"

text \<open>The sample stage reads texts only, so that the metadata of a message do not matter.\<close>

theorem stage_sees_only_its_inputs_witness:
  "prepare_call (\<lambda>t. replicate 64 CHR ''a'') (\<lambda>q. ''0.5'') sample_stage [sample_target [(''views'', PInt 7)]] [] 1
     = prepare_call (\<lambda>t. replicate 64 CHR ''a'') (\<lambda>q. ''0.5'') sample_stage [sample_target []] [(''username'', PNone)] 1
   \<and> \<not> isl (prepare_call (\<lambda>t. replicate 64 CHR ''a'') (\<lambda>q. ''0.5'') sample_stage [sample_target []] [] 1)"
proof
  have c: "check_stage_template sample_stage = Inr sample_stage" by code_simp
  show "prepare_call (\<lambda>t. replicate 64 CHR ''a'') (\<lambda>q. ''0.5'') sample_stage [sample_target [(''views'', PInt 7)]] [] 1
     = prepare_call (\<lambda>t. replicate 64 CHR ''a'') (\<lambda>q. ''0.5'') sample_stage [sample_target []] [(''username'', PNone)] 1"
    by (rule stage_sees_only_its_inputs [OF c]) (simp_all add: same_view_def sample_target_def sample_stage_def)
  show "\<not> isl (prepare_call (\<lambda>t. replicate 64 CHR ''a'') (\<lambda>q. ''0.5'') sample_stage [sample_target []] [] 1)" by code_simp
qed

end
