(* ===== verification/Analysis_Invariant.thy ===== *)
theory Analysis_Invariant
  imports Analysis_Store Archive_Steps
begin

text \<open>
  The invariant of the analysis engine: the lifecycle constraints of \<^verbatim>\<open>stage_runs\<close>, \<^verbatim>\<open>analysis_runs\<close> and
  \<^verbatim>\<open>inference_calls\<close>, an active wake-up for every unfinished stage run, label assignments only for stage
  runs that succeeded outside test runs, and run statuses that agree with their stage runs; together
  with how rows evolve: a finished stage run never changes, and attempts are never given back.
\<close>

section \<open>Lifecycle constraints\<close>

definition is_object :: "pyval \<Rightarrow> bool" where
  "is_object v = (case v of PDict _ \<Rightarrow> True | _ \<Rightarrow> False)"

definition stage_ok :: "stage_row \<Rightarrow> bool" where
  "stage_ok r \<longleftrightarrow>
     0 \<le> sg_attempt_count r \<and> sg_attempt_count r \<le> sg_max_attempts r \<and> 0 < sg_max_attempts r
     \<and> (sg_status r = S_RUNNING \<longrightarrow> sg_lease_token r \<noteq> None \<and> sg_lease_expires_at r \<noteq> None \<and> 0 < sg_attempt_count r)
     \<and> (sg_status r \<noteq> S_RUNNING \<longrightarrow> sg_lease_token r = None \<and> sg_lease_expires_at r = None)
     \<and> (sg_status r = S_RETRY_WAIT \<longleftrightarrow> sg_next_retry_at r \<noteq> None)
     \<and> (sg_status r = S_RETRY_WAIT \<or> sg_status r = S_FAILED \<longrightarrow>
          sg_last_error_code r \<noteq> None \<and> sg_last_error_type r \<noteq> None \<and> sg_retryable r \<noteq> None
          \<and> sg_last_failure_at r \<noteq> None)
     \<and> (\<not> active_stage_status (sg_status r) \<longrightarrow> sg_completed_at r \<noteq> None)
     \<and> (sg_status r = S_SUCCEEDED \<longrightarrow>
          sg_parsed_result r \<noteq> None \<and> sg_result_origin r \<noteq> None \<and> sg_input_manifest_id r \<noteq> None)
     \<and> (sg_result_origin r = None \<and> sg_reused_from r = None
        \<or> sg_result_origin r = Some ''inference'' \<and> sg_reused_from r = None
        \<or> sg_result_origin r = Some ''cache'' \<and> sg_reused_from r \<noteq> None)
     \<and> sg_cache_policy r \<in> {''none'', ''message'', ''message_visual'', ''asset''}
     \<and> cache_key_allowed (sg_semantic_cache_key r)
     \<and> (\<forall>v. sg_parsed_result r = Some v \<longrightarrow> is_object v)
     \<and> (sg_inference_call_id r \<noteq> None \<longrightarrow> sg_input_manifest_id r \<noteq> None)"

definition run_ok :: "analysis_run_row \<Rightarrow> bool" where
  "run_ok run \<longleftrightarrow>
     (an_status run = ''pending'' \<and> an_started_at run = None \<and> an_completed_at run = None
      \<or> an_status run = ''running'' \<and> an_started_at run \<noteq> None \<and> an_completed_at run = None
      \<or> an_status run \<in> set terminal_run_statuses \<and> an_started_at run \<noteq> None \<and> an_completed_at run \<noteq> None)
     \<and> (an_status run = ''failed'' \<longrightarrow> an_last_error_code run \<noteq> None \<and> an_last_error_type run \<noteq> None)"

definition call_ok :: "inference_call_row \<Rightarrow> bool" where
  "call_ok c \<longleftrightarrow> 0 < ic_attempt c
     \<and> (ic_status c = C_PENDING \<and> ic_completed_at c = None
        \<or> ic_status c = C_SUCCEEDED \<and> ic_completed_at c \<noteq> None \<and> ic_raw_response c \<noteq> None
          \<and> ic_error_code c = None \<and> ic_error_type c = None
        \<or> ic_status c = C_FAILED \<and> ic_completed_at c \<noteq> None \<and> ic_error_code c \<noteq> None
          \<and> ic_error_type c \<noteq> None \<and> ic_retryable c \<noteq> None)
     \<and> (\<forall>q. ic_latency_ms c = Some q \<longrightarrow> fl_le (Fin 0) q)
     \<and> (\<forall>h. ic_http_status c = Some h \<longrightarrow> 100 \<le> h \<and> h \<le> 599)"

section \<open>Rows and their neighbours\<close>

definition of_run :: "analysis_run_row \<Rightarrow> stage_row \<Rightarrow> bool" where
  "of_run run r \<longleftrightarrow> sg_analysis_run_id r = an_id run"

definition owned :: "analysis_run_row list \<Rightarrow> stage_row \<Rightarrow> bool" where
  "owned runs r \<longleftrightarrow> (\<exists>run \<in> set runs. of_run run r \<and> an_message_id run = sg_message_id r)"

definition settled :: "stage_row list \<Rightarrow> analysis_run_row \<Rightarrow> bool" where
  "settled stages run \<longleftrightarrow>
     (an_status run \<in> set terminal_run_statuses \<longrightarrow>
        (\<forall>r \<in> set stages. of_run run r \<longrightarrow> \<not> active_stage_status (sg_status r)))
     \<and> (an_status run = ''completed'' \<longrightarrow>
        (\<forall>r \<in> set stages. of_run run r \<longrightarrow> sg_status r = S_SUCCEEDED \<or> sg_status r = S_SKIPPED_CONDITION))
     \<and> (an_status run = ''failed'' \<longrightarrow> (\<exists>r \<in> set stages. of_run run r \<and> sg_status r = S_FAILED))"

definition stage_awake :: "wakeup_row list \<Rightarrow> stage_row \<Rightarrow> bool" where
  "stage_awake ws r \<longleftrightarrow> (active_stage_status (sg_status r) \<longrightarrow>
     (\<exists>w \<in> set ws. wk_queue w = analysis_queue \<and> wk_entity_id w = sg_id r \<and> active_wakeup w))"

definition label_ok :: "analysis_run_row list \<Rightarrow> stage_row list \<Rightarrow> model_label_row \<Rightarrow> bool" where
  "label_ok runs stages l \<longleftrightarrow>
     (\<exists>r \<in> set stages. sg_id r = ml_stage_run_id l \<and> sg_analysis_run_id r = ml_analysis_run_id l
        \<and> sg_message_id r = ml_message_id l \<and> sg_target_id r = ml_target_id l \<and> sg_status r = S_SUCCEEDED)
     \<and> (\<forall>run \<in> set runs. an_id run = ml_analysis_run_id l \<longrightarrow> an_run_mode run \<noteq> ''test'')"

definition analysis_ok :: "analysis_db \<Rightarrow> bool" where
  "analysis_ok db \<longleftrightarrow>
     distinct (map sg_id (ab_stages db)) \<and> distinct (map an_id (ab_runs db))
     \<and> (\<forall>r \<in> set (ab_stages db). stage_ok r \<and> owned (ab_runs db) r \<and> stage_awake (ab_wakeups db) r)
     \<and> (\<forall>run \<in> set (ab_runs db). run_ok run \<and> settled (ab_stages db) run)
     \<and> (\<forall>l \<in> set (ab_labels db). label_ok (ab_runs db) (ab_stages db) l)
     \<and> (\<forall>c \<in> set (ab_calls db). call_ok c)
     \<and> (\<forall>w \<in> set (ab_wakeups db). wakeup_ok w)"

section \<open>How rows evolve\<close>

definition stage_evolves :: "stage_row \<Rightarrow> stage_row \<Rightarrow> bool" where
  "stage_evolves r r' \<longleftrightarrow> sg_id r' = sg_id r \<and> sg_analysis_run_id r' = sg_analysis_run_id r
     \<and> sg_message_id r' = sg_message_id r \<and> sg_target_id r' = sg_target_id r
     \<and> sg_stage_version_id r' = sg_stage_version_id r \<and> sg_max_attempts r' = sg_max_attempts r
     \<and> sg_attempt_count r \<le> sg_attempt_count r'
     \<and> (\<not> active_stage_status (sg_status r) \<longrightarrow> r' = r)"

definition run_evolves :: "analysis_run_row \<Rightarrow> analysis_run_row \<Rightarrow> bool" where
  "run_evolves a b \<longleftrightarrow> an_id b = an_id a \<and> an_message_id b = an_message_id a \<and> an_run_mode b = an_run_mode a"

definition evolves :: "analysis_db \<Rightarrow> analysis_db \<Rightarrow> bool" where
  "evolves db db' \<longleftrightarrow> list_all2 stage_evolves (ab_stages db) (ab_stages db')
     \<and> list_all2 run_evolves (ab_runs db) (ab_runs db')"

lemma stage_evolves_refl [simp]: "stage_evolves r r"
  by (simp add: stage_evolves_def)

lemma stage_evolves_trans: "stage_evolves a b \<Longrightarrow> stage_evolves b c \<Longrightarrow> stage_evolves a c"
  unfolding stage_evolves_def by force

lemma run_evolves_refl [simp]: "run_evolves r r"
  by (simp add: run_evolves_def)

lemma run_evolves_trans: "run_evolves a b \<Longrightarrow> run_evolves b c \<Longrightarrow> run_evolves a c"
  by (simp add: run_evolves_def)

lemma evolves_refl [simp]: "evolves db db"
  by (simp add: evolves_def list_all2_refl)

lemma evolves_trans: "evolves a b \<Longrightarrow> evolves b c \<Longrightarrow> evolves a c"
  using list_all2_trans [of stage_evolves stage_evolves stage_evolves "ab_stages a" "ab_stages b" "ab_stages c"]
    list_all2_trans [of run_evolves run_evolves run_evolves "ab_runs a" "ab_runs b" "ab_runs c"]
    stage_evolves_trans run_evolves_trans
  unfolding evolves_def by blast

text \<open>A transaction is good when it keeps the invariant and only lets rows evolve.\<close>

definition good :: "analysis_db \<Rightarrow> analysis_db \<Rightarrow> bool" where
  "good db db' \<longleftrightarrow> (analysis_ok db \<longrightarrow> analysis_ok db' \<and> evolves db db')"

lemma good_refl [simp]: "good db db"
  by (simp add: good_def)

lemma good_trans: "good a b \<Longrightarrow> (analysis_ok b \<Longrightarrow> evolves a b \<Longrightarrow> good b c) \<Longrightarrow> good a c"
  unfolding good_def using evolves_trans by blast

lemma goodI: "(analysis_ok db \<Longrightarrow> good db db') \<Longrightarrow> good db db'"
  by (simp add: good_def)

section \<open>Updates of one table\<close>

lemma list_all2_update_where:
  "(\<And>r. R r r) \<Longrightarrow> (\<And>r. r \<in> set rows \<Longrightarrow> P r \<Longrightarrow> R r (f r)) \<Longrightarrow> list_all2 R rows (update_where P f rows)"
  by (simp add: update_where_def list.rel_map list.rel_refl_strong)

lemma settled_filter:
  "filter (of_run run) stages' = filter (of_run run) stages \<Longrightarrow> settled stages' run = settled stages run"
proof -
  have "settled st run \<longleftrightarrow>
      (an_status run \<in> set terminal_run_statuses \<longrightarrow> (\<forall>r \<in> set (filter (of_run run) st). \<not> active_stage_status (sg_status r)))
     \<and> (an_status run = ''completed'' \<longrightarrow>
        (\<forall>r \<in> set (filter (of_run run) st). sg_status r = S_SUCCEEDED \<or> sg_status r = S_SKIPPED_CONDITION))
     \<and> (an_status run = ''failed'' \<longrightarrow> (\<exists>r \<in> set (filter (of_run run) st). sg_status r = S_FAILED))" for st
    by (auto simp: settled_def)
  then show "filter (of_run run) stages' = filter (of_run run) stages \<Longrightarrow> ?thesis" by (simp only:)
qed

lemma stages_good:
  assumes "\<And>r. r \<in> set (ab_stages db) \<Longrightarrow> P r \<Longrightarrow> stage_ok r \<Longrightarrow> stage_ok (f r) \<and> stage_evolves r (f r)"
  shows "good db (db\<lparr>ab_stages := update_where P f (ab_stages db)\<rparr>)"
  unfolding good_def
proof
  assume ok: "analysis_ok db"
  define g where "g = (\<lambda>r. if P r then f r else r)"
  have g: "stage_ok (g r)" "stage_evolves r (g r)" if "r \<in> set (ab_stages db)" for r
    using assms [of r] that ok by (auto simp: analysis_ok_def g_def)
  have upd: "update_where P f (ab_stages db) = map g (ab_stages db)" by (simp add: update_where_def g_def)
  have ids: "map sg_id (map g (ab_stages db)) = map sg_id (ab_stages db)"
    using g(2) by (auto simp: stage_evolves_def)
  have keep: "g r = r" if "r \<in> set (ab_stages db)" "\<not> active_stage_status (sg_status r)" for r
    using g(2) [OF that(1)] that(2) by (simp add: stage_evolves_def)
  have act: "active_stage_status (sg_status r)" if "r \<in> set (ab_stages db)" "active_stage_status (sg_status (g r))" for r
    using keep [OF that(1)] that(2) by (cases "active_stage_status (sg_status r)") auto
  have cols: "sg_id (g r) = sg_id r" "sg_analysis_run_id (g r) = sg_analysis_run_id r"
      "sg_message_id (g r) = sg_message_id r" if "r \<in> set (ab_stages db)" for r
    using g(2) [OF that] by (simp_all add: stage_evolves_def)
  have "owned (ab_runs db) (g r)" "stage_awake (ab_wakeups db) (g r)" if "r \<in> set (ab_stages db)" for r
  proof -
    from ok that have "owned (ab_runs db) r" "stage_awake (ab_wakeups db) r" by (simp_all add: analysis_ok_def)
    with cols [OF that] act [OF that] show "owned (ab_runs db) (g r)" "stage_awake (ab_wakeups db) (g r)"
      by (simp_all add: owned_def stage_awake_def of_run_def)
  qed
  moreover have "settled (map g (ab_stages db)) run" if "run \<in> set (ab_runs db)" for run
  proof (cases "an_status run \<in> set terminal_run_statuses")
    case True
    from ok that have s: "settled (ab_stages db) run" by (simp add: analysis_ok_def)
    have "filter (of_run run) (map g (ab_stages db)) = map g (filter (of_run run) (ab_stages db))"
      unfolding filter_map comp_def using cols(2) by (intro arg_cong [where f = "map g"] filter_cong) (auto simp: of_run_def)
    also have "\<dots> = filter (of_run run) (ab_stages db)"
      by (rule map_idI) (use keep s True in \<open>auto simp: settled_def\<close>)
    finally show ?thesis using s settled_filter by blast
  next
    case False
    then show ?thesis by (simp add: settled_def terminal_run_statuses_def)
  qed
  moreover have "label_ok (ab_runs db) (map g (ab_stages db)) l" if "l \<in> set (ab_labels db)" for l
  proof -
    from ok that have l: "label_ok (ab_runs db) (ab_stages db) l" by (simp add: analysis_ok_def)
    then obtain r where r: "r \<in> set (ab_stages db)" "sg_id r = ml_stage_run_id l" "sg_analysis_run_id r = ml_analysis_run_id l"
        "sg_message_id r = ml_message_id l" "sg_target_id r = ml_target_id l" "sg_status r = S_SUCCEEDED"
      by (auto simp: label_ok_def)
    then have "g r = r" by (intro keep) (simp_all add: active_stage_status_def)
    then have "r \<in> set (map g (ab_stages db))" unfolding list.set_map using r(1) by (metis imageI)
    with r l show ?thesis unfolding label_ok_def by blast
  qed
  moreover have "distinct (map sg_id (map g (ab_stages db)))" unfolding ids using ok by (simp add: analysis_ok_def)
  ultimately have "analysis_ok (db\<lparr>ab_stages := map g (ab_stages db)\<rparr>)"
    using ok g(1) by (simp add: analysis_ok_def del: map_map)
  moreover have "evolves db (db\<lparr>ab_stages := map g (ab_stages db)\<rparr>)"
    using g(2) by (simp add: evolves_def list.rel_map list.rel_refl_strong)
  ultimately show "analysis_ok (db\<lparr>ab_stages := update_where P f (ab_stages db)\<rparr>)
      \<and> evolves db (db\<lparr>ab_stages := update_where P f (ab_stages db)\<rparr>)" by (simp add: upd)
qed

text \<open>Runs.\<close>

lemma runs_good:
  assumes "\<And>run. run \<in> set (ab_runs db) \<Longrightarrow> P run \<Longrightarrow> run_ok run \<Longrightarrow> settled (ab_stages db) run \<Longrightarrow>
      run_ok (f run) \<and> settled (ab_stages db) (f run) \<and> run_evolves run (f run)"
  shows "good db (db\<lparr>ab_runs := update_where P f (ab_runs db)\<rparr>)"
  unfolding good_def
proof
  assume ok: "analysis_ok db"
  define g where "g = (\<lambda>r. if P r then f r else r)"
  have g: "run_ok (g r)" "settled (ab_stages db) (g r)" "run_evolves r (g r)" if "r \<in> set (ab_runs db)" for r
    using assms [of r] that ok by (auto simp: analysis_ok_def g_def)
  have upd: "update_where P f (ab_runs db) = map g (ab_runs db)" by (simp add: update_where_def g_def)
  have ids: "map an_id (map g (ab_runs db)) = map an_id (ab_runs db)"
    using g(3) by (auto simp: run_evolves_def)
  have "owned (map g (ab_runs db)) r" if "owned (ab_runs db) r" for r
  proof -
    from that obtain run where "run \<in> set (ab_runs db)" "of_run run r" "an_message_id run = sg_message_id r"
      by (auto simp: owned_def)
    with g(3) [of run] show ?thesis unfolding owned_def of_run_def run_evolves_def by (intro bexI [of _ "g run"]) auto
  qed
  moreover have "label_ok (map g (ab_runs db)) (ab_stages db) l" if "label_ok (ab_runs db) (ab_stages db) l" for l
    using that g(3) by (auto simp: label_ok_def run_evolves_def)
  moreover have "distinct (map an_id (map g (ab_runs db)))" unfolding ids using ok by (simp add: analysis_ok_def)
  ultimately have "analysis_ok (db\<lparr>ab_runs := map g (ab_runs db)\<rparr>)"
    using ok g(1,2) by (simp add: analysis_ok_def del: map_map)
  moreover have "evolves db (db\<lparr>ab_runs := map g (ab_runs db)\<rparr>)"
    using g(3) by (simp add: evolves_def list.rel_map list.rel_refl_strong list_all2_refl)
  ultimately show "analysis_ok (db\<lparr>ab_runs := update_where P f (ab_runs db)\<rparr>)
      \<and> evolves db (db\<lparr>ab_runs := update_where P f (ab_runs db)\<rparr>)" by (simp add: upd)
qed

text \<open>Wake-ups: a change keeps them active, or concerns a stage run that is not active.\<close>

lemma wakeups_good:
  assumes "\<And>w. P w \<Longrightarrow> same_wakeup w (f w) \<and> wakeup_ok (f w)"
    and "\<And>w r. w \<in> set (ab_wakeups db) \<Longrightarrow> P w \<Longrightarrow> active_wakeup w \<Longrightarrow> r \<in> set (ab_stages db) \<Longrightarrow>
      wk_queue w = analysis_queue \<Longrightarrow> wk_entity_id w = sg_id r \<Longrightarrow> active_wakeup (f w) \<or> \<not> active_stage_status (sg_status r)"
  shows "good db (db\<lparr>ab_wakeups := update_where P f (ab_wakeups db)\<rparr>)"
  unfolding good_def
proof
  assume ok: "analysis_ok db"
  let ?ws = "update_where P f (ab_wakeups db)"
  have "stage_awake ?ws r" if "r \<in> set (ab_stages db)" for r
  proof -
    have "\<exists>w \<in> set ?ws. wk_queue w = analysis_queue \<and> wk_entity_id w = sg_id r \<and> active_wakeup w"
      if act: "active_stage_status (sg_status r)"
    proof -
      from ok \<open>r \<in> set (ab_stages db)\<close> act obtain w where w: "w \<in> set (ab_wakeups db)" "wk_queue w = analysis_queue"
          "wk_entity_id w = sg_id r" "active_wakeup w" by (auto simp: analysis_ok_def stage_awake_def)
      let ?w = "if P w then f w else w"
      from assms(1) [of w] w have "wk_queue ?w = analysis_queue" "wk_entity_id ?w = sg_id r" by (auto simp: same_wakeup_def)
      moreover have "active_wakeup ?w" using assms(2) [OF w(1) _ w(4) \<open>r \<in> set (ab_stages db)\<close> w(2,3)] act w(4) by auto
      moreover have "?w \<in> set ?ws" unfolding set_update_where using w(1) by (rule imageI)
      ultimately show ?thesis by blast
    qed
    then show ?thesis by (simp add: stage_awake_def)
  qed
  moreover have "\<forall>w \<in> set ?ws. wakeup_ok w" using ok assms(1) by (auto simp: analysis_ok_def in_update_where)
  ultimately show "analysis_ok (db\<lparr>ab_wakeups := ?ws\<rparr>) \<and> evolves db (db\<lparr>ab_wakeups := ?ws\<rparr>)"
    using ok by (simp add: analysis_ok_def evolves_def list_all2_refl)
qed

lemma other_tables_good [simp]:
  "good db (db\<lparr>ab_messages := ms\<rparr>)" "good db (db\<lparr>ab_manifests := mf\<rparr>)"
  by (simp_all add: good_def analysis_ok_def evolves_def list_all2_refl)

lemma calls_good: "(\<And>c. c \<in> set cs \<Longrightarrow> (\<And>x. x \<in> set (ab_calls db) \<Longrightarrow> call_ok x) \<Longrightarrow> call_ok c) \<Longrightarrow> good db (db\<lparr>ab_calls := cs\<rparr>)"
  by (simp add: good_def analysis_ok_def evolves_def list_all2_refl)

lemma label_good:
  "label_ok (ab_runs db) (ab_stages db) l \<Longrightarrow> good db (db\<lparr>ab_labels := ab_labels db @ [l]\<rparr>)"
  by (auto simp: good_def analysis_ok_def evolves_def list_all2_refl)

section \<open>The building blocks of the transactions\<close>

lemma update_stage_good:
  assumes "\<And>r. r \<in> set (ab_stages db) \<Longrightarrow> sg_id r = i \<Longrightarrow> stage_ok r \<Longrightarrow> stage_ok (f r) \<and> stage_evolves r (f r)"
  shows "good db (update_stage i f db)"
  unfolding update_stage_def by (rule stages_good) (use assms in blast)

lemma update_run_good:
  assumes "\<And>run. run \<in> set (ab_runs db) \<Longrightarrow> an_id run = i \<Longrightarrow> run_ok run \<Longrightarrow> settled (ab_stages db) run \<Longrightarrow>
      run_ok (f run) \<and> settled (ab_stages db) (f run) \<and> run_evolves run (f run)"
  shows "good db (update_run i f db)"
  unfolding update_run_def by (rule runs_good) (use assms in blast)

lemma reschedule_good: "good db (reschedule_wakeup i retry_at now db)"
  unfolding reschedule_wakeup_def by (rule wakeups_good) (simp_all add: wakeup_ok_def)

lemma terminal_wakeup_good:
  assumes "\<And>r. r \<in> set (ab_stages db) \<Longrightarrow> sg_id r = i \<Longrightarrow> \<not> active_stage_status (sg_status r)"
  shows "good db (set_wakeup_terminal i now db)"
  unfolding set_wakeup_terminal_def
  by (rule wakeups_good) (use assms in \<open>auto simp: wakeup_ok_def complete_wakeup_def analysis_wakeup_def same_wakeup_def\<close>)

lemma stage_selectors [simp]:
  "ab_stages (update_run i f db) = ab_stages db" "ab_stages (set_wakeup_terminal i now db) = ab_stages db"
  "ab_stages (reschedule_wakeup i t now db) = ab_stages db"
  "ab_runs (update_stage i g db) = ab_runs db" "ab_runs (set_wakeup_terminal i now db) = ab_runs db"
  "ab_runs (reschedule_wakeup i t now db) = ab_runs db"
  "ab_labels (update_run i f db) = ab_labels db" "ab_labels (set_wakeup_terminal i now db) = ab_labels db"
  "ab_labels (update_stage i g db) = ab_labels db" "ab_labels (reschedule_wakeup i t now db) = ab_labels db"
  "ab_stages (update_stage i g db) = update_where (\<lambda>r. sg_id r = i) g (ab_stages db)"
  "ab_runs (update_run i f db) = update_where (\<lambda>r. an_id r = i) f (ab_runs db)"
  by (simp_all add: update_run_def set_wakeup_terminal_def reschedule_wakeup_def update_stage_def)

section \<open>Rows by identifier\<close>

lemma stage_key: "analysis_ok db \<Longrightarrow> x \<in> set (ab_stages db) \<Longrightarrow> y \<in> set (ab_stages db) \<Longrightarrow> sg_id x = sg_id y \<Longrightarrow> x = y"
  unfolding analysis_ok_def by (blast intro: distinct_key_eq)

lemma run_key: "analysis_ok db \<Longrightarrow> x \<in> set (ab_runs db) \<Longrightarrow> y \<in> set (ab_runs db) \<Longrightarrow> an_id x = an_id y \<Longrightarrow> x = y"
  unfolding analysis_ok_def by (blast intro: distinct_key_eq)

lemma find_stage_Some: "find_stage i db = Some r \<Longrightarrow> r \<in> set (ab_stages db) \<and> sg_id r = i"
  by (auto simp: find_stage_def find_Some_iff)

lemma find_run_Some: "find_run i db = Some r \<Longrightarrow> r \<in> set (ab_runs db) \<and> an_id r = i"
  by (auto simp: find_run_def find_Some_iff)

lemma evolves_stage:
  assumes "evolves db db'" and "r' \<in> set (ab_stages db')"
  obtains r where "r \<in> set (ab_stages db)" "stage_evolves r r'"
  using list_all2_member2 [OF assms(1) [unfolded evolves_def, THEN conjunct1] assms(2)] by (elim bexE) (rule that)

lemma evolves_stage_forth:
  assumes "evolves db db'" and "r \<in> set (ab_stages db)"
  obtains r' where "r' \<in> set (ab_stages db')" "stage_evolves r r'"
  using list_all2_member1 [OF assms(1) [unfolded evolves_def, THEN conjunct1] assms(2)] by (elim bexE) (rule that)

lemma evolves_run:
  assumes "evolves db db'" and "r' \<in> set (ab_runs db')"
  obtains r where "r \<in> set (ab_runs db)" "run_evolves r r'"
  using list_all2_member2 [OF assms(1) [unfolded evolves_def, THEN conjunct2] assms(2)] by (elim bexE) (rule that)

section \<open>Held targets\<close>

definition holds :: "analysis_db \<Rightarrow> (string, uuid) dict \<Rightarrow> string \<Rightarrow> bool" where
  "holds db held t \<longleftrightarrow> (\<forall>i. map_of held t = Some i \<longrightarrow>
     (\<exists>r \<in> set (ab_stages db). sg_id r = i \<and> sg_target_id r = t \<and> sg_status r = S_RUNNING))"

definition formal_held :: "analysis_db \<Rightarrow> (string, uuid) dict \<Rightarrow> bool" where
  "formal_held db held \<longleftrightarrow> (\<forall>r \<in> set (ab_stages db). \<forall>run \<in> set (ab_runs db).
     sg_id r \<in> snd ` set held \<longrightarrow> of_run run r \<longrightarrow> an_run_mode run \<noteq> ''test'')"

definition holder_token :: "target_snapshot list \<Rightarrow> string \<Rightarrow> stage_row \<Rightarrow> bool" where
  "holder_token ts t r \<longleftrightarrow> (\<exists>x \<in> set ts. ts_target_id x = t \<and> uuid_or_value_error (ts_stage_run_id x) = Inr (sg_id r)
     \<and> (\<exists>token. uuid_or_value_error (ts_lease_token x) = Inr token \<and> sg_lease_token r = Some token))"

lemma lock_targets_held:
  assumes "lock_targets ts now db = Inr held"
  shows "distinct (map fst held)"
    and "(t, i) \<in> set held \<Longrightarrow> \<exists>r \<in> set (ab_stages db). sg_id r = i \<and> sg_target_id r = t \<and> live_lease now r \<and> holder_token ts t r"
proof -
  from assms obtain expected where e: "traverse expected_target ts = Inr expected"
    and h: "held = fold (\<lambda>r held.
              case map_of (rev expected) (sg_id r) of
                None \<Rightarrow> held
              | Some (target, token) \<Rightarrow>
                  if sg_lease_token r = Some token \<and> sg_target_id r = target then dict_set target (sg_id r) held
                  else held) (filter (live_lease now) (ab_stages db)) []" (is "_ = fold ?f _ _")
    unfolding lock_targets_def by (elim try_bindE) simp
  have entry: "\<exists>x \<in> set ts. uuid_or_value_error (ts_stage_run_id x) = Inr i \<and> ts_target_id x = target
      \<and> uuid_or_value_error (ts_lease_token x) = Inr token" if "map_of (rev expected) i = Some (target, token)" for i target token
  proof -
    from that have "(i, target, token) \<in> set expected" using map_of_SomeD by fastforce
    with e obtain x where "x \<in> set ts" "expected_target x = Inr (i, target, token)"
      unfolding traverse_Inr by (blast dest: list_all2_member2)
    then show ?thesis unfolding expected_target_def by (auto elim!: try_bindE)
  qed
  have "distinct (map fst (fold ?f rows d)) \<and> (\<forall>(t, i) \<in> set (fold ?f rows d). (t, i) \<in> set d \<or>
      (\<exists>r \<in> set rows. sg_id r = i \<and> sg_target_id r = t \<and> holder_token ts t r))" if "distinct (map fst d)" for rows d
    using that
  proof (induction rows arbitrary: d)
    case (Cons r rows)
    have d: "distinct (map fst (?f r d))"
      using Cons.prems by (auto split: option.splits prod.splits simp: distinct_dict_set)
    have new: "(t, i) \<in> set d \<or> sg_id r = i \<and> sg_target_id r = t \<and> holder_token ts t r" if "(t, i) \<in> set (?f r d)" for t i
    proof (cases "(t, i) \<in> set d")
      case False
      with that obtain target token where m: "map_of (rev expected) (sg_id r) = Some (target, token)"
          "sg_lease_token r = Some token" "sg_target_id r = target" "(t, i) \<in> set (dict_set target (sg_id r) d)"
        by (auto split: option.splits if_splits)
      have "(t, i) \<in> set (dict_set k v d) \<Longrightarrow> (t, i) \<in> set d \<or> t = k \<and> i = v" for k v
        by (induction k v d rule: dict_set.induct) (auto split: if_splits)
      with m(4) False have "t = target" "i = sg_id r" by auto
      with entry [OF m(1)] m(2,3) show ?thesis unfolding holder_token_def by blast
    qed simp
    from Cons.IH [OF d] show ?case using new by (fastforce simp: split_beta)
  qed simp
  from this [of "[]" "filter (live_lease now) (ab_stages db)"] show "distinct (map fst held)"
    "(t, i) \<in> set held \<Longrightarrow> \<exists>r \<in> set (ab_stages db). sg_id r = i \<and> sg_target_id r = t \<and> live_lease now r \<and> holder_token ts t r"
    unfolding h by fastforce+
qed

lemma live_lease_running: "live_lease now r \<Longrightarrow> sg_status r = S_RUNNING"
  by (simp add: live_lease_def)

lemma lock_targets_holds: "lock_targets ts now db = Inr held \<Longrightarrow> holds db held t"
  unfolding holds_def by (blast dest: lock_targets_held(2) map_of_SomeD intro: live_lease_running)

lemma holds_update:
  assumes "analysis_ok db" "holds db held t" "holds db held u" "map_of held t = Some i" "t \<noteq> u"
  shows "holds (update_stage i f db) held u"
  unfolding holds_def
proof (intro allI impI)
  fix j assume j: "map_of held u = Some j"
  with assms(3) obtain r where r: "r \<in> set (ab_stages db)" "sg_id r = j" "sg_target_id r = u" "sg_status r = S_RUNNING"
    by (auto simp: holds_def)
  from assms(2,4) obtain q where q: "q \<in> set (ab_stages db)" "sg_id q = i" "sg_target_id q = t" by (auto simp: holds_def)
  have "sg_id r \<noteq> i" using stage_key [OF assms(1) r(1) q(1)] q r assms(5) by auto
  then have "r \<in> set (ab_stages (update_stage i f db))" using r(1) by (force simp: set_update_where)
  with r show "\<exists>r \<in> set (ab_stages (update_stage i f db)). sg_id r = j \<and> sg_target_id r = u \<and> sg_status r = S_RUNNING" by blast
qed

lemma holds_same_stages: "ab_stages db' = ab_stages db \<Longrightarrow> holds db' = holds db"
  by (simp add: holds_def fun_eq_iff)

lemma formal_held_evolves: "evolves db db' \<Longrightarrow> formal_held db held \<Longrightarrow> formal_held db' held"
  unfolding formal_held_def
proof (intro ballI impI)
  fix r' run' assume e: "evolves db db'" and f: "\<forall>r \<in> set (ab_stages db). \<forall>run \<in> set (ab_runs db).
     sg_id r \<in> snd ` set held \<longrightarrow> of_run run r \<longrightarrow> an_run_mode run \<noteq> ''test''"
    and r': "r' \<in> set (ab_stages db')" "run' \<in> set (ab_runs db')" "sg_id r' \<in> snd ` set held" "of_run run' r'"
  obtain r run where "r \<in> set (ab_stages db)" "stage_evolves r r'" "run \<in> set (ab_runs db)" "run_evolves run run'"
    using evolves_stage [OF e r'(1)] evolves_run [OF e r'(2)] by metis
  with f r' show "an_run_mode run' \<noteq> ''test''" by (auto simp: stage_evolves_def run_evolves_def of_run_def)
qed

section \<open>Changes of a running stage run\<close>

lemma running_stage_ok:
  assumes "stage_ok r" "sg_status r = S_RUNNING"
  shows "stage_ok (failed_stage code ty retryable retry_at now r)"
    and "sg_inference_call_id r \<noteq> None \<Longrightarrow> stage_ok (inferred_stage (validated_result_document v) now r)"
    and "is_object parsed \<Longrightarrow> cache_key_allowed (Some (ck_value key)) \<Longrightarrow> stage_ok (cached_stage m parsed key src now r)"
    and "cache_key_allowed (map_option ck_value k) \<Longrightarrow> stage_ok (link_call m c policy k now r)"
  using assms
  by (simp_all add: stage_ok_def failed_stage_def inferred_stage_def cached_stage_def link_call_def clear_stage_lease_def
      active_stage_status_def validated_result_document_def is_object_def Let_def)
    (metis cache_policy.exhaust cache_policy_value.simps)+

lemma running_stage_evolves:
  assumes "sg_status r = S_RUNNING"
  shows "stage_evolves r (failed_stage code ty retryable retry_at now r)"
    and "stage_evolves r (inferred_stage parsed now r)" and "stage_evolves r (cached_stage m parsed key src now r)"
    and "stage_evolves r (link_call m c policy k now r)"
  using assms
  by (simp_all add: stage_evolves_def failed_stage_def inferred_stage_def cached_stage_def link_call_def clear_stage_lease_def
      active_stage_status_def Let_def)

end
