(* ===== verification/Analysis_Steps.thy ===== *)
theory Analysis_Steps
  imports Analysis_Invariant
begin

text \<open>
  The transactions of the analysis engine keep its invariant, in any order, with any arguments, and
  interleaved with the dispatcher of wake-ups: the step relation of the engine and its reachable states.
\<close>

section \<open>Labels\<close>

definition label_for :: "stage_row \<Rightarrow> model_label_row \<Rightarrow> bool" where
  "label_for r l \<longleftrightarrow> ml_stage_run_id l = sg_id r \<and> ml_analysis_run_id l = sg_analysis_run_id r
     \<and> ml_message_id l = sg_message_id r \<and> ml_target_id l = sg_target_id r"

lemma label_for_rows:
  "label_of_result k now r v l = Inr row \<Longrightarrow> label_for r row" "label_for r (copy_assignment k now r x)"
  by (auto simp: label_of_result_def label_for_def copy_assignment_def elim!: try_bindE)

lemma add_labels_good:
  assumes "add_labels row_of fresh ls db = Inr (gates, db')"
    and "\<And>k l row. row_of k l = Inr row \<Longrightarrow> label_ok (ab_runs db) (ab_stages db) row"
  shows "good db db' \<and> ab_stages db' = ab_stages db \<and> ab_runs db' = ab_runs db \<and> ab_wakeups db' = ab_wakeups db"
  using assms
proof (induction ls arbitrary: db gates)
  case (Cons l ls)
  from Cons.prems(1) obtain row db1 gs where
      row: "row_of (fresh (length (ab_labels db))) l = Inr row" and db1: "insert_label row db = Inr db1"
    and rest: "add_labels row_of fresh ls db1 = Inr (gs, db')"
    by (auto elim!: try_bindE split: prod.splits)
  from db1 have e: "db1 = db\<lparr>ab_labels := ab_labels db @ [row]\<rparr>" by (simp add: insert_label_def split: if_splits)
  then have t: "ab_stages db1 = ab_stages db" "ab_runs db1 = ab_runs db" "ab_wakeups db1 = ab_wakeups db" by simp_all
  have "good db db1" unfolding e by (rule label_good) (rule Cons.prems(2) [OF row])
  moreover from Cons.IH [OF rest] Cons.prems(2) t have "good db1 db' \<and> ab_stages db' = ab_stages db1
      \<and> ab_runs db' = ab_runs db1 \<and> ab_wakeups db' = ab_wakeups db1" by simp
  ultimately show ?case using t good_trans by metis
qed simp

section \<open>Commits\<close>

text \<open>One target of a commit: its row succeeds, its labels are written, its wake-up is completed.\<close>

definition label_step ::
  "bool \<Rightarrow> (uuid \<Rightarrow> 'l \<Rightarrow> model_label_row result) \<Rightarrow> (nat \<Rightarrow> uuid) \<Rightarrow> 'l list \<Rightarrow> analysis_db \<Rightarrow> gate_assignment list \<Rightarrow> analysis_db \<Rightarrow> bool"
where
  "label_step formal row_of fresh ls db gates db1 \<longleftrightarrow>
     (if formal then add_labels row_of fresh ls db else Inr ([], db)) = Inr (gates, db1)"

lemma commit_one_good:
  assumes ok: "analysis_ok db" and "holds db held t" "map_of held t = Some i" "find_stage i db = Some r"
    and f: "sg_status r = S_RUNNING \<Longrightarrow> stage_ok r \<Longrightarrow> stage_ok (f r) \<and> stage_evolves r (f r) \<and> sg_status (f r) = S_SUCCEEDED"
    and labels: "label_step formal row_of fresh ls (update_stage i f db) gates db1"
    and rows: "\<And>k l row. row_of k l = Inr row \<Longrightarrow> label_for r row" and formal: "formal \<Longrightarrow> formal_held db held"
  shows "good db (set_wakeup_terminal i now db1)" and "ab_stages db1 = ab_stages (update_stage i f db)"
    and "ab_runs db1 = ab_runs db"
proof -
  note r = find_stage_Some [OF assms(4)]
  from assms(2,3) obtain q where q: "q \<in> set (ab_stages db)" "sg_id q = i" "sg_status q = S_RUNNING" by (auto simp: holds_def)
  have "r = q" by (rule stage_key [OF ok]) (use r q in simp_all)
  with q have run: "sg_status r = S_RUNNING" by simp
  have okr: "stage_ok r" using ok r by (simp add: analysis_ok_def)
  note fr = f [OF run okr]
  have only: "x = r" if "x \<in> set (ab_stages db)" "sg_id x = i" for x
    by (rule stage_key [OF ok that(1)]) (use that(2) r in simp_all)
  have 1: "good db (update_stage i f db)" by (rule update_stage_good) (use only fr in blast)
  then have ok1: "analysis_ok (update_stage i f db)" using ok by (simp add: good_def)
  have mem: "f r \<in> set (ab_stages (update_stage i f db))" using r by (force simp: set_update_where)
  have lab: "label_ok (ab_runs db) (ab_stages (update_stage i f db)) row" if "formal" "label_for r row" for row
    unfolding label_ok_def
  proof (intro conjI ballI impI)
    show "\<exists>x \<in> set (ab_stages (update_stage i f db)). sg_id x = ml_stage_run_id row
        \<and> sg_analysis_run_id x = ml_analysis_run_id row \<and> sg_message_id x = ml_message_id row
        \<and> sg_target_id x = ml_target_id row \<and> sg_status x = S_SUCCEEDED"
      by (rule bexI [OF _ mem]) (use fr that(2) in \<open>simp add: label_for_def stage_evolves_def\<close>)
  next
    fix run assume "run \<in> set (ab_runs db)" "an_id run = ml_analysis_run_id row"
    moreover have "i \<in> snd ` set held" using map_of_SomeD [OF assms(3)] by force
    ultimately show "an_run_mode run \<noteq> ''test''"
      using formal [OF that(1)] that(2) r by (auto simp: formal_held_def label_for_def of_run_def)
  qed
  have 2: "good (update_stage i f db) db1 \<and> ab_stages db1 = ab_stages (update_stage i f db)
      \<and> ab_runs db1 = ab_runs (update_stage i f db)"
  proof (cases formal)
    case True
    have "good (update_stage i f db) db1 \<and> ab_stages db1 = ab_stages (update_stage i f db)
      \<and> ab_runs db1 = ab_runs (update_stage i f db) \<and> ab_wakeups db1 = ab_wakeups (update_stage i f db)"
    proof (rule add_labels_good)
      show "add_labels row_of fresh ls (update_stage i f db) = Inr (gates, db1)" using labels True by (simp add: label_step_def)
      show "label_ok (ab_runs (update_stage i f db)) (ab_stages (update_stage i f db)) row" if "row_of k l = Inr row" for k l row
        unfolding stage_selectors(4) by (rule lab [OF True rows [OF that]])
    qed
    then show ?thesis by simp
  next
    case False
    with labels show ?thesis by (simp add: label_step_def)
  qed
  have "\<not> active_stage_status (sg_status x)" if "x \<in> set (ab_stages db1)" "sg_id x = i" for x
  proof -
    from that(1) 2 have "x \<in> set (ab_stages (update_stage i f db))" by simp
    then have "x = f r" by (rule stage_key [OF ok1 _ mem]) (use that(2) fr r in \<open>simp add: stage_evolves_def\<close>)
    with fr show ?thesis by (simp add: active_stage_status_def)
  qed
  then have "good db1 (set_wakeup_terminal i now db1)" by (rule terminal_wakeup_good)
  with 1 2 show "good db (set_wakeup_terminal i now db1)" by (blast intro: good_trans)
  from 2 show "ab_stages db1 = ab_stages (update_stage i f db)" "ab_runs db1 = ab_runs db" by simp_all
qed

lemma after_commit:
  assumes "analysis_ok db" "holds db held t" "map_of held t = Some i" "holds db held u" "t \<noteq> u"
    and "ab_stages db1 = ab_stages (update_stage i f db)"
  shows "holds (set_wakeup_terminal i now db1) held u"
  using holds_update [OF assms(1,2,4,3,5), of f] assms(6) by (simp add: holds_def)

lemma good_ok: "good db db' \<Longrightarrow> analysis_ok db \<Longrightarrow> analysis_ok db'"
  by (simp add: good_def)

lemma good_evolves: "good db db' \<Longrightarrow> analysis_ok db \<Longrightarrow> evolves db db'"
  by (simp add: good_def)

lemma inferred_succeeds: "sg_status (inferred_stage parsed now r) = S_SUCCEEDED"
    "sg_status (cached_stage m parsed key src now r) = S_SUCCEEDED"
  by (simp_all add: inferred_stage_def cached_stage_def clear_stage_lease_def)

lemma commit_results_good:
  "commit_results fresh s call now held vs db = Inr (c, db') \<Longrightarrow> analysis_ok db \<Longrightarrow> distinct (map vt_target_id vs) \<Longrightarrow>
     (\<And>t. t \<in> vt_target_id ` set vs \<Longrightarrow> holds db held t) \<Longrightarrow>
     (cs_run_mode (sn_claim s) \<noteq> ''test'' \<Longrightarrow> formal_held db held) \<Longrightarrow> good db db'"
proof (induction fresh s call now held vs db arbitrary: c rule: commit_results.induct)
  case (2 fresh s call now held v vs db)
  show ?case
  proof (cases "map_of held (vt_target_id v)")
    case None
    with "2.prems" "2.IH"(1) [OF None] show ?thesis by simp
  next
    case (Some i)
    note i = Some
    show ?thesis
    proof (cases "find_stage i db")
      case None
      with "2.prems"(1) i show ?thesis by simp
    next
      case (Some r)
      note step = "2.prems"(1) [unfolded commit_results.simps i Some option.case]
      from step obtain call_id where u: "uuid_or_value_error (sc_inference_call_id call) = Inr call_id"
        by (elim try_bindE) (rule that)
      show ?thesis
      proof (cases "sg_inference_call_id r = Some call_id")
        case False
        with "2.prems" "2.IH"(2) [OF i Some u] u i Some show ?thesis by simp
      next
        case True
        let ?f = "inferred_stage (validated_result_document v) now"
        let ?formal = "cs_run_mode (sn_claim s) \<noteq> ''test''"
        from step u True obtain gates db1 rest where
            l: "label_step ?formal (\<lambda>k. label_of_result k now r v) fresh (vt_labels v) (update_stage i ?f db) gates db1"
          and c: "commit_results fresh s call now held vs (set_wakeup_terminal i now db1) = Inr (rest, db')"
          unfolding label_step_def by (auto elim!: try_bindE split: prod.splits)
        have h: "holds db held (vt_target_id v)" using "2.prems"(4) by simp
        have f: "stage_ok (?f r) \<and> stage_evolves r (?f r) \<and> sg_status (?f r) = S_SUCCEEDED"
          if "sg_status r = S_RUNNING" "stage_ok r"
          using that running_stage_ok(2) [OF that(2,1)] running_stage_evolves(2) True by (simp add: inferred_succeeds)
        note one = commit_one_good [OF "2.prems"(2) h i Some f l label_for_rows(1) "2.prems"(5)]
        have g: "good db (set_wakeup_terminal i now db1)" by (rule one(1))
        have ok: "analysis_ok (set_wakeup_terminal i now db1)" by (rule good_ok [OF g "2.prems"(2)])
        have fh: "?formal \<Longrightarrow> formal_held (set_wakeup_terminal i now db1) held"
          by (rule formal_held_evolves [OF good_evolves [OF g "2.prems"(2)] "2.prems"(5)])
        have hs: "holds (set_wakeup_terminal i now db1) held t" if "t \<in> vt_target_id ` set vs" for t
          by (rule after_commit [OF "2.prems"(2) h i _ _ one(2)]) (use that "2.prems"(3,4) in auto)
        have eq: "(if ?formal then add_labels (\<lambda>k. label_of_result k now r v) fresh (vt_labels v) (update_stage i ?f db)
            else Inr ([], update_stage i ?f db)) = Inr (gates, db1)" using l by (simp only: label_step_def)
        have "good (set_wakeup_terminal i now db1) db'"
          by (rule "2.IH"(3) [OF i Some u _ eq HOL.refl c ok _ hs fh]) (use True "2.prems"(3) in simp_all)
        with g show ?thesis by (blast intro: good_trans)
      qed
    qed
  qed
qed simp

lemma rewrite_cached_object: "is_object (rewrite_cached_target host_ok v t)"
  by (auto simp: rewrite_cached_target_def as_object_def is_object_def split: pyval.splits)

lemma commit_cached_good:
  "commit_cached host_ok fresh m s key source parsed labels now held ts db = Inr (c, db') \<Longrightarrow> analysis_ok db \<Longrightarrow>
     cache_key_allowed (Some (ck_value key)) \<Longrightarrow> distinct (map ts_target_id ts) \<Longrightarrow>
     (\<And>t. t \<in> ts_target_id ` set ts \<Longrightarrow> holds db held t) \<Longrightarrow>
     (cs_run_mode (sn_claim s) \<noteq> ''test'' \<Longrightarrow> formal_held db held) \<Longrightarrow> good db db'"
proof (induction host_ok fresh m s key source parsed labels now held ts db arbitrary: c rule: commit_cached.induct)
  case (2 host_ok fresh m s key source parsed labels now held t ts db)
  show ?case
  proof (cases "map_of held (ts_target_id t)")
    case None
    with "2.prems" "2.IH"(1) [OF None] show ?thesis by simp
  next
    case (Some i)
    note i = Some
    show ?thesis
    proof (cases "find_stage i db")
      case None
      with "2.prems"(1) i show ?thesis by simp
    next
      case (Some r)
      let ?f = "cached_stage m (rewrite_cached_target host_ok parsed (ts_target_id t)) key (sg_id source) now"
      let ?formal = "cs_run_mode (sn_claim s) \<noteq> ''test''"
      from "2.prems"(1) [unfolded commit_cached.simps i Some option.case Let_def] obtain gates db1 rest where
          l: "label_step ?formal (\<lambda>k l. Inr (copy_assignment k now r l)) fresh labels (update_stage i ?f db) gates db1"
        and c: "commit_cached host_ok fresh m s key source parsed labels now held ts (set_wakeup_terminal i now db1) = Inr (rest, db')"
        unfolding label_step_def by (auto elim!: try_bindE split: prod.splits)
      have h: "holds db held (ts_target_id t)" using "2.prems"(5) by simp
      have f: "stage_ok (?f r) \<and> stage_evolves r (?f r) \<and> sg_status (?f r) = S_SUCCEEDED"
        if "sg_status r = S_RUNNING" "stage_ok r"
        using running_stage_ok(3) [OF that(2,1) rewrite_cached_object "2.prems"(3)] running_stage_evolves(3) [OF that(1)]
        by (simp add: inferred_succeeds)
      have rows: "label_for r row" if "Inr (copy_assignment k now r l) = (Inr row :: model_label_row result)" for k l row
        using that label_for_rows(2) by auto
      note one = commit_one_good [OF "2.prems"(2) h i Some f l rows "2.prems"(6)]
      have g: "good db (set_wakeup_terminal i now db1)" by (rule one(1))
      have ok: "analysis_ok (set_wakeup_terminal i now db1)" by (rule good_ok [OF g "2.prems"(2)])
      have fh: "?formal \<Longrightarrow> formal_held (set_wakeup_terminal i now db1) held"
        by (rule formal_held_evolves [OF good_evolves [OF g "2.prems"(2)] "2.prems"(6)])
      have hs: "holds (set_wakeup_terminal i now db1) held u" if "u \<in> ts_target_id ` set ts" for u
        by (rule after_commit [OF "2.prems"(2) h i _ _ one(2)]) (use that "2.prems"(4,5) in auto)
      have eq: "(if ?formal then add_labels (\<lambda>k l. Inr (copy_assignment k now r l)) fresh labels (update_stage i ?f db)
          else Inr ([], update_stage i ?f db)) = Inr (gates, db1)" using l by (simp only: label_step_def)
      have "good (set_wakeup_terminal i now db1) db'"
        by (rule "2.IH"(2) [OF i Some HOL.refl eq HOL.refl c ok "2.prems"(3) _ hs fh]) (use "2.prems"(4) in simp_all)
      with g show ?thesis by (blast intro: good_trans)
    qed
  qed
qed simp

section \<open>Snapshots of a claim\<close>

text \<open>
  The columns of a claim are those of its rows, and the targets of a snapshot belong to the claimed stage
  run, as \<^verbatim>\<open>claim\<close> and \<^verbatim>\<open>load_stage_snapshot\<close> build them; none of these columns ever changes.
\<close>

definition issued :: "analysis_db \<Rightarrow> claimed_stage_run \<Rightarrow> bool" where
  "issued db c \<longleftrightarrow> (\<exists>r \<in> set (ab_stages db). \<exists>run \<in> set (ab_runs db). of_run run r
     \<and> uuid_or_value_error (cs_stage_run_id c) = Inr (sg_id r) \<and> cs_analysis_run_id c = an_id run
     \<and> cs_message_id c = sg_message_id r \<and> cs_target_id c = sg_target_id r \<and> cs_run_mode c = an_run_mode run)"

definition loaded :: "analysis_db \<Rightarrow> stage_snapshot \<Rightarrow> bool" where
  "loaded db s \<longleftrightarrow> issued db (sn_claim s) \<and> distinct (map ts_target_id (sn_targets s))
     \<and> (\<forall>x \<in> set (sn_targets s). uuid_or_value_error (ts_stage_run_id x) = uuid_or_value_error (cs_stage_run_id (sn_claim s)))"

lemma issued_evolves:
  assumes "evolves db db'" and "issued db c"
  shows "issued db' c"
proof -
  from assms(2) obtain r run where r: "r \<in> set (ab_stages db)" "run \<in> set (ab_runs db)" "of_run run r"
      "uuid_or_value_error (cs_stage_run_id c) = Inr (sg_id r)" "cs_analysis_run_id c = an_id run"
      "cs_message_id c = sg_message_id r" "cs_target_id c = sg_target_id r" "cs_run_mode c = an_run_mode run"
    unfolding issued_def by blast
  obtain r' where "r' \<in> set (ab_stages db')" "stage_evolves r r'" by (rule evolves_stage_forth [OF assms(1) r(1)])
  moreover obtain run' where "run' \<in> set (ab_runs db')" "run_evolves run run'"
    using list_all2_member1 [OF assms(1) [unfolded evolves_def, THEN conjunct2] r(2)] by (elim bexE)
  ultimately show ?thesis using r unfolding issued_def
    by (intro bexI [of _ r'] bexI [of _ run']) (simp_all add: stage_evolves_def run_evolves_def of_run_def)
qed

lemma loaded_evolves: "evolves db db' \<Longrightarrow> loaded db s \<Longrightarrow> loaded db' s"
  by (simp add: loaded_def issued_evolves)

lemma loaded_formal:
  assumes "analysis_ok db" "loaded db s" "set ts \<subseteq> set (sn_targets s)" "lock_targets ts now db = Inr held"
    and "cs_run_mode (sn_claim s) \<noteq> ''test''"
  shows "formal_held db held"
  unfolding formal_held_def
proof (intro ballI impI)
  fix r run assume r: "r \<in> set (ab_stages db)" "run \<in> set (ab_runs db)" "sg_id r \<in> snd ` set held" "of_run run r"
  from assms(2) obtain q run' where q: "q \<in> set (ab_stages db)" "run' \<in> set (ab_runs db)" "of_run run' q"
      "uuid_or_value_error (cs_stage_run_id (sn_claim s)) = Inr (sg_id q)" "cs_run_mode (sn_claim s) = an_run_mode run'"
    unfolding loaded_def issued_def by blast
  from r(3) obtain t where "(t, sg_id r) \<in> set held" by force
  from lock_targets_held(2) [OF assms(4) this] obtain p where "sg_id p = sg_id r" "holder_token ts t p" by blast
  with assms(2,3) q(4) have "sg_id r = sg_id q" by (auto simp: holder_token_def loaded_def)
  then have "r = q" by (rule stage_key [OF assms(1) r(1) q(1)])
  with r(4) q(3) have "an_id run = an_id run'" by (simp add: of_run_def)
  then have "run = run'" by (rule run_key [OF assms(1) r(2) q(2)])
  with q(5) assms(5) show "an_run_mode run \<noteq> ''test''" by simp
qed

lemma commit_validated_good:
  assumes "commit_validated_targets fresh s call results now db = Inr (c, db')" "loaded db s" "distinct (map vt_target_id results)"
  shows "good db db'"
proof (rule goodI)
  assume ok: "analysis_ok db"
  show "good db db'"
  proof (cases "results = []")
    case True
    with assms(1) show ?thesis by (simp add: commit_validated_targets_def)
  next
    case False
    with assms(1) obtain held where h: "lock_targets (chosen_targets (map vt_target_id results) s) now db = Inr held"
      and c: "commit_results fresh s call now held results db = Inr (c, db')"
      unfolding commit_validated_targets_def by (auto elim!: try_bindE)
    have "set (chosen_targets (map vt_target_id results) s) \<subseteq> set (sn_targets s)" by (auto simp: chosen_targets_def)
    from commit_results_good [OF c ok assms(3) lock_targets_holds [OF h] loaded_formal [OF ok assms(2) this h]]
    show ?thesis .
  qed
qed

lemma commit_cache_hit_cases:
  assumes "commit_cache_hit host_ok fresh m s manifest key hit now db = Inr (c, db')"
  obtains "c = nothing_committed" "db' = db"
  | source_id source held version parsed where "uuid_or_value_error (ch_source_stage_run_id hit) = Inr source_id"
      "find_stage source_id db = Some source" "exact_cache_source key source" "lock_targets (sn_targets s) now db = Inr held"
      "held \<noteq> []" "cache_key_allowed (Some (ck_value key))"
      "commit_cached host_ok fresh m s key source parsed (filter (\<lambda>l. ml_stage_run_id l = source_id) (ab_labels db)) now held
        (sn_targets s) (db\<lparr>ab_manifests := ab_manifests db @ [new_manifest m version manifest now]\<rparr>) = Inr (c, db')"
proof -
  from assms obtain source_id where u: "uuid_or_value_error (ch_source_stage_run_id hit) = Inr source_id"
    unfolding commit_cache_hit_def by (elim try_bindE) (rule that)
  note a = assms [unfolded commit_cache_hit_def u try_bind_simps]
  show thesis
  proof (cases "find_stage source_id db")
    case None
    with a that(1) show thesis by simp
  next
    case (Some source)
    show thesis
    proof (cases "exact_cache_source key source")
      case False
      with a Some that(1) show thesis by simp
    next
      case True
      with a Some obtain held where h: "lock_targets (sn_targets s) now db = Inr held" by (auto elim!: try_bindE)
      show thesis
      proof (cases "held = []")
        case True
        with a Some h \<open>exact_cache_source key source\<close> that(1) show thesis by simp
      next
        case False
        with a Some h True that(2) [OF u Some True h False] show thesis
          by (auto simp: Let_def split: if_splits elim!: try_bindE)
      qed
    qed
  qed
qed

lemma commit_cache_hit_good:
  assumes "commit_cache_hit host_ok fresh m s manifest key hit now db = Inr (c, db')" "loaded db s"
  shows "good db db'"
proof (rule goodI)
  assume ok: "analysis_ok db"
  from assms(1) show "good db db'"
  proof (cases rule: commit_cache_hit_cases)
    case (2 source_id source held version parsed)
    let ?db = "db\<lparr>ab_manifests := ab_manifests db @ [new_manifest m version manifest now]\<rparr>"
    have g: "good db ?db" by simp
    have h: "holds ?db held t" for t using lock_targets_holds [OF 2(4)] by (simp add: holds_def)
    have f: "formal_held ?db held" if "cs_run_mode (sn_claim s) \<noteq> ''test''"
      using loaded_formal [OF ok assms(2) order.refl 2(4) that] by (simp add: formal_held_def)
    have "good ?db db'"
      by (rule commit_cached_good [OF 2(7) good_ok [OF g ok] 2(6) _ h f]) (use assms(2) in \<open>simp_all add: loaded_def\<close>)
    with g show ?thesis by (blast intro: good_trans)
  qed simp
qed

section \<open>Inference calls\<close>

lemma fold_update_stage_good:
  assumes "\<And>r. sg_status r = S_RUNNING \<Longrightarrow> stage_ok r \<Longrightarrow> stage_ok (f r) \<and> stage_evolves r (f r) \<and> sg_status (f r) = S_RUNNING"
  shows "analysis_ok db \<Longrightarrow> (\<And>r. r \<in> set (ab_stages db) \<Longrightarrow> sg_id r \<in> set ids \<Longrightarrow> sg_status r = S_RUNNING) \<Longrightarrow>
     good db (fold (\<lambda>i. update_stage i f) ids db)"
proof (induction ids arbitrary: db)
  case (Cons i ids)
  have g: "good db (update_stage i f db)"
    by (rule update_stage_good) (use assms Cons.prems(2) in simp)
  have "good (update_stage i f db) (fold (\<lambda>i. update_stage i f) ids (update_stage i f db))"
  proof (rule Cons.IH [OF good_ok [OF g Cons.prems(1)]])
    fix r assume r: "r \<in> set (ab_stages (update_stage i f db))" "sg_id r \<in> set ids"
    then obtain q where q: "q \<in> set (ab_stages db)" "r = (if sg_id q = i then f q else q)"
      unfolding stage_selectors set_update_where by (elim imageE)
    have okq: "stage_ok q" using Cons.prems(1) q(1) by (simp add: analysis_ok_def)
    show "sg_status r = S_RUNNING"
    proof (cases "sg_id q = i")
      case True
      with assms [OF Cons.prems(2) [OF q(1)] okq] q(2) show ?thesis by simp
    next
      case False
      with q r(2) Cons.prems(2) [OF q(1)] show ?thesis by simp
    qed
  qed
  with g show ?case by (auto intro: good_trans)
qed simp

lemma start_inference_cases:
  assumes "start_inference host_ok m c s manifest schema schema_hash key summary now db = Inr (x, db')"
  obtains "x = None" "db' = db"
  | held version adapter model sm sc where "x = Some \<lparr>sc_inference_call_id = c, sc_input_manifest_id = m\<rparr>"
      "lock_targets (sn_targets s) now db = Inr held" "length held = length (sn_targets s)"
      "0 < cs_attempt_count (sn_claim s)" "cache_key_allowed (map_option ck_value key)"
      "c \<notin> ic_id ` set (ab_calls db)"
      "db' = fold (\<lambda>i. update_stage i (link_call m c (st_cache_policy (sn_stage s)) key now)) (map snd held)
        (db\<lparr>ab_manifests := ab_manifests db @ [new_manifest m version manifest now],
            ab_calls := ab_calls db @ [\<lparr>ic_id = c, ic_input_manifest_id = m, ic_stage_version_id = version,
                ic_provider_adapter = adapter, ic_model_name = model, ic_request_summary = sm,
                ic_structured_output_schema = sc, ic_schema_hash = schema_hash, ic_status = C_PENDING,
                ic_attempt = cs_attempt_count (sn_claim s), ic_raw_response = None, ic_token_usage = None,
                ic_latency_ms = None, ic_http_status = None, ic_error_code = None, ic_error_type = None,
                ic_retryable = None, ic_completed_at = None, ic_created_at = now\<rparr>]\<rparr>)"
proof -
  from assms obtain adapter model sm sc held where
      h: "lock_targets (sn_targets s) now db = Inr held"
    and e: "(if length held \<noteq> length (sn_targets s) then Inr (None, db)
       else
     try_bind (uuid_or_value_error (st_version_id (sn_stage s))) (\<lambda>version.
       if \<not> manifest_allowed (new_manifest m version manifest now) (ab_manifests db) \<or> c \<in> ic_id ` set (ab_calls db)
             \<or> cs_attempt_count (sn_claim s) \<le> 0 \<or> isl (validate_hash schema_hash)
             \<or> \<not> cache_key_allowed (map_option ck_value key)
          then Inl IntegrityError
          else Inr (Some \<lparr>sc_inference_call_id = c, sc_input_manifest_id = m\<rparr>,
                 fold (\<lambda>i. update_stage i (link_call m c (st_cache_policy (sn_stage s)) key now))
                   (map snd held)
                   (db\<lparr>ab_manifests := ab_manifests db @ [new_manifest m version manifest now],
                       ab_calls := ab_calls db @ [\<lparr>ic_id = c, ic_input_manifest_id = m, ic_stage_version_id = version,
                ic_provider_adapter = adapter, ic_model_name = model, ic_request_summary = sm,
                ic_structured_output_schema = sc, ic_schema_hash = schema_hash, ic_status = C_PENDING,
                ic_attempt = cs_attempt_count (sn_claim s), ic_raw_response = None, ic_token_usage = None,
                ic_latency_ms = None, ic_http_status = None, ic_error_code = None, ic_error_type = None,
                ic_retryable = None, ic_completed_at = None, ic_created_at = now\<rparr>]\<rparr>)))) = Inr (x, db')"
    unfolding start_inference_def Let_def by (elim try_bindE) (rule that, assumption+)
  show thesis
  proof (cases "length held = length (sn_targets s)")
    case False
    with e that(1) show thesis by simp
  next
    case True
    with e obtain version where v: "uuid_or_value_error (st_version_id (sn_stage s)) = Inr version"
      by (auto elim!: try_bindE)
    from e True v that(2) [OF _ h True] show thesis by (auto split: if_splits)
  qed
qed

lemma start_inference_good:
  assumes "start_inference host_ok m c s manifest schema schema_hash key summary now db = Inr (x, db')"
  shows "good db db'"
proof (rule goodI)
  assume ok: "analysis_ok db"
  from assms show "good db db'"
  proof (cases rule: start_inference_cases)
    case (2 held version adapter model sm sc)
    let ?m = "db\<lparr>ab_manifests := ab_manifests db @ [new_manifest m version manifest now]\<rparr>"
    let ?call = "\<lparr>ic_id = c, ic_input_manifest_id = m, ic_stage_version_id = version,
                ic_provider_adapter = adapter, ic_model_name = model, ic_request_summary = sm,
                ic_structured_output_schema = sc, ic_schema_hash = schema_hash, ic_status = C_PENDING,
                ic_attempt = cs_attempt_count (sn_claim s), ic_raw_response = None, ic_token_usage = None,
                ic_latency_ms = None, ic_http_status = None, ic_error_code = None, ic_error_type = None,
                ic_retryable = None, ic_completed_at = None, ic_created_at = now\<rparr>"
    have g1: "good db ?m" by simp
    have "call_ok ?call" using 2(4) by (simp add: call_ok_def)
    then have g2: "good ?m (?m\<lparr>ab_calls := ab_calls db @ [?call]\<rparr>)" by (intro calls_good) auto
    from g1 g2 have g: "good db (?m\<lparr>ab_calls := ab_calls db @ [?call]\<rparr>)" by (blast intro: good_trans)
    have "good (?m\<lparr>ab_calls := ab_calls db @ [?call]\<rparr>) db'" unfolding 2(7)
    proof (rule fold_update_stage_good)
      show "analysis_ok (db\<lparr>ab_manifests := ab_manifests db @ [new_manifest m version manifest now], ab_calls := ab_calls db @ [?call]\<rparr>)"
        using good_ok [OF g ok] by simp
    next
      fix r assume "sg_status r = S_RUNNING" "stage_ok r"
      with running_stage_ok(4) [OF this(2,1) 2(5)] running_stage_evolves(4) [OF this(1)]
      show "stage_ok (link_call m c (st_cache_policy (sn_stage s)) key now r)
        \<and> stage_evolves r (link_call m c (st_cache_policy (sn_stage s)) key now r)
        \<and> sg_status (link_call m c (st_cache_policy (sn_stage s)) key now r) = S_RUNNING" by (simp add: link_call_def)
    next
      fix r assume "r \<in> set (ab_stages (db\<lparr>ab_manifests := ab_manifests db @ [new_manifest m version manifest now],
          ab_calls := ab_calls db @ [?call]\<rparr>))" "sg_id r \<in> set (map snd held)"
      then obtain t where r: "r \<in> set (ab_stages db)" "(t, sg_id r) \<in> set held" by auto
      from lock_targets_held(2) [OF 2(2) r(2)] obtain q where q: "q \<in> set (ab_stages db)" "sg_id q = sg_id r" "live_lease now q" by blast
      from stage_key [OF ok q(1) r(1) q(2)] q(3) show "sg_status r = S_RUNNING" by (simp add: live_lease_running)
    qed
    with g show ?thesis by (blast intro: good_trans)
  qed simp
qed

lemma finish_call_good:
  assumes "finish_call call f db = Inr (b, db')" and "\<And>c. call_ok c \<Longrightarrow> call_ok (f c)"
  shows "good db db'"
proof -
  from assms(1) obtain P where e: "db' = db\<lparr>ab_calls := update_where P f (ab_calls db)\<rparr>"
    unfolding finish_call_def by (auto elim!: try_bindE)
  show ?thesis unfolding e by (rule calls_good) (use assms(2) in \<open>auto simp: in_update_where\<close>)
qed

lemma audit_numbers:
  "nonnegative_float q = Some p \<Longrightarrow> fl_le (Fin 0) p" "http_status h = Some i \<Longrightarrow> 100 \<le> i \<and> i \<le> 599"
  by (auto simp: nonnegative_float_def http_status_def split: option.splits py_float.splits if_splits)

lemma record_inference_good:
  "record_inference_success host_ok call response now db = Inr (b, db') \<Longrightarrow> good db db'"
  "record_inference_failure host_ok call failure now db = Inr (b, db') \<Longrightarrow> good db db'"
  unfolding record_inference_success_def record_inference_failure_def
  by (erule finish_call_good; auto simp: call_ok_def dest: audit_numbers)+

section \<open>Retries\<close>

lemma retry_or_fail_row_good:
  assumes ok: "analysis_ok db" and r: "r \<in> set (ab_stages db)" "sg_status r = S_RUNNING"
  shows "good db (retry_or_fail_row code ty retryable retry_at now r db)"
proof -
  let ?f = "failed_stage code ty retryable retry_at now"
  have only: "x = r" if "x \<in> set (ab_stages db)" "sg_id x = sg_id r" for x by (rule stage_key [OF ok that(1) r(1) that(2)])
  have okr: "stage_ok r" using ok r by (simp add: analysis_ok_def)
  have g: "good db (update_stage (sg_id r) ?f db)"
    by (rule update_stage_good) (use only r(2) running_stage_ok(1) running_stage_evolves(1) in blast)
  have "good (update_stage (sg_id r) ?f db) (set_wakeup_terminal (sg_id r) now (update_stage (sg_id r) ?f db))"
    if "\<not> (retryable \<and> sg_attempt_count r < sg_max_attempts r)"
  proof (rule terminal_wakeup_good)
    fix x assume "x \<in> set (ab_stages (update_stage (sg_id r) ?f db))" "sg_id x = sg_id r"
    then obtain q where q: "q \<in> set (ab_stages db)" "x = (if sg_id q = sg_id r then ?f q else q)"
      unfolding stage_selectors set_update_where by (elim imageE)
    have "sg_id q = sg_id r" using q(2) \<open>sg_id x = sg_id r\<close> by (simp split: if_splits)
    with only [OF q(1)] q(2) have "x = ?f r" by simp
    with that show "\<not> active_stage_status (sg_status x)" by (auto simp: failed_stage_def active_stage_status_def Let_def)
  qed
  with g reschedule_good show ?thesis by (auto simp: retry_or_fail_row_def Let_def intro: good_trans)
qed

lemma retry_or_fail_row_stages:
  "ab_stages (retry_or_fail_row code ty retryable retry_at now r db)
     = update_where (\<lambda>x. sg_id x = sg_id r) (failed_stage code ty retryable retry_at now) (ab_stages db)"
  by (simp add: retry_or_fail_row_def Let_def)

lemma holds_row:
  assumes "analysis_ok db" "holds db held t" "map_of held t = Some i" "find_stage i db = Some r"
  shows "r \<in> set (ab_stages db)" "sg_id r = i" "sg_status r = S_RUNNING" "sg_target_id r = t"
proof -
  note r = find_stage_Some [OF assms(4)]
  then show "r \<in> set (ab_stages db)" "sg_id r = i" by simp_all
  from assms(2,3) obtain q where q: "q \<in> set (ab_stages db)" "sg_id q = i" "sg_status q = S_RUNNING" "sg_target_id q = t"
    by (auto simp: holds_def)
  have "r = q" by (rule stage_key [OF assms(1)]) (use r q in simp_all)
  with q show "sg_status r = S_RUNNING" "sg_target_id r = t" by simp_all
qed

lemma retry_or_fail_each_good:
  "retry_or_fail_each code ty retryable retry_at now held ts db = (b, db') \<Longrightarrow> analysis_ok db \<Longrightarrow> distinct ts \<Longrightarrow>
     (\<And>t. t \<in> set ts \<Longrightarrow> holds db held t) \<Longrightarrow> good db db'"
proof (induction ts arbitrary: b db)
  case (Cons t ts)
  show ?case
  proof (cases "map_of held t")
    case None
    with Cons show ?thesis by simp
  next
    case (Some i)
    note i = Some
    show ?thesis
    proof (cases "find_stage i db")
      case None
      with Cons i show ?thesis by simp
    next
      case (Some r)
      let ?db = "retry_or_fail_row code ty retryable retry_at now r db"
      have h: "holds db held t" using Cons.prems(4) by simp
      note r = holds_row [OF Cons.prems(2) h i Some]
      have g: "good db ?db" by (rule retry_or_fail_row_good [OF Cons.prems(2) r(1,3)])
      obtain b' where e: "retry_or_fail_each code ty retryable retry_at now held ts ?db = (b', db')"
        using Cons.prems(1) i Some by (cases "retry_or_fail_each code ty retryable retry_at now held ts ?db") simp
      have "good ?db db'"
      proof (rule Cons.IH [OF e good_ok [OF g Cons.prems(2)]])
        fix u assume u: "u \<in> set ts"
        with Cons.prems(3) have "t \<noteq> u" by auto
        from holds_update [OF Cons.prems(2) h Cons.prems(4) i this, of "failed_stage code ty retryable retry_at now"] u
        show "holds ?db held u" by (simp add: holds_def retry_or_fail_row_stages r(2))
      qed (use Cons.prems(3) in simp)
      with g show ?thesis by (blast intro: good_trans)
    qed
  qed
qed simp

lemma retry_or_fail_targets_good:
  assumes "retry_or_fail_targets s ids code ty retryable retry_at now db = Inr (b, db')" "distinct ids"
  shows "good db db'"
proof (rule goodI)
  assume ok: "analysis_ok db"
  show "good db db'"
  proof (cases "ids = []")
    case True
    with assms(1) show ?thesis by (simp add: retry_or_fail_targets_def)
  next
    case False
    with assms(1) obtain held where h: "lock_targets (chosen_targets ids s) now db = Inr held"
      and e: "retry_or_fail_each code ty retryable retry_at now held ids db = (b, db')"
      unfolding retry_or_fail_targets_def by (auto elim!: try_bindE)
    from retry_or_fail_each_good [OF e ok assms(2) lock_targets_holds [OF h]] show ?thesis .
  qed
qed

lemma retry_or_fail_claim_cases:
  assumes "retry_or_fail_claim c code ty retryable retry_at now db = Inr (b, db')"
  obtains "\<not> b" "db' = db"
  | r token where "b" "r \<in> set (ab_stages db)" "live_lease now r" "uuid_or_value_error (cs_stage_run_id c) = Inr (sg_id r)"
      "uuid_or_value_error (cs_lease_token c) = Inr token" "sg_lease_token r = Some token"
      "db' = retry_or_fail_row code ty retryable retry_at now r db"
proof -
  from assms obtain i token where u: "uuid_or_value_error (cs_stage_run_id c) = Inr i" "uuid_or_value_error (cs_lease_token c) = Inr token"
    unfolding retry_or_fail_claim_def by (elim try_bindE) (rule that)
  note e = assms [unfolded retry_or_fail_claim_def u try_bind_simps]
  show thesis
  proof (cases "find (\<lambda>r. sg_id r = i \<and> live_lease now r \<and> sg_lease_token r = Some token) (ab_stages db)")
    case None
    with e that(1) show thesis by simp
  next
    case (Some r)
    then have r: "r \<in> set (ab_stages db)" "live_lease now r" "sg_id r = i" "sg_lease_token r = Some token"
      by (auto simp: find_Some_iff)
    show thesis by (rule that(2) [OF _ r(1,2) _ u(2) r(4)]) (use e Some r(3) u(1) in simp_all)
  qed
qed

lemma retry_or_fail_claim_good:
  assumes "retry_or_fail_claim c code ty retryable retry_at now db = Inr (b, db')"
  shows "good db db'"
  using assms
proof (cases rule: retry_or_fail_claim_cases)
  case (2 r token)
  from retry_or_fail_row_good [OF _ 2(2) live_lease_running [OF 2(3)]] show ?thesis by (auto simp: 2(7) intro: goodI)
qed simp

section \<open>Claims\<close>

lemma claim_stage_cases:
  assumes "claim_stage locked token stage_run_id now duration db = Inr (c, db')"
  obtains "c = None" "db' = db"
  | r run where "c = None" "r \<in> set (ab_stages db)" "run \<in> set (ab_runs db)" "of_run run r" "due_stage now r"
      "an_status run \<notin> set terminal_run_statuses" "sg_max_attempts r \<le> sg_attempt_count r"
      "uuid_or_value_error stage_run_id = Inr (sg_id r)"
      "db' = terminalize_exhausted_stage (sg_id r) (an_id run) now db"
  | r run where "c = Some \<lparr>cs_stage_run_id = sg_id r, cs_analysis_run_id = sg_analysis_run_id r,
                       cs_message_id = sg_message_id r, cs_target_id = sg_target_id r,
                       cs_stage_version_id = sg_stage_version_id r, cs_lease_token = token,
                       cs_attempt_count = sg_attempt_count r + 1, cs_max_attempts = sg_max_attempts r,
                       cs_run_mode = an_run_mode run\<rparr>"
      "r \<in> set (ab_stages db)" "run \<in> set (ab_runs db)" "of_run run r" "due_stage now r"
      "an_status run \<notin> set terminal_run_statuses" "sg_attempt_count r < sg_max_attempts r"
      "uuid_or_value_error stage_run_id = Inr (sg_id r)"
      "db' = update_run (an_id run) (run_underway now) (update_stage (sg_id r) (lease_stage token now duration) db)"
proof -
  from assms obtain i where u: "uuid_or_value_error stage_run_id = Inr i"
    unfolding claim_stage_def by (elim try_bindE) (rule that)
  note e = assms [unfolded claim_stage_def u try_bind_simps]
  show thesis
  proof (cases "find (\<lambda>r. sg_id r = i \<and> due_stage now r \<and> i \<notin> set locked) (ab_stages db)")
    case None
    with e that(1) show thesis by simp
  next
    case (Some r)
    then have r: "r \<in> set (ab_stages db)" "due_stage now r" "sg_id r = i" by (auto simp: find_Some_iff)
    show thesis
    proof (cases "find_run (sg_analysis_run_id r) db")
      case None
      with e Some that(1) show thesis by simp
    next
      case (Some run)
      with find_run_Some [OF Some] have run: "run \<in> set (ab_runs db)" "of_run run r" by (simp_all add: of_run_def)
      note e' = e [unfolded \<open>find _ _ = Some r\<close> Some option.case]
      show thesis
      proof (cases "an_status run \<in> set terminal_run_statuses")
        case True
        with e' that(1) show thesis by simp
      next
        case False
        show thesis
        proof (cases "sg_max_attempts r \<le> sg_attempt_count r")
          case True
          show thesis by (rule that(2) [OF _ r(1) run r(2) False True]) (use e' False True u r(3) in simp_all)
        next
          case f: False
          show thesis by (rule that(3) [OF _ r(1) run r(2) False]) (use e' False f u r(3) in simp_all)
        qed
      qed
    qed
  qed
qed

lemma run_underway_good:
  assumes "\<And>run. run \<in> set (ab_runs db) \<Longrightarrow> an_id run = i \<Longrightarrow> an_status run \<notin> set terminal_run_statuses"
  shows "good db (update_run i (run_underway now) db)"
  by (rule update_run_good)
    (use assms in \<open>auto simp: run_ok_def settled_def run_evolves_def run_underway_def started_def terminal_run_statuses_def split: option.splits\<close>)

lemma due_stage_active: "due_stage now r \<Longrightarrow> active_stage_status (sg_status r)"
  by (auto simp: due_stage_def active_stage_status_def)

lemma lease_stage_ok:
  assumes "stage_ok r" "due_stage now r" "sg_attempt_count r < sg_max_attempts r"
  shows "stage_ok (lease_stage token now duration r) \<and> stage_evolves r (lease_stage token now duration r)"
proof
  show "stage_ok (lease_stage token now duration r)"
    using assms(1,3) by (simp add: stage_ok_def lease_stage_def active_stage_status_def)
  show "stage_evolves r (lease_stage token now duration r)"
    using due_stage_active [OF assms(2)] by (simp add: lease_stage_def stage_evolves_def)
qed

lemma exhausted_stage_ok:
  assumes "stage_ok r" "due_stage now r"
  shows "stage_ok (exhausted_stage now r) \<and> stage_evolves r (exhausted_stage now r)"
proof
  show "stage_ok (exhausted_stage now r)"
    using assms(1) by (simp add: stage_ok_def exhausted_stage_def)
  show "stage_evolves r (exhausted_stage now r)"
    using due_stage_active [OF assms(2)] by (simp add: exhausted_stage_def stage_evolves_def)
qed

lemma terminalize_exhausted_good:
  assumes ok: "analysis_ok db" and r: "r \<in> set (ab_stages db)" "due_stage now r" "run \<in> set (ab_runs db)" "of_run run r"
    and status: "an_status run \<notin> set terminal_run_statuses"
  shows "good db (terminalize_exhausted_stage (sg_id r) (an_id run) now db)"
proof -
  let ?f = "exhausted_stage now"
  let ?db1 = "update_stage (sg_id r) ?f db"
  let ?db2 = "set_wakeup_terminal (sg_id r) now ?db1"
  have only: "x = r" if "x \<in> set (ab_stages db)" "sg_id x = sg_id r" for x by (rule stage_key [OF ok that(1) r(1) that(2)])
  have okr: "stage_ok r" using ok r by (simp add: analysis_ok_def)
  have g1: "good db ?db1" by (rule update_stage_good) (use only r(2) exhausted_stage_ok in blast)
  have x: "x = ?f r" if "x \<in> set (ab_stages ?db1)" "sg_id x = sg_id r" for x
  proof -
    from that(1) obtain q where q: "q \<in> set (ab_stages db)" "x = (if sg_id q = sg_id r then ?f q else q)"
      unfolding stage_selectors set_update_where by (elim imageE)
    have "sg_id q = sg_id r" using q(2) that(2) by (simp split: if_splits)
    with only [OF q(1)] q(2) show ?thesis by simp
  qed
  have g2: "good ?db1 ?db2"
  proof (rule terminal_wakeup_good)
    fix y assume "y \<in> set (ab_stages ?db1)" "sg_id y = sg_id r"
    from x [OF this] show "\<not> active_stage_status (sg_status y)" by (simp add: exhausted_stage_def active_stage_status_def)
  qed
  have runs: "ab_runs ?db2 = ab_runs db" by simp
  have one: "y = run" if "y \<in> set (ab_runs db)" "an_id y = an_id run" for y by (rule run_key [OF ok that(1) r(3) that(2)])
  have "good ?db2 (terminalize_exhausted_stage (sg_id r) (an_id run) now db)"
  proof (cases "list_ex (\<lambda>r. active_stage_status (sg_status r)) (stages_of_run (an_id run) ?db2)")
    case True
    have "good ?db2 (update_run (an_id run) (run_underway now) ?db2)"
      by (rule run_underway_good) (use one status in auto)
    with True show ?thesis by (simp add: terminalize_exhausted_stage_def)
  next
    case False
    have idle: "\<not> active_stage_status (sg_status x)" if "x \<in> set (ab_stages ?db2)" "sg_analysis_run_id x = an_id run" for x
      using False that by (simp add: list_ex_iff stages_of_run_def)
    have failed: "\<exists>x \<in> set (ab_stages ?db2). of_run run x \<and> sg_status x = S_FAILED"
    proof (rule bexI [of _ "?f r"])
      show "?f r \<in> set (ab_stages ?db2)" using r(1) by (force simp: set_update_where)
    qed (use r(4) in \<open>simp add: exhausted_stage_def of_run_def\<close>)
    have "good ?db2 (update_run (an_id run) (\<lambda>run. run\<lparr>an_status := ''failed'', an_started_at := started now (an_started_at run),
                an_completed_at := Some now, an_last_error_code := Some ''LEASE_EXPIRED'',
                an_last_error_type := Some ''WorkerLeaseExpired'', an_updated_at := now\<rparr>) ?db2)"
    proof (rule update_run_good)
      fix y assume "y \<in> set (ab_runs ?db2)" "an_id y = an_id run"
      then have y: "y = run" using one by simp
      let ?y = "y\<lparr>an_status := ''failed'', an_started_at := started now (an_started_at y),
                an_completed_at := Some now, an_last_error_code := Some ''LEASE_EXPIRED'',
                an_last_error_type := Some ''WorkerLeaseExpired'', an_updated_at := now\<rparr>"
      have "of_run ?y = of_run run" by (simp add: of_run_def fun_eq_iff y)
      then have "settled (ab_stages ?db2) ?y" using idle failed by (simp add: settled_def terminal_run_statuses_def of_run_def)
      then show "run_ok ?y \<and> settled (ab_stages ?db2) ?y \<and> run_evolves y ?y"
        by (auto simp: run_ok_def started_def terminal_run_statuses_def run_evolves_def split: option.splits)
    qed
    with False show ?thesis by (simp add: terminalize_exhausted_stage_def)
  qed
  with g1 g2 show ?thesis by (blast intro: good_trans)
qed

lemma claim_stage_good:
  assumes "claim_stage locked token stage_run_id now duration db = Inr (c, db')"
  shows "good db db'"
proof (rule goodI)
  assume ok: "analysis_ok db"
  from assms show "good db db'"
  proof (cases rule: claim_stage_cases)
    case (2 r run)
    from terminalize_exhausted_good [OF ok 2(2,5,3,4,6)] show ?thesis by (simp add: 2(9))
  next
    case (3 r run)
    let ?db1 = "update_stage (sg_id r) (lease_stage token now duration) db"
    have "x = r" if "x \<in> set (ab_stages db)" "sg_id x = sg_id r" for x by (rule stage_key [OF ok that(1) 3(2) that(2)])
    then have "good db ?db1" by (intro update_stage_good) (use 3(5,7) lease_stage_ok in blast)
    moreover have "good ?db1 db'" unfolding 3(9)
    proof (rule run_underway_good)
      fix y assume "y \<in> set (ab_runs ?db1)" "an_id y = an_id run"
      then have "y = run" using run_key [OF ok _ 3(3)] by simp
      with 3(6) show "an_status y \<notin> set terminal_run_statuses" by simp
    qed
    ultimately show ?thesis by (blast intro: good_trans)
  qed simp
qed

text \<open>The run's other columns on a claim.\<close>

lemma claim_issued:
  assumes "claim_stage locked token stage_run_id now duration db = Inr (Some c, db')"
  shows "issued db c"
  using assms
proof (cases rule: claim_stage_cases)
  case (3 r run)
  from 3(8) obtain n where n: "parse_uuid stage_run_id = Some n" "uuid_text n = sg_id r"
    by (cases "parse_uuid stage_run_id") (simp_all add: uuid_or_value_error_def)
  have "uuid_or_value_error (sg_id r) = Inr (sg_id r)"
    unfolding n(2) [symmetric] by (simp add: uuid_or_value_error_def parse_uuid_text [OF parse_uuid_bound [OF n(1)]])
  with 3(1-4) show ?thesis unfolding issued_def of_run_def by (intro bexI [of _ r] bexI [of _ run]) simp_all
qed simp_all

section \<open>The negative gate\<close>

lemma skip_stage_ok:
  assumes "stage_ok r" "active_stage_status (sg_status r)"
  shows "stage_ok (skip_stage now r) \<and> stage_evolves r (skip_stage now r)"
proof
  show "stage_ok (skip_stage now r)" using assms(1) by (simp add: stage_ok_def skip_stage_def)
  show "stage_evolves r (skip_stage now r)" using assms(2) by (simp add: skip_stage_def stage_evolves_def)
qed

lemma gate_causes_labels:
  assumes "gate_causes stored as cs = Inr (Some cs')" "\<And>m l. (m, l) \<in> set cs \<Longrightarrow> l \<in> set stored \<and> ml_message_id l = m"
    and "distinct (map fst cs)"
  shows "(as \<noteq> [] \<or> cs \<noteq> [] \<longrightarrow> cs' \<noteq> []) \<and> distinct (map fst cs')
    \<and> (\<forall>(m, l) \<in> set cs'. l \<in> set stored \<and> ml_message_id l = m)"
  using assms
proof (induction "as" arbitrary: cs)
  case Nil
  then show ?case by auto
next
  case (Cons a "as")
  from Cons.prems(1) obtain i where i: "uuid_or_value_error (ga_assignment_id a) = Inr i"
    by (auto elim!: try_bindE)
  with Cons.prems(1) obtain l where l: "find (\<lambda>l. ml_id l = i) stored = Some l"
    by (cases "find (\<lambda>l. ml_id l = i) stored") simp_all
  let ?cs = "if dict_has (ml_message_id l) cs then cs else dict_set (ml_message_id l) l cs"
  from Cons.prems(1) i l have rest: "gate_causes stored as ?cs = Inr (Some cs')"
    by (auto elim!: try_bindE split: if_splits)
  have s: "l \<in> set stored" using l by (auto simp: find_Some_iff)
  have mem: "(m, x) \<in> set (dict_set k v d) \<Longrightarrow> (m, x) \<in> set d \<or> m = k \<and> x = v" for m x k v and d :: "(uuid, model_label_row) dict"
    by (induction k v d rule: dict_set.induct) (auto split: if_splits)
  have ne: "?cs \<noteq> []"
    by (cases cs) (auto simp: dict_has_def)
  have "(as \<noteq> [] \<or> ?cs \<noteq> [] \<longrightarrow> cs' \<noteq> []) \<and> distinct (map fst cs')
      \<and> (\<forall>(m, l) \<in> set cs'. l \<in> set stored \<and> ml_message_id l = m)"
  proof (rule Cons.IH [OF rest])
    show "x \<in> set stored \<and> ml_message_id x = m" if "(m, x) \<in> set ?cs" for m x
    proof (cases "(m, x) \<in> set cs")
      case True
      with Cons.prems(2) show ?thesis by simp
    next
      case False
      with that have "(m, x) \<in> set (dict_set (ml_message_id l) l cs)" by (simp split: if_splits)
      from mem [OF this] False s show ?thesis by simp
    qed
    show "distinct (map fst ?cs)" using Cons.prems(3) by (simp add: distinct_dict_set)
  qed
  with ne show ?case by simp
qed

lemma fold_terminal_wakeups_good:
  "(\<And>r. r \<in> set (ab_stages db) \<Longrightarrow> sg_id r \<in> set ids \<Longrightarrow> \<not> active_stage_status (sg_status r)) \<Longrightarrow>
     good db (fold (\<lambda>i. set_wakeup_terminal i now) ids db)
     \<and> ab_stages (fold (\<lambda>i. set_wakeup_terminal i now) ids db) = ab_stages db
     \<and> ab_runs (fold (\<lambda>i. set_wakeup_terminal i now) ids db) = ab_runs db
     \<and> ab_messages (fold (\<lambda>i. set_wakeup_terminal i now) ids db) = ab_messages db"
proof (induction ids arbitrary: db)
  case (Cons i ids)
  have g: "good db (set_wakeup_terminal i now db)" by (rule terminal_wakeup_good) (use Cons.prems in simp)
  have m: "ab_messages (set_wakeup_terminal i now db) = ab_messages db" by (simp add: set_wakeup_terminal_def)
  have "good (set_wakeup_terminal i now db) (fold (\<lambda>i. set_wakeup_terminal i now) ids (set_wakeup_terminal i now db))
     \<and> ab_stages (fold (\<lambda>i. set_wakeup_terminal i now) ids (set_wakeup_terminal i now db)) = ab_stages (set_wakeup_terminal i now db)
     \<and> ab_runs (fold (\<lambda>i. set_wakeup_terminal i now) ids (set_wakeup_terminal i now db)) = ab_runs (set_wakeup_terminal i now db)
     \<and> ab_messages (fold (\<lambda>i. set_wakeup_terminal i now) ids (set_wakeup_terminal i now db)) = ab_messages (set_wakeup_terminal i now db)"
    by (rule Cons.IH) (use Cons.prems in simp)
  with g m show ?case by (auto intro: good_trans)
qed simp

lemma close_gate_good:
  assumes ok: "analysis_ok db" and run: "run \<in> set (ab_runs db)" "an_message_id run \<in> fst ` set causes"
  shows "good db (close_gate (an_id run) causes now db)"
proof -
  let ?P = "gated (an_id run) (map fst causes)"
  let ?db0 = "db\<lparr>ab_messages := map (block_message causes now) (ab_messages db)\<rparr>"
  let ?db1 = "?db0\<lparr>ab_stages := update_where ?P (skip_stage now) (ab_stages db)\<rparr>"
  let ?ids = "map sg_id (filter ?P (ab_stages db))"
  let ?db2 = "fold (\<lambda>i. set_wakeup_terminal i now) ?ids ?db1"
  have "good ?db0 (?db0\<lparr>ab_stages := update_where ?P (skip_stage now) (ab_stages ?db0)\<rparr>)"
    by (rule stages_good) (use skip_stage_ok in \<open>simp add: gated_def\<close>)
  then have g1: "good db ?db1" 
    using good_trans [OF other_tables_good(1) [of db "map (block_message causes now) (ab_messages db)"], of ?db1] by simp
  have skipped: "\<not> active_stage_status (sg_status x)" if "x \<in> set (ab_stages ?db1)"
      "sg_id x \<in> set ?ids \<or> sg_analysis_run_id x = an_id run" for x
  proof -
    from that(1) obtain q where q: "q \<in> set (ab_stages db)" "x = (if ?P q then skip_stage now q else q)"
      by (auto simp: set_update_where)
    have same: "sg_id x = sg_id q" "sg_analysis_run_id x = sg_analysis_run_id q" by (simp_all add: q(2) skip_stage_def)
    show ?thesis
    proof (cases "?P q")
      case True
      with q(2) show ?thesis by (simp add: skip_stage_def active_stage_status_def)
    next
      case False
      have "sg_id x \<notin> set ?ids"
      proof
        assume "sg_id x \<in> set ?ids"
        then obtain p where "p \<in> set (ab_stages db)" "?P p" "sg_id p = sg_id q" using same by auto
        with stage_key [OF ok this(1) q(1) this(3)] False show False by simp
      qed
      with that(2) have "of_run run q" using same by (simp add: of_run_def)
      moreover have "owned (ab_runs db) q" using ok q(1) by (simp add: analysis_ok_def)
      then obtain run' where r: "run' \<in> set (ab_runs db)" "of_run run' q" "an_message_id run' = sg_message_id q"
        by (auto simp: owned_def)
      have "an_id run' = an_id run" using \<open>of_run run q\<close> r(2) by (simp add: of_run_def)
      then have "run' = run" by (rule run_key [OF ok r(1) run(1)])
      with r(3) run(2) False \<open>of_run run q\<close> have "\<not> active_stage_status (sg_status q)" by (auto simp: gated_def of_run_def)
      with False q(2) show ?thesis by simp
    qed
  qed
  have g2: "good ?db1 ?db2 \<and> ab_stages ?db2 = ab_stages ?db1 \<and> ab_runs ?db2 = ab_runs ?db1 \<and> ab_messages ?db2 = ab_messages ?db1"
    by (rule fold_terminal_wakeups_good) (use skipped in blast)
  let ?f = "\<lambda>run. run\<lparr>an_status := ''blocked_negative_gate'',
           an_started_at := started now (an_started_at run), an_completed_at := Some now,
           an_last_error_code := None, an_last_error_type := None, an_updated_at := now\<rparr>"
  have "good ?db2 (update_run (an_id run) ?f ?db2)"
  proof (rule update_run_good)
    fix y assume y: "y \<in> set (ab_runs ?db2)" "an_id y = an_id run"
    have "settled (ab_stages ?db2) (?f y)"
      using skipped y(2) g2 by (simp add: settled_def of_run_def)
    then show "run_ok (?f y) \<and> settled (ab_stages ?db2) (?f y) \<and> run_evolves y (?f y)"
      by (auto simp: run_ok_def started_def terminal_run_statuses_def run_evolves_def split: option.splits)
  qed
  then have "good ?db1 (update_run (an_id run) ?f ?db2)" by (rule good_trans [OF g2 [THEN conjunct1]])
  then have "good db (update_run (an_id run) ?f ?db2)" by (rule good_trans [OF g1])
  moreover have "close_gate (an_id run) causes now db = update_run (an_id run) ?f ?db2"
    by (simp add: close_gate_def)
  ultimately show ?thesis by simp
qed

lemma apply_gate_cases:
  assumes "apply_negative_gate rid assignments now db = Inr (b, db')"
  obtains "\<not> b" "db' = db"
  | run requested causes where "b" "run \<in> set (ab_runs db)" "uuid_or_value_error rid = Inr (an_id run)" "an_run_mode run \<noteq> ''test''"
      "gate_causes (gate_labels (an_id run) requested (ab_labels db)) assignments [] = Inr (Some causes)" "assignments \<noteq> []"
      "count_where (\<lambda>m. ms_id m \<in> fst ` set causes) (ab_messages db) = length causes"
      "db' = close_gate (an_id run) causes now db"
proof (cases "assignments = []")
  case True
  with assms that(1) show thesis by (simp add: apply_negative_gate_def)
next
  case False
  with assms obtain i requested where u: "uuid_or_value_error rid = Inr i"
      "traverse (\<lambda>a. uuid_or_value_error (ga_assignment_id a)) assignments = Inr requested"
    unfolding apply_negative_gate_def by (auto elim!: try_bindE)
  note e = assms [unfolded apply_negative_gate_def u try_bind_simps] 
  show thesis
  proof (cases "find_run i db")
    case None
    with e False that(1) show thesis by simp
  next
    case (Some run)
    note run = find_run_Some [OF Some]
    show thesis
    proof (cases "an_run_mode run = ''test'' \<or> card (ml_id ` set (gate_labels i requested (ab_labels db))) \<noteq> card (set requested)")
      case True
      with e False Some that(1) show thesis by (auto split: if_splits)
    next
      case f: False
      with e False Some obtain found where g: "gate_causes (gate_labels i requested (ab_labels db)) assignments [] = Inr found"
        by (auto elim!: try_bindE)
      show thesis
      proof (cases found)
        case None
        with e False Some f g that(1) show thesis by simp
      next
        case (Some causes)
        show thesis
        proof (cases "count_where (\<lambda>m. ms_id m \<in> fst ` set causes) (ab_messages db) = length causes")
          case True
          show thesis
            by (rule that(2) [of run requested causes]) (use e False f g True Some \<open>find_run i db = Some run\<close> run u in simp_all)
        next
          case f': False
          with e False f g Some \<open>find_run i db = Some run\<close> that(1) show thesis by simp
        qed
      qed
    qed
  qed
qed

lemma gate_causes_run:
  assumes "analysis_ok db" "run \<in> set (ab_runs db)"
    and "gate_causes (gate_labels (an_id run) requested (ab_labels db)) assignments [] = Inr (Some causes)" "assignments \<noteq> []"
  shows "map fst causes = [an_message_id run]"
proof -
  note c = gate_causes_labels [OF assms(3)]
  have m: "m = an_message_id run" if "(m, l) \<in> set causes" for m l
  proof -
    from c that have l: "l \<in> set (ab_labels db)" "ml_analysis_run_id l = an_id run" "ml_message_id l = m"
      by (auto simp: gate_labels_def)
    with assms(1) have "label_ok (ab_runs db) (ab_stages db) l" by (simp add: analysis_ok_def)
    then obtain r where r: "r \<in> set (ab_stages db)" "sg_analysis_run_id r = an_id run" "sg_message_id r = m"
      using l by (auto simp: label_ok_def)
    with assms(1) have "owned (ab_runs db) r" by (simp add: analysis_ok_def)
    then obtain run' where r': "run' \<in> set (ab_runs db)" "of_run run' r" "an_message_id run' = sg_message_id r" by (auto simp: owned_def)
    have "run' = run" by (rule run_key [OF assms(1) r'(1) assms(2)]) (use r' r in \<open>simp add: of_run_def\<close>)
    with r r' show ?thesis by simp
  qed
  from c assms(4) have ne: "causes \<noteq> []" and d: "distinct (map fst causes)" by simp_all
  from ne obtain e es where es: "causes = e # es" by (cases causes) auto
  have "es = []"
  proof (cases es)
    case (Cons e' es')
    with es m [of "fst e" "snd e"] m [of "fst e'" "snd e'"] d show ?thesis by simp
  qed
  with es m [of "fst e" "snd e"] show ?thesis by simp
qed

lemma apply_negative_gate_good:
  assumes "apply_negative_gate rid assignments now db = Inr (b, db')"
  shows "good db db'"
proof (rule goodI)
  assume ok: "analysis_ok db"
  from assms show "good db db'"
  proof (cases rule: apply_gate_cases)
    case (2 run requested causes)
    have "an_message_id run \<in> set (map fst causes)" by (simp only: gate_causes_run [OF ok 2(2,5,6)]) simp
    then have "an_message_id run \<in> fst ` set causes" by simp
    from close_gate_good [OF ok 2(2) this] show ?thesis by (simp add: 2(8))
  qed simp
qed

section \<open>Completion\<close>

lemma summarize_run_good:
  assumes "run_ok run" and stages: "stages = filter (of_run run) rows"
  shows "run_ok (summarize_run stages now run) \<and> settled rows (summarize_run stages now run)
    \<and> run_evolves run (summarize_run stages now run)"
proof -
  have o: "of_run (summarize_run stages now run) = of_run run"
    by (simp add: summarize_run_def of_run_def fun_eq_iff Let_def split: option.splits)
  have mem: "r \<in> set stages \<longleftrightarrow> r \<in> set rows \<and> of_run run r" for r by (auto simp: stages)
  have e: "run_evolves run (summarize_run stages now run)"
    by (simp add: summarize_run_def run_evolves_def Let_def split: option.splits)
  show ?thesis
  proof (cases "list_ex (\<lambda>r. active_stage_status (sg_status r)) stages")
    case True
    then have "an_status (summarize_run stages now run) = ''running''" "run_ok (summarize_run stages now run)"
      by (auto simp: summarize_run_def run_ok_def started_def split: option.splits)
    with e show ?thesis by (simp add: settled_def terminal_run_statuses_def)
  next
    case False
    then have idle: "\<forall>r \<in> set rows. of_run run r \<longrightarrow> \<not> active_stage_status (sg_status r)"
      using mem by (simp add: list_ex_iff)
    show ?thesis
    proof (cases "find (\<lambda>r. sg_status r = S_FAILED) (sort_key completion_order stages)")
      case (Some failure)
      then have "failure \<in> set (sort_key completion_order stages)" "sg_status failure = S_FAILED"
        unfolding find_Some_iff by (metis nth_mem, blast)
      then have "failure \<in> set rows" "of_run run failure" using mem by simp_all
      with \<open>sg_status failure = S_FAILED\<close> have ex: "\<exists>r \<in> set rows. of_run run r \<and> sg_status r = S_FAILED" by blast
      have "an_status (summarize_run stages now run) = ''failed''" "run_ok (summarize_run stages now run)"
        using False Some by (auto simp: summarize_run_def run_ok_def started_def terminal_run_statuses_def split: option.splits)
      with e idle ex show ?thesis by (simp add: settled_def o)
    next
      case None
      then have none: "\<forall>r \<in> set rows. of_run run r \<longrightarrow> sg_status r \<noteq> S_FAILED"
        using mem by (simp add: find_None_iff)
      show ?thesis
      proof (cases "an_status run = ''blocked_negative_gate'' \<or> list_ex (\<lambda>r. sg_status r = S_SKIPPED_NEGATIVE_GATE) stages")
        case True
        then have "an_status (summarize_run stages now run) = ''blocked_negative_gate''" "run_ok (summarize_run stages now run)"
          using False None by (auto simp: summarize_run_def run_ok_def started_def terminal_run_statuses_def split: option.splits)
        with e idle show ?thesis by (simp add: settled_def o)
      next
        case f: False
        then have "an_status (summarize_run stages now run) = ''completed''" "run_ok (summarize_run stages now run)"
          using False None by (auto simp: summarize_run_def run_ok_def started_def terminal_run_statuses_def split: option.splits)
        moreover have "sg_status r = S_SUCCEEDED \<or> sg_status r = S_SKIPPED_CONDITION" if "r \<in> set rows" "of_run run r" for r
          using that idle none f mem by (cases "sg_status r") (auto simp: active_stage_status_def list_ex_iff)
        ultimately show ?thesis using e idle by (simp add: settled_def o)
      qed
    qed
  qed
qed

lemma complete_analysis_run_good:
  assumes "complete_analysis_run rid now db = Inr (b, db')"
  shows "good db db'"
proof (rule goodI)
  assume ok: "analysis_ok db"
  from assms obtain i where u: "uuid_or_value_error rid = Inr i" unfolding complete_analysis_run_def by (elim try_bindE) (rule that)
  note e = assms [unfolded complete_analysis_run_def u try_bind_simps]
  show "good db db'"
  proof (cases "find_run i db")
    case None
    with e show ?thesis by simp
  next
    case (Some run)
    have "good db (update_run i (summarize_run (stages_of_run i db) now) db)"
    proof (rule update_run_good)
      fix y assume y: "y \<in> set (ab_runs db)" "an_id y = i" "run_ok y"
      have "stages_of_run i db = filter (of_run y) (ab_stages db)" 
        unfolding stages_of_run_def using y(2) by (intro filter_cong) (simp_all add: of_run_def)
      from summarize_run_good [OF y(3) this]
      show "run_ok (summarize_run (stages_of_run i db) now y) \<and> settled (ab_stages db) (summarize_run (stages_of_run i db) now y)
        \<and> run_evolves y (summarize_run (stages_of_run i db) now y)" .
    qed
    with e Some show ?thesis by auto
  qed
qed

end
