(* ===== verification/Analysis_Sample.thy ===== *)
theory Analysis_Sample
  imports Analysis_Steps
begin

text \<open>
  A small analysis to evaluate the engine on: one message, a test run with one stage run, and a formal run
  with two, all of one stage version whose results may be reused.
\<close>

definition sample_run :: "nat \<Rightarrow> string \<Rightarrow> analysis_run_row" where
  "sample_run i mode = \<lparr>an_id = uuid_text i, an_message_id = uuid_text 1, an_pipeline_version_id = uuid_text 2,
     an_run_mode = mode, an_status = ''pending'', an_facts_snapshot = [], an_last_error_code = None,
     an_last_error_type = None, an_started_at = None, an_completed_at = None, an_created_at = 0, an_updated_at = 0\<rparr>"

definition sample_stage_run :: "nat \<Rightarrow> nat \<Rightarrow> stage_row" where
  "sample_stage_run i run = \<lparr>sg_id = uuid_text i, sg_analysis_run_id = uuid_text run, sg_pipeline_stage_node_id = None,
     sg_stage_version_id = uuid_text 50, sg_message_id = uuid_text 1, sg_target_scope = ''global'',
     sg_target_kind = ''message'', sg_target_id = uuid_text 1, sg_image_asset_id = None, sg_video_asset_id = None,
     sg_status = S_PENDING, sg_attempt_count = 0, sg_max_attempts = 3, sg_next_retry_at = None,
     sg_lease_token = None, sg_lease_expires_at = None, sg_last_error_code = None, sg_last_error_type = None,
     sg_retryable = None, sg_last_failure_at = None, sg_input_manifest_id = None, sg_inference_call_id = None,
     sg_parsed_result = None, sg_cache_policy = ''none'', sg_cache_scope_identity = None,
     sg_semantic_cache_key = None, sg_result_origin = None, sg_reused_from = None, sg_started_at = None,
     sg_completed_at = None, sg_updated_at = 0\<rparr>"

definition sample_analysis_message :: message_row where
  "sample_analysis_message = \<lparr>ms_id = uuid_text 1, ms_source_channel_id = uuid_text 3, ms_telegram_message_ids = [5],
     ms_telegram_grouped_id = None, ms_primary_telegram_message_id = 5, ms_published_at = 0, ms_edited_at = None,
     ms_original_text = Some ''sale'', ms_telegram_metadata = [], ms_processing_status = ''normalized'',
     ms_review_status = UNREVIEWED, ms_media_count = 0, ms_visual_fingerprint = None,
     ms_source_changed_after_processing = False, ms_source_deleted = False, ms_source_deleted_at = None,
     ms_blocked_from_analysis = False, ms_blocked_at = None, ms_blocked_by_stage_run_id = None,
     ms_blocked_by_label_assignment_id = None, ms_updated_at = 0\<rparr>"

definition sample_wakeup :: "nat \<Rightarrow> wakeup_row" where
  "sample_wakeup i = new_wakeup_row (uuid_text (10 + i)) analysis_queue (uuid_text i) 0"

definition engine0 :: analysis_db where
  "engine0 = \<lparr>ab_runs = [sample_run 10 ''test'', sample_run 11 ''formal''],
     ab_stages = [sample_stage_run 20 10, sample_stage_run 21 11, sample_stage_run 22 11], ab_labels = [],
     ab_manifests = [], ab_calls = [], ab_messages = [sample_analysis_message],
     ab_wakeups = [sample_wakeup 20, sample_wakeup 21, sample_wakeup 22]\<rparr>"

definition sample_key :: stage_cache_key where
  "sample_key = \<lparr>ck_policy = CACHE_MESSAGE, ck_scope_identity = ''message:1'', ck_value = replicate 64 CHR ''b''\<rparr>"

definition sample_manifest :: input_manifest where
  "sample_manifest = \<lparr>mn_version = 1, mn_content = [(''manifest_version'', PInt 1)], mn_hash = replicate 64 CHR ''a''\<rparr>"

definition sample_snapshot :: "claimed_stage_run \<Rightarrow> stage_snapshot" where
  "sample_snapshot c = \<lparr>sn_claim = c, sn_stage = sample_stage\<lparr>st_version_id := uuid_text 50, st_cache_policy := CACHE_MESSAGE\<rparr>,
     sn_targets = [\<lparr>ts_stage_run_id = cs_stage_run_id c, ts_lease_token = cs_lease_token c, ts_target_id = cs_target_id c,
       ts_message_id = cs_message_id c, ts_target_kind = ''message'', ts_asset_id = None, ts_text = Some ''sale'',
       ts_telegram_metadata = Some [], ts_media = [], ts_previous_results = Some [], ts_visual_identity = None\<rparr>],
     sn_source_channel_context = []\<rparr>"

definition sample_claim :: "nat \<Rightarrow> nat \<Rightarrow> string \<Rightarrow> nat \<Rightarrow> int \<Rightarrow> claimed_stage_run" where
  "sample_claim i run mode token attempt = \<lparr>cs_stage_run_id = uuid_text i, cs_analysis_run_id = uuid_text run,
     cs_message_id = uuid_text 1, cs_target_id = uuid_text 1, cs_stage_version_id = uuid_text 50,
     cs_lease_token = uuid_text token, cs_attempt_count = attempt, cs_max_attempts = 3, cs_run_mode = mode\<rparr>"

definition sample_result :: validated_target_result where
  "sample_result = \<lparr>vt_target_id = uuid_text 1,
     vt_labels = [\<lparr>rl_label_definition_version_id = uuid_text 60, rl_key = ''advertisement'', rl_scope = GLOBAL,
       rl_score = 1, rl_activated = True, rl_negative = True\<rparr>], vt_reason = None, vt_evidence = []\<rparr>"

definition sample_call :: "nat \<Rightarrow> started_call" where
  "sample_call i = \<lparr>sc_inference_call_id = uuid_text (i + 1), sc_input_manifest_id = uuid_text i\<rparr>"

definition sample_fresh :: "nat \<Rightarrow> uuid" where
  "sample_fresh k = uuid_text (90 + k)"

definition test_claim :: claimed_stage_run where "test_claim = sample_claim 20 10 ''test'' 40 1"
definition formal_claim :: claimed_stage_run where "formal_claim = sample_claim 21 11 ''formal'' 41 1"

section \<open>Evaluation\<close>

text \<open>The texts of numbers stay folded: they are read back, and different numbers have different texts.\<close>

lemma sample_uuid_parses: "n < 16 ^ 32 \<Longrightarrow> uuid_or_value_error (uuid_text n) = Inr (uuid_text n)"
  by (simp add: uuid_or_value_error_def parse_uuid_text)

lemma sample_uuid_eq: "m < 16 ^ 32 \<Longrightarrow> n < 16 ^ 32 \<Longrightarrow> uuid_text m = uuid_text n \<longleftrightarrow> m = n"
  by (metis option.inject parse_uuid_text)

lemmas sample_defs = engine0_def sample_run_def sample_stage_run_def sample_claim_def sample_snapshot_def
  sample_uuid_parses sample_uuid_eq update_where_def update_stage_def update_run_def find_stage_def find_run_def

text \<open>The test run's stage run, claimed at time 5 for 10.\<close>

definition test_stage1 :: stage_row where
  "test_stage1 = lease_stage (uuid_text 40) 5 10 (sample_stage_run 20 10)"

definition engine1 :: analysis_db where
  "engine1 = engine0\<lparr>ab_runs := [run_underway 5 (sample_run 10 ''test''), sample_run 11 ''formal''],
     ab_stages := [test_stage1, sample_stage_run 21 11, sample_stage_run 22 11]\<rparr>"

lemma engine1: "claim_stage [] (uuid_text 40) (uuid_text 20) 5 10 engine0 = Inr (Some test_claim, engine1)"
  by (simp add: sample_defs claim_stage_def test_claim_def engine1_def test_stage1_def due_stage_def terminal_run_statuses_def)

text \<open>Its inference call starts at 6.\<close>

definition test_stage2 :: stage_row where
  "test_stage2 = link_call (uuid_text 70) (uuid_text 71) CACHE_MESSAGE (Some sample_key) 6 test_stage1"

definition sample_hash :: string where "sample_hash = replicate 64 CHR ''c''"

definition sample_call_row :: "nat \<Rightarrow> inference_call_row" where
  "sample_call_row i = \<lparr>ic_id = uuid_text (i + 1), ic_input_manifest_id = uuid_text i, ic_stage_version_id = uuid_text 50,
     ic_provider_adapter = ip_provider_adapter sample_profile, ic_model_name = ip_model_name sample_profile,
     ic_request_summary = PDict [], ic_structured_output_schema = PDict [], ic_schema_hash = sample_hash,
     ic_status = C_PENDING, ic_attempt = 1, ic_raw_response = None, ic_token_usage = None, ic_latency_ms = None,
     ic_http_status = None, ic_error_code = None, ic_error_type = None, ic_retryable = None, ic_completed_at = None,
     ic_created_at = 6\<rparr>"

definition engine2 :: analysis_db where
  "engine2 = engine1\<lparr>ab_stages := [test_stage2, sample_stage_run 21 11, sample_stage_run 22 11],
     ab_manifests := [new_manifest (uuid_text 70) (uuid_text 50) sample_manifest 6], ab_calls := [sample_call_row 70]\<rparr>"

lemma sample_checks:
  "sanitize_identifier (Some (ip_provider_adapter sample_profile)) 128 = Inr (ip_provider_adapter sample_profile)"
  "sanitize_identifier (Some (ip_model_name sample_profile)) 256 = Inr (ip_model_name sample_profile)"
  "validate_hash sample_hash = Inr sample_hash" "validate_hash (mn_hash sample_manifest) = Inr (mn_hash sample_manifest)"
  "validate_hash (ck_value sample_key) = Inr (ck_value sample_key)" "st_inference_profile sample_stage = sample_profile"
  "mn_version sample_manifest = 1"
  by code_simp+

lemmas start_defs = start_inference_def object_or_fail_def lock_targets_def expected_target_def live_lease_def
  manifest_allowed_def cache_key_allowed_def new_manifest_def

lemma engine2:
  "start_inference host_ok (uuid_text 70) (uuid_text 71) (sample_snapshot test_claim) sample_manifest (PDict []) sample_hash
     (Some sample_key) (PDict []) 6 engine1 = Inr (Some (sample_call 70), engine2)"
  by (simp add: sample_defs start_defs sample_checks engine1_def engine2_def test_claim_def test_stage1_def test_stage2_def
      lease_stage_def sample_call_row_def sample_call_def)

text \<open>Its result is committed at 7: a test run writes no labels.\<close>

definition test_stage3 :: stage_row where
  "test_stage3 = inferred_stage (validated_result_document sample_result) 7 test_stage2"

definition engine3 :: analysis_db where
  "engine3 = engine2\<lparr>ab_stages := [test_stage3, sample_stage_run 21 11, sample_stage_run 22 11],
     ab_wakeups := [complete_wakeup 7 (sample_wakeup 20), sample_wakeup 21, sample_wakeup 22]\<rparr>"

lemma sample_wakeup_columns [simp]:
  "analysis_wakeup (uuid_text i) (sample_wakeup k) \<longleftrightarrow> uuid_text k = uuid_text i"
  "analysis_wakeup (uuid_text i) (complete_wakeup now (sample_wakeup k)) \<longleftrightarrow> uuid_text k = uuid_text i"
  by (simp_all add: analysis_wakeup_def sample_wakeup_def new_wakeup_row_def complete_wakeup_def)

lemmas commit_defs = commit_validated_targets_def chosen_targets_def nothing_committed_def set_wakeup_terminal_def

lemma engine3:
  "commit_validated_targets sample_fresh (sample_snapshot test_claim) (sample_call 70) [sample_result] 7 engine2
     = Inr (\<lparr>cr_committed_target_ids = [uuid_text 1], cr_negative_gate_assignments = []\<rparr>, engine3)"
  by (simp add: sample_defs start_defs commit_defs engine1_def engine2_def engine3_def test_claim_def test_stage1_def
      test_stage2_def test_stage3_def lease_stage_def link_call_def sample_result_def sample_call_def)

text \<open>The first stage run of the formal run, claimed at 8 for 10.\<close>

definition formal_stage1 :: stage_row where
  "formal_stage1 = lease_stage (uuid_text 41) 8 10 (sample_stage_run 21 11)"

definition engine4 :: analysis_db where
  "engine4 = engine3\<lparr>ab_runs := [run_underway 5 (sample_run 10 ''test''), run_underway 8 (sample_run 11 ''formal'')],
     ab_stages := [test_stage3, formal_stage1, sample_stage_run 22 11]\<rparr>"

lemma test_stage3_columns:
  "sg_id test_stage3 = uuid_text 20" "sg_status test_stage3 = S_SUCCEEDED" "sg_analysis_run_id test_stage3 = uuid_text 10"
  "sg_parsed_result test_stage3 = Some (validated_result_document sample_result)"
  "sg_semantic_cache_key test_stage3 = Some (ck_value sample_key)" "sg_cache_policy test_stage3 = ''message''"
  "sg_cache_scope_identity test_stage3 = Some (ck_scope_identity sample_key)"
  by (simp_all add: test_stage3_def test_stage2_def test_stage1_def inferred_stage_def clear_stage_lease_def link_call_def
      lease_stage_def sample_stage_run_def)

lemmas engine_defs = engine1_def engine2_def engine3_def engine4_def test_stage3_columns

lemma engine4: "claim_stage [] (uuid_text 41) (uuid_text 21) 8 10 engine3 = Inr (Some formal_claim, engine4)"
  by (simp add: sample_defs claim_stage_def formal_claim_def engine_defs formal_stage1_def due_stage_def terminal_run_statuses_def
      run_underway_def)

text \<open>One way on: the cached result of the test run is reused.\<close>

definition sample_hit :: cache_hit where
  "sample_hit = \<lparr>ch_source_stage_run_id = uuid_text 20, ch_parsed_result = []\<rparr>"

definition reused_stage :: "(string \<Rightarrow> bool) \<Rightarrow> stage_row" where
  "reused_stage host_ok = cached_stage (uuid_text 75)
     (rewrite_cached_target host_ok (validated_result_document sample_result) (uuid_text 1)) sample_key (uuid_text 20) 9 formal_stage1"

definition engine5 :: "(string \<Rightarrow> bool) \<Rightarrow> analysis_db" where
  "engine5 host_ok = engine4\<lparr>ab_stages := [test_stage3, reused_stage host_ok, sample_stage_run 22 11],
     ab_manifests := ab_manifests engine4 @ [new_manifest (uuid_text 75) (uuid_text 50) sample_manifest 9],
     ab_wakeups := [complete_wakeup 7 (sample_wakeup 20), complete_wakeup 9 (sample_wakeup 21), sample_wakeup 22]\<rparr>"

lemma sample_key_policy: "ck_policy sample_key = CACHE_MESSAGE"
  by (simp add: sample_key_def)

lemma engine5:
  "commit_cache_hit host_ok sample_fresh (uuid_text 75) (sample_snapshot formal_claim) sample_manifest sample_key sample_hit 9 engine4
     = Inr (\<lparr>cr_committed_target_ids = [uuid_text 1], cr_negative_gate_assignments = []\<rparr>, engine5 host_ok)"
  by (simp add: sample_defs start_defs commit_defs engine_defs engine5_def formal_claim_def formal_stage1_def reused_stage_def
      lease_stage_def sample_hit_def commit_cache_hit_def exact_cache_source_def sample_checks sample_key_policy
      validated_result_document_def)

text \<open>Another: an inference call starts at 9 and its result is committed at 10, with a negative label.\<close>

definition formal_stage2 :: stage_row where
  "formal_stage2 = link_call (uuid_text 80) (uuid_text 81) CACHE_MESSAGE (Some sample_key) 9 formal_stage1"

definition engine6 :: analysis_db where
  "engine6 = engine4\<lparr>ab_stages := [test_stage3, formal_stage2, sample_stage_run 22 11],
     ab_manifests := ab_manifests engine4 @ [new_manifest (uuid_text 80) (uuid_text 50) sample_manifest 9],
     ab_calls := ab_calls engine4 @ [sample_call_row 80\<lparr>ic_created_at := 9\<rparr>]\<rparr>"

lemma engine6:
  "start_inference host_ok (uuid_text 80) (uuid_text 81) (sample_snapshot formal_claim) sample_manifest (PDict []) sample_hash
     (Some sample_key) (PDict []) 9 engine4 = Inr (Some (sample_call 80), engine6)"
  by (simp add: sample_defs start_defs sample_checks engine_defs engine6_def formal_claim_def formal_stage1_def formal_stage2_def
      lease_stage_def sample_call_row_def sample_call_def)

definition formal_stage3 :: stage_row where
  "formal_stage3 = inferred_stage (validated_result_document sample_result) 10 formal_stage2"

definition sample_label :: model_label_row where
  "sample_label = \<lparr>ml_id = uuid_text 90, ml_stage_run_id = uuid_text 21, ml_analysis_run_id = uuid_text 11,
     ml_message_id = uuid_text 1, ml_target_scope = ''global'', ml_target_kind = ''message'', ml_target_id = uuid_text 1,
     ml_image_asset_id = None, ml_video_asset_id = None, ml_label_definition_version_id = uuid_text 60,
     ml_label_key = ''advertisement'', ml_score = Fin 1, ml_activated = True, ml_negative = True, ml_reason = None,
     ml_evidence = [], ml_created_at = 10\<rparr>"

definition sample_gate :: gate_assignment where
  "sample_gate = \<lparr>ga_message_id = uuid_text 1, ga_stage_run_id = uuid_text 21, ga_assignment_id = uuid_text 90\<rparr>"

definition engine7 :: analysis_db where
  "engine7 = engine6\<lparr>ab_stages := [test_stage3, formal_stage3, sample_stage_run 22 11], ab_labels := [sample_label],
     ab_wakeups := [complete_wakeup 7 (sample_wakeup 20), complete_wakeup 10 (sample_wakeup 21), sample_wakeup 22]\<rparr>"

lemma engine7:
  "commit_validated_targets sample_fresh (sample_snapshot formal_claim) (sample_call 80) [sample_result] 10 engine6
     = Inr (\<lparr>cr_committed_target_ids = [uuid_text 1], cr_negative_gate_assignments = [sample_gate]\<rparr>, engine7)"
  by (simp add: sample_defs start_defs commit_defs engine_defs engine6_def engine7_def formal_claim_def formal_stage1_def
      formal_stage2_def formal_stage3_def lease_stage_def link_call_def sample_result_def sample_call_def label_of_result_def
      insert_label_def label_allowed_def gate_of_def sample_gate_def sample_label_def sample_fresh_def inferred_stage_def
      clear_stage_lease_def)

text \<open>The negative gate closes at 11: the other stage run of the formal run is skipped.\<close>

definition engine8 :: analysis_db where
  "engine8 = close_gate (uuid_text 11) [(uuid_text 1, sample_label)] 11 engine7"

lemma engine8: "apply_negative_gate (uuid_text 11) [sample_gate] 11 engine7 = Inr (True, engine8)"
  by (simp add: sample_defs engine_defs engine6_def engine7_def engine8_def apply_negative_gate_def gate_labels_def sample_label_def
      sample_gate_def run_underway_def dict_has_def count_where_def sample_analysis_message_def)

end
