(* ===== verification/Analysis_Loading.thy ===== *)
theory Analysis_Loading
  imports Analysis_Input Analysis_Sample
begin

text \<open>
  Loading the snapshot of a claimed stage run, \<^verbatim>\<open>load_stage_snapshot\<close> and its helpers of
  \<^verbatim>\<open>infrastructure/database/analysis_repository.py\<close>: the stage template version with its prompt, label set
  and inference profile is rebuilt from their rows, with every check of their constructors, and the target
  with its media and the results of earlier stages is read.

  The rows of published versions, channels, assets and frames are those of \<open>analysis_catalog\<close>.
\<close>

section \<open>Rows\<close>

record stage_version_row =
  vr_id :: uuid
  vr_analysis_stage_template_id :: uuid
  vr_version_number :: int
  vr_state :: string
  vr_name :: string
  vr_target_scope :: string
  vr_execution_mode :: string
  vr_prompt_template_version_id :: uuid
  vr_label_set_version_id :: uuid
  vr_structured_output_policy :: "(string, pyval) dict"
  vr_input_policy :: "(string, pyval) dict"
  vr_visual_composition_policy :: string
  vr_inference_profile_version_id :: uuid
  vr_cache_policy :: string
  vr_timeout_seconds :: py_float
  vr_retry_policy :: "(string, pyval) dict"
  vr_max_batch_size :: int
  vr_max_concurrency :: int

record prompt_version_row =
  pr_id :: uuid
  pr_prompt_template_id :: uuid
  pr_version_number :: int
  pr_state :: string
  pr_system_prompt :: string
  pr_user_prompt_template :: string
  pr_declared_variables :: "string list"

record label_set_version_row =
  lr_id :: uuid
  lr_label_set_id :: uuid
  lr_version_number :: int
  lr_state :: string

record label_binding_row =
  br_id :: uuid
  br_label_set_version_id :: uuid
  br_label_definition_version_id :: uuid
  br_activation_threshold :: py_float
  br_prompt_hint :: string
  br_output_order :: int

record label_definition_row =
  dr_id :: uuid
  dr_label_definition_id :: uuid
  dr_version_number :: int
  dr_state :: string
  dr_key :: string
  dr_display_name :: string
  dr_description :: string
  dr_scope :: string
  dr_negative :: bool
  dr_enabled :: bool

record profile_version_row =
  fr_id :: uuid
  fr_inference_profile_id :: uuid
  fr_version_number :: int
  fr_state :: string
  fr_provider_adapter :: string
  fr_base_url :: string
  fr_model_name :: string
  fr_api_secret_reference :: string
  fr_capabilities :: "string list"
  fr_timeout_seconds :: py_float
  fr_max_concurrency :: int
  fr_max_images :: int
  fr_max_input_tokens :: int
  fr_structured_output_support :: bool
  fr_sampling_parameters :: "(string, pyval) dict"

record analysis_catalog =
  cg_channels :: "channel_row list"
  cg_stage_versions :: "stage_version_row list"
  cg_prompts :: "prompt_version_row list"
  cg_label_sets :: "label_set_version_row list"
  cg_bindings :: "label_binding_row list"
  cg_label_definitions :: "label_definition_row list"
  cg_profiles :: "profile_version_row list"
  cg_images :: "image_asset_row list"
  cg_videos :: "video_asset_row list"
  cg_frames :: "video_frame_row list"

section \<open>Values of columns\<close>

text \<open>An enumeration applied to a value: the member with that value, or \<^verbatim>\<open>ValueError\<close>.\<close>

definition member_of :: "('a \<Rightarrow> string) \<Rightarrow> 'a list \<Rightarrow> string \<Rightarrow> 'a result" where
  "member_of value members s = (case find (\<lambda>x. value x = s) members of None \<Rightarrow> Inl ValueError | Some x \<Rightarrow> Inr x)"

fun version_status_value :: "version_status \<Rightarrow> string" where
  "version_status_value DRAFT = ''draft''"
| "version_status_value PUBLISHED = ''published''"
| "version_status_value ARCHIVED = ''archived''"

fun visual_composition_value :: "visual_composition_policy \<Rightarrow> string" where
  "visual_composition_value RAW = ''raw''"
| "visual_composition_value CONTACT_SHEET = ''contact_sheet''"
| "visual_composition_value ADAPTIVE = ''adaptive''"

definition version_status_of :: "string \<Rightarrow> version_status result" where
  "version_status_of = member_of version_status_value [DRAFT, PUBLISHED, ARCHIVED]"

definition label_scope_of :: "string \<Rightarrow> label_scope result" where
  "label_scope_of = member_of scope_value [GLOBAL, MEDIA]"

definition execution_mode_of :: "string \<Rightarrow> execution_mode result" where
  "execution_mode_of = member_of execution_mode_value [BATCH_MESSAGES, SINGLE_MESSAGE, PER_ASSET, BATCH_ASSETS]"

definition visual_composition_of :: "string \<Rightarrow> visual_composition_policy result" where
  "visual_composition_of = member_of visual_composition_value [RAW, CONTACT_SHEET, ADAPTIVE]"

definition cache_policy_of :: "string \<Rightarrow> cache_policy result" where
  "cache_policy_of = member_of cache_policy_value [CACHE_NONE, CACHE_MESSAGE, CACHE_MESSAGE_VISUAL, CACHE_ASSET]"

definition output_mode_of :: "pyval \<Rightarrow> structured_output_mode result" where
  "output_mode_of v =
     (case v of PStr s \<Rightarrow> member_of structured_output_mode_value [DENSE_SCORES, SPARSE_MATCHES] s | _ \<Rightarrow> Inl ValueError)"

text \<open>\<^verbatim>\<open>bool(value)\<close> and \<^verbatim>\<open>int(value)\<close> of a JSON value.\<close>

fun truthy :: "pyval \<Rightarrow> bool" where
  "truthy PNone = False"
| "truthy (PBool b) = b"
| "truthy (PInt i) = (i \<noteq> 0)"
| "truthy (PFloat f) = (f \<noteq> Fin 0)"
| "truthy (PStr s) = (s \<noteq> [])"
| "truthy (PList xs) = (xs \<noteq> [])"
| "truthy (PTuple xs) = (xs \<noteq> [])"
| "truthy (PDict d) = (d \<noteq> [])"

fun decimal_digits :: "int \<Rightarrow> string \<Rightarrow> int option" where
  "decimal_digits n [] = Some n"
| "decimal_digits n (c # s) =
     (if ascii_digit c then decimal_digits (10 * n + (of_char c - 48)) s
      else if c = CHR ''_'' \<and> s \<noteq> [] \<and> ascii_digit (hd s) then decimal_digits n s
      else None)"

definition signed_text :: "string \<Rightarrow> int \<times> string" where
  "signed_text s = (case s of [] \<Rightarrow> (1, s) | c # t \<Rightarrow> if c = CHR ''-'' then (-1, t) else if c = CHR ''+'' then (1, t) else (1, s))"

definition int_of_text :: "string \<Rightarrow> int result" where
  "int_of_text s =
     (let (sign, digits) = signed_text (py_strip s)
      in if digits = [] \<or> \<not> ascii_digit (hd digits) then Inl ValueError
         else case decimal_digits 0 digits of None \<Rightarrow> Inl ValueError | Some n \<Rightarrow> Inr (sign * n))"

definition int_of_value :: "pyval \<Rightarrow> int result" where
  "int_of_value v =
     (case v of
        PInt i \<Rightarrow> Inr i
      | PBool b \<Rightarrow> Inr (if b then 1 else 0)
      | PFloat (Fin q) \<Rightarrow> Inr (if 0 \<le> q then \<lfloor>q\<rfloor> else \<lceil>q\<rceil>)
      | PFloat NaN \<Rightarrow> Inl ValueError
      | PFloat _ \<Rightarrow> Inl OverflowError
      | PStr s \<Rightarrow> int_of_text s
      | _ \<Rightarrow> Inl TypeError)"

definition get_or :: "(string, pyval) dict \<Rightarrow> string \<Rightarrow> pyval \<Rightarrow> pyval" where
  "get_or d k x = (case map_of d k of None \<Rightarrow> x | Some v \<Rightarrow> v)"

definition flag :: "(string, pyval) dict \<Rightarrow> string \<Rightarrow> bool" where
  "flag d k = truthy (get_or d k (PBool False))"

section \<open>The stage from its rows\<close>

definition label_of_row :: "label_definition_row \<Rightarrow> label_definition_version result" where
  "label_of_row l =
     try_bind (label_scope_of (dr_scope l)) (\<lambda>scope.
     try_bind (version_status_of (dr_state l)) (\<lambda>status.
       check_label_definition \<lparr>ld_version_id = dr_id l, ld_definition_id = dr_label_definition_id l,
         ld_version_number = dr_version_number l, ld_key = dr_key l, ld_display_name = dr_display_name l,
         ld_description = dr_description l, ld_scope = scope, ld_negative = dr_negative l, ld_enabled = dr_enabled l,
         ld_status = status\<rparr>))"

definition binding_of_rows :: "label_binding_row \<times> label_definition_row \<Rightarrow> label_binding result" where
  "binding_of_rows b =
     try_bind (label_of_row (snd b)) (\<lambda>label.
       make_label_binding label (PFloat (br_activation_threshold (fst b))) (br_output_order (fst b)) (br_prompt_hint (fst b)))"

definition prompt_of_row :: "prompt_version_row \<Rightarrow> prompt_template result" where
  "prompt_of_row p =
     try_bind (version_status_of (pr_state p)) (\<lambda>status.
       check_prompt_template \<lparr>pt_version_id = pr_id p, pt_prompt_template_id = pr_prompt_template_id p,
         pt_version_number = pr_version_number p, pt_system_prompt = pr_system_prompt p,
         pt_user_prompt_template = pr_user_prompt_template p, pt_declared_variables = pr_declared_variables p,
         pt_status = status\<rparr>)"

definition label_set_of_row :: "label_set_version_row \<Rightarrow> label_binding list \<Rightarrow> label_set_version result" where
  "label_set_of_row s bindings =
     try_bind (version_status_of (lr_state s)) (\<lambda>status.
       check_label_set \<lparr>ls_version_id = lr_id s, ls_label_set_id = lr_label_set_id s,
         ls_version_number = lr_version_number s, ls_bindings = bindings, ls_status = status\<rparr>)"

definition profile_of_row :: "(string \<Rightarrow> bool) \<Rightarrow> profile_version_row \<Rightarrow> inference_profile result" where
  "profile_of_row host_ok p =
     try_bind (version_status_of (fr_state p)) (\<lambda>status.
       check_inference_profile host_ok \<lparr>ip_version_id = fr_id p, ip_inference_profile_id = fr_inference_profile_id p,
         ip_version_number = fr_version_number p, ip_provider_adapter = fr_provider_adapter p, ip_base_url = fr_base_url p,
         ip_model_name = fr_model_name p, ip_api_secret_reference = fr_api_secret_reference p,
         ip_capabilities = fr_capabilities p, ip_timeout_seconds = PFloat (fr_timeout_seconds p),
         ip_max_concurrency = fr_max_concurrency p, ip_max_images = fr_max_images p,
         ip_max_input_tokens = fr_max_input_tokens p, ip_structured_output_support = fr_structured_output_support p,
         ip_sampling_parameters = fr_sampling_parameters p, ip_status = status\<rparr>)"

definition output_policy_of :: "(string, pyval) dict \<Rightarrow> structured_output_policy result" where
  "output_policy_of d =
     try_bind (output_mode_of (get_or d ''mode'' (PStr ''dense_scores''))) (\<lambda>mode.
       Inr \<lparr>op_mode = mode, op_include_reason = flag d ''include_reason'', op_include_evidence = flag d ''include_evidence''\<rparr>)"

definition input_policy_of :: "(string, pyval) dict \<Rightarrow> stage_input_policy result" where
  "input_policy_of d = check_stage_input_policy
     \<lparr>si_text = flag d ''text'', si_telegram_metadata = flag d ''telegram_metadata'', si_media = flag d ''media'',
      si_previous_results = flag d ''previous_results'', si_source_channel_context = flag d ''source_channel_context''\<rparr>"

definition retry_policy_of :: "(string, pyval) dict \<Rightarrow> stage_retry_policy result" where
  "retry_policy_of d =
     try_bind (int_of_value (get_or d ''max_attempts'' (PInt 3))) (\<lambda>attempts.
     try_bind (int_of_value (get_or d ''base_delay_seconds'' (PInt 5))) (\<lambda>base.
     try_bind (int_of_value (get_or d ''max_delay_seconds'' (PInt 300))) (\<lambda>longest.
       check_stage_retry_policy
         \<lparr>sr_max_attempts = attempts, sr_base_delay_seconds = base, sr_max_delay_seconds = longest\<rparr>)))"

definition stage_from_records ::
  "(string \<Rightarrow> bool) \<Rightarrow> stage_version_row \<Rightarrow> prompt_version_row \<Rightarrow> label_set_version_row \<Rightarrow> profile_version_row
     \<Rightarrow> (label_binding_row \<times> label_definition_row) list \<Rightarrow> analysis_stage_template_version result" where
  "stage_from_records host_ok stage prompt labels profile bindings =
     try_bind (traverse binding_of_rows bindings) (\<lambda>label_bindings.
     try_bind (label_scope_of (vr_target_scope stage)) (\<lambda>scope.
     try_bind (execution_mode_of (vr_execution_mode stage)) (\<lambda>mode.
     try_bind (prompt_of_row prompt) (\<lambda>prompt_version.
     try_bind (label_set_of_row labels label_bindings) (\<lambda>label_set.
     try_bind (output_policy_of (vr_structured_output_policy stage)) (\<lambda>output_policy.
     try_bind (input_policy_of (vr_input_policy stage)) (\<lambda>input_policy.
     try_bind (visual_composition_of (vr_visual_composition_policy stage)) (\<lambda>visual.
     try_bind (profile_of_row host_ok profile) (\<lambda>inference_profile.
     try_bind (cache_policy_of (vr_cache_policy stage)) (\<lambda>cache.
     try_bind (retry_policy_of (vr_retry_policy stage)) (\<lambda>retry.
     try_bind (version_status_of (vr_state stage)) (\<lambda>status.
       check_stage_template \<lparr>st_version_id = vr_id stage, st_stage_template_id = vr_analysis_stage_template_id stage,
         st_version_number = vr_version_number stage, st_name = vr_name stage, st_target_scope = scope,
         st_execution_mode = mode, st_prompt = prompt_version, st_label_set = label_set,
         st_structured_output_policy = output_policy, st_input_policy = input_policy,
         st_visual_composition_policy = visual, st_inference_profile = inference_profile, st_cache_policy = cache,
         st_timeout_seconds = PFloat (vr_timeout_seconds stage), st_retry_policy = retry,
         st_max_batch_size = vr_max_batch_size stage, st_max_concurrency = vr_max_concurrency stage,
         st_status = status\<rparr>))))))))))))"

section \<open>Media and earlier results\<close>

definition int_or_null :: "int option \<Rightarrow> pyval" where
  "int_or_null x = (case x of None \<Rightarrow> PNone | Some i \<Rightarrow> PInt i)"

definition image_manifest :: "image_asset_row \<Rightarrow> (string, pyval) dict" where
  "image_manifest i =
     [(''kind'', PStr ''image''), (''asset_id'', PStr (as_id i)), (''storage_backend'', text_or_null (im_storage_backend i)),
      (''storage_key'', text_or_null (im_storage_key i)), (''content_type'', text_or_null (im_content_type i)),
      (''width'', int_or_null (im_width i)), (''height'', int_or_null (im_height i)),
      (''source_sha256'', text_or_null (as_source_sha256 i)), (''archive_sha256'', text_or_null (im_archive_sha256 i)),
      (''perceptual_hash'', text_or_null (im_perceptual_hash i)),
      (''archive_size_bytes'', int_or_null (im_archive_size_bytes i))]"

definition frame_manifest :: "video_frame_row \<Rightarrow> pyval" where
  "frame_manifest f = PDict
     [(''frame_role'', PStr (vf_frame_role f)), (''frame_index'', PInt (vf_frame_index f)),
      (''timestamp_seconds'', PFloat (vf_timestamp_seconds f)), (''storage_backend'', PStr (vf_storage_backend f)),
      (''storage_key'', PStr (vf_storage_key f)), (''content_type'', PStr (vf_content_type f)),
      (''width'', PInt (vf_width f)), (''height'', PInt (vf_height f)), (''source_sha256'', PStr (vf_source_sha256 f)),
      (''archive_sha256'', PStr (vf_archive_sha256 f)), (''perceptual_hash'', PStr (vf_perceptual_hash f)),
      (''archive_size_bytes'', PInt (vf_archive_size_bytes f))]"

definition video_manifest :: "video_frame_row list \<Rightarrow> video_asset_row \<Rightarrow> (string, pyval) dict" where
  "video_manifest frames v =
     [(''kind'', PStr ''video''), (''asset_id'', PStr (as_id v)),
      (''source_content_type'', text_or_null (vi_source_content_type v)),
      (''source_size_bytes'', int_or_null (vi_source_size_bytes v)), (''source_sha256'', text_or_null (as_source_sha256 v)),
      (''duration_seconds'', (case vi_duration_seconds v of None \<Rightarrow> PNone | Some d \<Rightarrow> PFloat d)),
      (''source_width'', int_or_null (vi_source_width v)), (''source_height'', int_or_null (vi_source_height v)),
      (''frames'', PList (map frame_manifest frames))]"

definition frames_of_video :: "video_frame_row list \<Rightarrow> uuid \<Rightarrow> video_frame_row list" where
  "frames_of_video frames i =
     sort_key (\<lambda>f. (vf_frame_role f, vf_frame_index f)) (filter (\<lambda>f. vf_video_asset_id f = i) frames)"

definition media_images :: "analysis_catalog \<Rightarrow> stage_row \<Rightarrow> uuid \<Rightarrow> image_asset_row list" where
  "media_images g r message =
     sort_key as_id (filter (\<lambda>i. as_message_id i = message \<and> as_state i = A_READY
       \<and> sg_target_kind r \<noteq> ''video_asset'' \<and> (sg_target_kind r = ''image_asset'' \<longrightarrow> sg_image_asset_id r = Some (as_id i)))
       (cg_images g))"

definition media_videos :: "analysis_catalog \<Rightarrow> stage_row \<Rightarrow> uuid \<Rightarrow> video_asset_row list" where
  "media_videos g r message =
     sort_key as_id (filter (\<lambda>v. as_message_id v = message \<and> as_state v = A_READY
       \<and> sg_target_kind r \<noteq> ''image_asset'' \<and> (sg_target_kind r = ''video_asset'' \<longrightarrow> sg_video_asset_id r = Some (as_id v)))
       (cg_videos g))"

definition load_media_snapshot ::
  "analysis_catalog \<Rightarrow> stage_row \<Rightarrow> message_row \<Rightarrow> (string, pyval) dict list \<times> string option" where
  "load_media_snapshot g r m =
     (let images = media_images g r (ms_id m); videos = media_videos g r (ms_id m)
      in (map image_manifest images @ map (\<lambda>v. video_manifest (frames_of_video (cg_frames g) (as_id v)) v) videos,
          if sg_target_kind r = ''image_asset''
          then (case images of [] \<Rightarrow> None
                | i # _ \<Rightarrow> if or_empty (im_archive_sha256 i) \<noteq> [] then im_archive_sha256 i else im_perceptual_hash i)
          else if sg_target_kind r = ''video_asset''
          then (case videos of [] \<Rightarrow> None | v # _ \<Rightarrow> as_source_sha256 v)
          else ms_visual_fingerprint m))"

definition earlier_stage :: "stage_row \<Rightarrow> stage_row \<Rightarrow> bool" where
  "earlier_stage r x \<longleftrightarrow> sg_analysis_run_id x = sg_analysis_run_id r \<and> sg_message_id x = sg_message_id r
     \<and> sg_id x \<noteq> sg_id r \<and> sg_status x = S_SUCCEEDED \<and> sg_parsed_result x \<noteq> None"

definition add_stage_result ::
  "(string \<Rightarrow> bool) \<Rightarrow> stage_row \<Rightarrow> (string, (string, pyval) dict) dict \<Rightarrow> (string, (string, pyval) dict) dict" where
  "add_stage_result host_ok x results =
     (let key = sg_stage_version_id x
      in dict_set key (dict_set (sg_target_id x) (sanitize_json host_ok (the (sg_parsed_result x)))
           (or_empty (map_of results key))) results)"

definition load_previous_results ::
  "(string \<Rightarrow> bool) \<Rightarrow> stage_row \<Rightarrow> (string, pyval) dict \<Rightarrow> stage_row list \<Rightarrow> (string, pyval) dict" where
  "load_previous_results host_ok r facts stages =
     [(''facts_snapshot'', sanitize_json host_ok (PDict facts)),
      (''stage_results'', PDict (map (\<lambda>(k, d). (k, PDict d))
         (fold (add_stage_result host_ok) (sort_key completion_order (filter (earlier_stage r) stages)) [])))]"

section \<open>The snapshot of a claim\<close>

record snapshot_rows =
  sw_stage :: stage_row
  sw_run :: analysis_run_row
  sw_message :: message_row
  sw_channel :: channel_row
  sw_version :: stage_version_row
  sw_prompt :: prompt_version_row
  sw_label_set :: label_set_version_row
  sw_profile :: profile_version_row

text \<open>The joined query: rows by their keys, none missing.\<close>

definition find_by :: "('a \<Rightarrow> uuid) \<Rightarrow> uuid \<Rightarrow> 'a list \<Rightarrow> 'a option" where
  "find_by key i rows = find (\<lambda>r. key r = i) rows"

definition select_snapshot_rows ::
  "analysis_catalog \<Rightarrow> uuid \<Rightarrow> uuid \<Rightarrow> analysis_db \<Rightarrow> snapshot_rows option" where
  "select_snapshot_rows g i token db =
     Option.bind (find (\<lambda>r. sg_id r = i \<and> sg_status r = S_RUNNING \<and> sg_lease_token r = Some token) (ab_stages db)) (\<lambda>r.
     Option.bind (find_run (sg_analysis_run_id r) db) (\<lambda>run.
     Option.bind (find_by ms_id (sg_message_id r) (ab_messages db)) (\<lambda>message.
     Option.bind (find_by ch_id (ms_source_channel_id message) (cg_channels g)) (\<lambda>channel.
     Option.bind (find_by vr_id (sg_stage_version_id r) (cg_stage_versions g)) (\<lambda>version.
     Option.bind (find_by pr_id (vr_prompt_template_version_id version) (cg_prompts g)) (\<lambda>prompt.
     Option.bind (find_by lr_id (vr_label_set_version_id version) (cg_label_sets g)) (\<lambda>labels.
     Option.bind (find_by fr_id (vr_inference_profile_version_id version) (cg_profiles g)) (\<lambda>profile.
       Some \<lparr>sw_stage = r, sw_run = run, sw_message = message, sw_channel = channel, sw_version = version,
         sw_prompt = prompt, sw_label_set = labels, sw_profile = profile\<rparr>))))))))"

definition joined_bindings :: "analysis_catalog \<Rightarrow> uuid \<Rightarrow> (label_binding_row \<times> label_definition_row) list" where
  "joined_bindings g label_set =
     List.map_filter (\<lambda>b. map_option (\<lambda>l. (b, l)) (find_by dr_id (br_label_definition_version_id b) (cg_label_definitions g)))
       (sort_key (\<lambda>b. (br_output_order b, br_id b)) (filter (\<lambda>b. br_label_set_version_id b = label_set) (cg_bindings g)))"

definition target_of_rows ::
  "(string \<Rightarrow> bool) \<Rightarrow> analysis_catalog \<Rightarrow> claimed_stage_run \<Rightarrow> snapshot_rows \<Rightarrow> stage_row list \<Rightarrow> target_snapshot" where
  "target_of_rows host_ok g c w stages =
     (let r = sw_stage w; (media, identity) = load_media_snapshot g r (sw_message w)
      in \<lparr>ts_stage_run_id = sg_id r, ts_lease_token = cs_lease_token c, ts_target_id = sg_target_id r,
          ts_message_id = sg_message_id r, ts_target_kind = sg_target_kind r,
          ts_asset_id = (if sg_target_kind r \<noteq> ''message'' then Some (sg_target_id r) else None),
          ts_text = ms_original_text (sw_message w),
          ts_telegram_metadata = (case sanitize_json host_ok (PDict (ms_telegram_metadata (sw_message w))) of
             PDict d \<Rightarrow> Some d | _ \<Rightarrow> None),
          ts_media = media,
          ts_previous_results = Some (load_previous_results host_ok r (an_facts_snapshot (sw_run w)) stages),
          ts_visual_identity = identity\<rparr>)"

definition load_stage_snapshot ::
  "(string \<Rightarrow> bool) \<Rightarrow> analysis_catalog \<Rightarrow> claimed_stage_run \<Rightarrow> analysis_db \<Rightarrow> stage_snapshot result" where
  "load_stage_snapshot host_ok g c db =
     try_bind (uuid_or_value_error (cs_stage_run_id c)) (\<lambda>i.
     try_bind (uuid_or_value_error (cs_lease_token c)) (\<lambda>token.
       case select_snapshot_rows g i token db of
         None \<Rightarrow> fail ''analysis stage run lease is no longer active''
       | Some w \<Rightarrow>
           try_bind (stage_from_records host_ok (sw_version w) (sw_prompt w) (sw_label_set w) (sw_profile w)
               (joined_bindings g (lr_id (sw_label_set w)))) (\<lambda>stage.
             Inr \<lparr>sn_claim = c, sn_stage = stage, sn_targets = [target_of_rows host_ok g c w (ab_stages db)],
               sn_source_channel_context =
                 [(''source_channel_id'', PStr (ch_id (sw_channel w))),
                  (''telegram_peer_id'', PInt (ch_telegram_peer_id (sw_channel w))),
                  (''username'', text_or_null (ch_username (sw_channel w))),
                  (''display_name'', PStr (ch_display_name (sw_channel w)))]\<rparr>)))"

section \<open>What a snapshot shows\<close>

text \<open>The result shown under a stage version for a target.\<close>

definition shown_result :: "(string, (string, pyval) dict) dict \<Rightarrow> uuid \<Rightarrow> uuid \<Rightarrow> pyval option" where
  "shown_result results version target = Option.bind (map_of results version) (\<lambda>d. map_of d target)"

definition result_of :: "uuid \<Rightarrow> uuid \<Rightarrow> stage_row \<Rightarrow> bool" where
  "result_of version target x \<longleftrightarrow> sg_stage_version_id x = version \<and> sg_target_id x = target"

lemma shown_result_add:
  "shown_result (add_stage_result host_ok x results) version target =
     (if result_of version target x then Some (sanitize_json host_ok (the (sg_parsed_result x))) else shown_result results version target)"
  by (auto simp: shown_result_def result_of_def add_stage_result_def Let_def map_of_dict_set or_empty_def split: option.split)

text \<open>Later rows replace earlier ones, so the last one counts.\<close>

lemma shown_result_fold:
  "shown_result (fold (add_stage_result host_ok) xs results) version target =
     (case find (result_of version target) (rev xs) of
        Some x \<Rightarrow> Some (sanitize_json host_ok (the (sg_parsed_result x)))
      | None \<Rightarrow> shown_result results version target)"
proof (induction xs rule: rev_induct)
  case (snoc x xs)
  then show ?case by (simp add: shown_result_add)
qed simp

lemma find_last_sorted:
  assumes "sorted (map f xs)" and "find P (rev xs) = Some x"
  shows "x \<in> set xs \<and> P x \<and> (\<forall>y \<in> set xs. P y \<longrightarrow> f y \<le> f x)"
  using assms
proof (induction xs rule: rev_induct)
  case (snoc z zs)
  then show ?case by (cases "P z") (auto simp: sorted_append)
qed simp

lemma shown_result_last:
  assumes "results = fold (add_stage_result host_ok) (sort_key completion_order (filter Q rows)) []"
  shows "case shown_result results version target of
      None \<Rightarrow> \<forall>x \<in> set rows. Q x \<longrightarrow> \<not> result_of version target x
    | Some v \<Rightarrow> \<exists>x \<in> set rows. Q x \<and> result_of version target x \<and> v = sanitize_json host_ok (the (sg_parsed_result x))
        \<and> (\<forall>y \<in> set rows. Q y \<and> result_of version target y \<longrightarrow> completion_order y \<le> completion_order x)"
proof (cases "find (result_of version target) (rev (sort_key completion_order (filter Q rows)))")
  case None
  then have "shown_result results version target = None" unfolding assms shown_result_fold None by (simp add: shown_result_def)
  with None show ?thesis by (auto simp: find_None_iff)
next
  case (Some x)
  with find_last_sorted [OF sorted_sort_key Some] show ?thesis
    by (auto simp: assms shown_result_fold intro!: bexI [of _ x])
qed

lemma load_stage_snapshotE:
  assumes "load_stage_snapshot host_ok g c db = Inr s"
  obtains i token w stage where "uuid_or_value_error (cs_stage_run_id c) = Inr i"
    "uuid_or_value_error (cs_lease_token c) = Inr token" "select_snapshot_rows g i token db = Some w"
    "sw_stage w \<in> set (ab_stages db)" "sg_id (sw_stage w) = i" "sg_status (sw_stage w) = S_RUNNING"
    "sg_lease_token (sw_stage w) = Some token" "ms_id (sw_message w) = sg_message_id (sw_stage w)"
    "sn_claim s = c" "sn_stage s = stage" "sn_targets s = [target_of_rows host_ok g c w (ab_stages db)]"
proof -
  from assms obtain i token w stage where s: "uuid_or_value_error (cs_stage_run_id c) = Inr i"
      "uuid_or_value_error (cs_lease_token c) = Inr token" "select_snapshot_rows g i token db = Some w"
      "sn_claim s = c" "sn_stage s = stage" "sn_targets s = [target_of_rows host_ok g c w (ab_stages db)]"
    by (auto simp: load_stage_snapshot_def elim!: try_bindE split: option.splits)
  from s(3) have "find (\<lambda>r. sg_id r = i \<and> sg_status r = S_RUNNING \<and> sg_lease_token r = Some token) (ab_stages db) = Some (sw_stage w)"
    "find_by ms_id (sg_message_id (sw_stage w)) (ab_messages db) = Some (sw_message w)"
    by (auto simp: select_snapshot_rows_def bind_eq_Some_conv)
  then have "sw_stage w \<in> set (ab_stages db) \<and> sg_id (sw_stage w) = i \<and> sg_status (sw_stage w) = S_RUNNING
      \<and> sg_lease_token (sw_stage w) = Some token \<and> ms_id (sw_message w) = sg_message_id (sw_stage w)"
    by (auto simp: find_by_def find_Some_iff)
  with s that show thesis by blast
qed

lemma load_stage_snapshot_rows:
  assumes "load_stage_snapshot host_ok g c db = Inr s"
  obtains i token w where "uuid_or_value_error (cs_stage_run_id c) = Inr i"
    "uuid_or_value_error (cs_lease_token c) = Inr token" "sw_stage w \<in> set (ab_stages db)"
    "sg_id (sw_stage w) = i" "sg_status (sw_stage w) = S_RUNNING" "sg_lease_token (sw_stage w) = Some token"
    "sw_run w \<in> set (ab_runs db)" "an_id (sw_run w) = sg_analysis_run_id (sw_stage w)"
    "sw_message w \<in> set (ab_messages db)" "ms_id (sw_message w) = sg_message_id (sw_stage w)"
    "sw_channel w \<in> set (cg_channels g)" "ch_id (sw_channel w) = ms_source_channel_id (sw_message w)"
    "sn_claim s = c" "sn_targets s = [target_of_rows host_ok g c w (ab_stages db)]"
    "sn_source_channel_context s = [(''source_channel_id'', PStr (ch_id (sw_channel w))),
       (''telegram_peer_id'', PInt (ch_telegram_peer_id (sw_channel w))),
       (''username'', text_or_null (ch_username (sw_channel w))), (''display_name'', PStr (ch_display_name (sw_channel w)))]"
proof -
  from assms obtain i token w where s: "uuid_or_value_error (cs_stage_run_id c) = Inr i"
      "uuid_or_value_error (cs_lease_token c) = Inr token" "select_snapshot_rows g i token db = Some w"
      "sn_claim s = c" "sn_targets s = [target_of_rows host_ok g c w (ab_stages db)]"
      "sn_source_channel_context s = [(''source_channel_id'', PStr (ch_id (sw_channel w))),
       (''telegram_peer_id'', PInt (ch_telegram_peer_id (sw_channel w))),
       (''username'', text_or_null (ch_username (sw_channel w))), (''display_name'', PStr (ch_display_name (sw_channel w)))]"
    by (auto simp: load_stage_snapshot_def elim!: try_bindE split: option.splits)
  from s(3) have "find (\<lambda>r. sg_id r = i \<and> sg_status r = S_RUNNING \<and> sg_lease_token r = Some token) (ab_stages db) = Some (sw_stage w)"
    "find_by ms_id (sg_message_id (sw_stage w)) (ab_messages db) = Some (sw_message w)"
    "find_run (sg_analysis_run_id (sw_stage w)) db = Some (sw_run w)"
    "find_by ch_id (ms_source_channel_id (sw_message w)) (cg_channels g) = Some (sw_channel w)"
    by (auto simp: select_snapshot_rows_def bind_eq_Some_conv)
  then have "sw_stage w \<in> set (ab_stages db) \<and> sg_id (sw_stage w) = i \<and> sg_status (sw_stage w) = S_RUNNING
      \<and> sg_lease_token (sw_stage w) = Some token" "sw_run w \<in> set (ab_runs db) \<and> an_id (sw_run w) = sg_analysis_run_id (sw_stage w)"
      "sw_message w \<in> set (ab_messages db) \<and> ms_id (sw_message w) = sg_message_id (sw_stage w)"
      "sw_channel w \<in> set (cg_channels g) \<and> ch_id (sw_channel w) = ms_source_channel_id (sw_message w)"
    by (auto simp: find_by_def find_run_def find_Some_iff)
  with s that show thesis by blast
qed

text \<open>
  The stage runs whose result is a result of a stage version for a target, as seen by the stage run
  \<open>r\<close>: the others of its run and message that succeeded with one.
\<close>

definition result_for :: "stage_row \<Rightarrow> uuid \<Rightarrow> uuid \<Rightarrow> stage_row \<Rightarrow> bool" where
  "result_for r version target x \<longleftrightarrow> sg_analysis_run_id x = sg_analysis_run_id r \<and> sg_message_id x = sg_message_id r
     \<and> sg_id x \<noteq> sg_id r \<and> sg_status x = S_SUCCEEDED \<and> sg_parsed_result x \<noteq> None
     \<and> sg_stage_version_id x = version \<and> sg_target_id x = target"

lemma result_for_eq: "result_for r version target x \<longleftrightarrow> earlier_stage r x \<and> result_of version target x"
  by (auto simp: result_for_def earlier_stage_def result_of_def)

text \<open>
  C11: A snapshot shows the claimed target and nothing else.  It is loaded only while the stage run is running
  under the token of the claim (whether the lease has expired is not asked here); it has one target, that of the
  stage run.  Text and redacted metadata are those of its message, the context that of the message's channel.
  Its media are exactly the ready images and videos of the message, in the order of their ids, restricted to
  the asset itself where the target is one, and its visual identity is that of the asset or message.  The
  earlier results are the redacted facts of its own run and, for each stage version and target, the redacted
  result of the last stage run of the same run and message that succeeded with one; none is left out.
\<close>

theorem snapshot_shows_claimed_target:
  assumes "load_stage_snapshot host_ok g c db = Inr s"
  shows "\<exists>r \<in> set (ab_stages db). \<exists>run \<in> set (ab_runs db). \<exists>m \<in> set (ab_messages db). \<exists>ch \<in> set (cg_channels g). \<exists>t images videos results.
    sn_claim s = c \<and> sn_targets s = [t] \<and> sg_status r = S_RUNNING
    \<and> uuid_or_value_error (cs_stage_run_id c) = Inr (sg_id r)
    \<and> (\<exists>token. uuid_or_value_error (cs_lease_token c) = Inr token \<and> sg_lease_token r = Some token)
    \<and> an_id run = sg_analysis_run_id r \<and> ms_id m = sg_message_id r \<and> ch_id ch = ms_source_channel_id m
    \<and> ts_stage_run_id t = sg_id r \<and> ts_target_id t = sg_target_id r \<and> ts_message_id t = sg_message_id r \<and> ts_target_kind t = sg_target_kind r
    \<and> ts_text t = ms_original_text m
    \<and> map_option PDict (ts_telegram_metadata t) = Some (sanitize_json host_ok (PDict (ms_telegram_metadata m)))
    \<and> sn_source_channel_context s = [(''source_channel_id'', PStr (ch_id ch)), (''telegram_peer_id'', PInt (ch_telegram_peer_id ch)),
         (''username'', text_or_null (ch_username ch)), (''display_name'', PStr (ch_display_name ch))]
    \<and> ts_media t = map image_manifest images @ map (\<lambda>v. video_manifest (frames_of_video (cg_frames g) (as_id v)) v) videos
    \<and> set images = {i \<in> set (cg_images g). as_message_id i = sg_message_id r \<and> as_state i = A_READY
         \<and> sg_target_kind r \<noteq> ''video_asset'' \<and> (sg_target_kind r = ''image_asset'' \<longrightarrow> sg_image_asset_id r = Some (as_id i))}
    \<and> set videos = {v \<in> set (cg_videos g). as_message_id v = sg_message_id r \<and> as_state v = A_READY
         \<and> sg_target_kind r \<noteq> ''image_asset'' \<and> (sg_target_kind r = ''video_asset'' \<longrightarrow> sg_video_asset_id r = Some (as_id v))}
    \<and> sorted (map as_id images) \<and> sorted (map as_id videos)
    \<and> ts_visual_identity t =
        (if sg_target_kind r = ''image_asset''
         then (case images of [] \<Rightarrow> None
               | i # _ \<Rightarrow> if or_empty (im_archive_sha256 i) \<noteq> [] then im_archive_sha256 i else im_perceptual_hash i)
         else if sg_target_kind r = ''video_asset'' then (case videos of [] \<Rightarrow> None | v # _ \<Rightarrow> as_source_sha256 v)
         else ms_visual_fingerprint m)
    \<and> ts_previous_results t = Some [(''facts_snapshot'', sanitize_json host_ok (PDict (an_facts_snapshot run))),
         (''stage_results'', PDict (map (\<lambda>(k, d). (k, PDict d)) results))]
    \<and> (\<forall>version target. case shown_result results version target of
          None \<Rightarrow> \<forall>x \<in> set (ab_stages db). \<not> result_for r version target x
        | Some v \<Rightarrow> \<exists>x \<in> set (ab_stages db). result_for r version target x
            \<and> v = sanitize_json host_ok (the (sg_parsed_result x))
            \<and> (\<forall>y \<in> set (ab_stages db). result_for r version target y \<longrightarrow> completion_order y \<le> completion_order x))"
proof -
  from assms obtain i token w where w: "uuid_or_value_error (cs_stage_run_id c) = Inr i"
    "uuid_or_value_error (cs_lease_token c) = Inr token" "sw_stage w \<in> set (ab_stages db)"
    "sg_id (sw_stage w) = i" "sg_status (sw_stage w) = S_RUNNING" "sg_lease_token (sw_stage w) = Some token"
    "sw_run w \<in> set (ab_runs db)" "an_id (sw_run w) = sg_analysis_run_id (sw_stage w)"
    "sw_message w \<in> set (ab_messages db)" "ms_id (sw_message w) = sg_message_id (sw_stage w)"
    "sw_channel w \<in> set (cg_channels g)" "ch_id (sw_channel w) = ms_source_channel_id (sw_message w)"
    "sn_claim s = c" "sn_targets s = [target_of_rows host_ok g c w (ab_stages db)]"
    "sn_source_channel_context s = [(''source_channel_id'', PStr (ch_id (sw_channel w))),
       (''telegram_peer_id'', PInt (ch_telegram_peer_id (sw_channel w))),
       (''username'', text_or_null (ch_username (sw_channel w))), (''display_name'', PStr (ch_display_name (sw_channel w)))]"
    by (rule load_stage_snapshot_rows) (rule that)
  define r t where "r = sw_stage w" and "t = target_of_rows host_ok g c w (ab_stages db)"
  define images videos where "images = media_images g r (sg_message_id r)" and "videos = media_videos g r (sg_message_id r)"
  define results where "results = fold (add_stage_result host_ok) (sort_key completion_order (filter (earlier_stage r) (ab_stages db))) []"
  have t: "ts_stage_run_id t = sg_id r" "ts_target_id t = sg_target_id r" "ts_message_id t = sg_message_id r"
    "ts_target_kind t = sg_target_kind r" "ts_text t = ms_original_text (sw_message w)"
    "map_option PDict (ts_telegram_metadata t) = Some (sanitize_json host_ok (PDict (ms_telegram_metadata (sw_message w))))"
    "ts_previous_results t = Some [(''facts_snapshot'', sanitize_json host_ok (PDict (an_facts_snapshot (sw_run w)))),
         (''stage_results'', PDict (map (\<lambda>(k, d). (k, PDict d)) results))]"
    by (simp_all add: t_def r_def results_def target_of_rows_def load_previous_results_def Let_def split: prod.split)
  have media: "ts_media t = map image_manifest images @ map (\<lambda>v. video_manifest (frames_of_video (cg_frames g) (as_id v)) v) videos"
    "ts_visual_identity t =
        (if sg_target_kind r = ''image_asset''
         then (case images of [] \<Rightarrow> None
               | i # _ \<Rightarrow> if or_empty (im_archive_sha256 i) \<noteq> [] then im_archive_sha256 i else im_perceptual_hash i)
         else if sg_target_kind r = ''video_asset'' then (case videos of [] \<Rightarrow> None | v # _ \<Rightarrow> as_source_sha256 v)
         else ms_visual_fingerprint (sw_message w))"
    by (simp_all only: t_def r_def images_def videos_def target_of_rows_def load_media_snapshot_def Let_def w(10) split_conv target_snapshot.select_convs)
  have sets: "set images = {i \<in> set (cg_images g). as_message_id i = sg_message_id r \<and> as_state i = A_READY
         \<and> sg_target_kind r \<noteq> ''video_asset'' \<and> (sg_target_kind r = ''image_asset'' \<longrightarrow> sg_image_asset_id r = Some (as_id i))}"
    "set videos = {v \<in> set (cg_videos g). as_message_id v = sg_message_id r \<and> as_state v = A_READY
         \<and> sg_target_kind r \<noteq> ''image_asset'' \<and> (sg_target_kind r = ''video_asset'' \<longrightarrow> sg_video_asset_id r = Some (as_id v))}"
    "sorted (map as_id images)" "sorted (map as_id videos)"
    by (simp_all add: images_def videos_def media_images_def media_videos_def)
  have last: "case shown_result results version target of
          None \<Rightarrow> \<forall>x \<in> set (ab_stages db). \<not> result_for r version target x
        | Some v \<Rightarrow> \<exists>x \<in> set (ab_stages db). result_for r version target x
            \<and> v = sanitize_json host_ok (the (sg_parsed_result x))
            \<and> (\<forall>y \<in> set (ab_stages db). result_for r version target y \<longrightarrow> completion_order y \<le> completion_order x)"
    for version target
    using shown_result_last [OF results_def, of version target] by (simp only: result_for_eq) (auto split: option.splits)
  note w' = w [folded r_def t_def]
  have lease: "uuid_or_value_error (cs_stage_run_id c) = Inr (sg_id r)"
    "\<exists>token. uuid_or_value_error (cs_lease_token c) = Inr token \<and> sg_lease_token r = Some token"
    using w'(1,2,4,6) by simp_all
  show ?thesis
    by (intro bexI [OF _ w'(3)] bexI [OF _ w'(7)] bexI [OF _ w'(9)] bexI [OF _ w'(11)]
          exI [of _ t] exI [of _ images] exI [of _ videos] exI [of _ results] conjI allI)
      (fact w' lease t media sets last)+
qed

section \<open>A sample snapshot\<close>

definition sample_id :: "string \<Rightarrow> uuid" where
  "sample_id d = ''00000000-0000-0000-0000-0000000000'' @ d"

definition sample_catalog :: analysis_catalog where
  "sample_catalog = \<lparr>
     cg_channels = [\<lparr>ch_id = uuid_text 3, ch_telegram_peer_id = 7, ch_username = None, ch_display_name = ''channel'',
       ch_default_read_identity_id = sample_id ''04'', ch_active_profile_version_id = None, ch_enabled = True,
       ch_last_activity_at = None, ch_latest_seen_message_id = None, ch_last_seen_message_id = None, ch_updated_at = 0\<rparr>],
     cg_stage_versions = [\<lparr>vr_id = uuid_text 50, vr_analysis_stage_template_id = sample_id ''33'', vr_version_number = 1,
       vr_state = ''published'', vr_name = ''screen'', vr_target_scope = ''global'', vr_execution_mode = ''batch_messages'',
       vr_prompt_template_version_id = sample_id ''34'', vr_label_set_version_id = sample_id ''35'',
       vr_structured_output_policy = [(''mode'', PStr ''dense_scores'')], vr_input_policy = [(''text'', PBool True)],
       vr_visual_composition_policy = ''raw'', vr_inference_profile_version_id = sample_id ''36'', vr_cache_policy = ''message'',
       vr_timeout_seconds = Fin 30, vr_retry_policy = [(''max_attempts'', PInt 3)], vr_max_batch_size = 8,
       vr_max_concurrency = 1\<rparr>],
     cg_prompts = [\<lparr>pr_id = sample_id ''34'', pr_prompt_template_id = sample_id ''37'', pr_version_number = 1,
       pr_state = ''published'', pr_system_prompt = ''Classify.'', pr_user_prompt_template = ''Text: {{ message_text }}'',
       pr_declared_variables = [''message_text'']\<rparr>],
     cg_label_sets = [\<lparr>lr_id = sample_id ''35'', lr_label_set_id = sample_id ''38'', lr_version_number = 1, lr_state = ''published''\<rparr>],
     cg_bindings = [\<lparr>br_id = sample_id ''39'', br_label_set_version_id = sample_id ''35'', br_label_definition_version_id = sample_id ''3a'',
       br_activation_threshold = Fin (1/2), br_prompt_hint = [], br_output_order = 1\<rparr>],
     cg_label_definitions = [\<lparr>dr_id = sample_id ''3a'', dr_label_definition_id = sample_id ''3b'', dr_version_number = 1,
       dr_state = ''published'', dr_key = ''spam'', dr_display_name = ''Spam'', dr_description = ''text'', dr_scope = ''global'',
       dr_negative = False, dr_enabled = True\<rparr>],
     cg_profiles = [\<lparr>fr_id = sample_id ''36'', fr_inference_profile_id = sample_id ''3d'', fr_version_number = 1,
       fr_state = ''published'', fr_provider_adapter = ''openai'', fr_base_url = ''http://localhost'', fr_model_name = ''model'',
       fr_api_secret_reference = ''key'', fr_capabilities = [], fr_timeout_seconds = Fin 30, fr_max_concurrency = 1,
       fr_max_images = 1, fr_max_input_tokens = 1000, fr_structured_output_support = True, fr_sampling_parameters = []\<rparr>],
     cg_images = [], cg_videos = [], cg_frames = []\<rparr>"

text \<open>With every row in place the snapshot is loaded, with all checks of the stage.\<close>

definition sample_loaded_stage :: analysis_stage_template_version where
  "sample_loaded_stage = projr (stage_from_records (\<lambda>h. True) (hd (cg_stage_versions sample_catalog))
     (hd (cg_prompts sample_catalog)) (hd (cg_label_sets sample_catalog)) (hd (cg_profiles sample_catalog))
     [(hd (cg_bindings sample_catalog), hd (cg_label_definitions sample_catalog))])"

lemma sample_loaded_stage:
  "stage_from_records (\<lambda>h. True) (hd (cg_stage_versions sample_catalog))
     (hd (cg_prompts sample_catalog)) (hd (cg_label_sets sample_catalog)) (hd (cg_profiles sample_catalog))
     [(hd (cg_bindings sample_catalog), hd (cg_label_definitions sample_catalog))] = Inr sample_loaded_stage"
  unfolding sample_loaded_stage_def by code_simp

lemma sample_bindings:
  "joined_bindings sample_catalog (lr_id (hd (cg_label_sets sample_catalog)))
     = [(hd (cg_bindings sample_catalog), hd (cg_label_definitions sample_catalog))]"
  by (simp add: joined_bindings_def sample_catalog_def sample_id_def find_by_def List.map_filter_simps)

text \<open>
  The second stage run of the formal run is claimed at 12, after the first has succeeded, with one image of
  its message in the archive and another still waiting for it.
\<close>

definition catalog_image :: "string \<Rightarrow> archive_state \<Rightarrow> image_asset_row" where
  "catalog_image i state = \<lparr>as_id = i, as_message_id = uuid_text 1, as_source_asset_id = ''photo'',
     as_source_telegram_message_id = Some 5, as_state = state, as_attempt_count = 1, as_max_attempts = 5,
     as_next_retry_at = None, as_lease_token = None, as_lease_expires_at = None, as_last_error_code = None,
     as_last_error_type = None, as_last_failure_at = None, as_ready_at = Some 3, as_deleted_at = None,
     as_source_sha256 = Some ''ab'', as_updated_at = 3, im_source_phash = None, im_perceptual_hash = Some ''12'',
     im_storage_backend = Some ''local'', im_storage_key = Some ''a.jpg'', im_content_type = Some ''image/jpeg'',
     im_width = Some 4, im_height = Some 3, im_archive_sha256 = Some ''cd'', im_archive_size_bytes = Some 9\<rparr>"

definition media_catalog :: analysis_catalog where
  "media_catalog = sample_catalog\<lparr>cg_images := [catalog_image (sample_id ''05'') A_READY, catalog_image (sample_id ''06'') A_PENDING]\<rparr>"

definition second_claim :: claimed_stage_run where "second_claim = sample_claim 22 11 ''formal'' 42 1"

definition second_stage :: stage_row where
  "second_stage = lease_stage (uuid_text 42) 12 10 (sample_stage_run 22 11)"

definition engine9 :: analysis_db where
  "engine9 = engine7\<lparr>ab_runs := [run_underway 5 (sample_run 10 ''test''), run_underway 12 (run_underway 8 (sample_run 11 ''formal''))],
     ab_stages := [test_stage3, formal_stage3, second_stage]\<rparr>"

lemma formal_stage3_columns:
  "sg_id formal_stage3 = uuid_text 21" "sg_status formal_stage3 = S_SUCCEEDED" "sg_analysis_run_id formal_stage3 = uuid_text 11"
  "sg_message_id formal_stage3 = uuid_text 1" "sg_stage_version_id formal_stage3 = uuid_text 50" "sg_target_id formal_stage3 = uuid_text 1"
  "sg_parsed_result formal_stage3 = Some (validated_result_document sample_result)"
  by (simp_all add: formal_stage3_def formal_stage2_def formal_stage1_def inferred_stage_def clear_stage_lease_def link_call_def
      lease_stage_def sample_stage_run_def)

lemma engine9: "claim_stage [] (uuid_text 42) (uuid_text 22) 12 10 engine7 = Inr (Some second_claim, engine9)"
  by (simp add: sample_defs claim_stage_def second_claim_def second_stage_def engine_defs engine6_def engine7_def engine9_def
      formal_stage3_columns due_stage_def terminal_run_statuses_def run_underway_def)

definition media_snapshot :: stage_snapshot where
  "media_snapshot = projr (load_stage_snapshot (\<lambda>h. True) media_catalog second_claim engine9)"

lemma media_rows:
  "\<exists>w. select_snapshot_rows media_catalog (uuid_text 22) (uuid_text 42) engine9 = Some w
     \<and> sw_version w = hd (cg_stage_versions sample_catalog) \<and> sw_prompt w = hd (cg_prompts sample_catalog)
     \<and> sw_label_set w = hd (cg_label_sets sample_catalog) \<and> sw_profile w = hd (cg_profiles sample_catalog)"
  by (simp add: select_snapshot_rows_def find_by_def media_catalog_def sample_catalog_def engine9_def engine7_def engine6_def engine_defs
      formal_stage3_columns second_stage_def lease_stage_def sample_analysis_message_def run_underway_def sample_id_def sample_defs)

lemma media_snapshot_loaded: "load_stage_snapshot (\<lambda>h. True) media_catalog second_claim engine9 = Inr media_snapshot"
proof -
  have c: "uuid_or_value_error (cs_stage_run_id second_claim) = Inr (uuid_text 22)"
    "uuid_or_value_error (cs_lease_token second_claim) = Inr (uuid_text 42)"
    by (simp_all add: second_claim_def sample_claim_def sample_uuid_parses)
  have b: "joined_bindings media_catalog l = joined_bindings sample_catalog l" for l
    by (simp add: joined_bindings_def media_catalog_def)
  from media_rows obtain w where w: "select_snapshot_rows media_catalog (uuid_text 22) (uuid_text 42) engine9 = Some w"
      "sw_version w = hd (cg_stage_versions sample_catalog)" "sw_prompt w = hd (cg_prompts sample_catalog)"
      "sw_label_set w = hd (cg_label_sets sample_catalog)" "sw_profile w = hd (cg_profiles sample_catalog)" by blast
  show ?thesis unfolding media_snapshot_def
    by (simp add: load_stage_snapshot_def c w b sample_bindings sample_loaded_stage)
qed

theorem snapshot_shows_claimed_target_witness:
  "\<exists>t images results. sn_targets media_snapshot = [t] \<and> ts_text t = Some ''sale''
     \<and> ts_media t = map image_manifest images \<and> set images = {catalog_image (sample_id ''05'') A_READY}
     \<and> ts_previous_results t = Some [(''facts_snapshot'', PDict []), (''stage_results'', PDict (map (\<lambda>(k, d). (k, PDict d)) results))]
     \<and> shown_result results (uuid_text 50) (uuid_text 1) \<noteq> None"
proof -
  from snapshot_shows_claimed_target [OF media_snapshot_loaded] obtain r run m t images videos results where
    s: "r \<in> set (ab_stages engine9)" "run \<in> set (ab_runs engine9)" "m \<in> set (ab_messages engine9)"
    and t: "sn_targets media_snapshot = [t]" "uuid_or_value_error (cs_stage_run_id second_claim) = Inr (sg_id r)"
      "ts_text t = ms_original_text m"
      "ts_media t = map image_manifest images @ map (\<lambda>v. video_manifest (frames_of_video (cg_frames media_catalog) (as_id v)) v) videos"
      "set images = {i \<in> set (cg_images media_catalog). as_message_id i = sg_message_id r \<and> as_state i = A_READY
         \<and> sg_target_kind r \<noteq> ''video_asset'' \<and> (sg_target_kind r = ''image_asset'' \<longrightarrow> sg_image_asset_id r = Some (as_id i))}"
      "set videos = {v \<in> set (cg_videos media_catalog). as_message_id v = sg_message_id r \<and> as_state v = A_READY
         \<and> sg_target_kind r \<noteq> ''image_asset'' \<and> (sg_target_kind r = ''video_asset'' \<longrightarrow> sg_video_asset_id r = Some (as_id v))}"
      "ts_previous_results t = Some [(''facts_snapshot'', sanitize_json (\<lambda>h. True) (PDict (an_facts_snapshot run))),
         (''stage_results'', PDict (map (\<lambda>(k, d). (k, PDict d)) results))]"
    and last: "case shown_result results (uuid_text 50) (uuid_text 1) of
          None \<Rightarrow> \<forall>x \<in> set (ab_stages engine9). \<not> result_for r (uuid_text 50) (uuid_text 1) x
        | Some v \<Rightarrow> \<exists>x \<in> set (ab_stages engine9). result_for r (uuid_text 50) (uuid_text 1) x
            \<and> v = sanitize_json (\<lambda>h. True) (the (sg_parsed_result x))
            \<and> (\<forall>y \<in> set (ab_stages engine9). result_for r (uuid_text 50) (uuid_text 1) y \<longrightarrow> completion_order y \<le> completion_order x)"
    by (elim bexE exE conjE allE) (rule that)
  have db: "ab_stages engine9 = [test_stage3, formal_stage3, second_stage]" "ab_messages engine9 = [sample_analysis_message]"
    by (simp_all add: engine9_def engine7_def engine6_def engine_defs engine0_def)
  have id: "sg_id second_stage = uuid_text 22" "sg_message_id second_stage = uuid_text 1" "sg_analysis_run_id second_stage = uuid_text 11"
    "sg_target_kind second_stage = ''message''"
    by (simp_all add: second_stage_def lease_stage_def sample_stage_run_def)
  have "sg_id r = uuid_text 22" using t(2) by (simp add: second_claim_def sample_claim_def sample_uuid_parses)
  with s(1) have r: "r = second_stage"
    by (auto simp: db test_stage3_columns formal_stage3_columns sample_uuid_eq)
  have body: "ms_original_text m = Some ''sale''" using s(3) by (simp add: db sample_analysis_message_def)
  have facts: "an_facts_snapshot run = []"
    using s(2) by (auto simp: engine9_def run_underway_def sample_run_def)
  have videos: "videos = []" using t(6) by (simp add: media_catalog_def sample_catalog_def)
  have images: "set images = {catalog_image (sample_id ''05'') A_READY}"
    unfolding t(5) r id by (auto simp: media_catalog_def catalog_image_def)
  have "result_for r (uuid_text 50) (uuid_text 1) formal_stage3"
    by (simp add: r result_for_def id formal_stage3_columns sample_uuid_eq)
  with last db have "shown_result results (uuid_text 50) (uuid_text 1) \<noteq> None" by (auto split: option.splits)
  with t(1,3,4,7) body facts videos images show ?thesis
    by (intro exI [of _ t] exI [of _ images] exI [of _ results]) simp
qed

end
