(* ===== verification/Analysis_Engine.thy ===== *)
theory Analysis_Engine
  imports Analysis_Sample
begin

text \<open>
  The analysis engine in motion: the transactions of its workers and of the dispatcher of wake-ups in any
  order, as a step relation on the tables, and what holds in every state they reach.

  No code of the repository inserts analysis runs or stage runs, so a run of the engine starts from any
  tables of new rows: pending runs, pending stage runs of those runs, and a pending wake-up for each.
\<close>

section \<open>Steps and reachable states\<close>

definition engine_wakeups :: "analysis_db \<Rightarrow> database" where
  "engine_wakeups db = \<lparr>channels = [], ranges = [], executions = [], wakeups = ab_wakeups db\<rparr>"

inductive analysis_step :: "(string \<Rightarrow> bool) \<Rightarrow> analysis_db \<Rightarrow> analysis_db \<Rightarrow> bool" for host_ok where
  dispatch: "claim_due locked tokens now duration limit (engine_wakeups db) = (ws, d) \<Longrightarrow>
    analysis_step host_ok db (db\<lparr>ab_wakeups := wakeups d\<rparr>)"
| settle: "release_claim wakeup_id token next_at now dispatched (engine_wakeups db) = (b, d) \<Longrightarrow>
    analysis_step host_ok db (db\<lparr>ab_wakeups := wakeups d\<rparr>)"
| claim: "claim_stage locked token stage_run_id now duration db = Inr (c, db') \<Longrightarrow> analysis_step host_ok db db'"
| start: "start_inference host_ok m i s manifest schema schema_hash key summary now db = Inr (x, db') \<Longrightarrow>
    analysis_step host_ok db db'"
| success: "record_inference_success host_ok call response now db = Inr (b, db') \<Longrightarrow> analysis_step host_ok db db'"
| failure: "record_inference_failure host_ok call failure now db = Inr (b, db') \<Longrightarrow> analysis_step host_ok db db'"
| commit: "commit_validated_targets fresh s call results now db = Inr (x, db') \<Longrightarrow> loaded db s \<Longrightarrow>
    distinct (map vt_target_id results) \<Longrightarrow> analysis_step host_ok db db'"
| reuse: "commit_cache_hit host_ok fresh m s manifest key hit now db = Inr (x, db') \<Longrightarrow> loaded db s \<Longrightarrow>
    analysis_step host_ok db db'"
| retry_targets: "retry_or_fail_targets s ids code ty retryable retry_at now db = Inr (b, db') \<Longrightarrow> distinct ids \<Longrightarrow>
    analysis_step host_ok db db'"
| retry_claim: "retry_or_fail_claim c code ty retryable retry_at now db = Inr (b, db') \<Longrightarrow> analysis_step host_ok db db'"
| gate: "apply_negative_gate rid assignments now db = Inr (b, db') \<Longrightarrow> analysis_step host_ok db db'"
| complete: "complete_analysis_run rid now db = Inr (b, db') \<Longrightarrow> analysis_step host_ok db db'"

definition new_stage :: "stage_row \<Rightarrow> bool" where
  "new_stage r \<longleftrightarrow> sg_status r = S_PENDING \<and> sg_attempt_count r = 0 \<and> 0 < sg_max_attempts r
     \<and> sg_next_retry_at r = None \<and> sg_lease_token r = None \<and> sg_lease_expires_at r = None
     \<and> sg_input_manifest_id r = None \<and> sg_inference_call_id r = None \<and> sg_parsed_result r = None
     \<and> sg_cache_policy r = ''none'' \<and> sg_semantic_cache_key r = None \<and> sg_result_origin r = None
     \<and> sg_reused_from r = None"

definition new_run :: "analysis_run_row \<Rightarrow> bool" where
  "new_run run \<longleftrightarrow> an_status run = ''pending'' \<and> an_started_at run = None \<and> an_completed_at run = None"

definition new_tables :: "analysis_db \<Rightarrow> bool" where
  "new_tables db \<longleftrightarrow> distinct (map sg_id (ab_stages db)) \<and> distinct (map an_id (ab_runs db))
     \<and> list_all new_run (ab_runs db)
     \<and> list_all (\<lambda>r. new_stage r \<and> list_ex (\<lambda>run. of_run run r \<and> an_message_id run = sg_message_id r) (ab_runs db)
          \<and> list_ex (\<lambda>w. wk_queue w = analysis_queue \<and> wk_entity_id w = sg_id r \<and> wk_status w = W_PENDING) (ab_wakeups db))
        (ab_stages db)
     \<and> list_all wakeup_ok (ab_wakeups db) \<and> ab_labels db = [] \<and> ab_calls db = [] \<and> ab_manifests db = []"

inductive analysis_reachable :: "(string \<Rightarrow> bool) \<Rightarrow> analysis_db \<Rightarrow> bool" for host_ok where
  new: "new_tables db \<Longrightarrow> analysis_reachable host_ok db"
| step: "analysis_reachable host_ok db \<Longrightarrow> analysis_step host_ok db db' \<Longrightarrow> analysis_reachable host_ok db'"

section \<open>The invariant\<close>

lemma active_update_good:
  assumes "\<And>w. same_wakeup w (f w)" "\<And>w. active_wakeup (f w)" "\<And>w. wakeup_ok (f w)"
  shows "good db (db\<lparr>ab_wakeups := update_where P f (ab_wakeups db)\<rparr>)"
  by (rule wakeups_good) (simp_all add: assms)

lemma claim_rows_good:
  "claim_rows now duration tokens due d = (cs, d') \<Longrightarrow> good db (db\<lparr>ab_wakeups := wakeups d\<rparr>) \<Longrightarrow>
     good db (db\<lparr>ab_wakeups := wakeups d'\<rparr>)"
proof (induction now duration tokens due d arbitrary: cs d' rule: claim_rows.induct)
  case (1 now duration token tokens w ws d)
  let ?d = "d\<lparr>wakeups := update_where (\<lambda>x. wk_id x = wk_id w) (lease_wakeup token now duration) (wakeups d)\<rparr>"
  obtain ds d1 where e: "claim_rows now duration tokens ws ?d = (ds, d1)" by fastforce
  with "1.prems"(1) have "d1 = d'" by (simp add: Let_def split_def)
  moreover have "good (db\<lparr>ab_wakeups := wakeups d\<rparr>) (db\<lparr>ab_wakeups := wakeups ?d\<rparr>)"
    using active_update_good [of "lease_wakeup token now duration" "db\<lparr>ab_wakeups := wakeups d\<rparr>"] by simp
  then have "good db (db\<lparr>ab_wakeups := wakeups ?d\<rparr>)" using "1.prems"(2) by (blast intro: good_trans)
  ultimately show ?case using "1.IH" [OF e] by simp
qed auto

lemma analysis_step_good: "analysis_step host_ok db db' \<Longrightarrow> good db db'"
proof (induction rule: analysis_step.induct)
  case (dispatch locked tokens now duration limit db ws d)
  have "good db (db\<lparr>ab_wakeups := wakeups (engine_wakeups db)\<rparr>)" by (simp add: engine_wakeups_def)
  from claim_rows_good [OF dispatch [unfolded claim_due_def] this] show ?case .
next
  case (settle wakeup_id token next_at now dispatched db b d)
  then have "wakeups d = update_where (\<lambda>w. wk_id w = wakeup_id \<and> wk_status w = W_LEASED \<and> wk_lease_token w = Some token)
      (release_wakeup next_at now dispatched) (ab_wakeups db)"
    by (auto simp: release_claim_def engine_wakeups_def Let_def)
  with active_update_good [of "release_wakeup next_at now dispatched" db] show ?case by simp
qed (fact claim_stage_good start_inference_good record_inference_good commit_validated_good commit_cache_hit_good
    retry_or_fail_targets_good retry_or_fail_claim_good apply_negative_gate_good complete_analysis_run_good)+

lemma new_tables_ok: "new_tables db \<Longrightarrow> analysis_ok db"
  by (auto simp: new_tables_def analysis_ok_def new_stage_def new_run_def stage_ok_def run_ok_def owned_def
      stage_awake_def settled_def terminal_run_statuses_def active_wakeup_def list_all_iff list_ex_iff cache_key_allowed_def
      active_stage_status_def)

lemma analysis_reachable_ok: "analysis_reachable host_ok db \<Longrightarrow> analysis_ok db"
proof (induction rule: analysis_reachable.induct)
  case (new db)
  then show ?case by (rule new_tables_ok)
next
  case (step db db')
  from good_ok [OF analysis_step_good [OF step.hyps(2)] step.IH] show ?case .
qed

inductive analysis_steps :: "(string \<Rightarrow> bool) \<Rightarrow> analysis_db \<Rightarrow> analysis_db \<Rightarrow> bool" for host_ok db where
  none: "analysis_steps host_ok db db"
| more: "analysis_steps host_ok db db1 \<Longrightarrow> analysis_step host_ok db1 db2 \<Longrightarrow> analysis_steps host_ok db db2"

lemma analysis_steps_good: "analysis_steps host_ok db db' \<Longrightarrow> good db db'"
  by (induction rule: analysis_steps.induct) (auto intro: good_trans analysis_step_good)

section \<open>Leases of stage runs\<close>

definition stage_holder :: "stage_row \<Rightarrow> (uuid \<times> int) option" where
  "stage_holder r = lease_of (sg_lease_token r) (sg_lease_expires_at r)"

definition stage_claims :: "uuid \<Rightarrow> int \<Rightarrow> stage_row \<Rightarrow> stage_row \<Rightarrow> bool" where
  "stage_claims token now r r' \<longleftrightarrow> stage_ok r \<and> due_stage now r \<and> (\<exists>duration. r' = lease_stage token now duration r)"

text \<open>
  What the holder of a token does to its row: it notes the inference call and keeps the lease, or the
  row succeeds or fails and the lease ends.
\<close>

definition stage_acts :: "uuid \<Rightarrow> int \<Rightarrow> stage_row \<Rightarrow> stage_row \<Rightarrow> bool" where
  "stage_acts token now r r' \<longleftrightarrow> stage_ok r \<and> live_lease now r \<and> sg_lease_token r = Some token
     \<and> (stage_holder r' = stage_holder r \<or> sg_lease_token r' = None)"

interpretation stage_lease: leased_row stage_holder stage_claims stage_acts
proof
  fix token now r r' t e
  assume "stage_claims token now r r'" and "stage_holder r = Some (t, e)"
  then show "e \<le> now"
    by (cases "sg_lease_token r"; cases "sg_lease_expires_at r")
      (auto simp: stage_claims_def stage_holder_def stage_ok_def due_stage_def passed_def)
next
  fix token now r r'
  assume "stage_claims token now r r'"
  then show "\<exists>e. stage_holder r' = Some (token, e)" by (auto simp: stage_claims_def stage_holder_def lease_stage_def)
next
  fix token now r r'
  assume "stage_acts token now r r'"
  then show "\<exists>e. stage_holder r = Some (token, e)"
    by (cases "sg_lease_expires_at r") (auto simp: stage_acts_def stage_holder_def live_lease_def)
next
  fix token now r r'
  assume "stage_acts token now r r'"
  then show "stage_holder r' = stage_holder r \<or> stage_holder r' = None" by (auto simp: stage_acts_def stage_holder_def)
qed

lemma claimed_row:
  assumes "analysis_ok db" "claim_stage locked token stage_run_id now duration db = Inr (Some c, db')"
    and "r' \<in> set (ab_stages db')" "uuid_or_value_error stage_run_id = Inr (sg_id r')"
  shows "\<exists>r \<in> set (ab_stages db). stage_claims token now r r' \<and> sg_attempt_count r' = sg_attempt_count r + 1"
  using assms(2)
proof (cases rule: claim_stage_cases)
  case (3 r run)
  from assms(3) obtain q where q: "q \<in> set (ab_stages db)" "r' = (if sg_id q = sg_id r then lease_stage token now duration q else q)"
    unfolding 3(9) stage_selectors set_update_where by (elim imageE)
  from 3(8) assms(4) have "sg_id r' = sg_id r" by simp
  with q(2) have "sg_id q = sg_id r" by (simp add: lease_stage_def split: if_splits)
  then have "q = r" by (rule stage_key [OF assms(1) q(1) 3(2)])
  moreover have "stage_ok r" using assms(1) 3(2) by (simp add: analysis_ok_def)
  ultimately show ?thesis using q(2) 3(2,5) by (intro bexI [of _ r]) (auto simp: stage_claims_def, simp add: lease_stage_def)
qed simp_all

definition targets_under :: "uuid \<Rightarrow> string \<Rightarrow> target_snapshot list \<Rightarrow> bool" where
  "targets_under stale stage_run_id ts \<longleftrightarrow> (\<forall>x \<in> set ts. uuid_or_value_error (ts_stage_run_id x) = uuid_or_value_error stage_run_id
     \<and> uuid_or_value_error (ts_lease_token x) = Inr stale)"

lemma stale_row:
  assumes "analysis_ok db" "claim_stage locked token stage_run_id now duration db = Inr (Some c, db')" "stale \<noteq> token"
    and "r \<in> set (ab_stages db')" "uuid_or_value_error stage_run_id = Inr (sg_id r)"
  shows "sg_lease_token r \<noteq> Some stale"
proof
  assume t: "sg_lease_token r = Some stale"
  obtain q where q: "stage_claims token now q r" using claimed_row [OF assms(1,2,4,5)] by blast
  then obtain e where "sg_lease_expires_at r = Some e" by (auto simp: stage_claims_def lease_stage_def)
  moreover have "stage_ok r"
  proof -
    have "analysis_ok db'" by (rule good_ok [OF claim_stage_good [OF assms(2)] assms(1)])
    with assms(4) show ?thesis by (simp add: analysis_ok_def)
  qed
  moreover have "sg_status r = S_RUNNING" using q by (auto simp: stage_claims_def lease_stage_def)
  ultimately have "stage_acts stale (e - 1) r r" using t by (simp add: stage_acts_def live_lease_def)
  with stage_lease.stale_token [OF q assms(3)] show False by blast
qed

lemma stale_lock:
  assumes "analysis_ok db" "claim_stage locked token stage_run_id now duration db = Inr (Some c, db')" "stale \<noteq> token"
    and "targets_under stale stage_run_id ts"
  shows "lock_targets ts later db' = Inr []"
proof -
  obtain i where i: "uuid_or_value_error stage_run_id = Inr i"
    using assms(2) unfolding claim_stage_def by (elim try_bindE) (rule that)
  have "traverse expected_target ts = Inr (map (\<lambda>x. (i, ts_target_id x, stale)) ts)"
    by (rule traverse_total) (use assms(4) i in \<open>simp add: expected_target_def targets_under_def\<close>)
  then obtain held where h: "lock_targets ts later db' = Inr held" by (simp add: lock_targets_def)
  have "held = []"
  proof (cases held)
    case (Cons e es)
    then have "(fst e, snd e) \<in> set held" by simp
    from lock_targets_held(2) [OF h this] obtain r where r: "r \<in> set (ab_stages db')" "holder_token ts (fst e) r" by blast
    then have "uuid_or_value_error stage_run_id = Inr (sg_id r)" "sg_lease_token r = Some stale"
      using assms(4) by (auto simp: holder_token_def targets_under_def)
    with stale_row [OF assms(1-3) r(1)] show ?thesis by simp
  qed
  with h show ?thesis by simp
qed

lemma commit_results_none: "commit_results fresh s call now [] vs db = Inr (nothing_committed, db)"
  by (induction vs) simp_all

lemma retry_or_fail_each_none: "retry_or_fail_each code ty retryable retry_at now [] ts db = (False, db)"
  by (induction ts) simp_all

text \<open>
  C6: A worker whose stage run another worker has claimed since can change nothing of it: it starts no
  inference call, commits no result and no cached result, and neither fails nor retries it.
\<close>

theorem stale_analysis_worker_powerless:
  assumes "analysis_reachable host_ok db" "claim_stage locked token stage_run_id now duration db = Inr (Some c, db')"
    and "stale \<noteq> token" "targets_under stale stage_run_id (sn_targets s)" "sn_targets s \<noteq> []"
    and "uuid_or_value_error (cs_stage_run_id (sn_claim s)) = uuid_or_value_error stage_run_id"
    and "uuid_or_value_error (cs_lease_token (sn_claim s)) = Inr stale"
  shows "commit_validated_targets fresh s call results later db' = Inr (nothing_committed, db')
    \<and> retry_or_fail_targets s ids code ty retryable retry_at later db' = Inr (False, db')
    \<and> retry_or_fail_claim (sn_claim s) code ty retryable retry_at later db' = Inr (False, db')
    \<and> (start_inference host_ok m i s manifest schema schema_hash key summary later db' = Inr (x, db1) \<longrightarrow> x = None \<and> db1 = db')
    \<and> (commit_cache_hit host_ok fresh m s manifest ckey hit later db' = Inr (y, db2) \<longrightarrow> y = nothing_committed \<and> db2 = db')"
proof -
  note ok = analysis_reachable_ok [OF assms(1)]
  have l: "lock_targets (sn_targets s) later db' = Inr []" by (rule stale_lock [OF ok assms(2-4)])
  have lc: "lock_targets (chosen_targets ts s) later db' = Inr []" for ts
    by (rule stale_lock [OF ok assms(2,3)]) (use assms(4) in \<open>auto simp: targets_under_def chosen_targets_def\<close>)
  have "commit_validated_targets fresh s call results later db' = Inr (nothing_committed, db')"
    by (simp add: commit_validated_targets_def lc commit_results_none)
  moreover have "retry_or_fail_targets s ids code ty retryable retry_at later db' = Inr (False, db')"
    by (simp add: retry_or_fail_targets_def lc retry_or_fail_each_none)
  moreover have "retry_or_fail_claim (sn_claim s) code ty retryable retry_at later db' = Inr (False, db')"
  proof -
    obtain k where k: "uuid_or_value_error stage_run_id = Inr k"
      using assms(2) unfolding claim_stage_def by (elim try_bindE) (rule that)
    have "find (\<lambda>r. sg_id r = k \<and> live_lease later r \<and> sg_lease_token r = Some stale) (ab_stages db') = None"
      unfolding find_None_iff using stale_row [OF ok assms(2,3)] k by auto
    with k assms(6,7) show ?thesis by (simp add: retry_or_fail_claim_def)
  qed
  moreover have "x = None \<and> db1 = db'" if "start_inference host_ok m i s manifest schema schema_hash key summary later db' = Inr (x, db1)"
    using that by (cases rule: start_inference_cases) (use l assms(5) in simp_all)
  moreover have "y = nothing_committed \<and> db2 = db'" if "commit_cache_hit host_ok fresh m s manifest ckey hit later db' = Inr (y, db2)"
    using that by (cases rule: commit_cache_hit_cases) (use l in simp_all)
  ultimately show ?thesis by blast
qed

section \<open>Every state\<close>

text \<open>
  C23: Every row the engine writes satisfies the constraints of its table: leases exactly while running,
  retry times exactly while waiting, complete failure data, results of an origin, attempts within
  bounds; runs started and completed as their status says; inference calls settled with their outcome.
\<close>

theorem analysis_rows_satisfy_constraints:
  assumes "analysis_reachable host_ok db"
  shows "(\<forall>r \<in> set (ab_stages db). stage_ok r) \<and> (\<forall>run \<in> set (ab_runs db). run_ok run) \<and> (\<forall>c \<in> set (ab_calls db). call_ok c)"
  using analysis_reachable_ok [OF assms] by (simp add: analysis_ok_def)

text \<open>
  C16: The status of a run agrees with its stage runs in every state: a run that is completed, blocked or
  failed has no stage run left to do, a completed run has only stage runs that succeeded or whose
  condition did not hold, and a failed run has a failed stage run.
\<close>

theorem run_status_agrees_with_stages:
  assumes "analysis_reachable host_ok db" and "run \<in> set (ab_runs db)"
  shows "(an_status run \<in> {''completed'', ''blocked_negative_gate'', ''failed''} \<longrightarrow>
        (\<forall>r \<in> set (ab_stages db). sg_analysis_run_id r = an_id run \<longrightarrow> sg_status r \<notin> {S_PENDING, S_RUNNING, S_RETRY_WAIT}))
     \<and> (an_status run = ''completed'' \<longrightarrow>
        (\<forall>r \<in> set (ab_stages db). sg_analysis_run_id r = an_id run \<longrightarrow> sg_status r \<in> {S_SUCCEEDED, S_SKIPPED_CONDITION}))
     \<and> (an_status run = ''failed'' \<longrightarrow> (\<exists>r \<in> set (ab_stages db). sg_analysis_run_id r = an_id run \<and> sg_status r = S_FAILED))"
  using analysis_reachable_ok [OF assms(1)] assms(2)
  by (auto simp: analysis_ok_def settled_def of_run_def terminal_run_statuses_def active_stage_status_def)

text \<open>
  C24: A finished stage run is final: no transaction of any worker changes it again, so that a cached
  result is still what its source computed.
\<close>

theorem finished_stage_is_final:
  assumes "analysis_reachable host_ok db" and "analysis_steps host_ok db db'"
    and "r \<in> set (ab_stages db)" and "sg_status r \<notin> {S_PENDING, S_RUNNING, S_RETRY_WAIT}"
  shows "r \<in> set (ab_stages db')"
proof -
  from good_evolves [OF analysis_steps_good [OF assms(2)] analysis_reachable_ok [OF assms(1)]]
  have e: "evolves db db'" .
  obtain r' where "r' \<in> set (ab_stages db')" "stage_evolves r r'" by (rule evolves_stage_forth [OF e assms(3)])
  with assms(4) show ?thesis by (simp add: stage_evolves_def active_stage_status_def)
qed

text \<open>
  C8: An unfinished stage run is never stranded: its run is not closed, it has a wake-up that becomes
  due and stays due, and from some moment on every delivery of its identifier makes progress: it is
  claimed, or it has used up its attempts and fails.
\<close>

theorem unfinished_stage_never_stranded:
  assumes "analysis_reachable host_ok db" and r: "r \<in> set (ab_stages db)"
    and "sg_status r \<in> {S_PENDING, S_RUNNING, S_RETRY_WAIT}" and u: "uuid_or_value_error stage_run_id = Inr (sg_id r)"
  shows "(\<exists>w \<in> set (ab_wakeups db). wk_queue w = ''analysis'' \<and> wk_entity_id w = sg_id r \<and> (\<exists>t. \<forall>now \<ge> t. wakeup_due now w))
    \<and> (\<exists>t. \<forall>now \<ge> t. \<exists>c db'. claim_stage [] token stage_run_id now duration db = Inr (c, db')
         \<and> (c \<noteq> None \<or> (\<exists>r' \<in> set (ab_stages db'). sg_id r' = sg_id r \<and> sg_status r' = S_FAILED)))"
proof
  note ok = analysis_reachable_ok [OF assms(1)]
  have act: "active_stage_status (sg_status r)" using assms(3) by (auto simp: active_stage_status_def)
  from ok r act obtain w where w: "w \<in> set (ab_wakeups db)" "wk_queue w = analysis_queue" "wk_entity_id w = sg_id r"
      "active_wakeup w" "wakeup_ok w" by (auto simp: analysis_ok_def stage_awake_def)
  with active_due [OF w(5,4)] show "\<exists>w \<in> set (ab_wakeups db). wk_queue w = ''analysis'' \<and> wk_entity_id w = sg_id r
      \<and> (\<exists>t. \<forall>now \<ge> t. wakeup_due now w)" by (auto simp: analysis_queue_def)
  from ok r obtain run where run: "run \<in> set (ab_runs db)" "of_run run r" by (auto simp: analysis_ok_def owned_def)
  from ok run r act have open_run: "an_status run \<notin> set terminal_run_statuses"
    by (auto simp: analysis_ok_def settled_def)
  have f: "find_run (sg_analysis_run_id r) db = Some run"
    using ok run find_key_iff [of an_id "ab_runs db"] by (simp add: find_run_def analysis_ok_def of_run_def)
  have sok: "stage_ok r" using ok r by (simp add: analysis_ok_def)
  have "\<exists>t. \<forall>now \<ge> t. due_stage now r"
  proof (cases "sg_status r")
    case S_RUNNING
    with sok obtain e where "sg_lease_expires_at r = Some e" by (auto simp: stage_ok_def)
    with S_RUNNING show ?thesis by (intro exI [of _ e]) (simp add: due_stage_def passed_def)
  next
    case S_RETRY_WAIT
    with sok obtain e where "sg_next_retry_at r = Some e" by (auto simp: stage_ok_def)
    with S_RETRY_WAIT show ?thesis by (intro exI [of _ e]) (simp add: due_stage_def passed_def)
  qed (use assms(3) in \<open>simp_all add: due_stage_def\<close>)
  then obtain t where t: "\<And>now. t \<le> now \<Longrightarrow> due_stage now r" by blast
  show "\<exists>t. \<forall>now \<ge> t. \<exists>c db'. claim_stage [] token stage_run_id now duration db = Inr (c, db')
         \<and> (c \<noteq> None \<or> (\<exists>r' \<in> set (ab_stages db'). sg_id r' = sg_id r \<and> sg_status r' = S_FAILED))"
  proof (intro exI [of _ t] allI impI)
    fix now assume "t \<le> now"
    from t [OF this] have due: "due_stage now r" .
    have one: "find (\<lambda>x. sg_id x = sg_id r \<and> due_stage now x) (ab_stages db) = Some r"
    proof (cases "find (\<lambda>x. sg_id x = sg_id r \<and> due_stage now x) (ab_stages db)")
      case None
      with r due show ?thesis by (auto simp: find_None_iff)
    next
      case (Some x)
      then have "x \<in> set (ab_stages db)" "sg_id x = sg_id r" by (auto simp: find_Some_iff)
      then have "x = r" by (rule stage_key [OF ok _ r])
      with Some show ?thesis by simp
    qed
    show "\<exists>c db'. claim_stage [] token stage_run_id now duration db = Inr (c, db')
         \<and> (c \<noteq> None \<or> (\<exists>r' \<in> set (ab_stages db'). sg_id r' = sg_id r \<and> sg_status r' = S_FAILED))"
    proof (cases "sg_max_attempts r \<le> sg_attempt_count r")
      case True
      have st: "ab_stages (terminalize_exhausted_stage (sg_id r) (an_id run) now db)
          = update_where (\<lambda>x. sg_id x = sg_id r) (exhausted_stage now) (ab_stages db)"
        by (simp add: terminalize_exhausted_stage_def Let_def)
      have "exhausted_stage now r \<in> set (ab_stages (terminalize_exhausted_stage (sg_id r) (an_id run) now db))"
        unfolding st using r by (force simp: set_update_where)
      moreover have "sg_id (exhausted_stage now r) = sg_id r" "sg_status (exhausted_stage now r) = S_FAILED"
        by (simp_all add: exhausted_stage_def)
      ultimately show ?thesis using True u one f open_run by (auto simp: claim_stage_def)
    next
      case False
      then show ?thesis using u one f open_run by (simp add: claim_stage_def)
    qed
  qed
qed

section \<open>Attempts\<close>

inductive claims_of :: "(string \<Rightarrow> bool) \<Rightarrow> uuid \<Rightarrow> nat \<Rightarrow> analysis_db \<Rightarrow> analysis_db \<Rightarrow> bool" for host_ok i where
  none: "claims_of host_ok i 0 db db"
| other: "claims_of host_ok i n db db1 \<Longrightarrow> analysis_step host_ok db1 db2 \<Longrightarrow> claims_of host_ok i n db db2"
| claimed: "claims_of host_ok i n db db1 \<Longrightarrow> claim_stage locked token stage_run_id now duration db1 = Inr (Some c, db2) \<Longrightarrow>
    uuid_or_value_error stage_run_id = Inr i \<Longrightarrow> claims_of host_ok i (Suc n) db db2"

lemma claims_of_attempts:
  assumes "claims_of host_ok i n db db'" "analysis_ok db" "r \<in> set (ab_stages db)" "sg_id r = i"
  shows "analysis_ok db' \<and> (\<exists>r' \<in> set (ab_stages db'). sg_id r' = i \<and> sg_max_attempts r' = sg_max_attempts r
      \<and> sg_attempt_count r + int n \<le> sg_attempt_count r')"
  using assms
proof (induction rule: claims_of.induct)
  case (none db)
  then show ?case by auto
next
  case (other n db db1 db2)
  from other.IH [OF other.prems] obtain q where q: "analysis_ok db1" "q \<in> set (ab_stages db1)" "sg_id q = i"
      "sg_max_attempts q = sg_max_attempts r" "sg_attempt_count r + int n \<le> sg_attempt_count q" by blast
  note g = analysis_step_good [OF other.hyps(2)]
  obtain p where "p \<in> set (ab_stages db2)" "stage_evolves q p"
    by (rule evolves_stage_forth [OF good_evolves [OF g q(1)] q(2)])
  with q good_ok [OF g q(1)] show ?case by (auto simp: stage_evolves_def intro!: bexI [of _ p])
next
  case (claimed n db db1 locked token stage_run_id now duration c db2)
  from claimed.IH [OF claimed.prems] obtain q where q: "analysis_ok db1" "q \<in> set (ab_stages db1)" "sg_id q = i"
      "sg_max_attempts q = sg_max_attempts r" "sg_attempt_count r + int n \<le> sg_attempt_count q" by blast
  note g = claim_stage_good [OF claimed.hyps(2)]
  obtain p where p: "p \<in> set (ab_stages db2)" "stage_evolves q p"
    by (rule evolves_stage_forth [OF good_evolves [OF g q(1)] q(2)])
  have "uuid_or_value_error stage_run_id = Inr (sg_id p)" using claimed.hyps(3) p(2) q(3) by (simp add: stage_evolves_def)
  from claimed_row [OF q(1) claimed.hyps(2) p(1) this] obtain q0 where o: "q0 \<in> set (ab_stages db1)"
      "stage_claims token now q0 p" "sg_attempt_count p = sg_attempt_count q0 + 1" by blast
  have "q0 = q" by (rule stage_key [OF q(1) o(1) q(2)]) (use o(2) p(2) in \<open>auto simp: stage_claims_def lease_stage_def stage_evolves_def\<close>)
  with o p q good_ok [OF g q(1)] show ?case by (auto simp: stage_evolves_def intro!: bexI [of _ p])
qed

text \<open>
  C7: Retrying ends: however workers fail, lose their leases or are delivered a wake-up again, a stage run
  is claimed no more often than it has attempts left, and once they are used up it is not claimed again.
\<close>

theorem stage_claims_are_bounded:
  assumes "analysis_reachable host_ok db" and "r \<in> set (ab_stages db)" and "claims_of host_ok (sg_id r) n db db'"
  shows "int n \<le> sg_max_attempts r - sg_attempt_count r
    \<and> (int n = sg_max_attempts r - sg_attempt_count r \<longrightarrow> uuid_or_value_error stage_run_id = Inr (sg_id r) \<longrightarrow>
         (\<forall>c db''. claim_stage locked token stage_run_id now duration db' = Inr (c, db'') \<longrightarrow> c = None))"
proof
  have bound: "int m \<le> sg_max_attempts r - sg_attempt_count r" if "claims_of host_ok (sg_id r) m db d" for m d
  proof -
    from claims_of_attempts [OF that analysis_reachable_ok [OF assms(1)] assms(2)] obtain r' where
        "analysis_ok d" "r' \<in> set (ab_stages d)" "sg_max_attempts r' = sg_max_attempts r"
        "sg_attempt_count r + int m \<le> sg_attempt_count r'" by auto
    moreover from this have "stage_ok r'" by (simp add: analysis_ok_def)
    ultimately show ?thesis by (simp add: stage_ok_def)
  qed
  show "int n \<le> sg_max_attempts r - sg_attempt_count r" by (rule bound [OF assms(3)])
  show "int n = sg_max_attempts r - sg_attempt_count r \<longrightarrow> uuid_or_value_error stage_run_id = Inr (sg_id r) \<longrightarrow>
         (\<forall>c db''. claim_stage locked token stage_run_id now duration db' = Inr (c, db'') \<longrightarrow> c = None)"
  proof (intro impI allI)
    fix c db'' assume n: "int n = sg_max_attempts r - sg_attempt_count r" and u: "uuid_or_value_error stage_run_id = Inr (sg_id r)"
      and c: "claim_stage locked token stage_run_id now duration db' = Inr (c, db'')"
    show "c = None"
    proof (cases c)
      case (Some x)
      from bound [OF claims_of.claimed [OF assms(3) c [unfolded Some] u]] n show ?thesis by simp
    qed simp
  qed
qed

section \<open>The sample analysis\<close>

lemma engine0_new: "new_tables engine0"
  by (simp add: new_tables_def sample_defs new_run_def new_stage_def of_run_def sample_wakeup_def new_wakeup_row_def wakeup_ok_def)

lemma sample_loaded:
  "loaded engine2 (sample_snapshot test_claim)" "loaded engine4 (sample_snapshot formal_claim)"
  "loaded engine6 (sample_snapshot formal_claim)"
  by (simp_all add: sample_defs loaded_def issued_def test_claim_def formal_claim_def engine_defs engine6_def of_run_def
      test_stage2_def test_stage1_def formal_stage2_def formal_stage1_def lease_stage_def link_call_def run_underway_def)

lemma sample_steps:
  "analysis_step host_ok engine0 engine1" "analysis_step host_ok engine1 engine2" "analysis_step host_ok engine2 engine3"
  "analysis_step host_ok engine3 engine4" "analysis_step host_ok engine4 (engine5 host_ok)"
  "analysis_step host_ok engine4 engine6" "analysis_step host_ok engine6 engine7" "analysis_step host_ok engine7 engine8"
  by (rule analysis_step.claim [OF engine1] analysis_step.start [OF engine2] analysis_step.commit [OF engine3 sample_loaded(1)]
      analysis_step.claim [OF engine4] analysis_step.reuse [OF engine5 sample_loaded(2)] analysis_step.start [OF engine6]
      analysis_step.commit [OF engine7 sample_loaded(3)] analysis_step.gate [OF engine8]; simp)+

lemma engine_reachable:
  "analysis_reachable host_ok engine0" "analysis_reachable host_ok engine1" "analysis_reachable host_ok engine2"
  "analysis_reachable host_ok engine3" "analysis_reachable host_ok engine4" "analysis_reachable host_ok (engine5 host_ok)"
  "analysis_reachable host_ok engine6" "analysis_reachable host_ok engine7" "analysis_reachable host_ok engine8"
proof -
  show 0: "analysis_reachable host_ok engine0" by (rule analysis_reachable.new [OF engine0_new])
  show 1: "analysis_reachable host_ok engine1" by (rule analysis_reachable.step [OF 0 sample_steps(1)])
  show 2: "analysis_reachable host_ok engine2" by (rule analysis_reachable.step [OF 1 sample_steps(2)])
  show 3: "analysis_reachable host_ok engine3" by (rule analysis_reachable.step [OF 2 sample_steps(3)])
  show 4: "analysis_reachable host_ok engine4" by (rule analysis_reachable.step [OF 3 sample_steps(4)])
  show "analysis_reachable host_ok (engine5 host_ok)" by (rule analysis_reachable.step [OF 4 sample_steps(5)])
  show 6: "analysis_reachable host_ok engine6" by (rule analysis_reachable.step [OF 4 sample_steps(6)])
  show 7: "analysis_reachable host_ok engine7" by (rule analysis_reachable.step [OF 6 sample_steps(7)])
  show "analysis_reachable host_ok engine8" by (rule analysis_reachable.step [OF 7 sample_steps(8)])
qed

theorem stale_analysis_worker_powerless_witness:
  "\<exists>c db'. claim_stage [] (uuid_text 42) (uuid_text 20) 20 10 engine1 = Inr (Some c, db')
     \<and> commit_validated_targets sample_fresh (sample_snapshot test_claim) (sample_call 70) [sample_result] 21 db'
       = Inr (nothing_committed, db')"
proof -
  have "\<exists>c db'. claim_stage [] (uuid_text 42) (uuid_text 20) 20 10 engine1 = Inr (Some c, db')"
    by (simp add: sample_defs claim_stage_def engine1_def test_stage1_def lease_stage_def due_stage_def passed_def run_underway_def
        terminal_run_statuses_def)
  then obtain c db' where c: "claim_stage [] (uuid_text 42) (uuid_text 20) 20 10 engine1 = Inr (Some c, db')" by blast
  have "targets_under (uuid_text 40) (uuid_text 20) (sn_targets (sample_snapshot test_claim))"
    by (simp add: targets_under_def sample_defs test_claim_def)
  from stale_analysis_worker_powerless [OF engine_reachable(2) c _ this, of sample_fresh "sample_call 70" "[sample_result]" 21] c
  show ?thesis by (auto simp: sample_defs test_claim_def)
qed

theorem analysis_rows_satisfy_constraints_witness: "stage_ok formal_stage1 \<and> call_ok (sample_call_row 70)"
  using analysis_rows_satisfy_constraints [OF engine_reachable(5) [of "\<lambda>h. True"]] by (simp add: engine_defs)

theorem run_status_agrees_with_stages_witness:
  "\<exists>run \<in> set (ab_runs engine8). an_status run = ''blocked_negative_gate''
     \<and> (\<forall>r \<in> set (ab_stages engine8). sg_analysis_run_id r = an_id run \<longrightarrow> sg_status r \<noteq> S_PENDING)"
proof -
  have "\<exists>run \<in> set (ab_runs engine8). an_status run = ''blocked_negative_gate''"
    by (simp add: engine8_def close_gate_def Let_def sample_defs engine_defs engine6_def engine7_def set_wakeup_terminal_def
        run_underway_def gated_def formal_stage3_def inferred_stage_def clear_stage_lease_def active_stage_status_def)
  then obtain run where r: "run \<in> set (ab_runs engine8)" "an_status run = ''blocked_negative_gate''" by blast
  from run_status_agrees_with_stages [OF engine_reachable(9) [of "\<lambda>h. True"] r(1)] r show ?thesis by auto
qed

theorem finished_stage_is_final_witness: "test_stage3 \<in> set (ab_stages engine8)"
proof (rule finished_stage_is_final [of "\<lambda>h. True" engine3])
  show "analysis_reachable (\<lambda>h. True) engine3" by (rule engine_reachable)
  show "analysis_steps (\<lambda>h. True) engine3 engine8"
    by (rule analysis_steps.intros sample_steps)+
  show "test_stage3 \<in> set (ab_stages engine3)" by (simp add: engine3_def)
qed (simp add: test_stage3_columns)

theorem unfinished_stage_never_stranded_witness:
  "\<exists>t. \<forall>now \<ge> t. \<exists>c db'. claim_stage [] (uuid_text 43) (uuid_text 21) now 10 engine4 = Inr (c, db')
     \<and> (c \<noteq> None \<or> (\<exists>r' \<in> set (ab_stages db'). sg_id r' = sg_id formal_stage1 \<and> sg_status r' = S_FAILED))"
proof -
  have m: "formal_stage1 \<in> set (ab_stages engine4)" by (simp add: engine4_def)
  have s: "sg_status formal_stage1 \<in> {S_PENDING, S_RUNNING, S_RETRY_WAIT}"
    and u: "uuid_or_value_error (uuid_text 21) = Inr (sg_id formal_stage1)"
    by (simp_all add: formal_stage1_def lease_stage_def sample_defs)
  show ?thesis by (rule conjunct2 [OF unfinished_stage_never_stranded [OF engine_reachable(5) [of "\<lambda>h. True"] m s u]])
qed

theorem stage_claims_are_bounded_witness:
  "claims_of (\<lambda>h. True) (uuid_text 21) 1 engine3 engine4 \<and> int 1 \<le> sg_max_attempts (sample_stage_run 21 11)"
proof -
  have "claims_of (\<lambda>h. True) (uuid_text 21) (Suc 0) engine3 engine4"
    by (rule claims_of.claimed [OF claims_of.none engine4]) (simp add: sample_defs)
  then have c: "claims_of (\<lambda>h. True) (sg_id (sample_stage_run 21 11)) 1 engine3 engine4" by (simp add: sample_stage_run_def)
  have "sample_stage_run 21 11 \<in> set (ab_stages engine3)" by (simp add: engine3_def)
  from stage_claims_are_bounded [OF engine_reachable(4) [of "\<lambda>h. True"] this c] c show ?thesis by (simp add: sample_stage_run_def)
qed

end
