(* ===== verification/Analysis_Results.thy ===== *)
theory Analysis_Results
  imports Analysis_Engine
begin

text \<open>
  What the transactions of the analysis engine do to results: validated results become the stage run's
  document and its labels, cached results are copied, the negative gate stops a message, and two cases in
  which a result does not take effect.
\<close>

section \<open>The negative gate\<close>

lemma fold_terminal_wakeups_tables [simp]:
  "ab_stages (fold (\<lambda>i. set_wakeup_terminal i now) ids db) = ab_stages db"
  "ab_runs (fold (\<lambda>i. set_wakeup_terminal i now) ids db) = ab_runs db"
  "ab_messages (fold (\<lambda>i. set_wakeup_terminal i now) ids db) = ab_messages db"
  "ab_labels (fold (\<lambda>i. set_wakeup_terminal i now) ids db) = ab_labels db"
  by (induction ids arbitrary: db) (simp_all add: set_wakeup_terminal_def)

lemma close_gate_tables:
  "ab_stages (close_gate i causes now db) = update_where (gated i (map fst causes)) (skip_stage now) (ab_stages db)"
  "ab_messages (close_gate i causes now db) = map (block_message causes now) (ab_messages db)"
  by (simp_all add: close_gate_def Let_def update_run_def)

lemma close_gate_run:
  "run \<in> set (ab_runs db) \<Longrightarrow> \<exists>run' \<in> set (ab_runs (close_gate (an_id run) causes now db)).
     an_id run' = an_id run \<and> an_status run' = ''blocked_negative_gate''"
  by (rule bexI [of _ "run\<lparr>an_status := ''blocked_negative_gate'', an_started_at := started now (an_started_at run),
      an_completed_at := Some now, an_last_error_code := None, an_last_error_type := None, an_updated_at := now\<rparr>"])
    (auto simp: close_gate_def Let_def in_update_where)

lemma stage_message:
  assumes "analysis_ok db" "run \<in> set (ab_runs db)" "r \<in> set (ab_stages db)" "sg_analysis_run_id r = an_id run"
  shows "sg_message_id r = an_message_id run"
proof -
  from assms(1,3) have "owned (ab_runs db) r" by (simp add: analysis_ok_def)
  then obtain x where x: "x \<in> set (ab_runs db)" "of_run x r" "an_message_id x = sg_message_id r"
    unfolding owned_def by blast
  have "x = run" by (rule run_key [OF assms(1) x(1) assms(2)]) (use x(2) assms(4) in \<open>simp add: of_run_def\<close>)
  with x(3) show ?thesis by simp
qed

text \<open>What closing the gate leaves alone.\<close>

lemma terminal_wakeups_others:
  "w \<in> set (ab_wakeups db) \<Longrightarrow> \<forall>i \<in> set ids. \<not> analysis_wakeup i w \<Longrightarrow>
     w \<in> set (ab_wakeups (fold (\<lambda>i. set_wakeup_terminal i now) ids db))"
proof (induction ids arbitrary: db)
  case (Cons i ids)
  then have "w \<in> set (ab_wakeups (set_wakeup_terminal i now db))"
    by (auto simp: set_wakeup_terminal_def in_update_where)
  from Cons.IH [OF this] Cons.prems(2) show ?case by simp
qed simp

lemma terminal_wakeups_tables:
  "ab_manifests (fold (\<lambda>i. set_wakeup_terminal i now) ids db) = ab_manifests db"
  "ab_calls (fold (\<lambda>i. set_wakeup_terminal i now) ids db) = ab_calls db"
  "map wk_id (ab_wakeups (fold (\<lambda>i. set_wakeup_terminal i now) ids db)) = map wk_id (ab_wakeups db)"
  by (induction ids arbitrary: db) (simp_all add: set_wakeup_terminal_def map_update_where complete_wakeup_def)

lemma close_gate_keeps:
  "ab_labels (close_gate i causes now db) = ab_labels db" "ab_manifests (close_gate i causes now db) = ab_manifests db"
  "ab_calls (close_gate i causes now db) = ab_calls db"
  "map an_id (ab_runs (close_gate i causes now db)) = map an_id (ab_runs db)"
  "map sg_id (ab_stages (close_gate i causes now db)) = map sg_id (ab_stages db)"
  "map ms_id (ab_messages (close_gate i causes now db)) = map ms_id (ab_messages db)"
  "map wk_id (ab_wakeups (close_gate i causes now db)) = map wk_id (ab_wakeups db)"
  by (simp_all add: close_gate_def Let_def update_run_def terminal_wakeups_tables map_update_where skip_stage_def)
    (simp add: block_message_def split: option.split)

lemma close_gate_runs: "x \<in> set (ab_runs db) \<Longrightarrow> an_id x \<noteq> i \<Longrightarrow> x \<in> set (ab_runs (close_gate i causes now db))"
  unfolding close_gate_def Let_def update_run_def by (simp add: in_update_where) (rule bexI [of _ x], simp_all)

lemma close_gate_wakeups:
  assumes "w \<in> set (ab_wakeups db)" and "\<forall>r \<in> set (ab_stages db). gated i (map fst causes) r \<longrightarrow> \<not> analysis_wakeup (sg_id r) w"
  shows "w \<in> set (ab_wakeups (close_gate i causes now db))"
proof -
  let ?db = "db\<lparr>ab_messages := map (block_message causes now) (ab_messages db),
    ab_stages := update_where (gated i (map fst causes)) (skip_stage now) (ab_stages db)\<rparr>"
  have "w \<in> set (ab_wakeups (fold (\<lambda>i. set_wakeup_terminal i now) (map sg_id (filter (gated i (map fst causes)) (ab_stages db))) ?db))"
    by (rule terminal_wakeups_others) (use assms in simp_all)
  then show ?thesis by (simp add: close_gate_def Let_def update_run_def)
qed

text \<open>The cause of a message is the first label that was named for it.\<close>

lemma gate_causes_keep:
  "gate_causes stored as cs = Inr (Some cs') \<Longrightarrow> map_of cs m = Some l \<Longrightarrow> map_of cs' m = Some l"
proof (induction "as" arbitrary: cs)
  case (Cons a "as")
  from Cons.prems(1) obtain i where i: "uuid_or_value_error (ga_assignment_id a) = Inr i"
    by (auto elim!: try_bindE)
  with Cons.prems(1) obtain x where x: "find (\<lambda>l. ml_id l = i) stored = Some x"
    by (cases "find (\<lambda>l. ml_id l = i) stored") simp_all
  let ?cs = "if dict_has (ml_message_id x) cs then cs else dict_set (ml_message_id x) x cs"
  from Cons.prems(1) i x have rest: "gate_causes stored as ?cs = Inr (Some cs')"
    by (auto elim!: try_bindE split: if_splits)
  have "map_of ?cs m = Some l" using Cons.prems(2) by (auto simp: dict_has_iff map_of_dict_set)
  from Cons.IH [OF rest this] show ?case .
qed simp

lemma gate_causes_first:
  assumes "gate_causes stored (a # as) [] = Inr (Some causes)"
  shows "\<exists>m l. map_of causes m = Some l \<and> uuid_or_value_error (ga_assignment_id a) = Inr (ml_id l)"
proof -
  from assms obtain i where i: "uuid_or_value_error (ga_assignment_id a) = Inr i"
    by (auto elim!: try_bindE)
  with assms obtain x where x: "find (\<lambda>l. ml_id l = i) stored = Some x"
    by (cases "find (\<lambda>l. ml_id l = i) stored") simp_all
  from assms i x have "gate_causes stored as (dict_set (ml_message_id x) x []) = Inr (Some causes)"
    by (auto simp: dict_has_def elim!: try_bindE split: if_splits)
  from gate_causes_keep [OF this, of "ml_message_id x" x] i x show ?thesis by (auto simp: find_Some_iff)
qed

text \<open>
  C14: A negative gate that takes effect stops the message: the formal run is blocked, each of its
  unfinished stage runs is skipped and loses its lease, and the message is blocked from analysis; unless
  it was blocked before, in which case its row stays as it is, the row names the cause, the first
  requested label, an active negative label of this run, and the stage run that gave it.  No row is
  added or removed; other runs, their stage runs and wake-ups, finished stage runs, other messages, the
  labels, the manifests and the calls are unchanged.
\<close>

theorem negative_gate_stops_message:
  assumes "analysis_reachable host_ok db" and "apply_negative_gate rid assignments now db = Inr (True, db')"
  shows "\<exists>run \<in> set (ab_runs db). uuid_or_value_error rid = Inr (an_id run) \<and> an_run_mode run \<noteq> ''test''
    \<and> (\<exists>run' \<in> set (ab_runs db'). an_id run' = an_id run \<and> an_status run' = ''blocked_negative_gate'')
    \<and> (\<forall>x \<in> set (ab_runs db). an_id x \<noteq> an_id run \<longrightarrow> x \<in> set (ab_runs db'))
    \<and> (\<forall>r \<in> set (ab_stages db'). sg_analysis_run_id r = an_id run \<longrightarrow> sg_status r \<notin> {S_PENDING, S_RUNNING, S_RETRY_WAIT})
    \<and> (\<forall>r \<in> set (ab_stages db). (if sg_analysis_run_id r = an_id run \<and> sg_status r \<in> {S_PENDING, S_RUNNING, S_RETRY_WAIT}
         then skip_stage now r else r) \<in> set (ab_stages db'))
    \<and> (\<forall>m \<in> set (ab_messages db). ms_id m = an_message_id run \<longrightarrow>
         (\<exists>m' \<in> set (ab_messages db'). ms_id m' = ms_id m \<and> ms_blocked_from_analysis m'
            \<and> (if ms_blocked_from_analysis m then m' = m
               else \<exists>l \<in> set (ab_labels db). ms_blocked_by_label_assignment_id m' = Some (ml_id l)
                  \<and> ms_blocked_by_stage_run_id m' = Some (ml_stage_run_id l) \<and> ms_blocked_at m' = Some now
                  \<and> ml_activated l \<and> ml_negative l \<and> ml_analysis_run_id l = an_id run
                  \<and> uuid_or_value_error (ga_assignment_id (hd assignments)) = Inr (ml_id l))))
    \<and> (\<forall>m \<in> set (ab_messages db). ms_id m \<noteq> an_message_id run \<longrightarrow> m \<in> set (ab_messages db'))
    \<and> (\<forall>w \<in> set (ab_wakeups db). (\<forall>r \<in> set (ab_stages db). sg_analysis_run_id r = an_id run \<longrightarrow> wk_entity_id w \<noteq> sg_id r)
         \<longrightarrow> w \<in> set (ab_wakeups db'))
    \<and> map an_id (ab_runs db') = map an_id (ab_runs db) \<and> map sg_id (ab_stages db') = map sg_id (ab_stages db)
    \<and> map ms_id (ab_messages db') = map ms_id (ab_messages db) \<and> map wk_id (ab_wakeups db') = map wk_id (ab_wakeups db)
    \<and> ab_labels db' = ab_labels db \<and> ab_manifests db' = ab_manifests db \<and> ab_calls db' = ab_calls db"
  using assms(2)
proof (cases rule: apply_gate_cases)
  case (2 run requested causes)
  note ok = analysis_reachable_ok [OF assms(1)]
  have ok': "analysis_ok db'" by (rule good_ok [OF apply_negative_gate_good [OF assms(2)] ok])
  have keys: "map fst causes = [an_message_id run]" by (rule gate_causes_run [OF ok 2(2,5,6)])
  then obtain l where l: "causes = [(an_message_id run, l)]" by (cases causes) auto
  have cause: "l \<in> set (ab_labels db)" "ml_activated l" "ml_negative l" "ml_analysis_run_id l = an_id run"
    using gate_causes_labels [OF 2(5)] l by (auto simp: gate_labels_def)
  have first: "uuid_or_value_error (ga_assignment_id (hd assignments)) = Inr (ml_id l)"
    using gate_causes_first [of "gate_labels (an_id run) requested (ab_labels db)" "hd assignments" "tl assignments" causes] 2(5,6) l
    by (auto split: if_splits)
  obtain run' where run': "run' \<in> set (ab_runs db')" "an_id run' = an_id run" "an_status run' = ''blocked_negative_gate''"
    using close_gate_run [OF 2(2)] unfolding 2(8) by blast
  have "settled (ab_stages db') run'" using ok' run'(1) by (simp add: analysis_ok_def)
  then have idle: "\<forall>r \<in> set (ab_stages db'). sg_analysis_run_id r = an_id run \<longrightarrow> sg_status r \<notin> {S_PENDING, S_RUNNING, S_RETRY_WAIT}"
    using run' by (auto simp: settled_def terminal_run_statuses_def of_run_def active_stage_status_def)
  have msgs: "\<exists>m' \<in> set (ab_messages db'). ms_id m' = ms_id m \<and> ms_blocked_from_analysis m'
            \<and> (if ms_blocked_from_analysis m then m' = m
               else \<exists>l \<in> set (ab_labels db). ms_blocked_by_label_assignment_id m' = Some (ml_id l)
                  \<and> ms_blocked_by_stage_run_id m' = Some (ml_stage_run_id l) \<and> ms_blocked_at m' = Some now
                  \<and> ml_activated l \<and> ml_negative l \<and> ml_analysis_run_id l = an_id run
                  \<and> uuid_or_value_error (ga_assignment_id (hd assignments)) = Inr (ml_id l))"
    if "m \<in> set (ab_messages db)" "ms_id m = an_message_id run" for m
  proof (rule bexI [of _ "block_message causes now m"])
    show "block_message causes now m \<in> set (ab_messages db')" unfolding 2(8) close_gate_tables using that(1) by simp
  qed (use that(2) cause first l in \<open>auto simp: block_message_def intro!: bexI [of _ l]\<close>)
  have others: "m \<in> set (ab_messages db')" if "m \<in> set (ab_messages db)" "ms_id m \<noteq> an_message_id run" for m
  proof -
    have "block_message causes now m = m" using that(2) l by (simp add: block_message_def)
    moreover have "block_message causes now m \<in> set (ab_messages db')" unfolding 2(8) close_gate_tables using that(1) by simp
    ultimately show ?thesis by simp
  qed
  have gated: "gated (an_id run) (map fst causes) r \<longleftrightarrow> sg_analysis_run_id r = an_id run \<and> sg_status r \<in> {S_PENDING, S_RUNNING, S_RETRY_WAIT}"
    if "r \<in> set (ab_stages db)" for r
    using stage_message [OF ok 2(2) that] by (auto simp: gated_def keys active_stage_status_def)
  have stages: "\<forall>r \<in> set (ab_stages db). (if sg_analysis_run_id r = an_id run \<and> sg_status r \<in> {S_PENDING, S_RUNNING, S_RETRY_WAIT}
      then skip_stage now r else r) \<in> set (ab_stages db')"
  proof
    fix r assume r: "r \<in> set (ab_stages db)"
    show "(if sg_analysis_run_id r = an_id run \<and> sg_status r \<in> {S_PENDING, S_RUNNING, S_RETRY_WAIT} then skip_stage now r else r)
        \<in> set (ab_stages db')"
      unfolding 2(8) close_gate_tables set_update_where gated [OF r, symmetric] by (rule imageI [OF r])
  qed
  have wakeups: "\<forall>w \<in> set (ab_wakeups db). (\<forall>r \<in> set (ab_stages db). sg_analysis_run_id r = an_id run \<longrightarrow> wk_entity_id w \<noteq> sg_id r)
      \<longrightarrow> w \<in> set (ab_wakeups db')"
    unfolding 2(8) by (intro ballI impI close_gate_wakeups) (auto simp: gated_def analysis_wakeup_def)
  have runs: "\<forall>x \<in> set (ab_runs db). an_id x \<noteq> an_id run \<longrightarrow> x \<in> set (ab_runs db')"
    unfolding 2(8) by (intro ballI impI close_gate_runs)
  have blocked: "\<exists>run' \<in> set (ab_runs db'). an_id run' = an_id run \<and> an_status run' = ''blocked_negative_gate''"
    using run' by (intro bexI [OF _ run'(1)]) simp
  note kept = close_gate_keeps [of "an_id run" causes now db, folded 2(8)]
  show ?thesis
    by (intro bexI [OF _ 2(2)] conjI; (fact 2(3) 2(4) blocked runs idle stages wakeups kept | (intro ballI impI, erule (1) msgs others)))
qed simp

theorem negative_gate_stops_message_witness:
  "(\<exists>m \<in> set (ab_messages engine8). ms_blocked_from_analysis m \<and> ms_blocked_by_label_assignment_id m = Some (uuid_text 90))
   \<and> map an_id (ab_runs engine8) = map an_id (ab_runs engine7)"
proof -
  from negative_gate_stops_message [OF engine_reachable(8) [of "\<lambda>h. True"] engine8] obtain run where
      run: "run \<in> set (ab_runs engine7)" "uuid_or_value_error (uuid_text 11) = Inr (an_id run)"
    and m: "\<forall>m \<in> set (ab_messages engine7). ms_id m = an_message_id run \<longrightarrow>
         (\<exists>m' \<in> set (ab_messages engine8). ms_id m' = ms_id m \<and> ms_blocked_from_analysis m'
            \<and> (if ms_blocked_from_analysis m then m' = m
               else \<exists>l \<in> set (ab_labels engine7). ms_blocked_by_label_assignment_id m' = Some (ml_id l)
                  \<and> ms_blocked_by_stage_run_id m' = Some (ml_stage_run_id l) \<and> ms_blocked_at m' = Some 11
                  \<and> ml_activated l \<and> ml_negative l \<and> ml_analysis_run_id l = an_id run
                  \<and> uuid_or_value_error (ga_assignment_id (hd [sample_gate])) = Inr (ml_id l)))"
    and ids: "map an_id (ab_runs engine8) = map an_id (ab_runs engine7)" by (elim bexE conjE) (rule that)
  have t: "ab_messages engine7 = [sample_analysis_message]" "ab_labels engine7 = [sample_label]"
    by (simp_all add: engine7_def engine6_def engine_defs engine0_def)
  have "an_message_id run = uuid_text 1"
    using run(1) by (auto simp: engine7_def engine6_def engine_defs run_underway_def sample_run_def)
  with m ids show ?thesis by (auto simp: t sample_analysis_message_def sample_label_def)
qed

section \<open>Validated results\<close>

definition assigned :: "validated_target_result \<Rightarrow> resolved_label \<Rightarrow> model_label_row \<Rightarrow> bool" where
  "assigned v l x \<longleftrightarrow> uuid_or_value_error (rl_label_definition_version_id l) = Inr (ml_label_definition_version_id x)
     \<and> ml_label_key x = rl_key l \<and> ml_score x = Fin (rl_score l) \<and> ml_activated x = rl_activated l
     \<and> ml_negative x = rl_negative l \<and> ml_reason x = vt_reason v \<and> ml_evidence x = vt_evidence v"

definition labels_of_stage :: "uuid \<Rightarrow> analysis_db \<Rightarrow> model_label_row list" where
  "labels_of_stage i db = filter (\<lambda>x. ml_stage_run_id x = i) (ab_labels db)"

lemma add_labels_rows:
  "add_labels row_of fresh ls db = Inr (gates, db') \<Longrightarrow>
     \<exists>rows. ab_labels db' = ab_labels db @ rows \<and> list_all2 (\<lambda>l row. \<exists>k. row_of k l = Inr row) ls rows
       \<and> gates = concat (map gate_of rows)"
proof (induction ls arbitrary: db gates)
  case (Cons l ls)
  from Cons.prems obtain row db1 gs where
      row: "row_of (fresh (length (ab_labels db))) l = Inr row" and db1: "insert_label row db = Inr db1"
    and rest: "add_labels row_of fresh ls db1 = Inr (gs, db')" and g: "gates = gate_of row @ gs"
    by (auto elim!: try_bindE split: prod.splits)
  from Cons.IH [OF rest] obtain rows where rows: "ab_labels db' = ab_labels db1 @ rows"
      "list_all2 (\<lambda>l row. \<exists>k. row_of k l = Inr row) ls rows" "gs = concat (map gate_of rows)" by blast
  from db1 have "ab_labels db1 = ab_labels db @ [row]" by (auto simp: insert_label_def split: if_splits)
  with rows row g show ?case by (intro exI [of _ "row # rows"]) auto
qed simp

lemma label_step_rows:
  assumes "label_step formal row_of fresh ls db gates db1" "\<And>k l row. row_of k l = Inr row \<Longrightarrow> label_for r row"
  shows "\<exists>rows. ab_labels db1 = ab_labels db @ rows \<and> list_all (label_for r) rows
    \<and> (formal \<longrightarrow> list_all2 (\<lambda>l row. \<exists>k. row_of k l = Inr row) ls rows) \<and> (\<not> formal \<longrightarrow> rows = [] \<and> gates = [])
    \<and> gates = concat (map gate_of rows)"
proof (cases formal)
  case True
  with assms(1) have "add_labels row_of fresh ls db = Inr (gates, db1)" by (simp add: label_step_def)
  from add_labels_rows [OF this] obtain rows where rows: "ab_labels db1 = ab_labels db @ rows"
      "list_all2 (\<lambda>l row. \<exists>k. row_of k l = Inr row) ls rows" "gates = concat (map gate_of rows)" by blast
  have "list_all (label_for r) rows"
    unfolding list_all_iff using list_all2_member2 [OF rows(2)] assms(2) by blast
  with rows True show ?thesis by blast
next
  case False
  with assms(1) have "gates = []" "db1 = db" by (simp_all add: label_step_def)
  with False show ?thesis by (intro exI [of _ "[]"]) simp
qed

lemma add_labels_stages: "add_labels row_of fresh ls db = Inr (gates, db') \<Longrightarrow> ab_stages db' = ab_stages db"
proof (induction ls arbitrary: db gates)
  case (Cons l ls)
  from Cons.prems obtain row db1 gs where "insert_label row db = Inr db1" "add_labels row_of fresh ls db1 = Inr (gs, db')"
    by (auto elim!: try_bindE split: prod.splits)
  with Cons.IH show ?case by (auto simp: insert_label_def split: if_splits)
qed simp

lemma label_step_stages: "label_step formal row_of fresh ls db gates db1 \<Longrightarrow> ab_stages db1 = ab_stages db"
  unfolding label_step_def by (cases formal) (simp_all add: add_labels_stages)

lemma labels_of_stage_terminal [simp]: "labels_of_stage j (set_wakeup_terminal i now db) = labels_of_stage j db"
  by (simp add: labels_of_stage_def)

lemma label_of_result_assigned: "label_of_result k now r v l = Inr row \<Longrightarrow> assigned v l row"
  by (auto simp: label_of_result_def assigned_def elim!: try_bindE)

lemma result_label_rows:
  assumes "label_step formal (\<lambda>k. label_of_result k now r v) fresh ls db gates db1"
  obtains rows where "ab_labels db1 = ab_labels db @ rows" "list_all (label_for r) rows"
    "formal \<longrightarrow> list_all2 (assigned v) ls rows" "\<not> formal \<longrightarrow> rows = []"
proof -
  have "\<exists>rows. ab_labels db1 = ab_labels db @ rows \<and> list_all (label_for r) rows
    \<and> (formal \<longrightarrow> list_all2 (\<lambda>l row. \<exists>k. label_of_result k now r v l = Inr row) ls rows) \<and> (\<not> formal \<longrightarrow> rows = [] \<and> gates = [])
    \<and> gates = concat (map gate_of rows)"
    by (rule label_step_rows [OF assms]) (rule label_for_rows(1))
  then obtain rows where rows: "ab_labels db1 = ab_labels db @ rows" "list_all (label_for r) rows"
      "formal \<longrightarrow> list_all2 (\<lambda>l row. \<exists>k. label_of_result k now r v l = Inr row) ls rows" "\<not> formal \<longrightarrow> rows = []" by blast
  show thesis
  proof (rule that [OF rows(1,2) _ rows(4)])
    show "formal \<longrightarrow> list_all2 (assigned v) ls rows"
      using rows(3) by (auto elim!: list_all2_mono dest: label_of_result_assigned)
  qed
qed

text \<open>One committed result, taken apart once for the inductions below.\<close>

lemma commit_results_Cons:
  assumes "commit_results fresh s call now held (v # vs) db = Inr (c, db')"
  obtains "commit_results fresh s call now held vs db = Inr (c, db')"
      "map_of held (vt_target_id v) = None \<or> (\<exists>i r call_id. map_of held (vt_target_id v) = Some i \<and> find_stage i db = Some r
         \<and> uuid_or_value_error (sc_inference_call_id call) = Inr call_id \<and> sg_inference_call_id r \<noteq> Some call_id)"
  | i r gates db1 rest where "map_of held (vt_target_id v) = Some i" "find_stage i db = Some r"
      "uuid_or_value_error (sc_inference_call_id call) = Inr (the (sg_inference_call_id r))" "sg_inference_call_id r \<noteq> None"
      "label_step (cs_run_mode (sn_claim s) \<noteq> ''test'') (\<lambda>k. label_of_result k now r v) fresh (vt_labels v)
         (update_stage i (inferred_stage (validated_result_document v) now) db) gates db1"
      "commit_results fresh s call now held vs (set_wakeup_terminal i now db1) = Inr (rest, db')"
      "c = \<lparr>cr_committed_target_ids = vt_target_id v # cr_committed_target_ids rest,
            cr_negative_gate_assignments = gates @ cr_negative_gate_assignments rest\<rparr>"
proof (cases "map_of held (vt_target_id v)")
  case None
  with assms that(1) show thesis by simp
next
  case (Some i)
  note i = Some
  show thesis
  proof (cases "find_stage i db")
    case None
    with assms i show thesis by simp
  next
    case (Some r)
    note step = assms [unfolded commit_results.simps i Some option.case]
    from step obtain call_id where u: "uuid_or_value_error (sc_inference_call_id call) = Inr call_id"
      by (elim try_bindE) (rule that)
    show thesis
    proof (cases "sg_inference_call_id r = Some call_id")
      case False
      with step u i Some that(1) show thesis by simp
    next
      case True
      from step u True obtain gates db1 rest where
          "label_step (cs_run_mode (sn_claim s) \<noteq> ''test'') (\<lambda>k. label_of_result k now r v) fresh (vt_labels v)
             (update_stage i (inferred_stage (validated_result_document v) now) db) gates db1"
          "commit_results fresh s call now held vs (set_wakeup_terminal i now db1) = Inr (rest, db')"
          "c = \<lparr>cr_committed_target_ids = vt_target_id v # cr_committed_target_ids rest,
            cr_negative_gate_assignments = gates @ cr_negative_gate_assignments rest\<rparr>"
        unfolding label_step_def by (auto elim!: try_bindE split: prod.splits)
      with that(2) [OF i Some] u True show thesis by simp
    qed
  qed
qed

lemma commit_results_committed:
  "commit_results fresh s call now held vs db = Inr (c, db') \<Longrightarrow> set (cr_committed_target_ids c) \<subseteq> vt_target_id ` set vs"
proof (induction vs arbitrary: db c)
  case Nil
  then show ?case by (auto simp: nothing_committed_def)
next
  case (Cons v vs)
  from Cons.prems show ?case
  proof (cases rule: commit_results_Cons)
    case 1
    from Cons.IH [OF 1(1)] show ?thesis by auto
  next
    case (2 j r gates db1 rest)
    from Cons.IH [OF 2(6)] show ?thesis by (auto simp: 2(7))
  qed
qed

lemma commit_results_frame:
  "commit_results fresh s call now held vs db = Inr (c, db') \<Longrightarrow> (\<And>v. v \<in> set vs \<Longrightarrow> map_of held (vt_target_id v) \<noteq> Some i) \<Longrightarrow>
     labels_of_stage i db' = labels_of_stage i db
     \<and> (\<forall>r. sg_id r = i \<longrightarrow> r \<in> set (ab_stages db) \<longrightarrow> r \<in> set (ab_stages db'))"
proof (induction vs arbitrary: db c)
  case Nil
  then show ?case by (auto simp: nothing_committed_def)
next
  case (Cons v vs)
  from Cons.prems(1) show ?case
  proof (cases rule: commit_results_Cons)
    case 1
    with Cons show ?thesis by fastforce
  next
    case (2 j r gates db1 rest)
    have ij: "i \<noteq> j" using 2(1) Cons.prems(2) [of v] by auto
    have rj: "sg_id r = j" using find_stage_Some [OF 2(2)] by simp
    obtain rows where rows: "ab_labels db1 = ab_labels db @ rows" "list_all (label_for r) rows"
      by (rule result_label_rows [OF 2(5)]) simp
    have "labels_of_stage i db1 = labels_of_stage i db"
      using rows ij rj by (auto simp: labels_of_stage_def filter_empty_conv list_all_iff label_for_def)
    moreover have "ab_stages db1 = ab_stages (update_stage j (inferred_stage (validated_result_document v) now) db)"
      by (rule label_step_stages [OF 2(5)])
    moreover have "r \<in> set (ab_stages (update_stage j f db))" if "r \<in> set (ab_stages db)" "sg_id r = i" for r f
      using that ij by (force simp: set_update_where)
    ultimately show ?thesis using Cons.IH [OF 2(6)] Cons.prems(2) by (auto simp: 2(7))
  qed
qed

lemma committed_outcome:
  assumes "commit_results fresh s call now held vs db = Inr (c, db')" "analysis_ok db" "distinct (map vt_target_id vs)"
    and "\<And>t. t \<in> vt_target_id ` set vs \<Longrightarrow> holds db held t" "cs_run_mode (sn_claim s) \<noteq> ''test'' \<Longrightarrow> formal_held db held"
    and "v \<in> set vs" "vt_target_id v \<in> set (cr_committed_target_ids c)"
  shows "\<exists>r \<in> set (ab_stages db'). map_of held (vt_target_id v) = Some (sg_id r) \<and> sg_target_id r = vt_target_id v
    \<and> sg_status r = S_SUCCEEDED \<and> sg_parsed_result r = Some (validated_result_document v) \<and> sg_lease_token r = None
    \<and> (if cs_run_mode (sn_claim s) \<noteq> ''test'' then list_all2 (assigned v) (vt_labels v) (labels_of_stage (sg_id r) db')
       else labels_of_stage (sg_id r) db' = [])"
  using assms
proof (induction vs arbitrary: db c)
  case (Cons w vs)
  from Cons.prems(1) show ?case
  proof (cases rule: commit_results_Cons)
    case 1
    have "v \<in> set vs"
    proof (rule ccontr)
      assume "v \<notin> set vs"
      with Cons.prems(6) have "v = w" by simp
      have "set (cr_committed_target_ids c) \<subseteq> vt_target_id ` set vs" by (rule commit_results_committed [OF 1(1)])
      with Cons.prems(3,7) \<open>v = w\<close> show False by auto
    qed
    from Cons.IH [OF 1(1) Cons.prems(2) _ _ _ this] Cons.prems show ?thesis by simp
  next
    case (2 i r gates db1 rest)
    let ?f = "inferred_stage (validated_result_document w) now"
    let ?db = "set_wakeup_terminal i now db1"
    have h: "holds db held (vt_target_id w)" using Cons.prems(4) by simp
    note r = holds_row [OF Cons.prems(2) h 2(1,2)]
    have f: "stage_ok (?f r) \<and> stage_evolves r (?f r) \<and> sg_status (?f r) = S_SUCCEEDED"
      if "sg_status r = S_RUNNING" "stage_ok r"
      using running_stage_ok(2) [OF that(2,1) 2(4)] running_stage_evolves(2) [OF that(1)] by (simp add: inferred_succeeds)
    have lf: "\<And>k l row. label_of_result k now r w l = Inr row \<Longrightarrow> label_for r row" by (rule label_for_rows(1))
    note one = commit_one_good [OF Cons.prems(2) h 2(1,2) f 2(5) lf Cons.prems(5)]
    have g: "good db ?db" by (rule one(1))
    have ok: "analysis_ok ?db" by (rule good_ok [OF g Cons.prems(2)])
    have fh: "cs_run_mode (sn_claim s) \<noteq> ''test'' \<Longrightarrow> formal_held ?db held"
      by (rule formal_held_evolves [OF good_evolves [OF g Cons.prems(2)] Cons.prems(5)])
    have hs: "holds ?db held u" if "u \<in> vt_target_id ` set vs" for u
      by (rule after_commit [OF Cons.prems(2) h 2(1) _ _ one(2)]) (use that Cons.prems(3,4) in auto)
    show ?thesis
    proof (cases "v = w")
      case False
      with Cons.prems(6) have v: "v \<in> set vs" by simp
      then have "vt_target_id v \<in> vt_target_id ` set vs" by (rule imageI)
      with Cons.prems(3) have "vt_target_id v \<noteq> vt_target_id w" by auto
      with Cons.prems(7) have "vt_target_id v \<in> set (cr_committed_target_ids rest)" by (simp add: 2(7))
      from Cons.IH [OF 2(6) ok _ hs fh v this] Cons.prems(3) show ?thesis by simp
    next
      case True
      have mem: "?f r \<in> set (ab_stages ?db)" 
      proof -
        have "ab_stages ?db = update_where (\<lambda>x. sg_id x = i) ?f (ab_stages db)" using one(2) by simp
        moreover have "?f r \<in> set (update_where (\<lambda>x. sg_id x = i) ?f (ab_stages db))"
          unfolding in_update_where using r(1,2) by blast
        ultimately show ?thesis by simp
      qed
      have other: "map_of held (vt_target_id u) \<noteq> Some i" if "u \<in> set vs" for u
      proof
        assume u: "map_of held (vt_target_id u) = Some i"
        have "holds db held (vt_target_id u)" using Cons.prems(4) that by simp
        from holds_row [OF Cons.prems(2) this u 2(2)] r(4) have "vt_target_id u = vt_target_id w" by simp
        moreover from that have "vt_target_id u \<in> vt_target_id ` set vs" by (rule imageI)
        ultimately show False using Cons.prems(3) by simp
      qed
      note frame = commit_results_frame [OF 2(6) other]
      obtain rows where
          rows: "ab_labels db1 = ab_labels db @ rows" "list_all (label_for r) rows"
            "cs_run_mode (sn_claim s) \<noteq> ''test'' \<longrightarrow> list_all2 (assigned w) (vt_labels w) rows"
            "cs_run_mode (sn_claim s) = ''test'' \<longrightarrow> rows = []"
        by (rule result_label_rows [OF 2(5)]) simp
      have "labels_of_stage i db = []"
      proof -
        have "ml_stage_run_id x \<noteq> i" if "x \<in> set (ab_labels db)" for x
        proof
          assume x: "ml_stage_run_id x = i"
          from Cons.prems(2) that obtain q where q: "q \<in> set (ab_stages db)" "sg_id q = i" "sg_status q = S_SUCCEEDED"
            using x by (auto simp: analysis_ok_def label_ok_def)
          have "q = r" by (rule stage_key [OF Cons.prems(2) q(1) r(1)]) (use q r in simp)
          with q(3) r(3) show False by simp
        qed
        then show ?thesis by (simp add: labels_of_stage_def filter_empty_conv)
      qed
      then have "labels_of_stage i db1 = rows"
        using rows(1,2) r(2) by (auto simp: labels_of_stage_def list_all_iff label_for_def intro!: filter_True)
      with frame have labels: "labels_of_stage i db' = rows" by simp
      have "?f r \<in> set (ab_stages db')" using frame mem r(2) by (simp add: inferred_stage_def clear_stage_lease_def)
      moreover have "sg_id (?f r) = i" "sg_target_id (?f r) = vt_target_id w" "sg_parsed_result (?f r) = Some (validated_result_document w)"
          "sg_lease_token (?f r) = None" using r by (simp_all add: inferred_stage_def clear_stage_lease_def)
      ultimately show ?thesis using rows(3,4) 2(1) True labels
        by (intro bexI [of _ "?f r"]) (auto simp: inferred_succeeds)
    qed
  qed
qed simp

text \<open>
  C15: Validated results take effect as they are: for every target that a commit reports, the stage run the
  worker held has succeeded with exactly the document of that result and no lease, and outside test runs
  its label assignments are exactly the labels of that result, in order; a test run assigns none.
\<close>

theorem committed_results_are_stored:
  assumes "analysis_reachable host_ok db" and "loaded db s" and "distinct (map vt_target_id results)"
    and "commit_validated_targets fresh s call results now db = Inr (c, db')"
    and "v \<in> set results" and "vt_target_id v \<in> set (cr_committed_target_ids c)"
  shows "\<exists>r \<in> set (ab_stages db'). sg_target_id r = vt_target_id v \<and> sg_status r = S_SUCCEEDED
    \<and> uuid_or_value_error (cs_stage_run_id (sn_claim s)) = Inr (sg_id r)
    \<and> sg_parsed_result r = Some (validated_result_document v) \<and> sg_lease_token r = None
    \<and> (if cs_run_mode (sn_claim s) \<noteq> ''test''
       then list_all2 (assigned v) (vt_labels v) (filter (\<lambda>x. ml_stage_run_id x = sg_id r) (ab_labels db'))
       else filter (\<lambda>x. ml_stage_run_id x = sg_id r) (ab_labels db') = [])"
proof -
  note ok = analysis_reachable_ok [OF assms(1)]
  have "results \<noteq> []" using assms(5) by auto
  with assms(4) obtain held where h: "lock_targets (chosen_targets (map vt_target_id results) s) now db = Inr held"
    and c: "commit_results fresh s call now held results db = Inr (c, db')"
    unfolding commit_validated_targets_def by (auto elim!: try_bindE)
  have sub: "set (chosen_targets (map vt_target_id results) s) \<subseteq> set (sn_targets s)" by (auto simp: chosen_targets_def)
  from committed_outcome [OF c ok assms(3) lock_targets_holds [OF h] loaded_formal [OF ok assms(2) sub h] assms(5,6)]
  obtain r where r: "r \<in> set (ab_stages db')" "map_of held (vt_target_id v) = Some (sg_id r)" "sg_target_id r = vt_target_id v"
      "sg_status r = S_SUCCEEDED" "sg_parsed_result r = Some (validated_result_document v)" "sg_lease_token r = None"
      "if cs_run_mode (sn_claim s) \<noteq> ''test'' then list_all2 (assigned v) (vt_labels v) (labels_of_stage (sg_id r) db')
       else labels_of_stage (sg_id r) db' = []" by blast
  from lock_targets_held(2) [OF h map_of_SomeD [OF r(2)]] obtain q where
      "sg_id q = sg_id r" "holder_token (chosen_targets (map vt_target_id results) s) (vt_target_id v) q" by blast
  with assms(2) sub have "uuid_or_value_error (cs_stage_run_id (sn_claim s)) = Inr (sg_id r)"
    by (auto simp: holder_token_def loaded_def)
  with r show ?thesis unfolding labels_of_stage_def by (intro bexI [of _ r]) simp_all
qed

theorem committed_results_are_stored_witness:
  "\<exists>r \<in> set (ab_stages engine7). sg_status r = S_SUCCEEDED
     \<and> list_all2 (assigned sample_result) (vt_labels sample_result) (filter (\<lambda>x. ml_stage_run_id x = sg_id r) (ab_labels engine7))"
proof -
  have "vt_target_id sample_result = uuid_text 1" by (simp add: sample_result_def)
  then show ?thesis
    using committed_results_are_stored [OF engine_reachable(7) [of "\<lambda>h. True"] sample_loaded(3) _ engine7, of sample_result]
    by (auto simp: formal_claim_def sample_snapshot_def sample_claim_def)
qed

section \<open>Cached results of test runs\<close>

lemma commit_cached_without_labels:
  "commit_cached host_ok fresh m s key source parsed [] now held ts db = Inr (c, db') \<Longrightarrow>
     ab_labels db' = ab_labels db \<and> cr_negative_gate_assignments c = []"
proof (induction host_ok fresh m s key source parsed "[] :: model_label_row list" now held ts db arbitrary: c rule: commit_cached.induct)
  case (2 host_ok fresh m s key source parsed now held t ts db)
  show ?case
  proof (cases "map_of held (ts_target_id t)")
    case None
    with 2 show ?thesis by simp
  next
    case (Some i)
    note i = Some
    show ?thesis
    proof (cases "find_stage i db")
      case None
      with "2.prems" i show ?thesis by simp
    next
      case (Some r)
      let ?db = "update_stage i (cached_stage m (rewrite_cached_target host_ok parsed (ts_target_id t)) key (sg_id source) now) db"
      have e: "(if cs_run_mode (sn_claim s) \<noteq> ''test'' then add_labels (\<lambda>k l. Inr (copy_assignment k now r l)) fresh [] ?db
          else Inr ([], ?db)) = Inr ([], ?db)" by simp
      from "2.prems" i Some obtain rest where rest: "commit_cached host_ok fresh m s key source parsed [] now held ts
          (set_wakeup_terminal i now ?db) = Inr (rest, db')"
        and c: "cr_negative_gate_assignments c = cr_negative_gate_assignments rest"
        by (auto simp: Let_def elim!: try_bindE split: prod.splits if_splits)
      from "2.hyps"(2) [OF i Some HOL.refl e HOL.refl rest] show ?thesis by (simp add: c)
    qed
  qed
qed (simp add: nothing_committed_def)

text \<open>
  C25: A formal run that reuses the result of a test run gets the result but not its labels: the lookup does
  not ask for the mode of the source's run, a test run assigns no labels, and the copy has none to copy; so
  the stage run succeeds, nothing is assigned, and no negative gate is ever requested.
\<close>

theorem test_result_reused_without_labels:
  assumes "analysis_reachable host_ok db" and "loaded db s"
    and source: "source \<in> set (ab_stages db)" "uuid_or_value_error (ch_source_stage_run_id hit) = Inr (sg_id source)"
    and "test_run \<in> set (ab_runs db)" "an_id test_run = sg_analysis_run_id source" "an_run_mode test_run = ''test''"
    and "commit_cache_hit host_ok fresh m s manifest key hit now db = Inr (c, db')"
  shows "ab_labels db' = ab_labels db \<and> cr_negative_gate_assignments c = []"
  using assms(8)
proof (cases rule: commit_cache_hit_cases)
  case 1
  then show ?thesis by (simp add: nothing_committed_def)
next
  case (2 source_id found held version parsed)
  note ok = analysis_reachable_ok [OF assms(1)]
  have id: "source_id = sg_id source" using 2(1) source(2) by simp
  have "filter (\<lambda>l. ml_stage_run_id l = source_id) (ab_labels db) = []"
  proof -
    have "ml_stage_run_id l \<noteq> source_id" if "l \<in> set (ab_labels db)" for l
    proof
      assume e: "ml_stage_run_id l = source_id"
      from ok that have lab: "label_ok (ab_runs db) (ab_stages db) l" by (simp add: analysis_ok_def)
      then obtain r where r: "r \<in> set (ab_stages db)" "sg_id r = source_id" "sg_analysis_run_id r = ml_analysis_run_id l"
        using e by (auto simp: label_ok_def)
      have "r = source" by (rule stage_key [OF ok r(1) source(1)]) (simp add: r(2) id)
      with r(3) assms(5-7) lab show False by (auto simp: label_ok_def)
    qed
    then show ?thesis by (simp add: filter_empty_conv)
  qed
  with commit_cached_without_labels 2(7) show ?thesis by fastforce
qed

theorem test_result_reused_without_labels_witness:
  "\<exists>c. commit_cache_hit (\<lambda>h. True) sample_fresh (uuid_text 75) (sample_snapshot formal_claim) sample_manifest sample_key sample_hit 9 engine4
       = Inr (c, engine5 (\<lambda>h. True))
     \<and> cr_committed_target_ids c = [uuid_text 1] \<and> cs_run_mode formal_claim = ''formal''
     \<and> ab_labels (engine5 (\<lambda>h. True)) = ab_labels engine4 \<and> cr_negative_gate_assignments c = []"
proof -
  have t: "test_stage3 \<in> set (ab_stages engine4)" "run_underway 5 (sample_run 10 ''test'') \<in> set (ab_runs engine4)"
    by (simp_all add: engine4_def)
  have u: "uuid_or_value_error (ch_source_stage_run_id sample_hit) = Inr (sg_id test_stage3)"
    by (simp add: sample_hit_def test_stage3_columns sample_uuid_parses)
  from test_result_reused_without_labels [OF engine_reachable(5) sample_loaded(2) t(1) u t(2) _ _ engine5] engine5 [of "\<lambda>h. True"]
  show ?thesis by (auto simp: test_stage3_columns run_underway_def sample_run_def formal_claim_def sample_claim_def)
qed

section \<open>A lost completion\<close>

text \<open>
  C26: A worker that stops between committing its result and completing the run leaves the run open for ever:
  once all stage runs of a run are finished, no claim of any of them returns or changes anything, at any time
  and whatever is delivered, so no worker reaches the completion of that run or its negative gate again.
\<close>

theorem finished_run_is_not_claimed:
  assumes "analysis_reachable host_ok db" and "run \<in> set (ab_runs db)"
    and "\<forall>r \<in> set (ab_stages db). sg_analysis_run_id r = an_id run \<longrightarrow> sg_status r \<notin> {S_PENDING, S_RUNNING, S_RETRY_WAIT}"
    and "analysis_steps host_ok db db'" and "r \<in> set (ab_stages db')" and "sg_analysis_run_id r = an_id run"
    and "uuid_or_value_error stage_run_id = Inr (sg_id r)"
  shows "claim_stage locked token stage_run_id now duration db' = Inr (None, db')"
proof -
  note ok = analysis_reachable_ok [OF assms(1)]
  note g = analysis_steps_good [OF assms(4)]
  obtain q where q: "q \<in> set (ab_stages db)" "stage_evolves q r" by (rule evolves_stage [OF good_evolves [OF g ok] assms(5)])
  with assms(3,6) have "r = q" "sg_status r \<notin> {S_PENDING, S_RUNNING, S_RETRY_WAIT}"
    by (auto simp: stage_evolves_def active_stage_status_def)
  then have idle: "\<not> due_stage now r" by (auto simp: due_stage_def)
  have "find (\<lambda>x. sg_id x = sg_id r \<and> due_stage now x \<and> sg_id r \<notin> set locked) (ab_stages db') = None"
    unfolding find_None_iff
  proof
    assume "\<exists>x. x \<in> set (ab_stages db') \<and> sg_id x = sg_id r \<and> due_stage now x \<and> sg_id r \<notin> set locked"
    then obtain x where x: "x \<in> set (ab_stages db')" "sg_id x = sg_id r" "due_stage now x" by blast
    from stage_key [OF good_ok [OF g ok] x(1) assms(5) x(2)] x(3) idle show False by simp
  qed
  with assms(7) show ?thesis by (simp add: claim_stage_def)
qed

theorem finished_run_is_not_claimed_witness:
  "claim_stage [] (uuid_text 44) (uuid_text 20) 1000 10 engine3 = Inr (None, engine3)
   \<and> (\<exists>run \<in> set (ab_runs engine3). an_id run = uuid_text 10 \<and> an_status run = ''running'')"
proof
  let ?run = "run_underway 5 (sample_run 10 ''test'')"
  have run: "?run \<in> set (ab_runs engine3)" "an_id ?run = uuid_text 10" "an_status ?run = ''running''"
    by (simp_all add: engine_defs run_underway_def sample_run_def)
  then show "\<exists>run \<in> set (ab_runs engine3). an_id run = uuid_text 10 \<and> an_status run = ''running''" by blast
  have st: "ab_stages engine3 = [test_stage3, sample_stage_run 21 11, sample_stage_run 22 11]" by (simp add: engine3_def)
  show "claim_stage [] (uuid_text 44) (uuid_text 20) 1000 10 engine3 = Inr (None, engine3)"
    by (rule finished_run_is_not_claimed [OF engine_reachable(4) [of "\<lambda>h. True"] run(1) _ analysis_steps.none, of test_stage3])
      (simp_all add: st test_stage3_columns run(2) sample_uuid_parses sample_stage_run_def sample_uuid_eq)
qed

end
