(* ===== verification/Analysis_Worker.thy ===== *)
theory Analysis_Worker
  imports Analysis_Loading Analysis_Results
begin

text \<open>
  The durable worker of one stage run, \<^verbatim>\<open>application/analysis/worker.py\<close>: claim, load and prepare, reuse a
  cached result or call the provider, record, validate, commit, retry, close the gate, and update the run.

  Each call of the repository is a transaction of its own; what other processes write before the k-th of
  them is \<open>ae_meanwhile k\<close>.  A transaction that raises leaves the tables as it found them.
\<close>

section \<open>Transactions\<close>

record analysis_env =
  ae_locked :: "uuid list"
  ae_token :: uuid
  ae_lease_duration :: int
  ae_manifest_id :: uuid
  ae_call_id :: uuid
  ae_fresh :: "nat \<Rightarrow> uuid"
  ae_catalog :: analysis_catalog
  ae_host_ok :: "string \<Rightarrow> bool"
  ae_sha :: "string \<Rightarrow> string"
  ae_float_text :: "rat \<Rightarrow> string"
  ae_provider :: "(inference_request \<Rightarrow> provider_reply) option"
  ae_meanwhile :: "nat \<Rightarrow> analysis_db \<Rightarrow> analysis_db"

type_synonym 'a work = "nat \<times> analysis_db \<Rightarrow> 'a result \<times> nat \<times> analysis_db"

definition done_with :: "'a \<Rightarrow> 'a work" where
  "done_with x = (\<lambda>s. (Inr x, s))"

definition work_bind :: "'a work \<Rightarrow> ('a \<Rightarrow> 'b work) \<Rightarrow> 'b work" where
  "work_bind m f = (\<lambda>s. case m s of (Inl e, s') \<Rightarrow> (Inl e, s') | (Inr x, s') \<Rightarrow> f x s')"

definition compute :: "'a result \<Rightarrow> 'a work" where
  "compute r = (\<lambda>s. (r, s))"

definition transaction :: "analysis_env \<Rightarrow> (analysis_db \<Rightarrow> ('a \<times> analysis_db) result) \<Rightarrow> 'a work" where
  "transaction env operation = (\<lambda>(k, db).
     let seen = ae_meanwhile env k db
     in case operation seen of Inl e \<Rightarrow> (Inl e, Suc k, seen) | Inr (x, db') \<Rightarrow> (Inr x, Suc k, db'))"

section \<open>The worker\<close>

definition analysis_inputs :: "stage_snapshot \<Rightarrow> target_input list result" where
  "analysis_inputs s = traverse (\<lambda>t. check_target_input
     \<lparr>ti_target_id = ts_target_id t, ti_message_id = ts_message_id t, ti_asset_id = ts_asset_id t, ti_text = ts_text t,
      ti_telegram_metadata = ts_telegram_metadata t, ti_media = ts_media t,
      ti_previous_results = ts_previous_results t, ti_visual_identity = ts_visual_identity t\<rparr>) (sn_targets s)"

text \<open>
  Instants count microseconds, delays are given in seconds.  The range of Python's dates is not modelled:
  \<^verbatim>\<open>timedelta(seconds=delay)\<close> and the sum raise \<^verbatim>\<open>OverflowError\<close> beyond it.
\<close>

definition seconds_delay :: "int \<Rightarrow> int" where
  "seconds_delay s = s * 1000000"

definition stage_retry_at :: "stage_snapshot \<Rightarrow> int \<Rightarrow> int" where
  "stage_retry_at s now =
     now + seconds_delay (min (sr_max_delay_seconds (st_retry_policy (sn_stage s)))
       (sr_base_delay_seconds (st_retry_policy (sn_stage s)) * 2 ^ nat (max 0 (cs_attempt_count (sn_claim s) - 1))))"

definition fail_claim :: "analysis_env \<Rightarrow> claimed_stage_run \<Rightarrow> execution_failure \<Rightarrow> int \<Rightarrow> bool work" where
  "fail_claim env c f now =
     transaction env (retry_or_fail_claim c (ef_code f) (ef_error_type f) (ef_retryable f)
       (now + seconds_delay (min 300 (5 * 2 ^ nat (max 0 (cs_attempt_count c - 1))))) now)"

definition fail_targets :: "analysis_env \<Rightarrow> stage_snapshot \<Rightarrow> execution_failure \<Rightarrow> int \<Rightarrow> bool work" where
  "fail_targets env s f now =
     transaction env (retry_or_fail_targets s (map ts_target_id (sn_targets s)) (ef_code f) (ef_error_type f)
       (ef_retryable f) (stage_retry_at s now) now)"

definition finish_stage :: "analysis_env \<Rightarrow> stage_snapshot \<Rightarrow> commit_result \<Rightarrow> int \<Rightarrow> bool work" where
  "finish_stage env s committed now =
     work_bind
       (if cs_run_mode (sn_claim s) \<noteq> ''test'' \<and> cr_negative_gate_assignments committed \<noteq> []
        then transaction env (apply_negative_gate (cs_analysis_run_id (sn_claim s)) (cr_negative_gate_assignments committed) now)
        else done_with False) (\<lambda>_.
     transaction env (complete_analysis_run (cs_analysis_run_id (sn_claim s)) now))"

text \<open>The body of the \<^verbatim>\<open>try\<close>, in the transaction that loads the snapshot.\<close>

definition prepared_stage ::
  "analysis_env \<Rightarrow> claimed_stage_run \<Rightarrow> analysis_db \<Rightarrow> input_error + stage_snapshot \<times> target_input list \<times> prepared_call" where
  "prepared_stage env c db =
     try_bind (raised (load_stage_snapshot (ae_host_ok env) (ae_catalog env) c db)) (\<lambda>s.
     try_bind (raised (analysis_inputs s)) (\<lambda>targets.
     try_bind (prepare_call (ae_sha env) (ae_float_text env) (sn_stage s) targets (sn_source_channel_context s)
         (cs_attempt_count c)) (\<lambda>call.
       Inr (s, targets, call))))"

definition reuse_cached ::
  "analysis_env \<Rightarrow> stage_snapshot \<Rightarrow> prepared_call \<Rightarrow> int \<Rightarrow> commit_result option work" where
  "reuse_cached env s call now =
     (case pc_cache_key call of
        None \<Rightarrow> done_with None
      | Some key \<Rightarrow>
          work_bind (transaction env (\<lambda>db. try_bind (find_cache_hit (ae_host_ok env) s key db) (\<lambda>hit. Inr (hit, db)))) (\<lambda>hit.
            case hit of
              None \<Rightarrow> done_with None
            | Some h \<Rightarrow>
                work_bind (transaction env (commit_cache_hit (ae_host_ok env) (ae_fresh env) (ae_manifest_id env) s
                    (iq_input_manifest (pc_request call)) key h now)) (\<lambda>committed.
                  done_with (Some committed))))"

definition request_summary :: "stage_snapshot \<Rightarrow> target_input list \<Rightarrow> prepared_call \<Rightarrow> pyval" where
  "request_summary s targets call = PDict
     [(''target_ids'', PList (map (\<lambda>t. PStr (ti_target_id t)) targets)),
      (''prompt_version_id'', PStr (pt_version_id (st_prompt (sn_stage s)))),
      (''label_set_version_id'', PStr (ls_version_id (st_label_set (sn_stage s)))),
      (''inference_profile_version_id'', PStr (ip_version_id (st_inference_profile (sn_stage s)))),
      (''input_manifest_hash'', PStr (mn_hash (iq_input_manifest (pc_request call))))]"

text \<open>The default of \<^verbatim>\<open>next\<close> is evaluated first: \<^verbatim>\<open>issues[0]\<close> of no issues raises.\<close>

definition fallback_issue :: "validation_issue list \<Rightarrow> validation_issue result" where
  "fallback_issue issues =
     (case issues of
        [] \<Rightarrow> Inl IndexError
      | i # _ \<Rightarrow> Inr (case find (\<lambda>j. vi_target_id j = None) issues of None \<Rightarrow> i | Some j \<Rightarrow> j))"

definition issue_of :: "validation_issue list \<Rightarrow> validation_issue \<Rightarrow> string \<Rightarrow> validation_issue" where
  "issue_of issues fallback t = (case find (\<lambda>i. vi_target_id i = Some t) issues of None \<Rightarrow> fallback | Some i \<Rightarrow> i)"

fun retry_each ::
  "analysis_env \<Rightarrow> stage_snapshot \<Rightarrow> validation_issue list \<Rightarrow> validation_issue \<Rightarrow> int \<Rightarrow> string list \<Rightarrow> unit work" where
  "retry_each env s issues fallback now [] = done_with ()"
| "retry_each env s issues fallback now (t # ts) =
     work_bind (transaction env (retry_or_fail_targets s [t] (vi_code (issue_of issues fallback t))
         (vi_error_type (issue_of issues fallback t)) True (stage_retry_at s now) now)) (\<lambda>_.
       retry_each env s issues fallback now ts)"

definition retry_invalid :: "analysis_env \<Rightarrow> stage_snapshot \<Rightarrow> structured_output_validation \<Rightarrow> int \<Rightarrow> unit work" where
  "retry_invalid env s v now =
     (if sv_retry_target_ids v = [] then done_with ()
      else work_bind (compute (fallback_issue (sv_issues v))) (\<lambda>fallback.
        retry_each env s (sv_issues v) fallback now (sv_retry_target_ids v)))"

definition process_failure ::
  "analysis_env \<Rightarrow> claimed_stage_run \<Rightarrow> stage_snapshot \<Rightarrow> started_call \<Rightarrow> execution_failure \<Rightarrow> int \<Rightarrow> bool work" where
  "process_failure env c s call f now =
     work_bind (transaction env (record_inference_failure (ae_host_ok env) call f now)) (\<lambda>_.
     work_bind (fail_targets env s f now) (\<lambda>_.
     work_bind (transaction env (complete_analysis_run (cs_analysis_run_id c) now)) (\<lambda>_. done_with True)))"

definition process_response ::
  "analysis_env \<Rightarrow> stage_snapshot \<Rightarrow> target_input list \<Rightarrow> started_call \<Rightarrow> inference_response \<Rightarrow> int \<Rightarrow> bool work" where
  "process_response env s targets call response now =
     work_bind (transaction env (record_inference_success (ae_host_ok env) call response now)) (\<lambda>_.
     work_bind (compute (validate_response (sn_stage s) targets response)) (\<lambda>(v, negative).
     work_bind (transaction env (commit_validated_targets (ae_fresh env) s call (sv_valid_results v) now)) (\<lambda>committed.
     work_bind (retry_invalid env s v now) (\<lambda>_.
     work_bind (finish_stage env s committed now) (\<lambda>_. done_with True)))))"

definition process_inference ::
  "analysis_env \<Rightarrow> claimed_stage_run \<Rightarrow> stage_snapshot \<Rightarrow> target_input list \<Rightarrow> prepared_call \<Rightarrow> int \<Rightarrow> bool work" where
  "process_inference env c s targets prepared now =
     work_bind (transaction env (start_inference (ae_host_ok env) (ae_manifest_id env) (ae_call_id env) s
         (iq_input_manifest (pc_request prepared)) (PDict (sx_document (pc_schema prepared)))
         (sx_schema_hash (pc_schema prepared)) (pc_cache_key prepared) (request_summary s targets prepared) now)) (\<lambda>call.
       case call of
         None \<Rightarrow> done_with False
       | Some call \<Rightarrow>
           (case invoke_provider (ae_provider env) prepared of
              Inl f \<Rightarrow> process_failure env c s call f now
            | Inr response \<Rightarrow> process_response env s targets call response now))"

definition process_claim :: "analysis_env \<Rightarrow> claimed_stage_run \<Rightarrow> int \<Rightarrow> bool work" where
  "process_claim env c now =
     work_bind (transaction env (\<lambda>db. Inr (prepared_stage env c db, db))) (\<lambda>p.
       case p of
         Inl e \<Rightarrow>
           work_bind (fail_claim env c (preparation_failure e) now) (\<lambda>_.
           work_bind (transaction env (complete_analysis_run (cs_analysis_run_id c) now)) (\<lambda>_. done_with True))
       | Inr (s, targets, prepared) \<Rightarrow>
           work_bind (reuse_cached env s prepared now) (\<lambda>reused.
             case reused of
               Some committed \<Rightarrow> work_bind (finish_stage env s committed now) (\<lambda>_. done_with True)
             | None \<Rightarrow> process_inference env c s targets prepared now))"

definition process_stage_run :: "analysis_env \<Rightarrow> string \<Rightarrow> int \<Rightarrow> bool work" where
  "process_stage_run env stage_run_id now =
     work_bind (transaction env (claim_stage (ae_locked env) (ae_token env) stage_run_id now (ae_lease_duration env))) (\<lambda>c.
       case c of None \<Rightarrow> done_with False | Some c \<Rightarrow> process_claim env c now)"

section \<open>Reasoning about the transactions of a worker\<close>

text \<open>
  From a state with \<open>P\<close>, a piece of work that returns \<open>x\<close> ends in a state with \<open>Q x\<close>, one that raises in a state with \<open>E\<close>.
\<close>

definition triple ::
  "(analysis_db \<Rightarrow> bool) \<Rightarrow> 'a work \<Rightarrow> ('a \<Rightarrow> analysis_db \<Rightarrow> bool) \<Rightarrow> (analysis_db \<Rightarrow> bool) \<Rightarrow> bool" where
  "triple P m Q E \<longleftrightarrow> (\<forall>k db r k' db'. P db \<longrightarrow> m (k, db) = (r, k', db') \<longrightarrow>
     (case r of Inl e \<Rightarrow> E db' | Inr x \<Rightarrow> Q x db'))"

lemma triple_done: "(\<And>db. P db \<Longrightarrow> Q x db) \<Longrightarrow> triple P (done_with x) Q E"
  by (simp add: triple_def done_with_def)

lemma triple_compute:
  "(\<And>x db. r = Inr x \<Longrightarrow> P db \<Longrightarrow> Q x db) \<Longrightarrow> (\<And>db. P db \<Longrightarrow> E db) \<Longrightarrow> triple P (compute r) Q E"
  by (cases r) (simp_all add: triple_def compute_def)

lemma triple_bind:
  assumes "triple P m R E" and "\<And>x. triple (R x) (f x) Q E"
  shows "triple P (work_bind m f) Q E"
  unfolding triple_def
proof (intro allI impI)
  fix k db r k' db'
  assume P: "P db" and run: "work_bind m f (k, db) = (r, k', db')"
  obtain r1 k1 db1 where m: "m (k, db) = (r1, k1, db1)" by (cases "m (k, db)")
  from assms(1) P m have R: "case r1 of Inl e \<Rightarrow> E db1 | Inr x \<Rightarrow> R x db1" unfolding triple_def by blast
  show "case r of Inl e \<Rightarrow> E db' | Inr x \<Rightarrow> Q x db'"
  proof (cases r1)
    case (Inl e)
    with R m run show ?thesis by (auto simp: work_bind_def)
  next
    case (Inr x)
    with m run have "f x (k1, db1) = (r, k', db')" by (simp add: work_bind_def)
    with R Inr assms(2) [of x, unfolded triple_def] show ?thesis by simp
  qed
qed

lemma triple_weaken: "triple P m Q E \<Longrightarrow> (\<And>db. P' db \<Longrightarrow> P db) \<Longrightarrow> triple P' m Q E"
  unfolding triple_def by blast

lemma triple_transaction:
  assumes "\<And>k db. P db \<Longrightarrow> R (ae_meanwhile env k db)" and "\<And>db. R db \<Longrightarrow> E db"
    and "\<And>db x db'. R db \<Longrightarrow> operation db = Inr (x, db') \<Longrightarrow> Q x db'"
  shows "triple P (transaction env operation) Q E"
  unfolding triple_def
proof (intro allI impI)
  fix k db r k' db'
  assume P: "P db" and run: "transaction env operation (k, db) = (r, k', db')"
  note R = assms(1) [OF P, of k]
  show "case r of Inl e \<Rightarrow> E db' | Inr x \<Rightarrow> Q x db'"
  proof (cases "operation (ae_meanwhile env k db)")
    case (Inl e)
    with run assms(2) [OF R] show ?thesis by (auto simp: transaction_def)
  next
    case (Inr p)
    then obtain x d where "operation (ae_meanwhile env k db) = Inr (x, d)" by (cases p) simp
    with run assms(3) [OF R this] show ?thesis by (auto simp: transaction_def)
  qed
qed

section \<open>Interference\<close>

text \<open>What other processes do between the transactions of the worker is a run of the engine.\<close>

definition among_others :: "analysis_env \<Rightarrow> analysis_db \<Rightarrow> bool" where
  "among_others env db0 \<longleftrightarrow> analysis_reachable (ae_host_ok env) db0
     \<and> (\<forall>k db. analysis_reachable (ae_host_ok env) db \<longrightarrow> analysis_steps (ae_host_ok env) db (ae_meanwhile env k db))"

text \<open>
  The token and the call id are new UUIDs, and so others neither write a row under the token nor lease one by
  it; the ids of stage runs are UUIDs, and the lease takes time.
\<close>

definition own_lease :: "analysis_env \<Rightarrow> analysis_db \<Rightarrow> bool" where
  "own_lease env db0 \<longleftrightarrow> 0 < ae_lease_duration env
     \<and> uuid_or_value_error (ae_token env) = Inr (ae_token env) \<and> uuid_or_value_error (ae_call_id env) = Inr (ae_call_id env)
     \<and> (\<forall>r \<in> set (ab_stages db0). uuid_or_value_error (sg_id r) = Inr (sg_id r) \<and> sg_lease_token r \<noteq> Some (ae_token env))
     \<and> (\<forall>k db. \<forall>r \<in> set (ab_stages (ae_meanwhile env k db)). sg_lease_token r = Some (ae_token env) \<longrightarrow> r \<in> set (ab_stages db))"

definition holds_lease :: "analysis_env \<Rightarrow> int \<Rightarrow> claimed_stage_run \<Rightarrow> bool \<Rightarrow> stage_row \<Rightarrow> bool" where
  "holds_lease env now c called r \<longleftrightarrow> uuid_or_value_error (cs_stage_run_id c) = Inr (sg_id r)
     \<and> sg_lease_expires_at r = Some (now + ae_lease_duration env)
     \<and> (called \<longrightarrow> sg_inference_call_id r = Some (ae_call_id env))"

definition at_work :: "analysis_env \<Rightarrow> analysis_db \<Rightarrow> int \<Rightarrow> claimed_stage_run \<Rightarrow> bool \<Rightarrow> analysis_db \<Rightarrow> bool" where
  "at_work env db0 now c called db \<longleftrightarrow> analysis_steps (ae_host_ok env) db0 db \<and> issued db c
     \<and> cs_lease_token c = ae_token env
     \<and> (own_lease env db0 \<longrightarrow>
          (\<forall>r \<in> set (ab_stages db). sg_lease_token r = Some (ae_token env) \<longrightarrow> holds_lease env now c called r))"

definition relieved :: "analysis_env \<Rightarrow> analysis_db \<Rightarrow> analysis_db \<Rightarrow> bool" where
  "relieved env db0 db \<longleftrightarrow> analysis_steps (ae_host_ok env) db0 db
     \<and> (own_lease env db0 \<longrightarrow> (\<forall>r \<in> set (ab_stages db). sg_lease_token r \<noteq> Some (ae_token env)))"

lemma analysis_steps_trans: "analysis_steps host_ok b c \<Longrightarrow> analysis_steps host_ok a b \<Longrightarrow> analysis_steps host_ok a c"
  by (induction rule: analysis_steps.induct) (blast intro: analysis_steps.intros)+

lemma steps_reachable: "analysis_steps host_ok a b \<Longrightarrow> analysis_reachable host_ok a \<Longrightarrow> analysis_reachable host_ok b"
  by (induction rule: analysis_steps.induct) (blast intro: analysis_reachable.intros)+

lemma steps_ok:
  assumes "among_others env db0" "analysis_steps (ae_host_ok env) db0 db"
  shows "analysis_ok db" "evolves db0 db"
proof -
  have ok: "analysis_ok db0" using assms(1) by (auto simp: among_others_def dest: analysis_reachable_ok)
  show "analysis_ok db" "evolves db0 db"
    using good_ok [OF analysis_steps_good [OF assms(2)] ok] good_evolves [OF analysis_steps_good [OF assms(2)] ok] by simp_all
qed

lemma others_steps:
  assumes "among_others env db0" "analysis_steps (ae_host_ok env) db0 db"
  shows "analysis_steps (ae_host_ok env) db0 (ae_meanwhile env k db)" "evolves db (ae_meanwhile env k db)"
proof -
  have r: "analysis_reachable (ae_host_ok env) db"
    by (rule steps_reachable [OF assms(2)]) (use assms(1) in \<open>simp add: among_others_def\<close>)
  then have s: "analysis_steps (ae_host_ok env) db (ae_meanwhile env k db)" using assms(1) by (simp add: among_others_def)
  show "analysis_steps (ae_host_ok env) db0 (ae_meanwhile env k db)" by (rule analysis_steps_trans [OF s assms(2)])
  show "evolves db (ae_meanwhile env k db)"
    by (rule good_evolves [OF analysis_steps_good [OF s] steps_ok(1) [OF assms]])
qed

lemma at_work_others:
  assumes "among_others env db0" "at_work env db0 now c called db"
  shows "at_work env db0 now c called (ae_meanwhile env k db)"
proof -
  have s: "analysis_steps (ae_host_ok env) db0 db" using assms(2) by (simp add: at_work_def)
  note o = others_steps [OF assms(1) s, of k]
  show ?thesis using assms(2) o issued_evolves [OF o(2)] unfolding at_work_def own_lease_def by blast
qed

lemma relieved_others:
  assumes "among_others env db0" "relieved env db0 db"
  shows "relieved env db0 (ae_meanwhile env k db)"
  using assms(2) others_steps(1) [OF assms(1)] unfolding relieved_def own_lease_def by blast

text \<open>A transaction that is a step of the engine and leaves the rows under the token as they are, or leaves none.\<close>

lemma at_work_step:
  assumes "among_others env db0" "at_work env db0 now c called db" "analysis_step (ae_host_ok env) db db'"
    and "\<And>r. own_lease env db0 \<Longrightarrow> r \<in> set (ab_stages db') \<Longrightarrow> sg_lease_token r = Some (ae_token env) \<Longrightarrow>
           holds_lease env now c called' r"
  shows "at_work env db0 now c called' db'"
proof -
  have s: "analysis_steps (ae_host_ok env) db0 db" using assms(2) by (simp add: at_work_def)
  have "evolves db db'" by (rule good_evolves [OF analysis_step_good [OF assms(3)] steps_ok(1) [OF assms(1) s]])
  with assms s issued_evolves show ?thesis by (auto simp: at_work_def intro: analysis_steps.more)
qed

lemma relieved_step:
  assumes "analysis_steps (ae_host_ok env) db0 db" "analysis_step (ae_host_ok env) db db'"
    and "\<And>r. own_lease env db0 \<Longrightarrow> r \<in> set (ab_stages db') \<Longrightarrow> sg_lease_token r \<noteq> Some (ae_token env)"
  shows "relieved env db0 db'"
  using assms by (auto simp: relieved_def intro: analysis_steps.more)

section \<open>The lease and the target of a snapshot\<close>

definition snapshot_of_claim :: "claimed_stage_run \<Rightarrow> stage_snapshot \<Rightarrow> target_snapshot \<Rightarrow> bool" where
  "snapshot_of_claim c s t \<longleftrightarrow> sn_claim s = c \<and> sn_targets s = [t] \<and> uuid_or_value_error (ts_stage_run_id t) = uuid_or_value_error (cs_stage_run_id c)
     \<and> ts_lease_token t = cs_lease_token c \<and> ts_target_id t = cs_target_id c"

lemma lock_single:
  assumes "expected_target t = Inr (i, u, token)"
  shows "lock_targets [t] now db = Inr (if \<exists>r \<in> set (ab_stages db). live_lease now r \<and> sg_id r = i
     \<and> sg_lease_token r = Some token \<and> sg_target_id r = u then [(u, i)] else [])"
proof -
  let ?hit = "\<lambda>r. sg_id r = i \<and> sg_lease_token r = Some token \<and> sg_target_id r = u"
  let ?f = "\<lambda>r held. if ?hit r then dict_set u i held else held"
  have f: "fold (\<lambda>r held.
              case map_of (rev [(i, u, token)]) (sg_id r) of
                None \<Rightarrow> held
              | Some (target, token) \<Rightarrow>
                  if sg_lease_token r = Some token \<and> sg_target_id r = target then dict_set target (sg_id r) held
                  else held) rs held = fold ?f rs held" for rs held
    by (rule fold_cong) auto
  have one: "fold ?f rs [(u, i)] = [(u, i)]" for rs by (induction rs) simp_all
  have hit: "fold ?f rs [] = (if list_ex ?hit rs then [(u, i)] else [])" for rs
    by (induction rs) (simp_all add: one)
  have "traverse expected_target [t] = Inr [(i, u, token)]" using assms by simp
  then show ?thesis unfolding lock_targets_def by (simp only: try_bind_sum f hit) (auto simp: list_ex_iff)
qed

lemma triple_at_work:
  assumes "among_others env db0"
    and "\<And>db x db'. at_work env db0 now c called db \<Longrightarrow> operation db = Inr (x, db') \<Longrightarrow> Q x db'"
  shows "triple (at_work env db0 now c called) (transaction env operation) Q (analysis_steps (ae_host_ok env) db0)"
  by (rule triple_transaction [where R = "at_work env db0 now c called"])
    (blast intro: at_work_others [OF assms(1)] assms(2), simp add: at_work_def, blast intro: assms(2))

lemma triple_relieved:
  assumes "among_others env db0"
    and "\<And>db x db'. relieved env db0 db \<Longrightarrow> operation db = Inr (x, db') \<Longrightarrow> Q x db'"
  shows "triple (relieved env db0) (transaction env operation) Q (analysis_steps (ae_host_ok env) db0)"
  by (rule triple_transaction [where R = "relieved env db0"])
    (blast intro: relieved_others [OF assms(1)], simp add: relieved_def, blast intro: assms(2))

lemma at_work_loaded:
  assumes "at_work env db0 now c called db" "snapshot_of_claim c s t"
  shows "loaded db s"
  using assms by (simp add: at_work_def snapshot_of_claim_def loaded_def)

lemma lease_rows:
  assumes "among_others env db0" "own_lease env db0" "at_work env db0 now c called db"
  obtains q where "q \<in> set (ab_stages db)" "uuid_or_value_error (cs_stage_run_id c) = Inr (sg_id q)"
    "cs_target_id c = sg_target_id q"
    "\<And>r. r \<in> set (ab_stages db) \<Longrightarrow> sg_lease_token r = Some (ae_token env) \<Longrightarrow> r = q \<and> live_lease now q"
proof -
  from assms(3) obtain q where q: "q \<in> set (ab_stages db)" "uuid_or_value_error (cs_stage_run_id c) = Inr (sg_id q)"
      "cs_target_id c = sg_target_id q"
    unfolding at_work_def issued_def by blast
  have ok: "analysis_ok db" by (rule steps_ok(1) [OF assms(1)]) (use assms(3) in \<open>simp add: at_work_def\<close>)
  show thesis
  proof (rule that [OF q])
    fix r assume r: "r \<in> set (ab_stages db)" "sg_lease_token r = Some (ae_token env)"
    with assms(2,3) have h: "holds_lease env now c called r" by (simp add: at_work_def)
    have "sg_id r = sg_id q" using h q(2) by (simp add: holds_lease_def)
    then have "r = q" by (rule stage_key [OF ok r(1) q(1)])
    moreover have "sg_status r = S_RUNNING"
    proof (rule ccontr)
      assume "sg_status r \<noteq> S_RUNNING"
      moreover have "stage_ok r" using ok r(1) by (simp add: analysis_ok_def)
      ultimately show False using r(2) by (simp add: stage_ok_def)
    qed
    ultimately show "r = q \<and> live_lease now q"
      using h assms(2) by (simp add: holds_lease_def live_lease_def own_lease_def)
  qed
qed

lemma released:
  assumes "among_others env db0" "own_lease env db0" "at_work env db0 now c called db"
    and "uuid_or_value_error (cs_stage_run_id c) = Inr i"
    and "ab_stages db' = update_where (\<lambda>r. sg_id r = i) f (ab_stages db)" "\<And>r. sg_lease_token (f r) = None"
    and "r \<in> set (ab_stages db')"
  shows "sg_lease_token r \<noteq> Some (ae_token env)"
proof
  assume t: "sg_lease_token r = Some (ae_token env)"
  from assms(7) obtain q where q: "q \<in> set (ab_stages db)" "r = (if sg_id q = i then f q else q)"
    unfolding assms(5) set_update_where by (elim imageE)
  with t assms(6) have "sg_id q \<noteq> i" "r = q" by (auto split: if_splits)
  moreover obtain p where "uuid_or_value_error (cs_stage_run_id c) = Inr (sg_id p)" "r = p"
    using lease_rows [OF assms(1-3)] q(1) t \<open>r = q\<close> by metis
  ultimately show False using assms(4) by simp
qed

lemma lock_own:
  assumes "among_others env db0" "own_lease env db0" "at_work env db0 now c called db" "snapshot_of_claim c s t"
  obtains (lost) "lock_targets [t] now db = Inr []" "\<And>r. r \<in> set (ab_stages db) \<Longrightarrow> sg_lease_token r \<noteq> Some (ae_token env)"
  | (held) i where "uuid_or_value_error (cs_stage_run_id c) = Inr i" "lock_targets [t] now db = Inr [(ts_target_id t, i)]"
      "\<And>r. find_stage i db = Some r \<Longrightarrow> holds_lease env now c called r"
proof -
  obtain q where q: "q \<in> set (ab_stages db)" "uuid_or_value_error (cs_stage_run_id c) = Inr (sg_id q)" "cs_target_id c = sg_target_id q"
      and rows: "\<And>r. r \<in> set (ab_stages db) \<Longrightarrow> sg_lease_token r = Some (ae_token env) \<Longrightarrow> r = q \<and> live_lease now q"
    by (rule lease_rows [OF assms(1-3)]) (rule that)
  have ok: "analysis_ok db" by (rule steps_ok(1) [OF assms(1)]) (use assms(3) in \<open>simp add: at_work_def\<close>)
  have e: "expected_target t = Inr (sg_id q, sg_target_id q, ae_token env)"
    using assms(2-4) q by (simp add: expected_target_def snapshot_of_claim_def own_lease_def at_work_def)
  note l = lock_single [OF e, of now db]
  show thesis
  proof (cases "sg_lease_token q = Some (ae_token env)")
    case True
    have "find_stage (sg_id q) db = Some r \<Longrightarrow> holds_lease env now c called r" for r
      using assms(2,3) True stage_key [OF ok _ q(1)] by (auto dest!: find_stage_Some simp: at_work_def)
    moreover have "lock_targets [t] now db = Inr [(ts_target_id t, sg_id q)]"
      using l rows [OF q(1) True] q(1,3) True assms(4) by (auto simp: snapshot_of_claim_def)
    ultimately show thesis by (intro held [OF q(2)])
  next
    case False
    then have none: "sg_lease_token r \<noteq> Some (ae_token env)" if "r \<in> set (ab_stages db)" for r using rows that by blast
    with l show thesis by (intro lost) auto
  qed
qed

section \<open>Cache sources\<close>

lemma found_cache_source:
  assumes "find_cache_hit host_ok s key db = Inr (Some h)"
  shows "\<exists>q \<in> set (ab_stages db). ch_source_stage_run_id h = sg_id q \<and> exact_cache_source key q"
proof -
  from assms obtain i where i: "uuid_or_value_error (cs_stage_run_id (sn_claim s)) = Inr i"
    unfolding find_cache_hit_def by (elim try_bindE) (rule that)
  let ?sources = "sort_key completion_order (filter (\<lambda>r. sg_id r \<noteq> i \<and> exact_cache_source key r) (ab_stages db))"
  from assms i have e: "?sources \<noteq> []" "ch_source_stage_run_id h = sg_id (last ?sources)"
    by (auto simp: find_cache_hit_def Let_def split: if_splits option.splits pyval.splits)
  have "last ?sources \<in> set ?sources" using e(1) by (rule last_in_set)
  with e(2) show ?thesis by auto
qed

lemma cache_source_stays:
  assumes "evolves db db'" "q \<in> set (ab_stages db)" "exact_cache_source key q"
  shows "q \<in> set (ab_stages db')"
proof -
  obtain r where r: "r \<in> set (ab_stages db')" "stage_evolves q r" by (rule evolves_stage_forth [OF assms(1,2)])
  moreover have "\<not> active_stage_status (sg_status q)" using assms(3) by (simp add: exact_cache_source_def active_stage_status_def)
  ultimately show ?thesis by (simp add: stage_evolves_def)
qed

lemma commit_cached_one:
  assumes "commit_cached host_ok fresh m s key source parsed labels now [(ts_target_id t, i)] [t] db = Inr (x, db')"
  shows "\<exists>f. ab_stages db' = update_where (\<lambda>r. sg_id r = i) f (ab_stages db) \<and> (\<forall>r. sg_lease_token (f r) = None)"
proof (cases "find_stage i db")
  case None
  with assms show ?thesis by simp
next
  case (Some r)
  let ?f = "cached_stage m (rewrite_cached_target host_ok parsed (ts_target_id t)) key (sg_id source) now"
  from assms Some obtain gates db2 where
      "(if cs_run_mode (sn_claim s) \<noteq> ''test''
        then add_labels (\<lambda>k l. Inr (copy_assignment k now r l)) fresh labels (update_stage i ?f db)
        else Inr ([], update_stage i ?f db)) = Inr (gates, db2)" "db' = set_wakeup_terminal i now db2"
    by (auto simp: Let_def elim!: try_bindE)
  then have "ab_stages db' = ab_stages (update_stage i ?f db)" by (auto dest: add_labels_stages split: if_splits)
  then show ?thesis by (intro exI [of _ ?f]) (simp add: update_stage_def cached_stage_def clear_stage_lease_def)
qed

section \<open>The transactions of the worker\<close>

lemma fail_claim_triple:
  assumes "among_others env db0"
  shows "triple (at_work env db0 now c called) (fail_claim env c f now) (\<lambda>_. relieved env db0) (analysis_steps (ae_host_ok env) db0)"
  unfolding fail_claim_def
proof (rule triple_at_work [OF assms])
  fix db b db' let ?at = "now + seconds_delay (min 300 (5 * 2 ^ nat (max 0 (cs_attempt_count c - 1))))"
  assume w: "at_work env db0 now c called db"
    and op: "retry_or_fail_claim c (ef_code f) (ef_error_type f) (ef_retryable f) ?at now db = Inr (b, db')"
  show "relieved env db0 db'"
  proof (rule relieved_step)
    show "analysis_steps (ae_host_ok env) db0 db" using w by (simp add: at_work_def)
    show "analysis_step (ae_host_ok env) db db'" by (rule analysis_step.retry_claim [OF op])
    fix r assume own: "own_lease env db0" and r: "r \<in> set (ab_stages db')"
    obtain q where q: "q \<in> set (ab_stages db)" "uuid_or_value_error (cs_stage_run_id c) = Inr (sg_id q)"
        and rows: "\<And>r. r \<in> set (ab_stages db) \<Longrightarrow> sg_lease_token r = Some (ae_token env) \<Longrightarrow> r = q \<and> live_lease now q"
      by (rule lease_rows [OF assms own w]) (rule that)
    have tk: "uuid_or_value_error (cs_lease_token c) = Inr (ae_token env)" using w own by (simp add: at_work_def own_lease_def)
    note e = op [unfolded retry_or_fail_claim_def q(2) tk try_bind_simps]
    show "sg_lease_token r \<noteq> Some (ae_token env)"
    proof (cases "find (\<lambda>r. sg_id r = sg_id q \<and> live_lease now r \<and> sg_lease_token r = Some (ae_token env)) (ab_stages db)")
      case None
      with e have "db' = db" by simp
      with None r rows q(1) show ?thesis by (auto simp: find_None_iff)
    next
      case (Some p)
      then have "sg_id p = sg_id q" by (auto simp: find_Some_iff)
      with e Some have "ab_stages db' = update_where (\<lambda>x. sg_id x = sg_id q)
          (failed_stage (ef_code f) (ef_error_type f) (ef_retryable f) ?at now) (ab_stages db)"
        by (auto simp: retry_or_fail_row_stages)
      from released [OF assms own w q(2) this _ r] show ?thesis by (simp add: failed_stage_def Let_def)
    qed
  qed
qed

lemma retry_target_triple:
  assumes "among_others env db0" "snapshot_of_claim c s t"
  shows "triple (at_work env db0 now c called) (transaction env (retry_or_fail_targets s [ts_target_id t] code ty re later now))
    (\<lambda>_. relieved env db0) (analysis_steps (ae_host_ok env) db0)"
proof (rule triple_at_work [OF assms(1)])
  fix db b db'
  assume w: "at_work env db0 now c called db" and op: "retry_or_fail_targets s [ts_target_id t] code ty re later now db = Inr (b, db')"
  show "relieved env db0 db'"
  proof (rule relieved_step)
    show "analysis_steps (ae_host_ok env) db0 db" using w by (simp add: at_work_def)
    show "analysis_step (ae_host_ok env) db db'" by (rule analysis_step.retry_targets [OF op]) simp
    fix r assume own: "own_lease env db0" and r: "r \<in> set (ab_stages db')"
    have c: "chosen_targets [ts_target_id t] s = [t]" using assms(2) by (simp add: chosen_targets_def snapshot_of_claim_def)
    from assms(1) own w assms(2) show "sg_lease_token r \<noteq> Some (ae_token env)"
    proof (cases rule: lock_own)
      case lost
      with op r c show ?thesis by (simp add: retry_or_fail_targets_def)
    next
      case (held i)
      obtain q where q: "q \<in> set (ab_stages db)" "uuid_or_value_error (cs_stage_run_id c) = Inr (sg_id q)"
        by (rule lease_rows [OF assms(1) own w]) (rule that)
      obtain p where p: "find_stage i db = Some p"
        using q held(1) by (cases "find_stage i db") (auto simp: find_stage_def find_None_iff)
      from op have "db' = retry_or_fail_row code ty re later now p db"
        by (simp add: retry_or_fail_targets_def c held(2) p)
      then have "ab_stages db' = update_where (\<lambda>x. sg_id x = i) (failed_stage code ty re later now) (ab_stages db)"
        by (simp add: retry_or_fail_row_stages find_stage_Some [OF p])
      from released [OF assms(1) own w held(1) this _ r] show ?thesis by (simp add: failed_stage_def Let_def)
    qed
  qed
qed

lemma commit_triple:
  assumes "among_others env db0" "snapshot_of_claim c s t" "vt_target_id v = ts_target_id t"
    and "uuid_or_value_error (sc_inference_call_id call) = uuid_or_value_error (ae_call_id env)"
  shows "triple (at_work env db0 now c True) (transaction env (commit_validated_targets fresh s call [v] now))
    (\<lambda>_. relieved env db0) (analysis_steps (ae_host_ok env) db0)"
proof (rule triple_at_work [OF assms(1)])
  fix db x db'
  assume w: "at_work env db0 now c True db" and op: "commit_validated_targets fresh s call [v] now db = Inr (x, db')"
  show "relieved env db0 db'"
  proof (rule relieved_step)
    show "analysis_steps (ae_host_ok env) db0 db" using w by (simp add: at_work_def)
    show "analysis_step (ae_host_ok env) db db'" by (rule analysis_step.commit [OF op at_work_loaded [OF w assms(2)]]) simp
    fix r assume own: "own_lease env db0" and r: "r \<in> set (ab_stages db')"
    have c: "chosen_targets [ts_target_id t] s = [t]" using assms(2) by (simp add: chosen_targets_def snapshot_of_claim_def)
    have e: "try_bind (lock_targets [t] now db) (\<lambda>held. commit_results fresh s call now held [v] db) = Inr (x, db')"
      using op c assms(3) by (simp add: commit_validated_targets_def)
    from assms(1) own w assms(2) show "sg_lease_token r \<noteq> Some (ae_token env)"
    proof (cases rule: lock_own)
      case lost
      with e r show ?thesis by (simp add: commit_results_none)
    next
      case (held i)
      obtain q where q: "q \<in> set (ab_stages db)" "uuid_or_value_error (cs_stage_run_id c) = Inr (sg_id q)"
        by (rule lease_rows [OF assms(1) own w]) (rule that)
      obtain p where p: "find_stage i db = Some p"
        using q held(1) by (cases "find_stage i db") (auto simp: find_stage_def find_None_iff)
      have call: "sg_inference_call_id p = Some (ae_call_id env)" using held(3) [OF p] by (simp add: holds_lease_def)
      have id: "uuid_or_value_error (sc_inference_call_id call) = Inr (ae_call_id env)" using assms(4) own by (simp add: own_lease_def)
      from e held(2) have "commit_results fresh s call now [(ts_target_id t, i)] [v] db = Inr (x, db')" by simp
      then have "ab_stages db' = update_where (\<lambda>x. sg_id x = i) (inferred_stage (validated_result_document v) now) (ab_stages db)"
      proof (cases rule: commit_results_Cons)
        case 1
        with p id call assms(3) show ?thesis by auto
      next
        case (2 j r' gates db1 rest)
        have "j = i" using 2(1) assms(3) by (simp split: if_splits)
        moreover have "db' = set_wakeup_terminal j now db1" using 2(6) by simp
        ultimately show ?thesis using label_step_stages [OF 2(5)] by (simp add: update_stage_def)
      qed
      from released [OF assms(1) own w held(1) this _ r] show ?thesis by (simp add: inferred_stage_def clear_stage_lease_def)
    qed
  qed
qed

definition hit_source :: "stage_cache_key \<Rightarrow> cache_hit \<Rightarrow> analysis_db \<Rightarrow> bool" where
  "hit_source key h db \<longleftrightarrow> list_ex (\<lambda>q. ch_source_stage_run_id h = sg_id q \<and> exact_cache_source key q) (ab_stages db)"

lemma commit_hit_relieves:
  assumes "among_others env db0" "snapshot_of_claim c s t" "at_work env db0 now c called db" "hit_source key h db"
    and op: "commit_cache_hit (ae_host_ok env) fresh m s manifest key h now db = Inr (x, db')"
  shows "relieved env db0 db'"
proof (rule relieved_step)
  show steps: "analysis_steps (ae_host_ok env) db0 db" using assms(3) by (simp add: at_work_def)
  show "analysis_step (ae_host_ok env) db db'" by (rule analysis_step.reuse [OF op at_work_loaded [OF assms(3,2)]])
  fix r assume own: "own_lease env db0" and r: "r \<in> set (ab_stages db')"
  from assms(4) obtain q where q: "q \<in> set (ab_stages db)" "ch_source_stage_run_id h = sg_id q" "exact_cache_source key q"
    by (auto simp: hit_source_def list_ex_iff)
  note ok = steps_ok [OF assms(1) steps]
  obtain q0 where "q0 \<in> set (ab_stages db0)" "stage_evolves q0 q" by (rule evolves_stage [OF ok(2) q(1)])
  then have id: "uuid_or_value_error (ch_source_stage_run_id h) = Inr (sg_id q)"
    using own q(2) by (simp add: own_lease_def stage_evolves_def)
  obtain p where p: "find_stage (sg_id q) db = Some p"
    using q(1) by (cases "find_stage (sg_id q) db") (auto simp: find_stage_def find_None_iff)
  have source: "exact_cache_source key p" using find_stage_Some [OF p] stage_key [OF ok(1) _ q(1)] q(3) by auto
  from assms(1) own assms(3,2) show "sg_lease_token r \<noteq> Some (ae_token env)"
  proof (cases rule: lock_own)
    case lost
    with op r id p source assms(2) show ?thesis by (simp add: commit_cache_hit_def snapshot_of_claim_def)
  next
    case (held i)
    have targets: "sn_targets s = [t]" using assms(2) by (simp add: snapshot_of_claim_def)
    note e = op [unfolded commit_cache_hit_def id try_bind_simps p option.case targets held(2) Let_def]
    from e source obtain rows parsed labels where
        "commit_cached (ae_host_ok env) fresh m s key p parsed labels now
           [(ts_target_id t, i)] [t] (db\<lparr>ab_manifests := rows\<rparr>) = Inr (x, db')"
      by (simp del: commit_cached.simps split: if_splits) (elim try_bindE, simp del: commit_cached.simps split: if_splits)
    from commit_cached_one [OF this] obtain f where
        "ab_stages db' = update_where (\<lambda>x. sg_id x = i) f (ab_stages db)" "\<And>r. sg_lease_token (f r) = None" by auto
    from released [OF assms(1) own assms(3) held(1) this r] show ?thesis .
  qed
qed

lemma commit_hit_triple:
  assumes "among_others env db0" "snapshot_of_claim c s t"
  shows "triple (\<lambda>db. at_work env db0 now c called db \<and> hit_source key h db)
      (transaction env (commit_cache_hit (ae_host_ok env) fresh m s manifest key h now))
      (\<lambda>_. relieved env db0) (analysis_steps (ae_host_ok env) db0)"
proof (rule triple_transaction [where R = "\<lambda>db. at_work env db0 now c called db \<and> hit_source key h db"])
  fix k db assume a: "at_work env db0 now c called db \<and> hit_source key h db"
  have "evolves db (ae_meanwhile env k db)" by (rule others_steps(2) [OF assms(1)]) (use a in \<open>simp add: at_work_def\<close>)
  then have "hit_source key h (ae_meanwhile env k db)"
    using a cache_source_stays unfolding hit_source_def list_ex_iff by blast
  with a at_work_others [OF assms(1)]
  show "at_work env db0 now c called (ae_meanwhile env k db) \<and> hit_source key h (ae_meanwhile env k db)" by blast
qed (simp add: at_work_def, blast intro: commit_hit_relieves [OF assms])

lemma find_hit_triple:
  assumes "among_others env db0"
  shows "triple (at_work env db0 now c called)
    (transaction env (\<lambda>db. try_bind (find_cache_hit (ae_host_ok env) s key db) (\<lambda>hit. Inr (hit, db))))
    (\<lambda>hit db. at_work env db0 now c called db \<and> (\<forall>h. hit = Some h \<longrightarrow> hit_source key h db)) (analysis_steps (ae_host_ok env) db0)"
proof (rule triple_at_work [OF assms])
  fix db hit db'
  assume w: "at_work env db0 now c called db"
    and op: "try_bind (find_cache_hit (ae_host_ok env) s key db) (\<lambda>hit. Inr (hit, db)) = Inr (hit, db')"
  from op have e: "find_cache_hit (ae_host_ok env) s key db = Inr hit" "db' = db" by (auto elim!: try_bindE)
  then show "at_work env db0 now c called db' \<and> (\<forall>h. hit = Some h \<longrightarrow> hit_source key h db')"
    using w by (auto simp: hit_source_def list_ex_iff dest: found_cache_source)
qed

lemma reuse_triple:
  assumes "among_others env db0" "snapshot_of_claim c s t"
  shows "triple (at_work env db0 now c called) (reuse_cached env s call now)
    (\<lambda>x. case x of None \<Rightarrow> at_work env db0 now c called | Some _ \<Rightarrow> relieved env db0) (analysis_steps (ae_host_ok env) db0)"
proof (cases "pc_cache_key call")
  case None
  then show ?thesis by (simp add: reuse_cached_def triple_done)
next
  case (Some key)
  show ?thesis unfolding reuse_cached_def Some option.case
  proof (rule triple_bind [OF find_hit_triple [OF assms(1)]])
    fix hit
    show "triple (\<lambda>db. at_work env db0 now c called db \<and> (\<forall>h. hit = Some h \<longrightarrow> hit_source key h db))
      (case hit of None \<Rightarrow> done_with None | Some h \<Rightarrow>
         work_bind (transaction env (commit_cache_hit (ae_host_ok env) (ae_fresh env) (ae_manifest_id env) s
           (iq_input_manifest (pc_request call)) key h now)) (\<lambda>committed. done_with (Some committed)))
      (\<lambda>x. case x of None \<Rightarrow> at_work env db0 now c called | Some _ \<Rightarrow> relieved env db0) (analysis_steps (ae_host_ok env) db0)"
    proof (cases hit)
      case None
      then show ?thesis by (simp add: triple_done)
    next
      case (Some h)
      show ?thesis unfolding Some option.case
        by (rule triple_weaken [OF triple_bind [OF commit_hit_triple [OF assms, where called = called]]]) (simp_all add: triple_done)
    qed
  qed
qed

lemma start_triple:
  assumes "among_others env db0" "snapshot_of_claim c s t"
  shows "triple (at_work env db0 now c False)
    (transaction env (start_inference (ae_host_ok env) m (ae_call_id env) s manifest schema schema_hash key summary now))
    (\<lambda>x db. case x of None \<Rightarrow> relieved env db0 db
       | Some call \<Rightarrow> sc_inference_call_id call = ae_call_id env \<and> at_work env db0 now c True db)
    (analysis_steps (ae_host_ok env) db0)"
proof (rule triple_at_work [OF assms(1)])
  fix db x db'
  assume w: "at_work env db0 now c False db"
    and op: "start_inference (ae_host_ok env) m (ae_call_id env) s manifest schema schema_hash key summary now db = Inr (x, db')"
  have steps: "analysis_steps (ae_host_ok env) db0 db" using w by (simp add: at_work_def)
  note step = analysis_step.start [OF op]
  have targets: "sn_targets s = [t]" using assms(2) by (simp add: snapshot_of_claim_def)
  show "case x of None \<Rightarrow> relieved env db0 db'
       | Some call \<Rightarrow> sc_inference_call_id call = ae_call_id env \<and> at_work env db0 now c True db'"
  proof (cases x)
    case None
    have "relieved env db0 db'"
    proof (rule relieved_step [OF steps step])
      fix r assume own: "own_lease env db0" and r: "r \<in> set (ab_stages db')"
      from assms(1) own w assms(2) show "sg_lease_token r \<noteq> Some (ae_token env)"
      proof (cases rule: lock_own)
        case lost
        from op None have "db' = db" by (cases rule: start_inference_cases) simp_all
        with lost(2) r show ?thesis by simp
      next
        case (held i)
        with op None targets show ?thesis
          by (auto simp: start_inference_def Let_def elim!: try_bindE split: if_splits)
      qed
    qed
    with None show ?thesis by simp
  next
    case (Some call)
    from op have started: "call = \<lparr>sc_inference_call_id = ae_call_id env, sc_input_manifest_id = m\<rparr>"
      by (cases rule: start_inference_cases) (simp_all add: Some)
    have "at_work env db0 now c True db'"
    proof (rule at_work_step [OF assms(1) w step])
      fix r assume own: "own_lease env db0" and r: "r \<in> set (ab_stages db')" "sg_lease_token r = Some (ae_token env)"
      from assms(1) own w assms(2) show "holds_lease env now c True r"
      proof (cases rule: lock_own)
        case lost
        with op Some targets show ?thesis by (cases rule: start_inference_cases) auto
      next
        case (held i)
        let ?link = "link_call m (ae_call_id env) (st_cache_policy (sn_stage s)) key now"
        from op have "ab_stages db' = update_where (\<lambda>x. sg_id x = i) ?link (ab_stages db)"
          by (cases rule: start_inference_cases) (use Some held(2) targets in \<open>auto simp: update_stage_def\<close>)
        with r(1) obtain q where q: "q \<in> set (ab_stages db)" "r = (if sg_id q = i then ?link q else q)"
          by (auto simp only: set_update_where)
        then have l: "sg_id r = sg_id q" "sg_lease_token r = sg_lease_token q" "sg_lease_expires_at r = sg_lease_expires_at q"
          by (simp_all add: link_call_def)
        with w own q(1) r(2) have "holds_lease env now c False q" by (simp add: at_work_def)
        with l held(1) q(2) show ?thesis by (auto simp: holds_lease_def link_call_def)
      qed
    qed
    with Some started show ?thesis by simp
  qed
qed

lemma record_triple:
  assumes "among_others env db0"
  shows "triple (at_work env db0 now c called) (transaction env (record_inference_success (ae_host_ok env) call response now))
      (\<lambda>_. at_work env db0 now c called) (analysis_steps (ae_host_ok env) db0)"
    and "triple (at_work env db0 now c called) (transaction env (record_inference_failure (ae_host_ok env) call failure now))
      (\<lambda>_. at_work env db0 now c called) (analysis_steps (ae_host_ok env) db0)"
proof -
  have stages: "finish_call call f db = Inr (x, db') \<Longrightarrow> ab_stages db' = ab_stages db" for f db x db'
    by (auto simp: finish_call_def elim!: try_bindE)
  have keep: "at_work env db0 now c called db'"
    if "at_work env db0 now c called db" "analysis_step (ae_host_ok env) db db'" "ab_stages db' = ab_stages db" for db db'
    by (rule at_work_step [OF assms that(1,2)]) (use that(1,3) in \<open>simp add: at_work_def\<close>)
  show "triple (at_work env db0 now c called) (transaction env (record_inference_success (ae_host_ok env) call response now))
      (\<lambda>_. at_work env db0 now c called) (analysis_steps (ae_host_ok env) db0)"
    by (rule triple_at_work [OF assms]) (erule keep, erule analysis_step.success, unfold record_inference_success_def, erule stages)
  show "triple (at_work env db0 now c called) (transaction env (record_inference_failure (ae_host_ok env) call failure now))
      (\<lambda>_. at_work env db0 now c called) (analysis_steps (ae_host_ok env) db0)"
    by (rule triple_at_work [OF assms]) (erule keep, erule analysis_step.failure, unfold record_inference_failure_def, erule stages)
qed

lemma relieved_same:
  assumes "relieved env db0 db" "analysis_step (ae_host_ok env) db db'"
    and "\<And>r. r \<in> set (ab_stages db') \<Longrightarrow> sg_lease_token r = None \<or> r \<in> set (ab_stages db)"
  shows "relieved env db0 db'"
  by (rule relieved_step [OF _ assms(2)]) (use assms(1,3) in \<open>force simp: relieved_def\<close>)+

lemma complete_triple:
  assumes "among_others env db0"
  shows "triple (relieved env db0) (transaction env (complete_analysis_run rid now)) (\<lambda>_. relieved env db0)
    (analysis_steps (ae_host_ok env) db0)"
proof (rule triple_relieved [OF assms])
  fix db b db' assume r: "relieved env db0 db" and op: "complete_analysis_run rid now db = Inr (b, db')"
  have "ab_stages db' = ab_stages db" using op unfolding complete_analysis_run_def
    by (auto elim!: try_bindE split: option.splits)
  then show "relieved env db0 db'" by (intro relieved_same [OF r analysis_step.complete [OF op]]) simp
qed

lemma gate_triple:
  assumes "among_others env db0"
  shows "triple (relieved env db0) (transaction env (apply_negative_gate rid assignments now)) (\<lambda>_. relieved env db0)
    (analysis_steps (ae_host_ok env) db0)"
proof (rule triple_relieved [OF assms])
  fix db b db' assume r: "relieved env db0 db" and op: "apply_negative_gate rid assignments now db = Inr (b, db')"
  have "sg_lease_token x = None \<or> x \<in> set (ab_stages db)" if "x \<in> set (ab_stages db')" for x
    using op
  proof (cases rule: apply_gate_cases)
    case 1
    with that show ?thesis by simp
  next
    case (2 run requested causes)
    with that show ?thesis by (auto simp: close_gate_tables set_update_where skip_stage_def)
  qed
  then show "relieved env db0 db'" by (intro relieved_same [OF r analysis_step.gate [OF op]])
qed

lemma finish_triple:
  assumes "among_others env db0"
  shows "triple (relieved env db0) (work_bind (finish_stage env s committed now) (\<lambda>_. done_with True)) (\<lambda>_. relieved env db0)
    (analysis_steps (ae_host_ok env) db0)"
  unfolding finish_stage_def
  by (rule triple_bind [where R = "\<lambda>_. relieved env db0"])
    (auto intro!: triple_bind [where R = "\<lambda>_. relieved env db0"] triple_done gate_triple complete_triple assms)

section \<open>Preparation\<close>

lemma prepared_snapshot:
  assumes "prepared_stage env c db = Inr (s, targets, call)" and "issued db c" and "analysis_ok db"
  shows "\<exists>t. snapshot_of_claim c s t \<and> map ti_target_id targets = [ts_target_id t]"
proof -
  from assms(1) have l: "load_stage_snapshot (ae_host_ok env) (ae_catalog env) c db = Inr s" and a: "analysis_inputs s = Inr targets"
    unfolding prepared_stage_def by (auto elim!: try_bindE simp: raised_def split: sum.splits)
  from l obtain i token w stage where w: "uuid_or_value_error (cs_stage_run_id c) = Inr i" "sw_stage w \<in> set (ab_stages db)"
      "sg_id (sw_stage w) = i" "sn_claim s = c"
      "sn_targets s = [target_of_rows (ae_host_ok env) (ae_catalog env) c w (ab_stages db)]"
    by (rule load_stage_snapshotE) (rule that)
  let ?t = "target_of_rows (ae_host_ok env) (ae_catalog env) c w (ab_stages db)"
  have t: "ts_stage_run_id ?t = i" "ts_lease_token ?t = cs_lease_token c" "ts_target_id ?t = sg_target_id (sw_stage w)"
    by (simp_all add: target_of_rows_def Let_def w(3) split: prod.split)
  from assms(2) obtain q where q: "q \<in> set (ab_stages db)" "uuid_or_value_error (cs_stage_run_id c) = Inr (sg_id q)"
      "cs_target_id c = sg_target_id q" unfolding issued_def by blast
  have "sw_stage w = q" by (rule stage_key [OF assms(3) w(2) q(1)]) (use w(1,3) q(2) in simp)
  moreover have "uuid_or_value_error i = Inr i" by (rule uuid_or_value_error_canonical [OF w(1)])
  ultimately have "snapshot_of_claim c s ?t" using w t q(3) by (simp add: snapshot_of_claim_def)
  moreover have "map ti_target_id targets = [ts_target_id ?t]"
    using a by (auto simp: analysis_inputs_def w(5) check_target_input_def elim!: try_bindE split: if_splits)
  ultimately show ?thesis by (intro exI conjI)
qed

lemma prepare_triple:
  assumes "among_others env db0"
  shows "triple (at_work env db0 now c called) (transaction env (\<lambda>db. Inr (prepared_stage env c db, db)))
    (\<lambda>p db. at_work env db0 now c called db \<and> (\<forall>s targets call. p = Inr (s, targets, call) \<longrightarrow>
       (\<exists>t. snapshot_of_claim c s t \<and> map ti_target_id targets = [ts_target_id t])))
    (analysis_steps (ae_host_ok env) db0)"
proof (rule triple_at_work [OF assms])
  fix db p db' assume w: "at_work env db0 now c called db" and e: "Inr (prepared_stage env c db, db) = Inr (p, db')"
  have "issued db c" "analysis_ok db" using w steps_ok(1) [OF assms] by (simp_all add: at_work_def)
  then show "at_work env db0 now c called db' \<and> (\<forall>s targets call. p = Inr (s, targets, call) \<longrightarrow>
       (\<exists>t. snapshot_of_claim c s t \<and> map ti_target_id targets = [ts_target_id t]))"
    using w e prepared_snapshot [of env c db] by auto
qed

section \<open>A run of the worker\<close>

lemma validated_single:
  assumes "validate_output payload mode policy labels [u] = Inr v"
  shows "u \<in> set (sv_retry_target_ids v) \<Longrightarrow> sv_valid_results v = [] \<and> sv_retry_target_ids v = [u]"
    and "u \<notin> set (sv_retry_target_ids v) \<Longrightarrow>
      \<exists>r. sv_valid_results v = [r] \<and> vt_target_id r = u \<and> sv_retry_target_ids v = []"
proof -
  note split = validated_partition [OF assms]
  show "sv_valid_results v = [] \<and> sv_retry_target_ids v = [u]" if "u \<in> set (sv_retry_target_ids v)"
    using that conjunct1 [OF split] conjunct2 [OF split] by (cases "sv_valid_results v") simp_all
  show "\<exists>r. sv_valid_results v = [r] \<and> vt_target_id r = u \<and> sv_retry_target_ids v = []" if n: "u \<notin> set (sv_retry_target_ids v)"
  proof -
    have "map vt_target_id (sv_valid_results v) = [u]" using conjunct1 [OF split] n by simp
    then obtain r where r: "sv_valid_results v = [r]" "vt_target_id r = u" by (auto simp: map_eq_Cons_conv)
    then have "sv_retry_target_ids v = []" using conjunct2 [OF split] by simp
    with r show ?thesis by blast
  qed
qed

lemma response_triple:
  assumes "among_others env db0" "snapshot_of_claim c s t" "map ti_target_id targets = [ts_target_id t]"
    and "sc_inference_call_id call = ae_call_id env"
  shows "triple (at_work env db0 now c True) (process_response env s targets call response now) (\<lambda>_. relieved env db0)
    (analysis_steps (ae_host_ok env) db0)"
  unfolding process_response_def
proof (rule triple_bind [OF record_triple(1) [OF assms(1)]], rule triple_bind)
  show "triple (at_work env db0 now c True) (compute (validate_response (sn_stage s) targets response))
      (\<lambda>p db. at_work env db0 now c True db \<and> validate_response (sn_stage s) targets response = Inr p) (analysis_steps (ae_host_ok env) db0)"
    by (rule triple_compute) (simp_all add: at_work_def)
next
  fix p :: "structured_output_validation \<times> bool"
  obtain v negative where p: "p = (v, negative)" by (cases p)
  let ?E = "analysis_steps (ae_host_ok env) db0" and ?u = "ts_target_id t"
  let ?commit = "transaction env (commit_validated_targets (ae_fresh env) s call (sv_valid_results v) now)"
  let ?rest = "\<lambda>committed. work_bind (retry_invalid env s v now) (\<lambda>_.
      work_bind (finish_stage env s committed now) (\<lambda>_. done_with True))"
  have "triple (at_work env db0 now c True) (work_bind ?commit ?rest) (\<lambda>_. relieved env db0) ?E"
    if "validate_response (sn_stage s) targets response = Inr p"
  proof -
    from that p have checked: "validate_output (ir_payload response) (st_execution_mode (sn_stage s))
        (st_structured_output_policy (sn_stage s)) (st_label_set (sn_stage s)) [?u] = Inr v"
      unfolding validate_response_def assms(3) by (auto elim!: try_bindE)
    show ?thesis
    proof (cases "?u \<in> set (sv_retry_target_ids v)")
      case True
      then have v: "sv_valid_results v = []" "sv_retry_target_ids v = [?u]" using validated_single [OF checked] by blast+
      have "triple (at_work env db0 now c True) ?commit (\<lambda>_. at_work env db0 now c True) ?E"
        by (rule triple_at_work [OF assms(1)]) (simp add: v commit_validated_targets_def)
      moreover have "triple (at_work env db0 now c True) (retry_invalid env s v now) (\<lambda>_. relieved env db0) ?E"
        unfolding retry_invalid_def v by (simp, rule triple_bind [OF triple_compute triple_bind [OF retry_target_triple [OF assms(1,2), where called = True]]])
          (simp_all add: triple_done at_work_def)
      ultimately show ?thesis by (blast intro: triple_bind finish_triple [OF assms(1)])
    next
      case False
      then obtain r where v: "sv_valid_results v = [r]" "vt_target_id r = ?u" "sv_retry_target_ids v = []"
        using validated_single [OF checked] by blast
      have "triple (at_work env db0 now c True) ?commit (\<lambda>_. relieved env db0) ?E"
        unfolding v(1) by (rule commit_triple [OF assms(1,2) v(2)]) (simp add: assms(4))
      moreover have "triple (relieved env db0) (retry_invalid env s v now) (\<lambda>_. relieved env db0) ?E"
        unfolding retry_invalid_def v(3) by (simp add: triple_done)
      ultimately show ?thesis by (blast intro: triple_bind finish_triple [OF assms(1)])
    qed
  qed
  then show "triple (\<lambda>db. at_work env db0 now c True db \<and> validate_response (sn_stage s) targets response = Inr p)
      (case p of (v, negative) \<Rightarrow> work_bind (transaction env (commit_validated_targets (ae_fresh env) s call (sv_valid_results v) now))
         (\<lambda>committed. work_bind (retry_invalid env s v now) (\<lambda>_. work_bind (finish_stage env s committed now) (\<lambda>_. done_with True))))
      (\<lambda>_. relieved env db0) ?E"
    unfolding p prod.case by (auto simp: triple_def)
qed

lemma failure_triple:
  assumes "among_others env db0" "snapshot_of_claim c s t"
  shows "triple (at_work env db0 now c called) (process_failure env c s call f now) (\<lambda>_. relieved env db0)
    (analysis_steps (ae_host_ok env) db0)"
proof -
  have "sn_targets s = [t]" using assms(2) by (simp add: snapshot_of_claim_def)
  then show ?thesis unfolding process_failure_def fail_targets_def
    by (simp, intro triple_bind [OF record_triple(2) [OF assms(1)]] triple_bind [OF retry_target_triple [OF assms]]
        triple_bind [OF complete_triple [OF assms(1)]] triple_done)
qed

lemma inference_triple:
  assumes "among_others env db0" "snapshot_of_claim c s t" "map ti_target_id targets = [ts_target_id t]"
  shows "triple (at_work env db0 now c False) (process_inference env c s targets prepared now) (\<lambda>_. relieved env db0)
    (analysis_steps (ae_host_ok env) db0)"
  unfolding process_inference_def
proof (rule triple_bind [OF start_triple [OF assms(1,2)]])
  fix x
  show "triple (\<lambda>db. case x of None \<Rightarrow> relieved env db0 db
        | Some call \<Rightarrow> sc_inference_call_id call = ae_call_id env \<and> at_work env db0 now c True db)
      (case x of None \<Rightarrow> done_with False
       | Some call \<Rightarrow> (case invoke_provider (ae_provider env) prepared of
           Inl f \<Rightarrow> process_failure env c s call f now
         | Inr response \<Rightarrow> process_response env s targets call response now))
      (\<lambda>_. relieved env db0) (analysis_steps (ae_host_ok env) db0)"
  proof (cases x)
    case None
    then show ?thesis by (simp add: triple_done)
  next
    case (Some call)
    show ?thesis
    proof (cases "sc_inference_call_id call = ae_call_id env")
      case True
      then show ?thesis
        using Some failure_triple [OF assms(1,2)] response_triple [OF assms True] by (simp split: sum.split)
    qed (simp add: Some triple_def)
  qed
qed

lemma claimed_triple:
  assumes "among_others env db0"
  shows "triple (at_work env db0 now c False) (process_claim env c now) (\<lambda>_. relieved env db0) (analysis_steps (ae_host_ok env) db0)"
  unfolding process_claim_def
proof (rule triple_bind [OF prepare_triple [OF assms]])
  fix p :: "input_error + stage_snapshot \<times> target_input list \<times> prepared_call"
  let ?E = "analysis_steps (ae_host_ok env) db0"
  let ?P = "\<lambda>db. at_work env db0 now c False db \<and> (\<forall>s targets call. p = Inr (s, targets, call) \<longrightarrow>
       (\<exists>t. snapshot_of_claim c s t \<and> map ti_target_id targets = [ts_target_id t]))"
  show "triple ?P (case p of
         Inl e \<Rightarrow>
           work_bind (fail_claim env c (preparation_failure e) now) (\<lambda>_.
           work_bind (transaction env (complete_analysis_run (cs_analysis_run_id c) now)) (\<lambda>_. done_with True))
       | Inr (s, targets, prepared) \<Rightarrow>
           work_bind (reuse_cached env s prepared now) (\<lambda>reused.
             case reused of
               Some committed \<Rightarrow> work_bind (finish_stage env s committed now) (\<lambda>_. done_with True)
             | None \<Rightarrow> process_inference env c s targets prepared now)) (\<lambda>_. relieved env db0) ?E"
  proof (cases p)
    case (Inl e)
    have "triple (at_work env db0 now c False) (work_bind (fail_claim env c (preparation_failure e) now) (\<lambda>_.
        work_bind (transaction env (complete_analysis_run (cs_analysis_run_id c) now)) (\<lambda>_. done_with True))) (\<lambda>_. relieved env db0) ?E"
      by (intro triple_bind [OF fail_claim_triple [OF assms]] triple_bind [OF complete_triple [OF assms]] triple_done)
    with Inl show ?thesis by (simp add: triple_weaken)
  next
    case (Inr q)
    obtain s targets prepared where q: "q = (s, targets, prepared)" by (cases q)
    show ?thesis
    proof (cases "\<exists>t. snapshot_of_claim c s t \<and> map ti_target_id targets = [ts_target_id t]")
      case True
      then obtain t where t: "snapshot_of_claim c s t" "map ti_target_id targets = [ts_target_id t]"
        by (elim exE conjE) (rule that)
      have "triple (at_work env db0 now c False) (work_bind (reuse_cached env s prepared now) (\<lambda>reused.
             case reused of
               Some committed \<Rightarrow> work_bind (finish_stage env s committed now) (\<lambda>_. done_with True)
             | None \<Rightarrow> process_inference env c s targets prepared now)) (\<lambda>_. relieved env db0) ?E"
        by (rule triple_bind [OF reuse_triple [OF assms t(1)]])
          (simp add: finish_triple [OF assms] inference_triple [OF assms t] split: option.split)
      with Inr q show ?thesis by (simp add: triple_weaken)
    qed (use Inr q in \<open>auto simp: triple_def\<close>)
  qed
qed

lemma claim_triple:
  assumes "among_others env db0"
  shows "triple (\<lambda>db. db = db0) (transaction env (claim_stage (ae_locked env) (ae_token env) stage_run_id now (ae_lease_duration env)))
    (\<lambda>x db. case x of None \<Rightarrow> relieved env db0 db | Some c \<Rightarrow> at_work env db0 now c False db) (analysis_steps (ae_host_ok env) db0)"
proof (rule triple_transaction [where R = "relieved env db0"])
  fix k db assume "db = db0"
  moreover have "relieved env db0 db0" by (auto simp: relieved_def own_lease_def intro: analysis_steps.none)
  ultimately show "relieved env db0 (ae_meanwhile env k db)" using relieved_others [OF assms] by simp
next
  fix db x db'
  assume r: "relieved env db0 db"
    and op: "claim_stage (ae_locked env) (ae_token env) stage_run_id now (ae_lease_duration env) db = Inr (x, db')"
  note step = analysis_step.claim [OF op]
  have steps: "analysis_steps (ae_host_ok env) db0 db" using r by (simp add: relieved_def)
  note ok = steps_ok [OF assms steps]
  from op show "case x of None \<Rightarrow> relieved env db0 db' | Some c \<Rightarrow> at_work env db0 now c False db'"
  proof (cases rule: claim_stage_cases)
    case 1
    with r show ?thesis by simp
  next
    case (2 q run)
    have "ab_stages db' = update_where (\<lambda>x. sg_id x = sg_id q) (exhausted_stage now) (ab_stages db)"
      by (simp add: 2(9) terminalize_exhausted_stage_def Let_def update_stage_def)
    then have "relieved env db0 db'"
      by (intro relieved_same [OF r step]) (auto simp: set_update_where exhausted_stage_def)
    with 2(1) show ?thesis by simp
  next
    case (3 q run)
    let ?c = "\<lparr>cs_stage_run_id = sg_id q, cs_analysis_run_id = sg_analysis_run_id q,
                       cs_message_id = sg_message_id q, cs_target_id = sg_target_id q,
                       cs_stage_version_id = sg_stage_version_id q, cs_lease_token = ae_token env,
                       cs_attempt_count = sg_attempt_count q + 1, cs_max_attempts = sg_max_attempts q,
                       cs_run_mode = an_run_mode run\<rparr>"
    have "issued db' ?c"
      using issued_evolves [OF good_evolves [OF claim_stage_good [OF op] ok(1)] claim_issued [OF op [unfolded 3(1)]]] .
    moreover have "holds_lease env now ?c False p"
      if own: "own_lease env db0" and p: "p \<in> set (ab_stages db')" "sg_lease_token p = Some (ae_token env)" for p
    proof -
      from p(1) obtain p0 where p0: "p0 \<in> set (ab_stages db)"
          "p = (if sg_id p0 = sg_id q then lease_stage (ae_token env) now (ae_lease_duration env) p0 else p0)"
        unfolding 3(9) stage_selectors set_update_where by (elim imageE)
      have e: "sg_id p0 = sg_id q" using r own p(2) p0 by (auto simp: relieved_def split: if_splits)
      have "uuid_or_value_error (sg_id q) = Inr (sg_id q)" by (rule uuid_or_value_error_canonical [OF 3(8)])
      with e p0(2) show ?thesis by (simp add: holds_lease_def lease_stage_def)
    qed
    ultimately have "at_work env db0 now ?c False db'"
      using analysis_steps.more [OF steps step] by (simp add: at_work_def)
    with 3(1) show ?thesis by simp
  qed
qed (simp add: relieved_def)

lemma process_triple:
  assumes "among_others env db0"
  shows "triple (\<lambda>db. db = db0) (process_stage_run env stage_run_id now) (\<lambda>_. relieved env db0) (analysis_steps (ae_host_ok env) db0)"
  unfolding process_stage_run_def
  by (rule triple_bind [OF claim_triple [OF assms]])
    (simp add: triple_done claimed_triple [OF assms] split: option.split)

text \<open>
  C10: The worker implements the engine: whatever it meets, and whatever other processes do between its
  transactions, it changes the tables only by transactions of the engine, with snapshots of its own claim and
  distinct targets, also when it raises.  So every invariant of the engine holds after it.
\<close>

theorem worker_runs_the_engine:
  assumes "among_others env db"
  shows "analysis_steps (ae_host_ok env) db (snd (snd (process_stage_run env stage_run_id now (k, db))))"
proof -
  obtain r k' db' where p: "process_stage_run env stage_run_id now (k, db) = (r, k', db')"
    by (cases "process_stage_run env stage_run_id now (k, db)")
  with process_triple [OF assms, of stage_run_id now] have "case r of Inl e \<Rightarrow> analysis_steps (ae_host_ok env) db db'
      | Inr x \<Rightarrow> relieved env db db'"
    unfolding triple_def by blast
  with p show ?thesis by (simp add: relieved_def split: sum.splits)
qed

text \<open>
  C9: A worker that returns leaves no lease behind: no stage run is still leased under its token, and so the one
  it claimed has succeeded, failed, waits for its retry, was skipped, or is another worker's.
\<close>

theorem returning_worker_holds_no_lease:
  assumes "among_others env db" and "own_lease env db" and "process_stage_run env stage_run_id now (k, db) = (Inr b, k', db')"
  shows "\<forall>r \<in> set (ab_stages db'). sg_lease_token r \<noteq> Some (ae_token env)"
proof -
  from process_triple [OF assms(1), of stage_run_id now] assms(3) have "case Inr b :: bool result of
      Inl e \<Rightarrow> analysis_steps (ae_host_ok env) db db' | Inr x \<Rightarrow> relieved env db db'"
    unfolding triple_def by blast
  with assms(2) show ?thesis by (simp add: relieved_def)
qed

section \<open>A sample run\<close>

definition sample_env :: "(inference_request \<Rightarrow> provider_reply) option \<Rightarrow> analysis_env" where
  "sample_env provider = \<lparr>ae_locked = [], ae_token = uuid_text 40, ae_lease_duration = 10, ae_manifest_id = uuid_text 71,
     ae_call_id = uuid_text 72, ae_fresh = sample_fresh, ae_catalog = sample_catalog, ae_host_ok = (\<lambda>h. True),
     ae_sha = (\<lambda>t. replicate 64 CHR ''a''), ae_float_text = (\<lambda>q. ''0.5''), ae_provider = provider,
     ae_meanwhile = (\<lambda>k db. db)\<rparr>"

definition broken_env :: analysis_env where
  "broken_env = (sample_env None)\<lparr>ae_catalog := sample_catalog\<lparr>cg_channels := []\<rparr>\<rparr>"

lemma broken_env:
  "ae_locked broken_env = []" "ae_token broken_env = uuid_text 40" "ae_lease_duration broken_env = 10"
  "ae_call_id broken_env = uuid_text 72" "ae_host_ok broken_env = (\<lambda>h. True)" "ae_meanwhile broken_env k db = db"
  by (simp_all add: broken_env_def sample_env_def)

lemma broken_among_others: "among_others broken_env engine0"
  by (simp add: among_others_def broken_env engine_reachable analysis_steps.none)

lemma broken_own_lease: "own_lease broken_env engine0"
proof -
  have "uuid_or_value_error (sg_id r) = Inr (sg_id r) \<and> sg_lease_token r \<noteq> Some (uuid_text 40)"
    if "r \<in> set (ab_stages engine0)" for r
    using that by (auto simp: engine0_def sample_stage_run_def sample_uuid_parses)
  then show ?thesis by (simp add: own_lease_def broken_env sample_uuid_parses)
qed

text \<open>The row of the channel is missing, and so the claim fails with an error of its input.\<close>

lemma broken_preparation:
  "prepared_stage broken_env test_claim engine1 = Inl (Raised (DomainValidationError ''analysis stage run lease is no longer active''))"
proof -
  have c: "uuid_or_value_error (cs_stage_run_id test_claim) = Inr (uuid_text 20)"
    "uuid_or_value_error (cs_lease_token test_claim) = Inr (uuid_text 40)"
    by (simp_all add: test_claim_def sample_claim_def sample_uuid_parses)
  have "cg_channels (ae_catalog broken_env) = []" by (simp add: broken_env_def)
  then have "select_snapshot_rows (ae_catalog broken_env) (uuid_text 20) (uuid_text 40) engine1 = None"
    by (simp add: select_snapshot_rows_def find_by_def bind_eq_None_conv)
  then show ?thesis by (simp add: prepared_stage_def load_stage_snapshot_def c raised_def fail_def)
qed

definition engine_broken :: analysis_db where
  "engine_broken = retry_or_fail_row INPUT_BUILD_ERROR ''DomainValidationError'' False 5000005 5 test_stage1 engine1"

lemma broken_claim:
  "retry_or_fail_claim test_claim INPUT_BUILD_ERROR ''DomainValidationError'' False 5000005 5 engine1 = Inr (True, engine_broken)"
  by (simp add: retry_or_fail_claim_def engine_broken_def test_claim_def engine1_def test_stage1_def lease_stage_def
      live_lease_def sample_defs)

lemma broken_columns: "cs_attempt_count test_claim = 1" "cs_analysis_run_id test_claim = uuid_text 10"
  by (simp_all add: test_claim_def sample_claim_def)

lemma broken_run:
  "\<exists>db. process_stage_run broken_env (uuid_text 20) 5 (0, engine0) = (Inr True, 4, db)"
proof -
  have "\<exists>b db. complete_analysis_run (uuid_text 10) 5 engine_broken = Inr (b, db)"
    by (auto simp: complete_analysis_run_def sample_uuid_parses split: option.split)
  then obtain b db where c: "complete_analysis_run (uuid_text 10) 5 engine_broken = Inr (b, db)" by blast
  have "process_stage_run broken_env (uuid_text 20) 5 (0, engine0)
      = (case complete_analysis_run (uuid_text 10) 5 engine_broken of
           Inl e \<Rightarrow> (Inl e, 4, engine_broken) | Inr (b, db) \<Rightarrow> (Inr True, 4, db))"
    by (simp add: process_stage_run_def process_claim_def fail_claim_def seconds_delay_def work_bind_def transaction_def done_with_def
        broken_env engine1 broken_claim broken_preparation broken_columns failure_of_def split: sum.split)
  with c show ?thesis by simp
qed

theorem worker_runs_the_engine_witness:
  "\<exists>db. process_stage_run broken_env (uuid_text 20) 5 (0, engine0) = (Inr True, 4, db) \<and> analysis_steps (\<lambda>h. True) engine0 db"
proof -
  obtain db where "process_stage_run broken_env (uuid_text 20) 5 (0, engine0) = (Inr True, 4, db)" using broken_run by blast
  with worker_runs_the_engine [OF broken_among_others, of "uuid_text 20" 5 0] show ?thesis
    by (simp add: broken_env_def sample_env_def)
qed

theorem returning_worker_holds_no_lease_witness:
  "\<exists>db. process_stage_run broken_env (uuid_text 20) 5 (0, engine0) = (Inr True, 4, db)
     \<and> (\<forall>r \<in> set (ab_stages db). sg_lease_token r \<noteq> Some (uuid_text 40))"
proof -
  obtain db where p: "process_stage_run broken_env (uuid_text 20) 5 (0, engine0) = (Inr True, 4, db)" using broken_run by blast
  from returning_worker_holds_no_lease [OF broken_among_others broken_own_lease p] p show ?thesis
    by (simp add: broken_env_def sample_env_def)
qed

end
