(* ===== verification/Log_Redaction.thy ===== *)
theory Log_Redaction
  imports Audit_Json Canonical_Json
begin

text \<open>
  What reaches the log, \<^verbatim>\<open>infrastructure/observability/logging.py\<close>: credentials in texts and under
  credential-bearing names are replaced, and data that contain themselves are cut.

  Containers are objects of a heap, since the code tells them apart by \<^verbatim>\<open>id\<close>: a mapping or a sequence may
  contain itself.  Characters are the code points below 256.
\<close>

section \<open>Names\<close>

definition safe_metadata_fields :: "string list" where
  "safe_metadata_fields = [''secret_id'', ''secret_type'', ''key_id'', ''secret_configured'']"

definition sensitive_phrases :: "string list" where
  "sensitive_phrases =
     [''password'', ''passwd'', ''api_key'', ''api_hash'', ''bot_token'', ''token'', ''access_token'', ''refresh_token'',
      ''authorization'', ''cookie'', ''set_cookie'', ''telegram_session'', ''session_string'', ''login_code'',
      ''verification_code'', ''phone_code'', ''two_factor'', ''2fa'', ''otp'', ''csrf'', ''ciphertext'', ''nonce'',
      ''master_key'', ''secret_value'', ''secret_plaintext'']"

definition name_char :: "char \<Rightarrow> bool" where
  "name_char c = (let n = (of_char c :: nat) in 97 \<le> n \<and> n \<le> 122 \<or> 48 \<le> n \<and> n \<le> 57)"

text \<open>\<^verbatim>\<open>re.sub(r"[^a-z0-9]+", "_", s)\<close>.\<close>

fun underscored :: "string \<Rightarrow> string" where
  "underscored [] = []"
| "underscored (c # s) =
     (if name_char c then c # underscored s
      else if s \<noteq> [] \<and> \<not> name_char (hd s) then underscored s
      else CHR ''_'' # underscored s)"

definition strip_underscores :: "string \<Rightarrow> string" where
  "strip_underscores s = rev (dropWhile (\<lambda>c. c = CHR ''_'') (rev (dropWhile (\<lambda>c. c = CHR ''_'') s)))"

definition normalize_field_name :: "string \<Rightarrow> string" where
  "normalize_field_name s = strip_underscores (underscored (map lower_char s))"

definition is_sensitive_field :: "string \<Rightarrow> bool" where
  "is_sensitive_field s =
     (let normalized = normalize_field_name s
      in normalized \<notin> set safe_metadata_fields \<and> list_ex (\<lambda>p. contains_text p normalized) sensitive_phrases)"

section \<open>Texts\<close>

text \<open>\<^verbatim>\<open>\w\<close> of a regular expression, for the code points below 256.\<close>

definition regex_word :: "char \<Rightarrow> bool" where
  "regex_word c =
     (let n = (of_char c :: nat)
      in word_char c \<or> n \<in> {170, 178, 179, 181, 185, 186, 188, 189, 190} \<or> 192 \<le> n \<and> n \<noteq> 215 \<and> n \<noteq> 247)"

definition starts_ignoring_case :: "string \<Rightarrow> string \<Rightarrow> bool" where
  "starts_ignoring_case p s = (map lower_char (take (length p) s) = p)"

definition bearer_char :: "char \<Rightarrow> bool" where
  "bearer_char c = (ascii_letter c \<or> ascii_digit c \<or> c \<in> set ''._~+/=-'')"

text \<open>A match of the bearer pattern at the start of a text: its first group and what follows it.\<close>

definition bearer_match :: "string \<Rightarrow> (string \<times> string) option" where
  "bearer_match s =
     (let rest = drop 6 s; spaces = takeWhile py_space rest; credential = dropWhile py_space rest
      in if starts_ignoring_case ''bearer'' s \<and> spaces \<noteq> [] \<and> credential \<noteq> [] \<and> bearer_char (hd credential)
         then Some (take 6 s @ spaces, dropWhile bearer_char credential) else None)"

lemma dropWhile_shorter: "s \<noteq> [] \<Longrightarrow> P (hd s) \<Longrightarrow> length (dropWhile P s) < length s"
  by (cases s) (simp_all add: le_imp_less_Suc length_dropWhile_le)

lemma bearer_match_shorter: "bearer_match s = Some (g, rest) \<Longrightarrow> length rest < length s"
proof -
  assume m: "bearer_match s = Some (g, rest)"
  let ?c = "dropWhile py_space (drop 6 s)"
  from m have c: "?c \<noteq> []" "bearer_char (hd ?c)" "rest = dropWhile bearer_char ?c"
    by (auto simp: bearer_match_def Let_def split: if_splits)
  have "length rest < length ?c" unfolding c(3) by (rule dropWhile_shorter) (rule c(1,2))+
  also have "length ?c \<le> length (drop 6 s)" by (rule length_dropWhile_le)
  finally show ?thesis by simp
qed

function redact_bearer :: "string \<Rightarrow> string" where
  "redact_bearer [] = []"
| "redact_bearer (c # s) =
     (case bearer_match (c # s) of
        Some (kept, rest) \<Rightarrow> kept @ redacted @ redact_bearer rest
      | None \<Rightarrow> c # redact_bearer s)"
  by pat_completeness auto

termination
  by (relation "measure length") (auto dest: bearer_match_shorter)

definition credential_names :: "string list" where
  "credential_names =
     [''password'', ''passwd'', ''api_key'', ''api-key'', ''apikey'', ''api_hash'', ''api-hash'', ''apihash'', ''token'',
      ''authorization'', ''cookie'', ''session'']"

definition value_char :: "char \<Rightarrow> bool" where
  "value_char c = (\<not> py_space c \<and> c \<noteq> CHR '','' \<and> c \<noteq> CHR '';'')"

text \<open>A name, a colon or an equals sign with spaces around it, and a value: the kept part, and the rest.\<close>

definition key_value_at :: "string \<Rightarrow> string \<Rightarrow> (string \<times> string) option" where
  "key_value_at key s =
     (let rest = drop (length key) s; before = takeWhile py_space rest; sep = dropWhile py_space rest;
          after = takeWhile py_space (drop 1 sep); value_text = dropWhile py_space (drop 1 sep)
      in if starts_ignoring_case key s \<and> sep \<noteq> [] \<and> hd sep \<in> {CHR '':'', CHR ''=''}
            \<and> value_text \<noteq> [] \<and> value_char (hd value_text)
         then Some (take (length key) s @ before @ take 1 sep @ after, dropWhile value_char value_text)
         else None)"

definition key_value_match :: "string \<Rightarrow> (string \<times> string) option" where
  "key_value_match s =
     (case List.map_filter (\<lambda>key. key_value_at key s) credential_names of [] \<Rightarrow> None | m # _ \<Rightarrow> Some m)"

lemma guarded_Some: "(if b then Some x else None) = Some y \<longleftrightarrow> b \<and> x = y"
  by simp

lemma key_value_at_shorter: "key_value_at key s = Some (g, rest) \<Longrightarrow> length rest < length s"
proof -
  assume m: "key_value_at key s = Some (g, rest)"
  let ?sep = "dropWhile py_space (drop (length key) s)" and ?v = "dropWhile py_space (drop 1 (dropWhile py_space (drop (length key) s)))"
  note u = m [unfolded key_value_at_def Let_def guarded_Some prod.inject]
  have c: "?v \<noteq> []" using u by (elim conjE)
  have v: "value_char (hd ?v)" using u by (elim conjE)
  have r: "rest = dropWhile value_char ?v" using u by (elim conjE) (erule sym)
  have "length rest < length ?v" unfolding r by (rule dropWhile_shorter) (rule c v)+
  also have "\<dots> \<le> length (drop 1 ?sep)" by (rule length_dropWhile_le)
  also have "\<dots> \<le> length ?sep" by simp
  also have "\<dots> \<le> length (drop (length key) s)" by (rule length_dropWhile_le)
  finally show ?thesis by simp
qed

lemma key_value_match_shorter: "key_value_match s = Some (g, rest) \<Longrightarrow> length rest < length s"
proof -
  assume "key_value_match s = Some (g, rest)"
  then have "(g, rest) \<in> set (List.map_filter (\<lambda>key. key_value_at key s) credential_names)"
    by (auto simp: key_value_match_def split: list.splits)
  then show ?thesis by (auto simp: List.map_filter_def dest: key_value_at_shorter)
qed

text \<open>\<open>inside\<close>: the character before is part of a word, and so no word begins here.\<close>

function redact_key_values :: "bool \<Rightarrow> string \<Rightarrow> string" where
  "redact_key_values inside [] = []"
| "redact_key_values inside (c # s) =
     (case (if inside then None else key_value_match (c # s)) of
        Some (kept, rest) \<Rightarrow> kept @ redacted @ redact_key_values False rest
      | None \<Rightarrow> c # redact_key_values (regex_word c) s)"
  by pat_completeness auto

termination
  by (relation "measure (\<lambda>(inside, s). length s)") (auto dest: key_value_match_shorter split: if_splits)

definition redact_text :: "string \<Rightarrow> string" where
  "redact_text s = redact_key_values False (redact_bearer s)"

section \<open>Values\<close>

datatype log_value =
    L_none | L_bool bool | L_int int | L_float py_float | L_str string | L_secret
  | L_bytes nat
  | L_text string \<comment> \<open>a UUID, date, path or enumeration, by its text\<close>
  | L_ref nat
  | L_other string \<comment> \<open>any other object, by the name of its type\<close>

datatype log_object = L_mapping "(string \<times> log_value) list" | L_sequence "log_value list"

type_synonym log_heap = "(nat \<times> log_object) list"

definition hidden_field :: "string option \<Rightarrow> bool" where
  "hidden_field field = (case field of None \<Rightarrow> False | Some f \<Rightarrow> is_sensitive_field f)"

text \<open>The keys of a mapping are the texts of its keys; equal texts leave the last value.\<close>

definition dict_of :: "('k \<times> 'v) list \<Rightarrow> ('k, 'v) dict" where
  "dict_of items = fold (\<lambda>(k, v). dict_set k v) items []"

text \<open>Every container is entered at most once on a path, and so redaction ends on cyclic data too.\<close>

lemma entered_once:
  assumes "map_of h a = Some x" "a \<notin> set seen"
  shows "card (fst ` set h - set (a # seen)) < card (fst ` set h - set seen)"
proof (rule psubset_card_mono)
  have "a \<in> fst ` set h - set seen" using assms by (force dest: map_of_SomeD)
  then show "fst ` set h - set (a # seen) \<subset> fst ` set h - set seen" by auto
qed simp

function redact_for_log :: "log_heap \<Rightarrow> nat list \<Rightarrow> string option \<Rightarrow> log_value \<Rightarrow> pyval" where
  "redact_for_log h seen field v =
     (if hidden_field field then PStr redacted
      else case v of
        L_secret \<Rightarrow> PStr redacted
      | L_none \<Rightarrow> PNone
      | L_bool b \<Rightarrow> PBool b
      | L_int i \<Rightarrow> PInt i
      | L_float f \<Rightarrow> PFloat f
      | L_str s \<Rightarrow> PStr (redact_text s)
      | L_bytes n \<Rightarrow> PStr (''<bytes:'' @ nat_text n @ ''>'')
      | L_text s \<Rightarrow> PStr s
      | L_other t \<Rightarrow> PStr (''<'' @ t @ ''>'')
      | L_ref a \<Rightarrow>
          if a \<in> set seen then PStr ''[RECURSIVE]''
          else case map_of h a of
            None \<Rightarrow> PStr ''<object>''
          | Some (L_mapping items) \<Rightarrow> PDict (dict_of (map (\<lambda>(k, x). (k, redact_for_log h (a # seen) (Some k) x)) items))
          | Some (L_sequence xs) \<Rightarrow> PList (map (redact_for_log h (a # seen) None) xs))"
  by pat_completeness auto

termination
  by (relation "measure (\<lambda>(h, seen, field, v). card (fst ` set h - set seen))") (auto dest: entered_once)

declare redact_for_log.simps [simp del]

section \<open>Records\<close>

record log_record =
  lg_timestamp :: string
  lg_level :: string
  lg_logger :: string
  lg_message :: string
  lg_event :: log_value
  lg_fields :: "(string \<times> log_value) list"
  lg_context :: log_value
  lg_exception_type :: "string option"

definition correlation_fields :: "string list" where
  "correlation_fields =
     [''message_id'', ''source_channel_id'', ''processing_range_id'', ''range_execution_id'', ''analysis_run_id'',
      ''stage_run_id'', ''inference_call_id'', ''routing_evaluation_id'', ''publication_intent_id'']"

definition attribute_entry :: "log_heap \<Rightarrow> string \<Rightarrow> bool \<Rightarrow> log_value \<Rightarrow> (string, pyval) dict" where
  "attribute_entry h name named v =
     (if v = L_none then [] else [(name, redact_for_log h [] (if named then Some name else None) v)])"

definition is_mapping :: "log_heap \<Rightarrow> log_value \<Rightarrow> bool" where
  "is_mapping h v =
     (case v of L_ref a \<Rightarrow> (case map_of h a of Some (L_mapping items) \<Rightarrow> True | _ \<Rightarrow> False) | _ \<Rightarrow> False)"

definition log_payload :: "string \<Rightarrow> log_heap \<Rightarrow> log_record \<Rightarrow> (string, pyval) dict" where
  "log_payload service h r =
     [(''timestamp'', PStr (lg_timestamp r)), (''service'', PStr service), (''level'', PStr (lg_level r)),
      (''logger'', PStr (lg_logger r)), (''message'', PStr (redact_text (lg_message r)))]
     @ attribute_entry h ''event'' False (lg_event r)
     @ concat (map (\<lambda>f. attribute_entry h f True (case map_of (lg_fields r) f of None \<Rightarrow> L_none | Some v \<Rightarrow> v)) correlation_fields)
     @ (if is_mapping h (lg_context r) then [(''context'', redact_for_log h [] None (lg_context r))] else [])
     @ (case lg_exception_type r of None \<Rightarrow> [] | Some t \<Rightarrow> [(''exception_type'', PStr t)])"

text \<open>
  The line is the JSON text of the payload, which determines it; a payload with an infinite or undefined
  float has none and raises.
\<close>

definition format_record :: "(rat \<Rightarrow> string) \<Rightarrow> string \<Rightarrow> log_heap \<Rightarrow> log_record \<Rightarrow> (string, pyval) dict result" where
  "format_record float_text service h r =
     (case json_text float_text (PDict (log_payload service h r)) of
        None \<Rightarrow> Inl ValueError | Some t \<Rightarrow> Inr (log_payload service h r))"

section \<open>What the log cannot show\<close>

definition same_public :: "log_object \<Rightarrow> log_object \<Rightarrow> bool" where
  "same_public x y =
     (case (x, y) of
        (L_mapping d, L_mapping e) \<Rightarrow> list_all2 (\<lambda>(k, v) (l, w). k = l \<and> (is_sensitive_field k \<or> v = w)) d e
      | (L_sequence xs, L_sequence ys) \<Rightarrow> xs = ys
      | _ \<Rightarrow> False)"

definition same_public_heap :: "log_heap \<Rightarrow> log_heap \<Rightarrow> bool" where
  "same_public_heap h h' = list_all2 (\<lambda>(a, x) (b, y). a = b \<and> same_public x y) h h'"

lemma same_public_lookup: "same_public_heap h h' \<Longrightarrow> rel_option same_public (map_of h a) (map_of h' a)"
  unfolding same_public_heap_def by (induction rule: list_all2_induct) auto

lemma redact_same_public:
  "same_public_heap h h' \<Longrightarrow> redact_for_log h seen field v = redact_for_log h' seen field v"
proof (induction h seen field v rule: redact_for_log.induct)
  case (1 h seen field v)
  show ?case
  proof (cases "\<not> hidden_field field \<and> (\<exists>a. v = L_ref a \<and> a \<notin> set seen)")
    case False
    then show ?thesis by (cases v) (auto simp: redact_for_log.simps [of _ _ field])
  next
    case True
    then obtain a where a: "\<not> hidden_field field" "v = L_ref a" "a \<notin> set seen" by blast
    note lookup = same_public_lookup [OF "1.prems", of a]
    show ?thesis
    proof (cases "map_of h a")
      case None
      with lookup a show ?thesis by (simp add: redact_for_log.simps [of _ _ field] rel_option_None1)
    next
      case (Some x)
      with lookup obtain y where Some: "map_of h a = Some x" "map_of h' a = Some y" "same_public x y"
        by (auto simp: option_rel_Some1)
      show ?thesis
      proof (cases x)
        case (L_mapping d)
        with Some obtain e where e: "y = L_mapping e" "list_all2 (\<lambda>(k, v) (l, w). k = l \<and> (is_sensitive_field k \<or> v = w)) d e"
          by (cases y) (auto simp: same_public_def)
        have ih: "redact_for_log h (a # seen) (Some k) u = redact_for_log h' (a # seen) (Some k) u" if "(k, u) \<in> set d" for k u
          using "1.IH"(1) [OF a(1,2,3) Some(1) L_mapping that] "1.prems" by simp
        from e(2) have "map (\<lambda>(k, x). (k, redact_for_log h (a # seen) (Some k) x)) d
            = map (\<lambda>(k, x). (k, redact_for_log h' (a # seen) (Some k) x)) e"
          using ih by (induction rule: list_all2_induct) (auto simp: redact_for_log.simps hidden_field_def)
        with a Some L_mapping e(1) show ?thesis by (simp add: redact_for_log.simps [of _ _ field])
      next
        case (L_sequence xs)
        with Some have y: "y = L_sequence xs" by (cases y) (auto simp: same_public_def)
        have "redact_for_log h (a # seen) None u = redact_for_log h' (a # seen) None u" if "u \<in> set xs" for u
          using "1.IH"(2) [OF a(1,2,3) Some(1) L_sequence that] "1.prems" by simp
        with a Some L_sequence y show ?thesis by (simp add: redact_for_log.simps [of _ _ field])
      qed
    qed
  qed
qed

lemma mapping_same_public: "same_public_heap h h' \<Longrightarrow> is_mapping h v = is_mapping h' v"
proof (cases v)
  case (L_ref a)
  assume "same_public_heap h h'"
  from same_public_lookup [OF this, of a] L_ref show ?thesis
    by (cases "map_of h a"; cases "map_of h' a") (auto simp: is_mapping_def same_public_def split: log_object.splits)
qed (simp_all add: is_mapping_def)

text \<open>
  C30: The log shows nothing that is kept under a credential-bearing name: two states of the program whose
  objects differ only in values under such names, at any depth and also where objects contain themselves,
  are logged by the same line, or both raise.
\<close>

theorem log_hides_credentials:
  assumes "same_public_heap h h'"
  shows "format_record float_text service h r = format_record float_text service h' r"
  unfolding format_record_def log_payload_def attribute_entry_def
  by (simp only: redact_same_public [OF assms] mapping_same_public [OF assms])

definition sample_heap :: "string \<Rightarrow> log_heap" where
  "sample_heap password =
     [(1, L_mapping [(''user'', L_str ''ann''), (''Api-Key'', L_str password), (''self'', L_ref 1), (''items'', L_ref 2)]),
      (2, L_sequence [L_int 5, L_str ''password: hunter2 ok'', L_str ''Authorization: Bearer abc.def''])]"

definition sample_log_record :: log_record where
  "sample_log_record = \<lparr>lg_timestamp = ''now'', lg_level = ''INFO'', lg_logger = ''worker'', lg_message = ''done'',
     lg_event = L_none, lg_fields = [(''stage_run_id'', L_text ''1'')], lg_context = L_ref 1, lg_exception_type = None\<rparr>"

theorem log_hides_credentials_witness:
  "format_record (\<lambda>q. []) ''svc'' (sample_heap ''hunter2'') sample_log_record = format_record (\<lambda>q. []) ''svc'' (sample_heap ''x'') sample_log_record
   \<and> redact_for_log (sample_heap ''x'') [] None (L_ref 1) =
     PDict [(''user'', PStr ''ann''), (''Api-Key'', PStr ''[REDACTED]''), (''self'', PStr ''[RECURSIVE]''),
       (''items'', PList [PInt 5, PStr ''password: [REDACTED] ok'', PStr ''Authorization: [REDACTED] [REDACTED]''])]"
proof
  have s: "is_sensitive_field ''Api-Key''" by code_simp
  show "format_record (\<lambda>q. []) ''svc'' (sample_heap ''hunter2'') sample_log_record
      = format_record (\<lambda>q. []) ''svc'' (sample_heap ''x'') sample_log_record"
    by (rule log_hides_credentials) (simp add: same_public_heap_def sample_heap_def same_public_def s)
  show "redact_for_log (sample_heap ''x'') [] None (L_ref 1) =
     PDict [(''user'', PStr ''ann''), (''Api-Key'', PStr ''[REDACTED]''), (''self'', PStr ''[RECURSIVE]''),
       (''items'', PList [PInt 5, PStr ''password: [REDACTED] ok'', PStr ''Authorization: [REDACTED] [REDACTED]''])]"
    by code_simp
qed

text \<open>
  In a text a name only counts where a word begins: the value of a longer name, such as \<^verbatim>\<open>bot_token\<close>, stays
  readable, although the same name of a field is credential-bearing.
\<close>

lemma longer_names_stay_readable:
  "redact_text ''bot_token=123:abc'' = ''bot_token=123:abc'' \<and> redact_text ''token=123:abc'' = ''token=[REDACTED]''
   \<and> is_sensitive_field ''bot_token''"
  by code_simp

text \<open>A float that is not a number makes the record unprintable.\<close>

lemma nan_is_not_logged:
  "format_record (\<lambda>q. []) ''svc'' [(1, L_mapping [(''score'', L_float NaN)])] sample_log_record = Inl ValueError"
  by code_simp

end
