(* ===== verification/Spec2Isabelle.thy ===== *)
theory Spec2Isabelle
  imports Publishing Routing_Facts Routing_Records Result_Validator Pipeline
    Range_Scheduling Range_Liveness Review_Store Message_Redelivery Reconciliation
    Archive_Liveness Archive_Workers Audit_Json Analysis_Worker Log_Redaction
begin

text \<open>
  Verification development for TG-VLM-Curator, a service that reads Telegram channels, has
  vision-language models label the messages and their media, lets people review the labels, and
  routes the messages to destination channels.

  \<^bold>\<open>The program.\<close>  The code under \<^verbatim>\<open>src/tgcurator\<close> has a domain layer (\<^verbatim>\<open>domain/\<close>: frozen
  dataclasses whose constructors raise, and pure functions), an application layer
  (\<^verbatim>\<open>application/\<close>: services over ports) and an infrastructure layer (\<^verbatim>\<open>infrastructure/\<close>:
  PostgreSQL repositories and adapters).  A processing range of a source channel is cut into
  windows of message ids (scheduler), each window is an execution that a worker leases, advances
  and completes, and wake-ups in the database tell the workers what to do (dispatcher).  A
  message is analysed by a pipeline of stages; the answer of a model is validated against a
  label set, the labels become facts, the facts decide the conditions of later stages and of the
  routing rules, and the routed actions become publication intents with an idempotency key.

  \<^bold>\<open>Theories.\<close>
  \<^item> \<^theory_text>\<open>Prelude\<close>: exceptions as values of a sum type (\<^verbatim>\<open>shared/errors.py\<close>), time checks
    (\<^verbatim>\<open>shared/time.py\<close>), dictionaries in insertion order (locale \<^theory_text>\<open>finite_map\<close>), tables.
  \<^item> \<^theory_text>\<open>Py_Values\<close>: Python values as JSON data, numbers with their comparison rules, the
    validators of \<^verbatim>\<open>domain/analysis/common.py\<close>.
  \<^item> \<^theory_text>\<open>Routing_DSL\<close>: \<^verbatim>\<open>domain/routing/dsl.py\<close>, validator and evaluator of conditions.  The
    evaluator is shown total on accepted conditions and equal to Kleene's three-valued logic.
  \<^item> \<^theory_text>\<open>Json_Data\<close>: facts snapshots (\<^verbatim>\<open>dsl.py\<close>) and \<^verbatim>\<open>require_json_object\<close>.
  \<^item> \<^theory_text>\<open>Routing_Policy\<close>: \<^verbatim>\<open>domain/routing/models.py\<close>, with the declarative reading of a policy that
    \<^verbatim>\<open>evaluate_routing\<close> refines.
  \<^item> \<^theory_text>\<open>Publishing\<close>: \<^verbatim>\<open>domain/publishing/idempotency.py\<close>, with the JSON text that is hashed.
  \<^item> \<^theory_text>\<open>Labels\<close>: \<^verbatim>\<open>domain/analysis/labels.py\<close>, \<^verbatim>\<open>facts.py\<close>, \<^verbatim>\<open>negative_gate.py\<close>.
  \<^item> \<^theory_text>\<open>Result_Validator\<close>: \<^verbatim>\<open>domain/analysis/result_validator.py\<close>.
  \<^item> \<^theory_text>\<open>Pipeline_Graph\<close>, \<^theory_text>\<open>Pipeline\<close>: \<^verbatim>\<open>domain/analysis/pipeline.py\<close>, \<^verbatim>\<open>stages.py\<close>,
    \<^verbatim>\<open>conditions.py\<close>.  Conditions on facts read earlier stages only; the label operators of a
    condition are not checked against the graph.
  \<^item> \<^theory_text>\<open>Range_Domain\<close>: \<^verbatim>\<open>domain/processing/models.py\<close>.
  \<^item> \<^theory_text>\<open>Leases\<close>: the locale of rows that are leased under tokens, interpreted on executions and
    on wake-ups.
  \<^item> \<^theory_text>\<open>Range_Database\<close>: the tables and transactions of
    \<^verbatim>\<open>infrastructure/database/processing_repository.py\<close>; \<^theory_text>\<open>Range_Execution\<close>: the step relation of
    the database, every transaction of the repositories with any arguments, and the invariant of its
    windows.  \<^verbatim>\<open>complete_for_entity\<close>, which no code of the repository calls, is taken under its purpose:
    it is not called for an execution that is unfinished.  \<^theory_text>\<open>Range_Liveness\<close>: leases, wake-ups and the
    properties of reachable databases: a delivered wake-up leases its execution or ends it.
    \<^theory_text>\<open>Range_Scheduling\<close>: \<^verbatim>\<open>application/processing/scheduler.py\<close>
    and \<^verbatim>\<open>execution_worker.py\<close>.
  \<^item> \<^theory_text>\<open>Uuids\<close>: \<^verbatim>\<open>uuid.UUID\<close> and its canonical text, an executable parser with its round trip.
  \<^item> \<^theory_text>\<open>Review_Labels\<close>, \<^theory_text>\<open>Review_Store\<close>: \<^verbatim>\<open>domain/review/\<close>, \<^verbatim>\<open>application/review/service.py\<close> and
    \<^verbatim>\<open>review_repository.py\<close>: append-only label events and status transitions.
  \<^item> \<^theory_text>\<open>Routing_Service\<close>, \<^theory_text>\<open>Routing_Store\<close>, \<^theory_text>\<open>Routing_Records\<close>, \<^theory_text>\<open>Routing_Facts\<close>:
    \<^verbatim>\<open>application/routing/service.py\<close> over \<^verbatim>\<open>routing_repository.py\<close>: the snapshot of a request is
    loaded, evaluated, stored and read back.
  \<^item> \<^theory_text>\<open>Messages\<close>, \<^theory_text>\<open>Message_Normalization\<close>: \<^verbatim>\<open>domain/messages/\<close>, Telegram messages grouped into
    logical ones.  \<^theory_text>\<open>Message_Tables\<close>, \<^theory_text>\<open>Message_Store\<close>: the message and asset tables and the
    transactions of \<^verbatim>\<open>message_ingest_repository.py\<close> and \<^verbatim>\<open>source_lifecycle_repository.py\<close> with
    their services.  \<^theory_text>\<open>Message_Invariant\<close>: the step relation of these tables and its invariant;
    \<^theory_text>\<open>Message_Redelivery\<close>: what a repeated or a partial delivery does; a message stored again right
    after it was stored only gets new \<^verbatim>\<open>updated_at\<close> columns.
  \<^item> \<^theory_text>\<open>Media_Group_Buffer\<close>: \<^verbatim>\<open>application/media_group_buffer.py\<close>.  \<^theory_text>\<open>Reconciliation\<close>: the cursors
    (\<^verbatim>\<open>reconciliation_repository.py\<close>), \<^verbatim>\<open>application/reconciliation.py\<close>,
    \<^verbatim>\<open>realtime_ingestion.py\<close> and \<^verbatim>\<open>processing/history_ingestion.py\<close>, which compose the buffer, the
    message store and the processing database.
  \<^item> \<^theory_text>\<open>Py_Floats\<close>: arithmetic of IEEE doubles, exact rationals rounded half to even.
  \<^item> \<^theory_text>\<open>Media_Artifacts\<close>: \<^verbatim>\<open>application/ports/media.py\<close>.  \<^theory_text>\<open>Video_Sampling\<close>:
    \<^verbatim>\<open>application/media/videos.py\<close>.  \<^theory_text>\<open>Archive_Storage\<close>: \<^verbatim>\<open>infrastructure/archive/local_storage.py\<close>
    (locale \<^theory_text>\<open>write_once\<close>).
  \<^item> \<^theory_text>\<open>Media_Archive\<close>: \<^verbatim>\<open>image_archive_repository.py\<close> and \<^verbatim>\<open>video_archive_repository.py\<close>;
    \<^theory_text>\<open>Archive_Invariant\<close>: table constraints, leases and wake-ups as an invariant of each
    transaction; \<^theory_text>\<open>Archive_Steps\<close>: ingestion, dispatcher and archive workers as one step relation;
    \<^theory_text>\<open>Archive_Liveness\<close>: the claim of an unfinished asset leases it or gives it up, so none is stranded;
    \<^theory_text>\<open>Archive_Workers\<close>: \<^verbatim>\<open>archive_worker.py\<close>, \<^verbatim>\<open>images.py\<close>, \<^verbatim>\<open>video_archive_worker.py\<close>.
  \<^item> \<^theory_text>\<open>Canonical_Json\<close>: \<^verbatim>\<open>json.dumps\<close> with sorted keys and the canonical hash;
    \<^theory_text>\<open>Audit_Json\<close>: \<^verbatim>\<open>sanitize_json\<close> of \<^verbatim>\<open>infrastructure/database/analysis_repository.py\<close>, the
    redaction of what is stored, against a specification of credentials of its own: how keys are
    spelled and what a web address is;
    \<^theory_text>\<open>Prompt_Profiles\<close>: \<^verbatim>\<open>domain/analysis/prompt.py\<close> and \<^verbatim>\<open>profiles.py\<close>;
    \<^theory_text>\<open>Stage_Cache\<close>: \<^verbatim>\<open>cache.py\<close>; \<^theory_text>\<open>Input_Manifest\<close>: \<^verbatim>\<open>manifest.py\<close>;
    \<^theory_text>\<open>Output_Schema\<close>: \<^verbatim>\<open>schema.py\<close>, the schema sent to the provider, which accepts what the validator
    accepts.
  \<^item> \<^theory_text>\<open>Analysis_Store\<close>: the tables of the analysis engine and the transactions of
    \<^verbatim>\<open>infrastructure/database/analysis_repository.py\<close>; \<^theory_text>\<open>Analysis_Invariant\<close>: the constraints of
    these tables as an invariant, and how rows may evolve; \<^theory_text>\<open>Analysis_Steps\<close>: every transaction
    keeps it; \<^theory_text>\<open>Analysis_Sample\<close>: a small analysis to evaluate the engine on;
    \<^theory_text>\<open>Analysis_Engine\<close>: the step relation of the engine, leases, retries and the status of runs;
    \<^theory_text>\<open>Analysis_Results\<close>: what a commit stores, and the negative gate.
  \<^item> \<^theory_text>\<open>Analysis_Input\<close>: \<^verbatim>\<open>application/analysis/input_composer.py\<close> and \<^verbatim>\<open>orchestrator.py\<close>;
    \<^theory_text>\<open>Analysis_Loading\<close>: \<^verbatim>\<open>load_stage_snapshot\<close>, which rebuilds a stage from its rows with every
    check; \<^theory_text>\<open>Analysis_Worker\<close>: \<^verbatim>\<open>application/analysis/worker.py\<close>, a sequence of transactions with
    arbitrary steps of other processes in between.  It is shown to implement the engine, and never
    to return with a lease in its hands.
  \<^item> \<^theory_text>\<open>Log_Redaction\<close>: \<^verbatim>\<open>infrastructure/observability/logging.py\<close>, redaction of texts and of
    values that may contain themselves, and what a log line cannot show.

  No code of the repository inserts analysis runs or stage runs; the engine starts from any tables
  of new rows.

  \<^bold>\<open>Interfaces.\<close>  Dictionaries are used through the locale \<^theory_text>\<open>finite_map\<close>, leased rows (executions,
  wake-ups, images, videos, stage runs) through \<^theory_text>\<open>leased_row\<close>, idempotent upserts of assets through
  \<^theory_text>\<open>asset_upsert\<close> and its extensions \<^theory_text>\<open>archived_upsert\<close> and \<^theory_text>\<open>owned_upsert\<close>, the routing repository through
  \<^theory_text>\<open>routing_repository\<close>, the archive through \<^theory_text>\<open>write_once\<close>; each is interpreted on the model of the
  code, in the theory that provides it.

  \<^bold>\<open>Conventions.\<close>  Exceptions are values (\<^theory_text>\<open>Inl\<close>).  A transaction is a function from the tables
  before to the tables after; on an exception the tables are those before.  Concurrency is the
  interleaving of transactions; rows that another transaction has locked are an argument of the
  queries that skip them.  New UUIDs, the clock, SHA-256, Telegram, image and video processing and
  the broker are arguments.  Times are integers, in microseconds where the code adds a delay in
  seconds, with awareness where the code checks it; the \<^verbatim>\<open>OverflowError\<close> of a date beyond the year
  9999 is not modelled.  JSONB columns read back what was stored; that PostgreSQL may
  reorder the keys of an object is not modelled.  All
  recursion ends by structure or by a measure; no fuel is used.

  \<^bold>\<open>Not modelled.\<close>  SQLAlchemy sessions, row-lock waits and deadlocks.  The parser of JSON text
  of the standard library, and with it \<^verbatim>\<open>domain/configuration/versions.py\<close>, which no other module
  uses.  The tables of configuration versions, secrets and administrators, whose code is one insert
  or select per operation, and encryption.  The adapters that call Telethon,
  ffmpeg, Pillow, Celery or HTTP: their behaviour is that of the libraries.  Process wiring and
  settings, and the migrations, which are declarations of tables; the constraints that the
  transactions rely on are in the models of the tables.
\<close>

end
